(* ===== verification/Prelude.thy ===== *)
theory Prelude
  imports Main "HOL-Library.Word"
begin

text \<open>
  What the component theories share: names for the machine integer types, the collections of
  facts the proofs of a component use (\<open>sk_inv\<close> for preserved invariants, \<open>sk_run\<close> for facts on
  whole runs), the first index of a list that satisfies a test (the shape of every linear slot
  search of the code), the live window of a circular array, and the run of an incremental
  octet machine over a list of octets.
\<close>

section \<open>Machine integers and fact collections\<close>

type_synonym u8 = "8 word"
type_synonym u16 = "16 word"
type_synonym u32 = "32 word"
type_synonym u64 = "64 word"

named_theorems sk_inv \<open>invariants kept by the operations\<close>
named_theorems sk_run \<open>facts on whole runs\<close>

text \<open>A \<open>char\<close> of the code read as an octet, and an octet cast to \<open>char\<close>.\<close>

abbreviation octet_of :: "char \<Rightarrow> u8" where
  "octet_of c \<equiv> of_char c"

abbreviation char_of_octet :: "u8 \<Rightarrow> char" where
  "char_of_octet b \<equiv> char_of (unat b)"

abbreviation octets :: "string \<Rightarrow> u8 list" where
  "octets \<equiv> map (\<lambda>c. octet_of c)"

abbreviation CR :: char where "CR \<equiv> CHR 0x0D"
abbreviation LF :: char where "LF \<equiv> CHR 0x0A"
abbreviation TAB :: char where "TAB \<equiv> CHR 0x09"
abbreviation NUL :: char where "NUL \<equiv> CHR 0x00"

lemma unat_octet_of [simp]: "unat (octet_of c) = of_char c"
proof -
  have "octet_of c = of_nat (of_char c)" by (rule of_nat_of_char [symmetric])
  then show ?thesis
    using nat_of_char_less_256 [of c] by (simp only: unat_of_nat) simp
qed

lemma octet_of_char_of_octet [simp]: "octet_of (char_of_octet b) = b"
proof -
  have "unat b < 256" using unsigned_less [of b] by simp
  then have "unat (octet_of (char_of_octet b)) = unat b" by simp
  then show ?thesis by (simp add: word_unat_eq_iff)
qed

lemma char_of_octet_of [simp]: "char_of_octet (octet_of c) = c"
  by simp

section \<open>Linear searches\<close>

text \<open>
  \<open>index_where p xs\<close> is the index the loop
  \<^verbatim>\<open>for (i = 0; i < n; ++i) if (p(xs[i])) return i;\<close> returns, or \<open>None\<close> where the loop ends.
\<close>

fun index_where :: "('a \<Rightarrow> bool) \<Rightarrow> 'a list \<Rightarrow> nat option" where
  "index_where p [] = None"
| "index_where p (x # xs) = (if p x then Some 0 else map_option Suc (index_where p xs))"

lemma index_where_None: "index_where p xs = None \<longleftrightarrow> (\<forall>x \<in> set xs. \<not> p x)"
  by (induction xs) auto

lemma index_where_SomeD:
  "index_where p xs = Some i \<Longrightarrow> i < length xs \<and> p (xs ! i) \<and> (\<forall>j < i. \<not> p (xs ! j))"
proof (induction xs arbitrary: i)
  case (Cons x xs)
  then show ?case
    by (cases i) (auto split: if_splits simp: less_Suc_eq_0_disj)
qed simp

lemma index_where_SomeI:
  "i < length xs \<Longrightarrow> p (xs ! i) \<Longrightarrow> (\<And>j. j < i \<Longrightarrow> \<not> p (xs ! j)) \<Longrightarrow> index_where p xs = Some i"
proof (induction xs arbitrary: i)
  case (Cons x xs)
  show ?case
  proof (cases i)
    case 0
    with Cons.prems show ?thesis by simp
  next
    case (Suc k)
    have "\<not> p x" using Cons.prems(3) [of 0] Suc by simp
    moreover have "\<not> p (xs ! j)" if "j < k" for j
      using Cons.prems(3) [of "Suc j"] Suc that by simp
    then have "index_where p xs = Some k"
      using Cons.prems Suc by (intro Cons.IH) auto
    ultimately show ?thesis using Suc by simp
  qed
qed simp

lemma index_where_bound: "index_where p xs = Some i \<Longrightarrow> i < length xs"
  by (simp add: index_where_SomeD)

lemma index_where_hit: "index_where p xs = Some i \<Longrightarrow> p (xs ! i)"
  by (simp add: index_where_SomeD)

lemma index_where_exists: "(\<exists>i. index_where p xs = Some i) \<longleftrightarrow> (\<exists>x \<in> set xs. p x)"
  using index_where_None [of p xs] by (cases "index_where p xs") auto

lemma index_where_cong:
  "xs = ys \<Longrightarrow> (\<And>x. x \<in> set ys \<Longrightarrow> p x = q x) \<Longrightarrow> index_where p xs = index_where q ys"
  by (induction ys arbitrary: xs) auto

section \<open>Circular arrays\<close>

text \<open>
  The \<open>n\<close> live elements of a circular array of capacity \<open>cap\<close> whose oldest element is at
  index \<open>s\<close>, oldest first.
\<close>

definition window :: "nat \<Rightarrow> 'a list \<Rightarrow> nat \<Rightarrow> nat \<Rightarrow> 'a list" where
  "window cap arr s n = map (\<lambda>i. arr ! ((s + i) mod cap)) [0..<n]"

lemma length_window [simp]: "length (window cap arr s n) = n"
  by (simp add: window_def)

lemma window_0 [simp]: "window cap arr s 0 = []"
  by (simp add: window_def)

lemma window_eq_Nil [simp]: "window cap arr s n = [] \<longleftrightarrow> n = 0"
  by (simp add: window_def)

lemma nth_window [simp]: "i < n \<Longrightarrow> window cap arr s n ! i = arr ! ((s + i) mod cap)"
  by (simp add: window_def)

lemma window_snoc: "window cap arr s (Suc n) = window cap arr s n @ [arr ! ((s + n) mod cap)]"
  by (simp add: window_def)

lemma window_cons: "window cap arr s (Suc n) = arr ! (s mod cap) # window cap arr (Suc s) n"
  by (simp add: window_def upt_conv_Cons map_Suc_upt [symmetric] del: upt_Suc)

lemma window_mod_start [simp]: "window cap arr (s mod cap) n = window cap arr s n"
  by (simp add: window_def mod_add_left_eq)

lemma mod_add_inj_le:
  assumes "(s + i) mod cap = (s + j) mod cap" "i \<le> j" "j < (cap :: nat)"
  shows "i = j"
proof -
  have "cap dvd (s + j) - (s + i)"
    using assms(1,2) mod_eq_dvd_iff_nat [of "s + i" "s + j" cap] by simp
  then have "cap dvd j - i" by simp
  moreover have "j - i < cap" using assms(3) by simp
  ultimately have "j - i = 0" by (metis dvd_imp_le gr_zeroI leD)
  with assms(2) show ?thesis by simp
qed

lemma mod_add_inj:
  assumes "(s + i) mod cap = (s + j) mod cap" "i < cap" "j < (cap :: nat)"
  shows "i = j"
  using mod_add_inj_le [of s i cap j] mod_add_inj_le [of s j cap i] assms
  by (cases "i \<le> j") auto

lemma window_update_outside:
  assumes "n < cap" "length arr = cap"
  shows "window cap (arr[(s + n) mod cap := x]) s n = window cap arr s n"
proof (rule nth_equalityI)
  fix i assume "i < length (window cap (arr[(s + n) mod cap := x]) s n)"
  then have i: "i < n" by simp
  then have "(s + i) mod cap \<noteq> (s + n) mod cap"
    using mod_add_inj [of s i cap n] assms(1) by auto
  with i show "window cap (arr[(s + n) mod cap := x]) s n ! i = window cap arr s n ! i"
    by simp
qed simp

lemma window_put:
  assumes "n < cap" "length arr = cap"
  shows "window cap (arr[(s + n) mod cap := x]) s (Suc n) = window cap arr s n @ [x]"
proof -
  have "(s + n) mod cap < cap" using assms(1) by simp
  then show ?thesis
    using window_update_outside [OF assms, of s x] assms(2) by (simp add: window_snoc)
qed

lemma window_update_inside:
  assumes "k < n" "n \<le> cap" "length arr = cap"
  shows "window cap (arr[(s + k) mod cap := x]) s n = (window cap arr s n)[k := x]"
proof (rule nth_equalityI)
  fix i assume "i < length (window cap (arr[(s + k) mod cap := x]) s n)"
  then have i: "i < n" by simp
  have b: "(s + k) mod cap < length arr" using assms by simp
  show "window cap (arr[(s + k) mod cap := x]) s n ! i = (window cap arr s n)[k := x] ! i"
  proof (cases "i = k")
    case True
    with i b show ?thesis by simp
  next
    case False
    then have "(s + i) mod cap \<noteq> (s + k) mod cap"
      using mod_add_inj [of s i cap k] i assms by auto
    with False i show ?thesis by simp
  qed
qed simp

section \<open>Incremental octet machines\<close>

text \<open>
  A reader of the code consumes one octet at a time and may hand messages to a callback.
  It is a function \<open>step s b = (s', ms)\<close>, where \<open>ms\<close> are the messages handed over while \<open>b\<close>
  is consumed; \<open>feed step s bs\<close> is its run over the octets \<open>bs\<close>.
\<close>

fun feed :: "('s \<Rightarrow> 'b \<Rightarrow> 's \<times> 'm list) \<Rightarrow> 's \<Rightarrow> 'b list \<Rightarrow> 's \<times> 'm list" where
  "feed step s [] = (s, [])"
| "feed step s (b # bs) =
     (let (s1, ms1) = step s b; (s2, ms2) = feed step s1 bs in (s2, ms1 @ ms2))"

lemma feed_append:
  "feed step s (xs @ ys) =
     (let (s1, ms1) = feed step s xs; (s2, ms2) = feed step s1 ys in (s2, ms1 @ ms2))"
  by (induction xs arbitrary: s) (auto simp: Let_def split: prod.splits)

lemma feed_appendI [sk_run]:
  "feed step s xs = (s1, ms1) \<Longrightarrow> feed step s1 ys = (s2, ms2) \<Longrightarrow>
   feed step s (xs @ ys) = (s2, ms1 @ ms2)"
  by (simp add: feed_append)

lemma feed_concat:
  "feed step s (concat chunks) =
     foldl (\<lambda>(s, ms) chunk. let (s', ms') = feed step s chunk in (s', ms @ ms')) (s, []) chunks"
proof (induction chunks rule: rev_induct)
  case (snoc c cs)
  then show ?case by (auto simp: feed_append Let_def split: prod.splits)
qed simp

text \<open>
  The contract of an incremental framer: an invariant every step keeps, a predicate that says the
  machine is between two messages, and an encoder of the messages it accepts such that from such
  a state the encoding of one message is turned into exactly that message.
\<close>

locale framer =
  fixes step :: "'s \<Rightarrow> 'b \<Rightarrow> 's \<times> 'm list"
    and inv :: "'s \<Rightarrow> bool"
    and ready :: "'s \<Rightarrow> bool"
    and encode :: "'m \<Rightarrow> 'b list"
    and valid :: "'m \<Rightarrow> bool"
  assumes inv_step: "inv s \<Longrightarrow> inv (fst (step s b))"
    and frame: "inv s \<Longrightarrow> ready s \<Longrightarrow> valid m \<Longrightarrow>
      ready (fst (feed step s (encode m))) \<and> snd (feed step s (encode m)) = [m]"
begin

lemma inv_feed: "inv s \<Longrightarrow> inv (fst (feed step s bs))"
proof (induction bs arbitrary: s)
  case (Cons b bs)
  obtain s1 ms1 where s1: "step s b = (s1, ms1)" by fastforce
  with inv_step [OF Cons.prems, of b] have "inv s1" by simp
  with Cons.IH s1 show ?case by (auto split: prod.splits) (metis fst_conv)
qed simp

lemma stream:
  "inv s \<Longrightarrow> ready s \<Longrightarrow> (\<And>m. m \<in> set ms \<Longrightarrow> valid m) \<Longrightarrow>
   ready (fst (feed step s (concat (map encode ms)))) \<and>
   snd (feed step s (concat (map encode ms))) = ms"
proof (induction ms arbitrary: s)
  case (Cons m ms)
  obtain s1 out where s1: "feed step s (encode m) = (s1, out)" by fastforce
  with frame [OF Cons.prems(1,2), of m] Cons.prems(3) [of m] inv_feed [OF Cons.prems(1), of "encode m"]
  have f: "ready s1" "out = [m]" "inv s1" by auto
  have "ready (fst (feed step s1 (concat (map encode ms)))) \<and>
        snd (feed step s1 (concat (map encode ms))) = ms"
    using f Cons.prems(3) by (intro Cons.IH) auto
  with s1 f show ?case by (auto simp: feed_append split: prod.splits)
qed simp

lemma stream_chunked:
  assumes "inv s" "ready s" "\<And>m. m \<in> set ms \<Longrightarrow> valid m"
    and "concat chunks = concat (map encode ms)"
  shows "snd (foldl (\<lambda>(s, ms) chunk. let (s', ms') = feed step s chunk in (s', ms @ ms'))
               (s, []) chunks) = ms"
  using stream [of s ms] assms feed_concat [of step s chunks] by simp

end

end
