(* ===== verification/Streams.thy ===== *)
theory Streams
  imports Prelude
begin

text \<open>
  The in-memory streams of the event loop library (\<^verbatim>\<open>memory_stream.hpp\<close>,
  \<^verbatim>\<open>memory_pin_event_source.hpp\<close>), the fixed-capacity vector (\<^verbatim>\<open>fixed_vector.hpp\<close>) and the
  whole-buffer write of \<^verbatim>\<open>stream_io.hpp\<close>. The contracts \<open>bounded_fifo\<close>, \<open>byte_source\<close> and
  \<open>byte_sink\<close> say what the rest of the code relies on in a stream; the in-memory streams are
  shown to meet them. A template parameter such as \<open>Capacity\<close> is an argument of the operations.
\<close>

section \<open>Contracts\<close>

fun put_all :: "('a \<Rightarrow> 's \<Rightarrow> bool \<times> 's) \<Rightarrow> 'a list \<Rightarrow> 's \<Rightarrow> 's" where
  "put_all put [] s = s"
| "put_all put (x # xs) s = put_all put xs (snd (put x s))"

fun get_all :: "('s \<Rightarrow> 'a option \<times> 's) \<Rightarrow> nat \<Rightarrow> 's \<Rightarrow> 'a list \<times> 's" where
  "get_all get 0 s = ([], s)"
| "get_all get (Suc n) s =
     (case get s of (None, s') \<Rightarrow> ([], s')
      | (Some x, s') \<Rightarrow> (let (xs, s'') = get_all get n s' in (x # xs, s'')))"

locale bounded_fifo =
  fixes cap :: nat
    and put :: "'a \<Rightarrow> 's \<Rightarrow> bool \<times> 's"
    and get :: "'s \<Rightarrow> 'a option \<times> 's"
    and elems :: "'s \<Rightarrow> 'a list"
    and inv :: "'s \<Rightarrow> bool"
  assumes put_room: "inv s \<Longrightarrow> length (elems s) < cap \<Longrightarrow>
      fst (put x s) \<and> inv (snd (put x s)) \<and> elems (snd (put x s)) = elems s @ [x]"
    and put_full: "inv s \<Longrightarrow> cap \<le> length (elems s) \<Longrightarrow> put x s = (False, s)"
    and get_some: "inv s \<Longrightarrow> elems s = x # xs \<Longrightarrow>
      fst (get s) = Some x \<and> inv (snd (get s)) \<and> elems (snd (get s)) = xs"
    and get_none: "inv s \<Longrightarrow> elems s = [] \<Longrightarrow> get s = (None, s)"
begin

lemma inv_put: "inv s \<Longrightarrow> inv (snd (put x s))"
  using put_room [of s x] put_full [of s x] by (cases "length (elems s) < cap") auto

lemma elems_put:
  "inv s \<Longrightarrow> elems (snd (put x s)) = (if length (elems s) < cap then elems s @ [x] else elems s)"
  using put_room [of s x] put_full [of s x] by auto

lemma put_all_elems:
  "inv s \<Longrightarrow> length (elems s) \<le> cap \<Longrightarrow>
   inv (put_all put xs s) \<and> elems (put_all put xs s) = elems s @ take (cap - length (elems s)) xs"
proof (induction xs arbitrary: s)
  case (Cons x xs)
  have i: "inv (snd (put x s))" using Cons.prems(1) by (rule inv_put)
  have e: "elems (snd (put x s)) = (if length (elems s) < cap then elems s @ [x] else elems s)"
    using Cons.prems(1) by (rule elems_put)
  have l: "length (elems (snd (put x s))) \<le> cap" using e Cons.prems(2) by auto
  show ?case using Cons.IH [OF i l] e Cons.prems(2)
    by (auto simp: take_Cons' diff_Suc Suc_le_eq split: nat.splits)
qed simp

lemma get_all_elems:
  "inv s \<Longrightarrow> fst (get_all get n s) = take n (elems s) \<and>
   inv (snd (get_all get n s)) \<and> elems (snd (get_all get n s)) = drop n (elems s)"
proof (induction n arbitrary: s)
  case (Suc n)
  show ?case
  proof (cases "elems s")
    case Nil
    with get_none [OF Suc.prems] Suc.prems show ?thesis by simp
  next
    case (Cons x xs)
    obtain s' where s': "get s = (Some x, s')" "inv s'" "elems s' = xs"
      using get_some [OF Suc.prems Cons] by (metis prod.collapse)
    with Suc.IH [OF s'(2)] Cons show ?thesis by (auto split: prod.splits)
  qed
qed simp

lemma fifo_order:
  assumes "inv s" "length (elems s) \<le> cap"
  shows "fst (get_all get n (put_all put xs s)) =
         take n (elems s @ take (cap - length (elems s)) xs)"
  using put_all_elems [OF assms, of xs] get_all_elems [of "put_all put xs s" n] by simp

end

text \<open>
  A source of octets: it is readable when octets are pending, and a read of a positive length
  hands over a prefix of them, all of them that fit.
\<close>

locale byte_source =
  fixes readable :: "'s \<Rightarrow> bool"
    and rd :: "nat \<Rightarrow> 's \<Rightarrow> u8 list \<times> 's"
    and pending :: "'s \<Rightarrow> u8 list"
    and inv :: "'s \<Rightarrow> bool"
  assumes readable: "inv s \<Longrightarrow> readable s \<longleftrightarrow> pending s \<noteq> []"
    and rd_prefix: "inv s \<Longrightarrow> 0 < n \<Longrightarrow> fst (rd n s) = take n (pending s) \<and>
      pending (snd (rd n s)) = drop n (pending s) \<and> inv (snd (rd n s))"

text \<open>
  A sink of octets: a write either takes nothing and returns a number that is not positive, or
  takes a prefix and returns its length.
\<close>

locale byte_sink =
  fixes wr :: "u8 list \<Rightarrow> 's \<Rightarrow> int \<times> 's"
    and sent :: "'s \<Rightarrow> u8 list"
    and inv :: "'s \<Rightarrow> bool"
  assumes write_inv: "inv s \<Longrightarrow> inv (snd (wr bs s))"
    and write_none: "inv s \<Longrightarrow> fst (wr bs s) \<le> 0 \<Longrightarrow> sent (snd (wr bs s)) = sent s"
    and write_some: "inv s \<Longrightarrow> 0 < fst (wr bs s) \<Longrightarrow>
      fst (wr bs s) \<le> int (length bs) \<and>
      sent (snd (wr bs s)) = sent s @ take (nat (fst (wr bs s))) bs"

section \<open>Reading a stream to its end: the poll loop of the protocol readers\<close>

text \<open>
  \<^verbatim>\<open>while (stream_.readable()) { n = stream_.read(&byte, 1); if (n <= 0) break; ...; consume(byte); }\<close>
  with the consumer as a step of an incremental octet machine. The loop need not end on a stream
  that stays readable, so its value is \<open>None\<close> there.
\<close>

partial_function (option) poll_loop ::
  "('s \<Rightarrow> bool) \<Rightarrow> (nat \<Rightarrow> 's \<Rightarrow> u8 list \<times> 's) \<Rightarrow> ('r \<Rightarrow> u8 \<Rightarrow> 'r \<times> 'm list) \<Rightarrow>
   's \<Rightarrow> 'r \<Rightarrow> ('s \<times> 'r \<times> 'm list) option" where
  "poll_loop readable rd step s r =
     (if readable s
      then (case fst (rd 1 s) of
              [] \<Rightarrow> Some (snd (rd 1 s), r, [])
            | b # _ \<Rightarrow>
                Option.bind (poll_loop readable rd step (snd (rd 1 s)) (fst (step r b)))
                  (\<lambda>(s2, r2, ms2). Some (s2, r2, snd (step r b) @ ms2)))
      else Some (s, r, []))"

context byte_source
begin

lemma poll_loop_drains:
  "inv s \<Longrightarrow> \<exists>s'. poll_loop readable rd step s r =
     Some (s', feed step r (pending s)) \<and> pending s' = [] \<and> inv s'"
proof (induction "pending s" arbitrary: s r)
  case Nil
  then show ?case using readable [of s] by (subst poll_loop.simps) simp
next
  case (Cons b bs)
  let ?s1 = "snd (rd 1 s)"
  have r: "fst (rd 1 s) = [b]" "pending ?s1 = bs" "inv ?s1"
    using rd_prefix [OF Cons.prems, of 1] Cons.hyps(2) [symmetric] by auto
  have rd: "readable s" using readable [OF Cons.prems] Cons.hyps(2) by auto
  from Cons.hyps(1) [of ?s1 "fst (step r b)"] r
  obtain s' where s': "poll_loop readable rd step ?s1 (fst (step r b)) =
      Some (s', feed step (fst (step r b)) bs)" "pending s' = []" "inv s'" by auto
  show ?case
    using s' r rd Cons.hyps(2) [symmetric]
    by (subst poll_loop.simps) (auto split: prod.splits)
qed

end

section \<open>Writing a whole buffer (\<^verbatim>\<open>stream_io.hpp\<close>)\<close>

function write_all_loop :: "(u8 list \<Rightarrow> 's \<Rightarrow> int \<times> 's) \<Rightarrow> u8 list \<Rightarrow> 's \<Rightarrow> bool \<times> 's" where
  "write_all_loop wr bs s =
     (if bs = [] then (True, s)
      else (let (n, s') = wr bs s in
            if n \<le> 0 \<or> int (length bs) < n then (False, s')
            else write_all_loop wr (drop (nat n) bs) s'))"
  by pat_completeness auto
termination
  by (relation "measure (\<lambda>(w, bs, s). length bs)") auto

declare write_all_loop.simps [simp del]

definition write_all ::
  "('s \<Rightarrow> bool) \<Rightarrow> ('s \<Rightarrow> bool) \<Rightarrow> (u8 list \<Rightarrow> 's \<Rightarrow> int \<times> 's) \<Rightarrow> u8 list option \<Rightarrow> 's \<Rightarrow> bool \<times> 's" where
  "write_all valid writable wr data s =
     (case data of None \<Rightarrow> (False, s)
      | Some bs \<Rightarrow> if length bs = 0 \<or> \<not> valid s \<or> \<not> writable s then (False, s)
                  else write_all_loop wr bs s)"

context byte_sink
begin

lemma write_all_loop_prefix:
  "inv s \<Longrightarrow> inv (snd (write_all_loop wr bs s)) \<and>
   (if fst (write_all_loop wr bs s) then sent (snd (write_all_loop wr bs s)) = sent s @ bs
    else \<exists>k < length bs. sent (snd (write_all_loop wr bs s)) = sent s @ take k bs)"
proof (induction "length bs" arbitrary: bs s rule: less_induct)
  case less
  obtain n s' where w: "wr bs s = (n, s')" by fastforce
  have s': "inv s'" using write_inv [OF less.prems, of bs] w by simp
  show ?case
  proof (cases "bs = [] \<or> n \<le> 0 \<or> int (length bs) < n")
    case True
    have "bs \<noteq> [] \<Longrightarrow> n \<le> 0"
      using True write_some [OF less.prems, of bs] w by auto
    with True less.prems s' w write_none [OF less.prems, of bs] show ?thesis
      by (auto simp: write_all_loop.simps [of wr bs s] intro!: exI [of _ 0])
  next
    case False
    then have n: "0 < n" "nat n \<le> length bs" "bs \<noteq> []" by auto
    have sent': "sent s' = sent s @ take (nat n) bs"
      using write_some [OF less.prems, of bs] w n by simp
    have step: "write_all_loop wr bs s = write_all_loop wr (drop (nat n) bs) s'"
      using False w by (subst write_all_loop.simps) auto
    have lt: "length (drop (nat n) bs) < length bs" using n by simp
    note IH = less.hyps [OF lt s']
    show ?thesis
    proof (cases "fst (write_all_loop wr (drop (nat n) bs) s')")
      case True
      with IH step sent' show ?thesis by simp
    next
      case False
      with IH obtain k where k: "k < length (drop (nat n) bs)"
        "sent (snd (write_all_loop wr (drop (nat n) bs) s')) = sent s' @ take k (drop (nat n) bs)"
        by auto
      have "sent s' @ take k (drop (nat n) bs) = sent s @ take (nat n + k) bs"
        using sent' by (simp add: take_add)
      moreover have "nat n + k < length bs" using k(1) by simp
      ultimately show ?thesis using False IH step k(2) by (auto intro!: exI [of _ "nat n + k"])
    qed
  qed
qed

lemma write_all_result:
  assumes "inv s" "write_all valid writable wr data s = (ok, s')"
  shows "if ok then data \<noteq> None \<and> sent s' = sent s @ the data
         else \<exists>k. sent s' = sent s @ take k (case data of None \<Rightarrow> [] | Some bs \<Rightarrow> bs)"
  using write_all_loop_prefix [OF assms(1), of "the data"] assms(2)
  by (fastforce simp: write_all_def split: option.splits if_splits intro: exI [of _ 0])

end

section \<open>\<^verbatim>\<open>MemoryByteStream\<close> (\<^verbatim>\<open>memory_stream.hpp\<close>)\<close>

record mem_stream =
  ms_buffer :: "u8 list"
  ms_head :: nat
  ms_tail :: nat
  ms_count :: nat

definition ms_init :: "nat \<Rightarrow> mem_stream" where
  "ms_init cap = \<lparr>ms_buffer = replicate cap 0, ms_head = 0, ms_tail = 0, ms_count = 0\<rparr>"

definition ms_readable :: "mem_stream \<Rightarrow> bool" where
  "ms_readable s \<longleftrightarrow> 0 < ms_count s"

definition ms_writable :: "nat \<Rightarrow> mem_stream \<Rightarrow> bool" where
  "ms_writable cap s \<longleftrightarrow> ms_count s < cap"

definition ms_available_for_write :: "nat \<Rightarrow> mem_stream \<Rightarrow> nat" where
  "ms_available_for_write cap s = cap - ms_count s"

definition ms_clear :: "mem_stream \<Rightarrow> mem_stream" where
  "ms_clear s = s\<lparr>ms_head := 0, ms_tail := 0, ms_count := 0\<rparr>"

fun ms_read_loop :: "nat \<Rightarrow> nat \<Rightarrow> mem_stream \<Rightarrow> u8 list \<times> mem_stream" where
  "ms_read_loop cap 0 s = ([], s)"
| "ms_read_loop cap (Suc n) s =
     (if ms_readable s
      then (let (bs, s') = ms_read_loop cap n
                  (s\<lparr>ms_head := (ms_head s + 1) mod cap, ms_count := ms_count s - 1\<rparr>)
            in (ms_buffer s ! ms_head s # bs, s'))
      else ([], s))"

text \<open>\<open>dst\<close> says whether the destination pointer is given; the octets copied to it are the result.\<close>

definition ms_read :: "nat \<Rightarrow> bool \<Rightarrow> nat \<Rightarrow> mem_stream \<Rightarrow> u8 list \<times> mem_stream" where
  "ms_read cap dst max_len s =
     (if \<not> dst \<or> max_len = 0 then ([], s) else ms_read_loop cap max_len s)"

fun ms_write_loop :: "nat \<Rightarrow> u8 list \<Rightarrow> nat \<Rightarrow> mem_stream \<Rightarrow> nat \<times> mem_stream" where
  "ms_write_loop cap [] n s = (n, s)"
| "ms_write_loop cap (b # bs) n s =
     (if ms_count s < cap
      then ms_write_loop cap bs (n + 1)
             (s\<lparr>ms_buffer := (ms_buffer s)[ms_tail s := b],
                ms_tail := (ms_tail s + 1) mod cap, ms_count := ms_count s + 1\<rparr>)
      else (n, s))"

definition ms_write :: "nat \<Rightarrow> u8 list option \<Rightarrow> mem_stream \<Rightarrow> nat \<times> mem_stream" where
  "ms_write cap src s =
     (case src of None \<Rightarrow> (0, s)
      | Some bs \<Rightarrow> if length bs = 0 then (0, s) else ms_write_loop cap bs 0 s)"

definition ms_elems :: "nat \<Rightarrow> mem_stream \<Rightarrow> u8 list" where
  "ms_elems cap s = window cap (ms_buffer s) (ms_head s) (ms_count s)"

definition ms_inv :: "nat \<Rightarrow> mem_stream \<Rightarrow> bool" where
  "ms_inv cap s \<longleftrightarrow> length (ms_buffer s) = cap \<and> ms_count s \<le> cap \<and>
     (0 < cap \<longrightarrow> ms_head s < cap \<and> ms_tail s = (ms_head s + ms_count s) mod cap)"

lemma ms_init_inv [sk_inv]: "ms_inv cap (ms_init cap)"
  by (simp add: ms_inv_def ms_init_def)

lemma ms_clear_inv [sk_inv]: "ms_inv cap s \<Longrightarrow> ms_inv cap (ms_clear s) \<and> ms_elems cap (ms_clear s) = []"
  by (simp add: ms_inv_def ms_clear_def ms_elems_def)

lemma ms_put_one:
  fixes b :: u8
  assumes "ms_inv cap s" "ms_count s < cap"
  defines "s' \<equiv> s\<lparr>ms_buffer := (ms_buffer s)[ms_tail s := b],
                  ms_tail := (ms_tail s + 1) mod cap, ms_count := ms_count s + 1\<rparr>"
  shows "ms_inv cap s' \<and> ms_elems cap s' = ms_elems cap s @ [b]"
  using assms window_put [of "ms_count s" cap "ms_buffer s" "ms_head s" b]
  by (auto simp: ms_inv_def ms_elems_def mod_Suc_eq)

lemma ms_get_one:
  assumes "ms_inv cap s" "0 < ms_count s"
  defines "s' \<equiv> s\<lparr>ms_head := (ms_head s + 1) mod cap, ms_count := ms_count s - 1\<rparr>"
  shows "ms_inv cap s' \<and> ms_elems cap s = ms_buffer s ! ms_head s # ms_elems cap s'"
proof -
  obtain m where m: "ms_count s = Suc m" using assms(2) by (cases "ms_count s") auto
  have c: "0 < cap" "ms_head s < cap" using assms(1) m by (auto simp: ms_inv_def)
  have "ms_elems cap s = ms_buffer s ! ms_head s # ms_elems cap s'"
    using c m by (simp add: ms_elems_def s'_def window_cons)
  moreover have "ms_inv cap s'"
    using assms(1) c m by (auto simp: ms_inv_def s'_def mod_simps)
  ultimately show ?thesis by simp
qed

lemma ms_write_loop_spec:
  "ms_inv cap s \<Longrightarrow>
   (let k = min (length bs) (cap - ms_count s); (n', s') = ms_write_loop cap bs n s
    in n' = n + k \<and> ms_inv cap s' \<and> ms_elems cap s' = ms_elems cap s @ take k bs)"
proof (induction cap bs n s rule: ms_write_loop.induct)
  case (2 cap b bs n s)
  show ?case
  proof (cases "ms_count s < cap")
    case True
    note one = ms_put_one [OF "2.prems" True, of b]
    show ?thesis using "2.IH" [OF True] one True
      by (auto simp: Let_def min_def split: prod.splits)
        (auto simp: take_Cons' diff_Suc Suc_le_eq split: nat.splits)
  next
    case False
    with "2.prems" show ?thesis by (simp add: ms_inv_def)
  qed
qed simp

lemma ms_read_loop_spec:
  "ms_inv cap s \<Longrightarrow>
   (let (bs, s') = ms_read_loop cap n s
    in bs = take n (ms_elems cap s) \<and> ms_inv cap s' \<and> ms_elems cap s' = drop n (ms_elems cap s))"
proof (induction cap n s rule: ms_read_loop.induct)
  case (2 cap n s)
  show ?case
  proof (cases "ms_readable s")
    case True
    then have c: "0 < ms_count s" by (simp add: ms_readable_def)
    note one = ms_get_one [OF "2.prems" c]
    show ?thesis using "2.IH" [OF True] one True by (auto simp: Let_def split: prod.splits)
  next
    case False
    then have "ms_elems cap s = []" by (simp add: ms_readable_def ms_elems_def)
    with False "2.prems" show ?thesis by simp
  qed
qed simp

lemma length_ms_elems [simp]: "length (ms_elems cap s) = ms_count s"
  by (simp add: ms_elems_def)

interpretation mem_src: byte_source ms_readable "ms_read cap True" "ms_elems cap" "ms_inv cap"
  for cap
proof (unfold_locales, goal_cases)
  case (1 s)
  then show ?case by (simp add: ms_readable_def ms_elems_def)
next
  case (2 s n)
  then show ?case using ms_read_loop_spec [of cap s n]
    by (auto simp: ms_read_def split: prod.splits)
qed

interpretation mem_snk: byte_sink "\<lambda>bs s. map_prod int id (ms_write cap (Some bs) s)"
    "ms_elems cap" "ms_inv cap" for cap
proof (unfold_locales, goal_cases)
  case (1 s bs)
  then show ?case using ms_write_loop_spec [of cap s bs 0]
    by (auto simp: ms_write_def Let_def split: prod.splits)
next
  case (2 s bs)
  then show ?case using ms_write_loop_spec [of cap s bs 0]
    by (auto simp: ms_write_def Let_def split: prod.splits if_splits)
next
  case (3 s bs)
  then show ?case using ms_write_loop_spec [of cap s bs 0]
    by (auto simp: ms_write_def Let_def split: prod.splits if_splits)
qed

section \<open>\<^verbatim>\<open>MemoryPinEventSource\<close> (\<^verbatim>\<open>memory_pin_event_source.hpp\<close>)\<close>

datatype pin_event_type = RisingEdge | FallingEdge | Change | HighLevel | LowLevel

record pin_event =
  pe_type :: pin_event_type
  pe_timestamp_us :: u64
  pe_source_id :: u32
  pe_sequence :: u32
  pe_level :: bool

definition pin_event_default :: pin_event where
  "pin_event_default = \<lparr>pe_type = Change, pe_timestamp_us = 0, pe_source_id = 0,
     pe_sequence = 0, pe_level = False\<rparr>"

record mem_pin_source =
  mp_events :: "pin_event list"
  mp_head :: nat
  mp_tail :: nat
  mp_count :: nat

definition mp_init :: "nat \<Rightarrow> mem_pin_source" where
  "mp_init cap = \<lparr>mp_events = replicate cap pin_event_default, mp_head = 0, mp_tail = 0, mp_count = 0\<rparr>"

definition mp_push :: "nat \<Rightarrow> pin_event \<Rightarrow> mem_pin_source \<Rightarrow> bool \<times> mem_pin_source" where
  "mp_push cap event s =
     (if cap \<le> mp_count s then (False, s)
      else (True, s\<lparr>mp_events := (mp_events s)[mp_tail s := event],
                    mp_tail := (mp_tail s + 1) mod cap, mp_count := mp_count s + 1\<rparr>))"

definition mp_read_event :: "nat \<Rightarrow> mem_pin_source \<Rightarrow> pin_event option \<times> mem_pin_source" where
  "mp_read_event cap s =
     (if mp_count s = 0 then (None, s)
      else (Some (mp_events s ! mp_head s),
            s\<lparr>mp_head := (mp_head s + 1) mod cap, mp_count := mp_count s - 1\<rparr>))"

definition mp_clear :: "mem_pin_source \<Rightarrow> mem_pin_source" where
  "mp_clear s = s\<lparr>mp_head := 0, mp_tail := 0, mp_count := 0\<rparr>"

definition mp_elems :: "nat \<Rightarrow> mem_pin_source \<Rightarrow> pin_event list" where
  "mp_elems cap s = window cap (mp_events s) (mp_head s) (mp_count s)"

definition mp_inv :: "nat \<Rightarrow> mem_pin_source \<Rightarrow> bool" where
  "mp_inv cap s \<longleftrightarrow> length (mp_events s) = cap \<and> mp_count s \<le> cap \<and>
     (0 < cap \<longrightarrow> mp_head s < cap \<and> mp_tail s = (mp_head s + mp_count s) mod cap)"

lemma mp_init_inv [sk_inv]: "mp_inv cap (mp_init cap)"
  by (simp add: mp_inv_def mp_init_def)

lemma mp_clear_inv [sk_inv]: "mp_inv cap s \<Longrightarrow> mp_inv cap (mp_clear s)"
  by (simp add: mp_inv_def mp_clear_def)

lemma length_mp_elems [simp]: "length (mp_elems cap s) = mp_count s"
  by (simp add: mp_elems_def)

lemma mp_elems_init [simp]: "mp_elems cap (mp_init cap) = []"
  by (simp add: mp_elems_def mp_init_def)

interpretation pin_q: bounded_fifo cap "mp_push cap" "mp_read_event cap" "mp_elems cap" "mp_inv cap"
  for cap
proof (unfold_locales, goal_cases)
  case (1 s x)
  then show ?case using window_put [of "mp_count s" cap "mp_events s" "mp_head s" x]
    by (auto simp: mp_push_def mp_inv_def mp_elems_def mod_Suc_eq)
next
  case (2 s x)
  then show ?case by (simp add: mp_push_def)
next
  case (3 s x xs)
  then obtain m where m: "mp_count s = Suc m" by (cases "mp_count s") (auto simp: mp_elems_def)
  then have "0 < cap" "mp_head s < cap" using 3 by (auto simp: mp_inv_def)
  with 3 m show ?case
    by (auto simp: mp_read_event_def mp_inv_def mp_elems_def window_cons mod_simps)
next
  case (4 s)
  then show ?case by (simp add: mp_read_event_def mp_elems_def)
qed

section \<open>\<^verbatim>\<open>FixedVector\<close> (\<^verbatim>\<open>fixed_vector.hpp\<close>)\<close>

record 'a fixed_vector =
  fv_items :: "'a list"
  fv_size :: nat

definition fv_push_back :: "nat \<Rightarrow> 'a \<Rightarrow> 'a fixed_vector \<Rightarrow> bool \<times> 'a fixed_vector" where
  "fv_push_back cap x v =
     (if cap \<le> fv_size v then (False, v)
      else (True, v\<lparr>fv_items := (fv_items v)[fv_size v := x], fv_size := fv_size v + 1\<rparr>))"

text \<open>The shift loop of \<open>erase\<close>: \<open>items[i - 1] = items[i]\<close> for \<open>i\<close> from \<open>index + 1\<close> below \<open>size\<close>.\<close>

fun shift_down :: "nat \<Rightarrow> nat \<Rightarrow> 'a list \<Rightarrow> 'a list" where
  "shift_down i 0 xs = xs"
| "shift_down i (Suc n) xs = shift_down (i + 1) n (xs[i - 1 := xs ! i])"

definition fv_erase :: "nat \<Rightarrow> 'a fixed_vector \<Rightarrow> bool \<times> 'a fixed_vector" where
  "fv_erase index v =
     (if fv_size v \<le> index then (False, v)
      else (True, v\<lparr>fv_items := shift_down (index + 1) (fv_size v - (index + 1)) (fv_items v),
                    fv_size := fv_size v - 1\<rparr>))"

definition fv_pop_back :: "'a fixed_vector \<Rightarrow> bool \<times> 'a fixed_vector" where
  "fv_pop_back v = (if fv_size v = 0 then (False, v) else (True, v\<lparr>fv_size := fv_size v - 1\<rparr>))"

definition fv_clear :: "'a fixed_vector \<Rightarrow> 'a fixed_vector" where
  "fv_clear v = v\<lparr>fv_size := 0\<rparr>"

definition fv_elems :: "'a fixed_vector \<Rightarrow> 'a list" where
  "fv_elems v = take (fv_size v) (fv_items v)"

definition fv_inv :: "nat \<Rightarrow> 'a fixed_vector \<Rightarrow> bool" where
  "fv_inv cap v \<longleftrightarrow> length (fv_items v) = cap \<and> fv_size v \<le> cap"

lemma length_shift_down [simp]: "length (shift_down i n xs) = length xs"
  by (induction i n xs rule: shift_down.induct) auto

lemma nth_shift_down:
  "0 < i \<Longrightarrow> i + n \<le> length xs \<Longrightarrow> k < length xs \<Longrightarrow>
   shift_down i n xs ! k = (if i \<le> k + 1 \<and> k + 1 < i + n then xs ! (k + 1) else xs ! k)"
proof (induction i n xs arbitrary: k rule: shift_down.induct)
  case (2 i n xs)
  have "shift_down i (Suc n) xs ! k = shift_down (i + 1) n (xs[i - 1 := xs ! i]) ! k" by simp
  also have "\<dots> = (if i + 1 \<le> k + 1 \<and> k + 1 < i + 1 + n then (xs[i - 1 := xs ! i]) ! (k + 1)
                  else (xs[i - 1 := xs ! i]) ! k)"
    using "2.prems" by (intro "2.IH") auto
  also have "\<dots> = (if i \<le> k + 1 \<and> k + 1 < i + Suc n then xs ! (k + 1) else xs ! k)"
    using "2.prems" by (auto simp: nth_list_update)
  finally show ?case .
qed auto

lemma fv_erase_elems:
  assumes "fv_inv cap v" "index < fv_size v"
  shows "fv_elems (snd (fv_erase index v)) = take index (fv_elems v) @ drop (index + 1) (fv_elems v)"
proof (rule nth_equalityI)
  show "length (fv_elems (snd (fv_erase index v))) =
      length (take index (fv_elems v) @ drop (index + 1) (fv_elems v))"
    using assms by (auto simp: fv_erase_def fv_elems_def fv_inv_def min_def)
next
  fix k assume "k < length (fv_elems (snd (fv_erase index v)))"
  then have k: "k + 1 < fv_size v" "k < length (fv_items v)" "fv_size v \<le> length (fv_items v)"
    using assms by (auto simp: fv_erase_def fv_elems_def fv_inv_def)
  then show "fv_elems (snd (fv_erase index v)) ! k =
      (take index (fv_elems v) @ drop (index + 1) (fv_elems v)) ! k"
    using assms by (auto simp: fv_erase_def fv_elems_def nth_shift_down nth_append min_def)
qed

section \<open>Properties\<close>

text \<open>
  an in-memory byte stream delivers octets in the order they were written: what a read of
  \<open>n\<close> octets returns after a write of \<open>bs\<close> is the prefix of length \<open>n\<close> of the octets that were
  queued before followed by the part of \<open>bs\<close> that fitted, and the write reports that part's length.
\<close>

theorem mem_stream_fifo:
  assumes "ms_inv cap s" "0 < n" "bs \<noteq> []"
  defines "k \<equiv> min (length bs) (ms_available_for_write cap s)"
  shows "fst (ms_write cap (Some bs) s) = k \<and>
         fst (ms_read cap True n (snd (ms_write cap (Some bs) s))) =
           take n (ms_elems cap s @ take k bs)"
  using ms_write_loop_spec [OF assms(1), of bs 0] mem_src.rd_prefix [of cap _ n] assms(2,3)
  by (auto simp: ms_write_def k_def ms_available_for_write_def Let_def split: prod.splits)

theorem mem_stream_fifo_witness:
  "fst (ms_read 2 True 3 (snd (ms_write 2 (Some [1, 2, 3]) (ms_init 2)))) = [1, 2]"
  using mem_stream_fifo [OF ms_init_inv, of 3 "[1, 2, 3]" 2]
  by (simp add: ms_available_for_write_def ms_init_def ms_elems_def window_def)

text \<open>
  polling an in-memory stream returns, hands every queued octet to the reader in order and
  leaves the stream empty.
\<close>

theorem mem_stream_poll_drains:
  assumes "ms_inv cap s"
  shows "\<exists>s'. poll_loop ms_readable (ms_read cap True) step s r =
           Some (s', feed step r (ms_elems cap s)) \<and> ms_elems cap s' = [] \<and> ms_inv cap s'"
  using assms by (rule mem_src.poll_loop_drains)

theorem mem_stream_poll_drains_witness:
  "\<exists>s'. poll_loop ms_readable (ms_read 4 True) (\<lambda>n b. (n + 1, [b]))
      (snd (ms_write 4 (Some [7, 8]) (ms_init 4))) (0 :: nat) = Some (s', 2, [7, 8])"
proof -
  let ?s = "snd (ms_write 4 (Some [7, 8]) (ms_init 4))"
  have i: "ms_inv 4 ?s" using mem_snk.write_inv [OF ms_init_inv, of 4 "[7, 8]"] by simp
  have "ms_elems 4 ?s = [7, 8]"
    by (simp add: ms_write_def ms_init_def ms_elems_def window_def)
  with mem_stream_poll_drains [OF i, of "\<lambda>n b. (n + 1, [b])" "0 :: nat"] show ?thesis
    by (auto simp: numeral_2_eq_2)
qed

text \<open>
  the pin event queue is first-in first-out up to its capacity: events pushed beyond it are
  refused, and the accepted ones come out in push order.
\<close>

theorem pin_queue_fifo:
  "fst (get_all (mp_read_event cap) n (put_all (mp_push cap) es (mp_init cap))) = take n (take cap es)"
  using pin_q.fifo_order [OF mp_init_inv, of cap n es] by simp

text \<open>
  erasing an element of a fixed vector keeps the order of the others and the capacity bound,
  and erasing outside the vector changes nothing.
\<close>

theorem fixed_vector_erase:
  assumes "fv_inv cap v"
  shows "fv_inv cap (snd (fv_erase index v)) \<and>
         (if index < fv_size v
          then fst (fv_erase index v) \<and>
               fv_elems (snd (fv_erase index v)) =
                 take index (fv_elems v) @ drop (index + 1) (fv_elems v)
          else fv_erase index v = (False, v))"
  using assms fv_erase_elems [OF assms, of index] by (auto simp: fv_erase_def fv_inv_def)

theorem fixed_vector_erase_witness:
  "fv_elems (snd (fv_erase 1 \<lparr>fv_items = [10, 20, 30, 0 :: int], fv_size = 3\<rparr>)) = [10, 30]"
  using fixed_vector_erase [of 4 "\<lparr>fv_items = [10, 20, 30, 0 :: int], fv_size = 3\<rparr>" 1]
  by (simp add: fv_inv_def fv_elems_def)

end
