(* ===== verification/Model_Store.thy ===== *)
theory Model_Store
  imports Prelude
begin

unbundle bit_operations_syntax

text \<open>
  The typed model store (\<^verbatim>\<open>src/signalk_mini/model_store.hpp\<close>, \<^verbatim>\<open>types.hpp\<close>,
  \<^verbatim>\<open>source_value_recorder.hpp\<close>): the circular queue of model changes that coalesces the changes
  of one field and source and drops the oldest change when it is full, the bounded table of
  per-source values, the presence bits and the operation \<open>mark_changed\<close> that ties them together.
  The queue is shown to refine a list; the \<open>uint16_t\<close> index arithmetic is written with its
  wrap-around (\<open>mod 65536\<close>) and shown never to wrap under the capacity bound the code asserts
  statically. The typed value tree \<open>DataModel\<close> is a type variable: the store only carries it.
\<close>

section \<open>Model fields (\<^verbatim>\<open>types.hpp\<close>)\<close>

text \<open>
  \<open>enum class ModelField : uint16_t\<close>: the enumerators in order, so that the value of an enumerator
  is its position; \<open>Count\<close> is the last one.
\<close>

type_synonym model_field = u16
type_synonym source_id = u8

definition model_fields :: "string list" where
  "model_fields =
    [''None'',
     ''GnssFixLatDeg'',
     ''GnssFixLonDeg'',
     ''GnssSpeedKn'',
     ''GnssTrackDeg'',
     ''GnssVerticalSpeedMs'',
     ''GnssTimestampS'',
     ''GnssDateDay'',
     ''GnssDateMonth'',
     ''GnssDateYear'',
     ''GnssFixQuality'',
     ''GnssFixType'',
     ''GnssFixValid'',
     ''GnssSatellitesUsed'',
     ''GnssHdop'',
     ''GnssDgpsStationId'',
     ''GnssDeclinationDeg'',
     ''GnssFixAltitudeMslM'',
     ''GnssFixAltitudeHaeM'',
     ''GnssGeoidalSeparationM'',
     ''GnssDgpsAgeS'',
     ''GnssFixAccuracyHorizontalM'',
     ''GnssFixAccuracyVerticalM'',
     ''GnssFixAccuracySpeedMs'',
     ''GnssFixAccuracyTrackDeg'',
     ''GnssFixAccuracyTimeS'',
     ''GnssFixAccuracyPdop'',
     ''GnssFixAccuracyVdop'',
     ''GnssDopActiveFixMode'',
     ''GnssDopActivePdop'',
     ''GnssDopActiveVdop'',
     ''GnssSatellitesInView'',
     ''GnssSatellitePrn0'',
     ''GnssSatelliteElevationDeg0'',
     ''GnssSatelliteAzimuthDeg0'',
     ''GnssSatelliteSnrDb0'',
     ''ImuHeadingTrueDeg'',
     ''ImuHeadingMagneticDeg'',
     ''ImuMagneticVariationDeg'',
     ''ImuMagneticDeviationDeg'',
     ''ImuPitchDeg'',
     ''ImuRollDeg'',
     ''WindApparentDirectionDeg'',
     ''WindApparentSpeedKn'',
     ''WindTrueDirectionDeg'',
     ''WindTrueDirectionMagneticDeg'',
     ''WindTrueSpeedKn'',
     ''WindTrueSpeedMs'',
     ''WindSurfaceDirectionDeg'',
     ''WindSurfaceDirectionMagneticDeg'',
     ''WindSurfaceSpeedKn'',
     ''WindSurfaceSpeedMs'',
     ''EnvBarometricPressureBar'',
     ''EnvBarometricPressureInHg'',
     ''EnvAirTemperatureC'',
     ''EnvRelativeHumidityPercent'',
     ''EnvAbsoluteHumidityPercent'',
     ''EnvDewPointC'',
     ''SeaSpeedKn'',
     ''SeaLongitudinalWaterSpeedKn'',
     ''SeaTransverseWaterSpeedKn'',
     ''SeaLongitudinalGroundSpeedKn'',
     ''SeaTransverseGroundSpeedKn'',
     ''SeaSpeedParallelToWindKn'',
     ''SeaSpeedParallelToWindMs'',
     ''SeaLeewayDeg'',
     ''SeaCurrentSpeedKn'',
     ''SeaCurrentDirectionDeg'',
     ''SeaCurrentDirectionMagneticDeg'',
     ''SeaTemperatureC'',
     ''SeaDepthM'',
     ''SeaDepthBelowKeelM'',
     ''SeaDepthBelowSurfaceM'',
     ''SeaDepthOffsetM'',
     ''SteeringRudderAngleDeg'',
     ''PropulsionRevolutionsNumber'',
     ''PropulsionRevolutionsSpeedRpm'',
     ''PropulsionRevolutionsPitchPercent'',
     ''AutopilotMode'',
     ''AutopilotEnabled'',
     ''AutopilotHeadingDeg'',
     ''AutopilotHeadingCommandDeg'',
     ''AutopilotWarnings'',
     ''RouteActiveWaypointCount'',
     ''RouteLogTotalDistanceNmi'',
     ''RouteLogTripDistanceNmi'',
     ''RouteHeadingSteeringCommandTrueDeg'',
     ''RouteHeadingSteeringCommandMagneticDeg'',
     ''RouteApbXteNmi'',
     ''RouteApbOriginToDestinationBearingDeg'',
     ''RouteApbPresentToDestinationBearingDeg'',
     ''RouteApbHeadingToSteerDeg'',
     ''RouteApbArrivalCircleEntered'',
     ''RouteApbPerpendicularPassed'',
     ''RouteApbDestinationId'',
     ''RouteRmbXteNmi'',
     ''RouteRmbDestinationLatDeg'',
     ''RouteRmbDestinationLonDeg'',
     ''RouteRmbRangeNmi'',
     ''RouteRmbBearingDeg'',
     ''RouteRmbClosingVelocityKn'',
     ''RouteRmbArrived'',
     ''RouteRmbDestinationId'',
     ''RouteWaypointUtcTimeS'',
     ''RouteWaypointOriginUtcTimeS'',
     ''RouteWaypointOriginElapsedTimeS'',
     ''RouteWaypointDestinationUtcTimeS'',
     ''RouteWaypointDestinationTimeRemainingS'',
     ''RouteWaypointLatDeg'',
     ''RouteWaypointLonDeg'',
     ''RouteWaypointBearingTrueDeg'',
     ''RouteWaypointBearingMagneticDeg'',
     ''RouteWaypointDistanceNmi'',
     ''RouteWaypointToId'',
     ''RouteWaypointFromId'',
     ''RouteWaypointArrivalCircleEntered'',
     ''RouteWaypointPerpendicularPassed'',
     ''RouteWaypointArrivalRadiusNmi'',
     ''RouteWaypointArrivalId'',
     ''TrawlHeadropeToFootropeM'',
     ''TrawlHeadropeToBottomM'',
     ''TrawlDoorCenterlineOffsetM'',
     ''TrawlDoorAlongCenterlineM'',
     ''TrawlCartesianCenterlineOffsetM'',
     ''TrawlCartesianAlongCenterlineM'',
     ''TrawlDepthBelowSurfaceM'',
     ''TrawlRelativeRangeM'',
     ''TrawlRelativeBearingDeg'',
     ''TrawlTrueRangeM'',
     ''TrawlTrueBearingDeg'',
     ''AisTargetsObject'',
     ''AisOwnVesselObject'',
     ''AisSafetyObject'',
     ''AisDataLinkStatusObject'',
     ''DscStructuredNotification'',
     ''InmarsatSafetyNetStructuredNotification'',
     ''NavtexStructuredNotification'',
     ''AlertStructuredNotification'',
     ''MobStructuredNotification'',
     ''LegacyCommObject'',
     ''CommServerClockS'',
     ''NotificationText'',
     ''NotificationEvent'',
     ''NotificationEventLog'',
     ''Count'']"

definition field_count :: nat where
  "field_count = 144"

definition field_AutopilotMode :: model_field where
  "field_AutopilotMode = 78"

definition field_AutopilotEnabled :: model_field where
  "field_AutopilotEnabled = 79"

lemma field_count_eq: "field_count = length model_fields - 1 \<and> model_fields ! field_count = ''Count''"
  by (simp add: field_count_def model_fields_def)

lemma autopilot_fields:
  "model_fields ! unat field_AutopilotMode = ''AutopilotMode''"
  "model_fields ! unat field_AutopilotEnabled = ''AutopilotEnabled''"
  by (simp_all add: field_AutopilotMode_def field_AutopilotEnabled_def model_fields_def)

definition model_change_timestamp_ms :: "u64 \<Rightarrow> u32" where
  "model_change_timestamp_ms now_us = ucast (now_us div 1000)"

section \<open>The change queue\<close>

record model_change =
  mc_field :: model_field
  mc_source_id :: source_id
  mc_timestamp_ms :: u32
  mc_sequence :: u32

definition model_change_default :: model_change where
  "model_change_default = \<lparr>mc_field = 0, mc_source_id = 0, mc_timestamp_ms = 0, mc_sequence = 0\<rparr>"

record change_queue =
  cq_items :: "model_change list"
  cq_head :: nat
  cq_tail :: nat
  cq_count :: nat
  cq_high_watermark :: nat
  cq_dropped_count :: u64
  cq_enqueued_count :: u64
  cq_coalesced_count :: u64

definition cq_init :: "nat \<Rightarrow> change_queue" where
  "cq_init cap = \<lparr>cq_items = replicate cap model_change_default, cq_head = 0, cq_tail = 0,
     cq_count = 0, cq_high_watermark = 0, cq_dropped_count = 0, cq_enqueued_count = 0,
     cq_coalesced_count = 0\<rparr>"

definition cq_advance :: "nat \<Rightarrow> nat \<Rightarrow> nat" where
  "cq_advance cap v = (let next = (v + 1) mod 65536 in if next = cap then 0 else next)"

definition cq_index :: "nat \<Rightarrow> change_queue \<Rightarrow> nat \<Rightarrow> nat" where
  "cq_index cap q offset =
     ((cq_tail q + (cq_count q - 1 - offset) mod 65536) mod cap) mod 65536"

definition mc_same :: "model_change \<Rightarrow> model_change \<Rightarrow> bool" where
  "mc_same existing change \<longleftrightarrow>
     mc_field existing = mc_field change \<and> mc_source_id existing = mc_source_id change"

definition cq_coalesce :: "nat \<Rightarrow> model_change \<Rightarrow> change_queue \<Rightarrow> change_queue option" where
  "cq_coalesce cap change q =
     (case index_where (\<lambda>offset. mc_same (cq_items q ! cq_index cap q offset) change)
             [0..<cq_count q] of
        None \<Rightarrow> None
      | Some offset \<Rightarrow>
          (let index = cq_index cap q offset; existing = cq_items q ! index in
           Some (q\<lparr>cq_items := (cq_items q)[index :=
                     existing\<lparr>mc_timestamp_ms := mc_timestamp_ms change,
                              mc_sequence := mc_sequence change\<rparr>],
                   cq_coalesced_count := cq_coalesced_count q + 1\<rparr>)))"

definition cq_push :: "nat \<Rightarrow> model_change \<Rightarrow> change_queue \<Rightarrow> change_queue" where
  "cq_push cap change q =
     (case cq_coalesce cap change q of
        Some q' \<Rightarrow> q'
      | None \<Rightarrow>
          (let q1 = (if cq_count q = cap
                     then q\<lparr>cq_tail := cq_advance cap (cq_tail q), cq_count := cq_count q - 1,
                            cq_dropped_count := cq_dropped_count q + 1\<rparr>
                     else q);
               q2 = q1\<lparr>cq_items := (cq_items q1)[cq_head q1 := change],
                       cq_head := cq_advance cap (cq_head q1),
                       cq_count := cq_count q1 + 1,
                       cq_enqueued_count := cq_enqueued_count q1 + 1\<rparr>
           in if cq_high_watermark q2 < cq_count q2
              then q2\<lparr>cq_high_watermark := cq_count q2\<rparr> else q2))"

definition cq_pop :: "nat \<Rightarrow> change_queue \<Rightarrow> model_change option \<times> change_queue" where
  "cq_pop cap q =
     (if cq_count q = 0 then (None, q)
      else (Some (cq_items q ! cq_tail q),
            q\<lparr>cq_tail := cq_advance cap (cq_tail q), cq_count := cq_count q - 1\<rparr>))"


text \<open>The abstract queue: a list, oldest first, in which a field and source occur at most once.\<close>

definition mc_key :: "model_change \<Rightarrow> model_field \<times> source_id" where
  "mc_key c = (mc_field c, mc_source_id c)"

definition aq_push :: "nat \<Rightarrow> model_change \<Rightarrow> model_change list \<Rightarrow> model_change list" where
  "aq_push cap c xs =
     (if mc_key c \<in> mc_key ` set xs then map (\<lambda>x. if mc_key x = mc_key c then c else x) xs
      else (if length xs = cap then tl xs else xs) @ [c])"

definition cq_elems :: "nat \<Rightarrow> change_queue \<Rightarrow> model_change list" where
  "cq_elems cap q = window cap (cq_items q) (cq_tail q) (cq_count q)"

definition cq_inv :: "nat \<Rightarrow> change_queue \<Rightarrow> bool" where
  "cq_inv cap q \<longleftrightarrow> 0 < cap \<and> cap \<le> 65535 \<and> length (cq_items q) = cap \<and> cq_count q \<le> cap \<and>
     cq_tail q < cap \<and> cq_head q = (cq_tail q + cq_count q) mod cap \<and>
     cq_count q \<le> cq_high_watermark q \<and> cq_high_watermark q \<le> cap \<and>
     distinct (map mc_key (cq_elems cap q))"

lemma mc_same_key: "mc_same x c \<longleftrightarrow> mc_key x = mc_key c"
  by (auto simp: mc_same_def mc_key_def)

lemma mc_same_update:
  "mc_same x c \<Longrightarrow> x\<lparr>mc_timestamp_ms := mc_timestamp_ms c, mc_sequence := mc_sequence c\<rparr> = c"
  by (cases x, cases c) (simp add: mc_same_def)

lemma cq_advance_mod: "0 < cap \<Longrightarrow> cap \<le> 65535 \<Longrightarrow> v < cap \<Longrightarrow> cq_advance cap v = Suc v mod cap"
  by (auto simp: cq_advance_def Let_def mod_Suc)

lemma cq_index_window:
  assumes "cq_inv cap q" "offset < cq_count q"
  shows "cq_index cap q offset = (cq_tail q + (cq_count q - 1 - offset)) mod cap"
proof -
  have "cq_count q - 1 - offset < 65536" using assms by (auto simp: cq_inv_def)
  moreover have "(cq_tail q + (cq_count q - 1 - offset)) mod cap < cap"
    using assms by (simp add: cq_inv_def)
  then have "(cq_tail q + (cq_count q - 1 - offset)) mod cap < 65536"
    using assms(1) unfolding cq_inv_def by linarith
  ultimately show ?thesis by (simp add: cq_index_def)
qed

lemma cq_index_elem:
  assumes "cq_inv cap q" "offset < cq_count q"
  shows "cq_items q ! cq_index cap q offset = cq_elems cap q ! (cq_count q - 1 - offset)"
  using assms by (simp add: cq_index_window cq_elems_def)

lemma cq_coalesce_None:
  assumes "cq_inv cap q"
  shows "cq_coalesce cap c q = None \<longleftrightarrow> mc_key c \<notin> mc_key ` set (cq_elems cap q)"
proof -
  have n: "length (cq_elems cap q) = cq_count q" by (simp add: cq_elems_def)
  have "cq_coalesce cap c q = None \<longleftrightarrow>
      (\<forall>offset < cq_count q. \<not> mc_same (cq_elems cap q ! (cq_count q - 1 - offset)) c)"
    using assms index_where_None [of "\<lambda>offset. mc_same (cq_items q ! cq_index cap q offset) c"
        "[0..<cq_count q]"]
    by (auto simp: cq_coalesce_def Let_def cq_index_elem split: option.splits)
  also have "\<dots> \<longleftrightarrow> (\<forall>k < cq_count q. \<not> mc_same (cq_elems cap q ! k) c)"
  proof (intro iffI allI impI)
    fix k assume *: "\<forall>offset < cq_count q. \<not> mc_same (cq_elems cap q ! (cq_count q - 1 - offset)) c"
      and k: "k < cq_count q"
    from *[rule_format, of "cq_count q - 1 - k"] k show "\<not> mc_same (cq_elems cap q ! k) c" by simp
  next
    fix k assume "\<forall>k < cq_count q. \<not> mc_same (cq_elems cap q ! k) c" and "k < cq_count q"
    then show "\<not> mc_same (cq_elems cap q ! (cq_count q - 1 - k)) c" by simp
  qed
  also have "\<dots> \<longleftrightarrow> mc_key c \<notin> mc_key ` set (cq_elems cap q)"
    unfolding n [symmetric] by (auto simp: mc_same_key in_set_conv_nth) (metis image_eqI nth_mem)
  finally show ?thesis .
qed

lemma distinct_key_update:
  assumes "distinct (map f xs)" "k < length xs" "f (xs ! k) = f c"
  shows "xs[k := c] = map (\<lambda>x. if f x = f c then c else x) xs"
proof (rule nth_equalityI)
  fix i assume "i < length (xs[k := c])"
  then have i: "i < length xs" by simp
  have "f (xs ! i) = f (xs ! k) \<longleftrightarrow> i = k"
    using assms(1,2) i by (metis length_map nth_eq_iff_index_eq nth_map)
  with assms(3) i show "xs[k := c] ! i = map (\<lambda>x. if f x = f c then c else x) xs ! i"
    by (auto simp: nth_list_update)
qed simp

lemma cq_coalesce_Some:
  assumes "cq_inv cap q" "cq_coalesce cap c q = Some q'"
  shows "cq_elems cap q' = map (\<lambda>x. if mc_key x = mc_key c then c else x) (cq_elems cap q) \<and>
         length (cq_items q') = length (cq_items q) \<and>
         q' = q\<lparr>cq_items := cq_items q', cq_coalesced_count := cq_coalesced_count q + 1\<rparr>"
proof -
  from assms(2) obtain offset where o: "index_where
      (\<lambda>offset. mc_same (cq_items q ! cq_index cap q offset) c) [0..<cq_count q] = Some offset"
    by (auto simp: cq_coalesce_def split: option.splits)
  then have lt: "offset < cq_count q" and hit: "mc_same (cq_items q ! cq_index cap q offset) c"
    by (auto dest: index_where_SomeD)
  let ?k = "cq_count q - 1 - offset"
  have k: "?k < cq_count q" "cq_count q \<le> cap" "length (cq_items q) = cap"
    using lt assms(1) by (auto simp: cq_inv_def)
  have q': "q' = q\<lparr>cq_items := (cq_items q)[cq_index cap q offset := c],
                   cq_coalesced_count := cq_coalesced_count q + 1\<rparr>"
    using assms(2) o hit by (simp add: cq_coalesce_def Let_def mc_same_update)
  then have "cq_elems cap q' = (cq_elems cap q)[?k := c]"
    using window_update_inside [OF k, of "cq_tail q" c] cq_index_window [OF assms(1) lt]
    by (simp add: cq_elems_def)
  also have "\<dots> = map (\<lambda>x. if mc_key x = mc_key c then c else x) (cq_elems cap q)"
    using assms(1) hit k(1) cq_index_elem [OF assms(1) lt]
    by (intro distinct_key_update) (auto simp: cq_inv_def mc_same_key cq_elems_def)
  finally show ?thesis using q' by simp
qed


lemma cq_init_inv [sk_inv]:
  "0 < cap \<Longrightarrow> cap \<le> 65535 \<Longrightarrow> cq_inv cap (cq_init cap) \<and> cq_elems cap (cq_init cap) = []"
  by (simp add: cq_inv_def cq_init_def cq_elems_def)

lemma map_key_replace: "map f (map (\<lambda>x. if f x = f c then c else x) xs) = map f xs"
  by (induction xs) auto

lemma cq_drop_oldest:
  assumes "cq_inv cap q" "0 < cq_count q"
  shows "cq_elems cap q = cq_items q ! cq_tail q #
           window cap (cq_items q) (cq_advance cap (cq_tail q)) (cq_count q - 1)"
    and "(cq_advance cap (cq_tail q) + (cq_count q - 1)) mod cap = cq_head q"
    and "cq_advance cap (cq_tail q) < cap"
proof -
  obtain n where n: "cq_count q = Suc n" using assms(2) by (cases "cq_count q") auto
  have t: "cq_advance cap (cq_tail q) = Suc (cq_tail q) mod cap" "cq_tail q < cap"
    using assms(1) by (auto simp: cq_inv_def cq_advance_mod)
  show "cq_elems cap q = cq_items q ! cq_tail q #
           window cap (cq_items q) (cq_advance cap (cq_tail q)) (cq_count q - 1)"
    using n t by (simp add: cq_elems_def window_cons)
  show "(cq_advance cap (cq_tail q) + (cq_count q - 1)) mod cap = cq_head q"
    using assms(1) n t by (simp add: cq_inv_def mod_add_left_eq)
  show "cq_advance cap (cq_tail q) < cap" using t by simp
qed

lemma cq_append:
  fixes c :: model_change
  assumes "cq_inv cap q" "cq_count q < cap" "mc_key c \<notin> mc_key ` set (cq_elems cap q)"
  defines "q' \<equiv> q\<lparr>cq_items := (cq_items q)[cq_head q := c], cq_head := cq_advance cap (cq_head q),
                  cq_count := cq_count q + 1, cq_enqueued_count := cq_enqueued_count q + 1\<rparr>"
    and "hw \<equiv> (if cq_high_watermark q < cq_count q + 1 then cq_count q + 1 else cq_high_watermark q)"
  shows "cq_inv cap (q'\<lparr>cq_high_watermark := hw\<rparr>)"
    and "cq_elems cap (q'\<lparr>cq_high_watermark := hw\<rparr>) = cq_elems cap q @ [c]"
proof -
  have h: "cq_head q = (cq_tail q + cq_count q) mod cap" "cq_head q < cap" "length (cq_items q) = cap"
    using assms(1) by (auto simp: cq_inv_def)
  show e: "cq_elems cap (q'\<lparr>cq_high_watermark := hw\<rparr>) = cq_elems cap q @ [c]"
    using window_put [OF assms(2) h(3), of "cq_tail q" c] h(1) by (simp add: cq_elems_def q'_def)
  have "cq_advance cap (cq_head q) = (cq_tail q + (cq_count q + 1)) mod cap"
    using assms(1) h by (simp add: cq_inv_def cq_advance_mod mod_Suc_eq)
  then show "cq_inv cap (q'\<lparr>cq_high_watermark := hw\<rparr>)"
    using assms(1-3) e by (auto simp: cq_inv_def q'_def hw_def)
qed

lemma cq_evict_inv:
  assumes "cq_inv cap q" "0 < cq_count q"
  defines "q' \<equiv> q\<lparr>cq_tail := cq_advance cap (cq_tail q), cq_count := cq_count q - 1\<rparr>"
  shows "cq_inv cap (q'\<lparr>cq_dropped_count := d\<rparr>)"
    and "cq_elems cap (q'\<lparr>cq_dropped_count := d\<rparr>) = tl (cq_elems cap q)"
  using cq_drop_oldest [OF assms(1,2)] assms(1) by (auto simp: cq_inv_def q'_def cq_elems_def)

lemma cq_push_refines:
  assumes "cq_inv cap q"
  shows "cq_inv cap (cq_push cap c q) \<and>
         cq_elems cap (cq_push cap c q) = aq_push cap c (cq_elems cap q)"
proof (cases "cq_coalesce cap c q")
  case (Some q')
  note s = cq_coalesce_Some [OF assms Some]
  have "mc_key c \<in> mc_key ` set (cq_elems cap q)" using cq_coalesce_None [OF assms, of c] Some by simp
  moreover have "cq_tail q' = cq_tail q \<and> cq_count q' = cq_count q \<and> cq_head q' = cq_head q \<and>
      cq_high_watermark q' = cq_high_watermark q"
    using s by (cases q, cases q') simp
  moreover have "distinct (map mc_key (cq_elems cap q'))"
    using s assms map_key_replace [of mc_key c "cq_elems cap q"] by (simp add: cq_inv_def del: map_map)
  ultimately show ?thesis
    using assms s Some by (simp add: cq_push_def aq_push_def cq_inv_def)
next
  case None
  have fresh: "mc_key c \<notin> mc_key ` set (cq_elems cap q)" using cq_coalesce_None [OF assms, of c] None by simp
  define q1 where "q1 = (if cq_count q = cap
     then q\<lparr>cq_tail := cq_advance cap (cq_tail q), cq_count := cq_count q - 1,
            cq_dropped_count := cq_dropped_count q + 1\<rparr> else q)"
  have pos: "0 < cap" and le: "cq_count q \<le> cap" using assms by (auto simp: cq_inv_def)
  have q1: "cq_inv cap q1" "cq_count q1 < cap"
    "cq_elems cap q1 = (if length (cq_elems cap q) = cap then tl (cq_elems cap q) else cq_elems cap q)"
    using cq_evict_inv [OF assms, of "cq_dropped_count q + 1"] pos le assms
    by (auto simp: cq_elems_def q1_def)
  have "set (cq_elems cap q1) \<subseteq> set (cq_elems cap q)"
    unfolding q1(3) by (cases "cq_elems cap q") auto
  with fresh have "mc_key c \<notin> mc_key ` set (cq_elems cap q1)" by blast
  note app = cq_append [OF q1(1,2) this]
  have "cq_push cap c q = q1\<lparr>cq_items := (cq_items q1)[cq_head q1 := c],
      cq_head := cq_advance cap (cq_head q1), cq_count := cq_count q1 + 1,
      cq_enqueued_count := cq_enqueued_count q1 + 1,
      cq_high_watermark := if cq_high_watermark q1 < cq_count q1 + 1 then cq_count q1 + 1
                           else cq_high_watermark q1\<rparr>"
    using None unfolding cq_push_def q1_def [symmetric] by (simp add: Let_def)
  with app q1(3) fresh show ?thesis by (simp add: aq_push_def)
qed

lemma cq_pop_refines:
  assumes "cq_inv cap q"
  shows "cq_inv cap (snd (cq_pop cap q)) \<and> cq_elems cap (snd (cq_pop cap q)) = tl (cq_elems cap q) \<and>
         fst (cq_pop cap q) = (case cq_elems cap q of [] \<Rightarrow> None | c # _ \<Rightarrow> Some c)"
  using cq_drop_oldest [OF assms] cq_evict_inv [OF assms, of "cq_dropped_count q"] assms
  by (cases "cq_count q = 0") (auto simp: cq_pop_def cq_elems_def)


text \<open>Runs of queue operations, and the lists of changes they hand out.\<close>

datatype cq_op = Push model_change | Pop

fun cq_run :: "nat \<Rightarrow> cq_op list \<Rightarrow> change_queue \<Rightarrow> model_change list \<times> change_queue" where
  "cq_run cap [] q = ([], q)"
| "cq_run cap (Push c # ops) q = cq_run cap ops (cq_push cap c q)"
| "cq_run cap (Pop # ops) q =
     (case cq_pop cap q of
        (None, q') \<Rightarrow> cq_run cap ops q'
      | (Some c, q') \<Rightarrow> (let (cs, q'') = cq_run cap ops q' in (c # cs, q'')))"

fun aq_run :: "nat \<Rightarrow> cq_op list \<Rightarrow> model_change list \<Rightarrow> model_change list \<times> model_change list" where
  "aq_run cap [] xs = ([], xs)"
| "aq_run cap (Push c # ops) xs = aq_run cap ops (aq_push cap c xs)"
| "aq_run cap (Pop # ops) xs =
     (case xs of [] \<Rightarrow> aq_run cap ops []
      | x # xs' \<Rightarrow> (let (cs, ys) = aq_run cap ops xs' in (x # cs, ys)))"

lemma cq_run_refines:
  "cq_inv cap q \<Longrightarrow> cq_inv cap (snd (cq_run cap ops q)) \<and>
   aq_run cap ops (cq_elems cap q) = (fst (cq_run cap ops q), cq_elems cap (snd (cq_run cap ops q)))"
proof (induction cap ops q rule: cq_run.induct)
  case (2 cap c ops q)
  then show ?case using cq_push_refines [OF "2.prems", of c] by simp
next
  case (3 cap ops q)
  obtain r q' where p: "cq_pop cap q = (r, q')" by fastforce
  note s = cq_pop_refines [OF "3.prems", unfolded p fst_conv snd_conv]
  show ?case
  proof (cases r)
    case None
    with s p "3.IH"(1) [OF p [symmetric] None] show ?thesis by (auto split: list.splits)
  next
    case (Some c)
    with s p "3.IH"(2) [OF p [symmetric] Some] show ?thesis by (auto split: list.splits prod.splits)
  qed
qed simp

definition cq_push_all :: "nat \<Rightarrow> model_change list \<Rightarrow> change_queue \<Rightarrow> change_queue" where
  "cq_push_all cap cs q = fold (cq_push cap) cs q"

lemma cq_push_all_refines:
  "cq_inv cap q \<Longrightarrow> cq_inv cap (cq_push_all cap cs q) \<and>
   cq_elems cap (cq_push_all cap cs q) = fold (aq_push cap) cs (cq_elems cap q)"
  unfolding cq_push_all_def
proof (induction cs arbitrary: q)
  case (Cons c cs)
  then show ?case using cq_push_refines [OF Cons.prems, of c] by simp
qed simp

lemma aq_push_keys:
  "mc_key ` set xs \<union> {mc_key c} \<subseteq> K \<Longrightarrow> finite K \<Longrightarrow> card K \<le> cap \<Longrightarrow>
   distinct (map mc_key xs) \<Longrightarrow>
   aq_push cap c xs = (if mc_key c \<in> mc_key ` set xs
     then map (\<lambda>x. if mc_key x = mc_key c then c else x) xs else xs @ [c])"
proof -
  assume K: "mc_key ` set xs \<union> {mc_key c} \<subseteq> K" "finite K" "card K \<le> cap" and d: "distinct (map mc_key xs)"
  have "length xs < cap" if "mc_key c \<notin> mc_key ` set xs"
  proof -
    have "card (insert (mc_key c) (set (map mc_key xs))) \<le> card K"
      using K by (intro card_mono) auto
    moreover have "card (set (map mc_key xs)) = length xs"
      using d distinct_card by fastforce
    ultimately show ?thesis using that K(3) by simp
  qed
  then show ?thesis by (auto simp: aq_push_def)
qed

lemma find_map_replace:
  "find (\<lambda>x. f x = k) (map (\<lambda>x. if f x = f c then c else x) xs) =
   (if k = f c then (if f c \<in> f ` set xs then Some c else None) else find (\<lambda>x. f x = k) xs)"
  by (induction xs) auto

lemma find_append: "find p (xs @ ys) = (case find p xs of None \<Rightarrow> find p ys | Some x \<Rightarrow> Some x)"
  by (induction xs) auto

lemma find_key_None: "k \<notin> f ` set xs \<Longrightarrow> find (\<lambda>x. f x = k) xs = None"
  by (induction xs) auto

lemma aq_push_find:
  assumes "mc_key ` set xs \<union> {mc_key c} \<subseteq> K" "finite K" "card K \<le> cap" "distinct (map mc_key xs)"
  shows "find (\<lambda>x. mc_key x = k) (aq_push cap c xs) =
    (if mc_key c = k then Some c else find (\<lambda>x. mc_key x = k) xs)"
proof (cases "mc_key c = k")
  case True
  then show ?thesis
    using find_map_replace [of mc_key k c xs] find_key_None [of k mc_key xs]
    unfolding aq_push_keys [OF assms] by (auto simp: find_append)
next
  case False
  then show ?thesis
    unfolding aq_push_keys [OF assms]
    by (simp add: find_map_replace find_append split: option.split)
qed

lemma aq_push_distinct:
  "distinct (map mc_key xs) \<Longrightarrow> distinct (map mc_key (aq_push cap c xs)) \<and>
   mc_key ` set (aq_push cap c xs) \<subseteq> insert (mc_key c) (mc_key ` set xs)"
proof (cases "mc_key c \<in> mc_key ` set xs")
  case True
  assume "distinct (map mc_key xs)"
  with True show ?thesis
    using map_key_replace [of mc_key c xs] by (auto simp: aq_push_def simp del: map_map)
next
  case False
  assume d: "distinct (map mc_key xs)"
  have "set (tl xs) \<subseteq> set xs" by (cases xs) auto
  with False d show ?thesis by (auto simp: aq_push_def map_tl distinct_tl)
qed

lemma aq_push_all_find:
  "mc_key ` (set xs \<union> set cs) \<subseteq> K \<Longrightarrow> finite K \<Longrightarrow> card K \<le> cap \<Longrightarrow> distinct (map mc_key xs) \<Longrightarrow>
   find (\<lambda>x. mc_key x = k) (fold (aq_push cap) cs xs) = find (\<lambda>x. mc_key x = k) (rev cs @ xs)"
proof (induction cs arbitrary: xs)
  case (Cons c cs)
  have d: "distinct (map mc_key (aq_push cap c xs))"
    and s: "mc_key ` set (aq_push cap c xs) \<subseteq> insert (mc_key c) (mc_key ` set xs)"
    using aq_push_distinct [OF Cons.prems(4)] by auto
  have "find (\<lambda>x. mc_key x = k) (fold (aq_push cap) cs (aq_push cap c xs)) =
      find (\<lambda>x. mc_key x = k) (rev cs @ aq_push cap c xs)"
  proof (rule Cons.IH)
    show "mc_key ` (set (aq_push cap c xs) \<union> set cs) \<subseteq> K"
    proof -
      have "insert (mc_key c) (mc_key ` set xs) \<subseteq> K" "mc_key ` set cs \<subseteq> K"
        using Cons.prems(1) by (simp_all add: image_Un)
      then show ?thesis unfolding image_Un by (intro Un_least subset_trans [OF s])
    qed
  qed (use Cons.prems d in auto)
  moreover have "find (\<lambda>x. mc_key x = k) (aq_push cap c xs) =
      (if mc_key c = k then Some c else find (\<lambda>x. mc_key x = k) xs)"
  proof (rule aq_push_find)
    show "mc_key ` set xs \<union> {mc_key c} \<subseteq> K" using Cons.prems(1) by auto
  qed (use Cons.prems in simp_all)
  ultimately show ?case
    by (cases "find (\<lambda>x. mc_key x = k) (rev cs)") (simp_all add: find_append)
qed simp

text \<open>The counters: every change enqueued was popped, dropped or is still queued.\<close>

definition cq_balance :: "change_queue \<Rightarrow> u64" where
  "cq_balance q = cq_enqueued_count q - cq_dropped_count q - of_nat (cq_count q)"

lemma cq_coalesce_counts:
  "cq_coalesce cap c q = Some q' \<Longrightarrow> cq_enqueued_count q' = cq_enqueued_count q \<and>
   cq_dropped_count q' = cq_dropped_count q \<and> cq_count q' = cq_count q"
  by (auto simp: cq_coalesce_def Let_def split: option.splits)

lemma cq_push_balance: "0 < cap \<Longrightarrow> cq_balance (cq_push cap c q) = cq_balance q"
  using cq_coalesce_counts [of cap c q]
  by (auto simp: cq_balance_def cq_push_def Let_def split: option.splits)

lemma cq_pop_balance:
  "cq_balance (snd (cq_pop cap q)) = cq_balance q + (if fst (cq_pop cap q) = None then 0 else 1)"
  by (auto simp: cq_balance_def cq_pop_def Suc_le_eq)

lemma cq_run_balance:
  "0 < cap \<Longrightarrow> cq_balance (snd (cq_run cap ops q)) =
   cq_balance q + of_nat (length (fst (cq_run cap ops q)))"
proof (induction cap ops q rule: cq_run.induct)
  case (2 cap c ops q)
  then show ?case by (simp add: cq_push_balance)
next
  case (3 cap ops q)
  obtain r q' where p: "cq_pop cap q = (r, q')" by fastforce
  have b: "cq_balance q' = cq_balance q + (if r = None then 0 else 1)"
    using cq_pop_balance [of cap q] p by simp
  show ?case
    using "3.IH"(1) [OF p [symmetric]] "3.IH"(2) [OF p [symmetric]] "3.prems" b p
    by (cases r) (auto split: prod.splits)
qed simp


section \<open>Per-source values\<close>

text \<open>
  Paths are \<open>const char*\<close> compared as pointers: a pointer is a value of a type variable, and a
  possibly null one an option. The two \<open>double\<close>s of an entry are of a type variable as well.
\<close>

datatype source_value_kind = SvEmpty | SvNumber | SvBool | SvPosition

record ('p, 'r) sv_entry =
  sv_last_update_us :: u64
  sv_a :: 'r
  sv_b :: 'r
  sv_path :: "'p option"
  sv_source_id :: source_id
  sv_kind :: source_value_kind

definition sv_entry_default :: "('p, 'r :: zero) sv_entry" where
  "sv_entry_default = \<lparr>sv_last_update_us = 0, sv_a = 0, sv_b = 0, sv_path = None,
     sv_source_id = 0, sv_kind = SvEmpty\<rparr>"

record ('p, 'r) sv_table =
  sv_entries :: "('p, 'r) sv_entry list"
  sv_evicted_count :: u64

definition sv_init :: "nat \<Rightarrow> ('p, 'r :: zero) sv_table" where
  "sv_init cap = \<lparr>sv_entries = replicate cap sv_entry_default, sv_evicted_count = 0\<rparr>"

definition sv_match :: "'p option \<Rightarrow> source_id \<Rightarrow> ('p, 'r) sv_entry \<Rightarrow> bool" where
  "sv_match path source_id e \<longleftrightarrow>
     sv_kind e \<noteq> SvEmpty \<and> sv_path e = path \<and> sv_source_id e = source_id"

definition sv_oldest :: "('p, 'r) sv_entry list \<Rightarrow> nat" where
  "sv_oldest es = foldl (\<lambda>slot i. if sv_last_update_us (es ! i) < sv_last_update_us (es ! slot)
                                  then i else slot) 0 [0..<length es]"

definition sv_record :: "('p, 'r) sv_entry \<Rightarrow> ('p, 'r) sv_table \<Rightarrow> ('p, 'r) sv_table" where
  "sv_record entry t =
     (let es = sv_entries t in
      case index_where (sv_match (sv_path entry) (sv_source_id entry)) es of
        Some slot \<Rightarrow> t\<lparr>sv_entries := es[slot := entry]\<rparr>
      | None \<Rightarrow>
          (case index_where (\<lambda>e. sv_kind e = SvEmpty) es of
             Some slot \<Rightarrow> t\<lparr>sv_entries := es[slot := entry]\<rparr>
           | None \<Rightarrow> t\<lparr>sv_entries := es[sv_oldest es := entry],
                       sv_evicted_count := sv_evicted_count t + 1\<rparr>))"

definition sv_find :: "'p option \<Rightarrow> source_id \<Rightarrow> ('p, 'r) sv_table \<Rightarrow> ('p, 'r) sv_entry option" where
  "sv_find path source_id t = find (sv_match path source_id) (sv_entries t)"

definition sv_for_each_for :: "'p option \<Rightarrow> ('p, 'r) sv_table \<Rightarrow> ('p, 'r) sv_entry list" where
  "sv_for_each_for path t = filter (\<lambda>e. sv_kind e \<noteq> SvEmpty \<and> sv_path e = path) (sv_entries t)"

fun sv_count_loop :: "'p option \<Rightarrow> ('p, 'r) sv_entry list \<Rightarrow> nat \<Rightarrow> nat" where
  "sv_count_loop path [] count = count"
| "sv_count_loop path (e # es) count =
     sv_count_loop path es (if sv_kind e \<noteq> SvEmpty \<and> sv_path e = path then count + 1 else count)"

definition sv_count_for :: "'p option \<Rightarrow> ('p, 'r) sv_table \<Rightarrow> nat" where
  "sv_count_for path t = sv_count_loop path (sv_entries t) 0"

definition sv_inv :: "nat \<Rightarrow> ('p, 'r) sv_table \<Rightarrow> bool" where
  "sv_inv cap t \<longleftrightarrow> 0 < cap \<and> length (sv_entries t) = cap \<and>
     (\<forall>i < cap. \<forall>j < cap. sv_kind (sv_entries t ! i) \<noteq> SvEmpty \<longrightarrow>
        sv_match (sv_path (sv_entries t ! i)) (sv_source_id (sv_entries t ! i)) (sv_entries t ! j) \<longrightarrow>
        i = j)"

lemma sv_count_loop_eq:
  "sv_count_loop path es n = n + length (filter (\<lambda>e. sv_kind e \<noteq> SvEmpty \<and> sv_path e = path) es)"
  by (induction es arbitrary: n) auto

lemma sv_count_for_eq: "sv_count_for path t = length (sv_for_each_for path t)"
  by (simp add: sv_count_for_def sv_for_each_for_def sv_count_loop_eq)

lemma sv_init_inv [sk_inv]: "0 < cap \<Longrightarrow> sv_inv cap (sv_init cap)"
  by (simp add: sv_inv_def sv_init_def sv_entry_default_def)

lemma sv_match_unique:
  assumes "sv_inv cap t" "i < cap" "j < cap"
    and "sv_match p s (sv_entries t ! i)" "sv_match p s (sv_entries t ! j)"
  shows "i = j"
  using assms by (auto simp: sv_inv_def sv_match_def)

lemma find_index_where: "find p xs = map_option ((!) xs) (index_where p xs)"
  by (induction xs) (auto simp: option.map_comp comp_def)

lemma find_update_other:
  "\<not> p (xs ! i) \<Longrightarrow> \<not> p x \<Longrightarrow> find p (xs[i := x]) = find p xs"
  by (induction xs arbitrary: i) (auto split: nat.splits)

lemma sv_oldest_min:
  assumes "es \<noteq> []"
  shows "sv_oldest es < length es \<and>
         (\<forall>e \<in> set es. sv_last_update_us (es ! sv_oldest es) \<le> sv_last_update_us e)"
proof -
  let ?f = "\<lambda>slot i. if sv_last_update_us (es ! i) < sv_last_update_us (es ! slot) then i else slot"
  have "foldl ?f 0 [0..<n] < length es \<and>
      (\<forall>i < n. sv_last_update_us (es ! foldl ?f 0 [0..<n]) \<le> sv_last_update_us (es ! i))"
    if "n \<le> length es" for n
    using that assms
  proof (induction n)
    case (Suc n)
    then show ?case by (auto simp: less_Suc_eq)
  qed simp
  from this [of "length es"] show ?thesis
    by (auto simp: sv_oldest_def in_set_conv_nth)
qed

text \<open>
  Where \<open>record\<close> stores its entry: the slot is in range, and it is the entry's own slot, an
  empty slot, or, when there is neither, the slot of the oldest entry.
\<close>

definition sv_slot :: "('p, 'r) sv_entry \<Rightarrow> ('p, 'r) sv_entry list \<Rightarrow> nat" where
  "sv_slot entry es =
     (case index_where (sv_match (sv_path entry) (sv_source_id entry)) es of Some i \<Rightarrow> i
      | None \<Rightarrow> (case index_where (\<lambda>e. sv_kind e = SvEmpty) es of Some i \<Rightarrow> i | None \<Rightarrow> sv_oldest es))"

lemma sv_record_slot: "sv_entries (sv_record e t) = (sv_entries t)[sv_slot e (sv_entries t) := e]"
  by (simp add: sv_record_def sv_slot_def Let_def split: option.split)

lemma sv_slot_cases:
  assumes "es \<noteq> []"
  shows "sv_slot e es < length es \<and>
    (sv_match (sv_path e) (sv_source_id e) (es ! sv_slot e es) \<or>
     (\<forall>x \<in> set es. \<not> sv_match (sv_path e) (sv_source_id e) x) \<and>
     (sv_kind (es ! sv_slot e es) = SvEmpty \<or>
      (\<forall>x \<in> set es. sv_kind x \<noteq> SvEmpty \<and>
         sv_last_update_us (es ! sv_slot e es) \<le> sv_last_update_us x)))"
  using sv_oldest_min [OF assms]
  by (auto simp: sv_slot_def index_where_None split: option.split dest: index_where_SomeD)

lemma sv_record_inv [sk_inv]:
  assumes "sv_inv cap t"
  shows "sv_inv cap (sv_record e t)"
proof -
  let ?es = "sv_entries t" and ?k = "sv_slot e (sv_entries t)"
  have ne: "?es \<noteq> []" and len: "length ?es = cap" using assms by (auto simp: sv_inv_def)
  have clash: "j = ?k" if "j < cap" "sv_match (sv_path e) (sv_source_id e) (?es ! j)" for j
    using sv_slot_cases [OF ne, of e] sv_match_unique [OF assms that(1), of ?k] that len nth_mem [of j ?es]
    by auto
  then show ?thesis
    using assms sv_slot_cases [OF ne, of e] unfolding sv_inv_def sv_record_slot
    by (auto simp: nth_list_update sv_match_def)
qed


lemma sv_find_unique:
  assumes "sv_inv cap t" "i < cap" "sv_match p s (sv_entries t ! i)"
  shows "sv_find p s t = Some (sv_entries t ! i)"
proof -
  have "length (sv_entries t) = cap" using assms(1) by (simp add: sv_inv_def)
  moreover have "\<not> sv_match p s (sv_entries t ! j)" if "j < i" for j
    using sv_match_unique [OF assms(1) _ assms(2) _ assms(3), of j] assms(2) that by auto
  ultimately have "index_where (sv_match p s) (sv_entries t) = Some i"
    using assms(2,3) by (intro index_where_SomeI) auto
  then show ?thesis by (simp add: sv_find_def find_index_where)
qed

lemma sv_find_None: "sv_find p s t = None \<longleftrightarrow> (\<forall>e \<in> set (sv_entries t). \<not> sv_match p s e)"
  by (auto simp: sv_find_def find_None_iff)

lemma sv_find_recorded:
  assumes "sv_inv cap t" "sv_kind e \<noteq> SvEmpty"
  shows "sv_find (sv_path e) (sv_source_id e) (sv_record e t) = Some e"
proof -
  let ?k = "sv_slot e (sv_entries t)"
  have k: "?k < cap" "length (sv_entries t) = cap"
    using sv_slot_cases [of "sv_entries t" e] assms(1) by (auto simp: sv_inv_def)
  then show ?thesis
    using sv_find_unique [OF sv_record_inv [OF assms(1)], of ?k "sv_path e" "sv_source_id e" e] assms(2)
    by (simp add: sv_record_slot sv_match_def)
qed

lemma sv_find_kept:
  assumes "sv_inv cap t" "(p, s) \<noteq> (sv_path e, sv_source_id e)"
  shows "sv_find p s (sv_record e t) = sv_find p s t \<or>
         (\<exists>old. sv_find p s t = Some old \<and> sv_find p s (sv_record e t) = None \<and>
                sv_find (sv_path e) (sv_source_id e) t = None \<and>
                (\<forall>x \<in> set (sv_entries t). sv_kind x \<noteq> SvEmpty \<and>
                   sv_last_update_us old \<le> sv_last_update_us x))"
proof (cases "sv_match p s (sv_entries t ! sv_slot e (sv_entries t))")
  case False
  moreover have "\<not> sv_match p s e" using assms(2) by (auto simp: sv_match_def)
  ultimately show ?thesis by (simp add: sv_find_def sv_record_slot find_update_other)
next
  case True
  let ?es = "sv_entries t" and ?k = "sv_slot e (sv_entries t)"
  have len: "length ?es = cap" and ne: "?es \<noteq> []" using assms(1) by (auto simp: sv_inv_def)
  have k: "?k < cap" using sv_slot_cases [OF ne, of e] len by simp
  have "\<not> sv_match (sv_path e) (sv_source_id e) (?es ! ?k)" "sv_kind (?es ! ?k) \<noteq> SvEmpty"
    using True assms(2) by (auto simp: sv_match_def)
  with sv_slot_cases [OF ne, of e] have full:
    "\<forall>x \<in> set ?es. \<not> sv_match (sv_path e) (sv_source_id e) x"
    "\<forall>x \<in> set ?es. sv_kind x \<noteq> SvEmpty \<and> sv_last_update_us (?es ! ?k) \<le> sv_last_update_us x"
    by auto
  have "\<not> sv_match p s x" if "x \<in> set (?es[?k := e])" for x
  proof -
    from that obtain i where i: "i < cap" "x = (?es[?k := e]) ! i" using len by (auto simp: in_set_conv_nth)
    have "i \<noteq> ?k \<Longrightarrow> \<not> sv_match p s (?es ! i)" using sv_match_unique [OF assms(1) i(1) k _ True] by blast
    moreover have "\<not> sv_match p s e" using assms(2) by (auto simp: sv_match_def)
    ultimately show ?thesis using i len by (cases "i = ?k") auto
  qed
  then have "sv_find p s (sv_record e t) = None" by (simp add: sv_find_None sv_record_slot)
  with sv_find_unique [OF assms(1) k True] full show ?thesis by (auto simp: sv_find_None)
qed

section \<open>The store\<close>

record ('m, 'p, 'r) model_store =
  st_model :: 'm
  st_changes :: change_queue
  st_sequence :: u32
  st_marked_change_count :: u64
  st_autopilot_state_last_update_us :: u64
  st_autopilot_state_source_id :: source_id
  st_latest_source_id :: "source_id list"
  st_present_bits :: "u8 list"
  st_source_values :: "('p, 'r) sv_table"

definition presence_bytes :: nat where
  "presence_bytes = (field_count + 7) div 8"

definition st_init :: "nat \<Rightarrow> nat \<Rightarrow> 'm \<Rightarrow> ('m, 'p, 'r :: zero) model_store" where
  "st_init cap sv_cap m = \<lparr>st_model = m, st_changes = cq_init cap, st_sequence = 0,
     st_marked_change_count = 0, st_autopilot_state_last_update_us = 0,
     st_autopilot_state_source_id = 0, st_latest_source_id = replicate field_count 0,
     st_present_bits = replicate presence_bytes 0, st_source_values = sv_init sv_cap\<rparr>"

text \<open>Tests and sets bit \<open>index\<close> of a bit array: \<^verbatim>\<open>bits[index >> 3u]\<close> and \<^verbatim>\<open>1u << (index & 7u)\<close>.\<close>

definition bit_mask8 :: "nat \<Rightarrow> u8" where
  "bit_mask8 index = push_bit (index AND 7) 1"

definition bits_test :: "u8 list \<Rightarrow> nat \<Rightarrow> bool" where
  "bits_test bits index \<longleftrightarrow> (bits ! drop_bit 3 index) AND bit_mask8 index \<noteq> 0"

definition bits_set :: "nat \<Rightarrow> u8 list \<Rightarrow> u8 list" where
  "bits_set index bits = bits[drop_bit 3 index := (bits ! drop_bit 3 index) OR bit_mask8 index]"

definition source_id_for :: "model_field \<Rightarrow> ('m, 'p, 'r) model_store \<Rightarrow> source_id" where
  "source_id_for field st =
     (let index = unat field in if index < field_count then st_latest_source_id st ! index else 0)"

definition has_value :: "model_field \<Rightarrow> ('m, 'p, 'r) model_store \<Rightarrow> bool" where
  "has_value field st \<longleftrightarrow>
     (let index = unat field in index < field_count \<and> bits_test (st_present_bits st) index)"

definition record_current ::
  "model_field \<Rightarrow> source_id \<Rightarrow> ('m, 'p, 'r) model_store \<Rightarrow> ('m, 'p, 'r) model_store" where
  "record_current field source_id st =
     (let index = unat field in
      if index < field_count
      then st\<lparr>st_latest_source_id := (st_latest_source_id st)[index := source_id],
              st_present_bits := bits_set index (st_present_bits st)\<rparr>
      else st)"

text \<open>
  The observer pointer: \<open>None\<close> when null, else the function \<open>on_model_marked\<close> with the observer's
  own state. It may change the store it refers to.
\<close>

type_synonym ('m, 'p, 'r, 'o) mark_observer =
  "model_field \<Rightarrow> source_id \<Rightarrow> source_id \<Rightarrow> bool \<Rightarrow> u64 \<Rightarrow>
   ('m, 'p, 'r) model_store \<Rightarrow> 'o \<Rightarrow> ('m, 'p, 'r) model_store \<times> 'o"

definition mark_changed ::
  "nat \<Rightarrow> ('m, 'p, 'r, 'o) mark_observer option \<Rightarrow> model_field \<Rightarrow> source_id \<Rightarrow> u64 \<Rightarrow>
   ('m, 'p, 'r) model_store \<Rightarrow> 'o \<Rightarrow> ('m, 'p, 'r) model_store \<times> 'o" where
  "mark_changed cap observer field source_id now_us st0 ob0 =
     (let st1 = st0\<lparr>st_marked_change_count := st_marked_change_count st0 + 1\<rparr>;
          (st2, ob2) =
            (case observer of
               None \<Rightarrow> (st1, ob0)
             | Some on_model_marked \<Rightarrow>
                 (let index = unat field;
                      had_value = has_value field st1;
                      previous = (if index < field_count then st_latest_source_id st1 ! index else 0)
                  in on_model_marked field source_id previous had_value now_us st1 ob0));
          st3 = record_current field source_id st2;
          st4 = (if field = field_AutopilotMode \<or> field = field_AutopilotEnabled
                 then st3\<lparr>st_autopilot_state_last_update_us := now_us,
                          st_autopilot_state_source_id := source_id\<rparr>
                 else st3);
          sequence = st_sequence st4 + 1;
          change = \<lparr>mc_field = field, mc_source_id = source_id,
                    mc_timestamp_ms = model_change_timestamp_ms now_us, mc_sequence = sequence\<rparr>
      in (st4\<lparr>st_sequence := sequence, st_changes := cq_push cap change (st_changes st4)\<rparr>, ob2))"

section \<open>The source value recorder (\<^verbatim>\<open>source_value_recorder.hpp\<close>)\<close>

datatype mapped_value_kind = MvNumber | MvBool | MvText | MvObject

datatype object_kind =
    ObNone | ObPosition | ObAttitude | ObDateTime | ObCurrent | ObAisTargets | ObAisOwnVessel
  | ObAisSafety | ObAisDataLinkStatus | ObDsc | ObInmarsatSafetyNet | ObNavtex | ObAlerts | ObMob
  | ObLegacyComm

record ('p, 'n, 'r) mapped_value =
  mv_path :: "'p option"
  mv_kind :: mapped_value_kind
  mv_object_kind :: object_kind
  mv_number :: 'n
  mv_has_coordinate :: bool
  mv_coordinate :: 'r
  mv_boolean :: bool

text \<open>
  \<open>map_field\<close> stands for \<open>SignalKMapper::map_field\<close> (\<open>None\<close> where it returns false),
  \<open>to_double\<close> for the conversion of \<open>Real\<close> to \<open>double\<close>, and \<open>fix\<close> for the position fix of the model.
  The state of the observer is its bit array \<open>multi_source_\<close>.
\<close>

definition recorder_entry ::
  "('n \<Rightarrow> 'r) \<Rightarrow> ('m \<Rightarrow> 'r \<times> 'r) \<Rightarrow> 'm \<Rightarrow> ('p, 'n, 'r) mapped_value \<Rightarrow> source_id \<Rightarrow> u64 \<Rightarrow>
   ('p, 'r :: {zero, one}) sv_entry option" where
  "recorder_entry to_double fix_pos m mapped source_id now_us =
     (let entry = sv_entry_default\<lparr>sv_path := mv_path mapped, sv_source_id := source_id,
                                  sv_last_update_us := now_us\<rparr> in
      if mv_kind mapped = MvNumber
      then Some (entry\<lparr>sv_kind := SvNumber,
                       sv_a := (if mv_has_coordinate mapped then mv_coordinate mapped
                                else to_double (mv_number mapped))\<rparr>)
      else if mv_kind mapped = MvBool
      then Some (entry\<lparr>sv_kind := SvBool, sv_a := (if mv_boolean mapped then 1 else 0)\<rparr>)
      else if mv_kind mapped = MvObject \<and> mv_object_kind mapped = ObPosition
      then Some (entry\<lparr>sv_kind := SvPosition, sv_a := fst (fix_pos m), sv_b := snd (fix_pos m)\<rparr>)
      else None)"

definition on_model_marked ::
  "('m \<Rightarrow> model_field \<Rightarrow> ('p, 'n, 'r) mapped_value option) \<Rightarrow> ('n \<Rightarrow> 'r) \<Rightarrow> ('m \<Rightarrow> 'r \<times> 'r) \<Rightarrow>
   ('m, 'p, 'r :: {zero, one}, u8 list) mark_observer" where
  "on_model_marked map_field to_double fix_pos field source_id previous_source_id had_value now_us st multi =
     (let index = unat field in
      if field_count \<le> index then (st, multi)
      else
        let multi' = (if had_value \<and> previous_source_id \<noteq> source_id then bits_set index multi else multi) in
        if \<not> bits_test multi' index then (st, multi')
        else (case map_field (st_model st) field of
           None \<Rightarrow> (st, multi')
         | Some mapped \<Rightarrow>
             if mv_path mapped = None then (st, multi')
             else (case recorder_entry to_double fix_pos (st_model st) mapped source_id now_us of
                 None \<Rightarrow> (st, multi')
               | Some entry \<Rightarrow>
                   (st\<lparr>st_source_values := sv_record entry (st_source_values st)\<rparr>, multi'))))"

definition multi_source :: "model_field \<Rightarrow> u8 list \<Rightarrow> bool" where
  "multi_source field multi \<longleftrightarrow>
     (let index = unat field in index < field_count \<and> bits_test multi index)"


lemma nat_and_7: "(n :: nat) AND 7 = n mod 8"
  using take_bit_eq_mask [of 3 n] by (simp add: take_bit_eq_mod mask_eq_exp_minus_1)

lemma nat_drop_3: "drop_bit 3 (n :: nat) = n div 8"
  by (simp add: drop_bit_eq_div)

lemma bits_test_iff: "bits_test bits n \<longleftrightarrow> bit (bits ! (n div 8)) (n mod 8)"
  by (simp add: bits_test_def bit_mask8_def nat_and_7 nat_drop_3 bit_iff_and_push_bit_not_eq_0)

lemma length_bits_set [simp]: "length (bits_set n bits) = length bits"
  by (simp add: bits_set_def)

lemma bits_test_set:
  assumes "n div 8 < length bits"
  shows "bits_test (bits_set n bits) m \<longleftrightarrow> m = n \<or> bits_test bits m"
proof (cases "m div 8 = n div 8")
  case True
  then have "m mod 8 = n mod 8 \<longleftrightarrow> m = n" by (metis div_mult_mod_eq)
  with True assms show ?thesis
    by (auto simp: bits_test_iff bits_set_def bit_mask8_def nat_and_7 nat_drop_3 bit_or_iff bit_exp_iff)
next
  case False
  then show ?thesis by (auto simp: bits_test_iff bits_set_def nat_drop_3 nth_list_update)
qed

lemma bits_test_zero: "m div 8 < n \<Longrightarrow> \<not> bits_test (replicate n 0) m"
  by (simp add: bits_test_iff)

lemma field_byte: "n < field_count \<Longrightarrow> n div 8 < presence_bytes"
  by (simp add: presence_bytes_def field_count_def)

definition st_inv :: "nat \<Rightarrow> nat \<Rightarrow> ('m, 'p, 'r) model_store \<Rightarrow> bool" where
  "st_inv cap sv_cap st \<longleftrightarrow> cq_inv cap (st_changes st) \<and> sv_inv sv_cap (st_source_values st) \<and>
     length (st_latest_source_id st) = field_count \<and> length (st_present_bits st) = presence_bytes"

lemma st_init_inv [sk_inv]:
  "0 < cap \<Longrightarrow> cap \<le> 65535 \<Longrightarrow> 0 < sv_cap \<Longrightarrow> st_inv cap sv_cap (st_init cap sv_cap m)"
  by (simp add: st_inv_def st_init_def cq_init_inv sv_init_inv)

lemma has_value_record_current:
  assumes "st_inv cap sv_cap st"
  shows "has_value g (record_current f s st) \<longleftrightarrow> g = f \<and> unat f < field_count \<or> has_value g st"
  using assms field_byte [of "unat f"] bits_test_set [of "unat f" "st_present_bits st" "unat g"]
    word_unat_eq_iff [of g f]
  by (auto simp: has_value_def record_current_def st_inv_def Let_def)

lemma source_id_record_current:
  assumes "st_inv cap sv_cap st"
  shows "source_id_for g (record_current f s st) =
         (if g = f \<and> unat f < field_count then s else source_id_for g st)"
  using assms word_unat_eq_iff [of g f]
  by (auto simp: source_id_for_def record_current_def st_inv_def Let_def)

text \<open>The store after a mark, but for the source values \<open>sv\<close> the observer leaves behind.\<close>

definition marked ::
  "nat \<Rightarrow> model_field \<Rightarrow> source_id \<Rightarrow> u64 \<Rightarrow> ('p, 'r) sv_table \<Rightarrow>
   ('m, 'p, 'r) model_store \<Rightarrow> ('m, 'p, 'r) model_store" where
  "marked cap f s now sv st =
     (let st3 = record_current f s (st\<lparr>st_marked_change_count := st_marked_change_count st + 1,
                                       st_source_values := sv\<rparr>);
          change = \<lparr>mc_field = f, mc_source_id = s, mc_timestamp_ms = model_change_timestamp_ms now,
                    mc_sequence = st_sequence st + 1\<rparr>
      in (if f = field_AutopilotMode \<or> f = field_AutopilotEnabled
          then st3\<lparr>st_autopilot_state_last_update_us := now, st_autopilot_state_source_id := s\<rparr>
          else st3)
         \<lparr>st_sequence := st_sequence st + 1, st_changes := cq_push cap change (st_changes st)\<rparr>)"

lemma marked_inv [sk_inv]: "st_inv cap sv_cap st \<Longrightarrow> sv_inv sv_cap sv \<Longrightarrow> st_inv cap sv_cap (marked cap f s now sv st)"
  using cq_push_refines [of cap "st_changes st"]
  by (auto simp: st_inv_def marked_def record_current_def Let_def)

lemma has_value_fields: "st_present_bits st = st_present_bits st' \<Longrightarrow> has_value g st = has_value g st'"
  by (simp add: has_value_def)

lemma source_id_fields:
  "st_latest_source_id st = st_latest_source_id st' \<Longrightarrow> source_id_for g st = source_id_for g st'"
  by (simp add: source_id_for_def Let_def)

lemma marked_has_value:
  assumes "st_inv cap sv_cap st"
  shows "has_value g (marked cap f s now sv st) \<longleftrightarrow> g = f \<and> unat f < field_count \<or> has_value g st"
proof -
  have "has_value g (marked cap f s now sv st) = has_value g (record_current f s st)"
    by (rule has_value_fields) (simp add: marked_def record_current_def Let_def)
  with has_value_record_current [OF assms] show ?thesis by simp
qed

lemma marked_source_id:
  assumes "st_inv cap sv_cap st"
  shows "source_id_for g (marked cap f s now sv st) =
         (if g = f \<and> unat f < field_count then s else source_id_for g st)"
proof -
  have "source_id_for g (marked cap f s now sv st) = source_id_for g (record_current f s st)"
    by (rule source_id_fields) (simp add: marked_def record_current_def Let_def)
  with source_id_record_current [OF assms] show ?thesis by simp
qed

text \<open>
  What \<open>mark_changed\<close> relies on in an observer: it leaves everything but the source values alone,
  and it keeps their invariant.
\<close>

locale mark_observer_law =
  fixes observer :: "('m, 'p, 'r, 'o) mark_observer"
    and sv_cap :: nat
  assumes touches: "\<exists>sv. fst (observer f s prev had now st ob) = st\<lparr>st_source_values := sv\<rparr>"
    and keeps: "sv_inv sv_cap (st_source_values st) \<Longrightarrow>
      sv_inv sv_cap (st_source_values (fst (observer f s prev had now st ob)))"
begin

lemma mark_shape:
  assumes "st_inv cap sv_cap st"
  shows "\<exists>sv. sv_inv sv_cap sv \<and>
    mark_changed cap (Some observer) f s now st ob =
      (marked cap f s now sv st,
       snd (observer f s (source_id_for f st) (has_value f st) now
              (st\<lparr>st_marked_change_count := st_marked_change_count st + 1\<rparr>) ob))"
proof -
  let ?st1 = "st\<lparr>st_marked_change_count := st_marked_change_count st + 1\<rparr>"
  let ?o = "observer f s (source_id_for f st) (has_value f st) now ?st1 ob"
  obtain sv where sv: "fst ?o = ?st1\<lparr>st_source_values := sv\<rparr>" using touches by blast
  have "sv_inv sv_cap (st_source_values (fst ?o))"
    using assms by (intro keeps) (simp add: st_inv_def)
  then have "sv_inv sv_cap sv" using sv by simp
  moreover obtain ob2 where o: "?o = (?st1\<lparr>st_source_values := sv\<rparr>, ob2)" using sv by (metis prod.collapse)
  have "source_id_for f st = (if unat f < field_count then st_latest_source_id ?st1 ! unat f else 0)"
    and "has_value f st = has_value f ?st1"
    by (simp_all add: source_id_for_def has_value_def Let_def)
  then have "mark_changed cap (Some observer) f s now st ob = (marked cap f s now sv st, ob2)"
    using o by (simp add: mark_changed_def marked_def Let_def record_current_def)
  ultimately show ?thesis using o by auto
qed

lemma mark_inv:
  assumes "st_inv cap sv_cap st"
  shows "st_inv cap sv_cap (fst (mark_changed cap (Some observer) f s now st ob))"
  using mark_shape [OF assms, of f s now ob] assms by (auto intro: marked_inv)

lemma mark_functional:
  assumes "st_inv cap sv_cap st" and st'_def: "st' = fst (mark_changed cap (Some observer) f s now st ob)"
  shows "st_model st' = st_model st"
    and "has_value g st' \<longleftrightarrow> g = f \<and> unat f < field_count \<or> has_value g st"
    and "source_id_for g st' = (if g = f \<and> unat f < field_count then s else source_id_for g st)"
    and "st_sequence st' = st_sequence st + 1"
    and "cq_elems cap (st_changes st') = aq_push cap
           \<lparr>mc_field = f, mc_source_id = s, mc_timestamp_ms = model_change_timestamp_ms now,
            mc_sequence = st_sequence st + 1\<rparr> (cq_elems cap (st_changes st))"
proof -
  from mark_shape [OF assms(1), of f s now ob] obtain sv where st': "st' = marked cap f s now sv st"
    by (auto simp: st'_def)
  show "st_model st' = st_model st" "st_sequence st' = st_sequence st + 1"
    by (simp_all add: st' marked_def record_current_def Let_def)
  show "has_value g st' \<longleftrightarrow> g = f \<and> unat f < field_count \<or> has_value g st"
    unfolding st' by (rule marked_has_value [OF assms(1)])
  show "source_id_for g st' = (if g = f \<and> unat f < field_count then s else source_id_for g st)"
    unfolding st' by (rule marked_source_id [OF assms(1)])
  show "cq_elems cap (st_changes st') = aq_push cap
           \<lparr>mc_field = f, mc_source_id = s, mc_timestamp_ms = model_change_timestamp_ms now,
            mc_sequence = st_sequence st + 1\<rparr> (cq_elems cap (st_changes st))"
    using assms(1) cq_push_refines [of cap "st_changes st"]
    by (simp add: st' marked_def st_inv_def Let_def)
qed

end

lemma recorder_cases:
  "fst (on_model_marked mf td fp f s prev had now st multi) = st \<or>
   (\<exists>e. fst (on_model_marked mf td fp f s prev had now st multi) =
      st\<lparr>st_source_values := sv_record e (st_source_values st)\<rparr>)"
  by (auto simp: on_model_marked_def Let_def split: option.split)

lemma recorder_touches:
  "\<exists>sv. fst (on_model_marked mf td fp f s prev had now st ob) = st\<lparr>st_source_values := sv\<rparr> \<and>
        (sv_inv sv_cap (st_source_values st) \<longrightarrow> sv_inv sv_cap sv)"
  using recorder_cases [of mf td fp f s prev had now st ob]
proof
  assume "fst (on_model_marked mf td fp f s prev had now st ob) = st"
  then show ?thesis by (intro exI [of _ "st_source_values st"]) simp
qed (auto intro: sv_record_inv)

interpretation recorder: mark_observer_law "on_model_marked map_field to_double fix_pos" sv_cap
  for map_field :: "'m \<Rightarrow> model_field \<Rightarrow> ('p, 'n, 'r :: {zero, one}) mapped_value option"
    and to_double fix_pos sv_cap
proof unfold_locales
  fix f s prev had now ob and st :: "('m, 'p, 'r) model_store"
  show "\<exists>sv. fst (on_model_marked map_field to_double fix_pos f s prev had now st ob) =
      st\<lparr>st_source_values := sv\<rparr>"
    using recorder_touches by metis
  show "sv_inv sv_cap (st_source_values
      (fst (on_model_marked map_field to_double fix_pos f s prev had now st ob)))"
    if "sv_inv sv_cap (st_source_values st)"
    using recorder_touches [of map_field to_double fix_pos f s prev had now st ob sv_cap] that by auto
qed


text \<open>A run of marks, each after the model value has been written, with the recorder installed.\<close>

type_synonym 'm mark = "'m \<times> model_field \<times> source_id \<times> u64"

fun mark_run ::
  "nat \<Rightarrow> ('m, 'p, 'r, 'o) mark_observer \<Rightarrow> 'm mark list \<Rightarrow>
   ('m, 'p, 'r) model_store \<times> 'o \<Rightarrow> ('m, 'p, 'r) model_store \<times> 'o" where
  "mark_run cap observer [] p = p"
| "mark_run cap observer ((m, f, s, now) # marks) (st, ob) =
     mark_run cap observer marks (mark_changed cap (Some observer) f s now (st\<lparr>st_model := m\<rparr>) ob)"

definition mark_sources :: "model_field \<Rightarrow> 'm mark list \<Rightarrow> source_id list" where
  "mark_sources g marks = map (\<lambda>(m, f, s, now). s) (filter (\<lambda>(m, f, s, now). f = g) marks)"

lemma mark_run_snoc:
  "mark_run cap ob (marks @ [(m, f, s, now)]) p =
   (let (st, o') = mark_run cap ob marks p in mark_changed cap (Some ob) f s now (st\<lparr>st_model := m\<rparr>) o')"
proof (induction cap ob marks p rule: mark_run.induct)
  case (1 cap observer p)
  then show ?case by (cases p) simp
qed simp

lemma recorder_multi_source:
  assumes "length multi = presence_bytes"
  shows "length (snd (on_model_marked mf td fp f s prev had now st multi)) = presence_bytes"
    and "multi_source g (snd (on_model_marked mf td fp f s prev had now st multi)) \<longleftrightarrow>
         multi_source g multi \<or> g = f \<and> unat f < field_count \<and> had \<and> prev \<noteq> s"
proof -
  let ?multi = "if unat f < field_count \<and> had \<and> prev \<noteq> s then bits_set (unat f) multi else multi"
  have r: "snd (on_model_marked mf td fp f s prev had now st multi) = ?multi"
    by (simp add: on_model_marked_def Let_def split: option.split)
  show "length (snd (on_model_marked mf td fp f s prev had now st multi)) = presence_bytes"
    using assms by (simp add: r)
  show "multi_source g (snd (on_model_marked mf td fp f s prev had now st multi)) \<longleftrightarrow>
         multi_source g multi \<or> g = f \<and> unat f < field_count \<and> had \<and> prev \<noteq> s"
    using assms field_byte [of "unat f"] word_unat_eq_iff [of g f]
    by (auto simp: r multi_source_def Let_def bits_test_set)
qed

lemma differ_snoc:
  "(\<exists>a \<in> set (xs @ [s]). \<exists>b \<in> set (xs @ [s]). a \<noteq> b) \<longleftrightarrow>
   (\<exists>a \<in> set xs. \<exists>b \<in> set xs. a \<noteq> b) \<or> xs \<noteq> [] \<and> last xs \<noteq> s"
proof (cases "xs = []")
  case False
  then have "last xs \<in> set xs" by simp
  then show ?thesis using False by (auto; metis)
qed simp

definition mark_history ::
  "nat \<Rightarrow> nat \<Rightarrow> 'm mark list \<Rightarrow> ('m, 'p, 'r) model_store \<Rightarrow> u8 list \<Rightarrow> bool" where
  "mark_history cap sv_cap marks st multi \<longleftrightarrow>
     st_inv cap sv_cap st \<and> length multi = presence_bytes \<and>
     (\<forall>g. unat g < field_count \<longrightarrow>
        (has_value g st \<longleftrightarrow> mark_sources g marks \<noteq> []) \<and>
        (mark_sources g marks \<noteq> [] \<longrightarrow> source_id_for g st = last (mark_sources g marks)) \<and>
        (multi_source g multi \<longleftrightarrow>
           (\<exists>a \<in> set (mark_sources g marks). \<exists>b \<in> set (mark_sources g marks). a \<noteq> b)))"

lemma mark_history_step:
  assumes h: "mark_history cap sv_cap marks st multi"
    and r: "mark_changed cap (Some (on_model_marked mf td fp)) f s now (st\<lparr>st_model := m\<rparr>) multi = (st', multi')"
  shows "mark_history cap sv_cap (marks @ [(m, f, s, now)]) st' multi'"
proof -
  let ?st = "st\<lparr>st_model := m\<rparr>"
  have i: "st_inv cap sv_cap ?st" using h by (simp add: mark_history_def st_inv_def)
  have st': "st' = fst (mark_changed cap (Some (on_model_marked mf td fp)) f s now ?st multi)"
    using r by simp
  obtain x where multi': "multi' = snd (on_model_marked mf td fp f s (source_id_for f ?st)
      (has_value f ?st) now x multi)"
    using recorder.mark_shape [OF i, of mf td fp f s now multi] r by auto
  have same: "source_id_for g ?st = source_id_for g st" "has_value g ?st = has_value g st" for g
    by (simp_all add: source_id_for_def has_value_def Let_def)
  have len: "length multi = presence_bytes" using h by (simp add: mark_history_def)
  have src: "mark_sources g (marks @ [(m, f, s, now)]) = mark_sources g marks @ (if g = f then [s] else [])" for g
    by (simp add: mark_sources_def)
  show ?thesis
    unfolding mark_history_def
  proof (intro conjI allI impI)
    show "st_inv cap sv_cap st'" using recorder.mark_inv [OF i] st' by simp
    show "length multi' = presence_bytes" using recorder_multi_source(1) [OF len] multi' by simp
  next
    fix g :: model_field assume g: "unat g < field_count"
    show "has_value g st' \<longleftrightarrow> mark_sources g (marks @ [(m, f, s, now)]) \<noteq> []"
      using h g recorder.mark_functional(2) [OF i st', of g] by (auto simp: mark_history_def src same)
    show "source_id_for g st' = last (mark_sources g (marks @ [(m, f, s, now)]))"
      if "mark_sources g (marks @ [(m, f, s, now)]) \<noteq> []"
      using h g that recorder.mark_functional(3) [OF i st', of g] by (auto simp: mark_history_def src same)
    have m: "multi_source g multi' \<longleftrightarrow> multi_source g multi \<or>
        g = f \<and> unat f < field_count \<and> has_value f st \<and> source_id_for f st \<noteq> s"
      unfolding multi' same by (rule recorder_multi_source(2) [OF len])
    have old: "(has_value g st \<longleftrightarrow> mark_sources g marks \<noteq> []) \<and>
        (mark_sources g marks \<noteq> [] \<longrightarrow> source_id_for g st = last (mark_sources g marks)) \<and>
        (multi_source g multi \<longleftrightarrow>
           (\<exists>a \<in> set (mark_sources g marks). \<exists>b \<in> set (mark_sources g marks). a \<noteq> b))"
      using h g by (simp add: mark_history_def)
    show "multi_source g multi' \<longleftrightarrow>
        (\<exists>a \<in> set (mark_sources g (marks @ [(m, f, s, now)])).
           \<exists>b \<in> set (mark_sources g (marks @ [(m, f, s, now)])). a \<noteq> b)"
    proof (cases "g = f")
      case True
      with old g have "multi_source g multi' \<longleftrightarrow>
          (\<exists>a \<in> set (mark_sources f marks). \<exists>b \<in> set (mark_sources f marks). a \<noteq> b) \<or>
          mark_sources f marks \<noteq> [] \<and> last (mark_sources f marks) \<noteq> s"
        unfolding m by auto
      with True show ?thesis unfolding src by (simp only: differ_snoc if_True simp_thms)
    next
      case False
      then show ?thesis unfolding m src using old by simp
    qed
  qed
qed

lemma mark_history_run:
  assumes "0 < cap" "cap \<le> 65535" "0 < sv_cap"
    and "mark_run cap (on_model_marked mf td fp) marks
           (st_init cap sv_cap m0, replicate presence_bytes 0) = (st, multi)"
  shows "mark_history cap sv_cap marks st multi"
  using assms(4)
proof (induction marks arbitrary: st multi rule: rev_induct)
  case Nil
  then have "st = st_init cap sv_cap m0" "multi = replicate presence_bytes 0" by auto
  then show ?case
    using st_init_inv [OF assms(1-3), of m0] field_byte
    by (auto simp: mark_history_def mark_sources_def has_value_def multi_source_def st_init_def
        bits_test_zero Let_def)
next
  case (snoc x marks)
  obtain m f s now where x: "x = (m, f, s, now)" by (cases x) auto
  obtain st1 multi1 where r: "mark_run cap (on_model_marked mf td fp) marks
      (st_init cap sv_cap m0, replicate presence_bytes 0) = (st1, multi1)" by fastforce
  from snoc.prems r x have
    "mark_changed cap (Some (on_model_marked mf td fp)) f s now (st1\<lparr>st_model := m\<rparr>) multi1 = (st, multi)"
    by (simp add: mark_run_snoc)
  with mark_history_step [OF snoc.IH [OF r]] x show ?case by simp
qed


section \<open>Properties\<close>

definition silent_mapping :: "unit \<Rightarrow> model_field \<Rightarrow> (string, int, int) mapped_value option" where
  "silent_mapping m f = None"

text \<open>
  C15: any sequence of pushes and pops on the circular change queue behaves as on a list that holds
  each field and source at most once: a push of a field and source already queued replaces that
  entry in place, another push appends and drops the oldest change only when the queue is full,
  a pop takes the oldest. The 16 bit index arithmetic never leaves the array.
\<close>

theorem change_queue_refines_list:
  fixes ops :: "cq_op list"
  assumes "0 < cap" "cap \<le> 65535"
  defines "r \<equiv> cq_run cap ops (cq_init cap)"
  shows "aq_run cap ops [] = (fst r, cq_elems cap (snd r)) \<and> cq_inv cap (snd r) \<and>
         distinct (map mc_key (cq_elems cap (snd r)))"
  using cq_run_refines [of cap "cq_init cap" ops] cq_init_inv [OF assms(1,2)]
  by (auto simp: r_def cq_inv_def)

theorem change_queue_refines_list_witness:
  "fst (cq_run 2 [Push \<lparr>mc_field = 1, mc_source_id = 5, mc_timestamp_ms = 0, mc_sequence = 1\<rparr>,
                  Push \<lparr>mc_field = 2, mc_source_id = 5, mc_timestamp_ms = 0, mc_sequence = 2\<rparr>,
                  Push \<lparr>mc_field = 1, mc_source_id = 5, mc_timestamp_ms = 7, mc_sequence = 3\<rparr>,
                  Push \<lparr>mc_field = 3, mc_source_id = 5, mc_timestamp_ms = 9, mc_sequence = 4\<rparr>, Pop, Pop, Pop]
       (cq_init 2)) =
   [\<lparr>mc_field = 2, mc_source_id = 5, mc_timestamp_ms = 0, mc_sequence = 2\<rparr>,
    \<lparr>mc_field = 3, mc_source_id = 5, mc_timestamp_ms = 9, mc_sequence = 4\<rparr>]"
proof -
  let ?ops = "[Push \<lparr>mc_field = 1, mc_source_id = 5, mc_timestamp_ms = 0, mc_sequence = 1\<rparr>,
                  Push \<lparr>mc_field = 2, mc_source_id = 5, mc_timestamp_ms = 0, mc_sequence = 2\<rparr>,
                  Push \<lparr>mc_field = 1, mc_source_id = 5, mc_timestamp_ms = 7, mc_sequence = 3\<rparr>,
                  Push \<lparr>mc_field = 3, mc_source_id = 5, mc_timestamp_ms = 9, mc_sequence = 4\<rparr>, Pop, Pop, Pop]"
  have "fst (aq_run 2 ?ops []) = fst (cq_run 2 ?ops (cq_init 2))"
    using change_queue_refines_list [of 2 ?ops] by simp
  then show ?thesis by (simp add: aq_push_def mc_key_def)
qed

text \<open>
  the counters of the change queue account for every change: after any operations, the number
  of changes enqueued is the number dropped plus the number popped plus the number still queued
  (modulo \<open>2^64\<close>, the width of the counters).
\<close>

theorem change_queue_accounting:
  fixes ops :: "cq_op list"
  assumes "0 < cap"
  defines "r \<equiv> cq_run cap ops (cq_init cap)"
  shows "cq_enqueued_count (snd r) =
         cq_dropped_count (snd r) + of_nat (length (fst r)) + of_nat (cq_count (snd r))"
  using cq_run_balance [OF assms(1), of ops "cq_init cap"]
  by (simp add: r_def cq_balance_def cq_init_def algebra_simps)

theorem change_queue_accounting_witness:
  "cq_enqueued_count (snd (cq_run 1 [Push model_change_default, Pop] (cq_init 1))) = 1"
proof -
  let ?ops = "[Push model_change_default, Pop]"
  have "length (fst (cq_run 1 ?ops (cq_init 1))) = 1" "cq_dropped_count (snd (cq_run 1 ?ops (cq_init 1))) = 0"
    "cq_count (snd (cq_run 1 ?ops (cq_init 1))) = 0"
    by (simp_all add: cq_push_def cq_coalesce_def cq_pop_def cq_init_def Let_def)
  with change_queue_accounting [of 1 ?ops] show ?thesis by simp
qed

text \<open>
  no update is lost while the fields and sources in use fit the queue: when the pushed changes
  have at most \<open>cap\<close> different keys, the queue holds for each key the latest change pushed, and for
  no other key a change.
\<close>

theorem change_queue_latest_wins:
  assumes "0 < cap" "cap \<le> 65535" "card (mc_key ` set cs) \<le> cap"
  shows "find (\<lambda>c. mc_key c = k) (cq_elems cap (cq_push_all cap cs (cq_init cap))) =
         find (\<lambda>c. mc_key c = k) (rev cs)"
  using cq_push_all_refines [of cap "cq_init cap" cs] cq_init_inv [OF assms(1,2)]
    aq_push_all_find [of "[]" cs "mc_key ` set cs" cap k] assms(3) by simp

theorem change_queue_latest_wins_witness:
  "find (\<lambda>c. mc_key c = (1, 5)) (cq_elems 1 (cq_push_all 1
     [\<lparr>mc_field = 1, mc_source_id = 5, mc_timestamp_ms = 0, mc_sequence = 1\<rparr>,
      \<lparr>mc_field = 1, mc_source_id = 5, mc_timestamp_ms = 4, mc_sequence = 2\<rparr>] (cq_init 1))) =
   Some \<lparr>mc_field = 1, mc_source_id = 5, mc_timestamp_ms = 4, mc_sequence = 2\<rparr>"
  by (subst change_queue_latest_wins) (simp_all add: mc_key_def)

text \<open>
  recording a value makes it the value found for its path and source; the value of every other
  path and source is kept, except that when the table is full and holds no value for that path and
  source, one entry whose update is the oldest of the table goes.
\<close>

theorem source_values_record:
  assumes "sv_inv cap t" "sv_kind e \<noteq> SvEmpty"
  shows "sv_inv cap (sv_record e t) \<and>
         sv_find (sv_path e) (sv_source_id e) (sv_record e t) = Some e \<and>
         ((p, s) = (sv_path e, sv_source_id e) \<or>
          sv_find p s (sv_record e t) = sv_find p s t \<or>
          (\<exists>old. sv_find p s t = Some old \<and> sv_find p s (sv_record e t) = None \<and>
                sv_find (sv_path e) (sv_source_id e) t = None \<and>
                (\<forall>x \<in> set (sv_entries t). sv_kind x \<noteq> SvEmpty \<and>
                   sv_last_update_us old \<le> sv_last_update_us x)))"
  using sv_record_inv [OF assms(1)] sv_find_recorded [OF assms] sv_find_kept [OF assms(1), of p s e]
  by blast

theorem source_values_record_witness:
  "sv_find (Some ''p'') 3 (sv_record \<lparr>sv_last_update_us = 9, sv_a = 1, sv_b = 0 :: int,
      sv_path = Some ''p'', sv_source_id = 3, sv_kind = SvNumber\<rparr> (sv_init 2)) =
   Some \<lparr>sv_last_update_us = 9, sv_a = 1, sv_b = 0, sv_path = Some ''p'', sv_source_id = 3, sv_kind = SvNumber\<rparr>"
  using source_values_record [OF sv_init_inv [of 2], of "\<lparr>sv_last_update_us = 9, sv_a = 1, sv_b = 0 :: int,
      sv_path = Some ''p'', sv_source_id = 3, sv_kind = SvNumber\<rparr>"] by simp

text \<open>
  marking a field changed, with the source value recorder installed, records the field as
  present with its source, leaves the presence and source of the other fields and the model itself
  alone, advances the sequence number by one and queues exactly one change, which carries the new
  sequence number and the time in milliseconds.
\<close>

theorem mark_changed_effect:
  assumes "st_inv cap sv_cap st"
    and "st' = fst (mark_changed cap (Some (on_model_marked mf td fp)) f s now st multi)"
  shows "st_inv cap sv_cap st' \<and> st_model st' = st_model st \<and>
         (has_value g st' \<longleftrightarrow> g = f \<and> unat f < field_count \<or> has_value g st) \<and>
         source_id_for g st' = (if g = f \<and> unat f < field_count then s else source_id_for g st) \<and>
         st_sequence st' = st_sequence st + 1 \<and>
         cq_elems cap (st_changes st') = aq_push cap
           \<lparr>mc_field = f, mc_source_id = s, mc_timestamp_ms = model_change_timestamp_ms now,
            mc_sequence = st_sequence st + 1\<rparr> (cq_elems cap (st_changes st))"
  using recorder.mark_functional [OF assms] recorder.mark_inv [OF assms(1)] assms(2) by blast

theorem mark_changed_effect_witness:
  "has_value 58 (fst (mark_changed 4 (Some (on_model_marked silent_mapping id (\<lambda>_. (0 :: int, 0)))) 58 10 5000
      (st_init 4 2 ()) (replicate presence_bytes 0)))"
  using mark_changed_effect [OF st_init_inv [of 4 2 "()"] refl, of silent_mapping id "\<lambda>_. (0 :: int, 0)" 58
      10 5000 "replicate presence_bytes 0" 58]
  by (simp add: field_count_def)

text \<open>
  over any sequence of marks from an empty store, a field is present exactly when it was
  marked, its source is the source of its last mark, and the recorder treats it as a multi-source
  field exactly when two of its marks came from different sources.
\<close>

theorem multi_source_history:
  assumes "0 < cap" "cap \<le> 65535" "0 < sv_cap" "unat g < field_count"
    and "mark_run cap (on_model_marked mf td fp) marks
           (st_init cap sv_cap m0, replicate presence_bytes 0) = (st, multi)"
  shows "(has_value g st \<longleftrightarrow> mark_sources g marks \<noteq> []) \<and>
         (mark_sources g marks = [] \<or> source_id_for g st = last (mark_sources g marks)) \<and>
         (multi_source g multi \<longleftrightarrow>
           (\<exists>a \<in> set (mark_sources g marks). \<exists>b \<in> set (mark_sources g marks). a \<noteq> b))"
  using mark_history_run [OF assms(1-3,5)] assms(4) by (auto simp: mark_history_def)

theorem multi_source_history_witness:
  "multi_source 58 (snd (mark_run 4 (on_model_marked silent_mapping id (\<lambda>_. (0 :: int, 0)))
     [((), 58, 10, 0), ((), 36, 11, 5), ((), 58, 12, 9)] (st_init 4 2 (), replicate presence_bytes 0))) \<and>
   \<not> multi_source 36 (snd (mark_run 4 (on_model_marked silent_mapping id (\<lambda>_. (0 :: int, 0)))
     [((), 58, 10, 0), ((), 36, 11, 5), ((), 58, 12, 9)] (st_init 4 2 (), replicate presence_bytes 0)))"
  using multi_source_history [OF _ _ _ _ prod.collapse [symmetric], of 4 2 58 silent_mapping id
      "\<lambda>_. (0 :: int, 0)" "[((), 58, 10, 0), ((), 36, 11, 5), ((), 58, 12, 9)]" "()"]
    multi_source_history [OF _ _ _ _ prod.collapse [symmetric], of 4 2 36 silent_mapping id
      "\<lambda>_. (0 :: int, 0)" "[((), 58, 10, 0), ((), 36, 11, 5), ((), 58, 12, 9)]" "()"]
  by (auto simp: field_count_def mark_sources_def simp del: mark_run.simps)

end
