(* ===== verification/Protocol_Reader.thy ===== *)
theory Protocol_Reader
  imports Streams
begin

text \<open>
  The incremental readers of \<^verbatim>\<open>protocol_reader.hpp\<close>: lines, JSON texts, fixed-size frames and
  header/payload frames. A reader is a step function on one octet that returns its new state and
  the views handed to its callback. A fixed buffer with its size is the list of its live contents,
  and the template parameter \<open>BufferSize\<close> is an argument. Each reader is shown to meet the contract
  \<open>framer\<close>, so that a stream of encoded messages, however it is cut into reads, is turned back
  into those messages.
\<close>

record reader_stats =
  rs_messages :: u32
  rs_bytes :: u32
  rs_overflows :: u32
  rs_protocol_errors :: u32

definition reader_stats_init :: reader_stats where
  "reader_stats_init = \<lparr>rs_messages = 0, rs_bytes = 0, rs_overflows = 0, rs_protocol_errors = 0\<rparr>"

definition note_message :: "reader_stats \<Rightarrow> reader_stats" where
  "note_message s = s\<lparr>rs_messages := rs_messages s + 1\<rparr>"

definition note_byte :: "reader_stats \<Rightarrow> reader_stats" where
  "note_byte s = s\<lparr>rs_bytes := rs_bytes s + 1\<rparr>"

definition note_overflow :: "reader_stats \<Rightarrow> reader_stats" where
  "note_overflow s = s\<lparr>rs_overflows := rs_overflows s + 1\<rparr>"

definition note_error :: "reader_stats \<Rightarrow> reader_stats" where
  "note_error s = s\<lparr>rs_protocol_errors := rs_protocol_errors s + 1\<rparr>"

section \<open>Lines\<close>

record line_options =
  lo_delimiter :: char
  lo_strip_cr :: bool
  lo_drop_overflow :: bool

definition line_options_default :: line_options where
  "line_options_default = \<lparr>lo_delimiter = LF, lo_strip_cr = True, lo_drop_overflow = True\<rparr>"

record line_reader =
  lr_buffer :: string
  lr_stats :: reader_stats

definition lr_init :: line_reader where
  "lr_init = \<lparr>lr_buffer = [], lr_stats = reader_stats_init\<rparr>"

definition lr_emit_line :: "line_options \<Rightarrow> line_reader \<Rightarrow> line_reader \<times> string list" where
  "lr_emit_line opt r =
     (let len = length (lr_buffer r);
          len' = (if lo_strip_cr opt \<and> 0 < len \<and> lr_buffer r ! (len - 1) = CR then len - 1 else len)
      in (r\<lparr>lr_buffer := [], lr_stats := note_message (lr_stats r)\<rparr>, [take len' (lr_buffer r)]))"

definition lr_consume :: "nat \<Rightarrow> line_options \<Rightarrow> char \<Rightarrow> line_reader \<Rightarrow> line_reader \<times> string list" where
  "lr_consume cap opt c r =
     (if c = lo_delimiter opt then lr_emit_line opt r
      else if cap \<le> length (lr_buffer r)
      then (let r1 = r\<lparr>lr_stats := note_overflow (lr_stats r)\<rparr>
            in (if lo_drop_overflow opt then r1\<lparr>lr_buffer := []\<rparr> else r1, []))
      else (r\<lparr>lr_buffer := lr_buffer r @ [c]\<rparr>, []))"

text \<open>The body of the loop of \<open>poll\<close>.\<close>

definition lr_step :: "nat \<Rightarrow> line_options \<Rightarrow> line_reader \<Rightarrow> u8 \<Rightarrow> line_reader \<times> string list" where
  "lr_step cap opt r b =
     lr_consume cap opt (char_of_octet b) (r\<lparr>lr_stats := note_byte (lr_stats r)\<rparr>)"

definition lr_inv :: "nat \<Rightarrow> line_reader \<Rightarrow> bool" where
  "lr_inv cap r \<longleftrightarrow> length (lr_buffer r) \<le> cap"

text \<open>
  What is left of a line: with \<open>drop_overflow\<close> the buffer starts again after each octet that did
  not fit, otherwise the line is truncated. A trailing carriage return goes when \<open>strip_cr\<close> is set.
\<close>

definition line_content :: "nat \<Rightarrow> line_options \<Rightarrow> string \<Rightarrow> string" where
  "line_content cap opt s =
     (if lo_drop_overflow opt then drop (length s - length s mod Suc cap) s else take cap s)"

definition strip_line :: "line_options \<Rightarrow> string \<Rightarrow> string" where
  "strip_line opt s = (if lo_strip_cr opt \<and> s \<noteq> [] \<and> last s = CR then butlast s else s)"

lemma line_content_snoc:
  "line_content cap opt (p @ [c]) =
     (if cap \<le> length (line_content cap opt p)
      then (if lo_drop_overflow opt then [] else line_content cap opt p)
      else line_content cap opt p @ [c])"
proof -
  have "length p mod Suc cap \<le> length p" by simp
  moreover have "cap \<le> length p mod Suc cap \<longleftrightarrow> length p mod Suc cap = cap"
    using mod_less_divisor [of "Suc cap" "length p"] by linarith
  ultimately show ?thesis
    by (auto simp: line_content_def mod_Suc Suc_diff_le)
qed

lemma lr_step_text:
  assumes "lr_buffer r = line_content cap opt p" "c \<noteq> lo_delimiter opt"
  shows "snd (lr_step cap opt r (octet_of c)) = [] \<and>
         lr_buffer (fst (lr_step cap opt r (octet_of c))) = line_content cap opt (p @ [c])"
  using assms by (simp add: lr_step_def lr_consume_def line_content_snoc Let_def)

lemma lr_feed_text:
  "lr_buffer r = line_content cap opt p \<Longrightarrow> lo_delimiter opt \<notin> set s \<Longrightarrow>
   snd (feed (lr_step cap opt) r (octets s)) = [] \<and>
   lr_buffer (fst (feed (lr_step cap opt) r (octets s))) = line_content cap opt (p @ s)"
proof (induction s arbitrary: r p)
  case (Cons c s)
  obtain r1 ms1 where r1: "lr_step cap opt r (octet_of c) = (r1, ms1)" by fastforce
  have "ms1 = []" "lr_buffer r1 = line_content cap opt (p @ [c])"
    using lr_step_text [OF Cons.prems(1), of c] Cons.prems(2) r1 by auto
  with Cons.IH [of r1 "p @ [c]"] Cons.prems(2) r1 show ?case by (auto split: prod.splits)
qed simp

lemma take_strip: "take (if st \<and> 0 < length s \<and> s ! (length s - 1) = CR then length s - 1 else length s) s =
  (if st \<and> s \<noteq> [] \<and> last s = CR then butlast s else s)"
  by (auto simp: last_conv_nth butlast_conv_take)

lemma lr_step_delimiter:
  "snd (lr_step cap opt r (octet_of (lo_delimiter opt))) = [strip_line opt (lr_buffer r)] \<and>
   lr_buffer (fst (lr_step cap opt r (octet_of (lo_delimiter opt)))) = []"
  using take_strip [of "lo_strip_cr opt" "lr_buffer r"]
  by (simp add: lr_step_def lr_consume_def lr_emit_line_def strip_line_def Let_def)

lemma line_content_Nil [simp]: "line_content cap opt [] = []"
  by (simp add: line_content_def)

lemma lr_feed_line:
  assumes "lr_buffer r = []" "lo_delimiter opt \<notin> set s"
  shows "snd (feed (lr_step cap opt) r (octets (s @ [lo_delimiter opt]))) =
           [strip_line opt (line_content cap opt s)] \<and>
         lr_buffer (fst (feed (lr_step cap opt) r (octets (s @ [lo_delimiter opt])))) = []"
  using lr_feed_text [of r cap opt "[]" s] lr_step_delimiter [of cap opt] assms
  by (auto simp: feed_append split: prod.splits) (metis fst_conv snd_conv)+

lemma lr_feed_lines:
  "lr_buffer r = [] \<Longrightarrow> (\<And>s. s \<in> set segs \<Longrightarrow> lo_delimiter opt \<notin> set s) \<Longrightarrow>
   lo_delimiter opt \<notin> set rest \<Longrightarrow>
   snd (feed (lr_step cap opt) r (octets (concat (map (\<lambda>s. s @ [lo_delimiter opt]) segs) @ rest))) =
     map (\<lambda>s. strip_line opt (line_content cap opt s)) segs \<and>
   lr_buffer (fst (feed (lr_step cap opt) r
     (octets (concat (map (\<lambda>s. s @ [lo_delimiter opt]) segs) @ rest)))) = line_content cap opt rest"
proof (induction segs arbitrary: r)
  case Nil
  then show ?case using lr_feed_text [of r cap opt "[]" rest] by simp
next
  case (Cons s segs)
  let ?line = "octets (s @ [lo_delimiter opt])"
  let ?more = "octets (concat (map (\<lambda>s. s @ [lo_delimiter opt]) segs) @ rest)"
  obtain r1 ms1 where r1: "feed (lr_step cap opt) r ?line = (r1, ms1)" by fastforce
  with lr_feed_line [OF Cons.prems(1), of opt s cap] Cons.prems(2) [of s]
  have l: "ms1 = [strip_line opt (line_content cap opt s)]" "lr_buffer r1 = []" by auto
  have "octets (concat (map (\<lambda>s. s @ [lo_delimiter opt]) (s # segs)) @ rest) = ?line @ ?more" by simp
  moreover obtain r2 ms2 where r2: "feed (lr_step cap opt) r1 ?more = (r2, ms2)" by fastforce
  ultimately show ?case
    using Cons.IH [OF l(2)] Cons.prems(2,3) feed_appendI [OF r1 r2] l by simp
qed

lemma lr_step_inv [sk_inv]: "lr_inv cap r \<Longrightarrow> lr_inv cap (fst (lr_step cap opt r b))"
  by (auto simp: lr_inv_def lr_step_def lr_consume_def lr_emit_line_def Let_def)

lemma line_content_short: "length s \<le> cap \<Longrightarrow> line_content cap opt s = s"
  by (simp add: line_content_def)

text \<open>The reader as a framer of delimited lines, and of lines ended by CR and the delimiter.\<close>

interpretation line_framer: framer "lr_step cap opt" "lr_inv cap" "\<lambda>r. lr_buffer r = []"
  "\<lambda>s. octets (s @ [lo_delimiter opt])"
  "\<lambda>s. length s \<le> cap \<and> lo_delimiter opt \<notin> set s \<and> (lo_strip_cr opt \<longrightarrow> s = [] \<or> last s \<noteq> CR)"
  for cap opt
proof unfold_locales
  fix r b assume "lr_inv cap r"
  then show "lr_inv cap (fst (lr_step cap opt r b))" by (rule lr_step_inv)
next
  fix r s
  assume "lr_inv cap r" "lr_buffer r = []"
    "length s \<le> cap \<and> lo_delimiter opt \<notin> set s \<and> (lo_strip_cr opt \<longrightarrow> s = [] \<or> last s \<noteq> CR)"
  then show "lr_buffer (fst (feed (lr_step cap opt) r (octets (s @ [lo_delimiter opt])))) = [] \<and>
      snd (feed (lr_step cap opt) r (octets (s @ [lo_delimiter opt]))) = [s]"
    using lr_feed_line [of r opt s cap] by (auto simp: line_content_short strip_line_def)
qed

interpretation crlf_framer: framer "lr_step cap (\<lparr>lo_delimiter = LF, lo_strip_cr = True, lo_drop_overflow = d\<rparr>)"
  "lr_inv cap" "\<lambda>r. lr_buffer r = []" "\<lambda>s. octets (s @ [CR, LF])"
  "\<lambda>s. length s < cap \<and> LF \<notin> set s"
  for cap d
proof unfold_locales
  fix r b assume "lr_inv cap r"
  then show "lr_inv cap (fst (lr_step cap \<lparr>lo_delimiter = LF, lo_strip_cr = True, lo_drop_overflow = d\<rparr> r b))"
    by (rule lr_step_inv)
next
  fix r s
  let ?opt = "\<lparr>lo_delimiter = LF, lo_strip_cr = True, lo_drop_overflow = d\<rparr>"
  assume "lr_inv cap r" "lr_buffer r = []" "length s < cap \<and> LF \<notin> set s"
  then show "lr_buffer (fst (feed (lr_step cap ?opt) r (octets (s @ [CR, LF])))) = [] \<and>
      snd (feed (lr_step cap ?opt) r (octets (s @ [CR, LF]))) = [s]"
    using lr_feed_line [of r ?opt "s @ [CR]" cap] by (auto simp: line_content_short strip_line_def)
qed


section \<open>JSON texts\<close>

datatype json_state = Idle | Container | StringValue | NumberValue | LiteralValue

record json_reader =
  jr_buffer :: string
  jr_stack :: string
  jr_in_string :: bool
  jr_escape :: bool
  jr_literal :: "string option"
  jr_literal_pos :: nat
  jr_state :: json_state
  jr_stats :: reader_stats

definition jr_init :: json_reader where
  "jr_init = \<lparr>jr_buffer = [], jr_stack = [], jr_in_string = False, jr_escape = False,
     jr_literal = None, jr_literal_pos = 0, jr_state = Idle, jr_stats = reader_stats_init\<rparr>"

definition json_is_ws :: "char \<Rightarrow> bool" where
  "json_is_ws c \<longleftrightarrow> c = CHR '' '' \<or> c = TAB \<or> c = CR \<or> c = LF"

definition json_is_digit :: "char \<Rightarrow> bool" where
  "json_is_digit c \<longleftrightarrow> octet_of CHR ''0'' \<le> octet_of c \<and> octet_of c \<le> octet_of CHR ''9''"

definition json_is_nonzero_digit :: "char \<Rightarrow> bool" where
  "json_is_nonzero_digit c \<longleftrightarrow> octet_of CHR ''1'' \<le> octet_of c \<and> octet_of c \<le> octet_of CHR ''9''"

definition json_is_number_byte :: "char \<Rightarrow> bool" where
  "json_is_number_byte c \<longleftrightarrow> json_is_digit c \<or> c = CHR ''-'' \<or> c = CHR ''+'' \<or> c = CHR ''.'' \<or>
     c = CHR ''e'' \<or> c = CHR ''E''"

text \<open>
  \<open>valid_number\<close> with the text from index \<open>i\<close> on as a list; the loops over digits are \<open>dropWhile\<close>,
  and \<open>None\<close> is the early return of false.
\<close>

definition number_sign :: "string \<Rightarrow> string option" where
  "number_sign t = (if t \<noteq> [] \<and> hd t = CHR ''-'' then (if tl t = [] then None else Some (tl t)) else Some t)"

definition number_int :: "string \<Rightarrow> string option" where
  "number_int t =
     (if hd t = CHR ''0'' then Some (tl t)
      else if json_is_nonzero_digit (hd t) then Some (dropWhile json_is_digit t)
      else None)"

definition number_frac :: "string \<Rightarrow> string option" where
  "number_frac t =
     (if t \<noteq> [] \<and> hd t = CHR ''.''
      then (if tl t = [] \<or> \<not> json_is_digit (hd (tl t)) then None
            else Some (dropWhile json_is_digit (tl t)))
      else Some t)"

definition number_exp :: "string \<Rightarrow> string option" where
  "number_exp t =
     (if t \<noteq> [] \<and> (hd t = CHR ''e'' \<or> hd t = CHR ''E'')
      then (let u = tl t;
                v = (if u \<noteq> [] \<and> (hd u = CHR ''+'' \<or> hd u = CHR ''-'') then tl u else u)
            in if v = [] \<or> \<not> json_is_digit (hd v) then None else Some (dropWhile json_is_digit v))
      else Some t)"

definition valid_number :: "string \<Rightarrow> bool" where
  "valid_number text =
     (if text = [] then False
      else Option.bind (Option.bind (Option.bind (number_sign text) number_int) number_frac) number_exp = Some [])"

definition jr_reset :: "json_reader \<Rightarrow> json_reader" where
  "jr_reset r = r\<lparr>jr_state := Idle, jr_buffer := [], jr_stack := [], jr_in_string := False,
                 jr_escape := False, jr_literal := None, jr_literal_pos := 0\<rparr>"

definition jr_overflow :: "json_reader \<Rightarrow> json_reader" where
  "jr_overflow r = jr_reset (r\<lparr>jr_stats := note_overflow (jr_stats r)\<rparr>)"

definition jr_error :: "json_reader \<Rightarrow> json_reader" where
  "jr_error r = jr_reset (r\<lparr>jr_stats := note_error (jr_stats r)\<rparr>)"

definition jr_append :: "nat \<Rightarrow> char \<Rightarrow> json_reader \<Rightarrow> bool \<times> json_reader" where
  "jr_append cap c r =
     (if cap \<le> length (jr_buffer r) then (False, jr_overflow r)
      else (True, r\<lparr>jr_buffer := jr_buffer r @ [c]\<rparr>))"

definition jr_push_container :: "nat \<Rightarrow> char \<Rightarrow> json_reader \<Rightarrow> bool \<times> json_reader" where
  "jr_push_container cap c r =
     (if cap \<le> length (jr_stack r) then (False, jr_overflow r)
      else (True, r\<lparr>jr_stack := jr_stack r @ [c]\<rparr>))"

definition jr_pop_container :: "char \<Rightarrow> json_reader \<Rightarrow> bool \<times> json_reader" where
  "jr_pop_container c r =
     (if jr_stack r = [] then (False, jr_error r)
      else (let opening = last (jr_stack r) in
            if (opening = CHR ''{'' \<and> c \<noteq> CHR ''}'') \<or> (opening = CHR ''['' \<and> c \<noteq> CHR '']'')
            then (False, jr_error r)
            else (True, r\<lparr>jr_stack := butlast (jr_stack r)\<rparr>)))"

definition jr_emit_json :: "json_reader \<Rightarrow> json_reader \<times> string list" where
  "jr_emit_json r = (jr_reset (r\<lparr>jr_stats := note_message (jr_stats r)\<rparr>), [jr_buffer r])"

definition jr_consume_literal :: "nat \<Rightarrow> char \<Rightarrow> json_reader \<Rightarrow> json_reader \<times> string list" where
  "jr_consume_literal cap c r =
     (case jr_literal r of
        None \<Rightarrow> (jr_error r, [])
      | Some lit \<Rightarrow>
          if length lit \<le> jr_literal_pos r \<or> lit ! jr_literal_pos r \<noteq> c then (jr_error r, [])
          else (let (ok, r1) = jr_append cap c r in
                if \<not> ok then (r1, [])
                else (let r2 = r1\<lparr>jr_literal_pos := jr_literal_pos r1 + 1\<rparr> in
                      if length lit \<le> jr_literal_pos r2 then jr_emit_json r2 else (r2, []))))"

definition jr_start_literal :: "nat \<Rightarrow> string \<Rightarrow> char \<Rightarrow> json_reader \<Rightarrow> json_reader \<times> string list" where
  "jr_start_literal cap lit first r =
     jr_consume_literal cap first (r\<lparr>jr_literal := Some lit, jr_literal_pos := 0, jr_state := LiteralValue\<rparr>)"

definition jr_consume_idle :: "nat \<Rightarrow> bool \<Rightarrow> char \<Rightarrow> json_reader \<Rightarrow> json_reader \<times> string list" where
  "jr_consume_idle cap skip_ws c r =
     (if skip_ws \<and> json_is_ws c then (r, [])
      else if c = CHR ''{'' \<or> c = CHR ''[''
      then (let (ok, r1) = jr_append cap c r in
            if \<not> ok then (r1, [])
            else (let (ok2, r2) = jr_push_container cap c r1 in
                  if \<not> ok2 then (r2, [])
                  else (r2\<lparr>jr_state := Container, jr_in_string := False, jr_escape := False\<rparr>, [])))
      else if c = CHR 0x22
      then (let (ok, r1) = jr_append cap c r in
            if \<not> ok then (r1, []) else (r1\<lparr>jr_state := StringValue, jr_escape := False\<rparr>, []))
      else if c = CHR ''-'' \<or> json_is_digit c
      then (let (ok, r1) = jr_append cap c r in
            if \<not> ok then (r1, []) else (r1\<lparr>jr_state := NumberValue\<rparr>, []))
      else if c = CHR ''t'' then jr_start_literal cap ''true'' c r
      else if c = CHR ''f'' then jr_start_literal cap ''false'' c r
      else if c = CHR ''n'' then jr_start_literal cap ''null'' c r
      else (jr_error r, []))"

definition jr_consume_container :: "nat \<Rightarrow> char \<Rightarrow> json_reader \<Rightarrow> json_reader \<times> string list" where
  "jr_consume_container cap c r =
     (let (ok, r1) = jr_append cap c r in
      if \<not> ok then (r1, [])
      else if jr_in_string r1
      then (if jr_escape r1 then r1\<lparr>jr_escape := False\<rparr>
            else if c = CHR 0x5C then r1\<lparr>jr_escape := True\<rparr>
            else if c = CHR 0x22 then r1\<lparr>jr_in_string := False\<rparr>
            else r1, [])
      else if c = CHR 0x22 then (r1\<lparr>jr_in_string := True\<rparr>, [])
      else if c = CHR ''{'' \<or> c = CHR ''['' then (snd (jr_push_container cap c r1), [])
      else if c = CHR ''}'' \<or> c = CHR '']''
      then (let (ok2, r2) = jr_pop_container c r1 in
            if ok2 \<and> jr_stack r2 = [] then jr_emit_json r2 else (r2, []))
      else (r1, []))"

definition jr_consume_string :: "nat \<Rightarrow> char \<Rightarrow> json_reader \<Rightarrow> json_reader \<times> string list" where
  "jr_consume_string cap c r =
     (let (ok, r1) = jr_append cap c r in
      if \<not> ok then (r1, [])
      else if jr_escape r1 then (r1\<lparr>jr_escape := False\<rparr>, [])
      else if c = CHR 0x5C then (r1\<lparr>jr_escape := True\<rparr>, [])
      else if c = CHR 0x22 then jr_emit_json r1
      else (r1, []))"

text \<open>
  After the reset in \<open>emit_json\<close> or on an error the state is \<open>Idle\<close>, so the final \<open>consume(c)\<close>
  of \<open>consume_number_value\<close> is \<open>consume_idle(c)\<close>.
\<close>

definition jr_consume_number :: "nat \<Rightarrow> bool \<Rightarrow> char \<Rightarrow> json_reader \<Rightarrow> json_reader \<times> string list" where
  "jr_consume_number cap skip_ws c r =
     (if json_is_number_byte c then (snd (jr_append cap c r), [])
      else (let (r1, ms1) = (if valid_number (jr_buffer r) then jr_emit_json r else (jr_error r, []));
                (r2, ms2) = jr_consume_idle cap skip_ws c r1
            in (r2, ms1 @ ms2)))"

definition jr_consume :: "nat \<Rightarrow> bool \<Rightarrow> char \<Rightarrow> json_reader \<Rightarrow> json_reader \<times> string list" where
  "jr_consume cap skip_ws c r =
     (case jr_state r of
        Idle \<Rightarrow> jr_consume_idle cap skip_ws c r
      | Container \<Rightarrow> jr_consume_container cap c r
      | StringValue \<Rightarrow> jr_consume_string cap c r
      | NumberValue \<Rightarrow> jr_consume_number cap skip_ws c r
      | LiteralValue \<Rightarrow> jr_consume_literal cap c r)"

definition jr_step :: "nat \<Rightarrow> bool \<Rightarrow> json_reader \<Rightarrow> u8 \<Rightarrow> json_reader \<times> string list" where
  "jr_step cap skip_ws r b =
     jr_consume cap skip_ws (char_of_octet b) (r\<lparr>jr_stats := note_byte (jr_stats r)\<rparr>)"


subsection \<open>The texts the reader frames\<close>

text \<open>
  The body of a string literal after its opening quote, with the flag for a pending backslash;
  text inside a container; and complete texts. Every JSON document, with any white space inside,
  is such a text.
\<close>

abbreviation quote :: char where "quote \<equiv> CHR 0x22"
abbreviation backslash :: char where "backslash \<equiv> CHR 0x5C"

fun json_body :: "bool \<Rightarrow> string \<Rightarrow> bool" where
  "json_body esc [] \<longleftrightarrow> \<not> esc"
| "json_body True (c # cs) \<longleftrightarrow> json_body False cs"
| "json_body False (c # cs) \<longleftrightarrow> c \<noteq> quote \<and> json_body (c = backslash) cs"

inductive json_inner :: "string \<Rightarrow> bool" where
  Nil: "json_inner []"
| Plain: "c \<notin> {quote, CHR ''{'', CHR ''['', CHR ''}'', CHR '']''} \<Longrightarrow> json_inner s \<Longrightarrow> json_inner (c # s)"
| Str: "json_body False b \<Longrightarrow> json_inner s \<Longrightarrow> json_inner (quote # b @ quote # s)"
| Obj: "json_inner a \<Longrightarrow> json_inner s \<Longrightarrow> json_inner (CHR ''{'' # a @ CHR ''}'' # s)"
| Arr: "json_inner a \<Longrightarrow> json_inner s \<Longrightarrow> json_inner (CHR ''['' # a @ CHR '']'' # s)"

inductive json_text :: "string \<Rightarrow> bool" where
  Object: "json_inner a \<Longrightarrow> json_text (CHR ''{'' # a @ ''}'')"
| Array: "json_inner a \<Longrightarrow> json_text (CHR ''['' # a @ '']'')"
| String: "json_body False b \<Longrightarrow> json_text (quote # b @ [quote])"
| Number: "valid_number n \<Longrightarrow> json_text n"
| Literal: "l \<in> {''true'', ''false'', ''null''} \<Longrightarrow> json_text l"

definition jr_in :: "json_reader \<Rightarrow> string \<Rightarrow> string \<Rightarrow> bool" where
  "jr_in r b st \<longleftrightarrow> jr_state r = Container \<and> jr_buffer r = b \<and> jr_stack r = st \<and>
     \<not> jr_in_string r \<and> \<not> jr_escape r"

definition jr_in_str :: "json_reader \<Rightarrow> string \<Rightarrow> string \<Rightarrow> bool \<Rightarrow> bool" where
  "jr_in_str r b st esc \<longleftrightarrow> jr_state r = Container \<and> jr_buffer r = b \<and> jr_stack r = st \<and>
     jr_in_string r \<and> jr_escape r = esc"

definition jr_ready :: "json_reader \<Rightarrow> bool" where
  "jr_ready r \<longleftrightarrow> jr_state r = Idle \<and> jr_buffer r = [] \<and> jr_stack r = []"

lemma jr_step_octet: "jr_step cap ws r (octet_of c) =
  jr_consume cap ws c (r\<lparr>jr_stats := note_byte (jr_stats r)\<rparr>)"
  by (simp only: jr_step_def char_of_octet_of)

lemmas jr_defs = jr_consume_def jr_consume_container_def jr_append_def jr_push_container_def
  jr_pop_container_def jr_emit_json_def jr_overflow_def jr_error_def jr_reset_def Let_def

lemma feed_octets_Cons: "feed step r (octets (c # s)) =
  (let (r1, ms1) = step r (octet_of c); (r2, ms2) = feed step r1 (octets s) in (r2, ms1 @ ms2))"
  by simp

lemma feed_consI: "step r (octet_of c) = (r1, ms1) \<Longrightarrow> feed step r1 (octets s) = (r2, ms2) \<Longrightarrow>
  feed step r (octets (c # s)) = (r2, ms1 @ ms2)"
  by simp

lemma jr_body:
  "json_body esc b \<Longrightarrow> jr_in_str r buf st esc \<Longrightarrow> length buf + length b < cap \<Longrightarrow>
   \<exists>r'. feed (jr_step cap ws) r (octets (b @ [quote])) = (r', []) \<and> jr_in r' (buf @ b @ [quote]) st"
proof (induction esc b arbitrary: r buf rule: json_body.induct)
  case (1 esc)
  have "\<exists>r'. jr_step cap ws r (octet_of quote) = (r', []) \<and> jr_in r' (buf @ [quote]) st"
    unfolding jr_step_octet using "1.prems" by (auto simp: jr_in_str_def jr_in_def jr_defs)
  then show ?case by auto
next
  case (2 c cs)
  let ?r1 = "fst (jr_step cap ws r (octet_of c))"
  have s: "jr_step cap ws r (octet_of c) = (?r1, [])" "jr_in_str ?r1 (buf @ [c]) st False"
    using "2.prems" unfolding jr_step_octet by (auto simp: jr_in_str_def jr_defs)
  obtain r' where "feed (jr_step cap ws) ?r1 (octets (cs @ [quote])) = (r', [])"
      "jr_in r' (buf @ [c] @ cs @ [quote]) st"
    using "2.IH" [OF _ s(2)] "2.prems" by auto
  with feed_consI [where step = "jr_step cap ws", OF s(1)] show ?case by fastforce
next
  case (3 c cs)
  let ?r1 = "fst (jr_step cap ws r (octet_of c))"
  have s: "jr_step cap ws r (octet_of c) = (?r1, [])" "jr_in_str ?r1 (buf @ [c]) st (c = backslash)"
    using "3.prems" unfolding jr_step_octet by (auto simp: jr_in_str_def jr_defs)
  obtain r' where "feed (jr_step cap ws) ?r1 (octets (cs @ [quote])) = (r', [])"
      "jr_in r' (buf @ [c] @ cs @ [quote]) st"
    using "3.IH" [OF _ s(2)] "3.prems" by auto
  with feed_consI [where step = "jr_step cap ws", OF s(1)] show ?case by fastforce
qed

lemma jr_open:
  assumes "jr_in r buf st" "length buf < cap" "length st \<le> length buf" "c = CHR ''{'' \<or> c = CHR ''[''"
  shows "\<exists>r'. jr_step cap ws r (octet_of c) = (r', []) \<and> jr_in r' (buf @ [c]) (st @ [c])"
  unfolding jr_step_octet using assms by (auto simp: jr_in_def jr_defs)

lemma jr_close:
  assumes "jr_in r buf (st @ [opn])" "length buf < cap" "st \<noteq> []"
    and "(opn, c) = (CHR ''{'', CHR ''}'') \<or> (opn, c) = (CHR ''['', CHR '']'')"
  shows "\<exists>r'. jr_step cap ws r (octet_of c) = (r', []) \<and> jr_in r' (buf @ [c]) st"
  unfolding jr_step_octet using assms by (auto simp: jr_in_def jr_defs)

lemma jr_plain:
  assumes "jr_in r buf st" "length buf < cap" "c \<notin> {quote, CHR ''{'', CHR ''['', CHR ''}'', CHR '']''}"
  shows "\<exists>r'. jr_step cap ws r (octet_of c) = (r', []) \<and> jr_in r' (buf @ [c]) st"
  unfolding jr_step_octet using assms by (auto simp: jr_in_def jr_defs)

lemma jr_quote:
  assumes "jr_in r buf st" "length buf < cap"
  shows "\<exists>r'. jr_step cap ws r (octet_of quote) = (r', []) \<and> jr_in_str r' (buf @ [quote]) st False"
  unfolding jr_step_octet using assms by (auto simp: jr_in_def jr_in_str_def jr_defs)

text \<open>\<open>passes\<close> says that a text is taken in without a message, and what becomes of the state.\<close>

definition jr_passes :: "nat \<Rightarrow> bool \<Rightarrow> json_reader \<Rightarrow> string \<Rightarrow> (json_reader \<Rightarrow> bool) \<Rightarrow> bool" where
  "jr_passes cap ws r s Q \<longleftrightarrow> (\<exists>r'. feed (jr_step cap ws) r (octets s) = (r', []) \<and> Q r')"

lemma jr_passes_append:
  assumes "jr_passes cap ws r s Q" "\<And>r'. Q r' \<Longrightarrow> jr_passes cap ws r' t P"
  shows "jr_passes cap ws r (s @ t) P"
proof -
  from assms(1) obtain r1 where r1: "feed (jr_step cap ws) r (octets s) = (r1, [])" "Q r1"
    by (auto simp: jr_passes_def)
  from assms(2) [OF r1(2)] obtain r2 where r2: "feed (jr_step cap ws) r1 (octets t) = (r2, [])" "P r2"
    by (auto simp: jr_passes_def)
  from feed_appendI [OF r1(1) r2(1)] r2(2) show ?thesis by (auto simp: jr_passes_def)
qed

lemma jr_passes_Cons:
  assumes "\<exists>r'. jr_step cap ws r (octet_of c) = (r', []) \<and> Q r'" "\<And>r'. Q r' \<Longrightarrow> jr_passes cap ws r' t P"
  shows "jr_passes cap ws r (c # t) P"
proof -
  from assms(1) obtain r1 where r1: "jr_step cap ws r (octet_of c) = (r1, [])" "Q r1" by blast
  from assms(2) [OF r1(2)] obtain r2 where "feed (jr_step cap ws) r1 (octets t) = (r2, [])" "P r2"
    by (auto simp: jr_passes_def)
  with r1(1) show ?thesis by (auto simp: jr_passes_def)
qed

lemma jr_inner_box:
  assumes a: "\<And>r buf st. jr_in r buf st \<Longrightarrow> st \<noteq> [] \<Longrightarrow> length st \<le> length buf \<Longrightarrow>
      length buf + length a \<le> cap \<Longrightarrow> jr_passes cap ws r a (\<lambda>r'. jr_in r' (buf @ a) st)"
    and s: "\<And>r buf st. jr_in r buf st \<Longrightarrow> st \<noteq> [] \<Longrightarrow> length st \<le> length buf \<Longrightarrow>
      length buf + length s \<le> cap \<Longrightarrow> jr_passes cap ws r s (\<lambda>r'. jr_in r' (buf @ s) st)"
    and r: "jr_in r buf st" "st \<noteq> []" "length st \<le> length buf" "length buf + length (x # a @ y # s) \<le> cap"
    and xy: "(x, y) = (CHR ''{'', CHR ''}'') \<or> (x, y) = (CHR ''['', CHR '']'')"
  shows "jr_passes cap ws r (x # a @ y # s) (\<lambda>r'. jr_in r' (buf @ x # a @ y # s) st)"
proof (rule jr_passes_Cons)
  show "\<exists>r'. jr_step cap ws r (octet_of x) = (r', []) \<and> jr_in r' (buf @ [x]) (st @ [x])"
    using jr_open [OF r(1) _ r(3), of cap x ws] r(4) xy by auto
next
  fix r1 assume r1: "jr_in r1 (buf @ [x]) (st @ [x])"
  have c: "\<exists>r'. jr_step cap ws r2 (octet_of y) = (r', []) \<and> jr_in r' (buf @ x # a @ [y]) st"
    if "jr_in r2 (buf @ x # a) (st @ [x])" for r2
    using jr_close [OF that, of cap y ws] r(2,4) xy by auto
  have t: "jr_passes cap ws r3 s (\<lambda>r'. jr_in r' (buf @ x # a @ y # s) st)"
    if "jr_in r3 (buf @ x # a @ [y]) st" for r3
    using s [OF that r(2)] r(3,4) by simp
  show "jr_passes cap ws r1 (a @ y # s) (\<lambda>r'. jr_in r' (buf @ x # a @ y # s) st)"
    using a [OF r1] r(3,4) by (intro jr_passes_append [where Q = "\<lambda>r'. jr_in r' (buf @ x # a) (st @ [x])"]
        jr_passes_Cons [OF c t]) auto
qed

lemma jr_inner:
  "json_inner s \<Longrightarrow> jr_in r buf st \<Longrightarrow> st \<noteq> [] \<Longrightarrow> length st \<le> length buf \<Longrightarrow>
   length buf + length s \<le> cap \<Longrightarrow> jr_passes cap ws r s (\<lambda>r'. jr_in r' (buf @ s) st)"
proof (induction s arbitrary: r buf st rule: json_inner.induct)
  case Nil
  then show ?case by (simp add: jr_passes_def)
next
  case (Plain c s)
  have "jr_passes cap ws r1 s (\<lambda>r'. jr_in r' (buf @ c # s) st)" if "jr_in r1 (buf @ [c]) st" for r1
    using Plain.IH [OF that Plain.prems(2)] Plain.prems by simp
  moreover have "length buf < cap" using Plain.prems(4) by simp
  ultimately show ?case using jr_passes_Cons [OF jr_plain [OF Plain.prems(1) _ Plain.hyps(1)]] by blast
next
  case (Str b s)
  have body: "jr_passes cap ws r1 (b @ [quote]) (\<lambda>r'. jr_in r' (buf @ quote # b @ [quote]) st)"
    if "jr_in_str r1 (buf @ [quote]) st False" for r1
    using jr_body [OF Str.hyps(1) that, of cap ws] Str.prems(4) by (simp add: jr_passes_def)
  have rest: "jr_passes cap ws r2 s (\<lambda>r'. jr_in r' (buf @ quote # b @ quote # s) st)"
    if "jr_in r2 (buf @ quote # b @ [quote]) st" for r2
    using Str.IH [OF that Str.prems(2)] Str.prems(3,4) by simp
  have "jr_passes cap ws r1 ((b @ [quote]) @ s) (\<lambda>r'. jr_in r' (buf @ quote # b @ quote # s) st)"
    if "jr_in_str r1 (buf @ [quote]) st False" for r1
    using body [OF that] rest by (rule jr_passes_append)
  moreover have "length buf < cap" using Str.prems(4) by simp
  ultimately show ?case using jr_passes_Cons [OF jr_quote [OF Str.prems(1)]] by fastforce
next
  case (Obj a s)
  then show ?case by (intro jr_inner_box) auto
next
  case (Arr a s)
  then show ?case by (intro jr_inner_box) auto
qed


text \<open>\<open>jr_emits\<close>: the text is handed over as one message and the reader is idle again.\<close>

definition jr_emits :: "nat \<Rightarrow> bool \<Rightarrow> json_reader \<Rightarrow> string \<Rightarrow> string \<Rightarrow> bool" where
  "jr_emits cap ws r s m \<longleftrightarrow> (\<exists>r'. feed (jr_step cap ws) r (octets s) = (r', [m]) \<and> jr_ready r')"

lemma jr_passes_emits:
  assumes "jr_passes cap ws r s Q" "\<And>r'. Q r' \<Longrightarrow> jr_emits cap ws r' t m"
  shows "jr_emits cap ws r (s @ t) m"
proof -
  from assms(1) obtain r1 where r1: "feed (jr_step cap ws) r (octets s) = (r1, [])" "Q r1"
    by (auto simp: jr_passes_def)
  from assms(2) [OF r1(2)] obtain r2 where r2: "feed (jr_step cap ws) r1 (octets t) = (r2, [m])" "jr_ready r2"
    by (auto simp: jr_emits_def)
  from feed_appendI [OF r1(1) r2(1)] r2(2) show ?thesis by (auto simp: jr_emits_def)
qed

lemma jr_single: "\<exists>r'. jr_step cap ws r (octet_of c) = (r', []) \<and> Q r' \<Longrightarrow> jr_passes cap ws r [c] Q"
  by (auto simp: jr_passes_def)

lemma jr_single_emits: "\<exists>r'. jr_step cap ws r (octet_of c) = (r', [m]) \<and> jr_ready r' \<Longrightarrow> jr_emits cap ws r [c] m"
  by (auto simp: jr_emits_def)

lemmas jr_idle_defs = jr_consume_idle_def jr_start_literal_def jr_consume_literal_def jr_consume_string_def
  jr_consume_number_def json_is_ws_def

lemma jr_whitespace:
  assumes "jr_ready r" "json_is_ws c"
  shows "\<exists>r'. jr_step cap True r (octet_of c) = (r', []) \<and> jr_ready r'"
  unfolding jr_step_octet using assms by (auto simp: jr_ready_def jr_defs jr_consume_idle_def)

lemma jr_start_container:
  assumes "jr_ready r" "0 < cap" "c = CHR ''{'' \<or> c = CHR ''[''"
  shows "jr_passes cap ws r [c] (\<lambda>r'. jr_in r' [c] [c])"
  by (rule jr_single, unfold jr_step_octet)
    (use assms in \<open>auto simp: jr_ready_def jr_in_def jr_defs jr_idle_defs\<close>)

lemma jr_end_container:
  assumes "jr_in r buf [opn]" "length buf < cap"
    and "(opn, c) = (CHR ''{'', CHR ''}'') \<or> (opn, c) = (CHR ''['', CHR '']'')"
  shows "jr_emits cap ws r [c] (buf @ [c])"
  by (rule jr_single_emits, unfold jr_step_octet)
    (use assms in \<open>auto simp: jr_ready_def jr_in_def jr_defs\<close>)

lemma jr_container_emits:
  assumes "jr_ready r" "json_inner a" "length (x # a @ [y]) \<le> cap"
    and "(x, y) = (CHR ''{'', CHR ''}'') \<or> (x, y) = (CHR ''['', CHR '']'')"
  shows "jr_emits cap ws r ([x] @ a @ [y]) (x # a @ [y])"
proof (rule jr_passes_emits)
  show "jr_passes cap ws r [x] (\<lambda>r'. jr_in r' [x] [x])"
    using assms by (intro jr_start_container) auto
  fix r1 assume r1: "jr_in r1 [x] [x]"
  show "jr_emits cap ws r1 (a @ [y]) (x # a @ [y])"
  proof (rule jr_passes_emits)
    show "jr_passes cap ws r1 a (\<lambda>r'. jr_in r' ([x] @ a) [x])"
      using jr_inner [OF assms(2) r1] assms(3) by simp
    fix r2 assume "jr_in r2 ([x] @ a) [x]"
    from jr_end_container [OF this _ assms(4), of cap ws] assms(3)
    show "jr_emits cap ws r2 [y] (x # a @ [y])" by simp
  qed
qed

definition jr_str :: "json_reader \<Rightarrow> string \<Rightarrow> bool \<Rightarrow> bool" where
  "jr_str r b esc \<longleftrightarrow> jr_state r = StringValue \<and> jr_buffer r = b \<and> jr_stack r = [] \<and> jr_escape r = esc"

lemma jr_string_tail:
  "json_body esc b \<Longrightarrow> jr_str r buf esc \<Longrightarrow> length buf + length b < cap \<Longrightarrow>
   jr_emits cap ws r (b @ [quote]) (buf @ b @ [quote])"
proof (induction esc b arbitrary: r buf rule: json_body.induct)
  case (1 esc)
  have "\<exists>r'. jr_step cap ws r (octet_of quote) = (r', [buf @ [quote]]) \<and> jr_ready r'"
    unfolding jr_step_octet using "1.prems" by (auto simp: jr_str_def jr_ready_def jr_defs jr_consume_string_def)
  then show ?case using jr_single_emits by simp
next
  case (2 c cs)
  have "jr_passes cap ws r [c] (\<lambda>r'. jr_str r' (buf @ [c]) False)"
    by (rule jr_single, unfold jr_step_octet)
      (use "2.prems" in \<open>auto simp: jr_str_def jr_defs jr_consume_string_def\<close>)
  moreover have "jr_emits cap ws r' (cs @ [quote]) (buf @ (c # cs) @ [quote])" if "jr_str r' (buf @ [c]) False" for r'
    using "2.IH" [OF _ that] "2.prems" by simp
  ultimately show ?case using jr_passes_emits [of cap ws r "[c]"] by simp
next
  case (3 c cs)
  have "jr_passes cap ws r [c] (\<lambda>r'. jr_str r' (buf @ [c]) (c = backslash))"
    by (rule jr_single, unfold jr_step_octet)
      (use "3.prems" in \<open>auto simp: jr_str_def jr_defs jr_consume_string_def\<close>)
  moreover have "jr_emits cap ws r' (cs @ [quote]) (buf @ (c # cs) @ [quote])"
    if "jr_str r' (buf @ [c]) (c = backslash)" for r'
    using "3.IH" [OF _ that] "3.prems" by simp
  ultimately show ?case using jr_passes_emits [of cap ws r "[c]"] by simp
qed

lemma jr_string_emits:
  assumes "jr_ready r" "json_body False b" "length (quote # b @ [quote]) \<le> cap"
  shows "jr_emits cap ws r ([quote] @ b @ [quote]) (quote # b @ [quote])"
proof (rule jr_passes_emits)
  show "jr_passes cap ws r [quote] (\<lambda>r'. jr_str r' [quote] False)"
    by (rule jr_single, unfold jr_step_octet)
      (use assms in \<open>auto simp: jr_ready_def jr_str_def jr_defs jr_idle_defs\<close>)
  fix r1 assume "jr_str r1 [quote] False"
  from jr_string_tail [OF assms(2) this, of cap ws] assms(3)
  show "jr_emits cap ws r1 (b @ [quote]) (quote # b @ [quote])" by simp
qed

definition jr_lit :: "json_reader \<Rightarrow> string \<Rightarrow> string \<Rightarrow> bool" where
  "jr_lit r done_part rest \<longleftrightarrow> jr_state r = LiteralValue \<and> jr_buffer r = done_part \<and> jr_stack r = [] \<and>
     jr_literal r = Some (done_part @ rest) \<and> jr_literal_pos r = length done_part"

lemma jr_literal_tail:
  "jr_lit r p s \<Longrightarrow> s \<noteq> [] \<Longrightarrow> length p + length s \<le> cap \<Longrightarrow> jr_emits cap ws r s (p @ s)"
proof (induction s arbitrary: r p)
  case (Cons c s)
  show ?case
  proof (cases "s = []")
    case True
    have "\<exists>r'. jr_step cap ws r (octet_of c) = (r', [p @ [c]]) \<and> jr_ready r'"
      unfolding jr_step_octet using Cons.prems True
      by (auto simp: jr_lit_def jr_ready_def jr_defs jr_consume_literal_def)
    then show ?thesis using jr_single_emits True by simp
  next
    case False
    have "jr_passes cap ws r [c] (\<lambda>r'. jr_lit r' (p @ [c]) s)"
      by (rule jr_single, unfold jr_step_octet)
        (use Cons.prems False in \<open>auto simp: jr_lit_def jr_defs jr_consume_literal_def\<close>)
    moreover have "jr_emits cap ws r' s (p @ c # s)" if "jr_lit r' (p @ [c]) s" for r'
      using Cons.IH [OF that False] Cons.prems by simp
    ultimately show ?thesis using jr_passes_emits [of cap ws r "[c]"] by simp
  qed
qed simp

lemma jr_literal_emits:
  assumes "jr_ready r" "l \<in> {''true'', ''false'', ''null''}" "length l \<le> cap"
  shows "jr_emits cap ws r ([hd l] @ tl l) l"
proof (rule jr_passes_emits)
  have "json_is_digit CHR ''t'' = False" "json_is_digit CHR ''f'' = False" "json_is_digit CHR ''n'' = False"
    by (simp_all add: json_is_digit_def)
  then show "jr_passes cap ws r [hd l] (\<lambda>r'. jr_lit r' [hd l] (tl l))"
    by (intro jr_single, unfold jr_step_octet)
      (use assms in \<open>auto simp: jr_ready_def jr_lit_def jr_defs jr_idle_defs\<close>)
  fix r1 assume "jr_lit r1 [hd l] (tl l)"
  from jr_literal_tail [OF this, of cap ws] assms(2,3) show "jr_emits cap ws r1 (tl l) l" by auto
qed


definition jr_num :: "json_reader \<Rightarrow> string \<Rightarrow> bool" where
  "jr_num r b \<longleftrightarrow> jr_state r = NumberValue \<and> jr_buffer r = b \<and> jr_stack r = []"

lemma nonzero_digit: "json_is_nonzero_digit c \<Longrightarrow> json_is_digit c"
  by (auto simp: json_is_nonzero_digit_def json_is_digit_def intro: order_trans [of _ "49 :: u8"])

lemma dropWhile_prefix: "\<exists>p. t = p @ dropWhile P t \<and> (\<forall>c \<in> set p. P c)"
  by (intro exI [of _ "takeWhile P t"]) (auto dest: set_takeWhileD)

lemma number_sign_prefix: "number_sign t = Some u \<Longrightarrow> t \<noteq> [] \<Longrightarrow>
  u \<noteq> [] \<and> (\<exists>p. t = p @ u \<and> set p \<subseteq> {CHR ''-''})"
  by (cases t) (auto simp: number_sign_def split: if_splits intro: exI [of _ "[]"] exI [of _ "''-''"])

lemma number_int_prefix:
  assumes "number_int t = Some u" "t \<noteq> []"
  shows "\<exists>p. t = p @ u \<and> p \<noteq> [] \<and> (\<forall>c \<in> set p. json_is_digit c)"
proof (cases t)
  case (Cons c s)
  have z: "json_is_digit CHR ''0''" by (simp add: json_is_digit_def)
  show ?thesis
  proof (cases "c = CHR ''0''")
    case True
    with assms Cons z show ?thesis by (intro exI [of _ "''0''"]) (auto simp: number_int_def)
  next
    case False
    with assms Cons have "json_is_digit c" "u = dropWhile json_is_digit s"
      by (auto simp: number_int_def nonzero_digit split: if_splits)
    moreover obtain p where "s = p @ dropWhile json_is_digit s" "\<forall>c \<in> set p. json_is_digit c"
      using dropWhile_prefix by metis
    ultimately show ?thesis using Cons by (intro exI [of _ "c # p"]) auto
  qed
qed (use assms in simp)

lemma number_frac_prefix:
  assumes "number_frac t = Some u"
  shows "\<exists>p. t = p @ u \<and> (\<forall>c \<in> set p. json_is_number_byte c)"
proof (cases "t \<noteq> [] \<and> hd t = CHR ''.''")
  case True
  then obtain s where s: "t = CHR ''.'' # s" by (cases t) auto
  with assms have "u = dropWhile json_is_digit s" by (auto simp: number_frac_def split: if_splits)
  moreover obtain p where "s = p @ dropWhile json_is_digit s" "\<forall>c \<in> set p. json_is_digit c"
    using dropWhile_prefix by metis
  ultimately show ?thesis using s by (intro exI [of _ "CHR ''.'' # p"]) (auto simp: json_is_number_byte_def)
qed (use assms in \<open>auto simp: number_frac_def\<close>)

lemma number_exp_prefix:
  assumes "number_exp t = Some u"
  shows "\<exists>p. t = p @ u \<and> (\<forall>c \<in> set p. json_is_number_byte c)"
proof (cases "t \<noteq> [] \<and> (hd t = CHR ''e'' \<or> hd t = CHR ''E'')")
  case True
  then obtain e s where s: "t = e # s" "json_is_number_byte e" by (cases t) (auto simp: json_is_number_byte_def)
  let ?v = "if s \<noteq> [] \<and> (hd s = CHR ''+'' \<or> hd s = CHR ''-'') then tl s else s"
  have u: "u = dropWhile json_is_digit ?v"
    using assms True s(1) by (auto simp: number_exp_def Let_def split: if_splits)
  obtain p where p: "?v = p @ dropWhile json_is_digit ?v" "\<forall>c \<in> set p. json_is_digit c"
    using dropWhile_prefix [of ?v json_is_digit] by blast
  have "\<exists>q. s = q @ ?v \<and> (\<forall>c \<in> set q. json_is_number_byte c)"
  proof (cases "s \<noteq> [] \<and> (hd s = CHR ''+'' \<or> hd s = CHR ''-'')")
    case True
    then show ?thesis by (intro exI [of _ "[hd s]"]) (auto simp: json_is_number_byte_def)
  next
    case False
    then show ?thesis by (intro exI [of _ "[]"]) auto
  qed
  then obtain q where q: "s = q @ ?v" "\<forall>c \<in> set q. json_is_number_byte c" by blast
  have "t = (e # q @ p) @ u" using s q p u by simp
  moreover have "\<forall>c \<in> set (e # q @ p). json_is_number_byte c"
    using s(2) q(2) p(2) by (auto simp: json_is_number_byte_def)
  ultimately show ?thesis by blast
qed (use assms in \<open>auto simp: number_exp_def\<close>)

lemma valid_number_bytes:
  assumes "valid_number n"
  shows "n \<noteq> [] \<and> (\<forall>c \<in> set n. json_is_number_byte c) \<and> (hd n = CHR ''-'' \<or> json_is_digit (hd n))"
proof -
  from assms have ne: "n \<noteq> []" by (auto simp: valid_number_def)
  from assms obtain a b c where st: "number_sign n = Some a" "number_int a = Some b" "number_frac b = Some c"
    "number_exp c = Some []"
    by (auto simp: valid_number_def bind_eq_Some_conv split: if_splits)
  from number_sign_prefix [OF st(1) ne] obtain p where p: "a \<noteq> []" "n = p @ a" "set p \<subseteq> {CHR ''-''}" by auto
  from number_int_prefix [OF st(2) p(1)] obtain q where q: "a = q @ b" "q \<noteq> []" "\<forall>c \<in> set q. json_is_digit c" by auto
  from number_frac_prefix [OF st(3)] obtain f where f: "b = f @ c" "\<forall>c \<in> set f. json_is_number_byte c" by auto
  from number_exp_prefix [OF st(4)] have e: "\<forall>c \<in> set c. json_is_number_byte c" by auto
  have "hd n = CHR ''-'' \<or> json_is_digit (hd n)" using p q by (cases p; cases q) auto
  moreover have "\<forall>c \<in> set n. json_is_number_byte c"
    using p q f e by (auto simp: json_is_number_byte_def)
  ultimately show ?thesis using ne by blast
qed

lemma jr_number_tail:
  "jr_num r b \<Longrightarrow> (\<forall>c \<in> set s. json_is_number_byte c) \<Longrightarrow> length b + length s \<le> cap \<Longrightarrow>
   jr_passes cap ws r s (\<lambda>r'. jr_num r' (b @ s))"
proof (induction s arbitrary: r b)
  case (Cons c s)
  have "\<exists>r'. jr_step cap ws r (octet_of c) = (r', []) \<and> jr_num r' (b @ [c])"
    unfolding jr_step_octet using Cons.prems by (auto simp: jr_num_def jr_defs jr_consume_number_def)
  moreover have "jr_passes cap ws r' s (\<lambda>r'. jr_num r' (b @ c # s))" if "jr_num r' (b @ [c])" for r'
    using Cons.IH [OF that] Cons.prems by simp
  ultimately show ?case by (rule jr_passes_Cons)
qed (simp add: jr_passes_def)

lemma number_starts:
  "c = CHR ''-'' \<or> json_is_digit c \<Longrightarrow> c \<noteq> CHR ''{'' \<and> c \<noteq> CHR ''['' \<and> c \<noteq> quote \<and> \<not> json_is_ws c"
  by (auto simp: json_is_digit_def json_is_ws_def)

lemma jr_number_emits:
  assumes "jr_ready r" "valid_number n" "length n \<le> cap"
  shows "jr_emits cap True r (n @ [LF]) n"
proof -
  note v = valid_number_bytes [OF assms(2)]
  obtain c s where n: "n = c # s" using v by (cases n) auto
  have first: "\<exists>r'. jr_step cap True r (octet_of c) = (r', []) \<and> jr_num r' [c]"
    unfolding jr_step_octet using assms(1,3) v n number_starts [of c]
    by (auto simp: jr_ready_def jr_num_def jr_defs jr_consume_idle_def)
  have more: "jr_passes cap True r' s (\<lambda>r'. jr_num r' n)" if "jr_num r' [c]" for r'
    using jr_number_tail [OF that, of s cap True] v n assms(3) by simp
  have last: "jr_emits cap True r' [LF] n" if "jr_num r' n" for r'
    by (rule jr_single_emits, unfold jr_step_octet)
      (use that assms(2) in \<open>auto simp: jr_num_def jr_ready_def jr_defs jr_idle_defs json_is_number_byte_def
         json_is_digit_def\<close>)
  show ?thesis using jr_passes_emits [OF jr_passes_Cons [OF first more] last] n by simp
qed

lemma jr_emits_LF:
  assumes "jr_emits cap True r s m"
  shows "jr_emits cap True r (s @ [LF]) m"
proof -
  from assms obtain r1 where r1: "feed (jr_step cap True) r (octets s) = (r1, [m])" "jr_ready r1"
    by (auto simp: jr_emits_def)
  obtain r2 where r2: "jr_step cap True r1 (octet_of LF) = (r2, [])" "jr_ready r2"
    using jr_whitespace [OF r1(2), of LF cap] by (auto simp: json_is_ws_def)
  then have "feed (jr_step cap True) r1 (octets [LF]) = (r2, [])" by simp
  from feed_appendI [OF r1(1) this] r2(2) show ?thesis by (auto simp: jr_emits_def)
qed

lemma json_text_emits:
  assumes "json_text m" "jr_ready r" "length m \<le> cap"
  shows "jr_emits cap True r (m @ [LF]) m"
  using assms
proof (induction rule: json_text.cases)
  case (Object a)
  then show ?case using jr_emits_LF [OF jr_container_emits [OF assms(2), of a]] by simp
next
  case (Array a)
  then show ?case using jr_emits_LF [OF jr_container_emits [OF assms(2), of a]] by simp
next
  case (String b)
  then show ?case using jr_emits_LF [OF jr_string_emits [OF assms(2), of b]] by simp
next
  case (Number n)
  then show ?case using jr_number_emits [OF assms(2)] by simp
next
  case (Literal l)
  then have "l \<noteq> []" by auto
  with Literal show ?case using jr_emits_LF [OF jr_literal_emits [OF assms(2), of l]] by simp
qed

text \<open>The buffers never grow past their size, and an idle reader holds nothing.\<close>

definition jr_inv :: "nat \<Rightarrow> json_reader \<Rightarrow> bool" where
  "jr_inv cap r \<longleftrightarrow> length (jr_buffer r) \<le> cap \<and> length (jr_stack r) \<le> cap \<and>
     (jr_state r = Idle \<longrightarrow> jr_buffer r = [] \<and> jr_stack r = [])"

lemma jr_idle_inv: "jr_inv cap r \<Longrightarrow> jr_state r = Idle \<Longrightarrow> jr_inv cap (fst (jr_consume_idle cap ws c r))"
  by (auto simp: jr_inv_def jr_idle_defs jr_defs split: option.splits)

lemma jr_step_inv [sk_inv]:
  assumes "jr_inv cap r"
  shows "jr_inv cap (fst (jr_step cap ws r b))"
proof -
  let ?r = "r\<lparr>jr_stats := note_byte (jr_stats r)\<rparr>" and ?c = "char_of_octet b"
  have i: "jr_inv cap ?r" using assms by (simp add: jr_inv_def)
  have e: "jr_inv cap (jr_error q) \<and> jr_state (jr_error q) = Idle \<and>
      jr_inv cap (fst (jr_emit_json q)) \<and> jr_state (fst (jr_emit_json q)) = Idle" for q
    by (simp add: jr_inv_def jr_defs)
  have "jr_inv cap (fst (jr_consume cap ws ?c ?r))"
  proof (cases "jr_state ?r")
    case Idle
    then show ?thesis using jr_idle_inv [OF i] by (simp add: jr_consume_def)
  next
    case Container
    then show ?thesis using i by (auto simp: jr_inv_def jr_defs)
  next
    case StringValue
    then show ?thesis using i by (auto simp: jr_inv_def jr_defs jr_consume_string_def)
  next
    case NumberValue
    define q where "q = (if valid_number (jr_buffer ?r) then jr_emit_json ?r else (jr_error ?r, []))"
    have "jr_inv cap (fst q)" "jr_state (fst q) = Idle" using e [of ?r] by (auto simp: q_def)
    from jr_idle_inv [OF this, of ws ?c] NumberValue show ?thesis
      unfolding jr_consume_def jr_consume_number_def q_def [symmetric] using i
      by (auto simp: jr_inv_def jr_append_def jr_overflow_def jr_reset_def Let_def split: prod.splits)
  next
    case LiteralValue
    then show ?thesis using i e by (auto simp: jr_inv_def jr_defs jr_consume_literal_def split: option.splits)
  qed
  then show ?thesis by (simp only: jr_step_def)
qed

interpretation json_framer: framer "jr_step cap True" "jr_inv cap" jr_ready "\<lambda>m. octets (m @ [LF])"
  "\<lambda>m. json_text m \<and> length m \<le> cap" for cap
proof unfold_locales
  show "jr_inv cap (fst (jr_step cap True r b))" if "jr_inv cap r" for r b
    using that by (rule jr_step_inv)
  show "jr_ready (fst (feed (jr_step cap True) r (octets (m @ [LF])))) \<and>
      snd (feed (jr_step cap True) r (octets (m @ [LF]))) = [m]"
    if "jr_inv cap r" "jr_ready r" "json_text m \<and> length m \<le> cap" for r m
    using json_text_emits [of m r cap] that(2,3) unfolding jr_emits_def by (metis fst_conv snd_conv)
qed


section \<open>Fixed-size frames\<close>

record fixed_reader =
  fr_buffer :: "u8 list"
  fr_stats :: reader_stats

definition fr_init :: fixed_reader where
  "fr_init = \<lparr>fr_buffer = [], fr_stats = reader_stats_init\<rparr>"

definition fr_step :: "nat \<Rightarrow> fixed_reader \<Rightarrow> u8 \<Rightarrow> fixed_reader \<times> u8 list list" where
  "fr_step frame_size r b =
     (let r1 = r\<lparr>fr_stats := note_byte (fr_stats r), fr_buffer := fr_buffer r @ [b]\<rparr> in
      if length (fr_buffer r1) = frame_size
      then (r1\<lparr>fr_stats := note_message (fr_stats r1), fr_buffer := []\<rparr>, [fr_buffer r1])
      else (r1, []))"

text \<open>\<open>poll\<close> with the stream: invalid options only count an error.\<close>

definition fr_poll ::
  "nat \<Rightarrow> nat \<Rightarrow> ('s \<Rightarrow> bool) \<Rightarrow> (nat \<Rightarrow> 's \<Rightarrow> u8 list \<times> 's) \<Rightarrow> 's \<Rightarrow> fixed_reader \<Rightarrow>
   ('s \<times> fixed_reader \<times> u8 list list) option" where
  "fr_poll cap frame_size readable rd s r =
     (if frame_size = 0 \<or> cap < frame_size
      then Some (s, r\<lparr>fr_stats := note_error (fr_stats r)\<rparr>, [])
      else poll_loop readable rd (fr_step frame_size) s r)"

definition fr_inv :: "nat \<Rightarrow> fixed_reader \<Rightarrow> bool" where
  "fr_inv frame_size r \<longleftrightarrow> length (fr_buffer r) < frame_size"

lemma fr_step_inv [sk_inv]: "fr_inv n r \<Longrightarrow> fr_inv n (fst (fr_step n r b))"
  by (auto simp: fr_inv_def fr_step_def Let_def)

lemma fr_feed:
  "length (fr_buffer r) + length bs < n \<Longrightarrow>
   snd (feed (fr_step n) r bs) = [] \<and> fr_buffer (fst (feed (fr_step n) r bs)) = fr_buffer r @ bs"
proof (induction bs arbitrary: r)
  case (Cons b bs)
  then show ?case
    using Cons.IH [of "fst (fr_step n r b)"] by (auto simp: fr_step_def Let_def split: prod.splits)
qed simp

interpretation fixed_framer: framer "fr_step n" "fr_inv n" "\<lambda>r. fr_buffer r = []" "\<lambda>m. m"
  "\<lambda>m. length m = n" for n
proof unfold_locales
  show "fr_inv n (fst (fr_step n r b))" if "fr_inv n r" for r b using that by (rule fr_step_inv)
  show "fr_buffer (fst (feed (fr_step n) r m)) = [] \<and> snd (feed (fr_step n) r m) = [m]"
    if "fr_inv n r" "fr_buffer r = []" "length m = n" for r m
  proof -
    have "m \<noteq> []" using that by (auto simp: fr_inv_def)
    then obtain bs b where m: "m = bs @ [b]" by (metis rev_exhaust)
    obtain r1 ms1 where r1: "feed (fr_step n) r bs = (r1, ms1)" by fastforce
    with fr_feed [of r bs n] that m have "ms1 = []" "fr_buffer r1 = bs" by auto
    with r1 that m show ?thesis by (auto simp: feed_append fr_step_def Let_def)
  qed
qed

section \<open>Header and payload frames\<close>

record hp_options =
  ho_header_size :: nat
  ho_max_payload_size :: nat
  ho_payload_size_from_header :: "(u8 list \<Rightarrow> nat) option"

record hp_reader =
  hp_buffer :: "u8 list"
  hp_expected_size :: nat
  hp_have_expected_size :: bool
  hp_stats :: reader_stats

definition hp_init :: hp_reader where
  "hp_init = \<lparr>hp_buffer = [], hp_expected_size = 0, hp_have_expected_size = False,
     hp_stats = reader_stats_init\<rparr>"

definition hp_valid_options :: "nat \<Rightarrow> hp_options \<Rightarrow> bool" where
  "hp_valid_options cap opt \<longleftrightarrow> ho_header_size opt \<noteq> 0 \<and> ho_payload_size_from_header opt \<noteq> None \<and>
     ho_header_size opt \<le> cap \<and> ho_max_payload_size opt \<le> cap \<and>
     ho_header_size opt + ho_max_payload_size opt \<le> cap"

definition hp_reset :: "hp_reader \<Rightarrow> hp_reader" where
  "hp_reset r = r\<lparr>hp_buffer := [], hp_expected_size := 0, hp_have_expected_size := False\<rparr>"

definition hp_append :: "nat \<Rightarrow> u8 \<Rightarrow> hp_reader \<Rightarrow> bool \<times> hp_reader" where
  "hp_append cap b r =
     (if cap \<le> length (hp_buffer r)
      then (False, hp_reset (r\<lparr>hp_stats := note_overflow (hp_stats r)\<rparr>))
      else (True, r\<lparr>hp_buffer := hp_buffer r @ [b]\<rparr>))"

text \<open>
  \<open>try_emit\<close> in two parts: the expected size, computed once per frame (\<open>None\<close> where a payload that
  is too large resets the reader), and the emission. The recursion of the code ends because a frame
  is at least one header long; \<open>poll\<close> refuses a header size of zero before it gets here.
\<close>

definition hp_expect :: "nat \<Rightarrow> hp_options \<Rightarrow> (u8 list \<Rightarrow> nat) \<Rightarrow> hp_reader \<Rightarrow> bool \<times> hp_reader" where
  "hp_expect cap opt payload_size r =
     (if hp_have_expected_size r then (True, r)
      else (let payload = payload_size (take (ho_header_size opt) (hp_buffer r)) in
            if ho_max_payload_size opt < payload \<or> cap < ho_header_size opt + payload
            then (False, hp_reset (r\<lparr>hp_stats := note_error (hp_stats r)\<rparr>))
            else (True, r\<lparr>hp_expected_size := ho_header_size opt + payload,
                          hp_have_expected_size := True\<rparr>)))"

function hp_try_emit ::
  "nat \<Rightarrow> hp_options \<Rightarrow> (u8 list \<Rightarrow> nat) \<Rightarrow> hp_reader \<Rightarrow> hp_reader \<times> u8 list list" where
  "hp_try_emit cap opt payload_size r =
     (if length (hp_buffer r) < ho_header_size opt then (r, [])
      else (let (ok, r1) = hp_expect cap opt payload_size r in
            if \<not> ok \<or> length (hp_buffer r1) < hp_expected_size r1 then (r1, [])
            else (let frame = take (hp_expected_size r1) (hp_buffer r1);
                      r2 = r1\<lparr>hp_stats := note_message (hp_stats r1),
                              hp_buffer := drop (hp_expected_size r1) (hp_buffer r1),
                              hp_expected_size := 0, hp_have_expected_size := False\<rparr>
                  in if ho_header_size opt \<le> length (hp_buffer r2) \<and> 0 < hp_expected_size r1
                     then (let (r3, ms) = hp_try_emit cap opt payload_size r2 in (r3, frame # ms))
                     else (r2, [frame]))))"
  by pat_completeness auto
termination
  by (relation "measure (\<lambda>(cap, opt, p, r). length (hp_buffer r))")
     (auto simp: hp_expect_def Let_def split: if_splits)

declare hp_try_emit.simps [simp del]

definition hp_step ::
  "nat \<Rightarrow> hp_options \<Rightarrow> (u8 list \<Rightarrow> nat) \<Rightarrow> hp_reader \<Rightarrow> u8 \<Rightarrow> hp_reader \<times> u8 list list" where
  "hp_step cap opt payload_size r b =
     (let (ok, r1) = hp_append cap b (r\<lparr>hp_stats := note_byte (hp_stats r)\<rparr>) in
      if \<not> ok then (r1, []) else hp_try_emit cap opt payload_size r1)"

definition hp_poll ::
  "nat \<Rightarrow> hp_options \<Rightarrow> ('s \<Rightarrow> bool) \<Rightarrow> (nat \<Rightarrow> 's \<Rightarrow> u8 list \<times> 's) \<Rightarrow> 's \<Rightarrow> hp_reader \<Rightarrow>
   ('s \<times> hp_reader \<times> u8 list list) option" where
  "hp_poll cap opt readable rd s r =
     (if \<not> hp_valid_options cap opt
      then Some (s, r\<lparr>hp_stats := note_error (hp_stats r)\<rparr>, [])
      else poll_loop readable rd (hp_step cap opt (the (ho_payload_size_from_header opt))) s r)"

text \<open>Between octets the buffer holds less than a frame, so at most one frame ends per octet.\<close>

definition hp_inv :: "nat \<Rightarrow> hp_options \<Rightarrow> (u8 list \<Rightarrow> nat) \<Rightarrow> hp_reader \<Rightarrow> bool" where
  "hp_inv cap opt ps r \<longleftrightarrow> hp_valid_options cap (opt\<lparr>ho_payload_size_from_header := Some ps\<rparr>) \<and>
     (if hp_have_expected_size r
      then ho_header_size opt \<le> length (hp_buffer r) \<and> length (hp_buffer r) < hp_expected_size r \<and>
           ps (take (ho_header_size opt) (hp_buffer r)) \<le> ho_max_payload_size opt \<and>
           hp_expected_size r = ho_header_size opt + ps (take (ho_header_size opt) (hp_buffer r))
      else length (hp_buffer r) < ho_header_size opt)"

definition hp_frame :: "hp_options \<Rightarrow> (u8 list \<Rightarrow> nat) \<Rightarrow> u8 list \<Rightarrow> bool" where
  "hp_frame opt ps m \<longleftrightarrow> ho_header_size opt \<le> length m \<and>
     ps (take (ho_header_size opt) m) \<le> ho_max_payload_size opt \<and>
     length m = ho_header_size opt + ps (take (ho_header_size opt) m)"

lemma hp_try_emit_wait: "length (hp_buffer r) < ho_header_size opt \<Longrightarrow> hp_try_emit cap opt ps r = (r, [])"
  by (subst hp_try_emit.simps) simp

lemma hp_try_emit_refuse:
  "ho_header_size opt \<le> length (hp_buffer r) \<Longrightarrow> hp_expect cap opt ps r = (ok, r1) \<Longrightarrow>
   \<not> ok \<or> length (hp_buffer r1) < hp_expected_size r1 \<Longrightarrow> hp_try_emit cap opt ps r = (r1, [])"
  by (subst hp_try_emit.simps) (simp add: Let_def)

lemma hp_try_emit_exact:
  "0 < ho_header_size opt \<Longrightarrow> ho_header_size opt \<le> length (hp_buffer r) \<Longrightarrow>
   hp_expect cap opt ps r = (True, r1) \<Longrightarrow> hp_buffer r1 = hp_buffer r \<Longrightarrow>
   length (hp_buffer r) = hp_expected_size r1 \<Longrightarrow>
   hp_try_emit cap opt ps r =
     (r1\<lparr>hp_stats := note_message (hp_stats r1), hp_buffer := [], hp_expected_size := 0,
         hp_have_expected_size := False\<rparr>, [hp_buffer r])"
  by (subst hp_try_emit.simps) (simp add: Let_def)

lemma hp_step_append:
  assumes "hp_inv cap opt ps r"
  shows "hp_step cap opt ps r b = hp_try_emit cap opt ps
    (r\<lparr>hp_stats := note_byte (hp_stats r), hp_buffer := hp_buffer r @ [b]\<rparr>)"
proof -
  have "length (hp_buffer r) < cap"
    using assms by (auto simp: hp_inv_def hp_valid_options_def split: if_splits)
  then show ?thesis by (simp add: hp_step_def hp_append_def)
qed

lemma hp_step_short:
  assumes "hp_inv cap opt ps r" "Suc (length (hp_buffer r)) < ho_header_size opt"
  shows "snd (hp_step cap opt ps r b) = [] \<and> hp_buffer (fst (hp_step cap opt ps r b)) = hp_buffer r @ [b] \<and>
         hp_inv cap opt ps (fst (hp_step cap opt ps r b))"
  using assms by (simp add: hp_step_append hp_try_emit_wait hp_inv_def split: if_splits)

lemma hp_step_header:
  fixes b :: u8
  assumes i: "hp_inv cap opt ps r" and h: "ho_header_size opt \<le> Suc (length (hp_buffer r))"
  defines "bs \<equiv> hp_buffer r @ [b]"
  defines "payload \<equiv> ps (take (ho_header_size opt) bs)"
  shows "hp_inv cap opt ps (fst (hp_step cap opt ps r b)) \<and>
    (if ho_max_payload_size opt < payload
     then snd (hp_step cap opt ps r b) = [] \<and> hp_buffer (fst (hp_step cap opt ps r b)) = []
     else if length bs < ho_header_size opt + payload
     then snd (hp_step cap opt ps r b) = [] \<and> hp_buffer (fst (hp_step cap opt ps r b)) = bs
     else snd (hp_step cap opt ps r b) = [bs] \<and> hp_buffer (fst (hp_step cap opt ps r b)) = [])"
proof -
  let ?r = "r\<lparr>hp_stats := note_byte (hp_stats r), hp_buffer := bs\<rparr>"
  have pos: "0 < ho_header_size opt" "ho_header_size opt + ho_max_payload_size opt \<le> cap"
    using i by (auto simp: hp_inv_def hp_valid_options_def)
  have step: "hp_step cap opt ps r b = hp_try_emit cap opt ps ?r" using hp_step_append [OF i] by (simp add: bs_def)
  have len: "ho_header_size opt \<le> length (hp_buffer ?r)" using h by (simp add: bs_def)
  have old: "hp_have_expected_size r \<Longrightarrow> payload \<le> ho_max_payload_size opt \<and>
      hp_expected_size r = ho_header_size opt + payload"
    using i by (auto simp: hp_inv_def payload_def bs_def)
  obtain ok r1 where e: "hp_expect cap opt ps ?r = (ok, r1)" by fastforce
  show ?thesis
  proof (cases "ho_max_payload_size opt < payload")
    case True
    then have "ok = False" "hp_buffer r1 = [] \<and> \<not> hp_have_expected_size r1"
      using e old by (auto simp: hp_expect_def hp_reset_def payload_def Let_def split: if_splits)
    with hp_try_emit_refuse [OF len e] True i pos step show ?thesis by (simp add: hp_inv_def)
  next
    case False
    then have r1: "ok" "hp_buffer r1 = bs" "hp_have_expected_size r1" "hp_expected_size r1 = ho_header_size opt + payload"
      using e old pos by (auto simp: hp_expect_def payload_def Let_def split: if_splits)
    show ?thesis
    proof (cases "length bs < ho_header_size opt + payload")
      case True
      with hp_try_emit_refuse [OF len e] r1 False i h step show ?thesis
        by (simp add: hp_inv_def bs_def [symmetric] payload_def [symmetric]) (simp add: bs_def)
    next
      case shorter: False
      have "length bs = hp_expected_size r1"
        using i r1 old shorter h by (auto simp: hp_inv_def bs_def split: if_splits)
      with hp_try_emit_exact [OF pos(1) len] e r1 False shorter i step show ?thesis
        by (simp add: hp_inv_def pos)
    qed
  qed
qed


lemma hp_step_inv [sk_inv]: "hp_inv cap opt ps r \<Longrightarrow> hp_inv cap opt ps (fst (hp_step cap opt ps r b))"
  using hp_step_short hp_step_header by (metis not_less)

lemma hp_feed_prefix:
  assumes "hp_frame opt ps m" "hp_inv cap opt ps r" "hp_buffer r = []"
  shows "n < length m \<Longrightarrow> snd (feed (hp_step cap opt ps) r (take n m)) = [] \<and>
    hp_buffer (fst (feed (hp_step cap opt ps) r (take n m))) = take n m \<and>
    hp_inv cap opt ps (fst (feed (hp_step cap opt ps) r (take n m)))"
proof (induction n)
  case (Suc n)
  obtain r1 ms1 where r1: "feed (hp_step cap opt ps) r (take n m) = (r1, ms1)" by fastforce
  with Suc have q: "ms1 = []" "hp_buffer r1 = take n m" "hp_inv cap opt ps r1" by auto
  have t: "take (Suc n) m = take n m @ [m ! n]" using Suc.prems by (simp add: take_Suc_conv_app_nth)
  have "snd (hp_step cap opt ps r1 (m ! n)) = [] \<and> hp_buffer (fst (hp_step cap opt ps r1 (m ! n))) = take (Suc n) m"
  proof (cases "Suc (length (hp_buffer r1)) < ho_header_size opt")
    case True
    then show ?thesis using hp_step_short [OF q(3)] q(2) t by simp
  next
    case False
    have l: "length (take (Suc n) m) = Suc n" "length (hp_buffer r1) = n" using Suc.prems q(2) by auto
    with False have "take (ho_header_size opt) (take (Suc n) m) = take (ho_header_size opt) m" by (simp add: min_def)
    with hp_step_header [OF q(3), of "m ! n"] False assms(1) Suc.prems l q(2) t show ?thesis
      by (simp add: hp_frame_def)
  qed
  with r1 q hp_step_inv [OF q(3), of "m ! n"] t show ?case by (auto simp: feed_append split: prod.splits)
qed (use assms in simp)

interpretation hp_framer: framer "hp_step cap opt ps" "hp_inv cap opt ps" "\<lambda>r. hp_buffer r = []" "\<lambda>m. m"
  "hp_frame opt ps" for cap opt ps
proof unfold_locales
  show "hp_inv cap opt ps (fst (hp_step cap opt ps r b))" if "hp_inv cap opt ps r" for r b
    using that by (rule hp_step_inv)
  show "hp_buffer (fst (feed (hp_step cap opt ps) r m)) = [] \<and> snd (feed (hp_step cap opt ps) r m) = [m]"
    if "hp_inv cap opt ps r" "hp_buffer r = []" "hp_frame opt ps m" for r m
  proof -
    have ne: "m \<noteq> []" using that by (auto simp: hp_frame_def hp_inv_def hp_valid_options_def)
    obtain bs b where m: "m = bs @ [b]" using ne by (metis rev_exhaust)
    obtain r1 ms1 where r1: "feed (hp_step cap opt ps) r bs = (r1, ms1)" by fastforce
    with hp_feed_prefix [OF that(3,1,2), of "length bs"] m
    have q: "ms1 = []" "hp_buffer r1 = bs" "hp_inv cap opt ps r1" by auto
    have h: "ho_header_size opt \<le> Suc (length (hp_buffer r1))" using that(3) m q(2) by (simp add: hp_frame_def)
    from hp_step_header [OF q(3) h, of b] that(3) m q r1 show ?thesis
      by (auto simp: hp_frame_def feed_append split: prod.splits)
  qed
qed

section \<open>Properties\<close>

text \<open>
  what the line reader hands over, for every input: the octets up to each delimiter give one
  line, its contents cut to the buffer as the overflow policy says and a trailing carriage return
  removed; what follows the last delimiter stays in the buffer.
\<close>

theorem line_reader_lines:
  assumes "lr_buffer r = []" "\<forall>s \<in> set segs. lo_delimiter opt \<notin> set s" "lo_delimiter opt \<notin> set rest"
  shows "snd (feed (lr_step cap opt) r (octets (concat (map (\<lambda>s. s @ [lo_delimiter opt]) segs) @ rest))) =
           map (\<lambda>s. strip_line opt (line_content cap opt s)) segs \<and>
         lr_buffer (fst (feed (lr_step cap opt) r
           (octets (concat (map (\<lambda>s. s @ [lo_delimiter opt]) segs) @ rest)))) = line_content cap opt rest"
  using assms by (intro lr_feed_lines) auto

theorem line_reader_lines_witness:
  "snd (feed (lr_step 4 line_options_default) lr_init
     (octets (concat (map (\<lambda>s. s @ [LF]) [''abcdefg'', ''x'' @ [CR]]) @ ''yz''))) = [''fg'', ''x'']"
  using line_reader_lines [of lr_init "[''abcdefg'', ''x'' @ [CR]]" line_options_default "''yz''" 4]
  by (auto simp: line_options_default_def line_content_def strip_line_def lr_init_def)

text \<open>
  a stream of lines ended by CR LF, cut into reads in any way, comes out as those lines, when
  each of them is shorter than the buffer.
\<close>

theorem line_reader_round_trip:
  assumes "lr_buffer r = []" "lr_inv cap r" "\<forall>s \<in> set ls. length s < cap \<and> LF \<notin> set s"
    and "concat chunks = concat (map (\<lambda>s. octets (s @ [CR, LF])) ls)"
  shows "snd (foldl (\<lambda>(r, ms) chunk. let (r', ms') = feed (lr_step cap line_options_default) r chunk
               in (r', ms @ ms')) (r, []) chunks) = ls"
  using crlf_framer.stream_chunked [of cap r ls chunks True] assms
  by (simp add: line_options_default_def)

theorem line_reader_round_trip_witness:
  "snd (foldl (\<lambda>(r, ms) chunk. let (r', ms') = feed (lr_step 8 line_options_default) r chunk in (r', ms @ ms'))
     (lr_init, []) [octets ''$A'', octets (''B'' @ [CR]), octets (LF # ''C'' @ [CR, LF])]) = [''$AB'', ''C'']"
  using line_reader_round_trip [of lr_init 8 "[''$AB'', ''C'']"
      "[octets ''$A'', octets (''B'' @ [CR]), octets (LF # ''C'' @ [CR, LF])]"]
  by (auto simp: lr_init_def lr_inv_def)




text \<open>
  C38: on any input whatever, the JSON reader stays within its two fixed buffers.
\<close>

theorem json_reader_bounds:
  assumes "jr_inv cap r"
  shows "length (jr_buffer (fst (feed (jr_step cap True) r bs))) \<le> cap \<and>
         length (jr_stack (fst (feed (jr_step cap True) r bs))) \<le> cap"
  using json_framer.inv_feed [OF assms, of bs] by (simp add: jr_inv_def)

theorem json_reader_bounds_witness:
  "length (jr_buffer (fst (feed (jr_step 2 True) jr_init (octets ''[[[[['')))) \<le> 2"
  using json_reader_bounds [of 2 jr_init "octets ''[[[[[''"] by (simp add: jr_inv_def jr_init_def)

text \<open>
  with valid options the header/payload reader hands over exactly the frames of a stream of
  frames, and it never holds a whole frame back.
\<close>

theorem header_payload_round_trip:
  assumes "hp_inv cap opt ps r" "hp_buffer r = []" "\<forall>m \<in> set ms. hp_frame opt ps m"
  shows "snd (feed (hp_step cap opt ps) r (concat ms)) = ms \<and>
         hp_buffer (fst (feed (hp_step cap opt ps) r (concat ms))) = []"
  using hp_framer.stream [of cap opt ps r ms] assms by simp

theorem header_payload_round_trip_witness:
  "snd (feed (hp_step 8 \<lparr>ho_header_size = 1, ho_max_payload_size = 4, ho_payload_size_from_header = None\<rparr>
      (\<lambda>h. unat (hd h))) hp_init [2, 7, 7, 0, 1, 9]) = [[2, 7, 7], [0], [1, 9]]"
  using header_payload_round_trip [of 8 "\<lparr>ho_header_size = 1, ho_max_payload_size = 4,
      ho_payload_size_from_header = None\<rparr>" "\<lambda>h. unat (hd h)" hp_init "[[2, 7, 7], [0], [1, 9]]"]
  by (auto simp: hp_inv_def hp_valid_options_def hp_init_def hp_frame_def)

text \<open>
  polling a fixed-frame reader on an in-memory stream ends; with a frame size that is zero or
  larger than the buffer it reads nothing and counts one error, and otherwise it hands over every
  complete frame that is queued.
\<close>

theorem fixed_reader_poll:
  assumes "ms_inv scap s" "ms_elems scap s = concat fs" "\<forall>f \<in> set fs. length f = n" "fr_buffer r = []"
  shows "\<exists>s' r'. fr_poll cap n ms_readable (ms_read scap True) s r =
     Some (s', r', if n = 0 \<or> cap < n then [] else fs) \<and>
     (n = 0 \<or> cap < n \<longrightarrow> s' = s \<and> rs_protocol_errors (fr_stats r') = rs_protocol_errors (fr_stats r) + 1)"
proof (cases "n = 0 \<or> cap < n")
  case True
  then show ?thesis by (auto simp: fr_poll_def note_error_def)
next
  case False
  then have i: "fr_inv n r" using assms(4) by (simp add: fr_inv_def)
  obtain s' where "poll_loop ms_readable (ms_read scap True) (fr_step n) s r =
      Some (s', feed (fr_step n) r (concat fs))"
    using mem_src.poll_loop_drains [OF assms(1), of "fr_step n" r] assms(2) by auto
  moreover have "snd (feed (fr_step n) r (concat fs)) = fs"
    using fixed_framer.stream [OF i assms(4), of fs] assms(3) by simp
  ultimately show ?thesis using False
    by (intro exI [of _ s'] exI [of _ "fst (feed (fr_step n) r (concat fs))"])
       (auto simp: fr_poll_def prod_eq_iff)
qed

theorem fixed_reader_poll_witness:
  "\<exists>s' r'. fr_poll 8 2 ms_readable (ms_read 4 True) (snd (ms_write 4 (Some [1, 2, 3, 4]) (ms_init 4))) fr_init =
     Some (s', r', [[1, 2], [3, 4]])"
proof -
  let ?s = "snd (ms_write 4 (Some [1, 2, 3, 4]) (ms_init 4))"
  have i: "ms_inv 4 ?s" using mem_snk.write_inv [OF ms_init_inv, of 4 "[1, 2, 3, 4]"] by simp
  have "ms_elems 4 ?s = concat [[1, 2], [3, 4]]"
    by (simp add: ms_write_def ms_init_def ms_elems_def window_def)
  from fixed_reader_poll [OF i this, of 2 fr_init 8] show ?thesis by (auto simp: fr_init_def)
qed

end
