(* ===== verification/Sha1_Standard.thy ===== *)
theory Sha1_Standard
  imports Prelude
begin

text \<open>
  The secure hash standard, FIPS 180-4, for SHA-1: the reference for the digest that \<open>Websocket\<close> computes. Nothing
  here is translated from the program. The functions, the constants and the message schedule are those of
  sections 4 to 6 of the standard; octets and words are related by arithmetic, a rotation is the rotation of the word
  library, and the origin of the constants is stated beside them.
\<close>

unbundle bit_operations_syntax

type_synonym hash_value = "u32 \<times> u32 \<times> u32 \<times> u32 \<times> u32"

section \<open>Functions and constants\<close>

definition fips_f :: "nat \<Rightarrow> u32 \<Rightarrow> u32 \<Rightarrow> u32 \<Rightarrow> u32" where
  "fips_f t x y z =
     (if t \<le> 19 then (x AND y) XOR (NOT x AND z)
      else if 40 \<le> t \<and> t \<le> 59 then (x AND y) XOR (x AND z) XOR (y AND z)
      else x XOR y XOR z)"

definition fips_K :: "nat \<Rightarrow> u32" where
  "fips_K t = [0x5a827999, 0x6ed9eba1, 0x8f1bbcdc, 0xca62c1d6] ! (t div 20)"

definition fips_H0 :: hash_value where
  "fips_H0 = (0x67452301, 0xefcdab89, 0x98badcfe, 0x10325476, 0xc3d2e1f0)"

text \<open>The constants are the first thirty-two bits of the square roots of 2, 3, 5 and 10.\<close>

lemma fips_K_roots:
  assumes "t < 80"
  defines "q \<equiv> [2, 3, 5, 10] ! (t div 20)"
  shows "unat (fips_K t) ^ 2 \<le> q * 2 ^ 60 \<and> q * 2 ^ 60 < (unat (fips_K t) + 1) ^ 2"
proof -
  have "t div 20 \<in> {0, 1, 2, 3}" using assms(1) by auto
  then show ?thesis by (auto simp: fips_K_def q_def)
qed

section \<open>Padding and parsing\<close>

text \<open>One bit, then zeros until 8 octets are missing in the last block, then the length in bits, the most significant octet first.\<close>

definition fips_pad :: "u8 list \<Rightarrow> u8 list" where
  "fips_pad m =
     m @ [2 ^ 7] @ replicate (nat ((55 - int (length m)) mod 64)) 0 @ map (\<lambda>i. of_nat (8 * length m div 256 ^ (7 - i))) [0..<8]"

text \<open>Word \<open>j\<close> of block \<open>i\<close> of a padded message.\<close>

definition fips_M :: "u8 list \<Rightarrow> nat \<Rightarrow> nat \<Rightarrow> u32" where
  "fips_M p i j = of_nat (\<Sum>k<4. unat (p ! (64 * i + 4 * j + k)) * 256 ^ (3 - k))"

section \<open>The computation\<close>

fun fips_W :: "(nat \<Rightarrow> u32) \<Rightarrow> nat \<Rightarrow> u32" where
  "fips_W M t =
     (if t < 16 then M t
      else word_rotl 1 (fips_W M (t - 3) XOR fips_W M (t - 8) XOR fips_W M (t - 14) XOR fips_W M (t - 16)))"

declare fips_W.simps [simp del]

definition fips_step :: "(nat \<Rightarrow> u32) \<Rightarrow> nat \<Rightarrow> hash_value \<Rightarrow> hash_value" where
  "fips_step M t = (\<lambda>(a, b, c, d, e). (word_rotl 5 a + fips_f t b c d + e + fips_K t + fips_W M t, a, word_rotl 30 b, c, d))"

definition fips_block :: "(nat \<Rightarrow> u32) \<Rightarrow> hash_value \<Rightarrow> hash_value" where
  "fips_block M = (\<lambda>(h0, h1, h2, h3, h4).
     case fold (fips_step M) [0..<80] (h0, h1, h2, h3, h4) of (a, b, c, d, e) \<Rightarrow> (a + h0, b + h1, c + h2, d + h3, e + h4))"

definition fips_octets :: "u32 \<Rightarrow> u8 list" where
  "fips_octets v = map (\<lambda>k. of_nat (unat v div 256 ^ (3 - k))) [0..<4]"

definition fips_sha1 :: "u8 list \<Rightarrow> u8 list" where
  "fips_sha1 m =
     (case fold (\<lambda>i. fips_block (fips_M (fips_pad m) i)) [0..<length (fips_pad m) div 64] fips_H0 of
        (h0, h1, h2, h3, h4) \<Rightarrow> fips_octets h0 @ fips_octets h1 @ fips_octets h2 @ fips_octets h3 @ fips_octets h4)"

text \<open>The first four initial values are the hexadecimal digits upwards and downwards, each word with its least significant octet first.\<close>

lemma fips_H0_digits:
  "case fips_H0 of (h0, h1, h2, h3, h4) \<Rightarrow>
     rev (fips_octets h0) @ rev (fips_octets h1) = [0x01, 0x23, 0x45, 0x67, 0x89, 0xab, 0xcd, 0xef] \<and>
     rev (fips_octets h2) @ rev (fips_octets h3) = [0xfe, 0xdc, 0xba, 0x98, 0x76, 0x54, 0x32, 0x10] \<and>
     rev (fips_octets h4) = [0xf0, 0xe1, 0xd2, 0xc3]"
  by (simp add: fips_H0_def fips_octets_def upt_rec)

lemma length_fips_sha1: "length (fips_sha1 m) = 20"
  by (simp add: fips_sha1_def fips_octets_def split: prod.splits)

end
