(* ===== verification/Websocket.thy ===== *)
theory Websocket
  imports Sha1_Standard
begin

unbundle bit_operations_syntax

text \<open>
  The WebSocket codec (\<^verbatim>\<open>websocket.hpp\<close>): the parser of the client's HTTP upgrade request, SHA-1,
  base64, the accept key and response, and the encoder and decoder of frames. A span (pointer and
  length) is a list; a C string is read up to its first NUL (\<open>c_str\<close>). A fixed output buffer is its
  capacity and the octets written to it.
\<close>

section \<open>Character helpers\<close>

definition c_str :: "string \<Rightarrow> string" where
  "c_str s = takeWhile (\<lambda>c. c \<noteq> NUL) s"

definition ws_is_space :: "char \<Rightarrow> bool" where
  "ws_is_space c \<longleftrightarrow> c = CHR '' '' \<or> c = TAB \<or> c = CR \<or> c = LF"

definition lower_ascii :: "char \<Rightarrow> char" where
  "lower_ascii c = (if 65 \<le> (of_char c :: nat) \<and> (of_char c :: nat) \<le> 90 then char_of (of_char c + 32 :: nat) else c)"

definition ascii_iequals :: "string \<Rightarrow> string \<Rightarrow> bool" where
  "ascii_iequals a b \<longleftrightarrow> length a = length b \<and> list_all2 (\<lambda>x y. lower_ascii x = lower_ascii y) a b"

definition rtrim :: "string \<Rightarrow> string" where
  "rtrim s = rev (dropWhile ws_is_space (rev s))"

definition ltrim :: "string \<Rightarrow> string" where
  "ltrim s = dropWhile ws_is_space s"

text \<open>The loop of \<open>ascii_icontains_token\<close> on the text from index \<open>i\<close> on.\<close>

definition icontains_item :: "string \<Rightarrow> string" where
  "icontains_item v =
     takeWhile (\<lambda>c. c \<noteq> CHR '','') (dropWhile (\<lambda>c. c = CHR '','' \<or> ws_is_space c) v)"

definition icontains_next :: "string \<Rightarrow> string" where
  "icontains_next v =
     (let rest = dropWhile (\<lambda>c. c \<noteq> CHR '','') (dropWhile (\<lambda>c. c = CHR '','' \<or> ws_is_space c) v)
      in if rest \<noteq> [] \<and> hd rest = CHR '','' then tl rest else rest)"

lemma drop_head_shorter:
  "length rest \<le> length v \<Longrightarrow> v \<noteq> [] \<Longrightarrow> (rest \<noteq> [] \<Longrightarrow> hd rest = c) \<Longrightarrow>
   length (if rest \<noteq> [] \<and> hd rest = c then tl rest else rest) < length v"
  by (cases rest; cases v) auto

lemma hd_dropWhile_not: "dropWhile p xs \<noteq> [] \<Longrightarrow> \<not> p (hd (dropWhile p xs))"
  by (rule hd_dropWhile)

lemma icontains_next_shorter: "v \<noteq> [] \<Longrightarrow> length (icontains_next v) < length v"
  unfolding icontains_next_def Let_def
  by (intro drop_head_shorter le_trans [OF length_dropWhile_le length_dropWhile_le])
    (use hd_dropWhile_not in \<open>blast+\<close>)

function icontains_loop :: "string \<Rightarrow> string \<Rightarrow> bool" where
  "icontains_loop v token =
     (if v = [] then False
      else if length (ltrim (rtrim (icontains_item v))) = length token \<and>
              ascii_iequals (ltrim (rtrim (icontains_item v))) token then True
      else icontains_loop (icontains_next v) token)"
  by pat_completeness auto
termination
  by (relation "measure (\<lambda>(v, t). length v)") (simp_all add: icontains_next_shorter)

declare icontains_loop.simps [simp del]

definition ascii_icontains_token :: "string \<Rightarrow> string \<Rightarrow> bool" where
  "ascii_icontains_token val token = (if token = [] then False else icontains_loop val token)"

definition copy_trimmed :: "nat \<Rightarrow> string \<Rightarrow> string" where
  "copy_trimmed dst_size src =
     (let s = rtrim (ltrim src) in take (if length s < dst_size then length s else dst_size - 1) s)"

section \<open>The upgrade request\<close>

datatype handshake_result = HsOk | HsBadRequest | HsMissingKey | HsUnsupportedVersion | HsOutputTooSmall

record handshake_request =
  hr_resource :: string
  hr_key :: string
  hr_upgrade_websocket :: bool
  hr_connection_upgrade :: bool
  hr_version_13 :: bool

definition handshake_request_init :: handshake_request where
  "handshake_request_init = \<lparr>hr_resource = [], hr_key = [], hr_upgrade_websocket = False,
     hr_connection_upgrade = False, hr_version_13 = False\<rparr>"

definition parse_request_line :: "string \<Rightarrow> handshake_request \<Rightarrow> bool \<times> handshake_request" where
  "parse_request_line line out =
     (let method = takeWhile (\<lambda>c. c \<noteq> CHR '' '') line;
          p1 = dropWhile (\<lambda>c. c = CHR '' '') (dropWhile (\<lambda>c. c \<noteq> CHR '' '') line);
          resource = takeWhile (\<lambda>c. c \<noteq> CHR '' '') p1;
          p2 = dropWhile (\<lambda>c. c = CHR '' '') (dropWhile (\<lambda>c. c \<noteq> CHR '' '') p1)
      in if \<not> ascii_iequals method ''GET'' then (False, out)
         else if resource = [] then (False, out)
         else (8 \<le> length p2 \<and> take 7 p2 = ''HTTP/1.'', out\<lparr>hr_resource := copy_trimmed 96 resource\<rparr>))"

definition strip_cr :: "string \<Rightarrow> string" where
  "strip_cr line = (if line \<noteq> [] \<and> last line = CR then butlast line else line)"

definition parse_header_line :: "string \<Rightarrow> handshake_request \<Rightarrow> handshake_request" where
  "parse_header_line line out =
     (if CHR '':'' \<in> set line
      then (let name = rtrim (takeWhile (\<lambda>c. c \<noteq> CHR '':'') line);
                val = rtrim (ltrim (tl (dropWhile (\<lambda>c. c \<noteq> CHR '':'') line)))
            in if ascii_iequals name ''Upgrade'' then out\<lparr>hr_upgrade_websocket := ascii_iequals val ''websocket''\<rparr>
               else if ascii_iequals name ''Connection''
               then out\<lparr>hr_connection_upgrade := ascii_icontains_token val ''Upgrade''\<rparr>
               else if ascii_iequals name ''Sec-WebSocket-Key'' then out\<lparr>hr_key := copy_trimmed 64 val\<rparr>
               else if ascii_iequals name ''Sec-WebSocket-Version''
               then out\<lparr>hr_version_13 := ascii_iequals val ''13''\<rparr>
               else out)
      else out)"

definition after_line :: "string \<Rightarrow> string" where
  "after_line req = (let rest = dropWhile (\<lambda>c. c \<noteq> LF) req in if rest \<noteq> [] then tl rest else [])"

lemma after_line_shorter: "req \<noteq> [] \<Longrightarrow> length (after_line req) < length req"
  using length_dropWhile_le [of "\<lambda>c. c \<noteq> LF" req]
  by (cases "dropWhile (\<lambda>c. c \<noteq> LF) req") (auto simp: after_line_def Let_def)

function parse_headers :: "string \<Rightarrow> handshake_request \<Rightarrow> handshake_request" where
  "parse_headers req out =
     (if req = [] then out
      else (let line = strip_cr (takeWhile (\<lambda>c. c \<noteq> LF) req) in
            if line = [] then out else parse_headers (after_line req) (parse_header_line line out)))"
  by pat_completeness auto
termination
  by (relation "measure (\<lambda>(t, r). length t)") (simp_all add: after_line_shorter)

declare parse_headers.simps [simp del]

definition parse_client_handshake :: "string \<Rightarrow> handshake_result \<times> handshake_request" where
  "parse_client_handshake request =
     (let out = handshake_request_init in
      if request = [] \<or> LF \<notin> set request then (HsBadRequest, out)
      else (let first = strip_cr (takeWhile (\<lambda>c. c \<noteq> LF) request);
                (ok, out1) = parse_request_line first out
            in if \<not> ok then (HsBadRequest, out1)
               else (let out2 = parse_headers (after_line request) out1 in
                     if \<not> hr_upgrade_websocket out2 \<or> \<not> hr_connection_upgrade out2 then (HsBadRequest, out2)
                     else if c_str (hr_key out2) = [] then (HsMissingKey, out2)
                     else if \<not> hr_version_13 out2 then (HsUnsupportedVersion, out2)
                     else (HsOk, out2))))"

section \<open>SHA-1\<close>

definition sha1_rotl :: "u32 \<Rightarrow> nat \<Rightarrow> u32" where
  "sha1_rotl v bits = push_bit bits v OR drop_bit (32 - bits) v"

type_synonym sha1_state = "u32 \<times> u32 \<times> u32 \<times> u32 \<times> u32"

definition sha1_word :: "u8 list \<Rightarrow> nat \<Rightarrow> u32" where
  "sha1_word block i =
     push_bit 24 (ucast (block ! (i * 4))) OR push_bit 16 (ucast (block ! (i * 4 + 1))) OR
     push_bit 8 (ucast (block ! (i * 4 + 2))) OR ucast (block ! (i * 4 + 3))"

definition sha1_schedule :: "u8 list \<Rightarrow> u32 list" where
  "sha1_schedule block =
     foldl (\<lambda>w i. w @ [sha1_rotl (w ! (i - 3) XOR w ! (i - 8) XOR w ! (i - 14) XOR w ! (i - 16)) 1])
       (map (sha1_word block) [0..<16]) [16..<80]"

definition sha1_round :: "u32 list \<Rightarrow> sha1_state \<Rightarrow> nat \<Rightarrow> sha1_state" where
  "sha1_round w s i =
     (case s of (a, b, c, d, e) \<Rightarrow>
        let (f, k) = (if i < 20 then ((b AND c) OR (NOT b AND d), 0x5A827999)
                      else if i < 40 then (b XOR c XOR d, 0x6ED9EBA1)
                      else if i < 60 then ((b AND c) OR (b AND d) OR (c AND d), 0x8F1BBCDC)
                      else (b XOR c XOR d, 0xCA62C1D6));
            temp = sha1_rotl a 5 + f + e + k + w ! i
        in (temp, a, sha1_rotl b 30, c, d))"

definition sha1_block :: "u8 list \<Rightarrow> sha1_state \<Rightarrow> sha1_state" where
  "sha1_block block h =
     (let (a, b, c, d, e) = foldl (sha1_round (sha1_schedule block)) h [0..<80];
          (h0, h1, h2, h3, h4) = h
      in (h0 + a, h1 + b, h2 + c, h3 + d, h4 + e))"

definition sha1_init :: sha1_state where
  "sha1_init = (0x67452301, 0xEFCDAB89, 0x98BADCFE, 0x10325476, 0xC3D2E1F0)"

text \<open>The loop over whole blocks: the state after it, and the rest of the data.\<close>

function sha1_blocks :: "u8 list \<Rightarrow> sha1_state \<Rightarrow> sha1_state \<times> u8 list" where
  "sha1_blocks data h =
     (if 64 \<le> length data then sha1_blocks (drop 64 data) (sha1_block (take 64 data) h) else (h, data))"
  by pat_completeness auto
termination by (relation "measure (\<lambda>(d, h). length d)") auto

declare sha1_blocks.simps [simp del]

definition sha1_length_octets :: "nat \<Rightarrow> u8 list" where
  "sha1_length_octets len = map (\<lambda>i. ucast (drop_bit (56 - 8 * i) ((of_nat len :: u64) * 8))) [0..<8]"

definition sha1_digest :: "sha1_state \<Rightarrow> u8 list" where
  "sha1_digest h =
     (case h of (h0, h1, h2, h3, h4) \<Rightarrow>
        concat (map (\<lambda>v. [ucast (drop_bit 24 v), ucast (drop_bit 16 v), ucast (drop_bit 8 v), ucast v])
          [h0, h1, h2, h3, h4]))"

definition sha1 :: "u8 list \<Rightarrow> u8 list" where
  "sha1 data =
     (let (h, rest) = sha1_blocks data sha1_init;
          len = length rest;
          block = rest @ [0x80] @ replicate (63 - len) 0;
          (h1, block1) = (if 56 \<le> len then (sha1_block block h, replicate 64 0) else (h, block));
          block2 = take 56 block1 @ sha1_length_octets (length data)
      in sha1_digest (sha1_block block2 h1))"

section \<open>Base64 and the accept key\<close>

definition base64_table :: string where
  "base64_table = ''ABCDEFGHIJKLMNOPQRSTUVWXYZabcdefghijklmnopqrstuvwxyz0123456789+/''"

definition base64_encoded_size :: "nat \<Rightarrow> nat" where
  "base64_encoded_size len = ((len + 2) div 3) * 4"

definition base64_triple :: "u8 \<Rightarrow> u8 \<Rightarrow> u8 \<Rightarrow> u32" where
  "base64_triple b0 b1 b2 = push_bit 16 (ucast b0) OR push_bit 8 (ucast b1) OR ucast b2"

definition base64_digit :: "nat \<Rightarrow> u32 \<Rightarrow> char" where
  "base64_digit sh triple = base64_table ! unat (drop_bit sh triple AND 0x3F)"

fun base64_loop :: "u8 list \<Rightarrow> string" where
  "base64_loop [] = []"
| "base64_loop [b0] =
     (let t = base64_triple b0 0 0 in [base64_digit 18 t, base64_digit 12 t, CHR ''='', CHR ''=''])"
| "base64_loop [b0, b1] =
     (let t = base64_triple b0 b1 0 in [base64_digit 18 t, base64_digit 12 t, base64_digit 6 t, CHR ''=''])"
| "base64_loop (b0 # b1 # b2 # bs) =
     (let t = base64_triple b0 b1 b2 in
      [base64_digit 18 t, base64_digit 12 t, base64_digit 6 t, base64_digit 0 t] @ base64_loop bs)"

definition base64_encode :: "u8 list \<Rightarrow> nat \<Rightarrow> string option" where
  "base64_encode data out_size =
     (if out_size = 0 \<or> out_size < base64_encoded_size (length data) + 1 then None
      else Some (base64_loop data))"

definition websocket_guid :: string where
  "websocket_guid = ''258EAFA5-E914-47DA-95CA-C5AB0DC85B11''"

text \<open>The client key is a C string: its octets up to the terminator.\<close>

definition make_accept_key :: "string \<Rightarrow> nat \<Rightarrow> handshake_result \<times> string" where
  "make_accept_key client_key out_size =
     (let key = c_str client_key in
      if key = [] then (HsMissingKey, [])
      else if 128 \<le> length key + length websocket_guid then (HsBadRequest, [])
      else (case base64_encode (sha1 (octets (key @ websocket_guid))) out_size of
              Some s \<Rightarrow> (HsOk, s)
            | None \<Rightarrow> (HsOutputTooSmall, [])))"

definition handshake_prefix :: string where
  "handshake_prefix = ''HTTP/1.1 101 Switching Protocols'' @ [CR, LF] @ ''Upgrade: websocket'' @ [CR, LF] @
     ''Connection: Upgrade'' @ [CR, LF] @ ''Sec-WebSocket-Accept: ''"

definition write_server_handshake_response :: "string \<Rightarrow> nat \<Rightarrow> handshake_result \<times> string" where
  "write_server_handshake_response client_key out_size =
     (if out_size = 0 then (HsOutputTooSmall, [])
      else (case make_accept_key client_key 32 of
              (HsOk, accept) \<Rightarrow>
                if out_size < length handshake_prefix + length accept + 4 + 1 then (HsOutputTooSmall, [])
                else (HsOk, handshake_prefix @ accept @ [CR, LF, CR, LF])
            | (r, _) \<Rightarrow> (r, [])))"

section \<open>Frames\<close>

type_synonym opcode = u8

abbreviation Op_Continuation :: opcode where "Op_Continuation \<equiv> 0x0"
abbreviation Op_Text :: opcode where "Op_Text \<equiv> 0x1"
abbreviation Op_Binary :: opcode where "Op_Binary \<equiv> 0x2"
abbreviation Op_Close :: opcode where "Op_Close \<equiv> 0x8"
abbreviation Op_Ping :: opcode where "Op_Ping \<equiv> 0x9"
abbreviation Op_Pong :: opcode where "Op_Pong \<equiv> 0xA"

datatype frame_decode_result = FdOk | FdNeedMore | FdProtocolError | FdPayloadTooLarge

record frame_view =
  wf_fin :: bool
  wf_opcode :: opcode
  wf_payload :: "u8 list"

definition frame_view_init :: frame_view where
  "frame_view_init = \<lparr>wf_fin = False, wf_opcode = Op_Continuation, wf_payload = []\<rparr>"

definition valid_control_payload :: "opcode \<Rightarrow> nat \<Rightarrow> bool" where
  "valid_control_payload opcode payload_len \<longleftrightarrow>
     (opcode = Op_Close \<or> opcode = Op_Ping \<or> opcode = Op_Pong) \<and> payload_len \<le> 125"

text \<open>\<open>data[i & 3]\<close> of the mask applied to the payload; \<open>dst\<close> says whether the destination is given.\<close>

definition unmask :: "bool \<Rightarrow> u8 list \<Rightarrow> u8 list \<Rightarrow> u8 list" where
  "unmask masked key bs =
     map (\<lambda>i. if masked then bs ! i XOR key ! (i AND 3) else bs ! i) [0..<length bs]"

definition decode_body ::
  "u8 list \<Rightarrow> bool \<Rightarrow> nat \<Rightarrow> bool \<Rightarrow> opcode \<Rightarrow> bool \<Rightarrow> nat \<Rightarrow> nat \<Rightarrow> frame_decode_result \<times> frame_view \<times> nat" where
  "decode_body data dst payload_capacity fin opcode masked payload_len offset0 =
     (let bad = (\<lambda>r. (r, frame_view_init, 0)) in
      if 8 \<le> opcode \<and> (\<not> fin \<or> \<not> valid_control_payload opcode payload_len) then bad FdProtocolError
      else if opcode < 8 \<and> opcode \<noteq> Op_Text \<and> opcode \<noteq> Op_Binary \<and> opcode \<noteq> Op_Continuation
      then bad FdProtocolError
      else if masked \<and> length data < offset0 + 4 then bad FdNeedMore
      else (let key = (if masked then take 4 (drop offset0 data) else [0, 0, 0, 0]);
                offset = (if masked then offset0 + 4 else offset0)
            in if payload_capacity < payload_len then bad FdPayloadTooLarge
               else if length data < offset + payload_len then bad FdNeedMore
               else if 0 < payload_len \<and> \<not> dst then bad FdProtocolError
               else (FdOk, \<lparr>wf_fin = fin, wf_opcode = opcode,
                           wf_payload = unmask masked key (take payload_len (drop offset data))\<rparr>,
                     offset + payload_len)))"

definition decode_frame ::
  "u8 list \<Rightarrow> bool \<Rightarrow> nat \<Rightarrow> bool \<Rightarrow> frame_decode_result \<times> frame_view \<times> nat" where
  "decode_frame data dst payload_capacity require_mask =
     (let bad = (\<lambda>r. (r, frame_view_init, 0)) in
      if length data < 2 then bad FdNeedMore
      else (let b0 = data ! 0; b1 = data ! 1;
                fin = (b0 AND 0x80 \<noteq> 0); rsv = (b0 AND 0x70 \<noteq> 0); opcode = b0 AND 0x0F;
                masked = (b1 AND 0x80 \<noteq> 0); payload_len = unat (b1 AND 0x7F)
            in if rsv then bad FdProtocolError
               else if require_mask \<and> \<not> masked then bad FdProtocolError
               else if \<not> require_mask \<and> masked then bad FdProtocolError
               else if payload_len = 126
               then (if length data < 4 then bad FdNeedMore
                     else decode_body data dst payload_capacity fin opcode masked
                            (unat ((push_bit 8 (ucast (data ! 2)) :: u32) OR ucast (data ! 3))) 4)
               else if payload_len = 127 then bad FdPayloadTooLarge
               else decode_body data dst payload_capacity fin opcode masked payload_len 2))"

text \<open>The octets written to the destination, \<open>None\<close> where the encoder returns false.\<close>

definition encode_text_frame :: "string \<Rightarrow> nat \<Rightarrow> u8 list option" where
  "encode_text_frame text dst_capacity =
     (let n = length text;
          header = (if n < 126 then Some [0x80 OR Op_Text, of_nat n]
                    else if n \<le> 65535 then Some [0x80 OR Op_Text, 126, of_nat (drop_bit 8 n), of_nat n]
                    else None)
      in (case header of None \<Rightarrow> None
          | Some h \<Rightarrow> if dst_capacity < length h + n then None else Some (h @ octets text)))"

definition encode_control_frame :: "opcode \<Rightarrow> u8 list \<Rightarrow> nat \<Rightarrow> u8 list option" where
  "encode_control_frame opcode payload dst_capacity =
     (if \<not> valid_control_payload opcode (length payload) \<or> dst_capacity < 2 + length payload then None
      else Some ([0x80 OR opcode, of_nat (length payload)] @ payload))"


section \<open>Base64 as an encoding\<close>

text \<open>The decoder that undoes the encoder.\<close>

definition base64_value :: "char \<Rightarrow> u32" where
  "base64_value c = (case index_where (\<lambda>d. d = c) base64_table of Some i \<Rightarrow> of_nat i | None \<Rightarrow> 0)"

definition base64_join :: "u32 \<Rightarrow> u32 \<Rightarrow> u32 \<Rightarrow> u32 \<Rightarrow> u32" where
  "base64_join a b c d = push_bit 18 a OR push_bit 12 b OR push_bit 6 c OR d"

fun base64_decode :: "string \<Rightarrow> u8 list" where
  "base64_decode (a # b # c # d # s) =
     (if d = CHR ''='' \<and> c = CHR ''=''
      then [ucast (drop_bit 16 (base64_join (base64_value a) (base64_value b) 0 0))]
      else if d = CHR ''=''
      then (let t = base64_join (base64_value a) (base64_value b) (base64_value c) 0
            in [ucast (drop_bit 16 t), ucast (drop_bit 8 t)])
      else (let t = base64_join (base64_value a) (base64_value b) (base64_value c) (base64_value d)
            in [ucast (drop_bit 16 t), ucast (drop_bit 8 t), ucast t] @ base64_decode s))"
| "base64_decode _ = []"

lemma base64_table_values:
  "list_all (\<lambda>i. base64_table ! i \<noteq> CHR ''='' \<and> index_where (\<lambda>d. d = base64_table ! i) base64_table = Some i)
     [0..<64]"
  by code_simp

lemma base64_digit_index: "unat (drop_bit sh (t :: u32) AND 0x3F) < 64"
proof -
  have "drop_bit sh t AND 0x3F = take_bit 6 (drop_bit sh t)" by (simp add: take_bit_eq_mask mask_eq_exp_minus_1)
  then show ?thesis
    using take_bit_nat_less_exp [of 6 "unat (drop_bit sh t)"] by (simp add: unsigned_take_bit_eq)
qed

lemma base64_digit_value: "base64_value (base64_digit sh t) = drop_bit sh t AND 0x3F"
  and base64_digit_not_pad: "base64_digit sh t \<noteq> CHR ''=''"
  using base64_table_values base64_digit_index [of sh t]
  by (auto simp: base64_value_def base64_digit_def list_all_iff split: option.splits)

lemma and_63: "(x :: u32) AND 0x3F = take_bit 6 x"
  by (simp add: take_bit_eq_mask mask_eq_exp_minus_1)

lemma base64_join_triple:
  "base64_join (drop_bit 18 t AND 0x3F) (drop_bit 12 t AND 0x3F) (drop_bit 6 t AND 0x3F) (drop_bit 0 t AND 0x3F) =
   take_bit 24 (t :: u32)"
  unfolding and_63 base64_join_def
  by (rule bit_eqI, rename_tac n, case_tac "n < 6"; case_tac "n < 12"; case_tac "n < 18")
     (auto simp: bit_simps)

lemma base64_join_triple2:
  "drop_bit 8 (base64_join (drop_bit 18 t AND 0x3F) (drop_bit 12 t AND 0x3F) (drop_bit 6 t AND 0x3F) 0) =
   drop_bit 8 (take_bit 24 (t :: u32))"
  unfolding and_63 base64_join_def
  by (rule bit_eqI, rename_tac n, case_tac "n < 4"; case_tac "n < 10") (auto simp: bit_simps)

lemma base64_join_triple1:
  "drop_bit 16 (base64_join (drop_bit 18 t AND 0x3F) (drop_bit 12 t AND 0x3F) 0 0) =
   drop_bit 16 (take_bit 24 (t :: u32))"
  unfolding and_63 base64_join_def
  by (rule bit_eqI) (auto simp: bit_simps)

lemma base64_triple_octets:
  "ucast (drop_bit 16 (take_bit 24 (base64_triple b0 b1 b2))) = b0"
  "ucast (drop_bit 8 (take_bit 24 (base64_triple b0 b1 b2))) = b1"
  "ucast (take_bit 24 (base64_triple b0 b1 b2)) = b2"
  by (rule bit_eqI, auto simp: base64_triple_def bit_simps dest: bit_imp_le_length)+


lemma base64_decode_encode: "base64_decode (base64_loop bs) = bs"
proof (induction bs rule: base64_loop.induct)
  case (2 b0)
  then show ?case
    using base64_join_triple1 [of "base64_triple b0 0 0"]
    by (simp add: Let_def base64_digit_value base64_triple_octets)
next
  case (3 b0 b1)
  let ?t = "base64_triple b0 b1 0"
  let ?j = "base64_join (drop_bit 18 ?t AND 0x3F) (drop_bit 12 ?t AND 0x3F) (drop_bit 6 ?t AND 0x3F) 0"
  have "drop_bit 16 ?j = drop_bit 8 (drop_bit 8 ?j)" by simp
  also have "\<dots> = drop_bit 16 (take_bit 24 ?t)" by (simp only: base64_join_triple2) simp
  finally show ?case
    using base64_join_triple2 [of ?t]
    by (simp add: Let_def base64_digit_value base64_digit_not_pad base64_triple_octets)
next
  case (4 b0 b1 b2 bs)
  then show ?case
    using base64_join_triple [of "base64_triple b0 b1 b2"]
    by (simp add: Let_def base64_digit_value base64_digit_not_pad base64_triple_octets)
qed simp

lemma length_base64_loop: "length (base64_loop bs) = base64_encoded_size (length bs)"
proof (induction bs rule: base64_loop.induct)
  case (4 b0 b1 b2 bs)
  have "(length bs + 5) div 3 = Suc ((length bs + 2) div 3)"
    using div_add_self2 [of 3 "length bs + 2"] by simp
  with 4 show ?case by (simp add: base64_encoded_size_def Let_def ac_simps)
qed (simp_all add: base64_encoded_size_def Let_def)

section \<open>SHA-1 against the standard\<close>

definition chunks64 :: "'a list \<Rightarrow> 'a list list" where
  "chunks64 xs = map (\<lambda>i. take 64 (drop (64 * i) xs)) [0..<length xs div 64]"

lemma chunks64_step: "64 \<le> length xs \<Longrightarrow> chunks64 xs = take 64 xs # chunks64 (drop 64 xs)"
proof -
  assume l: "64 \<le> length xs"
  then have n: "length xs div 64 = Suc ((length xs - 64) div 64)"
    using le_div_geq [of 64 "length xs"] by simp
  show ?thesis
    unfolding chunks64_def n
    by (simp add: upt_conv_Cons map_Suc_upt [symmetric] del: upt_Suc) (simp add: ac_simps)
qed

lemma chunks64_short: "length xs < 64 \<Longrightarrow> chunks64 xs = []"
  by (simp add: chunks64_def)

lemma chunks64_one: "length xs = 64 \<Longrightarrow> chunks64 xs = [xs]"
  using chunks64_step [of xs] chunks64_short [of "[]"] by simp

lemma chunks64_append: "length xs = 64 * k \<Longrightarrow> chunks64 (xs @ ys) = chunks64 xs @ chunks64 ys"
proof (induction k arbitrary: xs)
  case (Suc k)
  then show ?case
    using chunks64_step [of "xs @ ys"] chunks64_step [of xs] Suc.IH [of "drop 64 xs"] by simp
qed (simp add: chunks64_short)

lemma sha1_blocks_chunks:
  "sha1_blocks data h = (fold sha1_block (chunks64 data) h, drop (64 * (length data div 64)) data)"
proof (induction data h rule: sha1_blocks.induct)
  case (1 data h)
  show ?case
  proof (cases "64 \<le> length data")
    case True
    then have "length data div 64 = Suc ((length data - 64) div 64)"
      using le_div_geq [of 64 "length data"] by simp
    with True 1 show ?thesis
      by (subst sha1_blocks.simps) (simp add: chunks64_step ac_simps)
  next
    case False
    then show ?thesis by (subst sha1_blocks.simps) (simp add: chunks64_short)
  qed
qed

lemma length_sha1_length_octets [simp]: "length (sha1_length_octets n) = 8"
  by (simp add: sha1_length_octets_def)

lemma sha1_tail:
  fixes rest lens :: "u8 list"
  assumes "length rest < 64" "length lens = 8"
  defines "block \<equiv> rest @ [0x80] @ replicate (63 - length rest) 0"
  shows "fold sha1_block (chunks64 (rest @ [0x80] @ replicate ((119 - length rest) mod 64) 0 @ lens)) h =
    (if 56 \<le> length rest then sha1_block (replicate 56 0 @ lens) (sha1_block block h)
     else sha1_block (take 56 block @ lens) h)"
proof (cases "56 \<le> length rest")
  case True
  then have "(119 - length rest) mod 64 = (63 - length rest) + 56" using assms(1) by simp
  then have e: "rest @ [0x80] @ replicate ((119 - length rest) mod 64) 0 @ lens = block @ (replicate 56 0 @ lens)"
    by (simp only: replicate_add block_def append_assoc)
  have "length block = 64 * 1" using assms(1) by (simp add: block_def)
  moreover have "length (replicate 56 0 @ lens) = 64" using assms(2) by simp
  ultimately have "chunks64 (rest @ [0x80] @ replicate ((119 - length rest) mod 64) 0 @ lens) =
      [block, replicate 56 0 @ lens]"
    unfolding e using chunks64_append [of block 1 "replicate 56 0 @ lens"] chunks64_one [of block]
      chunks64_one [of "replicate 56 0 @ lens"] by simp
  then show ?thesis using True by simp
next
  case False
  then have z: "(119 - length rest) mod 64 = 55 - length rest"
    using mod_add_self2 [of "55 - length rest" 64] by simp
  have "take 56 block = rest @ [0x80] @ replicate (55 - length rest) 0"
    using False by (simp add: block_def take_Cons' min_def)
  then have "rest @ [0x80] @ replicate ((119 - length rest) mod 64) 0 @ lens = take 56 block @ lens" by (simp add: z)
  moreover have "length (take 56 block @ lens) = 64" using assms(1,2) by (simp add: block_def)
  ultimately have "chunks64 (rest @ [0x80] @ replicate ((119 - length rest) mod 64) 0 @ lens) = [take 56 block @ lens]"
    using chunks64_one by metis
  then show ?thesis using False by simp
qed

lemma sha1_unfold:
  assumes "sha1_blocks data sha1_init = (h, rest)"
  defines "block \<equiv> rest @ [0x80] @ replicate (63 - length rest) 0"
  shows "sha1 data = sha1_digest
      (if 56 \<le> length rest then sha1_block (replicate 56 0 @ sha1_length_octets (length data)) (sha1_block block h)
       else sha1_block (take 56 block @ sha1_length_octets (length data)) h)"
  unfolding sha1_def assms(1) Let_def prod.case block_def by (cases "56 \<le> length rest") simp_all

text \<open>The parts of the computation against those of the standard: rotations, words, the schedule, a step, a block, and the octets of the length and of the digest.\<close>

lemma sha1_rotl_eq: "0 < n \<Longrightarrow> n < 32 \<Longrightarrow> sha1_rotl v n = word_rotl n v"
proof (rule bit_word_eqI)
  fix i :: nat
  assume n: "0 < n" "n < 32" and "i < LENGTH(32)"
  then have i: "i < 32" by simp
  show "bit (sha1_rotl v n) i = bit (word_rotl n v) i"
  proof (cases "n \<le> i")
    case True
    then have "(i + (32 - n)) mod 32 = i - n" using mod_add_self2 [of "i - n" 32] n i by simp
    moreover have "\<not> bit v (32 - n + i)" using True n bit_imp_le_length [of v "32 - n + i"] by auto
    ultimately show ?thesis using True n i by (simp add: sha1_rotl_def bit_simps)
  next
    case False
    then have "(i + (32 - n)) mod 32 = 32 - n + i" using n i by simp
    then show ?thesis using False n i by (simp add: sha1_rotl_def bit_simps)
  qed
qed

lemma disjoint_octet:
  fixes b :: u8 and v :: u32
  shows "push_bit 8 v OR ucast b = v * 256 + of_nat (unat b)"
proof -
  have "push_bit 8 v AND ucast b = 0"
    by (rule bit_word_eqI) (auto simp: bit_simps dest: bit_imp_le_length)
  then have "push_bit 8 v + ucast b = push_bit 8 v OR ucast b" by (rule disjunctive_add_eq_or)
  then show ?thesis by (simp add: push_bit_eq_mult)
qed

lemma sha1_word_eq:
  "sha1_word block j = of_nat (\<Sum>k<4. unat (block ! (4 * j + k)) * 256 ^ (3 - k))"
proof -
  have four: "(\<Sum>k<4. f k) = f 0 + f 1 + f 2 + f 3" for f :: "nat \<Rightarrow> nat" by (simp add: eval_nat_numeral)
  have "sha1_word block j =
      push_bit 8 (push_bit 8 (push_bit 8 (ucast (block ! (4 * j))) OR ucast (block ! (4 * j + 1))) OR ucast (block ! (4 * j + 2))) OR ucast (block ! (4 * j + 3))"
    by (simp add: sha1_word_def push_bit_or mult.commute [of j] or.assoc)
  also have "\<dots> = of_nat (\<Sum>k<4. unat (block ! (4 * j + k)) * 256 ^ (3 - k))"
    unfolding disjoint_octet four by (simp add: distrib_right mult.assoc)
  finally show ?thesis .
qed

lemma sha1_schedule_nth:
  assumes "\<And>j. j < 16 \<Longrightarrow> sha1_word block j = M j" "t < 80"
  shows "sha1_schedule block ! t = fips_W M t"
proof -
  have "foldl (\<lambda>w i. w @ [sha1_rotl (w ! (i - 3) XOR w ! (i - 8) XOR w ! (i - 14) XOR w ! (i - 16)) 1])
      (map (sha1_word block) [0..<16]) [16..<16 + n] = map (fips_W M) [0..<16 + n]" for n
  proof (induction n)
    case 0
    then show ?case using assms(1) by (simp add: fips_W.simps)
  next
    case (Suc n)
    have "[k..<16 + Suc n] = [k..<16 + n] @ [16 + n]" if "k \<le> 16" for k
      using upt_Suc_append [of k "16 + n"] that by (simp only: add_Suc_right)
    then show ?case using Suc by (simp add: sha1_rotl_eq fips_W.simps [of M "16 + n"] del: upt_Suc add_Suc_right)
  qed
  from this [of "80 - 16"] have "sha1_schedule block = map (fips_W M) [0..<80]"
    by (simp add: sha1_schedule_def del: upt_rec_numeral)
  then show ?thesis using assms(2) by (simp add: nth_map_upt del: upt_rec_numeral)
qed

lemma fips_f_cases:
  "(x AND y) OR (NOT x AND z) = (x AND y) XOR (NOT x AND (z :: u32))"
  "(x AND y) OR (x AND z) OR (y AND z) = (x AND y) XOR (x AND z) XOR (y AND z)"
  by (rule bit_word_eqI; auto simp: bit_simps)+

lemma sha1_round_eq:
  assumes "t < 80" "w ! t = fips_W M t"
  shows "sha1_round w s t = fips_step M t s"
proof -
  obtain a b c d e where s: "s = (a, b, c, d, e)" by (cases s)
  consider "t div 20 = 0" "t < 20" | "t div 20 = 1" "20 \<le> t" "t < 40" | "t div 20 = 2" "40 \<le> t" "t < 60" | "t div 20 = 3" "60 \<le> t"
    using assms(1) by linarith
  then show ?thesis
    by cases (simp_all add: s sha1_round_def fips_step_def fips_f_def fips_K_def fips_f_cases sha1_rotl_eq assms(2) Let_def)
qed

lemma sha1_block_eq:
  assumes "\<And>j. j < 16 \<Longrightarrow> sha1_word block j = M j"
  shows "sha1_block block = fips_block M"
proof
  fix h :: sha1_state
  have "foldl (sha1_round (sha1_schedule block)) h ts = fold (fips_step M) ts h" if "set ts \<subseteq> {..<80}" for ts
    using that by (induction ts arbitrary: h) (simp_all add: sha1_round_eq [OF _ sha1_schedule_nth [OF assms]])
  then have "foldl (sha1_round (sha1_schedule block)) h [0..<80] = fold (fips_step M) [0..<80] h" by (auto simp: subset_eq)
  then show "sha1_block block h = fips_block M h"
    by (cases h) (simp add: sha1_block_def fips_block_def Let_def add.commute split: prod.splits)
qed

lemma sha1_chunks_eq:
  "fold sha1_block (chunks64 p) h = fold (\<lambda>i. fips_block (fips_M p i)) [0..<length p div 64] h"
proof -
  have "sha1_block (take 64 (drop (64 * i) p)) = fips_block (fips_M p i)" if "i < length p div 64" for i
  proof (rule sha1_block_eq)
    fix j :: nat
    assume j: "j < 16"
    have "64 * i + 64 \<le> length p" using that by linarith
    then have "take 64 (drop (64 * i) p) ! (4 * j + k) = p ! (64 * i + 4 * j + k)" if "k < 4" for k
      using that j by (simp add: add.assoc)
    then show "sha1_word (take 64 (drop (64 * i) p)) j = fips_M p i j" by (simp add: sha1_word_eq fips_M_def)
  qed
  then have "fold (sha1_block \<circ> (\<lambda>i. take 64 (drop (64 * i) p))) [0..<length p div 64] h = fold (\<lambda>i. fips_block (fips_M p i)) [0..<length p div 64] h"
    by (intro fold_cong) auto
  then show ?thesis by (simp add: chunks64_def fold_map)
qed

lemma octet_of_word: "ucast (drop_bit n (v :: 'a :: len word)) = (of_nat (unat v div 2 ^ n) :: u8)"
proof -
  have "ucast (drop_bit n v) = (of_nat (unat (drop_bit n v)) :: u8)" by simp
  then show ?thesis by (simp only: unat_drop_bit_eq drop_bit_eq_div [of n "unat v"])
qed

lemma of_nat_256: "(of_nat (x mod (256 * y)) :: u8) = of_nat x"
proof -
  have z: "(of_nat 256 :: u8) = 0" by simp
  have "(of_nat x :: u8) = of_nat (256 * y * (x div (256 * y)) + x mod (256 * y))" by simp
  also have "\<dots> = of_nat (x mod (256 * y))" by (simp only: of_nat_add of_nat_mult z mult_zero_left add_0)
  finally show ?thesis by simp
qed

lemma sha1_length_octets_eq: "sha1_length_octets n = map (\<lambda>i. of_nat (8 * n div 256 ^ (7 - i))) [0..<8]"
proof -
  have "(of_nat (8 * n mod 2 ^ 64 div 2 ^ (56 - 8 * i)) :: u8) = of_nat (8 * n div 2 ^ (56 - 8 * i))" if "i < 8" for i
  proof -
    have "8 * n mod 2 ^ 64 div 2 ^ (56 - 8 * i) = 8 * n div 2 ^ (56 - 8 * i) mod 2 ^ (64 - (56 - 8 * i))"
      using drop_bit_take_bit [of "56 - 8 * i" 64 "8 * n"] by (simp add: drop_bit_eq_div take_bit_eq_mod)
    moreover have "2 ^ (64 - (56 - 8 * i)) = (256 :: nat) ^ Suc i" using that by (simp add: power_add power_mult)
    ultimately show ?thesis by (simp add: of_nat_256)
  qed
  moreover have "unat ((of_nat n :: u64) * 8) = 8 * n mod 2 ^ 64"
    using unat_of_nat [where ?'a = 64, of "8 * n"] by (simp add: mult.commute)
  moreover have "256 ^ (7 - i) = (2 :: nat) ^ (56 - 8 * i)" if "i < 8" for i
    using power_mult [of "2 :: nat" 8 "7 - i"] by (simp add: diff_mult_distrib2)
  ultimately show ?thesis by (simp add: sha1_length_octets_def octet_of_word)
qed

lemma sha1_digest_eq:
  "sha1_digest (h0, h1, h2, h3, h4) = fips_octets h0 @ fips_octets h1 @ fips_octets h2 @ fips_octets h3 @ fips_octets h4"
  using octet_of_word [where n = 0] by (simp add: sha1_digest_def fips_octets_def octet_of_word upt_rec)

lemma sha1_pad_zeros: "(119 - n mod 64) mod 64 = nat ((55 - int n) mod 64)"
proof -
  have "int ((119 - n mod 64) mod 64) = (119 - int n mod 64) mod 64" by (simp add: of_nat_diff zmod_int order_trans [OF less_imp_le])
  also have "\<dots> = (55 - int n) mod 64" using mod_diff_right_eq [of 119 "int n" 64] mod_add_self2 [of "55 - int n" 64] by simp
  finally show ?thesis by (metis nat_int)
qed
lemma fips_pad_eq:
  "fips_pad m = m @ [0x80] @ replicate ((119 - length m mod 64) mod 64) 0 @ sha1_length_octets (length m)"
  by (simp add: fips_pad_def sha1_pad_zeros sha1_length_octets_eq)

lemma sha1_eq_standard: "sha1 data = fips_sha1 data"
proof -
  let ?k = "length data div 64"
  define full where "full = take (64 * ?k) data"
  define rest where "rest = drop (64 * ?k) data"
  have len: "length rest = length data mod 64" "length full = 64 * ?k"
    by (simp_all add: full_def rest_def minus_mult_div_eq_mod)
  have d: "data = full @ rest" by (simp add: full_def rest_def)
  have lt: "length rest < 64" unfolding len(1) by simp
  have full: "chunks64 data = chunks64 full"
    using chunks64_append [OF len(2), of rest] chunks64_short [OF lt] d by simp
  let ?h = "fold sha1_block (chunks64 data) sha1_init"
  let ?tail = "rest @ [0x80] @ replicate ((119 - length rest) mod 64) 0 @ sha1_length_octets (length data)"
  have "fips_pad data = full @ ?tail" by (simp only: fips_pad_eq len(1)) (simp add: d [symmetric])
  then have "fold sha1_block (chunks64 (fips_pad data)) sha1_init = fold sha1_block (chunks64 ?tail) ?h"
    using chunks64_append [OF len(2), of ?tail] full by simp
  then have ref: "fips_sha1 data = sha1_digest (fold sha1_block (chunks64 ?tail) ?h)"
    by (simp add: fips_sha1_def sha1_chunks_eq fips_H0_def sha1_init_def sha1_digest_eq split: prod.splits)
  have "sha1_blocks data sha1_init = (?h, rest)" by (simp add: sha1_blocks_chunks rest_def)
  from sha1_unfold [OF this] show ?thesis
    unfolding ref sha1_tail [OF lt length_sha1_length_octets] by simp
qed

lemma length_sha1: "length (sha1 data) = 20"
  by (simp add: sha1_eq_standard length_fips_sha1)

section \<open>Frames, encoded and decoded\<close>

lemma octet_facts:
  "list_all (\<lambda>n. unat ((0x80 OR of_nat n :: u8) AND 0x7F) = n \<and> (0x80 OR of_nat n :: u8) AND 0x80 \<noteq> 0 \<and>
                 unat ((of_nat n :: u8) AND 0x7F) = n \<and> (of_nat n :: u8) AND 0x80 = 0) [0..<128]"
  by code_simp

lemma masked_length:
  "n < 128 \<Longrightarrow> unat ((0x80 OR of_nat n :: u8) AND 0x7F) = n" "n < 128 \<Longrightarrow> (0x80 OR of_nat n :: u8) AND 0x80 \<noteq> 0"
  "n < 128 \<Longrightarrow> unat ((of_nat n :: u8) AND 0x7F) = n" "n < 128 \<Longrightarrow> (of_nat n :: u8) AND 0x80 = 0"
  using octet_facts by (simp_all add: list_all_iff)

lemma length_octets_join:
  assumes "n \<le> 65535"
  shows "unat ((push_bit 8 (ucast (of_nat (drop_bit 8 n) :: u8)) :: u32) OR ucast (of_nat n :: u8)) = n"
proof -
  have "(push_bit 8 (ucast (of_nat (drop_bit 8 n) :: u8)) :: u32) OR ucast (of_nat n :: u8) = of_nat (take_bit 16 n)"
    by (rule bit_eqI) (auto simp: bit_simps)
  moreover have "take_bit 16 n = n" using assms by (simp add: take_bit_nat_eq_self_iff)
  moreover have "unat (of_nat n :: u32) = n" using assms by (simp add: unat_of_nat)
  ultimately show ?thesis by simp
qed

text \<open>A frame as a peer sends it: the header for the length, the mask if there is one, the payload.\<close>

definition frame_length :: "bool \<Rightarrow> nat \<Rightarrow> u8 list" where
  "frame_length masked n =
     (let m = (if masked then 0x80 else 0) in
      if n < 126 then [m OR of_nat n] else [m OR 126, of_nat (drop_bit 8 n), of_nat n])"

definition frame_octets :: "bool \<Rightarrow> opcode \<Rightarrow> u8 list option \<Rightarrow> u8 list \<Rightarrow> u8 list" where
  "frame_octets fin opcode key payload =
     [(if fin then 0x80 else 0) OR opcode] @ frame_length (key \<noteq> None) (length payload) @
     (case key of None \<Rightarrow> payload | Some k \<Rightarrow> k @ unmask True k payload)"

definition frame_ok :: "bool \<Rightarrow> opcode \<Rightarrow> u8 list option \<Rightarrow> u8 list \<Rightarrow> bool" where
  "frame_ok fin opcode key payload \<longleftrightarrow>
     (opcode \<in> {Op_Continuation, Op_Text, Op_Binary} \<or>
      opcode \<in> {Op_Close, Op_Ping, Op_Pong} \<and> fin \<and> length payload \<le> 125) \<and>
     length payload \<le> 65535 \<and> (\<forall>k. key = Some k \<longrightarrow> length k = 4)"

lemma length_unmask [simp]: "length (unmask m key bs) = length bs"
  by (simp add: unmask_def)

lemma unmask_twice: "unmask True key (unmask True key bs) = bs"
  by (rule nth_equalityI) (simp_all add: unmask_def xor.assoc)

lemma unmask_False: "unmask False key bs = bs"
  by (rule nth_equalityI) (simp_all add: unmask_def)

lemma first_octet:
  assumes "frame_ok fin opcode key payload"
  shows "((if fin then 0x80 else 0) OR opcode) AND 0x70 = 0"
    and "((if fin then 0x80 else 0) OR opcode) AND 0x0F = opcode"
    and "((if fin then 0x80 else 0) OR opcode) AND 0x80 \<noteq> 0 \<longleftrightarrow> fin"
  using assms unfolding frame_ok_def by auto

text \<open>The decoder, on data that starts with the header of a good frame.\<close>

lemma decode_header:
  assumes ok: "frame_ok fin opcode key payload" and m: "masked \<longleftrightarrow> key \<noteq> None"
    and d: "data = [(if fin then 0x80 else 0) OR opcode] @ frame_length masked (length payload) @ tail"
  shows "decode_frame data dst cap masked =
    decode_body data dst cap fin opcode masked (length payload) (if length payload < 126 then 2 else 4)"
proof (cases "length payload < 126")
  case True
  then show ?thesis
    using d first_octet [OF ok] masked_length [of "length payload"]
    by (auto simp: decode_frame_def frame_length_def Let_def)
next
  case False
  moreover have n: "length payload \<le> 65535" using ok by (simp add: frame_ok_def)
  ultimately show ?thesis
    using d first_octet [OF ok] length_octets_join [OF n]
    by (auto simp: decode_frame_def frame_length_def Let_def)
qed

lemma frame_body_control:
  "frame_ok fin opcode key payload \<Longrightarrow> \<not> (8 \<le> opcode \<and> (\<not> fin \<or> \<not> valid_control_payload opcode (length payload))) \<and>
   \<not> (opcode < 8 \<and> opcode \<noteq> Op_Text \<and> opcode \<noteq> Op_Binary \<and> opcode \<noteq> Op_Continuation)"
  by (auto simp: frame_ok_def valid_control_payload_def word_le_nat_alt word_less_nat_alt)

lemma decode_body_plain:
  assumes "\<not> (8 \<le> opcode \<and> (\<not> fin \<or> \<not> valid_control_payload opcode (length payload))) \<and>
      \<not> (opcode < 8 \<and> opcode \<noteq> Op_Text \<and> opcode \<noteq> Op_Binary \<and> opcode \<noteq> Op_Continuation)"
    and "length pre = off" "length payload \<le> cap"
  shows "decode_body (pre @ payload @ rest) True cap fin opcode False (length payload) off =
    (FdOk, \<lparr>wf_fin = fin, wf_opcode = opcode, wf_payload = payload\<rparr>, off + length payload)"
  using assms by (auto simp: decode_body_def Let_def unmask_False)

lemma decode_body_masked:
  assumes "\<not> (8 \<le> opcode \<and> (\<not> fin \<or> \<not> valid_control_payload opcode (length payload))) \<and>
      \<not> (opcode < 8 \<and> opcode \<noteq> Op_Text \<and> opcode \<noteq> Op_Binary \<and> opcode \<noteq> Op_Continuation)"
    and "length pre = off" "length payload \<le> cap" "length k = 4"
  shows "decode_body (pre @ k @ unmask True k payload @ rest) True cap fin opcode True (length payload) off =
    (FdOk, \<lparr>wf_fin = fin, wf_opcode = opcode, wf_payload = payload\<rparr>, off + 4 + length payload)"
  using assms by (auto simp: decode_body_def Let_def unmask_twice)

lemma length_frame_length: "length (frame_length masked n) = (if n < 126 then 1 else 3)"
  by (simp add: frame_length_def Let_def)

lemma decode_needs_length:
  assumes "data = [b0, b1] \<or> data = [b0, b1, x]" "b0 AND 0x70 = 0"
    and "(b1 AND 0x80 \<noteq> 0) = masked" "unat (b1 AND 0x7F) = 126"
  shows "fst (decode_frame data dst cap masked) = FdNeedMore"
  using assms by (auto simp: decode_frame_def Let_def)

lemma decode_frame_octets:
  assumes ok: "frame_ok fin opcode key payload" and cap: "length payload \<le> cap"
  shows "decode_frame (frame_octets fin opcode key payload @ rest) True cap (key \<noteq> None) =
    (FdOk, \<lparr>wf_fin = fin, wf_opcode = opcode, wf_payload = payload\<rparr>, length (frame_octets fin opcode key payload))"
proof -
  let ?tail = "(case key of None \<Rightarrow> payload | Some k \<Rightarrow> k @ unmask True k payload) @ rest"
  have "frame_octets fin opcode key payload @ rest = [(if fin then 0x80 else 0) OR opcode] @
      frame_length (key \<noteq> None) (length payload) @ ?tail"
    by (simp add: frame_octets_def)
  note h = decode_header [OF ok refl this]
  let ?pre = "[(if fin then 0x80 else 0) OR opcode] @ frame_length (key \<noteq> None) (length payload)"
  have pre: "length ?pre = (if length payload < 126 then 2 else 4)" by (simp add: length_frame_length)
  show ?thesis
  proof (cases key)
    case None
    then show ?thesis
      using h decode_body_plain [OF frame_body_control [OF ok] pre cap, of rest] pre
      by (simp add: frame_octets_def)
  next
    case (Some k)
    moreover have "length k = 4" using ok Some by (simp add: frame_ok_def)
    ultimately show ?thesis
      using h decode_body_masked [OF frame_body_control [OF ok] pre cap, of k rest] pre
      by (simp add: frame_octets_def)
  qed
qed

lemma decode_short:
  assumes ok: "frame_ok fin opcode key payload"
    and k: "k < 1 + length (frame_length (key \<noteq> None) (length payload))"
  shows "fst (decode_frame (take k (frame_octets fin opcode key payload)) dst cap (key \<noteq> None)) = FdNeedMore"
proof (cases "k < 2")
  case True
  then show ?thesis by (simp add: decode_frame_def min_def)
next
  case False
  with k have n: "\<not> length payload < 126" "k = 2 \<or> k = 3" by (auto simp: length_frame_length split: if_splits)
  let ?b0 = "(if fin then 0x80 else 0) OR opcode" and ?b1 = "(if key \<noteq> None then 0x80 else 0) OR (126 :: u8)"
  from n obtain x y zs where "frame_octets fin opcode key payload = ?b0 # ?b1 # x # y # zs"
    by (auto simp: frame_octets_def frame_length_def Let_def)
  with n(2) have "take k (frame_octets fin opcode key payload) = [?b0, ?b1] \<or>
      take k (frame_octets fin opcode key payload) = [?b0, ?b1, x]"
    by auto
  moreover have "(?b1 AND 0x80 \<noteq> 0) = (key \<noteq> None)" "unat (?b1 AND 0x7F) = 126" by simp_all
  ultimately show ?thesis using first_octet(1) [OF ok] by (intro decode_needs_length) auto
qed

lemma decode_prefix:
  assumes ok: "frame_ok fin opcode key payload" and cap: "length payload \<le> cap"
    and k: "k < length (frame_octets fin opcode key payload)"
  shows "fst (decode_frame (take k (frame_octets fin opcode key payload)) True cap (key \<noteq> None)) = FdNeedMore"
proof (cases "k < 1 + length (frame_length (key \<noteq> None) (length payload))")
  case True
  then show ?thesis by (rule decode_short [OF ok])
next
  case False
  let ?hl = "1 + length (frame_length (key \<noteq> None) (length payload))"
  let ?body = "case key of None \<Rightarrow> payload | Some k \<Rightarrow> k @ unmask True k payload"
  have "take k (frame_octets fin opcode key payload) = [(if fin then 0x80 else 0) OR opcode] @
      frame_length (key \<noteq> None) (length payload) @ take (k - ?hl) ?body"
    using False by (simp add: frame_octets_def take_Cons' Suc_diff_le)
  note h = decode_header [OF ok refl this]
  have len: "length (frame_octets fin opcode key payload) = ?hl + length ?body" by (simp add: frame_octets_def)
  show ?thesis
    unfolding h using frame_body_control [OF ok] ok cap k False len
    by (cases key) (auto simp: decode_body_def Let_def frame_ok_def length_frame_length split: if_splits)
qed

lemma encode_text_octets:
  assumes "encode_text_frame s cap = Some bs"
  shows "bs = frame_octets True Op_Text None (octets s) \<and> frame_ok True Op_Text None (octets s) \<and> length bs \<le> cap"
  using assms
  by (auto simp: encode_text_frame_def frame_octets_def frame_length_def frame_ok_def Let_def split: if_splits)

lemma encode_control_octets:
  assumes "encode_control_frame opcode payload cap = Some bs"
  shows "bs = frame_octets True opcode None payload \<and> frame_ok True opcode None payload \<and> length bs \<le> cap"
  using assms
  by (auto simp: encode_control_frame_def valid_control_payload_def frame_octets_def frame_length_def
      frame_ok_def Let_def split: if_splits)

section \<open>Accepted handshakes\<close>

lemma length_copy_trimmed: "0 < n \<Longrightarrow> length (copy_trimmed n s) < n"
  by (auto simp: copy_trimmed_def Let_def)

lemma parse_header_line_key: "length (hr_key out) < 64 \<Longrightarrow> length (hr_key (parse_header_line line out)) < 64"
  by (simp add: parse_header_line_def Let_def length_copy_trimmed)

lemma parse_headers_key: "length (hr_key out) < 64 \<Longrightarrow> length (hr_key (parse_headers req out)) < 64"
proof (induction req out rule: parse_headers.induct)
  case (1 req out)
  then show ?case
    by (subst parse_headers.simps) (simp add: Let_def parse_header_line_key)
qed

lemma parse_request_line_key: "hr_key (snd (parse_request_line line out)) = hr_key out"
  by (simp add: parse_request_line_def Let_def)

lemma accepted_key:
  assumes "parse_client_handshake req = (HsOk, out)"
  shows "length (hr_key out) < 64 \<and> c_str (hr_key out) \<noteq> []"
proof -
  obtain line h where "out = parse_headers h (snd (parse_request_line line handshake_request_init))"
    "c_str (hr_key out) \<noteq> []"
    using assms by (auto simp: parse_client_handshake_def Let_def split: prod.splits if_splits) (metis snd_conv)
  moreover have "length (hr_key (snd (parse_request_line line handshake_request_init))) < 64"
    by (simp add: parse_request_line_key handshake_request_init_def)
  ultimately show ?thesis using parse_headers_key by blast
qed

lemma accept_key_small:
  assumes "length (c_str key) < 92" "c_str key \<noteq> []"
  shows "\<exists>accept. make_accept_key key 32 = (HsOk, accept) \<and> length accept = 28 \<and>
    base64_decode accept = sha1 (octets (c_str key @ websocket_guid))"
proof -
  have "length websocket_guid = 36" by (simp add: websocket_guid_def)
  then show ?thesis
    using assms
    by (auto simp: make_accept_key_def Let_def base64_encode_def length_sha1 base64_encoded_size_def
        base64_decode_encode length_base64_loop split: option.splits)
qed

section \<open>Properties\<close>

text \<open>
  the frame codec: a frame as a client or a server sends it, masked or not, with any legal
  opcode and a payload that fits, is decoded to its flag, opcode and payload whatever follows it,
  and exactly its octets are consumed; and any strict prefix of it is answered with a request for
  more data, never with an error.
\<close>

theorem websocket_frame_decodes:
  assumes "frame_ok fin opcode key payload" "length payload \<le> cap"
  shows "decode_frame (frame_octets fin opcode key payload @ rest) True cap (key \<noteq> None) =
      (FdOk, \<lparr>wf_fin = fin, wf_opcode = opcode, wf_payload = payload\<rparr>,
       length (frame_octets fin opcode key payload)) \<and>
    (k \<ge> length (frame_octets fin opcode key payload) \<or>
     fst (decode_frame (take k (frame_octets fin opcode key payload)) True cap (key \<noteq> None)) = FdNeedMore)"
  using decode_frame_octets [OF assms] decode_prefix [OF assms, of k] not_le by blast

theorem websocket_frame_decodes_witness:
  "decode_frame ([0x81, 0x85, 0x37, 0xfa, 0x21, 0x3d, 0x7f, 0x9f, 0x4d, 0x51, 0x58] @ [9]) True 64 True =
     (FdOk, \<lparr>wf_fin = True, wf_opcode = Op_Text, wf_payload = octets ''Hello''\<rparr>, 11)"
proof -
  have f: "frame_octets True Op_Text (Some [0x37, 0xfa, 0x21, 0x3d]) (octets ''Hello'') =
      [0x81, 0x85, 0x37, 0xfa, 0x21, 0x3d, 0x7f, 0x9f, 0x4d, 0x51, 0x58]"
    by code_simp
  have "frame_ok True Op_Text (Some [0x37, 0xfa, 0x21, 0x3d]) (octets ''Hello'')" by (simp add: frame_ok_def)
  from websocket_frame_decodes [OF this, of 64 "[9]"] show ?thesis unfolding f by simp
qed

text \<open>
  what the server encodes, a client decodes: a text frame and a control frame carry their
  payload unchanged, fit the buffer they were given, and the encoder refuses only a payload of
  more than 65535 octets (125 for a control frame) or a buffer that is too small.
\<close>

theorem websocket_encode_decode:
  assumes "length s \<le> cap"
  shows "case encode_text_frame s dst of
      Some bs \<Rightarrow> length bs \<le> dst \<and> decode_frame bs True cap False =
        (FdOk, \<lparr>wf_fin = True, wf_opcode = Op_Text, wf_payload = octets s\<rparr>, length bs)
    | None \<Rightarrow> 65535 < length s \<or> dst < length s + (if length s < 126 then 2 else 4)"
proof (cases "encode_text_frame s dst")
  case None
  then show ?thesis by (auto simp: encode_text_frame_def Let_def split: if_splits)
next
  case (Some bs)
  note e = encode_text_octets [OF Some]
  have "decode_frame (frame_octets True Op_Text None (octets s) @ []) True cap (None \<noteq> (None :: u8 list option)) =
      (FdOk, \<lparr>wf_fin = True, wf_opcode = Op_Text, wf_payload = octets s\<rparr>,
       length (frame_octets True Op_Text None (octets s)))"
    using e assms by (intro decode_frame_octets) auto
  with e Some show ?thesis by auto
qed

theorem websocket_encode_decode_witness:
  "\<exists>bs. encode_text_frame ''hi'' 16 = Some bs \<and> decode_frame bs True 8 False =
        (FdOk, \<lparr>wf_fin = True, wf_opcode = Op_Text, wf_payload = octets ''hi''\<rparr>, length bs)"
  using websocket_encode_decode [of "''hi''" 8 16] by (simp add: encode_text_frame_def)

text \<open>
  every upgrade request the parser accepts gets its response: the key fits the buffers on the
  way, the 192 octet response buffer is large enough, and the accept value is the base64 text of
  the SHA-1 digest of the key and the protocol's GUID.
\<close>

theorem accepted_handshake_is_answered:
  assumes "parse_client_handshake req = (HsOk, out)"
  shows "\<exists>accept. write_server_handshake_response (hr_key out) 192 =
      (HsOk, handshake_prefix @ accept @ [CR, LF, CR, LF]) \<and> length accept = 28 \<and>
    base64_decode accept = sha1 (octets (c_str (hr_key out) @ websocket_guid))"
proof -
  have "length (c_str (hr_key out)) < 92" "c_str (hr_key out) \<noteq> []"
    using accepted_key [OF assms] length_takeWhile_le [of "\<lambda>c. c \<noteq> NUL" "hr_key out"]
    by (auto simp: c_str_def)
  from accept_key_small [OF this] show ?thesis
    by (auto simp: write_server_handshake_response_def handshake_prefix_def)
qed

definition sample_request :: string where
  "sample_request = ''GET /signalk/v1/stream HTTP/1.1'' @ [CR, LF] @ ''Host: h'' @ [CR, LF] @
     ''Connection: keep-alive, upgrade'' @ [CR, LF] @ ''UPGRADE: WebSocket'' @ [CR, LF] @
     ''Sec-WebSocket-Version: 13'' @ [CR, LF] @ ''Sec-WebSocket-Key: dGhlIHNhbXBsZSBub25jZQ=='' @ [CR, LF, CR, LF]"

lemma sample_request_parses:
  "parse_client_handshake sample_request =
     (HsOk, \<lparr>hr_resource = ''/signalk/v1/stream'', hr_key = ''dGhlIHNhbXBsZSBub25jZQ=='',
       hr_upgrade_websocket = True, hr_connection_upgrade = True, hr_version_13 = True\<rparr>)"
  by code_simp

theorem accepted_handshake_is_answered_witness:
  "\<exists>accept. write_server_handshake_response ''dGhlIHNhbXBsZSBub25jZQ=='' 192 =
      (HsOk, handshake_prefix @ accept @ [CR, LF, CR, LF]) \<and> length accept = 28"
  using accepted_handshake_is_answered [OF sample_request_parses] by auto

text \<open>
  C17: the SHA-1 of the code is that of the standard, for every message. The code computes in one pass, with the schedule in an array of 80
  words and the padding of the last one or two blocks in a scratch block; \<open>fips_sha1\<close> pads the whole message first and
  follows the definitions of FIPS 180-4, with none of the code's definitions (\<open>Sha1_Standard\<close>).
\<close>

theorem sha1_is_reference: "sha1 data = fips_sha1 data"
  by (rule sha1_eq_standard)

text \<open>
  base64 is a faithful encoding: it can be decoded, it has the length the code computes, and
  the encoder refuses exactly when the text with its terminator does not fit.
\<close>

theorem base64_round_trip:
  "case base64_encode data out_size of
     Some s \<Rightarrow> base64_decode s = data \<and> length s = base64_encoded_size (length data) \<and> length s < out_size
   | None \<Rightarrow> out_size < base64_encoded_size (length data) + 1"
  by (auto simp: base64_encode_def base64_decode_encode length_base64_loop)

end
