(* ===== verification/Tcp.thy ===== *)
theory Tcp
  imports Protocol_Reader
begin

text \<open>
  The TCP layer of the event loop library (\<^verbatim>\<open>tcp.hpp\<close>, \<^verbatim>\<open>tcp_line_protocol.hpp\<close>) and the connection
  registry of the Signal K server (\<^verbatim>\<open>connection_registry.hpp\<close>): the backpressure monitor, the tables
  of connections, and the line server and client that put a line reader on each connection. A
  connection object is identified by a value of a type variable (its address); what the code reads
  of it (validity, pending input, queued output) is a record \<open>conn\<close>, and the platform's connections
  are a function from addresses to such records.
\<close>

section \<open>Connections\<close>

record conn =
  cn_valid :: bool
  cn_input :: "u8 list"
  cn_output_size :: nat

definition conn_readable :: "conn \<Rightarrow> bool" where
  "conn_readable c \<longleftrightarrow> cn_valid c \<and> 0 < length (cn_input c)"

definition conn_read :: "nat \<Rightarrow> conn \<Rightarrow> u8 list \<times> conn" where
  "conn_read max_len c =
     (if cn_valid c then (take max_len (cn_input c), c\<lparr>cn_input := drop max_len (cn_input c)\<rparr>) else ([], c))"

definition conn_close :: "conn \<Rightarrow> conn" where
  "conn_close c = c\<lparr>cn_valid := False\<rparr>"

interpretation conn_src: byte_source conn_readable conn_read cn_input cn_valid
  by unfold_locales (auto simp: conn_readable_def conn_read_def)

section \<open>The backpressure monitor\<close>

record backpressure_options =
  bo_enabled :: bool
  bo_high_water_bytes :: nat
  bo_low_water_bytes :: nat
  bo_max_over_high_polls :: u32
  bo_close_on_limit :: bool

definition backpressure_disabled :: backpressure_options where
  "backpressure_disabled = \<lparr>bo_enabled = False, bo_high_water_bytes = 32768, bo_low_water_bytes = 8192,
     bo_max_over_high_polls = 3, bo_close_on_limit = True\<rparr>"

definition backpressure_server_default :: backpressure_options where
  "backpressure_server_default = backpressure_disabled\<lparr>bo_enabled := True\<rparr>"

definition backpressure_embedded_default :: backpressure_options where
  "backpressure_embedded_default = backpressure_disabled\<lparr>bo_enabled := True, bo_high_water_bytes := 768,
     bo_low_water_bytes := 256, bo_max_over_high_polls := 2\<rparr>"

record backpressure_info =
  bi_pending_bytes :: nat
  bi_high_water_bytes :: nat
  bi_low_water_bytes :: nat
  bi_over_high_polls :: u32
  bi_close_on_limit :: bool

record monitor =
  mo_options :: backpressure_options
  mo_over_high_polls :: u32
  mo_reported :: bool

definition mo_reset :: "monitor \<Rightarrow> monitor" where
  "mo_reset m = m\<lparr>mo_over_high_polls := 0, mo_reported := False\<rparr>"

definition mo_configure :: "backpressure_options \<Rightarrow> monitor \<Rightarrow> monitor" where
  "mo_configure options m = mo_reset (m\<lparr>mo_options := options\<rparr>)"

definition mo_init :: "backpressure_options \<Rightarrow> monitor" where
  "mo_init options = \<lparr>mo_options = options, mo_over_high_polls = 0, mo_reported = False\<rparr>"

definition mo_fill_info :: "conn \<Rightarrow> monitor \<Rightarrow> backpressure_info" where
  "mo_fill_info c m = \<lparr>bi_pending_bytes = (if cn_valid c then cn_output_size c else 0),
     bi_high_water_bytes = bo_high_water_bytes (mo_options m),
     bi_low_water_bytes = bo_low_water_bytes (mo_options m),
     bi_over_high_polls = mo_over_high_polls m, bi_close_on_limit = bo_close_on_limit (mo_options m)\<rparr>"

definition mo_check :: "conn \<Rightarrow> monitor \<Rightarrow> bool \<times> backpressure_info \<times> monitor" where
  "mo_check c m =
     (if \<not> bo_enabled (mo_options m) \<or> \<not> cn_valid c then (False, mo_fill_info c m, m)
      else (let pending = cn_output_size c;
                m1 = (if bo_high_water_bytes (mo_options m) < pending
                      then (if mo_over_high_polls m < 0xFFFFFFFF
                            then m\<lparr>mo_over_high_polls := mo_over_high_polls m + 1\<rparr> else m)
                      else if pending \<le> bo_low_water_bytes (mo_options m)
                      then m\<lparr>mo_over_high_polls := 0, mo_reported := False\<rparr>
                      else m);
                info = mo_fill_info c m1;
                trigger = (if bo_max_over_high_polls (mo_options m) = 0 then 1
                           else bo_max_over_high_polls (mo_options m))
            in if trigger \<le> mo_over_high_polls m1 \<and> \<not> mo_reported m1
               then (True, info, m1\<lparr>mo_reported := True\<rparr>)
               else (False, info, m1)))"

text \<open>The answers of successive checks while the queued output takes the given sizes.\<close>

fun mo_run :: "nat list \<Rightarrow> monitor \<Rightarrow> bool list \<times> monitor" where
  "mo_run [] m = ([], m)"
| "mo_run (p # ps) m =
     (let (b, _, m1) = mo_check \<lparr>cn_valid = True, cn_input = [], cn_output_size = p\<rparr> m;
          (bs, m2) = mo_run ps m1
      in (b # bs, m2))"

definition mo_trigger :: "backpressure_options \<Rightarrow> nat" where
  "mo_trigger options = (if bo_max_over_high_polls options = 0 then 1 else unat (bo_max_over_high_polls options))"

text \<open>What the monitor has counted: polls over the mark, up to the largest 32 bit number.\<close>

definition mo_counted :: "backpressure_options \<Rightarrow> nat \<Rightarrow> monitor \<Rightarrow> bool" where
  "mo_counted options n m \<longleftrightarrow> mo_options m = options \<and> unat (mo_over_high_polls m) = min n (2 ^ 32 - 1) \<and>
     (mo_reported m \<longleftrightarrow> mo_trigger options \<le> n)"

lemma mo_trigger_le: "mo_trigger options \<le> 2 ^ 32 - 1" "0 < mo_trigger options"
proof -
  have "unat (bo_max_over_high_polls options) < 2 ^ 32" using unsigned_less [of "bo_max_over_high_polls options"] by simp
  then show "mo_trigger options \<le> 2 ^ 32 - 1" by (simp add: mo_trigger_def)
  show "0 < mo_trigger options" by (auto simp: mo_trigger_def unat_gt_0)
qed

lemma unat_Suc_sat:
  fixes w :: u32
  shows "unat (if w < 0xFFFFFFFF then w + 1 else w) = min (unat w + 1) (2 ^ 32 - 1)"
proof (cases "w < 0xFFFFFFFF")
  case True
  then have l: "unat w < 4294967295" by (simp add: word_less_nat_alt)
  then have "unat (w + 1) = unat w + 1"
    by (simp add: unat_word_ariths)
  with True l show ?thesis by simp
next
  case False
  then have "4294967295 \<le> unat w" by (simp add: word_less_nat_alt)
  moreover have "unat w < 4294967296" using unsigned_less [of w] by simp
  ultimately show ?thesis using False by simp
qed


lemma mo_check_over:
  assumes "mo_counted options n m" "bo_enabled options" "bo_high_water_bytes options < p"
  defines "r \<equiv> mo_check \<lparr>cn_valid = True, cn_input = [], cn_output_size = p\<rparr> m"
  shows "(fst r \<longleftrightarrow> Suc n = mo_trigger options) \<and> mo_counted options (Suc n) (snd (snd r))"
proof -
  let ?w = "mo_over_high_polls m"
  let ?w1 = "if ?w < 0xFFFFFFFF then ?w + 1 else ?w"
  have o: "mo_options m = options" and u: "unat ?w = min n (2 ^ 32 - 1)" and rep: "mo_reported m \<longleftrightarrow> mo_trigger options \<le> n"
    using assms(1) by (auto simp: mo_counted_def)
  have u1: "unat ?w1 = min (Suc n) (2 ^ 32 - 1)" using unat_Suc_sat [of ?w] u by simp
  let ?t = "if bo_max_over_high_polls options = 0 then 1 else bo_max_over_high_polls options"
  have ut: "unat ?t = mo_trigger options" by (simp add: mo_trigger_def)
  have trig: "?t \<le> ?w1 \<longleftrightarrow> mo_trigger options \<le> Suc n"
    using mo_trigger_le [of options] unfolding word_le_nat_alt u1 ut by linarith
  define m1 where "m1 = m\<lparr>mo_over_high_polls := ?w1\<rparr>"
  have m1: "(if ?w < 0xFFFFFFFF then m\<lparr>mo_over_high_polls := ?w + 1\<rparr> else m) = m1" by (simp add: m1_def)
  have r: "r = (if mo_trigger options \<le> Suc n \<and> \<not> mo_reported m
      then (True, mo_fill_info \<lparr>cn_valid = True, cn_input = [], cn_output_size = p\<rparr> m1, m1\<lparr>mo_reported := True\<rparr>)
      else (False, mo_fill_info \<lparr>cn_valid = True, cn_input = [], cn_output_size = p\<rparr> m1, m1))"
  proof -
    have f: "?t \<le> mo_over_high_polls m1 \<longleftrightarrow> mo_trigger options \<le> Suc n" "mo_reported m1 = mo_reported m"
      using trig by (simp_all add: m1_def)
    show ?thesis unfolding r_def mo_check_def Let_def using assms(2,3) f
      by (cases "bo_max_over_high_polls options = 0") (simp_all add: o m1)
  qed
  have "mo_options m1 = options" "unat (mo_over_high_polls m1) = min (Suc n) (2 ^ 32 - 1)" "mo_reported m1 = mo_reported m"
    using u1 by (simp_all add: m1_def o)
  then show ?thesis unfolding r using rep by (auto simp: mo_counted_def le_Suc_eq)
qed

lemma mo_run_over:
  assumes "bo_enabled options" "\<forall>p \<in> set ps. bo_high_water_bytes options < p" "mo_counted options n m"
  shows "fst (mo_run ps m) = map (\<lambda>i. Suc i = mo_trigger options) [n..<n + length ps] \<and>
         mo_counted options (n + length ps) (snd (mo_run ps m))"
  using assms(2,3)
proof (induction ps arbitrary: m n)
  case (Cons p ps)
  obtain b i m1 where c: "mo_check \<lparr>cn_valid = True, cn_input = [], cn_output_size = p\<rparr> m = (b, i, m1)"
    by (metis prod.exhaust)
  have "b \<longleftrightarrow> Suc n = mo_trigger options" "mo_counted options (Suc n) m1"
    using mo_check_over [OF Cons.prems(2) assms(1), of p] Cons.prems(1) c by auto
  moreover have "[n..<n + length (p # ps)] = n # [Suc n..<Suc n + length ps]"
    by (simp add: upt_conv_Cons del: upt_Suc)
  ultimately show ?case
    using Cons.IH [of "Suc n" m1] Cons.prems(1) c by (cases "mo_run ps m1") (simp del: upt_Suc)
qed simp

lemma mo_check_low:
  assumes "mo_options m = options" "bo_enabled options" "bo_low_water_bytes options \<le> bo_high_water_bytes options"
    "p \<le> bo_low_water_bytes options"
  defines "r \<equiv> mo_check \<lparr>cn_valid = True, cn_input = [], cn_output_size = p\<rparr> m"
  shows "\<not> fst r \<and> mo_counted options 0 (snd (snd r))"
  using assms mo_trigger_le(2) [of options]
  by (auto simp: mo_check_def mo_counted_def Let_def split: if_splits)

section \<open>Tables of connections\<close>

text \<open>
  What the callers rely on in a bounded table of connections: the members after each operation, and
  that an addition fails only when the table is full of others.
\<close>

locale conn_table =
  fixes cap :: nat
    and add :: "'c \<Rightarrow> 's \<Rightarrow> bool \<times> 's"
    and remove :: "'c \<Rightarrow> 's \<Rightarrow> bool \<times> 's"
    and members :: "'s \<Rightarrow> 'c set"
    and inv :: "'s \<Rightarrow> bool"
  assumes finite_members: "inv s \<Longrightarrow> finite (members s) \<and> card (members s) \<le> cap"
    and add_ok: "inv s \<Longrightarrow> fst (add c s) \<longleftrightarrow> c \<in> members s \<or> card (members s) < cap"
    and add_members: "inv s \<Longrightarrow> members (snd (add c s)) = (if fst (add c s) then insert c (members s) else members s)"
    and add_inv: "inv s \<Longrightarrow> inv (snd (add c s))"
    and remove_ok: "inv s \<Longrightarrow> fst (remove c s) \<longleftrightarrow> c \<in> members s"
    and remove_members: "inv s \<Longrightarrow> members (snd (remove c s)) = members s - {c}"
    and remove_inv: "inv s \<Longrightarrow> inv (snd (remove c s))"
begin

lemma add_twice: "inv s \<Longrightarrow> fst (add c s) \<Longrightarrow> fst (add c (snd (add c s))) \<and>
  members (snd (add c (snd (add c s)))) = members (snd (add c s))"
  using add_inv [of s c] add_ok [of "snd (add c s)" c] add_members [of s c] add_members [of "snd (add c s)" c]
  by auto

lemma room_after_remove:
  assumes "inv s" "c \<in> members s"
  shows "fst (add d (snd (remove c s)))"
proof -
  have "card (members s - {c}) < card (members s)"
    using finite_members [OF assms(1)] assms(2) by (intro card_Diff1_less) auto
  then show ?thesis
    using assms remove_inv [OF assms(1), of c] remove_members [OF assms(1), of c] finite_members [OF assms(1)]
    by (simp add: add_ok)
qed

lemma add_all:
  "inv s \<Longrightarrow> card (members s \<union> set cs) \<le> cap \<Longrightarrow>
   inv (fold (\<lambda>c s. snd (add c s)) cs s) \<and> members (fold (\<lambda>c s. snd (add c s)) cs s) = members s \<union> set cs"
proof (induction cs arbitrary: s)
  case (Cons c cs)
  have i: "inv (snd (add c s))" using Cons.prems(1) by (rule add_inv)
  have fin: "finite (members s)" using finite_members [OF Cons.prems(1)] by simp
  have "fst (add c s)"
  proof (cases "c \<in> members s")
    case False
    have "card (insert c (members s)) \<le> card (members s \<union> set (c # cs))"
      using fin by (intro card_mono) auto
    then show ?thesis using False fin Cons.prems by (simp add: add_ok)
  qed (simp add: add_ok Cons.prems(1))
  then have m: "members (snd (add c s)) = insert c (members s)" using add_members [OF Cons.prems(1), of c] by simp
  with Cons.IH [OF i] Cons.prems(2) show ?case by simp
qed simp

end

section \<open>\<^verbatim>\<open>TcpConnectionRegistry\<close>\<close>

record 'c tcp_registry =
  tr_connections :: "'c option list"
  tr_count :: nat

definition tr_init :: "nat \<Rightarrow> 'c tcp_registry" where
  "tr_init cap = \<lparr>tr_connections = replicate cap None, tr_count = 0\<rparr>"

definition tr_index_of :: "'c \<Rightarrow> 'c tcp_registry \<Rightarrow> nat option" where
  "tr_index_of c s = index_where (\<lambda>e. e = Some c) (tr_connections s)"

definition tr_add :: "'c \<Rightarrow> 'c tcp_registry \<Rightarrow> bool \<times> 'c tcp_registry" where
  "tr_add c s =
     (if tr_index_of c s \<noteq> None then (True, s)
      else (case index_where (\<lambda>e. e = None) (tr_connections s) of
              Some i \<Rightarrow> (True, s\<lparr>tr_connections := (tr_connections s)[i := Some c], tr_count := tr_count s + 1\<rparr>)
            | None \<Rightarrow> (False, s)))"

definition tr_remove :: "'c \<Rightarrow> 'c tcp_registry \<Rightarrow> bool \<times> 'c tcp_registry" where
  "tr_remove c s =
     (case tr_index_of c s of
        None \<Rightarrow> (False, s)
      | Some i \<Rightarrow> (True, s\<lparr>tr_connections := (tr_connections s)[i := None],
                          tr_count := (if 0 < tr_count s then tr_count s - 1 else tr_count s)\<rparr>))"

definition tr_clear :: "'c tcp_registry \<Rightarrow> 'c tcp_registry" where
  "tr_clear s = \<lparr>tr_connections = replicate (length (tr_connections s)) None, tr_count = 0\<rparr>"

definition tr_prune_step :: "('c \<Rightarrow> conn) \<Rightarrow> 'c tcp_registry \<Rightarrow> nat \<Rightarrow> 'c tcp_registry" where
  "tr_prune_step cs s i =
     (case tr_connections s ! i of
        Some c \<Rightarrow> if \<not> cn_valid (cs c)
                  then s\<lparr>tr_connections := (tr_connections s)[i := None],
                         tr_count := (if 0 < tr_count s then tr_count s - 1 else tr_count s)\<rparr>
                  else s
      | None \<Rightarrow> s)"

definition tr_prune_invalid :: "('c \<Rightarrow> conn) \<Rightarrow> 'c tcp_registry \<Rightarrow> 'c tcp_registry" where
  "tr_prune_invalid cs s = foldl (tr_prune_step cs) s [0..<length (tr_connections s)]"

definition tr_at :: "nat \<Rightarrow> 'c tcp_registry \<Rightarrow> 'c option" where
  "tr_at index s = (if index < length (tr_connections s) then tr_connections s ! index else None)"

definition tr_for_each :: "('c \<Rightarrow> conn) \<Rightarrow> 'c tcp_registry \<Rightarrow> 'c list" where
  "tr_for_each cs s = filter (\<lambda>c. cn_valid (cs c)) (List.map_filter id (tr_connections s))"


definition tr_members :: "'c tcp_registry \<Rightarrow> 'c set" where
  "tr_members s = {c. Some c \<in> set (tr_connections s)}"

text \<open>Each connection stands in one slot, and the count is the number of slots in use.\<close>

definition slots_ok :: "'c option list \<Rightarrow> bool" where
  "slots_ok xs \<longleftrightarrow> (\<forall>i < length xs. \<forall>j < length xs. xs ! i \<noteq> None \<longrightarrow> xs ! i = xs ! j \<longrightarrow> i = j)"

fun slots_used :: "'c option list \<Rightarrow> nat" where
  "slots_used [] = 0"
| "slots_used (e # es) = (if e = None then 0 else 1) + slots_used es"

definition tr_inv :: "nat \<Rightarrow> 'c tcp_registry \<Rightarrow> bool" where
  "tr_inv cap s \<longleftrightarrow> length (tr_connections s) = cap \<and> slots_ok (tr_connections s) \<and>
     tr_count s = slots_used (tr_connections s)"

lemma slots_ok_tl: "slots_ok (x # xs) \<Longrightarrow> slots_ok xs \<and> (x \<noteq> None \<longrightarrow> x \<notin> set xs)"
proof -
  assume a: "slots_ok (x # xs)"
  have "slots_ok xs" unfolding slots_ok_def
  proof (intro allI impI)
    fix i j assume "i < length xs" "j < length xs" "xs ! i \<noteq> None" "xs ! i = xs ! j"
    then show "i = j" using a [unfolded slots_ok_def, rule_format, of "Suc i" "Suc j"] by simp
  qed
  moreover have "x \<notin> set xs" if "x \<noteq> None"
  proof
    assume "x \<in> set xs"
    then obtain j where "j < length xs" "xs ! j = x" by (auto simp: in_set_conv_nth)
    then show False using a [unfolded slots_ok_def, rule_format, of 0 "Suc j"] that by simp
  qed
  ultimately show ?thesis by blast
qed

lemma slots_card: "slots_ok xs \<Longrightarrow> finite {c. Some c \<in> set xs} \<and> card {c. Some c \<in> set xs} = slots_used xs"
proof (induction xs)
  case (Cons x xs)
  note t = slots_ok_tl [OF Cons.prems]
  show ?case
  proof (cases x)
    case None
    with Cons.IH t show ?thesis by simp
  next
    case (Some c)
    have "{d. Some d \<in> set (x # xs)} = insert c {d. Some d \<in> set xs}" using Some by auto
    with Some Cons.IH t show ?thesis by auto
  qed
qed simp

lemma slots_used_update:
  "i < length xs \<Longrightarrow> slots_used (xs[i := e]) + (if xs ! i = None then 0 else 1) =
   slots_used xs + (if e = None then 0 else 1)"
proof (induction xs arbitrary: i)
  case (Cons x xs)
  show ?case
  proof (cases i)
    case 0
    then show ?thesis by simp
  next
    case (Suc k)
    then show ?thesis using Cons.IH [of k] Cons.prems by simp
  qed
qed simp

lemma slots_ok_update:
  assumes "slots_ok xs" "e = None \<or> e \<notin> set xs"
  shows "slots_ok (xs[i := e])"
  unfolding slots_ok_def
proof (intro allI impI)
  fix a b
  assume ab: "a < length (xs[i := e])" "b < length (xs[i := e])" "xs[i := e] ! a \<noteq> None"
    "xs[i := e] ! a = xs[i := e] ! b"
  consider "a = i \<and> b = i" | "a = i \<and> b \<noteq> i" | "a \<noteq> i \<and> b = i" | "a \<noteq> i \<and> b \<noteq> i" by blast
  then show "a = b"
  proof cases
    case 2
    with ab have "e = xs ! b" "e \<noteq> None" by auto
    with ab assms(2) show ?thesis by simp
  next
    case 3
    with ab have "e = xs ! a" "e \<noteq> None" by auto
    with ab assms(2) show ?thesis by simp
  next
    case 4
    with ab assms(1) show ?thesis by (simp add: slots_ok_def)
  qed simp
qed

lemma slots_used_le: "slots_used xs \<le> length xs"
  by (induction xs) auto

lemma slots_full: "(\<forall>e \<in> set xs. e \<noteq> None) \<longleftrightarrow> slots_used xs = length xs"
proof (induction xs)
  case (Cons x xs)
  then show ?case using slots_used_le [of xs] by auto
qed simp

lemma tr_init_inv [sk_inv]: "tr_inv cap (tr_init cap :: 'c tcp_registry) \<and> tr_members (tr_init cap :: 'c tcp_registry) = {}"
proof -
  have "slots_used (replicate cap (None :: 'c option)) = 0" by (induction cap) auto
  then show ?thesis by (auto simp: tr_inv_def tr_init_def tr_members_def slots_ok_def)
qed

lemma tr_add_cases:
  assumes "tr_inv cap s"
  obtains (present) "c \<in> tr_members s" "tr_add c s = (True, s)"
  | (fresh) i where "c \<notin> tr_members s" "i < cap" "tr_connections s ! i = None"
      "tr_add c s = (True, s\<lparr>tr_connections := (tr_connections s)[i := Some c], tr_count := tr_count s + 1\<rparr>)"
  | (full) "c \<notin> tr_members s" "slots_used (tr_connections s) = cap" "tr_add c s = (False, s)"
proof (cases "tr_index_of c s")
  case (Some i)
  then have "tr_connections s ! i = Some c" "i < length (tr_connections s)"
    by (auto simp: tr_index_of_def dest: index_where_SomeD)
  then have "c \<in> tr_members s" by (auto simp: tr_members_def) (metis nth_mem)
  with present Some show ?thesis by (simp add: tr_add_def)
next
  case None
  then have c: "c \<notin> tr_members s" by (auto simp: tr_index_of_def tr_members_def index_where_None)
  show ?thesis
  proof (cases "index_where (\<lambda>e. e = None) (tr_connections s)")
    case free: (Some i)
    with assms fresh c None show ?thesis
      by (auto simp: tr_add_def tr_inv_def dest: index_where_SomeD)
  next
    case none: None
    then have "slots_used (tr_connections s) = cap"
      using assms slots_full [of "tr_connections s"] by (simp add: index_where_None tr_inv_def)
    with full c None none show ?thesis by (simp add: tr_add_def)
  qed
qed

lemma tr_remove_cases:
  assumes "tr_inv cap s"
  obtains (absent) "c \<notin> tr_members s" "tr_remove c s = (False, s)"
  | (found) i where "c \<in> tr_members s" "i < cap" "tr_connections s ! i = Some c"
      "tr_remove c s = (True, s\<lparr>tr_connections := (tr_connections s)[i := None], tr_count := tr_count s - 1\<rparr>)"
proof (cases "tr_index_of c s")
  case (Some i)
  then have i: "tr_connections s ! i = Some c" "i < length (tr_connections s)"
    by (auto simp: tr_index_of_def dest: index_where_SomeD)
  then have "c \<in> tr_members s" by (auto simp: tr_members_def) (metis nth_mem)
  with found [of i] i assms Some show ?thesis by (simp add: tr_remove_def tr_inv_def)
next
  case None
  then have "c \<notin> tr_members s" by (auto simp: tr_index_of_def tr_members_def index_where_None)
  with absent None show ?thesis by (simp add: tr_remove_def)
qed

lemma members_update_insert:
  "i < length xs \<Longrightarrow> xs ! i = None \<Longrightarrow> {c. Some c \<in> set (xs[i := Some d])} = insert d {c. Some c \<in> set xs}"
proof (induction xs arbitrary: i)
  case (Cons x xs)
  then show ?case using Cons.IH [of "i - 1"] by (cases i) auto
qed simp

lemma members_update_remove:
  "slots_ok xs \<Longrightarrow> i < length xs \<Longrightarrow> xs ! i = Some d \<Longrightarrow> {c. Some c \<in> set (xs[i := None])} = {c. Some c \<in> set xs} - {d}"
proof (induction xs arbitrary: i)
  case (Cons x xs)
  note t = slots_ok_tl [OF Cons.prems(1)]
  show ?case
  proof (cases i)
    case 0
    with Cons.prems t show ?thesis by auto
  next
    case (Suc k)
    with Cons.prems t have "x \<noteq> Some d" by (metis length_Cons Suc_less_eq nth_Cons_Suc nth_mem option.distinct(1))
    with Cons.IH [of k] Cons.prems t Suc show ?thesis by auto
  qed
qed simp

interpretation tcp_table: conn_table cap tr_add tr_remove tr_members "tr_inv cap" for cap
proof unfold_locales
  fix s :: "'a tcp_registry" and c :: 'a
  assume i: "tr_inv cap s"
  then have k: "finite (tr_members s)" "card (tr_members s) = slots_used (tr_connections s)"
    "slots_used (tr_connections s) \<le> cap"
    using slots_card [of "tr_connections s"] slots_used_le [of "tr_connections s"]
    by (auto simp: tr_inv_def tr_members_def)
  then show "finite (tr_members s) \<and> card (tr_members s) \<le> cap" by simp
  show "fst (tr_add c s) \<longleftrightarrow> c \<in> tr_members s \<or> card (tr_members s) < cap"
  proof (rule tr_add_cases [OF i, of c])
    fix j assume j: "c \<notin> tr_members s" "j < cap" "tr_connections s ! j = None" and e:
      "tr_add c s = (True, s\<lparr>tr_connections := (tr_connections s)[j := Some c], tr_count := tr_count s + 1\<rparr>)"
    have "\<not> (\<forall>e \<in> set (tr_connections s). e \<noteq> None)" using i j by (auto simp: tr_inv_def) (metis nth_mem)
    then have "card (tr_members s) < cap" using i k slots_full [of "tr_connections s"] by (auto simp: tr_inv_def)
    with e show ?thesis by simp
  qed (use k in auto)
  show "tr_members (snd (tr_add c s)) = (if fst (tr_add c s) then insert c (tr_members s) else tr_members s)"
    by (rule tr_add_cases [OF i, of c]) (use i in \<open>auto simp: tr_members_def tr_inv_def members_update_insert\<close>)
  show "tr_inv cap (snd (tr_add c s))"
  proof (rule tr_add_cases [OF i, of c])
    fix j assume j: "c \<notin> tr_members s" "j < cap" "tr_connections s ! j = None" and e:
      "tr_add c s = (True, s\<lparr>tr_connections := (tr_connections s)[j := Some c], tr_count := tr_count s + 1\<rparr>)"
    with i slots_used_update [of j "tr_connections s" "Some c"] show ?thesis
      by (auto simp: tr_inv_def tr_members_def intro: slots_ok_update)
  qed (use i in auto)
  show "fst (tr_remove c s) \<longleftrightarrow> c \<in> tr_members s" by (rule tr_remove_cases [OF i, of c]) auto
  show "tr_members (snd (tr_remove c s)) = tr_members s - {c}"
    by (rule tr_remove_cases [OF i, of c]) (use i in \<open>auto simp: tr_members_def tr_inv_def members_update_remove\<close>)
  show "tr_inv cap (snd (tr_remove c s))"
  proof (rule tr_remove_cases [OF i, of c])
    fix j assume j: "j < cap" "tr_connections s ! j = Some c" and e:
      "tr_remove c s = (True, s\<lparr>tr_connections := (tr_connections s)[j := None], tr_count := tr_count s - 1\<rparr>)"
    with i slots_used_update [of j "tr_connections s" None] show ?thesis
      by (auto simp: tr_inv_def intro: slots_ok_update)
  qed (use i in auto)
qed


lemma list_update_nth: "xs ! k = x \<Longrightarrow> xs[k := x] = xs"
  by auto

lemma tr_prune_prefix:
  fixes cs :: "'c \<Rightarrow> conn"
  assumes "tr_inv cap s" "k \<le> cap"
  defines "keep \<equiv> \<lambda>e. case e of Some c \<Rightarrow> if cn_valid (cs c) then e else None | None \<Rightarrow> None"
  shows "tr_connections (foldl (tr_prune_step cs) s [0..<k]) =
           map keep (take k (tr_connections s)) @ drop k (tr_connections s) \<and>
         tr_inv cap (foldl (tr_prune_step cs) s [0..<k])"
  using assms(2)
proof (induction k)
  case 0
  then show ?case using assms(1) by simp
next
  case (Suc k)
  let ?s = "foldl (tr_prune_step cs) s [0..<k]" and ?xs = "tr_connections s"
  have len: "length ?xs = cap" using assms(1) by (simp add: tr_inv_def)
  have IH: "tr_connections ?s = map keep (take k ?xs) @ drop k ?xs" "tr_inv cap ?s" using Suc by auto
  have k: "tr_connections ?s ! k = ?xs ! k" "k < length (tr_connections ?s)"
    using Suc.prems len IH(1) by (auto simp: nth_append)
  have upd: "map keep (take (Suc k) ?xs) @ drop (Suc k) ?xs = (tr_connections ?s)[k := keep (?xs ! k)]"
    using Suc.prems len IH(1)
    by (simp add: take_Suc_conv_app_nth list_update_append Cons_nth_drop_Suc [symmetric])
  have "tr_connections (tr_prune_step cs ?s k) = (tr_connections ?s)[k := keep (?xs ! k)]"
    using k by (auto simp: tr_prune_step_def keep_def list_update_nth split: option.split)
  moreover have "tr_inv cap (tr_prune_step cs ?s k)"
    using IH(2) k slots_used_update [of k "tr_connections ?s" None]
    by (auto simp: tr_prune_step_def tr_inv_def split: option.split intro: slots_ok_update)
  ultimately show ?case using upd by simp
qed

lemma tr_prune_members:
  assumes "tr_inv cap s"
  shows "tr_members (tr_prune_invalid cs s) = {c \<in> tr_members s. cn_valid (cs c)} \<and> tr_inv cap (tr_prune_invalid cs s)"
proof -
  have "length (tr_connections s) = cap" using assms by (simp add: tr_inv_def)
  with tr_prune_prefix [OF assms, of cap cs] show ?thesis
    by (auto simp: tr_prune_invalid_def tr_members_def image_iff split: option.splits if_splits)
qed

section \<open>The connection registry of the Signal K server\<close>

record connection_flags =
  cf_allow_rx :: bool
  cf_allow_tx :: bool

record stream_delivery_state =
  ds_resync_position :: u16
  ds_resync_value :: u16
  ds_resync :: bool
  ds_resync_again :: bool
  ds_include_other_contexts :: bool
  ds_last_output_bytes :: u32
  ds_queued_since_sample :: u32
  ds_last_drain_ms :: u32

definition stream_delivery_init :: stream_delivery_state where
  "stream_delivery_init = \<lparr>ds_resync_position = 0, ds_resync_value = 0, ds_resync = False,
     ds_resync_again = False, ds_include_other_contexts = True, ds_last_output_bytes = 0,
     ds_queued_since_sample = 0, ds_last_drain_ms = 0\<rparr>"

definition stream_output_progressed :: "u32 \<Rightarrow> u32 \<Rightarrow> u32 \<Rightarrow> bool" where
  "stream_output_progressed queued_now queued_at_sample queued_since_sample \<longleftrightarrow>
     queued_now = 0 \<or> (ucast queued_now :: u64) < ucast queued_at_sample + ucast queued_since_sample"

record 'c registry_entry =
  en_connection :: "'c option"
  en_flags :: connection_flags
  en_stream :: stream_delivery_state

definition registry_entry_init :: "'c registry_entry" where
  "registry_entry_init = \<lparr>en_connection = None, en_flags = \<lparr>cf_allow_rx = True, cf_allow_tx = True\<rparr>,
     en_stream = stream_delivery_init\<rparr>"

record 'c connection_registry =
  cr_entries :: "'c registry_entry list"
  cr_count :: nat

definition cr_init :: "nat \<Rightarrow> 'c connection_registry" where
  "cr_init cap = \<lparr>cr_entries = replicate cap registry_entry_init, cr_count = 0\<rparr>"

definition cr_index_of :: "'c \<Rightarrow> 'c connection_registry \<Rightarrow> nat option" where
  "cr_index_of c s = index_where (\<lambda>e. en_connection e = Some c) (cr_entries s)"

definition cr_add :: "connection_flags \<Rightarrow> 'c \<Rightarrow> 'c connection_registry \<Rightarrow> bool \<times> 'c connection_registry" where
  "cr_add flags c s =
     (case cr_index_of c s of
        Some i \<Rightarrow> (True, s\<lparr>cr_entries := (cr_entries s)[i := (cr_entries s ! i)\<lparr>en_flags := flags\<rparr>]\<rparr>)
      | None \<Rightarrow>
          (case index_where (\<lambda>e. en_connection e = None) (cr_entries s) of
             Some i \<Rightarrow> (True, s\<lparr>cr_entries := (cr_entries s)[i := registry_entry_init
                                  \<lparr>en_connection := Some c, en_flags := flags\<rparr>],
                               cr_count := cr_count s + 1\<rparr>)
           | None \<Rightarrow> (False, s)))"

definition cr_remove :: "'c \<Rightarrow> 'c connection_registry \<Rightarrow> bool \<times> 'c connection_registry" where
  "cr_remove c s =
     (case cr_index_of c s of
        None \<Rightarrow> (False, s)
      | Some i \<Rightarrow> (True, s\<lparr>cr_entries := (cr_entries s)[i := registry_entry_init],
                          cr_count := (if 0 < cr_count s then cr_count s - 1 else cr_count s)\<rparr>))"

definition cr_allow_rx :: "'c \<Rightarrow> 'c connection_registry \<Rightarrow> bool" where
  "cr_allow_rx c s = (case cr_index_of c s of Some i \<Rightarrow> cf_allow_rx (en_flags (cr_entries s ! i)) | None \<Rightarrow> False)"

definition cr_allow_tx :: "'c \<Rightarrow> 'c connection_registry \<Rightarrow> bool" where
  "cr_allow_tx c s = (case cr_index_of c s of Some i \<Rightarrow> cf_allow_tx (en_flags (cr_entries s ! i)) | None \<Rightarrow> False)"

definition cr_set_allow_tx :: "'c \<Rightarrow> bool \<Rightarrow> 'c connection_registry \<Rightarrow> bool \<times> 'c connection_registry" where
  "cr_set_allow_tx c allow s =
     (case cr_index_of c s of
        None \<Rightarrow> (False, s)
      | Some i \<Rightarrow> (True, s\<lparr>cr_entries := (cr_entries s)[i := (cr_entries s ! i)
                            \<lparr>en_flags := (en_flags (cr_entries s ! i))\<lparr>cf_allow_tx := allow\<rparr>\<rparr>]\<rparr>))"

definition cr_stream_state :: "'c \<Rightarrow> 'c connection_registry \<Rightarrow> stream_delivery_state option" where
  "cr_stream_state c s = map_option (\<lambda>i. en_stream (cr_entries s ! i)) (cr_index_of c s)"

definition cr_for_each_tx :: "('c \<Rightarrow> conn) \<Rightarrow> 'c connection_registry \<Rightarrow> 'c list" where
  "cr_for_each_tx cs s = List.map_filter (\<lambda>e. case en_connection e of
      Some c \<Rightarrow> if cn_valid (cs c) \<and> cf_allow_tx (en_flags e) then Some c else None | None \<Rightarrow> None) (cr_entries s)"

text \<open>The table of connections under the entries.\<close>

definition cr_table :: "'c connection_registry \<Rightarrow> 'c tcp_registry" where
  "cr_table s = \<lparr>tr_connections = map en_connection (cr_entries s), tr_count = cr_count s\<rparr>"

definition cr_inv :: "nat \<Rightarrow> 'c connection_registry \<Rightarrow> bool" where
  "cr_inv cap s \<longleftrightarrow> tr_inv cap (cr_table s)"

definition cr_members :: "'c connection_registry \<Rightarrow> 'c set" where
  "cr_members s = tr_members (cr_table s)"

lemma index_where_map: "index_where p (map f xs) = index_where (\<lambda>x. p (f x)) xs"
  by (induction xs) auto

lemma cr_index_table: "cr_index_of c s = tr_index_of c (cr_table s)"
  by (simp add: cr_index_of_def tr_index_of_def cr_table_def index_where_map)

lemma cr_add_table: "fst (cr_add flags c s) = fst (tr_add c (cr_table s)) \<and>
  cr_table (snd (cr_add flags c s)) = snd (tr_add c (cr_table s))"
proof (cases "cr_index_of c s")
  case (Some i)
  then have "tr_add c (cr_table s) = (True, cr_table s)" by (simp add: tr_add_def cr_index_table)
  moreover have "cr_table (s\<lparr>cr_entries := (cr_entries s)[i := (cr_entries s ! i)\<lparr>en_flags := flags\<rparr>]\<rparr>) = cr_table s"
    by (cases "i < length (cr_entries s)") (simp_all add: cr_table_def map_update list_update_nth list_update_beyond)
  ultimately show ?thesis using Some by (simp add: cr_add_def)
next
  case None
  have "index_where (\<lambda>e. e = None) (tr_connections (cr_table s)) =
      index_where (\<lambda>e. en_connection e = None) (cr_entries s)"
    by (simp add: cr_table_def index_where_map)
  with None show ?thesis
    unfolding cr_add_def tr_add_def cr_index_table by (auto simp: cr_table_def map_update split: option.split)
qed

lemma cr_remove_table: "fst (cr_remove c s) = fst (tr_remove c (cr_table s)) \<and>
  cr_table (snd (cr_remove c s)) = snd (tr_remove c (cr_table s))"
proof (cases "cr_index_of c s")
  case (Some i)
  then have "tr_index_of c (cr_table s) = Some i" by (simp add: cr_index_table)
  with Some show ?thesis
    by (simp add: cr_remove_def tr_remove_def) (simp add: cr_table_def map_update registry_entry_init_def)
next
  case None
  then have "tr_index_of c (cr_table s) = None" by (simp add: cr_index_table)
  with None show ?thesis by (simp add: cr_remove_def tr_remove_def)
qed

interpretation registry_table: conn_table cap "cr_add flags" cr_remove cr_members "cr_inv cap" for cap flags
proof unfold_locales
  fix s :: "'a connection_registry" and c :: 'a
  assume "cr_inv cap s"
  then have i: "tr_inv cap (cr_table s)" by (simp add: cr_inv_def)
  note a = cr_add_table [of flags c s] and r = cr_remove_table [of c s]
  show "finite (cr_members s) \<and> card (cr_members s) \<le> cap"
    using tcp_table.finite_members [OF i] by (simp add: cr_members_def)
  show "fst (cr_add flags c s) \<longleftrightarrow> c \<in> cr_members s \<or> card (cr_members s) < cap"
    using tcp_table.add_ok [OF i] a by (simp add: cr_members_def)
  show "cr_members (snd (cr_add flags c s)) =
      (if fst (cr_add flags c s) then insert c (cr_members s) else cr_members s)"
    using tcp_table.add_members [OF i, of c] a by (simp add: cr_members_def)
  show "cr_inv cap (snd (cr_add flags c s))" using tcp_table.add_inv [OF i] a by (simp add: cr_inv_def)
  show "fst (cr_remove c s) \<longleftrightarrow> c \<in> cr_members s"
    using tcp_table.remove_ok [OF i] r by (simp add: cr_members_def)
  show "cr_members (snd (cr_remove c s)) = cr_members s - {c}"
    using tcp_table.remove_members [OF i] r by (simp add: cr_members_def)
  show "cr_inv cap (snd (cr_remove c s))" using tcp_table.remove_inv [OF i] r by (simp add: cr_inv_def)
qed


section \<open>The line server\<close>

record 'c line_slot =
  ls_connection :: "'c option"
  ls_monitor :: monitor
  ls_reader :: line_reader

text \<open>
  The calls of the handler. Its default \<open>on_too_many_connections\<close> closes the connection; the other
  callbacks are taken to leave the connections and the slots alone.
\<close>

datatype 'c line_event =
    LeAccept 'c
  | LeLine 'c string
  | LeClose 'c
  | LeError 'c int
  | LeTooMany 'c
  | LeBackpressure 'c backpressure_info

record 'c line_server =
  lv_options :: backpressure_options
  lv_slots :: "'c line_slot list"
  lv_conns :: "'c \<Rightarrow> conn"

definition lv_init :: "nat \<Rightarrow> backpressure_options \<Rightarrow> ('c \<Rightarrow> conn) \<Rightarrow> 'c line_server" where
  "lv_init cap options cs = \<lparr>lv_options = options,
     lv_slots = replicate cap \<lparr>ls_connection = None, ls_monitor = mo_configure options (mo_init backpressure_disabled),
                              ls_reader = lr_init\<rparr>,
     lv_conns = cs\<rparr>"

definition lv_find :: "'c \<Rightarrow> 'c line_server \<Rightarrow> nat option" where
  "lv_find c sv = index_where (\<lambda>sl. ls_connection sl = Some c) (lv_slots sv)"

definition lv_update_slot :: "nat \<Rightarrow> ('c line_slot \<Rightarrow> 'c line_slot) \<Rightarrow> 'c line_server \<Rightarrow> 'c line_server" where
  "lv_update_slot i f sv = sv\<lparr>lv_slots := (lv_slots sv)[i := f (lv_slots sv ! i)]\<rparr>"

definition lv_acquire :: "'c \<Rightarrow> 'c line_server \<Rightarrow> nat option \<times> 'c line_server" where
  "lv_acquire c sv =
     (case lv_find c sv of
        Some i \<Rightarrow> (Some i, sv)
      | None \<Rightarrow>
          (case index_where (\<lambda>sl. ls_connection sl = None) (lv_slots sv) of
             Some i \<Rightarrow> (Some i, lv_update_slot i (\<lambda>sl. sl\<lparr>ls_connection := Some c,
                                                        ls_monitor := mo_reset (ls_monitor sl)\<rparr>) sv)
           | None \<Rightarrow> (None, sv)))"

definition lv_release :: "'c \<Rightarrow> 'c line_server \<Rightarrow> 'c line_server" where
  "lv_release c sv =
     (case lv_find c sv of
        Some i \<Rightarrow> lv_update_slot i (\<lambda>sl. sl\<lparr>ls_monitor := mo_reset (ls_monitor sl), ls_connection := None\<rparr>) sv
      | None \<Rightarrow> sv)"

definition lv_close_conn :: "'c \<Rightarrow> 'c line_server \<Rightarrow> 'c line_server" where
  "lv_close_conn c sv = sv\<lparr>lv_conns := (lv_conns sv)(c := conn_close (lv_conns sv c))\<rparr>"

definition lv_on_accept :: "'c \<Rightarrow> 'c line_server \<Rightarrow> 'c line_server \<times> 'c line_event list" where
  "lv_on_accept c sv =
     (case lv_acquire c sv of
        (None, sv1) \<Rightarrow> (lv_close_conn c sv1, [LeTooMany c])
      | (Some i, sv1) \<Rightarrow> (lv_update_slot i (\<lambda>sl. sl\<lparr>ls_monitor := mo_reset (ls_monitor sl)\<rparr>) sv1, [LeAccept c]))"

definition lv_check_backpressure :: "nat \<Rightarrow> 'c line_server \<Rightarrow> 'c line_server \<times> 'c line_event list" where
  "lv_check_backpressure i sv =
     (case ls_connection (lv_slots sv ! i) of
        None \<Rightarrow> (sv, [])
      | Some c \<Rightarrow>
          if \<not> cn_valid (lv_conns sv c) then (sv, [])
          else (let (hit, info, m) = mo_check (lv_conns sv c) (ls_monitor (lv_slots sv ! i));
                    sv1 = lv_update_slot i (\<lambda>sl. sl\<lparr>ls_monitor := m\<rparr>) sv
                in if \<not> hit then (sv1, [])
                   else (let sv2 = (if bo_close_on_limit (lv_options sv1) \<and> cn_valid (lv_conns sv1 c)
                                    then lv_close_conn c sv1 else sv1);
                             sv3 = (if \<not> cn_valid (lv_conns sv2 c)
                                    then lv_update_slot i (\<lambda>sl. sl\<lparr>ls_monitor := mo_reset (ls_monitor sl),
                                                                   ls_connection := None\<rparr>) sv2
                                    else sv2)
                         in (sv3, [LeBackpressure c info]))))"

definition lv_check_all_backpressure :: "'c line_server \<Rightarrow> 'c line_server \<times> 'c line_event list" where
  "lv_check_all_backpressure sv =
     foldl (\<lambda>(sv, es) i. let (sv', es') = lv_check_backpressure i sv in (sv', es @ es'))
       (sv, []) [0..<length (lv_slots sv)]"

text \<open>\<open>reader.poll\<close> on the stream of slot \<open>i\<close>; \<open>None\<close> would be a poll that does not return.\<close>

definition lv_poll :: "nat \<Rightarrow> nat \<Rightarrow> 'c line_server \<Rightarrow> ('c line_server \<times> 'c line_event list) option" where
  "lv_poll buffer_size i sv =
     (let sl = lv_slots sv ! i in
      case ls_connection sl of
        None \<Rightarrow> Some (sv, [])
      | Some c \<Rightarrow>
          map_option (\<lambda>(cn, r, ls).
              ((lv_update_slot i (\<lambda>sl. sl\<lparr>ls_reader := r\<rparr>) sv)\<lparr>lv_conns := (lv_conns sv)(c := cn)\<rparr>,
               map (LeLine c) (if cn_valid cn then ls else [])))
            (poll_loop conn_readable conn_read (lr_step buffer_size line_options_default) (lv_conns sv c) (ls_reader sl)))"

definition lv_on_data :: "nat \<Rightarrow> 'c \<Rightarrow> 'c line_server \<Rightarrow> ('c line_server \<times> 'c line_event list) option" where
  "lv_on_data buffer_size c sv =
     (case lv_acquire c sv of
        (None, sv1) \<Rightarrow> Some (lv_close_conn c sv1, [LeTooMany c])
      | (Some i, sv1) \<Rightarrow>
          map_option (\<lambda>(sv2, es). let (sv3, es') = lv_check_all_backpressure sv2 in (sv3, es @ es'))
            (lv_poll buffer_size i sv1))"

definition lv_on_write_ready :: "'c \<Rightarrow> 'c line_server \<Rightarrow> 'c line_server \<times> 'c line_event list" where
  "lv_on_write_ready c sv = (case lv_find c sv of Some i \<Rightarrow> lv_check_backpressure i sv | None \<Rightarrow> (sv, []))"

definition lv_on_close :: "'c \<Rightarrow> 'c line_server \<Rightarrow> 'c line_server \<times> 'c line_event list" where
  "lv_on_close c sv = (lv_release c sv, [LeClose c])"

definition lv_on_error :: "'c \<Rightarrow> int \<Rightarrow> 'c line_server \<Rightarrow> 'c line_server \<times> 'c line_event list" where
  "lv_on_error c error_code sv = (lv_release c sv, [LeError c error_code])"

definition lv_active_connections :: "'c line_server \<Rightarrow> nat" where
  "lv_active_connections sv = length (filter (\<lambda>sl. ls_connection sl \<noteq> None) (lv_slots sv))"

section \<open>The line client\<close>

record 'c line_client =
  lc_connection :: "'c option"
  lc_reader :: line_reader
  lc_conns :: "'c \<Rightarrow> conn"

definition lc_on_connect :: "'c \<Rightarrow> 'c line_client \<Rightarrow> 'c line_client" where
  "lc_on_connect c cl = cl\<lparr>lc_connection := Some c\<rparr>"

definition lc_on_data :: "nat \<Rightarrow> 'c line_client \<Rightarrow> ('c line_client \<times> string list) option" where
  "lc_on_data buffer_size cl =
     (case lc_connection cl of
        None \<Rightarrow> Some (cl, [])
      | Some c \<Rightarrow>
          map_option (\<lambda>(cn, r, ls). (cl\<lparr>lc_reader := r, lc_conns := (lc_conns cl)(c := cn)\<rparr>,
                                    if cn_valid cn then ls else []))
            (poll_loop conn_readable conn_read (lr_step buffer_size line_options_default) (lc_conns cl c) (lc_reader cl)))"

definition lc_on_close :: "'c line_client \<Rightarrow> 'c line_client" where
  "lc_on_close cl = cl\<lparr>lc_connection := None\<rparr>"

definition lc_on_error :: "'c line_client \<Rightarrow> 'c line_client" where
  "lc_on_error cl = cl\<lparr>lc_connection := None\<rparr>"


section \<open>Lines over connections\<close>

lemma conn_poll:
  assumes "cn_valid c"
  shows "\<exists>c'. poll_loop conn_readable conn_read step c r = Some (c', feed step r (cn_input c)) \<and>
    cn_valid c' \<and> cn_input c' = []"
  using conn_src.poll_loop_drains [OF assms, of step r] by blast

lemma conn_poll_invalid:
  assumes "\<not> cn_valid c"
  shows "poll_loop conn_readable conn_read step c r = Some (c, r, [])"
  using assms by (subst poll_loop.simps) (simp add: conn_readable_def)

lemma lc_on_data_feed:
  fixes n :: nat
  assumes "lc_connection cl = Some c" "cn_valid (lc_conns cl c)"
  defines "f \<equiv> feed (lr_step n line_options_default) (lc_reader cl) (cn_input (lc_conns cl c))"
  shows "\<exists>cn. lc_on_data n cl = Some (cl\<lparr>lc_reader := fst f, lc_conns := (lc_conns cl)(c := cn)\<rparr>, snd f)"
proof -
  obtain cn where "poll_loop conn_readable conn_read (lr_step n line_options_default) (lc_conns cl c) (lc_reader cl) =
      Some (cn, f)" "cn_valid cn"
    using conn_poll [OF assms(2), of "lr_step n line_options_default" "lc_reader cl"] by (auto simp: f_def)
  then show ?thesis using assms(1) by (intro exI [of _ cn]) (auto simp: lc_on_data_def split: prod.split)
qed

text \<open>A client that connects, reads what there is and is closed, once per connection of a list.\<close>

fun lc_sessions :: "nat \<Rightarrow> 'c list \<Rightarrow> 'c line_client \<Rightarrow> ('c line_client \<times> string list) option" where
  "lc_sessions n [] cl = Some (cl, [])"
| "lc_sessions n (c # cs) cl =
     Option.bind (lc_on_data n (lc_on_connect c cl))
       (\<lambda>(cl1, ls1). map_option (\<lambda>(cl2, ls2). (cl2, ls1 @ ls2)) (lc_sessions n cs (lc_on_close cl1)))"

lemma lc_sessions_feed:
  "distinct cs \<Longrightarrow> (\<And>c. c \<in> set cs \<Longrightarrow> cn_valid (lc_conns cl c)) \<Longrightarrow>
   \<exists>cl'. lc_sessions n cs cl = Some (cl', snd (feed (lr_step n line_options_default) (lc_reader cl)
     (concat (map (\<lambda>c. cn_input (lc_conns cl c)) cs))))"
proof (induction cs arbitrary: cl)
  case (Cons c cs)
  let ?cl = "lc_on_connect c cl"
  let ?f = "feed (lr_step n line_options_default) (lc_reader cl) (cn_input (lc_conns cl c))"
  have "lc_connection ?cl = Some c" "cn_valid (lc_conns ?cl c)"
    using Cons.prems(2) [of c] by (simp_all add: lc_on_connect_def)
  from lc_on_data_feed [OF this, of n] obtain cn where
    d: "lc_on_data n ?cl = Some (?cl\<lparr>lc_reader := fst ?f, lc_conns := (lc_conns ?cl)(c := cn)\<rparr>, snd ?f)"
    by (auto simp: lc_on_connect_def)
  let ?cl2 = "lc_on_close (?cl\<lparr>lc_reader := fst ?f, lc_conns := (lc_conns ?cl)(c := cn)\<rparr>)"
  have c2: "lc_conns ?cl2 = (lc_conns cl)(c := cn)" "lc_reader ?cl2 = fst ?f"
    by (simp_all add: lc_on_connect_def lc_on_close_def)
  have v: "\<And>x. x \<in> set cs \<Longrightarrow> cn_valid (lc_conns ?cl2 x)"
    using Cons.prems by (auto simp: c2)
  have e: "map (\<lambda>c. cn_input (lc_conns ?cl2 c)) cs = map (\<lambda>c. cn_input (lc_conns cl c)) cs"
    using Cons.prems(1) unfolding c2 by auto
  have "distinct cs" using Cons.prems(1) by simp
  from Cons.IH [OF this v] obtain cl' where "lc_sessions n cs ?cl2 =
      Some (cl', snd (feed (lr_step n line_options_default) (fst ?f)
        (concat (map (\<lambda>c. cn_input (lc_conns cl c)) cs))))"
    unfolding e c2(2) by blast
  with d show ?case by (simp add: feed_append split: prod.split)
qed simp

definition lv_quiet :: "'c line_server \<Rightarrow> bool" where
  "lv_quiet sv \<longleftrightarrow> (\<forall>sl \<in> set (lv_slots sv). \<not> bo_enabled (mo_options (ls_monitor sl)))"

lemma lv_quiet_check: "lv_quiet sv \<Longrightarrow> i < length (lv_slots sv) \<Longrightarrow> lv_check_backpressure i sv = (sv, [])"
  by (auto simp: lv_check_backpressure_def lv_quiet_def mo_check_def lv_update_slot_def list_update_nth
      split: option.split)

lemma lv_quiet_check_all: "lv_quiet sv \<Longrightarrow> lv_check_all_backpressure sv = (sv, [])"
proof -
  assume q: "lv_quiet sv"
  have "foldl (\<lambda>(sv, es) i. let (sv', es') = lv_check_backpressure i sv in (sv', es @ es')) (sv, []) [0..<k] = (sv, [])"
    if "k \<le> length (lv_slots sv)" for k
    using that by (induction k) (simp_all add: lv_quiet_check [OF q])
  then show ?thesis by (simp add: lv_check_all_backpressure_def)
qed

lemma lv_on_data_feed:
  fixes n :: nat
  assumes "lv_quiet sv" "lv_find c sv = Some i" "cn_valid (lv_conns sv c)"
  defines "f \<equiv> feed (lr_step n line_options_default) (ls_reader (lv_slots sv ! i)) (cn_input (lv_conns sv c))"
  shows "\<exists>cn. lv_on_data n c sv =
    Some ((lv_update_slot i (\<lambda>sl. sl\<lparr>ls_reader := fst f\<rparr>) sv)\<lparr>lv_conns := (lv_conns sv)(c := cn)\<rparr>, map (LeLine c) (snd f))"
proof -
  have i: "i < length (lv_slots sv)" "ls_connection (lv_slots sv ! i) = Some c"
    using assms(2) by (auto simp: lv_find_def dest: index_where_SomeD)
  obtain cn where cn: "poll_loop conn_readable conn_read (lr_step n line_options_default) (lv_conns sv c)
      (ls_reader (lv_slots sv ! i)) = Some (cn, f)" "cn_valid cn"
    using conn_poll [OF assms(3), of "lr_step n line_options_default" "ls_reader (lv_slots sv ! i)"]
    by (auto simp: f_def)
  let ?sv = "(lv_update_slot i (\<lambda>sl. sl\<lparr>ls_reader := fst f\<rparr>) sv)\<lparr>lv_conns := (lv_conns sv)(c := cn)\<rparr>"
  have "lv_quiet ?sv"
    using assms(1) i by (auto simp: lv_quiet_def lv_update_slot_def dest!: subsetD [OF set_update_subset_insert])
  then show ?thesis
    using assms(2) i cn lv_quiet_check_all [of ?sv]
    by (intro exI [of _ cn]) (auto simp: lv_on_data_def lv_acquire_def lv_poll_def Let_def split: prod.split)
qed


lemma lv_accept_free:
  assumes "lv_slots sv = sl # sls" "ls_connection sl = None" "\<forall>x \<in> set sls. ls_connection x = None" "lv_quiet sv"
    "sv' = fst (lv_on_accept c sv)"
  shows "lv_find c sv' = Some 0 \<and> lv_conns sv' = lv_conns sv \<and> ls_reader (lv_slots sv' ! 0) = ls_reader sl \<and>
    lv_quiet sv' \<and> tl (lv_slots sv') = sls \<and> lv_slots sv' \<noteq> [] \<and> ls_connection (lv_slots sv' ! 0) = Some c"
proof -
  have "index_where (\<lambda>x. ls_connection x = Some c) sls = None" using assms(3) by (auto simp: index_where_None)
  then show ?thesis
    using assms
    by (auto simp: lv_on_accept_def lv_acquire_def lv_find_def lv_update_slot_def lv_quiet_def mo_reset_def)
qed

lemma lv_close_first:
  assumes "lv_find c sv = Some 0" "lv_slots sv = sl # sls" "\<forall>x \<in> set sls. ls_connection x = None" "lv_quiet sv"
    "sv' = fst (lv_on_close c sv)"
  shows "\<exists>sl'. lv_slots sv' = sl' # sls \<and> ls_connection sl' = None \<and> ls_reader sl' = ls_reader sl \<and>
    lv_quiet sv' \<and> lv_conns sv' = lv_conns sv"
  using assms by (auto simp: lv_on_close_def lv_release_def lv_update_slot_def lv_quiet_def mo_reset_def)

section \<open>Properties\<close>

text \<open>
  while a client's queued output stays above the high mark, the backpressure monitor reports
  exactly once, at the configured number of polls (at least one); one poll at or below the low mark
  makes it start over.
\<close>

theorem backpressure_reports_once:
  assumes "bo_enabled options" "\<forall>p \<in> set ps. bo_high_water_bytes options < p"
    "bo_low_water_bytes options \<le> bo_high_water_bytes options" "low \<le> bo_low_water_bytes options"
    "mo_options m = options"
  shows "fst (mo_run (low # ps) m) = False # map (\<lambda>i. Suc i = mo_trigger options) [0..<length ps]"
proof -
  obtain b i m1 where c: "mo_check \<lparr>cn_valid = True, cn_input = [], cn_output_size = low\<rparr> m = (b, i, m1)"
    by (metis prod.exhaust)
  have "\<not> b" "mo_counted options 0 m1" using mo_check_low [OF assms(5,1,3,4)] c by auto
  with mo_run_over [OF assms(1,2), of 0 m1] c show ?thesis by (cases "mo_run ps m1") simp
qed

theorem backpressure_reports_once_witness:
  "fst (mo_run [0, 40000, 50000, 40000, 33000] (mo_init backpressure_server_default)) = [False, False, False, True, False]"
  using backpressure_reports_once [of backpressure_server_default "[40000, 50000, 40000, 33000]" 0
      "mo_init backpressure_server_default"]
  by (simp add: backpressure_server_default_def backpressure_disabled_def mo_init_def mo_trigger_def)

text \<open>
  the connection registry is a bounded set: an addition is refused only when the registry is
  full of other connections, a removed connection is gone and makes room for any other, the others
  stay, and the count is the number of members.
\<close>

theorem registry_is_bounded_set:
  assumes "cr_inv cap s"
  shows "(fst (cr_add flags c s) \<longleftrightarrow> c \<in> cr_members s \<or> card (cr_members s) < cap) \<and>
         cr_members (snd (cr_add flags c s)) = (if fst (cr_add flags c s) then insert c (cr_members s) else cr_members s) \<and>
         cr_members (snd (cr_remove c s)) = cr_members s - {c} \<and>
         (c \<in> cr_members s \<longrightarrow> fst (cr_add flags d (snd (cr_remove c s)))) \<and>
         cr_inv cap (snd (cr_add flags c s)) \<and> cr_inv cap (snd (cr_remove c s)) \<and>
         cr_count s = card (cr_members s)"
proof -
  have "cr_count s = card (cr_members s)"
    using assms slots_card [of "map en_connection (cr_entries s)"]
    by (simp add: cr_inv_def tr_inv_def cr_members_def tr_members_def cr_table_def)
  then show ?thesis
    using registry_table.add_ok [OF assms] registry_table.add_members [OF assms] registry_table.add_inv [OF assms]
      registry_table.remove_members [OF assms] registry_table.remove_inv [OF assms]
      registry_table.room_after_remove [OF assms] by blast
qed

lemma cr_init_inv [sk_inv]:
  "cr_inv cap (cr_init cap :: 'c connection_registry) \<and> cr_members (cr_init cap :: 'c connection_registry) = {}"
proof -
  have "cr_table (cr_init cap) = (tr_init cap :: 'c tcp_registry)"
    by (simp add: cr_table_def cr_init_def tr_init_def registry_entry_init_def)
  then show ?thesis using tr_init_inv [where 'c = 'c] by (simp add: cr_inv_def cr_members_def)
qed

theorem registry_is_bounded_set_witness:
  "cr_members (snd (cr_add \<lparr>cf_allow_rx = True, cf_allow_tx = False\<rparr> ''a'' (cr_init 2))) = {''a''}"
  using registry_is_bounded_set [OF conjunct1 [OF cr_init_inv [of 2]],
      of "\<lparr>cf_allow_rx = True, cf_allow_tx = False\<rparr>" "''a''"]
    conjunct2 [OF cr_init_inv [of 2, where 'c = string]] by simp

text \<open>
  pruning keeps exactly the valid connections of the TCP registry.
\<close>

theorem registry_prune:
  assumes "tr_inv cap s"
  shows "tr_members (tr_prune_invalid cs s) = {c \<in> tr_members s. cn_valid (cs c)} \<and> tr_inv cap (tr_prune_invalid cs s)"
  using tr_prune_members [OF assms] .

theorem registry_prune_witness:
  "tr_members (tr_prune_invalid (\<lambda>c. \<lparr>cn_valid = c = 1, cn_input = [], cn_output_size = 0\<rparr>)
     (snd (tr_add (2 :: int) (snd (tr_add 1 (tr_init 3)))))) = {1}"
proof -
  let ?s = "snd (tr_add (2 :: int) (snd (tr_add 1 (tr_init 3))))"
  have i: "tr_inv 3 ?s" using tr_init_inv [of 3, where 'c = int] by (intro tcp_table.add_inv) auto
  have "?s = \<lparr>tr_connections = [Some 1, Some 2, None], tr_count = 2\<rparr>"
    by (simp add: tr_add_def tr_init_def tr_index_of_def numeral_3_eq_3)
  then have "tr_members ?s = {1, 2}" by (auto simp: tr_members_def)
  with registry_prune [OF i] show ?thesis by auto
qed

text \<open>
  the line client keeps one reader over all its connections: over any sequence of sessions the
  lines it hands over are the lines of all the input read, taken as one stream. A partial line left
  by a connection that was closed is therefore completed by the first line of the next connection.
\<close>

theorem line_client_is_one_stream:
  assumes "distinct cs" "\<forall>c \<in> set cs. cn_valid (lc_conns cl c)"
  shows "\<exists>cl'. lc_sessions n cs cl = Some (cl', snd (feed (lr_step n line_options_default) (lc_reader cl)
     (concat (map (\<lambda>c. cn_input (lc_conns cl c)) cs))))"
  using lc_sessions_feed [OF assms(1)] assms(2) by blast

theorem line_client_is_one_stream_witness:
  "\<exists>cl'. lc_sessions 64 [1, 2 :: int] \<lparr>lc_connection = None, lc_reader = lr_init,
      lc_conns = (\<lambda>c. \<lparr>cn_valid = True, cn_input = (if c = 1 then octets ''$GP'' else octets (''$II'' @ [LF])),
                       cn_output_size = 0\<rparr>)\<rparr> = Some (cl', [''$GP$II''])"
proof -
  let ?cl = "\<lparr>lc_connection = None, lc_reader = lr_init, lc_conns = (\<lambda>c :: int. \<lparr>cn_valid = True,
      cn_input = (if c = 1 then octets ''$GP'' else octets (''$II'' @ [LF])), cn_output_size = 0\<rparr>)\<rparr>"
  have "snd (feed (lr_step 64 line_options_default) lr_init (octets (''$GP$II'' @ [lo_delimiter line_options_default]))) =
      [''$GP$II'']"
    using lr_feed_line [of lr_init line_options_default "''$GP$II''" 64]
    by (simp add: lr_init_def line_options_default_def line_content_def strip_line_def)
  then show ?thesis
    using line_client_is_one_stream [of "[1, 2]" ?cl 64] by (simp add: line_options_default_def)
qed


text \<open>
  C40: the line server does not reset the reader of a slot when a connection goes: octets that a
  closed connection left without a newline become the beginning of the first line that the server
  hands over for the next connection accepted into the slot.
\<close>

theorem line_server_slot_reuse:
  assumes "a \<noteq> b" "cn_valid (cs a)" "cn_valid (cs b)" "cn_input (cs a) = octets p" "LF \<notin> set p"
    and "cn_input (cs b) = octets (s @ [LF])" "LF \<notin> set s" "length (p @ s) \<le> n"
  shows "\<exists>sv2 sv5. lv_on_data n a (fst (lv_on_accept a (lv_init (Suc k) backpressure_disabled cs))) = Some (sv2, []) \<and>
    lv_on_data n b (fst (lv_on_accept b (fst (lv_on_close a sv2)))) =
      Some (sv5, [LeLine b (strip_line line_options_default (p @ s))])"
proof -
  let ?opt = "line_options_default"
  let ?sl = "\<lparr>ls_connection = None, ls_monitor = mo_configure backpressure_disabled (mo_init backpressure_disabled),
              ls_reader = lr_init\<rparr>"
  let ?sv0 = "lv_init (Suc k) backpressure_disabled cs"
  have s0: "lv_slots ?sv0 = ?sl # replicate k ?sl" "lv_quiet ?sv0" "lv_conns ?sv0 = cs"
    by (auto simp: lv_init_def lv_quiet_def mo_configure_def mo_reset_def backpressure_disabled_def)
  let ?sv1 = "fst (lv_on_accept a ?sv0)"
  have s1: "lv_find a ?sv1 = Some 0" "lv_conns ?sv1 = cs" "ls_reader (lv_slots ?sv1 ! 0) = lr_init" "lv_quiet ?sv1"
    "tl (lv_slots ?sv1) = replicate k ?sl" "lv_slots ?sv1 \<noteq> []"
    using lv_accept_free [OF s0(1) _ _ s0(2) refl, of a] s0(3) by auto
  let ?f1 = "feed (lr_step n ?opt) lr_init (octets p)"
  have f1: "snd ?f1 = []" "lr_buffer (fst ?f1) = line_content n ?opt p"
    using lr_feed_text [of lr_init n ?opt "[]" p] assms(5) by (auto simp: lr_init_def line_options_default_def)
  obtain cn where d1: "lv_on_data n a ?sv1 =
      Some ((lv_update_slot 0 (\<lambda>sl. sl\<lparr>ls_reader := fst ?f1\<rparr>) ?sv1)\<lparr>lv_conns := cs(a := cn)\<rparr>, [])"
    using lv_on_data_feed [OF s1(4,1), of n] s1 assms(2,4) f1(1) by auto
  let ?sv2 = "(lv_update_slot 0 (\<lambda>sl. sl\<lparr>ls_reader := fst ?f1\<rparr>) ?sv1)\<lparr>lv_conns := cs(a := cn)\<rparr>"
  obtain x xs where x: "lv_slots ?sv1 = x # xs" using s1(6) by (cases "lv_slots ?sv1") auto
  have s2: "lv_slots ?sv2 = x\<lparr>ls_reader := fst ?f1\<rparr> # replicate k ?sl" "lv_find a ?sv2 = Some 0" "lv_quiet ?sv2"
    using x s1 by (auto simp: lv_update_slot_def lv_find_def lv_quiet_def split: if_splits)
  obtain sl3 where s3: "lv_slots (fst (lv_on_close a ?sv2)) = sl3 # replicate k ?sl" "ls_connection sl3 = None"
    "ls_reader sl3 = fst ?f1" "lv_quiet (fst (lv_on_close a ?sv2))" "lv_conns (fst (lv_on_close a ?sv2)) = cs(a := cn)"
    using lv_close_first [OF s2(2,1) _ s2(3) refl] by (auto simp: lv_update_slot_def)
  let ?sv4 = "fst (lv_on_accept b (fst (lv_on_close a ?sv2)))"
  have s4: "lv_find b ?sv4 = Some 0" "lv_conns ?sv4 = cs(a := cn)" "ls_reader (lv_slots ?sv4 ! 0) = fst ?f1" "lv_quiet ?sv4"
    using lv_accept_free [OF s3(1,2) _ s3(4) refl, of b] s3(3,5) by auto
  have "snd (feed (lr_step n ?opt) (fst ?f1) (octets (s @ [LF]))) = [strip_line ?opt (p @ s)]"
  proof -
    obtain r2 ms2 where r2: "feed (lr_step n ?opt) (fst ?f1) (octets s) = (r2, ms2)" by fastforce
    with lr_feed_text [OF f1(2), of s] assms(7,8) have "ms2 = []" "lr_buffer r2 = p @ s"
      by (auto simp: line_options_default_def line_content_short)
    moreover have "octet_of LF = octet_of (lo_delimiter ?opt)" by (simp only: line_options_default_def line_options.select_convs)
    ultimately show ?thesis
      using r2 lr_step_delimiter [of n ?opt r2] by (auto simp: feed_append split: prod.split)
  qed
  then obtain cn2 where "lv_on_data n b ?sv4 = Some ((lv_update_slot 0 (\<lambda>sl. sl\<lparr>ls_reader :=
      fst (feed (lr_step n ?opt) (fst ?f1) (octets (s @ [LF])))\<rparr>) ?sv4)\<lparr>lv_conns := (lv_conns ?sv4)(b := cn2)\<rparr>,
      [LeLine b (strip_line ?opt (p @ s))])"
    using lv_on_data_feed [OF s4(4,1), of n] s4(2,3) assms(1,3,6) by auto
  with d1 show ?thesis by blast
qed

theorem line_server_slot_reuse_witness:
  "\<exists>sv2 sv5. lv_on_data 64 (1 :: int) (fst (lv_on_accept 1 (lv_init 2 backpressure_disabled
       (\<lambda>c. \<lparr>cn_valid = True, cn_input = (if c = 1 then octets ''$GP'' else octets (''$II'' @ [LF])), cn_output_size = 0\<rparr>)))) =
     Some (sv2, []) \<and>
    lv_on_data 64 2 (fst (lv_on_accept 2 (fst (lv_on_close 1 sv2)))) = Some (sv5, [LeLine 2 ''$GP$II''])"
  using line_server_slot_reuse [of 1 2 "\<lambda>c :: int. \<lparr>cn_valid = True,
      cn_input = (if c = 1 then octets ''$GP'' else octets (''$II'' @ [LF])), cn_output_size = 0\<rparr>"
      "''$GP''" "''$II''" 64 1]
  by (simp add: strip_line_def line_options_default_def numeral_2_eq_2)

end
