(* ===== verification/Websocket_Server.thy ===== *)
theory Websocket_Server
  imports Websocket Tcp
begin

text \<open>
  The WebSocket server handler (\<^verbatim>\<open>websocket_server.hpp\<close>): the slots of its connections, the handshake,
  the incremental frame decoder, control frames and the closing paths. What one slot does with its
  own connection is a function on a context: the slot, the connection object it points at, and the
  calls made on the application handler and on the connection so far. The application handler and
  the platform's \<open>write\<close> are parameters. A callback may change the validity and the queued output of
  the connection. The stream server's \<open>on_websocket_open\<close> (\<^verbatim>\<open>signalk_stream_server.hpp\<close>) closes the connection from inside the
  callback when it has no room for the client; such a close is taken as a step of its own after the callback (\<open>finish\<close>, \<open>abort\<close>),
  and the rest of the interrupted read, which finds the connection invalid, is not interleaved with it.
\<close>

unbundle bit_operations_syntax

section \<open>Slots, events and the environment\<close>

datatype ws_error =
  WeBadHandshake | WeUnsupportedVersion | WePayloadTooLarge | WeProtocolError | WeBackpressure | WeNoSlot | WeWriteFailed

datatype ws_state = WsEmpty | WsHandshaking | WsOpen | WsHttpClosing | WsHttpStreaming

datatype ws_event =
    EvOpen handshake_request
  | EvTextBegin
  | EvTextChunk "u8 list"
  | EvTextEnd
  | EvBinaryBegin
  | EvBinaryChunk "u8 list"
  | EvBinaryEnd
  | EvHttpRequest "u8 list"
  | EvHttpWriteReady
  | EvHttpClosed
  | EvClose
  | EvError ws_error
  | EvWrite "u8 list"
  | EvTcpClose

record 'c ws_slot =
  sl_connection :: "'c option"
  sl_state :: ws_state
  sl_http_hold :: bool
  sl_input :: "u8 list"
  sl_chunk :: "u8 list"
  sl_control :: "u8 list"
  sl_frame_active :: bool
  sl_frame_fin :: bool
  sl_frame_control :: bool
  sl_frame_opcode :: opcode
  sl_frame_remaining :: nat
  sl_frame_offset :: nat
  sl_frame_mask :: "u8 list"
  sl_message_active :: bool
  sl_message_opcode :: opcode
  sl_message_size :: nat
  sl_backpressure :: monitor

text \<open>
  The environment: whether the handler answers an HTTP request, whether it holds the response open,
  whether it accepts a WebSocket request, what a callback does to validity and queued output of the
  connection, the result and the effect of the platform's \<open>write\<close>, and whether its \<open>read\<close> reports an
  error.
\<close>

record ws_env =
  we_http_request :: "u8 list \<Rightarrow> bool \<times> bool"
  we_accept_websocket :: "handshake_request \<Rightarrow> bool"
  we_react :: "ws_event \<Rightarrow> bool \<times> nat \<Rightarrow> bool \<times> nat"
  we_write :: "u8 list \<Rightarrow> bool \<times> nat \<Rightarrow> int \<times> bool \<times> nat"
  we_read_error :: "conn \<Rightarrow> bool"

record ws_sizes =
  wz_handshake :: nat
  wz_chunk :: nat
  wz_message :: nat

record 'c ws_ctx =
  wx_slot :: "'c ws_slot"
  wx_conn :: conn
  wx_events :: "ws_event list"

definition ws_input_capacity :: "ws_sizes \<Rightarrow> nat" where
  "ws_input_capacity z = wz_handshake z + wz_chunk z + 16"

definition upd_slot :: "('c ws_slot \<Rightarrow> 'c ws_slot) \<Rightarrow> 'c ws_ctx \<Rightarrow> 'c ws_ctx" where
  "upd_slot f x = x\<lparr>wx_slot := f (wx_slot x)\<rparr>"

definition conn_set :: "bool \<times> nat \<Rightarrow> conn \<Rightarrow> conn" where
  "conn_set vo c = c\<lparr>cn_valid := fst vo, cn_output_size := snd vo\<rparr>"

definition ws_emit :: "ws_env \<Rightarrow> ws_event \<Rightarrow> 'c ws_ctx \<Rightarrow> 'c ws_ctx" where
  "ws_emit env e x = x\<lparr>wx_events := wx_events x @ [e],
     wx_conn := conn_set (we_react env e (cn_valid (wx_conn x), cn_output_size (wx_conn x))) (wx_conn x)\<rparr>"

definition ws_tcp_close :: "'c ws_ctx \<Rightarrow> 'c ws_ctx" where
  "ws_tcp_close x = x\<lparr>wx_events := wx_events x @ [EvTcpClose], wx_conn := conn_close (wx_conn x)\<rparr>"

definition reset_stream_state :: "'c ws_slot \<Rightarrow> 'c ws_slot" where
  "reset_stream_state s = s\<lparr>sl_http_hold := False, sl_input := [], sl_chunk := [], sl_control := [],
     sl_frame_active := False, sl_frame_fin := False, sl_frame_control := False,
     sl_frame_opcode := Op_Continuation, sl_frame_remaining := 0, sl_frame_offset := 0,
     sl_frame_mask := [0, 0, 0, 0], sl_message_active := False, sl_message_opcode := Op_Continuation,
     sl_message_size := 0\<rparr>"

definition ws_release :: "'c ws_slot \<Rightarrow> 'c ws_slot" where
  "ws_release s = (reset_stream_state (s\<lparr>sl_connection := None, sl_state := WsEmpty\<rparr>))
     \<lparr>sl_backpressure := mo_reset (sl_backpressure s)\<rparr>"

definition close_slot :: "ws_env \<Rightarrow> bool \<Rightarrow> 'c ws_ctx \<Rightarrow> 'c ws_ctx" where
  "close_slot env notify_close x =
     (if sl_connection (wx_slot x) = None then x
      else (let was_open = (sl_state (wx_slot x) = WsOpen);
                x1 = (if sl_state (wx_slot x) = WsHttpStreaming then ws_emit env EvHttpClosed x else x);
                x2 = upd_slot ws_release x1;
                x3 = (if notify_close \<and> was_open then ws_emit env EvClose x2 else x2)
            in ws_tcp_close x3))"

definition fail_and_close :: "ws_env \<Rightarrow> ws_error \<Rightarrow> 'c ws_ctx \<Rightarrow> 'c ws_ctx" where
  "fail_and_close env e x =
     (if sl_connection (wx_slot x) = None then x else close_slot env False (ws_emit env (EvError e) x))"

definition ws_write_all :: "ws_env \<Rightarrow> u8 list \<Rightarrow> 'c ws_ctx \<Rightarrow> bool \<times> 'c ws_ctx" where
  "ws_write_all env data x =
     (if data = [] \<or> \<not> cn_valid (wx_conn x) then (False, x)
      else (let (n, vo) = we_write env data (cn_valid (wx_conn x), cn_output_size (wx_conn x))
            in (n = int (length data),
                x\<lparr>wx_events := wx_events x @ [EvWrite data], wx_conn := conn_set vo (wx_conn x)\<rparr>)))"

definition ws_write_control :: "ws_env \<Rightarrow> opcode \<Rightarrow> u8 list \<Rightarrow> 'c ws_ctx \<Rightarrow> bool \<times> 'c ws_ctx" where
  "ws_write_control env opcode payload x =
     (case encode_control_frame opcode payload 128 of
        None \<Rightarrow> (False, x)
      | Some frame \<Rightarrow> ws_write_all env frame x)"

definition ws_consume :: "nat \<Rightarrow> 'c ws_ctx \<Rightarrow> 'c ws_ctx" where
  "ws_consume count = upd_slot (\<lambda>s. s\<lparr>sl_input := drop count (sl_input s)\<rparr>)"

definition protocol_failure :: "ws_env \<Rightarrow> 'c ws_ctx \<Rightarrow> bool \<times> 'c ws_ctx" where
  "protocol_failure env x = (False, fail_and_close env WeProtocolError x)"

section \<open>Frames of an open connection\<close>

definition flush_chunk :: "ws_env \<Rightarrow> 'c ws_ctx \<Rightarrow> bool \<times> 'c ws_ctx" where
  "flush_chunk env x =
     (let s = wx_slot x in
      if sl_chunk s = [] then (True, x)
      else (let x1 = ws_emit env (if sl_message_opcode s = Op_Text then EvTextChunk (sl_chunk s)
                                  else EvBinaryChunk (sl_chunk s)) x;
                x2 = upd_slot (\<lambda>s. s\<lparr>sl_chunk := []\<rparr>) x1
            in (sl_connection (wx_slot x2) \<noteq> None \<and> cn_valid (wx_conn x2), x2)))"

lemma flush_chunk_chunk: "sl_chunk (wx_slot (snd (flush_chunk env x))) = []"
  by (simp add: flush_chunk_def Let_def upd_slot_def ws_emit_def)

definition finish_frame :: "ws_env \<Rightarrow> 'c ws_ctx \<Rightarrow> bool \<times> 'c ws_ctx" where
  "finish_frame env x =
     (let s = wx_slot x; opcode = sl_frame_opcode s;
          x0 = upd_slot (\<lambda>s. s\<lparr>sl_frame_active := False\<rparr>) x in
      if sl_frame_control s then
        (if opcode = Op_Ping then
           (case ws_write_control env Op_Pong (sl_control s) x0 of
              (ok, x1) \<Rightarrow> if \<not> ok then (False, fail_and_close env WeWriteFailed x1) else (True, x1))
         else if opcode = Op_Pong then (True, x0)
         else if opcode = Op_Close then
           (case ws_write_control env Op_Close (sl_control s) x0 of (_, x1) \<Rightarrow> (False, close_slot env True x1))
         else protocol_failure env x0)
      else if sl_frame_fin s then
        (case flush_chunk env x0 of
           (ok, x1) \<Rightarrow>
             if \<not> ok then (False, x1)
             else (let x2 = ws_emit env (if sl_message_opcode (wx_slot x1) = Op_Text then EvTextEnd else EvBinaryEnd) x1
                   in (True, upd_slot (\<lambda>s. s\<lparr>sl_message_active := False, sl_message_opcode := Op_Continuation,
                                             sl_message_size := 0\<rparr>) x2)))
      else (True, x0))"

datatype header_result = HdrOk | HdrNeedMore | HdrProtocolError | HdrPayloadTooLarge

text \<open>The announced payload length and the offset of the mask, once the octets of both are there.\<close>

definition frame_length_field :: "u8 list \<Rightarrow> (nat \<times> nat) option" where
  "frame_length_field input =
     (let payload_len = unat (input ! 1 AND 0x7F) in
      if payload_len = 126 then
        (if length input < 4 then None else Some (unat (input ! 2) * 256 + unat (input ! 3), 4))
      else if payload_len = 127 then
        (if length input < 10 then None
         else Some (foldl (\<lambda>n b. n * 256 + unat b) 0 (take 8 (drop 2 input)), 10))
      else Some (payload_len, 2))"

text \<open>The message checks of the opcode; a text or binary opcode starts a message.\<close>

definition begin_message :: "ws_env \<Rightarrow> opcode \<Rightarrow> bool \<Rightarrow> nat \<Rightarrow> 'c ws_ctx \<Rightarrow> bool \<times> 'c ws_ctx" where
  "begin_message env opcode fin payload_len x =
     (let s = wx_slot x in
      if 8 \<le> opcode then
        (fin \<and> payload_len \<le> 125 \<and> (opcode = Op_Close \<or> opcode = Op_Ping \<or> opcode = Op_Pong), x)
      else if opcode = Op_Text \<or> opcode = Op_Binary then
        (if sl_message_active s then (False, x)
         else (True, ws_emit env (if opcode = Op_Text then EvTextBegin else EvBinaryBegin)
                 (upd_slot (\<lambda>s. s\<lparr>sl_message_active := True, sl_message_opcode := opcode, sl_message_size := 0,
                                  sl_chunk := []\<rparr>) x)))
      else if opcode = Op_Continuation then (sl_message_active s, x)
      else (False, x))"

text \<open>The header octets: \<open>HdrOk\<close> with the final bit, opcode, payload length and offset of the mask.\<close>

definition frame_header :: "u8 list \<Rightarrow> header_result \<times> bool \<times> opcode \<times> nat \<times> nat" where
  "frame_header input =
     (let none = (False, Op_Continuation, 0, 0) in
      if length input < 2 then (HdrNeedMore, none)
      else (let b0 = input ! 0; b1 = input ! 1 in
        if b0 AND 0x70 \<noteq> 0 \<or> b1 AND 0x80 = 0 then (HdrProtocolError, none)
        else (case frame_length_field input of
            None \<Rightarrow> (HdrNeedMore, none)
          | Some (payload_len, offset) \<Rightarrow>
              if length input < offset + 4 then (HdrNeedMore, none)
              else (HdrOk, b0 AND 0x80 \<noteq> 0, b0 AND 0x0F, payload_len, offset))))"

definition start_frame :: "ws_env \<Rightarrow> bool \<Rightarrow> opcode \<Rightarrow> nat \<Rightarrow> nat \<Rightarrow> 'c ws_ctx \<Rightarrow> header_result \<times> 'c ws_ctx" where
  "start_frame env fin opcode payload_len offset x =
     (let x1 = upd_slot (\<lambda>s. s\<lparr>sl_frame_mask := take 4 (drop offset (sl_input s))\<rparr>) x;
          x2 = upd_slot (\<lambda>s. s\<lparr>sl_frame_active := True, sl_frame_fin := fin, sl_frame_control := (8 \<le> opcode),
                               sl_frame_opcode := opcode, sl_frame_remaining := payload_len, sl_frame_offset := 0,
                               sl_control := []\<rparr>) (ws_consume (offset + 4) x1)
      in if payload_len = 0 then
           (case finish_frame env x2 of (ok, x3) \<Rightarrow> (if ok then HdrOk else HdrProtocolError, x3))
         else (HdrOk, x2))"

definition begin_frame :: "ws_env \<Rightarrow> ws_sizes \<Rightarrow> 'c ws_ctx \<Rightarrow> header_result \<times> 'c ws_ctx" where
  "begin_frame env z x =
     (case frame_header (sl_input (wx_slot x)) of
        (HdrOk, fin, opcode, payload_len, offset) \<Rightarrow>
          (case begin_message env opcode fin payload_len x of
             (ok, x1) \<Rightarrow>
               if \<not> ok then (HdrProtocolError, x1)
               else if opcode < 8 \<and> wz_message z - sl_message_size (wx_slot x1) < payload_len then (HdrPayloadTooLarge, x1)
               else start_frame env fin opcode payload_len offset x1)
      | (r, _) \<Rightarrow> (r, x))"

fun unmask_from :: "u8 list \<Rightarrow> nat \<Rightarrow> u8 list \<Rightarrow> u8 list" where
  "unmask_from key offset [] = []"
| "unmask_from key offset (b # bs) = (b XOR key ! (offset AND 3)) # unmask_from key (Suc offset) bs"

text \<open>
  The inner loop over the octets of a data frame, after unmasking. A full chunk is handed over at
  once. The static assertion of the class excludes a chunk size of zero, and the chunk never holds
  more than \<open>wz_chunk\<close> octets; outside that contract the function stops.
\<close>

function take_data :: "ws_env \<Rightarrow> ws_sizes \<Rightarrow> u8 list \<Rightarrow> 'c ws_ctx \<Rightarrow> bool \<times> 'c ws_ctx" where
  "take_data env z data x =
     (if wz_chunk z = 0 \<or> wz_chunk z < length (sl_chunk (wx_slot x)) then (False, x)
      else if data = [] then (True, x)
      else (let room = wz_chunk z - length (sl_chunk (wx_slot x));
                part = take room data;
                x1 = upd_slot (\<lambda>s. s\<lparr>sl_chunk := sl_chunk s @ part,
                                     sl_message_size := sl_message_size s + length part\<rparr>) x
            in if wz_message z < sl_message_size (wx_slot x1) then (False, fail_and_close env WePayloadTooLarge x1)
               else if length (sl_chunk (wx_slot x1)) = wz_chunk z then
                 (case flush_chunk env x1 of
                    (ok, x2) \<Rightarrow> if \<not> ok then (False, x2) else take_data env z (drop room data) x2)
               else take_data env z (drop room data) x1))"
  by pat_completeness auto

termination
proof (relation "measure (\<lambda>(env, z, data, x). 2 * length data +
    (if length (sl_chunk (wx_slot x)) = wz_chunk z then 1 else 0))", goal_cases)
  case (2 env z data x room part x1 ok x2)
  have "x2 = snd (flush_chunk env x1)" using 2 by (metis snd_conv)
  then have "sl_chunk (wx_slot x2) = []" by (simp add: flush_chunk_chunk)
  with 2 show ?case by (auto simp: upd_slot_def)
next
  case (3 env z data x room part x1)
  then have "0 < room" by (auto simp: upd_slot_def split: if_splits)
  moreover have "data \<noteq> []" using 3 by blast
  ultimately have "length (drop room data) < length data" by simp
  with 3 show ?case by (auto simp: upd_slot_def)
qed simp

text \<open>
  The loop of \<open>consume_frame_payload\<close> runs at most once: either the frame is complete and
  \<open>finish_frame\<close> returns, or all of the input was taken.
\<close>

definition take_payload :: "ws_env \<Rightarrow> ws_sizes \<Rightarrow> u8 list \<Rightarrow> 'c ws_ctx \<Rightarrow> bool \<times> 'c ws_ctx" where
  "take_payload env z data x =
     (if sl_frame_control (wx_slot x) then
        (if 125 < length (sl_control (wx_slot x)) + length data then protocol_failure env x
         else (True, upd_slot (\<lambda>s. s\<lparr>sl_control := sl_control s @ data\<rparr>) x))
      else take_data env z data x)"

definition advance_frame :: "nat \<Rightarrow> 'c ws_ctx \<Rightarrow> 'c ws_ctx" where
  "advance_frame tk x = upd_slot (\<lambda>s. s\<lparr>sl_frame_offset := sl_frame_offset s + tk,
     sl_frame_remaining := sl_frame_remaining s - tk\<rparr>) (ws_consume tk x)"

definition consume_frame_payload :: "ws_env \<Rightarrow> ws_sizes \<Rightarrow> 'c ws_ctx \<Rightarrow> bool \<times> 'c ws_ctx" where
  "consume_frame_payload env z x =
     (let s = wx_slot x in
      if sl_frame_active s \<and> sl_input s \<noteq> [] then
        (let tk = min (length (sl_input s)) (sl_frame_remaining s) in
         case take_payload env z (unmask_from (sl_frame_mask s) (sl_frame_offset s) (take tk (sl_input s))) x of
           (ok, x1) \<Rightarrow>
             if \<not> ok then (False, x1)
             else if sl_frame_remaining (wx_slot (advance_frame tk x1)) = 0 then finish_frame env (advance_frame tk x1)
             else (True, advance_frame tk x1))
      else (True, x))"

declare take_data.simps [simp del]

lemmas ws_defs = upd_slot_def ws_emit_def ws_tcp_close_def conn_set_def ws_consume_def
lemmas ws_close_defs = close_slot_def fail_and_close_def ws_release_def reset_stream_state_def protocol_failure_def Let_def

lemma close_slot_input [simp]:
  "sl_input (wx_slot (close_slot env b x)) = (if sl_connection (wx_slot x) = None then sl_input (wx_slot x) else [])"
  "sl_connection (wx_slot (close_slot env b x)) = None"
  "cn_input (wx_conn (close_slot env b x)) = cn_input (wx_conn x)"
  by (simp_all add: ws_close_defs ws_defs conn_close_def)

lemma fail_and_close_input [simp]:
  "sl_input (wx_slot (fail_and_close env e x)) = (if sl_connection (wx_slot x) = None then sl_input (wx_slot x) else [])"
  "sl_connection (wx_slot (fail_and_close env e x)) = None"
  "cn_input (wx_conn (fail_and_close env e x)) = cn_input (wx_conn x)"
  by (simp_all add: fail_and_close_def ws_defs)

lemma ws_write_slot [simp]:
  "wx_slot (snd (ws_write_all env d x)) = wx_slot x" "wx_slot (snd (ws_write_control env op p x)) = wx_slot x"
  "cn_input (wx_conn (snd (ws_write_all env d x))) = cn_input (wx_conn x)"
  "cn_input (wx_conn (snd (ws_write_control env op p x))) = cn_input (wx_conn x)"
  by (simp_all add: ws_write_control_def ws_write_all_def conn_set_def split: option.split prod.split)

lemma ws_write_all_eq:
  "ws_write_all env d x = (ok, x') \<Longrightarrow> wx_slot x' = wx_slot x \<and> cn_input (wx_conn x') = cn_input (wx_conn x)"
  using ws_write_slot(1,3) [of env d x] by simp

lemma flush_chunk_input [simp]:
  "sl_input (wx_slot (snd (flush_chunk env x))) = sl_input (wx_slot x)"
  "sl_connection (wx_slot (snd (flush_chunk env x))) = sl_connection (wx_slot x)"
  "cn_input (wx_conn (snd (flush_chunk env x))) = cn_input (wx_conn x)"
  by (simp_all add: flush_chunk_def Let_def ws_defs)

lemma finish_frame_input:
  "length (sl_input (wx_slot (snd (finish_frame env x)))) \<le> length (sl_input (wx_slot x)) \<and>
   cn_input (wx_conn (snd (finish_frame env x))) = cn_input (wx_conn x)"
proof -
  let ?x0 = "upd_slot (\<lambda>s. s\<lparr>sl_frame_active := False\<rparr>) x"
  obtain ok1 x1 where 1: "ws_write_control env Op_Pong (sl_control (wx_slot x)) ?x0 = (ok1, x1)" by fastforce
  obtain ok2 x2 where 2: "ws_write_control env Op_Close (sl_control (wx_slot x)) ?x0 = (ok2, x2)" by fastforce
  obtain ok3 x3 where 3: "flush_chunk env ?x0 = (ok3, x3)" by fastforce
  show ?thesis
    using ws_write_slot(2,4) [of env Op_Pong "sl_control (wx_slot x)" ?x0]
      ws_write_slot(2,4) [of env Op_Close "sl_control (wx_slot x)" ?x0] flush_chunk_input [of env ?x0]
    unfolding finish_frame_def Let_def 1 2 3
    by (auto simp: ws_defs protocol_failure_def)
qed

lemma begin_message_input [simp]:
  "sl_input (wx_slot (snd (begin_message env op fin n x))) = sl_input (wx_slot x)"
  "cn_input (wx_conn (snd (begin_message env op fin n x))) = cn_input (wx_conn x)"
  by (simp_all add: begin_message_def Let_def ws_defs)

lemma start_frame_input:
  assumes "start_frame env fin opcode n off x = (r, x1)"
  shows "length (sl_input (wx_slot x1)) \<le> length (sl_input (wx_slot x)) - (off + 4) \<and> cn_input (wx_conn x1) = cn_input (wx_conn x)"
proof -
  define x2 where "x2 = upd_slot (\<lambda>s. s\<lparr>sl_frame_active := True, sl_frame_fin := fin, sl_frame_control := (8 \<le> opcode),
    sl_frame_opcode := opcode, sl_frame_remaining := n, sl_frame_offset := 0, sl_control := []\<rparr>)
    (ws_consume (off + 4) (upd_slot (\<lambda>s. s\<lparr>sl_frame_mask := take 4 (drop off (sl_input s))\<rparr>) x))"
  have "sl_input (wx_slot x2) = drop (off + 4) (sl_input (wx_slot x))" "cn_input (wx_conn x2) = cn_input (wx_conn x)"
    by (simp_all add: x2_def ws_defs)
  then show ?thesis
    using assms [unfolded start_frame_def Let_def, folded x2_def] finish_frame_input [of env x2]
    by (auto split: if_splits prod.splits)
qed

lemma frame_header_ok:
  "frame_header input = (HdrOk, fin, opcode, n, off) \<Longrightarrow> off + 4 \<le> length input \<and> (off = 2 \<or> off = 4 \<or> off = 10)"
  by (auto simp: frame_header_def frame_length_field_def Let_def split: if_splits option.splits)

lemma begin_frame_input:
  assumes "begin_frame env z x = (r, x1)"
  shows "length (sl_input (wx_slot x1)) \<le> length (sl_input (wx_slot x)) \<and> cn_input (wx_conn x1) = cn_input (wx_conn x) \<and>
    (r = HdrOk \<longrightarrow> length (sl_input (wx_slot x1)) < length (sl_input (wx_slot x)))"
proof -
  obtain hr fin opcode n off where h: "frame_header (sl_input (wx_slot x)) = (hr, fin, opcode, n, off)"
    by (metis prod.exhaust)
  obtain ok x2 where bm: "begin_message env opcode fin n x = (ok, x2)" by fastforce
  have "sl_input (wx_slot x2) = sl_input (wx_slot x)" "cn_input (wx_conn x2) = cn_input (wx_conn x)"
    using begin_message_input [of env opcode fin n x] bm by simp_all
  with assms h bm frame_header_ok [of "sl_input (wx_slot x)" fin opcode n off] start_frame_input [of env fin opcode n off x2 r x1]
  show ?thesis by (cases hr) (auto simp: begin_frame_def split: if_splits)
qed

lemma take_data_input:
  "take_data env z data x = (ok, x') \<Longrightarrow>
   length (sl_input (wx_slot x')) \<le> length (sl_input (wx_slot x)) \<and> cn_input (wx_conn x') = cn_input (wx_conn x) \<and>
   (ok \<longrightarrow> sl_input (wx_slot x') = sl_input (wx_slot x) \<and> sl_connection (wx_slot x') = sl_connection (wx_slot x))"
proof (induction env z data x arbitrary: ok x' rule: take_data.induct)
  case (1 env z data x)
  define room where "room = wz_chunk z - length (sl_chunk (wx_slot x))"
  define x1 where "x1 = upd_slot (\<lambda>s. s\<lparr>sl_chunk := sl_chunk s @ take room data,
    sl_message_size := sl_message_size s + length (take room data)\<rparr>) x"
  obtain fk x2 where f: "flush_chunk env x1 = (fk, x2)" by fastforce
  have e1: "sl_input (wx_slot x1) = sl_input (wx_slot x)" "cn_input (wx_conn x1) = cn_input (wx_conn x)"
    "sl_connection (wx_slot x1) = sl_connection (wx_slot x)"
    by (simp_all add: x1_def ws_defs)
  have e2: "sl_input (wx_slot x2) = sl_input (wx_slot x)" "cn_input (wx_conn x2) = cn_input (wx_conn x)"
    "sl_connection (wx_slot x2) = sl_connection (wx_slot x)"
    using flush_chunk_input [of env x1] f e1 by simp_all
  note ih1 = 1(1) [OF _ _ room_def refl x1_def _ _ f [symmetric]]
  note ih2 = 1(2) [OF _ _ room_def refl x1_def]
  show ?case
    using 1(3) [unfolded take_data.simps [of env z data x] Let_def, folded room_def, folded x1_def, unfolded f prod.case]
      ih1 ih2 e1 e2
    by (auto split: if_splits)
qed

lemma take_payload_input:
  "take_payload env z data x = (ok, x') \<Longrightarrow>
   length (sl_input (wx_slot x')) \<le> length (sl_input (wx_slot x)) \<and> cn_input (wx_conn x') = cn_input (wx_conn x)"
  using take_data_input [of env z data x ok x']
  by (auto simp: take_payload_def protocol_failure_def ws_defs split: if_splits)

lemma advance_frame_input [simp]:
  "sl_input (wx_slot (advance_frame tk x)) = drop tk (sl_input (wx_slot x))"
  "cn_input (wx_conn (advance_frame tk x)) = cn_input (wx_conn x)"
  by (simp_all add: advance_frame_def ws_defs)

lemma consume_frame_payload_input:
  assumes "consume_frame_payload env z x = (ok, x')"
  shows "length (sl_input (wx_slot x')) \<le> length (sl_input (wx_slot x)) \<and> cn_input (wx_conn x') = cn_input (wx_conn x)"
proof -
  let ?s = "wx_slot x"
  define tk where "tk = min (length (sl_input ?s)) (sl_frame_remaining ?s)"
  obtain ok1 x1 where t: "take_payload env z (unmask_from (sl_frame_mask ?s) (sl_frame_offset ?s) (take tk (sl_input ?s))) x =
      (ok1, x1)" by fastforce
  have "length (sl_input (wx_slot (advance_frame tk x1))) \<le> length (sl_input (wx_slot x1))" by simp
  then show ?thesis
    using assms [unfolded consume_frame_payload_def Let_def, folded tk_def, unfolded t] take_payload_input [OF t]
      finish_frame_input [of env "advance_frame tk x1"]
    by (auto split: if_splits)
qed

function process_frames :: "ws_env \<Rightarrow> ws_sizes \<Rightarrow> 'c ws_ctx \<Rightarrow> bool \<times> 'c ws_ctx" where
  "process_frames env z x =
     (if sl_connection (wx_slot x) = None \<or> sl_input (wx_slot x) = [] then (sl_connection (wx_slot x) \<noteq> None, x)
      else (case (if sl_frame_active (wx_slot x) then (HdrOk, x) else begin_frame env z x) of
          (HdrNeedMore, x1) \<Rightarrow> (True, x1)
        | (HdrPayloadTooLarge, x1) \<Rightarrow> (False, fail_and_close env WePayloadTooLarge x1)
        | (HdrProtocolError, x1) \<Rightarrow> (False, fail_and_close env WeProtocolError x1)
        | (HdrOk, x1) \<Rightarrow>
            (case consume_frame_payload env z x1 of
               (ok, x2) \<Rightarrow> if \<not> ok then (False, x2)
                           else if sl_frame_active (wx_slot x2) then (True, x2)
                           else process_frames env z x2)))"
  by pat_completeness auto

termination
proof (relation "measure (\<lambda>(env, z, x). 2 * length (sl_input (wx_slot x)) + (if sl_frame_active (wx_slot x) then 1 else 0))",
    goal_cases)
  case (2 env z x h x1 ok x2)
  then show ?case
    using consume_frame_payload_input [of env z x1 ok x2] begin_frame_input [of env z x HdrOk x1]
    by (auto split: if_splits)
qed simp

declare process_frames.simps [simp del]

section \<open>Handshake, HTTP requests and the loop over the input\<close>

definition websocket_header_length :: "u8 list \<Rightarrow> nat" where
  "websocket_header_length data =
     (case find (\<lambda>i. data ! (i - 3) = 13 \<and> data ! (i - 2) = 10 \<and> data ! (i - 1) = 13 \<and> data ! i = 10) [3..<length data] of
        None \<Rightarrow> 0 | Some i \<Rightarrow> i + 1)"

definition try_close_drained_http :: "'c ws_ctx \<Rightarrow> 'c ws_ctx" where
  "try_close_drained_http x =
     (if sl_connection (wx_slot x) = None \<or> sl_state (wx_slot x) \<noteq> WsHttpClosing \<or> cn_output_size (wx_conn x) \<noteq> 0 then x
      else ws_tcp_close (upd_slot ws_release x))"

definition begin_http_close :: "'c ws_ctx \<Rightarrow> 'c ws_ctx" where
  "begin_http_close x =
     (if sl_connection (wx_slot x) = None then x
      else try_close_drained_http (upd_slot (\<lambda>s. s\<lparr>sl_state := WsHttpClosing\<rparr>) x))"

function drain_input :: "conn \<Rightarrow> conn" where
  "drain_input c =
     (if conn_readable c then
        (case conn_read 64 c of (bs, c') \<Rightarrow> if bs = [] then c' else drain_input c')
      else c)"
  by pat_completeness auto

termination
  by (relation "measure (\<lambda>c. length (cn_input c))") (auto simp: conn_read_def conn_readable_def)

declare drain_input.simps [simp del]

definition handshake_not_found :: string where
  "handshake_not_found = ''HTTP/1.1 404 Not Found'' @ [CR, LF] @ ''Content-Length: 0'' @ [CR, LF] @
     ''Connection: close'' @ [CR, LF, CR, LF]"

text \<open>A complete request that is no WebSocket upgrade: the handler may answer it as HTTP.\<close>

definition answer_http :: "ws_env \<Rightarrow> handshake_result \<Rightarrow> nat \<Rightarrow> 'c ws_ctx \<Rightarrow> bool \<times> 'c ws_ctx" where
  "answer_http env parsed header_len x =
     (let header = take header_len (sl_input (wx_slot x));
          (handled, held) = we_http_request env header;
          x1 = ws_emit env (EvHttpRequest header) x;
          x2 = (if held then upd_slot (\<lambda>s. s\<lparr>sl_http_hold := True\<rparr>) x1 else x1)
      in if handled then
           (let x3 = ws_consume header_len x2;
                x4 = (if sl_connection (wx_slot x3) \<noteq> None \<and> sl_http_hold (wx_slot x3)
                      then (upd_slot (\<lambda>s. s\<lparr>sl_state := WsHttpStreaming, sl_input := []\<rparr>) x3)
                             \<lparr>wx_conn := drain_input (wx_conn x3)\<rparr>
                      else begin_http_close x3)
            in (sl_connection (wx_slot x4) \<noteq> None, x4))
         else (False, fail_and_close env (if parsed = HsUnsupportedVersion then WeUnsupportedVersion else WeBadHandshake) x2))"

definition answer_websocket :: "ws_env \<Rightarrow> handshake_request \<Rightarrow> nat \<Rightarrow> 'c ws_ctx \<Rightarrow> bool \<times> 'c ws_ctx" where
  "answer_websocket env request header_len x =
     (if \<not> we_accept_websocket env request then
        (case ws_write_all env (octets handshake_not_found) x of
           (ok, x1) \<Rightarrow>
             if \<not> ok then (False, fail_and_close env WeWriteFailed x1)
             else (let x2 = begin_http_close (ws_consume header_len x1) in (sl_connection (wx_slot x2) \<noteq> None, x2)))
      else (let (written, response) = write_server_handshake_response (c_str (hr_key request)) 192;
                (ok, x1) = (if written = HsOk then ws_write_all env (octets response) x else (False, x))
            in if \<not> ok then (False, fail_and_close env WeWriteFailed x1)
               else (True, ws_consume header_len
                       (ws_emit env (EvOpen request) (upd_slot (\<lambda>s. s\<lparr>sl_state := WsOpen\<rparr>) x1)))))"

definition process_handshake :: "ws_env \<Rightarrow> ws_sizes \<Rightarrow> 'c ws_ctx \<Rightarrow> bool \<times> 'c ws_ctx" where
  "process_handshake env z x =
     (let header_len = websocket_header_length (sl_input (wx_slot x)) in
      if header_len = 0 then
        (let x1 = (if wz_handshake z \<le> length (sl_input (wx_slot x)) then fail_and_close env WeBadHandshake x else x)
         in (sl_connection (wx_slot x1) \<noteq> None, x1))
      else (case parse_client_handshake (map char_of_octet (take header_len (sl_input (wx_slot x)))) of
              (parsed, request) \<Rightarrow>
                if parsed \<noteq> HsOk then answer_http env parsed header_len x
                else answer_websocket env request header_len x))"

definition process_slot :: "ws_env \<Rightarrow> ws_sizes \<Rightarrow> 'c ws_ctx \<Rightarrow> bool \<times> 'c ws_ctx" where
  "process_slot env z x =
     (if sl_connection (wx_slot x) = None then (False, x)
      else (case (if sl_state (wx_slot x) = WsHandshaking then process_handshake env z x else (True, x)) of
              (ok, x1) \<Rightarrow>
                if \<not> ok then (False, x1)
                else if sl_connection (wx_slot x1) = None \<or> sl_state (wx_slot x1) \<noteq> WsOpen
                then (sl_connection (wx_slot x1) \<noteq> None, x1)
                else process_frames env z x1))"

lemma drain_input_input: "length (cn_input (drain_input c)) \<le> length (cn_input c)"
proof (induction c rule: drain_input.induct)
  case (1 c)
  then show ?case
    by (subst drain_input.simps) (auto simp: conn_read_def split: prod.split intro: le_trans)
qed

lemma process_frames_idle:
  "sl_connection (wx_slot x) = None \<or> sl_input (wx_slot x) = [] \<Longrightarrow>
   process_frames env z x = (sl_connection (wx_slot x) \<noteq> None, x)"
  by (subst process_frames.simps) simp

lemma process_frames_step:
  assumes "sl_connection (wx_slot x) \<noteq> None" "sl_input (wx_slot x) \<noteq> []"
    and "(if sl_frame_active (wx_slot x) then (HdrOk, x) else begin_frame env z x) = (r, x1)"
  shows "process_frames env z x = (case r of
      HdrNeedMore \<Rightarrow> (True, x1)
    | HdrPayloadTooLarge \<Rightarrow> (False, fail_and_close env WePayloadTooLarge x1)
    | HdrProtocolError \<Rightarrow> (False, fail_and_close env WeProtocolError x1)
    | HdrOk \<Rightarrow> (case consume_frame_payload env z x1 of
        (ok, x2) \<Rightarrow> if \<not> ok then (False, x2) else if sl_frame_active (wx_slot x2) then (True, x2) else process_frames env z x2))"
  using assms(1,2) by (subst process_frames.simps) (auto simp: assms(3) split: header_result.split)

lemma process_frames_rule:
  assumes "P x" and beg: "\<And>y. P y \<Longrightarrow> \<not> sl_frame_active (wx_slot y) \<Longrightarrow> sl_connection (wx_slot y) \<noteq> None \<Longrightarrow> P (snd (begin_frame env z y))"
    and con: "\<And>y. P y \<Longrightarrow> P (snd (consume_frame_payload env z y))"
    and cls: "\<And>y e. P y \<Longrightarrow> P (fail_and_close env e y)"
  shows "P (snd (process_frames env z x))"
  using assms
proof (induction env z x rule: process_frames.induct)
  case (1 env z x)
  show ?case
  proof (cases "sl_connection (wx_slot x) = None \<or> sl_input (wx_slot x) = []")
    case False
    obtain r x1 where b: "(if sl_frame_active (wx_slot x) then (HdrOk, x) else begin_frame env z x) = (r, x1)" by fastforce
    have p1: "P x1" using b 1(2) 1(3) [of x] False by (auto split: if_splits)
    obtain ck x2 where c: "consume_frame_payload env z x1 = (ck, x2)" by fastforce
    have p2: "P x2" using 1(4) [OF p1] c by simp
    show ?thesis
      using process_frames_step [OF _ _ b] p1 p2 1(1) [OF False, of r x1 ck x2] 1(3-5) b c False
      by (cases r) (auto split: if_splits)
  qed (use 1(2) in \<open>simp add: process_frames_idle\<close>)
qed

lemma process_frames_input:
  "length (sl_input (wx_slot (snd (process_frames env z x)))) \<le> length (sl_input (wx_slot x)) \<and>
   cn_input (wx_conn (snd (process_frames env z x))) = cn_input (wx_conn x)"
proof (rule process_frames_rule [where P = "\<lambda>y. length (sl_input (wx_slot y)) \<le> length (sl_input (wx_slot x)) \<and>
    cn_input (wx_conn y) = cn_input (wx_conn x)"], goal_cases)
  case (2 y)
  then show ?case
    using begin_frame_input [of env z y "fst (begin_frame env z y)" "snd (begin_frame env z y)"] by auto
next
  case (3 y)
  then show ?case
    using consume_frame_payload_input [of env z y "fst (consume_frame_payload env z y)" "snd (consume_frame_payload env z y)"]
    by auto
qed auto

lemma begin_http_close_input:
  "length (sl_input (wx_slot (begin_http_close x))) \<le> length (sl_input (wx_slot x))"
  "cn_input (wx_conn (begin_http_close x)) = cn_input (wx_conn x)"
  by (simp_all add: begin_http_close_def try_close_drained_http_def ws_defs ws_close_defs conn_close_def)

lemma answer_http_input:
  "length (sl_input (wx_slot (snd (answer_http env r n x)))) \<le> length (sl_input (wx_slot x)) \<and>
   length (cn_input (wx_conn (snd (answer_http env r n x)))) \<le> length (cn_input (wx_conn x))"
proof -
  obtain handled held where h: "we_http_request env (take n (sl_input (wx_slot x))) = (handled, held)" by fastforce
  define x2 where "x2 = (if held then upd_slot (\<lambda>s. s\<lparr>sl_http_hold := True\<rparr>) (ws_emit env (EvHttpRequest (take n (sl_input (wx_slot x)))) x)
    else ws_emit env (EvHttpRequest (take n (sl_input (wx_slot x)))) x)"
  have 2: "sl_input (wx_slot x2) = sl_input (wx_slot x)" "cn_input (wx_conn x2) = cn_input (wx_conn x)"
    by (simp_all add: x2_def ws_defs)
  have 3: "length (sl_input (wx_slot (ws_consume n x2))) \<le> length (sl_input (wx_slot x))"
    "cn_input (wx_conn (ws_consume n x2)) = cn_input (wx_conn x)"
    using 2 by (simp_all add: ws_consume_def upd_slot_def)
  show ?thesis
    unfolding answer_http_def Let_def h prod.case x2_def [symmetric]
    using 2 3 drain_input_input [of "wx_conn (ws_consume n x2)"] begin_http_close_input [of "ws_consume n x2"]
    by (auto simp: upd_slot_def intro: le_trans)
qed

lemma answer_websocket_input:
  "length (sl_input (wx_slot (snd (answer_websocket env req n x)))) \<le> length (sl_input (wx_slot x)) \<and>
   cn_input (wx_conn (snd (answer_websocket env req n x))) = cn_input (wx_conn x)"
proof -
  obtain ok1 x1 where 1: "ws_write_all env (octets handshake_not_found) x = (ok1, x1)" by fastforce
  obtain w resp where r: "write_server_handshake_response (c_str (hr_key req)) 192 = (w, resp)" by fastforce
  obtain ok2 x2 where 2: "(if w = HsOk then ws_write_all env (octets resp) x else (False, x)) = (ok2, x2)" by fastforce
  have e: "sl_input (wx_slot x1) = sl_input (wx_slot x)" "cn_input (wx_conn x1) = cn_input (wx_conn x)"
    "sl_input (wx_slot x2) = sl_input (wx_slot x)" "cn_input (wx_conn x2) = cn_input (wx_conn x)"
    using ws_write_all_eq [OF 1] ws_write_all_eq [of env "octets resp" x ok2 x2] 2 by (auto split: if_splits)
  have "length (sl_input (wx_slot (ws_consume n x1))) \<le> length (sl_input (wx_slot x))"
    "cn_input (wx_conn (ws_consume n x1)) = cn_input (wx_conn x)"
    using e by (simp_all add: ws_defs)
  then show ?thesis
    unfolding answer_websocket_def Let_def 1 r prod.case 2
    using e begin_http_close_input [of "ws_consume n x1"]
    by (auto simp: ws_defs intro: le_trans)
qed

lemma process_slot_input:
  assumes "process_slot env z x = (ok, x')"
  shows "length (sl_input (wx_slot x')) \<le> length (sl_input (wx_slot x)) \<and>
    length (cn_input (wx_conn x')) \<le> length (cn_input (wx_conn x))"
proof -
  have h: "length (sl_input (wx_slot (snd (process_handshake env z x)))) \<le> length (sl_input (wx_slot x)) \<and>
      length (cn_input (wx_conn (snd (process_handshake env z x)))) \<le> length (cn_input (wx_conn x))"
    using answer_http_input [of env _ _ x] answer_websocket_input [of env _ _ x]
    by (auto simp: process_handshake_def Let_def split: prod.split)
  obtain ok1 x1 where 1: "(if sl_state (wx_slot x) = WsHandshaking then process_handshake env z x else (True, x)) = (ok1, x1)"
    by fastforce
  then have "length (sl_input (wx_slot x1)) \<le> length (sl_input (wx_slot x)) \<and>
      length (cn_input (wx_conn x1)) \<le> length (cn_input (wx_conn x))"
    using h by (auto split: if_splits)
  then show ?thesis
    using assms [unfolded process_slot_def 1] process_frames_input [of env z x1] by (auto split: if_splits)
qed

section \<open>The read loop and the server operations\<close>

definition ws_read_input :: "ws_env \<Rightarrow> ws_sizes \<Rightarrow> 'c ws_ctx \<Rightarrow> bool \<times> 'c ws_ctx" where
  "ws_read_input env z x =
     (if length (sl_input (wx_slot x)) < ws_input_capacity z \<and> conn_readable (wx_conn x) then
        (if we_read_error env (wx_conn x) then (False, fail_and_close env WeProtocolError x)
         else (case conn_read (ws_input_capacity z - length (sl_input (wx_slot x))) (wx_conn x) of
                 (bs, c) \<Rightarrow> (True, upd_slot (\<lambda>s. s\<lparr>sl_input := sl_input s @ bs\<rparr>) (x\<lparr>wx_conn := c\<rparr>))))
      else (True, x))"

lemma ws_read_input_total:
  assumes "ws_read_input env z x = (True, x1)"
  shows "length (sl_input (wx_slot x1)) + length (cn_input (wx_conn x1)) = length (sl_input (wx_slot x)) + length (cn_input (wx_conn x))"
    and "length (sl_input (wx_slot x1)) < ws_input_capacity z \<Longrightarrow> cn_valid (wx_conn x) \<Longrightarrow> cn_input (wx_conn x1) = []"
  using assms by (auto simp: ws_read_input_def conn_read_def conn_readable_def ws_defs split: if_splits)

text \<open>The loop of \<open>on_data\<close>; the result says whether the loop was left at its end and not by a return.\<close>

function ws_data_loop :: "ws_env \<Rightarrow> ws_sizes \<Rightarrow> 'c ws_ctx \<Rightarrow> bool \<times> 'c ws_ctx" where
  "ws_data_loop env z x =
     (if \<not> cn_valid (wx_conn x) then (True, x)
      else (case ws_read_input env z x of
          (False, x1) \<Rightarrow> (False, x1)
        | (True, x1) \<Rightarrow>
            (case process_slot env z x1 of
               (ok, x2) \<Rightarrow>
                 if \<not> ok \<or> sl_connection (wx_slot x2) = None then (False, x2)
                 else if length (sl_input (wx_slot x2)) < length (sl_input (wx_slot x1)) then ws_data_loop env z x2
                 else if \<not> conn_readable (wx_conn x2) then (True, x2)
                 else if ws_input_capacity z \<le> length (sl_input (wx_slot x2)) then (False, fail_and_close env WeProtocolError x2)
                 else ws_data_loop env z x2)))"
  by pat_completeness auto

termination
proof (relation "measure (\<lambda>(env, z, x). length (sl_input (wx_slot x)) + length (cn_input (wx_conn x)))", goal_cases)
  case (2 env z x b x1 ok x2)
  then show ?case using process_slot_input [of env z x1 ok x2] ws_read_input_total(1) [of env z x x1] by auto
next
  case (3 env z x b x1 ok x2)
  then show ?case
    using process_slot_input [of env z x1 ok x2] ws_read_input_total [of env z x x1] by (auto simp: conn_readable_def)
qed simp

declare ws_data_loop.simps [simp del]

text \<open>
  The handler object: its slots and the platform's connections. The operations on a slot run on the
  context of the connection that the slot points at; \<open>release\<close> finds that slot again, since no two
  slots hold the same connection (\<open>ws_inv\<close> below).
\<close>

record 'c ws_server =
  wv_slots :: "'c ws_slot list"
  wv_conns :: "'c \<Rightarrow> conn"
  wv_options :: backpressure_options

definition ws_slot_init :: "backpressure_options \<Rightarrow> 'c ws_slot" where
  "ws_slot_init options = \<lparr>sl_connection = None, sl_state = WsEmpty, sl_http_hold = False, sl_input = [], sl_chunk = [],
     sl_control = [], sl_frame_active = False, sl_frame_fin = False, sl_frame_control = False,
     sl_frame_opcode = Op_Continuation, sl_frame_remaining = 0, sl_frame_offset = 0, sl_frame_mask = [0, 0, 0, 0],
     sl_message_active = False, sl_message_opcode = Op_Continuation, sl_message_size = 0,
     sl_backpressure = mo_configure options (mo_init backpressure_disabled)\<rparr>"

definition wv_init :: "nat \<Rightarrow> backpressure_options \<Rightarrow> ('c \<Rightarrow> conn) \<Rightarrow> 'c ws_server" where
  "wv_init n options conns = \<lparr>wv_slots = replicate n (ws_slot_init options), wv_conns = conns, wv_options = options\<rparr>"

definition wv_find :: "'c \<Rightarrow> 'c ws_server \<Rightarrow> nat option" where
  "wv_find c sv = index_where (\<lambda>s. sl_connection s = Some c) (wv_slots sv)"

definition wv_active_count :: "'c ws_server \<Rightarrow> nat" where
  "wv_active_count sv = length (filter (\<lambda>s. sl_connection s \<noteq> None) (wv_slots sv))"

definition wv_is_open :: "'c \<Rightarrow> 'c ws_server \<Rightarrow> bool" where
  "wv_is_open c sv = (case wv_find c sv of
     None \<Rightarrow> False | Some i \<Rightarrow> sl_state (wv_slots sv ! i) = WsOpen \<and> cn_valid (wv_conns sv c))"

definition wv_acquire :: "'c \<Rightarrow> 'c ws_server \<Rightarrow> nat option \<times> 'c ws_server" where
  "wv_acquire c sv =
     (case wv_find c sv of
        Some i \<Rightarrow> (Some i, sv)
      | None \<Rightarrow>
          (case index_where (\<lambda>s. sl_connection s = None) (wv_slots sv) of
             None \<Rightarrow> (None, sv)
           | Some i \<Rightarrow> (Some i, sv\<lparr>wv_slots := (wv_slots sv)[i :=
                 reset_stream_state ((wv_slots sv ! i)\<lparr>sl_connection := Some c, sl_state := WsHandshaking\<rparr>)]\<rparr>)))"

text \<open>Runs a slot operation on slot \<open>i\<close> and the connection \<open>c\<close>; the events are those it adds.\<close>

definition wv_context :: "nat \<Rightarrow> 'c \<Rightarrow> 'c ws_server \<Rightarrow> 'c ws_ctx" where
  "wv_context i c sv = \<lparr>wx_slot = wv_slots sv ! i, wx_conn = wv_conns sv c, wx_events = []\<rparr>"

definition wv_commit :: "nat \<Rightarrow> 'c \<Rightarrow> 'c ws_ctx \<Rightarrow> 'c ws_server \<Rightarrow> 'c ws_server \<times> ws_event list" where
  "wv_commit i c x sv =
     (sv\<lparr>wv_slots := (wv_slots sv)[i := wx_slot x], wv_conns := (wv_conns sv)(c := wx_conn x)\<rparr>, wx_events x)"

definition wv_refuse :: "ws_env \<Rightarrow> 'c \<Rightarrow> 'c ws_server \<Rightarrow> 'c ws_server \<times> ws_event list" where
  "wv_refuse env c sv =
     (let cn = wv_conns sv c;
          cn1 = conn_set (we_react env (EvError WeNoSlot) (cn_valid cn, cn_output_size cn)) cn
      in (sv\<lparr>wv_conns := (wv_conns sv)(c := conn_close cn1)\<rparr>, [EvError WeNoSlot, EvTcpClose]))"

definition wv_on_accept :: "ws_env \<Rightarrow> 'c \<Rightarrow> 'c ws_server \<Rightarrow> 'c ws_server \<times> ws_event list" where
  "wv_on_accept env c sv =
     (if length (wv_slots sv) \<le> wv_active_count sv then wv_refuse env c sv
      else (case wv_acquire c sv of
              (None, sv1) \<Rightarrow> wv_refuse env c sv1
            | (Some i, sv1) \<Rightarrow>
                (sv1\<lparr>wv_slots := (wv_slots sv1)[i :=
                   (let s = reset_stream_state ((wv_slots sv1 ! i)\<lparr>sl_state := WsHandshaking\<rparr>)
                    in s\<lparr>sl_backpressure := mo_configure (wv_options sv) (sl_backpressure s)\<rparr>)]\<rparr>, [])))"

definition ws_check_backpressure :: "ws_env \<Rightarrow> 'c ws_ctx \<Rightarrow> 'c ws_ctx" where
  "ws_check_backpressure env x =
     (if sl_connection (wx_slot x) = None \<or> \<not> cn_valid (wx_conn x) then x
      else (case mo_check (wx_conn x) (sl_backpressure (wx_slot x)) of
              (hit, info, m) \<Rightarrow>
                let x1 = upd_slot (\<lambda>s. s\<lparr>sl_backpressure := m\<rparr>) x
                in if hit \<and> bi_close_on_limit info then fail_and_close env WeBackpressure x1 else x1))"

definition ws_on_data :: "ws_env \<Rightarrow> ws_sizes \<Rightarrow> 'c ws_ctx \<Rightarrow> 'c ws_ctx" where
  "ws_on_data env z x =
     (if sl_state (wx_slot x) = WsHttpClosing then try_close_drained_http (x\<lparr>wx_conn := drain_input (wx_conn x)\<rparr>)
      else if sl_state (wx_slot x) = WsHttpStreaming then x\<lparr>wx_conn := drain_input (wx_conn x)\<rparr>
      else (case ws_data_loop env z x of
              (finished, x1) \<Rightarrow>
                if finished \<and> sl_connection (wx_slot x1) \<noteq> None then ws_check_backpressure env x1 else x1))"

definition ws_on_write_ready :: "ws_env \<Rightarrow> 'c ws_ctx \<Rightarrow> 'c ws_ctx" where
  "ws_on_write_ready env x =
     (if sl_state (wx_slot x) = WsHttpClosing then try_close_drained_http x
      else if sl_state (wx_slot x) = WsHttpStreaming then ws_emit env EvHttpWriteReady x
      else ws_check_backpressure env x)"

definition ws_on_close :: "ws_env \<Rightarrow> 'c ws_ctx \<Rightarrow> 'c ws_ctx" where
  "ws_on_close env x =
     (let was_open = (sl_state (wx_slot x) = WsOpen);
          x1 = (if sl_state (wx_slot x) = WsHttpStreaming then ws_emit env EvHttpClosed x else x);
          x2 = upd_slot ws_release x1
      in if was_open then ws_emit env EvClose x2 else x2)"

definition ws_on_error :: "ws_env \<Rightarrow> 'c ws_ctx \<Rightarrow> 'c ws_ctx" where
  "ws_on_error env x =
     upd_slot ws_release
       (if sl_state (wx_slot x) = WsHttpStreaming then ws_emit env EvHttpClosed x
        else if sl_state (wx_slot x) \<noteq> WsHttpClosing then ws_emit env (EvError WeProtocolError) x
        else x)"

definition ws_abort_http :: "ws_env \<Rightarrow> 'c ws_ctx \<Rightarrow> 'c ws_ctx" where
  "ws_abort_http env x = (if sl_state (wx_slot x) = WsHttpStreaming then close_slot env False x else x)"

definition ws_finish_http :: "'c ws_ctx \<Rightarrow> 'c ws_ctx" where
  "ws_finish_http x = (if sl_state (wx_slot x) = WsHttpStreaming then begin_http_close x else x)"

definition ws_hold_http :: "'c ws_ctx \<Rightarrow> 'c ws_ctx" where
  "ws_hold_http x = (if sl_state (wx_slot x) = WsHandshaking then upd_slot (\<lambda>s. s\<lparr>sl_http_hold := True\<rparr>) x else x)"

definition wv_on_slot :: "('c ws_ctx \<Rightarrow> 'c ws_ctx) \<Rightarrow> 'c \<Rightarrow> 'c ws_server \<Rightarrow> 'c ws_server \<times> ws_event list" where
  "wv_on_slot f c sv =
     (case wv_find c sv of None \<Rightarrow> (sv, []) | Some i \<Rightarrow> wv_commit i c (f (wv_context i c sv)) sv)"

definition wv_on_data :: "ws_env \<Rightarrow> ws_sizes \<Rightarrow> 'c \<Rightarrow> 'c ws_server \<Rightarrow> 'c ws_server \<times> ws_event list" where
  "wv_on_data env z = wv_on_slot (ws_on_data env z)"

definition wv_close_connection :: "ws_env \<Rightarrow> 'c \<Rightarrow> 'c ws_server \<Rightarrow> 'c ws_server \<times> ws_event list" where
  "wv_close_connection env c sv =
     (if wv_find c sv = None then (sv\<lparr>wv_conns := (wv_conns sv)(c := conn_close (wv_conns sv c))\<rparr>, [EvTcpClose])
      else wv_on_slot (close_slot env True) c sv)"

definition wv_write_text :: "ws_env \<Rightarrow> ws_sizes \<Rightarrow> 'c \<Rightarrow> string \<Rightarrow> 'c ws_server \<Rightarrow> bool \<times> 'c ws_server \<times> ws_event list" where
  "wv_write_text env z c txt sv =
     (if \<not> wv_is_open c sv \<or> wz_chunk z < length txt then (False, sv, [])
      else (case encode_text_frame txt (wz_chunk z + 16) of
              None \<Rightarrow> (False, sv, [])
            | Some frame \<Rightarrow>
                (case wv_find c sv of
                   None \<Rightarrow> (False, sv, [])
                 | Some i \<Rightarrow> (case ws_write_all env frame (wv_context i c sv) of (ok, x) \<Rightarrow> (ok, wv_commit i c x sv)))))"

definition wv_write_control :: "ws_env \<Rightarrow> 'c \<Rightarrow> opcode \<Rightarrow> u8 list \<Rightarrow> 'c ws_server \<Rightarrow> bool \<times> 'c ws_server \<times> ws_event list" where
  "wv_write_control env c opcode payload sv =
     (case ws_write_control env opcode payload \<lparr>wx_slot = (ws_slot_init (wv_options sv) :: 'c ws_slot), wx_conn = wv_conns sv c, wx_events = []\<rparr> of
        (ok, x) \<Rightarrow> (ok, sv\<lparr>wv_conns := (wv_conns sv)(c := wx_conn x)\<rparr>, wx_events x))"

inductive wv_step :: "ws_env \<Rightarrow> ws_sizes \<Rightarrow> 'c ws_server \<Rightarrow> 'c ws_server \<Rightarrow> bool" for env z where
  step_accept: "wv_step env z sv (fst (wv_on_accept env c sv))"
| step_data: "wv_step env z sv (fst (wv_on_data env z c sv))"
| step_write_ready: "wv_step env z sv (fst (wv_on_slot (ws_on_write_ready env) c sv))"
| step_close: "wv_step env z sv (fst (wv_on_slot (ws_on_close env) c sv))"
| step_error: "wv_step env z sv (fst (wv_on_slot (ws_on_error env) c sv))"
| step_hold: "wv_step env z sv (fst (wv_on_slot ws_hold_http c sv))"
| step_finish: "wv_step env z sv (fst (wv_on_slot ws_finish_http c sv))"
| step_abort: "wv_step env z sv (fst (wv_on_slot (ws_abort_http env) c sv))"
| step_close_connection: "wv_step env z sv (fst (wv_close_connection env c sv))"
| step_write_text: "wv_step env z sv (fst (snd (wv_write_text env z c txt sv)))"
| step_write_control: "wv_step env z sv (fst (snd (wv_write_control env c opcode payload sv)))"
| step_platform: "wv_step env z sv (sv\<lparr>wv_conns := conns\<rparr>)"

section \<open>The slot invariant\<close>

text \<open>Every buffer of a slot keeps within its array, and the message size within the limit.\<close>

definition slot_ok :: "ws_sizes \<Rightarrow> 'c ws_slot \<Rightarrow> bool" where
  "slot_ok z s \<longleftrightarrow> length (sl_input s) \<le> ws_input_capacity z \<and> length (sl_chunk s) < wz_chunk z \<and>
     length (sl_control s) \<le> 125 \<and> sl_message_size s \<le> wz_message z \<and> length (sl_frame_mask s) = 4"

definition ctx_ok :: "ws_sizes \<Rightarrow> 'c \<Rightarrow> 'c ws_ctx \<Rightarrow> bool" where
  "ctx_ok z c x \<longleftrightarrow> slot_ok z (wx_slot x) \<and> (sl_connection (wx_slot x) = None \<and> \<not> sl_frame_active (wx_slot x) \<or> sl_connection (wx_slot x) = Some c)"

lemma slot_ok_release [sk_inv]: "slot_ok z s \<Longrightarrow> slot_ok z (ws_release s)"
  by (auto simp: slot_ok_def ws_release_def reset_stream_state_def)

lemma slot_ok_reset [sk_inv]: "slot_ok z s \<Longrightarrow> slot_ok z (reset_stream_state s)"
  by (auto simp: slot_ok_def reset_stream_state_def)

lemma ctx_ok_emit [sk_inv]: "ctx_ok z c x \<Longrightarrow> ctx_ok z c (ws_emit env e x)" "ctx_ok z c x \<Longrightarrow> ctx_ok z c (ws_tcp_close x)"
  by (auto simp: ctx_ok_def ws_defs)

lemma ctx_ok_released [sk_inv]: "ctx_ok z c x \<Longrightarrow> ctx_ok z c (upd_slot ws_release x)"
  using slot_ok_release by (auto simp: ctx_ok_def ws_defs ws_release_def reset_stream_state_def)

lemma ctx_ok_close_slot [sk_inv]: "ctx_ok z c x \<Longrightarrow> ctx_ok z c (close_slot env b x)"
  by (auto simp: close_slot_def Let_def intro!: sk_inv)

lemma ctx_ok_fail [sk_inv]: "ctx_ok z c x \<Longrightarrow> ctx_ok z c (fail_and_close env e x)"
  by (auto simp: fail_and_close_def intro!: sk_inv)

lemma ctx_ok_slot: "wx_slot y = wx_slot x \<Longrightarrow> ctx_ok z c x \<Longrightarrow> ctx_ok z c y"
  by (simp add: ctx_ok_def)

lemma ctx_ok_write [sk_inv]:
  "ctx_ok z c x \<Longrightarrow> ws_write_all env d x = (ok, y) \<Longrightarrow> ctx_ok z c y"
  "ctx_ok z c x \<Longrightarrow> ws_write_control env op p x = (ok, y) \<Longrightarrow> ctx_ok z c y"
  using ws_write_slot(1) [of env d x] ws_write_slot(2) [of env op p x] by (auto intro: ctx_ok_slot)

lemma ctx_ok_upd: "ctx_ok z c x \<Longrightarrow> slot_ok z (f (wx_slot x)) \<Longrightarrow> sl_connection (f (wx_slot x)) = sl_connection (wx_slot x) \<Longrightarrow>
  sl_frame_active (f (wx_slot x)) \<longrightarrow> sl_frame_active (wx_slot x) \<Longrightarrow> ctx_ok z c (upd_slot f x)"
  by (auto simp: ctx_ok_def upd_slot_def)

lemma ctx_ok_flush:
  assumes "slot_ok z ((wx_slot x)\<lparr>sl_chunk := []\<rparr>)" "sl_connection (wx_slot x) = Some c"
    and "flush_chunk env x = (ok, y)"
  shows "slot_ok z (wx_slot y) \<and> sl_connection (wx_slot y) = Some c"
  using assms by (auto simp: flush_chunk_def Let_def slot_ok_def ws_defs split: if_splits)

lemma ctx_ok_finish_frame:
  assumes "ctx_ok z c x" "sl_connection (wx_slot x) = Some c"
  shows "ctx_ok z c (snd (finish_frame env x))"
proof -
  let ?x0 = "upd_slot (\<lambda>s. s\<lparr>sl_frame_active := False\<rparr>) x"
  have 0: "ctx_ok z c ?x0" using assms by (intro ctx_ok_upd) (auto simp: ctx_ok_def slot_ok_def)
  obtain ok1 x1 where 1: "ws_write_control env Op_Pong (sl_control (wx_slot x)) ?x0 = (ok1, x1)" by fastforce
  obtain ok2 x2 where 2: "ws_write_control env Op_Close (sl_control (wx_slot x)) ?x0 = (ok2, x2)" by fastforce
  obtain ok3 x3 where 3: "flush_chunk env ?x0 = (ok3, x3)" by fastforce
  have k3: "ctx_ok z c x3"
    using ctx_ok_flush [OF _ _ 3, of z c] 0 assms(2) by (auto simp: ctx_ok_def slot_ok_def upd_slot_def)
  have "ctx_ok z c (upd_slot (\<lambda>s. s\<lparr>sl_message_active := False, sl_message_opcode := Op_Continuation, sl_message_size := 0\<rparr>)
      (ws_emit env e x3))" for e
    using ctx_ok_emit(1) [OF k3, of env e] by (intro ctx_ok_upd) (auto simp: ctx_ok_def slot_ok_def)
  with 0 k3 ctx_ok_write(2) [OF 0 1] ctx_ok_write(2) [OF 0 2] show ?thesis
    unfolding finish_frame_def Let_def 1 2 3 protocol_failure_def by (auto intro: sk_inv)
qed

lemma ctx_ok_begin_frame:
  assumes "ctx_ok z c x" "sl_connection (wx_slot x) \<noteq> None"
  shows "ctx_ok z c (snd (begin_frame env z x))"
proof -
  obtain r fin opcode n off where h: "frame_header (sl_input (wx_slot x)) = (r, fin, opcode, n, off)" by (metis prod.exhaust)
  obtain ok x1 where bm: "begin_message env opcode fin n x = (ok, x1)" by fastforce
  have "ctx_ok z c (upd_slot (\<lambda>s. s\<lparr>sl_message_active := True, sl_message_opcode := opcode, sl_message_size := 0, sl_chunk := []\<rparr>) x)"
    using assms by (intro ctx_ok_upd) (auto simp: ctx_ok_def slot_ok_def)
  then have 1: "ctx_ok z c x1" "sl_connection (wx_slot x1) = Some c"
    using bm assms by (auto simp: begin_message_def Let_def ctx_ok_def ws_defs split: if_splits)
  define x2 where "x2 = upd_slot (\<lambda>s. s\<lparr>sl_frame_active := True, sl_frame_fin := fin, sl_frame_control := (8 \<le> opcode),
    sl_frame_opcode := opcode, sl_frame_remaining := n, sl_frame_offset := 0, sl_control := []\<rparr>)
    (ws_consume (off + 4) (upd_slot (\<lambda>s. s\<lparr>sl_frame_mask := take 4 (drop off (sl_input s))\<rparr>) x1))"
  have l: "sl_input (wx_slot x1) = sl_input (wx_slot x)" using begin_message_input [of env opcode fin n x] bm by simp
  have "ctx_ok z c x2 \<and> sl_connection (wx_slot x2) = Some c" if "r = HdrOk"
    using 1 l frame_header_ok [OF h [unfolded that]] by (auto simp: ctx_ok_def slot_ok_def x2_def ws_defs)
  then have "ctx_ok z c (snd (start_frame env fin opcode n off x1))" if "r = HdrOk"
    using that ctx_ok_finish_frame [of z c x2 env] unfolding start_frame_def Let_def x2_def [symmetric]
    by (cases "finish_frame env x2") auto
  with 1 assms(1) show ?thesis unfolding begin_frame_def h prod.case bm by (cases r) auto
qed

lemma ctx_ok_take_data:
  "ctx_ok z c x \<Longrightarrow> sl_connection (wx_slot x) = Some c \<Longrightarrow> ctx_ok z c (snd (take_data env z data x))"
proof (induction env z data x rule: take_data.induct)
  case (1 env z data x)
  define room where "room = wz_chunk z - length (sl_chunk (wx_slot x))"
  define x1 where "x1 = upd_slot (\<lambda>s. s\<lparr>sl_chunk := sl_chunk s @ take room data,
    sl_message_size := sl_message_size s + length (take room data)\<rparr>) x"
  obtain fk x2 where f: "flush_chunk env x1 = (fk, x2)" by fastforce
  have room: "length (sl_chunk (wx_slot x)) < wz_chunk z" "length (sl_chunk (wx_slot x1)) \<le> wz_chunk z"
    using 1(3) by (auto simp: ctx_ok_def slot_ok_def room_def x1_def upd_slot_def)
  have c1: "sl_connection (wx_slot x1) = Some c" using 1(4) by (simp add: x1_def upd_slot_def)
  have s1: "sl_message_size (wx_slot x1) \<le> wz_message z \<Longrightarrow> slot_ok z ((wx_slot x1)\<lparr>sl_chunk := []\<rparr>)"
    using 1(3) by (auto simp: ctx_ok_def slot_ok_def x1_def upd_slot_def)
  have s2: "sl_message_size (wx_slot x1) \<le> wz_message z \<Longrightarrow> ctx_ok z c x2 \<and> sl_connection (wx_slot x2) = Some c"
    using ctx_ok_flush [OF s1 c1 f] by (auto simp: ctx_ok_def)
  have s3: "sl_message_size (wx_slot x1) \<le> wz_message z \<Longrightarrow> length (sl_chunk (wx_slot x1)) \<noteq> wz_chunk z \<Longrightarrow> ctx_ok z c x1"
    using s1 room(2) c1 by (auto simp: ctx_ok_def slot_ok_def)
  have s4: "ctx_ok z c (fail_and_close env WePayloadTooLarge x1)"
    using 1(3,4) by (auto simp: ctx_ok_def slot_ok_def ws_close_defs ws_defs x1_def)
  have i1: "ctx_ok z c (snd (take_data env z (drop room data) x2))"
    if "data \<noteq> []" "sl_message_size (wx_slot x1) \<le> wz_message z" "length (sl_chunk (wx_slot x1)) = wz_chunk z" fk
    using 1(1) [OF _ _ room_def refl x1_def _ _ f [symmetric]] that s2 room by auto
  have i2: "ctx_ok z c (snd (take_data env z (drop room data) x1))"
    if "data \<noteq> []" "sl_message_size (wx_slot x1) \<le> wz_message z" "length (sl_chunk (wx_slot x1)) \<noteq> wz_chunk z"
    using 1(2) [OF _ _ room_def refl x1_def] that s3 room c1 by auto
  show ?case
    unfolding take_data.simps [of env z data x] Let_def room_def [symmetric] x1_def [symmetric] f prod.case
    using room 1(3) s2 s4 i1 i2 by auto
qed

lemma ctx_ok_consume_payload:
  assumes "ctx_ok z c x"
  shows "ctx_ok z c (snd (consume_frame_payload env z x))"
proof -
  let ?s = "wx_slot x"
  define tk where "tk = min (length (sl_input ?s)) (sl_frame_remaining ?s)"
  define data where "data = unmask_from (sl_frame_mask ?s) (sl_frame_offset ?s) (take tk (sl_input ?s))"
  obtain ok1 x1 where t: "take_payload env z data x = (ok1, x1)" by fastforce
  show ?thesis
  proof (cases "sl_frame_active ?s \<and> sl_input ?s \<noteq> []")
    case True
    then have c: "sl_connection ?s = Some c" using assms by (auto simp: ctx_ok_def)
    have "ctx_ok z c (upd_slot (\<lambda>s. s\<lparr>sl_control := sl_control s @ data\<rparr>) x)" if "length (sl_control ?s) + length data \<le> 125"
      using assms that by (intro ctx_ok_upd) (auto simp: ctx_ok_def slot_ok_def)
    then have 1: "ctx_ok z c x1"
      using t ctx_ok_take_data [OF assms c, of env data] ctx_ok_fail [OF assms]
      by (auto simp: take_payload_def protocol_failure_def split: if_splits)
    have c1: "sl_connection (wx_slot x1) = Some c" if ok1
      using t that c take_data_input [of env z data x True x1]
      by (auto simp: take_payload_def protocol_failure_def upd_slot_def split: if_splits)
    have 2: "ctx_ok z c (advance_frame tk x1)" "ok1 \<Longrightarrow> sl_connection (wx_slot (advance_frame tk x1)) = Some c"
      using 1 c1 by (auto simp: advance_frame_def ws_defs ctx_ok_def slot_ok_def)
    show ?thesis
      unfolding consume_frame_payload_def Let_def tk_def [symmetric] data_def [symmetric] t prod.case
      using True 1 2 ctx_ok_finish_frame [OF 2] by auto
  qed (use assms in \<open>auto simp: consume_frame_payload_def Let_def\<close>)
qed

lemma ctx_ok_process_frames: "ctx_ok z c x \<Longrightarrow> ctx_ok z c (snd (process_frames env z x))"
  by (rule process_frames_rule) (auto intro: ctx_ok_begin_frame ctx_ok_consume_payload ctx_ok_fail)

lemma ctx_ok_conn [sk_inv]: "ctx_ok z c x \<Longrightarrow> ctx_ok z c (x\<lparr>wx_conn := d\<rparr>)"
  by (simp add: ctx_ok_def)

lemma ctx_ok_consume [sk_inv]: "ctx_ok z c x \<Longrightarrow> ctx_ok z c (ws_consume n x)"
  by (auto simp: ctx_ok_def slot_ok_def ws_defs)

lemma ctx_ok_try_close [sk_inv]: "ctx_ok z c x \<Longrightarrow> ctx_ok z c (try_close_drained_http x)"
  by (auto simp: try_close_drained_http_def intro!: sk_inv)

lemma ctx_ok_set_state [sk_inv]: "ctx_ok z c x \<Longrightarrow> ctx_ok z c (upd_slot (\<lambda>s. s\<lparr>sl_state := st\<rparr>) x)"
  "ctx_ok z c x \<Longrightarrow> ctx_ok z c (upd_slot (\<lambda>s. s\<lparr>sl_http_hold := b\<rparr>) x)"
  "ctx_ok z c x \<Longrightarrow> ctx_ok z c (upd_slot (\<lambda>s. s\<lparr>sl_state := st, sl_input := []\<rparr>) x)"
  "ctx_ok z c x \<Longrightarrow> ctx_ok z c (upd_slot (\<lambda>s. s\<lparr>sl_backpressure := m\<rparr>) x)"
  by (auto simp: ctx_ok_def slot_ok_def upd_slot_def)

lemma ctx_ok_begin_http_close [sk_inv]: "ctx_ok z c x \<Longrightarrow> ctx_ok z c (begin_http_close x)"
  by (auto simp: begin_http_close_def intro!: sk_inv)

lemma ctx_ok_handshake:
  assumes "ctx_ok z c x"
  shows "ctx_ok z c (snd (process_handshake env z x))"
proof -
  have "ctx_ok z c (snd (answer_http env r n x))" for r n
    using assms by (auto simp: answer_http_def Let_def intro!: sk_inv split: prod.split)
  moreover have "ctx_ok z c (snd (answer_websocket env req n x))" for req n
  proof -
    obtain ok1 x1 where 1: "ws_write_all env (octets handshake_not_found) x = (ok1, x1)" by fastforce
    obtain w resp where r: "write_server_handshake_response (c_str (hr_key req)) 192 = (w, resp)" by fastforce
    obtain ok2 x2 where 2: "(if w = HsOk then ws_write_all env (octets resp) x else (False, x)) = (ok2, x2)" by fastforce
    have "ctx_ok z c x1" "ctx_ok z c x2" using ctx_ok_write(1) [OF assms] 1 2 assms by (auto split: if_splits)
    then show ?thesis unfolding answer_websocket_def Let_def 1 r prod.case 2 by (auto intro!: sk_inv)
  qed
  ultimately show ?thesis
    using assms by (auto simp: process_handshake_def Let_def intro!: sk_inv split: prod.split)
qed

lemma ctx_ok_process_slot: "ctx_ok z c x \<Longrightarrow> ctx_ok z c (snd (process_slot env z x))"
  using ctx_ok_handshake [of z c x env]
  by (auto simp: process_slot_def split: prod.split intro!: ctx_ok_process_frames)

lemma ctx_ok_read:
  assumes "ctx_ok z c x"
  shows "ctx_ok z c (snd (ws_read_input env z x))"
proof -
  have "ctx_ok z c (upd_slot (\<lambda>s. s\<lparr>sl_input := sl_input s @ bs\<rparr>) (x\<lparr>wx_conn := d\<rparr>))"
    if "length bs \<le> ws_input_capacity z - length (sl_input (wx_slot x))" for bs d
    using assms that by (auto simp: ctx_ok_def slot_ok_def upd_slot_def)
  then show ?thesis
    using assms ctx_ok_fail [OF assms] by (auto simp: ws_read_input_def conn_read_def conn_readable_def)
qed

lemma ctx_ok_data_loop: "ctx_ok z c x \<Longrightarrow> ctx_ok z c (snd (ws_data_loop env z x))"
proof (induction env z x rule: ws_data_loop.induct)
  case (1 env z x)
  obtain rk x1 where r: "ws_read_input env z x = (rk, x1)" by fastforce
  obtain ok x2 where p: "process_slot env z x1 = (ok, x2)" by fastforce
  have k: "ctx_ok z c x1" "ctx_ok z c x2"
    using ctx_ok_read [OF 1(3), of env] ctx_ok_process_slot [of z c x1 env] r p by auto
  show ?case
    using 1 k r p by (subst ws_data_loop.simps) (cases rk; auto intro: sk_inv)
qed

lemma ctx_ok_backpressure [sk_inv]: "ctx_ok z c x \<Longrightarrow> ctx_ok z c (ws_check_backpressure env x)"
  by (auto simp: ws_check_backpressure_def Let_def intro!: sk_inv split: prod.split)

lemma ctx_ok_operations:
  assumes "ctx_ok z c x"
  shows "ctx_ok z c (ws_on_data env z x)" "ctx_ok z c (ws_on_write_ready env x)" "ctx_ok z c (ws_on_close env x)"
    "ctx_ok z c (ws_on_error env x)" "ctx_ok z c (ws_hold_http x)" "ctx_ok z c (ws_finish_http x)" "ctx_ok z c (ws_abort_http env x)"
proof -
  show "ctx_ok z c (ws_on_data env z x)"
    using assms ctx_ok_data_loop [OF assms, of env]
    by (cases "ws_data_loop env z x") (auto simp: ws_on_data_def intro!: ctx_ok_backpressure ctx_ok_try_close ctx_ok_conn)
  show "ctx_ok z c (ws_on_write_ready env x)"
    using assms by (auto simp: ws_on_write_ready_def intro!: ctx_ok_backpressure ctx_ok_try_close ctx_ok_emit)
  show "ctx_ok z c (ws_on_close env x)"
    using assms by (auto simp: ws_on_close_def Let_def intro!: ctx_ok_emit ctx_ok_released)
  show "ctx_ok z c (ws_on_error env x)"
    using assms by (auto simp: ws_on_error_def intro!: ctx_ok_emit ctx_ok_released)
  show "ctx_ok z c (ws_hold_http x)" using assms by (auto simp: ws_hold_http_def intro!: ctx_ok_set_state)
  show "ctx_ok z c (ws_finish_http x)" using assms by (auto simp: ws_finish_http_def intro!: ctx_ok_begin_http_close)
  show "ctx_ok z c (ws_abort_http env x)" using assms by (auto simp: ws_abort_http_def intro!: ctx_ok_close_slot)
qed

section \<open>The server invariant\<close>

definition wv_inv :: "ws_sizes \<Rightarrow> nat \<Rightarrow> 'c ws_server \<Rightarrow> bool" where
  "wv_inv z n sv \<longleftrightarrow> length (wv_slots sv) = n \<and> slots_ok (map sl_connection (wv_slots sv)) \<and>
     (\<forall>s \<in> set (wv_slots sv). slot_ok z s \<and> (sl_connection s = None \<longrightarrow> \<not> sl_frame_active s))"

lemma wv_inv_update:
  assumes "wv_inv z n sv" "i < n" "slot_ok z s" "sl_connection s = None \<longrightarrow> \<not> sl_frame_active s"
    and "sl_connection s = None \<or> sl_connection s = sl_connection (wv_slots sv ! i) \<or>
         (\<forall>t \<in> set (wv_slots sv). sl_connection t \<noteq> sl_connection s)"
  shows "wv_inv z n (sv\<lparr>wv_slots := (wv_slots sv)[i := s], wv_conns := cs\<rparr>)"
proof -
  have d: "slots_ok (map sl_connection (wv_slots sv))" and n: "length (wv_slots sv) = n" using assms(1) by (auto simp: wv_inv_def)
  have "slots_ok ((map sl_connection (wv_slots sv))[i := sl_connection s])"
    using d assms(2,5) n unfolding slots_ok_def
    by (auto simp: nth_list_update split: if_splits) (metis nth_mem)+
  moreover have "set ((wv_slots sv)[i := s]) \<subseteq> insert s (set (wv_slots sv))" by (rule set_update_subset_insert)
  ultimately show ?thesis using assms(1,3,4) by (auto simp: wv_inv_def map_update)
qed

lemma wv_inv_conns: "wv_inv z n (sv\<lparr>wv_conns := cs\<rparr>) = wv_inv z n sv"
  by (simp add: wv_inv_def)

lemma wv_inv_on_slot:
  assumes "wv_inv z n sv" "\<And>x. ctx_ok z c x \<Longrightarrow> ctx_ok z c (f x)"
  shows "wv_inv z n (fst (wv_on_slot f c sv))"
proof (cases "wv_find c sv")
  case (Some i)
  then have i: "i < n" "sl_connection (wv_slots sv ! i) = Some c"
    using assms(1) index_where_SomeD [of _ "wv_slots sv" i] by (auto simp: wv_find_def wv_inv_def)
  have "ctx_ok z c (wv_context i c sv)" using assms(1) i by (auto simp: ctx_ok_def wv_context_def wv_inv_def)
  then have "ctx_ok z c (f (wv_context i c sv))" by (rule assms(2))
  then show ?thesis
    using Some i by (auto simp: wv_on_slot_def wv_commit_def ctx_ok_def intro!: wv_inv_update [OF assms(1)])
qed (simp add: wv_on_slot_def assms(1))

lemma wv_inv_acquire:
  assumes "wv_inv z n sv" "wv_acquire c sv = (r, sv')"
  shows "wv_inv z n sv' \<and> (\<forall>i. r = Some i \<longrightarrow> i < n \<and> sl_connection (wv_slots sv' ! i) = Some c)"
proof (cases "wv_find c sv")
  case (Some i)
  then show ?thesis
    using assms index_where_SomeD [of "\<lambda>s. sl_connection s = Some c" "wv_slots sv" i]
    by (auto simp: wv_acquire_def wv_find_def wv_inv_def)
next
  case None
  show ?thesis
  proof (cases "index_where (\<lambda>s. sl_connection s = None) (wv_slots sv)")
    case (Some i)
    let ?s = "reset_stream_state ((wv_slots sv ! i)\<lparr>sl_connection := Some c, sl_state := WsHandshaking\<rparr>)"
    have i: "i < n" "i < length (wv_slots sv)" using Some assms(1) index_where_bound by (fastforce simp: wv_inv_def)+
    have "slot_ok z (wv_slots sv ! i)" using assms(1) i by (simp add: wv_inv_def)
    then have "slot_ok z ?s" by (auto simp: slot_ok_def reset_stream_state_def)
    moreover have "\<forall>t \<in> set (wv_slots sv). sl_connection t \<noteq> Some c" using None by (simp add: wv_find_def index_where_None)
    ultimately have "wv_inv z n (sv\<lparr>wv_slots := (wv_slots sv)[i := ?s], wv_conns := wv_conns sv\<rparr>)"
      using i by (intro wv_inv_update [OF assms(1)]) (auto simp: reset_stream_state_def)
    then show ?thesis using assms(2) None Some i by (auto simp: wv_acquire_def reset_stream_state_def)
  qed (use None assms in \<open>auto simp: wv_acquire_def\<close>)
qed

lemma wv_inv_accept:
  assumes "wv_inv z n sv"
  shows "wv_inv z n (fst (wv_on_accept env c sv))"
proof -
  obtain r sv1 where a: "wv_acquire c sv = (r, sv1)" by fastforce
  note i = wv_inv_acquire [OF assms a]
  have "wv_inv z n (fst (wv_refuse env c sv))" "wv_inv z n (fst (wv_refuse env c sv1))"
    using assms i by (auto simp: wv_refuse_def Let_def wv_inv_conns)
  moreover have "wv_inv z n (sv1\<lparr>wv_slots := (wv_slots sv1)[j := s], wv_conns := wv_conns sv1\<rparr>)"
    if "r = Some j" "s = (reset_stream_state ((wv_slots sv1 ! j)\<lparr>sl_state := WsHandshaking\<rparr>))\<lparr>sl_backpressure := m\<rparr>" for j s m
  proof -
    have "slot_ok z (wv_slots sv1 ! j)" using i that(1) by (auto simp: wv_inv_def)
    then show ?thesis using i that by (intro wv_inv_update) (auto simp: slot_ok_def reset_stream_state_def)
  qed
  ultimately show ?thesis using assms a by (cases r) (auto simp: wv_on_accept_def Let_def)
qed

lemma wv_inv_step: "wv_step env z sv sv' \<Longrightarrow> wv_inv z n sv \<Longrightarrow> wv_inv z n sv'"
proof (induction rule: wv_step.induct)
  case (step_close_connection sv c)
  then show ?case
    by (auto simp: wv_close_connection_def wv_inv_conns intro: wv_inv_on_slot ctx_ok_close_slot)
next
  case (step_write_text sv c tx)
  have "wv_inv z n (fst (wv_commit i c x sv))" if "wv_find c sv = Some i" "ws_write_all env f (wv_context i c sv) = (ok, x)" for i f ok x
  proof -
    have "wx_slot x = wv_slots sv ! i" using ws_write_all_eq [OF that(2)] by (simp add: wv_context_def)
    then show ?thesis using step_write_text by (simp add: wv_commit_def wv_inv_conns)
  qed
  then show ?case using step_write_text by (auto simp: wv_write_text_def split: option.split prod.split)
qed (auto simp: wv_on_data_def wv_write_control_def wv_inv_conns split: prod.split
  intro: wv_inv_on_slot wv_inv_accept ctx_ok_operations)

lemma wv_inv_init: "0 < wz_chunk z \<Longrightarrow> wv_inv z n (wv_init n options conns)"
  by (auto simp: wv_inv_def wv_init_def ws_slot_init_def slot_ok_def slots_ok_def)

lemma fail_and_close_open:
  assumes "sl_connection (wx_slot x) = Some c" "sl_state (wx_slot x) = WsOpen"
  shows "wx_events (fail_and_close env e x) = wx_events x @ [EvError e, EvTcpClose] \<and>
    \<not> cn_valid (wx_conn (fail_and_close env e x)) \<and> sl_state (wx_slot (fail_and_close env e x)) = WsEmpty"
  using assms by (simp add: ws_close_defs ws_defs conn_close_def)

section \<open>Properties\<close>

text \<open>
  C9: in every state that the WebSocket server reaches by any sequence of callbacks, calls and
  changes of the connections by the platform, each slot keeps its input, chunk and control buffers
  within their arrays and its message within the size limit, and no two slots hold one connection.
\<close>

theorem websocket_server_safe:
  assumes "(wv_step env z)\<^sup>*\<^sup>* (wv_init n options conns) sv" "0 < wz_chunk z"
  shows "wv_inv z n sv"
  using assms(1)
proof (induction rule: rtranclp_induct)
  case base
  show ?case using assms(2) by (rule wv_inv_init)
next
  case (step sv sv')
  then show ?case by (blast intro: wv_inv_step)
qed

theorem websocket_server_safe_witness:
  "\<forall>env. wv_inv \<lparr>wz_handshake = 64, wz_chunk = 8, wz_message = 100\<rparr> 2
     (fst (wv_on_accept env (1 :: int) (wv_init 2 backpressure_disabled (\<lambda>c. \<lparr>cn_valid = True, cn_input = [], cn_output_size = 0\<rparr>))))"
  by (intro allI, rule websocket_server_safe [OF r_into_rtranclp]) (auto intro: step_accept)

text \<open>
  an open WebSocket connection that sends a frame with a reserved bit set or without a mask, or
  a first frame of a text message longer than the message limit, is reported with the matching error
  and closed, its slot is released, and no part of the frame is handed over.
\<close>

theorem websocket_bad_frame_closes:
  assumes "sl_connection (wx_slot x) = Some c" "sl_state (wx_slot x) = WsOpen" "\<not> sl_frame_active (wx_slot x)"
    and "sl_input (wx_slot x) = b0 # b1 # rest"
  shows "(b0 AND 0x70 \<noteq> 0 \<or> b1 AND 0x80 = 0 \<longrightarrow>
          (\<exists>y. process_slot env z x = (False, y) \<and> wx_events y = wx_events x @ [EvError WeProtocolError, EvTcpClose] \<and>
               sl_connection (wx_slot y) = None \<and> \<not> cn_valid (wx_conn y))) \<and>
         (frame_header (b0 # b1 # rest) = (HdrOk, fin, Op_Text, n, off) \<and> wz_message z < n \<and> \<not> sl_message_active (wx_slot x) \<longrightarrow>
          (\<exists>y. process_slot env z x = (False, y) \<and>
               wx_events y = wx_events x @ [EvTextBegin, EvError WePayloadTooLarge, EvTcpClose] \<and>
               sl_connection (wx_slot y) = None \<and> \<not> cn_valid (wx_conn y)))"
proof (intro conjI impI)
  assume "b0 AND 0x70 \<noteq> 0 \<or> b1 AND 0x80 = 0"
  then have "begin_frame env z x = (HdrProtocolError, x)"
    using assms(4) by (auto simp: begin_frame_def frame_header_def Let_def)
  then show "\<exists>y. process_slot env z x = (False, y) \<and> wx_events y = wx_events x @ [EvError WeProtocolError, EvTcpClose] \<and>
      sl_connection (wx_slot y) = None \<and> \<not> cn_valid (wx_conn y)"
    using assms process_frames_step [of x env z HdrProtocolError x] fail_and_close_open [OF assms(1,2)]
    by (simp add: process_slot_def)
next
  assume h: "frame_header (b0 # b1 # rest) = (HdrOk, fin, Op_Text, n, off) \<and> wz_message z < n \<and> \<not> sl_message_active (wx_slot x)"
  define y where "y = snd (begin_message env Op_Text fin n x)"
  have y: "begin_message env Op_Text fin n x = (True, y)" "wx_events y = wx_events x @ [EvTextBegin]"
    "sl_connection (wx_slot y) = Some c" "sl_state (wx_slot y) = WsOpen" "sl_message_size (wx_slot y) = 0"
    using h assms by (simp_all add: y_def begin_message_def Let_def ws_defs word_le_nat_alt)
  then have "begin_frame env z x = (HdrPayloadTooLarge, y)" using h assms(4) by (simp add: begin_frame_def word_less_nat_alt)
  then show "\<exists>y. process_slot env z x = (False, y) \<and>
      wx_events y = wx_events x @ [EvTextBegin, EvError WePayloadTooLarge, EvTcpClose] \<and>
      sl_connection (wx_slot y) = None \<and> \<not> cn_valid (wx_conn y)"
    using assms process_frames_step [of x env z HdrPayloadTooLarge y] fail_and_close_open [OF y(3,4)] y(2)
    by (simp add: process_slot_def)
qed

definition ws_calm_env :: ws_env where
  "ws_calm_env = \<lparr>we_http_request = (\<lambda>_. (False, False)), we_accept_websocket = (\<lambda>_. True), we_react = (\<lambda>_ vo. vo),
     we_write = (\<lambda>d vo. (int (length d), vo)), we_read_error = (\<lambda>_. False)\<rparr>"

definition ws_open_ctx :: "u8 list \<Rightarrow> int ws_ctx" where
  "ws_open_ctx input = \<lparr>wx_slot = (ws_slot_init backpressure_disabled)\<lparr>sl_connection := Some 1, sl_state := WsOpen, sl_input := input\<rparr>,
     wx_conn = \<lparr>cn_valid = True, cn_input = [], cn_output_size = 0\<rparr>, wx_events = []\<rparr>"

theorem websocket_bad_frame_closes_witness:
  "\<exists>y. process_slot ws_calm_env \<lparr>wz_handshake = 64, wz_chunk = 8, wz_message = 100\<rparr> (ws_open_ctx [0x81, 0x02, 0x41, 0x42]) = (False, y) \<and>
     wx_events y = [EvError WeProtocolError, EvTcpClose] \<and> sl_connection (wx_slot y) = None \<and> \<not> cn_valid (wx_conn y)"
  using websocket_bad_frame_closes [of "ws_open_ctx [0x81, 0x02, 0x41, 0x42]" 1 "0x81" "0x02" "[0x41, 0x42]" ws_calm_env
      "\<lparr>wz_handshake = 64, wz_chunk = 8, wz_message = 100\<rparr>"]
  by (simp add: ws_open_ctx_def ws_slot_init_def)

text \<open>
  C39: a text for an open WebSocket connection is written as one frame exactly when it fits the chunk
  size; a longer text is refused and nothing is written, however much room the connection has.
\<close>

theorem websocket_write_text:
  assumes "wv_is_open c sv" "wz_chunk z \<le> 65535"
  shows "wv_write_text env z c txt sv =
    (if wz_chunk z < length txt then (False, sv, [])
     else (let frame = (if length txt < 126 then [0x81, of_nat (length txt)]
                        else [0x81, 126, of_nat (drop_bit 8 (length txt)), of_nat (length txt)]) @ octets txt;
               i = the (wv_find c sv); (n, vo) = we_write env frame (True, cn_output_size (wv_conns sv c))
           in (n = int (length frame),
               sv\<lparr>wv_conns := (wv_conns sv)(c := conn_set vo (wv_conns sv c))\<rparr>, [EvWrite frame])))"
proof -
  obtain i where i: "wv_find c sv = Some i" "cn_valid (wv_conns sv c)"
    using assms(1) by (auto simp: wv_is_open_def split: option.splits)
  define frame where "frame = (if length txt < 126 then [0x81, of_nat (length txt)]
    else [0x81, 126, of_nat (drop_bit 8 (length txt)), of_nat (length txt)]) @ octets txt"
  have "encode_text_frame txt (wz_chunk z + 16) = Some frame" if "length txt \<le> wz_chunk z"
    using that assms(2) by (auto simp: encode_text_frame_def Let_def frame_def)
  moreover have "frame \<noteq> []" by (simp add: frame_def)
  moreover have "sv\<lparr>wv_slots := (wv_slots sv)[i := wv_slots sv ! i], wv_conns := cs\<rparr> = sv\<lparr>wv_conns := cs\<rparr>" for cs by simp
  ultimately show ?thesis
    using assms(1) i unfolding frame_def [symmetric]
    by (auto simp: wv_write_text_def ws_write_all_def wv_context_def wv_commit_def Let_def split: prod.split)
qed

theorem websocket_write_text_witness:
  "wv_write_text ws_calm_env \<lparr>wz_handshake = 64, wz_chunk = 2, wz_message = 100\<rparr> (1 :: int) ''abc''
     \<lparr>wv_slots = [wx_slot (ws_open_ctx [])], wv_conns = (\<lambda>c. wx_conn (ws_open_ctx [])), wv_options = backpressure_disabled\<rparr> =
   (False, \<lparr>wv_slots = [wx_slot (ws_open_ctx [])], wv_conns = (\<lambda>c. wx_conn (ws_open_ctx [])), wv_options = backpressure_disabled\<rparr>, [])"
  using websocket_write_text [of "1 :: int" "\<lparr>wv_slots = [wx_slot (ws_open_ctx [])], wv_conns = (\<lambda>c. wx_conn (ws_open_ctx [])),
      wv_options = backpressure_disabled\<rparr>" "\<lparr>wz_handshake = 64, wz_chunk = 2, wz_message = 100\<rparr>" ws_calm_env "''abc''"]
  by (simp add: wv_is_open_def wv_find_def ws_open_ctx_def)

end
