(* ===== verification/Websocket_Stream.thy ===== *)
theory Websocket_Stream
  imports Websocket_Server
begin

text \<open>
  What the frame decoder of the WebSocket server does with a whole stream of client frames. The
  decoder gets the octets in pieces of any size; \<open>process_frames_append\<close> shows that the cuts do not
  matter, and the theorem at the end that the messages of a client are handed over complete and in
  order.
\<close>

unbundle bit_operations_syntax

section \<open>More input at the end\<close>

definition push_input :: "u8 list \<Rightarrow> 'c ws_ctx \<Rightarrow> 'c ws_ctx" where
  "push_input b = upd_slot (\<lambda>s. s\<lparr>sl_input := sl_input s @ b\<rparr>)"

lemma push_input_fields [simp]:
  "sl_input (wx_slot (push_input b x)) = sl_input (wx_slot x) @ b"
  "sl_connection (wx_slot (push_input b x)) = sl_connection (wx_slot x)"
  "sl_state (wx_slot (push_input b x)) = sl_state (wx_slot x)"
  "sl_chunk (wx_slot (push_input b x)) = sl_chunk (wx_slot x)"
  "sl_control (wx_slot (push_input b x)) = sl_control (wx_slot x)"
  "sl_frame_active (wx_slot (push_input b x)) = sl_frame_active (wx_slot x)"
  "sl_frame_fin (wx_slot (push_input b x)) = sl_frame_fin (wx_slot x)"
  "sl_frame_control (wx_slot (push_input b x)) = sl_frame_control (wx_slot x)"
  "sl_frame_opcode (wx_slot (push_input b x)) = sl_frame_opcode (wx_slot x)"
  "sl_frame_remaining (wx_slot (push_input b x)) = sl_frame_remaining (wx_slot x)"
  "sl_frame_offset (wx_slot (push_input b x)) = sl_frame_offset (wx_slot x)"
  "sl_frame_mask (wx_slot (push_input b x)) = sl_frame_mask (wx_slot x)"
  "sl_message_active (wx_slot (push_input b x)) = sl_message_active (wx_slot x)"
  "sl_message_opcode (wx_slot (push_input b x)) = sl_message_opcode (wx_slot x)"
  "sl_message_size (wx_slot (push_input b x)) = sl_message_size (wx_slot x)"
  "wx_conn (push_input b x) = wx_conn x" "wx_events (push_input b x) = wx_events x"
  by (simp_all add: push_input_def upd_slot_def)

lemma push_nil [simp]: "push_input [] x = x"
  by (simp add: push_input_def upd_slot_def)

lemma push_push: "push_input b (push_input a x) = push_input (a @ b) x"
  by (simp add: push_input_def upd_slot_def)

lemma push_emit: "ws_emit env e (push_input b x) = push_input b (ws_emit env e x)"
  by (simp add: ws_emit_def push_input_def upd_slot_def)

lemma push_upd:
  "(\<And>s b. f (s\<lparr>sl_input := sl_input s @ b\<rparr>) = (f s)\<lparr>sl_input := sl_input (f s) @ b\<rparr>) \<Longrightarrow>
   upd_slot f (push_input b x) = push_input b (upd_slot f x)"
  by (simp add: push_input_def upd_slot_def)

lemma push_upds:
  "upd_slot (\<lambda>s. s\<lparr>sl_frame_active := False\<rparr>) (push_input b x) = push_input b (upd_slot (\<lambda>s. s\<lparr>sl_frame_active := False\<rparr>) x)"
  "upd_slot (\<lambda>s. s\<lparr>sl_chunk := []\<rparr>) (push_input b x) = push_input b (upd_slot (\<lambda>s. s\<lparr>sl_chunk := []\<rparr>) x)"
  "upd_slot (\<lambda>s. s\<lparr>sl_control := sl_control s @ d\<rparr>) (push_input b x) = push_input b (upd_slot (\<lambda>s. s\<lparr>sl_control := sl_control s @ d\<rparr>) x)"
  "upd_slot (\<lambda>s. s\<lparr>sl_message_active := False, sl_message_opcode := Op_Continuation, sl_message_size := 0\<rparr>) (push_input b x) =
   push_input b (upd_slot (\<lambda>s. s\<lparr>sl_message_active := False, sl_message_opcode := Op_Continuation, sl_message_size := 0\<rparr>) x)"
  "upd_slot (\<lambda>s. s\<lparr>sl_message_active := True, sl_message_opcode := op, sl_message_size := 0, sl_chunk := []\<rparr>) (push_input b x) =
   push_input b (upd_slot (\<lambda>s. s\<lparr>sl_message_active := True, sl_message_opcode := op, sl_message_size := 0, sl_chunk := []\<rparr>) x)"
  "upd_slot (\<lambda>s. s\<lparr>sl_frame_active := True, sl_frame_fin := fin, sl_frame_control := ctl, sl_frame_opcode := op,
     sl_frame_remaining := n, sl_frame_offset := 0, sl_control := []\<rparr>) (push_input b x) =
   push_input b (upd_slot (\<lambda>s. s\<lparr>sl_frame_active := True, sl_frame_fin := fin, sl_frame_control := ctl, sl_frame_opcode := op,
     sl_frame_remaining := n, sl_frame_offset := 0, sl_control := []\<rparr>) x)"
  by (rule push_upd, simp)+

lemma push_consume: "n \<le> length (sl_input (wx_slot x)) \<Longrightarrow> ws_consume n (push_input b x) = push_input b (ws_consume n x)"
  by (simp add: ws_consume_def push_input_def upd_slot_def)

lemma push_write_all:
  "ws_write_all env d x = (ok, y) \<Longrightarrow> ws_write_all env d (push_input b x) = (ok, push_input b y)"
  by (auto simp: ws_write_all_def push_input_def upd_slot_def split: if_splits prod.splits)

lemma push_write_control:
  "ws_write_control env op p x = (ok, y) \<Longrightarrow> ws_write_control env op p (push_input b x) = (ok, push_input b y)"
  by (auto simp: ws_write_control_def push_write_all split: option.splits)

lemma push_flush: "flush_chunk env x = (ok, y) \<Longrightarrow> flush_chunk env (push_input b x) = (ok, push_input b y)"
  by (auto simp: flush_chunk_def Let_def push_emit push_upds split: if_splits)

lemma push_begin_message:
  "begin_message env op fin n x = (ok, y) \<Longrightarrow> begin_message env op fin n (push_input b x) = (ok, push_input b y)"
  by (auto simp: begin_message_def Let_def push_emit push_upds split: if_splits)

lemma push_finish_frame:
  assumes "finish_frame env x = (True, y)"
  shows "finish_frame env (push_input b x) = (True, push_input b y)"
proof -
  let ?x0 = "upd_slot (\<lambda>s. s\<lparr>sl_frame_active := False\<rparr>) x"
  have 0: "upd_slot (\<lambda>s. s\<lparr>sl_frame_active := False\<rparr>) (push_input b x) = push_input b ?x0" by (rule push_upds)
  obtain ok1 x1 where 1: "ws_write_control env Op_Pong (sl_control (wx_slot x)) ?x0 = (ok1, x1)" by fastforce
  obtain ok2 x2 where 2: "ws_write_control env Op_Close (sl_control (wx_slot x)) ?x0 = (ok2, x2)" by fastforce
  obtain ok3 x3 where 3: "flush_chunk env ?x0 = (ok3, x3)" by fastforce
  show ?thesis
    using assms
    unfolding finish_frame_def Let_def 0 push_input_fields 1 2 3 push_write_control [OF 1] push_write_control [OF 2] push_flush [OF 3]
    by (auto simp: protocol_failure_def push_emit push_upds split: if_splits)
qed

lemma frame_length_field_append:
  assumes "frame_length_field input = Some v" "2 \<le> length input"
  shows "frame_length_field (input @ b) = Some v"
proof -
  have 1: "(input @ b) ! 1 = input ! 1" using assms(2) by (simp add: nth_append)
  show ?thesis
    using assms unfolding frame_length_field_def Let_def 1 by (auto simp: nth_append split: if_splits)
qed

lemma frame_header_append:
  assumes "frame_header input = (r, h)" "r \<noteq> HdrNeedMore"
  shows "frame_header (input @ b) = (r, h)"
proof -
  have l: "2 \<le> length input" using assms by (auto simp: frame_header_def Let_def split: if_splits)
  then have n: "(input @ b) ! 0 = input ! 0" "(input @ b) ! 1 = input ! 1" by (auto simp: nth_append)
  show ?thesis
  proof (cases "input ! 0 AND 0x70 \<noteq> 0 \<or> input ! 1 AND 0x80 = 0")
    case True
    then show ?thesis using assms l by (simp add: frame_header_def n [simplified] Let_def)
  next
    case False
    then obtain m off where v: "frame_length_field input = Some (m, off)" "off + 4 \<le> length input"
      using assms l by (auto simp: frame_header_def Let_def split: if_splits option.splits)
    with frame_length_field_append [OF v(1) l] assms l False show ?thesis by (simp add: frame_header_def Let_def n [simplified])
  qed
qed

lemma push_start_frame:
  assumes "start_frame env fin op n off x = (HdrOk, y)" "off + 4 \<le> length (sl_input (wx_slot x))"
  shows "start_frame env fin op n off (push_input b x) = (HdrOk, push_input b y)"
proof -
  let ?x1 = "upd_slot (\<lambda>s. s\<lparr>sl_frame_mask := take 4 (drop off (sl_input s))\<rparr>) x"
  define x2 where "x2 = upd_slot (\<lambda>s. s\<lparr>sl_frame_active := True, sl_frame_fin := fin, sl_frame_control := 8 \<le> op,
     sl_frame_opcode := op, sl_frame_remaining := n, sl_frame_offset := 0, sl_control := []\<rparr>) (ws_consume (off + 4) ?x1)"
  have 1: "upd_slot (\<lambda>s. s\<lparr>sl_frame_mask := take 4 (drop off (sl_input s))\<rparr>) (push_input b x) = push_input b ?x1"
    using assms(2) by (simp add: push_input_def upd_slot_def)
  have 2: "ws_consume (off + 4) (push_input b ?x1) = push_input b (ws_consume (off + 4) ?x1)"
    using assms(2) by (intro push_consume) (simp add: upd_slot_def)
  show ?thesis
    using assms(1) push_finish_frame [of env x2 y b]
    unfolding start_frame_def Let_def 1 2 push_upds x2_def [symmetric]
    by (cases "finish_frame env x2") (auto split: if_splits)
qed

lemma push_begin_frame:
  assumes "begin_frame env z x = (HdrOk, y)"
  shows "begin_frame env z (push_input b x) = (HdrOk, push_input b y)"
proof -
  obtain r fin op n off where h: "frame_header (sl_input (wx_slot x)) = (r, fin, op, n, off)" by (metis prod.exhaust)
  obtain ok x1 where bm: "begin_message env op fin n x = (ok, x1)" by fastforce
  have r: "r = HdrOk" using assms h by (cases r) (auto simp: begin_frame_def)
  have l: "sl_input (wx_slot x1) = sl_input (wx_slot x)" using begin_message_input [of env op fin n x] bm by simp
  show ?thesis
    using assms h r bm frame_header_append [OF h, of b] frame_header_ok [of "sl_input (wx_slot x)" fin op n off]
      push_begin_message [OF bm, of b] push_start_frame [of env fin op n off x1 y b] l
    by (auto simp: begin_frame_def split: if_splits)
qed

text \<open>A slot update that neither reads nor changes what \<open>take_data\<close> works on.\<close>

definition neutral :: "('c ws_slot \<Rightarrow> 'c ws_slot) \<Rightarrow> bool" where
  "neutral g \<longleftrightarrow> (\<forall>s c m. g (s\<lparr>sl_chunk := c, sl_message_size := m\<rparr>) = (g s)\<lparr>sl_chunk := c, sl_message_size := m\<rparr>) \<and>
     (\<forall>s c. g (s\<lparr>sl_chunk := c\<rparr>) = (g s)\<lparr>sl_chunk := c\<rparr>) \<and>
     (\<forall>s. sl_chunk (g s) = sl_chunk s \<and> sl_message_size (g s) = sl_message_size s \<and>
          sl_message_opcode (g s) = sl_message_opcode s \<and> sl_connection (g s) = sl_connection s)"

lemma neutral_fields:
  "neutral g \<Longrightarrow> sl_chunk (wx_slot (upd_slot g x)) = sl_chunk (wx_slot x) \<and>
   sl_message_size (wx_slot (upd_slot g x)) = sl_message_size (wx_slot x) \<and>
   sl_message_opcode (wx_slot (upd_slot g x)) = sl_message_opcode (wx_slot x) \<and>
   sl_connection (wx_slot (upd_slot g x)) = sl_connection (wx_slot x) \<and> wx_conn (upd_slot g x) = wx_conn x \<and>
   wx_events (upd_slot g x) = wx_events x"
  by (simp add: neutral_def upd_slot_def)

lemma neutral_flush:
  assumes "neutral g" "flush_chunk env x = (ok, y)"
  shows "flush_chunk env (upd_slot g x) = (ok, upd_slot g y)"
proof -
  have "ws_emit env e (upd_slot g x) = upd_slot g (ws_emit env e x)" for e x by (simp add: ws_emit_def upd_slot_def)
  moreover have "upd_slot (\<lambda>s. s\<lparr>sl_chunk := []\<rparr>) (upd_slot g x) = upd_slot g (upd_slot (\<lambda>s. s\<lparr>sl_chunk := []\<rparr>) x)" for x
    using assms(1) by (simp add: neutral_def upd_slot_def)
  ultimately show ?thesis
    using assms(2) neutral_fields [OF assms(1)] by (auto simp: flush_chunk_def Let_def split: if_splits)
qed

lemma neutral_take_data_both:
  assumes "neutral g"
  shows "fst (take_data env z d (upd_slot g x)) = fst (take_data env z d x) \<and>
    (fst (take_data env z d x) \<longrightarrow> snd (take_data env z d (upd_slot g x)) = upd_slot g (snd (take_data env z d x)))"
proof (induction env z d x rule: take_data.induct)
  case (1 env z d x)
  define room where "room = wz_chunk z - length (sl_chunk (wx_slot x))"
  define x1 where "x1 = upd_slot (\<lambda>s. s\<lparr>sl_chunk := sl_chunk s @ take room d,
    sl_message_size := sl_message_size s + length (take room d)\<rparr>) x"
  obtain fk x2 where f: "flush_chunk env x1 = (fk, x2)" by fastforce
  have e: "upd_slot (\<lambda>s. s\<lparr>sl_chunk := sl_chunk s @ take room d, sl_message_size := sl_message_size s + length (take room d)\<rparr>)
      (upd_slot g x) = upd_slot g x1"
    using assms by (simp add: x1_def upd_slot_def neutral_def)
  note n = neutral_fields [OF assms]
  note ih1 = 1(1) [OF _ _ room_def refl x1_def _ _ f [symmetric]]
  note ih2 = 1(2) [OF _ _ room_def refl x1_def]
  have l: "sl_chunk (wx_slot (upd_slot g x)) = sl_chunk (wx_slot x)" using n by blast
  show ?case
    using ih1 ih2 n [of x1]
    unfolding take_data.simps [of env z d "upd_slot g x"] take_data.simps [of env z d x] Let_def l room_def [symmetric] e
      x1_def [symmetric] neutral_flush [OF assms f] f
    by auto
qed

lemma neutral_take_data:
  "neutral g \<Longrightarrow> take_data env z d x = (True, y) \<Longrightarrow> take_data env z d (upd_slot g x) = (True, upd_slot g y)"
  using neutral_take_data_both [of g env z d x] by (cases "take_data env z d (upd_slot g x)") auto

lemma neutral_take_payload:
  assumes "neutral g" "\<And>s. sl_frame_control (g s) = sl_frame_control s" "\<And>s. sl_control (g s) = sl_control s"
    "\<And>s d. g (s\<lparr>sl_control := d\<rparr>) = (g s)\<lparr>sl_control := d\<rparr>" "take_payload env z d x = (True, y)"
  shows "take_payload env z d (upd_slot g x) = (True, upd_slot g y)"
  using assms neutral_take_data [OF assms(1), of env z d x y]
  by (auto simp: take_payload_def protocol_failure_def upd_slot_def split: if_splits)

lemma neutral_take_payload_fst:
  assumes "neutral g" "\<And>s. sl_frame_control (g s) = sl_frame_control s" "\<And>s. sl_control (g s) = sl_control s"
  shows "fst (take_payload env z d (upd_slot g x)) = fst (take_payload env z d x)"
  using assms neutral_take_data_both [OF assms(1), of env z d x]
  by (auto simp: take_payload_def protocol_failure_def upd_slot_def)

lemma take_payload_frame:
  fixes x :: "'c ws_ctx"
  assumes "take_payload env z d x = (True, y)"
  shows "sl_input (wx_slot y) = sl_input (wx_slot x) \<and> sl_frame_offset (wx_slot y) = sl_frame_offset (wx_slot x) \<and>
    sl_frame_remaining (wx_slot y) = sl_frame_remaining (wx_slot x) \<and> sl_frame_active (wx_slot y) = sl_frame_active (wx_slot x) \<and>
    sl_frame_mask (wx_slot y) = sl_frame_mask (wx_slot x) \<and> sl_frame_control (wx_slot y) = sl_frame_control (wx_slot x) \<and>
    sl_frame_fin (wx_slot y) = sl_frame_fin (wx_slot x) \<and> sl_frame_opcode (wx_slot y) = sl_frame_opcode (wx_slot x) \<and>
    sl_message_active (wx_slot y) = sl_message_active (wx_slot x) \<and> sl_state (wx_slot y) = sl_state (wx_slot x) \<and>
    sl_connection (wx_slot y) = sl_connection (wx_slot x)"
proof -
  let ?s = "wx_slot x"
  define g where "g = (\<lambda>s :: 'c ws_slot. s\<lparr>sl_input := sl_input ?s, sl_frame_offset := sl_frame_offset ?s, sl_frame_remaining := sl_frame_remaining ?s,
    sl_frame_active := sl_frame_active ?s, sl_frame_mask := sl_frame_mask ?s, sl_frame_fin := sl_frame_fin ?s,
    sl_frame_opcode := sl_frame_opcode ?s, sl_message_active := sl_message_active ?s, sl_state := sl_state ?s,
    sl_frame_control := sl_frame_control ?s\<rparr>)"
  have n: "neutral g" by (simp add: neutral_def g_def)
  have "upd_slot g x = x" by (simp add: upd_slot_def g_def)
  then have "take_data env z d x = (True, y) \<Longrightarrow> y = upd_slot g y" using neutral_take_data [OF n, of env z d x y] by simp
  moreover have "take_data env z d x = (True, y) \<Longrightarrow> sl_connection (wx_slot y) = sl_connection ?s"
    using take_data_input by blast
  moreover have "sl_input (wx_slot (upd_slot g y)) = sl_input ?s" "sl_frame_offset (wx_slot (upd_slot g y)) = sl_frame_offset ?s"
    "sl_frame_remaining (wx_slot (upd_slot g y)) = sl_frame_remaining ?s" "sl_frame_active (wx_slot (upd_slot g y)) = sl_frame_active ?s"
    "sl_frame_mask (wx_slot (upd_slot g y)) = sl_frame_mask ?s" "sl_frame_control (wx_slot (upd_slot g y)) = sl_frame_control ?s"
    "sl_frame_fin (wx_slot (upd_slot g y)) = sl_frame_fin ?s" "sl_frame_opcode (wx_slot (upd_slot g y)) = sl_frame_opcode ?s"
    "sl_message_active (wx_slot (upd_slot g y)) = sl_message_active ?s" "sl_state (wx_slot (upd_slot g y)) = sl_state ?s" for y
    by (simp_all add: upd_slot_def g_def)
  ultimately have "take_data env z d x = (True, y) \<Longrightarrow> ?thesis" by metis
  then show ?thesis using assms by (auto simp: take_payload_def protocol_failure_def upd_slot_def split: if_splits)
qed

lemma take_data_nil: "wz_chunk z \<noteq> 0 \<Longrightarrow> length (sl_chunk (wx_slot x)) \<le> wz_chunk z \<Longrightarrow> take_data env z [] x = (True, x)"
  by (simp add: take_data.simps)

definition put_chunk :: "u8 list \<Rightarrow> 'c ws_ctx \<Rightarrow> 'c ws_ctx" where
  "put_chunk part = upd_slot (\<lambda>s. s\<lparr>sl_chunk := sl_chunk s @ part, sl_message_size := sl_message_size s + length part\<rparr>)"

lemma put_chunk_fields [simp]:
  "sl_chunk (wx_slot (put_chunk part x)) = sl_chunk (wx_slot x) @ part"
  "sl_message_size (wx_slot (put_chunk part x)) = sl_message_size (wx_slot x) + length part"
  by (simp_all add: put_chunk_def upd_slot_def)

lemma put_chunk_twice: "put_chunk q (put_chunk p x) = put_chunk (p @ q) x"
  by (simp add: put_chunk_def upd_slot_def ac_simps)

text \<open>The two ways the loop goes on: the data stay below the chunk, or fill it.\<close>

lemma take_data_short:
  assumes "length (sl_chunk (wx_slot x)) + length d < wz_chunk z" "sl_message_size (wx_slot x) + length d \<le> wz_message z"
  shows "take_data env z d x = (True, put_chunk d x)"
proof (cases "d = []")
  case True
  with assms show ?thesis by (simp add: take_data_nil put_chunk_def upd_slot_def)
next
  case False
  then show ?thesis
    using assms take_data_nil [of z "put_chunk d x" env]
    by (subst take_data.simps) (simp add: Let_def put_chunk_def [symmetric])
qed

lemma take_data_fill:
  assumes "length (sl_chunk (wx_slot x)) + length p = wz_chunk z" "p @ e \<noteq> []" "0 < wz_chunk z"
    "sl_message_size (wx_slot x) + length p \<le> wz_message z"
  shows "take_data env z (p @ e) x =
    (case flush_chunk env (put_chunk p x) of (ok, x2) \<Rightarrow> if \<not> ok then (False, x2) else take_data env z e x2)"
proof -
  have "wz_chunk z - length (sl_chunk (wx_slot x)) = length p" using assms(1) by simp
  then show ?thesis
    using assms by (subst take_data.simps) (auto simp: Let_def put_chunk_def [symmetric] split: prod.split)
qed

lemma take_data_append:
  "take_data env z d x = (True, y) \<Longrightarrow> take_data env z (d @ e) x = take_data env z e y"
proof (induction env z d x arbitrary: y rule: take_data.induct)
  case (1 env z d x)
  let ?c = "sl_chunk (wx_slot x)"
  have g: "0 < wz_chunk z" "length ?c \<le> wz_chunk z"
    using 1(3) by (auto simp: take_data.simps [of env z d x] split: if_splits)
  define room where "room = wz_chunk z - length ?c"
  define x1 where "x1 = upd_slot (\<lambda>s. s\<lparr>sl_chunk := sl_chunk s @ take room d,
    sl_message_size := sl_message_size s + length (take room d)\<rparr>) x"
  have x1: "x1 = put_chunk (take room d) x" by (simp add: x1_def put_chunk_def)
  show ?case
  proof (cases "d = []")
    case True
    then show ?thesis using 1(3) g by (simp add: take_data_nil)
  next
    case ne: False
    have size: "sl_message_size (wx_slot x1) \<le> wz_message z"
      using 1(3) g ne unfolding take_data.simps [of env z d x] Let_def room_def [symmetric] x1_def [symmetric]
      by (auto split: if_splits)
    show ?thesis
    proof (cases "room \<le> length d")
      case True
      obtain fk x2 where f: "flush_chunk env x1 = (fk, x2)" by fastforce
      have full: "length ?c + length (take room d) = wz_chunk z" using True g by (simp add: room_def)
      have s: "take_data env z (take room d @ r) x = (if \<not> fk then (False, x2) else take_data env z r x2)"
        if "take room d @ r \<noteq> []" for r
        using take_data_fill [OF full that g(1)] size f by (simp add: x1)
      have fk: fk "take_data env z (drop room d) x2 = (True, y)" using s [of "drop room d"] 1(3) ne by (auto split: if_splits)
      have "take_data env z (drop room d @ e) x2 = take_data env z e y"
        using 1(1) [OF _ _ room_def refl x1_def _ _ f [symmetric] _ fk(2)] fk(1) ne size g full by (auto simp: x1)
      with s [of "drop room d @ e"] fk(1) ne show ?thesis by (simp flip: append_assoc)
    next
      case False
      then have x1': "x1 = put_chunk d x" by (simp add: x1)
      have y: "y = x1"
        using 1(3) take_data_short [of x d z env] False g size by (simp add: x1' room_def)
      show ?thesis
      proof (cases "e = []")
        case True
        then show ?thesis using 1(3) y x1' False g by (simp add: take_data_nil room_def)
      next
        case ee: False
        define room' where "room' = wz_chunk z - length (sl_chunk (wx_slot x1))"
        have r: "room' = room - length d" "length d \<le> room" using False by (auto simp: room'_def room_def x1')
        have pc: "put_chunk (take room (d @ e)) x = put_chunk (take room' e) x1" using r by (simp add: x1' put_chunk_twice)
        have dr: "drop room (d @ e) = drop room' e" using r by simp
        have "length (sl_chunk (wx_slot x1)) \<le> wz_chunk z" using r g by (simp add: x1' room_def)
        then show ?thesis
          using g ee unfolding y take_data.simps [of env z "d @ e" x] take_data.simps [of env z e x1] Let_def
            put_chunk_def [symmetric] room_def [symmetric] room'_def [symmetric] pc dr
          by simp
      qed
    qed
  qed
qed

lemma take_data_append_fail:
  "\<not> fst (take_data env z d x) \<Longrightarrow> \<not> fst (take_data env z (d @ e) x)"
proof (induction env z d x rule: take_data.induct)
  case (1 env z d x)
  let ?c = "sl_chunk (wx_slot x)"
  define room where "room = wz_chunk z - length ?c"
  define x1 where "x1 = upd_slot (\<lambda>s. s\<lparr>sl_chunk := sl_chunk s @ take room d,
    sl_message_size := sl_message_size s + length (take room d)\<rparr>) x"
  have x1: "x1 = put_chunk (take room d) x" by (simp add: x1_def put_chunk_def)
  show ?case
  proof (cases "wz_chunk z = 0 \<or> wz_chunk z < length ?c")
    case True
    then show ?thesis by (auto simp: take_data.simps [of env z "d @ e" x])
  next
    case g: False
    then have ne: "d \<noteq> []" using 1(3) by (auto simp: take_data_nil)
    show ?thesis
    proof (cases "wz_message z < sl_message_size (wx_slot x1)")
      case True
      have "sl_message_size (wx_slot x1) \<le> sl_message_size (wx_slot (put_chunk (take room (d @ e)) x))" by (simp add: x1)
      then have big: "wz_message z < sl_message_size (wx_slot (put_chunk (take room (d @ e)) x))" using True by linarith
      show ?thesis
        using g ne big unfolding take_data.simps [of env z "d @ e" x] Let_def put_chunk_def [symmetric] room_def [symmetric]
        by simp
    next
      case size: False
      obtain fk x2 where f: "flush_chunk env x1 = (fk, x2)" by fastforce
      have "room \<le> length d"
      proof (rule ccontr)
        assume "\<not> room \<le> length d"
        then have "fst (take_data env z d x)" using take_data_short [of x d z env] size g by (simp add: x1 room_def)
        with 1(3) show False by simp
      qed
      then have full: "length ?c + length (take room d) = wz_chunk z" using g by (simp add: room_def)
      have s: "take_data env z (take room d @ r) x = (if \<not> fk then (False, x2) else take_data env z r x2)"
        if "take room d @ r \<noteq> []" for r
        using take_data_fill [OF full that] size f g by (simp add: x1)
      have "fk \<Longrightarrow> \<not> fst (take_data env z (drop room d) x2)" using s [of "drop room d"] 1(3) ne by auto
      then have "fk \<Longrightarrow> \<not> fst (take_data env z (drop room d @ e) x2)"
        using 1(1) [OF _ _ room_def refl x1_def _ _ f [symmetric]] ne size g full by (auto simp: x1)
      with s [of "drop room d @ e"] ne show ?thesis by (simp flip: append_assoc)
    qed
  qed
qed

lemma push_finish_frame_fst: "fst (finish_frame env (push_input b x)) = fst (finish_frame env x)"
proof -
  let ?x0 = "upd_slot (\<lambda>s. s\<lparr>sl_frame_active := False\<rparr>) x"
  obtain ok1 x1 where 1: "ws_write_control env Op_Pong (sl_control (wx_slot x)) ?x0 = (ok1, x1)" by fastforce
  obtain ok2 x2 where 2: "ws_write_control env Op_Close (sl_control (wx_slot x)) ?x0 = (ok2, x2)" by fastforce
  obtain ok3 x3 where 3: "flush_chunk env ?x0 = (ok3, x3)" by fastforce
  show ?thesis
    unfolding finish_frame_def Let_def push_upds(1) push_input_fields 1 2 3 push_write_control [OF 1] push_write_control [OF 2] push_flush [OF 3]
    by (auto simp: protocol_failure_def)
qed

lemma push_start_frame_fst:
  assumes "off + 4 \<le> length (sl_input (wx_slot x))"
  shows "fst (start_frame env fin op n off (push_input b x)) = fst (start_frame env fin op n off x)"
proof -
  let ?x1 = "upd_slot (\<lambda>s. s\<lparr>sl_frame_mask := take 4 (drop off (sl_input s))\<rparr>) x"
  have 1: "upd_slot (\<lambda>s. s\<lparr>sl_frame_mask := take 4 (drop off (sl_input s))\<rparr>) (push_input b x) = push_input b ?x1"
    using assms by (simp add: push_input_def upd_slot_def)
  have 2: "ws_consume (off + 4) (push_input b ?x1) = push_input b (ws_consume (off + 4) ?x1)"
    using assms by (intro push_consume) (simp add: upd_slot_def)
  define x2 where "x2 = upd_slot (\<lambda>s. s\<lparr>sl_frame_active := True, sl_frame_fin := fin, sl_frame_control := 8 \<le> op,
     sl_frame_opcode := op, sl_frame_remaining := n, sl_frame_offset := 0, sl_control := []\<rparr>) (ws_consume (off + 4) ?x1)"
  show ?thesis
    using push_finish_frame_fst [of env b x2]
    unfolding start_frame_def Let_def 1 2 push_upds x2_def [symmetric]
    by (cases "finish_frame env x2"; cases "finish_frame env (push_input b x2)") auto
qed

lemma push_begin_frame_fst:
  assumes "fst (begin_frame env z x) \<noteq> HdrNeedMore"
  shows "fst (begin_frame env z (push_input b x)) = fst (begin_frame env z x)"
proof -
  obtain r fin op n off where h: "frame_header (sl_input (wx_slot x)) = (r, fin, op, n, off)" by (metis prod.exhaust)
  obtain ok x1 where bm: "begin_message env op fin n x = (ok, x1)" by fastforce
  have l: "sl_input (wx_slot x1) = sl_input (wx_slot x)" using begin_message_input [of env op fin n x] bm by simp
  have r: "r \<noteq> HdrNeedMore" using assms h by (auto simp: begin_frame_def)
  show ?thesis
    using h bm frame_header_append [OF h r, of b] frame_header_ok [of "sl_input (wx_slot x)" fin op n off]
      push_begin_message [OF bm, of b] push_start_frame_fst [of off x1 env fin op n b] l
    by (cases r) (auto simp: begin_frame_def)
qed

section \<open>The cuts do not matter\<close>

lemma unmask_from_append: "unmask_from k n (a @ b) = unmask_from k n a @ unmask_from k (n + length a) b"
  by (induction a arbitrary: n) auto

lemma length_unmask_from [simp]: "length (unmask_from k n a) = length a"
  by (induction a arbitrary: n) auto

lemma push_advance:
  "n \<le> length (sl_input (wx_slot x)) \<Longrightarrow> advance_frame n (push_input b x) = push_input b (advance_frame n x)"
  by (simp add: advance_frame_def push_input_def upd_slot_def ws_consume_def)

lemma push_take_payload:
  "take_payload env z d x = (True, y) \<Longrightarrow> take_payload env z d (push_input b x) = (True, push_input b y)"
  unfolding push_input_def by (rule neutral_take_payload) (auto simp: neutral_def)

lemma take_payload_append:
  assumes "take_payload env z d x = (True, y)" "sl_frame_control (wx_slot x) \<Longrightarrow> length (sl_control (wx_slot x)) + length (d @ e) \<le> 125"
  shows "take_payload env z (d @ e) x = take_payload env z e y"
  using assms take_data_append [of env z d x y e] take_payload_frame [OF assms(1)]
  by (auto simp: take_payload_def protocol_failure_def upd_slot_def split: if_splits)

text \<open>The frame in progress still expects octets, and a control frame fits its buffer.\<close>

definition frame_wf :: "'c ws_ctx \<Rightarrow> bool" where
  "frame_wf x \<longleftrightarrow> (sl_frame_active (wx_slot x) \<longrightarrow> 0 < sl_frame_remaining (wx_slot x) \<and>
     (sl_frame_control (wx_slot x) \<longrightarrow> length (sl_control (wx_slot x)) + sl_frame_remaining (wx_slot x) \<le> 125))"

lemma advance_fields [simp]:
  "sl_frame_remaining (wx_slot (advance_frame n x)) = sl_frame_remaining (wx_slot x) - n"
  "sl_frame_offset (wx_slot (advance_frame n x)) = sl_frame_offset (wx_slot x) + n"
  "sl_frame_active (wx_slot (advance_frame n x)) = sl_frame_active (wx_slot x)"
  "sl_frame_control (wx_slot (advance_frame n x)) = sl_frame_control (wx_slot x)"
  "sl_control (wx_slot (advance_frame n x)) = sl_control (wx_slot x)"
  "sl_frame_mask (wx_slot (advance_frame n x)) = sl_frame_mask (wx_slot x)"
  "sl_connection (wx_slot (advance_frame n x)) = sl_connection (wx_slot x)"
  by (simp_all add: advance_frame_def ws_defs)

definition payload_octets :: "'c ws_ctx \<Rightarrow> nat \<Rightarrow> u8 list" where
  "payload_octets x n = unmask_from (sl_frame_mask (wx_slot x)) (sl_frame_offset (wx_slot x)) (take n (sl_input (wx_slot x)))"

lemma consume_partial:
  assumes "sl_frame_active (wx_slot x)" "sl_input (wx_slot x) \<noteq> []" "length (sl_input (wx_slot x)) < sl_frame_remaining (wx_slot x)"
  shows "consume_frame_payload env z x =
    (case take_payload env z (payload_octets x (length (sl_input (wx_slot x)))) x of
       (ok, x1) \<Rightarrow> if \<not> ok then (False, x1) else (True, advance_frame (length (sl_input (wx_slot x))) x1))"
proof -
  obtain ok x1 where t: "take_payload env z (payload_octets x (length (sl_input (wx_slot x)))) x = (ok, x1)" by fastforce
  moreover have "min (length (sl_input (wx_slot x))) (sl_frame_remaining (wx_slot x)) = length (sl_input (wx_slot x))"
    using assms(3) by simp
  ultimately show ?thesis
    using assms take_payload_frame [of env z "payload_octets x (length (sl_input (wx_slot x)))" x x1]
    by (auto simp: consume_frame_payload_def Let_def payload_octets_def)
qed

lemma consume_complete:
  assumes "sl_frame_active (wx_slot x)" "sl_input (wx_slot x) \<noteq> []" "sl_frame_remaining (wx_slot x) \<le> length (sl_input (wx_slot x))"
  shows "consume_frame_payload env z x =
    (case take_payload env z (payload_octets x (sl_frame_remaining (wx_slot x))) x of
       (ok, x1) \<Rightarrow> if \<not> ok then (False, x1) else finish_frame env (advance_frame (sl_frame_remaining (wx_slot x)) x1))"
proof -
  obtain ok x1 where t: "take_payload env z (payload_octets x (sl_frame_remaining (wx_slot x))) x = (ok, x1)" by fastforce
  moreover have "min (length (sl_input (wx_slot x))) (sl_frame_remaining (wx_slot x)) = sl_frame_remaining (wx_slot x)"
    using assms(3) by simp
  ultimately show ?thesis
    using assms take_payload_frame [of env z "payload_octets x (sl_frame_remaining (wx_slot x))" x x1]
    by (auto simp: consume_frame_payload_def Let_def payload_octets_def)
qed

lemma consume_fail:
  assumes "sl_frame_active (wx_slot x)" "sl_input (wx_slot x) \<noteq> []"
    "\<not> fst (take_payload env z (payload_octets x (min (length (sl_input (wx_slot x))) (sl_frame_remaining (wx_slot x)))) x)"
  shows "\<not> fst (consume_frame_payload env z x)"
  using assms by (auto simp: consume_frame_payload_def Let_def payload_octets_def split: prod.split)

lemma consume_push_complete:
  assumes "sl_frame_active (wx_slot x)" "sl_input (wx_slot x) \<noteq> []" "sl_frame_remaining (wx_slot x) \<le> length (sl_input (wx_slot x))"
    and "consume_frame_payload env z x = (True, y)"
  shows "consume_frame_payload env z (push_input b x) = (True, push_input b y)"
proof -
  let ?r = "sl_frame_remaining (wx_slot x)"
  obtain x1 where 1: "take_payload env z (payload_octets x ?r) x = (True, x1)" "finish_frame env (advance_frame ?r x1) = (True, y)"
    using assms(4) consume_complete [OF assms(1-3), of env z] by (auto split: prod.splits if_splits)
  have "payload_octets (push_input b x) ?r = payload_octets x ?r" using assms(3) by (simp add: payload_octets_def)
  moreover have "advance_frame ?r (push_input b x1) = push_input b (advance_frame ?r x1)"
    using assms(3) take_payload_frame [OF 1(1)] by (intro push_advance) simp
  ultimately show ?thesis
    using push_take_payload [OF 1(1), of b] push_finish_frame [OF 1(2), of b] assms(1-3)
    by (subst consume_complete) auto
qed

lemma consume_push_partial:
  assumes "frame_wf x" "sl_frame_active (wx_slot x)" "sl_input (wx_slot x) \<noteq> []" "length (sl_input (wx_slot x)) < sl_frame_remaining (wx_slot x)"
    and "consume_frame_payload env z x = (True, y)" "b \<noteq> []"
  shows "fst (consume_frame_payload env z (push_input b x)) = fst (consume_frame_payload env z (push_input b y)) \<and>
    (fst (consume_frame_payload env z (push_input b y)) \<longrightarrow>
     consume_frame_payload env z (push_input b x) = consume_frame_payload env z (push_input b y))"
proof -
  let ?n = "length (sl_input (wx_slot x))" and ?r = "sl_frame_remaining (wx_slot x)"
  define m where "m = min (length b) (?r - ?n)"
  obtain x1 where 1: "take_payload env z (payload_octets x ?n) x = (True, x1)" and y: "y = advance_frame ?n x1"
    using assms(5) consume_partial [OF assms(2-4), of env z] by (auto split: prod.splits if_splits)
  note f = take_payload_frame [OF 1]
  define d where "d = unmask_from (sl_frame_mask (wx_slot x)) (sl_frame_offset (wx_slot x) + ?n) (take m b)"
  have ld: "length d = m" by (simp add: d_def m_def)
  have ctl: "sl_frame_control (wx_slot x) \<Longrightarrow> length (sl_control (wx_slot x)) + length (payload_octets x ?n @ d) \<le> 125"
    using assms(1,2,4) ld by (auto simp: frame_wf_def payload_octets_def m_def)
  have tx: "take_payload env z (payload_octets x ?n @ d) (push_input b x) = take_payload env z d (push_input b x1)"
    using push_take_payload [OF 1] ctl by (intro take_payload_append) auto
  have iy: "sl_input (wx_slot (push_input b y)) = b" "sl_frame_remaining (wx_slot (push_input b y)) = ?r - ?n"
    "sl_frame_active (wx_slot (push_input b y))"
    using f assms(2) by (auto simp: y)
  define g where "g = (\<lambda>s :: 'a ws_slot. s\<lparr>sl_frame_offset := sl_frame_offset (wx_slot x), sl_frame_remaining := ?r,
    sl_input := sl_input (wx_slot x) @ b\<rparr>)"
  have ng: "neutral g" by (simp add: neutral_def g_def)
  have g: "push_input b x1 = upd_slot g (push_input b y)"
    using f by (simp add: y g_def push_input_def advance_frame_def upd_slot_def ws_consume_def)
  have pl: "payload_octets (push_input b x) (?n + m) = payload_octets x ?n @ d" "payload_octets (push_input b y) m = d"
    using f by (auto simp: payload_octets_def d_def y unmask_from_append)
  have tg: "take_payload env z d (push_input b y) = (True, w) \<Longrightarrow>
      take_payload env z (payload_octets (push_input b x) (?n + m)) (push_input b x) = (True, upd_slot g w)" for w
    unfolding pl(1) tx g by (rule neutral_take_payload [OF ng]) (simp_all add: g_def)
  have adv: "advance_frame (?n + m) (upd_slot g w) = advance_frame m w"
    if "take_payload env z d (push_input b y) = (True, w)" for w
    using take_payload_frame [OF that] iy f
    by (simp add: advance_frame_def upd_slot_def ws_consume_def g_def y m_def)
  obtain ok w where w: "take_payload env z d (push_input b y) = (ok, w)" by fastforce
  have tf: "fst (take_payload env z (payload_octets (push_input b x) (?n + m)) (push_input b x)) = ok"
    unfolding pl(1) tx g using neutral_take_payload_fst [OF ng, of env z d "push_input b y"] w by (simp add: g_def)
  have nm: "?n + m = (if length b < ?r - ?n then ?n + length b else ?r)" using assms(4) by (simp add: m_def)
  show ?thesis
  proof (cases ok)
    case True
    have X: "take_payload env z (payload_octets (push_input b x) (?n + m)) (push_input b x) = (True, upd_slot g w)"
      using tg w True by simp
    have adv': "advance_frame (?n + m) (upd_slot g w) = advance_frame m w" using adv w True by simp
    show ?thesis
    proof (cases "length b < ?r - ?n")
      case True
      then have m: "m = length b" by (simp add: m_def)
      show ?thesis
        using consume_partial [of "push_input b x" env z] consume_partial [of "push_input b y" env z] iy assms(2,6) True X adv' w pl(2) \<open>ok\<close> m
        by simp
    next
      case False
      then have m: "m = ?r - ?n" "?n + m = ?r" using nm by (auto simp: m_def)
      show ?thesis
        using consume_complete [of "push_input b x" env z] consume_complete [of "push_input b y" env z] iy assms(2,6) False X adv' w pl(2) \<open>ok\<close> m
        by simp
    qed
  next
    case False
    have "\<not> fst (consume_frame_payload env z (push_input b y))"
      using consume_fail [of "push_input b y" env z] w False iy assms(6) pl(2) by (simp add: m_def)
    moreover have "min (length (sl_input (wx_slot (push_input b x)))) (sl_frame_remaining (wx_slot (push_input b x))) = ?n + m"
      using assms(4) by (simp add: m_def)
    ultimately show ?thesis
      using consume_fail [of "push_input b x" env z] tf False assms(2,6) by simp
  qed
qed

lemma consume_push_fail:
  assumes "frame_wf x" "\<not> fst (consume_frame_payload env z x)"
  shows "\<not> fst (consume_frame_payload env z (push_input b x))"
proof -
  let ?n = "length (sl_input (wx_slot x))" and ?r = "sl_frame_remaining (wx_slot x)"
  have act: "sl_frame_active (wx_slot x)" "sl_input (wx_slot x) \<noteq> []"
    using assms(2) by (auto simp: consume_frame_payload_def Let_def split: if_splits)
  show ?thesis
  proof (cases "?n < ?r")
    case True
    define m where "m = min (length b) (?r - ?n)"
    define d where "d = unmask_from (sl_frame_mask (wx_slot x)) (sl_frame_offset (wx_slot x) + ?n) (take m b)"
    have f: "\<not> fst (take_payload env z (payload_octets x ?n) x)"
      using assms(2) consume_partial [OF act True, of env z] by (auto split: prod.splits if_splits)
    moreover have "\<not> sl_frame_control (wx_slot x)"
      using f assms(1) act True by (auto simp: take_payload_def frame_wf_def payload_octets_def)
    ultimately have "\<not> fst (take_data env z (payload_octets x ?n @ d) x)" and c: "\<not> sl_frame_control (wx_slot x)"
      by (auto simp: take_payload_def take_data_append_fail)
    then have "\<not> fst (take_payload env z (payload_octets x ?n @ d) (push_input b x))"
      using neutral_take_data_both [of "\<lambda>s. s\<lparr>sl_input := sl_input s @ b\<rparr>" env z "payload_octets x ?n @ d" x]
      by (simp add: take_payload_def push_input_def neutral_def upd_slot_def)
    moreover have "payload_octets (push_input b x) (?n + m) = payload_octets x ?n @ d"
      by (auto simp: payload_octets_def d_def unmask_from_append)
    moreover have "min (?n + length b) ?r = ?n + m" using True by (simp add: m_def)
    ultimately show ?thesis using consume_fail [of "push_input b x" env z] act by simp
  next
    case False
    then have r: "?r \<le> ?n" by simp
    obtain ok x1 where 1: "take_payload env z (payload_octets x ?r) x = (ok, x1)" by fastforce
    have pl: "payload_octets (push_input b x) ?r = payload_octets x ?r" using r by (simp add: payload_octets_def)
    show ?thesis
    proof (cases ok)
      case True
      then have "\<not> fst (finish_frame env (advance_frame ?r x1))" using assms(2) consume_complete [OF act r, of env z] 1 by simp
      moreover have "advance_frame ?r (push_input b x1) = push_input b (advance_frame ?r x1)"
        using r take_payload_frame [of env z "payload_octets x ?r" x x1] 1 True by (intro push_advance) simp
      ultimately show ?thesis
        using consume_complete [of "push_input b x" env z] act r pl push_take_payload [of env z "payload_octets x ?r" x x1 b] 1 True
          push_finish_frame_fst [of env b "advance_frame ?r x1"] by simp
    next
      case False
      have "\<not> fst (take_payload env z (payload_octets x ?r) (push_input b x))"
        using neutral_take_payload_fst [of "\<lambda>s. s\<lparr>sl_input := sl_input s @ b\<rparr>" env z "payload_octets x ?r" x] 1 False
        by (simp add: push_input_def neutral_def)
      then show ?thesis using consume_fail [of "push_input b x" env z] act pl r by (simp add: min_absorb2)
    qed
  qed
qed

lemma ws_write_control_eq: "ws_write_control env op p x = (ok, y) \<Longrightarrow> wx_slot y = wx_slot x"
  using ws_write_slot(2) [of env op p x] by simp

lemma finish_frame_inactive:
  assumes "finish_frame env x = (True, y)"
  shows "\<not> sl_frame_active (wx_slot y) \<and> sl_connection (wx_slot y) = sl_connection (wx_slot x)"
proof -
  let ?x0 = "upd_slot (\<lambda>s. s\<lparr>sl_frame_active := False\<rparr>) x"
  obtain ok1 x1 where 1: "ws_write_control env Op_Pong (sl_control (wx_slot x)) ?x0 = (ok1, x1)" by fastforce
  obtain ok2 x2 where 2: "ws_write_control env Op_Close (sl_control (wx_slot x)) ?x0 = (ok2, x2)" by fastforce
  obtain ok3 x3 where 3: "flush_chunk env ?x0 = (ok3, x3)" by fastforce
  have "\<not> sl_frame_active (wx_slot x1)" "sl_connection (wx_slot x1) = sl_connection (wx_slot x)"
    using ws_write_control_eq [OF 1] by (simp_all add: upd_slot_def)
  moreover have "\<not> sl_frame_active (wx_slot x3)" "sl_connection (wx_slot x3) = sl_connection (wx_slot x)"
    using 3 by (auto simp: flush_chunk_def Let_def ws_defs split: if_splits)
  ultimately show ?thesis
    using assms unfolding finish_frame_def Let_def 1 2 3 by (auto simp: protocol_failure_def ws_defs split: if_splits)
qed

lemma consume_frame_wf:
  assumes "frame_wf x" "consume_frame_payload env z x = (True, y)"
  shows "frame_wf y"
proof (cases "sl_frame_active (wx_slot x) \<and> sl_input (wx_slot x) \<noteq> []")
  case active: True
  show ?thesis
  proof (cases "length (sl_input (wx_slot x)) < sl_frame_remaining (wx_slot x)")
    case True
    let ?n = "length (sl_input (wx_slot x))"
    obtain x1 where 1: "take_payload env z (payload_octets x ?n) x = (True, x1)" and y: "y = advance_frame ?n x1"
      using assms(2) consume_partial [of x env z] active True by (auto split: prod.splits if_splits)
    have "sl_frame_control (wx_slot x) \<Longrightarrow> length (sl_control (wx_slot x1)) = length (sl_control (wx_slot x)) + ?n"
      using 1 by (auto simp: take_payload_def protocol_failure_def upd_slot_def payload_octets_def split: if_splits)
    then show ?thesis using take_payload_frame [OF 1] assms(1) active True by (auto simp: frame_wf_def y)
  next
    case False
    then show ?thesis
      using assms(2) consume_complete [of x env z] active by (auto simp: frame_wf_def dest: finish_frame_inactive split: prod.splits if_splits)
  qed
qed (use assms in \<open>auto simp: consume_frame_payload_def Let_def\<close>)

lemma begin_frame_wf:
  assumes "begin_frame env z x = (HdrOk, y)"
  shows "frame_wf y \<and> sl_connection (wx_slot y) = sl_connection (wx_slot x)"
proof -
  obtain r fin op n off where h: "frame_header (sl_input (wx_slot x)) = (r, fin, op, n, off)" by (metis prod.exhaust)
  obtain ok x1 where bm: "begin_message env op fin n x = (ok, x1)" by fastforce
  have r: "r = HdrOk" using assms h by (cases r) (auto simp: begin_frame_def)
  have c: "ok \<Longrightarrow> 8 \<le> op \<Longrightarrow> n \<le> 125" using bm by (auto simp: begin_message_def split: if_splits)
  have c1: "sl_connection (wx_slot x1) = sl_connection (wx_slot x)"
    using bm by (auto simp: begin_message_def Let_def ws_defs split: if_splits)
  have "start_frame env fin op n off x1 = (HdrOk, y)" ok using assms h r bm by (auto simp: begin_frame_def split: if_splits)
  then show ?thesis
    using c c1 by (auto simp: start_frame_def Let_def frame_wf_def ws_defs dest: finish_frame_inactive split: if_splits prod.splits)
qed

lemma begin_frame_more: "begin_frame env z x = (HdrNeedMore, y) \<Longrightarrow> y = x"
  by (auto simp: begin_frame_def start_frame_def Let_def split: prod.splits header_result.splits if_splits)

text \<open>One round of the loop of \<open>process_slot\<close> once the frame header is read.\<close>

lemma process_frames_active:
  assumes "sl_connection (wx_slot x) \<noteq> None" "sl_input (wx_slot x) \<noteq> []" "sl_frame_active (wx_slot x)"
  shows "process_frames env z x = (case consume_frame_payload env z x of
    (ok, x2) \<Rightarrow> if \<not> ok then (False, x2) else if sl_frame_active (wx_slot x2) then (True, x2) else process_frames env z x2)"
  using process_frames_step [OF assms(1,2), of env z HdrOk x] assms(3) by simp

lemma process_frames_header:
  assumes "sl_connection (wx_slot x) \<noteq> None" "sl_input (wx_slot x) \<noteq> []" "\<not> sl_frame_active (wx_slot x)"
    "begin_frame env z x = (HdrOk, x1)"
  shows "process_frames env z x = (case consume_frame_payload env z x1 of
    (ok, x2) \<Rightarrow> if \<not> ok then (False, x2) else if sl_frame_active (wx_slot x2) then (True, x2) else process_frames env z x2)"
  using process_frames_step [OF assms(1,2), of env z HdrOk x1] assms(3,4) by simp

lemma process_frames_append:
  "b \<noteq> [] \<Longrightarrow> frame_wf x \<Longrightarrow> process_frames env z (push_input b x) = (True, v) \<longleftrightarrow>
     (\<exists>y. process_frames env z x = (True, y) \<and> process_frames env z (push_input b y) = (True, v))"
proof (induction env z x rule: process_frames.induct)
  case (1 env z x)
  show ?case
  proof (cases "sl_connection (wx_slot x) = None \<or> sl_input (wx_slot x) = []")
    case True
    then show ?thesis by (cases "sl_connection (wx_slot x) = None") (simp_all add: process_frames_idle)
  next
    case False': False
    then have c: "sl_connection (wx_slot x) \<noteq> None" and i: "sl_input (wx_slot x) \<noteq> []" by auto
    define h where "h = (if sl_frame_active (wx_slot x) then (HdrOk, x) else begin_frame env z x)"
    obtain r x1 where hr: "h = (r, x1)" by fastforce
    note st = process_frames_step [OF c i, of env z r x1, folded h_def, OF hr]
    define hb where "hb = (if sl_frame_active (wx_slot x) then (HdrOk, push_input b x) else begin_frame env z (push_input b x))"
    obtain rb xb where hbr: "hb = (rb, xb)" by fastforce
    have stb: "process_frames env z (push_input b x) = (case rb of
        HdrNeedMore \<Rightarrow> (True, xb)
      | HdrPayloadTooLarge \<Rightarrow> (False, fail_and_close env WePayloadTooLarge xb)
      | HdrProtocolError \<Rightarrow> (False, fail_and_close env WeProtocolError xb)
      | HdrOk \<Rightarrow> (case consume_frame_payload env z xb of
          (ok, x2) \<Rightarrow> if \<not> ok then (False, x2) else if sl_frame_active (wx_slot x2) then (True, x2) else process_frames env z x2))"
      using hbr c i by (intro process_frames_step) (simp_all add: hb_def)
    show ?thesis
    proof (cases "r = HdrOk")
      case False
      show ?thesis
      proof (cases "r = HdrNeedMore")
        case True
        then have "x1 = x" using hr begin_frame_more by (auto simp: h_def split: if_splits)
        then show ?thesis using st True by simp
      next
        case more: False
        then have "rb = r" using push_begin_frame_fst [of env z x b] hr hbr False by (auto simp: h_def hb_def split: if_splits)
        then show ?thesis using False more st stb by (cases r) auto
      qed
    next
      case True
      have wf1: "frame_wf x1" using 1(3) hr True begin_frame_wf by (auto simp: h_def split: if_splits)
      have c1: "sl_connection (wx_slot x1) \<noteq> None" using c hr True begin_frame_wf [of env z x x1] by (auto simp: h_def split: if_splits)
      have hb: "rb = HdrOk" "xb = push_input b x1" using hr hbr True push_begin_frame [of env z x x1 b] by (auto simp: h_def hb_def split: if_splits)
      obtain ok x2 where x2: "consume_frame_payload env z x1 = (ok, x2)" by fastforce
      note px = st [unfolded True, simplified, unfolded x2, simplified]
      note pb = stb [unfolded hb, simplified]
      have ih: "process_frames env z (push_input b x2) = (True, v) \<longleftrightarrow>
         (\<exists>y. process_frames env z x2 = (True, y) \<and> process_frames env z (push_input b y) = (True, v))"
        if ok "\<not> sl_frame_active (wx_slot x2)"
        using 1(1) [OF False' _ _ _ _ that(2) 1(2), of r x1 ok] x2 that consume_frame_wf [OF wf1, of env z x2] hr True by (simp add: h_def)
      show ?thesis
      proof (cases ok)
        case False
        then show ?thesis using consume_push_fail [OF wf1, of env z b] x2 px pb by (auto split: prod.splits)
      next
        case ok: True
        consider (idle) "\<not> sl_frame_active (wx_slot x1)" | (wait) "sl_frame_active (wx_slot x1)" "sl_input (wx_slot x1) = []"
          | (part) "sl_frame_active (wx_slot x1)" "sl_input (wx_slot x1) \<noteq> []" "length (sl_input (wx_slot x1)) < sl_frame_remaining (wx_slot x1)"
          | (full) "sl_frame_active (wx_slot x1)" "sl_input (wx_slot x1) \<noteq> []" "sl_frame_remaining (wx_slot x1) \<le> length (sl_input (wx_slot x1))"
          by fastforce
        then show ?thesis
        proof cases
          case idle
          then have "x2 = x1" using x2 by (simp add: consume_frame_payload_def Let_def)
          moreover have "consume_frame_payload env z (push_input b x1) = (True, push_input b x1)"
            using idle by (simp add: consume_frame_payload_def Let_def)
          ultimately show ?thesis using ih px pb idle ok by simp
        next
          case wait
          then have "x2 = x1" using x2 by (simp add: consume_frame_payload_def Let_def)
          then show ?thesis
            using px pb ok wait process_frames_active [of "push_input b x1" env z] c1 1(2) by simp
        next
          case part
          obtain w where w: "take_payload env z (payload_octets x1 (length (sl_input (wx_slot x1)))) x1 = (True, w)"
              "x2 = advance_frame (length (sl_input (wx_slot x1))) w"
            using x2 ok consume_partial [OF part, of env z] by (auto split: prod.splits if_splits)
          have c2: "sl_connection (wx_slot x2) \<noteq> None" "sl_frame_active (wx_slot x2)"
            using take_payload_frame [OF w(1)] c1 part w(2) by auto
          then have a: "process_frames env z (push_input b x2) = (case consume_frame_payload env z (push_input b x2) of
              (ok, x2) \<Rightarrow> if \<not> ok then (False, x2) else if sl_frame_active (wx_slot x2) then (True, x2) else process_frames env z x2)"
            using 1(2) by (intro process_frames_active) auto
          show ?thesis
            using consume_push_partial [OF wf1 part x2 [unfolded eqTrueI [OF ok]] 1(2)] px pb a c2 ok
            by (cases "consume_frame_payload env z (push_input b x2)"; cases "consume_frame_payload env z (push_input b x1)") auto
        next
          case full
          have "\<not> sl_frame_active (wx_slot x2)"
            using x2 ok consume_complete [OF full, of env z] finish_frame_inactive by (auto split: prod.splits if_splits)
          then show ?thesis
            using ih px pb consume_push_complete [OF full, of env z x2 b] x2 ok by simp
        qed
      qed
    qed
  qed
qed

section \<open>One client frame\<close>

text \<open>A calm environment: callbacks keep the connection valid and every write is taken whole.\<close>

definition calm :: "ws_env \<Rightarrow> bool" where
  "calm env \<longleftrightarrow> (\<forall>e n. fst (we_react env e (True, n))) \<and>
     (\<forall>d n. fst (we_write env d (True, n)) = int (length d) \<and> fst (snd (we_write env d (True, n))))"

lemma frame_header_client:
  assumes "frame_ok fin op (Some k) p"
  defines "off \<equiv> if length p < 126 then 2 else 4"
  shows "frame_header (frame_octets fin op (Some k) p) = (HdrOk, fin, op, length p, off)"
    and "take 4 (drop off (frame_octets fin op (Some k) p)) = k"
    and "drop (off + 4) (frame_octets fin op (Some k) p) = unmask True k p"
proof -
  have k: "length k = 4" and n: "length p \<le> 65535" using assms(1) by (auto simp: frame_ok_def)
  let ?o = "frame_octets fin op (Some k) p"
  have o: "?o = ((if fin then 0x80 else 0) OR op) # frame_length True (length p) @ k @ unmask True k p"
    by (simp add: frame_octets_def)
  have l: "frame_length_field ?o = Some (length p, off) \<and> ?o ! 1 AND 0x80 \<noteq> 0"
  proof (cases "length p < 126")
    case True
    then show ?thesis using masked_length [of "length p"] by (simp add: o frame_length_def frame_length_field_def off_def Let_def)
  next
    case False
    have "unat (of_nat (drop_bit 8 (length p)) :: u8) * 256 + unat (of_nat (length p) :: u8) = length p"
      using n by (simp add: unat_of_nat drop_bit_eq_div)
    with False k show ?thesis by (simp add: o frame_length_def frame_length_field_def off_def Let_def)
  qed
  then show "frame_header ?o = (HdrOk, fin, op, length p, off)"
    using first_octet [OF assms(1)] k by (auto simp: frame_header_def o Let_def frame_length_def off_def)
  show "take 4 (drop off ?o) = k" "drop (off + 4) ?o = unmask True k p"
    using k by (auto simp: o frame_length_def off_def Let_def)
qed

lemma unmask_from_nth: "i < length bs \<Longrightarrow> unmask_from k n bs ! i = bs ! i XOR k ! ((n + i) AND 3)"
proof (induction bs arbitrary: n i)
  case (Cons b bs)
  then show ?case by (cases i) auto
qed simp

lemma unmask_from_unmask: "unmask_from k 0 (unmask True k p) = p"
  by (rule nth_equalityI) (simp_all add: unmask_from_nth unmask_def xor.assoc)

text \<open>
  The slot after the header of a frame and with its whole payload read off the input, but before the
  payload is taken: the frame ends in \<open>take_payload\<close> and \<open>finish_frame\<close> on this slot.
\<close>

definition client_frame_start :: "bool \<Rightarrow> opcode \<Rightarrow> u8 list \<Rightarrow> nat \<Rightarrow> 'c ws_ctx \<Rightarrow> 'c ws_ctx" where
  "client_frame_start fin op k n = upd_slot (\<lambda>s. s\<lparr>sl_input := [], sl_frame_mask := k, sl_frame_active := True, sl_frame_fin := fin,
     sl_frame_control := (8 \<le> op), sl_frame_opcode := op, sl_frame_remaining := 0, sl_frame_offset := n, sl_control := []\<rparr>)"

lemma process_client_frame:
  fixes x :: "'c ws_ctx"
  assumes ok: "frame_ok fin op (Some k) p" and x: "sl_connection (wx_slot x) \<noteq> None" "\<not> sl_frame_active (wx_slot x)" "sl_input (wx_slot x) = []"
    and bm: "begin_message env op fin (length p) x = (True, x0)" and sz: "op < 8 \<longrightarrow> sl_message_size (wx_slot x0) + length p \<le> wz_message z"
    and tp: "take_payload env z p (client_frame_start fin op k (length p) x0) = (True, w)" and ff: "finish_frame env w = (True, y)"
  shows "process_frames env z (push_input (frame_octets fin op (Some k) p) x) = (True, y)"
proof -
  let ?o = "frame_octets fin op (Some k) p" and ?x1 = "client_frame_start fin op k (length p) x0"
  define off where "off = (if length p < 126 then 2 else (4 :: nat))"
  note h = frame_header_client [OF ok, folded off_def]
  have in0: "sl_input (wx_slot x0) = []" "sl_connection (wx_slot x0) = sl_connection (wx_slot x)"
    using begin_message_input [of env op fin "length p" x] bm x(3)
    by (auto simp: begin_message_def Let_def ws_defs split: if_splits)
  define g where "g = (\<lambda>s :: 'c ws_slot. s\<lparr>sl_input := unmask True k p, sl_frame_remaining := length p, sl_frame_offset := 0\<rparr>)"
  have sf: "start_frame env fin op (length p) off (push_input ?o x0) =
      (if p = [] then (case finish_frame env ?x1 of (ok, x3) \<Rightarrow> (if ok then HdrOk else HdrProtocolError, x3))
       else (HdrOk, upd_slot g ?x1))"
  proof -
    have gen: "start_frame env fin op (length p) off (push_input oo x0) =
        (if length p = 0 then (case finish_frame env (upd_slot g ?x1) of (ok, x3) \<Rightarrow> (if ok then HdrOk else HdrProtocolError, x3))
         else (HdrOk, upd_slot g ?x1))"
      if "take 4 (drop off oo) = k" "drop (off + 4) oo = unmask True k p" for oo
    proof -
      have e: "upd_slot (\<lambda>s. s\<lparr>sl_frame_active := True, sl_frame_fin := fin, sl_frame_control := (8 \<le> op), sl_frame_opcode := op,
          sl_frame_remaining := length p, sl_frame_offset := 0, sl_control := []\<rparr>)
        (ws_consume (off + 4) (upd_slot (\<lambda>s. s\<lparr>sl_frame_mask := take 4 (drop off (sl_input s))\<rparr>) (push_input oo x0))) = upd_slot g ?x1"
        using that in0(1) by (simp add: push_input_def upd_slot_def ws_consume_def client_frame_start_def g_def)
      show ?thesis unfolding start_frame_def Let_def e ..
    qed
    have "p = [] \<Longrightarrow> upd_slot g ?x1 = ?x1" by (simp add: g_def upd_slot_def client_frame_start_def unmask_def)
    with gen [OF h(2,3)] show ?thesis by auto
  qed
  have bf: "begin_frame env z (push_input ?o x) = start_frame env fin op (length p) off (push_input ?o x0)"
    using h(1) x(3) push_begin_message [OF bm, of ?o] sz by (auto simp: begin_frame_def)
  have w: "sl_input (wx_slot w) = []" "sl_frame_offset (wx_slot w) = length p" "sl_frame_remaining (wx_slot w) = 0"
      "sl_connection (wx_slot w) = sl_connection (wx_slot x)"
    using take_payload_frame [OF tp] in0 by (auto simp: client_frame_start_def upd_slot_def)
  have y: "sl_input (wx_slot y) = []" "sl_connection (wx_slot y) \<noteq> None" "\<not> sl_frame_active (wx_slot y)"
    using finish_frame_input [of env w] ff w x(1) finish_frame_inactive [OF ff] by auto
  have o: "?o \<noteq> []" by (simp add: frame_octets_def)
  have ph: "begin_frame env z (push_input ?o x) = (HdrOk, x2) \<Longrightarrow> process_frames env z (push_input ?o x) =
      (case consume_frame_payload env z x2 of
        (ok, x2) \<Rightarrow> if \<not> ok then (False, x2) else if sl_frame_active (wx_slot x2) then (True, x2) else process_frames env z x2)" for x2
    using x o by (intro process_frames_header) auto
  show ?thesis
  proof (cases "p = []")
    case True
    have "w = ?x1" using tp True by (auto simp: take_payload_def protocol_failure_def take_data.simps upd_slot_def client_frame_start_def split: if_splits)
    then have "begin_frame env z (push_input ?o x) = (HdrOk, y)" using bf sf True ff by simp
    from ph [OF this] y show ?thesis by (simp add: consume_frame_payload_def Let_def process_frames_idle)
  next
    case False
    let ?x2 = "upd_slot g ?x1"
    have b: "begin_frame env z (push_input ?o x) = (HdrOk, ?x2)" using bf sf False by simp
    have f2: "sl_frame_active (wx_slot ?x2)" "sl_input (wx_slot ?x2) = unmask True k p" "sl_frame_remaining (wx_slot ?x2) = length p"
      "sl_frame_mask (wx_slot ?x2) = k" "sl_frame_offset (wx_slot ?x2) = 0"
      by (simp_all add: upd_slot_def g_def client_frame_start_def)
    have tp2: "take_payload env z p ?x2 = (True, upd_slot g w)"
      by (rule neutral_take_payload [OF _ _ _ _ tp]) (simp_all add: neutral_def g_def)
    have "advance_frame (length p) (upd_slot g w) = w" using w by (simp add: advance_frame_def upd_slot_def ws_consume_def g_def)
    moreover have "payload_octets ?x2 (length p) = p" using f2 by (simp add: payload_octets_def unmask_from_unmask)
    moreover have "unmask True k p \<noteq> []" using False by (metis length_0_conv length_unmask)
    ultimately have "consume_frame_payload env z ?x2 = (True, y)"
      using consume_complete [of ?x2 env z] f2 tp2 ff by simp
    with ph [OF b] y show ?thesis by (simp add: process_frames_idle)
  qed
qed

section \<open>Messages\<close>

text \<open>The pieces of the chunk size that a message is cut into, the last one possibly shorter.\<close>

function pieces :: "nat \<Rightarrow> u8 list \<Rightarrow> u8 list list" where
  "pieces n xs = (if n = 0 \<or> xs = [] then [] else take n xs # pieces n (drop n xs))"
  by pat_completeness auto

termination
  by (relation "measure (\<lambda>(n, xs). length xs)") auto

declare pieces.simps [simp del]

lemma pieces_nil [simp]: "pieces n [] = []"
  by (simp add: pieces.simps)

lemma pieces_full: "length p = n \<Longrightarrow> 0 < n \<Longrightarrow> pieces n (p @ q) = p # pieces n q"
  by (subst pieces.simps) auto

lemma pieces_short: "0 < n \<Longrightarrow> length p \<le> n \<Longrightarrow> pieces n p = (if p = [] then [] else [p])"
  by (subst pieces.simps) (auto simp: pieces.simps)

lemma concat_pieces: "0 < n \<Longrightarrow> concat (pieces n xs) = xs"
proof (induction n xs rule: pieces.induct)
  case (1 n xs)
  then show ?case by (subst pieces.simps) auto
qed

definition chunk_event :: "opcode \<Rightarrow> u8 list \<Rightarrow> ws_event" where
  "chunk_event op d = (if op = Op_Text then EvTextChunk d else EvBinaryChunk d)"

definition begin_event :: "opcode \<Rightarrow> ws_event" where
  "begin_event op = (if op = Op_Text then EvTextBegin else EvBinaryBegin)"

definition end_event :: "opcode \<Rightarrow> ws_event" where
  "end_event op = (if op = Op_Text then EvTextEnd else EvBinaryEnd)"

lemma flush_chunk_calm:
  assumes "calm env" "cn_valid (wx_conn x)" "sl_connection (wx_slot x) \<noteq> None" "sl_chunk (wx_slot x) \<noteq> []"
  shows "\<exists>y. flush_chunk env x = (True, y) \<and> wx_slot y = (wx_slot x)\<lparr>sl_chunk := []\<rparr> \<and> cn_valid (wx_conn y) \<and>
    wx_events y = wx_events x @ [chunk_event (sl_message_opcode (wx_slot x)) (sl_chunk (wx_slot x))]"
  using assms by (auto simp: flush_chunk_def Let_def ws_defs calm_def chunk_event_def)

lemma take_data_calm:
  assumes "calm env"
  shows "cn_valid (wx_conn x) \<Longrightarrow> sl_connection (wx_slot x) \<noteq> None \<Longrightarrow> length (sl_chunk (wx_slot x)) < wz_chunk z \<Longrightarrow>
    sl_message_size (wx_slot x) + length d \<le> wz_message z \<Longrightarrow>
    \<exists>y full. take_data env z d x = (True, y) \<and> length (sl_chunk (wx_slot y)) < wz_chunk z \<and> cn_valid (wx_conn y) \<and>
      sl_message_size (wx_slot y) = sl_message_size (wx_slot x) + length d \<and> sl_message_opcode (wx_slot y) = sl_message_opcode (wx_slot x) \<and>
      wx_events y = wx_events x @ map (chunk_event (sl_message_opcode (wx_slot x))) full \<and>
      (\<forall>q. pieces (wz_chunk z) (sl_chunk (wx_slot x) @ d @ q) = full @ pieces (wz_chunk z) (sl_chunk (wx_slot y) @ q))"
proof (induction "length d" arbitrary: d x rule: less_induct)
  case less
  show ?case
  proof (cases "length (sl_chunk (wx_slot x)) + length d < wz_chunk z")
    case True
    then have "take_data env z d x = (True, put_chunk d x)" using take_data_short less.prems(4) by blast
    then show ?thesis
      using True less.prems by (intro exI [of _ "put_chunk d x"] exI [of _ "[]"]) (auto simp: put_chunk_def upd_slot_def)
  next
    case False
    define p where "p = take (wz_chunk z - length (sl_chunk (wx_slot x))) d"
    define e where "e = drop (wz_chunk z - length (sl_chunk (wx_slot x))) d"
    have d: "d = p @ e" "p \<noteq> []" and full: "length (sl_chunk (wx_slot x)) + length p = wz_chunk z"
      using less.prems(3) False by (auto simp: p_def e_def)
    let ?x1 = "put_chunk p x"
    have "cn_valid (wx_conn ?x1)" "sl_connection (wx_slot ?x1) \<noteq> None" "sl_chunk (wx_slot ?x1) \<noteq> []"
      using less.prems d(2) by (auto simp: put_chunk_def upd_slot_def)
    from flush_chunk_calm [OF assms this] obtain x2 where x2: "flush_chunk env ?x1 = (True, x2)"
      "wx_slot x2 = (wx_slot ?x1)\<lparr>sl_chunk := []\<rparr>" "cn_valid (wx_conn x2)"
      "wx_events x2 = wx_events ?x1 @ [chunk_event (sl_message_opcode (wx_slot ?x1)) (sl_chunk (wx_slot ?x1))]" by blast
    have td: "take_data env z d x = take_data env z e x2"
      using take_data_fill [OF full, of e env] d less.prems(3,4) full x2(1) by auto
    have f: "sl_connection (wx_slot x2) \<noteq> None" "length (sl_chunk (wx_slot x2)) < wz_chunk z"
      "sl_message_size (wx_slot x2) + length e \<le> wz_message z" "sl_chunk (wx_slot x2) = []"
      "sl_message_size (wx_slot x2) = sl_message_size (wx_slot x) + length p" "sl_message_opcode (wx_slot x2) = sl_message_opcode (wx_slot x)"
      "wx_events x2 = wx_events x @ [chunk_event (sl_message_opcode (wx_slot x)) (sl_chunk (wx_slot x) @ p)]"
      using less.prems full d(1) x2 by (auto simp: put_chunk_def upd_slot_def)
    have "length e < length d" using d by simp
    from less.hyps [OF this x2(3) f(1-3)] obtain y fl where y: "take_data env z e x2 = (True, y)"
      "length (sl_chunk (wx_slot y)) < wz_chunk z" "cn_valid (wx_conn y)"
      "sl_message_size (wx_slot y) = sl_message_size (wx_slot x2) + length e" "sl_message_opcode (wx_slot y) = sl_message_opcode (wx_slot x2)"
      "wx_events y = wx_events x2 @ map (chunk_event (sl_message_opcode (wx_slot x2))) fl"
      "\<forall>q. pieces (wz_chunk z) (sl_chunk (wx_slot x2) @ e @ q) = fl @ pieces (wz_chunk z) (sl_chunk (wx_slot y) @ q)" by blast
    have "pieces (wz_chunk z) (sl_chunk (wx_slot x) @ d @ q) = ((sl_chunk (wx_slot x) @ p) # fl) @ pieces (wz_chunk z) (sl_chunk (wx_slot y) @ q)" for q
      using pieces_full [of "sl_chunk (wx_slot x) @ p" "wz_chunk z" "e @ q"] full y(7) f(4) less.prems(3) d(1) by simp
    then show ?thesis
      using td y f d(1) by (intro exI [of _ y] exI [of _ "(sl_chunk (wx_slot x) @ p) # fl"]) auto
  qed
qed

definition ws_ready :: "ws_sizes \<Rightarrow> 'c ws_ctx \<Rightarrow> bool" where
  "ws_ready z x \<longleftrightarrow> sl_connection (wx_slot x) \<noteq> None \<and> sl_state (wx_slot x) = WsOpen \<and> sl_input (wx_slot x) = [] \<and>
     \<not> sl_frame_active (wx_slot x) \<and> length (sl_chunk (wx_slot x)) < wz_chunk z \<and> cn_valid (wx_conn x)"

text \<open>The message in progress: its opcode, the octets not yet handed over, and its size so far.\<close>

definition in_message :: "opcode \<Rightarrow> u8 list \<Rightarrow> nat \<Rightarrow> 'c ws_ctx \<Rightarrow> bool" where
  "in_message t c n x \<longleftrightarrow> sl_message_active (wx_slot x) \<and> sl_message_opcode (wx_slot x) = t \<and> sl_chunk (wx_slot x) = c \<and>
     sl_message_size (wx_slot x) = n"

lemma begin_message_calm:
  assumes "calm env" "ws_ready z x" "op = Op_Text \<or> op = Op_Binary" "\<not> sl_message_active (wx_slot x)"
  shows "\<exists>x0. begin_message env op fin n x = (True, x0) \<and> in_message op [] 0 x0 \<and> ws_ready z x0 \<and>
    wx_events x0 = wx_events x @ [begin_event op]"
proof -
  have "\<not> 8 \<le> op" using assms(3) by (auto simp: word_le_nat_alt)
  then show ?thesis
    using assms by (auto simp: begin_message_def Let_def ws_defs ws_ready_def in_message_def begin_event_def calm_def)
qed

lemma finish_data_calm:
  assumes "calm env" "cn_valid (wx_conn w)" "sl_connection (wx_slot w) \<noteq> None" "sl_state (wx_slot w) = WsOpen" "sl_input (wx_slot w) = []"
    "\<not> sl_frame_control (wx_slot w)" "in_message t c n w" "length c < wz_chunk z"
  shows "\<exists>y. finish_frame env w = (True, y) \<and> ws_ready z y \<and>
    (if sl_frame_fin (wx_slot w)
     then \<not> sl_message_active (wx_slot y) \<and> wx_events y = wx_events w @ map (chunk_event t) (pieces (wz_chunk z) c) @ [end_event t]
     else in_message t c n y \<and> wx_events y = wx_events w)"
proof (cases "sl_frame_fin (wx_slot w)")
  case False
  then show ?thesis using assms by (auto simp: finish_frame_def Let_def ws_ready_def in_message_def upd_slot_def)
next
  case True
  let ?x0 = "upd_slot (\<lambda>s. s\<lparr>sl_frame_active := False\<rparr>) w"
  have "\<exists>y. flush_chunk env ?x0 = (True, y) \<and> wx_slot y = (wx_slot ?x0)\<lparr>sl_chunk := []\<rparr> \<and> cn_valid (wx_conn y) \<and>
      wx_events y = wx_events w @ map (chunk_event t) (pieces (wz_chunk z) c)"
  proof (cases "c = []")
    case True
    then show ?thesis using assms by (auto simp: flush_chunk_def Let_def in_message_def upd_slot_def)
  next
    case False
    then show ?thesis
      using flush_chunk_calm [OF assms(1), of ?x0] assms pieces_short [of "wz_chunk z" c]
      by (auto simp: in_message_def upd_slot_def)
  qed
  then obtain y where y: "flush_chunk env ?x0 = (True, y)" "wx_slot y = (wx_slot ?x0)\<lparr>sl_chunk := []\<rparr>" "cn_valid (wx_conn y)"
    "wx_events y = wx_events w @ map (chunk_event t) (pieces (wz_chunk z) c)" by blast
  have "sl_message_opcode (wx_slot y) = t" using y(2) assms(7) by (simp add: in_message_def upd_slot_def)
  with True y assms show ?thesis
    by (auto simp: finish_frame_def Let_def ws_ready_def ws_defs end_event_def calm_def)
qed

lemma client_fragment:
  assumes "calm env" "frame_ok fin op (Some k) p" "op < 8" "ws_ready z x" "n + length p \<le> wz_message z"
    and bm: "begin_message env op fin (length p) x = (True, x0)" "in_message t c n x0" "ws_ready z x0"
  shows "\<exists>y full. process_frames env z (push_input (frame_octets fin op (Some k) p) x) = (True, y) \<and> ws_ready z y \<and>
    (if fin then \<not> sl_message_active (wx_slot y) \<and>
       wx_events y = wx_events x0 @ map (chunk_event t) (pieces (wz_chunk z) (c @ p)) @ [end_event t]
     else \<exists>c'. in_message t c' (n + length p) y \<and> wx_events y = wx_events x0 @ map (chunk_event t) full \<and>
       (\<forall>q. pieces (wz_chunk z) (c @ p @ q) = full @ pieces (wz_chunk z) (c' @ q)))"
proof -
  let ?x1 = "client_frame_start fin op k (length p) x0"
  have nc: "\<not> 8 \<le> op" using assms(3) by auto
  have "cn_valid (wx_conn ?x1)" "sl_connection (wx_slot ?x1) \<noteq> None" "length (sl_chunk (wx_slot ?x1)) < wz_chunk z"
    "sl_message_size (wx_slot ?x1) + length p \<le> wz_message z"
    using bm assms(5) by (auto simp: client_frame_start_def upd_slot_def in_message_def ws_ready_def)
  from take_data_calm [OF assms(1) this] obtain w full where w: "take_data env z p ?x1 = (True, w)"
    "length (sl_chunk (wx_slot w)) < wz_chunk z" "cn_valid (wx_conn w)" "sl_message_size (wx_slot w) = sl_message_size (wx_slot ?x1) + length p"
    "sl_message_opcode (wx_slot w) = sl_message_opcode (wx_slot ?x1)"
    "wx_events w = wx_events ?x1 @ map (chunk_event (sl_message_opcode (wx_slot ?x1))) full"
    "\<forall>q. pieces (wz_chunk z) (sl_chunk (wx_slot ?x1) @ p @ q) = full @ pieces (wz_chunk z) (sl_chunk (wx_slot w) @ q)" by blast
  have tp: "take_payload env z p ?x1 = (True, w)" using w(1) nc by (simp add: take_payload_def client_frame_start_def upd_slot_def)
  note f = take_payload_frame [OF tp]
  have x1: "sl_chunk (wx_slot ?x1) = c" "sl_message_opcode (wx_slot ?x1) = t" "wx_events ?x1 = wx_events x0" "sl_message_size (wx_slot ?x1) = n"
    using bm(2) by (auto simp: client_frame_start_def upd_slot_def in_message_def)
  let ?c = "sl_chunk (wx_slot w)"
  have iw: "in_message t ?c (n + length p) w" "sl_state (wx_slot w) = WsOpen" "sl_connection (wx_slot w) \<noteq> None" "sl_input (wx_slot w) = []"
    "\<not> sl_frame_control (wx_slot w)" "sl_frame_fin (wx_slot w) = fin"
    using f w x1 bm nc by (auto simp: in_message_def client_frame_start_def upd_slot_def ws_ready_def)
  from finish_data_calm [OF assms(1) w(3) iw(3,2,4,5,1) w(2)] obtain y where y: "finish_frame env w = (True, y)" "ws_ready z y"
    "if fin then \<not> sl_message_active (wx_slot y) \<and> wx_events y = wx_events w @ map (chunk_event t) (pieces (wz_chunk z) ?c) @ [end_event t]
     else in_message t ?c (n + length p) y \<and> wx_events y = wx_events w"
    using iw(6) by auto
  have "process_frames env z (push_input (frame_octets fin op (Some k) p) x) = (True, y)"
    using assms(4,5) bm(2) by (intro process_client_frame [OF assms(2) _ _ _ bm(1) _ tp y(1)]) (auto simp: ws_ready_def in_message_def)
  moreover have "pieces (wz_chunk z) (c @ p) = full @ pieces (wz_chunk z) ?c" using w(7) [unfolded x1] by (metis append_Nil2)
  ultimately show ?thesis
    using y(2,3) w(6,7) x1 by (intro exI [of _ y] exI [of _ full]) auto
qed

section \<open>Streams of messages and control frames\<close>

datatype client_item =
    ClientMessage opcode "(u8 list \<times> u8 list) list"
  | ClientPing "u8 list" "u8 list"
  | ClientPong "u8 list" "u8 list"

fun fragment_octets :: "opcode \<Rightarrow> (u8 list \<times> u8 list) list \<Rightarrow> u8 list" where
  "fragment_octets op [] = []"
| "fragment_octets op ((k, p) # fs) = frame_octets (fs = []) op (Some k) p @ fragment_octets Op_Continuation fs"

fun item_octets :: "client_item \<Rightarrow> u8 list" where
  "item_octets (ClientMessage op fs) = fragment_octets op fs"
| "item_octets (ClientPing k p) = frame_octets True Op_Ping (Some k) p"
| "item_octets (ClientPong k p) = frame_octets True Op_Pong (Some k) p"

fun item_ok :: "ws_sizes \<Rightarrow> client_item \<Rightarrow> bool" where
  "item_ok z (ClientMessage op fs) \<longleftrightarrow> (op = Op_Text \<or> op = Op_Binary) \<and> fs \<noteq> [] \<and>
     (\<forall>(k, p) \<in> set fs. length k = 4 \<and> length p \<le> 65535) \<and> length (concat (map snd fs)) \<le> wz_message z"
| "item_ok z (ClientPing k p) \<longleftrightarrow> length k = 4 \<and> length p \<le> 125"
| "item_ok z (ClientPong k p) \<longleftrightarrow> length k = 4 \<and> length p \<le> 125"

text \<open>What the handler is to see of an item: a message in pieces, an answer to each ping, nothing for a pong.\<close>

fun item_events :: "ws_sizes \<Rightarrow> client_item \<Rightarrow> ws_event list" where
  "item_events z (ClientMessage op fs) =
     [begin_event op] @ map (chunk_event op) (pieces (wz_chunk z) (concat (map snd fs))) @ [end_event op]"
| "item_events z (ClientPing k p) = [EvWrite ([0x8A, of_nat (length p)] @ p)]"
| "item_events z (ClientPong k p) = []"

lemma frame_wf_push: "\<not> sl_frame_active (wx_slot x) \<Longrightarrow> frame_wf (push_input a x)"
  by (simp add: frame_wf_def)

lemma process_frames_seq:
  assumes "\<not> sl_frame_active (wx_slot x)" "b \<noteq> []" "process_frames env z (push_input a x) = (True, y)"
    "process_frames env z (push_input b y) = (True, v)"
  shows "process_frames env z (push_input (a @ b) x) = (True, v)"
  using process_frames_append [OF assms(2) frame_wf_push [OF assms(1)], of env z a v] assms(3,4) by (simp add: push_push)

lemma fragment_octets_nonempty: "fs \<noteq> [] \<Longrightarrow> fragment_octets op fs \<noteq> []"
  by (cases fs) (auto simp: frame_octets_def)

lemma client_rest:
  "calm env \<Longrightarrow> ws_ready z x \<Longrightarrow> in_message t c n x \<Longrightarrow> fs \<noteq> [] \<Longrightarrow> \<forall>(k, p) \<in> set fs. length k = 4 \<and> length p \<le> 65535 \<Longrightarrow>
   n + length (concat (map snd fs)) \<le> wz_message z \<Longrightarrow>
   \<exists>y. process_frames env z (push_input (fragment_octets Op_Continuation fs) x) = (True, y) \<and> ws_ready z y \<and>
     \<not> sl_message_active (wx_slot y) \<and>
     wx_events y = wx_events x @ map (chunk_event t) (pieces (wz_chunk z) (c @ concat (map snd fs))) @ [end_event t]"
proof (induction fs arbitrary: x c n)
  case (Cons f fs)
  obtain k p where f: "f = (k, p)" by fastforce
  have ok: "frame_ok (fs = []) Op_Continuation (Some k) p" using Cons.prems(5) f by (auto simp: frame_ok_def)
  have bm: "begin_message env Op_Continuation (fs = []) (length p) x = (True, x)"
    using Cons.prems(3) by (simp add: begin_message_def Let_def in_message_def)
  have sz: "n + length p \<le> wz_message z" using Cons.prems(6) f by simp
  from client_fragment [OF Cons.prems(1) ok _ Cons.prems(2) sz bm Cons.prems(3,2)]
  obtain y full where y: "process_frames env z (push_input (frame_octets (fs = []) Op_Continuation (Some k) p) x) = (True, y)" "ws_ready z y"
    "if fs = [] then \<not> sl_message_active (wx_slot y) \<and>
       wx_events y = wx_events x @ map (chunk_event t) (pieces (wz_chunk z) (c @ p)) @ [end_event t]
     else \<exists>c'. in_message t c' (n + length p) y \<and> wx_events y = wx_events x @ map (chunk_event t) full \<and>
       (\<forall>q. pieces (wz_chunk z) (c @ p @ q) = full @ pieces (wz_chunk z) (c' @ q))"
    by auto
  show ?case
  proof (cases "fs = []")
    case True
    then show ?thesis using y f by simp
  next
    case False
    then obtain c' where c': "in_message t c' (n + length p) y" "wx_events y = wx_events x @ map (chunk_event t) full"
      "\<forall>q. pieces (wz_chunk z) (c @ p @ q) = full @ pieces (wz_chunk z) (c' @ q)" using y(3) by auto
    have "\<exists>v. process_frames env z (push_input (fragment_octets Op_Continuation fs) y) = (True, v) \<and> ws_ready z v \<and>
       \<not> sl_message_active (wx_slot v) \<and>
       wx_events v = wx_events y @ map (chunk_event t) (pieces (wz_chunk z) (c' @ concat (map snd fs))) @ [end_event t]"
      using Cons.prems f False by (intro Cons.IH [OF Cons.prems(1) y(2) c'(1)]) auto
    then obtain v where v: "process_frames env z (push_input (fragment_octets Op_Continuation fs) y) = (True, v)" "ws_ready z v"
      "\<not> sl_message_active (wx_slot v)"
      "wx_events v = wx_events y @ map (chunk_event t) (pieces (wz_chunk z) (c' @ concat (map snd fs))) @ [end_event t]" by blast
    have "process_frames env z (push_input (fragment_octets Op_Continuation (f # fs)) x) = (True, v)"
      using process_frames_seq [OF _ fragment_octets_nonempty [OF False] y(1) v(1)] Cons.prems(2) f by (simp add: ws_ready_def)
    then show ?thesis using v c' f by auto
  qed
qed simp

lemma client_message:
  assumes "calm env" "ws_ready z x" "\<not> sl_message_active (wx_slot x)" "item_ok z (ClientMessage op fs)"
  shows "\<exists>y. process_frames env z (push_input (fragment_octets op fs) x) = (True, y) \<and> ws_ready z y \<and>
    \<not> sl_message_active (wx_slot y) \<and> wx_events y = wx_events x @ item_events z (ClientMessage op fs)"
proof -
  obtain k p rest where fs: "fs = (k, p) # rest" using assms(4) by (cases fs) auto
  have op: "op = Op_Text \<or> op = Op_Binary" "op < 8" using assms(4) by (auto simp: word_less_nat_alt)
  have ok: "frame_ok (rest = []) op (Some k) p" using assms(4) fs by (auto simp: frame_ok_def)
  from begin_message_calm [OF assms(1,2) op(1) assms(3), of "rest = []" "length p"] obtain x0 where
    x0: "begin_message env op (rest = []) (length p) x = (True, x0)" "in_message op [] 0 x0" "ws_ready z x0"
      "wx_events x0 = wx_events x @ [begin_event op]" by blast
  have "0 + length p \<le> wz_message z" using assms(4) fs by simp
  from client_fragment [OF assms(1) ok op(2) assms(2) this x0(1-3), unfolded append_Nil add_0]
  obtain y full where y: "process_frames env z (push_input (frame_octets (rest = []) op (Some k) p) x) = (True, y)" "ws_ready z y"
    "if rest = [] then \<not> sl_message_active (wx_slot y) \<and>
       wx_events y = wx_events x0 @ map (chunk_event op) (pieces (wz_chunk z) p) @ [end_event op]
     else \<exists>c'. in_message op c' (length p) y \<and> wx_events y = wx_events x0 @ map (chunk_event op) full \<and>
       (\<forall>q. pieces (wz_chunk z) (p @ q) = full @ pieces (wz_chunk z) (c' @ q))"
    by blast
  show ?thesis
  proof (cases "rest = []")
    case True
    then show ?thesis using y fs x0(4) by simp
  next
    case False
    then obtain c' where c': "in_message op c' (length p) y" "wx_events y = wx_events x0 @ map (chunk_event op) full"
      "\<forall>q. pieces (wz_chunk z) (p @ q) = full @ pieces (wz_chunk z) (c' @ q)" using y(3) by auto
    have "\<forall>(k, p) \<in> set rest. length k = 4 \<and> length p \<le> 65535" "length p + length (concat (map snd rest)) \<le> wz_message z"
      using assms(4) fs by auto
    from client_rest [OF assms(1) y(2) c'(1) False this] obtain v where
      v: "process_frames env z (push_input (fragment_octets Op_Continuation rest) y) = (True, v)" "ws_ready z v"
      "\<not> sl_message_active (wx_slot v)"
      "wx_events v = wx_events y @ map (chunk_event op) (pieces (wz_chunk z) (c' @ concat (map snd rest))) @ [end_event op]" by blast
    have "process_frames env z (push_input (fragment_octets op fs) x) = (True, v)"
      using process_frames_seq [OF _ fragment_octets_nonempty [OF False] y(1) v(1)] assms(2) fs by (simp add: ws_ready_def)
    then show ?thesis using v c' fs x0(4) by auto
  qed
qed

lemma client_control:
  assumes "calm env" "ws_ready z x" "length k = 4" "length p \<le> 125" "op = Op_Ping \<or> op = Op_Pong"
  shows "\<exists>y. process_frames env z (push_input (frame_octets True op (Some k) p) x) = (True, y) \<and> ws_ready z y \<and>
    sl_message_active (wx_slot y) = sl_message_active (wx_slot x) \<and>
    wx_events y = wx_events x @ (if op = Op_Ping then [EvWrite ([0x8A, of_nat (length p)] @ p)] else [])"
proof -
  let ?x1 = "client_frame_start True op k (length p) x"
  let ?w = "upd_slot (\<lambda>s. s\<lparr>sl_control := p\<rparr>) ?x1"
  have ok: "frame_ok True op (Some k) p" using assms(3-5) by (auto simp: frame_ok_def)
  have c: "8 \<le> op" using assms(5) by auto
  have bm: "begin_message env op True (length p) x = (True, x)" using assms(4,5) c by (auto simp: begin_message_def Let_def)
  have tp: "take_payload env z p ?x1 = (True, ?w)" using assms(4) c by (simp add: take_payload_def client_frame_start_def upd_slot_def)
  have pong: "encode_control_frame Op_Pong p 128 = Some ([0x8A, of_nat (length p)] @ p)"
    using assms(4) by (simp add: encode_control_frame_def valid_control_payload_def)
  obtain b n where wr: "we_write env ([0x8A, of_nat (length p)] @ p) (True, cn_output_size (wx_conn x)) = (2 + int (length p), b, n)" b
  proof -
    have "fst (we_write env ([0x8A, of_nat (length p)] @ p) (True, cn_output_size (wx_conn x))) = 2 + int (length p) \<and>
        fst (snd (we_write env ([0x8A, of_nat (length p)] @ p) (True, cn_output_size (wx_conn x))))"
      using assms(1) by (simp add: calm_def)
    with that show ?thesis by (metis prod.collapse)
  qed
  have "\<exists>y. finish_frame env ?w = (True, y) \<and> ws_ready z y \<and> sl_message_active (wx_slot y) = sl_message_active (wx_slot x) \<and>
      wx_events y = wx_events x @ (if op = Op_Ping then [EvWrite ([0x8A, of_nat (length p)] @ p)] else [])"
    using assms pong c wr
    by (auto simp: finish_frame_def Let_def client_frame_start_def upd_slot_def ws_write_control_def ws_write_all_def calm_def
        ws_ready_def conn_set_def)
  then obtain y where y: "finish_frame env ?w = (True, y)" "ws_ready z y" "sl_message_active (wx_slot y) = sl_message_active (wx_slot x)"
    "wx_events y = wx_events x @ (if op = Op_Ping then [EvWrite ([0x8A, of_nat (length p)] @ p)] else [])" by blast
  have "process_frames env z (push_input (frame_octets True op (Some k) p) x) = (True, y)"
    using assms(2) c by (intro process_client_frame [OF ok _ _ _ bm _ tp y(1)]) (auto simp: ws_ready_def)
  with y show ?thesis by blast
qed

lemma client_item:
  assumes "calm env" "ws_ready z x" "\<not> sl_message_active (wx_slot x)" "item_ok z it"
  shows "\<exists>y. process_frames env z (push_input (item_octets it) x) = (True, y) \<and> ws_ready z y \<and> \<not> sl_message_active (wx_slot y) \<and>
    wx_events y = wx_events x @ item_events z it"
proof (cases it)
  case (ClientMessage op fs)
  then show ?thesis using client_message [OF assms(1-3), of op fs] assms(4) by simp
next
  case (ClientPing k p)
  then show ?thesis using client_control [OF assms(1,2), of k p Op_Ping] assms(3,4) by auto
next
  case (ClientPong k p)
  then show ?thesis using client_control [OF assms(1,2), of k p Op_Pong] assms(3,4) by auto
qed

lemma item_octets_nonempty: "item_ok z it \<Longrightarrow> item_octets it \<noteq> []"
  by (cases it) (auto simp: frame_octets_def fragment_octets_nonempty)

lemma client_stream:
  "calm env \<Longrightarrow> ws_ready z x \<Longrightarrow> \<not> sl_message_active (wx_slot x) \<Longrightarrow> \<forall>it \<in> set its. item_ok z it \<Longrightarrow>
   \<exists>y. process_frames env z (push_input (concat (map item_octets its)) x) = (True, y) \<and> ws_ready z y \<and>
     \<not> sl_message_active (wx_slot y) \<and> wx_events y = wx_events x @ concat (map (item_events z) its)"
proof (induction its arbitrary: x)
  case Nil
  then show ?case by (auto simp: ws_ready_def process_frames_idle)
next
  case (Cons it its)
  obtain y where y: "process_frames env z (push_input (item_octets it) x) = (True, y)" "ws_ready z y" "\<not> sl_message_active (wx_slot y)"
    "wx_events y = wx_events x @ item_events z it" using client_item [OF Cons.prems(1-3), of it] Cons.prems(4) by auto
  obtain v where v: "process_frames env z (push_input (concat (map item_octets its)) y) = (True, v)" "ws_ready z v"
    "\<not> sl_message_active (wx_slot v)" "wx_events v = wx_events y @ concat (map (item_events z) its)"
    using Cons.IH [OF Cons.prems(1) y(2,3)] Cons.prems(4) by auto
  have "process_frames env z (push_input (item_octets it @ concat (map item_octets its)) x) = (True, v)"
  proof (cases "concat (map item_octets its) = []")
    case True
    then show ?thesis using y v(1) by (simp only: True append_Nil2 push_nil) (simp add: ws_ready_def process_frames_idle)
  next
    case False
    then show ?thesis using process_frames_seq [OF _ False y(1) v(1)] Cons.prems(2) by (simp add: ws_ready_def)
  qed
  then show ?case using v y by auto
qed

text \<open>
  The input of an open connection in pieces: each piece is what one round of the loop of \<open>on_data\<close>
  reads before it calls \<open>process_slot\<close>, whose loop is \<open>process_frames\<close>.
\<close>

fun ws_receive :: "ws_env \<Rightarrow> ws_sizes \<Rightarrow> u8 list list \<Rightarrow> 'c ws_ctx \<Rightarrow> bool \<times> 'c ws_ctx" where
  "ws_receive env z [] x = (True, x)"
| "ws_receive env z (b # bs) x =
     (case process_frames env z (push_input b x) of (ok, y) \<Rightarrow> if ok then ws_receive env z bs y else (False, y))"

lemma ws_receive_cuts:
  "\<not> sl_frame_active (wx_slot x) \<Longrightarrow> [] \<notin> set bs \<Longrightarrow> process_frames env z (push_input a x) = (True, y) \<Longrightarrow>
   process_frames env z (push_input (a @ concat bs) x) = (True, v) \<Longrightarrow> ws_receive env z bs y = (True, v)"
proof (induction bs arbitrary: a y)
  case (Cons b bs)
  have b: "b \<noteq> []" using Cons.prems(2) by auto
  obtain y' where y': "process_frames env z (push_input (a @ b) x) = (True, y')"
  proof (cases "concat bs = []")
    case True
    then show ?thesis using Cons.prems(4) that by (metis append_Nil2 concat.simps(2))
  next
    case False
    then show ?thesis
      using process_frames_append [OF False frame_wf_push [OF Cons.prems(1), of "a @ b"], of env z v] Cons.prems(4) that
      by (auto simp: push_push)
  qed
  then have "process_frames env z (push_input b y) = (True, y')"
    using process_frames_append [OF b frame_wf_push [OF Cons.prems(1), of a], of env z y'] Cons.prems(3) by (auto simp: push_push)
  moreover have "ws_receive env z bs y' = (True, v)"
    using Cons.IH [OF Cons.prems(1) _ y'] Cons.prems(2,4) by auto
  ultimately show ?case by simp
qed auto

section \<open>Properties\<close>

text \<open>
  C4: a client that sends well-formed messages (each in any number of fragments, with any masks) and
  pings and pongs between them is understood whatever way its octets are cut into reads: the handler
  gets each message between its begin and end calls as consecutive chunks of the chunk size that
  concatenate to the payload, every ping is answered with a pong of the same payload, in the order of
  the stream, and the connection stays open and idle.
\<close>

theorem websocket_stream_delivery:
  assumes "calm env" "ws_ready z x" "\<not> sl_message_active (wx_slot x)" "\<forall>it \<in> set its. item_ok z it"
    and "concat bs = concat (map item_octets its)" "[] \<notin> set bs"
  shows "\<exists>y. ws_receive env z bs x = (True, y) \<and> ws_ready z y \<and> wx_events y = wx_events x @ concat (map (item_events z) its) \<and>
    (\<forall>p. concat (pieces (wz_chunk z) p) = p)"
proof -
  obtain y where y: "process_frames env z (push_input (concat bs) x) = (True, y)" "ws_ready z y"
    "wx_events y = wx_events x @ concat (map (item_events z) its)"
    using client_stream [OF assms(1-4)] assms(5) by auto
  have "process_frames env z (push_input [] x) = (True, x)" using assms(2) by (simp add: ws_ready_def process_frames_idle)
  then have "ws_receive env z bs x = (True, y)"
    using ws_receive_cuts [OF _ assms(6), of x env z "[]" x y] assms(2) y(1) by (simp add: ws_ready_def)
  with y assms(2) show ?thesis by (auto simp: concat_pieces ws_ready_def)
qed

theorem websocket_stream_delivery_witness:
  "\<exists>y. ws_receive ws_calm_env \<lparr>wz_handshake = 64, wz_chunk = 2, wz_message = 100\<rparr>
        [[0x01, 0x82, 1], [2, 3, 4, 0x49], [0x6B, 0x80, 0x81, 0, 0, 0, 0, 0x21]] (ws_open_ctx []) = (True, y) \<and>
     wx_events y = [EvTextBegin, EvTextChunk [0x48, 0x69], EvTextChunk [0x21], EvTextEnd]"
proof -
  have "frame_octets False Op_Text (Some [1, 2, 3, 4]) [0x48, 0x69] = [0x01, 0x82, 1, 2, 3, 4, 0x49, 0x6B]"
    "frame_octets True Op_Continuation (Some [0, 0, 0, 0]) [0x21] = [0x80, 0x81, 0, 0, 0, 0, 0x21]"
    by (simp_all add: frame_octets_def frame_length_def unmask_def upt_rec)
  moreover have "pieces 2 [0x48, 0x69, 0x21] = [[0x48, 0x69], [0x21]]" by (simp add: pieces.simps)
  moreover have "calm ws_calm_env" by (simp add: calm_def ws_calm_env_def)
  ultimately show ?thesis
    using websocket_stream_delivery [of ws_calm_env "\<lparr>wz_handshake = 64, wz_chunk = 2, wz_message = 100\<rparr>" "ws_open_ctx []"
        "[ClientMessage Op_Text [([1, 2, 3, 4], [0x48, 0x69]), ([0, 0, 0, 0], [0x21])]]"
        "[[0x01, 0x82, 1], [2, 3, 4, 0x49], [0x6B, 0x80, 0x81, 0, 0, 0, 0, 0x21]]"]
    by (auto simp: ws_ready_def ws_open_ctx_def ws_slot_init_def begin_event_def chunk_event_def end_event_def)
qed

end
