(* ===== verification/Nmea_Codes.thy ===== *)
theory Nmea_Codes
  imports Prelude
begin

text \<open>
  The code tables of the NMEA 0183 connector (\<^verbatim>\<open>nmea_enums.hpp\<close>, \<^verbatim>\<open>proprietary_vendor.hpp\<close>): talker
  identifiers, GNSS systems and signals, FAA modes and proprietary vendors. A value of one of the
  large enumerations is named by its enumerator, as a string; a chain of comparisons in the source is
  a table that is searched from the top. Spans are the characters they show, at most 255 of them.
\<close>

section \<open>Spans\<close>

type_synonym span = string

definition mk_span :: "string \<Rightarrow> span" where
  "mk_span s = take 255 s"

definition span_at :: "span \<Rightarrow> nat \<Rightarrow> char" where
  "span_at s i = (if i < length s then s ! i else NUL)"

section \<open>Talkers\<close>

definition nmea_talker_codes :: "(string \<times> string) list" where
  "nmea_talker_codes =
    [(''AB'', ''IndependentAisBaseStation''), (''AD'', ''DependentAisBaseStation''), (''AG'', ''AutopilotGeneral''), (''AI'', ''MobileAisStation''),
     (''AN'', ''AisAidToNavigation''), (''AP'', ''AutopilotMagnetic''), (''AR'', ''AisReceivingStation''), (''AT'', ''AisTransmittingStation''),
     (''AX'', ''AisSimplexRepeater''), (''BD'', ''BeiDou''), (''GB'', ''BeiDou''), (''BI'', ''BilgeSystem''),
     (''BN'', ''BridgeNavigationalWatchAlarm''), (''CA'', ''CentralAlarm''), (''CC'', ''ComputerProgrammedCalculator''), (''CD'', ''DigitalSelectiveCalling''),
     (''CM'', ''ComputerMemoryData''), (''CR'', ''DataReceiver''), (''CS'', ''CommunicationsSatellite''), (''CT'', ''RadioTelephoneMfHf''),
     (''CV'', ''RadioTelephoneVhf''), (''CX'', ''ScanningReceiver''), (''DE'', ''DeccaNavigation''), (''DF'', ''DirectionFinder''),
     (''DM'', ''SpeedLogWaterMagnetic''), (''DP'', ''DynamicPosition''), (''DU'', ''DuplexRepeater''), (''EC'', ''Ecdis''),
     (''EP'', ''Epirb''), (''ER'', ''EngineRoomMonitoring''), (''FD'', ''FireDoor''), (''FS'', ''FireSprinkler''),
     (''GA'', ''Galileo''), (''GI'', ''NavIC''), (''GL'', ''Glonass''), (''GN'', ''CombinedGnss''),
     (''GP'', ''Gps''), (''HC'', ''HeadingMagneticCompass''), (''HD'', ''HullDoor''), (''HE'', ''HeadingNorthSeekingGyro''),
     (''HF'', ''HeadingFluxgate''), (''HN'', ''HeadingNonNorthSeekingGyro''), (''HS'', ''HullStress''), (''II'', ''IntegratedInstrumentation''),
     (''IN'', ''IntegratedNavigation''), (''JA'', ''AlarmAndMonitoring''), (''JB'', ''WaterMonitoring''), (''JC'', ''PowerManagement''),
     (''JD'', ''PropulsionControl''), (''JE'', ''EngineControl''), (''JF'', ''PropulsionBoiler''), (''JG'', ''AuxiliaryBoiler''),
     (''JH'', ''EngineGovernor''), (''LA'', ''LoranA''), (''LC'', ''LoranC''), (''MP'', ''MicrowavePositioning''),
     (''MX'', ''Multiplexer''), (''NL'', ''NavigationLightController''), (''OM'', ''OmegaNavigation''), (''OS'', ''DistressAlarmSystem''),
     (''RA'', ''RadarArpa''), (''RB'', ''RecordBook''), (''RC'', ''PropulsionMachinery''), (''RI'', ''RudderAngleIndicator''),
     (''SA'', ''PhysicalShoreAusStation''), (''SD'', ''DepthSounder''), (''SG'', ''SteeringGear''), (''SN'', ''ElectronicPositioningSystem''),
     (''SS'', ''ScanningSounder''), (''ST'', ''SkytraqDebug''), (''TC'', ''TrackControl''), (''TI'', ''TurnRateIndicator''),
     (''TR'', ''TransitNavigation''), (''UP'', ''MicroprocessorController''), (''VA'', ''VdesAsm''), (''VD'', ''VelocitySensorDoppler''),
     (''VM'', ''SpeedLogWaterMagneticVm''), (''VR'', ''VoyageDataRecorder''), (''VS'', ''VdesSatellite''), (''VT'', ''VdesTerrestrial''),
     (''VW'', ''SpeedLogWaterMechanical''), (''WD'', ''WatertightDoor''), (''WI'', ''WeatherInstrument''), (''WL'', ''WaterLevel''),
     (''YC'', ''TransducerTemperature''), (''YD'', ''TransducerDisplacement''), (''YF'', ''TransducerFrequency''), (''YL'', ''TransducerLevel''),
     (''YP'', ''TransducerPressure''), (''YR'', ''TransducerFlowRate''), (''YT'', ''TransducerTachometer''), (''YV'', ''TransducerVolume''),
     (''YX'', ''Transducer''), (''ZA'', ''TimekeeperAtomicClock''), (''ZC'', ''TimekeeperChronometer''), (''ZQ'', ''TimekeeperQuartz''),
     (''ZV'', ''TimekeeperRadioUpdate'')]"

definition nmea_talker_id_from_span :: "span \<Rightarrow> string" where
  "nmea_talker_id_from_span talker =
     (if length talker = 2 \<and> talker ! 0 = CHR ''U'' \<and> 48 \<le> (of_char (talker ! 1) :: nat) \<and> (of_char (talker ! 1) :: nat) \<le> 57
      then ''UserConfigured''
      else if talker = ''GQ'' \<or> talker = ''QZ'' \<or> talker = ''PQ'' then ''Qzss''
      else if 1 \<le> length talker \<and> talker ! 0 = CHR ''P'' then ''Proprietary''
      else case map_of nmea_talker_codes talker of Some t \<Rightarrow> t | None \<Rightarrow> ''Unknown'')"

definition nmea_talker_id_from_token :: "span \<Rightarrow> string" where
  "nmea_talker_id_from_token token =
     (if length token < 3 \<or> token ! 0 \<noteq> CHR ''$'' \<and> token ! 0 \<noteq> CHR ''!'' then ''Unknown''
      else nmea_talker_id_from_span (take 2 (drop 1 token)))"

definition nmea_talker_names :: "(string \<times> string) list" where
  "nmea_talker_names =
    [(''IndependentAisBaseStation'', ''Independent AIS Base Station''), (''DependentAisBaseStation'', ''Dependent AIS Base Station''), (''AutopilotGeneral'', ''Autopilot - General''),
     (''MobileAisStation'', ''Mobile AIS Station''), (''AisAidToNavigation'', ''AIS Aid to Navigation''), (''AutopilotMagnetic'', ''Autopilot - Magnetic''),
     (''DigitalSelectiveCalling'', ''Digital Selective Calling''), (''BeiDou'', ''BeiDou''), (''Galileo'', ''Galileo''),
     (''Glonass'', ''GLONASS''), (''CombinedGnss'', ''Combined GNSS''), (''Gps'', ''GPS''),
     (''Qzss'', ''QZSS''), (''NavIC'', ''NavIC''), (''Ecdis'', ''ECDIS''),
     (''IntegratedInstrumentation'', ''Integrated Instrumentation''), (''IntegratedNavigation'', ''Integrated Navigation''), (''DepthSounder'', ''Depth Sounder''),
     (''WeatherInstrument'', ''Weather Instrument''), (''Proprietary'', ''Proprietary'')]"

definition nmea_talker_id_name :: "string \<Rightarrow> string" where
  "nmea_talker_id_name t = (case map_of nmea_talker_names t of Some n \<Rightarrow> n | None \<Rightarrow> ''unknown'')"

section \<open>GNSS systems, signals and modes\<close>

datatype gnss_system =
  GnssUnknown | GnssGps | GnssGlonass | GnssGalileo | GnssBeiDou | GnssQzss | GnssNavIC | GnssCombined | GnssSbas | GnssImes

definition nmea_gnss_system_from_talker :: "string \<Rightarrow> gnss_system" where
  "nmea_gnss_system_from_talker t =
     (case map_of [(''Gps'', GnssGps), (''Glonass'', GnssGlonass), (''Galileo'', GnssGalileo), (''BeiDou'', GnssBeiDou),
        (''Qzss'', GnssQzss), (''NavIC'', GnssNavIC), (''CombinedGnss'', GnssCombined)] t of
      Some g \<Rightarrow> g | None \<Rightarrow> GnssUnknown)"

definition nmea_gnss_system_from_system_id :: "nat \<Rightarrow> gnss_system" where
  "nmea_gnss_system_from_system_id i =
     (case map_of [(1, GnssGps), (2, GnssGlonass), (3, GnssGalileo), (4, GnssBeiDou), (5, GnssQzss), (6, GnssNavIC)] i of
      Some g \<Rightarrow> g | None \<Rightarrow> GnssUnknown)"

definition nmea_satellite_system_from_nmea_id :: "nat \<Rightarrow> gnss_system" where
  "nmea_satellite_system_from_nmea_id i =
     (if 1 \<le> i \<and> i \<le> 32 then GnssGps
      else if 33 \<le> i \<and> i \<le> 54 \<or> 152 \<le> i \<and> i \<le> 158 then GnssSbas
      else if 65 \<le> i \<and> i \<le> 96 then GnssGlonass
      else if 173 \<le> i \<and> i \<le> 182 then GnssImes
      else if 193 \<le> i \<and> i \<le> 200 then GnssQzss
      else if 301 \<le> i \<and> i \<le> 336 then GnssGalileo
      else if 401 \<le> i \<and> i \<le> 437 then GnssBeiDou
      else GnssUnknown)"

definition nmea_global_satellite_id :: "string \<Rightarrow> nat \<Rightarrow> nat" where
  "nmea_global_satellite_id talker i = (if talker = ''Glonass'' \<and> 1 \<le> i \<and> i \<le> 32 then (i + 64) mod 2 ^ 16 else i)"

definition nmea_gnss_signals :: "((nat \<times> nat) \<times> string) list" where
  "nmea_gnss_signals =
    [((1, 1), ''GpsL1Ca''), ((1, 2), ''GpsL1Py''), ((1, 3), ''GpsL1M''), ((1, 4), ''GpsL2Py''), ((1, 5), ''GpsL2CM''),
     ((1, 6), ''GpsL2CL''), ((1, 7), ''GpsL5I''), ((1, 8), ''GpsL5Q''), ((2, 1), ''GlonassL1Ca''), ((2, 2), ''GlonassL1P''),
     ((2, 3), ''GlonassL2Ca''), ((2, 4), ''GlonassL2P''), ((3, 1), ''GalileoE5a''), ((3, 2), ''GalileoE5b''), ((3, 3), ''GalileoE5ab''),
     ((3, 4), ''GalileoE6A''), ((3, 5), ''GalileoE6BC''), ((3, 6), ''GalileoL1A''), ((3, 7), ''GalileoL1BC''), ((4, 1), ''BeiDouB1I''),
     ((4, 2), ''BeiDouB1Q''), ((4, 3), ''BeiDouB1C''), ((4, 4), ''BeiDouB1A''), ((4, 5), ''BeiDouB2a''), ((4, 6), ''BeiDouB2b''),
     ((4, 7), ''BeiDouB2ab''), ((4, 8), ''BeiDouB3I''), ((4, 9), ''BeiDouB3Q''), ((4, 10), ''BeiDouB3A''), ((4, 11), ''BeiDouB2I''),
     ((4, 12), ''BeiDouB2Q''), ((5, 1), ''QzssL1Ca''), ((5, 2), ''QzssL1CD''), ((5, 3), ''QzssL1CP''), ((5, 4), ''QzssLis''),
     ((5, 5), ''QzssL2CM''), ((5, 6), ''QzssL2CL''), ((5, 7), ''QzssL5I''), ((5, 8), ''QzssL5Q''), ((5, 9), ''QzssL6D''),
     ((5, 10), ''QzssL6E''), ((6, 1), ''NavicL5Sps''), ((6, 2), ''NavicSSps''), ((6, 3), ''NavicL5Rs''), ((6, 4), ''NavicSRs''),
     ((6, 5), ''NavicL1Sps'')]"

definition nmea_gnss_signal_from_system_and_signal :: "nat \<Rightarrow> nat \<Rightarrow> string" where
  "nmea_gnss_signal_from_system_and_signal system signal =
     (if signal = 0 then ''AllSignals''
      else if 1 \<le> system \<and> system \<le> 6 then
        (case map_of nmea_gnss_signals (system, signal) of
           Some s \<Rightarrow> s | None \<Rightarrow> if signal \<le> 16 then ''Reserved'' else ''Unknown'')
      else ''Unknown'')"

datatype faa_mode =
  FaaUnknown | FaaAutonomous | FaaCaution | FaaDifferential | FaaEstimatedDeadReckoning | FaaRtkFloat | FaaManualInput |
  FaaDataNotValid | FaaPrecise | FaaRtkInteger | FaaSimulated | FaaUnsafe

definition nmea_faa_mode_from_char :: "char \<Rightarrow> faa_mode" where
  "nmea_faa_mode_from_char c =
     (case map_of [(CHR ''A'', FaaAutonomous), (CHR ''C'', FaaCaution), (CHR ''D'', FaaDifferential),
        (CHR ''E'', FaaEstimatedDeadReckoning), (CHR ''F'', FaaRtkFloat), (CHR ''M'', FaaManualInput),
        (CHR ''N'', FaaDataNotValid), (CHR ''P'', FaaPrecise), (CHR ''R'', FaaRtkInteger), (CHR ''S'', FaaSimulated),
        (CHR ''U'', FaaUnsafe)] c of
      Some m \<Rightarrow> m | None \<Rightarrow> FaaUnknown)"

fun nmea_faa_mode_name :: "faa_mode \<Rightarrow> string" where
  "nmea_faa_mode_name FaaAutonomous = ''autonomous''"
| "nmea_faa_mode_name FaaCaution = ''caution''"
| "nmea_faa_mode_name FaaDifferential = ''differential''"
| "nmea_faa_mode_name FaaEstimatedDeadReckoning = ''estimated_dead_reckoning''"
| "nmea_faa_mode_name FaaRtkFloat = ''rtk_float''"
| "nmea_faa_mode_name FaaManualInput = ''manual_input''"
| "nmea_faa_mode_name FaaDataNotValid = ''data_not_valid''"
| "nmea_faa_mode_name FaaPrecise = ''precise''"
| "nmea_faa_mode_name FaaRtkInteger = ''rtk_integer''"
| "nmea_faa_mode_name FaaSimulated = ''simulated''"
| "nmea_faa_mode_name FaaUnsafe = ''unsafe''"
| "nmea_faa_mode_name FaaUnknown = ''unknown''"

section \<open>Proprietary vendors\<close>

definition nmea_vendor_codes :: "(string \<times> string) list" where
  "nmea_vendor_codes =
    [(''ATN'', ''Actisense''), (''ACR'', ''AcrElectronics''), (''ADS'', ''AdvanSea''), (''AIR'', ''Airmar''),
     (''AMR'', ''Airmar''), (''AMT'', ''Airmar''), (''AME'', ''Amec''), (''ANR'', ''Anritsu''),
     (''ASH'', ''Ashtech''), (''AHM'', ''Autohelm''), (''ATM'', ''Autohelm''), (''AVM'', ''AvMap''),
     (''BGC'', ''BandG''), (''BGH'', ''BrookesAndGatehouse''), (''BKH'', ''Brookhouse''), (''CMP'', ''CMap''),
     (''CMA'', ''CMap''), (''CMR'', ''Comar''), (''CNV'', ''ComNav''), (''CNI'', ''ComNav''),
     (''DGY'', ''DigitalYacht''), (''DYA'', ''DigitalYacht''), (''DYT'', ''DigitalYacht''), (''FEC'', ''Furuno''),
     (''FUR'', ''Furuno''), (''GRM'', ''Garmin''), (''GEO'', ''Geonav''), (''HEM'', ''Hemisphere''),
     (''SAT'', ''Hemisphere''), (''ICO'', ''Icom''), (''JRC'', ''JapanRadioCompany''), (''JAV'', ''Javad''),
     (''KVH'', ''Kvh''), (''LEI'', ''Leica''), (''LWR'', ''Lowrance''), (''MAR'', ''Maretron''),
     (''MRT'', ''Maretron''), (''MCM'', ''McMurdo''), (''MTK'', ''MediaTek''), (''MGL'', ''MglAvionics''),
     (''MGN'', ''Magellan''), (''NVC'', ''Navico''), (''NVO'', ''Navico''), (''NAV'', ''Navionics''),
     (''NKE'', ''Nke''), (''NOB'', ''Nobeltec''), (''NST'', ''Northstar''), (''NOV'', ''Novatel''),
     (''NVS'', ''Novatel''), (''ONW'', ''Onwa''), (''OPC'', ''OpenCpn''), (''QST'', ''Qstarz''),
     (''QTM'', ''Quectel''), (''QEK'', ''QuarkElec''), (''RAY'', ''Raymarine''), (''RYA'', ''Raymarine''),
     (''RTH'', ''Raytheon''), (''ROB'', ''Robertson''), (''RWI'', ''Rockwell''), (''SLM'', ''Sailmon''),
     (''STM'', ''SailTimer''), (''SMY'', ''Samyung''), (''SAV'', ''Sanav''), (''SCX'', ''SeaCross''),
     (''SPL'', ''SeaPilot''), (''SMD'', ''ShipModul''), (''SRF'', ''SiRf''), (''SIM'', ''Simrad''),
     (''SIT'', ''Sitex''), (''STI'', ''SkyTraq''), (''SHI'', ''StandardHorizon''), (''STH'', ''StandardHorizon''),
     (''STO'', ''Stowe''), (''TDM'', ''Teledyne''), (''TRN'', ''Transas''), (''TNL'', ''Trimble''),
     (''TRM'', ''Trimble''), (''TCM'', ''Trimble''), (''THD'', ''TrueHeading''), (''UBX'', ''Ublox''),
     (''UNI'', ''Unicore''), (''VES'', ''Vesper''), (''VSP'', ''Vesper''), (''WDC'', ''Weatherdock''),
     (''YDH'', ''YachtDevices''), (''YDE'', ''YachtDevices''), (''YAK'', ''YakBitz'')]"

definition nmea_proprietary_vendor_from_code :: "span \<Rightarrow> string" where
  "nmea_proprietary_vendor_from_code code = (case map_of nmea_vendor_codes code of Some v \<Rightarrow> v | None \<Rightarrow> ''Unknown'')"

definition nmea_proprietary_vendor_code_from_body :: "span \<Rightarrow> span" where
  "nmea_proprietary_vendor_code_from_body body =
     (if length body < 4 \<or> body ! 0 \<noteq> CHR ''P'' then [] else take 3 (drop 1 body))"

definition nmea_proprietary_vendor_code_from_token :: "span \<Rightarrow> span" where
  "nmea_proprietary_vendor_code_from_token token =
     (if length token < 5 \<or> token ! 0 \<noteq> CHR ''$'' \<or> token ! 1 \<noteq> CHR ''P'' then [] else take 3 (drop 2 token))"

definition nmea_vendor_names :: "(string \<times> string) list" where
  "nmea_vendor_names =
    [(''Actisense'', ''Actisense''), (''AcrElectronics'', ''ACR Electronics''), (''AdvanSea'', ''AdvanSea''),
     (''Airmar'', ''Airmar''), (''Amec'', ''AMEC''), (''Anritsu'', ''Anritsu''),
     (''Ashtech'', ''Ashtech''), (''Autohelm'', ''Autohelm''), (''AvMap'', ''AvMap''),
     (''BandG'', ''B&G''), (''BrookesAndGatehouse'', ''Brookes and Gatehouse''), (''Brookhouse'', ''Brookhouse''),
     (''CMap'', ''C-MAP''), (''Comar'', ''Comar''), (''ComNav'', ''ComNav''),
     (''DigitalYacht'', ''Digital Yacht''), (''Furuno'', ''Furuno''), (''Garmin'', ''Garmin''),
     (''Geonav'', ''Geonav''), (''Hemisphere'', ''Hemisphere GNSS''), (''Icom'', ''Icom''),
     (''JapanRadioCompany'', ''Japan Radio Company''), (''Javad'', ''Javad''), (''Kvh'', ''KVH''),
     (''Leica'', ''Leica''), (''Lowrance'', ''Lowrance''), (''Maretron'', ''Maretron''),
     (''McMurdo'', ''McMurdo''), (''MediaTek'', ''MediaTek''), (''MglAvionics'', ''MGL Avionics''),
     (''Magellan'', ''Magellan''), (''Navico'', ''Navico''), (''Navionics'', ''Navionics''),
     (''Nke'', ''NKE''), (''Nobeltec'', ''Nobeltec''), (''Northstar'', ''Northstar''),
     (''Novatel'', ''NovAtel''), (''Onwa'', ''ONWA''), (''OpenCpn'', ''OpenCPN''),
     (''Qstarz'', ''Qstarz''), (''Quectel'', ''Quectel''), (''QuarkElec'', ''Quark-elec''),
     (''Raymarine'', ''Raymarine''), (''Raytheon'', ''Raytheon''), (''Robertson'', ''Robertson''),
     (''Rockwell'', ''Rockwell''), (''Sailmon'', ''Sailmon''), (''SailTimer'', ''SailTimer''),
     (''Samyung'', ''Samyung''), (''Sanav'', ''SANAV''), (''SeaCross'', ''SeaCross''),
     (''SeaPilot'', ''SeaPilot''), (''ShipModul'', ''ShipModul''), (''SiRf'', ''SiRF''),
     (''Simrad'', ''Simrad''), (''Sitex'', ''SI-TEX''), (''SkyTraq'', ''SkyTraq''),
     (''StandardHorizon'', ''Standard Horizon''), (''Stowe'', ''Stowe''), (''Teledyne'', ''Teledyne''),
     (''Transas'', ''Transas''), (''Trimble'', ''Trimble''), (''TrueHeading'', ''True Heading''),
     (''Ublox'', ''u-blox''), (''Unicore'', ''Unicore''), (''Vesper'', ''Vesper''),
     (''Weatherdock'', ''Weatherdock''), (''YachtDevices'', ''Yacht Devices''), (''YakBitz'', ''YakBitz''),
     (''Unknown'', ''Unknown'')]"

definition nmea_proprietary_vendor_name :: "string \<Rightarrow> string" where
  "nmea_proprietary_vendor_name v = (case map_of nmea_vendor_names v of Some n \<Rightarrow> n | None \<Rightarrow> ''Unknown'')"

end
