(* ===== verification/Nmea_Parser.thy ===== *)
theory Nmea_Parser
  imports Nmea_Codes
begin

text \<open>
  NMEA 0183 sentences: the helpers (\<^verbatim>\<open>nmea0183_helpers.hpp\<close>), the stream parser and the classification
  of sentences (\<^verbatim>\<open>sentence_parser.hpp\<close>, \<^verbatim>\<open>special_sentence_hooks.hpp\<close>), and the sentence builder of the
  transmitter (\<^verbatim>\<open>make_sentence\<close> of \<^verbatim>\<open>nmea_tx_connector.hpp\<close>). A span into a buffer is the string it shows.
  Conversions to floating point are outside the model.
\<close>

unbundle bit_operations_syntax

section \<open>Helpers\<close>

definition nmea_data_status_is_valid :: "char \<Rightarrow> bool" where
  "nmea_data_status_is_valid c \<longleftrightarrow> c = CHR ''A''"

definition nmea_bearing_reference_is_magnetic :: "char \<Rightarrow> bool" where
  "nmea_bearing_reference_is_magnetic c \<longleftrightarrow> c = CHR ''M''"

definition nmea_side_from_char :: "char \<Rightarrow> char option" where
  "nmea_side_from_char c = (if c = CHR ''L'' \<or> c = CHR ''R'' then Some c else None)"

definition nmea_span_equals :: "span \<Rightarrow> string \<Rightarrow> bool" where
  "nmea_span_equals s t \<longleftrightarrow> s = t"

definition nmea_span_starts_with :: "span \<Rightarrow> string \<Rightarrow> bool" where
  "nmea_span_starts_with s p \<longleftrightarrow> take (length p) s = p"

definition nmea_copy_span :: "nat \<Rightarrow> span \<Rightarrow> string \<Rightarrow> string" where
  "nmea_copy_span out_size s out = (if out_size = 0 then out else take (out_size - 1) s)"

definition from_hex :: "char \<Rightarrow> nat" where
  "from_hex c =
     (let n = (of_char c :: nat) in
      if 48 \<le> n \<and> n \<le> 57 then n - 48
      else if 65 \<le> n \<and> n \<le> 70 then 10 + n - 65
      else if 97 \<le> n \<and> n \<le> 102 then 10 + n - 97
      else 255)"

definition to_hex :: "u8 \<Rightarrow> char" where
  "to_hex v = ''0123456789ABCDEF'' ! unat (v AND 0x0F)"

definition nmea_checksum :: "string \<Rightarrow> u8" where
  "nmea_checksum s = fold (\<lambda>c cs. cs XOR octet_of c) s 0"

definition parse_checksum_hex :: "string \<Rightarrow> u8 option" where
  "parse_checksum_hex s =
     (case s of
        hi # lo # _ \<Rightarrow>
          if hi = NUL \<or> lo = NUL \<or> 15 < from_hex hi \<or> 15 < from_hex lo then None
          else Some (of_nat (from_hex hi * 16 + from_hex lo))
      | _ \<Rightarrow> None)"

definition verify_nmea_checksum :: "string \<Rightarrow> bool" where
  "verify_nmea_checksum line =
     (if line = [] \<or> hd line \<noteq> CHR ''$'' \<and> hd line \<noteq> CHR ''!'' then False
      else if CHR ''*'' \<notin> set line then False
      else (case parse_checksum_hex (tl (dropWhile (\<lambda>c. c \<noteq> CHR ''*'') line)) of
              None \<Rightarrow> False
            | Some expected \<Rightarrow> nmea_checksum (takeWhile (\<lambda>c. c \<noteq> CHR ''*'') (tl line)) = expected))"

definition is_digit_char :: "char \<Rightarrow> bool" where
  "is_digit_char c \<longleftrightarrow> 48 \<le> (of_char c :: nat) \<and> (of_char c :: nat) \<le> 57"

definition digit_value :: "char \<Rightarrow> int" where
  "digit_value c = int (of_char c) - 48"

fun parse_int32_digits :: "bool \<Rightarrow> int \<Rightarrow> span \<Rightarrow> int option" where
  "parse_int32_digits negative v [] = Some v"
| "parse_int32_digits negative v (c # cs) =
     (if \<not> is_digit_char c then None
      else (let v' = v * 10 + digit_value c in
            if \<not> negative \<and> 2147483647 < v' \<or> negative \<and> 2147483648 < v' then None
            else parse_int32_digits negative v' cs))"

definition parse_int32 :: "span \<Rightarrow> int option" where
  "parse_int32 field =
     (case field of
        [] \<Rightarrow> None
      | c # cs \<Rightarrow>
          if c = CHR ''+'' \<or> c = CHR ''-'' then
            (if cs = [] then None
             else map_option (\<lambda>v. if c = CHR ''-'' then - v else v) (parse_int32_digits (c = CHR ''-'') 0 cs))
          else parse_int32_digits False 0 field)"

fun parse_uint8_digits :: "nat \<Rightarrow> span \<Rightarrow> nat option" where
  "parse_uint8_digits v [] = Some v"
| "parse_uint8_digits v (c # cs) =
     (if \<not> is_digit_char c then None
      else (let v' = v * 10 + nat (digit_value c) in if 255 < v' then None else parse_uint8_digits v' cs))"

definition nmea_parse_uint8_span :: "span \<Rightarrow> nat option" where
  "nmea_parse_uint8_span field = (if field = [] then None else parse_uint8_digits 0 field)"

section \<open>Sentences\<close>

datatype sentence_family =
  FamStandard | FamQuery | FamAis | FamSeaTalk | FamDsc | FamNavTex | FamInmarsat | FamProprietary | FamUnknownEncapsulation

record fragment_info =
  fg_is_fragmented :: bool
  fg_total :: nat
  fg_number :: nat
  fg_message_id :: span
  fg_payload :: span

definition fragment_init :: fragment_info where
  "fragment_init = \<lparr>fg_is_fragmented = False, fg_total = 0, fg_number = 0, fg_message_id = [], fg_payload = []\<rparr>"

definition nmea_sentence_family_name :: "sentence_family \<Rightarrow> string" where
  "nmea_sentence_family_name f =
     (case f of
        FamStandard \<Rightarrow> ''standard'' | FamQuery \<Rightarrow> ''query'' | FamAis \<Rightarrow> ''ais'' | FamSeaTalk \<Rightarrow> ''seatalk''
      | FamDsc \<Rightarrow> ''dsc'' | FamNavTex \<Rightarrow> ''navtex'' | FamInmarsat \<Rightarrow> ''inmarsat'' | FamProprietary \<Rightarrow> ''proprietary''
      | FamUnknownEncapsulation \<Rightarrow> ''unknown_encapsulation'')"

definition fg_is_last :: "fragment_info \<Rightarrow> bool" where
  "fg_is_last f \<longleftrightarrow> fg_is_fragmented f \<and> 0 < fg_total f \<and> fg_number f = fg_total f"

definition fg_is_first :: "fragment_info \<Rightarrow> bool" where
  "fg_is_first f \<longleftrightarrow> fg_is_fragmented f \<and> fg_number f = 1"

record nmea_sentence =
  ns_raw :: string
  ns_body :: span
  ns_talker :: span
  ns_sentence :: span
  ns_fields :: "span list"
  ns_valid_checksum :: bool
  ns_start_char :: char
  ns_family :: sentence_family
  ns_talker_id :: string
  ns_gnss_system :: gnss_system
  ns_query_requester :: span
  ns_query_target :: span
  ns_query_requested :: span
  ns_vendor_code :: span
  ns_vendor :: string
  ns_fragment :: fragment_info

definition sentence_clear :: nmea_sentence where
  "sentence_clear = \<lparr>ns_raw = [], ns_body = [], ns_talker = [], ns_sentence = [], ns_fields = [], ns_valid_checksum = False,
     ns_start_char = CHR ''$'', ns_family = FamStandard, ns_talker_id = ''Unknown'', ns_gnss_system = GnssUnknown,
     ns_query_requester = [], ns_query_target = [], ns_query_requested = [], ns_vendor_code = [], ns_vendor = ''Unknown'',
     ns_fragment = fragment_init\<rparr>"

definition ns_field :: "nmea_sentence \<Rightarrow> nat \<Rightarrow> span" where
  "ns_field s i = (if i < length (ns_fields s) then ns_fields s ! i else [])"

definition sentence_is :: "nmea_sentence \<Rightarrow> string \<Rightarrow> bool" where
  "sentence_is s t \<longleftrightarrow> nmea_span_equals (ns_sentence s) t"

definition talker_is :: "nmea_sentence \<Rightarrow> string \<Rightarrow> bool" where
  "talker_is s t \<longleftrightarrow> nmea_span_equals (ns_talker s) t"

definition nmea_is_query_sentence :: "nmea_sentence \<Rightarrow> bool" where
  "nmea_is_query_sentence s \<longleftrightarrow> ns_start_char s = CHR ''$'' \<and> length (ns_sentence s) = 3 \<and> ns_sentence s ! 2 = CHR ''Q'' \<and>
     length (ns_query_requested s) = 3"

definition nmea_is_ais_sentence :: "nmea_sentence \<Rightarrow> bool" where
  "nmea_is_ais_sentence s \<longleftrightarrow> ns_start_char s = CHR ''!'' \<and> (sentence_is s ''VDM'' \<or> sentence_is s ''VDO'' \<or> sentence_is s ''VSD'')"

definition nmea_is_seatalk_sentence :: "nmea_sentence \<Rightarrow> bool" where
  "nmea_is_seatalk_sentence s \<longleftrightarrow> nmea_span_starts_with (ns_body s) ''STALK'' \<or> nmea_span_starts_with (ns_body s) ''PSTALK'' \<or>
     talker_is s ''ST'' \<and> sentence_is s ''ALK''"

definition nmea_is_dsc_sentence :: "nmea_sentence \<Rightarrow> bool" where
  "nmea_is_dsc_sentence s \<longleftrightarrow> sentence_is s ''DSC'' \<or> sentence_is s ''DSE'' \<or> sentence_is s ''DSI'' \<or> sentence_is s ''DSR''"

definition nmea_is_inmarsat_sm_sentence :: "nmea_sentence \<Rightarrow> bool" where
  "nmea_is_inmarsat_sm_sentence s \<longleftrightarrow> sentence_is s ''SM1'' \<or> sentence_is s ''SM2'' \<or> sentence_is s ''SM3'' \<or> sentence_is s ''SM4'' \<or>
     sentence_is s ''SMB''"

definition nmea_is_inmarsat_sentence :: "nmea_sentence \<Rightarrow> bool" where
  "nmea_is_inmarsat_sentence s \<longleftrightarrow> nmea_span_starts_with (ns_body s) ''PINM'' \<or> nmea_span_starts_with (ns_body s) ''INM'' \<or>
     sentence_is s ''IMK'' \<or> sentence_is s ''IMN'' \<or> sentence_is s ''IMR'' \<or> nmea_is_inmarsat_sm_sentence s \<or>
     talker_is s ''IC'' \<or> talker_is s ''CS''"

definition nmea_is_proprietary_sentence :: "nmea_sentence \<Rightarrow> bool" where
  "nmea_is_proprietary_sentence s \<longleftrightarrow> 0 < length (ns_body s) \<and> ns_body s ! 0 = CHR ''P''"

definition nmea_set_fragment_info :: "nat \<Rightarrow> nat \<Rightarrow> nat \<Rightarrow> nat \<Rightarrow> nmea_sentence \<Rightarrow> nmea_sentence" where
  "nmea_set_fragment_info total_index number_index id_index payload_index s =
     (let n = length (ns_fields s) in
      if n \<le> total_index \<or> n \<le> number_index then s
      else (case (nmea_parse_uint8_span (ns_field s total_index), nmea_parse_uint8_span (ns_field s number_index)) of
              (Some tot, Some num) \<Rightarrow>
                if tot = 0 \<or> num = 0 \<or> tot < num \<or> 16 < tot then s
                else s\<lparr>ns_fragment := (ns_fragment s)\<lparr>fg_is_fragmented := True, fg_total := tot, fg_number := num,
                         fg_message_id := (if id_index < n then ns_field s id_index else fg_message_id (ns_fragment s)),
                         fg_payload := (if payload_index < n then ns_field s payload_index else fg_payload (ns_fragment s))\<rparr>\<rparr>
            | _ \<Rightarrow> s))"

definition nmea_detect_fragment_info :: "nmea_sentence \<Rightarrow> nmea_sentence" where
  "nmea_detect_fragment_info s =
     (if sentence_is s ''TXT'' then nmea_set_fragment_info 0 1 2 3 s
      else if nmea_is_ais_sentence s then nmea_set_fragment_info 0 1 2 4 s
      else if sentence_is s ''DSE'' then nmea_set_fragment_info 0 1 3 5 s
      else if sentence_is s ''NRM'' \<or> sentence_is s ''NRX'' then nmea_set_fragment_info 0 1 2 3 s
      else if sentence_is s ''SMB'' then nmea_set_fragment_info 0 1 3 4 s
      else if nmea_is_seatalk_sentence s \<or> nmea_is_inmarsat_sentence s then nmea_set_fragment_info 0 1 2 3 s
      else s)"

definition classify_nmea_sentence :: "nmea_sentence \<Rightarrow> sentence_family" where
  "classify_nmea_sentence s =
     (if nmea_is_query_sentence s then FamQuery
      else if nmea_is_ais_sentence s then FamAis
      else if nmea_is_seatalk_sentence s then FamSeaTalk
      else if nmea_is_dsc_sentence s then FamDsc
      else if sentence_is s ''NRM'' \<or> sentence_is s ''NRX'' then FamNavTex
      else if nmea_is_inmarsat_sentence s then FamInmarsat
      else if nmea_is_proprietary_sentence s then FamProprietary
      else if ns_start_char s = CHR ''!'' then FamUnknownEncapsulation
      else FamStandard)"

section \<open>The stream parser\<close>

datatype nmea_error =
  NeBadStart | NeBadTagBlock | NeMissingChecksum | NeBadChecksumField | NeChecksumMismatch | NeShortBody | NeTooLong

text \<open>
  The limits of a sentence. The number of fields is that of hosts with an operating system; the source has 24 for the
  Arduino core, and the statements that mention the limit hold there with 24 in its place.
\<close>

abbreviation NMEA_MAX_SENTENCE_LEN :: nat where "NMEA_MAX_SENTENCE_LEN \<equiv> 192"
abbreviation NMEA_MAX_FIELDS :: nat where "NMEA_MAX_FIELDS \<equiv> 32"

text \<open>The loop over the fields after the first comma: at most \<open>n\<close> of them.\<close>

function split_fields :: "nat \<Rightarrow> string \<Rightarrow> span list" where
  "split_fields n rest =
     (if n = 0 then []
      else mk_span (takeWhile (\<lambda>c. c \<noteq> CHR '','') rest) #
           (if CHR '','' \<in> set rest then split_fields (n - 1) (tl (dropWhile (\<lambda>c. c \<noteq> CHR '','') rest)) else []))"
  by pat_completeness auto

termination
  by (relation "measure fst") auto

declare split_fields.simps [simp del]

definition strip_line_end :: "string \<Rightarrow> string" where
  "strip_line_end s = rev (dropWhile (\<lambda>c. c = CR \<or> c = LF \<or> c = NUL) (rev s))"

text \<open>The sentence after an optional tag block between two slashes.\<close>

definition skip_tag_block :: "string \<Rightarrow> nmea_error + string" where
  "skip_tag_block line =
     (if line ! 0 = CHR ''/'' then
        (let after = dropWhile (\<lambda>c. c \<noteq> CHR ''/'') (tl line) in
         if after = [] \<or> tl after = [] \<or> hd (tl after) \<noteq> CHR ''$'' \<and> hd (tl after) \<noteq> CHR ''!'' then Inl NeBadTagBlock
         else Inr (tl after))
      else Inr line)"

text \<open>The checksum tests: the result is the value of \<open>valid_checksum\<close>.\<close>

definition check_checksum :: "bool \<Rightarrow> string \<Rightarrow> nmea_error + bool" where
  "check_checksum validate line =
     (let starred = CHR ''*'' \<in> set line;
          after = tl (dropWhile (\<lambda>c. c \<noteq> CHR ''*'') line);
          computed = nmea_checksum (takeWhile (\<lambda>c. c \<noteq> CHR ''*'') (tl line)) in
      if validate then
        (if \<not> starred then Inl NeMissingChecksum
         else if length after < 2 then Inl NeBadChecksumField
         else (case parse_checksum_hex after of
                 None \<Rightarrow> Inl NeBadChecksumField
               | Some supplied \<Rightarrow> if computed \<noteq> supplied then Inl NeChecksumMismatch else Inr True))
      else Inr (starred \<and> 2 \<le> length after \<and> parse_checksum_hex after = Some computed))"

definition build_sentence :: "string \<Rightarrow> bool \<Rightarrow> nmea_error + nmea_sentence" where
  "build_sentence line valid =
     (let raw = take (NMEA_MAX_SENTENCE_LEN - 1) line;
          body = takeWhile (\<lambda>c. c \<noteq> CHR ''*'') (tl line) in
      if length body < 5 \<or> length raw < 1 + length body then Inl NeShortBody
      else (let s0 = sentence_clear\<lparr>ns_raw := raw, ns_valid_checksum := valid, ns_start_char := hd raw, ns_body := mk_span body,
                       ns_talker := take 2 body, ns_sentence := take 3 (drop 2 body),
                       ns_talker_id := nmea_talker_id_from_span (take 2 body),
                       ns_gnss_system := nmea_gnss_system_from_talker (nmea_talker_id_from_span (take 2 body)),
                       ns_vendor_code := nmea_proprietary_vendor_code_from_body (mk_span body),
                       ns_vendor := nmea_proprietary_vendor_from_code (nmea_proprietary_vendor_code_from_body (mk_span body))\<rparr>;
                s1 = (if body ! 4 = CHR ''Q'' then s0\<lparr>ns_query_requester := take 2 body, ns_query_target := take 2 (drop 2 body)\<rparr> else s0);
                s2 = (if CHR '','' \<in> set body
                      then s1\<lparr>ns_fields := split_fields NMEA_MAX_FIELDS (tl (dropWhile (\<lambda>c. c \<noteq> CHR '','') body))\<rparr> else s1);
                s3 = (if length (ns_query_requester s2) = 2 \<and> 1 \<le> length (ns_fields s2) \<and> length (ns_field s2 0) = 3
                      then s2\<lparr>ns_query_requested := ns_field s2 0\<rparr> else s2)
            in Inr (nmea_detect_fragment_info (s3\<lparr>ns_family := classify_nmea_sentence s3\<rparr>))))"

definition parse_span :: "bool \<Rightarrow> span \<Rightarrow> nmea_error + nmea_sentence" where
  "parse_span validate line0 =
     (let line = strip_line_end line0 in
      if line = [] then Inl NeBadStart
      else (case skip_tag_block line of
              Inl e \<Rightarrow> Inl e
            | Inr sent \<Rightarrow>
                if sent = [] \<or> hd sent \<noteq> CHR ''$'' \<and> hd sent \<noteq> CHR ''!'' then Inl NeBadStart
                else (case check_checksum validate sent of
                        Inl e \<Rightarrow> Inl e
                      | Inr valid \<Rightarrow> build_sentence sent valid)))"

definition parse_line :: "bool \<Rightarrow> string \<Rightarrow> nmea_error + nmea_sentence" where
  "parse_line validate line = parse_span validate (mk_span line)"

record nmea_parser =
  np_buffer :: string
  np_collecting :: bool
  np_error :: "nmea_error option"

definition np_init :: nmea_parser where
  "np_init = \<lparr>np_buffer = [], np_collecting = False, np_error = None\<rparr>"

definition np_push :: "nmea_parser \<Rightarrow> char \<Rightarrow> nmea_parser \<times> nmea_sentence option" where
  "np_push p c =
     (if c = CHR ''$'' \<or> c = CHR ''!'' then (p\<lparr>np_collecting := True, np_buffer := [c]\<rparr>, None)
      else if \<not> np_collecting p then (p, None)
      else if c = CR then (p, None)
      else if c = LF then
        (case parse_span True (mk_span (np_buffer p)) of
           Inl e \<Rightarrow> (p\<lparr>np_collecting := False, np_error := Some e\<rparr>, None)
         | Inr s \<Rightarrow> (p\<lparr>np_collecting := False, np_error := None\<rparr>, Some s))
      else if NMEA_MAX_SENTENCE_LEN \<le> length (np_buffer p) + 1 then (np_init\<lparr>np_error := Some NeTooLong\<rparr>, None)
      else (p\<lparr>np_buffer := np_buffer p @ [c]\<rparr>, None))"

definition np_step :: "nmea_parser \<Rightarrow> char \<Rightarrow> nmea_parser \<times> nmea_sentence list" where
  "np_step p c = (case np_push p c of (p', None) \<Rightarrow> (p', []) | (p', Some s) \<Rightarrow> (p', [s]))"

text \<open>The hook that a parsed sentence is handed to, where one is installed (\<open>hooks\<close> lists the families that have one).\<close>

definition dispatch_hook :: "sentence_family list \<Rightarrow> nmea_sentence \<Rightarrow> (sentence_family \<times> nmea_sentence) list" where
  "dispatch_hook hooks s =
     (case ns_family s of
        FamStandard \<Rightarrow> []
      | FamUnknownEncapsulation \<Rightarrow> []
      | f \<Rightarrow> if f \<in> set hooks then [(f, s)] else [])"

section \<open>Building sentences\<close>

definition make_sentence :: "nat \<Rightarrow> string \<Rightarrow> char \<Rightarrow> string" where
  "make_sentence out_size body start_char =
     (let cs = nmea_checksum body;
          line = [start_char] @ body @ [CHR ''*'', to_hex (drop_bit 4 cs), to_hex cs, CR, LF]
      in if out_size = 0 then [] else take (out_size - 1) line)"


section \<open>The checksum\<close>

lemma fold_checksum: "fold (\<lambda>c cs. cs XOR octet_of c) s a = a XOR nmea_checksum s"
proof (induction s arbitrary: a)
  case (Cons c s)
  have "fold (\<lambda>c cs. cs XOR octet_of c) s (a XOR octet_of c) = (a XOR octet_of c) XOR nmea_checksum s" by (rule Cons.IH)
  moreover have "nmea_checksum (c # s) = octet_of c XOR nmea_checksum s"
    using Cons.IH [of "octet_of c"] by (simp add: nmea_checksum_def)
  ultimately show ?case by (simp add: xor.assoc)
qed (simp add: nmea_checksum_def)

lemma nmea_checksum_Nil [simp]: "nmea_checksum [] = 0"
  by (simp add: nmea_checksum_def)

lemma nmea_checksum_Cons [simp]: "nmea_checksum (c # s) = octet_of c XOR nmea_checksum s"
  using fold_checksum [of s "octet_of c"] by (simp add: nmea_checksum_def)

lemma nmea_checksum_append [simp]: "nmea_checksum (s @ t) = nmea_checksum s XOR nmea_checksum t"
  by (induction s) (simp_all add: xor.assoc)

lemma octet_of_inject [simp]: "octet_of c = octet_of d \<longleftrightarrow> c = d"
  by (metis char_of_octet_of)

lemma nmea_checksum_update:
  assumes "i < length s" "c \<noteq> s ! i"
  shows "nmea_checksum (s[i := c]) \<noteq> nmea_checksum s"
proof
  have s: "s = take i s @ s ! i # drop (Suc i) s" using assms(1) by (simp add: id_take_nth_drop)
  have u: "s[i := c] = take i s @ c # drop (Suc i) s" using assms(1) by (simp add: upd_conv_take_nth_drop)
  let ?a = "nmea_checksum (take i s)" and ?b = "nmea_checksum (drop (Suc i) s)"
  have e1: "nmea_checksum s = ?a XOR (octet_of (s ! i) XOR ?b)"
    by (subst s) (simp only: nmea_checksum_append nmea_checksum_Cons)
  have e2: "nmea_checksum (s[i := c]) = ?a XOR (octet_of c XOR ?b)"
    unfolding u by (simp only: nmea_checksum_append nmea_checksum_Cons)
  assume "nmea_checksum (s[i := c]) = nmea_checksum s"
  then have "?a XOR (?a XOR (octet_of c XOR ?b)) = ?a XOR (?a XOR (octet_of (s ! i) XOR ?b))"
    by (simp only: e1 e2)
  then have "octet_of c XOR ?b = octet_of (s ! i) XOR ?b"
    by (simp only: xor.assoc [symmetric] xor_self_eq xor.left_neutral)
  then have "(octet_of c XOR ?b) XOR ?b = (octet_of (s ! i) XOR ?b) XOR ?b" by simp
  then have "octet_of c = octet_of (s ! i)" by (simp only: xor.assoc xor_self_eq xor.right_neutral)
  with assms(2) show False by simp
qed

lemma hex_digits_check:
  "list_all (\<lambda>k. from_hex (''0123456789ABCDEF'' ! k) = k \<and>
     ''0123456789ABCDEF'' ! k \<notin> {CHR ''$'', CHR ''!'', CHR ''*'', CHR ''/'', CR, LF, NUL}) [0..<16]"
  by code_simp

lemma from_hex_digit: "k < 16 \<Longrightarrow> from_hex (''0123456789ABCDEF'' ! k) = k"
  using hex_digits_check by (simp only: list_all_iff set_upt) auto

lemma to_hex_nibbles:
  "to_hex (drop_bit 4 v) = ''0123456789ABCDEF'' ! (unat v div 16)"
  "to_hex v = ''0123456789ABCDEF'' ! (unat v mod 16)"
proof -
  have m: "w AND 0x0F = take_bit 4 w" for w :: u8 by (simp add: take_bit_eq_mask mask_eq_exp_minus_1)
  have v: "unat v < 256" using unsigned_less [of v] by simp
  have "unat (drop_bit 4 v AND 0x0F) = unat v div 16"
    using v by (simp only: m unsigned_take_bit_eq unat_drop_bit_eq) (simp add: drop_bit_eq_div take_bit_eq_mod)
  then show "to_hex (drop_bit 4 v) = ''0123456789ABCDEF'' ! (unat v div 16)" by (simp only: to_hex_def)
  have "unat (v AND 0x0F) = unat v mod 16"
    by (simp only: m unsigned_take_bit_eq) (simp add: take_bit_eq_mod)
  then show "to_hex v = ''0123456789ABCDEF'' ! (unat v mod 16)" by (simp only: to_hex_def)
qed

lemma hex_digit_plain:
  "k < 16 \<Longrightarrow> ''0123456789ABCDEF'' ! k \<notin> {CHR ''$'', CHR ''!'', CHR ''*'', CHR ''/'', CR, LF, NUL}"
  using hex_digits_check by (simp only: list_all_iff set_upt) auto

lemma to_hex_plain:
  "to_hex v \<notin> {CHR ''$'', CHR ''!'', CHR ''*'', CHR ''/'', CR, LF, NUL}"
  unfolding to_hex_nibbles(2) by (rule hex_digit_plain) simp

lemma parse_checksum_hex_digits: "parse_checksum_hex [to_hex (drop_bit 4 v), to_hex v] = Some v"
proof -
  have v: "unat v < 256" using unsigned_less [of v] by simp
  have "from_hex (to_hex (drop_bit 4 v)) = unat v div 16"
    unfolding to_hex_nibbles(1) by (rule from_hex_digit) (use v in simp)
  moreover have "from_hex (to_hex v) = unat v mod 16"
    unfolding to_hex_nibbles(2) by (rule from_hex_digit) simp
  moreover have "(of_nat (unat v div 16 * 16 + unat v mod 16) :: u8) = v"
    by (simp only: div_mult_mod_eq) simp
  moreover have "\<not> 15 < unat v div 16" "\<not> 15 < unat v mod 16"
    using v less_mult_imp_div_less [of "unat v" 16 16] mod_less_divisor [of 16 "unat v"] by linarith+
  ultimately show ?thesis
    using to_hex_plain [of v] to_hex_plain [of "drop_bit 4 v"] by (simp add: parse_checksum_hex_def)
qed


section \<open>The parser on sentences\<close>

text \<open>The bodies a sentence can carry through the parser, and the sentence on the wire.\<close>

definition plain_body :: "string \<Rightarrow> bool" where
  "plain_body b \<longleftrightarrow> 5 \<le> length b \<and> length b \<le> 187 \<and>
     list_all (\<lambda>c. c \<notin> {CHR ''$'', CHR ''!'', CHR ''*'', CR, LF, NUL}) b"

definition nmea_line :: "char \<Rightarrow> string \<Rightarrow> u8 \<Rightarrow> string" where
  "nmea_line c body cs = c # (body @ [CHR ''*'', to_hex (drop_bit 4 cs), to_hex cs])"

lemma plain_bodyD:
  assumes "plain_body b"
  shows "5 \<le> length b" "length b \<le> 187" "CHR ''*'' \<notin> set b" "CHR ''$'' \<notin> set b" "CHR ''!'' \<notin> set b"
    "CR \<notin> set b" "LF \<notin> set b"
  using assms by (auto simp: plain_body_def list_all_iff)

lemma make_sentence_line:
  "length body + 7 \<le> out_size \<Longrightarrow> make_sentence out_size body c = nmea_line c body (nmea_checksum body) @ [CR, LF]"
  by (simp add: make_sentence_def nmea_line_def Let_def)

lemma feed_text:
  "np_collecting p \<Longrightarrow> list_all (\<lambda>c. c \<notin> {CHR ''$'', CHR ''!'', CR, LF}) cs \<Longrightarrow> length (np_buffer p) + length cs < 192 \<Longrightarrow>
   feed np_step p cs = (p\<lparr>np_buffer := np_buffer p @ cs\<rparr>, [])"
proof (induction cs arbitrary: p)
  case (Cons c cs)
  have "np_step p c = (p\<lparr>np_buffer := np_buffer p @ [c]\<rparr>, [])"
    using Cons.prems by (auto simp: np_step_def np_push_def)
  moreover have "feed np_step (p\<lparr>np_buffer := np_buffer p @ [c]\<rparr>) cs = (p\<lparr>np_buffer := np_buffer p @ c # cs\<rparr>, [])"
    using Cons.IH [of "p\<lparr>np_buffer := np_buffer p @ [c]\<rparr>"] Cons.prems by simp
  ultimately show ?case by simp
qed simp

lemma feed_start: "c \<in> {CHR ''$'', CHR ''!''} \<Longrightarrow> np_step p c = (p\<lparr>np_collecting := True, np_buffer := [c]\<rparr>, [])"
  by (auto simp: np_step_def np_push_def)

lemma feed_line_end:
  assumes "np_collecting p" "length (np_buffer p) \<le> 255"
  shows "feed np_step p [CR, LF] =
    (case parse_span True (np_buffer p) of
       Inl e \<Rightarrow> (p\<lparr>np_collecting := False, np_error := Some e\<rparr>, [])
     | Inr s \<Rightarrow> (p\<lparr>np_collecting := False, np_error := None\<rparr>, [s]))"
  using assms by (auto simp: np_step_def np_push_def mk_span_def split: sum.splits)

lemma feed_line:
  assumes "c \<in> {CHR ''$'', CHR ''!''}" "list_all (\<lambda>c. c \<notin> {CHR ''$'', CHR ''!'', CR, LF}) t" "length t \<le> 190"
  shows "feed np_step p (c # t @ [CR, LF]) =
    (case parse_span True (c # t) of
       Inl e \<Rightarrow> (p\<lparr>np_buffer := c # t, np_collecting := False, np_error := Some e\<rparr>, [])
     | Inr s \<Rightarrow> (p\<lparr>np_buffer := c # t, np_collecting := False, np_error := None\<rparr>, [s]))"
proof -
  let ?p = "p\<lparr>np_collecting := True, np_buffer := c # t\<rparr>"
  have "feed np_step (p\<lparr>np_collecting := True, np_buffer := [c]\<rparr>) t = (?p, [])"
    using feed_text [of "p\<lparr>np_collecting := True, np_buffer := [c]\<rparr>" t] assms(2,3) by simp
  from feed_appendI [OF this feed_line_end [of ?p, THEN trans, OF _ _ prod.collapse [symmetric]]]
  have "feed np_step (p\<lparr>np_collecting := True, np_buffer := [c]\<rparr>) (t @ [CR, LF]) = feed np_step ?p [CR, LF]"
    using assms(3) feed_line_end [of ?p] by (simp split: sum.splits)
  then show ?thesis
    using feed_start [OF assms(1), of p] feed_line_end [of ?p] assms(3)
    by (simp split: sum.splits)
qed

lemma takeWhile_star: "CHR ''*'' \<notin> set b \<Longrightarrow> takeWhile (\<lambda>c. c \<noteq> CHR ''*'') (b @ CHR ''*'' # t) = b"
  by (induction b) auto

lemma dropWhile_star: "CHR ''*'' \<notin> set b \<Longrightarrow> dropWhile (\<lambda>c. c \<noteq> CHR ''*'') (b @ CHR ''*'' # t) = CHR ''*'' # t"
  by (induction b) auto

lemma parse_span_line:
  assumes "c \<in> {CHR ''$'', CHR ''!''}" "CHR ''*'' \<notin> set body"
  shows "parse_span True (nmea_line c body cs) =
    (if nmea_checksum body = cs then build_sentence (nmea_line c body cs) True else Inl NeChecksumMismatch)"
proof -
  have strip: "strip_line_end (nmea_line c body cs) = nmea_line c body cs"
    using to_hex_plain [of cs] by (simp add: strip_line_end_def nmea_line_def)
  have start: "hd (nmea_line c body cs) = c" "nmea_line c body cs \<noteq> []" "nmea_line c body cs ! 0 = c"
    by (simp_all add: nmea_line_def)
  have body: "takeWhile (\<lambda>c. c \<noteq> CHR ''*'') (tl (nmea_line c body cs)) = body"
    using assms(2) by (simp add: nmea_line_def takeWhile_star)
  have after: "tl (dropWhile (\<lambda>c. c \<noteq> CHR ''*'') (nmea_line c body cs)) = [to_hex (drop_bit 4 cs), to_hex cs]"
    using assms by (auto simp: nmea_line_def dropWhile_star)
  have "check_checksum True (nmea_line c body cs) =
      (if nmea_checksum body = cs then Inr True else Inl NeChecksumMismatch)"
    by (simp add: check_checksum_def Let_def body after parse_checksum_hex_digits) (simp add: nmea_line_def)
  moreover have "skip_tag_block (nmea_line c body cs) = Inr (nmea_line c body cs)"
    using assms(1) by (auto simp: skip_tag_block_def start)
  ultimately show ?thesis using assms(1) by (auto simp: parse_span_def strip start Let_def)
qed

lemma feed_sentence:
  assumes "c \<in> {CHR ''$'', CHR ''!''}" "plain_body body"
  shows "feed np_step p (nmea_line c body cs @ [CR, LF]) =
    (case (if nmea_checksum body = cs then build_sentence (nmea_line c body cs) True else Inl NeChecksumMismatch) of
       Inl e \<Rightarrow> (p\<lparr>np_buffer := nmea_line c body cs, np_collecting := False, np_error := Some e\<rparr>, [])
     | Inr s \<Rightarrow> (p\<lparr>np_buffer := nmea_line c body cs, np_collecting := False, np_error := None\<rparr>, [s]))"
proof -
  let ?t = "body @ [CHR ''*'', to_hex (drop_bit 4 cs), to_hex cs]"
  have t: "list_all (\<lambda>c. c \<notin> {CHR ''$'', CHR ''!'', CR, LF}) ?t"
    using plain_bodyD [OF assms(2)] to_hex_plain [of cs] to_hex_plain [of "drop_bit 4 cs"]
    by (auto simp: list_all_iff)
  have line: "c # ?t = nmea_line c body cs" "c # ?t @ [CR, LF] = nmea_line c body cs @ [CR, LF]"
    by (simp_all add: nmea_line_def)
  have "length ?t \<le> 190" using plain_bodyD(2) [OF assms(2)] by simp
  from feed_line [OF assms(1) t this, of p, unfolded line] parse_span_line [OF assms(1) plain_bodyD(3) [OF assms(2)], of cs]
  show ?thesis by simp
qed

section \<open>What a parsed sentence shows\<close>

lemma split_fields_length: "length (split_fields n rest) \<le> n"
proof (induction n rest rule: split_fields.induct)
  case (1 n rest)
  show ?case
  proof (cases "n = 0")
    case False
    with 1 show ?thesis by (subst split_fields.simps) (cases n; auto)
  qed (subst split_fields.simps, simp)
qed

lemma split_fields_no_comma: "f \<in> set (split_fields n rest) \<Longrightarrow> CHR '','' \<notin> set f"
proof (induction n rest rule: split_fields.induct)
  case (1 n rest)
  have "CHR '','' \<notin> set (take 255 (takeWhile (\<lambda>c. c \<noteq> CHR '','') rest))"
    by (auto dest!: in_set_takeD set_takeWhileD)
  with 1 show ?case
    by (auto simp: split_fields.simps [of n rest] mk_span_def split: if_splits)
qed

lemma dropWhile_hit: "x \<in> set xs \<Longrightarrow> dropWhile (\<lambda>y. y \<noteq> x) xs = x # tl (dropWhile (\<lambda>y. y \<noteq> x) xs)"
  by (induction xs) auto

lemma count_list_tail:
  "x \<in> set xs \<Longrightarrow> count_list xs x = Suc (count_list (tl (dropWhile (\<lambda>y. y \<noteq> x) xs)) x)"
  by (induction xs) auto

lemma split_fields_join:
  "count_list rest (CHR '','') < n \<Longrightarrow> length rest \<le> 255 \<Longrightarrow>
   concat (map (\<lambda>f. CHR '','' # f) (split_fields n rest)) = CHR '','' # rest"
proof (induction n rest rule: split_fields.induct)
  case (1 n rest)
  let ?w = "takeWhile (\<lambda>c. c \<noteq> CHR '','') rest" and ?d = "dropWhile (\<lambda>c. c \<noteq> CHR '','') rest"
  have split: "?w @ ?d = rest" by (rule takeWhile_dropWhile_id)
  then have len: "length ?w + length ?d = length rest" by (metis length_append)
  have w: "mk_span ?w = ?w" using len "1.prems"(2) by (simp add: mk_span_def)
  show ?case
  proof (cases "CHR '','' \<in> set rest")
    case True
    then obtain t where t: "?d = CHR '','' # t" using dropWhile_hit by fast
    have "concat (map (\<lambda>f. CHR '','' # f) (split_fields (n - 1) (tl ?d))) = CHR '','' # tl ?d"
      using True "1.prems" len t count_list_tail [OF True] by (intro "1.IH") auto
    with True "1.prems"(1) t w have "concat (map (\<lambda>f. CHR '','' # f) (split_fields n rest)) = CHR '','' # (?w @ ?d)"
      by (subst split_fields.simps) simp
    then show ?thesis by (simp only: split)
  next
    case False
    then have w': "?w = rest" by (auto simp: takeWhile_eq_all_conv)
    from False "1.prems" have "split_fields n rest = [rest]" by (subst split_fields.simps, unfold w w') (simp add: mk_span_def)
    then show ?thesis by simp
  qed
qed

lemma set_fragment_info_keeps [simp]:
  "ns_raw (nmea_set_fragment_info a b c d s) = ns_raw s"
  "ns_body (nmea_set_fragment_info a b c d s) = ns_body s"
  "ns_talker (nmea_set_fragment_info a b c d s) = ns_talker s"
  "ns_sentence (nmea_set_fragment_info a b c d s) = ns_sentence s"
  "ns_fields (nmea_set_fragment_info a b c d s) = ns_fields s"
  "ns_valid_checksum (nmea_set_fragment_info a b c d s) = ns_valid_checksum s"
  "ns_start_char (nmea_set_fragment_info a b c d s) = ns_start_char s"
  "ns_family (nmea_set_fragment_info a b c d s) = ns_family s"
  by (simp_all add: nmea_set_fragment_info_def Let_def split: option.splits)

lemma detect_fragment_info_keeps [simp]:
  "ns_raw (nmea_detect_fragment_info s) = ns_raw s"
  "ns_body (nmea_detect_fragment_info s) = ns_body s"
  "ns_talker (nmea_detect_fragment_info s) = ns_talker s"
  "ns_sentence (nmea_detect_fragment_info s) = ns_sentence s"
  "ns_fields (nmea_detect_fragment_info s) = ns_fields s"
  "ns_valid_checksum (nmea_detect_fragment_info s) = ns_valid_checksum s"
  "ns_start_char (nmea_detect_fragment_info s) = ns_start_char s"
  "ns_family (nmea_detect_fragment_info s) = ns_family s"
  by (simp_all add: nmea_detect_fragment_info_def)

definition sentence_carries :: "char \<Rightarrow> string \<Rightarrow> nmea_sentence \<Rightarrow> bool" where
  "sentence_carries c b s \<longleftrightarrow> ns_start_char s = c \<and> ns_body s = b \<and> ns_valid_checksum s \<and>
     ns_talker s = take 2 b \<and> ns_sentence s = take 3 (drop 2 b) \<and>
     length (ns_fields s) \<le> NMEA_MAX_FIELDS \<and> list_all (\<lambda>f. CHR '','' \<notin> set f) (ns_fields s) \<and>
     (count_list b (CHR '','') \<le> NMEA_MAX_FIELDS \<longrightarrow>
        concat (map (\<lambda>f. CHR '','' # f) (ns_fields s)) = dropWhile (\<lambda>c. c \<noteq> CHR '','') b)"

lemma build_line_facts:
  assumes "plain_body body"
  obtains s where "build_sentence (nmea_line c body cs) True = Inr s" "ns_start_char s = c" "ns_body s = body"
    "ns_valid_checksum s" "ns_talker s = take 2 body" "ns_sentence s = take 3 (drop 2 body)"
    "ns_fields s = (if CHR '','' \<in> set body then split_fields NMEA_MAX_FIELDS (tl (dropWhile (\<lambda>c. c \<noteq> CHR '','') body)) else [])"
proof -
  have raw: "take (NMEA_MAX_SENTENCE_LEN - 1) (nmea_line c body cs) = nmea_line c body cs"
    using plain_bodyD(2) [OF assms] by (simp add: nmea_line_def)
  have b: "takeWhile (\<lambda>c. c \<noteq> CHR ''*'') (tl (nmea_line c body cs)) = body"
    using plain_bodyD(3) [OF assms] by (simp add: nmea_line_def takeWhile_star)
  have short: "\<not> (length body < 5 \<or> length (nmea_line c body cs) < 1 + length body)" "mk_span body = body"
    using plain_bodyD(1,2) [OF assms] by (simp_all add: nmea_line_def mk_span_def)
  have hd: "hd (nmea_line c body cs) = c" by (simp add: nmea_line_def)
  show ?thesis
    by (rule that, unfold build_sentence_def, simp only: raw b Let_def short hd if_False) (auto simp: sentence_clear_def)
qed

lemma build_line_fields:
  assumes "plain_body body" "build_sentence (nmea_line c body cs) True = Inr s"
  shows "ns_fields s = (if CHR '','' \<in> set body then split_fields NMEA_MAX_FIELDS (tl (dropWhile (\<lambda>c. c \<noteq> CHR '','') body)) else [])"
  using build_line_facts [OF assms(1), of c cs] assms(2) by (metis sum.inject(2))

lemma build_line:
  assumes "plain_body body"
  obtains s where "build_sentence (nmea_line c body cs) True = Inr s" "sentence_carries c body s"
proof -
  let ?f = "if CHR '','' \<in> set body then split_fields NMEA_MAX_FIELDS (tl (dropWhile (\<lambda>c. c \<noteq> CHR '','') body)) else []"
  obtain s where s: "build_sentence (nmea_line c body cs) True = Inr s" "ns_start_char s = c" "ns_body s = body"
    "ns_valid_checksum s" "ns_talker s = take 2 body" "ns_sentence s = take 3 (drop 2 body)" "ns_fields s = ?f"
    using build_line_facts [OF assms, of c cs] .
  have join: "concat (map (\<lambda>f. CHR '','' # f) ?f) = dropWhile (\<lambda>c. c \<noteq> CHR '','') body"
    if "count_list body (CHR '','') \<le> NMEA_MAX_FIELDS"
  proof (cases "CHR '','' \<in> set body")
    case True
    then obtain t where t: "dropWhile (\<lambda>c. c \<noteq> CHR '','') body = CHR '','' # t" using dropWhile_hit by fast
    have "length (dropWhile (\<lambda>c. c \<noteq> CHR '','') body) \<le> length body" by (rule length_dropWhile_le)
    with split_fields_join [of t NMEA_MAX_FIELDS] that True t count_list_tail [OF True] plain_bodyD(2) [OF assms]
    show ?thesis by simp
  next
    case False
    then have d: "dropWhile (\<lambda>c. c \<noteq> CHR '','') body = []" by (auto simp: dropWhile_eq_Nil_conv)
    show ?thesis unfolding d using False by simp
  qed
  have "sentence_carries c body s"
    unfolding sentence_carries_def s(7) using s(2-6) join split_fields_length split_fields_no_comma
    by (simp add: list_all_iff)
  with s(1) show ?thesis by (rule that)
qed


section \<open>Streams of sentences\<close>

definition np_ok :: "nmea_parser \<Rightarrow> bool" where
  "np_ok p \<longleftrightarrow> length (np_buffer p) < NMEA_MAX_SENTENCE_LEN"

definition nmea_wire :: "nmea_sentence \<Rightarrow> string" where
  "nmea_wire s = nmea_line (ns_start_char s) (ns_body s) (nmea_checksum (ns_body s)) @ [CR, LF]"

definition nmea_wf :: "nmea_sentence \<Rightarrow> bool" where
  "nmea_wf s \<longleftrightarrow> (ns_start_char s = CHR ''$'' \<or> ns_start_char s = CHR ''!'') \<and> plain_body (ns_body s) \<and>
     build_sentence (nmea_line (ns_start_char s) (ns_body s) (nmea_checksum (ns_body s))) True = Inr s"

lemma np_ok_push [sk_inv]: "np_ok p \<Longrightarrow> np_ok (fst (np_push p c))"
  by (auto simp: np_ok_def np_push_def np_init_def split: sum.splits)

interpretation nmea: framer np_step np_ok "\<lambda>p. True" nmea_wire nmea_wf
proof
  show "np_ok (fst (np_step p c))" if "np_ok p" for p c
    using np_ok_push [OF that, of c] by (auto simp: np_step_def split: prod.splits option.splits)
  show "True \<and> snd (feed np_step p (nmea_wire s)) = [s]" if "nmea_wf s" for p s
    using that feed_sentence [of "ns_start_char s" "ns_body s" p "nmea_checksum (ns_body s)"]
    by (simp add: nmea_wf_def nmea_wire_def del: feed.simps)
qed

text \<open>Every body that fits is carried by a well-formed sentence, and \<open>make_sentence\<close> writes its wire form.\<close>

lemma nmea_wf_exists:
  assumes "c \<in> {CHR ''$'', CHR ''!''}" "plain_body b" "194 \<le> n"
  obtains s where "nmea_wf s" "sentence_carries c b s" "nmea_wire s = make_sentence n b c"
proof -
  obtain s where s: "build_sentence (nmea_line c b (nmea_checksum b)) True = Inr s" "sentence_carries c b s"
    using build_line [OF assms(2)] .
  then have e: "ns_start_char s = c" "ns_body s = b" by (simp_all add: sentence_carries_def)
  have "nmea_wf s" using s(1) assms(1,2) e by (auto simp: nmea_wf_def)
  moreover have "nmea_wire s = make_sentence n b c"
    using make_sentence_line [of b n c] plain_bodyD(2) [OF assms(2)] assms(3) e by (simp add: nmea_wire_def)
  ultimately show ?thesis using s(2) that by blast
qed

lemma nmea_wf_list:
  assumes "\<And>c b. (c, b) \<in> set msgs \<Longrightarrow> c \<in> {CHR ''$'', CHR ''!''} \<and> plain_body b" "194 \<le> n"
  shows "\<exists>ss. list_all2 (\<lambda>(c, b) s. sentence_carries c b s) msgs ss \<and> (\<forall>s \<in> set ss. nmea_wf s) \<and>
    concat (map nmea_wire ss) = concat (map (\<lambda>(c, b). make_sentence n b c) msgs)"
  using assms(1)
proof (induction msgs)
  case (Cons msg msgs)
  obtain c b where m: "msg = (c, b)" by fastforce
  obtain s where s: "nmea_wf s" "sentence_carries c b s" "nmea_wire s = make_sentence n b c"
    using nmea_wf_exists [of c b n] Cons.prems [of c b] assms(2) m by auto
  from Cons.IH Cons.prems obtain ss where ss: "list_all2 (\<lambda>(c, b) s. sentence_carries c b s) msgs ss"
    "\<forall>s \<in> set ss. nmea_wf s" "concat (map nmea_wire ss) = concat (map (\<lambda>(c, b). make_sentence n b c) msgs)" by auto
  show ?case using s ss m by (intro exI [of _ "s # ss"]) simp
qed simp

text \<open>
  C5: The parser recovers what the transmitter wrote. Whatever sentences \<open>make_sentence\<close> writes (bodies of 5 to 187
  characters without the reserved ones), however the octets are cut into reads, and whatever the parser did before
  (it may hold half a line), it hands over exactly one sentence for each, in order: with its start character, its
  body, its talker and its sentence formatter, a valid checksum, and fields that joined by commas give the body back.
\<close>
theorem nmea_stream_round_trip:
  assumes "\<And>c b. (c, b) \<in> set msgs \<Longrightarrow> c \<in> {CHR ''$'', CHR ''!''} \<and> plain_body b" and "194 \<le> n" and "np_ok p"
    and "concat chunks = concat (map (\<lambda>(c, b). make_sentence n b c) msgs)"
  shows "list_all2 (\<lambda>(c, b) s. sentence_carries c b s) msgs
    (snd (foldl (\<lambda>(p, out) chunk. let (p', out') = feed np_step p chunk in (p', out @ out')) (p, []) chunks))"
proof -
  obtain ss where ss: "list_all2 (\<lambda>(c, b) s. sentence_carries c b s) msgs ss" "\<forall>s \<in> set ss. nmea_wf s"
    "concat (map nmea_wire ss) = concat (map (\<lambda>(c, b). make_sentence n b c) msgs)"
    using nmea_wf_list [OF assms(1,2)] by blast
  have "snd (foldl (\<lambda>(p, out) chunk. let (p', out') = feed np_step p chunk in (p', out @ out')) (p, []) chunks) = ss"
    using assms(3,4) ss(2,3) by (intro nmea.stream_chunked) auto
  with ss(1) show ?thesis by simp
qed

definition example_bodies :: "(char \<times> string) list" where
  "example_bodies = [(CHR ''$'', ''GPHDT,274.1,T''), (CHR ''!'', ''AIVDM,1,1,,A,15M,0'')]"

theorem nmea_stream_round_trip_witness:
  "list_all2 (\<lambda>(c, b) s. sentence_carries c b s) example_bodies
    (snd (foldl (\<lambda>(p, out) chunk. let (p', out') = feed np_step p chunk in (p', out @ out')) (np_init, [])
       [concat (map (\<lambda>(c, b). make_sentence 200 b c) example_bodies)]))"
proof (rule nmea_stream_round_trip [where n = 200])
  show "c \<in> {CHR ''$'', CHR ''!''} \<and> plain_body b" if "(c, b) \<in> set example_bodies" for c b
    using that by (auto simp: example_bodies_def plain_body_def)
qed (simp_all add: np_ok_def np_init_def)

text \<open>
  C29: A sentence in which one character of the body was changed on the way, into any character but one that has a
  meaning of its own to the parser (\<open>$\<close>, \<open>!\<close>, \<open>*\<close>, CR, LF, NUL), is never handed over: the parser
  reports a checksum mismatch and is ready for the next sentence. The excluded replacements end or restart the
  sentence: a start character in the body makes the rest a sentence of its own, and a star moves the checksum field.
\<close>
theorem nmea_corruption_detected:
  assumes "c \<in> {CHR ''$'', CHR ''!''}" "plain_body body" "194 \<le> n"
    and "i < length body" "x \<noteq> body ! i" "x \<notin> {CHR ''$'', CHR ''!'', CHR ''*'', CR, LF, NUL}"
  shows "\<exists>p'. feed np_step p ((make_sentence n body c)[Suc i := x]) = (p', []) \<and>
    np_error p' = Some NeChecksumMismatch \<and> \<not> np_collecting p'"
proof -
  let ?b = "body[i := x]"
  have "make_sentence n body c = nmea_line c body (nmea_checksum body) @ [CR, LF]"
    using assms(3) plain_bodyD(2) [OF assms(2)] by (intro make_sentence_line) simp
  then have line: "(make_sentence n body c)[Suc i := x] = nmea_line c ?b (nmea_checksum body) @ [CR, LF]"
    using assms(4) by (simp add: nmea_line_def list_update_append)
  have pb: "plain_body ?b"
    using assms(2,4,6) by (auto simp: plain_body_def list_all_length nth_list_update)
  have "nmea_checksum ?b \<noteq> nmea_checksum body" using nmea_checksum_update [OF assms(4,5)] .
  then have "feed np_step p ((make_sentence n body c)[Suc i := x]) =
      (p\<lparr>np_buffer := nmea_line c ?b (nmea_checksum body), np_collecting := False, np_error := Some NeChecksumMismatch\<rparr>, [])"
    unfolding line feed_sentence [OF assms(1) pb] by simp
  then show ?thesis by simp
qed

theorem nmea_corruption_detected_witness:
  "\<exists>p'. feed np_step np_init ((make_sentence 200 ''GPHDT,274.1,T'' (CHR ''$''))[Suc 6 := CHR ''9'']) = (p', []) \<and>
    np_error p' = Some NeChecksumMismatch \<and> \<not> np_collecting p'"
  by (rule nmea_corruption_detected) (simp_all add: plain_body_def)

end
