(* ===== verification/Nmea_Values.thy ===== *)
theory Nmea_Values
  imports Nmea_Parser
begin

text \<open>
  The integer conversions of NMEA fields (\<^verbatim>\<open>nmea0183_helpers.hpp\<close>): decimal numbers, and the Unix time of an RMC
  sentence with its days-from-civil arithmetic. The width of \<^verbatim>\<open>long\<close> and the conversion to \<^verbatim>\<open>float\<close> of the latter are
  parameters; the time of day in hours and minutes is below \<open>2 ^ 24\<close>, which a \<^verbatim>\<open>float\<close> holds exactly; its caller converts it.
\<close>

section \<open>Decimal numbers\<close>

text \<open>Reference: the value of a string of decimal digits.\<close>

definition decimal :: "string \<Rightarrow> int" where
  "decimal cs = foldl (\<lambda>v c. v * 10 + digit_value c) 0 cs"

lemma digit_value_range: "is_digit_char c \<Longrightarrow> 0 \<le> digit_value c \<and> digit_value c \<le> 9"
  by (auto simp: is_digit_char_def digit_value_def)

lemma foldl_decimal_mono:
  "0 \<le> v \<Longrightarrow> list_all is_digit_char cs \<Longrightarrow> v \<le> foldl (\<lambda>v c. v * 10 + digit_value c) v cs"
proof (induction cs arbitrary: v)
  case (Cons c cs)
  then have "v \<le> v * 10 + digit_value c" "0 \<le> v * 10 + digit_value c" using digit_value_range [of c] by auto
  with Cons.IH [of "v * 10 + digit_value c"] Cons.prems show ?case by simp
qed simp

lemma parse_int32_digits_eq:
  assumes "0 \<le> v" "v \<le> (if negative then 2147483648 else 2147483647)"
  shows "parse_int32_digits negative v cs =
    (let w = foldl (\<lambda>v c. v * 10 + digit_value c) v cs in
     if list_all is_digit_char cs \<and> w \<le> (if negative then 2147483648 else 2147483647) then Some w else None)"
  using assms
proof (induction cs arbitrary: v)
  case (Cons c cs)
  let ?v = "v * 10 + digit_value c" and ?m = "if negative then 2147483648 else (2147483647 :: int)"
  show ?case
  proof (cases "is_digit_char c \<and> ?v \<le> ?m")
    case True
    with Cons.prems(1) digit_value_range [of c] have "0 \<le> ?v" by simp
    with Cons.IH [of ?v] True show ?thesis by (auto simp: Let_def split: if_splits)
  next
    case False
    have "\<not> foldl (\<lambda>v c. v * 10 + digit_value c) ?v cs \<le> ?m" if "is_digit_char c" "list_all is_digit_char cs"
      using foldl_decimal_mono [of ?v cs] False that Cons.prems(1) digit_value_range [of c] by auto
    with False show ?thesis by (auto simp: Let_def split: if_splits)
  qed
qed (simp add: Let_def)

text \<open>
  \<open>parse_int32\<close> is the decimal notation of a 32 bit number: a field is accepted exactly if it is an optional sign
  followed by at least one digit, nothing else, and the number it denotes fits a signed 32 bit integer (both ends
  included); then that number is the result. The early overflow test inside the loop never refuses a number that fits.
\<close>
theorem parse_int32_reference:
  "parse_int32 field =
    (let neg = (field \<noteq> [] \<and> hd field = CHR ''-'');
         ds = (if field \<noteq> [] \<and> (hd field = CHR ''+'' \<or> hd field = CHR ''-'') then tl field else field);
         v = (if neg then - decimal ds else decimal ds)
     in if ds \<noteq> [] \<and> list_all is_digit_char ds \<and> - (2 ^ 31) \<le> v \<and> v \<le> 2 ^ 31 - 1 then Some v else None)"
proof (cases field)
  case (Cons c cs)
  have pd: "parse_int32_digits neg 0 ds =
      (if list_all is_digit_char ds \<and> decimal ds \<le> (if neg then 2147483648 else 2147483647) then Some (decimal ds) else None)" for neg ds
    using parse_int32_digits_eq [of 0 neg ds] by (simp add: Let_def decimal_def)
  have nn: "list_all is_digit_char ds \<Longrightarrow> 0 \<le> decimal ds" for ds
    using foldl_decimal_mono [of 0 ds] by (simp add: decimal_def)
  consider "c = CHR ''-''" | "c = CHR ''+''" | "c \<noteq> CHR ''-''" "c \<noteq> CHR ''+''" by blast
  then show ?thesis
  proof cases
    case 1
    with Cons nn [of cs] show ?thesis by (auto simp: parse_int32_def Let_def pd simp del: parse_int32_digits.simps)
  next
    case 2
    with Cons nn [of cs] show ?thesis by (auto simp: parse_int32_def Let_def pd simp del: parse_int32_digits.simps)
  next
    case 3
    with Cons nn [of "c # cs"] show ?thesis
      by (auto simp: parse_int32_def Let_def pd simp del: parse_int32_digits.simps)
  qed
qed (simp add: parse_int32_def)

section \<open>Time of an RMC sentence\<close>

text \<open>The value \<^verbatim>\<open>c - '0'\<close> has for a signed \<^verbatim>\<open>char\<close>, and the two digits at a position of a span.\<close>

definition char_digit :: "char \<Rightarrow> int" where
  "char_digit c = (let n = int (of_char c) in (if n < 128 then n else n - 256) - 48)"

definition two_digits :: "span \<Rightarrow> nat \<Rightarrow> int" where
  "two_digits s i = char_digit (span_at s i) * 10 + char_digit (span_at s (i + 1))"

definition parse_nmea_hhmm_time_s :: "span \<Rightarrow> int option" where
  "parse_nmea_hhmm_time_s field =
     (if length field < 4 then None
      else (let hour = two_digits field 0; minute = two_digits field 2 in
            if hour < 0 \<or> 23 < hour \<or> minute < 0 \<or> 59 < minute then None else Some (hour * 3600 + minute * 60)))"

definition days_from_civil :: "int \<Rightarrow> int \<Rightarrow> int \<Rightarrow> int" where
  "days_from_civil year month day =
     (let y = year - (if month \<le> 2 then 1 else 0);
          era = (if 0 \<le> y then y else y - 399) div 400;
          yoe = y - era * 400;
          m = month + (if 2 < month then - 3 else 9);
          doy = (153 * m + 2) div 5 + day - 1;
          doe = yoe * 365 + yoe div 4 - yoe div 100 + doy
      in era * 146097 + doe - 719468)"

text \<open>
  The sum is computed in \<^verbatim>\<open>long\<close>, of \<open>w\<close> bits (32 on the ESP32 and on Windows, 64 on Linux hosts), and then converted to
  \<^verbatim>\<open>float\<close>. A step whose value does not fit a \<^verbatim>\<open>long\<close> is undefined in C++.
\<close>

datatype 'f rmc_time = RmcRefused | RmcOverflow | RmcTime 'f

definition long_fits :: "nat \<Rightarrow> int \<Rightarrow> bool" where
  "long_fits w x \<longleftrightarrow> - (2 ^ (w - 1)) \<le> x \<and> x < 2 ^ (w - 1)"

definition parse_rmc_timestamp_s :: "nat \<Rightarrow> (int \<Rightarrow> 'f) \<Rightarrow> span \<Rightarrow> span \<Rightarrow> 'f rmc_time" where
  "parse_rmc_timestamp_s w float_of_long utc date =
     (if length utc < 6 \<or> length date < 6 then RmcRefused
      else (let hour = two_digits utc 0; minute = two_digits utc 2; second = two_digits utc 4;
                day = two_digits date 0; month = two_digits date 2; yy = two_digits date 4 in
            if hour < 0 \<or> 23 < hour \<or> minute < 0 \<or> 59 < minute \<or> second < 0 \<or> 60 < second then RmcRefused
            else if day < 1 \<or> 31 < day \<or> month < 1 \<or> 12 < month then RmcRefused
            else (let year = (if 70 \<le> yy then 1900 + yy else 2000 + yy);
                      days = days_from_civil year month day;
                      of_days = days * 86400;
                      of_hours = of_days + hour * 3600;
                      of_minutes = of_hours + minute * 60;
                      of_seconds = of_minutes + second
                  in if list_all (long_fits w) [days, of_days, of_hours, of_minutes, of_seconds]
                     then RmcTime (float_of_long of_seconds) else RmcOverflow)))"

text \<open>Reference: the Gregorian calendar, day after day.\<close>

definition leap_year :: "int \<Rightarrow> bool" where
  "leap_year y \<longleftrightarrow> y mod 4 = 0 \<and> (y mod 100 \<noteq> 0 \<or> y mod 400 = 0)"

definition month_days :: "int \<Rightarrow> int \<Rightarrow> int" where
  "month_days y m = (if m = 2 then (if leap_year y then 29 else 28) else if m \<in> {4, 6, 9, 11} then 30 else 31)"

fun next_day :: "int \<times> int \<times> int \<Rightarrow> int \<times> int \<times> int" where
  "next_day (y, m, d) =
     (if d < month_days y m then (y, m, d + 1) else if m < 12 then (y, m + 1, 1) else (y + 1, 1, 1))"

fun civil_date :: "nat \<Rightarrow> int \<times> int \<times> int" where
  "civil_date 0 = (1970, 1, 1)"
| "civil_date (Suc n) = next_day (civil_date n)"

definition date_ok :: "int \<times> int \<times> int \<Rightarrow> bool" where
  "date_ok = (\<lambda>(y, m, d). 1970 \<le> y \<and> 1 \<le> m \<and> m \<le> 12 \<and> 1 \<le> d \<and> d \<le> month_days y m)"

lemma civil_date_ok: "date_ok (civil_date n)"
proof (induction n)
  case 0
  show ?case by (simp add: date_ok_def month_days_def)
next
  case (Suc n)
  obtain y m d where "civil_date n = (y, m, d)" by (cases "civil_date n") auto
  with Suc show ?case by (auto simp: date_ok_def month_days_def)
qed

text \<open>Counting days reaches every date.\<close>

lemma civil_date_next: "(y, m, d) \<in> range civil_date \<Longrightarrow> next_day (y, m, d) \<in> range civil_date"
proof -
  assume "(y, m, d) \<in> range civil_date"
  then obtain n where "civil_date n = (y, m, d)" by auto
  then have "civil_date (Suc n) = next_day (y, m, d)" by simp
  then show ?thesis by (rule range_eqI [OF sym])
qed

lemma civil_date_month:
  assumes "(y, m, 1) \<in> range civil_date" "1 \<le> d"
  shows "d \<le> month_days y m \<longrightarrow> (y, m, d) \<in> range civil_date"
  using assms(2)
proof (induction d rule: int_ge_induct)
  case (step d)
  then show ?case using civil_date_next [of y m d] by auto
qed (use assms(1) in simp)

lemma civil_date_year:
  assumes "(y, 1, 1) \<in> range civil_date" "1 \<le> m"
  shows "m \<le> 12 \<longrightarrow> (y, m, 1) \<in> range civil_date"
  using assms(2)
proof (induction m rule: int_ge_induct)
  case (step m)
  have "1 \<le> month_days y m" by (simp add: month_days_def)
  with step show ?case using civil_date_month [of y m "month_days y m"] civil_date_next [of y m "month_days y m"] by auto
qed (use assms(1) in simp)

lemma civil_date_new_year: "1970 \<le> y \<Longrightarrow> (y, 1, 1) \<in> range civil_date"
proof (induction y rule: int_ge_induct)
  case base
  show ?case by (rule range_eqI [of _ _ 0]) simp
next
  case (step y)
  have "month_days y 12 = 31" by (simp add: month_days_def)
  then show ?case using civil_date_year [OF step.IH, of 12] civil_date_month [of y 12 31] civil_date_next [of y 12 31] by auto
qed

lemma civil_date_reaches: "date_ok (y, m, d) \<Longrightarrow> \<exists>n. civil_date n = (y, m, d)"
  using civil_date_new_year [of y] civil_date_year [of y m] civil_date_month [of y m d] by (fastforce simp: date_ok_def)

lemma days_next_day_in_month: "days_from_civil y m (d + 1) = days_from_civil y m d + 1"
  by (simp add: days_from_civil_def Let_def)

definition year_days :: "int \<Rightarrow> int" where
  "year_days y = 365 * y + y div 4 - y div 100 + y div 400"

lemma days_closed:
  assumes "0 \<le> year - (if month \<le> 2 then 1 else 0)"
  shows "days_from_civil year month day =
    (let y = year - (if month \<le> 2 then 1 else 0) in
     year_days y + (153 * (month + (if 2 < month then - 3 else 9)) + 2) div 5 + day - 719469)"
proof -
  define y where "y = year - (if month \<le> 2 then 1 else 0)"
  define e where "e = y div 400"
  define r where "r = y mod 400"
  have y: "y = 400 * e + r" "0 \<le> r" "r < 400" by (simp_all add: e_def r_def)
  then have "y - e * 400 = r" by simp
  moreover have "y = r + (100 * e) * 4" "y = r + (4 * e) * 100" using y(1) by simp_all
  then have "y div 4 = 100 * e + r div 4" "y div 100 = 4 * e + r div 100"
    by (metis div_mult_self1 zero_neq_numeral)+
  ultimately show ?thesis
    using assms by (simp add: days_from_civil_def year_days_def Let_def y_def [symmetric] e_def [symmetric])
qed

lemma div_pred: "0 < k \<Longrightarrow> (y - 1) div k = y div k - (if y mod k = 0 then 1 else (0 :: int))"
proof -
  assume k: "0 < k"
  define q r where "q = y div k" and "r = y mod k"
  have y: "y = k * q + r" "0 \<le> r" "r < k" using k by (simp_all add: q_def r_def)
  show ?thesis
  proof (cases "r = 0")
    case True
    then have "y - 1 = (k - 1) + (q - 1) * k" using y by (simp add: algebra_simps)
    then have "(y - 1) div k = q - 1" using k by (simp only: div_mult_self1) simp
    with True show ?thesis by (simp add: q_def [symmetric] r_def [symmetric])
  next
    case False
    then have "y - 1 = (r - 1) + q * k" using y by (simp add: algebra_simps)
    then have "(y - 1) div k = q" using k y False by (simp only: div_mult_self1) simp
    with False show ?thesis by (simp add: q_def [symmetric] r_def [symmetric])
  qed
qed

lemma year_days_step:
  "a' = a - (if p then 1 else 0) \<Longrightarrow> b' = b - (if q then 1 else 0) \<Longrightarrow> c' = c - (if r then 1 else (0 :: int)) \<Longrightarrow>
   (q \<Longrightarrow> p) \<Longrightarrow> (r \<Longrightarrow> q) \<Longrightarrow>
   365 * y + a - b + c = 365 * (y - 1) + a' - b' + c' + (if p \<and> (\<not> q \<or> r) then 366 else 365)"
  by auto

lemma year_days_leap: "year_days y = year_days (y - 1) + (if leap_year y then 366 else 365)"
  unfolding year_days_def leap_year_def
proof (rule year_days_step)
  have "(4 :: int) dvd 100" "(100 :: int) dvd 400" by simp_all
  then show "y mod 100 = 0 \<Longrightarrow> y mod 4 = 0" "y mod 400 = 0 \<Longrightarrow> y mod 100 = 0"
    unfolding mod_eq_0_iff_dvd by (metis dvd_trans)+
qed (rule div_pred, simp)+

lemma days_next_day:
  assumes "date_ok (y, m, d)"
  shows "(case next_day (y, m, d) of (y', m', d') \<Rightarrow> days_from_civil y' m' d') = days_from_civil y m d + 1"
proof (cases "d < month_days y m")
  case True
  then show ?thesis by (simp add: days_next_day_in_month)
next
  case False
  with assms have d: "d = month_days y m" "1970 \<le> y" "1 \<le> m" "m \<le> 12" by (auto simp: date_ok_def)
  have months: "[1..12] = [1, 2, 3, 4, 5, 6, 7, 8, 9, 10, 11, 12 :: int]" by code_simp
  have "m \<in> set [1..12]" using d(3,4) by simp
  then have "m = 1 \<or> m = 2 \<or> m = 3 \<or> m = 4 \<or> m = 5 \<or> m = 6 \<or> m = 7 \<or> m = 8 \<or> m = 9 \<or> m = 10 \<or> m = 11 \<or> m = 12"
    by (simp only: months) simp
  then show ?thesis using d(1,2) False year_days_leap [of y]
    by (elim disjE) (simp_all add: days_closed month_days_def Let_def)
qed

lemma civil_date_days: "(case civil_date n of (y, m, d) \<Rightarrow> days_from_civil y m d) = int n"
proof (induction n)
  case 0
  show ?case by (simp add: days_from_civil_def)
next
  case (Suc n)
  obtain y m d where c: "civil_date n = (y, m, d)" by (cases "civil_date n") auto
  with days_next_day [of y m d] civil_date_ok [of n] Suc show ?case by (simp del: next_day.simps)
qed

text \<open>Reference: a number below 100 in two decimal digits.\<close>

definition print2 :: "int \<Rightarrow> string" where
  "print2 k = [char_of (48 + nat k div 10), char_of (48 + nat k mod 10)]"

lemma char_digit_print: "k < 10 \<Longrightarrow> char_digit (char_of (48 + k)) = int k"
  by (simp add: char_digit_def)

lemma print2_length [simp]: "length (print2 k) = 2"
  by (simp add: print2_def)

lemma two_digits_print2:
  assumes "0 \<le> k" "k < 100" "length pre = i"
  shows "two_digits (pre @ print2 k @ rest) i = k"
proof -
  have "char_digit (char_of (48 + nat k div 10)) = int (nat k div 10)"
    by (rule char_digit_print) (use assms in simp)
  moreover have "char_digit (char_of (48 + nat k mod 10)) = int (nat k mod 10)"
    by (rule char_digit_print) simp
  moreover have "int (nat k div 10) * 10 + int (nat k mod 10) = k"
    using assms(1) by (simp add: zdiv_int zmod_int)
  ultimately show ?thesis using assms(3) by (simp add: two_digits_def span_at_def print2_def nth_append)
qed

text \<open>The sum overflows in one of its steps exactly if the whole does.\<close>

lemma long_sum_fits:
  assumes "0 \<le> days" "0 \<le> h" "0 \<le> m" "0 \<le> s"
  shows "list_all (long_fits w) [days, days * 86400, days * 86400 + h, days * 86400 + h + m, days * 86400 + h + m + s] \<longleftrightarrow>
    days * 86400 + h + m + s < 2 ^ (w - 1)"
proof -
  have "- (2 ^ (w - 1)) \<le> (0 :: int)" by simp
  then show ?thesis using assms by (auto simp: long_fits_def)
qed

text \<open>
  C34: The time of an RMC sentence is Unix time, for as long as the target's \<^verbatim>\<open>long\<close> can hold it. If the date field shows the \<open>n\<close>-th day after 1 January 1970 of the
  Gregorian calendar (day, month and year in two digits each, up to the year 2069) and the time field a time of day,
  then the time stamp is the conversion to \<^verbatim>\<open>float\<close>, once, of \<open>n\<close> days of 86400 seconds plus the seconds of the day, provided this number is below
  \<open>2 ^ (w - 1)\<close> for a \<^verbatim>\<open>long\<close> of \<open>w\<close> bits; otherwise the sum overflows. The closed days-from-civil
  formula agrees with counting days one by one, leap years and century years included. How \<^verbatim>\<open>float\<close> rounds is a parameter.
\<close>
theorem rmc_timestamp_is_unix_time:
  assumes "civil_date n = (y, m, d)" "y \<le> 2069"
    and "0 \<le> hh" "hh \<le> 23" "0 \<le> mm" "mm \<le> 59" "0 \<le> ss" "ss \<le> 60"
  shows "parse_rmc_timestamp_s w float_of_long (print2 hh @ print2 mm @ print2 ss @ fraction) (print2 d @ print2 m @ print2 (y mod 100)) =
    (if int n * 86400 + hh * 3600 + mm * 60 + ss < 2 ^ (w - 1)
     then RmcTime (float_of_long (int n * 86400 + hh * 3600 + mm * 60 + ss)) else RmcOverflow)"
proof -
  have ok: "1970 \<le> y" "1 \<le> m" "m \<le> 12" "1 \<le> d" "d \<le> 31"
    using civil_date_ok [of n] assms(1) by (auto simp: date_ok_def month_days_def split: if_splits)
  let ?u = "print2 hh @ print2 mm @ print2 ss @ fraction" and ?d = "print2 d @ print2 m @ print2 (y mod 100)"
  have u: "two_digits ?u 0 = hh" "two_digits ?u 2 = mm" "two_digits ?u 4 = ss"
    using two_digits_print2 [of hh "[]" 0 "print2 mm @ print2 ss @ fraction"]
      two_digits_print2 [of mm "print2 hh" 2 "print2 ss @ fraction"] two_digits_print2 [of ss "print2 hh @ print2 mm" 4 fraction]
      assms(3-8) by simp_all
  have v: "two_digits ?d 0 = d" "two_digits ?d 2 = m" "two_digits ?d 4 = y mod 100"
    using two_digits_print2 [of d "[]" 0 "print2 m @ print2 (y mod 100)"] two_digits_print2 [of m "print2 d" 2 "print2 (y mod 100)"]
      two_digits_print2 [of "y mod 100" "print2 d @ print2 m" 4 "[]"] ok by simp_all
  have "(if 70 \<le> y mod 100 then 1900 + y mod 100 else 2000 + y mod 100) = y"
    using ok(1) assms(2) by presburger
  moreover have "days_from_civil y m d = int n" using civil_date_days [of n] assms(1) by simp
  ultimately show ?thesis
    using assms(3-8) ok long_sum_fits [of "int n" "hh * 3600" "mm * 60" ss w] unfolding parse_rmc_timestamp_s_def Let_def u v by simp
qed

theorem rmc_timestamp_is_unix_time_witness:
  "parse_rmc_timestamp_s 32 (\<lambda>t. 128 * ((t + 64) div 128)) (print2 23 @ print2 59 @ print2 58 @ ''.5'') (print2 1 @ print2 3 @ print2 (1972 mod 100)) =
    RmcTime (128 * ((int 790 * 86400 + 23 * 3600 + 59 * 60 + 58 + 64) div 128))"
proof -
  have "civil_date 790 = (1972, 3, 1)" by code_simp
  from rmc_timestamp_is_unix_time [OF this, of 23 59 58 32 "\<lambda>t. 128 * ((t + 64) div 128)" "''.5''"] show ?thesis by simp
qed

text \<open>With a \<^verbatim>\<open>long\<close> of 32 bits the last time is 19 January 2038, 03:14:07.\<close>

lemma rmc_timestamp_overflows_32:
  "parse_rmc_timestamp_s 32 f ''031407'' ''190138'' = RmcTime (f 2147483647)" "parse_rmc_timestamp_s 32 f ''031408'' ''190138'' = RmcOverflow"
  by (simp_all add: parse_rmc_timestamp_s_def two_digits_def char_digit_def span_at_def days_from_civil_def long_fits_def)

end
