(* ===== verification/Nmea_Multipart.thy ===== *)
theory Nmea_Multipart
  imports Nmea_Parser
begin

text \<open>
  The line tokenizer (\<^verbatim>\<open>nmea_tokenizer.hpp\<close>) and the reassembly of messages sent in several sentences
  (\<^verbatim>\<open>nmea_rx_multipart.hpp\<close> over the records of \<^verbatim>\<open>nmea_message_state.hpp\<close>): text, AIS, NAVTEX, DSC, SeaTalk and
  Inmarsat fragments. Fixed character arrays are the C strings they hold, counters are integers, time is in
  microseconds.
\<close>

unbundle bit_operations_syntax

section \<open>Tokens of a line\<close>

record nmea_token =
  tk_text :: span
  tk_family :: sentence_family
  tk_talker_id :: string
  tk_gnss_system :: gnss_system
  tk_vendor_code :: span
  tk_vendor :: string
  tk_fragment :: fragment_info
  tk_is_sentence :: bool
  tk_has_checksum :: bool

definition nmea_is_line_end :: "char \<Rightarrow> bool" where
  "nmea_is_line_end c \<longleftrightarrow> c = NUL \<or> c = CR \<or> c = LF"

definition nmea_is_token_start :: "char \<Rightarrow> bool" where
  "nmea_is_token_start c \<longleftrightarrow> c = CHR ''$'' \<or> c = CHR ''!''"

definition is_blank :: "char \<Rightarrow> bool" where
  "is_blank c \<longleftrightarrow> c = CHR '' '' \<or> c = TAB"

definition nmea_trim_line :: "string \<Rightarrow> span" where
  "nmea_trim_line line =
     mk_span (rev (dropWhile is_blank (rev (takeWhile (\<lambda>c. \<not> nmea_is_line_end c) (dropWhile is_blank line)))))"

definition nmea_token_has_checksum :: "span \<Rightarrow> bool" where
  "nmea_token_has_checksum token \<longleftrightarrow> CHR ''*'' \<in> set token"

definition nmea_token_until_line_end :: "string \<Rightarrow> span" where
  "nmea_token_until_line_end start = mk_span (takeWhile (\<lambda>c. \<not> nmea_is_line_end c) start)"

definition nmea_find_sentence_start :: "span \<Rightarrow> nat option" where
  "nmea_find_sentence_start line = index_where nmea_is_token_start line"

definition nmea_looks_like_inmarsat_envelope :: "span \<Rightarrow> bool" where
  "nmea_looks_like_inmarsat_envelope line \<longleftrightarrow> 0 < length line \<and> line ! 0 = CHR ''/''"

definition nmea_token_body_starts_with :: "span \<Rightarrow> string \<Rightarrow> bool" where
  "nmea_token_body_starts_with token prefix \<longleftrightarrow> 1 \<le> length token \<and> take (length prefix) (tl token) = prefix"

definition nmea_token_sentence_is :: "span \<Rightarrow> string \<Rightarrow> bool" where
  "nmea_token_sentence_is token s \<longleftrightarrow> 6 \<le> length token \<and> take 3 (drop 3 token) = take 3 s"

definition nmea_token_is_query :: "span \<Rightarrow> bool" where
  "nmea_token_is_query token \<longleftrightarrow> 6 < length token \<and> token ! 0 = CHR ''$'' \<and> token ! 5 = CHR ''Q''"

definition nmea_token_body_without_checksum :: "span \<Rightarrow> span" where
  "nmea_token_body_without_checksum token =
     (if length token < 2 then [] else takeWhile (\<lambda>c. c \<noteq> CHR ''*'') (tl token))"

text \<open>The field at an index of the comma separated text that starts at a field.\<close>

fun nth_field :: "nat \<Rightarrow> string \<Rightarrow> span" where
  "nth_field 0 rest = takeWhile (\<lambda>c. c \<noteq> CHR '','') rest"
| "nth_field (Suc i) rest =
     (if CHR '','' \<in> set rest then nth_field i (tl (dropWhile (\<lambda>c. c \<noteq> CHR '','') rest)) else [])"

definition nmea_token_field :: "span \<Rightarrow> nat \<Rightarrow> span" where
  "nmea_token_field token i =
     (let body = nmea_token_body_without_checksum token in
      if length body < 5 \<or> CHR '','' \<notin> set body then []
      else nth_field i (tl (dropWhile (\<lambda>c. c \<noteq> CHR '','') body)))"

definition nmea_token_set_fragment :: "span \<Rightarrow> nat \<Rightarrow> nat \<Rightarrow> nat \<Rightarrow> nat \<Rightarrow> fragment_info \<Rightarrow> fragment_info" where
  "nmea_token_set_fragment token total_index number_index id_index payload_index f =
     (case (nmea_parse_uint8_span (nmea_token_field token total_index), nmea_parse_uint8_span (nmea_token_field token number_index)) of
        (Some tot, Some num) \<Rightarrow>
          if tot = 0 \<or> num = 0 \<or> tot < num \<or> 16 < tot then f
          else \<lparr>fg_is_fragmented = True, fg_total = tot, fg_number = num,
                 fg_message_id = nmea_token_field token id_index, fg_payload = nmea_token_field token payload_index\<rparr>
      | _ \<Rightarrow> f)"

definition nmea_detect_token_fragment :: "nmea_token \<Rightarrow> nmea_token" where
  "nmea_detect_token_fragment t =
     (let set_f = (\<lambda>a b c d. t\<lparr>tk_fragment := nmea_token_set_fragment (tk_text t) a b c d (tk_fragment t)\<rparr>) in
      if \<not> tk_is_sentence t then t
      else if nmea_token_sentence_is (tk_text t) ''TXT'' then set_f 0 1 2 3
      else if tk_family t = FamAis then set_f 0 1 2 4
      else if nmea_token_sentence_is (tk_text t) ''DSE'' then set_f 0 1 3 5
      else if nmea_token_sentence_is (tk_text t) ''NRM'' \<or> nmea_token_sentence_is (tk_text t) ''NRX'' then set_f 0 1 2 3
      else if tk_family t = FamSeaTalk \<or> tk_family t = FamInmarsat then set_f 0 1 2 3
      else t)"

definition nmea_classify_token_span :: "span \<Rightarrow> sentence_family" where
  "nmea_classify_token_span token =
     (if token = [] then FamStandard
      else if token ! 0 = CHR ''!'' then
        (if nmea_token_body_starts_with token ''AIVDM'' \<or> nmea_token_body_starts_with token ''AIVDO'' \<or>
            nmea_token_body_starts_with token ''BSVDM'' \<or> nmea_token_body_starts_with token ''BSVDO''
         then FamAis else FamUnknownEncapsulation)
      else if nmea_token_is_query token then FamQuery
      else if nmea_token_body_starts_with token ''STALK'' \<or> nmea_token_body_starts_with token ''PSTALK'' then FamSeaTalk
      else if nmea_token_sentence_is token ''DSC'' \<or> nmea_token_sentence_is token ''DSE'' \<or>
              nmea_token_sentence_is token ''DSI'' \<or> nmea_token_sentence_is token ''DSR'' then FamDsc
      else if nmea_token_sentence_is token ''NRM'' \<or> nmea_token_sentence_is token ''NRX'' then FamNavTex
      else if nmea_token_body_starts_with token ''CSSM'' \<or> nmea_token_body_starts_with token ''PINM'' \<or>
              nmea_token_body_starts_with token ''INM'' then FamInmarsat
      else if 1 < length token \<and> token ! 1 = CHR ''P'' then FamProprietary
      else FamStandard)"

definition nmea_add_token :: "nmea_token list \<Rightarrow> span \<Rightarrow> sentence_family \<Rightarrow> bool \<Rightarrow> nmea_token list" where
  "nmea_add_token result t family is_sentence =
     (if 2 \<le> length result then result
      else result @ [nmea_detect_token_fragment
             \<lparr>tk_text = t, tk_family = family, tk_talker_id = nmea_talker_id_from_token t,
              tk_gnss_system = nmea_gnss_system_from_talker (nmea_talker_id_from_token t),
              tk_vendor_code = nmea_proprietary_vendor_code_from_token t,
              tk_vendor = nmea_proprietary_vendor_from_code (nmea_proprietary_vendor_code_from_token t),
              tk_fragment = fragment_init, tk_is_sentence = is_sentence, tk_has_checksum = nmea_token_has_checksum t\<rparr>])"

text \<open>
  A token that starts inside the line runs to the end of the raw line: \<open>nmea_token_until_line_end\<close> reads on after
  the trimmed span. The offset of the trimmed line in the raw one is the number of leading blanks.
\<close>

definition tokenize_nmea_line :: "string \<Rightarrow> nmea_token list" where
  "tokenize_nmea_line raw =
     (let line = nmea_trim_line raw;
          from_start = (\<lambda>i. nmea_token_until_line_end (drop i (dropWhile is_blank raw))) in
      if line = [] then []
      else if nmea_is_token_start (line ! 0) then nmea_add_token [] line (nmea_classify_token_span line) True
      else if nmea_looks_like_inmarsat_envelope line then
        (case nmea_find_sentence_start line of
           Some i \<Rightarrow>
             if 0 < i then nmea_add_token (nmea_add_token [] (take i line) FamInmarsat False) (from_start i) FamInmarsat True
             else nmea_add_token [] line FamInmarsat False
         | None \<Rightarrow> nmea_add_token [] line FamInmarsat False)
      else (case nmea_find_sentence_start line of
              Some i \<Rightarrow> nmea_add_token [] (from_start i) (nmea_classify_token_span (from_start i)) True
            | None \<Rightarrow> []))"

definition first_sentence :: "nmea_token list \<Rightarrow> nmea_token option" where
  "first_sentence tokens = (case filter tk_is_sentence tokens of [] \<Rightarrow> None | t # _ \<Rightarrow> Some t)"

section \<open>Multipart records\<close>

datatype sensor_source = SrcGpsd | SrcServo | SrcSerial | SrcTcp | SrcSignalk | SrcWaterWind | SrcGpsWind | SrcNone | SrcUbx

type_synonym stamped_int = "int \<times> int"

record multipart_record =
  mr_source :: sensor_source
  mr_sentence_id :: string
  mr_talker_id :: string
  mr_message_id :: string
  mr_radio_channel :: char
  mr_total :: stamped_int
  mr_last_number :: stamped_int
  mr_received_mask :: u16
  mr_in_progress :: bool
  mr_complete :: bool
  mr_overflow :: bool
  mr_text :: string
  mr_text_length :: stamped_int
  mr_duplicates :: stamped_int
  mr_bad :: stamped_int
  mr_last_update :: int

definition multipart_init :: multipart_record where
  "multipart_init = \<lparr>mr_source = SrcNone, mr_sentence_id = [], mr_talker_id = [], mr_message_id = [], mr_radio_channel = NUL,
     mr_total = (0, 0), mr_last_number = (0, 0), mr_received_mask = 0, mr_in_progress = False, mr_complete = False,
     mr_overflow = False, mr_text = [], mr_text_length = (0, 0), mr_duplicates = (0, 0), mr_bad = (0, 0), mr_last_update = 0\<rparr>"

text \<open>The C string that a character array holds after a copy.\<close>

definition cstr :: "string \<Rightarrow> string" where
  "cstr s = takeWhile (\<lambda>c. c \<noteq> NUL) s"

definition set_source :: "sensor_source \<Rightarrow> multipart_record \<Rightarrow> multipart_record" where
  "set_source src r = (if src \<noteq> SrcNone then r\<lparr>mr_source := src\<rparr> else r)"

definition accepts_fragment_only_family :: "sentence_family \<Rightarrow> bool" where
  "accepts_fragment_only_family f \<longleftrightarrow> f = FamAis \<or> f = FamNavTex \<or> f = FamSeaTalk \<or> f = FamInmarsat"

definition ais_radio_channel :: "nmea_sentence \<Rightarrow> char" where
  "ais_radio_channel s = (if 3 < length (ns_fields s) then span_at (ns_field s 3) 0 else NUL)"

definition reset_multipart_record :: "multipart_record \<Rightarrow> multipart_record" where
  "reset_multipart_record r = r\<lparr>mr_received_mask := 0, mr_in_progress := False, mr_complete := False, mr_overflow := False,
     mr_talker_id := [], mr_sentence_id := [], mr_message_id := [], mr_radio_channel := NUL, mr_text := [],
     mr_text_length := (0, 0), mr_duplicates := (0, 0), mr_bad := (0, 0)\<rparr>"

definition copy_multipart_identity :: "nmea_sentence \<Rightarrow> multipart_record \<Rightarrow> multipart_record" where
  "copy_multipart_identity s r = r\<lparr>mr_sentence_id := cstr (take 3 (ns_sentence s)), mr_talker_id := cstr (take 2 (ns_talker s)),
     mr_message_id := cstr (take 15 (fg_message_id (ns_fragment s))),
     mr_radio_channel := (if ns_family s = FamAis then ais_radio_channel s else NUL)\<rparr>"

definition multipart_record_matches :: "nmea_sentence \<Rightarrow> multipart_record \<Rightarrow> bool" where
  "multipart_record_matches s r \<longleftrightarrow>
     (mr_in_progress r \<or> mr_complete r) \<and>
     nmea_span_equals (ns_sentence s) (mr_sentence_id r) \<and>
     nmea_span_equals (ns_talker s) (mr_talker_id r) \<and>
     nmea_span_equals (fg_message_id (ns_fragment s)) (mr_message_id r) \<and>
     (ns_family s = FamAis \<longrightarrow> ais_radio_channel s = mr_radio_channel r)"

definition mark_bad_multipart_fragment :: "nmea_sentence \<Rightarrow> int \<Rightarrow> sensor_source \<Rightarrow> multipart_record \<Rightarrow> multipart_record" where
  "mark_bad_multipart_fragment s now src r =
     (let r1 = copy_multipart_identity s (reset_multipart_record r) in
      (set_source src (r1\<lparr>mr_total := (int (fg_total (ns_fragment s)), now),
         mr_last_number := (int (fg_number (ns_fragment s)), now), mr_bad := (fst (mr_bad r1) + 1, now)\<rparr>))\<lparr>mr_last_update := now\<rparr>)"

text \<open>The fragment bit, and the text after a payload was appended to a buffer of \<open>cap\<close> characters.\<close>

definition fragment_bit :: "nat \<Rightarrow> u16" where
  "fragment_bit n = push_bit (n - 1) 1"

definition expected_mask :: "nat \<Rightarrow> u16" where
  "expected_mask tot = (if 16 \<le> tot then 0xFFFF else push_bit tot 1 - 1)"

definition append_fragment :: "nat \<Rightarrow> span \<Rightarrow> int \<Rightarrow> multipart_record \<Rightarrow> multipart_record" where
  "append_fragment cap payload now r =
     (let current = length (mr_text r);
          over = cap < current + length payload + 1;
          app = (if over then (if current < cap then cap - current - 1 else 0) else length payload)
      in r\<lparr>mr_overflow := mr_overflow r \<or> over, mr_text := cstr (mr_text r @ take app payload),
           mr_text_length := (int (current + app), now)\<rparr>)"

text \<open>The record a fragment goes to: a fresh one for a first fragment or after a complete message.\<close>

definition begin_record :: "nmea_sentence \<Rightarrow> multipart_record \<Rightarrow> multipart_record" where
  "begin_record s r =
     (if fg_is_first (ns_fragment s) \<or> \<not> mr_in_progress r \<or> mr_complete r
      then (copy_multipart_identity s (reset_multipart_record r))\<lparr>mr_in_progress := True\<rparr> else r)"

definition accept_fragment :: "nat \<Rightarrow> fragment_info \<Rightarrow> int \<Rightarrow> sensor_source \<Rightarrow> multipart_record \<Rightarrow> multipart_record" where
  "accept_fragment cap f now src r1 =
     (let r2 = r1\<lparr>mr_total := (int (fg_total f), now), mr_last_number := (int (fg_number f), now)\<rparr>;
          bit = fragment_bit (fg_number f)
      in if mr_received_mask r2 AND bit \<noteq> 0 then
           (set_source src (r2\<lparr>mr_duplicates := (fst (mr_duplicates r2) + 1, now)\<rparr>))\<lparr>mr_last_update := now\<rparr>
         else
           (let r3 = append_fragment cap (fg_payload f) now (r2\<lparr>mr_received_mask := mr_received_mask r2 OR bit\<rparr>);
                expected = expected_mask (fg_total f);
                fin = (0 < fg_total f \<and> mr_received_mask r3 AND expected = expected)
            in (set_source src (r3\<lparr>mr_complete := fin,
                  mr_in_progress := (if fin then False else mr_in_progress r3)\<rparr>))\<lparr>mr_last_update := now\<rparr>))"

definition update_multipart_record ::
  "nat \<Rightarrow> nmea_sentence \<Rightarrow> int \<Rightarrow> sensor_source \<Rightarrow> bool \<Rightarrow> multipart_record \<Rightarrow> multipart_record" where
  "update_multipart_record cap s now src matched r =
     (let f = ns_fragment s in
      if \<not> fg_is_fragmented f then r
      else if fg_total f = 0 \<or> fg_number f = 0 \<or> fg_total f < fg_number f \<or> 16 < fg_number f then
        mark_bad_multipart_fragment s now src r
      else if \<not> fg_is_first f \<and> \<not> matched then mark_bad_multipart_fragment s now src r
      else accept_fragment cap f now src (begin_record s r))"

section \<open>Banks of records\<close>

abbreviation NMEA_MESSAGE_MULTIPART_TEXT_BYTES :: nat where "NMEA_MESSAGE_MULTIPART_TEXT_BYTES \<equiv> 96"
abbreviation NMEA_NAVTEX_MULTIPART_TEXT_BYTES :: nat where "NMEA_NAVTEX_MULTIPART_TEXT_BYTES \<equiv> 256"
abbreviation NMEA_AIS_MULTIPART_STALE_TIMEOUT_US :: int where "NMEA_AIS_MULTIPART_STALE_TIMEOUT_US \<equiv> 30000000"
abbreviation NMEA_NAVTEX_MULTIPART_STALE_TIMEOUT_US :: int where "NMEA_NAVTEX_MULTIPART_STALE_TIMEOUT_US \<equiv> 30000000"

text \<open>The four slots of AIS or of NAVTEX with their counters; the last record is the copy that is published.\<close>

record multipart_bank =
  mb_slots :: "multipart_record list"
  mb_active :: stamped_int
  mb_replaced :: stamped_int
  mb_stale :: stamped_int
  mb_message :: multipart_record

definition slot_is_stale :: "int \<Rightarrow> int \<Rightarrow> multipart_record \<Rightarrow> bool" where
  "slot_is_stale timeout now r \<longleftrightarrow> mr_in_progress r \<and> mr_last_update r \<noteq> 0 \<and>
     \<not> (now < mr_last_update r \<or> now - mr_last_update r \<le> timeout)"

fun cleanup_slots :: "int \<Rightarrow> int \<Rightarrow> multipart_record list \<Rightarrow> stamped_int \<Rightarrow> multipart_record list \<times> stamped_int" where
  "cleanup_slots timeout now [] c = ([], c)"
| "cleanup_slots timeout now (r # rs) c =
     (let (r', c') = (if slot_is_stale timeout now r then (reset_multipart_record r, (fst c + 1, now)) else (r, c));
          (rs', c'') = cleanup_slots timeout now rs c'
      in (r' # rs', c''))"

definition cleanup_ais_multipart_slots :: "int \<Rightarrow> int \<Rightarrow> multipart_bank \<Rightarrow> multipart_bank" where
  "cleanup_ais_multipart_slots now timeout b =
     (if timeout = 0 then b
      else (let (rs, c) = cleanup_slots timeout now (mb_slots b) (mb_stale b) in b\<lparr>mb_slots := rs, mb_stale := c\<rparr>))"

text \<open>The index of the first slot with the least time, from index \<open>i\<close> on, against the best one so far.\<close>

fun oldest_slot :: "multipart_record list \<Rightarrow> nat \<Rightarrow> nat \<Rightarrow> int \<Rightarrow> nat" where
  "oldest_slot [] i best t = best"
| "oldest_slot (r # rs) i best t =
     (if mr_last_update r < t then oldest_slot rs (Suc i) i (mr_last_update r) else oldest_slot rs (Suc i) best t)"

definition select_ais_multipart_record :: "nmea_sentence \<Rightarrow> int \<Rightarrow> multipart_bank \<Rightarrow> multipart_bank \<times> nat \<times> bool" where
  "select_ais_multipart_record s now b0 =
     (let b = cleanup_ais_multipart_slots now NMEA_AIS_MULTIPART_STALE_TIMEOUT_US b0 in
      case index_where (multipart_record_matches s) (mb_slots b) of
        Some i \<Rightarrow> (b\<lparr>mb_active := (int i, now)\<rparr>, i, True)
      | None \<Rightarrow>
          (let free = (if fg_is_first (ns_fragment s) then index_where (\<lambda>r. \<not> mr_in_progress r) (mb_slots b) else None) in
           case free of
             Some i \<Rightarrow> (b\<lparr>mb_active := (int i, now)\<rparr>, i, False)
           | None \<Rightarrow>
               (let i = oldest_slot (tl (mb_slots b)) 1 0 (mr_last_update (hd (mb_slots b)))
                in (b\<lparr>mb_replaced := (fst (mb_replaced b) + 1, now), mb_active := (int i, now)\<rparr>, i, False))))"

definition update_bank ::
  "nat \<Rightarrow> (nmea_sentence \<Rightarrow> int \<Rightarrow> multipart_bank \<Rightarrow> multipart_bank \<times> nat \<times> bool) \<Rightarrow>
   nmea_sentence \<Rightarrow> int \<Rightarrow> sensor_source \<Rightarrow> multipart_bank \<Rightarrow> multipart_bank" where
  "update_bank cap select s now src b0 =
     (case select s now b0 of (b, i, matched) \<Rightarrow>
        (let r = update_multipart_record cap s now src matched (mb_slots b ! i)
         in b\<lparr>mb_slots := (mb_slots b)[i := r], mb_message := r\<rparr>))"

definition update_ais_multipart_message_state :: "nmea_sentence \<Rightarrow> int \<Rightarrow> sensor_source \<Rightarrow> multipart_bank \<Rightarrow> multipart_bank" where
  "update_ais_multipart_message_state = update_bank NMEA_MESSAGE_MULTIPART_TEXT_BYTES select_ais_multipart_record"

text \<open>The NAVTEX functions are a second copy of the same code with the larger text and its own timeout.\<close>

definition cleanup_navtex_multipart_slots :: "int \<Rightarrow> int \<Rightarrow> multipart_bank \<Rightarrow> multipart_bank" where
  "cleanup_navtex_multipart_slots = cleanup_ais_multipart_slots"

definition select_navtex_multipart_record :: "nmea_sentence \<Rightarrow> int \<Rightarrow> multipart_bank \<Rightarrow> multipart_bank \<times> nat \<times> bool" where
  "select_navtex_multipart_record = select_ais_multipart_record"

definition update_navtex_multipart_message_state :: "nmea_sentence \<Rightarrow> int \<Rightarrow> sensor_source \<Rightarrow> multipart_bank \<Rightarrow> multipart_bank" where
  "update_navtex_multipart_message_state = update_bank NMEA_NAVTEX_MULTIPART_TEXT_BYTES select_navtex_multipart_record"

record message_state =
  ms_text :: multipart_record
  ms_ais :: multipart_bank
  ms_navtex :: multipart_bank
  ms_seatalk :: multipart_record
  ms_inmarsat :: multipart_record
  ms_generic :: multipart_record
  ms_dsc :: multipart_record

definition bank_init :: multipart_bank where
  "bank_init = \<lparr>mb_slots = replicate 4 multipart_init, mb_active = (0, 0), mb_replaced = (0, 0), mb_stale = (0, 0),
     mb_message = multipart_init\<rparr>"

definition message_state_init :: message_state where
  "message_state_init = \<lparr>ms_text = multipart_init, ms_ais = bank_init, ms_navtex = bank_init, ms_seatalk = multipart_init,
     ms_inmarsat = multipart_init, ms_generic = multipart_init, ms_dsc = multipart_init\<rparr>"

definition update_inmarsat_multipart_message_state :: "nmea_sentence \<Rightarrow> int \<Rightarrow> sensor_source \<Rightarrow> message_state \<Rightarrow> message_state" where
  "update_inmarsat_multipart_message_state s now src st =
     st\<lparr>ms_inmarsat := update_multipart_record NMEA_MESSAGE_MULTIPART_TEXT_BYTES s now src
          (multipart_record_matches s (ms_inmarsat st)) (ms_inmarsat st)\<rparr>"

definition update_multipart_message_state :: "nmea_sentence \<Rightarrow> int \<Rightarrow> sensor_source \<Rightarrow> message_state \<Rightarrow> message_state" where
  "update_multipart_message_state s now src st =
     (let upd = update_multipart_record NMEA_MESSAGE_MULTIPART_TEXT_BYTES s now src True in
      if \<not> fg_is_fragmented (ns_fragment s) then st
      else if sentence_is s ''TXT'' then st\<lparr>ms_text := upd (ms_text st)\<rparr>
      else if ns_family s = FamAis then st\<lparr>ms_ais := update_ais_multipart_message_state s now src (ms_ais st)\<rparr>
      else if ns_family s = FamNavTex then st\<lparr>ms_navtex := update_navtex_multipart_message_state s now src (ms_navtex st)\<rparr>
      else if ns_family s = FamDsc then st\<lparr>ms_dsc := upd (ms_dsc st)\<rparr>
      else if ns_family s = FamSeaTalk then st\<lparr>ms_seatalk := upd (ms_seatalk st)\<rparr>
      else if ns_family s = FamInmarsat then update_inmarsat_multipart_message_state s now src st
      else st\<lparr>ms_generic := upd (ms_generic st)\<rparr>)"

section \<open>Fragment masks\<close>

lemma fragment_bit_exp: "fragment_bit (Suc k) = 2 ^ k"
  by (simp add: fragment_bit_def push_bit_eq_mult)

lemma expected_mask_mask: "n \<le> 16 \<Longrightarrow> expected_mask n = mask n"
proof -
  assume "n \<le> 16"
  have "(mask 16 :: u16) = 0xFFFF" by (simp add: mask_eq_exp_minus_1)
  moreover have "push_bit n (1 :: u16) - 1 = mask n" by (simp add: mask_eq_exp_minus_1 push_bit_eq_mult)
  ultimately show ?thesis using \<open>n \<le> 16\<close> by (cases "n = 16") (simp_all add: expected_mask_def)
qed

lemma mask_and_bit: "(mask k :: u16) AND 2 ^ k = 0"
  by (rule bit_eqI) (auto simp: bit_simps)

lemma mask_or_bit: "(mask k :: u16) OR 2 ^ k = mask (Suc k)"
  by (rule bit_eqI) (auto simp: bit_simps less_Suc_eq)

lemma mask_covers: "k \<le> n \<Longrightarrow> n \<le> 16 \<Longrightarrow> (mask k :: u16) AND mask n = mask n \<longleftrightarrow> k = n"
proof
  assume *: "k \<le> n" "n \<le> 16" "(mask k :: u16) AND mask n = mask n"
  show "k = n"
  proof (rule ccontr)
    assume "k \<noteq> n"
    then have "bit (mask n :: u16) k" "\<not> bit ((mask k :: u16) AND mask n) k" using *(1,2) by (auto simp: bit_simps)
    then show False using *(3) by simp
  qed
qed simp

section \<open>One message in one record\<close>

text \<open>What identifies a message: sentence formatter, talker, message id and, for AIS, the radio channel.\<close>

definition mp_identity :: "nmea_sentence \<Rightarrow> string \<times> string \<times> string \<times> char" where
  "mp_identity s = (ns_sentence s, ns_talker s, fg_message_id (ns_fragment s), if ns_family s = FamAis then ais_radio_channel s else NUL)"

definition mr_identity :: "multipart_record \<Rightarrow> string \<times> string \<times> string \<times> char" where
  "mr_identity r = (mr_sentence_id r, mr_talker_id r, mr_message_id r, mr_radio_channel r)"

text \<open>An identity that the record can hold.\<close>

definition identity_fits :: "string \<times> string \<times> string \<times> char \<Rightarrow> bool" where
  "identity_fits = (\<lambda>(a, b, c, d). length a \<le> 3 \<and> length b \<le> 2 \<and> length c \<le> 15 \<and> NUL \<notin> set a \<and> NUL \<notin> set b \<and> NUL \<notin> set c)"

lemma cstr_id: "NUL \<notin> set s \<Longrightarrow> cstr s = s"
  unfolding cstr_def by (induction s) auto

lemma copy_identity:
  "identity_fits (mp_identity s) \<Longrightarrow> mr_identity (copy_multipart_identity s r) = mp_identity s"
  by (auto simp: identity_fits_def mp_identity_def mr_identity_def copy_multipart_identity_def cstr_id)

lemma matches_identity:
  "ns_family s = FamAis \<Longrightarrow>
   multipart_record_matches s r \<longleftrightarrow> (mr_in_progress r \<or> mr_complete r) \<and> mr_identity r = mp_identity s"
  by (auto simp: multipart_record_matches_def nmea_span_equals_def mp_identity_def mr_identity_def)

text \<open>A record that holds the first \<open>k\<close> fragments of a message.\<close>

definition holds_fragments :: "string \<times> string \<times> string \<times> char \<Rightarrow> nat \<Rightarrow> string \<Rightarrow> multipart_record \<Rightarrow> bool" where
  "holds_fragments ident k body r \<longleftrightarrow> mr_identity r = ident \<and> mr_received_mask r = mask k \<and> mr_text r = body \<and> \<not> mr_overflow r"

definition fragment_ok :: "string \<times> string \<times> string \<times> char \<Rightarrow> nat \<Rightarrow> nat \<Rightarrow> nmea_sentence \<Rightarrow> bool" where
  "fragment_ok ident n k s \<longleftrightarrow> ns_family s = FamAis \<and> \<not> sentence_is s ''TXT'' \<and> mp_identity s = ident \<and>
     fg_is_fragmented (ns_fragment s) \<and> fg_total (ns_fragment s) = n \<and> fg_number (ns_fragment s) = Suc k \<and>
     NUL \<notin> set (fg_payload (ns_fragment s))"

lemma set_source_keeps [simp]:
  "mr_sentence_id (set_source src r) = mr_sentence_id r" "mr_talker_id (set_source src r) = mr_talker_id r"
  "mr_message_id (set_source src r) = mr_message_id r" "mr_radio_channel (set_source src r) = mr_radio_channel r"
  "mr_received_mask (set_source src r) = mr_received_mask r" "mr_in_progress (set_source src r) = mr_in_progress r"
  "mr_complete (set_source src r) = mr_complete r" "mr_overflow (set_source src r) = mr_overflow r"
  "mr_text (set_source src r) = mr_text r"
  by (simp_all add: set_source_def)

lemma append_fragment_fits:
  assumes "length (mr_text r) + length payload < cap" "NUL \<notin> set (mr_text r)" "NUL \<notin> set payload"
  shows "append_fragment cap payload now r =
    r\<lparr>mr_text := mr_text r @ payload, mr_text_length := (int (length (mr_text r) + length payload), now)\<rparr>"
  using assms by (simp add: append_fragment_def Let_def cstr_id)

lemma begin_record_holds:
  assumes "fragment_ok ident n k s"
    and "k = 0 \<and> identity_fits ident \<and> body = [] \<or>
         0 < k \<and> holds_fragments ident k body r \<and> mr_in_progress r \<and> \<not> mr_complete r"
  shows "holds_fragments ident k body (begin_record s r)" "mr_in_progress (begin_record s r)"
proof -
  have f: "fg_is_first (ns_fragment s) \<longleftrightarrow> k = 0" "mp_identity s = ident"
    using assms(1) by (auto simp: fragment_ok_def fg_is_first_def)
  show "mr_in_progress (begin_record s r)" using f assms(2) by (auto simp: begin_record_def)
  show "holds_fragments ident k body (begin_record s r)"
  proof (cases "k = 0")
    case True
    then have "mr_identity (begin_record s r) = ident"
      using copy_identity [of s "reset_multipart_record r"] assms(2) f by (simp add: begin_record_def mr_identity_def)
    with True assms(2) f show ?thesis
      by (simp add: holds_fragments_def begin_record_def copy_multipart_identity_def reset_multipart_record_def)
  next
    case False
    with assms(2) f show ?thesis by (simp add: begin_record_def)
  qed
qed

lemma accept_fragment_next:
  assumes "holds_fragments ident k body r" "mr_in_progress r" "fg_number f = Suc k" "k < fg_total f" "fg_total f \<le> 16"
    and "length body + length (fg_payload f) < cap" "NUL \<notin> set body" "NUL \<notin> set (fg_payload f)"
  shows "holds_fragments ident (Suc k) (body @ fg_payload f) (accept_fragment cap f now src r)"
    and "mr_complete (accept_fragment cap f now src r) \<longleftrightarrow> Suc k = fg_total f"
    and "mr_in_progress (accept_fragment cap f now src r) \<longleftrightarrow> Suc k \<noteq> fg_total f"
proof -
  let ?n = "fg_total f"
  define r3 where "r3 = append_fragment cap (fg_payload f) now
     (r\<lparr>mr_total := (int ?n, now), mr_last_number := (int (fg_number f), now), mr_received_mask := mask (Suc k)\<rparr>)"
  have r3: "holds_fragments ident (Suc k) (body @ fg_payload f) r3" "mr_in_progress r3"
    using assms(1,2,6,7,8) by (auto simp: r3_def append_fragment_fits holds_fragments_def mr_identity_def)
  have sel: "mr_received_mask (r\<lparr>mr_total := (int ?n, now), mr_last_number := (int (fg_number f), now)\<rparr>) = mask k"
    using assms(1) by (simp add: holds_fragments_def)
  have m3: "mr_received_mask r3 = mask (Suc k)" using r3(1) by (simp add: holds_fragments_def)
  have fin: "(0 < ?n \<and> mr_received_mask r3 AND expected_mask ?n = expected_mask ?n) \<longleftrightarrow> Suc k = ?n"
    using mask_covers [of "Suc k" ?n] assms(4,5) by (auto simp: m3 expected_mask_mask)
  have dup: "mask k AND fragment_bit (fg_number f) = 0" "mask k OR fragment_bit (fg_number f) = mask (Suc k)"
    unfolding assms(3) fragment_bit_exp by (simp_all only: mask_and_bit mask_or_bit)
  have u: "accept_fragment cap f now src r =
      (set_source src (r3\<lparr>mr_complete := Suc k = ?n, mr_in_progress := (if Suc k = ?n then False else mr_in_progress r3)\<rparr>))\<lparr>mr_last_update := now\<rparr>"
    unfolding accept_fragment_def Let_def
    by (simp only: sel dup simp_thms if_False r3_def [symmetric] fin)
  show "holds_fragments ident (Suc k) (body @ fg_payload f) (accept_fragment cap f now src r)"
    using r3(1) unfolding u by (simp add: holds_fragments_def mr_identity_def)
  show "mr_complete (accept_fragment cap f now src r) \<longleftrightarrow> Suc k = ?n"
    "mr_in_progress (accept_fragment cap f now src r) \<longleftrightarrow> Suc k \<noteq> ?n"
    using r3(2) unfolding u by simp_all
qed

lemma update_record_next:
  assumes "fragment_ok ident n k s" "k < n" "n \<le> 16" "matched \<or> k = 0"
    and "k = 0 \<and> identity_fits ident \<and> body = [] \<or>
         0 < k \<and> holds_fragments ident k body r \<and> mr_in_progress r \<and> \<not> mr_complete r"
    and "length body + length (fg_payload (ns_fragment s)) < cap" "NUL \<notin> set body"
  shows "holds_fragments ident (Suc k) (body @ fg_payload (ns_fragment s)) (update_multipart_record cap s now src matched r)"
    and "mr_complete (update_multipart_record cap s now src matched r) \<longleftrightarrow> Suc k = n"
    and "mr_in_progress (update_multipart_record cap s now src matched r) \<longleftrightarrow> Suc k \<noteq> n"
proof -
  let ?f = "ns_fragment s"
  have f: "fg_is_fragmented ?f" "fg_total ?f = n" "fg_number ?f = Suc k" "NUL \<notin> set (fg_payload ?f)" "fg_is_first ?f \<longleftrightarrow> k = 0"
    using assms(1) by (auto simp: fragment_ok_def fg_is_first_def)
  then have u: "update_multipart_record cap s now src matched r = accept_fragment cap ?f now src (begin_record s r)"
    using assms(2-4) by (auto simp: update_multipart_record_def Let_def)
  note b = begin_record_holds [OF assms(1,5)]
  from accept_fragment_next [OF b, of ?f cap now src] f assms(2,3,6,7)
  show "holds_fragments ident (Suc k) (body @ fg_payload ?f) (update_multipart_record cap s now src matched r)"
    "mr_complete (update_multipart_record cap s now src matched r) \<longleftrightarrow> Suc k = n"
    "mr_in_progress (update_multipart_record cap s now src matched r) \<longleftrightarrow> Suc k \<noteq> n"
    unfolding u by simp_all
qed

section \<open>Messages interleaved in a bank\<close>

lemma cleanup_slots_counts:
  "cleanup_slots timeout now rs c = (rs', c') \<Longrightarrow>
   length rs' = length rs \<and> fst c \<le> fst c' \<and> (fst c' = fst c \<longrightarrow> rs' = rs)"
proof (induction rs arbitrary: c rs' c')
  case (Cons r rs)
  define p where "p = (if slot_is_stale timeout now r then (reset_multipart_record r, (fst c + 1, now)) else (r, c))"
  obtain rs1 c1 where rec: "cleanup_slots timeout now rs (snd p) = (rs1, c1)" using prod.exhaust by blast
  from Cons.prems have e: "rs' = fst p # rs1" "c' = c1" by (simp_all add: p_def [symmetric] rec split_beta)
  have "length rs1 = length rs \<and> fst (snd p) \<le> fst c1 \<and> (fst c1 = fst (snd p) \<longrightarrow> rs1 = rs)"
    using Cons.IH [OF rec] .
  moreover have "fst c \<le> fst (snd p)" "fst (snd p) = fst c \<longrightarrow> fst p = r" by (simp_all add: p_def)
  ultimately show ?case using e by auto
qed simp

text \<open>The number of slots taken from an unfinished message and of slots given up as stale.\<close>

definition bank_losses :: "multipart_bank \<Rightarrow> int \<times> int" where
  "bank_losses b = (fst (mb_replaced b), fst (mb_stale b))"

lemma cleanup_counts:
  "length (mb_slots (cleanup_ais_multipart_slots now timeout b)) = length (mb_slots b)"
  "fst (mb_stale b) \<le> fst (mb_stale (cleanup_ais_multipart_slots now timeout b))"
  "mb_replaced (cleanup_ais_multipart_slots now timeout b) = mb_replaced b"
  "fst (mb_stale (cleanup_ais_multipart_slots now timeout b)) = fst (mb_stale b) \<Longrightarrow>
     mb_slots (cleanup_ais_multipart_slots now timeout b) = mb_slots b"
proof -
  obtain rs c where rs: "cleanup_slots timeout now (mb_slots b) (mb_stale b) = (rs, c)" using prod.exhaust by blast
  note c = cleanup_slots_counts [OF rs]
  show "length (mb_slots (cleanup_ais_multipart_slots now timeout b)) = length (mb_slots b)"
    "fst (mb_stale b) \<le> fst (mb_stale (cleanup_ais_multipart_slots now timeout b))"
    "mb_replaced (cleanup_ais_multipart_slots now timeout b) = mb_replaced b"
    "fst (mb_stale (cleanup_ais_multipart_slots now timeout b)) = fst (mb_stale b) \<Longrightarrow>
       mb_slots (cleanup_ais_multipart_slots now timeout b) = mb_slots b"
    using c by (auto simp: cleanup_ais_multipart_slots_def rs split: if_splits)
qed

lemma oldest_slot_bound: "best < i \<Longrightarrow> oldest_slot rs i best t < i + length rs"
proof (induction rs arbitrary: i best t)
  case (Cons r rs)
  show ?case using Cons.IH [of i "Suc i" "mr_last_update r"] Cons.IH [of best "Suc i" t] Cons.prems by simp
qed simp

lemma select_counts:
  assumes "select_ais_multipart_record s now b0 = (b, i, matched)" "mb_slots b0 \<noteq> []"
  shows "fst (mb_replaced b0) \<le> fst (mb_replaced b)" "fst (mb_stale b0) \<le> fst (mb_stale b)"
    "length (mb_slots b) = length (mb_slots b0)" "i < length (mb_slots b)"
proof -
  define c where "c = cleanup_ais_multipart_slots now NMEA_AIS_MULTIPART_STALE_TIMEOUT_US b0"
  have c: "length (mb_slots c) = length (mb_slots b0)" "fst (mb_stale b0) \<le> fst (mb_stale c)" "mb_replaced c = mb_replaced b0"
    by (simp_all add: c_def cleanup_counts)
  have old: "oldest_slot (tl (mb_slots c)) 1 0 t < length (mb_slots c)" for t
    using oldest_slot_bound [of 0 1 "tl (mb_slots c)" t] assms(2) c(1) by (cases "mb_slots c") auto
  have b: "mb_slots b = mb_slots c" "mb_stale b = mb_stale c" "fst (mb_replaced c) \<le> fst (mb_replaced b)"
    "i < length (mb_slots c)"
    using assms(1) old unfolding select_ais_multipart_record_def Let_def c_def [symmetric]
    by (auto split: option.splits if_splits dest: index_where_bound)
  then show "fst (mb_replaced b0) \<le> fst (mb_replaced b)" "fst (mb_stale b0) \<le> fst (mb_stale b)"
    "length (mb_slots b) = length (mb_slots b0)" "i < length (mb_slots b)" using c by simp_all
qed

lemma select_no_loss:
  assumes "select_ais_multipart_record s now b0 = (b, i, matched)" "bank_losses b = bank_losses b0"
  shows "mb_slots b = mb_slots b0"
    and "matched \<and> index_where (multipart_record_matches s) (mb_slots b0) = Some i \<or>
         \<not> matched \<and> index_where (multipart_record_matches s) (mb_slots b0) = None \<and> fg_is_first (ns_fragment s) \<and>
           index_where (\<lambda>r. \<not> mr_in_progress r) (mb_slots b0) = Some i"
proof -
  define c where "c = cleanup_ais_multipart_slots now NMEA_AIS_MULTIPART_STALE_TIMEOUT_US b0"
  have r: "mb_replaced c = mb_replaced b0" by (simp add: c_def cleanup_counts)
  have "mb_slots b = mb_slots c" "mb_stale b = mb_stale c"
    using assms(1) unfolding select_ais_multipart_record_def Let_def c_def [symmetric]
    by (auto split: option.splits if_splits)
  moreover from this(2) assms(2) have slots: "mb_slots c = mb_slots b0"
    unfolding c_def by (intro cleanup_counts(4)) (simp add: bank_losses_def)
  ultimately show "mb_slots b = mb_slots b0" by simp
  show "matched \<and> index_where (multipart_record_matches s) (mb_slots b0) = Some i \<or>
         \<not> matched \<and> index_where (multipart_record_matches s) (mb_slots b0) = None \<and> fg_is_first (ns_fragment s) \<and>
           index_where (\<lambda>r. \<not> mr_in_progress r) (mb_slots b0) = Some i"
    using assms r unfolding select_ais_multipart_record_def Let_def c_def [symmetric] slots
    by (auto simp: bank_losses_def split: option.splits if_splits)
qed

lemma update_record_identity:
  assumes "identity_fits (mp_identity s)" "fg_is_fragmented (ns_fragment s)" "matched \<Longrightarrow> mr_identity r = mp_identity s"
  shows "mr_identity (update_multipart_record cap s now src matched r) = mp_identity s"
proof -
  have "mr_identity (mark_bad_multipart_fragment s now src r) = mp_identity s"
    using copy_identity [OF assms(1)] by (simp add: mark_bad_multipart_fragment_def Let_def mr_identity_def)
  moreover have "mr_identity (accept_fragment cap f now src r') = mr_identity r'" for f r'
    by (simp add: accept_fragment_def append_fragment_def Let_def mr_identity_def)
  moreover have "fg_is_first (ns_fragment s) \<or> matched \<Longrightarrow> mr_identity (begin_record s r) = mp_identity s"
    using copy_identity [OF assms(1), of "reset_multipart_record r"] assms(3)
    by (auto simp: begin_record_def mr_identity_def)
  ultimately show ?thesis using assms(2) by (auto simp: update_multipart_record_def Let_def)
qed

text \<open>A bank that is assembling a message: its first \<open>k\<close> fragments are in the first slot with its identity.\<close>

definition assembling :: "string \<times> string \<times> string \<times> char \<Rightarrow> nat \<Rightarrow> string \<Rightarrow> multipart_bank \<Rightarrow> bool" where
  "assembling ident k body b \<longleftrightarrow>
     (\<exists>i < length (mb_slots b). holds_fragments ident k body (mb_slots b ! i) \<and>
        mr_in_progress (mb_slots b ! i) \<and> \<not> mr_complete (mb_slots b ! i) \<and>
        (\<forall>j < i. mr_in_progress (mb_slots b ! j) \<or> mr_complete (mb_slots b ! j) \<longrightarrow> mr_identity (mb_slots b ! j) \<noteq> ident))"

lemma update_bank_other:
  assumes "assembling ident k body b" "ns_family s = FamAis" "fg_is_fragmented (ns_fragment s)"
    and "mp_identity s \<noteq> ident" "identity_fits (mp_identity s)"
    and "bank_losses (update_ais_multipart_message_state s now src b) = bank_losses b"
  shows "assembling ident k body (update_ais_multipart_message_state s now src b)"
proof -
  obtain b1 i matched where sel: "select_ais_multipart_record s now b = (b1, i, matched)" by (metis prod_cases3)
  define r where "r = update_multipart_record NMEA_MESSAGE_MULTIPART_TEXT_BYTES s now src matched (mb_slots b ! i)"
  have "bank_losses b1 = bank_losses b"
    using assms(6) sel by (simp add: update_ais_multipart_message_state_def update_bank_def bank_losses_def Let_def)
  note nl = select_no_loss [OF sel this]
  have u: "mb_slots (update_ais_multipart_message_state s now src b) = (mb_slots b)[i := r]"
    using nl(1) sel by (simp add: update_ais_multipart_message_state_def update_bank_def r_def Let_def)
  obtain i0 where i0: "i0 < length (mb_slots b)" "holds_fragments ident k body (mb_slots b ! i0)" "mr_in_progress (mb_slots b ! i0)"
    "\<not> mr_complete (mb_slots b ! i0)"
    "\<And>j. j < i0 \<Longrightarrow> mr_in_progress (mb_slots b ! j) \<or> mr_complete (mb_slots b ! j) \<Longrightarrow> mr_identity (mb_slots b ! j) \<noteq> ident"
    using assms(1) by (auto simp: assembling_def)
  have id: "matched \<Longrightarrow> mr_identity (mb_slots b ! i) = mp_identity s"
    using nl(2) index_where_hit [of "multipart_record_matches s" "mb_slots b" i] matches_identity [OF assms(2)] by auto
  have "i \<noteq> i0"
    using nl(2) id i0(2,3) assms(4) index_where_hit [of "\<lambda>r. \<not> mr_in_progress r" "mb_slots b" i]
    by (auto simp: holds_fragments_def)
  moreover have "mr_identity r = mp_identity s"
    unfolding r_def by (rule update_record_identity [OF assms(5,3) id])
  moreover have "mr_identity ((mb_slots b)[i := r] ! j) \<noteq> ident"
    if "j < i0" "mr_in_progress ((mb_slots b)[i := r] ! j) \<or> mr_complete ((mb_slots b)[i := r] ! j)" for j
    using that i0(1,5) calculation(2) assms(4) by (cases "j = i") (auto simp: nth_list_update)
  ultimately show ?thesis
    unfolding assembling_def u using i0(1-4) by (intro exI [of _ i0]) auto
qed

lemma update_bank_next:
  assumes "fragment_ok ident n k s" "k < n" "n \<le> 16" "identity_fits ident" "mb_slots b \<noteq> []"
    and "k = 0 \<and> body = [] \<or> 0 < k \<and> assembling ident k body b"
    and "length body + length (fg_payload (ns_fragment s)) < NMEA_MESSAGE_MULTIPART_TEXT_BYTES" "NUL \<notin> set body"
    and "bank_losses (update_ais_multipart_message_state s now src b) = bank_losses b"
  defines "b' \<equiv> update_ais_multipart_message_state s now src b"
  shows "Suc k < n \<Longrightarrow> assembling ident (Suc k) (body @ fg_payload (ns_fragment s)) b'"
    and "Suc k = n \<Longrightarrow> holds_fragments ident n (body @ fg_payload (ns_fragment s)) (mb_message b') \<and> mr_complete (mb_message b')"
proof -
  obtain b1 i matched where sel: "select_ais_multipart_record s now b = (b1, i, matched)" by (metis prod_cases3)
  define r where "r = update_multipart_record NMEA_MESSAGE_MULTIPART_TEXT_BYTES s now src matched (mb_slots b ! i)"
  have "bank_losses b1 = bank_losses b"
    using assms(9) sel by (simp add: update_ais_multipart_message_state_def update_bank_def bank_losses_def Let_def)
  note nl = select_no_loss [OF sel this]
  have u: "mb_slots b' = (mb_slots b)[i := r]" "mb_message b' = r"
    using nl(1) sel by (simp_all add: b'_def update_ais_multipart_message_state_def update_bank_def r_def Let_def)
  have s: "ns_family s = FamAis" "mp_identity s = ident" using assms(1) by (simp_all add: fragment_ok_def)
  note mt = matches_identity [OF s(1)]
  have i: "i < length (mb_slots b)" using select_counts(4) [OF sel assms(5)] nl(1) by simp
  have before: "mr_identity (mb_slots b ! j) \<noteq> ident"
    if "j < i" "mr_in_progress (mb_slots b ! j) \<or> mr_complete (mb_slots b ! j)" for j
  proof -
    have "\<not> multipart_record_matches s (mb_slots b ! j)"
      using nl(2) that(1) i index_where_SomeD [of "multipart_record_matches s" "mb_slots b" i]
        index_where_None [of "multipart_record_matches s" "mb_slots b"] by fastforce
    with that(2) s(2) show ?thesis by (auto simp: mt)
  qed
  have pre: "matched \<or> k = 0"
    "k = 0 \<and> identity_fits ident \<and> body = [] \<or>
     0 < k \<and> holds_fragments ident k body (mb_slots b ! i) \<and> mr_in_progress (mb_slots b ! i) \<and> \<not> mr_complete (mb_slots b ! i)"
  proof -
    have "matched \<and> holds_fragments ident k body (mb_slots b ! i) \<and> mr_in_progress (mb_slots b ! i) \<and> \<not> mr_complete (mb_slots b ! i)"
      if "0 < k" "assembling ident k body b"
    proof -
      obtain i0 where i0: "i0 < length (mb_slots b)" "holds_fragments ident k body (mb_slots b ! i0)" "mr_in_progress (mb_slots b ! i0)"
        "\<not> mr_complete (mb_slots b ! i0)"
        "\<And>j. j < i0 \<Longrightarrow> mr_in_progress (mb_slots b ! j) \<or> mr_complete (mb_slots b ! j) \<Longrightarrow> mr_identity (mb_slots b ! j) \<noteq> ident"
        using \<open>assembling ident k body b\<close> by (auto simp: assembling_def)
      have "index_where (multipart_record_matches s) (mb_slots b) = Some i0"
        using i0 s(2) by (intro index_where_SomeI) (auto simp: mt holds_fragments_def)
      with nl(2) i0 show ?thesis by auto
    qed
    with assms(4,6) show "matched \<or> k = 0"
      "k = 0 \<and> identity_fits ident \<and> body = [] \<or>
       0 < k \<and> holds_fragments ident k body (mb_slots b ! i) \<and> mr_in_progress (mb_slots b ! i) \<and> \<not> mr_complete (mb_slots b ! i)"
      by auto
  qed
  note n = update_record_next [OF assms(1-3) pre assms(7,8), of now src, folded r_def]
  show "assembling ident (Suc k) (body @ fg_payload (ns_fragment s)) b'" if "Suc k < n"
    unfolding assembling_def u using n that i before by (intro exI [of _ i]) auto
  show "holds_fragments ident n (body @ fg_payload (ns_fragment s)) (mb_message b') \<and> mr_complete (mb_message b')" if "Suc k = n"
    using n that by (simp add: u)
qed

section \<open>Traces of sentences\<close>

definition mp_run :: "sensor_source \<Rightarrow> message_state \<Rightarrow> (nmea_sentence \<times> int) list \<Rightarrow> message_state" where
  "mp_run src = foldl (\<lambda>st (s, now). update_multipart_message_state s now src st)"

definition is_ais_fragment :: "nmea_sentence \<Rightarrow> bool" where
  "is_ais_fragment s \<longleftrightarrow> fg_is_fragmented (ns_fragment s) \<and> \<not> sentence_is s ''TXT'' \<and> ns_family s = FamAis"

lemma update_message_state_ais:
  "ms_ais (update_multipart_message_state s now src st) =
    (if is_ais_fragment s then update_ais_multipart_message_state s now src (ms_ais st) else ms_ais st)"
  by (auto simp: update_multipart_message_state_def update_inmarsat_multipart_message_state_def is_ais_fragment_def Let_def)

lemma update_bank_counts:
  assumes "mb_slots b \<noteq> []"
  shows "fst (bank_losses b) \<le> fst (bank_losses (update_ais_multipart_message_state s now src b))"
    "snd (bank_losses b) \<le> snd (bank_losses (update_ais_multipart_message_state s now src b))"
    "length (mb_slots (update_ais_multipart_message_state s now src b)) = length (mb_slots b)"
proof -
  obtain b1 i matched where sel: "select_ais_multipart_record s now b = (b1, i, matched)" by (metis prod_cases3)
  from select_counts [OF sel assms]
  show "fst (bank_losses b) \<le> fst (bank_losses (update_ais_multipart_message_state s now src b))"
    "snd (bank_losses b) \<le> snd (bank_losses (update_ais_multipart_message_state s now src b))"
    "length (mb_slots (update_ais_multipart_message_state s now src b)) = length (mb_slots b)"
    by (simp_all add: update_ais_multipart_message_state_def update_bank_def bank_losses_def sel Let_def)
qed

lemma mp_run_snoc: "mp_run src st (tr @ [(s, now)]) = update_multipart_message_state s now src (mp_run src st tr)"
  by (simp add: mp_run_def)

lemma mp_run_counts:
  "mb_slots (ms_ais st) \<noteq> [] \<Longrightarrow>
   fst (bank_losses (ms_ais st)) \<le> fst (bank_losses (ms_ais (mp_run src st tr))) \<and>
   snd (bank_losses (ms_ais st)) \<le> snd (bank_losses (ms_ais (mp_run src st tr))) \<and>
   length (mb_slots (ms_ais (mp_run src st tr))) = length (mb_slots (ms_ais st))"
proof (induction tr rule: rev_induct)
  case (snoc x tr)
  obtain s now where x: "x = (s, now)" by fastforce
  let ?b = "ms_ais (mp_run src st tr)"
  have "mb_slots ?b \<noteq> []" using snoc by (metis length_0_conv)
  with update_bank_counts [of ?b s now src] snoc show ?case
    by (auto simp: x mp_run_snoc update_message_state_ais intro: order_trans)
qed (simp add: mp_run_def)

lemma mp_run_no_loss:
  assumes "mb_slots (ms_ais st) \<noteq> []" "bank_losses (ms_ais (mp_run src st (tr @ [x]))) = bank_losses (ms_ais st)"
  shows "bank_losses (ms_ais (mp_run src st tr)) = bank_losses (ms_ais st)"
    "mb_slots (ms_ais (mp_run src st tr)) \<noteq> []"
proof -
  let ?s = "mp_run src st tr"
  note a = mp_run_counts [OF assms(1), of src tr]
  then show ne: "mb_slots (ms_ais ?s) \<noteq> []" using assms(1) by (metis length_0_conv)
  have "mp_run src st (tr @ [x]) = mp_run src ?s [x]" by (simp add: mp_run_def)
  with mp_run_counts [OF ne, of src "[x]"] a assms(2) show "bank_losses (ms_ais ?s) = bank_losses (ms_ais st)"
    by (auto simp: prod_eq_iff)
qed

text \<open>The fragments of one message in the order of their numbers.\<close>

definition message_fragments :: "string \<times> string \<times> string \<times> char \<Rightarrow> nmea_sentence list \<Rightarrow> bool" where
  "message_fragments ident ss \<longleftrightarrow> identity_fits ident \<and> 1 \<le> length ss \<and> length ss \<le> 16 \<and>
     (\<forall>k < length ss. fragment_ok ident (length ss) k (ss ! k)) \<and>
     length (concat (map (\<lambda>s. fg_payload (ns_fragment s)) ss)) < NMEA_MESSAGE_MULTIPART_TEXT_BYTES"

abbreviation payloads :: "nmea_sentence list \<Rightarrow> string" where
  "payloads ss \<equiv> concat (map (\<lambda>s. fg_payload (ns_fragment s)) ss)"

lemma message_fragments_step:
  assumes "message_fragments ident ss" "k < length ss"
  shows "fragment_ok ident (length ss) k (ss ! k)" "payloads (take (Suc k) ss) = payloads (take k ss) @ fg_payload (ns_fragment (ss ! k))"
    "length (payloads (take k ss)) + length (fg_payload (ns_fragment (ss ! k))) < NMEA_MESSAGE_MULTIPART_TEXT_BYTES"
    "NUL \<notin> set (payloads (take k ss))"
proof -
  show "fragment_ok ident (length ss) k (ss ! k)" using assms by (simp add: message_fragments_def)
  show e: "payloads (take (Suc k) ss) = payloads (take k ss) @ fg_payload (ns_fragment (ss ! k))"
    using assms(2) by (simp add: take_Suc_conv_app_nth)
  have "payloads ss = payloads (take (Suc k) ss) @ payloads (drop (Suc k) ss)"
    by (metis append_take_drop_id concat_append map_append)
  then have "length (payloads (take (Suc k) ss)) \<le> length (payloads ss)" by simp
  then show "length (payloads (take k ss)) + length (fg_payload (ns_fragment (ss ! k))) < NMEA_MESSAGE_MULTIPART_TEXT_BYTES"
    using assms(1) unfolding e by (simp add: message_fragments_def)
  show "NUL \<notin> set (payloads (take k ss))"
    using assms by (fastforce simp: message_fragments_def fragment_ok_def in_set_conv_nth)
qed

lemma mp_run_assembling:
  assumes "message_fragments ident ss" "mb_slots (ms_ais st) \<noteq> []"
    and "\<And>s t. (s, t) \<in> set tr \<Longrightarrow> is_ais_fragment s \<Longrightarrow> identity_fits (mp_identity s)"
    and "bank_losses (ms_ais (mp_run src st tr)) = bank_losses (ms_ais st)"
    and "filter (\<lambda>s. is_ais_fragment s \<and> mp_identity s = ident) (map fst tr) = take k ss" "k < length ss" "0 < k"
  shows "assembling ident k (payloads (take k ss)) (ms_ais (mp_run src st tr))"
  using assms(3-7)
proof (induction tr arbitrary: k rule: rev_induct)
  case (snoc x tr)
  obtain s now where x: "x = (s, now)" by fastforce
  let ?st = "mp_run src st tr"
  note nl = mp_run_no_loss [OF assms(2) snoc.prems(2)]
  have step: "ms_ais (mp_run src st (tr @ [x])) =
      (if is_ais_fragment s then update_ais_multipart_message_state s now src (ms_ais ?st) else ms_ais ?st)"
    by (simp add: x mp_run_snoc update_message_state_ais)
  have fits: "identity_fits (mp_identity s)" if "(s, t) \<in> set tr" "is_ais_fragment s" for s t
    using snoc.prems(1) [of s t] that by simp
  show ?case
  proof (cases "is_ais_fragment s \<and> mp_identity s = ident")
    case True
    then have tk: "filter (\<lambda>s. is_ais_fragment s \<and> mp_identity s = ident) (map fst tr) @ [s] = take k ss"
      using snoc.prems(3) by (simp add: x)
    obtain m where m: "k = Suc m" using snoc.prems(5) by (cases k) auto
    with snoc.prems(4) have "take k ss = take m ss @ [ss ! m]" by (simp add: take_Suc_conv_app_nth)
    with tk have t: "filter (\<lambda>s. is_ais_fragment s \<and> mp_identity s = ident) (map fst tr) = take m ss" "s = ss ! m" by auto
    have m_lt: "m < length ss" using m snoc.prems(4) by simp
    note f = message_fragments_step [OF assms(1) m_lt]
    have "m = 0 \<and> payloads (take m ss) = [] \<or> 0 < m \<and> assembling ident m (payloads (take m ss)) (ms_ais ?st)"
      using snoc.IH [OF fits nl(1) t(1) m_lt] by (cases "m = 0") auto
    from update_bank_next(1) [OF f(1) m_lt _ _ nl(2) this f(3,4)] assms(1) snoc.prems(2,4) nl(1) step True t(2) m f(2)
    show ?thesis by (simp add: message_fragments_def)
  next
    case False
    then have "assembling ident k (payloads (take k ss)) (ms_ais ?st)"
      using snoc.prems(3-5) by (intro snoc.IH [OF fits nl(1)]) (auto simp: x)
    with False snoc.prems(1,2) nl(1) step show ?thesis
      by (auto simp: x is_ais_fragment_def intro!: update_bank_other)
  qed
qed (use assms(1) in \<open>auto simp: message_fragments_def\<close>)

text \<open>
  C12: Interleaved AIS messages that a record can hold are reassembled. Let a message have at most 16 fragments and fewer than 96 characters of text in all
  (\<open>NMEA_MESSAGE_MULTIPART_TEXT_BYTES\<close>), let the identities of the AIS fragments fit the fields of a record, and let the fragments arrive in the order of their numbers,
  with any other sentences in between (fragments of other AIS messages, texts, NAVTEX, anything), the last fragment
  at the end. If the bank lost no slot meanwhile (its counters of replaced and of stale slots did not move), then after the last
  fragment the published AIS message is complete, without overflow, and its text is the payloads of the fragments in order.
  Longer texts overflow the record and are outside the statement.
\<close>
theorem ais_message_reassembled:
  assumes "message_fragments ident ss" "mb_slots (ms_ais st) \<noteq> []"
    and "\<And>s t. (s, t) \<in> set (tr @ [(last ss, now)]) \<Longrightarrow> is_ais_fragment s \<Longrightarrow> identity_fits (mp_identity s)"
    and "filter (\<lambda>s. is_ais_fragment s \<and> mp_identity s = ident) (map fst tr) = butlast ss"
    and "bank_losses (ms_ais (mp_run src st (tr @ [(last ss, now)]))) = bank_losses (ms_ais st)"
  shows "mr_complete (mb_message (ms_ais (mp_run src st (tr @ [(last ss, now)])))) \<and>
    mr_text (mb_message (ms_ais (mp_run src st (tr @ [(last ss, now)])))) = payloads ss \<and>
    \<not> mr_overflow (mb_message (ms_ais (mp_run src st (tr @ [(last ss, now)]))))"
proof -
  let ?n = "length ss" and ?st = "mp_run src st tr"
  define m where "m = ?n - 1"
  have n: "?n = Suc m" "m < ?n" using assms(1) by (auto simp: message_fragments_def m_def)
  have ne: "ss \<noteq> []" using n by auto
  have l: "last ss = ss ! m" "butlast ss = take m ss" "take (Suc m) ss = ss"
    using n last_conv_nth [OF ne] by (simp_all add: butlast_conv_take m_def [symmetric])
  note nl = mp_run_no_loss [OF assms(2,5)] and f = message_fragments_step [OF assms(1) n(2)]
  have pre: "m = 0 \<and> payloads (take m ss) = [] \<or> 0 < m \<and> assembling ident m (payloads (take m ss)) (ms_ais ?st)"
    using mp_run_assembling [OF assms(1,2) _ nl(1), of m] assms(3,4) l(2) n(2) by (cases "m = 0") auto
  have ais: "is_ais_fragment (last ss)" using f(1) by (simp add: fragment_ok_def is_ais_fragment_def l(1))
  let ?b = "ms_ais (mp_run src st (tr @ [(last ss, now)]))"
  from ais have b: "?b = update_ais_multipart_message_state (ss ! m) now src (ms_ais ?st)"
    by (simp add: mp_run_snoc update_message_state_ais l(1))
  have "?n \<le> 16" "identity_fits ident" using assms(1) by (simp_all add: message_fragments_def)
  note nxt = update_bank_next(2) [OF f(1) n(2) this nl(2) pre f(3,4), of now src, folded b]
  have "bank_losses ?b = bank_losses (ms_ais ?st)" using assms(5) nl(1) by (rule trans [OF _ sym])
  from nxt [OF this n(1) [symmetric]] have "holds_fragments ident ?n (payloads (take (Suc m) ss)) (mb_message ?b) \<and> mr_complete (mb_message ?b)"
    unfolding f(2) .
  then show ?thesis unfolding l(3) by (simp add: holds_fragments_def)
qed

definition example_sentence :: "string \<Rightarrow> nmea_sentence" where
  "example_sentence body = (case parse_span True (make_sentence 200 body (CHR ''!'')) of Inr s \<Rightarrow> s | Inl _ \<Rightarrow> sentence_clear)"

definition example_trace :: "(nmea_sentence \<times> int) list" where
  "example_trace = [(example_sentence ''AIVDM,2,1,3,A,55P,0'', 10), (example_sentence ''AIVDM,2,1,4,A,6xy,0'', 20),
     (example_sentence ''AIVDM,2,2,4,A,zz,0'', 30)]"

definition example_fragments :: "nmea_sentence list" where
  "example_fragments = [example_sentence ''AIVDM,2,1,3,A,55P,0'', example_sentence ''AIVDM,2,2,3,A,0AB,2'']"

theorem ais_message_reassembled_witness:
  "mr_complete (mb_message (ms_ais (mp_run SrcTcp message_state_init (example_trace @ [(last example_fragments, 40)])))) \<and>
   mr_text (mb_message (ms_ais (mp_run SrcTcp message_state_init (example_trace @ [(last example_fragments, 40)])))) = payloads example_fragments \<and>
   \<not> mr_overflow (mb_message (ms_ais (mp_run SrcTcp message_state_init (example_trace @ [(last example_fragments, 40)]))))"
proof (rule ais_message_reassembled [where ident = "(''VDM'', ''AI'', ''3'', CHR ''A'')"])
  have "list_all (\<lambda>k. fragment_ok (''VDM'', ''AI'', ''3'', CHR ''A'') 2 k (example_fragments ! k)) [0..<2]" by code_simp
  moreover have "length example_fragments = 2" "length (payloads example_fragments) < 96" by code_simp+
  ultimately show "message_fragments (''VDM'', ''AI'', ''3'', CHR ''A'') example_fragments"
    by (simp add: message_fragments_def identity_fits_def list_all_iff)
  show "mb_slots (ms_ais message_state_init) \<noteq> []" by (simp add: message_state_init_def bank_init_def)
  have "list_all (\<lambda>(s, t). identity_fits (mp_identity s)) (example_trace @ [(last example_fragments, 40)])" by code_simp
  then show "identity_fits (mp_identity s)" if "(s, t) \<in> set (example_trace @ [(last example_fragments, 40)])" for s t
    using that by (auto simp: list_all_iff)
  show "filter (\<lambda>s. is_ais_fragment s \<and> mp_identity s = (''VDM'', ''AI'', ''3'', CHR ''A'')) (map fst example_trace) = butlast example_fragments"
  proof -
    let ?sel = "\<lambda>s. is_ais_fragment s \<and> mp_identity s = (''VDM'', ''AI'', ''3'', CHR ''A'')"
    have "?sel (example_sentence ''AIVDM,2,1,3,A,55P,0'')" "\<not> ?sel (example_sentence ''AIVDM,2,1,4,A,6xy,0'')"
      "\<not> ?sel (example_sentence ''AIVDM,2,2,4,A,zz,0'')" by code_simp+
    then show ?thesis by (simp add: example_trace_def example_fragments_def)
  qed
  show "bank_losses (ms_ais (mp_run SrcTcp message_state_init (example_trace @ [(last example_fragments, 40)]))) =
      bank_losses (ms_ais message_state_init)" by code_simp
qed

text \<open>
  Fragments are appended as they arrive: when the third of three fragments overtakes the second, the message is
  reported complete with its text in the wrong order.
\<close>

definition numbered_fragment :: "nat \<Rightarrow> nat \<Rightarrow> string \<Rightarrow> string \<Rightarrow> nmea_sentence" where
  "numbered_fragment n k mid payload = sentence_clear\<lparr>ns_talker := ''AI'', ns_sentence := ''VDM'', ns_family := FamAis,
     ns_fragment := \<lparr>fg_is_fragmented = True, fg_total = n, fg_number = k, fg_message_id = mid, fg_payload = payload\<rparr>\<rparr>"

lemma multipart_text_in_arrival_order:
  "(let st = mp_run SrcTcp message_state_init
       [(numbered_fragment 3 1 ''7'' ''aa'', 1), (numbered_fragment 3 3 ''7'' ''cc'', 2), (numbered_fragment 3 2 ''7'' ''bb'', 3)]
    in mr_complete (mb_message (ms_ais st)) \<and> mr_text (mb_message (ms_ais st)) = ''aaccbb'')"
  by code_simp

text \<open>
  A second fragment whose first one was lost takes the slot with the oldest time even when complete messages
  occupy the others: the unfinished message 1 is thrown away and completes no more.
\<close>

lemma orphan_fragment_evicts:
  "(let st = mp_run SrcTcp message_state_init
       [(numbered_fragment 2 1 ''1'' ''aa'', 1), (numbered_fragment 1 1 ''2'' ''b'', 2), (numbered_fragment 1 1 ''3'' ''c'', 3),
        (numbered_fragment 1 1 ''4'' ''d'', 4), (numbered_fragment 1 1 ''5'' ''e'', 5), (numbered_fragment 1 1 ''6'' ''f'', 6),
        (numbered_fragment 1 1 ''7'' ''g'', 7), (numbered_fragment 2 2 ''9'' ''zz'', 8), (numbered_fragment 2 2 ''1'' ''AA'', 9)]
    in map mr_in_progress (mb_slots (ms_ais st)))  = [False, False, False, False]"
  by code_simp

section \<open>The tokenizer and the parser agree\<close>

lemma nth_field_split:
  "i < n \<Longrightarrow> length rest \<le> 255 \<Longrightarrow>
   nth_field i rest = (if i < length (split_fields n rest) then split_fields n rest ! i else [])"
proof (induction i arbitrary: n rest)
  case 0
  then show ?case
    using length_takeWhile_le [of "\<lambda>c. c \<noteq> CHR '',''" rest] by (subst (1 2) split_fields.simps) (simp add: mk_span_def)
next
  case (Suc i)
  let ?d = "tl (dropWhile (\<lambda>c. c \<noteq> CHR '','') rest)"
  have "length ?d \<le> 255" using Suc.prems(2) length_dropWhile_le [of "\<lambda>c. c \<noteq> CHR '',''" rest] by simp
  moreover have "i < n - 1" using Suc.prems(1) by simp
  ultimately have "nth_field i ?d = (if i < length (split_fields (n - 1) ?d) then split_fields (n - 1) ?d ! i else [])"
    by (intro Suc.IH)
  with Suc.prems(1) show ?case by (subst (1 2) split_fields.simps) simp
qed

text \<open>
  The two readers of a sentence agree: for every sentence with a body of 5 to 187 characters, the field that the
  tokenizer finds at an index (it rescans the line for every field) is the field the parser stored at that index, and
  both give the empty field past the last one.
\<close>
theorem tokenizer_fields_agree:
  assumes "plain_body body" "i < NMEA_MAX_FIELDS" "build_sentence (nmea_line c body cs) True = Inr s"
  shows "nmea_token_field (nmea_line c body cs) i = ns_field s i"
proof -
  let ?f = "if CHR '','' \<in> set body then split_fields NMEA_MAX_FIELDS (tl (dropWhile (\<lambda>c. c \<noteq> CHR '','') body)) else []"
  have b: "nmea_token_body_without_checksum (nmea_line c body cs) = body"
    using plain_bodyD(3) [OF assms(1)] by (simp add: nmea_token_body_without_checksum_def nmea_line_def takeWhile_star)
  have f: "ns_fields s = ?f" using build_line_fields [OF assms(1)] assms(3) .
  have "length (tl (dropWhile (\<lambda>c. c \<noteq> CHR '','') body)) \<le> 255"
    using length_dropWhile_le [of "\<lambda>c. c \<noteq> CHR '',''" body] plain_bodyD(2) [OF assms(1)] by simp
  from nth_field_split [OF assms(2) this] show ?thesis
    using plain_bodyD(1) [OF assms(1)] by (simp add: nmea_token_field_def b ns_field_def f Let_def)
qed

theorem tokenizer_fields_agree_witness:
  "nmea_token_field (nmea_line (CHR ''!'') ''AIVDM,2,1,3,A,55P,0'' 0x13) 4 =
   ns_field (case build_sentence (nmea_line (CHR ''!'') ''AIVDM,2,1,3,A,55P,0'' 0x13) True of Inr s \<Rightarrow> s | Inl _ \<Rightarrow> sentence_clear) 4"
proof -
  have pb: "plain_body ''AIVDM,2,1,3,A,55P,0''" by (simp add: plain_body_def)
  then obtain s where s: "build_sentence (nmea_line (CHR ''!'') ''AIVDM,2,1,3,A,55P,0'' 0x13) True = Inr s" by (rule build_line)
  then have "nmea_token_field (nmea_line (CHR ''!'') ''AIVDM,2,1,3,A,55P,0'' 0x13) 4 = ns_field s 4"
    by (intro tokenizer_fields_agree [OF pb]) simp_all
  with s show ?thesis by simp
qed

end
