(* ===== verification/Event_Loop.thy ===== *)
theory Event_Loop
  imports Prelude
begin

text \<open>
  The event loop: the extension of a 32 bit microsecond counter (\<^verbatim>\<open>micros32_extender.hpp\<close>), timers and callback tasks
  (\<^verbatim>\<open>scheduler.hpp\<close>), the cooperative scheduler (\<^verbatim>\<open>arduino_loop.hpp\<close>) and the facade with its generation checked
  handles (\<^verbatim>\<open>event_loop.hpp\<close>). Times are integers that wrap at \<open>2 ^ 64\<close>. What a callback does to the scheduler is a
  function from the state it sees to a list of scheduler calls.
\<close>

section \<open>Extending a wrapping counter\<close>

record extender =
  ex_extended :: u64
  ex_last_raw :: u32
  ex_initialized :: bool

definition ex_init :: extender where
  "ex_init = \<lparr>ex_extended = 0, ex_last_raw = 0, ex_initialized = False\<rparr>"

definition ex_reset :: "u32 \<Rightarrow> extender \<Rightarrow> extender" where
  "ex_reset raw e = e\<lparr>ex_initialized := True, ex_last_raw := raw, ex_extended := ucast raw\<rparr>"

definition ex_update :: "u32 \<Rightarrow> extender \<Rightarrow> u64 \<times> extender" where
  "ex_update raw e =
     (if \<not> ex_initialized e
      then (ucast raw, e\<lparr>ex_initialized := True, ex_last_raw := raw, ex_extended := ucast raw\<rparr>)
      else (let delta = raw - ex_last_raw e; ext = ex_extended e + ucast delta
            in (ext, e\<lparr>ex_extended := ext, ex_last_raw := raw\<rparr>)))"

fun ex_run :: "u32 list \<Rightarrow> extender \<Rightarrow> u64 list" where
  "ex_run [] e = []"
| "ex_run (raw # raws) e = (case ex_update raw e of (v, e') \<Rightarrow> v # ex_run raws e')"

section \<open>Timers\<close>

text \<open>The loop \<^verbatim>\<open>do next += period; while (now >= next)\<close> with wrap-around; \<open>None\<close> where it does not end.\<close>

partial_function (option) advance_due :: "int \<Rightarrow> int \<Rightarrow> int \<Rightarrow> int option" where
  "advance_due period now due =
     (let due' = (due + period) mod 2 ^ 64 in if due' \<le> now then advance_due period now due' else Some due')"

declare advance_due.simps [code]

record periodic_timer =
  pt_period :: int
  pt_next_due :: int
  pt_armed :: bool

definition pt_init :: "int \<Rightarrow> periodic_timer" where
  "pt_init period = \<lparr>pt_period = period, pt_next_due = 0, pt_armed = False\<rparr>"

definition pt_set_period :: "int \<Rightarrow> periodic_timer \<Rightarrow> periodic_timer" where
  "pt_set_period period t = t\<lparr>pt_period := period\<rparr>"

definition pt_reset :: "int \<Rightarrow> periodic_timer \<Rightarrow> periodic_timer" where
  "pt_reset now t = t\<lparr>pt_next_due := now, pt_armed := True\<rparr>"

definition pt_ready :: "int \<Rightarrow> periodic_timer \<Rightarrow> (bool \<times> periodic_timer) option" where
  "pt_ready now t0 =
     (let t = (if pt_armed t0 then t0 else pt_reset now t0) in
      if pt_period t = 0 \<or> now < pt_next_due t then Some (False, t)
      else map_option (\<lambda>d. (True, t\<lparr>pt_next_due := d\<rparr>)) (advance_due (pt_period t) now (pt_next_due t)))"

record one_shot_timer =
  os_due :: int
  os_armed :: bool
  os_fired :: bool

definition os_init :: one_shot_timer where
  "os_init = \<lparr>os_due = 0, os_armed = False, os_fired = False\<rparr>"

definition os_arm :: "int \<Rightarrow> one_shot_timer \<Rightarrow> one_shot_timer" where
  "os_arm due t = t\<lparr>os_due := due, os_armed := True, os_fired := False\<rparr>"

definition os_disarm :: "one_shot_timer \<Rightarrow> one_shot_timer" where
  "os_disarm t = t\<lparr>os_armed := False\<rparr>"

definition os_ready :: "int \<Rightarrow> one_shot_timer \<Rightarrow> bool \<times> one_shot_timer" where
  "os_ready now t =
     (if \<not> os_armed t \<or> os_fired t \<or> now < os_due t then (False, t)
      else (True, t\<lparr>os_fired := True, os_armed := False\<rparr>))"

section \<open>Callback tasks\<close>

record 'k callback_task =
  ct_callable :: "'k option"
  ct_active :: bool
  ct_enabled :: bool
  ct_invoking :: bool
  ct_clear_requested :: bool

definition ct_init :: "'k callback_task" where
  "ct_init = \<lparr>ct_callable = None, ct_active = False, ct_enabled = False, ct_invoking = False, ct_clear_requested = False\<rparr>"

definition ct_destroy_now :: "'k callback_task \<Rightarrow> 'k callback_task" where
  "ct_destroy_now t = t\<lparr>ct_active := False, ct_enabled := False, ct_clear_requested := False, ct_callable := None\<rparr>"

definition ct_clear :: "'k callback_task \<Rightarrow> 'k callback_task" where
  "ct_clear t =
     (if ct_invoking t then t\<lparr>ct_active := False, ct_enabled := False, ct_clear_requested := True\<rparr> else ct_destroy_now t)"

definition ct_set :: "'k \<Rightarrow> 'k callback_task \<Rightarrow> bool \<times> 'k callback_task" where
  "ct_set k t0 =
     (let t = ct_clear t0 in
      if ct_invoking t then (False, t)
      else (True, t\<lparr>ct_callable := Some k, ct_active := True, ct_enabled := True, ct_clear_requested := False\<rparr>))"

definition ct_set_enabled :: "bool \<Rightarrow> 'k callback_task \<Rightarrow> 'k callback_task" where
  "ct_set_enabled b t = (if ct_active t then t\<lparr>ct_enabled := b\<rparr> else t)"

text \<open>\<open>poll\<close> up to the call of the callable, with the callable that is called, and after it returned.\<close>

definition ct_poll_begin :: "'k callback_task \<Rightarrow> 'k option \<times> 'k callback_task" where
  "ct_poll_begin t =
     (if ct_active t \<and> ct_enabled t \<and> ct_callable t \<noteq> None then (ct_callable t, t\<lparr>ct_invoking := True\<rparr>) else (None, t))"

definition ct_poll_end :: "'k callback_task \<Rightarrow> 'k callback_task" where
  "ct_poll_end t =
     (let t1 = t\<lparr>ct_invoking := False\<rparr> in if ct_clear_requested t1 then ct_destroy_now t1 else t1)"

section \<open>The cooperative scheduler\<close>

record 't task_slot =
  ts_task :: "'t option"
  ts_period :: int
  ts_next_due :: int
  ts_periodic :: bool
  ts_active :: bool

record 't arduino_loop =
  al_tasks :: "'t task_slot list"
  al_exit :: bool
  al_running :: bool

definition al_init :: "'t arduino_loop" where
  "al_init = \<lparr>al_tasks = [], al_exit = False, al_running = False\<rparr>"

definition ts_live :: "'t task_slot \<Rightarrow> bool" where
  "ts_live s \<longleftrightarrow> ts_active s \<and> ts_task s \<noteq> None"

definition al_compact :: "'t arduino_loop \<Rightarrow> 't arduino_loop" where
  "al_compact l = l\<lparr>al_tasks := filter ts_live (al_tasks l)\<rparr>"

definition al_add_periodic :: "nat \<Rightarrow> int \<Rightarrow> 't \<Rightarrow> int \<Rightarrow> 't arduino_loop \<Rightarrow> bool \<times> 't arduino_loop" where
  "al_add_periodic cap clock task period l0 =
     (let l = al_compact l0 in
      if period = 0 \<or> cap \<le> length (al_tasks l) then (False, l)
      else (True, l\<lparr>al_tasks := al_tasks l @ [\<lparr>ts_task = Some task, ts_period = period, ts_next_due = clock,
              ts_periodic = True, ts_active = True\<rparr>]\<rparr>))"

definition al_add_one_shot :: "nat \<Rightarrow> 't \<Rightarrow> int \<Rightarrow> 't arduino_loop \<Rightarrow> bool \<times> 't arduino_loop" where
  "al_add_one_shot cap task due l0 =
     (let l = al_compact l0 in
      if cap \<le> length (al_tasks l) then (False, l)
      else (True, l\<lparr>al_tasks := al_tasks l @ [\<lparr>ts_task = Some task, ts_period = 0, ts_next_due = due,
              ts_periodic = False, ts_active = True\<rparr>]\<rparr>))"

definition al_remove :: "'t \<Rightarrow> 't arduino_loop \<Rightarrow> bool \<times> 't arduino_loop" where
  "al_remove task l =
     (let removed = list_ex (\<lambda>s. ts_task s = Some task) (al_tasks l);
          l1 = l\<lparr>al_tasks := map (\<lambda>s. if ts_task s = Some task then s\<lparr>ts_task := None, ts_active := False\<rparr> else s) (al_tasks l)\<rparr>
      in (removed, if al_running l1 then l1 else al_compact l1))"

definition al_request_exit :: "'t arduino_loop \<Rightarrow> 't arduino_loop" where
  "al_request_exit l = l\<lparr>al_exit := True\<rparr>"

text \<open>What a callback asks of the scheduler; a periodic registration carries the clock reading it sees.\<close>

datatype 't sched_call = AddPeriodic int 't int | AddOneShot 't int | RemoveTask 't | RequestExit

fun al_call :: "nat \<Rightarrow> 't sched_call \<Rightarrow> 't arduino_loop \<Rightarrow> 't arduino_loop" where
  "al_call cap (AddPeriodic clock t period) l = snd (al_add_periodic cap clock t period l)"
| "al_call cap (AddOneShot t due) l = snd (al_add_one_shot cap t due l)"
| "al_call cap (RemoveTask t) l = snd (al_remove t l)"
| "al_call cap RequestExit l = al_request_exit l"

type_synonym 't callbacks = "'t \<Rightarrow> int \<Rightarrow> 't arduino_loop \<Rightarrow> 't sched_call list"

text \<open>After the poll of the task at index \<open>i\<close>: the code still refers to the slot at this index.\<close>

definition al_after_poll :: "int \<Rightarrow> nat \<Rightarrow> 't arduino_loop \<Rightarrow> 't arduino_loop option" where
  "al_after_poll now i l =
     (if length (al_tasks l) \<le> i \<or> \<not> ts_live (al_tasks l ! i) then Some l
      else (let s = al_tasks l ! i in
            if ts_periodic s
            then map_option (\<lambda>d. l\<lparr>al_tasks := (al_tasks l)[i := s\<lparr>ts_next_due := d\<rparr>]\<rparr>) (advance_due (ts_period s) now (ts_next_due s))
            else Some (l\<lparr>al_tasks := (al_tasks l)[i := s\<lparr>ts_active := False, ts_task := None\<rparr>]\<rparr>)))"

function al_run_from :: "nat \<Rightarrow> 't callbacks \<Rightarrow> int \<Rightarrow> nat \<Rightarrow> 't arduino_loop \<Rightarrow> ('t arduino_loop \<times> 't list) option" where
  "al_run_from cap cb now i l =
     (if i < cap \<and> i < length (al_tasks l) then
        (let s = al_tasks l ! i in
         case ts_task s of
           None \<Rightarrow> al_run_from cap cb now (Suc i) l
         | Some t \<Rightarrow>
             if \<not> ts_active s \<or> now < ts_next_due s then al_run_from cap cb now (Suc i) l
             else (case al_after_poll now i (fold (al_call cap) (cb t now l) l) of
                     None \<Rightarrow> None
                   | Some l1 \<Rightarrow> map_option (\<lambda>(l2, polled). (l2, t # polled)) (al_run_from cap cb now (Suc i) l1)))
      else Some (l, []))"
  by pat_completeness auto

termination
  by (relation "measure (\<lambda>(cap, cb, now, i, l). cap - i)") auto

declare al_run_from.simps [simp del]

definition al_run_once :: "nat \<Rightarrow> 't callbacks \<Rightarrow> int \<Rightarrow> 't arduino_loop \<Rightarrow> ('t arduino_loop \<times> 't list) option" where
  "al_run_once cap cb now l =
     map_option (\<lambda>(l1, polled). (al_compact (l1\<lparr>al_running := False\<rparr>), polled))
       (al_run_from cap cb now 0 ((al_compact l)\<lparr>al_running := True\<rparr>))"

text \<open>\<open>run_forever\<close> over the clock readings of its iterations: it stops when an exit was requested.\<close>

fun al_run_forever :: "nat \<Rightarrow> 't callbacks \<Rightarrow> int list \<Rightarrow> 't arduino_loop \<Rightarrow> ('t arduino_loop \<times> 't list list) option" where
  "al_run_forever cap cb [] l = Some (l, [])"
| "al_run_forever cap cb (now # nows) l =
     (if al_exit l then Some (l, [])
      else (case al_run_once cap cb now l of
              None \<Rightarrow> None
            | Some (l1, polled) \<Rightarrow> map_option (\<lambda>(l2, outs). (l2, polled # outs)) (al_run_forever cap cb nows l1)))"

section \<open>The facade\<close>

text \<open>The slot of an unassigned handle (\<open>0xffff\<close> in the code, which no loop has) is \<open>None\<close>.\<close>

record event_handle =
  eh_index :: "nat option"
  eh_generation :: u16

abbreviation eh_slot :: "event_handle \<Rightarrow> nat" where
  "eh_slot h \<equiv> the (eh_index h)"

definition invalid_handle :: event_handle where
  "invalid_handle = \<lparr>eh_index = None, eh_generation = 0\<rparr>"

definition eh_assigned :: "event_handle \<Rightarrow> bool" where
  "eh_assigned h \<longleftrightarrow> eh_index h \<noteq> None"

text \<open>The callables the facade stores: plain ones, one-shots that know their handle, and readiness checks.\<close>

datatype 'k callable = Plain 'k | OneShot event_handle 'k | WhenReadable 'k | DrainPin 'k

record ('k, 's) event_loop =
  el_tasks :: "'k callable callback_task list"
  el_generations :: "u16 list"
  el_used :: "bool list"
  el_sched :: 's

definition el_init :: "nat \<Rightarrow> 's \<Rightarrow> ('k, 's) event_loop" where
  "el_init cap s = \<lparr>el_tasks = replicate cap ct_init, el_generations = replicate cap 0, el_used = replicate cap False, el_sched = s\<rparr>"

text \<open>The scheduler as the facade calls it; a task is named by its slot.\<close>

record 's sched_api =
  sa_add_periodic :: "nat \<Rightarrow> int \<Rightarrow> 's \<Rightarrow> bool \<times> 's"
  sa_add_one_shot :: "nat \<Rightarrow> int \<Rightarrow> 's \<Rightarrow> bool \<times> 's"
  sa_remove :: "nat \<Rightarrow> 's \<Rightarrow> bool \<times> 's"
  sa_add_readable_fd :: "(int \<Rightarrow> nat \<Rightarrow> 's \<Rightarrow> bool \<times> 's) option"

definition el_valid :: "event_handle \<Rightarrow> ('k, 's) event_loop \<Rightarrow> bool" where
  "el_valid h st \<longleftrightarrow> eh_assigned h \<and> eh_slot h < length (el_tasks st) \<and> el_used st ! eh_slot h \<and>
     ct_active (el_tasks st ! eh_slot h) \<and> el_generations st ! eh_slot h = eh_generation h"

definition el_set_enabled :: "bool \<Rightarrow> event_handle \<Rightarrow> ('k, 's) event_loop \<Rightarrow> bool \<times> ('k, 's) event_loop" where
  "el_set_enabled b h st =
     (if \<not> el_valid h st then (False, st)
      else (True, st\<lparr>el_tasks := (el_tasks st)[eh_slot h := ct_set_enabled b (el_tasks st ! eh_slot h)]\<rparr>))"

definition el_free_slot :: "nat \<Rightarrow> ('k, 's) event_loop \<Rightarrow> ('k, 's) event_loop" where
  "el_free_slot i st = st\<lparr>el_tasks := (el_tasks st)[i := ct_clear (el_tasks st ! i)], el_used := (el_used st)[i := False],
     el_generations := (el_generations st)[i := el_generations st ! i + 1]\<rparr>"

definition el_release_registered :: "event_handle \<Rightarrow> ('k, 's) event_loop \<Rightarrow> ('k, 's) event_loop" where
  "el_release_registered h st =
     (if \<not> eh_assigned h \<or> length (el_tasks st) \<le> eh_slot h then st
      else if \<not> el_used st ! eh_slot h \<or> el_generations st ! eh_slot h \<noteq> eh_generation h then st
      else el_free_slot (eh_slot h) st)"

definition el_release_unregistered :: "event_handle \<Rightarrow> ('k, 's) event_loop \<Rightarrow> ('k, 's) event_loop" where
  "el_release_unregistered h st =
     (if \<not> eh_assigned h \<or> length (el_tasks st) \<le> eh_slot h then st else el_free_slot (eh_slot h) st)"

definition el_complete_one_shot :: "event_handle \<Rightarrow> ('k, 's) event_loop \<Rightarrow> ('k, 's) event_loop" where
  "el_complete_one_shot h st = el_release_registered h st"

definition el_remove :: "'s sched_api \<Rightarrow> event_handle \<Rightarrow> ('k, 's) event_loop \<Rightarrow> bool \<times> ('k, 's) event_loop" where
  "el_remove api h st =
     (if \<not> el_valid h st then (False, st)
      else (case sa_remove api (eh_slot h) (el_sched st) of
              (ok, s) \<Rightarrow> let st1 = st\<lparr>el_sched := s\<rparr> in
                if \<not> ok then (False, st1) else (True, el_release_registered h st1)))"

definition el_allocate :: "(event_handle \<Rightarrow> 'k callable) \<Rightarrow> ('k, 's) event_loop \<Rightarrow> event_handle \<times> ('k, 's) event_loop" where
  "el_allocate k st =
     (case index_where Not (el_used st) of
        None \<Rightarrow> (invalid_handle, st)
      | Some i \<Rightarrow>
          (let h = \<lparr>eh_index = Some i, eh_generation = el_generations st ! i\<rparr> in
           case ct_set (k h) (el_tasks st ! i) of
             (ok, t) \<Rightarrow>
               (let st1 = st\<lparr>el_tasks := (el_tasks st)[i := t]\<rparr> in
                if \<not> ok then (invalid_handle, st1) else (h, st1\<lparr>el_used := (el_used st)[i := True]\<rparr>))))"

text \<open>A registration: allocate a slot, call the scheduler, give the slot back where it refuses.\<close>

definition el_register ::
  "(nat \<Rightarrow> 's \<Rightarrow> bool \<times> 's) \<Rightarrow> (event_handle \<Rightarrow> 'k callable) \<Rightarrow> ('k, 's) event_loop \<Rightarrow> event_handle \<times> ('k, 's) event_loop" where
  "el_register add k st =
     (case el_allocate k st of
        (h, st1) \<Rightarrow>
          if \<not> eh_assigned h then (invalid_handle, st1)
          else (case add (eh_slot h) (el_sched st1) of
                  (ok, s) \<Rightarrow> let st2 = st1\<lparr>el_sched := s\<rparr> in
                    if \<not> ok then (invalid_handle, el_release_unregistered h st2) else (h, st2)))"

definition el_on_repeat_us :: "'s sched_api \<Rightarrow> int \<Rightarrow> 'k \<Rightarrow> ('k, 's) event_loop \<Rightarrow> event_handle \<times> ('k, 's) event_loop" where
  "el_on_repeat_us api period k = el_register (\<lambda>i. sa_add_periodic api i period) (\<lambda>_. Plain k)"

definition el_on_delay_us :: "'s sched_api \<Rightarrow> int \<Rightarrow> int \<Rightarrow> 'k \<Rightarrow> ('k, 's) event_loop \<Rightarrow> event_handle \<times> ('k, 's) event_loop" where
  "el_on_delay_us api clock delay k =
     (let due = (if 2 ^ 64 - 1 - clock < delay then 2 ^ 64 - 1 else clock + delay)
      in el_register (\<lambda>i. sa_add_one_shot api i due) (\<lambda>h. OneShot h k))"

definition el_on_repeat :: "'s sched_api \<Rightarrow> u32 \<Rightarrow> 'k \<Rightarrow> ('k, 's) event_loop \<Rightarrow> event_handle \<times> ('k, 's) event_loop" where
  "el_on_repeat api ms k = el_on_repeat_us api (uint ms * 1000) k"

definition el_on_delay :: "'s sched_api \<Rightarrow> int \<Rightarrow> u32 \<Rightarrow> 'k \<Rightarrow> ('k, 's) event_loop \<Rightarrow> event_handle \<times> ('k, 's) event_loop" where
  "el_on_delay api clock ms k = el_on_delay_us api clock (uint ms * 1000) k"

definition register_readiness_or_poll :: "'s sched_api \<Rightarrow> int \<Rightarrow> int \<Rightarrow> nat \<Rightarrow> 's \<Rightarrow> bool \<times> 's" where
  "register_readiness_or_poll api fd poll_us i s =
     (case sa_add_readable_fd api of
        Some add_fd \<Rightarrow> if 0 \<le> fd then add_fd fd i s else sa_add_periodic api i (if poll_us = 0 then 1000 else poll_us) s
      | None \<Rightarrow> sa_add_periodic api i (if poll_us = 0 then 1000 else poll_us) s)"

definition el_on_bytes_ready :: "'s sched_api \<Rightarrow> int \<Rightarrow> int \<Rightarrow> 'k \<Rightarrow> ('k, 's) event_loop \<Rightarrow> event_handle \<times> ('k, 's) event_loop" where
  "el_on_bytes_ready api fd poll_us k = el_register (register_readiness_or_poll api fd poll_us) (\<lambda>_. WhenReadable k)"

definition el_on_pin_event :: "'s sched_api \<Rightarrow> int \<Rightarrow> int \<Rightarrow> 'k \<Rightarrow> ('k, 's) event_loop \<Rightarrow> event_handle \<times> ('k, 's) event_loop" where
  "el_on_pin_event api fd poll_us k = el_register (register_readiness_or_poll api fd poll_us) (\<lambda>_. DrainPin k)"

text \<open>The scheduler polls the task of a slot: the callable starts, and ends; a one-shot completes at its end.\<close>

definition el_poll_begin :: "nat \<Rightarrow> ('k, 's) event_loop \<Rightarrow> 'k callable option \<times> ('k, 's) event_loop" where
  "el_poll_begin i st =
     (case ct_poll_begin (el_tasks st ! i) of (k, t) \<Rightarrow> (k, st\<lparr>el_tasks := (el_tasks st)[i := t]\<rparr>))"

definition el_poll_end :: "nat \<Rightarrow> 'k callable \<Rightarrow> ('k, 's) event_loop \<Rightarrow> ('k, 's) event_loop" where
  "el_poll_end i k st =
     (let st1 = (case k of OneShot h _ \<Rightarrow> el_complete_one_shot h st | _ \<Rightarrow> st)
      in st1\<lparr>el_tasks := (el_tasks st1)[i := ct_poll_end (el_tasks st1 ! i)]\<rparr>)"

section \<open>The extended clock is the clock\<close>

lemma ucast_of_nat_u64: "n < 2 ^ 32 \<Longrightarrow> (ucast (of_nat n :: u32) :: u64) = of_nat n"
  by (simp add: unsigned_of_nat take_bit_nat_eq_self)

lemma ex_run_follows:
  assumes "ex_initialized e" "ex_last_raw e = of_nat t" "ex_extended e = of_nat (t - b)" "b \<le> t"
    and "successively (\<lambda>s u. s \<le> u \<and> u - s < 2 ^ 32) (t # ts)"
  shows "ex_run (map of_nat ts) e = map (\<lambda>u. of_nat (u - b)) ts"
  using assms
proof (induction ts arbitrary: t e)
  case (Cons u us)
  then have u: "t \<le> u" "u - t < 2 ^ 32" by simp_all
  then have "(of_nat u :: u32) - of_nat t = of_nat (u - t)" by (simp add: of_nat_diff)
  with Cons.prems(2) ucast_of_nat_u64 [OF u(2)]
  have d: "(ucast ((of_nat u :: u32) - ex_last_raw e) :: u64) = of_nat (u - t)" by simp
  have "t - b + (u - t) = u - b" using u(1) Cons.prems(4) by simp
  then have ext: "ex_extended e + ucast ((of_nat u :: u32) - ex_last_raw e) = (of_nat (u - b) :: u64)"
    unfolding Cons.prems(3) d of_nat_add [symmetric] by simp
  let ?e = "e\<lparr>ex_extended := of_nat (u - b), ex_last_raw := of_nat u\<rparr>"
  have "ex_run (map of_nat us) ?e = map (\<lambda>u. of_nat (u - b)) us"
    using Cons.prems u by (intro Cons.IH [of ?e u]) simp_all
  with Cons.prems(1) ext show ?case by (simp add: ex_update_def Let_def)
qed simp

text \<open>
  The extended clock is monotonic time. Let a clock be read at times \<open>t # ts\<close> through a 32 bit counter that
  wraps, at most one wrap between two readings. Then the extender returns the true times, counted from the start of
  the wrap period of the first reading: every wrap is noticed and none is counted twice.
\<close>
theorem extender_is_monotonic_clock:
  assumes "successively (\<lambda>s u. s \<le> u \<and> u - s < 2 ^ 32) (t # ts)"
  shows "ex_run (map of_nat (t # ts)) ex_init = map (\<lambda>u. of_nat (u - t div 2 ^ 32 * 2 ^ 32)) (t # ts)"
proof -
  let ?b = "t div 2 ^ 32 * 2 ^ 32" and ?e = "snd (ex_update (of_nat t) ex_init)"
  have "(of_nat t :: u32) = of_nat (t mod 2 ^ 32)" by (simp add: word_unat_eq_iff unat_of_nat)
  then have "(ucast (of_nat t :: u32) :: u64) = of_nat (t mod 2 ^ 32)"
    using ucast_of_nat_u64 [of "t mod 2 ^ 32"] by simp
  moreover have "t mod 2 ^ 32 = t - ?b" by (rule minus_div_mult_eq_mod [symmetric])
  ultimately have "(ucast (of_nat t :: u32) :: u64) = of_nat (t - ?b)" by simp
  moreover from this have "ex_run (map of_nat ts) ?e = map (\<lambda>u. of_nat (u - ?b)) ts"
    using assms by (intro ex_run_follows [of _ t]) (simp_all add: ex_update_def ex_init_def)
  ultimately show ?thesis by (simp add: ex_update_def ex_init_def)
qed

theorem extender_is_monotonic_clock_witness:
  "ex_run (map of_nat [4294967290, 4294967300, 8589934590]) ex_init =
    map (\<lambda>u. of_nat (u - 4294967290 div 2 ^ 32 * 2 ^ 32)) [4294967290, 4294967300, 8589934590]"
  by (rule extender_is_monotonic_clock) simp

section \<open>Periodic tasks stay on their grid\<close>

text \<open>The first point of the grid \<open>d, d + p, d + 2 p, ...\<close> after \<open>now\<close>.\<close>

definition next_on_grid :: "int \<Rightarrow> int \<Rightarrow> int \<Rightarrow> int" where
  "next_on_grid p now d = d + ((now - d) div p + 1) * p"

lemma next_on_grid_after:
  assumes "0 < p"
  shows "now < next_on_grid p now d" "next_on_grid p now d - p \<le> now"
proof -
  have "((now - d) div p + 1) * p = (now - d) div p * p + p" by (simp only: distrib_right mult_1)
  moreover have "(now - d) div p * p + (now - d) mod p = now - d" by (rule div_mult_mod_eq)
  ultimately show "now < next_on_grid p now d" "next_on_grid p now d - p \<le> now"
    using pos_mod_bound [OF assms, of "now - d"] pos_mod_sign [OF assms, of "now - d"]
    unfolding next_on_grid_def by linarith+
qed

lemma next_on_grid_step: "0 < p \<Longrightarrow> next_on_grid p now (d + p) = next_on_grid p now d"
proof -
  assume "0 < p"
  then have "(now - (d + p)) div p = (now - d) div p - 1"
    using div_add_self2 [of p "now - (d + p)"] by (simp add: algebra_simps)
  then show ?thesis by (simp add: next_on_grid_def algebra_simps)
qed

lemma advance_due_grid:
  assumes "0 < p" "0 \<le> d" "d \<le> now" "now + p < 2 ^ 64"
  shows "advance_due p now d = Some (next_on_grid p now d)"
  using assms
proof (induction "nat (now - d)" arbitrary: d rule: less_induct)
  case less
  have m: "(d + p) mod 2 ^ 64 = d + p" using less.prems by simp
  show ?case
  proof (cases "d + p \<le> now")
    case True
    then have "advance_due p now (d + p) = Some (next_on_grid p now (d + p))"
      using less.prems by (intro less.hyps) simp_all
    with True m less.prems(1) show ?thesis by (subst advance_due.simps) (simp add: Let_def next_on_grid_step)
  next
    case False
    with less.prems have "(now - d) div p = 0" by (intro div_pos_pos_trivial) simp_all
    with False m show ?thesis by (subst advance_due.simps) (simp add: Let_def next_on_grid_def)
  qed
qed

definition ts_due :: "int \<Rightarrow> 't task_slot \<Rightarrow> bool" where
  "ts_due now s \<longleftrightarrow> ts_next_due s \<le> now"

definition ts_after :: "int \<Rightarrow> 't task_slot \<Rightarrow> 't task_slot" where
  "ts_after now s =
     (if \<not> ts_due now s then s
      else if ts_periodic s then s\<lparr>ts_next_due := next_on_grid (ts_period s) now (ts_next_due s)\<rparr>
      else s\<lparr>ts_active := False, ts_task := None\<rparr>)"

text \<open>
  The callbacks the scheduler stands: they do not remove the task \<open>x\<close>, register it again or ask for the exit, and they register
  other tasks only while no slot is vacated. A registration closes the gaps of the array, and the running loop still
  goes by index: \<open>compaction_moves_slots\<close> below shows what happens to callbacks that are not orderly.
\<close>

fun is_registration :: "'t sched_call \<Rightarrow> bool" where
  "is_registration (AddPeriodic clock t period) = True"
| "is_registration (AddOneShot t due) = True"
| "is_registration c = False"

fun call_ok :: "'t \<Rightarrow> int \<Rightarrow> 't sched_call \<Rightarrow> bool" where
  "call_ok x bound (AddPeriodic clock t period) = (t \<noteq> x \<and> 0 \<le> clock \<and> 0 \<le> period \<and> period \<le> bound)"
| "call_ok x bound (AddOneShot t due) = (t \<noteq> x \<and> 0 \<le> due)"
| "call_ok x bound (RemoveTask t) = (t \<noteq> x)"
| "call_ok x bound RequestExit = False"

definition orderly :: "'t \<Rightarrow> int \<Rightarrow> 't callbacks \<Rightarrow> bool" where
  "orderly x bound cb \<longleftrightarrow> (\<forall>t now l. list_all (call_ok x bound) (cb t now l) \<and>
     (list_ex is_registration (cb t now l) \<longrightarrow> list_all is_registration (cb t now l) \<and> list_all ts_live (al_tasks l)))"

text \<open>The task \<open>x\<close> has the slot \<open>s\<close> at index \<open>k\<close> and no other, and every slot can be advanced.\<close>

definition slot_fits :: "int \<Rightarrow> 't task_slot \<Rightarrow> bool" where
  "slot_fits bound s \<longleftrightarrow> 0 \<le> ts_next_due s \<and> (ts_periodic s \<longrightarrow> 0 < ts_period s \<and> ts_period s \<le> bound)"

definition holds_task :: "nat \<Rightarrow> int \<Rightarrow> 't \<Rightarrow> nat \<Rightarrow> 't task_slot \<Rightarrow> 't arduino_loop \<Rightarrow> bool" where
  "holds_task cap bound x k s l \<longleftrightarrow> k < length (al_tasks l) \<and> al_tasks l ! k = s \<and> length (al_tasks l) \<le> cap \<and> \<not> al_exit l \<and>
     (\<forall>j < length (al_tasks l). slot_fits bound (al_tasks l ! j) \<and> (j \<noteq> k \<longrightarrow> ts_task (al_tasks l ! j) \<noteq> Some x))"

lemma holds_task_append:
  assumes "holds_task cap bound x k s l" "length (al_tasks l) < cap" "slot_fits bound s'" "ts_task s' \<noteq> Some x"
  shows "holds_task cap bound x k s (l\<lparr>al_tasks := al_tasks l @ [s']\<rparr>)"
  using assms by (auto simp: holds_task_def nth_append less_Suc_eq)

lemma compact_live: "list_all ts_live (al_tasks l) \<Longrightarrow> al_compact l = l"
  by (simp add: al_compact_def list_all_iff filter_id_conv)

lemma ts_live_new: "ts_live \<lparr>ts_task = Some t, ts_period = p, ts_next_due = d, ts_periodic = b, ts_active = True\<rparr>"
  by (simp add: ts_live_def)

lemma registrations_keep:
  assumes "holds_task cap bound x k s l" "list_all ts_live (al_tasks l)"
    and "list_all (call_ok x bound) calls" "list_all is_registration calls"
  shows "\<exists>added. holds_task cap bound x k s (fold (al_call cap) calls l) \<and> al_tasks (fold (al_call cap) calls l) = al_tasks l @ added \<and>
    al_running (fold (al_call cap) calls l) = al_running l"
  using assms
proof (induction calls arbitrary: l)
  case (Cons c calls)
  have "al_compact l = l" using Cons.prems(2) by (rule compact_live)
  then have "al_call cap c l = l \<or> (\<exists>s'. al_call cap c l = l\<lparr>al_tasks := al_tasks l @ [s']\<rparr> \<and> length (al_tasks l) < cap \<and>
      slot_fits bound s' \<and> ts_task s' \<noteq> Some x \<and> ts_live s')"
  proof (cases c)
    case (AddPeriodic clock t period)
    let ?s = "\<lparr>ts_task = Some t, ts_period = period, ts_next_due = clock, ts_periodic = True, ts_active = True\<rparr>"
    show ?thesis using Cons.prems(3) AddPeriodic \<open>al_compact l = l\<close>
      by (cases "period = 0 \<or> cap \<le> length (al_tasks l)") (auto simp: al_add_periodic_def slot_fits_def ts_live_new Let_def intro!: exI [of _ ?s])
  next
    case (AddOneShot t due)
    let ?s = "\<lparr>ts_task = Some t, ts_period = 0, ts_next_due = due, ts_periodic = False, ts_active = True\<rparr>"
    show ?thesis using Cons.prems(3) AddOneShot \<open>al_compact l = l\<close>
      by (cases "cap \<le> length (al_tasks l)") (auto simp: al_add_one_shot_def slot_fits_def ts_live_new Let_def intro!: exI [of _ ?s])
  qed (use Cons.prems(4) in simp_all)
  then obtain added where l1: "holds_task cap bound x k s (al_call cap c l)" "list_all ts_live (al_tasks (al_call cap c l))"
    "al_tasks (al_call cap c l) = al_tasks l @ added" "al_running (al_call cap c l) = al_running l"
    using Cons.prems(1,2) holds_task_append [OF Cons.prems(1)] by fastforce
  from Cons.IH [OF l1(1,2)] Cons.prems(3,4) l1(3,4) show ?case by fastforce
qed simp

text \<open>A removal while the loop runs only vacates slots.\<close>

definition vacated :: "'t task_slot \<Rightarrow> 't task_slot \<Rightarrow> bool" where
  "vacated s s' \<longleftrightarrow> s' = s \<or> \<not> ts_live s' \<and> ts_task s' = None \<and> ts_next_due s' = ts_next_due s \<and> ts_period s' = ts_period s \<and>
     ts_periodic s' = ts_periodic s"

lemma removals_keep:
  assumes "holds_task cap bound x k s l" "ts_task s = Some x" "al_running l"
    and "list_all (call_ok x bound) calls" "\<not> list_ex is_registration calls"
  shows "holds_task cap bound x k s (fold (al_call cap) calls l) \<and> al_running (fold (al_call cap) calls l) \<and>
    list_all2 vacated (al_tasks l) (al_tasks (fold (al_call cap) calls l))"
  using assms
proof (induction calls arbitrary: l)
  case Nil
  then show ?case by (simp add: list_all2_same vacated_def)
next
  case (Cons c calls)
  then obtain t where c: "c = RemoveTask t" "t \<noteq> x" by (cases c) simp_all
  define l1 where "l1 = l\<lparr>al_tasks := map (\<lambda>s. if ts_task s = Some t then s\<lparr>ts_task := None, ts_active := False\<rparr> else s) (al_tasks l)\<rparr>"
  have e: "al_call cap c l = l1" using Cons.prems(3) by (simp add: c al_remove_def l1_def Let_def)
  have h: "holds_task cap bound x k s l1" "al_running l1"
    using Cons.prems(1-3) c(2) by (auto simp: holds_task_def l1_def slot_fits_def)
  have v: "list_all2 vacated (al_tasks l) (al_tasks l1)"
    by (simp add: l1_def list_all2_map2 list_all2_same vacated_def ts_live_def)
  have "list_all2 vacated (al_tasks l1) (al_tasks (fold (al_call cap) calls l1))"
    using Cons.IH [OF h(1) Cons.prems(2) h(2)] Cons.prems(4,5) by simp
  moreover have "vacated a c" if "vacated a b" "vacated b c" for a b c :: "'a task_slot" using that by (auto simp: vacated_def)
  ultimately have "list_all2 vacated (al_tasks l) (al_tasks (fold (al_call cap) calls l1))" using v list_all2_trans by blast
  then show ?case using Cons.IH [OF h(1) Cons.prems(2) h(2)] Cons.prems(4,5) e by simp
qed

lemma orderly_calls:
  fixes t :: 't and now :: int
  assumes "orderly x bound cb" "holds_task cap bound x k s l" "ts_task s = Some x" "al_running l" "i < length (al_tasks l)"
  defines "l1 \<equiv> fold (al_call cap) (cb t now l) l"
  shows "holds_task cap bound x k s l1" "al_running l1" "i < length (al_tasks l1)" "vacated (al_tasks l ! i) (al_tasks l1 ! i)"
proof -
  let ?calls = "cb t now l"
  have ok: "list_all (call_ok x bound) ?calls" using assms(1) by (simp add: orderly_def)
  have "holds_task cap bound x k s l1 \<and> al_running l1 \<and> i < length (al_tasks l1) \<and> vacated (al_tasks l ! i) (al_tasks l1 ! i)"
  proof (cases "list_ex is_registration ?calls")
    case True
    then have "list_all is_registration ?calls" "list_all ts_live (al_tasks l)" using assms(1) by (auto simp: orderly_def)
    from registrations_keep [OF assms(2) this(2) ok this(1)] assms(4,5) show ?thesis
      by (auto simp: l1_def nth_append vacated_def)
  next
    case False
    from removals_keep [OF assms(2-4) ok False] assms(5) show ?thesis
      by (auto simp: l1_def list_all2_conv_all_nth)
  qed
  then show "holds_task cap bound x k s l1" "al_running l1" "i < length (al_tasks l1)" "vacated (al_tasks l ! i) (al_tasks l1 ! i)" by auto
qed

lemma after_poll_other:
  assumes "holds_task cap bound x k s l" "i < length (al_tasks l)" "i \<noteq> k" "0 \<le> now" "now + bound < 2 ^ 64"
    and "ts_live (al_tasks l ! i) \<longrightarrow> ts_next_due (al_tasks l ! i) \<le> now"
  shows "\<exists>l1. al_after_poll now i l = Some l1 \<and> holds_task cap bound x k s l1 \<and> al_running l1 = al_running l \<and> length (al_tasks l1) = length (al_tasks l)"
proof -
  let ?s = "al_tasks l ! i"
  have f: "slot_fits bound ?s" "ts_task ?s \<noteq> Some x" using assms(1-3) by (auto simp: holds_task_def)
  have keep: "holds_task cap bound x k s (l\<lparr>al_tasks := (al_tasks l)[i := s']\<rparr>)" if "slot_fits bound s'" "ts_task s' \<noteq> Some x" for s'
    using assms(1-3) that by (auto simp: holds_task_def nth_list_update)
  show ?thesis
  proof (cases "ts_live ?s \<and> ts_periodic ?s")
    case True
    then have d: "advance_due (ts_period ?s) now (ts_next_due ?s) = Some (next_on_grid (ts_period ?s) now (ts_next_due ?s))"
      using f(1) assms(5,6) by (intro advance_due_grid) (auto simp: slot_fits_def)
    have "now < next_on_grid (ts_period ?s) now (ts_next_due ?s)" using True f(1) next_on_grid_after(1) by (auto simp: slot_fits_def)
    then have "slot_fits bound (?s\<lparr>ts_next_due := next_on_grid (ts_period ?s) now (ts_next_due ?s)\<rparr>)" using f(1) assms(4) by (simp add: slot_fits_def)
    from keep [OF this] True d f(2) assms(2) show ?thesis by (simp add: al_after_poll_def Let_def)
  next
    case False
    have "slot_fits bound (?s\<lparr>ts_active := False, ts_task := None\<rparr>)" using f(1) by (simp add: slot_fits_def)
    from keep [OF this] False assms(1,2) show ?thesis by (auto simp: al_after_poll_def Let_def)
  qed
qed

lemma after_poll_task:
  assumes "holds_task cap bound x k s l" "ts_live s" "ts_periodic s" "ts_due now s" "0 \<le> now" "now + bound < 2 ^ 64"
  shows "\<exists>l1. al_after_poll now k l = Some l1 \<and> holds_task cap bound x k (ts_after now s) l1 \<and> al_running l1 = al_running l \<and> length (al_tasks l1) = length (al_tasks l)"
proof -
  have f: "al_tasks l ! k = s" "k < length (al_tasks l)" "slot_fits bound s" using assms(1) by (auto simp: holds_task_def)
  have d: "advance_due (ts_period s) now (ts_next_due s) = Some (next_on_grid (ts_period s) now (ts_next_due s))"
    using f(3) assms(3,4,6) by (intro advance_due_grid) (auto simp: slot_fits_def ts_due_def)
  have "now < next_on_grid (ts_period s) now (ts_next_due s)" using assms(3) f(3) next_on_grid_after(1) by (auto simp: slot_fits_def)
  then have "holds_task cap bound x k (ts_after now s) (l\<lparr>al_tasks := (al_tasks l)[k := ts_after now s]\<rparr>)"
    using assms(1,3-5) by (auto simp: holds_task_def nth_list_update slot_fits_def ts_after_def)
  then show ?thesis using assms(2-4) d f by (simp add: al_after_poll_def Let_def ts_after_def)
qed

lemma al_run_from_task:
  assumes "orderly x bound cb" "0 \<le> now" "now + bound < 2 ^ 64"
  shows "holds_task cap bound x k s l \<Longrightarrow> ts_live s \<Longrightarrow> ts_periodic s \<Longrightarrow> ts_task s = Some x \<Longrightarrow> al_running l \<Longrightarrow>
    \<exists>l' polled. al_run_from cap cb now i l = Some (l', polled) \<and> holds_task cap bound x k (if i \<le> k then ts_after now s else s) l' \<and>
      (x \<in> set polled \<longleftrightarrow> i \<le> k \<and> ts_due now s)"
proof (induction "cap - i" arbitrary: i l s)
  case 0
  then have "\<not> (i < cap \<and> i < length (al_tasks l))" "\<not> i \<le> k" by (auto simp: holds_task_def)
  then show ?case using 0 by (simp add: al_run_from.simps [of cap cb now i l])
next
  case (Suc n)
  let ?c = "al_tasks l ! i"
  have step: "n = cap - Suc i" using Suc.hyps(2) by simp
  note holds = Suc.prems(1)
  consider "length (al_tasks l) \<le> i" | "i < length (al_tasks l)" "\<not> (ts_live ?c \<and> ts_due now ?c)" | "i < length (al_tasks l)" "ts_live ?c" "ts_due now ?c"
    by linarith
  then show ?case
  proof cases
    case 1
    then have "\<not> i \<le> k" using holds by (auto simp: holds_task_def)
    then show ?thesis using 1 holds by (simp add: al_run_from.simps [of cap cb now i l])
  next
    case 2
    have skip: "al_run_from cap cb now i l = al_run_from cap cb now (Suc i) l"
      using 2 holds by (subst al_run_from.simps) (auto simp: Let_def ts_live_def ts_due_def holds_task_def split: option.splits)
    have "i = k \<Longrightarrow> \<not> ts_due now s" using 2 holds Suc.prems(2) by (auto simp: holds_task_def)
    then have "i = k \<Longrightarrow> ts_after now s = s" "i = k \<Longrightarrow> \<not> ts_due now s" by (simp_all add: ts_after_def)
    with skip Suc.hyps(1) [OF step Suc.prems] show ?thesis by (cases "i = k") (auto simp: not_less_eq_eq le_Suc_eq)
  next
    case 3
    then obtain t where t: "ts_task ?c = Some t" "ts_active ?c" by (auto simp: ts_live_def)
    define l1 where "l1 = fold (al_call cap) (cb t now l) l"
    note calls = orderly_calls [OF assms(1) holds Suc.prems(4,5) 3(1), of t now, folded l1_def]
    have run: "al_run_from cap cb now i l = (case al_after_poll now i l1 of None \<Rightarrow> None
        | Some l2 \<Rightarrow> map_option (\<lambda>(l3, polled). (l3, t # polled)) (al_run_from cap cb now (Suc i) l2))"
      using 3 t holds by (subst al_run_from.simps) (auto simp: Let_def ts_due_def holds_task_def l1_def)
    show ?thesis
    proof (cases "i = k")
      case True
      then have s: "ts_due now s" "t = x" using 3 t holds Suc.prems(4) by (auto simp: holds_task_def)
      obtain l2 where l2: "al_after_poll now k l1 = Some l2" "holds_task cap bound x k (ts_after now s) l2" "al_running l2"
        using after_poll_task [OF calls(1) Suc.prems(2,3) s(1) assms(2,3)] calls(2) by auto
      have "ts_live (ts_after now s)" "ts_periodic (ts_after now s)" "ts_task (ts_after now s) = Some x"
        using Suc.prems(2-4) by (auto simp: ts_after_def ts_live_def)
      from Suc.hyps(1) [OF step l2(2) this l2(3)] show ?thesis using True s l2(1) run by auto
    next
      case False
      have "t \<noteq> x" using False 3(1) t holds by (auto simp: holds_task_def)
      have "ts_live (al_tasks l1 ! i) \<longrightarrow> ts_next_due (al_tasks l1 ! i) \<le> now" using calls(4) 3(3) by (auto simp: vacated_def ts_due_def)
      from after_poll_other [OF calls(1,3) False assms(2,3) this] obtain l2 where l2: "al_after_poll now i l1 = Some l2"
        "holds_task cap bound x k s l2" "al_running l2" using calls(2) by auto
      from Suc.hyps(1) [OF step l2(2) Suc.prems(2-4) l2(3)] show ?thesis using False \<open>t \<noteq> x\<close> l2(1) run by (auto simp: not_less_eq_eq le_Suc_eq)
    qed
  qed
qed

lemma nth_around: "j < length (as @ s # bs) \<Longrightarrow> j \<noteq> length as \<Longrightarrow> (as @ s # bs) ! j \<in> set as \<union> set bs"
  by (auto simp: nth_append nth_Cons')

lemma holds_task_compact:
  assumes "holds_task cap bound x k s l" "ts_live s"
  shows "\<exists>k'. holds_task cap bound x k' s (al_compact l)"
proof -
  let ?as = "take k (al_tasks l)" and ?bs = "drop (Suc k) (al_tasks l)"
  have k: "k < length (al_tasks l)" "al_tasks l ! k = s" using assms(1) by (auto simp: holds_task_def)
  have split: "al_tasks l = ?as @ s # ?bs" using id_take_nth_drop [OF k(1)] k(2) by simp
  have other: "ts_task s' \<noteq> Some x" if "s' \<in> set ?as \<union> set ?bs" for s'
    using that assms(1) k by (auto simp: holds_task_def in_set_conv_nth)
  have fits: "slot_fits bound s'" if "s' \<in> set (al_tasks l)" for s' using that assms(1) by (auto simp: holds_task_def in_set_conv_nth)
  let ?k = "length (filter ts_live ?as)"
  have c: "al_tasks (al_compact l) = filter ts_live ?as @ s # filter ts_live ?bs"
    using arg_cong [OF split, of "filter ts_live"] assms(2) by (simp add: al_compact_def)
  have "ts_task (al_tasks (al_compact l) ! j) \<noteq> Some x" if "j < length (al_tasks (al_compact l))" "j \<noteq> ?k" for j
  proof -
    have "al_tasks (al_compact l) ! j \<in> set (filter ts_live ?as) \<union> set (filter ts_live ?bs)"
      using that unfolding c by (rule nth_around)
    then show ?thesis using other by auto
  qed
  moreover have "al_tasks (al_compact l) ! ?k = s" "?k < length (al_tasks (al_compact l))" unfolding c by simp_all
  moreover have "length (al_tasks (al_compact l)) \<le> cap"
    using assms(1) by (auto simp: al_compact_def holds_task_def intro: order_trans [OF length_filter_le])
  moreover have "\<not> al_exit (al_compact l)" using assms(1) by (simp add: al_compact_def holds_task_def)
  moreover have "slot_fits bound (al_tasks (al_compact l) ! j)" if "j < length (al_tasks (al_compact l))" for j
  proof (rule fits)
    have "al_tasks (al_compact l) ! j \<in> set (al_tasks (al_compact l))" using that by (rule nth_mem)
    then show "al_tasks (al_compact l) ! j \<in> set (al_tasks l)" by (simp add: al_compact_def)
  qed
  ultimately show ?thesis unfolding holds_task_def by blast
qed

lemma al_run_once_task:
  assumes "orderly x bound cb" "0 \<le> now" "now + bound < 2 ^ 64"
    and "holds_task cap bound x k s l" "ts_live s" "ts_periodic s" "ts_task s = Some x"
  shows "\<exists>l' polled k'. al_run_once cap cb now l = Some (l', polled) \<and> holds_task cap bound x k' (ts_after now s) l' \<and> (x \<in> set polled \<longleftrightarrow> ts_due now s)"
proof -
  have run: "holds_task cap bound x j u (m\<lparr>al_running := b\<rparr>) = holds_task cap bound x j u m" for j u m b by (simp add: holds_task_def)
  obtain k1 where "holds_task cap bound x k1 s ((al_compact l)\<lparr>al_running := True\<rparr>)" using holds_task_compact [OF assms(4,5)] run by blast
  from al_run_from_task [OF assms(1-3) this assms(5-7), of 0] obtain l1 polled where
    l1: "al_run_from cap cb now 0 ((al_compact l)\<lparr>al_running := True\<rparr>) = Some (l1, polled)" "holds_task cap bound x k1 (ts_after now s) l1"
    "x \<in> set polled \<longleftrightarrow> ts_due now s" by auto
  have "ts_live (ts_after now s)" using assms(5,6) by (auto simp: ts_after_def ts_live_def)
  then have "\<exists>k'. holds_task cap bound x k' (ts_after now s) (al_compact (l1\<lparr>al_running := False\<rparr>))"
    using l1(2) run by (intro holds_task_compact) simp_all
  then show ?thesis using l1(1,3) by (auto simp: al_run_once_def)
qed

text \<open>A point of the grid lies after \<open>lo\<close> and not after \<open>hi\<close>.\<close>

definition grid_hit :: "int \<Rightarrow> int \<Rightarrow> int \<Rightarrow> int \<Rightarrow> bool" where
  "grid_hit p d lo hi \<longleftrightarrow> (\<exists>k \<ge> 0. lo < d + k * p \<and> d + k * p \<le> hi)"

lemma grid_hit_shift:
  assumes "0 < p" "0 \<le> m" "m = 0 \<or> d + m * p - p \<le> lo"
  shows "grid_hit p (d + m * p) lo hi \<longleftrightarrow> grid_hit p d lo hi"
proof
  assume "grid_hit p (d + m * p) lo hi"
  then obtain k where "0 \<le> k" "lo < d + (m + k) * p" "d + (m + k) * p \<le> hi" by (auto simp: grid_hit_def algebra_simps)
  with assms(2) show "grid_hit p d lo hi" by (auto simp: grid_hit_def intro!: exI [of _ "m + k"])
next
  assume "grid_hit p d lo hi"
  then obtain k where k: "0 \<le> k" "lo < d + k * p" "d + k * p \<le> hi" by (auto simp: grid_hit_def)
  have "m \<le> k"
  proof (cases "m = 0")
    case False
    with assms(3) k(2) have "m * p - p < k * p" by simp
    then have "(m - 1) * p < k * p" by (simp add: algebra_simps)
    with assms(1) have "m - 1 < k" by (simp add: mult_less_cancel_right)
    then show ?thesis by simp
  qed (use k in simp)
  moreover have "d + m * p + (k - m) * p = d + k * p" by (simp add: algebra_simps)
  ultimately show "grid_hit p (d + m * p) lo hi" using k by (auto simp: grid_hit_def intro!: exI [of _ "k - m"])
qed

lemma grid_hit_from_start: "0 < p \<Longrightarrow> lo < d \<Longrightarrow> grid_hit p d lo hi \<longleftrightarrow> d \<le> hi"
proof
  assume "0 < p" "lo < d" "grid_hit p d lo hi"
  then obtain k where "0 \<le> k" "d + k * p \<le> hi" by (auto simp: grid_hit_def)
  moreover from this(1) \<open>0 < p\<close> have "0 \<le> k * p" by simp
  ultimately show "d \<le> hi" by simp
qed (auto simp: grid_hit_def intro: exI [of _ 0])

lemma ts_after_grid:
  assumes "0 < ts_period s" "ts_periodic s" "now \<le> lo"
  shows "grid_hit (ts_period s) (ts_next_due (ts_after now s)) lo hi \<longleftrightarrow> grid_hit (ts_period s) (ts_next_due s) lo hi"
proof (cases "ts_due now s")
  case True
  then have "0 \<le> (now - ts_next_due s) div ts_period s + 1"
    using assms(1) pos_imp_zdiv_nonneg_iff [of "ts_period s" "now - ts_next_due s"] by (simp add: ts_due_def)
  moreover have "ts_next_due s + ((now - ts_next_due s) div ts_period s + 1) * ts_period s - ts_period s \<le> lo"
    using next_on_grid_after(2) [OF assms(1), of now "ts_next_due s"] assms(3) unfolding next_on_grid_def by (rule order_trans)
  ultimately have "grid_hit (ts_period s) (next_on_grid (ts_period s) now (ts_next_due s)) lo hi \<longleftrightarrow>
      grid_hit (ts_period s) (ts_next_due s) lo hi"
    unfolding next_on_grid_def using assms(1) by (intro grid_hit_shift) blast+
  with True assms(2) show ?thesis by (simp add: ts_after_def)
qed (simp add: ts_after_def)

definition loop_fits :: "nat \<Rightarrow> int \<Rightarrow> 't arduino_loop \<Rightarrow> bool" where
  "loop_fits cap bound l \<longleftrightarrow> length (al_tasks l) \<le> cap \<and> \<not> al_running l \<and> \<not> al_exit l \<and> distinct (map ts_task (al_tasks l)) \<and>
     (\<forall>s \<in> set (al_tasks l). ts_live s \<and> 0 \<le> ts_next_due s \<and> (ts_periodic s \<longrightarrow> 0 < ts_period s \<and> ts_period s \<le> bound))"

lemma loop_fits_holds:
  assumes "loop_fits cap bound l" "s \<in> set (al_tasks l)" "ts_task s = Some x"
  shows "\<exists>k. holds_task cap bound x k s l"
proof -
  obtain k where k: "k < length (al_tasks l)" "al_tasks l ! k = s" using assms(2) by (auto simp: in_set_conv_nth)
  have "ts_task (al_tasks l ! j) \<noteq> Some x" if "j < length (al_tasks l)" "j \<noteq> k" for j
    using assms(1,3) k that nth_eq_iff_index_eq [of "map ts_task (al_tasks l)" j k] by (auto simp: loop_fits_def)
  then have "holds_task cap bound x k s l" using assms(1) k by (auto simp: holds_task_def loop_fits_def slot_fits_def)
  then show ?thesis by blast
qed

lemma run_forever_on_grid:
  assumes "orderly x bound cb"
  shows "sorted nows \<Longrightarrow> (\<And>t. t \<in> set nows \<Longrightarrow> 0 \<le> t \<and> t + bound < 2 ^ 64) \<Longrightarrow>
    holds_task cap bound x k s l \<Longrightarrow> ts_live s \<Longrightarrow> ts_periodic s \<Longrightarrow> ts_task s = Some x \<Longrightarrow>
    \<exists>l' outs. al_run_forever cap cb nows l = Some (l', outs) \<and> length outs = length nows \<and>
      (\<forall>j < length nows. x \<in> set (outs ! j) \<longleftrightarrow>
         grid_hit (ts_period s) (ts_next_due s) (if j = 0 then ts_next_due s - 1 else nows ! (j - 1)) (nows ! j))"
proof (induction nows arbitrary: l s k)
  case (Cons now nows)
  obtain l1 polled k1 where once: "al_run_once cap cb now l = Some (l1, polled)" "holds_task cap bound x k1 (ts_after now s) l1"
    "x \<in> set polled \<longleftrightarrow> ts_due now s"
    using al_run_once_task [OF assms _ _ Cons.prems(3-6), of now] Cons.prems(2) [of now] by auto
  have p: "0 < ts_period s" using Cons.prems(3,5) by (auto simp: holds_task_def slot_fits_def)
  let ?s = "ts_after now s"
  have s': "ts_live ?s" "ts_periodic ?s" "ts_task ?s = Some x" "ts_period ?s = ts_period s"
    using Cons.prems(4-6) by (auto simp: ts_after_def ts_live_def)
  obtain l' outs where r: "al_run_forever cap cb nows l1 = Some (l', outs)" "length outs = length nows"
    "\<And>j. j < length nows \<Longrightarrow> x \<in> set (outs ! j) \<longleftrightarrow>
       grid_hit (ts_period s) (ts_next_due ?s) (if j = 0 then ts_next_due ?s - 1 else nows ! (j - 1)) (nows ! j)"
    using Cons.IH [OF _ _ once(2) s'(1-3)] Cons.prems(1,2) s'(4) by auto
  have first: "x \<in> set polled \<longleftrightarrow> grid_hit (ts_period s) (ts_next_due s) (ts_next_due s - 1) now"
    by (simp add: once(3) grid_hit_from_start p ts_due_def)
  have later: "x \<in> set (outs ! j) \<longleftrightarrow> grid_hit (ts_period s) (ts_next_due s) ((now # nows) ! j) (nows ! j)"
    if "j < length nows" for j
  proof -
    have "now < ts_next_due ?s" using p Cons.prems(5) next_on_grid_after(1) by (auto simp: ts_after_def ts_due_def)
    then have "x \<in> set (outs ! j) \<longleftrightarrow> grid_hit (ts_period s) (ts_next_due ?s) ((now # nows) ! j) (nows ! j)"
      using r(3) [OF that] p by (cases j) (simp_all add: grid_hit_from_start)
    moreover have "now \<le> (now # nows) ! j" using Cons.prems(1) that by (cases j) auto
    ultimately show ?thesis using ts_after_grid [of s now] p Cons.prems(5) by simp
  qed
  have "al_run_forever cap cb (now # nows) l = Some (l', polled # outs)"
    using once(1) r(1) Cons.prems(3) by (simp add: holds_task_def)
  moreover have "x \<in> set ((polled # outs) ! j) \<longleftrightarrow>
      grid_hit (ts_period s) (ts_next_due s) (if j = 0 then ts_next_due s - 1 else (now # nows) ! (j - 1)) ((now # nows) ! j)"
    if "j < length (now # nows)" for j
    using that first later by (cases j) simp_all
  ultimately show ?case using r(2) by auto
qed simp

text \<open>
  C8: A periodic task runs on its grid, for ever, beside orderly callbacks. Let a task be registered with a period \<open>p\<close> and first due at
  \<open>d\<close>, beside any other tasks, and let the loop run at the clock readings \<open>nows\<close>, in order, far from the end of the 64 bit
  clock. The callbacks, also the task's own, may remove other tasks and may register tasks while no slot is vacated; they do not
  ask for the exit, and do not remove the task or register it again (\<open>orderly\<close>). Then every iteration returns, and in an iteration the task is polled
  exactly if a point \<open>d + k p\<close> lies after the previous reading and not after this one: a late iteration polls it once and the
  phase never drifts. Callbacks that vacate a slot and register in one iteration are excluded: there the array moves under the loop.
\<close>
theorem periodic_task_on_grid:
  assumes "orderly x bound cb" "loop_fits cap bound l" "sorted nows" "\<And>t. t \<in> set nows \<Longrightarrow> 0 \<le> t \<and> t + bound < 2 ^ 64"
    and "s \<in> set (al_tasks l)" "ts_periodic s" "ts_task s = Some x"
  shows "\<exists>l' outs. al_run_forever cap cb nows l = Some (l', outs) \<and> length outs = length nows \<and>
    (\<forall>j < length nows. x \<in> set (outs ! j) \<longleftrightarrow>
       grid_hit (ts_period s) (ts_next_due s) (if j = 0 then ts_next_due s - 1 else nows ! (j - 1)) (nows ! j))"
proof -
  have "ts_live s" using assms(2,5) by (simp add: loop_fits_def)
  moreover obtain k where "holds_task cap bound x k s l" using loop_fits_holds [OF assms(2,5,7)] by blast
  ultimately show ?thesis using run_forever_on_grid [OF assms(1,3,4)] assms(6,7) by blast
qed

definition example_loop :: "nat arduino_loop" where
  "example_loop = snd (al_add_periodic 4 100 7 10 al_init)"

text \<open>The task \<open>7\<close> registers a one-shot at each poll while the array has no gap; the one-shot removes a third task.\<close>

definition example_callbacks :: "nat callbacks" where
  "example_callbacks t now l =
     (if t = 7 \<and> list_all ts_live (al_tasks l) then [AddOneShot 9 0] else if t = 9 then [RemoveTask 8] else [])"

theorem periodic_task_on_grid_witness:
  "\<exists>l' outs. al_run_forever 4 example_callbacks [95, 100, 125, 126, 130] example_loop = Some (l', outs) \<and> length outs = 5 \<and>
    (\<forall>j < 5. 7 \<in> set (outs ! j) \<longleftrightarrow> grid_hit 10 100 (if j = 0 then 100 - 1 else [95, 100, 125, 126, 130] ! (j - 1)) ([95, 100, 125, 126, 130] ! j))"
proof -
  let ?s = "\<lparr>ts_task = Some 7, ts_period = 10, ts_next_due = 100, ts_periodic = True, ts_active = True\<rparr> :: nat task_slot"
  have tasks: "al_tasks example_loop = [?s]" "\<not> al_running example_loop" "\<not> al_exit example_loop"
    by (simp_all add: example_loop_def al_add_periodic_def al_init_def al_compact_def)
  have ord: "orderly 7 10 example_callbacks" by (simp add: orderly_def example_callbacks_def)
  have "\<exists>l' outs. al_run_forever 4 example_callbacks [95, 100, 125, 126, 130] example_loop = Some (l', outs) \<and>
      length outs = length [95, 100, 125, 126, 130 :: int] \<and>
      (\<forall>j < length [95, 100, 125, 126, 130 :: int]. 7 \<in> set (outs ! j) \<longleftrightarrow> grid_hit (ts_period ?s) (ts_next_due ?s)
         (if j = 0 then ts_next_due ?s - 1 else [95, 100, 125, 126, 130] ! (j - 1)) ([95, 100, 125, 126, 130] ! j))"
    by (rule periodic_task_on_grid [OF ord]) (auto simp: loop_fits_def ts_live_def tasks)
  moreover have "length [95, 100, 125, 126, 130 :: int] = 5" by simp
  ultimately show ?thesis by (simp only: task_slot.simps)
qed

section \<open>Handles\<close>

text \<open>The calls an application can make, the polls of the scheduler, and any work of the scheduler of its own.\<close>

inductive el_step :: "'s sched_api \<Rightarrow> ('k, 's) event_loop \<Rightarrow> ('k, 's) event_loop \<Rightarrow> bool" for api where
  repeat: "el_step api st (snd (el_on_repeat_us api period k st))"
| delay: "el_step api st (snd (el_on_delay_us api clock d k st))"
| bytes_ready: "el_step api st (snd (el_on_bytes_ready api fd poll_us k st))"
| pin_event: "el_step api st (snd (el_on_pin_event api fd poll_us k st))"
| remove: "el_step api st (snd (el_remove api h st))"
| set_enabled: "el_step api st (snd (el_set_enabled b h st))"
| poll_begin: "i < length (el_tasks st) \<Longrightarrow> el_step api st (snd (el_poll_begin i st))"
| poll_end: "i < length (el_tasks st) \<Longrightarrow> el_step api st (el_poll_end i c st)"
| scheduler: "el_step api st (st\<lparr>el_sched := s\<rparr>)"

inductive el_steps :: "'s sched_api \<Rightarrow> nat \<Rightarrow> ('k, 's) event_loop \<Rightarrow> ('k, 's) event_loop \<Rightarrow> bool" for api where
  none: "el_steps api 0 st st"
| step: "el_steps api n st st' \<Longrightarrow> el_step api st' st'' \<Longrightarrow> el_steps api (Suc n) st st''"

definition el_inv :: "('k, 's) event_loop \<Rightarrow> bool" where
  "el_inv st \<longleftrightarrow> length (el_generations st) = length (el_tasks st) \<and> length (el_used st) = length (el_tasks st)"

text \<open>A step keeps the invariant and moves the generation of a slot by at most one.\<close>

definition gen_moves :: "('k, 's) event_loop \<Rightarrow> ('k, 's) event_loop \<Rightarrow> bool" where
  "gen_moves st st' \<longleftrightarrow> el_inv st' \<and> length (el_tasks st') = length (el_tasks st) \<and>
     (\<forall>i < length (el_tasks st). el_generations st' ! i = el_generations st ! i \<or> el_generations st' ! i = el_generations st ! i + 1)"

lemma gen_moves_same:
  "el_inv st \<Longrightarrow> length (el_tasks st') = length (el_tasks st) \<Longrightarrow> length (el_used st') = length (el_used st) \<Longrightarrow>
   el_generations st' = el_generations st \<Longrightarrow> gen_moves st st'"
  by (simp add: gen_moves_def el_inv_def)

lemma gen_moves_trans_same:
  "gen_moves st st1 \<Longrightarrow> length (el_tasks st') = length (el_tasks st1) \<Longrightarrow> length (el_used st') = length (el_used st1) \<Longrightarrow>
   el_generations st' = el_generations st1 \<Longrightarrow> gen_moves st st'"
  by (simp add: gen_moves_def el_inv_def)

lemma gen_moves_free: "el_inv st \<Longrightarrow> gen_moves st (el_free_slot i st)"
proof -
  assume "el_inv st"
  moreover have "(el_generations st)[i := el_generations st ! i + 1] ! j \<in> {el_generations st ! j, el_generations st ! j + 1}"
    if "j < length (el_generations st)" for j
    using that by (cases "j = i") simp_all
  ultimately show ?thesis by (auto simp: gen_moves_def el_inv_def el_free_slot_def)
qed

lemma gen_moves_release: "el_inv st \<Longrightarrow> gen_moves st (el_release_registered h st)"
  using gen_moves_same [of st st] gen_moves_free [of st "eh_slot h"] by (simp add: el_release_registered_def)

lemma el_allocate_keeps:
  "el_allocate k st = (h, st') \<Longrightarrow> el_inv st \<Longrightarrow>
   el_inv st' \<and> length (el_tasks st') = length (el_tasks st) \<and> el_generations st' = el_generations st"
  by (auto simp: el_allocate_def el_inv_def Let_def split: option.splits prod.splits if_splits)

lemma gen_moves_register: "el_inv st \<Longrightarrow> gen_moves st (snd (el_register add k st))"
proof -
  assume inv: "el_inv st"
  obtain h st1 where a: "el_allocate k st = (h, st1)" by fastforce
  obtain ok s where ad: "add (eh_slot h) (el_sched st1) = (ok, s)" by fastforce
  note k = el_allocate_keeps [OF a inv]
  have "gen_moves (st1\<lparr>el_sched := s\<rparr>) (el_free_slot (eh_slot h) (st1\<lparr>el_sched := s\<rparr>))"
    using k by (intro gen_moves_free) (auto simp: el_inv_def)
  then have "gen_moves st (el_free_slot (eh_slot h) (st1\<lparr>el_sched := s\<rparr>))"
    using k by (simp add: gen_moves_def)
  moreover have "gen_moves st st1" "gen_moves st (st1\<lparr>el_sched := s\<rparr>)" using k by (auto simp: gen_moves_def el_inv_def)
  ultimately show ?thesis by (simp add: el_register_def a ad Let_def el_release_unregistered_def)
qed

lemma gen_moves_step: "el_step api st st' \<Longrightarrow> el_inv st \<Longrightarrow> gen_moves st st'"
proof (induction rule: el_step.induct)
  case (repeat st period k)
  then show ?case by (simp add: el_on_repeat_us_def gen_moves_register)
next
  case (delay st clock d k)
  then show ?case by (simp add: el_on_delay_us_def Let_def gen_moves_register)
next
  case (bytes_ready st fd poll_us k)
  then show ?case by (simp add: el_on_bytes_ready_def gen_moves_register)
next
  case (pin_event st fd poll_us k)
  then show ?case by (simp add: el_on_pin_event_def gen_moves_register)
next
  case (remove st h)
  obtain ok s where r: "sa_remove api (eh_slot h) (el_sched st) = (ok, s)" by fastforce
  have "gen_moves st (el_release_registered h (st\<lparr>el_sched := s\<rparr>))"
    using gen_moves_release [of "st\<lparr>el_sched := s\<rparr>" h] remove by (simp add: gen_moves_def el_inv_def)
  moreover have "gen_moves st st" "gen_moves st (st\<lparr>el_sched := s\<rparr>)" using remove by (simp_all add: gen_moves_same)
  ultimately show ?case by (simp add: el_remove_def r Let_def)
next
  case (set_enabled st b h)
  then show ?case by (simp add: el_set_enabled_def gen_moves_same)
next
  case (poll_begin i st)
  then show ?case by (simp add: el_poll_begin_def gen_moves_same split: prod.splits)
next
  case (poll_end i st c)
  have "gen_moves st (case c of OneShot h _ \<Rightarrow> el_complete_one_shot h st | _ \<Rightarrow> st)"
    using gen_moves_release [of st] gen_moves_same [of st st] poll_end(2)
    by (cases c) (simp_all add: el_complete_one_shot_def)
  then show ?case by (rule gen_moves_trans_same) (simp_all add: el_poll_end_def Let_def)
next
  case (scheduler st s)
  then show ?case by (simp add: gen_moves_same)
qed

lemma el_steps_generation:
  assumes "el_steps api n st st'" "el_inv st" "i < length (el_tasks st)"
  shows "el_inv st' \<and> length (el_tasks st') = length (el_tasks st) \<and>
    (\<exists>m \<le> n. el_generations st' ! i = el_generations st ! i + of_nat m)"
  using assms
proof (induction rule: el_steps.induct)
  case (step n st st' st'')
  then obtain m where m: "el_inv st'" "length (el_tasks st') = length (el_tasks st)" "m \<le> n"
    "el_generations st' ! i = el_generations st ! i + of_nat m" by auto
  from gen_moves_step [OF step.hyps(2) m(1)] m step.prems(2)
  have "el_inv st''" "length (el_tasks st'') = length (el_tasks st)"
    "el_generations st'' ! i = el_generations st ! i + of_nat m \<or> el_generations st'' ! i = el_generations st ! i + of_nat (Suc m)"
    by (auto simp: gen_moves_def ac_simps)
  with m(3) show ?case by (metis Suc_le_mono le_SucI)
qed (auto intro: exI [of _ 0])

lemma el_remove_generation:
  assumes "el_remove api h st = (True, st1)" "el_inv st"
  shows "eh_slot h < length (el_tasks st1)" "el_inv st1" "el_generations st1 ! eh_slot h = eh_generation h + 1"
    "\<not> el_used st1 ! eh_slot h"
  using assms by (auto simp: el_remove_def el_valid_def el_release_registered_def el_free_slot_def el_inv_def Let_def
      split: if_splits prod.splits)

text \<open>
  C26: A handle dies with its callback. After \<open>remove\<close> succeeded, the handle stays invalid through every sequence of
  fewer than 65535 further steps of the loop (registrations that reuse the slot, removals, polls, completions of
  one-shots, whatever the scheduler answers), so that a stale handle never controls a later callback. The bound is the number of
  values of the 16 bit generation counter.
\<close>
theorem stale_handle_stays_invalid:
  assumes "el_inv st" "el_remove api h st = (True, st1)" "el_steps api n st1 st2" "n < 65535"
  shows "\<not> el_valid h st2"
proof
  note r = el_remove_generation [OF assms(2,1)]
  obtain m where m: "m \<le> n" "el_generations st2 ! eh_slot h = eh_generation h + 1 + of_nat m"
    using el_steps_generation [OF assms(3) r(2,1)] r(3) by auto
  assume "el_valid h st2"
  then have "eh_generation h + 1 + of_nat m = eh_generation h" using m(2) by (simp add: el_valid_def)
  then have "(of_nat (Suc m) :: u16) = 0" by (simp add: add.assoc)
  then have "unat (of_nat (Suc m) :: u16) = 0" by (simp only: unat_0)
  moreover have "Suc m < 65536" using m(1) assms(4) by simp
  ultimately show False by (simp only: unat_of_nat) simp
qed

text \<open>The cooperative scheduler behind the facade: no descriptors, a fixed clock reading.\<close>

definition al_api :: "nat \<Rightarrow> int \<Rightarrow> nat arduino_loop sched_api" where
  "al_api cap clock = \<lparr>sa_add_periodic = al_add_periodic cap clock, sa_add_one_shot = al_add_one_shot cap,
     sa_remove = al_remove, sa_add_readable_fd = None\<rparr>"

definition example_facade :: "(string, nat arduino_loop) event_loop" where
  "example_facade = snd (el_on_repeat_us (al_api 4 0) 1000 ''gps'' (el_init 2 al_init))"

theorem stale_handle_stays_invalid_witness:
  "\<not> el_valid \<lparr>eh_index = Some 0, eh_generation = 0\<rparr>
      (snd (el_on_repeat_us (al_api 4 0) 500 ''ais'' (snd (el_remove (al_api 4 0) \<lparr>eh_index = Some 0, eh_generation = 0\<rparr> example_facade))))"
proof (rule stale_handle_stays_invalid [where n = 1 and api = "al_api 4 0"])
  let ?h = "\<lparr>eh_index = Some 0, eh_generation = 0 :: u16\<rparr>" and ?st = "snd (el_remove (al_api 4 0) \<lparr>eh_index = Some 0, eh_generation = 0\<rparr> example_facade)"
  show "el_inv example_facade" by code_simp
  have "fst (el_remove (al_api 4 0) ?h example_facade)" by code_simp
  then show "el_remove (al_api 4 0) ?h example_facade = (True, ?st)" by (cases "el_remove (al_api 4 0) ?h example_facade") simp
  show "el_steps (al_api 4 0) 1 ?st (snd (el_on_repeat_us (al_api 4 0) 500 ''ais'' ?st))"
    using el_steps.step [OF el_steps.none el_step.repeat] by simp
qed simp

text \<open>
  A callback that removes itself and then registers a new one gets no handle although other slots are free: the
  search stops at its own slot, which is unused but still being invoked.
\<close>

lemma self_removal_blocks_registration:
  "(let st1 = snd (el_poll_begin 0 example_facade);
        st2 = snd (el_remove (al_api 4 0) \<lparr>eh_index = Some 0, eh_generation = 0\<rparr> st1)
    in fst (el_on_repeat_us (al_api 4 0) 500 ''retry'' st2) = invalid_handle \<and> \<not> el_used st2 ! 1)"
  by code_simp

text \<open>
  A callback of the cooperative scheduler that removes an earlier task and registers a new one makes the array move
  under the loop: the one-shot it registered takes the place of its own slot and is
  switched off before it ever ran, and the callback, a one-shot itself, runs a second time.
\<close>

lemma compaction_moves_slots:
  "(let l0 = snd (al_add_one_shot 4 2 10 (snd (al_add_periodic 4 1000 1 50 (al_init :: nat arduino_loop))));
        cb = (\<lambda>t now l. if t = 2 \<and> now = 10 then [RemoveTask 1, AddOneShot 3 20] else [])
    in map_option (\<lambda>(l, outs). (al_tasks l, outs)) (al_run_forever 4 cb [10, 30] l0)) = Some ([], [[2], [2]])"
  by code_simp

section \<open>The contract of a scheduler\<close>

text \<open>
  What the facade relies on: a task that was added is registered, a removal reports whether it was and leaves it
  unregistered, and neither touches other tasks.
\<close>

locale scheduler =
  fixes api :: "'s sched_api"
    and ok :: "'s \<Rightarrow> bool"
    and registered :: "'s \<Rightarrow> nat \<Rightarrow> bool"
  assumes periodic: "ok s \<Longrightarrow> sa_add_periodic api t period s = (b, s') \<Longrightarrow>
      ok s' \<and> (registered s' u \<longleftrightarrow> registered s u \<or> b \<and> u = t)"
    and one_shot: "ok s \<Longrightarrow> sa_add_one_shot api t due s = (b, s') \<Longrightarrow>
      ok s' \<and> (registered s' u \<longleftrightarrow> registered s u \<or> b \<and> u = t)"
    and remove: "ok s \<Longrightarrow> sa_remove api t s = (b, s') \<Longrightarrow>
      ok s' \<and> (b \<longleftrightarrow> registered s t) \<and> (registered s' u \<longleftrightarrow> registered s u \<and> u \<noteq> t)"
begin

lemma register_valid:
  assumes "el_register add k st = (h, st1)" "eh_assigned h" "el_inv st" "ok (el_sched st)"
    and "\<And>i s b s' u. ok s \<Longrightarrow> add i s = (b, s') \<Longrightarrow> ok s' \<and> (registered s' u \<longleftrightarrow> registered s u \<or> b \<and> u = i)"
  shows "el_valid h st1" "registered (el_sched st1) (eh_slot h)" "ok (el_sched st1)"
proof -
  obtain st0 where a: "el_allocate k st = (h, st0)"
    using assms(1,2) by (auto simp: el_register_def eh_assigned_def invalid_handle_def Let_def split: prod.splits if_splits)
  obtain b s' where ad: "add (eh_slot h) (el_sched st0) = (b, s')" by fastforce
  have st1: "b" "st1 = st0\<lparr>el_sched := s'\<rparr>"
    using assms(1,2) by (simp_all add: el_register_def a ad Let_def split: if_splits)
      (auto simp: eh_assigned_def invalid_handle_def)
  have "el_valid h st0" "el_sched st0 = el_sched st"
    using a assms(2,3) index_where_bound [of Not "el_used st"]
    by (auto simp: el_allocate_def el_valid_def el_inv_def eh_assigned_def invalid_handle_def ct_set_def Let_def
        split: option.splits prod.splits if_splits)
  with st1 assms(4) assms(5) [OF _ ad, of "eh_slot h"]
  show "el_valid h st1" "registered (el_sched st1) (eh_slot h)" "ok (el_sched st1)" by (simp_all add: el_valid_def)
qed

lemma remove_unschedules:
  assumes "el_valid h st" "registered (el_sched st) (eh_slot h)" "ok (el_sched st)"
  obtains st' where "el_remove api h st = (True, st')"
    "\<And>u. registered (el_sched st') u \<longleftrightarrow> registered (el_sched st) u \<and> u \<noteq> eh_slot h"
proof -
  obtain b s' where r: "sa_remove api (eh_slot h) (el_sched st) = (b, s')" by fastforce
  note r' = remove [OF assms(3) r]
  have "el_remove api h st = (True, el_free_slot (eh_slot h) (st\<lparr>el_sched := s'\<rparr>))"
    using r' assms(1,2) by (simp add: el_remove_def r el_release_registered_def el_valid_def Let_def)
  then show ?thesis by (rule that) (use r' in \<open>simp_all add: el_free_slot_def\<close>)
qed

end

definition al_ok :: "'t arduino_loop \<Rightarrow> bool" where
  "al_ok l \<longleftrightarrow> (\<forall>s \<in> set (al_tasks l). ts_active s \<longleftrightarrow> ts_task s \<noteq> None)"

definition al_registered :: "'t arduino_loop \<Rightarrow> 't \<Rightarrow> bool" where
  "al_registered l t \<longleftrightarrow> (\<exists>s \<in> set (al_tasks l). ts_task s = Some t)"

lemma al_compact_keeps [simp]:
  "al_ok l \<Longrightarrow> al_ok (al_compact l)" "al_ok l \<Longrightarrow> al_registered (al_compact l) t \<longleftrightarrow> al_registered l t"
  by (auto simp: al_ok_def al_registered_def al_compact_def ts_live_def)

lemma al_add_law:
  "al_ok l \<Longrightarrow> ts_task s = Some t \<Longrightarrow> ts_active s \<Longrightarrow>
   al_ok (l\<lparr>al_tasks := al_tasks l @ [s]\<rparr>) \<and> (al_registered (l\<lparr>al_tasks := al_tasks l @ [s]\<rparr>) u \<longleftrightarrow> al_registered l u \<or> u = t)"
  by (auto simp: al_ok_def al_registered_def)

lemma al_remove_law:
  assumes "al_ok l" "al_remove t l = (b, l')"
  shows "al_ok l' \<and> (b \<longleftrightarrow> al_registered l t) \<and> (al_registered l' u \<longleftrightarrow> al_registered l u \<and> u \<noteq> t)"
proof -
  let ?f = "\<lambda>s. if ts_task s = Some t then s\<lparr>ts_task := None, ts_active := False\<rparr> else s"
  let ?l = "l\<lparr>al_tasks := map ?f (al_tasks l)\<rparr>"
  have ok: "al_ok ?l" using assms(1) by (auto simp: al_ok_def)
  have reg: "al_registered ?l u \<longleftrightarrow> al_registered l u \<and> u \<noteq> t"
    by (auto simp: al_registered_def split: if_splits)
  have "l' = ?l \<or> l' = al_compact ?l" and b: "b \<longleftrightarrow> al_registered l t"
    using assms(2) by (auto simp: al_remove_def Let_def list_ex_iff al_registered_def split: if_splits)
  then show ?thesis
    by (elim disjE) (simp_all only: ok reg b al_compact_keeps [OF ok] simp_thms)
qed

interpretation coop: scheduler "al_api cap clock" al_ok al_registered
proof
  show "al_ok l' \<and> (al_registered l' u \<longleftrightarrow> al_registered l u \<or> b \<and> u = t)"
    if "al_ok l" "sa_add_periodic (al_api cap clock) t period l = (b, l')" for l t period b l' u
    using that al_add_law [of "al_compact l" _ t u]
    by (auto simp: al_api_def al_add_periodic_def Let_def split: if_splits)
  show "al_ok l' \<and> (al_registered l' u \<longleftrightarrow> al_registered l u \<or> b \<and> u = t)"
    if "al_ok l" "sa_add_one_shot (al_api cap clock) t due l = (b, l')" for l t due b l' u
    using that al_add_law [of "al_compact l" _ t u]
    by (auto simp: al_api_def al_add_one_shot_def Let_def split: if_splits)
  show "al_ok l' \<and> (b \<longleftrightarrow> al_registered l t) \<and> (al_registered l' u \<longleftrightarrow> al_registered l u \<and> u \<noteq> t)"
    if "al_ok l" "sa_remove (al_api cap clock) t l = (b, l')" for l t b l' u
    using that al_remove_law by (simp add: al_api_def)
qed

text \<open>
  A registration can always be undone. On the cooperative scheduler, a repeating callback for which the loop
  returned a handle is valid and scheduled; removing the handle succeeds, takes exactly this task out of the
  scheduler, frees the slot and makes the handle invalid.
\<close>
theorem registration_can_be_removed:
  assumes "el_on_repeat_us (al_api cap clock) period k st = (h, st1)" "eh_assigned h" "el_inv st" "al_ok (el_sched st)"
  shows "el_valid h st1 \<and> al_registered (el_sched st1) (eh_slot h) \<and>
    (\<exists>st2. el_remove (al_api cap clock) h st1 = (True, st2) \<and> \<not> el_valid h st2 \<and>
       (\<forall>u. al_registered (el_sched st2) u \<longleftrightarrow> al_registered (el_sched st1) u \<and> u \<noteq> eh_slot h))"
proof -
  have v: "el_valid h st1" "al_registered (el_sched st1) (eh_slot h)" "al_ok (el_sched st1)"
    using coop.register_valid [OF assms(1) [unfolded el_on_repeat_us_def] assms(2-4)] coop.periodic by blast+
  obtain st2 where r: "el_remove (al_api cap clock) h st1 = (True, st2)"
    "\<And>u. al_registered (el_sched st2) u \<longleftrightarrow> al_registered (el_sched st1) u \<and> u \<noteq> eh_slot h"
    using coop.remove_unschedules [OF v] by blast
  have "el_inv st1" using gen_moves_register [OF assms(3)] assms(1) by (metis el_on_repeat_us_def gen_moves_def snd_conv)
  then have "\<not> el_valid h st2" using el_remove_generation(4) [OF r(1)] by (simp add: el_valid_def)
  with v(1,2) r show ?thesis by blast
qed

theorem registration_can_be_removed_witness:
  "el_valid \<lparr>eh_index = Some 0, eh_generation = 0\<rparr> example_facade"
proof -
  have "fst (el_on_repeat_us (al_api 4 0) 1000 ''gps'' (el_init 2 al_init)) = \<lparr>eh_index = Some 0, eh_generation = 0\<rparr>"
    by code_simp
  then have "el_on_repeat_us (al_api 4 0) 1000 ''gps'' (el_init 2 al_init) = (\<lparr>eh_index = Some 0, eh_generation = 0\<rparr>, example_facade)"
    by (simp add: example_facade_def prod_eq_iff)
  from registration_can_be_removed [OF this] show ?thesis
    by (simp add: eh_assigned_def el_inv_def el_init_def al_ok_def al_init_def)
qed

section \<open>The libevent scheduler\<close>

text \<open>
  The bookkeeping of \<^verbatim>\<open>LinuxLibeventLoop\<close> around libevent, which is outside the model: whether it can create and arm an
  event is an argument. An item that was removed is only marked while a callback runs and swept afterwards.
\<close>

definition periodic_timer_next_delay_us :: "int \<Rightarrow> int \<Rightarrow> int \<Rightarrow> int \<times> int" where
  "periodic_timer_next_delay_us next_due period now =
     (let overdue = (if next_due < now then now - next_due else 0)
      in (if overdue < period then period - overdue else 0, (next_due + period) mod 2 ^ 64))"

record 't timer_event =
  te_task :: "'t option"
  te_period :: int
  te_next_due :: int
  te_periodic :: bool
  te_removed :: bool

record 't fd_event =
  fe_task :: "'t option"
  fe_fd :: int
  fe_removed :: bool

record 't libevent_loop =
  ll_base :: bool
  ll_periodic :: "'t timer_event list"
  ll_one_shot :: "'t timer_event list"
  ll_fds :: "'t fd_event list"
  ll_depth :: nat

record event_env =
  ee_new :: bool
  ee_add :: bool

definition ll_init :: "bool \<Rightarrow> 't libevent_loop" where
  "ll_init base = \<lparr>ll_base = base, ll_periodic = [], ll_one_shot = [], ll_fds = [], ll_depth = 0\<rparr>"

definition ll_compact :: "'t libevent_loop \<Rightarrow> 't libevent_loop" where
  "ll_compact l =
     (if ll_depth l \<noteq> 0 then l
      else l\<lparr>ll_periodic := filter (\<lambda>e. \<not> te_removed e) (ll_periodic l),
             ll_one_shot := filter (\<lambda>e. \<not> te_removed e) (ll_one_shot l), ll_fds := filter (\<lambda>e. \<not> fe_removed e) (ll_fds l)\<rparr>)"

definition ll_add_periodic :: "event_env \<Rightarrow> int \<Rightarrow> 't \<Rightarrow> int \<Rightarrow> 't libevent_loop \<Rightarrow> bool \<times> 't libevent_loop" where
  "ll_add_periodic env clock task period l0 =
     (let l = ll_compact l0 in
      if \<not> ll_base l \<or> period = 0 then (False, l)
      else if \<not> ee_new env then (False, l)
      else if \<not> ee_add env then (False, l)
      else (True, l\<lparr>ll_periodic := ll_periodic l @ [\<lparr>te_task = Some task, te_period = period,
              te_next_due = (clock + period) mod 2 ^ 64, te_periodic = True, te_removed = False\<rparr>]\<rparr>))"

definition ll_add_one_shot :: "event_env \<Rightarrow> 't \<Rightarrow> int \<Rightarrow> 't libevent_loop \<Rightarrow> bool \<times> 't libevent_loop" where
  "ll_add_one_shot env task due l0 =
     (let l = ll_compact l0 in
      if \<not> ll_base l then (False, l)
      else if \<not> ee_new env then (False, l)
      else if \<not> ee_add env then (False, l)
      else (True, l\<lparr>ll_one_shot := ll_one_shot l @ [\<lparr>te_task = Some task, te_period = 0, te_next_due = due,
              te_periodic = False, te_removed = False\<rparr>]\<rparr>))"

definition ll_add_readable_fd :: "event_env \<Rightarrow> int \<Rightarrow> 't \<Rightarrow> 't libevent_loop \<Rightarrow> bool \<times> 't libevent_loop" where
  "ll_add_readable_fd env fd task l0 =
     (let l = ll_compact l0 in
      if \<not> ll_base l \<or> fd < 0 then (False, l)
      else if \<not> ee_new env then (False, l)
      else if \<not> ee_add env then (False, l)
      else (True, l\<lparr>ll_fds := ll_fds l @ [\<lparr>fe_task = Some task, fe_fd = fd, fe_removed = False\<rparr>]\<rparr>))"

definition te_mark :: "'t \<Rightarrow> 't timer_event \<Rightarrow> 't timer_event" where
  "te_mark task e = (if te_task e = Some task then e\<lparr>te_removed := True, te_task := None\<rparr> else e)"

definition fe_mark :: "'t \<Rightarrow> 't fd_event \<Rightarrow> 't fd_event" where
  "fe_mark task e = (if fe_task e = Some task then e\<lparr>fe_removed := True, fe_task := None\<rparr> else e)"

definition ll_registered :: "'t libevent_loop \<Rightarrow> 't \<Rightarrow> bool" where
  "ll_registered l t \<longleftrightarrow> list_ex (\<lambda>e. te_task e = Some t) (ll_periodic l) \<or> list_ex (\<lambda>e. te_task e = Some t) (ll_one_shot l) \<or>
     list_ex (\<lambda>e. fe_task e = Some t) (ll_fds l)"

definition ll_remove :: "'t \<Rightarrow> 't libevent_loop \<Rightarrow> bool \<times> 't libevent_loop" where
  "ll_remove task l =
     (let removed = ll_registered l task;
          l1 = l\<lparr>ll_periodic := map (te_mark task) (ll_periodic l), ll_one_shot := map (te_mark task) (ll_one_shot l),
                 ll_fds := map (fe_mark task) (ll_fds l)\<rparr>
      in (removed, ll_compact l1))"

definition ll_remove_fd :: "int \<Rightarrow> 't \<Rightarrow> 't libevent_loop \<Rightarrow> bool \<times> 't libevent_loop" where
  "ll_remove_fd fd task l =
     (let hit = (\<lambda>e. fe_fd e = fd \<and> fe_task e = Some task)
      in (list_ex hit (ll_fds l),
          ll_compact (l\<lparr>ll_fds := map (\<lambda>e. if hit e then e\<lparr>fe_removed := True, fe_task := None\<rparr> else e) (ll_fds l)\<rparr>)))"

text \<open>
  The timer callback of an item of one of the two lists: the task that is polled with the state during the poll, and
  the state after it, with the delay the event is armed with.
\<close>

definition ll_timers :: "bool \<Rightarrow> 't libevent_loop \<Rightarrow> 't timer_event list" where
  "ll_timers periodic l = (if periodic then ll_periodic l else ll_one_shot l)"

definition ll_set_timer :: "bool \<Rightarrow> nat \<Rightarrow> 't timer_event \<Rightarrow> 't libevent_loop \<Rightarrow> 't libevent_loop" where
  "ll_set_timer periodic i e l =
     (if periodic then l\<lparr>ll_periodic := (ll_periodic l)[i := e]\<rparr> else l\<lparr>ll_one_shot := (ll_one_shot l)[i := e]\<rparr>)"

definition ll_timer_begin :: "bool \<Rightarrow> nat \<Rightarrow> 't libevent_loop \<Rightarrow> ('t \<times> 't libevent_loop) option" where
  "ll_timer_begin periodic i l =
     (let e = ll_timers periodic l ! i in
      if te_removed e then None else map_option (\<lambda>t. (t, l\<lparr>ll_depth := ll_depth l + 1\<rparr>)) (te_task e))"

definition ll_timer_end :: "int \<Rightarrow> bool \<Rightarrow> nat \<Rightarrow> 't libevent_loop \<Rightarrow> int option \<times> 't libevent_loop" where
  "ll_timer_end now periodic i l0 =
     (let l = l0\<lparr>ll_depth := ll_depth l0 - 1\<rparr>; e = ll_timers periodic l ! i in
      if \<not> te_removed e \<and> te_periodic e then
        (case periodic_timer_next_delay_us (te_next_due e) (te_period e) now of
           (delay, due) \<Rightarrow> (Some delay, ll_compact (ll_set_timer periodic i (e\<lparr>te_next_due := due\<rparr>) l)))
      else if \<not> te_periodic e then (None, ll_compact (ll_set_timer periodic i (e\<lparr>te_removed := True, te_task := None\<rparr>) l))
      else (None, ll_compact l))"

definition ll_fd_begin :: "nat \<Rightarrow> 't libevent_loop \<Rightarrow> ('t \<times> 't libevent_loop) option" where
  "ll_fd_begin i l =
     (let e = ll_fds l ! i in
      if fe_removed e then None else map_option (\<lambda>t. (t, l\<lparr>ll_depth := ll_depth l + 1\<rparr>)) (fe_task e))"

definition ll_fd_end :: "'t libevent_loop \<Rightarrow> 't libevent_loop" where
  "ll_fd_end l = ll_compact (l\<lparr>ll_depth := ll_depth l - 1\<rparr>)"

definition ll_api :: "event_env \<Rightarrow> int \<Rightarrow> nat libevent_loop sched_api" where
  "ll_api env clock = \<lparr>sa_add_periodic = ll_add_periodic env clock, sa_add_one_shot = ll_add_one_shot env,
     sa_remove = ll_remove, sa_add_readable_fd = Some (ll_add_readable_fd env)\<rparr>"

definition ll_ok :: "'t libevent_loop \<Rightarrow> bool" where
  "ll_ok l \<longleftrightarrow> list_all (\<lambda>e. te_removed e = (te_task e = None)) (ll_periodic l) \<and>
     list_all (\<lambda>e. te_removed e = (te_task e = None)) (ll_one_shot l) \<and> list_all (\<lambda>e. fe_removed e = (fe_task e = None)) (ll_fds l)"

lemma ll_compact_keeps: "ll_ok l \<Longrightarrow> ll_ok (ll_compact l) \<and> (ll_registered (ll_compact l) t \<longleftrightarrow> ll_registered l t)"
  by (auto simp: ll_ok_def ll_registered_def ll_compact_def list_all_iff list_ex_iff)

text \<open>While a callback runs, a removal leaves every item at its place: no reference into the lists moves.\<close>

lemma ll_remove_in_callback:
  assumes "ll_depth l \<noteq> 0" "ll_remove t l = (b, l')"
  shows "length (ll_periodic l') = length (ll_periodic l) \<and> length (ll_one_shot l') = length (ll_one_shot l) \<and>
    length (ll_fds l') = length (ll_fds l)"
  using assms by (auto simp: ll_remove_def ll_compact_def Let_def)

lemma ll_remove_law:
  assumes "ll_ok l" "ll_remove t l = (b, l')"
  shows "ll_ok l' \<and> (b \<longleftrightarrow> ll_registered l t) \<and> (ll_registered l' u \<longleftrightarrow> ll_registered l u \<and> u \<noteq> t)"
proof -
  let ?l = "l\<lparr>ll_periodic := map (te_mark t) (ll_periodic l), ll_one_shot := map (te_mark t) (ll_one_shot l), ll_fds := map (fe_mark t) (ll_fds l)\<rparr>"
  have ok: "ll_ok ?l" using assms(1) by (auto simp: ll_ok_def list_all_iff te_mark_def fe_mark_def)
  have mark: "te_task (te_mark t e) = Some u \<longleftrightarrow> te_task e = Some u \<and> u \<noteq> t" "fe_task (fe_mark t f) = Some u \<longleftrightarrow> fe_task f = Some u \<and> u \<noteq> t" for e f
    by (auto simp: te_mark_def fe_mark_def)
  have "ll_registered ?l u \<longleftrightarrow> ll_registered l u \<and> u \<noteq> t" by (auto simp: ll_registered_def list_ex_iff mark)
  with assms(2) ll_compact_keeps [OF ok, of u] show ?thesis by (auto simp: ll_remove_def Let_def)
qed

interpretation libev: scheduler "ll_api env clock" ll_ok ll_registered
proof
  show "ll_ok l' \<and> (ll_registered l' u \<longleftrightarrow> ll_registered l u \<or> b \<and> u = t)"
    if "ll_ok l" "sa_add_periodic (ll_api env clock) t period l = (b, l')" for l t period b l' u
    using that(2) ll_compact_keeps [OF that(1), of u]
    by (auto simp: ll_api_def ll_add_periodic_def Let_def ll_ok_def ll_registered_def split: if_splits)
  show "ll_ok l' \<and> (ll_registered l' u \<longleftrightarrow> ll_registered l u \<or> b \<and> u = t)"
    if "ll_ok l" "sa_add_one_shot (ll_api env clock) t due l = (b, l')" for l t due b l' u
    using that(2) ll_compact_keeps [OF that(1), of u]
    by (auto simp: ll_api_def ll_add_one_shot_def Let_def ll_ok_def ll_registered_def split: if_splits)
  show "ll_ok l' \<and> (b \<longleftrightarrow> ll_registered l t) \<and> (ll_registered l' u \<longleftrightarrow> ll_registered l u \<and> u \<noteq> t)"
    if "ll_ok l" "sa_remove (ll_api env clock) t l = (b, l')" for l t b l' u
    using that ll_remove_law by (simp add: ll_api_def)
qed

end
