(* ===== verification/Seatalk.thy ===== *)
theory Seatalk
  imports Nmea_Multipart
begin

text \<open>
  SeaTalk datagrams: frames and the octet receiver (\<^verbatim>\<open>seatalk_frame.hpp\<close>), the frames of pilot keys and of raw values
  (\<^verbatim>\<open>seatalk_tx.hpp\<close>), and SeaTalk carried in NMEA sentences, as the transmitter writes it (\<^verbatim>\<open>nmea_tx_connector.hpp\<close>) and
  the receiver reads it (\<^verbatim>\<open>nmea_seatalk.hpp\<close>). The rounding of floating point values to raw integers is outside the
  model: the frame builders get the raw integer. What a decoded frame does to the data model is a parameter.
\<close>

unbundle bit_operations_syntax

section \<open>Frames\<close>

abbreviation SEATALK_FRAME_MAX_BYTES :: nat where "SEATALK_FRAME_MAX_BYTES \<equiv> 20"

type_synonym seatalk_frame = "u8 list"

definition frame_command :: "seatalk_frame \<Rightarrow> u8" where
  "frame_command f = (if 0 < length f then f ! 0 else 0)"

definition frame_attribute :: "seatalk_frame \<Rightarrow> u8" where
  "frame_attribute f = (if 1 < length f then f ! 1 else 0)"

definition frame_data_length :: "seatalk_frame \<Rightarrow> nat" where
  "frame_data_length f = (if 3 \<le> length f then length f - 2 else 0)"

definition expected_seatalk_frame_length :: "u8 \<Rightarrow> nat" where
  "expected_seatalk_frame_length attribute = unat (attribute AND 0x0F) + 3"

definition seatalk_frame_from_bytes :: "u8 list \<Rightarrow> seatalk_frame option" where
  "seatalk_frame_from_bytes bs =
     (if length bs < 3 \<or> SEATALK_FRAME_MAX_BYTES < length bs then None
      else if length bs \<noteq> expected_seatalk_frame_length (bs ! 1) then None
      else Some bs)"

section \<open>The octet receiver\<close>

record seatalk_rx =
  rx_buffer :: "u8 list"
  rx_expected :: nat
  rx_bad_frames :: u32

definition rx_init :: seatalk_rx where
  "rx_init = \<lparr>rx_buffer = [], rx_expected = 0, rx_bad_frames = 0\<rparr>"

definition rx_reset :: "seatalk_rx \<Rightarrow> seatalk_rx" where
  "rx_reset r = r\<lparr>rx_buffer := [], rx_expected := 0\<rparr>"

definition rx_bad :: "seatalk_rx \<Rightarrow> seatalk_rx" where
  "rx_bad r = r\<lparr>rx_bad_frames := rx_bad_frames r + 1\<rparr>"

definition feed_byte :: "seatalk_rx \<Rightarrow> u8 \<Rightarrow> seatalk_rx \<times> seatalk_frame option" where
  "feed_byte r0 b =
     (let r1 = (if SEATALK_FRAME_MAX_BYTES \<le> length (rx_buffer r0) then rx_reset (rx_bad r0) else r0);
          r2 = r1\<lparr>rx_buffer := rx_buffer r1 @ [b]\<rparr>;
          r3 = (if length (rx_buffer r2) = 2 then r2\<lparr>rx_expected := expected_seatalk_frame_length (rx_buffer r2 ! 1)\<rparr> else r2)
      in if length (rx_buffer r3) = 2 \<and> (rx_expected r3 < 3 \<or> SEATALK_FRAME_MAX_BYTES < rx_expected r3)
         then (rx_reset (rx_bad r3), None)
         else if rx_expected r3 \<noteq> 0 \<and> length (rx_buffer r3) = rx_expected r3
         then (case seatalk_frame_from_bytes (rx_buffer r3) of
                 None \<Rightarrow> (rx_reset (rx_bad r3), None)
               | Some f \<Rightarrow> (rx_reset r3, Some f))
         else (r3, None))"

definition rx_step :: "seatalk_rx \<Rightarrow> u8 \<Rightarrow> seatalk_rx \<times> seatalk_frame list" where
  "rx_step r b = (case feed_byte r b of (r', None) \<Rightarrow> (r', []) | (r', Some f) \<Rightarrow> (r', [f]))"

section \<open>The receiver\<close>

text \<open>
  Counters and the hand-over of frames. \<open>dec\<close> stands for the decoder and the update of the data model: \<open>Some m\<close> is
  the model after a frame that was decoded and applied.
\<close>

record 'm seatalk_receiver =
  sr_state :: seatalk_rx
  sr_decoded_count :: u32
  sr_unsupported_count :: u32
  sr_model :: 'm

definition sr_apply_frame :: "(seatalk_frame \<Rightarrow> 'm \<Rightarrow> 'm option) \<Rightarrow> seatalk_frame \<Rightarrow> 'm seatalk_receiver \<Rightarrow> bool \<times> 'm seatalk_receiver" where
  "sr_apply_frame dec f r =
     (case dec f (sr_model r) of
        None \<Rightarrow> (True, r\<lparr>sr_unsupported_count := sr_unsupported_count r + 1\<rparr>)
      | Some m \<Rightarrow> (True, r\<lparr>sr_decoded_count := sr_decoded_count r + 1, sr_model := m\<rparr>))"

definition sr_accept_datagram :: "(seatalk_frame \<Rightarrow> 'm \<Rightarrow> 'm option) \<Rightarrow> u8 list \<Rightarrow> 'm seatalk_receiver \<Rightarrow> bool \<times> 'm seatalk_receiver" where
  "sr_accept_datagram dec bs r =
     (case seatalk_frame_from_bytes bs of
        None \<Rightarrow> (False, r\<lparr>sr_state := rx_bad (sr_state r)\<rparr>)
      | Some f \<Rightarrow> sr_apply_frame dec f r)"

definition sr_accept_octet :: "(seatalk_frame \<Rightarrow> 'm \<Rightarrow> 'm option) \<Rightarrow> u8 \<Rightarrow> 'm seatalk_receiver \<Rightarrow> bool \<times> 'm seatalk_receiver" where
  "sr_accept_octet dec b r =
     (case feed_byte (sr_state r) b of
        (s, None) \<Rightarrow> (True, r\<lparr>sr_state := s\<rparr>)
      | (s, Some f) \<Rightarrow> sr_apply_frame dec f (r\<lparr>sr_state := s\<rparr>))"

fun sr_accept_octets :: "(seatalk_frame \<Rightarrow> 'm \<Rightarrow> 'm option) \<Rightarrow> u8 list \<Rightarrow> 'm seatalk_receiver \<Rightarrow> bool \<times> 'm seatalk_receiver" where
  "sr_accept_octets dec [] r = (True, r)"
| "sr_accept_octets dec (b # bs) r =
     (case sr_accept_octet dec b r of (ok, r1) \<Rightarrow>
        case sr_accept_octets dec bs r1 of (ok', r2) \<Rightarrow> (ok \<and> ok', r2))"

section \<open>Building frames\<close>

definition seatalk_tx_set :: "u8 list \<Rightarrow> seatalk_frame option" where
  "seatalk_tx_set bs =
     (if length bs < 3 \<or> SEATALK_FRAME_MAX_BYTES < length bs then None
      else if expected_seatalk_frame_length (bs ! 1) \<noteq> length bs then None
      else Some bs)"

definition seatalk_tx_copy_bytes :: "seatalk_frame \<Rightarrow> nat \<Rightarrow> u8 list option" where
  "seatalk_tx_copy_bytes f out_size = (if length f = 0 \<or> out_size < length f then None else Some f)"

definition lo8 :: "u16 \<Rightarrow> u8" where "lo8 w = ucast (w AND 0xFF)"
definition hi8 :: "u16 \<Rightarrow> u8" where "hi8 w = ucast (drop_bit 8 w AND 0xFF)"

definition make_depth_raw :: "u16 \<Rightarrow> bool \<Rightarrow> seatalk_frame option" where
  "make_depth_raw raw alarm = seatalk_tx_set [0x00, 0x02, if alarm then 0x80 else 0x00, lo8 raw, hi8 raw]"

definition make_wind_angle_raw :: "u16 \<Rightarrow> seatalk_frame option" where
  "make_wind_angle_raw raw = seatalk_tx_set [0x10, 0x01, hi8 raw, lo8 raw]"

definition make_wind_speed_raw :: "u8 \<Rightarrow> u8 \<Rightarrow> seatalk_frame option" where
  "make_wind_speed_raw whole tenth =
     (let (w, t) = (if 10 \<le> tenth then (if whole < 127 then whole + 1 else whole, 0) else (whole, tenth))
      in seatalk_tx_set [0x11, 0x01, w, t])"

definition make_water_speed_raw :: "u16 \<Rightarrow> seatalk_frame option" where
  "make_water_speed_raw raw = seatalk_tx_set [0x20, 0x01, lo8 raw, hi8 raw]"

definition make_ground_speed_raw :: "u16 \<Rightarrow> seatalk_frame option" where
  "make_ground_speed_raw raw = seatalk_tx_set [0x52, 0x01, lo8 raw, hi8 raw]"

definition make_pilot_key :: "u8 \<Rightarrow> bool \<Rightarrow> seatalk_frame option" where
  "make_pilot_key key long_press =
     (let code0 = key AND 0x3F; code = (if long_press then code0 OR 0x40 else code0)
      in seatalk_tx_set [0x86, 0x01, code, 0xFF - code])"

text \<open>The pilot key part of the decoder: the code, long press, and whether the complement is wrong.\<close>

definition decode_pilot_key :: "seatalk_frame \<Rightarrow> (u8 \<times> bool \<times> bool) option" where
  "decode_pilot_key f =
     (if frame_command f \<noteq> 0x86 \<or> length f < 4 then None
      else Some (f ! 2 AND 0x3F, f ! 2 AND 0x40 \<noteq> 0, f ! 3 \<noteq> 0xFF - f ! 2))"

section \<open>SeaTalk in NMEA sentences\<close>

definition format_seatalk_frame_hex :: "nat \<Rightarrow> seatalk_frame \<Rightarrow> string" where
  "format_seatalk_frame_hex out_size f =
     (if out_size \<le> 2 * length f \<or> f = [] then []
      else concat (map (\<lambda>b. [to_hex (drop_bit 4 b), to_hex b]) f))"

definition make_seatalk_frame :: "nat \<Rightarrow> seatalk_frame \<Rightarrow> string" where
  "make_seatalk_frame out_size f =
     (let hex = format_seatalk_frame_hex 48 f in
      if hex = [] then [] else make_sentence out_size (take 63 (''STALK,'' @ hex)) (CHR ''$''))"

definition seatalk_hex_separator :: "char \<Rightarrow> bool" where
  "seatalk_hex_separator c \<longleftrightarrow> c \<in> {CHR '' '', CHR '':'', CHR ''-'', CHR ''_'', CHR ''.'', CHR '';'', CHR ''|''}"

text \<open>The loop over a span: the octets so far and the pending high nibble.\<close>

fun append_hex :: "nat \<Rightarrow> string \<Rightarrow> nat option \<Rightarrow> u8 list \<Rightarrow> u8 list option" where
  "append_hex capacity [] high bs = (if high = None then Some bs else None)"
| "append_hex capacity (c # cs) high bs =
     (if seatalk_hex_separator c then append_hex capacity cs high bs
      else if c = CHR ''x'' \<or> c = CHR ''X'' then (if high = Some 0 then append_hex capacity cs None bs else None)
      else if 15 < from_hex c then None
      else (case high of
              None \<Rightarrow> append_hex capacity cs (Some (from_hex c)) bs
            | Some h \<Rightarrow>
                if capacity \<le> length bs then None
                else append_hex capacity cs None (bs @ [of_nat (h * 16 + from_hex c)])))"

definition append_seatalk_hex_span :: "nat \<Rightarrow> span \<Rightarrow> u8 list \<Rightarrow> u8 list option" where
  "append_seatalk_hex_span capacity s bs = append_hex capacity s None bs"

definition parse_seatalk_payload_text :: "nat \<Rightarrow> string \<Rightarrow> u8 list option" where
  "parse_seatalk_payload_text capacity t =
     (if length t = 0 \<or> 255 < length t then None
      else (case append_seatalk_hex_span capacity t [] of Some bs \<Rightarrow> if bs = [] then None else Some bs | None \<Rightarrow> None))"

fun append_fields :: "nat \<Rightarrow> span list \<Rightarrow> u8 list \<Rightarrow> u8 list option" where
  "append_fields capacity [] bs = Some bs"
| "append_fields capacity (f # fs) bs =
     (case append_seatalk_hex_span capacity f bs of None \<Rightarrow> None | Some bs' \<Rightarrow> append_fields capacity fs bs')"

definition parse_seatalk_payload_fields :: "nat \<Rightarrow> nmea_sentence \<Rightarrow> u8 list option" where
  "parse_seatalk_payload_fields capacity s =
     (if ns_fields s = [] then None
      else (case append_fields capacity (ns_fields s) [] of Some bs \<Rightarrow> if bs = [] then None else Some bs | None \<Rightarrow> None))"

datatype carried_error = CarriedOverflow | CarriedBadPayload | CarriedBadFrame

definition apply_seatalk_carried ::
  "(seatalk_frame \<Rightarrow> 'm \<Rightarrow> 'm option) \<Rightarrow> nmea_sentence \<Rightarrow> message_state \<Rightarrow> 'm seatalk_receiver \<Rightarrow> carried_error option \<times> 'm seatalk_receiver" where
  "apply_seatalk_carried dec s st r =
     (let accept = (\<lambda>bs. case sr_accept_datagram dec bs r of (ok, r1) \<Rightarrow> (if ok then None else Some CarriedBadFrame, r1)) in
      if fg_is_fragmented (ns_fragment s) then
        (if \<not> mr_complete (ms_seatalk st) then (None, r)
         else if mr_overflow (ms_seatalk st) then (Some CarriedOverflow, r)
         else (case parse_seatalk_payload_text SEATALK_FRAME_MAX_BYTES (mr_text (ms_seatalk st)) of
                 None \<Rightarrow> (Some CarriedBadPayload, r) | Some bs \<Rightarrow> accept bs))
      else (case parse_seatalk_payload_fields SEATALK_FRAME_MAX_BYTES s of
              None \<Rightarrow> (Some CarriedBadPayload, r) | Some bs \<Rightarrow> accept bs))"

section \<open>Streams of frames\<close>

definition frame_ok :: "seatalk_frame \<Rightarrow> bool" where
  "frame_ok f \<longleftrightarrow> 3 \<le> length f \<and> length f = expected_seatalk_frame_length (f ! 1)"

definition rx_inv :: "seatalk_rx \<Rightarrow> bool" where
  "rx_inv r \<longleftrightarrow> (if length (rx_buffer r) < 2 then rx_expected r = 0
     else rx_expected r = expected_seatalk_frame_length (rx_buffer r ! 1) \<and> length (rx_buffer r) < rx_expected r)"

definition rx_ready :: "seatalk_rx \<Rightarrow> bool" where
  "rx_ready r \<longleftrightarrow> rx_buffer r = [] \<and> rx_expected r = 0"

lemma expected_bounds: "3 \<le> expected_seatalk_frame_length a" "expected_seatalk_frame_length a \<le> 18"
proof -
  have "a AND 0x0F = take_bit 4 a" by (simp add: take_bit_eq_mask mask_eq_exp_minus_1)
  then have "unat (a AND 0x0F) < 16" using take_bit_nat_less_exp [of 4 "unat a"] by (simp add: unsigned_take_bit_eq)
  then show "3 \<le> expected_seatalk_frame_length a" "expected_seatalk_frame_length a \<le> 18"
    by (simp_all add: expected_seatalk_frame_length_def)
qed

lemma frame_from_bytes_ok: "frame_ok f \<Longrightarrow> seatalk_frame_from_bytes f = Some f"
  using expected_bounds [of "f ! 1"] by (simp add: frame_ok_def seatalk_frame_from_bytes_def)

lemma rx_inv_short: "rx_inv r \<Longrightarrow> length (rx_buffer r) < 18"
  using expected_bounds(2) [of "rx_buffer r ! 1"] by (auto simp: rx_inv_def split: if_splits)

text \<open>One octet, from a state of the invariant: the length rule decides whether the frame is finished.\<close>

lemma feed_byte_inv:
  assumes "rx_inv r" and buf_def: "buf = rx_buffer r @ [b]"
  shows "feed_byte r b =
    (if 2 \<le> length buf \<and> length buf = expected_seatalk_frame_length (buf ! 1) then (rx_reset r, Some buf)
     else (r\<lparr>rx_buffer := buf, rx_expected := (if 2 \<le> length buf then expected_seatalk_frame_length (buf ! 1) else 0)\<rparr>, None))"
proof -
  have short: "\<not> 20 \<le> length (rx_buffer r)" using rx_inv_short [OF assms(1)] by simp
  note e = expected_bounds [of "buf ! 1"]
  consider "length (rx_buffer r) = 0" | "length (rx_buffer r) = 1" | "2 \<le> length (rx_buffer r)" by linarith
  then show ?thesis
  proof cases
    case 1
    with assms(1) short show ?thesis by (simp add: feed_byte_def rx_inv_def buf_def Let_def)
  next
    case 2
    with assms(1) short e show ?thesis by (auto simp: feed_byte_def rx_inv_def buf_def Let_def nth_append)
  next
    case 3
    then have "rx_expected r = expected_seatalk_frame_length (buf ! 1)" "buf ! 1 = rx_buffer r ! 1"
      using assms(1) by (auto simp: rx_inv_def buf_def nth_append)
    moreover have "frame_ok buf" if "length buf = expected_seatalk_frame_length (buf ! 1)"
      using that 3 by (simp add: frame_ok_def buf_def)
    ultimately show ?thesis
      using 3 short e frame_from_bytes_ok [of buf]
      by (auto simp: feed_byte_def buf_def Let_def rx_reset_def)
  qed
qed

lemma rx_inv_step: "rx_inv r \<Longrightarrow> rx_inv (fst (rx_step r b))"
proof -
  assume inv: "rx_inv r"
  let ?buf = "rx_buffer r @ [b]"
  have "length ?buf < expected_seatalk_frame_length (?buf ! 1)"
    if "2 \<le> length ?buf" "length ?buf \<noteq> expected_seatalk_frame_length (?buf ! 1)"
    using inv that expected_bounds(1) [of "?buf ! 1"] by (cases "length (rx_buffer r) = 1") (auto simp: rx_inv_def nth_append not_le less_Suc_eq split: if_splits)
  then show ?thesis
    using feed_byte_inv [OF inv refl, of b] by (auto simp: rx_step_def rx_inv_def rx_reset_def not_le)
qed

lemma feed_frame_prefix:
  assumes "frame_ok f" "rx_ready r" "k < length f"
  shows "feed rx_step r (take k f) =
    (r\<lparr>rx_buffer := take k f, rx_expected := (if 2 \<le> k then length f else 0)\<rparr>, [])"
  using assms(3)
proof (induction k)
  case 0
  then show ?case using assms(2) by (simp add: rx_ready_def)
next
  case (Suc k)
  let ?r = "r\<lparr>rx_buffer := take k f, rx_expected := (if 2 \<le> k then length f else 0)\<rparr>"
  have f: "3 \<le> length f" "expected_seatalk_frame_length (f ! 1) = length f" using assms(1) by (simp_all add: frame_ok_def)
  have "rx_inv ?r" using Suc.prems f by (auto simp: rx_inv_def)
  moreover have "take k f @ [f ! k] = take (Suc k) f" using Suc.prems by (simp add: take_Suc_conv_app_nth)
  ultimately have "rx_step ?r (f ! k) = (r\<lparr>rx_buffer := take (Suc k) f, rx_expected := (if 2 \<le> Suc k then length f else 0)\<rparr>, [])"
    using feed_byte_inv [of ?r "take (Suc k) f" "f ! k"] Suc.prems f by (auto simp: rx_step_def)
  with Suc.IH Suc.prems show ?case
    by (simp add: take_Suc_conv_app_nth feed_append)
qed

lemma feed_frame:
  assumes "frame_ok f" "rx_ready r"
  shows "feed rx_step r f = (r, [f])"
proof -
  obtain k where k: "length f = Suc k" "2 \<le> k" using assms(1) by (cases "length f") (auto simp: frame_ok_def)
  let ?r = "r\<lparr>rx_buffer := take k f, rx_expected := length f\<rparr>"
  have f: "expected_seatalk_frame_length (f ! 1) = length f" using assms(1) by (simp add: frame_ok_def)
  have split: "f = take k f @ [f ! k]" using k(1) by (metis lessI take_Suc_conv_app_nth take_all order_refl)
  have "rx_inv ?r" using k f by (auto simp: rx_inv_def)
  from feed_byte_inv [OF this, of f "f ! k"] split [symmetric] k f assms(2)
  have "rx_step ?r (f ! k) = (r, [f])" by (simp add: rx_step_def rx_reset_def rx_ready_def)
  moreover have "feed rx_step r (take k f) = (?r, [])" using feed_frame_prefix [OF assms, of k] k by simp
  ultimately have "feed rx_step r (take k f @ [f ! k]) = (r, [f])" by (simp add: feed_append)
  then show ?thesis by (simp only: split [symmetric])
qed

interpretation stalk: framer rx_step rx_inv rx_ready "\<lambda>f. f" frame_ok
  by unfold_locales (use rx_inv_step feed_frame in auto)

text \<open>
  SeaTalk datagrams survive the serial line. From a receiver that is between two datagrams, the octets of any
  sequence of well-formed datagrams (length as the attribute octet says), cut into reads at any place, come
  out as exactly these datagrams in order.
\<close>
theorem seatalk_stream_round_trip:
  assumes "rx_inv r" "rx_ready r" "\<And>f. f \<in> set fs \<Longrightarrow> frame_ok f" "concat chunks = concat fs"
  shows "snd (foldl (\<lambda>(r, out) chunk. let (r', out') = feed rx_step r chunk in (r', out @ out')) (r, []) chunks) = fs"
  using stalk.stream_chunked [of r fs chunks] assms by simp

theorem seatalk_stream_round_trip_witness:
  "snd (foldl (\<lambda>(r, out) chunk. let (r', out') = feed rx_step r chunk in (r', out @ out')) (rx_init, [])
     [[0x86, 0x01, 0x02], [0xFD, 0x00], [0x02, 0x00, 0x64, 0x00]]) = [[0x86, 0x01, 0x02, 0xFD], [0x00, 0x02, 0x00, 0x64, 0x00]]"
  by (rule seatalk_stream_round_trip)
    (auto simp: rx_inv_def rx_ready_def rx_init_def frame_ok_def expected_seatalk_frame_length_def)

section \<open>SeaTalk in sentences: from the frame to the model\<close>

lemma hex_digits_payload:
  "list_all (\<lambda>k. from_hex (''0123456789ABCDEF'' ! k) = k \<and> \<not> seatalk_hex_separator (''0123456789ABCDEF'' ! k) \<and>
     ''0123456789ABCDEF'' ! k \<notin> {CHR ''x'', CHR ''X'', CHR '',''}) [0..<16]"
  by code_simp

lemma payload_digit:
  assumes "k < 16"
  shows "from_hex (''0123456789ABCDEF'' ! k) = k" "\<not> seatalk_hex_separator (''0123456789ABCDEF'' ! k)"
    "''0123456789ABCDEF'' ! k \<notin> {CHR ''x'', CHR ''X'', CHR '',''}"
  using assms hex_digits_payload by (simp_all only: list_all_iff set_upt) auto

definition hex_text :: "u8 list \<Rightarrow> string" where
  "hex_text f = concat (map (\<lambda>b. [to_hex (drop_bit 4 b), to_hex b]) f)"

lemma append_hex_octet:
  assumes "length bs < capacity"
  shows "append_hex capacity (to_hex (drop_bit 4 b) # to_hex b # cs) None bs = append_hex capacity cs None (bs @ [b])"
proof -
  have b: "unat b < 256" using unsigned_less [of b] by simp
  have "unat b div 16 < 16" "unat b mod 16 < 16" using b less_mult_imp_div_less [of "unat b" 16 16] by simp_all
  note d = this
  note hi = payload_digit [OF d(1), folded to_hex_nibbles(1)] and lo = payload_digit [OF d(2), folded to_hex_nibbles(2)]
  have "\<not> 15 < unat b div 16" "\<not> 15 < unat b mod 16" using d by linarith+
  moreover have "(of_nat (unat b div 16 * 16 + unat b mod 16) :: u8) = b" by (simp only: div_mult_mod_eq) simp
  ultimately show ?thesis using hi lo assms by simp
qed

lemma append_hex_text: "length bs + length f \<le> capacity \<Longrightarrow> append_hex capacity (hex_text f) None bs = Some (bs @ f)"
proof (induction f arbitrary: bs)
  case (Cons b f)
  have "hex_text (b # f) = to_hex (drop_bit 4 b) # to_hex b # hex_text f" by (simp add: hex_text_def)
  moreover have "append_hex capacity (to_hex (drop_bit 4 b) # to_hex b # hex_text f) None bs = append_hex capacity (hex_text f) None (bs @ [b])"
    by (rule append_hex_octet) (use Cons.prems in simp)
  moreover have "append_hex capacity (hex_text f) None (bs @ [b]) = Some ((bs @ [b]) @ f)"
    by (rule Cons.IH) (use Cons.prems in simp)
  ultimately show ?case by (simp only: append_assoc append_Cons append_Nil)
qed (simp add: hex_text_def)

lemma hex_text_length: "length (hex_text f) = 2 * length f"
  by (induction f) (simp_all add: hex_text_def)

lemma to_hex_no_comma: "to_hex v \<noteq> CHR '',''"
  unfolding to_hex_nibbles(2) using payload_digit(3) [of "unat v mod 16"] by simp

lemma hex_text_plain: "c \<in> set (hex_text f) \<Longrightarrow> c \<notin> {CHR ''$'', CHR ''!'', CHR ''*'', CHR '','', CR, LF, NUL}"
  using to_hex_plain to_hex_no_comma by (auto simp: hex_text_def)

definition seatalk_body :: "seatalk_frame \<Rightarrow> string" where
  "seatalk_body f = ''STALK,'' @ hex_text f"

lemma frame_ok_length: "frame_ok f \<Longrightarrow> 3 \<le> length f \<and> length f \<le> 18"
  using expected_bounds [of "f ! 1"] by (simp add: frame_ok_def)

lemma make_seatalk_frame_body:
  "frame_ok f \<Longrightarrow> make_seatalk_frame n f = make_sentence n (seatalk_body f) (CHR ''$'')"
  using frame_ok_length [of f] hex_text_length [of f]
  by (auto simp: make_seatalk_frame_def format_seatalk_frame_hex_def seatalk_body_def hex_text_def Let_def)

lemma seatalk_body_plain: "frame_ok f \<Longrightarrow> plain_body (seatalk_body f)"
  using frame_ok_length [of f] hex_text_plain [of _ f]
  by (auto simp: plain_body_def seatalk_body_def hex_text_length list_all_iff)

text \<open>The parser's reading of such a sentence: one field, not a fragment, of the SeaTalk family.\<close>

lemma build_seatalk:
  assumes "frame_ok f"
  obtains s where "build_sentence (nmea_line (CHR ''$'') (seatalk_body f) cs) True = Inr s"
    "ns_fields s = [hex_text f]" "ns_family s = FamSeaTalk" "\<not> fg_is_fragmented (ns_fragment s)"
proof -
  let ?b = "seatalk_body f" and ?l = "nmea_line (CHR ''$'') (seatalk_body f) cs"
  note len = frame_ok_length [OF assms] hex_text_length [of f]
  have raw: "take (NMEA_MAX_SENTENCE_LEN - 1) ?l = ?l"
    by (rule take_all) (use len in \<open>simp add: nmea_line_def seatalk_body_def\<close>)
  have b: "takeWhile (\<lambda>c. c \<noteq> CHR ''*'') (tl ?l) = ?b"
    using plain_bodyD(3) [OF seatalk_body_plain [OF assms]] by (simp add: nmea_line_def takeWhile_star)
  have short: "\<not> (length ?b < 5 \<or> length ?l < 1 + length ?b)" "mk_span ?b = ?b"
    using len by (simp_all add: nmea_line_def seatalk_body_def mk_span_def)
  have hd: "hd ?l = CHR ''$''" "?b ! 4 = CHR ''K''" "CHR '','' \<in> set ?b" by (simp_all add: nmea_line_def seatalk_body_def)
  have head: "take 2 ?b = ''ST''" "take 3 (drop 2 ?b) = ''ALK''" "nmea_span_starts_with ?b ''STALK''"
    by (simp_all add: seatalk_body_def nmea_span_starts_with_def)
  have "CHR '','' \<notin> set (hex_text f)" using hex_text_plain by blast
  then have all: "takeWhile (\<lambda>c. c \<noteq> CHR '','') (hex_text f) = hex_text f"
    by (auto simp: takeWhile_eq_all_conv)
  have "take 255 (takeWhile (\<lambda>c. c \<noteq> CHR '','') (hex_text f)) = hex_text f"
    unfolding all by (rule take_all) (use len in simp)
  then have split: "split_fields NMEA_MAX_FIELDS (tl (dropWhile (\<lambda>c. c \<noteq> CHR '','') ?b)) = [hex_text f]"
    using \<open>CHR '','' \<notin> set (hex_text f)\<close> by (simp add: seatalk_body_def split_fields.simps mk_span_def)
  show ?thesis
    by (rule that, unfold build_sentence_def, simp only: raw b Let_def short hd if_False if_True head split)
      (auto simp: sentence_clear_def fragment_init_def classify_nmea_sentence_def nmea_is_query_sentence_def
        nmea_is_ais_sentence_def nmea_is_seatalk_sentence_def nmea_detect_fragment_info_def sentence_is_def nmea_span_equals_def
        nmea_set_fragment_info_def head)
qed

text \<open>
  C10: SeaTalk carried over NMEA 0183 arrives. Whatever state the sentence parser is in, the text that the transmitter
  writes for a well-formed datagram makes it hand over exactly one sentence; it is of the SeaTalk family, and applying it
  gives the receiver the datagram itself, as if it had come from the SeaTalk line: it is decoded once, no error is
  reported and no octet of the serial receiver is touched.
\<close>
theorem seatalk_over_nmea:
  assumes "frame_ok f" "194 \<le> n"
  shows "\<exists>s. snd (feed np_step p (make_seatalk_frame n f)) = [s] \<and> ns_family s = FamSeaTalk \<and>
    apply_seatalk_carried dec s st r = (None, snd (sr_apply_frame dec f r))"
proof -
  let ?b = "seatalk_body f"
  obtain s where s: "build_sentence (nmea_line (CHR ''$'') ?b (nmea_checksum ?b)) True = Inr s"
    "ns_fields s = [hex_text f]" "ns_family s = FamSeaTalk" "\<not> fg_is_fragmented (ns_fragment s)"
    using build_seatalk [OF assms(1)] .
  have "length ?b \<le> 187" using plain_bodyD(2) [OF seatalk_body_plain [OF assms(1)]] .
  then have wire: "make_seatalk_frame n f = nmea_line (CHR ''$'') ?b (nmea_checksum ?b) @ [CR, LF]"
    using assms(2) make_seatalk_frame_body [OF assms(1)] make_sentence_line [of ?b n] by simp
  have "snd (feed np_step p (make_seatalk_frame n f)) = [s]"
    unfolding wire feed_sentence [OF _ seatalk_body_plain [OF assms(1)], of "CHR ''$''", simplified] by (simp add: s(1))
  moreover have "parse_seatalk_payload_fields SEATALK_FRAME_MAX_BYTES s = Some f"
    using append_hex_text [of "[]" f 20] frame_ok_length [OF assms(1)] s(2)
    by (auto simp: parse_seatalk_payload_fields_def append_seatalk_hex_span_def)
  then have "apply_seatalk_carried dec s st r = (None, snd (sr_apply_frame dec f r))"
    using s(4) frame_from_bytes_ok [OF assms(1)]
    by (auto simp: apply_seatalk_carried_def sr_accept_datagram_def sr_apply_frame_def Let_def split: option.splits)
  ultimately show ?thesis using s(3) by blast
qed

theorem seatalk_over_nmea_witness:
  "\<exists>s. snd (feed np_step np_init (make_seatalk_frame 200 [0x86, 0x01, 0x02, 0xFD])) = [s] \<and> ns_family s = FamSeaTalk \<and>
    apply_seatalk_carried (\<lambda>f m. Some (f # m)) s message_state_init
      \<lparr>sr_state = rx_init, sr_decoded_count = 0, sr_unsupported_count = 0, sr_model = []\<rparr> =
    (None, snd (sr_apply_frame (\<lambda>f m. Some (f # m)) [0x86, 0x01, 0x02, 0xFD]
      \<lparr>sr_state = rx_init, sr_decoded_count = 0, sr_unsupported_count = 0, sr_model = []\<rparr>))"
  by (rule seatalk_over_nmea) (simp_all add: frame_ok_def expected_seatalk_frame_length_def)

text \<open>A pilot key survives: the code is six bits, the long press is the bit above, the complement is consistent.\<close>

lemma pilot_key_round_trip:
  "\<exists>f. make_pilot_key key lp = Some f \<and> frame_ok f \<and> decode_pilot_key f = Some (key AND 0x3F, lp, False)"
proof -
  let ?code = "if lp then key AND 0x3F OR 0x40 else key AND 0x3F"
  have "?code AND 0x3F = key AND 0x3F" "?code AND 0x40 \<noteq> 0 \<longleftrightarrow> lp"
    by (simp_all add: bit.conj_disj_distrib2 and.assoc)
  then show ?thesis
    by (simp add: make_pilot_key_def seatalk_tx_set_def expected_seatalk_frame_length_def frame_ok_def
      decode_pilot_key_def frame_command_def Let_def)
qed

end
