(* ===== verification/Json_Writer.thy ===== *)
theory Json_Writer
  imports Prelude
begin

text \<open>
  The bounded JSON writer (\<^verbatim>\<open>signalk_json_stream_writer.hpp\<close>, buffer mode) and the delta frame built with it
  (\<^verbatim>\<open>SignalKDeltaFrame\<close> of \<^verbatim>\<open>publisher.hpp\<close>). A C string is the list of its characters before the terminator. The text of a
  floating point number (\<^verbatim>\<open>snprintf\<close> with \<^verbatim>\<open>%g\<close>) and the serialization of an ArduinoJson value are arguments.
\<close>

section \<open>The writer\<close>

record json_writer =
  jw_text :: string
  jw_capacity :: nat
  jw_ok :: bool

type_synonym jw_op = "json_writer \<Rightarrow> bool \<times> json_writer"

definition jw_init :: "nat \<Rightarrow> json_writer" where
  "jw_init capacity = \<lparr>jw_text = [], jw_capacity = capacity, jw_ok = (0 < capacity)\<rparr>"

definition jw_size :: "json_writer \<Rightarrow> nat" where
  "jw_size w = (if jw_ok w then length (jw_text w) else 0)"

definition jw_rewind :: "nat \<Rightarrow> jw_op" where
  "jw_rewind mark w =
     (if jw_capacity w \<le> mark \<or> length (jw_text w) < mark then (False, w)
      else (True, w\<lparr>jw_text := take mark (jw_text w), jw_ok := True\<rparr>))"

definition jw_fail :: jw_op where
  "jw_fail w = (False, w\<lparr>jw_ok := False\<rparr>)"

definition append_bytes :: "string \<Rightarrow> jw_op" where
  "append_bytes data w =
     (if \<not> jw_ok w then (False, w)
      else if data = [] then (True, w)
      else if jw_capacity w \<le> length (jw_text w) + length data then jw_fail w
      else (True, w\<lparr>jw_text := jw_text w @ data\<rparr>))"

text \<open>A chain \<^verbatim>\<open>a && b && ...\<close> of writing calls.\<close>

fun jw_all :: "jw_op list \<Rightarrow> jw_op" where
  "jw_all [] w = (True, w)"
| "jw_all (f # fs) w = (case f w of (True, w') \<Rightarrow> jw_all fs w' | (False, w') \<Rightarrow> (False, w'))"

declare jw_all.simps [simp del]

definition append_raw :: "string \<Rightarrow> jw_op" where
  "append_raw s = append_bytes s"

definition append_char :: "char \<Rightarrow> jw_op" where
  "append_char c = append_bytes [c]"

definition hex_lower :: "nat \<Rightarrow> char" where
  "hex_lower k = ''0123456789abcdef'' ! (k mod 16)"

abbreviation DQ :: char where "DQ \<equiv> CHR 0x22"
abbreviation BSLASH :: char where "BSLASH \<equiv> CHR 0x5C"

definition escape_char :: "char \<Rightarrow> string" where
  "escape_char c =
     (if c = DQ then [BSLASH, DQ]
      else if c = BSLASH then [BSLASH, BSLASH]
      else if c = CHR 0x08 then [BSLASH, CHR ''b'']
      else if c = CHR 0x0C then [BSLASH, CHR ''f'']
      else if c = CHR 0x0A then [BSLASH, CHR ''n'']
      else if c = CHR 0x0D then [BSLASH, CHR ''r'']
      else if c = CHR 0x09 then [BSLASH, CHR ''t'']
      else if of_char c < (32 :: nat)
      then [BSLASH, CHR ''u'', CHR ''0'', CHR ''0'', hex_lower (of_char c div 16), hex_lower (of_char c)]
      else [c])"

text \<open>At most \<open>len\<close> characters of the text, up to its terminator.\<close>

definition append_quoted_len :: "string \<Rightarrow> nat \<Rightarrow> jw_op" where
  "append_quoted_len s len =
     jw_all ([append_char DQ] @ map (\<lambda>c. append_raw (escape_char c)) (takeWhile (\<lambda>c. c \<noteq> NUL) (take len s)) @ [append_char DQ])"

definition append_quoted :: "string \<Rightarrow> jw_op" where
  "append_quoted s = append_quoted_len s (length s)"

definition append_bool :: "bool \<Rightarrow> jw_op" where
  "append_bool b = append_raw (if b then ''true'' else ''false'')"

text \<open>A value of ArduinoJson, by its serialized text.\<close>

definition append_json :: "string \<Rightarrow> jw_op" where
  "append_json text_of_value w =
     (if \<not> jw_ok w then (False, w)
      else if jw_capacity w = 0 \<or> jw_capacity w \<le> length (jw_text w) + length text_of_value then jw_fail w
      else (True, w\<lparr>jw_text := jw_text w @ text_of_value\<rparr>))"

text \<open>The text \<^verbatim>\<open>snprintf\<close> gives for a number; it has to fit 31 characters.\<close>

definition append_real :: "string \<Rightarrow> jw_op" where
  "append_real printed w =
     (if printed = [] \<or> 32 \<le> length printed then jw_fail w else append_bytes printed w)"

definition finish_crlf :: jw_op where
  "finish_crlf = append_raw [CR, LF]"

datatype mapped_kind = KindNone | KindNumber | KindBool | KindText | KindObject

definition signalk_json_write_scalar_value :: "mapped_kind \<Rightarrow> string \<Rightarrow> bool \<Rightarrow> string \<Rightarrow> jw_op" where
  "signalk_json_write_scalar_value kind number boolean s w =
     (case kind of
        KindNumber \<Rightarrow> append_real number w
      | KindBool \<Rightarrow> append_bool boolean w
      | KindText \<Rightarrow> append_quoted s w
      | _ \<Rightarrow> (False, w))"

text \<open>A number with a coordinate is written at the precision of the coordinate.\<close>

definition signalk_json_write_mapped_scalar :: "mapped_kind \<Rightarrow> string option \<Rightarrow> string \<Rightarrow> bool \<Rightarrow> string \<Rightarrow> jw_op" where
  "signalk_json_write_mapped_scalar kind coordinate number boolean s =
     (case coordinate of
        Some c \<Rightarrow> if kind = KindNumber then append_real c else signalk_json_write_scalar_value kind number boolean s
      | None \<Rightarrow> signalk_json_write_scalar_value kind number boolean s)"

text \<open>A delta with one value in a buffer of its own: the text written, or nothing.\<close>

definition signalk_write_scalar_delta ::
  "nat \<Rightarrow> string \<Rightarrow> string \<Rightarrow> string \<Rightarrow> string \<Rightarrow> mapped_kind \<Rightarrow> string \<Rightarrow> bool \<Rightarrow> string \<Rightarrow> string" where
  "signalk_write_scalar_delta dst_size ctx timestamp source_label path kind number boolean s =
     (case jw_all
        [append_raw ''{\"context\":'', append_quoted ctx, append_raw '',\"updates\":[{\"timestamp\":'', append_quoted timestamp,
         append_raw '',\"source\":{\"label\":'', append_quoted source_label, append_raw ''},\"values\":[{\"path\":'', append_quoted path,
         append_raw '',\"value\":'', signalk_json_write_scalar_value kind number boolean s, append_raw ''}]}]}'', finish_crlf]
        (jw_init dst_size) of
        (True, w) \<Rightarrow> if jw_ok w then jw_text w else []
      | (False, _) \<Rightarrow> [])"

section \<open>Delta frames\<close>

datatype add_result = Added | Full | TooLarge

record delta_frame =
  df_out :: json_writer
  df_header_len :: nat
  df_last_mark :: nat
  df_count :: nat
  df_open :: bool

definition Trailer :: string where "Trailer = '']}]}'' @ [CR, LF]"

definition df_init :: "nat \<Rightarrow> delta_frame" where
  "df_init capacity = \<lparr>df_out = jw_init (if length Trailer < capacity then capacity - length Trailer else 0),
     df_header_len = 0, df_last_mark = 0, df_count = 0, df_open = False\<rparr>"

definition df_begin :: "string \<Rightarrow> string \<Rightarrow> string \<Rightarrow> delta_frame \<Rightarrow> bool \<times> delta_frame" where
  "df_begin ctx timestamp source_label f =
     (let out0 = snd (jw_rewind 0 (df_out f));
          (ok, out1) = jw_all
            [append_raw ''{\"context\":'', append_quoted ctx, append_raw '',\"updates\":[{\"timestamp\":'', append_quoted timestamp,
             append_raw '',\"source\":{\"label\":'', append_quoted source_label, append_raw ''},\"values\":[''] out0;
          opened = (ok \<and> jw_ok out1)
      in (opened, f\<lparr>df_out := out1, df_open := opened, df_header_len := (if opened then jw_size out1 else 0), df_count := 0\<rparr>))"

definition df_reopen :: "delta_frame \<Rightarrow> delta_frame" where
  "df_reopen f =
     (if df_header_len f = 0 then f
      else (case jw_rewind (df_header_len f) (df_out f) of
              (False, _) \<Rightarrow> f
            | (True, out) \<Rightarrow> f\<lparr>df_out := out, df_open := True, df_count := 0\<rparr>))"

definition df_add :: "string \<Rightarrow> jw_op \<Rightarrow> delta_frame \<Rightarrow> add_result \<times> delta_frame" where
  "df_add path write_value f =
     (let at = jw_size (df_out f);
          (ok, out) = jw_all ((if df_count f = 0 then [] else [append_char (CHR '','')]) @
            [append_raw ''{\"path\":'', append_quoted path, append_raw '',\"value\":'', write_value, append_char (CHR ''}'')]) (df_out f)
      in if ok \<and> jw_ok out then (Added, f\<lparr>df_out := out, df_last_mark := at, df_count := df_count f + 1\<rparr>)
         else (if df_count f = 0 then TooLarge else Full, f\<lparr>df_out := snd (jw_rewind at out)\<rparr>))"

definition df_undo_last :: "delta_frame \<Rightarrow> delta_frame" where
  "df_undo_last f =
     (if df_count f = 0 then f
      else (case jw_rewind (df_last_mark f) (df_out f) of
              (False, _) \<Rightarrow> f
            | (True, out) \<Rightarrow> f\<lparr>df_out := out, df_count := df_count f - 1\<rparr>))"

text \<open>The text in the buffer with its trailer; empty where there is nothing to send.\<close>

definition df_finish :: "delta_frame \<Rightarrow> string \<times> delta_frame" where
  "df_finish f =
     ((if df_open f \<and> df_count f \<noteq> 0 then take (jw_size (df_out f)) (jw_text (df_out f)) @ Trailer else []),
      f\<lparr>df_open := False\<rparr>)"

section \<open>What a chain of writes puts into the buffer\<close>

text \<open>An operation that writes a fixed text or fails because it does not fit.\<close>

definition emits :: "jw_op \<Rightarrow> string \<Rightarrow> bool" where
  "emits f s \<longleftrightarrow> (\<forall>w. jw_ok w \<longrightarrow> length (jw_text w) < jw_capacity w \<longrightarrow>
     (if length (jw_text w) + length s < jw_capacity w then f w = (True, w\<lparr>jw_text := jw_text w @ s\<rparr>)
      else \<exists>t. f w = (False, w\<lparr>jw_text := jw_text w @ t, jw_ok := False\<rparr>) \<and> length (jw_text w) + length t < jw_capacity w))"

lemma emitsD1:
  "emits f s \<Longrightarrow> jw_ok w \<Longrightarrow> length (jw_text w) + length s < jw_capacity w \<Longrightarrow> f w = (True, w\<lparr>jw_text := jw_text w @ s\<rparr>)"
  by (simp add: emits_def)

lemma emitsD2:
  assumes "emits f s" "jw_ok w" "length (jw_text w) < jw_capacity w" "jw_capacity w \<le> length (jw_text w) + length s"
  obtains t where "f w = (False, w\<lparr>jw_text := jw_text w @ t, jw_ok := False\<rparr>)" "length (jw_text w) + length t < jw_capacity w"
proof -
  have "\<not> length (jw_text w) + length s < jw_capacity w" using assms(4) by simp
  moreover note assms(1) [unfolded emits_def, rule_format, OF assms(2,3)]
  ultimately show thesis using that by auto
qed

lemma emits_bytes [intro]: "emits (append_bytes s) s"
proof -
  have "w\<lparr>jw_ok := False\<rparr> = w\<lparr>jw_text := jw_text w @ [], jw_ok := False\<rparr>" for w :: json_writer by simp
  then show ?thesis
    by (auto simp: emits_def append_bytes_def jw_fail_def intro!: exI [of _ "[]"])
qed

lemma emits_raw [intro]: "emits (append_raw s) s"
  unfolding append_raw_def by (rule emits_bytes)

lemma emits_char [intro]: "emits (append_char c) [c]"
  unfolding append_char_def by (rule emits_bytes)

lemma emits_json [intro]: "emits (append_json s) s"
  by (auto simp: emits_def append_json_def jw_fail_def intro!: exI [of _ "[]"])

lemma emits_bool [intro]: "emits (append_bool b) (if b then ''true'' else ''false'')"
  unfolding append_bool_def by (rule emits_raw)

lemma emits_real: "s \<noteq> [] \<Longrightarrow> length s < 32 \<Longrightarrow> emits (append_real s) s"
  using emits_bytes [of s] by (simp add: emits_def append_real_def)

lemma emits_seq:
  assumes "emits f s" "emits (jw_all fs) t"
  shows "emits (jw_all (f # fs)) (s @ t)"
  unfolding emits_def
proof (intro allI impI)
  fix w :: json_writer assume w: "jw_ok w" "length (jw_text w) < jw_capacity w"
  let ?w = "w\<lparr>jw_text := jw_text w @ s\<rparr>"
  show "if length (jw_text w) + length (s @ t) < jw_capacity w then jw_all (f # fs) w = (True, w\<lparr>jw_text := jw_text w @ s @ t\<rparr>)
    else \<exists>u. jw_all (f # fs) w = (False, w\<lparr>jw_text := jw_text w @ u, jw_ok := False\<rparr>) \<and> length (jw_text w) + length u < jw_capacity w"
  proof (cases "length (jw_text w) + length s < jw_capacity w")
    case True
    have f: "f w = (True, ?w)" using emitsD1 [OF assms(1) w(1) True] .
    show ?thesis
    proof (cases "length (jw_text w) + length (s @ t) < jw_capacity w")
      case fits: True
      then show ?thesis using emitsD1 [OF assms(2), of ?w] w f by (simp add: jw_all.simps)
    next
      case False
      obtain u where "jw_all fs ?w = (False, ?w\<lparr>jw_text := jw_text ?w @ u, jw_ok := False\<rparr>)"
        "length (jw_text ?w) + length u < jw_capacity ?w"
        using emitsD2 [OF assms(2), of ?w] w True False by auto
      then show ?thesis using f False by (auto simp: jw_all.simps intro!: exI [of _ "s @ u"])
    qed
  next
    case False
    obtain u where "f w = (False, w\<lparr>jw_text := jw_text w @ u, jw_ok := False\<rparr>)" "length (jw_text w) + length u < jw_capacity w"
      using emitsD2 [OF assms(1) w] False by auto
    with False show ?thesis by (auto simp: jw_all.simps)
  qed
qed

lemma emits_nil: "emits (jw_all []) []"
  by (simp add: emits_def jw_all.simps)

lemma emits_all: "list_all2 emits fs ss \<Longrightarrow> emits (jw_all fs) (concat ss)"
proof (induction rule: list_all2_induct)
  case Nil
  show ?case using emits_nil by (simp only: concat.simps)
next
  case (Cons f fs s ss)
  then show ?case using emits_seq [of f s fs "concat ss"] by simp
qed

definition quoted :: "string \<Rightarrow> string" where
  "quoted s = [DQ] @ concat (map escape_char (takeWhile (\<lambda>c. c \<noteq> NUL) s)) @ [DQ]"

lemma emits_quoted_len [intro]: "emits (append_quoted_len s len) (quoted (take len s))"
proof -
  let ?cs = "takeWhile (\<lambda>c. c \<noteq> NUL) (take len s)"
  have "list_all2 emits (map (\<lambda>c. append_raw (escape_char c)) ?cs) (map escape_char ?cs)"
    by (auto simp: list_all2_conv_all_nth)
  then have "list_all2 emits ([append_char DQ] @ map (\<lambda>c. append_raw (escape_char c)) ?cs @ [append_char DQ]) ([[DQ]] @ map escape_char ?cs @ [[DQ]])"
    by (intro list_all2_appendI) auto
  from emits_all [OF this] show ?thesis by (simp add: append_quoted_len_def quoted_def)
qed

lemma emits_quoted [intro]: "emits (append_quoted s) (quoted s)"
  using emits_quoted_len [of s "length s"] by (simp add: append_quoted_def)

section \<open>Delta frames hold complete deltas\<close>

fun join :: "string list \<Rightarrow> string" where
  "join [] = []"
| "join (e # es) = e @ concat (map (\<lambda>x. CHR '','' # x) es)"

lemma join_snoc: "join (es @ [e]) = (if es = [] then e else join es @ CHR '','' # e)"
  by (cases es) auto

definition entry :: "string \<Rightarrow> string \<Rightarrow> string" where
  "entry path v = ''{\"path\":'' @ quoted path @ '',\"value\":'' @ v @ ''}''"

definition delta_header :: "string \<Rightarrow> string \<Rightarrow> string \<Rightarrow> string" where
  "delta_header ctx timestamp source_label =
     ''{\"context\":'' @ quoted ctx @ '',\"updates\":[{\"timestamp\":'' @ quoted timestamp @
     '',\"source\":{\"label\":'' @ quoted source_label @ ''},\"values\":[''"

definition df_ready :: "nat \<Rightarrow> delta_frame \<Rightarrow> bool" where
  "df_ready cap f \<longleftrightarrow> jw_capacity (df_out f) = cap \<and> (0 < cap \<longrightarrow> length (jw_text (df_out f)) < cap) \<and> (cap = 0 \<longrightarrow> \<not> jw_ok (df_out f))"

definition df_holds :: "nat \<Rightarrow> string \<Rightarrow> string list \<Rightarrow> delta_frame \<Rightarrow> bool" where
  "df_holds cap h es f \<longleftrightarrow> df_open f \<and> jw_ok (df_out f) \<and> jw_capacity (df_out f) = cap \<and> jw_text (df_out f) = h @ join es \<and>
     length (h @ join es) < cap \<and> h \<noteq> [] \<and> df_header_len f = length h \<and> df_count f = length es"

lemma df_holds_ready: "df_holds cap h es f \<Longrightarrow> df_ready cap f"
  by (auto simp: df_holds_def df_ready_def)

lemma emits_header:
  "emits (jw_all [append_raw ''{\"context\":'', append_quoted c, append_raw '',\"updates\":[{\"timestamp\":'', append_quoted t,
     append_raw '',\"source\":{\"label\":'', append_quoted l, append_raw ''},\"values\":['']) (delta_header c t l)"
proof -
  have "list_all2 emits [append_raw ''{\"context\":'', append_quoted c, append_raw '',\"updates\":[{\"timestamp\":'', append_quoted t,
      append_raw '',\"source\":{\"label\":'', append_quoted l, append_raw ''},\"values\":['']
    [''{\"context\":'', quoted c, '',\"updates\":[{\"timestamp\":'', quoted t, '',\"source\":{\"label\":'', quoted l, ''},\"values\":['']"
    by (intro list_all2_Cons [THEN iffD2] conjI list_all2_Nil [THEN iffD2] emits_raw emits_quoted) simp
  from emits_all [OF this] show ?thesis by (simp add: delta_header_def)
qed

lemma emits_entry:
  assumes "emits wv v" and "pre = [] \<or> pre = [append_char (CHR '','')]"
  shows "emits (jw_all (pre @ [append_raw ''{\"path\":'', append_quoted p, append_raw '',\"value\":'', wv, append_char (CHR ''}'')]))
    ((if pre = [] then [] else [CHR '','']) @ entry p v)"
proof -
  have "list_all2 emits [append_raw ''{\"path\":'', append_quoted p, append_raw '',\"value\":'', wv, append_char (CHR ''}'')]
    [''{\"path\":'', quoted p, '',\"value\":'', v, ''}'']"
    using assms(1) by (auto simp: list_all2_Cons1)
  note e = emits_all [OF this]
  from assms(2) show ?thesis
  proof
    assume "pre = []"
    then show ?thesis using e by (simp add: entry_def)
  next
    assume "pre = [append_char (CHR '','')]"
    then show ?thesis using emits_seq [OF emits_char e, of "CHR '',''"] by (simp add: entry_def)
  qed
qed

lemma df_begin_result:
  assumes "df_ready cap f"
  shows "if length (delta_header c t l) < cap
    then fst (df_begin c t l f) \<and> df_holds cap (delta_header c t l) [] (snd (df_begin c t l f))
    else \<not> fst (df_begin c t l f) \<and> df_ready cap (snd (df_begin c t l f)) \<and> \<not> df_open (snd (df_begin c t l f))"
proof (cases "cap = 0")
  case True
  with assms show ?thesis
    by (simp add: df_begin_def df_ready_def jw_rewind_def jw_all.simps append_raw_def append_bytes_def Let_def)
next
  case False
  let ?h = "delta_header c t l" and ?w = "(df_out f)\<lparr>jw_text := [], jw_ok := True\<rparr>"
  have rw: "jw_rewind 0 (df_out f) = (True, ?w)" using assms False by (auto simp: df_ready_def jw_rewind_def)
  have cap: "jw_capacity ?w = cap" using assms by (simp add: df_ready_def)
  show ?thesis
  proof (cases "length ?h < cap")
    case True
    with emitsD1 [OF emits_header, of ?w c t l] cap
    have "jw_all [append_raw ''{\"context\":'', append_quoted c, append_raw '',\"updates\":[{\"timestamp\":'', append_quoted t,
      append_raw '',\"source\":{\"label\":'', append_quoted l, append_raw ''},\"values\":[''] ?w = (True, ?w\<lparr>jw_text := ?h\<rparr>)" by simp
    moreover have "?h \<noteq> []" by (simp add: delta_header_def)
    ultimately show ?thesis using True rw cap by (simp add: df_begin_def df_holds_def jw_size_def)
  next
    case no: False
    obtain u where "jw_all [append_raw ''{\"context\":'', append_quoted c, append_raw '',\"updates\":[{\"timestamp\":'', append_quoted t,
      append_raw '',\"source\":{\"label\":'', append_quoted l, append_raw ''},\"values\":[''] ?w = (False, ?w\<lparr>jw_text := u, jw_ok := False\<rparr>)"
      "length u < cap"
      using emitsD2 [OF emits_header, of ?w c t l] cap no False by auto
    then show ?thesis using no rw cap False by (simp add: df_begin_def df_ready_def)
  qed
qed

lemma df_add_result:
  assumes "df_holds cap h es f" "emits wv v"
  shows "if length (h @ join (es @ [entry p v])) < cap
    then fst (df_add p wv f) = Added \<and> df_holds cap h (es @ [entry p v]) (snd (df_add p wv f)) \<and>
      df_holds cap h es (df_undo_last (snd (df_add p wv f)))
    else fst (df_add p wv f) = (if es = [] then TooLarge else Full) \<and> df_holds cap h es (snd (df_add p wv f))"
proof -
  let ?w = "df_out f" and ?pre = "if df_count f = 0 then [] else [append_char (CHR '','')]"
  let ?ops = "?pre @ [append_raw ''{\"path\":'', append_quoted p, append_raw '',\"value\":'', wv, append_char (CHR ''}'')]"
  let ?s = "(if ?pre = [] then [] else [CHR '','']) @ entry p v"
  have f: "jw_ok ?w" "jw_capacity ?w = cap" "jw_text ?w = h @ join es" "length (h @ join es) < cap" "df_count f = length es"
    using assms(1) by (simp_all add: df_holds_def)
  have em: "emits (jw_all ?ops) ?s" by (rule emits_entry [OF assms(2)]) auto
  have s: "jw_text ?w @ ?s = h @ join (es @ [entry p v])" using f(3,5) by (auto simp: join_snoc)
  show ?thesis
  proof (cases "length (h @ join (es @ [entry p v])) < cap")
    case True
    have "jw_all ?ops ?w = (True, ?w\<lparr>jw_text := h @ join (es @ [entry p v])\<rparr>)"
      using emitsD1 [OF em f(1)] True f(2) by (metis s length_append)
    then have add: "df_add p wv f = (Added, f\<lparr>df_out := ?w\<lparr>jw_text := h @ join (es @ [entry p v])\<rparr>, df_last_mark := length (h @ join es), df_count := df_count f + 1\<rparr>)"
      using f by (simp add: df_add_def Let_def jw_size_def)
    have "take (length (h @ join es)) (h @ join (es @ [entry p v])) = h @ join es"
      "length (join es) \<le> length (join (es @ [entry p v]))" by (simp_all add: join_snoc)
    with add show ?thesis
      using True f assms(1) by (simp add: df_holds_def df_undo_last_def jw_rewind_def)
  next
    case False
    have "jw_capacity ?w \<le> length (jw_text ?w) + length ?s"
      using False f(2) arg_cong [OF s, of length] by (simp only: length_append)
    then obtain t where t: "jw_all ?ops ?w = (False, ?w\<lparr>jw_text := jw_text ?w @ t, jw_ok := False\<rparr>)"
      "length (jw_text ?w) + length t < jw_capacity ?w"
      using emitsD2 [OF em f(1)] f(2-4) by auto
    have "jw_rewind (length (h @ join es)) (?w\<lparr>jw_text := jw_text ?w @ t, jw_ok := False\<rparr>) = (True, ?w)"
      using f t(2) by (simp add: jw_rewind_def)
    with t(1) have "df_add p wv f = (if df_count f = 0 then TooLarge else Full, f)"
      using f by (simp add: df_add_def Let_def jw_size_def)
    then show ?thesis using False f(5) assms(1) by simp
  qed
qed

lemma df_finish_result:
  assumes "df_holds cap h es f"
  shows "fst (df_finish f) = (if es = [] then [] else h @ join es @ Trailer)" "df_ready cap (snd (df_finish f))"
    "\<not> df_open (snd (df_finish f))" "df_holds cap h [] (df_reopen (snd (df_finish f)))" "df_count (snd (df_finish f)) = length es"
  using assms by (auto simp: df_holds_def df_finish_def df_ready_def df_reopen_def jw_rewind_def jw_size_def)

text \<open>A run of \<open>add\<close> calls and what it accepts: each value that still fits.\<close>

fun df_add_all :: "(string \<times> jw_op) list \<Rightarrow> delta_frame \<Rightarrow> delta_frame" where
  "df_add_all [] f = f"
| "df_add_all ((p, wv) # items) f = df_add_all items (snd (df_add p wv f))"

fun fitting :: "nat \<Rightarrow> string \<Rightarrow> string list \<Rightarrow> string list \<Rightarrow> string list" where
  "fitting cap h es [] = es"
| "fitting cap h es (e # rest) = fitting cap h (if length (h @ join (es @ [e])) < cap then es @ [e] else es) rest"

lemma df_add_all_result:
  "df_holds cap h es f \<Longrightarrow> list_all2 (\<lambda>(p, wv) v. emits wv v) items vs \<Longrightarrow>
   df_holds cap h (fitting cap h es (map2 (\<lambda>(p, wv) v. entry p v) items vs)) (df_add_all items f)"
proof (induction items arbitrary: vs es f)
  case (Cons item items)
  obtain p wv where item: "item = (p, wv)" by fastforce
  from Cons.prems(2) obtain v vs' where vs: "vs = v # vs'" "emits wv v" "list_all2 (\<lambda>(p, wv) v. emits wv v) items vs'"
    by (auto simp: list_all2_Cons1 item)
  show ?case
    using df_add_result [OF Cons.prems(1) vs(2), of p] vs(1,3) item
    by (auto intro!: Cons.IH split: if_splits)
qed simp

text \<open>
  C18: Every delta that leaves a frame is complete. After a frame has been opened in a buffer of any size and any values
  have been added, whether they fitted or not, the text that is sent is empty or it is the whole header, the values
  that fitted in their order, separated by commas, and the closing brackets and line end; with its terminator it lies
  within the buffer.
\<close>
theorem delta_frame_complete:
  assumes "list_all2 (\<lambda>(p, wv) v. emits wv v) items vs" "fst (df_begin ctx timestamp label (df_init capacity))"
  shows "let f = df_add_all items (snd (df_begin ctx timestamp label (df_init capacity)));
             h = delta_header ctx timestamp label;
             es = fitting (capacity - length Trailer) h [] (map2 (\<lambda>(p, wv) v. entry p v) items vs)
         in fst (df_finish f) = (if es = [] then [] else h @ join es @ Trailer) \<and> length (fst (df_finish f)) < capacity"
proof -
  let ?cap = "capacity - length Trailer" and ?h = "delta_header ctx timestamp label"
  have "df_ready ?cap (df_init capacity)" by (auto simp: df_ready_def df_init_def jw_init_def)
  from df_begin_result [OF this, of ctx timestamp label] assms(2)
  have b: "df_holds ?cap ?h [] (snd (df_begin ctx timestamp label (df_init capacity)))" by (simp split: if_splits)
  let ?f = "df_add_all items (snd (df_begin ctx timestamp label (df_init capacity)))"
  let ?es = "fitting ?cap ?h [] (map2 (\<lambda>(p, wv) v. entry p v) items vs)"
  have holds: "df_holds ?cap ?h ?es ?f" using df_add_all_result [OF b assms(1)] .
  then have "length (?h @ join ?es) < ?cap" by (simp only: df_holds_def)
  then show ?thesis using df_finish_result(1) [OF holds] by (auto simp: Let_def)
qed

theorem delta_frame_complete_witness:
  "let f = df_add_all [(''a.b'', append_bool True), (''c'', append_raw ''7'')] (snd (df_begin ''v'' ''t'' ''l'' (df_init 120)));
       h = delta_header ''v'' ''t'' ''l'';
       es = fitting (120 - length Trailer) h [] (map2 (\<lambda>(p, wv) v. entry p v) [(''a.b'', append_bool True), (''c'', append_raw ''7'')] [''true'', ''7''])
   in fst (df_finish f) = (if es = [] then [] else h @ join es @ Trailer) \<and> length (fst (df_finish f)) < 120"
proof (rule delta_frame_complete)
  show "list_all2 (\<lambda>(p, wv) v. emits wv v) [(''a.b'', append_bool True), (''c'', append_raw ''7'')] [''true'', ''7'']"
    using emits_bool [of True] emits_raw by simp
  show "fst (df_begin ''v'' ''t'' ''l'' (df_init 120))" by code_simp
qed

section \<open>Quoted strings are JSON strings\<close>

text \<open>A reader of JSON strings, from behind the opening quote: the text and what follows the closing quote.\<close>

definition hex_value :: "char \<Rightarrow> nat" where
  "hex_value c = (case index_where (\<lambda>d. d = c) ''0123456789abcdef'' of Some k \<Rightarrow> k | None \<Rightarrow> 16)"

definition simple_escape :: "char \<Rightarrow> char option" where
  "simple_escape e = map_of [(DQ, DQ), (BSLASH, BSLASH), (CHR ''/'', CHR ''/''), (CHR ''b'', CHR 0x08), (CHR ''f'', CHR 0x0C),
     (CHR ''n'', CHR 0x0A), (CHR ''r'', CHR 0x0D), (CHR ''t'', CHR 0x09)] e"

fun json_next :: "string \<Rightarrow> (char \<times> string) option" where
  "json_next [] = None"
| "json_next (c # cs) =
     (if c \<noteq> BSLASH then (if c = DQ \<or> of_char c < (32 :: nat) then None else Some (c, cs))
      else (case cs of
              [] \<Rightarrow> None
            | e # rest \<Rightarrow>
                if e = CHR ''u'' then
                  (case rest of
                     h1 # h2 # h3 # h4 # rest' \<Rightarrow>
                       if h1 = CHR ''0'' \<and> h2 = CHR ''0'' \<and> hex_value h3 < 16 \<and> hex_value h4 < 16
                       then Some (char_of (hex_value h3 * 16 + hex_value h4), rest') else None
                   | _ \<Rightarrow> None)
                else map_option (\<lambda>x. (x, rest)) (simple_escape e)))"

fun json_string :: "nat \<Rightarrow> string \<Rightarrow> (string \<times> string) option" where
  "json_string fuel [] = None"
| "json_string 0 cs = None"
| "json_string (Suc fuel) (c # cs) =
     (if c = DQ then Some ([], cs)
      else (case json_next (c # cs) of
              None \<Rightarrow> None
            | Some (x, rest) \<Rightarrow> map_option (\<lambda>(s, r). (x # s, r)) (json_string fuel rest)))"

lemma hex_lower_check: "list_all (\<lambda>k. hex_value (''0123456789abcdef'' ! k) = k) [0..<16]"
  by code_simp

lemma hex_value_lower: "hex_value (hex_lower k) = k mod 16"
  using hex_lower_check mod_less_divisor [of 16 k] by (simp only: list_all_iff set_upt hex_lower_def) auto

lemma json_next_escape: "json_next (escape_char c @ t) = Some (c, t)"
proof (cases "c \<in> {DQ, BSLASH, CHR 0x08, CHR 0x0C, CHR 0x0A, CHR 0x0D, CHR 0x09}")
  case True
  then show ?thesis by (auto simp: escape_char_def simple_escape_def)
next
  case False
  show ?thesis
  proof (cases "of_char c < (32 :: nat)")
    case True
    then have "of_char c div 16 mod 16 * 16 + of_char c mod 16 = (of_char c :: nat)" by simp
    with False True show ?thesis by (simp add: escape_char_def hex_value_lower)
  next
    case no: False
    with False show ?thesis by (auto simp: escape_char_def)
  qed
qed

lemma escape_head: "\<exists>d ds. escape_char c = d # ds \<and> d \<noteq> DQ"
  by (simp add: escape_char_def)

text \<open>
  Quoted text is a JSON string of that text. Whatever characters the text has (other than the terminator), quotes,
  backslashes and control characters included, a JSON reader gets exactly the text back from what \<open>append_quoted\<close> writes, and
  continues with what was written after it.
\<close>
theorem quoted_text_round_trip:
  assumes "NUL \<notin> set s" "length s < fuel"
  shows "\<exists>q. quoted s = DQ # q \<and> emits (append_quoted s) (DQ # q) \<and> json_string fuel (q @ rest) = Some (s, rest)"
proof -
  have "json_string fuel (concat (map escape_char s) @ [DQ] @ rest) = Some (s, rest)" using assms(2)
  proof (induction s arbitrary: fuel)
    case Nil
    then show ?case by (cases fuel) auto
  next
    case (Cons c s)
    obtain k where k: "fuel = Suc k" "length s < k" using Cons.prems by (cases fuel) auto
    obtain d ds where d: "escape_char c = d # ds" "d \<noteq> DQ" using escape_head by blast
    have "json_next (d # ds @ concat (map escape_char s) @ DQ # rest) = Some (c, concat (map escape_char s) @ DQ # rest)"
      using json_next_escape [of c "concat (map escape_char s) @ DQ # rest"] d(1) by (simp del: json_next.simps)
    then show ?case using Cons.IH [OF k(2)] k(1) d by (simp del: json_next.simps)
  qed
  moreover have all: "takeWhile (\<lambda>c. c \<noteq> NUL) s = s" using assms(1) by (auto simp: takeWhile_eq_all_conv)
  ultimately show ?thesis using emits_quoted [of s] unfolding quoted_def all by simp
qed

theorem quoted_text_round_trip_witness:
  "\<exists>q. quoted [CHR ''a'', DQ, CHR 0x01] = DQ # q \<and> emits (append_quoted [CHR ''a'', DQ, CHR 0x01]) (DQ # q) \<and>
     json_string 4 (q @ ''}'') = Some ([CHR ''a'', DQ, CHR 0x01], ''}'')"
  by (rule quoted_text_round_trip) simp_all

end
