(* ===== verification/Publisher.thy ===== *)
theory Publisher
  imports Json_Writer Model_Store
begin

text \<open>
  The publisher (\<^verbatim>\<open>publisher.hpp\<close>): changes of the model and whole snapshots of it, as deltas. The code the publisher
  calls for the values themselves (mapper, typed view, delta writer and ArduinoJson) is given as arguments: a value to
  publish is its path, its kind, an operation that writes it, and the object it is built from. A sink is a function on its own
  state that takes a delta or refuses it. The two 16 bit counters of a cursor are natural numbers.
\<close>

section \<open>Values, cursors and sinks\<close>

datatype json = JsText string | JsObject "(string \<times> json) list" | JsOther string

record publish_value =
  pv_path :: string
  pv_kind :: mapped_kind
  pv_text :: string
  pv_source :: nat
  pv_write :: jw_op
  pv_object :: "json option"

record cursor =
  cu_position :: nat
  cu_value :: nat

definition cursor_init :: cursor where "cursor_init = \<lparr>cu_position = 0, cu_value = 0\<rparr>"

definition cu_started :: "cursor \<Rightarrow> bool" where "cu_started c \<longleftrightarrow> cu_position c \<noteq> 0"

record tracking =
  tk_start_position :: nat
  tk_position :: nat
  tk_value :: nat
  tk_skip :: nat
  tk_frame_start :: cursor

type_synonym 's sink = "string \<Rightarrow> 's \<Rightarrow> bool \<times> 's"

record 's publisher =
  pb_frame :: delta_frame
  pb_tracking :: "tracking option"
  pb_dropped :: u64
  pb_deltas :: u64
  pb_values :: u64
  pb_snapshots :: u64
  pb_truncated :: u64
  pb_sink :: 's

definition pb_drop :: "'s publisher \<Rightarrow> 's publisher" where
  "pb_drop p = p\<lparr>pb_dropped := pb_dropped p + 1\<rparr>"

definition effective_json_buffer_size :: "nat \<Rightarrow> nat \<Rightarrow> nat" where
  "effective_json_buffer_size configured maximum =
     (if configured = 0 then 0 else if configured < maximum then configured else maximum)"

section \<open>Adding values\<close>

definition flush :: "'s sink \<Rightarrow> 's publisher \<Rightarrow> bool \<times> 's publisher" where
  "flush sink p =
     (let values = df_count (pb_frame p);
          (delta, fr) = df_finish (pb_frame p);
          p1 = p\<lparr>pb_frame := fr\<rparr>
      in if delta = [] then (True, p1)
         else (case sink delta (pb_sink p1) of
                 (False, s) \<Rightarrow> (False, p1\<lparr>pb_sink := s\<rparr>)
               | (True, s) \<Rightarrow> (True, p1\<lparr>pb_sink := s, pb_deltas := pb_deltas p1 + 1, pb_values := pb_values p1 + of_nat values\<rparr>)))"

definition tk_enter :: "nat \<Rightarrow> tracking \<Rightarrow> tracking" where
  "tk_enter field_position t =
     (if field_position = tk_position t then t
      else t\<lparr>tk_skip := (if field_position \<noteq> tk_start_position t then 0 else tk_skip t), tk_position := field_position, tk_value := 0\<rparr>)"

definition enter :: "nat \<Rightarrow> 's publisher \<Rightarrow> 's publisher" where
  "enter field_position p = p\<lparr>pb_tracking := map_option (tk_enter field_position) (pb_tracking p)\<rparr>"

definition note_added :: "bool \<Rightarrow> 's publisher \<Rightarrow> 's publisher" where
  "note_added first_in_frame p =
     (case pb_tracking p of
        None \<Rightarrow> p
      | Some t \<Rightarrow>
          if 0 < tk_skip t
          then p\<lparr>pb_frame := df_undo_last (pb_frame p), pb_tracking := Some (t\<lparr>tk_skip := tk_skip t - 1, tk_value := tk_value t + 1\<rparr>)\<rparr>
          else p\<lparr>pb_tracking := Some (t\<lparr>tk_value := tk_value t + 1,
                   tk_frame_start := (if first_in_frame then \<lparr>cu_position = tk_position t, cu_value = tk_value t\<rparr> else tk_frame_start t)\<rparr>)\<rparr>)"

definition add_or_split_result :: "'s sink \<Rightarrow> string \<Rightarrow> jw_op \<Rightarrow> 's publisher \<Rightarrow> bool \<times> add_result \<times> 's publisher" where
  "add_or_split_result sink path wv p =
     (let was_empty = (df_count (pb_frame p) = 0);
          (r, fr) = df_add path wv (pb_frame p);
          p1 = p\<lparr>pb_frame := fr\<rparr>
      in if r = Full then
           (case flush sink p1 of
              (False, p2) \<Rightarrow> (False, r, p2)
            | (True, p2) \<Rightarrow>
                (let (r', fr') = df_add path wv (df_reopen (pb_frame p2));
                     p3 = p2\<lparr>pb_frame := fr'\<rparr>
                 in (True, r', if r' = Added then note_added True p3 else p3)))
         else (True, r, if r = Added then note_added was_empty p1 else p1))"

definition add_or_split :: "'s sink \<Rightarrow> string \<Rightarrow> jw_op \<Rightarrow> 's publisher \<Rightarrow> bool \<times> 's publisher" where
  "add_or_split sink path wv p =
     (case add_or_split_result sink path wv p of
        (False, _, p1) \<Rightarrow> (False, p1)
      | (True, r, p1) \<Rightarrow> (True, if r = TooLarge then pb_drop p1 else p1))"

text \<open>The next shorter length that does not cut a UTF-8 sequence.\<close>

definition utf8_continuation :: "char \<Rightarrow> bool" where
  "utf8_continuation c \<longleftrightarrow> of_char c div 64 = (2 :: nat)"

fun utf8_back :: "string \<Rightarrow> nat \<Rightarrow> nat" where
  "utf8_back s 0 = 0"
| "utf8_back s (Suc l) = (if utf8_continuation (s ! Suc l) then utf8_back s l else Suc l)"

definition shorter :: "string \<Rightarrow> nat \<Rightarrow> nat" where
  "shorter s len = utf8_back s (if 16 < len then len - len div 4 else len - 1)"

lemma utf8_back_le: "utf8_back s l \<le> l"
  by (induction l) (auto intro: le_SucI)

lemma shorter_less: "0 < len \<Longrightarrow> shorter s len < len"
  using utf8_back_le [of s "if 16 < len then len - len div 4 else len - 1"]
  by (auto simp: shorter_def split: if_splits)

function add_truncated_text :: "'s sink \<Rightarrow> string \<Rightarrow> string \<Rightarrow> nat \<Rightarrow> 's publisher \<Rightarrow> bool \<times> 's publisher" where
  "add_truncated_text sink path s len p =
     (if len = 0 then (True, pb_drop p)
      else (case add_or_split_result sink path (append_quoted_len s (shorter s len)) p of
              (False, _, p1) \<Rightarrow> (False, p1)
            | (True, r, p1) \<Rightarrow>
                if r \<noteq> TooLarge then (True, p1\<lparr>pb_truncated := pb_truncated p1 + 1\<rparr>)
                else add_truncated_text sink path s (shorter s len) p1))"
  by pat_completeness auto
termination
  by (relation "measure (\<lambda>(_, _, _, len, _). len)") (auto simp: shorter_less)

declare add_truncated_text.simps [simp del]

text \<open>The members of an object, each under its own path; \<open>add\<close> publishes one of them.\<close>

definition child_path :: "string \<Rightarrow> string \<Rightarrow> string" where
  "child_path path key = (if path \<noteq> [] then path @ ''.'' @ key else key)"

fun add_members :: "(string \<Rightarrow> json \<Rightarrow> 's publisher \<Rightarrow> bool \<times> 's publisher) \<Rightarrow> string \<Rightarrow> (string \<times> json) list \<Rightarrow> 's publisher \<Rightarrow> bool \<times> 's publisher" where
  "add_members add path [] p = (True, p)"
| "add_members add path ((key, v) # ms) p =
     (if child_path path key = [] \<or> 160 \<le> length (child_path path key) then add_members add path ms (pb_drop p)
      else (case add (child_path path key) v p of
              (False, p1) \<Rightarrow> (False, p1)
            | (True, p1) \<Rightarrow> add_members add path ms p1))"

abbreviation MaxObjectSplitDepth :: nat where "MaxObjectSplitDepth \<equiv> 3"

text \<open>The argument counts the levels that are left below \<open>MaxObjectSplitDepth\<close>.\<close>

definition add_json_scalar ::
  "'s sink \<Rightarrow> (json \<Rightarrow> string) \<Rightarrow> ((string \<times> json) list \<Rightarrow> 's publisher \<Rightarrow> bool \<times> 's publisher) \<Rightarrow> string \<Rightarrow> json \<Rightarrow> 's publisher \<Rightarrow> bool \<times> 's publisher" where
  "add_json_scalar sink ser split path v p =
     (case add_or_split_result sink path (append_json (ser v)) p of
        (False, _, p1) \<Rightarrow> (False, p1)
      | (True, r, p1) \<Rightarrow>
          if r \<noteq> TooLarge then (True, p1)
          else (case v of
                  JsText s \<Rightarrow> add_truncated_text sink path s (length s) p1
                | JsObject ms \<Rightarrow> split ms p1
                | JsOther _ \<Rightarrow> (True, pb_drop p1)))"

primrec add_json_split :: "'s sink \<Rightarrow> (json \<Rightarrow> string) \<Rightarrow> nat \<Rightarrow> string \<Rightarrow> json \<Rightarrow> 's publisher \<Rightarrow> bool \<times> 's publisher" where
  "add_json_split sink ser 0 = (\<lambda>path v. add_json_scalar sink ser (\<lambda>ms p. (True, pb_drop p)) path v)"
| "add_json_split sink ser (Suc levels) =
     (\<lambda>path v. add_json_scalar sink ser (add_members (add_json_split sink ser levels) path) path v)"

definition add_value :: "'s sink \<Rightarrow> (json \<Rightarrow> string) \<Rightarrow> publish_value \<Rightarrow> 's publisher \<Rightarrow> bool \<times> 's publisher" where
  "add_value sink ser v p =
     (case add_or_split_result sink (pv_path v) (pv_write v) p of
        (False, _, p1) \<Rightarrow> (False, p1)
      | (True, r, p1) \<Rightarrow>
          if r \<noteq> TooLarge then (True, p1)
          else if pv_kind v = KindText then add_truncated_text sink (pv_path v) (pv_text v) (length (pv_text v)) p1
          else if pv_kind v \<noteq> KindObject then (True, pb_drop p1)
          else (case pv_object v of
                  None \<Rightarrow> (True, p1)
                | Some j \<Rightarrow> add_json_split sink ser MaxObjectSplitDepth (pv_path v) j p1))"

section \<open>Targets of the AIS table\<close>

text \<open>A target with the texts of its numbers, already in the units of Signal K.\<close>

record ais_target =
  at_occupied :: bool
  at_mmsi :: "int option"
  at_name :: string
  at_position :: "(string \<times> string) option"
  at_speed :: "string option"
  at_course :: "string option"
  at_heading :: "string option"

definition is_vessel_mmsi :: "int \<Rightarrow> bool" where
  "is_vessel_mmsi m \<longleftrightarrow> 200000000 \<le> m \<and> m \<le> 799999999"

fun decimal_digits :: "nat \<Rightarrow> int \<Rightarrow> string" where
  "decimal_digits 0 m = []"
| "decimal_digits (Suc k) m = decimal_digits k (m div 10) @ [char_of (48 + nat (m mod 10))]"

definition format_mmsi :: "int \<Rightarrow> string option" where
  "format_mmsi m = (if is_vessel_mmsi m then Some (decimal_digits 9 m) else None)"

definition ais_items :: "string \<Rightarrow> ais_target \<Rightarrow> (string \<times> jw_op) list" where
  "ais_items mmsi t =
     [('''', jw_all ([append_char (CHR ''{'')] @
        (if at_name t \<noteq> [] then [append_raw ''\"name\":'', append_quoted (at_name t), append_char (CHR '','')] else []) @
        [append_raw ''\"mmsi\":'', append_quoted mmsi, append_char (CHR ''}'')]))] @
     (case at_position t of None \<Rightarrow> [] | Some (lat, lon) \<Rightarrow>
        [(''navigation.position'', jw_all [append_raw ''{\"latitude\":'', append_real lat, append_raw '',\"longitude\":'', append_real lon, append_char (CHR ''}'')])]) @
     (case at_speed t of None \<Rightarrow> [] | Some v \<Rightarrow> [(''navigation.speedOverGround'', append_real v)]) @
     (case at_course t of None \<Rightarrow> [] | Some v \<Rightarrow> [(''navigation.courseOverGroundTrue'', append_real v)]) @
     (case at_heading t of None \<Rightarrow> [] | Some v \<Rightarrow> [(''navigation.headingTrue'', append_real v)])"

fun add_items :: "'s sink \<Rightarrow> (string \<times> jw_op) list \<Rightarrow> 's publisher \<Rightarrow> bool \<times> 's publisher" where
  "add_items sink [] p = (True, p)"
| "add_items sink ((path, wv) # items) p =
     (case add_or_split sink path wv p of (False, p1) \<Rightarrow> (False, p1) | (True, p1) \<Rightarrow> add_items sink items p1)"

definition ais_context :: "ais_target \<Rightarrow> (string \<times> string) option" where
  "ais_context t =
     (if \<not> at_occupied t then None
      else (case at_mmsi t of
              None \<Rightarrow> None
            | Some m \<Rightarrow> map_option (\<lambda>s. (s, ''vessels.urn:mrn:imo:mmsi:'' @ s)) (format_mmsi m)))"

definition publish_ais_target ::
  "'s sink \<Rightarrow> string \<Rightarrow> string \<Rightarrow> (ais_target \<Rightarrow> bool) \<Rightarrow> ais_target \<Rightarrow> 's publisher \<Rightarrow> bool \<times> 's publisher" where
  "publish_ais_target sink timestamp source_label is_current t p =
     (if \<not> is_current t then (True, p)
      else (case ais_context t of
              None \<Rightarrow> (True, p)
            | Some (mmsi, ctx) \<Rightarrow>
                (case df_begin ctx timestamp source_label (pb_frame p) of
                   (False, fr) \<Rightarrow> (True, pb_drop (p\<lparr>pb_frame := fr\<rparr>))
                 | (True, fr) \<Rightarrow>
                     (case add_items sink (ais_items mmsi t) (p\<lparr>pb_frame := fr\<rparr>) of
                        (False, p1) \<Rightarrow> (False, p1)
                      | (True, p1) \<Rightarrow> flush sink p1))))"

section \<open>Resumable snapshots\<close>

text \<open>What a snapshot reads of the configuration, the typed view and the model.\<close>

record snapshot_env =
  se_capacity :: nat
  se_batch :: nat
  se_context :: string
  se_label :: "nat \<Rightarrow> string"
  se_ser :: "json \<Rightarrow> string"
  se_fields :: nat
  se_value :: "nat \<Rightarrow> publish_value option"
  se_ais_valid :: bool
  se_ais_label :: string
  se_ais_current :: "ais_target \<Rightarrow> bool"
  se_targets :: "ais_target list"

fun snapshot_fields :: "snapshot_env \<Rightarrow> string \<Rightarrow> 's sink \<Rightarrow> nat list \<Rightarrow> nat \<Rightarrow> 's publisher \<Rightarrow> bool \<times> 's publisher" where
  "snapshot_fields env ts sink [] frame_source p = flush sink p"
| "snapshot_fields env ts sink (position # ps) frame_source p =
     (case se_value env position of
        None \<Rightarrow> snapshot_fields env ts sink ps frame_source p
      | Some v \<Rightarrow>
          (let (sent, p1) = (if df_open (pb_frame p) \<and> (pv_source v \<noteq> frame_source \<or> se_batch env \<le> df_count (pb_frame p))
                             then flush sink p else (True, p))
           in if \<not> sent then (False, p1)
              else (let (ready, p2, src) =
                          (if df_open (pb_frame p1) then (True, p1, frame_source)
                           else (let (ok, fr) = df_begin (se_context env) ts (se_label env (pv_source v)) (pb_frame p1)
                                 in (ok, p1\<lparr>pb_frame := fr\<rparr>, if ok then pv_source v else frame_source)))
                    in if \<not> ready then snapshot_fields env ts sink ps src (pb_drop p2)
                       else (case add_value sink (se_ser env) v (enter position p2) of
                               (False, p3) \<Rightarrow> (False, p3)
                             | (True, p3) \<Rightarrow> snapshot_fields env ts sink ps src p3))))"

fun snapshot_targets :: "snapshot_env \<Rightarrow> string \<Rightarrow> 's sink \<Rightarrow> nat list \<Rightarrow> 's publisher \<Rightarrow> bool \<times> 's publisher" where
  "snapshot_targets env ts sink [] p = (True, p)"
| "snapshot_targets env ts sink (position # ps) p =
     (case publish_ais_target sink ts (se_ais_label env) (se_ais_current env) (se_targets env ! (position - se_fields env)) (enter position p) of
        (False, p1) \<Rightarrow> (False, p1)
      | (True, p1) \<Rightarrow> snapshot_targets env ts sink ps p1)"

definition snapshot_end :: "snapshot_env \<Rightarrow> nat" where
  "snapshot_end env = se_fields env + length (se_targets env)"

text \<open>The loops of one pass, from the resume position.\<close>

definition snapshot_pass :: "snapshot_env \<Rightarrow> bool \<Rightarrow> string \<Rightarrow> 's sink \<Rightarrow> cursor \<Rightarrow> 's publisher \<Rightarrow> bool \<times> 's publisher" where
  "snapshot_pass env other_contexts ts sink resume p =
     (case snapshot_fields env ts sink [cu_position resume..<se_fields env] 0 p of
        (False, p1) \<Rightarrow> (False, p1)
      | (True, p1) \<Rightarrow>
          if other_contexts \<and> se_ais_valid env
          then snapshot_targets env ts sink [max (cu_position resume) (se_fields env)..<snapshot_end env] p1
          else (True, p1))"

definition publish_current ::
  "snapshot_env \<Rightarrow> bool \<Rightarrow> string option \<Rightarrow> 's sink \<Rightarrow> cursor \<Rightarrow> 's publisher \<Rightarrow> bool \<times> cursor \<times> 's publisher" where
  "publish_current env other_contexts timestamp sink c p =
     (if se_capacity env = 0 then (True, c, p)
      else (case timestamp of
              None \<Rightarrow> (True, c, p)
            | Some ts \<Rightarrow>
                (let resume = (if cu_started c then c else \<lparr>cu_position = 1, cu_value = 0\<rparr>);
                     t = \<lparr>tk_start_position = cu_position resume, tk_position = 0, tk_value = 0, tk_skip = cu_value resume, tk_frame_start = resume\<rparr>
                 in (case snapshot_pass env other_contexts ts sink resume (p\<lparr>pb_frame := df_init (se_capacity env), pb_tracking := Some t\<rparr>) of
                       (False, p1) \<Rightarrow> (False, (case pb_tracking p1 of Some t1 \<Rightarrow> tk_frame_start t1 | None \<Rightarrow> resume), p1\<lparr>pb_tracking := None\<rparr>)
                     | (True, p1) \<Rightarrow> (True, cursor_init, p1\<lparr>pb_tracking := None, pb_snapshots := pb_snapshots p1 + 1\<rparr>)))))"

section \<open>Pending changes\<close>

text \<open>
  What the loop over the change queue reads: the mapped value of a change with the address of its path, the value
  of the change's own source, and the labels.
\<close>

record pending_env =
  pe_capacity :: nat
  pe_batch :: nat
  pe_context :: string
  pe_label :: "source_id \<Rightarrow> string"
  pe_ser :: "json \<Rightarrow> string"
  pe_is_ais :: "model_change \<Rightarrow> bool"
  pe_map :: "model_change \<Rightarrow> (nat \<times> publish_value) option"
  pe_own :: "nat \<Rightarrow> source_id \<Rightarrow> jw_op option"
  pe_targets :: "ais_target list"

fun publish_targets :: "'s sink \<Rightarrow> string \<Rightarrow> string \<Rightarrow> ais_target list \<Rightarrow> 's publisher \<Rightarrow> 's publisher" where
  "publish_targets sink ts label [] p = p"
| "publish_targets sink ts label (t # targets) p =
     publish_targets sink ts label targets (snd (publish_ais_target sink ts label (\<lambda>_. True) t p))"

fun pending_loop :: "pending_env \<Rightarrow> string \<Rightarrow> 's sink \<Rightarrow> model_change list \<Rightarrow> source_id \<Rightarrow> nat option \<Rightarrow> 's publisher \<Rightarrow> 's publisher" where
  "pending_loop env ts sink [] frame_source last_path p = snd (flush sink p)"
| "pending_loop env ts sink (c # cs) frame_source last_path p =
     (if pe_is_ais env c then
        pending_loop env ts sink cs frame_source last_path
          (publish_targets sink ts (pe_label env (mc_source_id c)) (pe_targets env) (snd (flush sink p)))
      else (case pe_map env c of
              None \<Rightarrow> pending_loop env ts sink cs frame_source last_path p
            | Some (path_id, v) \<Rightarrow>
                if df_open (pb_frame p) \<and> mc_source_id c = frame_source \<and> Some path_id = last_path
                then pending_loop env ts sink cs frame_source last_path p
                else
                  (let p1 = (if df_open (pb_frame p) \<and> (mc_source_id c \<noteq> frame_source \<or> pe_batch env \<le> df_count (pb_frame p))
                             then snd (flush sink p) else p);
                       (ready, p2, src) =
                         (if df_open (pb_frame p1) then (True, p1, frame_source)
                          else (let (ok, fr) = df_begin (pe_context env) ts (pe_label env (mc_source_id c)) (pb_frame p1)
                                in (ok, p1\<lparr>pb_frame := fr\<rparr>, if ok then mc_source_id c else frame_source)))
                   in if \<not> ready then pending_loop env ts sink cs src last_path (pb_drop p2)
                      else pending_loop env ts sink cs src (Some path_id)
                             (case pe_own env path_id (mc_source_id c) of
                                Some wv \<Rightarrow> snd (add_or_split sink (pv_path v) wv p2)
                              | None \<Rightarrow> snd (add_value sink (pe_ser env) v p2)))))"

text \<open>At most \<open>n\<close> changes leave the queue.\<close>

fun pop_changes :: "nat \<Rightarrow> nat \<Rightarrow> change_queue \<Rightarrow> model_change list \<times> change_queue" where
  "pop_changes cap 0 q = ([], q)"
| "pop_changes cap (Suc n) q =
     (case cq_pop cap q of
        (None, q1) \<Rightarrow> ([], q1)
      | (Some c, q1) \<Rightarrow> (case pop_changes cap n q1 of (cs, q2) \<Rightarrow> (c # cs, q2)))"

definition publish_pending ::
  "pending_env \<Rightarrow> nat \<Rightarrow> nat \<Rightarrow> string option \<Rightarrow> 's sink \<Rightarrow> change_queue \<Rightarrow> 's publisher \<Rightarrow> change_queue \<times> 's publisher" where
  "publish_pending env cap max_changes timestamp sink q p =
     (if pe_capacity env = 0 then (q, p)
      else (case timestamp of
              None \<Rightarrow> (q, p)
            | Some ts \<Rightarrow>
                (case pop_changes cap max_changes q of
                   (cs, q1) \<Rightarrow> (q1, pending_loop env ts sink cs 0 None (p\<lparr>pb_frame := df_init (pe_capacity env)\<rparr>)))))"

section \<open>What a snapshot has to send\<close>

text \<open>The entries of each value, given the length of the header: whole, split or shortened as the code does it.\<close>

definition fits1 :: "nat \<Rightarrow> nat \<Rightarrow> string \<Rightarrow> string \<Rightarrow> bool" where
  "fits1 cap hl path v \<longleftrightarrow> hl + length (entry path v) < cap"

function trunc_emit :: "nat \<Rightarrow> nat \<Rightarrow> string \<Rightarrow> string \<Rightarrow> nat \<Rightarrow> string list" where
  "trunc_emit cap hl path s len =
     (if len = 0 then []
      else (let v = quoted (take (shorter s len) s) in
            if fits1 cap hl path v then [entry path v] else trunc_emit cap hl path s (shorter s len)))"
  by pat_completeness auto
termination
  by (relation "measure (\<lambda>(_, _, _, _, len). len)") (auto simp: shorter_less)

declare trunc_emit.simps [simp del]

fun members_emit :: "(string \<Rightarrow> json \<Rightarrow> string list) \<Rightarrow> string \<Rightarrow> (string \<times> json) list \<Rightarrow> string list" where
  "members_emit emit path [] = []"
| "members_emit emit path ((key, v) # ms) =
     (if child_path path key = [] \<or> 160 \<le> length (child_path path key) then [] else emit (child_path path key) v) @ members_emit emit path ms"

definition scalar_emit :: "nat \<Rightarrow> nat \<Rightarrow> (json \<Rightarrow> string) \<Rightarrow> ((string \<times> json) list \<Rightarrow> string list) \<Rightarrow> string \<Rightarrow> json \<Rightarrow> string list" where
  "scalar_emit cap hl ser split path v =
     (if fits1 cap hl path (ser v) then [entry path (ser v)]
      else (case v of JsText s \<Rightarrow> trunc_emit cap hl path s (length s) | JsObject ms \<Rightarrow> split ms | JsOther _ \<Rightarrow> []))"

primrec json_emit :: "nat \<Rightarrow> nat \<Rightarrow> (json \<Rightarrow> string) \<Rightarrow> nat \<Rightarrow> string \<Rightarrow> json \<Rightarrow> string list" where
  "json_emit cap hl ser 0 = (\<lambda>path v. scalar_emit cap hl ser (\<lambda>ms. []) path v)"
| "json_emit cap hl ser (Suc levels) = (\<lambda>path v. scalar_emit cap hl ser (members_emit (json_emit cap hl ser levels) path) path v)"

definition value_emit :: "nat \<Rightarrow> nat \<Rightarrow> (json \<Rightarrow> string) \<Rightarrow> (publish_value \<Rightarrow> string) \<Rightarrow> publish_value \<Rightarrow> string list" where
  "value_emit cap hl ser vtext v =
     (if fits1 cap hl (pv_path v) (vtext v) then [entry (pv_path v) (vtext v)]
      else if pv_kind v = KindText then trunc_emit cap hl (pv_path v) (pv_text v) (length (pv_text v))
      else if pv_kind v \<noteq> KindObject then []
      else (case pv_object v of None \<Rightarrow> [] | Some j \<Rightarrow> json_emit cap hl ser MaxObjectSplitDepth (pv_path v) j))"

text \<open>A sink with a record of what it took.\<close>

definition logged :: "'s sink \<Rightarrow> ('s \<times> string list) sink" where
  "logged sink d sl = (case sink d (fst sl) of (ok, s) \<Rightarrow> (ok, s, if ok then snd sl @ [d] else snd sl))"

text \<open>The log consists of whole deltas, and their entries in order are \<open>D\<close>.\<close>

definition delivers :: "string list \<Rightarrow> string list \<Rightarrow> bool" where
  "delivers log D \<longleftrightarrow> (\<exists>gs. log = map (\<lambda>(h, es). h @ join es @ Trailer) gs \<and> concat (map snd gs) = D \<and>
     (\<forall>(h, es) \<in> set gs. es \<noteq> [] \<and> (\<exists>c t l. h = delta_header c t l)))"

lemma delivers_Nil [simp]: "delivers [] []"
  by (auto simp: delivers_def)

lemma delivers_snoc:
  assumes "delivers log D" "es \<noteq> []" "h = delta_header c t l"
  shows "delivers (log @ [h @ join es @ Trailer]) (D @ es)"
proof -
  obtain gs where "log = map (\<lambda>(h, es). h @ join es @ Trailer) gs" "concat (map snd gs) = D"
    "\<forall>(h, es) \<in> set gs. es \<noteq> [] \<and> (\<exists>c t l. h = delta_header c t l)"
    using assms(1) by (auto simp: delivers_def)
  with assms(2,3) show ?thesis
    unfolding delivers_def by (intro exI [of _ "gs @ [(h, es)]"]) auto
qed

text \<open>
  The state of a pass. \<open>E\<close> gives the entries of each position; \<open>base\<close> counts those before a position; a cursor stands at an index
  of the whole list. \<open>snap_inv\<close>: \<open>N\<close> entries have been considered, the last of them are in the open frame, all before the
  frame are delivered, and the tracking knows where the frame started.
\<close>

definition base :: "(nat \<Rightarrow> string list) \<Rightarrow> nat \<Rightarrow> nat" where
  "base E q = length (concat (map E [1..<q]))"

definition cursor_at :: "(nat \<Rightarrow> string list) \<Rightarrow> nat \<Rightarrow> cursor \<Rightarrow> nat \<Rightarrow> bool" where
  "cursor_at E e c k \<longleftrightarrow> 1 \<le> cu_position c \<and> cu_position c < e \<and> cu_value c \<le> length (E (cu_position c)) \<and> k = base E (cu_position c) + cu_value c"

abbreviation entries :: "(nat \<Rightarrow> string list) \<Rightarrow> nat \<Rightarrow> string list" where
  "entries E e \<equiv> concat (map E [1..<e])"

definition snap_inv :: "(nat \<Rightarrow> string list) \<Rightarrow> nat \<Rightarrow> nat \<Rightarrow> nat \<Rightarrow> string list \<Rightarrow> string list \<Rightarrow> tracking \<Rightarrow> bool" where
  "snap_inv E e n0 N F log t \<longleftrightarrow> length F \<le> N \<and> F = drop (N - length F) (take N (entries E e)) \<and>
     (F \<noteq> [] \<longrightarrow> n0 \<le> N - length F \<and> cursor_at E e (tk_frame_start t) (N - length F)) \<and>
     tk_skip t = n0 - N \<and> delivers log (take (max n0 N - length F) (entries E e))"

definition pass_mid :: "(nat \<Rightarrow> string list) \<Rightarrow> nat \<Rightarrow> nat \<Rightarrow> nat \<Rightarrow> nat \<Rightarrow> string \<Rightarrow> nat \<Rightarrow> nat \<Rightarrow> ('s \<times> string list) publisher \<Rightarrow> bool" where
  "pass_mid E e n0 q0 cap h q i p \<longleftrightarrow> (\<exists>F t s log. pb_tracking p = Some t \<and> pb_sink p = (s, log) \<and> df_holds cap h F (pb_frame p) \<and>
     snap_inv E e n0 (base E q + i) F log t \<and> tk_position t = q \<and> tk_value t = i \<and> tk_start_position t = q0)"

definition pass_refused :: "'s sink \<Rightarrow> (nat \<Rightarrow> string list) \<Rightarrow> nat \<Rightarrow> ('s \<times> string list) publisher \<Rightarrow> bool" where
  "pass_refused sink E e p \<longleftrightarrow> (\<exists>d s. \<not> fst (sink d s)) \<and> (\<exists>t s log k. pb_tracking p = Some t \<and> pb_sink p = (s, log) \<and> cursor_at E e (tk_frame_start t) k \<and>
     delivers log (take k (entries E e)))"

lemma pass_midI:
  "pb_tracking p = Some t \<Longrightarrow> pb_sink p = (s, log) \<Longrightarrow> df_holds cap h F (pb_frame p) \<Longrightarrow> snap_inv E e n0 (base E q + i) F log t \<Longrightarrow>
   tk_position t = q \<Longrightarrow> tk_value t = i \<Longrightarrow> tk_start_position t = q0 \<Longrightarrow> pass_mid E e n0 q0 cap h q i p"
  unfolding pass_mid_def by (intro exI conjI)

lemma entries_split: "1 \<le> q \<Longrightarrow> q < e \<Longrightarrow> entries E e = concat (map E [1..<q]) @ E q @ concat (map E [Suc q..<e])"
proof -
  assume "1 \<le> q" "q < e"
  then have "[1..<e] = [1..<q] @ q # [Suc q..<e]" using upt_add_eq_append [of 1 q "e - q"] by (simp add: upt_conv_Cons)
  then show ?thesis by simp
qed

lemma base_Suc: "1 \<le> q \<Longrightarrow> base E (Suc q) = base E q + length (E q)"
  by (simp add: base_def)

lemma base_mono: "q \<le> r \<Longrightarrow> base E q \<le> base E r"
proof (induction r)
  case (Suc r)
  then show ?case by (cases "q = Suc r") (auto simp: base_def)
qed simp

lemma entries_nth: "1 \<le> q \<Longrightarrow> q < e \<Longrightarrow> i < length (E q) \<Longrightarrow> base E q + i < length (entries E e) \<and> entries E e ! (base E q + i) = E q ! i"
  using entries_split [of q e E] by (simp add: base_def nth_append)

lemma snap_inv_add:
  assumes "snap_inv E e n0 N F log t" "n0 \<le> N" "N < length (entries E e)" "x = entries E e ! N"
    and "F = [] \<longrightarrow> cursor_at E e (tk_frame_start t') N" "F \<noteq> [] \<longrightarrow> tk_frame_start t' = tk_frame_start t" "tk_skip t' = 0"
  shows "snap_inv E e n0 (Suc N) (F @ [x]) log t'"
proof -
  let ?A = "entries E e"
  have f: "length F \<le> N" "F = drop (N - length F) (take N ?A)" "F \<noteq> [] \<longrightarrow> n0 \<le> N - length F \<and> cursor_at E e (tk_frame_start t) (N - length F)"
    "delivers log (take (max n0 N - length F) ?A)"
    using assms(1) by (simp_all only: snap_inv_def) auto
  have "take (Suc N) ?A = take N ?A @ [x]" using assms(3,4) by (simp add: take_Suc_conv_app_nth)
  then have "F @ [x] = drop (N - length F) (take (Suc N) ?A)" using f(1,2) assms(3) by simp
  then show ?thesis using f assms by (auto simp: snap_inv_def max_def)
qed

lemma snap_inv_skip:
  assumes "snap_inv E e n0 N F log t" "N < n0" "tk_skip t' = tk_skip t - 1"
  shows "F = []" "snap_inv E e n0 (Suc N) [] log t'"
proof -
  show F: "F = []" using assms(1,2) by (auto simp: snap_inv_def)
  show "snap_inv E e n0 (Suc N) [] log t'" using assms unfolding snap_inv_def F by (auto simp: max_def le_Suc_eq)
qed

lemma snap_inv_sent:
  assumes "snap_inv E e n0 N F log t" "F \<noteq> []" "h = delta_header c ts l"
  shows "snap_inv E e n0 N [] (log @ [h @ join F @ Trailer]) t"
proof -
  let ?A = "entries E e"
  have f: "length F \<le> N" "F = drop (N - length F) (take N ?A)" "n0 \<le> N - length F" "tk_skip t = n0 - N"
    "delivers log (take (max n0 N - length F) ?A)"
    using assms(1,2) by (simp_all only: snap_inv_def) auto
  have "take (N - length F) (take N ?A) @ drop (N - length F) (take N ?A) = take N ?A" by (rule append_take_drop_id)
  then have "take (N - length F) ?A @ F = take N ?A" using f(1,2) by (simp add: min_def)
  moreover have "max n0 N = N" using f(1,3) by simp
  ultimately show ?thesis using delivers_snoc [OF f(5) assms(2,3)] f(4) by (simp add: snap_inv_def)
qed

section \<open>One value at a time\<close>

lemma logged_cases:
  "logged sink d (s, log) = (True, s', log @ [d]) \<or> logged sink d (s, log) = (False, s', log)" if "sink d s = (ok, s')"
  using that by (cases ok) (auto simp: logged_def)

text \<open>A flush that is taken delivers the frame, one that is refused leaves the start of the frame for the cursor.\<close>

lemma flush_result:
  assumes "pb_tracking p = Some t" "pb_sink p = (s, log)" "df_holds cap h F (pb_frame p)" "h = delta_header c ts l"
    "snap_inv E e n0 N F log t"
  obtains (refused) p' where "flush (logged sink) p = (False, p')" "pass_refused sink E e p'"
  | (sent) p' s' log' where "flush (logged sink) p = (True, p')" "pb_tracking p' = Some t" "pb_sink p' = (s', log')"
      "snap_inv E e n0 N [] log' t" "df_ready cap (pb_frame p')" "\<not> df_open (pb_frame p')" "df_holds cap h [] (df_reopen (pb_frame p'))"
proof -
  note fin = df_finish_result [OF assms(3)]
  obtain delta fr where d: "df_finish (pb_frame p) = (delta, fr)" by fastforce
  show thesis
  proof (cases "F = []")
    case True
    then have "delta = []" using fin(1) d by simp
    then show thesis using fin d assms(1,2,5) True
      by (intro sent [of "p\<lparr>pb_frame := fr\<rparr>" s log]) (simp_all add: flush_def Let_def)
  next
    case False
    then have delta: "delta = h @ join F @ Trailer" "delta \<noteq> []" using fin(1) d by (simp_all add: Trailer_def)
    obtain ok s' where k: "sink delta s = (ok, s')" by fastforce
    show thesis
    proof (cases ok)
      case True
      let ?p = "p\<lparr>pb_frame := fr, pb_sink := (s', log @ [delta]), pb_deltas := pb_deltas p + 1, pb_values := pb_values p + of_nat (df_count (pb_frame p))\<rparr>"
      have "flush (logged sink) p = (True, ?p)" using True k d delta(2) assms(2) by (simp add: flush_def logged_def Let_def)
      then show thesis using sent [of ?p s' "log @ [delta]"] fin d assms(1) snap_inv_sent [OF assms(5) False assms(4)] delta(1) by simp
    next
      case no: False
      have "cursor_at E e (tk_frame_start t) (N - length F)" "n0 \<le> N - length F" "length F \<le> N" "delivers log (take (max n0 N - length F) (entries E e))"
        using assms(5) False by (simp_all add: snap_inv_def)
      then have "delivers log (take (N - length F) (entries E e))" by (simp add: max_def split: if_splits)
      moreover have "\<not> fst (sink delta s)" using k no by simp
      ultimately have "pass_refused sink E e (p\<lparr>pb_frame := fr, pb_sink := (s', log)\<rparr>)"
        using \<open>cursor_at E e (tk_frame_start t) (N - length F)\<close> assms(1) by (auto simp: pass_refused_def)
      moreover have "flush (logged sink) p = (False, p\<lparr>pb_frame := fr, pb_sink := (s', log)\<rparr>)"
        using no k d delta(2) assms(2) by (simp add: flush_def logged_def Let_def)
      ultimately show thesis by (rule refused [rotated])
    qed
  qed
qed

lemma note_added_mid:
  assumes "pb_tracking p = Some t" "pb_sink p = (s, log)" "df_holds cap h (F @ [x]) (pb_frame p)" "df_holds cap h F (df_undo_last (pb_frame p))"
    and "snap_inv E e n0 (base E q + i) F log t" "tk_position t = q" "tk_value t = i" "tk_start_position t = q0"
    and "1 \<le> q" "q < e" "i < length (E q)" "x = E q ! i" "first = (F = [])"
  shows "pass_mid E e n0 q0 cap h q (Suc i) (note_added first p)"
proof -
  let ?N = "base E q + i"
  note nth = entries_nth [where E = E, OF assms(9-11)]
  have skip: "tk_skip t = n0 - ?N" using assms(5) by (simp add: snap_inv_def)
  show ?thesis
  proof (cases "?N < n0")
    case True
    let ?t = "t\<lparr>tk_skip := tk_skip t - 1, tk_value := tk_value t + 1\<rparr>"
    have F: "F = []" "snap_inv E e n0 (Suc ?N) [] log ?t" using snap_inv_skip [OF assms(5) True, of ?t] by simp_all
    have "note_added first p = p\<lparr>pb_frame := df_undo_last (pb_frame p), pb_tracking := Some ?t\<rparr>"
      using assms(1) skip True by (simp add: note_added_def)
    then show ?thesis using F assms by (intro pass_midI [of _ ?t s log]) simp_all
  next
    case False
    let ?t = "t\<lparr>tk_value := tk_value t + 1, tk_frame_start := (if first then \<lparr>cu_position = q, cu_value = i\<rparr> else tk_frame_start t)\<rparr>"
    have "cursor_at E e \<lparr>cu_position = q, cu_value = i\<rparr> ?N" using assms(9-11) by (simp add: cursor_at_def)
    then have "snap_inv E e n0 (Suc ?N) (F @ [x]) log ?t"
      using False nth assms(12,13) skip by (intro snap_inv_add [OF assms(5)]) auto
    moreover have "note_added first p = p\<lparr>pb_tracking := Some ?t\<rparr>" using assms(1,6,7) skip False by (simp add: note_added_def)
    ultimately show ?thesis using assms by (intro pass_midI [of _ ?t s log]) simp_all
  qed
qed

text \<open>An attempt to add one value: it becomes the next entry, or it is too large for an empty delta, or the sink refused.\<close>

lemma attempt:
  assumes "pass_mid E e n0 q0 cap h q i p" "emits wv v" "h = delta_header c ts l" "1 \<le> q" "q < e"
    and "fits1 cap (length h) path v \<longrightarrow> i < length (E q) \<and> E q ! i = entry path v"
  obtains (refused) r p' where "add_or_split_result (logged sink) path wv p = (False, r, p')" "pass_refused sink E e p'"
  | (added) p' where "add_or_split_result (logged sink) path wv p = (True, Added, p')" "fits1 cap (length h) path v"
      "pass_mid E e n0 q0 cap h q (Suc i) p'"
  | (large) p' where "add_or_split_result (logged sink) path wv p = (True, TooLarge, p')" "\<not> fits1 cap (length h) path v"
      "pass_mid E e n0 q0 cap h q i p'"
proof -
  let ?x = "entry path v" and ?N = "base E q + i"
  obtain F t s log where m: "pb_tracking p = Some t" "pb_sink p = (s, log)" "df_holds cap h F (pb_frame p)"
    "snap_inv E e n0 ?N F log t" "tk_position t = q" "tk_value t = i" "tk_start_position t = q0"
    using assms(1) by (auto simp: pass_mid_def)
  have cnt: "df_count (pb_frame p) = length F" using m(3) by (simp add: df_holds_def)
  obtain r fr where add: "df_add path wv (pb_frame p) = (r, fr)" by fastforce
  let ?p1 = "p\<lparr>pb_frame := fr\<rparr>"
  note res = df_add_result [OF m(3) assms(2), of path, unfolded add fst_conv snd_conv]
  have one: "fits1 cap (length h) path v \<longleftrightarrow> length (h @ join ([] @ [?x])) < cap" by (simp add: fits1_def)
  show thesis
  proof (cases "length (h @ join (F @ [?x])) < cap")
    case True
    then have ok: "r = Added" "df_holds cap h (F @ [?x]) fr" "df_holds cap h F (df_undo_last fr)" using res by (simp_all split: if_splits)
    have "length (h @ join ([] @ [?x])) < cap" using True by (cases "F = []") (auto simp: join_snoc)
    then have fits: "fits1 cap (length h) path v" using one by simp
    have "pass_mid E e n0 q0 cap h q (Suc i) (note_added (F = []) ?p1)"
      by (rule note_added_mid [of ?p1 t s log cap h F ?x]) (use m ok assms(4-6) fits in simp_all)
    moreover have "add_or_split_result (logged sink) path wv p = (True, Added, note_added (F = []) ?p1)"
      using add ok(1) cnt by (simp add: add_or_split_result_def Let_def)
    ultimately show thesis using added fits by blast
  next
    case no: False
    show thesis
    proof (cases "F = []")
      case True
      then have ok: "r = TooLarge" "df_holds cap h F fr" using res no by (simp_all split: if_splits)
      have "pass_mid E e n0 q0 cap h q i ?p1" using ok(2) m by (intro pass_midI [of _ t s log]) simp_all
      moreover have "\<not> fits1 cap (length h) path v" using one no True by simp
      moreover have "add_or_split_result (logged sink) path wv p = (True, TooLarge, ?p1)"
        using add ok(1) by (simp add: add_or_split_result_def Let_def)
      ultimately show thesis using large by blast
    next
      case False
      then have ok: "r = Full" "df_holds cap h F fr" using res no by (simp_all split: if_splits)
      have p1: "pb_tracking ?p1 = Some t" "pb_sink ?p1 = (s, log)" "df_holds cap h F (pb_frame ?p1)" using m ok by simp_all
      show thesis
      proof (rule flush_result [OF p1 assms(3) m(4), of sink])
        fix p2 assume "flush (logged sink) ?p1 = (False, p2)" "pass_refused sink E e p2"
        then show thesis using refused [of Full p2] add ok(1) by (simp add: add_or_split_result_def Let_def)
      next
        fix p2 s' log' assume f: "flush (logged sink) ?p1 = (True, p2)" "pb_tracking p2 = Some t" "pb_sink p2 = (s', log')"
          "snap_inv E e n0 ?N [] log' t" "df_holds cap h [] (df_reopen (pb_frame p2))"
        obtain r' fr' where add': "df_add path wv (df_reopen (pb_frame p2)) = (r', fr')" by fastforce
        let ?p3 = "p2\<lparr>pb_frame := fr'\<rparr>"
        note res' = df_add_result [OF f(5) assms(2), of path, unfolded add' fst_conv snd_conv]
        have step: "add_or_split_result (logged sink) path wv p = (True, r', if r' = Added then note_added True ?p3 else ?p3)"
          using add ok(1) f(1) add' by (simp add: add_or_split_result_def Let_def)
        show thesis
        proof (cases "fits1 cap (length h) path v")
          case True
          then have ok': "r' = Added" "df_holds cap h ([] @ [?x]) fr'" "df_holds cap h [] (df_undo_last fr')"
            using res' one by (simp_all split: if_splits)
          have "pass_mid E e n0 q0 cap h q (Suc i) (note_added True ?p3)"
            by (rule note_added_mid [of ?p3 t s' log' cap h "[]" ?x]) (use m(5-7) f ok' assms(4-6) True in simp_all)
          then show thesis using added step ok'(1) True by simp
        next
          case lg: False
          then have ok': "r' = TooLarge" "df_holds cap h [] fr'" using res' one by (simp_all split: if_splits)
          have "pass_mid E e n0 q0 cap h q i ?p3" using ok'(2) f m(5-7) by (intro pass_midI [of _ t s' log']) simp_all
          then show thesis using large step ok'(1) lg by simp
        qed
      qed
    qed
  qed
qed

section \<open>Whole values\<close>

text \<open>\<open>f\<close> turns the entries \<open>L\<close> of a position into progress of the pass, or the sink refused on the way.\<close>

definition pass_result :: "'s sink \<Rightarrow> (nat \<Rightarrow> string list) \<Rightarrow> nat \<Rightarrow> nat \<Rightarrow> nat \<Rightarrow> nat \<Rightarrow> string \<Rightarrow> nat \<Rightarrow> nat \<Rightarrow> bool \<times> ('s \<times> string list) publisher \<Rightarrow> bool" where
  "pass_result sink E e n0 q0 cap h q i r \<longleftrightarrow> (if fst r then pass_mid E e n0 q0 cap h q i (snd r) else pass_refused sink E e (snd r))"

definition pass_runs :: "'s sink \<Rightarrow> (nat \<Rightarrow> string list) \<Rightarrow> nat \<Rightarrow> nat \<Rightarrow> nat \<Rightarrow> nat \<Rightarrow> string \<Rightarrow> nat \<Rightarrow> (('s \<times> string list) publisher \<Rightarrow> bool \<times> ('s \<times> string list) publisher) \<Rightarrow> string list \<Rightarrow> bool" where
  "pass_runs sink E e n0 q0 cap h q f L \<longleftrightarrow> (\<forall>i p. pass_mid E e n0 q0 cap h q i p \<longrightarrow> i + length L \<le> length (E q) \<longrightarrow>
     take (length L) (drop i (E q)) = L \<longrightarrow> pass_result sink E e n0 q0 cap h q (i + length L) (f p))"

lemma pass_mid_counters [simp]:
  "pass_mid E e n0 q0 cap h q i (pb_drop p) = pass_mid E e n0 q0 cap h q i p"
  "pass_mid E e n0 q0 cap h q i (p\<lparr>pb_truncated := x\<rparr>) = pass_mid E e n0 q0 cap h q i p"
  by (simp_all add: pass_mid_def pb_drop_def)

lemma pass_runsI:
  assumes "\<And>i p. pass_mid E e n0 q0 cap h q i p \<Longrightarrow> i + length L \<le> length (E q) \<Longrightarrow> take (length L) (drop i (E q)) = L \<Longrightarrow>
    pass_result sink E e n0 q0 cap h q (i + length L) (f p)"
  shows "pass_runs sink E e n0 q0 cap h q f L"
  using assms by (simp add: pass_runs_def)

lemma pass_runs_keep:
  fixes f :: "('s \<times> string list) publisher \<Rightarrow> bool \<times> ('s \<times> string list) publisher"
  assumes "\<And>p. f p = (True, p) \<or> f p = (True, pb_drop p)"
  shows "pass_runs sink E e n0 q0 cap h q f []"
proof (rule pass_runsI)
  fix i and p :: "('s \<times> string list) publisher"
  assume "pass_mid E e n0 q0 cap h q i p"
  then show "pass_result sink E e n0 q0 cap h q (i + length []) (f p)"
    using assms [of p] by (auto simp: pass_result_def)
qed

lemma pass_runs_seq:
  fixes f g k :: "('s \<times> string list) publisher \<Rightarrow> bool \<times> ('s \<times> string list) publisher"
  assumes "pass_runs sink E e n0 q0 cap h q f L" "pass_runs sink E e n0 q0 cap h q g M"
    and "\<And>p. k p = (case f p of (False, p1) \<Rightarrow> (False, p1) | (True, p1) \<Rightarrow> g p1)"
  shows "pass_runs sink E e n0 q0 cap h q k (L @ M)"
proof (rule pass_runsI)
  fix i and p :: "('s \<times> string list) publisher"
  assume p: "pass_mid E e n0 q0 cap h q i p" "i + length (L @ M) \<le> length (E q)" "take (length (L @ M)) (drop i (E q)) = L @ M"
  have t: "take (length L) (drop i (E q)) @ take (length M) (drop (i + length L) (E q)) = L @ M"
    using p(3) by (simp add: take_add add.commute)
  have "length (take (length L) (drop i (E q))) = length L" using p(2) by simp
  with t have L: "take (length L) (drop i (E q)) = L" and M: "take (length M) (drop (i + length L) (E q)) = M" by simp_all
  obtain ok p1 where f: "f p = (ok, p1)" by fastforce
  have r: "pass_result sink E e n0 q0 cap h q (i + length L) (ok, p1)"
    using assms(1) [unfolded pass_runs_def, rule_format, OF p(1) _ L] p(2) f by simp
  show "pass_result sink E e n0 q0 cap h q (i + length (L @ M)) (k p)"
  proof (cases ok)
    case True
    then have "pass_mid E e n0 q0 cap h q (i + length L) p1" using r by (simp add: pass_result_def)
    from assms(2) [unfolded pass_runs_def, rule_format, OF this _ M] p(2) True f
    show ?thesis by (simp add: assms(3) add.assoc)
  next
    case False
    with r f show ?thesis by (simp add: assms(3) pass_result_def)
  qed
qed

text \<open>One attempt, then what happens where the value is too large.\<close>

lemma pass_runs_attempt:
  fixes g k :: "('s \<times> string list) publisher \<Rightarrow> bool \<times> ('s \<times> string list) publisher"
  assumes "emits wv v" "h = delta_header c ts l" "1 \<le> q" "q < e"
    and k: "\<And>p. k p = (case add_or_split_result (logged sink) path wv p of
      (False, _, p1) \<Rightarrow> (False, p1) | (True, r, p1) \<Rightarrow> if r \<noteq> TooLarge then (True, up p1) else g p1)"
    and up: "\<And>p i. pass_mid E e n0 q0 cap h q i (up p) = pass_mid E e n0 q0 cap h q i p"
    and g: "\<not> fits1 cap (length h) path v \<Longrightarrow> pass_runs sink E e n0 q0 cap h q g M"
  shows "pass_runs sink E e n0 q0 cap h q k (if fits1 cap (length h) path v then [entry path v] else M)"
proof (rule pass_runsI)
  fix i and p :: "('s \<times> string list) publisher"
  let ?L = "if fits1 cap (length h) path v then [entry path v] else M"
  assume p: "pass_mid E e n0 q0 cap h q i p" "i + length ?L \<le> length (E q)" "take (length ?L) (drop i (E q)) = ?L"
  have nth: "fits1 cap (length h) path v \<longrightarrow> i < length (E q) \<and> E q ! i = entry path v"
  proof
    assume fits: "fits1 cap (length h) path v"
    then have "i < length (E q)" "take 1 (drop i (E q)) = [entry path v]" using p(2,3) by simp_all
    then show "i < length (E q) \<and> E q ! i = entry path v" by (simp add: Cons_nth_drop_Suc [symmetric])
  qed
  show "pass_result sink E e n0 q0 cap h q (i + length ?L) (k p)"
    by (rule attempt [OF p(1) assms(1-4) nth, of sink])
      (use p g up in \<open>auto simp: k pass_result_def pass_runs_def\<close>)
qed

lemma pass_runs_truncated:
  assumes "h = delta_header c ts l" "1 \<le> q" "q < e"
  shows "pass_runs sink E e n0 q0 cap h q (add_truncated_text (logged sink) path s len) (trunc_emit cap (length h) path s len)"
proof (induction len rule: less_induct)
  case (less len)
  show ?case
  proof (cases "len = 0")
    case True
    then have "trunc_emit cap (length h) path s len = []" by (simp add: trunc_emit.simps)
    moreover have "pass_runs sink E e n0 q0 cap h q (add_truncated_text (logged sink) path s len) []"
      by (rule pass_runs_keep) (simp add: add_truncated_text.simps True)
    ultimately show ?thesis by simp
  next
    case False
    let ?n = "shorter s len"
    have "pass_runs sink E e n0 q0 cap h q (add_truncated_text (logged sink) path s len)
      (if fits1 cap (length h) path (quoted (take ?n s)) then [entry path (quoted (take ?n s))] else trunc_emit cap (length h) path s ?n)"
      by (rule pass_runs_attempt [OF emits_quoted_len assms, where g = "add_truncated_text (logged sink) path s ?n" and up = "\<lambda>p. p\<lparr>pb_truncated := pb_truncated p + 1\<rparr>"])
        (use False less shorter_less in \<open>simp_all add: add_truncated_text.simps [of _ _ _ len]\<close>)
    then show ?thesis using False by (simp add: trunc_emit.simps [of _ _ _ _ len] Let_def)
  qed
qed

lemma pass_runs_members:
  assumes "\<And>path v. pass_runs sink E e n0 q0 cap h q (add path v) (emit path v)"
  shows "pass_runs sink E e n0 q0 cap h q (add_members add path ms) (members_emit emit path ms)"
proof (induction ms)
  case Nil
  show ?case by (simp add: pass_runs_keep)
next
  case (Cons m ms)
  obtain key v where m: "m = (key, v)" by fastforce
  let ?bad = "child_path path key = [] \<or> 160 \<le> length (child_path path key)"
  let ?f = "\<lambda>p. if ?bad then (True, pb_drop p) else add (child_path path key) v p"
  have "pass_runs sink E e n0 q0 cap h q ?f (if ?bad then [] else emit (child_path path key) v)"
    using assms by (cases ?bad) (auto intro: pass_runs_keep)
  then have "pass_runs sink E e n0 q0 cap h q (add_members add path (m # ms)) ((if ?bad then [] else emit (child_path path key) v) @ members_emit emit path ms)"
    by (rule pass_runs_seq [OF _ Cons.IH]) (simp add: m)
  then show ?case unfolding m members_emit.simps .
qed

lemma pass_runs_scalar:
  assumes "h = delta_header c ts l" "1 \<le> q" "q < e"
    and "\<And>ms. pass_runs sink E e n0 q0 cap h q (split ms) (split_emit ms)"
  shows "pass_runs sink E e n0 q0 cap h q (add_json_scalar (logged sink) ser split path v) (scalar_emit cap (length h) ser split_emit path v)"
proof -
  let ?g = "\<lambda>p. case v of JsText s \<Rightarrow> add_truncated_text (logged sink) path s (length s) p | JsObject ms \<Rightarrow> split ms p | JsOther _ \<Rightarrow> (True, pb_drop p)"
  let ?M = "case v of JsText s \<Rightarrow> trunc_emit cap (length h) path s (length s) | JsObject ms \<Rightarrow> split_emit ms | JsOther _ \<Rightarrow> []"
  have "pass_runs sink E e n0 q0 cap h q ?g ?M"
    using pass_runs_truncated [OF assms(1-3)] assms(4) by (cases v) (auto intro: pass_runs_keep)
  then show ?thesis
    unfolding scalar_emit_def
    by (intro pass_runs_attempt [OF emits_json assms(1-3), where g = ?g and up = "\<lambda>p. p"])
      (simp_all add: add_json_scalar_def)
qed

lemma pass_runs_json:
  assumes "h = delta_header c ts l" "1 \<le> q" "q < e"
  shows "pass_runs sink E e n0 q0 cap h q (add_json_split (logged sink) ser levels path v) (json_emit cap (length h) ser levels path v)"
proof (induction levels arbitrary: path v)
  case 0
  have "pass_runs sink E e n0 q0 cap h q ((\<lambda>ms p. (True, pb_drop p)) ms) []" for ms by (rule pass_runs_keep) simp
  from pass_runs_scalar [OF assms, where split = "\<lambda>ms p. (True, pb_drop p)" and split_emit = "\<lambda>_. []", OF this] show ?case by simp
next
  case (Suc levels)
  have "pass_runs sink E e n0 q0 cap h q (add_members (add_json_split (logged sink) ser levels) path ms)
    (members_emit (json_emit cap (length h) ser levels) path ms)" for ms
    by (rule pass_runs_members) (rule Suc.IH)
  from pass_runs_scalar [OF assms, where split = "add_members (add_json_split (logged sink) ser levels) path", OF this]
  show ?case by simp
qed

lemma pass_runs_value:
  assumes "h = delta_header c ts l" "1 \<le> q" "q < e" "emits (pv_write v) (vtext v)"
  shows "pass_runs sink E e n0 q0 cap h q (add_value (logged sink) ser v) (value_emit cap (length h) ser vtext v)"
proof -
  let ?g = "\<lambda>p. if pv_kind v = KindText then add_truncated_text (logged sink) (pv_path v) (pv_text v) (length (pv_text v)) p
    else if pv_kind v \<noteq> KindObject then (True, pb_drop p)
    else (case pv_object v of None \<Rightarrow> (True, p) | Some j \<Rightarrow> add_json_split (logged sink) ser MaxObjectSplitDepth (pv_path v) j p)"
  let ?M = "if pv_kind v = KindText then trunc_emit cap (length h) (pv_path v) (pv_text v) (length (pv_text v))
    else if pv_kind v \<noteq> KindObject then [] else (case pv_object v of None \<Rightarrow> [] | Some j \<Rightarrow> json_emit cap (length h) ser MaxObjectSplitDepth (pv_path v) j)"
  have "pass_runs sink E e n0 q0 cap h q ?g ?M"
    using pass_runs_truncated [OF assms(1-3)] pass_runs_json [OF assms(1-3)]
    by (cases "pv_object v") (auto intro: pass_runs_keep)
  then show ?thesis
    unfolding value_emit_def
    by (intro pass_runs_attempt [OF assms(4,1-3), where g = ?g and up = "\<lambda>p. p"]) (simp_all add: add_value_def)
qed

fun items_emit :: "nat \<Rightarrow> nat \<Rightarrow> (string \<times> string) list \<Rightarrow> string list" where
  "items_emit cap hl [] = []"
| "items_emit cap hl ((path, v) # items) = (if fits1 cap hl path v then [entry path v] else []) @ items_emit cap hl items"

lemma pass_runs_items:
  assumes "h = delta_header c ts l" "1 \<le> q" "q < e" "list_all2 (\<lambda>(p, wv) (p', v). p = p' \<and> emits wv v) items vs"
  shows "pass_runs sink E e n0 q0 cap h q (add_items (logged sink) items) (items_emit cap (length h) vs)"
  using assms(4)
proof (induction items arbitrary: vs)
  case Nil
  then show ?case by (simp add: pass_runs_keep)
next
  case (Cons item items)
  obtain path wv where item: "item = (path, wv)" by fastforce
  from Cons.prems obtain v vs' where vs: "vs = (path, v) # vs'" "emits wv v" "list_all2 (\<lambda>(p, wv) (p', v). p = p' \<and> emits wv v) items vs'"
    by (auto simp: list_all2_Cons1 item)
  have "pass_runs sink E e n0 q0 cap h q (\<lambda>p. (True, pb_drop p)) []" by (rule pass_runs_keep) simp
  then have "pass_runs sink E e n0 q0 cap h q (add_or_split (logged sink) path wv) (if fits1 cap (length h) path v then [entry path v] else [])"
    by (intro pass_runs_attempt [OF vs(2) assms(1-3), where g = "\<lambda>p. (True, pb_drop p)" and up = "\<lambda>p. p" and sink = sink])
      (auto simp: add_or_split_def split: prod.splits bool.splits)
  then have "pass_runs sink E e n0 q0 cap h q (add_items (logged sink) (item # items)) ((if fits1 cap (length h) path v then [entry path v] else []) @ items_emit cap (length h) vs')"
    by (rule pass_runs_seq [OF _ Cons.IH [OF vs(3)]]) (simp add: item)
  then show ?case unfolding vs(1) items_emit.simps .
qed

section \<open>Passes\<close>

text \<open>Between two positions: the frame is closed, or it is open with the header of its source.\<close>

definition pass_head :: "(nat \<Rightarrow> string list) \<Rightarrow> nat \<Rightarrow> nat \<Rightarrow> nat \<Rightarrow> nat \<Rightarrow> (nat \<Rightarrow> string) \<Rightarrow> nat \<Rightarrow> nat \<Rightarrow> ('s \<times> string list) publisher \<Rightarrow> bool" where
  "pass_head E e n0 q0 cap hdr q src p \<longleftrightarrow> (\<exists>F t s log. pb_tracking p = Some t \<and> pb_sink p = (s, log) \<and> snap_inv E e n0 (base E q) F log t \<and>
     tk_start_position t = q0 \<and> tk_position t < q \<and>
     (if df_open (pb_frame p) then df_holds cap (hdr src) F (pb_frame p) else F = [] \<and> df_ready cap (pb_frame p)))"

lemma pass_headE:
  assumes "pass_head E e n0 q0 cap hdr q src p"
  obtains F t s log where "pb_tracking p = Some t" "pb_sink p = (s, log)" "snap_inv E e n0 (base E q) F log t"
    "tk_start_position t = q0" "tk_position t < q"
    "if df_open (pb_frame p) then df_holds cap (hdr src) F (pb_frame p) else F = [] \<and> df_ready cap (pb_frame p)"
  using assms unfolding pass_head_def by blast

lemma pass_headI:
  "pb_tracking p = Some t \<Longrightarrow> pb_sink p = (s, log) \<Longrightarrow> snap_inv E e n0 (base E q) F log t \<Longrightarrow> tk_start_position t = q0 \<Longrightarrow> tk_position t < q \<Longrightarrow>
   (if df_open (pb_frame p) then df_holds cap (hdr src) F (pb_frame p) else F = [] \<and> df_ready cap (pb_frame p)) \<Longrightarrow> pass_head E e n0 q0 cap hdr q src p"
  unfolding pass_head_def by (intro exI conjI)

lemma pass_head_empty:
  "pass_head E e n0 q0 cap hdr q src p \<Longrightarrow> 1 \<le> q \<Longrightarrow> E q = [] \<Longrightarrow> pass_head E e n0 q0 cap hdr (Suc q) src p"
  by (erule pass_headE, rule pass_headI) (auto simp: base_Suc)

lemma pass_head_drop [simp]: "pass_head E e n0 q0 cap hdr q src (pb_drop p) = pass_head E e n0 q0 cap hdr q src p"
  by (simp add: pass_head_def pb_drop_def)

lemma pass_enter:
  assumes "pb_tracking p = Some t" "pb_sink p = (s, log)" "snap_inv E e n0 (base E q) F log t" "tk_start_position t = q0" "tk_position t < q"
    "df_holds cap h F (pb_frame p)" "q \<noteq> q0 \<longrightarrow> n0 \<le> base E q"
  shows "pass_mid E e n0 q0 cap h q 0 (enter q p)"
  by (rule pass_midI [of _ "tk_enter q t" s log cap h F]) (use assms in \<open>auto simp: enter_def tk_enter_def snap_inv_def\<close>)

lemma pass_mid_head:
  assumes "pass_mid E e n0 q0 cap (hdr src) q (length (E q)) p" "1 \<le> q"
  shows "pass_head E e n0 q0 cap hdr (Suc q) src p"
proof -
  obtain F t s log where "pb_tracking p = Some t" "pb_sink p = (s, log)" "df_holds cap (hdr src) F (pb_frame p)"
    "snap_inv E e n0 (base E q + length (E q)) F log t" "tk_position t = q" "tk_start_position t = q0"
    using assms(1) unfolding pass_mid_def by blast
  then show ?thesis using assms(2) by (intro pass_headI [of p t s log _ _ _ _ F]) (auto simp: base_Suc df_holds_def)
qed

lemma pass_flush:
  assumes "pass_head E e n0 q0 cap hdr q src p" "\<And>src. \<exists>c t l. hdr src = delta_header c t l"
  obtains (refused) p' where "flush (logged sink) p = (False, p')" "pass_refused sink E e p'"
  | (sent) p' where "flush (logged sink) p = (True, p')" "\<not> df_open (pb_frame p')" "\<And>src. pass_head E e n0 q0 cap hdr q src p'"
proof -
  obtain F t s log where m: "pb_tracking p = Some t" "pb_sink p = (s, log)" "snap_inv E e n0 (base E q) F log t"
    "tk_start_position t = q0" "tk_position t < q"
    "if df_open (pb_frame p) then df_holds cap (hdr src) F (pb_frame p) else F = [] \<and> df_ready cap (pb_frame p)"
    using assms(1) by (rule pass_headE)
  show thesis
  proof (cases "df_open (pb_frame p)")
    case True
    then have holds: "df_holds cap (hdr src) F (pb_frame p)" using m(6) by simp
    obtain c ts l where h: "hdr src = delta_header c ts l" using assms(2) by blast
    show thesis
    proof (rule flush_result [OF m(1,2) holds h m(3), of sink])
      fix p' s' log'
      assume f: "flush (logged sink) p = (True, p')" "pb_tracking p' = Some t" "pb_sink p' = (s', log')"
        "snap_inv E e n0 (base E q) [] log' t" "df_ready cap (pb_frame p')" "\<not> df_open (pb_frame p')"
      then have "pass_head E e n0 q0 cap hdr q src' p'" for src' using m(4,5) by (intro pass_headI [of p' t s' log' _ _ _ _ "[]"]) simp_all
      then show thesis using sent f by blast
    qed (rule refused)
  next
    case False
    let ?p = "p\<lparr>pb_frame := (pb_frame p)\<lparr>df_open := False\<rparr>\<rparr>"
    have "flush (logged sink) p = (True, ?p)" using False by (simp add: flush_def df_finish_def)
    moreover have "pass_head E e n0 q0 cap hdr q src' ?p" for src'
      using m False by (intro pass_headI [of ?p t s log _ _ _ _ "[]"]) (simp_all add: df_ready_def)
    ultimately show thesis using sent [of ?p] by simp
  qed
qed

definition field_emit :: "snapshot_env \<Rightarrow> (publish_value \<Rightarrow> string) \<Rightarrow> string \<Rightarrow> nat \<Rightarrow> string list" where
  "field_emit env vtext ts q =
     (case se_value env q of
        None \<Rightarrow> []
      | Some v \<Rightarrow>
          (let cap = se_capacity env - length Trailer; hl = length (delta_header (se_context env) ts (se_label env (pv_source v)))
           in if hl < cap then value_emit cap hl (se_ser env) vtext v else []))"

definition field_header :: "snapshot_env \<Rightarrow> string \<Rightarrow> nat \<Rightarrow> string" where
  "field_header env ts src = delta_header (se_context env) ts (se_label env src)"

text \<open>One field of the model.\<close>

lemma field_step:
  assumes "pass_head E e n0 q0 cap (field_header env ts) q src p" "1 \<le> q" "q < e" "q \<noteq> q0 \<longrightarrow> n0 \<le> base E q"
    and "se_value env q = Some v" "emits (pv_write v) (vtext v)" "E q = field_emit env vtext ts q" "cap = se_capacity env - length Trailer"
  obtains (refused) p' where "\<And>ps. snapshot_fields env ts (logged sink) (q # ps) src p = (False, p')" "pass_refused sink E e p'"
  | (continue) p' src' where "\<And>ps. snapshot_fields env ts (logged sink) (q # ps) src p = snapshot_fields env ts (logged sink) ps src' p'"
      "pass_head E e n0 q0 cap (field_header env ts) (Suc q) src' p'"
proof -
  let ?hdr = "field_header env ts" and ?need = "df_open (pb_frame p) \<and> (pv_source v \<noteq> src \<or> se_batch env \<le> df_count (pb_frame p))"
  let ?h = "?hdr (pv_source v)"
  obtain sent p1 where s1: "(if ?need then flush (logged sink) p else (True, p)) = (sent, p1)" by fastforce
  have hdr: "\<exists>c t l. ?hdr src = delta_header c t l" for src by (auto simp: field_header_def)
  consider "\<not> sent" "pass_refused sink E e p1" | "sent" "pass_head E e n0 q0 cap ?hdr q src p1" "df_open (pb_frame p1) \<longrightarrow> src = pv_source v"
  proof (cases ?need)
    case True
    show thesis by (rule pass_flush [OF assms(1) hdr, of sink]) (use s1 True that in auto)
  next
    case False
    then show thesis using s1 assms(1) that by auto
  qed
  then show thesis
  proof cases
    case 1
    then show thesis using refused [of p1] s1 by (simp add: assms(5))
  next
    case 2
    obtain F t s log where m: "pb_tracking p1 = Some t" "pb_sink p1 = (s, log)" "snap_inv E e n0 (base E q) F log t"
      "tk_start_position t = q0" "tk_position t < q"
      "if df_open (pb_frame p1) then df_holds cap (?hdr src) F (pb_frame p1) else F = [] \<and> df_ready cap (pb_frame p1)"
      using 2(2) by (rule pass_headE)
    obtain ok fr where b: "df_begin (se_context env) ts (se_label env (pv_source v)) (pb_frame p1) = (ok, fr)" by fastforce
    let ?p2 = "if df_open (pb_frame p1) then p1 else p1\<lparr>pb_frame := fr\<rparr>" and ?ready = "df_open (pb_frame p1) \<or> ok"
    have begin': "\<not> df_open (pb_frame p1) \<Longrightarrow> if length ?h < cap then ok \<and> df_holds cap ?h [] fr else \<not> ok \<and> df_ready cap fr \<and> \<not> df_open fr"
      using df_begin_result [of cap "pb_frame p1" "se_context env" ts "se_label env (pv_source v)"] m(6) b by (simp add: field_header_def split: if_splits)
    let ?src = "if df_open (pb_frame p1) then src else if ok then pv_source v else src"
    have step: "snapshot_fields env ts (logged sink) (q # ps) src p =
      (if ?ready then (case add_value (logged sink) (se_ser env) v (enter q ?p2) of (False, p3) \<Rightarrow> (False, p3) | (True, p3) \<Rightarrow> snapshot_fields env ts (logged sink) ps ?src p3)
       else snapshot_fields env ts (logged sink) ps ?src (pb_drop ?p2))" for ps
      using s1 b 2(1) by (auto simp: assms(5))
    show thesis
    proof (cases ?ready)
      case True
      have holds: "df_holds cap ?h F (pb_frame ?p2)" using True m(6) 2(3) begin' by (auto split: if_splits)
      then have hl: "length ?h < cap" by (simp add: df_holds_def)
      have mid: "pass_mid E e n0 q0 cap ?h q 0 (enter q ?p2)"
        by (rule pass_enter [of _ t s log]) (use m holds assms(4) in auto)
      have E: "E q = value_emit cap (length ?h) (se_ser env) vtext v"
        using hl assms(5,7,8) by (simp add: field_emit_def field_header_def Let_def)
      have "pass_runs sink E e n0 q0 cap ?h q (add_value (logged sink) (se_ser env) v) (E q)"
        unfolding E by (rule pass_runs_value [where vtext = vtext and c = "se_context env" and ts = ts and l = "se_label env (pv_source v)"])
          (use assms(2,3,6) in \<open>simp_all add: field_header_def\<close>)
      from this [unfolded pass_runs_def, rule_format, OF mid]
      have r: "pass_result sink E e n0 q0 cap ?h q (length (E q)) (add_value (logged sink) (se_ser env) v (enter q ?p2))" by simp
      obtain fin p3 where a: "add_value (logged sink) (se_ser env) v (enter q ?p2) = (fin, p3)" by fastforce
      have src: "?src = pv_source v" using 2(3) True by auto
      show thesis
      proof (cases fin)
        case True
        with r a have "pass_head E e n0 q0 cap ?hdr (Suc q) (pv_source v) p3"
          using pass_mid_head [of E e n0 q0 cap ?hdr "pv_source v" q p3] assms(2) by (simp add: pass_result_def)
        then show thesis using continue [of "pv_source v" p3] step a src True \<open>?ready\<close> by simp
      next
        case False
        with r a show thesis using refused [of p3] step \<open>?ready\<close> by (simp add: pass_result_def)
      qed
    next
      case False
      then have no: "\<not> df_open (pb_frame p1)" "\<not> ok" "df_ready cap fr" "\<not> df_open fr" "\<not> length ?h < cap" using begin' by (auto split: if_splits)
      have "E q = []" using no(5) assms(5,7,8) by (simp add: field_emit_def field_header_def Let_def)
      moreover have "pass_head E e n0 q0 cap ?hdr q src ?p2" using m no by (intro pass_headI [of _ t s log _ _ _ _ F]) simp_all
      ultimately have "pass_head E e n0 q0 cap ?hdr (Suc q) src (pb_drop ?p2)" using assms(2) by (simp add: pass_head_empty)
      then show thesis using continue [of src "pb_drop ?p2"] step no(1,2) by simp
    qed
  qed
qed

lemma snapshot_fields_result:
  assumes "pass_head E e n0 q0 cap (field_header env ts) q src p" "1 \<le> q" "q0 \<le> q" "q \<le> se_fields env" "se_fields env \<le> e"
    and "\<And>r. q0 < r \<Longrightarrow> n0 \<le> base E r" "\<And>r v. se_value env r = Some v \<Longrightarrow> emits (pv_write v) (vtext v)"
    and "\<And>r. q \<le> r \<Longrightarrow> r < se_fields env \<Longrightarrow> E r = field_emit env vtext ts r" "cap = se_capacity env - length Trailer"
  shows "case snapshot_fields env ts (logged sink) [q..<se_fields env] src p of
    (False, p') \<Rightarrow> pass_refused sink E e p'
  | (True, p') \<Rightarrow> \<not> df_open (pb_frame p') \<and> pass_head E e n0 q0 cap (field_header env ts) (se_fields env) 0 p'"
  using assms(1-4,8)
proof (induction "se_fields env - q" arbitrary: q src p)
  case 0
  then have q: "q = se_fields env" by simp
  have hdr: "\<exists>c t l. field_header env ts src = delta_header c t l" for src by (auto simp: field_header_def)
  show ?case by (rule pass_flush [OF 0(2) hdr, of sink]) (use q in auto)
next
  case (Suc k)
  have q: "[q..<se_fields env] = q # [Suc q..<se_fields env]" "q < se_fields env" using Suc(2) by (simp_all add: upt_conv_Cons)
  have IH: "case snapshot_fields env ts (logged sink) [Suc q..<se_fields env] src' p' of
      (False, p'') \<Rightarrow> pass_refused sink E e p'' | (True, p'') \<Rightarrow> \<not> df_open (pb_frame p'') \<and> pass_head E e n0 q0 cap (field_header env ts) (se_fields env) 0 p''"
    if "pass_head E e n0 q0 cap (field_header env ts) (Suc q) src' p'" for src' p'
    by (rule Suc.hyps(1)) (use Suc.hyps(2) Suc.prems that in auto)
  show ?case
  proof (cases "se_value env q")
    case None
    then have "E q = []" using Suc.prems(5) [of q] q(2) by (simp add: field_emit_def)
    then have "pass_head E e n0 q0 cap (field_header env ts) (Suc q) src p" using Suc.prems(1,2) by (simp add: pass_head_empty)
    from IH [OF this] show ?thesis by (simp add: q(1) None)
  next
    case (Some v)
    have n0: "q \<noteq> q0 \<longrightarrow> n0 \<le> base E q" using assms(6) [of q] Suc.prems(3) by auto
    have "q < e" using q(2) assms(5) by simp
    show ?thesis
    proof (rule field_step [OF Suc.prems(1,2) \<open>q < e\<close> n0 Some assms(7) [OF Some] Suc.prems(5) [OF order_refl q(2)] assms(9), of sink])
      fix p' assume "\<And>ps. snapshot_fields env ts (logged sink) (q # ps) src p = (False, p')" "pass_refused sink E e p'"
      then show ?thesis by (simp only: q(1)) simp
    next
      fix p' src' assume "\<And>ps. snapshot_fields env ts (logged sink) (q # ps) src p = snapshot_fields env ts (logged sink) ps src' p'"
        "pass_head E e n0 q0 cap (field_header env ts) (Suc q) src' p'"
      then show ?thesis using IH by (simp only: q(1))
    qed
  qed
qed

definition ais_texts :: "string \<Rightarrow> ais_target \<Rightarrow> (string \<times> string) list" where
  "ais_texts mmsi t =
     [('''', ''{'' @ (if at_name t \<noteq> [] then ''\"name\":'' @ quoted (at_name t) @ '','' else []) @ ''\"mmsi\":'' @ quoted mmsi @ ''}'')] @
     (case at_position t of None \<Rightarrow> [] | Some (lat, lon) \<Rightarrow> [(''navigation.position'', ''{\"latitude\":'' @ lat @ '',\"longitude\":'' @ lon @ ''}'')]) @
     (case at_speed t of None \<Rightarrow> [] | Some v \<Rightarrow> [(''navigation.speedOverGround'', v)]) @
     (case at_course t of None \<Rightarrow> [] | Some v \<Rightarrow> [(''navigation.courseOverGroundTrue'', v)]) @
     (case at_heading t of None \<Rightarrow> [] | Some v \<Rightarrow> [(''navigation.headingTrue'', v)])"

text \<open>What \<^verbatim>\<open>printf\<close> promises of the numbers of a target: some text of at most 31 characters.\<close>

definition number_text :: "string \<Rightarrow> bool" where
  "number_text s \<longleftrightarrow> s \<noteq> [] \<and> length s < 32"

definition target_numbers_ok :: "ais_target \<Rightarrow> bool" where
  "target_numbers_ok t \<longleftrightarrow> (case at_position t of None \<Rightarrow> True | Some (lat, lon) \<Rightarrow> number_text lat \<and> number_text lon) \<and>
     list_all (\<lambda>x. case x of None \<Rightarrow> True | Some v \<Rightarrow> number_text v) [at_speed t, at_course t, at_heading t]"

lemma emits_number: "number_text s \<Longrightarrow> emits (append_real s) s"
  by (simp add: number_text_def emits_real)

lemma emits_position:
  assumes "number_text lat" "number_text lon"
  shows "emits (jw_all [append_raw ''{\"latitude\":'', append_real lat, append_raw '',\"longitude\":'', append_real lon, append_char (CHR ''}'')])
    (''{\"latitude\":'' @ lat @ '',\"longitude\":'' @ lon @ ''}'')"
proof -
  have "list_all2 emits [append_raw ''{\"latitude\":'', append_real lat, append_raw '',\"longitude\":'', append_real lon, append_char (CHR ''}'')]
    [''{\"latitude\":'', lat, '',\"longitude\":'', lon, ''}'']"
    using assms by (auto simp: list_all2_Cons1 emits_number)
  from emits_all [OF this] show ?thesis by simp
qed

lemma emits_identity:
  "emits (jw_all ([append_char (CHR ''{'')] @ (if n \<noteq> [] then [append_raw ''\"name\":'', append_quoted n, append_char (CHR '','')] else []) @
      [append_raw ''\"mmsi\":'', append_quoted mmsi, append_char (CHR ''}'')]))
    (''{'' @ (if n \<noteq> [] then ''\"name\":'' @ quoted n @ '','' else []) @ ''\"mmsi\":'' @ quoted mmsi @ ''}'')"
proof -
  have "list_all2 emits ([append_char (CHR ''{'')] @ (if n \<noteq> [] then [append_raw ''\"name\":'', append_quoted n, append_char (CHR '','')] else []) @
      [append_raw ''\"mmsi\":'', append_quoted mmsi, append_char (CHR ''}'')])
    ([''{''] @ (if n \<noteq> [] then [''\"name\":'', quoted n, '',''] else []) @ [''\"mmsi\":'', quoted mmsi, ''}''])"
    by (intro list_all2_appendI) (auto simp: list_all2_Cons1)
  from emits_all [OF this] show ?thesis by (cases "n = []") simp_all
qed

lemma ais_items_emit:
  assumes "target_numbers_ok t"
  shows "list_all2 (\<lambda>(p, wv) (p', v). p = p' \<and> emits wv v) (ais_items mmsi t) (ais_texts mmsi t)"
proof -
  have pos: "list_all2 (\<lambda>(p, wv) (p', v). p = p' \<and> emits wv v)
      (case at_position t of None \<Rightarrow> [] | Some (lat, lon) \<Rightarrow>
        [(''navigation.position'', jw_all [append_raw ''{\"latitude\":'', append_real lat, append_raw '',\"longitude\":'', append_real lon, append_char (CHR ''}'')])])
      (case at_position t of None \<Rightarrow> [] | Some (lat, lon) \<Rightarrow> [(''navigation.position'', ''{\"latitude\":'' @ lat @ '',\"longitude\":'' @ lon @ ''}'')])"
    using assms emits_position by (cases "at_position t") (auto simp only: target_numbers_ok_def option.case prod.case list_all2_Nil list_all2_Cons split: prod.splits)
  have num: "list_all2 (\<lambda>(p, wv) (p', v). p = p' \<and> emits wv v)
      (case x of None \<Rightarrow> [] | Some v \<Rightarrow> [(path, append_real v)]) (case x of None \<Rightarrow> [] | Some v \<Rightarrow> [(path, v)])"
    if "x \<in> {at_speed t, at_course t, at_heading t}" for x path
    using assms that emits_number unfolding target_numbers_ok_def by (cases x) (auto split: option.splits)
  show ?thesis
    unfolding ais_items_def ais_texts_def
    by (intro list_all2_appendI pos num) (simp_all only: list_all2_Cons list_all2_Nil prod.case emits_identity insert_iff simp_thms)
qed

definition target_emit :: "snapshot_env \<Rightarrow> string \<Rightarrow> nat \<Rightarrow> string list" where
  "target_emit env ts q =
     (let t = se_targets env ! (q - se_fields env); cap = se_capacity env - length Trailer in
      if \<not> se_ais_current env t then []
      else (case ais_context t of
              None \<Rightarrow> []
            | Some (mmsi, ctx) \<Rightarrow>
                (let hl = length (delta_header ctx ts (se_ais_label env)) in
                 if hl < cap then items_emit cap hl (ais_texts mmsi t) else [])))"

lemma pass_head_closedE:
  assumes "pass_head E e n0 q0 cap hdr q src p" "\<not> df_open (pb_frame p)"
  obtains t s log where "pb_tracking p = Some t" "pb_sink p = (s, log)" "snap_inv E e n0 (base E q) [] log t"
    "tk_start_position t = q0" "tk_position t < q" "df_ready cap (pb_frame p)"
  using pass_headE [OF assms(1)] assms(2) by metis

lemma pass_head_closed:
  "\<not> df_open (pb_frame p) \<Longrightarrow> pass_head E e n0 q0 cap hdr q src p \<Longrightarrow> pass_head E e n0 q0 cap hdr' q src' p"
  by (erule pass_headE, rule pass_headI) auto

lemma pass_head_enter_empty:
  assumes "pass_head E e n0 q0 cap hdr q src p" "\<not> df_open (pb_frame p)" "1 \<le> q" "E q = []" "q \<noteq> q0 \<longrightarrow> n0 \<le> base E q"
  shows "pass_head E e n0 q0 cap hdr (Suc q) src (enter q p)"
proof -
  obtain F t s log where m: "pb_tracking p = Some t" "pb_sink p = (s, log)" "snap_inv E e n0 (base E q) F log t"
    "tk_start_position t = q0" "tk_position t < q" "F = [] \<and> df_ready cap (pb_frame p)"
    using assms(1,2) by (auto elim: pass_headE)
  then show ?thesis using assms(2-5)
    by (intro pass_headI [of _ "tk_enter q t" s log _ _ _ _ F]) (auto simp: enter_def tk_enter_def base_Suc snap_inv_def)
qed

lemma target_step:
  assumes head: "pass_head E e n0 q0 cap hdr q src p" "\<not> df_open (pb_frame p)"
    and q: "1 \<le> q" "q < e" "q \<noteq> q0 \<longrightarrow> n0 \<le> base E q"
    and t: "tgt = se_targets env ! (q - se_fields env)" "target_numbers_ok tgt" "E q = target_emit env ts q" "cap = se_capacity env - length Trailer"
  obtains (refused) p' where "publish_ais_target (logged sink) ts (se_ais_label env) (se_ais_current env) tgt (enter q p) = (False, p')" "pass_refused sink E e p'"
  | (continue) p' where "publish_ais_target (logged sink) ts (se_ais_label env) (se_ais_current env) tgt (enter q p) = (True, p')"
      "\<not> df_open (pb_frame p')" "pass_head E e n0 q0 cap hdr (Suc q) src p'"
proof (cases "se_ais_current env tgt \<and> ais_context tgt \<noteq> None")
  case False
  then have "E q = []" using t(1,3) by (cases "ais_context tgt") (auto simp: target_emit_def Let_def)
  then have "pass_head E e n0 q0 cap hdr (Suc q) src (enter q p)" using pass_head_enter_empty [OF head q(1) _ q(3)] by simp
  moreover have "\<not> df_open (pb_frame (enter q p))" using head(2) by (simp add: enter_def)
  ultimately show thesis using continue [of "enter q p"] False
    by (cases "ais_context tgt") (auto simp: publish_ais_target_def)
next
  case True
  then obtain mmsi ctx where c: "se_ais_current env tgt" "ais_context tgt = Some (mmsi, ctx)" by auto
  let ?h = "delta_header ctx ts (se_ais_label env)"
  obtain ok fr where b: "df_begin ctx ts (se_ais_label env) (pb_frame (enter q p)) = (ok, fr)" by fastforce
  obtain F t s log where m: "pb_tracking p = Some t" "pb_sink p = (s, log)" "snap_inv E e n0 (base E q) F log t"
    "tk_start_position t = q0" "tk_position t < q" "F = [] \<and> df_ready cap (pb_frame p)"
    using head by (auto elim: pass_headE)
  have frame: "pb_frame (enter q p) = pb_frame p" by (simp add: enter_def)
  have res: "if length ?h < cap then ok \<and> df_holds cap ?h [] fr else \<not> ok \<and> df_ready cap fr \<and> \<not> df_open fr"
    using df_begin_result [of cap "pb_frame p" ctx ts "se_ais_label env"] m(6) b frame by (simp split: if_splits)
  have E: "E q = (if length ?h < cap then items_emit cap (length ?h) (ais_texts mmsi tgt) else [])"
    using c t(1,3,4) by (simp add: target_emit_def Let_def)
  show thesis
  proof (cases "length ?h < cap")
    case False
    then have "\<not> ok" "df_ready cap fr" "\<not> df_open fr" "E q = []" using res E by auto
    moreover have "pass_head E e n0 q0 cap hdr q src (p\<lparr>pb_frame := fr\<rparr>)"
      using m calculation by (intro pass_headI [of _ t s log _ _ _ _ "[]"]) auto
    ultimately have "pass_head E e n0 q0 cap hdr (Suc q) src (pb_drop (enter q (p\<lparr>pb_frame := fr\<rparr>)))"
      using pass_head_enter_empty [of E e n0 q0 cap hdr q src "p\<lparr>pb_frame := fr\<rparr>"] q by simp
    moreover have "pb_drop (enter q (p\<lparr>pb_frame := fr\<rparr>)) = pb_drop ((enter q p)\<lparr>pb_frame := fr\<rparr>)"
      by (cases p) (simp add: enter_def)
    ultimately show thesis using continue [of "pb_drop ((enter q p)\<lparr>pb_frame := fr\<rparr>)"] b c \<open>\<not> ok\<close> \<open>\<not> df_open fr\<close>
      by (simp add: publish_ais_target_def pb_drop_def)
  next
    case True
    then have ok: "ok" "df_holds cap ?h [] fr" "E q = items_emit cap (length ?h) (ais_texts mmsi tgt)" using res E by auto
    let ?p1 = "(enter q p)\<lparr>pb_frame := fr\<rparr>"
    have "pass_mid E e n0 q0 cap ?h q 0 (enter q (p\<lparr>pb_frame := fr\<rparr>))"
      by (rule pass_enter [of _ t s log _ _ _ _ "[]"]) (use m ok q in auto)
    moreover have "enter q (p\<lparr>pb_frame := fr\<rparr>) = ?p1" by (cases p) (simp add: enter_def)
    ultimately have mid: "pass_mid E e n0 q0 cap ?h q 0 ?p1" by simp
    have "pass_runs sink E e n0 q0 cap ?h q (add_items (logged sink) (ais_items mmsi tgt)) (E q)"
      unfolding ok(3) by (rule pass_runs_items [OF refl q(1,2) ais_items_emit [OF t(2)]])
    from this [unfolded pass_runs_def, rule_format, OF mid]
    have r: "pass_result sink E e n0 q0 cap ?h q (length (E q)) (add_items (logged sink) (ais_items mmsi tgt) ?p1)" by simp
    obtain fin p2 where a: "add_items (logged sink) (ais_items mmsi tgt) ?p1 = (fin, p2)" by fastforce
    have step: "publish_ais_target (logged sink) ts (se_ais_label env) (se_ais_current env) tgt (enter q p) = (if fin then flush (logged sink) p2 else (False, p2))"
      using c b ok(1) a by (cases fin) (simp_all add: publish_ais_target_def)
    show thesis
    proof (cases fin)
      case False
      with r a step show thesis using refused [of p2] by (simp add: pass_result_def)
    next
      case True
      with r a have hd: "pass_head E e n0 q0 cap (\<lambda>_. ?h) (Suc q) src p2"
        using pass_mid_head [of E e n0 q0 cap "\<lambda>_. ?h" src q p2] q(1) by (simp add: pass_result_def)
      show thesis
      proof (rule pass_flush [OF hd, of sink])
        show "\<exists>c t l. ?h = delta_header c t l" by blast
      next
        fix p3 assume "flush (logged sink) p2 = (False, p3)" "pass_refused sink E e p3"
        then show thesis using refused step True by simp
      next
        fix p3 assume "flush (logged sink) p2 = (True, p3)" "\<not> df_open (pb_frame p3)" "\<And>src. pass_head E e n0 q0 cap (\<lambda>_. ?h) (Suc q) src p3"
        then show thesis using continue [of p3] step True pass_head_closed [of p3 E e n0 q0 cap "\<lambda>_. ?h" "Suc q" src hdr src] by simp
      qed
    qed
  qed
qed

lemma snapshot_targets_result:
  assumes "pass_head E e n0 q0 cap hdr q 0 p" "\<not> df_open (pb_frame p)" "1 \<le> q" "q0 \<le> q" "q \<le> e" "se_fields env \<le> q" "e = snapshot_end env"
    and "\<And>r. q0 < r \<Longrightarrow> n0 \<le> base E r" "list_all target_numbers_ok (se_targets env)"
    and "\<And>r. q \<le> r \<Longrightarrow> r < e \<Longrightarrow> E r = target_emit env ts r" "cap = se_capacity env - length Trailer"
  shows "case snapshot_targets env ts (logged sink) [q..<e] p of (False, p') \<Rightarrow> pass_refused sink E e p' | (True, p') \<Rightarrow> pass_head E e n0 q0 cap hdr e 0 p' \<and> \<not> df_open (pb_frame p')"
  using assms(1-6,10)
proof (induction "e - q" arbitrary: q p)
  case 0
  then show ?case by simp
next
  case (Suc k)
  have q: "[q..<e] = q # [Suc q..<e]" "q < e" using Suc(2) by (simp_all add: upt_conv_Cons)
  have n0: "q \<noteq> q0 \<longrightarrow> n0 \<le> base E q" using assms(8) [of q] Suc.prems(4) by auto
  have "q - se_fields env < length (se_targets env)" using q(2) Suc.prems(6) assms(7) by (simp add: snapshot_end_def)
  then have ok: "target_numbers_ok (se_targets env ! (q - se_fields env))" using assms(9) by (simp add: list_all_length)
  show ?case
  proof (rule target_step [OF Suc.prems(1,2,3) q(2) n0 refl ok Suc.prems(7) [OF order_refl q(2)] assms(11), of sink])
    fix p' assume "publish_ais_target (logged sink) ts (se_ais_label env) (se_ais_current env) (se_targets env ! (q - se_fields env)) (enter q p) = (False, p')"
      "pass_refused sink E e p'"
    then show ?thesis by (simp add: q(1))
  next
    fix p' assume st: "publish_ais_target (logged sink) ts (se_ais_label env) (se_ais_current env) (se_targets env ! (q - se_fields env)) (enter q p) = (True, p')"
      "\<not> df_open (pb_frame p')" "pass_head E e n0 q0 cap hdr (Suc q) 0 p'"
    have "case snapshot_targets env ts (logged sink) [Suc q..<e] p' of (False, p'') \<Rightarrow> pass_refused sink E e p'' | (True, p'') \<Rightarrow> pass_head E e n0 q0 cap hdr e 0 p'' \<and> \<not> df_open (pb_frame p'')"
      by (rule Suc.hyps(1)) (use Suc.hyps(2) Suc.prems st q(2) in auto)
    then show ?thesis using st(1) by (simp add: q(1))
  qed
qed

definition snapshot_emit :: "snapshot_env \<Rightarrow> (publish_value \<Rightarrow> string) \<Rightarrow> bool \<Rightarrow> string \<Rightarrow> nat \<Rightarrow> string list" where
  "snapshot_emit env vtext other_contexts ts q =
     (if q < se_fields env then field_emit env vtext ts q
      else if other_contexts \<and> se_ais_valid env then target_emit env ts q else [])"

text \<open>Every entry a snapshot of the model has, in the order of the fields and then of the targets.\<close>

definition snapshot_entries :: "snapshot_env \<Rightarrow> (publish_value \<Rightarrow> string) \<Rightarrow> bool \<Rightarrow> string \<Rightarrow> string list" where
  "snapshot_entries env vtext other_contexts ts = entries (snapshot_emit env vtext other_contexts ts) (snapshot_end env)"

definition snapshot_ok :: "snapshot_env \<Rightarrow> (publish_value \<Rightarrow> string) \<Rightarrow> bool" where
  "snapshot_ok env vtext \<longleftrightarrow> 1 < se_fields env \<and> (\<forall>r v. se_value env r = Some v \<longrightarrow> emits (pv_write v) (vtext v)) \<and>
     list_all target_numbers_ok (se_targets env)"

lemma base_flat: "q \<le> e \<Longrightarrow> (\<And>r. q \<le> r \<Longrightarrow> r < e \<Longrightarrow> E r = []) \<Longrightarrow> base E e = base E q"
proof (induction e)
  case (Suc e)
  then show ?case by (cases "q = Suc e") (auto simp: base_def)
qed simp

lemma cursor_base: "cursor_at E e c n0 \<Longrightarrow> cu_position c < r \<Longrightarrow> n0 \<le> base E r"
proof -
  assume c: "cursor_at E e c n0" "cu_position c < r"
  then have "n0 \<le> base E (Suc (cu_position c))" by (simp add: cursor_at_def base_Suc)
  with base_mono [of "Suc (cu_position c)" r E] c(2) show ?thesis by simp
qed

lemma snapshot_pass_result:
  assumes ok: "snapshot_ok env vtext" and E: "E = snapshot_emit env vtext other ts" and e: "e = snapshot_end env"
    and c: "cursor_at E e resume n0" and log: "delivers log (take n0 (entries E e))"
    and p: "pb_sink p = (s, log)" "pb_frame p = df_init (se_capacity env)"
      "pb_tracking p = Some \<lparr>tk_start_position = cu_position resume, tk_position = 0, tk_value = 0, tk_skip = cu_value resume, tk_frame_start = fs\<rparr>"
  shows "case snapshot_pass env other ts (logged sink) resume p of
    (False, p') \<Rightarrow> pass_refused sink E e p' | (True, p') \<Rightarrow> (\<exists>s' log'. pb_sink p' = (s', log') \<and> delivers log' (entries E e))"
proof -
  let ?q = "cu_position resume" and ?cap = "se_capacity env - length Trailer" and ?hdr = "field_header env ts" and ?n = "se_fields env"
  let ?sent = "\<lambda>p'. \<exists>s' log'. pb_sink p' = (s', log') \<and> delivers log' (entries E e)"
  have q: "1 \<le> ?q" "?q < e" "n0 = base E ?q + cu_value resume" using c by (simp_all add: cursor_at_def)
  have n: "1 \<le> ?n" "?n \<le> e" using ok e by (simp_all add: snapshot_ok_def snapshot_end_def)
  have closed: "\<not> df_open (pb_frame p)" "df_ready ?cap (pb_frame p)"
    using p(2) by (auto simp: df_init_def df_ready_def jw_init_def)
  have head: "pass_head E e n0 ?q ?cap ?hdr ?q 0 p"
    using q p closed log by (intro pass_headI [of p _ s log _ _ _ _ "[]"]) (auto simp: snap_inv_def max_def)
  have finished: "?sent p'" if done': "pass_head E e n0 ?q ?cap ?hdr e 0 p'" "\<not> df_open (pb_frame p')" for p'
  proof -
    obtain t s' log' where "pb_sink p' = (s', log')" "snap_inv E e n0 (base E e) [] log' t"
      using done' by (rule pass_head_closedE)
    moreover have "n0 \<le> base E e" using cursor_base [OF c q(2)] .
    ultimately show ?thesis by (auto simp: snap_inv_def max_def base_def)
  qed
  have fields: "case snapshot_fields env ts (logged sink) [?q..<?n] 0 p of (False, p') \<Rightarrow> pass_refused sink E e p'
    | (True, p') \<Rightarrow> \<not> df_open (pb_frame p') \<and> pass_head E e n0 ?q ?cap ?hdr (max ?q ?n) 0 p'"
  proof (cases "?q \<le> ?n")
    case True
    have "case snapshot_fields env ts (logged sink) [?q..<?n] 0 p of (False, p') \<Rightarrow> pass_refused sink E e p'
      | (True, p') \<Rightarrow> \<not> df_open (pb_frame p') \<and> pass_head E e n0 ?q ?cap ?hdr ?n 0 p'"
      by (rule snapshot_fields_result [where vtext = vtext, OF head q(1) order_refl True n(2) cursor_base [OF c]])
        (use ok in \<open>auto simp: snapshot_ok_def E snapshot_emit_def\<close>)
    then show ?thesis by (simp only: max_absorb2 [OF True])
  next
    case False
    have hdr: "\<exists>c t l. ?hdr src = delta_header c t l" for src by (auto simp: field_header_def)
    show ?thesis by (rule pass_flush [OF head hdr, of sink]) (use False in \<open>auto simp: max_def\<close>)
  qed
  obtain fin p1 where f: "snapshot_fields env ts (logged sink) [?q..<?n] 0 p = (fin, p1)" by fastforce
  show ?thesis
  proof (cases fin)
    case False
    with fields f show ?thesis by (simp add: snapshot_pass_def)
  next
    case True
    with fields f have p1: "\<not> df_open (pb_frame p1)" "pass_head E e n0 ?q ?cap ?hdr (max ?q ?n) 0 p1" by simp_all
    show ?thesis
    proof (cases "other \<and> se_ais_valid env")
      case on: True
      have "case snapshot_targets env ts (logged sink) [max ?q ?n..<e] p1 of (False, p') \<Rightarrow> pass_refused sink E e p'
        | (True, p') \<Rightarrow> pass_head E e n0 ?q ?cap ?hdr e 0 p' \<and> \<not> df_open (pb_frame p')"
        by (rule snapshot_targets_result [OF p1(2,1) _ _ _ _ e cursor_base [OF c]])
          (use q n ok on in \<open>auto simp: snapshot_ok_def E snapshot_emit_def\<close>)
      then show ?thesis using f True on finished by (auto simp: snapshot_pass_def e split: prod.splits bool.splits)
    next
      case off: False
      have same: "base E e = base E (max ?q ?n)" by (rule base_flat) (use q n off in \<open>auto simp: E snapshot_emit_def\<close>)
      obtain t s' log' where m: "pb_tracking p1 = Some t" "pb_sink p1 = (s', log')" "snap_inv E e n0 (base E (max ?q ?n)) [] log' t"
        "tk_start_position t = ?q" "tk_position t < max ?q ?n" "df_ready ?cap (pb_frame p1)"
        using p1(2,1) by (rule pass_head_closedE)
      have "pass_head E e n0 ?q ?cap ?hdr e 0 p1"
        by (rule pass_headI [of p1 t s' log' _ _ _ _ "[]"]) (use m p1(1) q(2) n(2) same in simp_all)
      then show ?thesis using f True off finished p1(1) by (auto simp: snapshot_pass_def)
    qed
  qed
qed

section \<open>Snapshots over several passes\<close>

text \<open>
  Passes at given times over a client whose connection is in the given state at each of them; the log of what the
  client took goes on. The run ends at the first complete pass.
\<close>

fun run_passes :: "snapshot_env \<Rightarrow> bool \<Rightarrow> 's sink \<Rightarrow> (string \<times> 's) list \<Rightarrow> cursor \<Rightarrow> ('s \<times> string list) publisher \<Rightarrow> bool \<times> cursor \<times> ('s \<times> string list) publisher" where
  "run_passes env other sink [] c p = (False, c, p)"
| "run_passes env other sink ((ts, s) # passes) c p =
     (case publish_current env other (Some ts) (logged sink) c (p\<lparr>pb_sink := (s, snd (pb_sink p))\<rparr>) of
        (True, c', p') \<Rightarrow> (True, c', p')
      | (False, c', p') \<Rightarrow> run_passes env other sink passes c' p')"

lemma header_length: "length (quoted ts) = length (quoted ts') \<Longrightarrow> length (delta_header c ts l) = length (delta_header c ts' l)"
  by (simp add: delta_header_def)

lemma snapshot_emit_time:
  "length (quoted ts) = length (quoted ts') \<Longrightarrow> snapshot_emit env vtext other ts = snapshot_emit env vtext other ts'"
  using header_length [of ts ts']
  by (auto simp: snapshot_emit_def field_emit_def target_emit_def Let_def fun_eq_iff split: option.splits)

lemma publish_current_result:
  assumes ok: "snapshot_ok env vtext" "0 < se_capacity env" and E: "E = snapshot_emit env vtext other ts" and e: "e = snapshot_end env"
    and c: "if cu_started c then cursor_at E e c n0 else n0 = 0" and log: "delivers log (take n0 (entries E e))" and p: "pb_sink p = (s, log)"
  shows "case publish_current env other (Some ts) (logged sink) c p of
    (True, c', p') \<Rightarrow> c' = cursor_init \<and> delivers (snd (pb_sink p')) (entries E e)
  | (False, c', p') \<Rightarrow> (\<exists>d s. \<not> fst (sink d s)) \<and> (\<exists>n. cu_started c' \<and> cursor_at E e c' n \<and> delivers (snd (pb_sink p')) (take n (entries E e)))"
proof -
  let ?r = "if cu_started c then c else \<lparr>cu_position = 1, cu_value = 0\<rparr>"
  let ?t = "\<lparr>tk_start_position = cu_position ?r, tk_position = 0, tk_value = 0, tk_skip = cu_value ?r, tk_frame_start = ?r\<rparr>"
  let ?p = "p\<lparr>pb_frame := df_init (se_capacity env), pb_tracking := Some ?t\<rparr>"
  have at: "cursor_at E e ?r n0" using c ok(1) e by (auto simp: cursor_at_def snapshot_ok_def snapshot_end_def base_def)
  have "case snapshot_pass env other ts (logged sink) ?r ?p of
      (False, p') \<Rightarrow> pass_refused sink E e p' | (True, p') \<Rightarrow> (\<exists>s' log'. pb_sink p' = (s', log') \<and> delivers log' (entries E e))"
    by (rule snapshot_pass_result [OF ok(1) E e at log]) (use p in simp_all)
  moreover have "cu_started c'" if "cursor_at E e c' n" for c' n using that by (simp add: cursor_at_def cu_started_def)
  ultimately show ?thesis using ok(2)
    by (auto simp: publish_current_def Let_def pass_refused_def split: prod.splits bool.splits)
qed

text \<open>
  C1: A snapshot that pauses is sent exactly once. A client may refuse any delta of the snapshot, any number of times, and
  the snapshot continues at later times from its cursor. As long as the model does not change, what the client has taken is
  at every moment a sequence of complete deltas whose values are a prefix of the values of the snapshot, each once and in
  order (oversized objects in parts, oversized texts shortened, as a single pass would do it); when a pass reports
  completion they are all of them. A pass that does not complete was refused, and it leaves a cursor that resumes.
\<close>
theorem resumable_snapshot:
  assumes "snapshot_ok env vtext" "0 < se_capacity env" "\<And>ts s. (ts, s) \<in> set passes \<Longrightarrow> length (quoted ts) = length (quoted ts0)"
    and "\<not> cu_started c" "snd (pb_sink p) = []"
  shows "case run_passes env other sink passes c p of
    (True, c', p') \<Rightarrow> c' = cursor_init \<and> delivers (snd (pb_sink p')) (snapshot_entries env vtext other ts0)
  | (False, c', p') \<Rightarrow> (passes \<noteq> [] \<longrightarrow> (\<exists>d s. \<not> fst (sink d s))) \<and> (\<exists>n. delivers (snd (pb_sink p')) (take n (snapshot_entries env vtext other ts0)))"
proof -
  let ?E = "snapshot_emit env vtext other ts0" and ?e = "snapshot_end env"
  have "case run_passes env other sink passes c p of
      (True, c', p') \<Rightarrow> c' = cursor_init \<and> delivers (snd (pb_sink p')) (entries ?E ?e)
    | (False, c', p') \<Rightarrow> (passes \<noteq> [] \<longrightarrow> (\<exists>d s. \<not> fst (sink d s))) \<and> (\<exists>n. delivers (snd (pb_sink p')) (take n (entries ?E ?e)))"
    if "if cu_started c then cursor_at ?E ?e c n0 else n0 = 0" "delivers (snd (pb_sink p)) (take n0 (entries ?E ?e))" for c n0 p
    using assms(3) that
  proof (induction passes arbitrary: c n0 p)
    case Nil
    then show ?case by auto
  next
    case (Cons pass passes)
    obtain ts s where ps: "pass = (ts, s)" by fastforce
    have E: "?E = snapshot_emit env vtext other ts" using snapshot_emit_time [of ts0 ts] Cons.prems(1) [of ts s] ps by simp
    let ?p = "p\<lparr>pb_sink := (s, snd (pb_sink p))\<rparr>"
    note r = publish_current_result [OF assms(1,2) E refl Cons.prems(2,3), of ?p s sink]
    obtain fin c1 p1 where run: "publish_current env other (Some ts) (logged sink) c ?p = (fin, c1, p1)" by (metis prod_cases3)
    show ?case
    proof (cases fin)
      case True
      then show ?thesis using r run ps by simp
    next
      case False
      then have refused: "\<exists>d s. \<not> fst (sink d s)" and "\<exists>n. cu_started c1 \<and> cursor_at ?E ?e c1 n \<and> delivers (snd (pb_sink p1)) (take n (entries ?E ?e))"
        using r run by simp_all
      then obtain n where n: "cu_started c1" "cursor_at ?E ?e c1 n" "delivers (snd (pb_sink p1)) (take n (entries ?E ?e))" by blast
      have "case run_passes env other sink passes c1 p1 of
          (True, c', p') \<Rightarrow> c' = cursor_init \<and> delivers (snd (pb_sink p')) (entries ?E ?e)
        | (False, c', p') \<Rightarrow> (passes \<noteq> [] \<longrightarrow> (\<exists>d s. \<not> fst (sink d s))) \<and> (\<exists>n. delivers (snd (pb_sink p')) (take n (entries ?E ?e)))"
        by (rule Cons.IH [of c1 n]) (use Cons.prems(1) n in auto)
      then show ?thesis using run False ps refused by (auto split: prod.splits bool.splits)
    qed
  qed
  note all = this
  show ?thesis unfolding snapshot_entries_def by (rule all [of c 0 p]) (use assms(4,5) in simp_all)
qed

definition example_value :: "string \<Rightarrow> string \<Rightarrow> publish_value" where
  "example_value path s = \<lparr>pv_path = path, pv_kind = KindNumber, pv_text = [], pv_source = 1, pv_write = append_raw s, pv_object = None\<rparr>"

definition example_env :: snapshot_env where
  "example_env = \<lparr>se_capacity = 200, se_batch = 1, se_context = ''v'', se_label = (\<lambda>_. ''l''), se_ser = (\<lambda>_. []), se_fields = 3,
     se_value = (\<lambda>q. if q = 1 then Some (example_value ''a'' ''7'') else if q = 2 then Some (example_value ''b'' ''7'') else None),
     se_ais_valid = False, se_ais_label = ''l'', se_ais_current = (\<lambda>_. True), se_targets = []\<rparr>"

definition example_sink :: "nat sink" where
  "example_sink d n = (if n = 0 then (False, 0) else (True, n - 1))"

definition example_publisher :: "(nat \<times> string list) publisher" where
  "example_publisher = \<lparr>pb_frame = df_init 200, pb_tracking = None, pb_dropped = 0, pb_deltas = 0, pb_values = 0, pb_snapshots = 0, pb_truncated = 0, pb_sink = (0, [])\<rparr>"

theorem resumable_snapshot_witness:
  "fst (run_passes example_env False example_sink [(''t'', 1), (''u'', 0), (''x'', 5)] cursor_init example_publisher) \<and>
   (case run_passes example_env False example_sink [(''t'', 1), (''u'', 0), (''x'', 5)] cursor_init example_publisher of
      (True, c', p') \<Rightarrow> c' = cursor_init \<and> delivers (snd (pb_sink p')) (snapshot_entries example_env (\<lambda>_. ''7'') False ''t'')
    | (False, c', p') \<Rightarrow> ([(''t'', 1), (''u'', 0 :: nat), (''x'', 5)] \<noteq> [] \<longrightarrow> (\<exists>d s. \<not> fst (example_sink d s))) \<and>
        (\<exists>n. delivers (snd (pb_sink p')) (take n (snapshot_entries example_env (\<lambda>_. ''7'') False ''t''))))"
proof
  show "fst (run_passes example_env False example_sink [(''t'', 1), (''u'', 0), (''x'', 5)] cursor_init example_publisher)" by code_simp
  have "snapshot_ok example_env (\<lambda>_. ''7'')"
    using emits_raw by (auto simp: snapshot_ok_def example_env_def example_value_def)
  then show "case run_passes example_env False example_sink [(''t'', 1), (''u'', 0), (''x'', 5)] cursor_init example_publisher of
      (True, c', p') \<Rightarrow> c' = cursor_init \<and> delivers (snd (pb_sink p')) (snapshot_entries example_env (\<lambda>_. ''7'') False ''t'')
    | (False, c', p') \<Rightarrow> ([(''t'', 1), (''u'', 0 :: nat), (''x'', 5)] \<noteq> [] \<longrightarrow> (\<exists>d s. \<not> fst (example_sink d s))) \<and>
        (\<exists>n. delivers (snd (pb_sink p')) (take n (snapshot_entries example_env (\<lambda>_. ''7'') False ''t'')))"
    by (rule resumable_snapshot) (auto simp: example_env_def quoted_def escape_char_def cu_started_def cursor_init_def example_publisher_def)
qed

end
