(* ===== verification/Publisher_Sinks.thy ===== *)
theory Publisher_Sinks
  imports Publisher
begin

text \<open>
  The publisher uses its sink only by calling it: a run over a sink whose state carries more, or keeps an invariant, is the
  same run over the plain sink. \<open>sink_view\<close> states this once for a snapshot; the interpretation adds the record of the deltas a sink took.
\<close>

definition pb_with :: "'t \<Rightarrow> 's publisher \<Rightarrow> 't publisher" where
  "pb_with s p = \<lparr>pb_frame = pb_frame p, pb_tracking = pb_tracking p, pb_dropped = pb_dropped p, pb_deltas = pb_deltas p, pb_values = pb_values p,
     pb_snapshots = pb_snapshots p, pb_truncated = pb_truncated p, pb_sink = s\<rparr>"

lemma pb_with_simps [simp]:
  "pb_frame (pb_with s p) = pb_frame p" "pb_tracking (pb_with s p) = pb_tracking p" "pb_sink (pb_with s p) = s"
  "pb_truncated (pb_with s p) = pb_truncated p" "pb_dropped (pb_with s p) = pb_dropped p" "pb_deltas (pb_with s p) = pb_deltas p"
  "pb_values (pb_with s p) = pb_values p" "pb_snapshots (pb_with s p) = pb_snapshots p"
  "pb_with s (pb_with t p) = pb_with s p" "pb_with (pb_sink q) q = q"
  by (simp_all add: pb_with_def)

text \<open>The publisher offers only finished deltas.\<close>

definition finished_delta :: "string \<Rightarrow> bool" where
  "finished_delta d \<longleftrightarrow> (\<exists>t. d = t @ Trailer)"

lemma df_finish_delta: "df_finish fr = (d, fr1) \<Longrightarrow> d \<noteq> [] \<Longrightarrow> finished_delta d"
  by (auto simp: df_finish_def finished_delta_def split: if_splits)

locale sink_view =
  fixes sink :: "'s sink" and wide :: "'t sink" and view :: "'t \<Rightarrow> 's" and keeps :: "'t \<Rightarrow> bool"
  assumes call: "keeps t \<Longrightarrow> finished_delta d \<Longrightarrow> sink d (view t) = map_prod id view (wide d t) \<and> keeps (snd (wide d t))"
begin

definition narrow :: "'t publisher \<Rightarrow> 's publisher" where
  "narrow p = pb_with (view (pb_sink p)) p"

lemma narrow_simps [simp]:
  "pb_frame (narrow p) = pb_frame p" "pb_tracking (narrow p) = pb_tracking p" "pb_sink (narrow p) = view (pb_sink p)"
  "pb_truncated (narrow p) = pb_truncated p" "pb_snapshots (narrow p) = pb_snapshots p" "pb_deltas (narrow p) = pb_deltas p" "pb_values (narrow p) = pb_values p"
  by (simp_all add: narrow_def)

lemma narrow_update:
  "narrow (p\<lparr>pb_frame := fr\<rparr>) = (narrow p)\<lparr>pb_frame := fr\<rparr>" "narrow (p\<lparr>pb_tracking := t\<rparr>) = (narrow p)\<lparr>pb_tracking := t\<rparr>"
  "narrow (p\<lparr>pb_sink := s\<rparr>) = (narrow p)\<lparr>pb_sink := view s\<rparr>" "narrow (p\<lparr>pb_truncated := n\<rparr>) = (narrow p)\<lparr>pb_truncated := n\<rparr>"
  "narrow (p\<lparr>pb_snapshots := n\<rparr>) = (narrow p)\<lparr>pb_snapshots := n\<rparr>" "narrow (p\<lparr>pb_deltas := n\<rparr>) = (narrow p)\<lparr>pb_deltas := n\<rparr>"
  "narrow (p\<lparr>pb_values := n\<rparr>) = (narrow p)\<lparr>pb_values := n\<rparr>" "narrow (pb_drop p) = pb_drop (narrow p)"
  by (simp_all add: narrow_def pb_with_def pb_drop_def)

text \<open>Two results that agree.\<close>

definition agree :: "bool \<times> 't publisher \<Rightarrow> bool \<times> 's publisher \<Rightarrow> bool" where
  "agree r q \<longleftrightarrow> q = (fst r, narrow (snd r)) \<and> keeps (pb_sink (snd r))"

lemma agreeI [intro]: "q = narrow p \<Longrightarrow> keeps (pb_sink p) \<Longrightarrow> agree (b, p) (b, q)"
  by (simp add: agree_def)

lemma agreeE: "agree r q \<Longrightarrow> (\<And>b p. r = (b, p) \<Longrightarrow> q = (b, narrow p) \<Longrightarrow> keeps (pb_sink p) \<Longrightarrow> thesis) \<Longrightarrow> thesis"
  by (cases r) (simp add: agree_def)

lemma agree_bind:
  assumes "agree r q" "\<And>p. keeps (pb_sink p) \<Longrightarrow> agree (f p) (g (narrow p))"
  shows "agree (case r of (False, p1) \<Rightarrow> (False, p1) | (True, p1) \<Rightarrow> f p1) (case q of (False, p1) \<Rightarrow> (False, p1) | (True, p1) \<Rightarrow> g p1)"
  using assms(1) by (rule agreeE) (use assms(2) in \<open>auto split: bool.splits\<close>)

lemma flush_view:
  assumes "keeps (pb_sink p)"
  shows "agree (flush wide p) (flush sink (narrow p))"
proof -
  obtain d fr where f: "df_finish (pb_frame p) = (d, fr)" by fastforce
  obtain b t where w: "wide d (pb_sink p) = (b, t)" by fastforce
  show ?thesis
  proof (cases "d = []")
    case True
    then show ?thesis using f assms by (auto simp: flush_def Let_def narrow_update)
  next
    case False
    have "sink d (view (pb_sink p)) = (b, view t)" "keeps t" using call [OF assms df_finish_delta [OF f False]] w by simp_all
    then show ?thesis using f w assms False by (cases b) (auto simp: flush_def Let_def narrow_update)
  qed
qed

lemma note_added_view: "narrow (note_added b p) = note_added b (narrow p)" "pb_sink (note_added b p) = pb_sink p"
  by (simp_all add: note_added_def narrow_update split: option.splits)

lemma enter_view: "narrow (enter n p) = enter n (narrow p)" "pb_sink (enter n p) = pb_sink p"
  by (simp_all add: enter_def narrow_update)

lemma pb_drop_sink [simp]: "pb_sink (pb_drop p) = pb_sink p"
  by (simp add: pb_drop_def)

definition agree3 :: "bool \<times> add_result \<times> 't publisher \<Rightarrow> bool \<times> add_result \<times> 's publisher \<Rightarrow> bool" where
  "agree3 r q \<longleftrightarrow> q = (fst r, fst (snd r), narrow (snd (snd r))) \<and> keeps (pb_sink (snd (snd r)))"

lemma agree3E: "agree3 r q \<Longrightarrow> (\<And>b a p. r = (b, a, p) \<Longrightarrow> q = (b, a, narrow p) \<Longrightarrow> keeps (pb_sink p) \<Longrightarrow> thesis) \<Longrightarrow> thesis"
  by (cases r) (simp add: agree3_def)

lemma agree3_bind:
  assumes "agree3 r q" "\<And>a p. keeps (pb_sink p) \<Longrightarrow> agree (f a p) (g a (narrow p))"
  shows "agree (case r of (False, _, p1) \<Rightarrow> (False, p1) | (True, a, p1) \<Rightarrow> f a p1) (case q of (False, _, p1) \<Rightarrow> (False, p1) | (True, a, p1) \<Rightarrow> g a p1)"
  using assms(1) by (rule agree3E) (use assms(2) in \<open>auto split: bool.splits\<close>)

lemma add_or_split_result_view:
  assumes "keeps (pb_sink p)"
  shows "agree3 (add_or_split_result wide path wv p) (add_or_split_result sink path wv (narrow p))"
proof -
  obtain r fr where a: "df_add path wv (pb_frame p) = (r, fr)" by fastforce
  let ?p = "p\<lparr>pb_frame := fr\<rparr>"
  have "keeps (pb_sink ?p)" using assms by simp
  from flush_view [OF this] obtain b p1 where f: "flush wide ?p = (b, p1)" "flush sink (narrow ?p) = (b, narrow p1)" "keeps (pb_sink p1)" by (rule agreeE)
  obtain r' fr' where a': "df_add path wv (df_reopen (pb_frame p1)) = (r', fr')" by fastforce
  show ?thesis
    using a f a' assms by (cases b) (auto simp: add_or_split_result_def Let_def agree3_def narrow_update note_added_view)
qed

lemma add_or_split_view:
  assumes "keeps (pb_sink p)"
  shows "agree (add_or_split wide path wv p) (add_or_split sink path wv (narrow p))"
  unfolding add_or_split_def
  by (rule agree3_bind [OF add_or_split_result_view [OF assms]]) (auto simp: narrow_update)

lemma add_truncated_text_view: "keeps (pb_sink p) \<Longrightarrow> agree (add_truncated_text wide path s len p) (add_truncated_text sink path s len (narrow p))"
proof (induction len arbitrary: p rule: less_induct)
  case (less len)
  show ?case
  proof (cases "len = 0")
    case True
    then show ?thesis using less.prems by (subst (1 2) add_truncated_text.simps) (auto simp: narrow_update)
  next
    case False
    have "agree (case add_or_split_result wide path (append_quoted_len s (shorter s len)) p of (False, _, p1) \<Rightarrow> (False, p1)
        | (True, r, p1) \<Rightarrow> if r \<noteq> TooLarge then (True, p1\<lparr>pb_truncated := pb_truncated p1 + 1\<rparr>) else add_truncated_text wide path s (shorter s len) p1)
      (case add_or_split_result sink path (append_quoted_len s (shorter s len)) (narrow p) of (False, _, p1) \<Rightarrow> (False, p1)
        | (True, r, p1) \<Rightarrow> if r \<noteq> TooLarge then (True, p1\<lparr>pb_truncated := pb_truncated p1 + 1\<rparr>) else add_truncated_text sink path s (shorter s len) p1)"
      by (rule agree3_bind [OF add_or_split_result_view [OF less.prems]])
        (use less.IH [OF shorter_less] False in \<open>auto simp: narrow_update\<close>)
    then show ?thesis using False by (subst (1 2) add_truncated_text.simps) simp
  qed
qed

lemma add_members_view:
  assumes "\<And>path v p. keeps (pb_sink p) \<Longrightarrow> agree (f path v p) (g path v (narrow p))"
  shows "keeps (pb_sink p) \<Longrightarrow> agree (add_members f path ms p) (add_members g path ms (narrow p))"
proof (induction ms arbitrary: p)
  case Nil
  then show ?case by auto
next
  case (Cons m ms)
  obtain key v where m: "m = (key, v)" by fastforce
  show ?case
  proof (cases "child_path path key = [] \<or> 160 \<le> length (child_path path key)")
    case True
    then show ?thesis using Cons.IH [of "pb_drop p"] Cons.prems m by (simp add: narrow_update)
  next
    case False
    have "agree (case f (child_path path key) v p of (False, p1) \<Rightarrow> (False, p1) | (True, p1) \<Rightarrow> add_members f path ms p1)
      (case g (child_path path key) v (narrow p) of (False, p1) \<Rightarrow> (False, p1) | (True, p1) \<Rightarrow> add_members g path ms p1)"
      by (rule agree_bind [OF assms [OF Cons.prems]]) (rule Cons.IH)
    then show ?thesis using False m by simp
  qed
qed

lemma add_json_scalar_view:
  assumes "\<And>ms p. keeps (pb_sink p) \<Longrightarrow> agree (f ms p) (g ms (narrow p))" "keeps (pb_sink p)"
  shows "agree (add_json_scalar wide ser f path v p) (add_json_scalar sink ser g path v (narrow p))"
  unfolding add_json_scalar_def
  by (rule agree3_bind [OF add_or_split_result_view [OF assms(2)]])
    (use assms(1) add_truncated_text_view in \<open>auto simp: narrow_update split: json.splits\<close>)

lemma add_json_split_view:
  "keeps (pb_sink p) \<Longrightarrow> agree (add_json_split wide ser levels path v p) (add_json_split sink ser levels path v (narrow p))"
proof (induction levels arbitrary: path v p)
  case 0
  show ?case unfolding add_json_split.simps by (rule add_json_scalar_view [OF _ 0]) (auto simp: narrow_update)
next
  case (Suc levels)
  show ?case unfolding add_json_split.simps by (rule add_json_scalar_view, rule add_members_view, rule Suc.IH) (auto intro: Suc.prems)
qed

lemma add_value_view:
  assumes "keeps (pb_sink p)"
  shows "agree (add_value wide ser v p) (add_value sink ser v (narrow p))"
  unfolding add_value_def
  by (rule agree3_bind [OF add_or_split_result_view [OF assms]])
    (use add_truncated_text_view add_json_split_view in \<open>auto simp: narrow_update split: option.splits\<close>)

lemma add_items_view: "keeps (pb_sink p) \<Longrightarrow> agree (add_items wide items p) (add_items sink items (narrow p))"
proof (induction items arbitrary: p)
  case Nil
  then show ?case by auto
next
  case (Cons i items)
  obtain path wv where i: "i = (path, wv)" by fastforce
  show ?case unfolding i add_items.simps by (rule agree_bind [OF add_or_split_view [OF Cons.prems]]) (rule Cons.IH)
qed

lemma publish_ais_target_view:
  assumes "keeps (pb_sink p)"
  shows "agree (publish_ais_target wide ts l cur t p) (publish_ais_target sink ts l cur t (narrow p))"
proof (cases "\<not> cur t \<or> ais_context t = None")
  case True
  then show ?thesis using assms by (auto simp: publish_ais_target_def)
next
  case False
  then obtain mmsi ctx where c: "ais_context t = Some (mmsi, ctx)" by auto
  obtain ok fr where b: "df_begin ctx ts l (pb_frame p) = (ok, fr)" by fastforce
  let ?p = "p\<lparr>pb_frame := fr\<rparr>"
  have k: "keeps (pb_sink ?p)" using assms by simp
  have "agree (case add_items wide (ais_items mmsi t) ?p of (False, p1) \<Rightarrow> (False, p1) | (True, p1) \<Rightarrow> flush wide p1)
    (case add_items sink (ais_items mmsi t) (narrow ?p) of (False, p1) \<Rightarrow> (False, p1) | (True, p1) \<Rightarrow> flush sink p1)"
    by (rule agree_bind [OF add_items_view [OF k]]) (rule flush_view)
  then show ?thesis using False c b k by (cases ok) (auto simp: publish_ais_target_def narrow_update)
qed

lemma snapshot_targets_view: "keeps (pb_sink p) \<Longrightarrow> agree (snapshot_targets env ts wide ps p) (snapshot_targets env ts sink ps (narrow p))"
proof (induction ps arbitrary: p)
  case Nil
  then show ?case by auto
next
  case (Cons q ps)
  have k: "keeps (pb_sink (enter q p))" using Cons.prems by (simp add: enter_view)
  from publish_ais_target_view [OF k] show ?case unfolding snapshot_targets.simps enter_view(1) [symmetric] by (rule agree_bind) (rule Cons.IH)
qed

lemma snapshot_fields_view:
  "keeps (pb_sink p) \<Longrightarrow> agree (snapshot_fields env ts wide ps src p) (snapshot_fields env ts sink ps src (narrow p))"
proof (induction ps arbitrary: src p)
  case Nil
  then show ?case using flush_view by simp
next
  case (Cons q ps)
  show ?case
  proof (cases "se_value env q")
    case None
    then show ?thesis using Cons by simp
  next
    case (Some v)
    have two: "agree (if df_open (pb_frame p) \<and> (pv_source v \<noteq> src \<or> se_batch env \<le> df_count (pb_frame p)) then flush wide p else (True, p))
      (if df_open (pb_frame p) \<and> (pv_source v \<noteq> src \<or> se_batch env \<le> df_count (pb_frame p)) then flush sink (narrow p) else (True, narrow p))"
      using flush_view [OF Cons.prems] Cons.prems by auto
    from two obtain sent p1 where s: "(if df_open (pb_frame p) \<and> (pv_source v \<noteq> src \<or> se_batch env \<le> df_count (pb_frame p)) then flush wide p else (True, p)) = (sent, p1)"
      "(if df_open (pb_frame p) \<and> (pv_source v \<noteq> src \<or> se_batch env \<le> df_count (pb_frame p)) then flush sink (narrow p) else (True, narrow p)) = (sent, narrow p1)"
      "keeps (pb_sink p1)" by (rule agreeE)
    obtain ok fr where b: "df_begin (se_context env) ts (se_label env (pv_source v)) (pb_frame p1) = (ok, fr)" by fastforce
    have rest: "agree (case add_value wide (se_ser env) v (enter q p2) of (False, p3) \<Rightarrow> (False, p3) | (True, p3) \<Rightarrow> snapshot_fields env ts wide ps src2 p3)
        (case add_value sink (se_ser env) v (enter q (narrow p2)) of (False, p3) \<Rightarrow> (False, p3) | (True, p3) \<Rightarrow> snapshot_fields env ts sink ps src2 p3)"
      if "keeps (pb_sink p2)" for p2 src2
    proof -
      have k: "keeps (pb_sink (enter q p2))" using that by (simp add: enter_view)
      from add_value_view [OF k] show ?thesis unfolding enter_view(1) by (rule agree_bind) (rule Cons.IH)
    qed
    have drop: "agree (snapshot_fields env ts wide ps src2 (pb_drop p2)) (snapshot_fields env ts sink ps src2 (pb_drop (narrow p2)))" if "keeps (pb_sink p2)" for p2 src2
      using Cons.IH [of "pb_drop p2" src2] that by (simp add: narrow_update)
    show ?thesis
    proof (cases sent)
      case False
      then show ?thesis using Some s by (auto simp: Let_def simp del: narrow_update)
    next
      case True
      show ?thesis
      proof (cases "df_open (pb_frame p1)")
        case on: True
        then show ?thesis using Some s True rest [OF s(3), of src] by (simp add: Let_def)
      next
        case off: False
        have k: "keeps (pb_sink (p1\<lparr>pb_frame := fr\<rparr>))" using s(3) by simp
        show ?thesis
          using Some s True off b rest [OF k, of "pv_source v"] drop [OF k, of src] by (cases ok) (simp_all add: Let_def narrow_update)
      qed
    qed
  qed
qed

lemma publish_current_view:
  assumes "keeps (pb_sink p)"
  shows "publish_current env other ts sink c (narrow p) =
      (case publish_current env other ts wide c p of (b, c1, p1) \<Rightarrow> (b, c1, narrow p1)) \<and>
    keeps (pb_sink (snd (snd (publish_current env other ts wide c p))))"
proof (cases "se_capacity env = 0 \<or> ts = None")
  case True
  then show ?thesis using assms by (auto simp: publish_current_def)
next
  case False
  then obtain t where t: "ts = Some t" by auto
  let ?r = "if cu_started c then c else \<lparr>cu_position = 1, cu_value = 0\<rparr>"
  let ?p = "p\<lparr>pb_frame := df_init (se_capacity env), pb_tracking := Some \<lparr>tk_start_position = cu_position ?r, tk_position = 0, tk_value = 0, tk_skip = cu_value ?r, tk_frame_start = ?r\<rparr>\<rparr>"
  have k: "keeps (pb_sink ?p)" using assms by simp
  have "agree (snapshot_pass env other t wide ?r ?p) (snapshot_pass env other t sink ?r (narrow ?p))"
    unfolding snapshot_pass_def by (rule agree_bind [OF snapshot_fields_view [OF k]]) (use snapshot_targets_view in auto)
  then obtain b p1 where "snapshot_pass env other t wide ?r ?p = (b, p1)" "snapshot_pass env other t sink ?r (narrow ?p) = (b, narrow p1)" "keeps (pb_sink p1)"
    by (rule agreeE)
  then show ?thesis using False t by (cases b) (simp_all add: publish_current_def Let_def narrow_update)
qed

end

interpretation log_view: sink_view sink "logged sink" fst "\<lambda>_. True" for sink
  by unfold_locales (simp add: logged_def split: prod.splits)

end
