(* ===== verification/Rest_Stream.thy ===== *)
theory Rest_Stream
  imports Prelude
begin

text \<open>
  Resumable REST responses (\<^verbatim>\<open>signalk_rest_stream.hpp\<close>): the checksum, the lexer that finds the ends of leaf values, and the sink of
  one regeneration pass. The connection is a state with two operations given as arguments, the room it has and a write. Leaf
  counts are natural numbers.
\<close>

unbundle bit_operations_syntax

section \<open>Checksum and lexer\<close>

fun crc32_bits :: "nat \<Rightarrow> u32 \<Rightarrow> u32" where
  "crc32_bits 0 crc = crc"
| "crc32_bits (Suc k) crc = crc32_bits k (drop_bit 1 crc XOR (0xEDB88320 AND (0 - (crc AND 1))))"

definition crc32_update :: "u32 \<Rightarrow> u8 \<Rightarrow> u32" where
  "crc32_update crc b = crc32_bits 8 (crc XOR ucast b)"

record leaf_lexer =
  lx_objects :: u32
  lx_depth :: u8
  lx_in_string :: bool
  lx_escape :: bool
  lx_string_is_key :: bool
  lx_in_scalar :: bool
  lx_expect_key :: bool

definition lx_init :: leaf_lexer where
  "lx_init = \<lparr>lx_objects = 0, lx_depth = 0, lx_in_string = False, lx_escape = False, lx_string_is_key = False, lx_in_scalar = False, lx_expect_key = False\<rparr>"

record lexer_step =
  ls_ends_before :: bool
  ls_ends_after :: bool
  ls_structural :: bool

definition lx_push :: "bool \<Rightarrow> leaf_lexer \<Rightarrow> leaf_lexer" where
  "lx_push object l =
     l\<lparr>lx_objects := (if lx_depth l < 32
                      then (if object then lx_objects l OR push_bit (unat (lx_depth l)) 1 else lx_objects l AND NOT (push_bit (unat (lx_depth l)) 1))
                      else lx_objects l),
       lx_depth := lx_depth l + 1\<rparr>"

definition lx_pop :: "leaf_lexer \<Rightarrow> leaf_lexer" where
  "lx_pop l = (if 0 < lx_depth l then l\<lparr>lx_depth := lx_depth l - 1\<rparr> else l)"

definition lx_top_is_object :: "leaf_lexer \<Rightarrow> bool" where
  "lx_top_is_object l \<longleftrightarrow> 0 < lx_depth l \<and> lx_depth l \<le> 32 \<and> lx_objects l AND push_bit (unat (lx_depth l - 1)) 1 \<noteq> 0"

text \<open>Outside a string: the punctuation, the start of a string, or a character of a number or literal.\<close>

definition lx_punctuation :: "char \<Rightarrow> leaf_lexer \<Rightarrow> bool \<times> leaf_lexer" where
  "lx_punctuation c l =
     (if c = CHR ''{'' then (True, (lx_push True l)\<lparr>lx_expect_key := True\<rparr>)
      else if c = CHR ''['' then (True, (lx_push False l)\<lparr>lx_expect_key := False\<rparr>)
      else if c = CHR ''}'' \<or> c = CHR '']'' then (True, (lx_pop l)\<lparr>lx_expect_key := False\<rparr>)
      else if c = CHR '','' then (True, l\<lparr>lx_expect_key := lx_top_is_object l\<rparr>)
      else if c = CHR '':'' then (True, l\<lparr>lx_expect_key := False\<rparr>)
      else if c = CHR 0x22 then
        (let key = (lx_expect_key l \<and> lx_top_is_object l) in (key, l\<lparr>lx_in_string := True, lx_string_is_key := key\<rparr>))
      else (False, l\<lparr>lx_in_scalar := True\<rparr>))"

definition lx_feed :: "char \<Rightarrow> leaf_lexer \<Rightarrow> lexer_step \<times> leaf_lexer" where
  "lx_feed c l =
     (if lx_in_string l then
        (let key = lx_string_is_key l in
         if lx_escape l then (\<lparr>ls_ends_before = False, ls_ends_after = False, ls_structural = key\<rparr>, l\<lparr>lx_escape := False\<rparr>)
         else if c = CHR 0x5C then (\<lparr>ls_ends_before = False, ls_ends_after = False, ls_structural = key\<rparr>, l\<lparr>lx_escape := True\<rparr>)
         else if c = CHR 0x22 then (\<lparr>ls_ends_before = False, ls_ends_after = \<not> key, ls_structural = key\<rparr>, l\<lparr>lx_in_string := False\<rparr>)
         else (\<lparr>ls_ends_before = False, ls_ends_after = False, ls_structural = key\<rparr>, l))
      else if lx_in_scalar l \<and> c \<noteq> CHR '','' \<and> c \<noteq> CHR ''}'' \<and> c \<noteq> CHR '']''
      then (\<lparr>ls_ends_before = False, ls_ends_after = False, ls_structural = False\<rparr>, l)
      else (let (structural, l') = lx_punctuation c (l\<lparr>lx_in_scalar := False\<rparr>)
            in (\<lparr>ls_ends_before = lx_in_scalar l, ls_ends_after = False, ls_structural = structural\<rparr>, l')))"

definition lx_finish_leaf :: "leaf_lexer \<Rightarrow> bool \<times> leaf_lexer" where
  "lx_finish_leaf l = (lx_in_scalar l, l\<lparr>lx_in_scalar := False\<rparr>)"

section \<open>One pass\<close>

datatype rest_result = RestComplete | RestPaused | RestFailed

abbreviation SegmentCapacity :: nat where "SegmentCapacity \<equiv> 512"

text \<open>The part of the job a pass reads and writes, the sink itself, and the connection.\<close>

record 'k rest_sink =
  rk_leaves_sent :: nat
  rk_structure_crc :: u32
  rk_lexer :: leaf_lexer
  rk_segment :: string
  rk_leaf_index :: nat
  rk_crc :: u32
  rk_mid_leaf_written :: bool
  rk_result :: rest_result
  rk_conn :: 'k

type_synonym 'k rest_room = "'k \<Rightarrow> nat"
type_synonym 'k rest_write = "string \<Rightarrow> 'k \<Rightarrow> bool \<times> 'k"

definition rk_init :: "nat \<Rightarrow> u32 \<Rightarrow> 'k \<Rightarrow> 'k rest_sink" where
  "rk_init leaves_sent structure_crc k = \<lparr>rk_leaves_sent = leaves_sent, rk_structure_crc = structure_crc, rk_lexer = lx_init, rk_segment = [],
     rk_leaf_index = 0, rk_crc = 0, rk_mid_leaf_written = False, rk_result = RestComplete, rk_conn = k\<rparr>"

definition rk_fail :: "'k rest_sink \<Rightarrow> bool \<times> 'k rest_sink" where
  "rk_fail s = (False, s\<lparr>rk_result := RestFailed\<rparr>)"

definition rk_pause_or_fail :: "bool \<Rightarrow> 'k rest_sink \<Rightarrow> bool \<times> 'k rest_sink" where
  "rk_pause_or_fail cannot_resume s = (False, s\<lparr>rk_result := (if cannot_resume then RestFailed else RestPaused)\<rparr>)"

definition rk_commit :: "'k rest_room \<Rightarrow> 'k rest_write \<Rightarrow> 'k rest_sink \<Rightarrow> bool \<times> 'k rest_sink" where
  "rk_commit room wr s =
     (if rk_segment s = [] then (True, s\<lparr>rk_mid_leaf_written := False\<rparr>)
      else if room (rk_conn s) < length (rk_segment s) then rk_pause_or_fail (rk_mid_leaf_written s) s
      else (case wr (rk_segment s) (rk_conn s) of
              (False, k) \<Rightarrow> rk_fail (s\<lparr>rk_conn := k\<rparr>)
            | (True, k) \<Rightarrow> (True, s\<lparr>rk_conn := k, rk_segment := [], rk_mid_leaf_written := False\<rparr>)))"

definition rk_append :: "'k rest_room \<Rightarrow> 'k rest_write \<Rightarrow> char \<Rightarrow> 'k rest_sink \<Rightarrow> bool \<times> 'k rest_sink" where
  "rk_append room wr c s =
     (if length (rk_segment s) = SegmentCapacity then
        (if room (rk_conn s) < length (rk_segment s) then rk_pause_or_fail True s
         else (case wr (rk_segment s) (rk_conn s) of
                 (False, k) \<Rightarrow> rk_pause_or_fail True (s\<lparr>rk_conn := k\<rparr>)
               | (True, k) \<Rightarrow> (True, s\<lparr>rk_conn := k, rk_mid_leaf_written := True, rk_segment := [c]\<rparr>)))
      else (True, s\<lparr>rk_segment := rk_segment s @ [c]\<rparr>))"

definition rk_boundary :: "'k rest_room \<Rightarrow> 'k rest_write \<Rightarrow> 'k rest_sink \<Rightarrow> bool \<times> 'k rest_sink" where
  "rk_boundary room wr s0 =
     (let s = s0\<lparr>rk_leaf_index := rk_leaf_index s0 + 1\<rparr> in
      if rk_leaf_index s = rk_leaves_sent s then (if rk_crc s \<noteq> rk_structure_crc s then rk_fail s else (True, s))
      else if rk_leaf_index s < rk_leaves_sent s then (True, s)
      else (case rk_commit room wr s of
              (False, s1) \<Rightarrow> (False, s1)
            | (True, s1) \<Rightarrow> (True, s1\<lparr>rk_leaves_sent := rk_leaf_index s1, rk_structure_crc := rk_crc s1\<rparr>)))"

text \<open>A chain of steps that stops at the first one that returns false.\<close>

definition rk_then :: "(bool \<times> 'k rest_sink) \<Rightarrow> ('k rest_sink \<Rightarrow> bool \<times> 'k rest_sink) \<Rightarrow> bool \<times> 'k rest_sink" where
  "rk_then r f = (case r of (False, s) \<Rightarrow> (False, s) | (True, s) \<Rightarrow> f s)"

definition rk_feed :: "'k rest_room \<Rightarrow> 'k rest_write \<Rightarrow> char \<Rightarrow> 'k rest_sink \<Rightarrow> bool \<times> 'k rest_sink" where
  "rk_feed room wr c s0 =
     (let (step, l) = lx_feed c (rk_lexer s0); s = s0\<lparr>rk_lexer := l\<rparr> in
      rk_then (if ls_ends_before step then rk_boundary room wr s else (True, s))
        (\<lambda>s1. rk_then (if rk_leaves_sent s1 \<le> rk_leaf_index s1 then rk_append room wr c s1 else (True, s1))
          (\<lambda>s2. let s3 = (if ls_structural step then s2\<lparr>rk_crc := crc32_update (rk_crc s2) (octet_of c)\<rparr> else s2) in
             if ls_ends_after step then rk_boundary room wr s3 else (True, s3))))"

fun rk_write :: "'k rest_room \<Rightarrow> 'k rest_write \<Rightarrow> string \<Rightarrow> 'k rest_sink \<Rightarrow> bool \<times> 'k rest_sink" where
  "rk_write room wr [] s = (True, s)"
| "rk_write room wr (c # cs) s = rk_then (rk_feed room wr c s) (rk_write room wr cs)"

definition rk_finish :: "'k rest_room \<Rightarrow> 'k rest_write \<Rightarrow> 'k rest_sink \<Rightarrow> rest_result \<times> 'k rest_sink" where
  "rk_finish room wr s =
     (if rk_result s \<noteq> RestComplete then (rk_result s, s)
      else
        (let (leaf, l) = lx_finish_leaf (rk_lexer s); s1 = s\<lparr>rk_lexer := l\<rparr>;
             (ok, s2) = (if leaf then rk_boundary room wr s1 else (True, s1)) in
         if \<not> ok then (rk_result s2, s2)
         else if rk_leaf_index s2 < rk_leaves_sent s2 then (RestFailed, s2)
         else (case rk_commit room wr s2 of
                 (False, s3) \<Rightarrow> (rk_result s3, s3)
               | (True, s3) \<Rightarrow> (RestComplete, s3))))"

text \<open>A pass over a document that the model writer writes completely.\<close>

definition rest_pass :: "'k rest_room \<Rightarrow> 'k rest_write \<Rightarrow> string \<Rightarrow> nat \<Rightarrow> u32 \<Rightarrow> 'k \<Rightarrow> rest_result \<times> 'k rest_sink" where
  "rest_pass room wr doc leaves_sent structure_crc k =
     (case rk_write room wr doc (rk_init leaves_sent structure_crc k) of
        (False, s) \<Rightarrow> (rk_result s, s)
      | (True, s) \<Rightarrow> rk_finish room wr s)"

section \<open>Where a document can be cut\<close>

text \<open>
  The run of the lexer over a document, without any sink: the leaves that have ended and the checksum over the structure. \<open>scan\<close>
  also lists, for each leaf, the length of the prefix before which it ended and the checksum there.
\<close>

record lexer_run =
  lr_lexer :: leaf_lexer
  lr_crc :: u32
  lr_pos :: nat
  lr_cuts :: "(nat \<times> u32) list"

definition lr_init :: lexer_run where
  "lr_init = \<lparr>lr_lexer = lx_init, lr_crc = 0, lr_pos = 0, lr_cuts = []\<rparr>"

definition lr_mark :: "lexer_run \<Rightarrow> lexer_run" where
  "lr_mark r = r\<lparr>lr_cuts := lr_cuts r @ [(lr_pos r, lr_crc r)]\<rparr>"

definition lr_step :: "lexer_run \<Rightarrow> char \<Rightarrow> lexer_run" where
  "lr_step r0 c =
     (let (step, l) = lx_feed c (lr_lexer r0);
          r1 = (if ls_ends_before step then lr_mark r0 else r0);
          r2 = r1\<lparr>lr_lexer := l, lr_pos := lr_pos r1 + 1, lr_crc := (if ls_structural step then crc32_update (lr_crc r1) (octet_of c) else lr_crc r1)\<rparr>
      in if ls_ends_after step then lr_mark r2 else r2)"

definition scan :: "string \<Rightarrow> lexer_run" where
  "scan doc = foldl lr_step lr_init doc"

definition scan_end :: "string \<Rightarrow> lexer_run" where
  "scan_end doc = (let r = scan doc in if fst (lx_finish_leaf (lr_lexer r)) then lr_mark r else r)"

text \<open>The prefix that ends with leaf \<open>n\<close>, and the checksum there.\<close>

definition cut_pos :: "(nat \<times> u32) list \<Rightarrow> nat \<Rightarrow> nat" where
  "cut_pos cuts n = (if n = 0 then 0 else fst (cuts ! (n - 1)))"

definition cut_ok :: "(nat \<times> u32) list \<Rightarrow> nat \<Rightarrow> u32 \<Rightarrow> bool" where
  "cut_ok cuts n crc \<longleftrightarrow> n \<le> length cuts \<and> (n \<noteq> 0 \<longrightarrow> crc = snd (cuts ! (n - 1)))"

definition all_cuts :: "string \<Rightarrow> (nat \<times> u32) list" where
  "all_cuts doc = lr_cuts (scan_end doc)"

text \<open>Every leaf with the structure before it fits a segment, and so does what follows the last leaf.\<close>

definition segments_fit :: "string \<Rightarrow> bool" where
  "segments_fit doc \<longleftrightarrow> list_all (\<lambda>i. (if i < length (all_cuts doc) then fst (all_cuts doc ! i) else length doc) \<le> cut_pos (all_cuts doc) i + SegmentCapacity)
     [0..<Suc (length (all_cuts doc))]"

text \<open>Cuts that are found later lie behind the position that has been read.\<close>

definition later_cuts :: "lexer_run \<Rightarrow> (nat \<times> u32) list \<Rightarrow> bool" where
  "later_cuts r cuts \<longleftrightarrow> (\<exists>rest. cuts = lr_cuts r @ rest \<and> (\<forall>x \<in> set rest. lr_pos r \<le> fst x))"

lemma later_cuts_refl: "later_cuts r (lr_cuts r)"
  by (auto simp: later_cuts_def)

lemma later_cuts_mark: "later_cuts (lr_mark r) cuts \<Longrightarrow> later_cuts r cuts"
  by (auto simp: later_cuts_def lr_mark_def)

lemma later_cuts_advance:
  "later_cuts r' cuts \<Longrightarrow> lr_cuts r' = lr_cuts r \<Longrightarrow> lr_pos r \<le> lr_pos r' \<Longrightarrow> later_cuts r cuts"
  by (fastforce simp: later_cuts_def)

lemma later_cuts_step:
  assumes "later_cuts (lr_step r c) cuts" "lx_feed c (lr_lexer r) = (step, l)" "r1 = (if ls_ends_before step then lr_mark r else r)"
    and "r2 = r1\<lparr>lr_lexer := l, lr_pos := lr_pos r1 + 1, lr_crc := (if ls_structural step then crc32_update (lr_crc r1) (octet_of c) else lr_crc r1)\<rparr>"
  shows "later_cuts r2 cuts" "later_cuts r1 cuts" "later_cuts r cuts" "lr_step r c = (if ls_ends_after step then lr_mark r2 else r2)"
proof -
  show e: "lr_step r c = (if ls_ends_after step then lr_mark r2 else r2)" using assms(2-4) by (simp add: lr_step_def Let_def)
  show 2: "later_cuts r2 cuts" using assms(1) e later_cuts_mark by (auto split: if_splits)
  show 1: "later_cuts r1 cuts" by (rule later_cuts_advance [OF 2]) (simp_all add: assms(4))
  show "later_cuts r cuts" using 1 assms(3) later_cuts_mark by (auto split: if_splits)
qed

lemma later_cuts_run: "later_cuts (foldl lr_step r v) cuts \<Longrightarrow> later_cuts r cuts"
proof (induction v arbitrary: r)
  case (Cons c v)
  obtain step l where "lx_feed c (lr_lexer r) = (step, l)" by fastforce
  from later_cuts_step(3) [OF Cons.IH [OF Cons.prems [unfolded foldl_Cons]] this refl refl] show ?case .
qed simp

lemma later_cuts_all: "later_cuts (scan u) (all_cuts (u @ v))"
proof -
  have "later_cuts (scan (u @ v)) (all_cuts (u @ v))"
    using later_cuts_refl [of "lr_mark (scan (u @ v))"] later_cuts_mark later_cuts_refl
    by (auto simp: all_cuts_def scan_end_def Let_def)
  then show ?thesis unfolding scan_def foldl_append by (rule later_cuts_run)
qed

lemma lr_pos_step: "lr_pos (lr_step r c) = lr_pos r + 1"
  by (simp add: lr_step_def lr_mark_def Let_def split: prod.splits)

lemma scan_pos [simp]: "lr_pos (scan u) = length u"
  by (induction u rule: rev_induct) (simp_all add: scan_def lr_init_def lr_pos_step)

lemma scan_snoc: "scan (u @ [c]) = lr_step (scan u) c"
  by (simp add: scan_def)

section \<open>The passes of one response\<close>

text \<open>
  What the sink needs of a connection that is still up: a write that has room is taken as a whole. \<open>sent\<close> is everything written to the connection.
\<close>

locale rest_connection =
  fixes room :: "'k \<Rightarrow> nat"
    and wr :: "string \<Rightarrow> 'k \<Rightarrow> bool \<times> 'k"
    and sent :: "'k \<Rightarrow> string"
    and live :: "'k \<Rightarrow> bool"
  assumes write_takes: "live k \<Longrightarrow> length d \<le> room k \<Longrightarrow> fst (wr d k) \<and> sent (snd (wr d k)) = sent k @ d \<and> live (snd (wr d k))"
begin

text \<open>After the prefix \<open>u\<close> of the document, with the lexer's run \<open>r\<close>; \<open>n0\<close> leaves had been sent before the pass.\<close>

definition core :: "string \<Rightarrow> nat \<Rightarrow> string \<Rightarrow> 'k rest_sink \<Rightarrow> lexer_run \<Rightarrow> string \<Rightarrow> bool" where
  "core doc n0 pre s r u \<longleftrightarrow> rk_crc s = lr_crc r \<and> rk_leaf_index s = length (lr_cuts r) \<and> rk_result s = RestComplete \<and> lr_pos r = length u \<and> live (rk_conn s) \<and>
     later_cuts r (all_cuts doc) \<and> (\<exists>v. doc = u @ v) \<and>
     rk_leaves_sent s = max n0 (rk_leaf_index s) \<and> cut_ok (all_cuts doc) (rk_leaves_sent s) (rk_structure_crc s) \<and>
     (if rk_leaf_index s < n0 then rk_segment s = [] \<and> sent (rk_conn s) = pre else sent (rk_conn s) @ rk_segment s = u) \<and>
     (rk_mid_leaf_written s \<longrightarrow> n0 \<le> rk_leaf_index s) \<and>
     (\<not> rk_mid_leaf_written s \<longrightarrow> sent (rk_conn s) = take (cut_pos (all_cuts doc) (rk_leaves_sent s)) doc) \<and>
     (segments_fit doc \<longrightarrow> \<not> rk_mid_leaf_written s)"

text \<open>A pass that stopped: what was sent is a prefix of the document, and a pause can be resumed.\<close>

definition stopped :: "string \<Rightarrow> 'k rest_sink \<Rightarrow> bool" where
  "stopped doc s \<longleftrightarrow> rk_result s \<noteq> RestComplete \<and> live (rk_conn s) \<and> (\<exists>v. doc = sent (rk_conn s) @ v) \<and> (segments_fit doc \<longrightarrow> rk_result s = RestPaused) \<and>
     (rk_result s = RestPaused \<longrightarrow> cut_ok (all_cuts doc) (rk_leaves_sent s) (rk_structure_crc s) \<and>
        sent (rk_conn s) = take (cut_pos (all_cuts doc) (rk_leaves_sent s)) doc)"

lemma cut_at_mark:
  assumes "later_cuts (lr_mark r) cuts"
  shows "cuts ! length (lr_cuts r) = (lr_pos r, lr_crc r)" "length (lr_cuts r) < length cuts"
  using assms by (auto simp: later_cuts_def lr_mark_def nth_append)

lemma core_lexer: "core doc n0 pre (s\<lparr>rk_lexer := l\<rparr>) r u = core doc n0 pre s r u"
  unfolding core_def by simp

lemma core_prefix: "core doc n0 pre s r u \<Longrightarrow> pre = take (cut_pos (all_cuts doc) n0) doc \<Longrightarrow> \<exists>v. doc = sent (rk_conn s) @ v"
  unfolding core_def by (metis append_assoc append_take_drop_id)

lemma commit_core:
  assumes "core doc n0 pre s r u" "n0 \<le> rk_leaf_index s" "pre = take (cut_pos (all_cuts doc) n0) doc"
  shows "case rk_commit room wr s of
    (True, s') \<Rightarrow> s' = s\<lparr>rk_conn := rk_conn s', rk_segment := [], rk_mid_leaf_written := False\<rparr> \<and> sent (rk_conn s') = u \<and> live (rk_conn s')
  | (False, s') \<Rightarrow> stopped doc s'"
proof -
  note c = assms(1) [unfolded core_def]
  have all: "sent (rk_conn s) @ rk_segment s = u" using c assms(2) by simp
  show ?thesis
  proof (cases "rk_segment s = []")
    case True
    then show ?thesis using all c by (simp add: rk_commit_def)
  next
    case seg: False
    show ?thesis
    proof (cases "room (rk_conn s) < length (rk_segment s)")
      case True
      have "stopped doc (s\<lparr>rk_result := (if rk_mid_leaf_written s then RestFailed else RestPaused)\<rparr>)"
        using c core_prefix [OF assms(1,3)] by (auto simp: stopped_def)
      then show ?thesis using seg True by (simp add: rk_commit_def rk_pause_or_fail_def)
    next
      case False
      then have "fst (wr (rk_segment s) (rk_conn s))" "sent (snd (wr (rk_segment s) (rk_conn s))) = u" "live (snd (wr (rk_segment s) (rk_conn s)))"
        using write_takes [of "rk_conn s" "rk_segment s"] all c by simp_all
      then show ?thesis using seg False by (cases "wr (rk_segment s) (rk_conn s)") (auto simp: rk_commit_def)
    qed
  qed
qed

lemma boundary_core:
  assumes "core doc n0 pre s r u" "later_cuts (lr_mark r) (all_cuts doc)" "pre = take (cut_pos (all_cuts doc) n0) doc"
  shows "case rk_boundary room wr s of (True, s') \<Rightarrow> core doc n0 pre s' (lr_mark r) u \<and> rk_lexer s' = rk_lexer s | (False, s') \<Rightarrow> stopped doc s'"
proof -
  note c = assms(1) [unfolded core_def]
  let ?n = "rk_leaf_index s" and ?s = "s\<lparr>rk_leaf_index := rk_leaf_index s + 1\<rparr>" and ?A = "all_cuts doc"
  have at: "?A ! ?n = (length u, rk_crc s)" "?n < length ?A" using cut_at_mark [OF assms(2)] c by simp_all
  have m: "lr_crc (lr_mark r) = lr_crc r" "lr_pos (lr_mark r) = lr_pos r" "length (lr_cuts (lr_mark r)) = ?n + 1"
    using c by (simp_all add: lr_mark_def)
  obtain v where doc: "doc = u @ v" using c by blast
  consider "?n + 1 < n0" | "?n + 1 = n0" | "n0 \<le> ?n" by linarith
  then show ?thesis
  proof cases
    case 1
    then have "rk_boundary room wr s = (True, ?s)" using c by (simp add: rk_boundary_def Let_def)
    moreover have "core doc n0 pre ?s (lr_mark r) u" using c 1 m assms(2) by (auto simp: core_def max_def)
    ultimately show ?thesis by simp
  next
    case 2
    then have sent: "rk_leaves_sent s = n0" "sent (rk_conn s) = pre" "rk_segment s = []" "\<not> rk_mid_leaf_written s" using c by auto
    have pre: "pre = u" using 2 at(1) assms(3) doc by (auto simp: cut_pos_def)
    have "cut_ok ?A n0 (rk_structure_crc s)" using c sent(1) by simp
    moreover have "n0 - 1 = ?n" "n0 \<noteq> 0" using 2 by simp_all
    ultimately have "rk_structure_crc s = rk_crc s" using at(1) by (simp add: cut_ok_def)
    then have "rk_boundary room wr s = (True, ?s)" using 2 sent by (simp add: rk_boundary_def Let_def)
    moreover have "core doc n0 pre ?s (lr_mark r) u" using c 2 m assms(2) sent pre by (auto simp: core_def)
    ultimately show ?thesis by simp
  next
    case 3
    have cs: "core doc n0 pre s r u \<Longrightarrow> stopped doc (s'\<lparr>rk_leaf_index := x\<rparr>) = stopped doc s'" for s' x by (simp add: stopped_def)
    obtain ok s1 where k: "rk_commit room wr s = (ok, s1)" by fastforce
    have k': "rk_commit room wr ?s = (ok, s1\<lparr>rk_leaf_index := ?n + 1\<rparr>)"
      using k by (cases s) (auto simp: rk_commit_def rk_pause_or_fail_def rk_fail_def split: if_splits prod.splits bool.splits)
    have b: "rk_boundary room wr s = (if ok then (True, s1\<lparr>rk_leaf_index := ?n + 1, rk_leaves_sent := ?n + 1, rk_structure_crc := rk_crc s1\<rparr>) else (False, s1\<lparr>rk_leaf_index := ?n + 1\<rparr>))"
      using k' 3 c by (cases ok) (auto simp: rk_boundary_def Let_def max_def)
    note r = commit_core [OF assms(1) 3 assms(3), unfolded k]
    show ?thesis
    proof (cases ok)
      case False
      then show ?thesis using b r cs [OF assms(1)] by simp
    next
      case True
      then have s1: "s1 = s\<lparr>rk_conn := rk_conn s1, rk_segment := [], rk_mid_leaf_written := False\<rparr>" "sent (rk_conn s1) = u" "live (rk_conn s1)" using r by simp_all
      let ?s1 = "s1\<lparr>rk_leaf_index := ?n + 1, rk_leaves_sent := ?n + 1, rk_structure_crc := rk_crc s1\<rparr>"
      have f: "rk_crc s1 = rk_crc s" "rk_result s1 = rk_result s" "rk_lexer s1 = rk_lexer s" "rk_segment s1 = []" "\<not> rk_mid_leaf_written s1"
        by (subst s1(1), simp)+
      have "core doc n0 pre ?s1 (lr_mark r) u"
        using c 3 m assms(2) f s1(2,3) at doc by (auto simp: core_def cut_ok_def cut_pos_def max_def)
      then show ?thesis using b True f by simp
    qed
  qed
qed


lemma append_core:
  assumes "core doc n0 pre s r u" "n0 \<le> rk_leaf_index s" "doc = u @ c # v" "pre = take (cut_pos (all_cuts doc) n0) doc"
    and later: "later_cuts (r\<lparr>lr_pos := lr_pos r + 1\<rparr>) (all_cuts doc)"
  shows "case rk_append room wr c s of
    (True, s') \<Rightarrow> s' = s\<lparr>rk_conn := rk_conn s', rk_segment := rk_segment s', rk_mid_leaf_written := rk_mid_leaf_written s'\<rparr> \<and>
      sent (rk_conn s') @ rk_segment s' = u @ [c] \<and> live (rk_conn s') \<and> (\<not> rk_mid_leaf_written s' \<longrightarrow> \<not> rk_mid_leaf_written s \<and> rk_conn s' = rk_conn s) \<and>
      (segments_fit doc \<longrightarrow> \<not> rk_mid_leaf_written s')
  | (False, s') \<Rightarrow> stopped doc s'"
proof -
  note c = assms(1) [unfolded core_def]
  let ?A = "all_cuts doc" and ?n = "rk_leaf_index s"
  have all: "sent (rk_conn s) @ rk_segment s = u" "rk_leaves_sent s = ?n" using c assms(2) by (simp_all add: max_def)
  have fits: "length (rk_segment s) \<noteq> SegmentCapacity" if fit: "segments_fit doc"
  proof
    assume full: "length (rk_segment s) = SegmentCapacity"
    have "sent (rk_conn s) = take (cut_pos ?A ?n) doc" using c fit all(2) by simp
    then have len: "length u = min (length doc) (cut_pos ?A ?n) + SegmentCapacity" using arg_cong [OF all(1), of length] full by simp
    moreover have "length u < length doc" using assms(3) by simp
    ultimately have "length u = cut_pos ?A ?n + SegmentCapacity" by linarith
    obtain rest where rest: "?A = lr_cuts r @ rest" "\<forall>x \<in> set rest. length u + 1 \<le> fst x" using later c by (auto simp: later_cuts_def)
    have n: "?n = length (lr_cuts r)" using c by simp
    have "length u + 1 \<le> (if ?n < length ?A then fst (?A ! ?n) else length doc)"
      using rest n \<open>length u < length doc\<close> by (cases rest) (auto simp: nth_append)
    moreover have "(if ?n < length ?A then fst (?A ! ?n) else length doc) \<le> cut_pos ?A ?n + SegmentCapacity"
      using fit n rest(1) by (auto simp: segments_fit_def list_all_iff)
    ultimately show False using \<open>length u = cut_pos ?A ?n + SegmentCapacity\<close> by linarith
  qed
  show ?thesis
  proof (cases "length (rk_segment s) = SegmentCapacity")
    case False
    then show ?thesis using all(1) c by (auto simp: rk_append_def)
  next
    case True
    then have nofit: "\<not> segments_fit doc" using fits by blast
    show ?thesis
    proof (cases "room (rk_conn s) < length (rk_segment s)")
      case small: True
      have "stopped doc (s\<lparr>rk_result := RestFailed\<rparr>)" using nofit c core_prefix [OF assms(1,4)] by (simp add: stopped_def)
      then show ?thesis using True small by (simp add: rk_append_def rk_pause_or_fail_def)
    next
      case big: False
      then have "fst (wr (rk_segment s) (rk_conn s))" "sent (snd (wr (rk_segment s) (rk_conn s))) = u" "live (snd (wr (rk_segment s) (rk_conn s)))"
        using write_takes [of "rk_conn s" "rk_segment s"] all c by simp_all
      then show ?thesis using True big nofit by (cases "wr (rk_segment s) (rk_conn s)") (auto simp: rk_append_def)
    qed
  qed
qed

lemma feed_core:
  assumes c0: "core doc n0 pre s (scan u) u" "rk_lexer s = lr_lexer (scan u)" and doc: "doc = u @ c # v" and pre: "pre = take (cut_pos (all_cuts doc) n0) doc"
  shows "case rk_feed room wr c s of
    (True, s') \<Rightarrow> core doc n0 pre s' (scan (u @ [c])) (u @ [c]) \<and> rk_lexer s' = lr_lexer (scan (u @ [c])) | (False, s') \<Rightarrow> stopped doc s'"
proof -
  let ?A = "all_cuts doc"
  obtain step l where lx: "lx_feed c (lr_lexer (scan u)) = (step, l)" by fastforce
  define r1 where "r1 = (if ls_ends_before step then lr_mark (scan u) else scan u)"
  define r2 where "r2 = r1\<lparr>lr_lexer := l, lr_pos := lr_pos r1 + 1, lr_crc := (if ls_structural step then crc32_update (lr_crc r1) (octet_of c) else lr_crc r1)\<rparr>"
  have "later_cuts (lr_step (scan u) c) ?A" using later_cuts_all [of "u @ [c]" v] doc by (simp add: scan_snoc)
  note later = later_cuts_step [OF this lx r1_def r2_def]
  let ?s = "s\<lparr>rk_lexer := l\<rparr>"
  have c: "core doc n0 pre ?s (scan u) u" using c0(1) by (simp only: core_lexer)
  obtain ok1 s1 where b1: "(if ls_ends_before step then rk_boundary room wr ?s else (True, ?s)) = (ok1, s1)" by fastforce
  have r: "case (ok1, s1) of (True, s') \<Rightarrow> core doc n0 pre s' r1 u \<and> rk_lexer s' = l | (False, s') \<Rightarrow> stopped doc s'"
  proof (cases "ls_ends_before step")
    case True
    then have "later_cuts (lr_mark (scan u)) ?A" using later(2) by (simp add: r1_def)
    from boundary_core [OF c this pre] show ?thesis using b1 True by (cases ok1) (auto simp: r1_def)
  next
    case False
    then show ?thesis using b1 c by (auto simp: r1_def)
  qed
  show ?thesis
  proof (cases ok1)
    case False
    then show ?thesis using r b1 c0(2) lx by (simp add: rk_feed_def Let_def rk_then_def)
  next
    case True
    then have s1: "core doc n0 pre s1 r1 u" "rk_lexer s1 = l" using r by simp_all
    obtain ok2 s2 where b2: "(if rk_leaves_sent s1 \<le> rk_leaf_index s1 then rk_append room wr c s1 else (True, s1)) = (ok2, s2)" by fastforce
    let ?s3 = "if ls_structural step then s2\<lparr>rk_crc := crc32_update (rk_crc s2) (octet_of c)\<rparr> else s2"
    have feed: "rk_feed room wr c s = (if ok2 then (if ls_ends_after step then rk_boundary room wr ?s3 else (True, ?s3)) else (False, s2))"
      using b1 b2 True c0(2) lx by (cases ok2) (simp_all add: rk_feed_def Let_def rk_then_def)
    have lpos: "later_cuts (r1\<lparr>lr_pos := lr_pos r1 + 1\<rparr>) ?A" using later(1) by (simp add: later_cuts_def r2_def)
    have live: "rk_leaves_sent s1 \<le> rk_leaf_index s1 \<longleftrightarrow> n0 \<le> rk_leaf_index s1" using s1(1) by (auto simp: core_def)
    have done': "if ok2 then core doc n0 pre ?s3 r2 (u @ [c]) \<and> rk_lexer ?s3 = l else stopped doc s2"
    proof (cases "n0 \<le> rk_leaf_index s1")
      case False
      then have "s2 = s1" "ok2" using b2 live by simp_all
      then show ?thesis using s1 False doc later(1) by (auto simp: core_def r2_def)
    next
      case on: True
      note a = append_core [OF s1(1) on doc pre lpos]
      have ap: "rk_append room wr c s1 = (ok2, s2)" using b2 live on by simp
      show ?thesis
      proof (cases ok2)
        case False
        then show ?thesis using a ap by simp
      next
        case yes: True
        then have s2: "s2 = s1\<lparr>rk_conn := rk_conn s2, rk_segment := rk_segment s2, rk_mid_leaf_written := rk_mid_leaf_written s2\<rparr>"
          "sent (rk_conn s2) @ rk_segment s2 = u @ [c]" "live (rk_conn s2)" "\<not> rk_mid_leaf_written s2 \<longrightarrow> \<not> rk_mid_leaf_written s1 \<and> rk_conn s2 = rk_conn s1"
          "segments_fit doc \<longrightarrow> \<not> rk_mid_leaf_written s2" using a ap by simp_all
        have f: "rk_crc s2 = rk_crc s1" "rk_result s2 = rk_result s1" "rk_lexer s2 = rk_lexer s1" "rk_leaf_index s2 = rk_leaf_index s1"
          "rk_leaves_sent s2 = rk_leaves_sent s1" "rk_structure_crc s2 = rk_structure_crc s1" by (subst s2(1), simp)+
        have "core doc n0 pre ?s3 r2 (u @ [c])"
          using s1(1) f s2(2-5) on doc later(1) by (auto simp: core_def r2_def)
        then show ?thesis using yes f s1(2) by simp
      qed
    qed
    show ?thesis
    proof (cases ok2)
      case False
      then show ?thesis using feed done' by simp
    next
      case yes: True
      then have s3: "core doc n0 pre ?s3 r2 (u @ [c])" "rk_lexer ?s3 = l" using done' by simp_all
      have l2: "lr_lexer (scan (u @ [c])) = l" using later(4) by (auto simp: scan_snoc r2_def lr_mark_def)
      show ?thesis
      proof (cases "ls_ends_after step")
        case False
        then show ?thesis using feed yes s3 later(4) l2 by (simp add: scan_snoc)
      next
        case end': True
        then have mark: "lr_step (scan u) c = lr_mark r2" using later(4) by simp
        have "later_cuts (lr_mark r2) ?A" using later_cuts_all [of "u @ [c]" v] doc mark by (simp add: scan_snoc)
        from boundary_core [OF s3(1) this pre] show ?thesis using feed yes end' s3(2) mark l2 by (auto simp: scan_snoc split: prod.splits bool.splits)
      qed
    qed
  qed
qed

lemma write_core:
  "core doc n0 pre s (scan u) u \<Longrightarrow> rk_lexer s = lr_lexer (scan u) \<Longrightarrow> doc = u @ v \<Longrightarrow> pre = take (cut_pos (all_cuts doc) n0) doc \<Longrightarrow>
   (case rk_write room wr v s of (True, s') \<Rightarrow> core doc n0 pre s' (scan doc) doc \<and> rk_lexer s' = lr_lexer (scan doc) | (False, s') \<Rightarrow> stopped doc s')"
proof (induction v arbitrary: s u)
  case (Cons c v)
  note f = feed_core [OF Cons.prems(1,2,3,4)]
  obtain ok s1 where r: "rk_feed room wr c s = (ok, s1)" by fastforce
  show ?case
  proof (cases ok)
    case True
    then have "core doc n0 pre s1 (scan (u @ [c])) (u @ [c])" "rk_lexer s1 = lr_lexer (scan (u @ [c]))" using f r by simp_all
    from Cons.IH [OF this] Cons.prems(3,4) True r show ?thesis by (simp add: rk_then_def)
  next
    case False
    then show ?thesis using f r by (simp add: rk_then_def)
  qed
qed simp

text \<open>One pass, from a place where the document was cut.\<close>

lemma pass_core:
  assumes "cut_ok (all_cuts doc) n0 crc" "sent k = take (cut_pos (all_cuts doc) n0) doc" "live k"
  shows "case rest_pass room wr doc n0 crc k of
    (res, s) \<Rightarrow> live (rk_conn s) \<and> (\<exists>v. doc = sent (rk_conn s) @ v) \<and> (res = RestComplete \<longrightarrow> sent (rk_conn s) = doc) \<and>
      (segments_fit doc \<longrightarrow> res \<noteq> RestFailed) \<and>
      (res = RestPaused \<longrightarrow> cut_ok (all_cuts doc) (rk_leaves_sent s) (rk_structure_crc s) \<and> sent (rk_conn s) = take (cut_pos (all_cuts doc) (rk_leaves_sent s)) doc)"
proof -
  let ?A = "all_cuts doc" and ?pre = "take (cut_pos (all_cuts doc) n0) doc"
  have init: "core doc n0 ?pre (rk_init n0 crc k) (scan []) []"
    using assms later_cuts_all [of "[]" doc] by (auto simp: core_def rk_init_def scan_def lr_init_def cut_pos_def)
  have "rk_lexer (rk_init n0 crc k) = lr_lexer (scan [])" by (simp add: rk_init_def scan_def lr_init_def)
  note w = write_core [OF init this, of doc, simplified]
  have stop: "live (rk_conn s) \<and> (\<exists>v. doc = sent (rk_conn s) @ v) \<and> (rk_result s = RestComplete \<longrightarrow> sent (rk_conn s) = doc) \<and> (segments_fit doc \<longrightarrow> rk_result s \<noteq> RestFailed) \<and>
      (rk_result s = RestPaused \<longrightarrow> cut_ok ?A (rk_leaves_sent s) (rk_structure_crc s) \<and> sent (rk_conn s) = take (cut_pos ?A (rk_leaves_sent s)) doc)"
    if "stopped doc s" for s using that by (auto simp: stopped_def)
  obtain ok s where r: "rk_write room wr doc (rk_init n0 crc k) = (ok, s)" by fastforce
  show ?thesis
  proof (cases ok)
    case False
    then show ?thesis using w r stop [of s] by (simp add: rest_pass_def)
  next
    case True
    then have s: "core doc n0 ?pre s (scan doc) doc" "rk_lexer s = lr_lexer (scan doc)" using w r by simp_all
    obtain leaf l where lf: "lx_finish_leaf (rk_lexer s) = (leaf, l)" by fastforce
    let ?s1 = "s\<lparr>rk_lexer := l\<rparr>"
    have s1: "core doc n0 ?pre ?s1 (scan doc) doc" using s(1) by (simp only: core_lexer)
    obtain ok2 s2 where b: "(if leaf then rk_boundary room wr ?s1 else (True, ?s1)) = (ok2, s2)" by fastforce
    have res: "rk_result s = RestComplete" using s(1) by (simp add: core_def)
    have fin: "rest_pass room wr doc n0 crc k = (if \<not> ok2 then (rk_result s2, s2) else if rk_leaf_index s2 < rk_leaves_sent s2 then (RestFailed, s2)
        else (case rk_commit room wr s2 of (False, s3) \<Rightarrow> (rk_result s3, s3) | (True, s3) \<Rightarrow> (RestComplete, s3)))"
    proof -
      have "rest_pass room wr doc n0 crc k = rk_finish room wr s" using r True by (simp add: rest_pass_def)
      then show ?thesis using res unfolding rk_finish_def Let_def lf prod.case b by simp
    qed
    have two: "if ok2 then core doc n0 ?pre s2 (scan_end doc) doc else stopped doc s2"
    proof (cases leaf)
      case leaf: True
      then have "scan_end doc = lr_mark (scan doc)" using s(2) lf by (simp add: scan_end_def Let_def)
      moreover have "later_cuts (lr_mark (scan doc)) ?A" using calculation later_cuts_refl [of "scan_end doc"] by (simp add: all_cuts_def)
      ultimately show ?thesis using boundary_core [OF s1 _ refl] b leaf by (auto split: prod.splits bool.splits)
    next
      case False
      then have "scan_end doc = scan doc" using s(2) lf by (simp add: scan_end_def Let_def)
      then show ?thesis using b False s1 by auto
    qed
    show ?thesis
    proof (cases ok2)
      case False
      then show ?thesis using fin two stop [of s2] by simp
    next
      case on: True
      then have c2: "core doc n0 ?pre s2 (scan_end doc) doc" using two by simp
      have "n0 \<le> length ?A" using assms(1) by (simp add: cut_ok_def)
      then have n: "n0 \<le> rk_leaf_index s2" "rk_leaves_sent s2 = rk_leaf_index s2" using c2 by (simp_all add: core_def all_cuts_def max_def)
      obtain ok3 s3 where k: "rk_commit room wr s2 = (ok3, s3)" by fastforce
      note com = commit_core [OF c2 n(1) refl, unfolded k]
      show ?thesis using fin on n(2) k com stop [of s3] by (cases ok3) auto
    qed
  qed
qed

end

section \<open>Progress\<close>

text \<open>A pass that is paused has sent a leaf, unless the connection had less room than a segment when the pass began.\<close>

definition progress :: "nat \<Rightarrow> 'k \<Rightarrow> 'k rest_sink \<Rightarrow> bool" where
  "progress n0 k0 s \<longleftrightarrow> (rk_leaves_sent s = n0 \<and> \<not> rk_mid_leaf_written s \<longrightarrow> rk_conn s = k0) \<and> length (rk_segment s) \<le> SegmentCapacity \<and>
     n0 \<le> rk_leaves_sent s \<and> rk_result s = RestComplete"

definition paused_late :: "'k rest_room \<Rightarrow> nat \<Rightarrow> 'k \<Rightarrow> 'k rest_sink \<Rightarrow> bool" where
  "paused_late room n0 k0 s \<longleftrightarrow> rk_result s \<noteq> RestComplete \<and> (rk_result s = RestPaused \<longrightarrow> n0 < rk_leaves_sent s \<or> room k0 < SegmentCapacity)"

definition goes_on :: "'k rest_room \<Rightarrow> nat \<Rightarrow> 'k \<Rightarrow> bool \<times> 'k rest_sink \<Rightarrow> bool" where
  "goes_on room n0 k0 r \<longleftrightarrow> (if fst r then progress n0 k0 (snd r) else paused_late room n0 k0 (snd r))"

lemma commit_progress:
  assumes "progress n0 k0 s"
  shows "case rk_commit room wr s of
    (True, s') \<Rightarrow> rk_segment s' = [] \<and> rk_result s' = RestComplete \<and> rk_leaf_index s' = rk_leaf_index s | (False, s') \<Rightarrow> paused_late room n0 k0 s'"
  using assms by (auto simp: progress_def paused_late_def rk_commit_def rk_pause_or_fail_def rk_fail_def split: prod.splits bool.splits)

lemma boundary_progress:
  assumes "progress n0 k0 s"
  shows "goes_on room n0 k0 (rk_boundary room wr s)"
proof -
  let ?s = "s\<lparr>rk_leaf_index := rk_leaf_index s + 1\<rparr>"
  have p: "progress n0 k0 ?s" using assms by (simp add: progress_def)
  note c = commit_progress [OF p, of room wr]
  show ?thesis
  proof (cases "rk_leaf_index ?s \<le> rk_leaves_sent s")
    case True
    then show ?thesis using p assms by (auto simp: goes_on_def rk_boundary_def Let_def rk_fail_def paused_late_def)
  next
    case False
    then have "n0 < rk_leaf_index ?s" using assms by (simp add: progress_def)
    then show ?thesis using False c by (auto simp: goes_on_def rk_boundary_def Let_def progress_def split: prod.splits bool.splits)
  qed
qed

lemma append_progress:
  assumes "progress n0 k0 s"
  shows "goes_on room n0 k0 (rk_append room wr c s)"
  using assms by (auto simp: goes_on_def progress_def paused_late_def rk_append_def rk_pause_or_fail_def split: prod.splits bool.splits)

lemma progress_lexer [simp]: "progress n0 k0 (s\<lparr>rk_lexer := l\<rparr>) = progress n0 k0 s" "progress n0 k0 (s\<lparr>rk_crc := x\<rparr>) = progress n0 k0 s"
  by (simp_all add: progress_def)

lemma then_progress:
  assumes "goes_on room n0 k0 (r)"
    and "\<And>s'. progress n0 k0 s' \<Longrightarrow> goes_on room n0 k0 (f s')"
  shows "goes_on room n0 k0 (rk_then r f)"
  using assms by (cases r; cases "fst r") (auto simp: rk_then_def goes_on_def)

lemma feed_progress:
  assumes "progress n0 k0 s"
  shows "goes_on room n0 k0 (rk_feed room wr c s)"
proof -
  obtain step l where lx: "lx_feed c (rk_lexer s) = (step, l)" by fastforce
  show ?thesis unfolding rk_feed_def Let_def lx prod.case
  proof (intro then_progress)
    show "goes_on room n0 k0 (if ls_ends_before step then rk_boundary room wr (s\<lparr>rk_lexer := l\<rparr>) else (True, s\<lparr>rk_lexer := l\<rparr>))"
      using assms boundary_progress [of n0 k0 "s\<lparr>rk_lexer := l\<rparr>"] by (simp add: goes_on_def)
  next
    fix s1 :: "'a rest_sink"
    assume "progress n0 k0 s1"
    then show "goes_on room n0 k0 (if rk_leaves_sent s1 \<le> rk_leaf_index s1 then rk_append room wr c s1 else (True, s1))"
      using append_progress [of n0 k0 s1 room wr c] by (simp add: goes_on_def)
  next
    fix s2 :: "'a rest_sink"
    assume p: "progress n0 k0 s2"
    let ?s = "if ls_structural step then s2\<lparr>rk_crc := crc32_update (rk_crc s2) (octet_of c)\<rparr> else s2"
    have "progress n0 k0 ?s" using p by simp
    then show "goes_on room n0 k0 (if ls_ends_after step then rk_boundary room wr ?s else (True, ?s))"
      using boundary_progress [of n0 k0 ?s room wr] by (simp add: goes_on_def)
  qed
qed

lemma write_progress:
  "progress n0 k0 s \<Longrightarrow> goes_on room n0 k0 (rk_write room wr cs s)"
proof (induction cs arbitrary: s)
  case (Cons c cs)
  show ?case unfolding rk_write.simps by (intro then_progress feed_progress Cons)
qed (simp add: goes_on_def)

lemma pass_progress:
  assumes "rest_pass room wr doc n0 crc k = (RestPaused, s)"
  shows "n0 < rk_leaves_sent s \<or> room k < SegmentCapacity"
proof -
  have init: "progress n0 k (rk_init n0 crc k)" by (simp add: progress_def rk_init_def)
  obtain ok s1 where w: "rk_write room wr doc (rk_init n0 crc k) = (ok, s1)" by fastforce
  note p = write_progress [OF init, of room wr doc, unfolded w]
  show ?thesis
  proof (cases ok)
    case False
    then show ?thesis using assms w p by (auto simp: rest_pass_def paused_late_def goes_on_def)
  next
    case True
    obtain leaf l where lf: "lx_finish_leaf (rk_lexer s1) = (leaf, l)" by fastforce
    let ?s = "s1\<lparr>rk_lexer := l\<rparr>"
    have s1: "progress n0 k ?s" "rk_result s1 = RestComplete" using True p by (simp_all add: progress_def goes_on_def)
    obtain ok2 s2 where b: "(if leaf then rk_boundary room wr ?s else (True, ?s)) = (ok2, s2)" by fastforce
    have s2: "goes_on room n0 k (ok2, s2)"
      using b s1(1) boundary_progress [OF s1(1), of room wr] by (cases leaf) (auto simp: goes_on_def)
    have fin: "(RestPaused, s) = (if \<not> ok2 then (rk_result s2, s2) else if rk_leaf_index s2 < rk_leaves_sent s2 then (RestFailed, s2)
        else (case rk_commit room wr s2 of (False, s3) \<Rightarrow> (rk_result s3, s3) | (True, s3) \<Rightarrow> (RestComplete, s3)))"
    proof -
      have "(RestPaused, s) = rk_finish room wr s1" using assms w True by (simp add: rest_pass_def)
      then show ?thesis using s1(2) unfolding rk_finish_def Let_def lf prod.case b by simp
    qed
    show ?thesis
    proof (cases ok2)
      case False
      then show ?thesis using fin s2 by (auto simp: paused_late_def goes_on_def)
    next
      case on: True
      then have "progress n0 k s2" using s2 by (simp add: goes_on_def)
      then show ?thesis using fin on commit_progress [of n0 k s2 room wr] by (auto simp: paused_late_def split: if_splits prod.splits bool.splits)
    qed
  qed
qed

end
