(* ===== verification/Http_Text.thy ===== *)
theory Http_Text
  imports Prelude
begin

text \<open>
  Text of HTTP requests (namespace \<^verbatim>\<open>http\<close> of \<^verbatim>\<open>signalk_http.hpp\<close>) and client commands (\<^verbatim>\<open>signalk_stream_command.hpp\<close>). A range of characters
  between two pointers is a string; a C string is a string without NUL.
\<close>

section \<open>Headers and the request line\<close>

definition char_between :: "char \<Rightarrow> char \<Rightarrow> char \<Rightarrow> bool" where
  "char_between a b c \<longleftrightarrow> (of_char a :: nat) \<le> of_char c \<and> (of_char c :: nat) \<le> of_char b"

definition ascii_lower :: "char \<Rightarrow> char" where
  "ascii_lower c = (if char_between CHR ''A'' CHR ''Z'' c then char_of ((of_char c :: nat) - 65 + 97) else c)"

definition http_header_name_matches :: "string \<Rightarrow> string \<Rightarrow> bool" where
  "http_header_name_matches name expected \<longleftrightarrow> length name = length expected \<and> list_all2 (\<lambda>a b. ascii_lower a = ascii_lower b) name expected"

text \<open>
  The line at the start of a range and the range after its end. Where no line end follows, there is no rest, and the line lacks
  the last character of the range.
\<close>

fun crlf_line :: "string \<Rightarrow> string \<times> string option" where
  "crlf_line (a # b # r) = (if a = CR \<and> b = LF then ([], Some r) else (let (l, rest) = crlf_line (b # r) in (a # l, rest)))"
| "crlf_line s = ([], None)"

lemma crlf_line_shorter: "crlf_line s = (l, Some r) \<Longrightarrow> length r < length s"
  by (induction s arbitrary: l r rule: crlf_line.induct) (auto split: if_splits prod.splits intro: less_SucI)

function copy_http_host :: "string \<Rightarrow> nat \<Rightarrow> string option" where
  "copy_http_host header dst_size =
     (if dst_size = 0 \<or> header = [] then None
      else (let (line, rest) = crlf_line header;
                name = takeWhile (\<lambda>c. c \<noteq> CHR '':'') line in
            if length name < length line \<and> http_header_name_matches name ''Host''
            then (let v = dropWhile (\<lambda>c. c = CHR '' '' \<or> c = TAB) (drop (length name + 1) line) in
                  if v = [] \<or> dst_size \<le> length v then None else Some v)
            else (case rest of None \<Rightarrow> None | Some r \<Rightarrow> copy_http_host r dst_size)))"
  by pat_completeness auto
termination
  by (relation "measure (\<lambda>(header, n). length header)") (auto dest: crlf_line_shorter [OF sym])

declare copy_http_host.simps [simp del]

definition parse_http_request_line :: "string \<Rightarrow> (string \<times> string) option" where
  "parse_http_request_line header =
     (if length header < 14 then None
      else (let verb = takeWhile (\<lambda>c. c \<noteq> CHR '' '') header in
            if verb = [] \<or> length verb = length header then None
            else (let after = drop (length verb + 1) header;
                      target = takeWhile (\<lambda>c. c \<noteq> CHR '' '' \<and> c \<noteq> CR \<and> c \<noteq> LF) after;
                      tail = drop (length target) after in
                  if target = [] \<or> tail = [] \<or> hd tail \<noteq> CHR '' '' then None
                  else (let (version, rest) = crlf_line (tl tail) in
                        if rest = None then None
                        else if length version = 8 \<and> (version = ''HTTP/1.1'' \<or> version = ''HTTP/1.0'') then Some (verb, target)
                        else None))))"

definition http_path_length :: "string \<Rightarrow> nat" where
  "http_path_length target = length (takeWhile (\<lambda>c. c \<noteq> CHR ''?'') target)"

fun query_loop :: "nat \<Rightarrow> string \<Rightarrow> string \<Rightarrow> string \<Rightarrow> bool" where
  "query_loop 0 name expected query = False"
| "query_loop (Suc k) name expected query =
     (if query = [] then False
      else (let item = takeWhile (\<lambda>c. c \<noteq> CHR ''&'') query;
                key = takeWhile (\<lambda>c. c \<noteq> CHR ''='') item;
                rest = drop (length item) query in
            if length key < length item \<and> key = name then drop (length key + 1) item = expected
            else query_loop k name expected (if rest \<noteq> [] then tl rest else rest)))"

text \<open>Every turn of the loop removes at least one character or ends the query, so one turn per character and one more are enough.\<close>

definition query_parameter_equals :: "string \<Rightarrow> string \<Rightarrow> string \<Rightarrow> bool" where
  "query_parameter_equals resource name expected =
     (let query = dropWhile (\<lambda>c. c \<noteq> CHR ''?'') resource in
      if query = [] then False else query_loop (Suc (length query)) name expected (tl query))"

section \<open>The host of a request\<close>

definition is_decimal_digit :: "char \<Rightarrow> bool" where
  "is_decimal_digit c \<longleftrightarrow> char_between CHR ''0'' CHR ''9'' c"

definition is_hex_digit :: "char \<Rightarrow> bool" where
  "is_hex_digit c \<longleftrightarrow> is_decimal_digit c \<or> char_between CHR ''a'' CHR ''f'' c \<or> char_between CHR ''A'' CHR ''F'' c"

definition is_alnum :: "char \<Rightarrow> bool" where
  "is_alnum c \<longleftrightarrow> char_between CHR ''a'' CHR ''z'' c \<or> char_between CHR ''A'' CHR ''Z'' c \<or> is_decimal_digit c"

definition digit_value :: "char \<Rightarrow> nat" where
  "digit_value c = of_char c - 48"

fun port_loop :: "u32 \<Rightarrow> string \<Rightarrow> bool" where
  "port_loop port [] = (port \<noteq> 0)"
| "port_loop port (c # cs) =
     (if \<not> is_decimal_digit c then False
      else (let port' = port * 10 + of_nat (digit_value c) in if 65535 < port' then False else port_loop port' cs))"

definition valid_http_port :: "string \<Rightarrow> bool" where
  "valid_http_port s \<longleftrightarrow> s \<noteq> [] \<and> port_loop 0 s"

fun hostname_loop :: "nat \<Rightarrow> bool \<Rightarrow> string \<Rightarrow> bool" where
  "hostname_loop label_len hyphen [] = (label_len \<noteq> 0 \<and> \<not> hyphen)"
| "hostname_loop label_len hyphen (c # cs) =
     (if c = CHR ''.'' then (if label_len = 0 \<or> hyphen then False else hostname_loop 0 False cs)
      else if \<not> is_alnum c \<and> c \<noteq> CHR ''-'' then False
      else if label_len = 0 \<and> c = CHR ''-'' then False
      else if 63 < label_len + 1 then False
      else hostname_loop (label_len + 1) (c = CHR ''-'') cs)"

definition valid_http_hostname :: "string \<Rightarrow> bool" where
  "valid_http_hostname s \<longleftrightarrow> s \<noteq> [] \<and> length s \<le> 253 \<and> hostname_loop 0 False s"

definition ipv6_groups_ok :: "bool \<Rightarrow> nat \<Rightarrow> bool" where
  "ipv6_groups_ok compressed groups \<longleftrightarrow> (if compressed then groups < 8 else groups = 8)"

function ipv6_loop :: "nat \<Rightarrow> bool \<Rightarrow> string \<Rightarrow> bool" where
  "ipv6_loop groups compressed p =
     (if p = [] then ipv6_groups_ok compressed groups
      else (let digits = length (takeWhile is_hex_digit (take 4 p)); p1 = drop digits p in
            if digits = 0 \<or> p1 \<noteq> [] \<and> is_hex_digit (hd p1) then False
            else if 8 < groups + 1 then False
            else if p1 = [] then ipv6_groups_ok compressed (groups + 1)
            else if hd p1 \<noteq> CHR '':'' then False
            else if tl p1 = [] then False
            else if hd (tl p1) = CHR '':'' then
              (if compressed then False
               else if tl (tl p1) = [] then ipv6_groups_ok True (groups + 1)
               else ipv6_loop (groups + 1) True (tl (tl p1)))
            else ipv6_loop (groups + 1) compressed (tl p1)))"
  by pat_completeness auto
termination
  by (relation "measure (\<lambda>(g, c, p). length p)") auto

declare ipv6_loop.simps [simp del]

definition valid_http_ipv6_literal :: "string \<Rightarrow> bool" where
  "valid_http_ipv6_literal s =
     (if s = [] then False
      else if hd s = CHR '':'' then
        (if tl s = [] \<or> hd (tl s) \<noteq> CHR '':'' then False
         else if tl (tl s) = [] then True
         else ipv6_loop 0 True (tl (tl s)))
      else ipv6_loop 0 False s)"

definition valid_http_host :: "string \<Rightarrow> bool" where
  "valid_http_host host =
     (if host = [] then False
      else if hd host = CHR ''['' then
        (let literal = takeWhile (\<lambda>c. c \<noteq> CHR '']'') (tl host); close = drop (length literal) (tl host) in
         if close = [] \<or> \<not> valid_http_ipv6_literal literal then False
         else if tl close = [] then True
         else hd (tl close) = CHR '':'' \<and> valid_http_port (tl (tl close)))
      else if CHR ''['' \<in> set host \<or> CHR '']'' \<in> set host then False
      else (let name = takeWhile (\<lambda>c. c \<noteq> CHR '':'') host; colon = drop (length name) host in
            if colon = [] then valid_http_hostname host
            else if CHR '':'' \<in> set (tl colon) then False
            else valid_http_hostname name \<and> valid_http_port (tl colon)))"

section \<open>Client commands\<close>

datatype stream_command = CmdNone | CmdSubscribeAll | CmdUnsubscribe

definition is_space :: "char \<Rightarrow> bool" where
  "is_space c \<longleftrightarrow> c = CHR '' '' \<or> c = TAB \<or> c = CR \<or> c = LF"

definition starts_with :: "string \<Rightarrow> string \<Rightarrow> bool" where
  "starts_with word s \<longleftrightarrow> length word \<le> length s \<and> take (length word) s = word"

fun contains :: "string \<Rightarrow> string \<Rightarrow> bool" where
  "contains needle [] = (needle = [])"
| "contains needle (c # cs) = (starts_with needle (c # cs) \<or> contains needle cs)"

definition trimmed :: "string \<Rightarrow> string" where
  "trimmed s = rev (dropWhile is_space (rev (dropWhile is_space s)))"

definition signalk_stream_command :: "string \<Rightarrow> stream_command" where
  "signalk_stream_command source =
     (let s = trimmed (takeWhile (\<lambda>c. c \<noteq> NUL) source) in
      if s = [] then CmdNone
      else if hd s = CHR ''{'' then
        (if contains ([CHR 0x22] @ ''unsubscribe'' @ [CHR 0x22]) s then CmdUnsubscribe
         else if contains ([CHR 0x22] @ ''subscribe'' @ [CHR 0x22]) s then CmdSubscribeAll
         else CmdNone)
      else if starts_with ''unsubscribe'' s \<or> starts_with ''UNSUBSCRIBE'' s \<or> starts_with ''Unsubscribe'' s then CmdUnsubscribe
      else if s = ''*'' \<or> starts_with ''subscribe'' s \<or> starts_with ''SUBSCRIBE'' s \<or> starts_with ''Subscribe'' s then CmdSubscribeAll
      else CmdNone)"

section \<open>The hosts that are accepted\<close>

text \<open>Texts joined with a separator.\<close>

fun sep_join :: "char \<Rightarrow> string list \<Rightarrow> string" where
  "sep_join s [] = []"
| "sep_join s [x] = x"
| "sep_join s (x # y # xs) = x @ s # sep_join s (y # xs)"

definition decimal_value :: "string \<Rightarrow> nat" where
  "decimal_value s = foldl (\<lambda>v c. v * 10 + digit_value c) 0 s"

definition tcp_port :: "string \<Rightarrow> bool" where
  "tcp_port s \<longleftrightarrow> s \<noteq> [] \<and> list_all is_decimal_digit s \<and> 0 < decimal_value s \<and> decimal_value s \<le> 65535"

definition dns_label :: "string \<Rightarrow> bool" where
  "dns_label l \<longleftrightarrow> 1 \<le> length l \<and> length l \<le> 63 \<and> list_all (\<lambda>c. is_alnum c \<or> c = CHR ''-'') l \<and> hd l \<noteq> CHR ''-'' \<and> last l \<noteq> CHR ''-''"

definition dns_name :: "string \<Rightarrow> bool" where
  "dns_name s \<longleftrightarrow> length s \<le> 253 \<and> (\<exists>ls. ls \<noteq> [] \<and> list_all dns_label ls \<and> s = sep_join CHR ''.'' ls)"

definition hex_group :: "string \<Rightarrow> bool" where
  "hex_group g \<longleftrightarrow> 1 \<le> length g \<and> length g \<le> 4 \<and> list_all is_hex_digit g"

definition ipv6_address :: "string \<Rightarrow> bool" where
  "ipv6_address s \<longleftrightarrow>
     (\<exists>gs. length gs = 8 \<and> list_all hex_group gs \<and> s = sep_join CHR '':'' gs) \<or>
     (\<exists>ls rs. length ls + length rs < 8 \<and> list_all hex_group (ls @ rs) \<and> s = sep_join CHR '':'' ls @ ''::'' @ sep_join CHR '':'' rs)"

definition http_authority :: "string \<Rightarrow> bool" where
  "http_authority h \<longleftrightarrow>
     (\<exists>host port. (dns_name host \<or> (\<exists>a. ipv6_address a \<and> host = ''['' @ a @ '']'')) \<and>
        (port = [] \<or> (\<exists>p. tcp_port p \<and> port = '':'' @ p)) \<and> h = host @ port)"

lemma digit_value_less: "is_decimal_digit c \<Longrightarrow> digit_value c < 10"
  by (auto simp: is_decimal_digit_def char_between_def digit_value_def)

lemma port_value_mono: "v \<le> foldl (\<lambda>v c. v * 10 + digit_value c) v s"
proof (induction s arbitrary: v)
  case (Cons c s)
  have "v \<le> v * 10 + digit_value c" by simp
  also have "\<dots> \<le> foldl (\<lambda>v c. v * 10 + digit_value c) (v * 10 + digit_value c) s" by (rule Cons.IH)
  finally show ?case by simp
qed simp

lemma port_loop_iff:
  "unat port \<le> 65535 \<Longrightarrow> port_loop port s \<longleftrightarrow> list_all is_decimal_digit s \<and> 0 < foldl (\<lambda>v c. v * 10 + digit_value c) (unat port) s \<and>
     foldl (\<lambda>v c. v * 10 + digit_value c) (unat port) s \<le> 65535"
proof (induction s arbitrary: port)
  case Nil
  then show ?case by (simp add: unat_gt_0)
next
  case (Cons c s)
  show ?case
  proof (cases "is_decimal_digit c")
    case True
    let ?p = "port * 10 + of_nat (digit_value c)"
    have u: "unat ?p = unat port * 10 + digit_value c"
      using Cons.prems digit_value_less [OF True] by (simp add: unat_word_ariths unat_of_nat)
    have g: "65535 < ?p \<longleftrightarrow> 65535 < unat port * 10 + digit_value c" using u by (simp add: word_less_nat_alt)
    show ?thesis
    proof (cases "65535 < ?p")
      case big: True
      have "unat port * 10 + digit_value c \<le> foldl (\<lambda>v c. v * 10 + digit_value c) (unat port * 10 + digit_value c) s" by (rule port_value_mono)
      with big g True show ?thesis by auto
    next
      case False
      then show ?thesis using Cons.IH [of ?p] g u True by (simp add: Let_def)
    qed
  qed simp
qed

lemma valid_http_port_iff: "valid_http_port s \<longleftrightarrow> tcp_port s"
  using port_loop_iff [of 0 s] by (auto simp: valid_http_port_def tcp_port_def decimal_value_def)

text \<open>A separator ends the first element.\<close>

lemma sep_join_Cons: "sep_join s (x # xs) = x @ (if xs = [] then [] else s # sep_join s xs)"
  by (cases xs) simp_all

definition label_tail :: "nat \<Rightarrow> bool \<Rightarrow> string \<Rightarrow> bool" where
  "label_tail n hyphen l \<longleftrightarrow> 1 \<le> n + length l \<and> n + length l \<le> 63 \<and> list_all (\<lambda>c. is_alnum c \<or> c = CHR ''-'') l \<and>
     (n = 0 \<longrightarrow> hd l \<noteq> CHR ''-'') \<and> (if l = [] then \<not> hyphen else last l \<noteq> CHR ''-'')"

lemma label_tail_0: "label_tail 0 False l \<longleftrightarrow> dns_label l"
  by (cases l) (auto simp: label_tail_def dns_label_def)

lemma alnum_not_dot: "is_alnum CHR ''.'' = False"
  by (simp add: is_alnum_def is_decimal_digit_def char_between_def)

lemma label_tail_Cons:
  "c \<noteq> CHR ''.'' \<Longrightarrow> n \<le> 63 \<Longrightarrow> label_tail n hyphen (c # l) \<longleftrightarrow>
     (is_alnum c \<or> c = CHR ''-'') \<and> \<not> (n = 0 \<and> c = CHR ''-'') \<and> n + 1 \<le> 63 \<and> label_tail (n + 1) (c = CHR ''-'') l"
  by (auto simp: label_tail_def)

lemma hostname_loop_iff:
  "n \<le> 63 \<Longrightarrow> hostname_loop n hyphen s \<longleftrightarrow> (\<exists>l ls. label_tail n hyphen l \<and> list_all dns_label ls \<and> s = sep_join CHR ''.'' (l # ls))"
proof (induction s arbitrary: n hyphen)
  case Nil
  have "\<And>l ls. [] = sep_join CHR ''.'' (l # ls) \<longleftrightarrow> l = [] \<and> ls = []" by (auto simp: sep_join_Cons)
  then show ?case using Nil by (auto simp: label_tail_def)
next
  case (Cons c s)
  show ?case
  proof (cases "c = CHR ''.''")
    case True
    have head: "(c # s = sep_join CHR ''.'' (l # ls) \<and> label_tail n hyphen l) \<longleftrightarrow>
        l = [] \<and> label_tail n hyphen [] \<and> ls \<noteq> [] \<and> s = sep_join CHR ''.'' ls" for l ls
      using True by (cases l) (auto simp: sep_join_Cons label_tail_def alnum_not_dot)
    have "(\<exists>l ls. label_tail n hyphen l \<and> list_all dns_label ls \<and> c # s = sep_join CHR ''.'' (l # ls)) \<longleftrightarrow>
        label_tail n hyphen [] \<and> (\<exists>l ls. dns_label l \<and> list_all dns_label ls \<and> s = sep_join CHR ''.'' (l # ls))"
      (is "?L \<longleftrightarrow> ?R")
    proof
      assume ?L
      then obtain l ls where l: "label_tail n hyphen l" "list_all dns_label ls" "c # s = sep_join CHR ''.'' (l # ls)" by blast
      with head [of l ls] have "label_tail n hyphen []" "ls \<noteq> []" "s = sep_join CHR ''.'' ls" by auto
      with l(2) show ?R by (cases ls) auto
    next
      assume ?R
      then obtain l ls where "label_tail n hyphen []" "list_all dns_label (l # ls)" "s = sep_join CHR ''.'' (l # ls)" by auto
      with head [of "[]" "l # ls"] show ?L by blast
    qed
    also have "\<dots> \<longleftrightarrow> hostname_loop n hyphen (c # s)"
    proof -
      have "hostname_loop n hyphen (c # s) \<longleftrightarrow> label_tail n hyphen [] \<and> hostname_loop 0 False s"
        using True Cons.prems by (auto simp: label_tail_def)
      then show ?thesis unfolding Cons.IH [of 0 False, OF le0] label_tail_0 by (simp only:)
    qed
    finally show ?thesis by simp
  next
    case False
    have head: "c # s = sep_join CHR ''.'' (l # ls) \<longleftrightarrow> (\<exists>l'. l = c # l' \<and> s = sep_join CHR ''.'' (l' # ls))" for l ls
      using False by (cases l) (auto simp: sep_join_Cons)
    have "(\<exists>l ls. label_tail n hyphen l \<and> list_all dns_label ls \<and> c # s = sep_join CHR ''.'' (l # ls)) \<longleftrightarrow>
        (\<exists>l ls. label_tail n hyphen (c # l) \<and> list_all dns_label ls \<and> s = sep_join CHR ''.'' (l # ls))"
      unfolding head by blast
    also have "\<dots> \<longleftrightarrow> hostname_loop n hyphen (c # s)"
    proof -
      have "hostname_loop n hyphen (c # s) \<longleftrightarrow> (is_alnum c \<or> c = CHR ''-'') \<and> \<not> (n = 0 \<and> c = CHR ''-'') \<and> n + 1 \<le> 63 \<and> hostname_loop (n + 1) (c = CHR ''-'') s"
        using False by auto
      then show ?thesis using Cons.IH [of "n + 1" "c = CHR ''-''"] by (simp only: label_tail_Cons [OF False Cons.prems]) blast
    qed
    finally show ?thesis by simp
  qed
qed

lemma valid_http_hostname_iff: "valid_http_hostname s \<longleftrightarrow> dns_name s"
proof -
  have "hostname_loop 0 False s \<longleftrightarrow> (\<exists>ls. ls \<noteq> [] \<and> list_all dns_label ls \<and> s = sep_join CHR ''.'' ls)"
    (is "_ \<longleftrightarrow> ?R")
  proof -
    have "?R \<longleftrightarrow> (\<exists>l ls. list_all dns_label (l # ls) \<and> s = sep_join CHR ''.'' (l # ls))" by (metis list.distinct(1) list.exhaust)
    then show ?thesis using hostname_loop_iff [of 0 False s] by (simp add: label_tail_0)
  qed
  moreover have "\<not> hostname_loop 0 False []" by simp
  ultimately show ?thesis by (auto simp: valid_http_hostname_def dns_name_def)
qed

text \<open>What the loop over the groups accepts after \<open>n\<close> groups, with and without an earlier double colon.\<close>

abbreviation colons :: "string list \<Rightarrow> string" where "colons \<equiv> sep_join CHR '':''"

definition groups_closed :: "nat \<Rightarrow> string \<Rightarrow> bool" where
  "groups_closed n p \<longleftrightarrow> (\<exists>gs. gs \<noteq> [] \<and> list_all hex_group gs \<and> p = colons gs \<and> n + length gs < 8)"

definition groups_open :: "nat \<Rightarrow> string \<Rightarrow> bool" where
  "groups_open n p \<longleftrightarrow> (\<exists>gs. gs \<noteq> [] \<and> list_all hex_group gs \<and> p = colons gs \<and> n + length gs = 8) \<or>
     (\<exists>ls rs. ls \<noteq> [] \<and> list_all hex_group (ls @ rs) \<and> p = colons ls @ ''::'' @ colons rs \<and> n + length ls + length rs < 8)"

lemma hex_group_hd: "hex_group g \<Longrightarrow> g \<noteq> [] \<and> is_hex_digit (hd g)"
  by (cases g) (auto simp: hex_group_def)

lemma colon_not_hex: "\<not> is_hex_digit CHR '':''"
  by (simp add: is_hex_digit_def is_decimal_digit_def char_between_def)

lemma groups_closed_step:
  "groups_closed n p \<longleftrightarrow> (\<exists>g x. hex_group g \<and> p = g @ x \<and> (x = [] \<and> n + 1 < 8 \<or> (\<exists>q. x = CHR '':'' # q \<and> groups_closed (n + 1) q)))" (is "?L \<longleftrightarrow> ?R")
proof
  assume ?L
  then obtain g gs where g: "hex_group g" "list_all hex_group gs" "p = colons (g # gs)" "n + length (g # gs) < 8"
    unfolding groups_closed_def by (metis list.exhaust list.pred_inject(2))
  show ?R
    by (rule exI [of _ g], rule exI [of _ "if gs = [] then [] else CHR '':'' # colons gs"])
      (use g in \<open>auto simp: sep_join_Cons groups_closed_def\<close>)
next
  assume ?R
  then obtain g x where g: "hex_group g" "p = g @ x" "x = [] \<and> n + 1 < 8 \<or> (\<exists>q. x = CHR '':'' # q \<and> groups_closed (n + 1) q)" by blast
  from g(3) show ?L
  proof
    assume "x = [] \<and> n + 1 < 8"
    with g(1,2) show ?L by (auto simp: groups_closed_def intro!: exI [of _ "[g]"])
  next
    assume "\<exists>q. x = CHR '':'' # q \<and> groups_closed (n + 1) q"
    then obtain gs where "x = CHR '':'' # colons gs" "gs \<noteq> []" "list_all hex_group gs" "n + 1 + length gs < 8" by (auto simp: groups_closed_def)
    with g(1,2) show ?L by (auto simp: groups_closed_def sep_join_Cons intro!: exI [of _ "g # gs"])
  qed
qed

lemma groups_open_step:
  "groups_open n p \<longleftrightarrow> (\<exists>g x. hex_group g \<and> p = g @ x \<and> (x = [] \<and> n + 1 = 8 \<or> (\<exists>q. x = CHR '':'' # q \<and> groups_open (n + 1) q) \<or>
     (\<exists>q. x = ''::'' @ q \<and> (q = [] \<and> n + 1 < 8 \<or> groups_closed (n + 1) q))))" (is "?L \<longleftrightarrow> ?R")
proof
  assume ?L
  then consider (full) g gs where "hex_group g" "list_all hex_group gs" "p = colons (g # gs)" "n + length (g # gs) = 8"
    | (short) g ls rs where "hex_group g" "list_all hex_group (ls @ rs)" "p = colons (g # ls) @ ''::'' @ colons rs" "n + length (g # ls) + length rs < 8"
    unfolding groups_open_def by (metis (no_types, lifting) append_Cons list.exhaust list.pred_inject(2))
  then show ?R
  proof cases
    case full
    show ?thesis
      by (rule exI [of _ g], rule exI [of _ "if gs = [] then [] else CHR '':'' # colons gs"]) (use full in \<open>auto simp: sep_join_Cons groups_open_def\<close>)
  next
    case short
    show ?thesis
    proof (cases "ls = []")
      case True
      show ?thesis by (rule exI [of _ g], rule exI [of _ "''::'' @ colons rs"]) (use True short in \<open>cases "rs = []"; auto simp: groups_closed_def\<close>)
    next
      case False
      then have "groups_open (n + 1) (colons ls @ ''::'' @ colons rs)" using short unfolding groups_open_def by fastforce
      then show ?thesis using short(1,3) False
        by (intro exI [of _ g] exI [of _ "CHR '':'' # colons ls @ ''::'' @ colons rs"]) (simp add: sep_join_Cons)
    qed
  qed
next
  assume ?R
  then obtain g x where g: "hex_group g" "p = g @ x" and x: "x = [] \<and> n + 1 = 8 \<or> (\<exists>q. x = CHR '':'' # q \<and> groups_open (n + 1) q) \<or>
     (\<exists>q. x = ''::'' @ q \<and> (q = [] \<and> n + 1 < 8 \<or> groups_closed (n + 1) q))" by blast
  have double: "groups_open n p" if "x = ''::'' @ colons rs" "list_all hex_group rs" "n + 1 + length rs < 8" for rs
    using that g unfolding groups_open_def by (intro disjI2 exI [of _ "[g]"] exI [of _ rs]) simp
  have single: "groups_open n p" if "x = CHR '':'' # q" "groups_open (n + 1) q" for q
  proof -
    from that(2) consider (full) gs where "gs \<noteq> []" "list_all hex_group gs" "q = colons gs" "n + 1 + length gs = 8"
      | (short) ls rs where "ls \<noteq> []" "list_all hex_group (ls @ rs)" "q = colons ls @ ''::'' @ colons rs" "n + 1 + length ls + length rs < 8"
      unfolding groups_open_def by blast
    then show ?thesis
    proof cases
      case full
      with g that(1) show ?thesis unfolding groups_open_def by (intro disjI1 exI [of _ "g # gs"]) (simp add: sep_join_Cons)
    next
      case short
      with g that(1) show ?thesis unfolding groups_open_def by (intro disjI2 exI [of _ "g # ls"] exI [of _ rs]) (simp add: sep_join_Cons)
    qed
  qed
  from x consider "x = []" "n + 1 = 8" | q where "x = CHR '':'' # q" "groups_open (n + 1) q" | "x = ''::''" "n + 1 < 8"
    | q where "x = ''::'' @ q" "groups_closed (n + 1) q" by auto
  then show ?L
  proof cases
    case 1
    with g show ?thesis unfolding groups_open_def by (intro disjI1 exI [of _ "[g]"]) simp
  next
    case (2 q)
    then show ?thesis by (rule single)
  next
    case 3
    then show ?thesis using double [of "[]"] by simp
  next
    case (4 q)
    then show ?thesis using double unfolding groups_closed_def by auto
  qed
qed

text \<open>The first group of a text is the longest run of up to four digits, and no digit follows it.\<close>

lemma first_group:
  assumes "hex_group g" "x = [] \<or> hd x = CHR '':''"
  shows "takeWhile is_hex_digit (take 4 (g @ x)) = g"
proof -
  have all: "\<And>c. c \<in> set g \<Longrightarrow> is_hex_digit c" "length g \<le> 4" using assms(1) by (auto simp: hex_group_def list_all_iff)
  have "takeWhile is_hex_digit (g @ take (4 - length g) x) = g @ takeWhile is_hex_digit (take (4 - length g) x)"
    using all(1) by (rule takeWhile_append2)
  moreover have "takeWhile is_hex_digit (take (4 - length g) x) = []"
    using assms(2) colon_not_hex by (cases x; cases "4 - length g") auto
  ultimately show ?thesis using all(2) by simp
qed

lemma take_group:
  fixes p :: string
  defines "g \<equiv> takeWhile is_hex_digit (take 4 p)"
  shows "g \<noteq> [] \<Longrightarrow> hex_group g" "p = g @ drop (length g) p"
proof -
  have pre: "g = take (length g) (take 4 p)" by (metis g_def takeWhile_eq_take)
  have len: "length g \<le> 4" unfolding g_def by (metis length_take length_takeWhile_le min.cobounded2 min.commute order_trans)
  then show "p = g @ drop (length g) p" by (metis append_take_drop_id min.absorb1 pre take_take)
  have "\<forall>c \<in> set g. is_hex_digit c" unfolding g_def by (auto dest: set_takeWhileD)
  then show "hex_group g" if "g \<noteq> []"
    using that len by (simp add: hex_group_def list_all_iff Suc_le_eq)
qed

lemma groups_start:
  "groups_closed n q \<Longrightarrow> q \<noteq> [] \<and> hd q \<noteq> CHR '':''" "groups_open n q \<Longrightarrow> q \<noteq> [] \<and> hd q \<noteq> CHR '':''"
proof -
  have "q \<noteq> [] \<and> hd q \<noteq> CHR '':''" if "hex_group g" "q = g @ x" for g x
    using hex_group_hd [OF that(1)] that(2) colon_not_hex by (cases g) auto
  then have *: "(\<exists>g x. hex_group g \<and> q = g @ x \<and> P g x) \<Longrightarrow> q \<noteq> [] \<and> hd q \<noteq> CHR '':''" for P by blast
  show "groups_closed n q \<Longrightarrow> q \<noteq> [] \<and> hd q \<noteq> CHR '':''" by (rule *, subst (asm) groups_closed_step)
  show "groups_open n q \<Longrightarrow> q \<noteq> [] \<and> hd q \<noteq> CHR '':''" by (rule *, subst (asm) groups_open_step)
qed

text \<open>One turn of the loop, on the first group \<open>g\<close> and the text \<open>x\<close> after it.\<close>

lemma ipv6_loop_group:
  assumes "hex_group g" "x = [] \<or> hd x = CHR '':''"
  shows "ipv6_loop n c (g @ x) \<longleftrightarrow> n + 1 \<le> 8 \<and>
    (if x = [] then ipv6_groups_ok c (n + 1)
     else tl x \<noteq> [] \<and> (if hd (tl x) = CHR '':'' then \<not> c \<and> (if tl (tl x) = [] then ipv6_groups_ok True (n + 1) else ipv6_loop (n + 1) True (tl (tl x)))
                      else ipv6_loop (n + 1) c (tl x)))"
  using first_group [OF assms] assms colon_not_hex hex_group_hd [OF assms(1)]
  by (subst ipv6_loop.simps) (auto simp: Let_def)

lemma ipv6_loop_no_group:
  assumes "\<nexists>g x. hex_group g \<and> p = g @ x \<and> (x = [] \<or> hd x = CHR '':'')" "p \<noteq> []"
  shows "\<not> ipv6_loop n c p"
proof
  assume l: "ipv6_loop n c p"
  let ?g = "takeWhile is_hex_digit (take 4 p)" and ?x = "drop (length (takeWhile is_hex_digit (take 4 p))) p"
  have "?g \<noteq> []" "?x = [] \<or> hd ?x = CHR '':''"
    using l assms(2) by (subst (asm) ipv6_loop.simps, auto simp: Let_def split: if_splits)+
  with assms(1) take_group [of p] show False by blast
qed

lemma ipv6_loop_iff: "p \<noteq> [] \<Longrightarrow> ipv6_loop n c p \<longleftrightarrow> (if c then groups_closed n p else groups_open n p)"
proof (induction "length p" arbitrary: n c p rule: less_induct)
  case less
  show ?case
  proof (cases "\<exists>g x. hex_group g \<and> p = g @ x \<and> (x = [] \<or> hd x = CHR '':'')")
    case False
    then have "\<not> ipv6_loop n c p" using ipv6_loop_no_group less.prems by blast
    moreover have "\<not> groups_closed n p" using False groups_closed_step [of n p] by (auto simp del: append_eq_append_conv)
    moreover have "\<not> groups_open n p" using False groups_open_step [of n p] by (auto simp del: append_eq_append_conv)
    ultimately show ?thesis by simp
  next
    case True
    then obtain g x where g: "hex_group g" "p = g @ x" "x = [] \<or> hd x = CHR '':''" by blast
    have unique: "g' = g \<and> x' = x" if "hex_group g'" "p = g' @ x'" "x' = [] \<or> hd x' = CHR '':''" for g' x'
    proof -
      have "g' = g" using first_group [OF g(1,3)] first_group [OF that(1,3)] g(2) that(2) by metis
      then show ?thesis using g(2) that(2) by simp
    qed
    have short: "length (tl x) < length p" "length (tl (tl x)) < length p" using g(1,2) by (auto simp: hex_group_def)
    have only: "(\<exists>g' x'. hex_group g' \<and> p = g' @ x' \<and> Q x') \<longleftrightarrow> Q x" if "\<And>y. Q y \<Longrightarrow> y = [] \<or> hd y = CHR '':''" for Q
      using that unique g(1,2) by blast
    have closed: "groups_closed n p \<longleftrightarrow> (x = [] \<and> n + 1 < 8 \<or> (\<exists>q. x = CHR '':'' # q \<and> groups_closed (n + 1) q))"
      unfolding groups_closed_step [of n p] by (rule only) auto
    have opened: "groups_open n p \<longleftrightarrow> (x = [] \<and> n + 1 = 8 \<or> (\<exists>q. x = CHR '':'' # q \<and> groups_open (n + 1) q) \<or>
       (\<exists>q. x = ''::'' @ q \<and> (q = [] \<and> n + 1 < 8 \<or> groups_closed (n + 1) q)))"
      unfolding groups_open_step [of n p] by (rule only) auto
    have bound: "groups_closed (n + 1) q \<Longrightarrow> n + 1 \<le> 8" "groups_open (n + 1) q \<Longrightarrow> n + 1 \<le> 8" for q by (auto simp: groups_closed_def groups_open_def)
    note loop = ipv6_loop_group [OF g(1,3), of n c, folded g(2)]
    have ih1: "tl x \<noteq> [] \<Longrightarrow> ipv6_loop (n + 1) c (tl x) \<longleftrightarrow> (if c then groups_closed (n + 1) (tl x) else groups_open (n + 1) (tl x))"
      using less.hyps [OF short(1)] by simp
    have ih2: "tl (tl x) \<noteq> [] \<Longrightarrow> ipv6_loop (n + 1) True (tl (tl x)) \<longleftrightarrow> groups_closed (n + 1) (tl (tl x))"
      using less.hyps [OF short(2)] by simp
    show ?thesis
    proof (cases x)
      case Nil
      then show ?thesis using loop closed opened by (auto simp: ipv6_groups_ok_def)
    next
      case (Cons a q)
      then have a: "x = CHR '':'' # q" using g(3) by simp
      show ?thesis
      proof (cases "q \<noteq> [] \<and> hd q = CHR '':''")
        case True
        then obtain q' where q: "q = CHR '':'' # q'" by (cases q) auto
        have "\<not> groups_closed (n + 1) q" "\<not> groups_open (n + 1) q" using groups_start [of "n + 1" q] True by auto
        then show ?thesis using loop closed opened ih2 a q groups_start(1) [of "n + 1" q'] bound(1) [of q'] by (cases "q' = []") (auto simp: ipv6_groups_ok_def)
      next
        case False
        then have "x \<noteq> ''::'' @ q'" for q' using a by auto
        then show ?thesis using loop closed opened ih1 a False groups_start [of "n + 1" q] bound [of q] by (cases "q = []") auto
      qed
    qed
  qed
qed

lemma valid_http_ipv6_literal_iff: "valid_http_ipv6_literal s \<longleftrightarrow> ipv6_address s"
proof -
  have opened: "ipv6_address s \<longleftrightarrow> groups_open 0 s \<or> (\<exists>q. s = ''::'' @ q \<and> (q = [] \<or> groups_closed 0 q))" (is "?L \<longleftrightarrow> ?R")
  proof
    assume ?L
    then consider gs where "length gs = 8" "list_all hex_group gs" "s = colons gs"
      | ls rs where "length ls + length rs < 8" "list_all hex_group (ls @ rs)" "s = colons ls @ ''::'' @ colons rs"
      unfolding ipv6_address_def by blast
    then show ?R
    proof cases
      case (1 gs)
      then have "groups_open 0 s" unfolding groups_open_def by (intro disjI1 exI [of _ gs]) auto
      then show ?thesis ..
    next
      case (2 ls rs)
      show ?thesis
      proof (cases "ls = []")
        case True
        have "colons rs = [] \<or> groups_closed 0 (colons rs)"
          using 2 by (cases "rs = []") (auto simp: groups_closed_def)
        with 2 True show ?thesis by (intro disjI2 exI [of _ "colons rs"]) simp
      next
        case False
        with 2 have "groups_open 0 s" unfolding groups_open_def by (intro disjI2 exI [of _ ls] exI [of _ rs]) auto
        then show ?thesis ..
      qed
    qed
  next
    assume ?R
    then consider "groups_open 0 s" | rs where "list_all hex_group rs" "length rs < 8" "s = ''::'' @ colons rs"
      unfolding groups_closed_def by (metis add_0 list.pred_inject(1) list.size(3) sep_join.simps(1) zero_less_numeral)
    then show ?L
    proof cases
      case 1
      then show ?thesis unfolding groups_open_def ipv6_address_def by (metis add_0)
    next
      case (2 rs)
      then show ?thesis unfolding ipv6_address_def by (intro disjI2 exI [of _ "[]"] exI [of _ rs]) simp
    qed
  qed
  have start: "groups_open 0 s \<Longrightarrow> s \<noteq> [] \<and> hd s \<noteq> CHR '':''" by (rule groups_start(2))
  show ?thesis
  proof (cases "s \<noteq> [] \<and> hd s = CHR '':''")
    case False
    then have "s = ''::'' @ q \<Longrightarrow> False" for q by auto
    then show ?thesis using False start opened ipv6_loop_iff [of s 0 False] by (auto simp: valid_http_ipv6_literal_def)
  next
    case True
    then obtain q where s: "s = CHR '':'' # q" by (cases s) auto
    have no: "\<not> groups_open 0 s" using True start by blast
    show ?thesis
    proof (cases "q \<noteq> [] \<and> hd q = CHR '':''")
      case False
      then have "s = ''::'' @ q' \<Longrightarrow> False" for q' using s by auto
      then show ?thesis using False s no opened by (auto simp: valid_http_ipv6_literal_def)
    next
      case True
      then obtain r where "q = CHR '':'' # r" by (cases q) auto
      then show ?thesis using s no opened ipv6_loop_iff [of r 0 True] by (auto simp: valid_http_ipv6_literal_def)
    qed
  qed
qed

lemma set_sep_join: "set (sep_join c xs) \<subseteq> insert c (\<Union> (set ` set xs))"
  by (induction c xs rule: sep_join.induct) auto

definition host_char :: "char \<Rightarrow> bool" where
  "host_char c \<longleftrightarrow> is_alnum c \<or> c = CHR ''-'' \<or> c = CHR ''.''"

lemma dns_name_chars: "dns_name s \<Longrightarrow> s \<noteq> [] \<and> (\<forall>c \<in> set s. host_char c)"
proof -
  assume "dns_name s"
  then obtain ls where ls: "ls \<noteq> []" "list_all dns_label ls" "s = sep_join CHR ''.'' ls" by (auto simp: dns_name_def)
  have "\<forall>c \<in> set s. host_char c" using set_sep_join [of "CHR ''.''" ls] ls(2,3) by (fastforce simp: list_all_iff dns_label_def host_char_def)
  moreover have "s \<noteq> []" using ls by (cases ls) (auto simp: sep_join_Cons dns_label_def)
  ultimately show ?thesis by simp
qed

lemma tcp_port_chars: "tcp_port s \<Longrightarrow> \<forall>c \<in> set s. is_decimal_digit c"
  by (auto simp: tcp_port_def list_all_iff)

lemma ipv6_address_chars:
  assumes "ipv6_address s"
  shows "\<forall>c \<in> set s. is_hex_digit c \<or> c = CHR '':''"
proof -
  have "\<forall>c \<in> set (colons gs). is_hex_digit c \<or> c = CHR '':''" if "list_all hex_group gs" for gs
    using set_sep_join [of "CHR '':''" gs] that by (fastforce simp: list_all_iff hex_group_def)
  with assms show ?thesis unfolding ipv6_address_def by fastforce
qed

lemma special_not_host: "\<not> host_char CHR ''[''" "\<not> host_char CHR '']''" "\<not> host_char CHR '':''"
  "\<not> is_decimal_digit CHR ''[''" "\<not> is_decimal_digit CHR '']''" "\<not> is_decimal_digit CHR '':''" "\<not> is_hex_digit CHR ''[''" "\<not> is_hex_digit CHR '']''"
  by (simp_all add: host_char_def is_alnum_def is_hex_digit_def is_decimal_digit_def char_between_def)

lemma takeWhile_until: "c \<notin> set xs \<Longrightarrow> ys = [] \<or> hd ys = c \<Longrightarrow> takeWhile (\<lambda>x. x \<noteq> c) (xs @ ys) = xs"
  by (induction xs) (cases ys; auto)+

lemma split_at: "takeWhile (\<lambda>x. x \<noteq> c) s @ drop (length (takeWhile (\<lambda>x. x \<noteq> c) s)) s = s"
  "drop (length (takeWhile (\<lambda>x. x \<noteq> c) s)) s = [] \<or> hd (drop (length (takeWhile (\<lambda>x. x \<noteq> c) s)) s) = c"
  by (induction s) auto

lemma valid_http_host_name:
  assumes "host \<noteq> []" "hd host \<noteq> CHR ''[''"
  shows "valid_http_host host \<longleftrightarrow> (\<exists>name port. dns_name name \<and> (port = [] \<or> (\<exists>p. tcp_port p \<and> port = CHR '':'' # p)) \<and> host = name @ port)" (is "?L \<longleftrightarrow> ?R")
proof
  let ?name = "takeWhile (\<lambda>c. c \<noteq> CHR '':'') host" and ?colon = "drop (length (takeWhile (\<lambda>c. c \<noteq> CHR '':'') host)) host"
  note s = split_at [of "CHR '':''" host]
  {
    assume ?L
    show ?R
    proof (cases ?colon)
      case Nil
      then have "dns_name host" using \<open>?L\<close> assms by (simp add: valid_http_host_def valid_http_hostname_iff Let_def split: if_splits)
      then show ?thesis by (intro exI [of _ host] exI [of _ "[]"]) simp
    next
      case (Cons c p)
      then have "c = CHR '':''" using s(2) by simp
      moreover have "dns_name ?name" "tcp_port p"
        using \<open>?L\<close> assms Cons by (simp_all add: valid_http_host_def valid_http_hostname_iff valid_http_port_iff Let_def split: if_splits)
      ultimately show ?thesis using s(1) Cons by (intro exI [of _ ?name] exI [of _ "CHR '':'' # p"]) simp
    qed
  }
  {
    assume ?R
    then obtain name port where n: "dns_name name" "port = [] \<or> (\<exists>p. tcp_port p \<and> port = CHR '':'' # p)" "host = name @ port" by blast
    have port: "CHR ''['' \<notin> set port" "CHR '']'' \<notin> set port" "port = [] \<or> hd port = CHR '':''" "port \<noteq> [] \<longrightarrow> CHR '':'' \<notin> set (tl port)"
      using n(2) tcp_port_chars special_not_host by auto
    have name: "CHR ''['' \<notin> set name" "CHR '']'' \<notin> set name" "CHR '':'' \<notin> set name" using dns_name_chars [OF n(1)] special_not_host by auto
    have "?name = name" using takeWhile_until [OF name(3) port(3)] n(3) by simp
    then have "?colon = port" using n(3) by simp
    with \<open>?name = name\<close> show ?L using n port name assms by (auto simp: valid_http_host_def valid_http_hostname_iff valid_http_port_iff Let_def)
  }
qed

lemma valid_http_host_literal:
  "valid_http_host (CHR ''['' # rest) \<longleftrightarrow> (\<exists>a port. ipv6_address a \<and> (port = [] \<or> (\<exists>p. tcp_port p \<and> port = CHR '':'' # p)) \<and> rest = a @ CHR '']'' # port)" (is "?L \<longleftrightarrow> ?R")
proof
  let ?a = "takeWhile (\<lambda>c. c \<noteq> CHR '']'') rest" and ?close = "drop (length (takeWhile (\<lambda>c. c \<noteq> CHR '']'') rest)) rest"
  note s = split_at [of "CHR '']''" rest]
  {
    assume ?L
    then obtain port where c: "?close = CHR '']'' # port" "ipv6_address ?a" "port = [] \<or> hd port = CHR '':'' \<and> tcp_port (tl port)"
      using s(2) by (cases ?close) (auto simp: valid_http_host_def valid_http_ipv6_literal_iff valid_http_port_iff Let_def split: if_splits)
    then show ?R using s(1) by (intro exI [of _ ?a] exI [of _ port]) (cases port; auto)
  }
  {
    assume ?R
    then obtain a port where a: "ipv6_address a" "port = [] \<or> (\<exists>p. tcp_port p \<and> port = CHR '':'' # p)" "rest = a @ CHR '']'' # port" by blast
    have "CHR '']'' \<notin> set a" using ipv6_address_chars [OF a(1)] special_not_host by auto
    then have "?a = a" using a(3) takeWhile_until [of "CHR '']''" a "CHR '']'' # port"] by simp
    moreover from this have "?close = CHR '']'' # port" using a(3) by simp
    ultimately show ?L using a by (auto simp: valid_http_host_def valid_http_ipv6_literal_iff valid_http_port_iff Let_def)
  }
qed

lemma http_authority_cases:
  "http_authority h \<longleftrightarrow>
     (\<exists>name port. dns_name name \<and> (port = [] \<or> (\<exists>p. tcp_port p \<and> port = CHR '':'' # p)) \<and> h = name @ port) \<or>
     (\<exists>a port. ipv6_address a \<and> (port = [] \<or> (\<exists>p. tcp_port p \<and> port = CHR '':'' # p)) \<and> h = CHR ''['' # a @ CHR '']'' # port)"
proof -
  have eq: "'':'' @ p = CHR '':'' # p" "(''['' @ a @ '']'') @ q = CHR ''['' # a @ CHR '']'' # q" for p a q :: string by simp_all
  have split: "(\<exists>host port. (D host \<or> (\<exists>a. I a \<and> host = f a)) \<and> P port \<and> h = host @ port) \<longleftrightarrow>
      (\<exists>name port. D name \<and> P port \<and> h = name @ port) \<or> (\<exists>a port. I a \<and> P port \<and> h = f a @ port)"
    for D I P :: "string \<Rightarrow> bool" and f :: "string \<Rightarrow> string" by blast
  show ?thesis unfolding http_authority_def eq(1) split eq(2) ..
qed

text \<open>
  C19: The host that the discovery answer repeats is accepted exactly when it is a host with an optional port: a DNS name of at most 253
  characters in labels of 1 to 63 letters, digits and inner hyphens, or a bracketed IPv6 address of eight groups of up to four hexadecimal digits, or fewer around one
  double colon, and a decimal port from 1 to 65535, however many leading zeros it has. The port is computed in 32 bits without overflow.
\<close>

theorem http_host_grammar: "valid_http_host host \<longleftrightarrow> http_authority host"
proof (cases "host \<noteq> [] \<and> hd host = CHR ''[''")
  case True
  then obtain rest where h: "host = CHR ''['' # rest" by (cases host) auto
  have no: "host \<noteq> name @ port" if "dns_name name" for name port
    using that h dns_name_chars [of name] special_not_host(1) by (cases name) auto
  have eq: "host = CHR ''['' # a @ CHR '']'' # port \<longleftrightarrow> rest = a @ CHR '']'' # port" for a port using h by simp
  have "valid_http_host host = valid_http_host (CHR ''['' # rest)" using h by simp
  then show ?thesis unfolding http_authority_cases valid_http_host_literal eq using no by blast
next
  case False
  show ?thesis
  proof (cases "host = []")
    case True
    then show ?thesis using dns_name_chars [of "[]"] by (auto simp: valid_http_host_def http_authority_cases)
  next
    case ne: False
    with False have hd: "hd host \<noteq> CHR ''[''" by simp
    then have "host \<noteq> CHR ''['' # x" for x by auto
    then show ?thesis unfolding http_authority_cases valid_http_host_name [OF ne hd] by blast
  qed
qed

end
