(* ===== verification/Wifi_Tcp.thy ===== *)
theory Wifi_Tcp
  imports Tcp
begin

text \<open>
  TCP over Arduino WiFi (\<^verbatim>\<open>arduino_wifi_tcp.hpp\<close>): the connection with its transmit ring, the server with its slots, and the client.
  \<^verbatim>\<open>WiFiClient\<close> is a state of type \<open>'w\<close> with the operations the code calls, a record of arguments. \<open>wc_taken\<close> has no counterpart in the code:
  it is what the \<^verbatim>\<open>WiFiClient\<close> has taken for transmission, in order.
\<close>

section \<open>The connection\<close>

record 'w wifi_env =
  wi_up :: "'w \<Rightarrow> bool"
  wi_connected :: "'w \<Rightarrow> bool"
  wi_available :: "'w \<Rightarrow> nat"
  wi_read :: "'w \<Rightarrow> int \<times> 'w"
  wi_peek :: "'w \<Rightarrow> int"
  wi_write :: "u8 list \<Rightarrow> 'w \<Rightarrow> nat \<times> 'w"
  wi_stop :: "'w \<Rightarrow> 'w"

record 'w wifi_conn =
  wc_client :: 'w
  wc_active :: bool
  wc_line :: string
  wc_tx :: "u8 list"
  wc_head :: nat
  wc_size :: nat
  wc_taken :: "u8 list"

abbreviation tx_capacity :: nat where "tx_capacity \<equiv> 1024"
abbreviation tx_flush_chunk :: nat where "tx_flush_chunk \<equiv> 64"
abbreviation line_capacity :: nat where "line_capacity \<equiv> 256"

definition wc_init :: "'w \<Rightarrow> 'w wifi_conn" where
  "wc_init w = \<lparr>wc_client = w, wc_active = False, wc_line = [], wc_tx = replicate tx_capacity 0, wc_head = 0, wc_size = 0, wc_taken = []\<rparr>"

definition wc_close :: "'w wifi_env \<Rightarrow> 'w wifi_conn \<Rightarrow> 'w wifi_conn" where
  "wc_close env c = c\<lparr>wc_client := (if wc_active c then wi_stop env (wc_client c) else wc_client c), wc_active := False, wc_line := [],
     wc_head := 0, wc_size := 0\<rparr>"

definition wc_valid :: "'w wifi_env \<Rightarrow> 'w wifi_conn \<Rightarrow> bool" where
  "wc_valid env c \<longleftrightarrow> wc_active c \<and> wi_up env (wc_client c)"

definition wc_attach :: "'w wifi_env \<Rightarrow> 'w \<Rightarrow> 'w wifi_conn \<Rightarrow> bool \<times> 'w wifi_conn" where
  "wc_attach env w c0 =
     (let c = (wc_close env c0)\<lparr>wc_client := w, wc_active := True, wc_head := 0, wc_size := 0, wc_taken := []\<rparr> in (wc_valid env c, c))"

definition wc_closed_by_peer :: "'w wifi_env \<Rightarrow> 'w wifi_conn \<Rightarrow> bool" where
  "wc_closed_by_peer env c \<longleftrightarrow> wc_active c \<and> \<not> wi_connected env (wc_client c) \<and> wi_available env (wc_client c) = 0"

definition wc_input_size :: "'w wifi_env \<Rightarrow> 'w wifi_conn \<Rightarrow> nat" where
  "wc_input_size env c = (if wc_active c then wi_available env (wc_client c) else 0)"

fun wc_read_loop :: "'w wifi_env \<Rightarrow> nat \<Rightarrow> 'w \<Rightarrow> u8 list \<times> 'w" where
  "wc_read_loop env 0 w = ([], w)"
| "wc_read_loop env (Suc k) w =
     (if 0 < wi_available env w
      then (let (c, w1) = wi_read env w in
            if c < 0 then ([], w1) else (let (bs, w2) = wc_read_loop env k w1 in (word_of_int c # bs, w2)))
      else ([], w))"

definition wc_read :: "'w wifi_env \<Rightarrow> nat \<Rightarrow> 'w wifi_conn \<Rightarrow> u8 list \<times> 'w wifi_conn" where
  "wc_read env max_len c =
     (if \<not> wc_active c then ([], c)
      else (let (bs, w) = wc_read_loop env max_len (wc_client c) in (bs, c\<lparr>wc_client := w\<rparr>)))"

definition wc_peek :: "'w wifi_env \<Rightarrow> nat \<Rightarrow> 'w wifi_conn \<Rightarrow> u8 option" where
  "wc_peek env len c =
     (if \<not> wc_active c \<or> len = 0 \<or> wi_available env (wc_client c) < len \<or> len \<noteq> 1 then None
      else (let b = wi_peek env (wc_client c) in if b < 0 then None else Some (word_of_int b)))"

definition wc_read_exact :: "'w wifi_env \<Rightarrow> nat \<Rightarrow> 'w wifi_conn \<Rightarrow> bool \<times> u8 list \<times> 'w wifi_conn" where
  "wc_read_exact env len c =
     (if wc_input_size env c < len then (False, [], c)
      else (let (bs, c') = wc_read env len c in (length bs = len, bs, c')))"

text \<open>
  \<^verbatim>\<open>read_line\<close> consumes input until a line feed. A line longer than the buffer is dropped from its start, silently, each time the buffer is full.
  The loop may go on for as long as the client reports input, so it is a partial function.
\<close>

definition line_octet :: "char \<Rightarrow> string \<Rightarrow> string" where
  "line_octet c line = (if length line < line_capacity then line @ [c] else [])"

definition finished_line :: "nat \<Rightarrow> bool \<Rightarrow> string \<Rightarrow> string" where
  "finished_line max_len strip_cr line = take (max_len - 1) (if strip_cr \<and> line \<noteq> [] \<and> last line = CR then butlast line else line)"

partial_function (option) wc_read_line :: "'w wifi_env \<Rightarrow> nat \<Rightarrow> bool \<Rightarrow> 'w wifi_conn \<Rightarrow> (string option \<times> 'w wifi_conn) option" where
  "wc_read_line env max_len strip_cr c =
     (if max_len = 0 \<or> wi_available env (wc_client c) = 0 then Some (None, c)
      else (let (b, w) = wi_read env (wc_client c); c1 = c\<lparr>wc_client := w\<rparr> in
            if b < 0 then Some (None, c1)
            else if b = 10 then Some (Some (finished_line max_len strip_cr (wc_line c1)), c1\<lparr>wc_line := []\<rparr>)
            else wc_read_line env max_len strip_cr (c1\<lparr>wc_line := line_octet (char_of_octet (word_of_int b)) (wc_line c1)\<rparr>)))"

section \<open>The transmit ring\<close>

definition tx_tail :: "'w wifi_conn \<Rightarrow> nat" where
  "tx_tail c = (wc_head c + wc_size c) mod tx_capacity"

definition tx_free :: "'w wifi_conn \<Rightarrow> nat" where
  "tx_free c = tx_capacity - wc_size c"

definition contiguous_output_size :: "'w wifi_conn \<Rightarrow> nat" where
  "contiguous_output_size c = (if wc_size c = 0 then 0 else min (wc_size c) (tx_capacity - wc_head c))"

definition overwrite :: "nat \<Rightarrow> 'a list \<Rightarrow> 'a list \<Rightarrow> 'a list" where
  "overwrite at bs arr = take at arr @ bs @ drop (at + length bs) arr"

function push_loop :: "u8 list \<Rightarrow> nat \<Rightarrow> 'w wifi_conn \<Rightarrow> nat \<times> 'w wifi_conn" where
  "push_loop src pushed c =
     (if pushed < length src \<and> 0 < tx_free c
      then (let n = min (length src - pushed) (min (tx_capacity - tx_tail c) (tx_free c)) in
            push_loop src (pushed + n)
              (c\<lparr>wc_tx := overwrite (tx_tail c) (take n (drop pushed src)) (wc_tx c), wc_size := wc_size c + n\<rparr>))
      else (pushed, c))"
  by pat_completeness auto
termination
  by (relation "measure (\<lambda>(src, pushed, c). length src - pushed)") (auto simp: tx_tail_def min_def)

declare push_loop.simps [simp del]

definition push_output :: "u8 list \<Rightarrow> 'w wifi_conn \<Rightarrow> nat \<times> 'w wifi_conn" where
  "push_output src c = push_loop src 0 c"

definition pop_output :: "nat \<Rightarrow> 'w wifi_conn \<Rightarrow> 'w wifi_conn" where
  "pop_output n c =
     (let len = min n (wc_size c); size = wc_size c - len in
      c\<lparr>wc_head := (if size = 0 then 0 else (wc_head c + len) mod tx_capacity), wc_size := size\<rparr>)"

function flush_loop :: "'w wifi_env \<Rightarrow> nat \<Rightarrow> 'w wifi_conn \<Rightarrow> nat \<times> 'w wifi_conn" where
  "flush_loop env flushed c =
     (if 0 < wc_size c \<and> wi_connected env (wc_client c)
      then (let n = min (contiguous_output_size c) tx_flush_chunk in
            if contiguous_output_size c = 0 then (flushed, c)
            else (let chunk = take n (drop (wc_head c) (wc_tx c));
                      written = fst (wi_write env chunk (wc_client c));
                      c1 = c\<lparr>wc_client := snd (wi_write env chunk (wc_client c))\<rparr> in
                  if written = 0 then (flushed, c1)
                  else (let c2 = pop_output written (c1\<lparr>wc_taken := wc_taken c @ take written chunk\<rparr>) in
                        if written < n then (flushed + written, c2) else flush_loop env (flushed + written) c2)))
      else (flushed, c))"
  by pat_completeness auto
termination
  by (relation "measure (\<lambda>(env, flushed, c). wc_size c)") (auto simp: pop_output_def Let_def)

declare flush_loop.simps [simp del]

definition flush_output :: "'w wifi_env \<Rightarrow> 'w wifi_conn \<Rightarrow> nat \<times> 'w wifi_conn" where
  "flush_output env c = (if \<not> wc_active c \<or> wc_size c = 0 then (0, c) else flush_loop env 0 c)"

definition wc_write :: "'w wifi_env \<Rightarrow> u8 list \<Rightarrow> 'w wifi_conn \<Rightarrow> nat \<times> 'w wifi_conn" where
  "wc_write env src c = (if \<not> wc_active c \<or> src = [] then (0, c) else push_output src (snd (flush_output env c)))"

section \<open>The ring is a queue\<close>

text \<open>The octets in the ring, oldest first, and all octets the connection has accepted.\<close>

definition wc_queue :: "'w wifi_conn \<Rightarrow> u8 list" where
  "wc_queue c = window tx_capacity (wc_tx c) (wc_head c) (wc_size c)"

definition wc_accepted :: "'w wifi_conn \<Rightarrow> u8 list" where
  "wc_accepted c = wc_taken c @ wc_queue c"

definition wc_inv :: "'w wifi_conn \<Rightarrow> bool" where
  "wc_inv c \<longleftrightarrow> length (wc_tx c) = tx_capacity \<and> wc_head c < tx_capacity \<and> wc_size c \<le> tx_capacity"

definition takes_at_most :: "'w wifi_env \<Rightarrow> bool" where
  "takes_at_most env \<longleftrightarrow> (\<forall>d w. fst (wi_write env d w) \<le> length d)"

lemma overwrite_Cons: "at < length arr \<Longrightarrow> overwrite at (b # bs) arr = overwrite (Suc at) bs (arr[at := b])"
  by (simp add: overwrite_def take_Suc_conv_app_nth upd_conv_take_nth_drop add.commute)

lemma overwrite_Nil [simp]: "overwrite at [] arr = arr"
  by (simp add: overwrite_def)

lemma length_overwrite [simp]: "at + length bs \<le> length arr \<Longrightarrow> length (overwrite at bs arr) = length arr"
  by (simp add: overwrite_def)

lemma window_overwrite:
  "length arr = cap \<Longrightarrow> n + length bs \<le> cap \<Longrightarrow> (s + n) mod cap + length bs \<le> cap \<Longrightarrow>
   window cap (overwrite ((s + n) mod cap) bs arr) s (n + length bs) = window cap arr s n @ bs"
proof (induction bs arbitrary: n arr)
  case Nil
  then show ?case by (simp add: overwrite_def)
next
  case (Cons b bs)
  have lt: "n < cap" "(s + n) mod cap < cap" using Cons.prems(2,3) by auto
  have put: "window cap (arr[(s + n) mod cap := b]) s (Suc n) = window cap arr s n @ [b]"
    using window_put [OF lt(1) Cons.prems(1)] by simp
  show ?case
  proof (cases bs)
    case Nil
    then show ?thesis using put lt Cons.prems(1) by (simp add: overwrite_Cons)
  next
    case (Cons b' bs')
    then have "(s + Suc n) mod cap = Suc ((s + n) mod cap)" using Cons.prems(3) by (simp add: mod_Suc)
    then show ?thesis using Cons.IH [of "arr[(s + n) mod cap := b]" "Suc n"] Cons.prems lt put by (simp add: overwrite_Cons)
  qed
qed

lemma window_drop: "k \<le> n \<Longrightarrow> window cap arr (s + k) (n - k) = drop k (window cap arr s n)"
  by (rule nth_equalityI) (simp_all add: add.assoc)

lemma window_take: "k \<le> n \<Longrightarrow> s + k \<le> cap \<Longrightarrow> length arr = cap \<Longrightarrow> take k (drop s arr) = take k (window cap arr s n)"
  by (rule nth_equalityI) auto

lemma push_loop_result:
  assumes "wc_inv c"
  shows "wc_inv (snd (push_loop src pushed c)) \<and>
    fst (push_loop src pushed c) = pushed + min (length src - pushed) (tx_free c) \<and>
    wc_queue (snd (push_loop src pushed c)) = wc_queue c @ take (tx_free c) (drop pushed src) \<and>
    wc_taken (snd (push_loop src pushed c)) = wc_taken c \<and> wc_active (snd (push_loop src pushed c)) = wc_active c"
  using assms
proof (induction src pushed c rule: push_loop.induct)
  case (1 src pushed c)
  show ?case
  proof (cases "pushed < length src \<and> 0 < tx_free c")
    case False
    then have "push_loop src pushed c = (pushed, c)" by (subst push_loop.simps) auto
    then show ?thesis using False "1.prems" by (auto simp: min_def)
  next
    case True
    define n where "n = min (length src - pushed) (min (tx_capacity - tx_tail c) (tx_free c))"
    define c1 where "c1 = c\<lparr>wc_tx := overwrite (tx_tail c) (take n (drop pushed src)) (wc_tx c), wc_size := wc_size c + n\<rparr>"
    have step: "push_loop src pushed c = push_loop src (pushed + n) c1"
      using True by (subst push_loop.simps) (simp add: n_def c1_def Let_def)
    have tail: "tx_tail c < tx_capacity" by (simp add: tx_tail_def)
    have n: "0 < n" "n \<le> tx_free c" "n \<le> length src - pushed" "tx_tail c + n \<le> tx_capacity" "length (take n (drop pushed src)) = n"
      using True tail by (auto simp: n_def)
    have inv1: "wc_inv c1" using "1.prems" n by (auto simp: wc_inv_def c1_def tx_free_def)
    have q: "wc_queue c1 = wc_queue c @ take n (drop pushed src)"
      using window_overwrite [of "wc_tx c" tx_capacity "wc_size c" "take n (drop pushed src)" "wc_head c"] "1.prems" n
      by (simp add: wc_inv_def c1_def wc_queue_def tx_free_def tx_tail_def)
    have free: "tx_free c1 = tx_free c - n" by (simp add: tx_free_def c1_def)
    have "wc_queue c @ take n (drop pushed src) @ take (tx_free c - n) (drop (pushed + n) src) = wc_queue c @ take (tx_free c) (drop pushed src)"
      using n take_add [of n "tx_free c - n" "drop pushed src"] by (simp add: add.commute)
    moreover note "1.IH" [OF True n_def, folded c1_def, OF inv1]
    ultimately show ?thesis using step q free n True by (auto simp: c1_def min_def split: if_splits)
  qed
qed
lemma push_output_result:
  assumes "wc_inv c"
  shows "wc_inv (snd (push_output src c))" "fst (push_output src c) = min (length src) (tx_free c)"
    "wc_queue (snd (push_output src c)) = wc_queue c @ take (tx_free c) src"
    "wc_taken (snd (push_output src c)) = wc_taken c" "wc_active (snd (push_output src c)) = wc_active c"
  using push_loop_result [OF assms, of src 0] by (auto simp: push_output_def min_def split: if_splits)

lemma pop_output_result:
  assumes "wc_inv c"
  shows "wc_inv (pop_output n c)" "wc_queue (pop_output n c) = drop n (wc_queue c)" "wc_size (pop_output n c) = wc_size c - n"
  using assms window_drop [of "min n (wc_size c)" "wc_size c" tx_capacity "wc_tx c" "wc_head c"]
  by (auto simp: wc_inv_def pop_output_def Let_def wc_queue_def min_def)

lemma flush_loop_result:
  assumes "takes_at_most env" "wc_inv c"
  shows "wc_inv (snd (flush_loop env flushed c)) \<and> wc_accepted (snd (flush_loop env flushed c)) = wc_accepted c \<and>
    wc_size c = (fst (flush_loop env flushed c) - flushed) + wc_size (snd (flush_loop env flushed c)) \<and> flushed \<le> fst (flush_loop env flushed c) \<and>
    wc_active (snd (flush_loop env flushed c)) = wc_active c"
  using assms
proof (induction env flushed c rule: flush_loop.induct)
  case (1 env flushed c)
  define n where "n = min (contiguous_output_size c) tx_flush_chunk"
  define chunk where "chunk = take n (drop (wc_head c) (wc_tx c))"
  define written where "written = fst (wi_write env chunk (wc_client c))"
  define c1 where "c1 = c\<lparr>wc_client := snd (wi_write env chunk (wc_client c))\<rparr>"
  define c2 where "c2 = pop_output written (c1\<lparr>wc_taken := wc_taken c @ take written chunk\<rparr>)"
  have step: "flush_loop env flushed c = (if 0 < wc_size c \<and> wi_connected env (wc_client c) \<and> contiguous_output_size c \<noteq> 0
      then (if written = 0 then (flushed, c1) else if written < n then (flushed + written, c2) else flush_loop env (flushed + written) c2)
      else (flushed, c))"
    by (subst flush_loop.simps) (simp add: Let_def n_def chunk_def written_def c1_def c2_def)
  have c1: "wc_inv c1" "wc_accepted c1 = wc_accepted c" "wc_size c1 = wc_size c" "wc_active c1 = wc_active c"
    using "1.prems" by (simp_all add: c1_def wc_inv_def wc_accepted_def wc_queue_def)
  have fit: "n \<le> wc_size c" "wc_head c + n \<le> tx_capacity"
    using "1.prems"(2) by (auto simp: n_def contiguous_output_size_def wc_inv_def)
  have chunk: "chunk = take n (wc_queue c)"
    using window_take [OF fit, of "wc_tx c"] "1.prems"(2) by (simp add: chunk_def wc_queue_def wc_inv_def)
  have len: "length chunk = n" using fit(1) by (simp add: chunk wc_queue_def)
  have w: "written \<le> n" using "1.prems"(1) len by (metis takes_at_most_def written_def)
  let ?c = "c1\<lparr>wc_taken := wc_taken c @ take written chunk\<rparr>"
  have inv: "wc_inv ?c" using c1(1) by (simp add: wc_inv_def)
  have q: "wc_queue ?c = wc_queue c" by (simp add: c1_def wc_queue_def)
  have c2: "wc_inv c2" "wc_accepted c2 = wc_accepted c" "wc_size c = written + wc_size c2" "wc_active c2 = wc_active c"
  proof -
    show "wc_inv c2" using pop_output_result(1) [OF inv] by (simp add: c2_def)
    have "wc_taken c2 = wc_taken c @ take written (wc_queue c)"
      using w by (simp add: c2_def pop_output_def Let_def chunk min_def)
    then show "wc_accepted c2 = wc_accepted c" using pop_output_result(2) [OF inv, of written] q by (simp add: wc_accepted_def c2_def)
    show "wc_size c = written + wc_size c2" using pop_output_result(3) [OF inv, of written] w fit(1) by (simp add: c2_def c1_def)
    show "wc_active c2 = wc_active c" by (simp add: c2_def pop_output_def Let_def c1_def)
  qed
  show ?case
  proof (cases "0 < wc_size c \<and> wi_connected env (wc_client c) \<and> contiguous_output_size c \<noteq> 0 \<and> written \<noteq> 0 \<and> \<not> written < n")
    case True
    then have "flush_loop env flushed c = flush_loop env (flushed + written) c2" using step by simp
    moreover have "wc_inv (snd (flush_loop env (flushed + written) c2)) \<and> wc_accepted (snd (flush_loop env (flushed + written) c2)) = wc_accepted c2 \<and>
      wc_size c2 = (fst (flush_loop env (flushed + written) c2) - (flushed + written)) + wc_size (snd (flush_loop env (flushed + written) c2)) \<and>
      flushed + written \<le> fst (flush_loop env (flushed + written) c2) \<and> wc_active (snd (flush_loop env (flushed + written) c2)) = wc_active c2"
      using True "1.prems"(1) c2(1) "1.IH" [OF _ n_def _ chunk_def written_def c1_def _ c2_def] by simp
    ultimately show ?thesis using c2 by (auto simp only:)
  next
    case False
    then show ?thesis using step c1 c2 "1.prems"(2) by (auto split: if_splits)
  qed
qed

lemma flush_output_result:
  assumes "takes_at_most env" "wc_inv c"
  shows "wc_inv (snd (flush_output env c))" "wc_accepted (snd (flush_output env c)) = wc_accepted c"
    "wc_size c = fst (flush_output env c) + wc_size (snd (flush_output env c))" "wc_active (snd (flush_output env c)) = wc_active c"
  using flush_loop_result [OF assms, of 0] assms(2) by (auto simp: flush_output_def)

text \<open>A write takes what fits after a flush, in order; so a write that fits the free space is taken as a whole.\<close>

lemma wc_write_result:
  assumes "takes_at_most env" "wc_inv c"
  shows "wc_inv (snd (wc_write env src c))" "wc_accepted (snd (wc_write env src c)) = wc_accepted c @ take (fst (wc_write env src c)) src"
    "wc_active (snd (wc_write env src c)) = wc_active c" "fst (wc_write env src c) \<le> length src"
    "wc_active c \<Longrightarrow> min (length src) (tx_free c) \<le> fst (wc_write env src c)"
proof -
  let ?c = "snd (flush_output env c)"
  note f = flush_output_result [OF assms]
  note p = push_output_result [OF f(1), of src]
  have "tx_free c \<le> tx_free ?c" using f(3) by (simp add: tx_free_def)
  moreover have "take (min (length src) (tx_free ?c)) src = take (tx_free ?c) src" by (simp add: min_def)
  ultimately show "wc_inv (snd (wc_write env src c))" "wc_accepted (snd (wc_write env src c)) = wc_accepted c @ take (fst (wc_write env src c)) src"
    "wc_active (snd (wc_write env src c)) = wc_active c" "fst (wc_write env src c) \<le> length src"
    "wc_active c \<Longrightarrow> min (length src) (tx_free c) \<le> fst (wc_write env src c)"
    using assms(2) f p by (auto simp: wc_write_def wc_accepted_def)
qed

section \<open>Any sequence of operations\<close>

datatype tx_op = TxWrite "u8 list" | TxFlush | TxRead nat

text \<open>The octets that the writes reported as taken, and the connection after them.\<close>

fun wc_run :: "'w wifi_env \<Rightarrow> tx_op list \<Rightarrow> 'w wifi_conn \<Rightarrow> u8 list \<times> 'w wifi_conn" where
  "wc_run env [] c = ([], c)"
| "wc_run env (TxWrite src # ops) c =
     (let (n, c1) = wc_write env src c; (acc, c2) = wc_run env ops c1 in (take n src @ acc, c2))"
| "wc_run env (TxFlush # ops) c = wc_run env ops (snd (flush_output env c))"
| "wc_run env (TxRead k # ops) c = wc_run env ops (snd (wc_read env k c))"

lemma wc_read_tx:
  "wc_inv c \<Longrightarrow> wc_inv (snd (wc_read env k c))" "wc_accepted (snd (wc_read env k c)) = wc_accepted c"
  by (auto simp: wc_read_def wc_inv_def wc_accepted_def wc_queue_def split: prod.splits)

lemma wc_run_accepted:
  "takes_at_most env \<Longrightarrow> wc_inv c \<Longrightarrow>
   wc_inv (snd (wc_run env ops c)) \<and> wc_accepted (snd (wc_run env ops c)) = wc_accepted c @ fst (wc_run env ops c)"
proof (induction ops arbitrary: c)
  case (Cons op ops)
  show ?case
  proof (cases op)
    case (TxWrite src)
    obtain n c1 where w: "wc_write env src c = (n, c1)" by fastforce
    obtain acc c2 where r: "wc_run env ops c1 = (acc, c2)" by fastforce
    from wc_write_result [OF Cons.prems, of src] w have c1: "wc_inv c1" "wc_accepted c1 = wc_accepted c @ take n src" by simp_all
    with Cons.IH [OF Cons.prems(1) c1(1)] r show ?thesis using TxWrite w by simp
  next
    case TxFlush
    with flush_output_result [OF Cons.prems] Cons.IH [OF Cons.prems(1)] show ?thesis by simp
  next
    case (TxRead k)
    with wc_read_tx(1) [of c env k] wc_read_tx(2) [of env k c] Cons.prems Cons.IH [OF Cons.prems(1)] show ?thesis by simp
  qed
qed simp

lemma wc_attach_inv: "wc_inv c \<Longrightarrow> wc_inv (snd (wc_attach env w c)) \<and> wc_accepted (snd (wc_attach env w c)) = [] \<and> wc_active (snd (wc_attach env w c))"
  by (simp add: wc_attach_def wc_close_def wc_inv_def wc_accepted_def wc_queue_def Let_def)

text \<open>
  C16: The transmit ring of a WiFi connection loses, repeats and reorders nothing: after any sequence of writes, flushes and reads on a
  freshly attached connection, what the WiFi client has taken followed by what is still in the ring is exactly the octets that the writes reported as
  taken, in order, and the ring never holds more than its capacity. A write takes at least what fits the free space it finds.
\<close>

theorem wifi_output_fifo:
  assumes "takes_at_most env" "wc_inv c0" "c = snd (wc_attach env w c0)"
  shows "wc_taken (snd (wc_run env ops c)) @ wc_queue (snd (wc_run env ops c)) = fst (wc_run env ops c) \<and>
    wc_size (snd (wc_run env ops c)) \<le> tx_capacity \<and>
    (\<forall>d. wc_active (snd (wc_run env ops c)) \<longrightarrow>
       min (length d) (tx_free (snd (wc_run env ops c))) \<le> fst (wc_write env d (snd (wc_run env ops c))))"
proof -
  have c: "wc_inv c" "wc_accepted c = []" using wc_attach_inv [OF assms(2), of env w] by (simp_all add: assms(3))
  from wc_run_accepted [OF assms(1) c(1), of ops] c(2) show ?thesis
    using wc_write_result(5) [OF assms(1)] by (simp add: wc_accepted_def wc_inv_def)
qed

text \<open>A WiFi client that takes at most ten octets at a time, up to thirty in all; its state is what it has taken.\<close>

definition example_wifi :: "nat wifi_env" where
  "example_wifi = \<lparr>wi_up = (\<lambda>w. True), wi_connected = (\<lambda>w. True), wi_available = (\<lambda>w. 0), wi_read = (\<lambda>w. (-1, w)), wi_peek = (\<lambda>w. -1),
     wi_write = (\<lambda>d w. let n = min (length d) (min 10 (30 - w)) in (n, w + n)), wi_stop = id\<rparr>"

lemma example_wifi_takes: "takes_at_most example_wifi"
  by (simp add: takes_at_most_def example_wifi_def Let_def)

theorem wifi_output_fifo_witness:
  "takes_at_most example_wifi \<and> wc_inv (wc_init 0) \<and>
   (let r = wc_run example_wifi [TxWrite [1, 2], TxFlush, TxWrite [3]] (snd (wc_attach example_wifi 0 (wc_init 0))) in
    wc_taken (snd r) @ wc_queue (snd r) = fst r)"
  using wifi_output_fifo [OF example_wifi_takes _ refl, of "wc_init 0" "[TxWrite [1, 2], TxFlush, TxWrite [3]]" 0] example_wifi_takes
  by (simp add: wc_inv_def wc_init_def Let_def)

section \<open>The server and the client\<close>

text \<open>Callbacks of the connection handler: what one does to the connections is an argument \<open>h\<close>, and each is recorded.\<close>

datatype wifi_event = WifiAccept nat | WifiWriteReady nat | WifiData nat | WifiClosed nat | WifiRefused

record 'w wifi_server =
  wt_conns :: "'w wifi_conn list"
  wt_max :: nat
  wt_listening :: bool
  wt_port :: nat
  wt_events :: "wifi_event list"

type_synonym 'w wifi_handler = "wifi_event \<Rightarrow> 'w wifi_server \<Rightarrow> 'w wifi_server"

abbreviation max_slots :: nat where "max_slots \<equiv> 4"

definition wt_init :: "nat \<Rightarrow> 'w \<Rightarrow> 'w wifi_server" where
  "wt_init max_connections w = \<lparr>wt_conns = replicate max_slots (wc_init w), wt_max = (if max_slots < max_connections then max_slots else max_connections),
     wt_listening = False, wt_port = 0, wt_events = []\<rparr>"

definition wt_close :: "'w wifi_env \<Rightarrow> 'w wifi_server \<Rightarrow> 'w wifi_server" where
  "wt_close env sv = sv\<lparr>wt_conns := map (\<lambda>c. if wc_valid env c then wc_close env c else c) (wt_conns sv), wt_listening := False, wt_port := 0\<rparr>"

definition wt_listen :: "'w wifi_env \<Rightarrow> nat \<Rightarrow> 'w wifi_server \<Rightarrow> bool \<times> 'w wifi_server" where
  "wt_listen env port sv = (let sv1 = wt_close env sv in if port = 0 then (False, sv1) else (True, sv1\<lparr>wt_listening := True, wt_port := port\<rparr>))"

definition wt_connection_count :: "'w wifi_env \<Rightarrow> 'w wifi_server \<Rightarrow> nat" where
  "wt_connection_count env sv = length (filter (wc_valid env) (wt_conns sv))"

definition wt_notify :: "'w wifi_handler \<Rightarrow> wifi_event \<Rightarrow> 'w wifi_server \<Rightarrow> 'w wifi_server" where
  "wt_notify h e sv = h e (sv\<lparr>wt_events := wt_events sv @ [e]\<rparr>)"

definition wt_set :: "nat \<Rightarrow> 'w wifi_conn \<Rightarrow> 'w wifi_server \<Rightarrow> 'w wifi_server" where
  "wt_set i c sv = sv\<lparr>wt_conns := (wt_conns sv)[i := c]\<rparr>"

definition accept_ready_clients :: "'w wifi_env \<Rightarrow> 'w wifi_handler \<Rightarrow> 'w option \<Rightarrow> 'w wifi_server \<Rightarrow> 'w wifi_server" where
  "accept_ready_clients env h incoming sv =
     (case incoming of None \<Rightarrow> sv
      | Some w \<Rightarrow>
          (case index_where (\<lambda>c. \<not> wc_valid env c) (take (wt_max sv) (wt_conns sv)) of
             Some i \<Rightarrow> wt_notify h (WifiAccept i) (wt_set i (snd (wc_attach env w (wt_conns sv ! i))) sv)
           | None \<Rightarrow> sv\<lparr>wt_events := wt_events sv @ [WifiRefused]\<rparr>))"

definition poll_connection :: "'w wifi_env \<Rightarrow> 'w wifi_handler \<Rightarrow> nat \<Rightarrow> 'w wifi_server \<Rightarrow> 'w wifi_server" where
  "poll_connection env h i sv =
     (if \<not> wc_valid env (wt_conns sv ! i) then sv
      else (let (flushed, c) = flush_output env (wt_conns sv ! i);
                sv1 = wt_set i c sv;
                sv2 = (if 0 < flushed then wt_notify h (WifiWriteReady i) sv1 else sv1);
                sv3 = (if 0 < wc_input_size env (wt_conns sv2 ! i) then wt_notify h (WifiData i) sv2 else sv2)
            in if wc_closed_by_peer env (wt_conns sv3 ! i)
               then (let sv4 = wt_notify h (WifiClosed i) sv3 in wt_set i (wc_close env (wt_conns sv4 ! i)) sv4)
               else sv3))"

definition wt_poll :: "'w wifi_env \<Rightarrow> 'w wifi_handler \<Rightarrow> 'w option \<Rightarrow> 'w wifi_server \<Rightarrow> 'w wifi_server" where
  "wt_poll env h incoming sv =
     (if \<not> wt_listening sv then sv else fold (poll_connection env h) [0..<wt_max sv] (accept_ready_clients env h incoming sv))"

record 'w wifi_client =
  wl_conn :: "'w wifi_conn"
  wl_handler :: bool

definition wl_close :: "'w wifi_env \<Rightarrow> 'w wifi_client \<Rightarrow> 'w wifi_client" where
  "wl_close env cl = cl\<lparr>wl_conn := wc_close env (wl_conn cl), wl_handler := False\<rparr>"

datatype client_event = ClientError | ClientConnect | ClientWriteReady | ClientData | ClientClosed

text \<open>\<open>h\<close> is what a callback of the client's handler does to the client. \<open>dialled\<close> is the connected WiFi client, if the connection was made.\<close>

definition wl_connect ::
  "'w wifi_env \<Rightarrow> (client_event \<Rightarrow> 'w wifi_client \<Rightarrow> 'w wifi_client) \<Rightarrow> bool \<Rightarrow> nat \<Rightarrow> 'w option \<Rightarrow> 'w wifi_client \<Rightarrow> bool \<times> 'w wifi_client" where
  "wl_connect env h has_host port dialled cl0 =
     (let cl = wl_close env cl0 in
      if \<not> has_host \<or> port = 0 then (False, h ClientError cl)
      else (case dialled of None \<Rightarrow> (False, h ClientError cl)
            | Some w \<Rightarrow> (True, h ClientConnect (cl\<lparr>wl_conn := snd (wc_attach env w (wl_conn cl)), wl_handler := True\<rparr>))))"

definition wl_poll :: "'w wifi_env \<Rightarrow> (client_event \<Rightarrow> 'w wifi_client \<Rightarrow> 'w wifi_client) \<Rightarrow> 'w wifi_client \<Rightarrow> 'w wifi_client" where
  "wl_poll env h cl =
     (if \<not> wl_handler cl \<or> \<not> wc_valid env (wl_conn cl) then cl
      else (let (flushed, c) = flush_output env (wl_conn cl);
                cl1 = cl\<lparr>wl_conn := c\<rparr>;
                cl2 = (if 0 < flushed then h ClientWriteReady cl1 else cl1);
                cl3 = (if 0 < wc_input_size env (wl_conn cl2) then h ClientData cl2 else cl2)
            in if wc_closed_by_peer env (wl_conn cl3)
               then (let cl4 = h ClientClosed cl3 in cl4\<lparr>wl_conn := wc_close env (wl_conn cl4), wl_handler := False\<rparr>)
               else cl3))"

text \<open>A new client is refused exactly when every slot is in use, and otherwise takes the first slot that is not, with an empty ring.\<close>

lemma accept_takes_free_slot:
  assumes "wt_max sv \<le> length (wt_conns sv)"
  shows "if \<forall>i < wt_max sv. wc_valid env (wt_conns sv ! i)
    then accept_ready_clients env h (Some w) sv = sv\<lparr>wt_events := wt_events sv @ [WifiRefused]\<rparr>
    else \<exists>i < wt_max sv. \<not> wc_valid env (wt_conns sv ! i) \<and> (\<forall>j < i. wc_valid env (wt_conns sv ! j)) \<and>
      accept_ready_clients env h (Some w) sv = wt_notify h (WifiAccept i) (wt_set i (snd (wc_attach env w (wt_conns sv ! i))) sv)"
proof (cases "index_where (\<lambda>c. \<not> wc_valid env c) (take (wt_max sv) (wt_conns sv))")
  case None
  then have "\<forall>i < wt_max sv. wc_valid env (wt_conns sv ! i)"
    using assms by (metis index_where_None length_take min.absorb2 nth_mem nth_take)
  with None show ?thesis by (simp add: accept_ready_clients_def)
next
  case (Some i)
  note i = index_where_SomeD [OF Some]
  have "i < wt_max sv" "\<not> wc_valid env (wt_conns sv ! i)" "\<forall>j < i. wc_valid env (wt_conns sv ! j)" using i assms by auto
  with Some show ?thesis by (auto simp: accept_ready_clients_def)
qed

end
