(* ===== verification/Http_Api.thy ===== *)
theory Http_Api
  imports Rest_Stream Http_Text Json_Writer Wifi_Tcp
begin

text \<open>
  The HTTP endpoints (\<^verbatim>\<open>SignalKHttpApi\<close> of \<^verbatim>\<open>signalk_http.hpp\<close>) and the room the stream server grants a client (\<^verbatim>\<open>frame_room\<close> of
  \<^verbatim>\<open>signalk_stream_server.hpp\<close>). A connection is a state of type \<open>'k\<close> with the operations of \<^verbatim>\<open>ITcpConnection\<close> and \<^verbatim>\<open>IHttpResponseControl\<close> as a
  record of functions, interpreted below on the WiFi connection. The model writer is an argument: the result and the text it produces for a path and a
  time. How the writer cuts the text into calls does not matter to the sinks, which see one character after the other.
\<close>

section \<open>Room for a client\<close>

record client_limits =
  cm_json_buffer_size :: nat
  cm_max_client_queue_bytes :: nat
  cm_high_water :: nat

definition frame_room :: "client_limits \<Rightarrow> nat \<Rightarrow> nat \<Rightarrow> nat" where
  "frame_room cm capacity used =
     (let min_queue = cm_json_buffer_size cm + 16;
          configured = (if cm_max_client_queue_bytes cm \<noteq> 0 \<and> cm_max_client_queue_bytes cm < min_queue then min_queue
                        else cm_max_client_queue_bytes cm);
          high_water = cm_high_water cm;
          q = (if configured \<noteq> 0 then configured else high_water);
          queue_limit = (if high_water \<noteq> 0 \<and> high_water < q then high_water else q);
          limit = (if queue_limit \<noteq> 0 \<and> queue_limit < capacity then queue_limit else capacity)
      in if limit \<le> used then 0 else limit - used)"

lemma frame_room_le: "frame_room cm capacity used \<le> capacity - used"
  by (auto simp: frame_room_def Let_def)

section \<open>Responses\<close>

record 'k http_link =
  hl_valid :: "'k \<Rightarrow> bool"
  hl_write :: "u8 list \<Rightarrow> 'k \<Rightarrow> int \<times> 'k"
  hl_room :: "'k \<Rightarrow> nat"
  hl_hold :: "'k \<Rightarrow> bool \<times> 'k"
  hl_finish :: "'k \<Rightarrow> 'k"
  hl_abort :: "'k \<Rightarrow> 'k"

definition hl_write_all :: "'k http_link \<Rightarrow> string \<Rightarrow> 'k \<Rightarrow> bool \<times> 'k" where
  "hl_write_all link data k = write_all (hl_valid link) (hl_valid link) (hl_write link) (Some (octets data)) k"

definition hl_write_once :: "'k http_link \<Rightarrow> string \<Rightarrow> 'k \<Rightarrow> bool \<times> 'k" where
  "hl_write_once link data k = (let (n, k') = hl_write link (octets data) k in (n = int (length data), k'))"

function nat_text :: "nat \<Rightarrow> string" where
  "nat_text n = (if n < 10 then [char_of (48 + n)] else nat_text (n div 10) @ [char_of (48 + n mod 10)])"
  by pat_completeness auto
termination
  by (relation "measure id") auto

declare nat_text.simps [simp del]

abbreviation CRLF :: string where "CRLF \<equiv> [CR, LF]"

definition http_response_header :: "string \<Rightarrow> string \<Rightarrow> nat \<Rightarrow> string \<Rightarrow> string" where
  "http_response_header status content_type body_len extra =
     ''HTTP/1.1 '' @ status @ CRLF @ ''Content-Type: '' @ content_type @ CRLF @ ''Content-Length: '' @ nat_text (body_len mod 2 ^ 32) @ CRLF @
     ''Connection: close'' @ CRLF @ ''Access-Control-Allow-Origin: *'' @ CRLF @ extra @ CRLF"

definition send_http_response :: "'k http_link \<Rightarrow> string \<Rightarrow> string \<Rightarrow> string \<Rightarrow> string \<Rightarrow> 'k \<Rightarrow> bool \<times> 'k" where
  "send_http_response link status content_type body extra k =
     (let header = http_response_header status content_type (length body) extra in
      if 384 \<le> length header then (False, k)
      else (case hl_write_all link header k of
              (False, k1) \<Rightarrow> (False, k1)
            | (True, k1) \<Rightarrow> if length body = 0 then (True, k1) else hl_write_all link body k1))"

text \<open>The sink of a response with a known length collects 256 characters for a write.\<close>

abbreviation sink_buffer :: nat where "sink_buffer \<equiv> 256"

definition http_sink_flush :: "'k http_link \<Rightarrow> string \<times> 'k \<Rightarrow> bool \<times> string \<times> 'k" where
  "http_sink_flush link s =
     (if fst s = [] then (True, s)
      else (case hl_write_all link (fst s) (snd s) of (False, k) \<Rightarrow> (False, fst s, k) | (True, k) \<Rightarrow> (True, [], k)))"

function http_sink_append :: "'k http_link \<Rightarrow> string \<Rightarrow> string \<times> 'k \<Rightarrow> bool \<times> string \<times> 'k" where
  "http_sink_append link data s =
     (if data = [] \<or> sink_buffer \<le> length (fst s) then (data = [], s)
      else (let n = min (length data) (sink_buffer - length (fst s));
                s1 = (fst s @ take n data, snd s) in
            if length (fst s1) = sink_buffer
            then (case http_sink_flush link s1 of
                    (False, s2) \<Rightarrow> (False, s2)
                  | (True, s2) \<Rightarrow> http_sink_append link (drop n data) s2)
            else http_sink_append link (drop n data) s1))"
  by pat_completeness auto
termination
  by (relation "measure (\<lambda>(link, data, s). length data)") auto

declare http_sink_append.simps [simp del]

section \<open>REST responses\<close>

datatype model_write_result = Written | NotFound | InvalidPath | WriteFailed

type_synonym model_writer = "string \<Rightarrow> int \<Rightarrow> model_write_result \<times> string"

record 'c rest_job =
  jb_connection :: "'c option"
  jb_path :: string
  jb_now_us :: int
  jb_leaves_sent :: nat
  jb_structure_crc :: u32
  jb_last_progress_ms :: u32
  jb_header_sent :: bool

definition rest_job_init :: "'c rest_job" where
  "rest_job_init = \<lparr>jb_connection = None, jb_path = [], jb_now_us = 0, jb_leaves_sent = 0, jb_structure_crc = 0, jb_last_progress_ms = 0,
     jb_header_sent = False\<rparr>"

definition jb_active :: "'c rest_job \<Rightarrow> bool" where
  "jb_active job \<longleftrightarrow> jb_connection job \<noteq> None"

abbreviation MaxPathLength :: nat where "MaxPathLength \<equiv> 160"

definition ResumableHeader :: string where
  "ResumableHeader = ''HTTP/1.1 200 OK'' @ CRLF @ ''Content-Type: application/json'' @ CRLF @ ''Connection: close'' @ CRLF @
     ''Access-Control-Allow-Origin: *'' @ CRLF @ CRLF"

definition find_job :: "'c option \<Rightarrow> 'c rest_job list \<Rightarrow> nat option" where
  "find_job c jobs = index_where (\<lambda>job. jb_connection job = c) jobs"

definition message :: "string \<Rightarrow> string" where
  "message m = [CHR ''{'', DQ] @ ''message'' @ [DQ, CHR '':'', DQ] @ m @ [DQ, CHR ''}'']"

abbreviation json_type :: string where "json_type \<equiv> ''application/json''"

text \<open>A response whose length is known.\<close>

definition send_counted :: "'k http_link \<Rightarrow> model_writer \<Rightarrow> string \<Rightarrow> int \<Rightarrow> nat \<Rightarrow> 'k \<Rightarrow> bool \<times> 'k" where
  "send_counted link model path now_us count k =
     (let header = http_response_header ''200 OK'' json_type count [] in
      if 256 \<le> length header then (False, k)
      else (case hl_write_all link header k of
              (False, k1) \<Rightarrow> (False, k1)
            | (True, k1) \<Rightarrow>
                (let (written, doc) = model path now_us in
                 case http_sink_append link doc ([], k1) of
                   (False, s) \<Rightarrow> (False, snd s)
                 | (True, s) \<Rightarrow>
                     if written \<noteq> Written \<or> length doc \<noteq> count then (False, snd s)
                     else (case http_sink_flush link s of (ok, s1) \<Rightarrow> (ok, snd s1)))))"

definition send_signalk_rest_response ::
  "'k http_link \<Rightarrow> model_writer \<Rightarrow> 'c \<Rightarrow> string \<Rightarrow> int \<Rightarrow> u32 \<Rightarrow> 'c rest_job list \<Rightarrow> 'k \<Rightarrow> bool \<times> 'c rest_job list \<times> 'k" where
  "send_signalk_rest_response link model c path now_us now_ms jobs k =
     (let (counted, doc) = model path now_us;
          answer = (\<lambda>status body extra. case send_http_response link status json_type body extra k of (ok, k') \<Rightarrow> (ok, jobs, k')) in
      case counted of
        NotFound \<Rightarrow> answer ''404 Not Found'' (message ''Not Found'') []
      | InvalidPath \<Rightarrow> answer ''400 Bad Request'' (message ''Invalid Signal K path'') []
      | WriteFailed \<Rightarrow> answer ''500 Internal Server Error'' (message ''Serialization failed'') []
      | Written \<Rightarrow>
          if hl_room link k < length doc + length ResumableHeader \<and> length path < MaxPathLength
          then (case find_job None jobs of
                  None \<Rightarrow> answer ''503 Service Unavailable'' (message ''Busy'') (''Retry-After: 1'' @ CRLF)
                | Some i \<Rightarrow>
                    (case hl_hold link k of
                       (False, k1) \<Rightarrow> (False, jobs, k1)
                     | (True, k1) \<Rightarrow> (True, jobs[i := (jobs ! i)\<lparr>jb_connection := Some c, jb_path := path, jb_now_us := now_us,
                                                             jb_last_progress_ms := now_ms\<rparr>], k1)))
          else (case send_counted link model path now_us (length doc) k of (ok, k1) \<Rightarrow> (ok, jobs, k1)))"

text \<open>One pass of a held response. The sink updates the part of the job it works on, whatever the result.\<close>

definition job_pass :: "'k http_link \<Rightarrow> model_writer \<Rightarrow> 'c rest_job \<Rightarrow> 'k \<Rightarrow> rest_result \<times> 'c rest_job \<times> 'k" where
  "job_pass link model job k =
     (let (written, doc) = model (jb_path job) (jb_now_us job);
          room = hl_room link; wr = hl_write_once link;
          (res, s) = (case rk_write room wr doc (rk_init (jb_leaves_sent job) (jb_structure_crc job) k) of
                        (False, s) \<Rightarrow> (rk_result s, s)
                      | (True, s) \<Rightarrow> if written = Written then rk_finish room wr s else (RestFailed, s))
      in (res, job\<lparr>jb_leaves_sent := rk_leaves_sent s, jb_structure_crc := rk_structure_crc s\<rparr>, rk_conn s))"

definition job_header :: "'k http_link \<Rightarrow> u32 \<Rightarrow> 'c rest_job \<Rightarrow> 'k \<Rightarrow> rest_result \<times> 'c rest_job \<times> 'k" where
  "job_header link now job k =
     (if \<not> jb_header_sent job \<and> length ResumableHeader \<le> hl_room link k
      then (case hl_write_once link ResumableHeader k of
              (False, k1) \<Rightarrow> (RestFailed, job, k1)
            | (True, k1) \<Rightarrow> (RestPaused, job\<lparr>jb_header_sent := True, jb_last_progress_ms := now\<rparr>, k1))
      else (RestPaused, job, k))"

definition pump_job :: "'k http_link \<Rightarrow> model_writer \<Rightarrow> u32 \<Rightarrow> u32 \<Rightarrow> 'c rest_job \<Rightarrow> 'k \<Rightarrow> rest_result \<times> 'c rest_job \<times> 'k" where
  "pump_job link model timeout now job k =
     (if \<not> jb_active job then (RestPaused, job, k)
      else
        (let (r1, job1, k1) = job_header link now job k;
             (r2, job2, k2) =
               (if jb_header_sent job1 \<and> r1 \<noteq> RestFailed
                then (let (r, j, k') = job_pass link model job1 k1
                      in (r, if jb_leaves_sent j \<noteq> jb_leaves_sent job then j\<lparr>jb_last_progress_ms := now\<rparr> else j, k'))
                else (r1, job1, k1));
             r3 = (if r2 = RestPaused \<and> timeout \<noteq> 0 \<and> timeout < now - jb_last_progress_ms job2 then RestFailed else r2)
         in case r3 of
              RestComplete \<Rightarrow> (r3, rest_job_init, hl_finish link k2)
            | RestFailed \<Rightarrow> (r3, rest_job_init, hl_abort link k2)
            | RestPaused \<Rightarrow> (r3, job2, k2)))"

section \<open>The endpoints\<close>

record 'c http_api =
  ha_jobs :: "'c rest_job list"
  ha_port :: nat
  ha_signalk_version :: "string option"
  ha_server_name :: "string option"
  ha_server_version :: "string option"
  ha_timeout_ms :: u32

definition discovery_host :: "'c http_api \<Rightarrow> string \<Rightarrow> string" where
  "discovery_host api header =
     (case map_option (takeWhile (\<lambda>c. c \<noteq> NUL)) (copy_http_host header 128) of
        Some host \<Rightarrow> if valid_http_host host then host else ''127.0.0.1:'' @ nat_text (ha_port api)
      | None \<Rightarrow> ''127.0.0.1:'' @ nat_text (ha_port api))"

definition discovery_writer :: "'c http_api \<Rightarrow> string \<Rightarrow> jw_op" where
  "discovery_writer api host = jw_all
     [append_raw ([CHR ''{'', DQ] @ ''endpoints'' @ [DQ, CHR '':'', CHR ''{'', DQ] @ ''v1'' @ [DQ, CHR '':'', CHR ''{'', DQ] @ ''version'' @ [DQ, CHR '':'']),
      append_quoted (case ha_signalk_version api of Some v \<Rightarrow> v | None \<Rightarrow> ''1.8.2''),
      append_raw ([CHR '','', DQ] @ ''signalk-http'' @ [DQ, CHR '':'']), append_quoted (''http://'' @ host @ ''/signalk/v1/api/''),
      append_raw ([CHR '','', DQ] @ ''signalk-ws'' @ [DQ, CHR '':'']), append_quoted (''ws://'' @ host @ ''/signalk/v1/stream''),
      append_raw ([CHR ''}'', CHR ''}'', CHR '','', DQ] @ ''server'' @ [DQ, CHR '':'', CHR ''{'', DQ] @ ''id'' @ [DQ, CHR '':'']),
      append_quoted (case ha_server_name api of Some v \<Rightarrow> v | None \<Rightarrow> ''signalk-mini''),
      append_raw ([CHR '','', DQ] @ ''version'' @ [DQ, CHR '':'']),
      append_quoted (case ha_server_version api of Some v \<Rightarrow> v | None \<Rightarrow> ''0.1.0''), append_raw [CHR ''}'', CHR ''}'']]"

definition send_discovery :: "'k http_link \<Rightarrow> 'c http_api \<Rightarrow> string \<Rightarrow> 'k \<Rightarrow> bool \<times> 'k" where
  "send_discovery link api header k =
     (let host = discovery_host api header;
          failed = send_http_response link ''500 Internal Server Error'' json_type (message ''Discovery serialization failed'') [] k in
      if 192 \<le> length (''http://'' @ host @ ''/signalk/v1/api/'') \<or> 192 \<le> length (''ws://'' @ host @ ''/signalk/v1/stream'') then failed
      else (case discovery_writer api host (jw_init 640) of
              (ok, w) \<Rightarrow> if \<not> ok \<or> \<not> jw_ok w then failed else send_http_response link ''200 OK'' json_type (jw_text w) [] k))"

definition root_page :: string where
  "root_page =
     ''<!doctype html><html><head><meta charset='' @ [DQ] @ ''utf-8'' @ [DQ] @ ''><title>SignalK Mini</title></head>'' @
     ''<body><h1>SignalK Mini</h1><p>Lightweight Signal K server is running.</p>'' @
     ''<p><a href='' @ [DQ] @ ''/signalk'' @ [DQ] @ ''>Signal K discovery</a></p>'' @
     ''<p><a href='' @ [DQ] @ ''/signalk/v1/api/'' @ [DQ] @ ''>Signal K REST API</a></p></body></html>''"

definition strip_slashes :: "string \<Rightarrow> string" where
  "strip_slashes s = rev (dropWhile (\<lambda>c. c = CHR ''/'') (rev s))"

definition ApiBase :: string where "ApiBase = ''/signalk/v1/api''"

definition handle_request ::
  "'k http_link \<Rightarrow> model_writer \<Rightarrow> 'c \<Rightarrow> string \<Rightarrow> int \<Rightarrow> u32 \<Rightarrow> 'c http_api \<Rightarrow> 'k \<Rightarrow> bool \<times> 'c http_api \<times> 'k" where
  "handle_request link model c header now_us now_ms api k =
     (let answer = (\<lambda>status ctype body extra. case send_http_response link status ctype body extra k of (ok, k') \<Rightarrow> (ok, api, k')) in
      case parse_http_request_line header of
        None \<Rightarrow> answer ''400 Bad Request'' json_type (message ''Malformed HTTP request'') []
      | Some (verb, target) \<Rightarrow>
          (let path_len = http_path_length target; path = take path_len target in
           if verb \<noteq> ''GET'' then answer ''405 Method Not Allowed'' json_type (message ''Read-only API; GET required'') (''Allow: GET'' @ CRLF)
           else if path_len = 0 \<or> 512 \<le> path_len then answer ''414 URI Too Long'' json_type (message ''URI too long'') []
           else if path = ''/'' then answer ''200 OK'' ''text/html; charset=utf-8'' root_page []
           else if path = ''/signalk'' \<or> path = ''/signalk/'' then (case send_discovery link api header k of (ok, k') \<Rightarrow> (ok, api, k'))
           else if path = ApiBase then
             answer ''308 Permanent Redirect'' json_type (message ''Use /signalk/v1/api/'') (''Location: /signalk/v1/api/'' @ CRLF)
           else if length ApiBase < path_len \<and> take (length ApiBase) path = ApiBase \<and> path ! length ApiBase = CHR ''/'' then
             (let relative = strip_slashes (drop (length ApiBase + 1) path) in
              if 384 \<le> length relative then answer ''414 URI Too Long'' json_type (message ''Signal K path too long'') []
              else (case send_signalk_rest_response link model c (takeWhile (\<lambda>c. c \<noteq> NUL) relative) now_us now_ms (ha_jobs api) k of
                      (ok, jobs, k') \<Rightarrow> (ok, api\<lparr>ha_jobs := jobs\<rparr>, k')))
           else answer ''404 Not Found'' json_type (message ''Not Found'') []))"

text \<open>Write-ready, timer and close events. Each connection has its own state.\<close>

definition ha_pump_index :: "('c \<Rightarrow> 'k http_link) \<Rightarrow> model_writer \<Rightarrow> u32 \<Rightarrow> nat \<Rightarrow> 'c http_api \<times> ('c \<Rightarrow> 'k) \<Rightarrow> 'c http_api \<times> ('c \<Rightarrow> 'k)" where
  "ha_pump_index link model now i s =
     (case jb_connection (ha_jobs (fst s) ! i) of
        None \<Rightarrow> s
      | Some c \<Rightarrow> (case pump_job (link c) model (ha_timeout_ms (fst s)) now (ha_jobs (fst s) ! i) (snd s c) of
                     (_, job, k) \<Rightarrow> ((fst s)\<lparr>ha_jobs := (ha_jobs (fst s))[i := job]\<rparr>, (snd s)(c := k))))"

definition ha_pump :: "('c \<Rightarrow> 'k http_link) \<Rightarrow> model_writer \<Rightarrow> u32 \<Rightarrow> 'c \<Rightarrow> 'c http_api \<times> ('c \<Rightarrow> 'k) \<Rightarrow> 'c http_api \<times> ('c \<Rightarrow> 'k)" where
  "ha_pump link model now c s = (case find_job (Some c) (ha_jobs (fst s)) of None \<Rightarrow> s | Some i \<Rightarrow> ha_pump_index link model now i s)"

definition ha_pump_all :: "('c \<Rightarrow> 'k http_link) \<Rightarrow> model_writer \<Rightarrow> u32 \<Rightarrow> 'c http_api \<times> ('c \<Rightarrow> 'k) \<Rightarrow> 'c http_api \<times> ('c \<Rightarrow> 'k)" where
  "ha_pump_all link model now s = fold (ha_pump_index link model now) [0..<length (ha_jobs (fst s))] s"

definition ha_release :: "'c \<Rightarrow> 'c http_api \<Rightarrow> 'c http_api" where
  "ha_release c api = (case find_job (Some c) (ha_jobs api) of None \<Rightarrow> api | Some i \<Rightarrow> api\<lparr>ha_jobs := (ha_jobs api)[i := rest_job_init]\<rparr>)"

definition resumable_response_count :: "'c http_api \<Rightarrow> nat" where
  "resumable_response_count api = length (filter jb_active (ha_jobs api))"

section \<open>A held response\<close>

text \<open>
  What a response needs of its connection: a write that has room is taken as a whole, the end of a response leaves
  what was written, and an abort may only lose its end. \<open>sent\<close> is everything the connection has accepted.
\<close>

abbreviation header_length :: nat where "header_length \<equiv> length ResumableHeader"

locale rest_link =
  fixes link :: "'k http_link"
    and sent :: "'k \<Rightarrow> string"
    and live :: "'k \<Rightarrow> bool"
  assumes write_room: "live k \<Longrightarrow> length d \<le> hl_room link k \<Longrightarrow>
      fst (hl_write_once link d k) \<and> sent (snd (hl_write_once link d k)) = sent k @ d \<and> live (snd (hl_write_once link d k))"
    and finish_keeps: "sent (hl_finish link k) = sent k"
    and abort_prefix: "\<exists>v. sent k = sent (hl_abort link k) @ v"

sublocale rest_link \<subseteq> body: rest_connection "hl_room link" "hl_write_once link" "\<lambda>k. drop header_length (sent k)" "\<lambda>k. live k \<and> take header_length (sent k) = ResumableHeader"
proof
  fix k and d :: string
  assume k: "live k \<and> take header_length (sent k) = ResumableHeader" and d: "length d \<le> hl_room link k"
  have "header_length \<le> length (sent k)" using k by (metis length_take min.absorb_iff2 min.commute)
  then show "fst (hl_write_once link d k) \<and> drop header_length (sent (snd (hl_write_once link d k))) = drop header_length (sent k) @ d \<and>
      live (snd (hl_write_once link d k)) \<and> take header_length (sent (snd (hl_write_once link d k))) = ResumableHeader"
    using write_room [of k d] k d by simp
qed

text \<open>Pumps of one response, with what the platform does to the connection before each.\<close>

fun rest_run :: "'k http_link \<Rightarrow> model_writer \<Rightarrow> u32 \<Rightarrow> ('e \<Rightarrow> 'k \<Rightarrow> 'k) \<Rightarrow> ('e \<times> u32) list \<Rightarrow> 'c rest_job \<Rightarrow> 'k \<Rightarrow> rest_result \<times> 'c rest_job \<times> 'k" where
  "rest_run link model timeout drain [] job k = (RestPaused, job, k)"
| "rest_run link model timeout drain ((e, now) # es) job k =
     (case pump_job link model timeout now job (drain e k) of
        (RestPaused, job1, k1) \<Rightarrow> rest_run link model timeout drain es job1 k1
      | r \<Rightarrow> r)"

context rest_link
begin

definition job_at :: "string \<Rightarrow> string \<Rightarrow> int \<Rightarrow> 'c rest_job \<Rightarrow> 'k \<Rightarrow> bool" where
  "job_at doc path now_us job k \<longleftrightarrow> jb_active job \<and> jb_path job = path \<and> jb_now_us job = now_us \<and> live k \<and>
     (if jb_header_sent job then sent k = ResumableHeader @ take (cut_pos (all_cuts doc) (jb_leaves_sent job)) doc \<and>
        cut_ok (all_cuts doc) (jb_leaves_sent job) (jb_structure_crc job)
      else sent k = [] \<and> jb_leaves_sent job = 0)"

lemma job_pass_rest:
  assumes "model (jb_path job) (jb_now_us job) = (Written, doc)"
  shows "job_pass link model job k = (case rest_pass (hl_room link) (hl_write_once link) doc (jb_leaves_sent job) (jb_structure_crc job) k of
    (res, s) \<Rightarrow> (res, job\<lparr>jb_leaves_sent := rk_leaves_sent s, jb_structure_crc := rk_structure_crc s\<rparr>, rk_conn s))"
  using assms by (simp add: job_pass_def rest_pass_def Let_def split: prod.splits bool.splits)

lemma job_header_step:
  assumes "job_at doc path now_us job k" "job_header link now job k = (r, job1, k1)"
  shows "r = RestPaused \<and> job_at doc path now_us job1 k1 \<and> jb_leaves_sent job1 = jb_leaves_sent job \<and>
    (jb_header_sent job \<longrightarrow> job1 = job \<and> k1 = k) \<and> (header_length \<le> hl_room link k \<longrightarrow> jb_header_sent job1)"
proof (cases "\<not> jb_header_sent job \<and> header_length \<le> hl_room link k")
  case True
  then obtain k' where w: "hl_write_once link ResumableHeader k = (True, k')" "sent k' = ResumableHeader" "live k'"
    using write_room [of k ResumableHeader] assms(1) by (cases "hl_write_once link ResumableHeader k") (auto simp: job_at_def)
  then show ?thesis using True assms by (auto simp: job_header_def job_at_def jb_active_def cut_pos_def cut_ok_def)
next
  case False
  then show ?thesis using assms by (auto simp: job_header_def)
qed

lemma job_pass_step:
  assumes "job_at doc path now_us job k" "jb_header_sent job" "model path now_us = (Written, doc)" "job_pass link model job k = (r, job1, k1)"
  shows "(\<exists>v. ResumableHeader @ doc = sent k1 @ v) \<and> (r = RestComplete \<longrightarrow> sent k1 = ResumableHeader @ doc) \<and> (segments_fit doc \<longrightarrow> r \<noteq> RestFailed) \<and>
    (r = RestPaused \<longrightarrow> job_at doc path now_us job1 k1 \<and> jb_header_sent job1 \<and> (jb_leaves_sent job < jb_leaves_sent job1 \<or> hl_room link k < SegmentCapacity))"
proof -
  have j: "jb_active job" "jb_path job = path" "jb_now_us job = now_us" "live k"
    "sent k = ResumableHeader @ take (cut_pos (all_cuts doc) (jb_leaves_sent job)) doc" "cut_ok (all_cuts doc) (jb_leaves_sent job) (jb_structure_crc job)"
    using assms(1,2) by (auto simp: job_at_def)
  obtain res s where p: "rest_pass (hl_room link) (hl_write_once link) doc (jb_leaves_sent job) (jb_structure_crc job) k = (res, s)" by fastforce
  have r: "r = res" "job1 = job\<lparr>jb_leaves_sent := rk_leaves_sent s, jb_structure_crc := rk_structure_crc s\<rparr>" "k1 = rk_conn s"
    using assms(3,4) job_pass_rest [of model job doc k] j(2,3) p by simp_all
  have b: "drop header_length (sent k) = take (cut_pos (all_cuts doc) (jb_leaves_sent job)) doc"
    "live k \<and> take header_length (sent k) = ResumableHeader" using j by simp_all
  note core = body.pass_core [OF j(6) b, unfolded p prod.case, folded r(1,3)]
  have whole: "sent k1 = ResumableHeader @ drop header_length (sent k1)" using core by (metis append_take_drop_id)
  have prefix: "\<exists>v. ResumableHeader @ doc = sent k1 @ v"
  proof -
    from core obtain v where "doc = drop header_length (sent k1) @ v" by blast
    then show ?thesis using whole by (intro exI [of _ v]) (metis append.assoc)
  qed
  have all: "r = RestComplete \<longrightarrow> sent k1 = ResumableHeader @ doc" using core whole by auto
  have on: "job_at doc path now_us job1 k1 \<and> jb_header_sent job1 \<and> (jb_leaves_sent job < jb_leaves_sent job1 \<or> hl_room link k < SegmentCapacity)"
    if paused: "r = RestPaused"
  proof -
    have "drop header_length (sent k1) = take (cut_pos (all_cuts doc) (rk_leaves_sent s)) doc" "cut_ok (all_cuts doc) (rk_leaves_sent s) (rk_structure_crc s)"
      using core paused by simp_all
    then have "job_at doc path now_us job1 k1"
      using core whole j(1-3) assms(2) by (simp add: job_at_def r(2) jb_active_def)
    moreover have "jb_leaves_sent job < rk_leaves_sent s \<or> hl_room link k < SegmentCapacity"
      using pass_progress p r(1) paused by metis
    ultimately show ?thesis using assms(2) by (simp add: r(2))
  qed
  show ?thesis using prefix all on core by blast
qed

text \<open>One pump: the outcomes, and that a pump with enough room makes progress.\<close>

lemma pump_step:
  assumes "job_at doc path now_us job k" "model path now_us = (Written, doc)" "pump_job link model timeout now job k = (r, job1, k1)"
  shows "(\<exists>v. ResumableHeader @ doc = sent k1 @ v) \<and> (r = RestComplete \<longrightarrow> sent k1 = ResumableHeader @ doc) \<and>
    (segments_fit doc \<and> timeout = 0 \<longrightarrow> r \<noteq> RestFailed) \<and>
    (r = RestPaused \<longrightarrow> job_at doc path now_us job1 k1 \<and>
       (jb_header_sent job \<longrightarrow> jb_header_sent job1 \<and> (jb_leaves_sent job < jb_leaves_sent job1 \<or> hl_room link k < SegmentCapacity)) \<and>
       (header_length \<le> hl_room link k \<longrightarrow> jb_header_sent job1))"
proof -
  obtain rh jobh kh where h: "job_header link now job k = (rh, jobh, kh)" using prod_cases3 by blast
  note hs = job_header_step [OF assms(1) h]
  have active: "jb_active job" using assms(1) by (simp add: job_at_def)
  obtain r2 job2 k2 where two: "(if jb_header_sent jobh \<and> rh \<noteq> RestFailed
      then (let (r, j, k') = job_pass link model jobh kh in (r, if jb_leaves_sent j \<noteq> jb_leaves_sent job then j\<lparr>jb_last_progress_ms := now\<rparr> else j, k'))
      else (rh, jobh, kh)) = (r2, job2, k2)" using prod_cases3 by blast
  define r3 where "r3 = (if r2 = RestPaused \<and> timeout \<noteq> 0 \<and> timeout < now - jb_last_progress_ms job2 then RestFailed else r2)"
  have res: "(r, job1, k1) = (case r3 of RestComplete \<Rightarrow> (r3, rest_job_init, hl_finish link k2) | RestFailed \<Rightarrow> (r3, rest_job_init, hl_abort link k2) | RestPaused \<Rightarrow> (r3, job2, k2))"
    using assms(3) active unfolding pump_job_def Let_def h prod.case two [unfolded Let_def] r3_def by simp
  have s: "(\<exists>v. ResumableHeader @ doc = sent k2 @ v) \<and> (r2 = RestComplete \<longrightarrow> sent k2 = ResumableHeader @ doc) \<and> (segments_fit doc \<longrightarrow> r2 \<noteq> RestFailed) \<and>
    (r2 = RestPaused \<longrightarrow> job_at doc path now_us job2 k2 \<and>
       (jb_header_sent job \<longrightarrow> jb_header_sent job2 \<and> (jb_leaves_sent job < jb_leaves_sent job2 \<or> hl_room link k < SegmentCapacity)) \<and>
       (header_length \<le> hl_room link k \<longrightarrow> jb_header_sent job2))"
  proof (cases "jb_header_sent jobh")
    case False
    then have "r2 = RestPaused" "job2 = jobh" "k2 = kh" using two hs by auto
    then show ?thesis using False hs by (auto simp: job_at_def)
  next
    case True
    obtain rp jobp kp where p: "job_pass link model jobh kh = (rp, jobp, kp)" using prod_cases3 by blast
    have eq: "r2 = rp" "k2 = kp" "job2 = (if jb_leaves_sent jobp \<noteq> jb_leaves_sent job then jobp\<lparr>jb_last_progress_ms := now\<rparr> else jobp)"
      using two True hs p by auto
    have at: "job_at doc path now_us (if x then j\<lparr>jb_last_progress_ms := now\<rparr> else j) k' = job_at doc path now_us j k'" for x j k'
      by (simp add: job_at_def jb_active_def)
    have f: "jb_header_sent job2 = jb_header_sent jobp" "jb_leaves_sent job2 = jb_leaves_sent jobp" by (simp_all add: eq(3))
    from hs True have "job_at doc path now_us jobh kh" by simp
    note ps = job_pass_step [OF this True assms(2) p]
    show ?thesis using ps hs unfolding eq(1,2) f unfolding eq(3) at by auto
  qed
  have end_: "sent (hl_finish link k2) = sent k2" "\<exists>v. sent k2 = sent (hl_abort link k2) @ v" by (rule finish_keeps, rule abort_prefix)
  show ?thesis
  proof (cases r3)
    case RestComplete
    then have "r2 = RestComplete" by (auto simp: r3_def split: if_splits)
    then show ?thesis using RestComplete res s end_(1) by simp
  next
    case RestPaused
    then have "r2 = RestPaused" by (auto simp: r3_def split: if_splits)
    then show ?thesis using RestPaused res s by simp
  next
    case RestFailed
    then have "r2 = RestFailed \<or> timeout \<noteq> 0" by (auto simp: r3_def split: if_splits)
    moreover have "\<exists>v. ResumableHeader @ doc = sent (hl_abort link k2) @ v" using s end_(2) by (metis append.assoc)
    ultimately show ?thesis using RestFailed res s by auto
  qed
qed

end

context rest_link
begin

lemma job_at_prefix: "job_at doc path now_us job k \<Longrightarrow> \<exists>v. ResumableHeader @ doc = sent k @ v"
  by (auto simp: job_at_def split: if_splits intro: exI [of _ "drop (cut_pos (all_cuts doc) (jb_leaves_sent job)) doc"])

lemma job_at_drained: "job_at doc path now_us job k \<Longrightarrow> sent k' = sent k \<Longrightarrow> live k' \<Longrightarrow> job_at doc path now_us job k'"
  by (simp add: job_at_def)

lemma run_safe:
  assumes keeps: "\<And>e k. live k \<Longrightarrow> sent (drain e k) = sent k \<and> live (drain e k)" and model: "model path now_us = (Written, doc)"
  shows "job_at doc path now_us job k \<Longrightarrow> rest_run link model timeout drain es job k = (r, job1, k1) \<Longrightarrow>
    (\<exists>v. ResumableHeader @ doc = sent k1 @ v) \<and> (r = RestComplete \<longrightarrow> sent k1 = ResumableHeader @ doc) \<and>
    (segments_fit doc \<and> timeout = 0 \<longrightarrow> r \<noteq> RestFailed)"
proof (induction es arbitrary: job k)
  case Nil
  then show ?case using job_at_prefix by auto
next
  case (Cons e es)
  obtain x now where e: "e = (x, now)" by fastforce
  obtain rp jobp kp where p: "pump_job link model timeout now job (drain x k) = (rp, jobp, kp)" using prod_cases3 by blast
  have "live k" using Cons.prems(1) by (simp add: job_at_def)
  then have "job_at doc path now_us job (drain x k)" using job_at_drained [OF Cons.prems(1)] keeps [of k x] by simp
  note s = pump_step [OF this model p]
  show ?case
  proof (cases rp)
    case RestPaused
    then show ?thesis using s Cons.IH [of jobp kp] Cons.prems(2) e p by simp
  qed (use s Cons.prems(2) e p in auto)
qed

text \<open>A pump with room for a segment renews the time of the last progress before the timeout is examined, so that no timeout ends it.\<close>

lemma job_pass_keeps_progress: "job_pass link model job k = (r, job1, k1) \<Longrightarrow> jb_last_progress_ms job1 = jb_last_progress_ms job"
  by (auto simp: job_pass_def Let_def split: prod.splits bool.splits if_splits)

lemma job_header_progress:
  "job_header link now job k = (r, job1, k1) \<Longrightarrow> \<not> jb_header_sent job \<Longrightarrow> jb_header_sent job1 \<Longrightarrow> jb_last_progress_ms job1 = now"
  by (auto simp: job_header_def split: prod.splits bool.splits if_splits)

lemma pump_progress:
  assumes "job_at doc path now_us job k" "model path now_us = (Written, doc)" "header_length \<le> hl_room link k" "SegmentCapacity \<le> hl_room link k"
  shows "pump_job link model timeout now job k = pump_job link model 0 now job k"
proof -
  obtain rh jobh kh where h: "job_header link now job k = (rh, jobh, kh)" using prod_cases3 by blast
  note hs = job_header_step [OF assms(1) h]
  obtain rp jobp kp where p: "job_pass link model jobh kh = (rp, jobp, kp)" using prod_cases3 by blast
  define job2 where "job2 = (if jb_leaves_sent jobp \<noteq> jb_leaves_sent job then jobp\<lparr>jb_last_progress_ms := now\<rparr> else jobp)"
  have sent: "jb_header_sent jobh" "job_at doc path now_us jobh kh" "rh \<noteq> RestFailed" using hs assms(3) by simp_all
  have "jb_last_progress_ms job2 = now" if paused: "rp = RestPaused"
  proof (cases "jb_header_sent job")
    case True
    then have "jb_leaves_sent job < jb_leaves_sent jobp" using job_pass_step [OF sent(2,1) assms(2) p] paused hs assms(4) by auto
    then show ?thesis by (simp add: job2_def)
  next
    case False
    then have "jb_last_progress_ms jobp = now" using job_header_progress [OF h] job_pass_keeps_progress [OF p] sent(1) by simp
    then show ?thesis by (simp add: job2_def)
  qed
  then have "\<not> (rp = RestPaused \<and> timeout \<noteq> 0 \<and> timeout < now - jb_last_progress_ms job2)" by auto
  then show ?thesis using sent unfolding pump_job_def Let_def h prod.case p job2_def by (auto split: if_splits)
qed

lemma run_completes:
  assumes keeps: "\<And>e k. live k \<Longrightarrow> sent (drain e k) = sent k \<and> live (drain e k)" and model: "model path now_us = (Written, doc)"
    and room: "\<And>e k. live k \<Longrightarrow> SegmentCapacity \<le> hl_room link (drain e k)" and fit: "segments_fit doc"
  shows "job_at doc path now_us job k \<Longrightarrow> length (all_cuts doc) - jb_leaves_sent job + (if jb_header_sent job then 0 else 1) < length es \<Longrightarrow>
    fst (rest_run link model timeout drain es job k) = RestComplete"
proof (induction es arbitrary: job k)
  case (Cons e es)
  obtain x now where e: "e = (x, now)" by fastforce
  obtain rp jobp kp where p: "pump_job link model 0 now job (drain x k) = (rp, jobp, kp)" using prod_cases3 by blast
  have "live k" using Cons.prems(1) by (simp add: job_at_def)
  then have at: "job_at doc path now_us job (drain x k)" using job_at_drained [OF Cons.prems(1)] keeps [of k x] by simp
  note s = pump_step [OF at model p]
  have live: "live k" using Cons.prems(1) by (simp add: job_at_def)
  have "header_length \<le> SegmentCapacity" by (simp add: ResumableHeader_def)
  then have h: "header_length \<le> hl_room link (drain x k)" "SegmentCapacity \<le> hl_room link (drain x k)" using room [OF live, of x] by simp_all
  have q: "pump_job link model timeout now job (drain x k) = (rp, jobp, kp)" using pump_progress [where model = model, OF at model h] p by metis
  show ?case
  proof (cases rp)
    case RestPaused
    then have j: "job_at doc path now_us jobp kp" "jb_header_sent jobp" "jb_header_sent job \<longrightarrow> jb_leaves_sent job < jb_leaves_sent jobp" using s h by auto
    have "jb_leaves_sent jobp \<le> length (all_cuts doc)" using j(1,2) by (simp add: job_at_def cut_ok_def)
    moreover have "\<not> jb_header_sent job \<longrightarrow> jb_leaves_sent job = 0" using Cons.prems(1) by (simp add: job_at_def)
    ultimately have "length (all_cuts doc) - jb_leaves_sent jobp + (if jb_header_sent jobp then 0 else 1) < length es"
      using Cons.prems(2) j(2,3) by (auto split: if_splits)
    then show ?thesis using Cons.IH [OF j(1)] RestPaused e q by simp
  qed (use s fit e q in auto)
qed simp

end

section \<open>Held responses over WiFi\<close>

text \<open>The connection with its WiFi client. The end of a response leaves the connection open until the ring has drained; an abort closes it.\<close>

type_synonym 'w wifi_link = "'w wifi_env \<times> 'w wifi_conn"

definition wifi_link :: "client_limits \<Rightarrow> 'w wifi_link http_link" where
  "wifi_link cm = \<lparr>hl_valid = (\<lambda>k. wc_valid (fst k) (snd k)),
     hl_write = (\<lambda>d k. (int (fst (wc_write (fst k) d (snd k))), fst k, snd (wc_write (fst k) d (snd k)))),
     hl_room = (\<lambda>k. frame_room cm tx_capacity (wc_size (snd k))), hl_hold = (\<lambda>k. (True, k)), hl_finish = id,
     hl_abort = (\<lambda>k. (fst k, wc_close (fst k) (snd k)))\<rparr>"

definition wifi_text :: "'w wifi_link \<Rightarrow> string" where
  "wifi_text k = map (\<lambda>b. char_of_octet b) (wc_accepted (snd k))"

definition wifi_live :: "'w wifi_link \<Rightarrow> bool" where
  "wifi_live k \<longleftrightarrow> takes_at_most (fst k) \<and> wc_inv (snd k) \<and> wc_active (snd k)"

definition wifi_drain :: "tx_op list \<Rightarrow> 'w wifi_link \<Rightarrow> 'w wifi_link" where
  "wifi_drain ops k = (fst k, snd (wc_run (fst k) (filter (\<lambda>op. \<forall>d. op \<noteq> TxWrite d) ops) (snd k)))"

lemma text_of_octets: "map ((\<lambda>b. char_of_octet b) \<circ> (\<lambda>c. octet_of c)) d = d"
  by (induction d) simp_all

interpretation wifi: rest_link "wifi_link cm" wifi_text wifi_live for cm
proof
  fix k :: "'a wifi_link" and d :: string
  assume k: "wifi_live k" and d: "length d \<le> hl_room (wifi_link cm) k"
  have t: "takes_at_most (fst k)" "wc_inv (snd k)" "wc_active (snd k)" using k by (simp_all add: wifi_live_def)
  note w = wc_write_result [OF t(1,2), of "octets d"]
  have "length d \<le> tx_free (snd k)" using d frame_room_le [of cm tx_capacity "wc_size (snd k)"] by (simp add: wifi_link_def tx_free_def)
  then have "fst (wc_write (fst k) (octets d) (snd k)) = length d" using w(4) w(5) [OF t(3)] by simp
  then show "fst (hl_write_once (wifi_link cm) d k) \<and> wifi_text (snd (hl_write_once (wifi_link cm) d k)) = wifi_text k @ d \<and>
      wifi_live (snd (hl_write_once (wifi_link cm) d k))"
    using w t by (simp add: hl_write_once_def wifi_link_def wifi_text_def wifi_live_def text_of_octets split: prod.splits)
next
  fix k :: "'a wifi_link"
  show "wifi_text (hl_finish (wifi_link cm) k) = wifi_text k" by (simp add: wifi_link_def)
  show "\<exists>v. wifi_text k = wifi_text (hl_abort (wifi_link cm) k) @ v"
    by (simp add: wifi_link_def wifi_text_def wc_close_def wc_accepted_def wc_queue_def)
qed

lemma wc_run_active: "takes_at_most env \<Longrightarrow> wc_inv c \<Longrightarrow> wc_active (snd (wc_run env ops c)) = wc_active c"
proof (induction ops arbitrary: c)
  case (Cons op ops)
  show ?case
  proof (cases op)
    case (TxWrite src)
    have "snd (wc_run env (op # ops) c) = snd (wc_run env ops (snd (wc_write env src c)))" using TxWrite by (simp split: prod.splits)
    then show ?thesis using Cons wc_write_result(1,3) [OF Cons.prems, of src] by simp
  next
    case TxFlush
    then show ?thesis using Cons flush_output_result(1,4) [OF Cons.prems] by simp
  next
    case (TxRead n)
    have "wc_active (snd (wc_read env n c)) = wc_active c" by (simp add: wc_read_def split: prod.splits)
    then show ?thesis using TxRead Cons wc_read_tx(1) [of c env n] by simp
  qed
qed simp

lemma wc_run_no_write: "fst (wc_run env (filter (\<lambda>op. \<forall>d. op \<noteq> TxWrite d) ops) c) = []"
proof (induction ops arbitrary: c)
  case (Cons op ops)
  then show ?case by (cases op) simp_all
qed simp

lemma fst_wifi_drain [simp]: "fst (wifi_drain ops k) = fst k"
  by (simp add: wifi_drain_def)

lemma wifi_drain_keeps: "wifi_live k \<Longrightarrow> wifi_text (wifi_drain ops k) = wifi_text k \<and> wifi_live (wifi_drain ops k)"
  using wc_run_accepted [of "fst k" "snd k" "filter (\<lambda>op. \<forall>d. op \<noteq> TxWrite d) ops"] wc_run_active [of "fst k" "snd k" "filter (\<lambda>op. \<forall>d. op \<noteq> TxWrite d) ops"]
    wc_run_no_write [of "fst k" ops "snd k"]
  by (simp add: wifi_live_def wifi_drain_def wifi_text_def)

text \<open>A new job of a connection.\<close>

definition new_job :: "'c \<Rightarrow> string \<Rightarrow> int \<Rightarrow> u32 \<Rightarrow> 'c rest_job" where
  "new_job c path now_us now_ms = rest_job_init\<lparr>jb_connection := Some c, jb_path := path, jb_now_us := now_us, jb_last_progress_ms := now_ms\<rparr>"

lemma new_job_at: "wifi_live k \<Longrightarrow> wifi_text k = [] \<Longrightarrow> wifi.job_at doc path now_us (new_job c path now_us now_ms) k"
  by (simp add: wifi.job_at_def new_job_def rest_job_init_def jb_active_def)

text \<open>
  C3: A REST response that does not fit the transmit buffer is written in passes, each regenerated from the model, with any flushing and
  reading of the connection between them. For a model that does not change, what the connection has accepted is at all times a prefix of the header followed by the document; when the response is
  finished it is exactly that, no octet lost or repeated; and where every leaf with the structure before it fits a segment and no timeout is configured, the response is never aborted.
\<close>

theorem rest_response_resumed:
  assumes "wifi_live k" "wifi_text k = []" "model path now_us = (Written, doc)"
    and "rest_run (wifi_link cm) model timeout wifi_drain es (new_job c path now_us now_ms) k = (r, job, k1)"
  shows "(\<exists>v. ResumableHeader @ doc = wifi_text k1 @ v) \<and> (r = RestComplete \<longrightarrow> wifi_text k1 = ResumableHeader @ doc) \<and>
    (segments_fit doc \<and> timeout = 0 \<longrightarrow> r \<noteq> RestFailed)"
  using wifi.run_safe [OF wifi_drain_keeps assms(3) new_job_at [OF assms(1,2)] assms(4)] .

text \<open>A WiFi client that is connected and takes what it is given, so that a flush empties the ring.\<close>

definition takes_all :: "'w wifi_env \<Rightarrow> bool" where
  "takes_all env \<longleftrightarrow> (\<forall>d w. wi_connected env w \<and> fst (wi_write env d w) = length d)"

lemma flush_loop_empties: "takes_all env \<Longrightarrow> wc_inv c \<Longrightarrow> wc_size (snd (flush_loop env n c)) = 0"
proof (induction env n c rule: flush_loop.induct)
  case (1 env flushed c)
  define n where "n = min (contiguous_output_size c) tx_flush_chunk"
  define chunk where "chunk = take n (drop (wc_head c) (wc_tx c))"
  define c1 where "c1 = c\<lparr>wc_client := snd (wi_write env chunk (wc_client c))\<rparr>"
  define c2 where "c2 = pop_output n (c1\<lparr>wc_taken := wc_taken c @ take n chunk\<rparr>)"
  have fit: "n \<le> length (drop (wc_head c) (wc_tx c))" using "1.prems"(2) by (auto simp: n_def contiguous_output_size_def wc_inv_def)
  have w: "fst (wi_write env chunk (wc_client c)) = n" using "1.prems"(1) fit by (simp add: takes_all_def chunk_def)
  show ?case
  proof (cases "0 < wc_size c")
    case False
    then show ?thesis by (subst flush_loop.simps) simp
  next
    case True
    then have pos: "contiguous_output_size c \<noteq> 0" "n \<noteq> 0" using "1.prems"(2) by (auto simp: n_def contiguous_output_size_def wc_inv_def)
    have con: "wi_connected env (wc_client c)" using "1.prems"(1) by (simp add: takes_all_def)
    have step: "flush_loop env flushed c = flush_loop env (flushed + n) c2"
      using True con pos w by (subst flush_loop.simps) (simp add: Let_def n_def [symmetric] chunk_def [symmetric] c1_def c2_def)
    have inv: "wc_inv (c1\<lparr>wc_taken := wc_taken c @ take n chunk\<rparr>)" using "1.prems"(2) by (simp add: wc_inv_def c1_def)
    have "wc_size (snd (flush_loop env (flushed + n) c2)) = 0"
      using "1.IH" [OF conjI [OF True con] n_def pos(1) chunk_def _ c1_def pos(2) c2_def _ "1.prems"(1)] w pop_output_result(1) [OF inv, of n]
      by (simp add: c2_def)
    then show ?thesis using step by simp
  qed
qed

lemma wifi_drained_room:
  assumes "takes_all (fst k)" "wifi_live k" "SegmentCapacity \<le> frame_room cm tx_capacity 0"
  shows "SegmentCapacity \<le> hl_room (wifi_link cm) (wifi_drain [TxFlush] k)"
proof -
  have "wc_size (snd (flush_output (fst k) (snd k))) = 0"
    using assms flush_loop_empties [of "fst k" "snd k" 0] by (auto simp: flush_output_def wifi_live_def)
  then show ?thesis using assms(3) by (simp add: wifi_link_def wifi_drain_def)
qed

interpretation wifi_fast: rest_link "wifi_link cm" wifi_text "\<lambda>k. wifi_live k \<and> takes_all (fst k)" for cm
proof
  fix k :: "'a wifi_link" and d :: string
  assume k: "wifi_live k \<and> takes_all (fst k)" and d: "length d \<le> hl_room (wifi_link cm) k"
  have "fst (snd (hl_write_once (wifi_link cm) d k)) = fst k" by (simp add: hl_write_once_def wifi_link_def)
  then show "fst (hl_write_once (wifi_link cm) d k) \<and> wifi_text (snd (hl_write_once (wifi_link cm) d k)) = wifi_text k @ d \<and>
      wifi_live (snd (hl_write_once (wifi_link cm) d k)) \<and> takes_all (fst (snd (hl_write_once (wifi_link cm) d k)))"
    using wifi.write_room [of k d cm] k d by simp
qed (use wifi.finish_keeps wifi.abort_prefix in auto)

text \<open>
  C11: A held REST response finishes, whatever timeout is configured and whatever the clock reads: over a WiFi client that stays connected and takes what it is given,
  with a client limit of at least a segment, and for a model that does not change and a document whose segments fit, two pumps more than the document
  has leaves are enough, each after a flush of the connection. Every such pump renews the time of the last progress, so that the timeout never ends the response.
\<close>

theorem rest_response_completes:
  fixes c :: 'c and k :: "'w wifi_link"
  assumes "wifi_live k" "wifi_text k = []" "takes_all (fst k)" "model path now_us = (Written, doc)" "segments_fit doc"
    and "SegmentCapacity \<le> frame_room cm tx_capacity 0" "length (all_cuts doc) + 2 \<le> length es" "list_all (\<lambda>e. fst e = [TxFlush]) es"
  shows "fst (rest_run (wifi_link cm) model timeout wifi_drain es (new_job c path now_us now_ms) k) = RestComplete"
proof -
  define fs where "fs = map (\<lambda>e. ((), snd e)) es"
  have same: "list_all (\<lambda>e. fst e = [TxFlush]) es \<Longrightarrow>
      rest_run (wifi_link cm) model timeout wifi_drain es job k = rest_run (wifi_link cm) model timeout (\<lambda>u :: unit. wifi_drain [TxFlush]) (map (\<lambda>e. ((), snd e)) es) job k" for es and k :: "'w wifi_link" and job :: "'c rest_job"
    by (induction es arbitrary: job k) (auto split: prod.splits rest_result.splits)
  have keeps: "\<And>(u :: unit) k. wifi_live k \<and> takes_all (fst k) \<Longrightarrow>
      wifi_text (wifi_drain [TxFlush] k) = wifi_text k \<and> (wifi_live (wifi_drain [TxFlush] k) \<and> takes_all (fst (wifi_drain [TxFlush] k)))"
    by (simp add: wifi_drain_keeps)
  have room: "\<And>(u :: unit) k. wifi_live k \<and> takes_all (fst k) \<Longrightarrow> SegmentCapacity \<le> hl_room (wifi_link cm) (wifi_drain [TxFlush] k)"
    using wifi_drained_room assms(6) by blast
  have at: "wifi_fast.job_at doc path now_us (new_job c path now_us now_ms) k"
    using assms(1-3) by (simp add: wifi_fast.job_at_def new_job_def rest_job_init_def jb_active_def)
  have "length (all_cuts doc) - jb_leaves_sent (new_job c path now_us now_ms) + (if jb_header_sent (new_job c path now_us now_ms) then 0 else 1) < length fs"
    using assms(7) by (simp add: fs_def new_job_def rest_job_init_def)
  from wifi_fast.run_completes [where drain = "\<lambda>u :: unit. wifi_drain [TxFlush]" and model = model and path = path and now_us = now_us, OF keeps assms(4) room assms(5) at this] show ?thesis
    using same [OF assms(8)] by (simp add: fs_def)
qed

text \<open>A WiFi client that takes everything, a small document, and the limits of the embedded target.\<close>

definition open_wifi :: "unit wifi_env" where
  "open_wifi = \<lparr>wi_up = (\<lambda>w. True), wi_connected = (\<lambda>w. True), wi_available = (\<lambda>w. 0), wi_read = (\<lambda>w. (-1, w)), wi_peek = (\<lambda>w. -1),
     wi_write = (\<lambda>d w. (length d, w)), wi_stop = id\<rparr>"

definition open_link :: "unit wifi_link" where
  "open_link = (open_wifi, snd (wc_attach open_wifi () (wc_init ())))"

definition small_doc :: string where "small_doc = ''[1,2]''"

definition small_model :: model_writer where
  "small_model path now = (if path = ''vessels'' then (Written, small_doc) else (NotFound, []))"

definition embedded_limits :: client_limits where
  "embedded_limits = \<lparr>cm_json_buffer_size = 384, cm_max_client_queue_bytes = 0, cm_high_water = 768\<rparr>"

lemma open_link_live: "wifi_live open_link" "wifi_text open_link = []" "takes_all (fst open_link)"
  using wc_attach_inv [of "wc_init ()" open_wifi "()"]
  by (simp_all add: open_link_def wifi_live_def wifi_text_def takes_all_def takes_at_most_def open_wifi_def wc_inv_def wc_init_def)

lemma small_doc_cuts: "segments_fit small_doc" "length (all_cuts small_doc) = 2"
  by code_simp+

theorem rest_response_resumed_witness:
  "\<exists>r job k1. rest_run (wifi_link embedded_limits) small_model 0 wifi_drain [([TxFlush], 1), ([], 2)] (new_job (7 :: nat) ''vessels'' 5 0) open_link = (r, job, k1) \<and>
     wifi_live open_link \<and> small_model ''vessels'' 5 = (Written, small_doc) \<and> segments_fit small_doc \<and> r \<noteq> RestFailed"
proof -
  obtain r job k1 where run: "rest_run (wifi_link embedded_limits) small_model 0 wifi_drain [([TxFlush], 1), ([], 2)] (new_job (7 :: nat) ''vessels'' 5 0) open_link = (r, job, k1)"
    using prod_cases3 by blast
  have m: "small_model ''vessels'' 5 = (Written, small_doc)" by (simp add: small_model_def)
  from rest_response_resumed [where model = small_model and path = "''vessels''" and now_us = 5, OF open_link_live(1,2) m run] run m open_link_live(1) small_doc_cuts(1) show ?thesis by blast
qed

theorem rest_response_completes_witness:
  "SegmentCapacity \<le> frame_room embedded_limits tx_capacity 0 \<and> segments_fit small_doc \<and>
   fst (rest_run (wifi_link embedded_limits) small_model 15000 wifi_drain (map (\<lambda>t. ([TxFlush], t)) [20000, 40000, 60000, 80000]) (new_job (7 :: nat) ''vessels'' 5 0) open_link) = RestComplete"
proof -
  have m: "small_model ''vessels'' 5 = (Written, small_doc)" by (simp add: small_model_def)
  have room: "SegmentCapacity \<le> frame_room embedded_limits tx_capacity 0" by (simp add: frame_room_def embedded_limits_def)
  show ?thesis using rest_response_completes [where model = small_model and path = "''vessels''" and now_us = 5, OF open_link_live m small_doc_cuts(1) room, of "map (\<lambda>t. ([TxFlush], t)) [20000, 40000, 60000, 80000]"] small_doc_cuts room
    by (simp add: list_all_iff)
qed

section \<open>Answers at once\<close>

interpretation wifi_sink: byte_sink "hl_write (wifi_link cm)" "\<lambda>k. wc_accepted (snd k)" wifi_live for cm
  by unfold_locales (simp_all add: wifi_link_def wifi_live_def wc_write_result)

lemma wifi_write_all:
  assumes "wifi_live k" "hl_write_all (wifi_link cm) d k = (ok, k1)"
  shows "wifi_live k1 \<and> (ok \<longrightarrow> wifi_text k1 = wifi_text k @ d) \<and> (\<exists>n. wifi_text k1 = wifi_text k @ take n d)"
proof -
  note r = wifi_sink.write_all_loop_prefix [OF assms(1), of cm "octets d"]
  show ?thesis
  proof (cases "length d = 0 \<or> \<not> hl_valid (wifi_link cm) k")
    case True
    then have "ok = False" "k1 = k" using assms(2) by (auto simp: hl_write_all_def write_all_def split: if_splits)
    then show ?thesis using assms(1) by (auto intro: exI [of _ 0])
  next
    case False
    then have w: "write_all_loop (hl_write (wifi_link cm)) (octets d) k = (ok, k1)" using assms(2) by (auto simp: hl_write_all_def write_all_def split: if_splits)
    show ?thesis
    proof (cases ok)
      case True
      then have "wifi_text k1 = wifi_text k @ d" using r w by (simp add: wifi_text_def text_of_octets)
      then show ?thesis using r w by (auto intro: exI [of _ "length d"])
    next
      case False
      then obtain n where "wc_accepted (snd k1) = wc_accepted (snd k) @ take n (octets d)" using r w by auto
      then have "wifi_text k1 = wifi_text k @ take n d" by (simp add: wifi_text_def take_map text_of_octets)
      then show ?thesis using False r w by auto
    qed
  qed
qed

lemma sink_flush_text:
  assumes "wifi_live k" "http_sink_flush (wifi_link cm) (b, k) = (ok, b1, k1)"
  shows "wifi_live k1 \<and> (ok \<longrightarrow> b1 = [] \<and> wifi_text k1 = wifi_text k @ b)"
  using assms wifi_write_all [OF assms(1), of cm b] by (auto simp: http_sink_flush_def split: if_splits prod.splits bool.splits)

lemma http_sink_append_Nil [simp]: "http_sink_append link [] s = (True, s)"
  by (subst http_sink_append.simps) simp

lemma sink_append_text:
  "wifi_live (snd s) \<Longrightarrow> length (fst s) < sink_buffer \<Longrightarrow> http_sink_append (wifi_link cm) doc s = (ok, b1, k1) \<Longrightarrow>
   wifi_live k1 \<and> (ok \<longrightarrow> wifi_text k1 @ b1 = wifi_text (snd s) @ fst s @ doc \<and> length b1 < sink_buffer)"
proof (induction "length doc" arbitrary: doc s rule: less_induct)
  case less
  obtain b k where s: "s = (b, k)" by (rule prod.exhaust)
  show ?case
  proof (cases "doc = []")
    case True
    then show ?thesis using less.prems s by auto
  next
    case False
    define n where "n = min (length doc) (sink_buffer - length b)"
    have n: "0 < n" "length (drop n doc) < length doc" using False less.prems(2) s by (auto simp: n_def)
    have step: "http_sink_append (wifi_link cm) doc s =
        (if length (b @ take n doc) = sink_buffer
         then (case http_sink_flush (wifi_link cm) (b @ take n doc, k) of (False, s2) \<Rightarrow> (False, s2) | (True, s2) \<Rightarrow> http_sink_append (wifi_link cm) (drop n doc) s2)
         else http_sink_append (wifi_link cm) (drop n doc) (b @ take n doc, k))"
      using False less.prems(2) s n_def [symmetric] by (subst http_sink_append.simps) (simp only: Let_def fst_conv snd_conv, simp)
    have all: "b @ doc = (b @ take n doc) @ drop n doc" by simp
    show ?thesis
    proof (cases "length (b @ take n doc) = sink_buffer")
      case True
      obtain okf bf kf where f: "http_sink_flush (wifi_link cm) (b @ take n doc, k) = (okf, bf, kf)" using prod_cases3 by blast
      have live: "wifi_live k" using less.prems(1) s by simp
      note ft = sink_flush_text [OF live f]
      show ?thesis
      proof (cases okf)
        case no: False
        then show ?thesis using step True f ft less.prems(3) by simp
      next
        case yes: True
        then have "http_sink_append (wifi_link cm) (drop n doc) (bf, kf) = (ok, b1, k1)" using step True f less.prems(3) by simp
        from less.hyps [OF n(2) _ _ this] ft yes s all show ?thesis by (auto simp del: append_take_drop_id)
      qed
    next
      case short: False
      moreover have "length (b @ take n doc) \<le> sink_buffer" using less.prems(2) s by (simp add: n_def)
      ultimately have lt: "length (fst (b @ take n doc, k)) < sink_buffer" by simp
      have "http_sink_append (wifi_link cm) (drop n doc) (b @ take n doc, k) = (ok, b1, k1)" using step short less.prems(3) by simp
      from less.hyps [OF n(2) _ lt this] less.prems(1) s show ?thesis by simp
    qed
  qed
qed

text \<open>A response: its status, type, further header lines and body.\<close>

definition http_response :: "string \<Rightarrow> bool" where
  "http_response t \<longleftrightarrow> (\<exists>status ctype extra body. t = http_response_header status ctype (length body) extra @ body)"

lemma send_http_response_text:
  assumes "wifi_live k" "send_http_response (wifi_link cm) status ctype body extra k = (True, k1)"
  shows "wifi_text k1 = wifi_text k @ http_response_header status ctype (length body) extra @ body"
proof -
  let ?h = "http_response_header status ctype (length body) extra"
  obtain kh where h: "hl_write_all (wifi_link cm) ?h k = (True, kh)" and b: "if length body = 0 then k1 = kh else hl_write_all (wifi_link cm) body kh = (True, k1)"
    using assms(2) by (auto simp: send_http_response_def Let_def split: if_splits prod.splits bool.splits)
  from wifi_write_all [OF assms(1) h] have kh: "wifi_live kh" "wifi_text kh = wifi_text k @ ?h" by simp_all
  show ?thesis using b kh(2) wifi_write_all [OF kh(1), of cm body True k1] by (auto split: if_splits)
qed

lemma send_counted_text:
  assumes "wifi_live k" "model path now_us = (Written, doc)" "send_counted (wifi_link cm) model path now_us n k = (True, k1)"
  shows "wifi_text k1 = wifi_text k @ http_response_header ''200 OK'' json_type (length doc) [] @ doc"
proof -
  let ?h = "http_response_header ''200 OK'' json_type n []"
  obtain kh s where h: "hl_write_all (wifi_link cm) ?h k = (True, kh)" and a: "http_sink_append (wifi_link cm) doc ([], kh) = (True, s)" and n: "length doc = n"
    and f: "fst (http_sink_flush (wifi_link cm) s)" "k1 = snd (snd (http_sink_flush (wifi_link cm) s))"
    using assms(2,3) by (auto simp: send_counted_def Let_def split: if_splits prod.splits bool.splits)
  obtain b ks where s: "s = (b, ks)" by (rule prod.exhaust)
  from wifi_write_all [OF assms(1) h] have kh: "wifi_live kh" "wifi_text kh = wifi_text k @ ?h" by simp_all
  from sink_append_text [of "([], kh)" cm doc True b ks] kh(1) a s have ks: "wifi_live ks" "wifi_text ks @ b = wifi_text kh @ doc" by simp_all
  obtain okf bf kf where fl: "http_sink_flush (wifi_link cm) (b, ks) = (okf, bf, kf)" using prod_cases3 by blast
  from sink_flush_text [OF ks(1) fl] f s fl have "wifi_text k1 = wifi_text ks @ b" by simp
  then show ?thesis using ks(2) kh(2) n by simp
qed

lemma rest_response_text:
  assumes "wifi_live k" "send_signalk_rest_response (wifi_link cm) model c path now_us now_ms jobs k = (True, jobs1, k1)"
  shows "jobs1 = jobs \<and> (\<exists>t. http_response t \<and> wifi_text k1 = wifi_text k @ t) \<or>
    k1 = k \<and> (\<exists>i < length jobs. \<not> jb_active (jobs ! i) \<and> jb_connection (jobs1 ! i) = Some c \<and> jobs1 = jobs[i := jobs1 ! i])"
proof -
  obtain counted doc where m: "model path now_us = (counted, doc)" by fastforce
  have answer: "(\<exists>t. http_response t \<and> wifi_text k1 = wifi_text k @ t)" if "send_http_response (wifi_link cm) status ctype body extra k = (True, k1)" for status ctype body extra
    using send_http_response_text [OF assms(1) that] by (auto simp: http_response_def)
  have counted: "(\<exists>t. http_response t \<and> wifi_text k1 = wifi_text k @ t)" if "model path now_us = (Written, doc)" "send_counted (wifi_link cm) model path now_us n k = (True, k1)" for n
    using send_counted_text [OF assms(1) that] by (auto simp: http_response_def)
  show ?thesis
  proof (cases "counted = Written \<and> hl_room (wifi_link cm) k < length doc + length ResumableHeader \<and> length path < MaxPathLength \<and> find_job None jobs \<noteq> None")
    case True
    then obtain i where i: "find_job None jobs = Some i" by blast
    note f = index_where_SomeD [OF i [unfolded find_job_def]]
    have "hl_hold (wifi_link cm) k = (True, k)" by (simp add: wifi_link_def)
    then have "jobs1 = jobs[i := (jobs ! i)\<lparr>jb_connection := Some c, jb_path := path, jb_now_us := now_us, jb_last_progress_ms := now_ms\<rparr>]" "k1 = k"
      using assms(2) True m i by (simp_all add: send_signalk_rest_response_def)
    then show ?thesis using f by (intro disjI2) (auto simp: jb_active_def)
  next
    case False
    then show ?thesis using assms(2) m answer counted
      by (auto simp: send_signalk_rest_response_def split: model_write_result.splits if_splits prod.splits option.splits bool.splits)
  qed
qed

text \<open>
  C28: A request that the HTTP interface accepts is answered in one of two ways: a complete response with the length of its body is written to the
  connection, or nothing is written and a free job is taken over for the connection, to be continued as the client drains.
\<close>

theorem http_request_answered:
  assumes "wifi_live k" "handle_request (wifi_link cm) model c header now_us now_ms api k = (True, api1, k1)"
  shows "api1 = api \<and> (\<exists>t. http_response t \<and> wifi_text k1 = wifi_text k @ t) \<or>
    k1 = k \<and> (\<exists>i < length (ha_jobs api). \<not> jb_active (ha_jobs api ! i) \<and> jb_connection (ha_jobs api1 ! i) = Some c \<and>
       ha_jobs api1 = (ha_jobs api)[i := ha_jobs api1 ! i])"
proof -
  have answer: "api1 = api \<and> (\<exists>t. http_response t \<and> wifi_text k1 = wifi_text k @ t)"
    if "(case send_http_response (wifi_link cm) status ctype body extra k of (ok, k') \<Rightarrow> (ok, api, k')) = (True, api1, k1)" for status ctype body extra
    using that send_http_response_text [OF assms(1), of cm status ctype body extra k1] by (auto simp: http_response_def split: prod.splits)
  have discovery: "api1 = api \<and> (\<exists>t. http_response t \<and> wifi_text k1 = wifi_text k @ t)"
    if "(case send_discovery (wifi_link cm) api header k of (ok, k') \<Rightarrow> (ok, api, k')) = (True, api1, k1)"
  proof -
    have d: "send_discovery (wifi_link cm) api header k = (True, k1)" "api1 = api" using that by (auto split: prod.splits)
    then have "\<exists>status body. send_http_response (wifi_link cm) status json_type body [] k = (True, k1)"
      unfolding send_discovery_def Let_def by (auto split: if_splits prod.splits)
    then obtain status body where "send_http_response (wifi_link cm) status json_type body [] k = (True, k1)" by blast
    from send_http_response_text [OF assms(1) this] d(2) show ?thesis unfolding http_response_def by blast
  qed
  have rest: ?thesis if "(case send_signalk_rest_response (wifi_link cm) model c p now_us now_ms (ha_jobs api) k of (ok, jobs, k') \<Rightarrow> (ok, api\<lparr>ha_jobs := jobs\<rparr>, k')) = (True, api1, k1)" for p
    using that rest_response_text [OF assms(1), of cm model c p now_us now_ms "ha_jobs api"] by (auto split: prod.splits)
  define good where "good r \<longleftrightarrow> (r = (True, api1, k1) \<longrightarrow> ?thesis)" for r
  have branch: "good a \<Longrightarrow> good b \<Longrightarrow> good (if x then a else b)" for a b x by simp
  have a: "good (case send_http_response (wifi_link cm) status ctype body extra k of (ok, k') \<Rightarrow> (ok, api, k'))" for status ctype body extra
    unfolding good_def using answer by blast
  have d: "good (case send_discovery (wifi_link cm) api header k of (ok, k') \<Rightarrow> (ok, api, k'))" unfolding good_def using discovery by blast
  have r: "good (case send_signalk_rest_response (wifi_link cm) model c p now_us now_ms (ha_jobs api) k of (ok, jobs, k') \<Rightarrow> (ok, api\<lparr>ha_jobs := jobs\<rparr>, k'))" for p
    unfolding good_def using rest by blast
  have "good (handle_request (wifi_link cm) model c header now_us now_ms api k)"
  proof (cases "parse_http_request_line header")
    case None
    then show ?thesis using a by (simp add: handle_request_def Let_def)
  next
    case (Some mt)
    obtain verb target where mt: "mt = (verb, target)" by (rule prod.exhaust)
    show ?thesis unfolding handle_request_def Let_def Some mt option.case prod.case by (intro branch a d r)
  qed
  then show ?thesis using assms(2) unfolding good_def by blast
qed

lemma wifi_write_all_fits:
  assumes "wifi_live k" "wc_valid (fst k) (snd k)" "d \<noteq> []" "length d \<le> tx_free (snd k)"
  shows "hl_write_all (wifi_link cm) d k = (True, fst k, snd (wc_write (fst k) (octets d) (snd k)))"
proof -
  have "fst (wc_write (fst k) (octets d) (snd k)) = length d"
    using wc_write_result(4,5) [of "fst k" "snd k" "octets d"] assms by (simp add: wifi_live_def)
  then have w: "hl_write (wifi_link cm) (octets d) k = (int (length d), fst k, snd (wc_write (fst k) (octets d) (snd k)))" by (simp add: wifi_link_def)
  have "hl_valid (wifi_link cm) k" using assms(2) by (simp add: wifi_link_def)
  then show ?thesis using assms(3) w by (simp add: hl_write_all_def write_all_def write_all_loop.simps)
qed

lemma wc_write_open:
  assumes "wc_inv c" "wc_active c" "length d \<le> tx_free c"
  shows "tx_free c - length d \<le> tx_free (snd (wc_write open_wifi d c))"
proof -
  have t: "takes_at_most open_wifi" by (simp add: takes_at_most_def open_wifi_def)
  let ?c = "snd (flush_output open_wifi c)"
  note f = flush_output_result [OF t assms(1)]
  note p = push_output_result(3) [OF f(1), of d]
  have free: "tx_free c \<le> tx_free ?c" using f(3) by (simp add: tx_free_def)
  have "wc_size (snd (push_output d ?c)) = wc_size ?c + length d"
    using arg_cong [OF p, of length] free assms(3) by (simp add: wc_queue_def)
  then show ?thesis using free by (auto simp: wc_write_def tx_free_def)
qed

definition example_api :: "nat http_api" where
  "example_api = \<lparr>ha_jobs = [rest_job_init], ha_port = 3000, ha_signalk_version = None, ha_server_name = None, ha_server_version = None, ha_timeout_ms = 0\<rparr>"

theorem http_request_answered_witness:
  "\<exists>k1. wifi_live open_link \<and> handle_request (wifi_link embedded_limits) small_model 7 ''PING'' 5 0 example_api open_link = (True, example_api, k1) \<and>
     (\<exists>t. http_response t \<and> wifi_text k1 = wifi_text open_link @ t)"
proof -
  let ?l = "wifi_link embedded_limits :: unit wifi_link http_link" and ?b = "message ''Malformed HTTP request''"
  let ?h = "http_response_header ''400 Bad Request'' json_type (length ?b) []"
  have lens: "length ?b = 36" by (simp add: message_def)
  have "length (nat_text 36) = 2" by (simp add: nat_text.simps)
  then have h: "length ?h = 131" by (simp add: http_response_header_def lens)
  have ne: "?h \<noteq> []" "?b \<noteq> []" using h lens by (auto simp del: length_greater_0_conv)
  have valid: "wc_valid (fst open_link) c \<longleftrightarrow> wc_active c" for c by (simp add: wc_valid_def open_link_def open_wifi_def)
  have free: "tx_free (snd open_link) = 1024" by (simp add: tx_free_def open_link_def wc_attach_def Let_def)
  define k1 where "k1 = (fst open_link, snd (wc_write (fst open_link) (octets ?h) (snd open_link)))"
  have w1: "hl_write_all ?l ?h open_link = (True, k1)"
    using wifi_write_all_fits [OF open_link_live(1) _ ne(1), of embedded_limits] valid h free open_link_live(1) by (auto simp: k1_def wifi_live_def)
  have live1: "wifi_live k1" using wifi_write_all [OF open_link_live(1) w1] by simp
  have "tx_free (snd open_link) - 131 \<le> tx_free (snd k1)"
    using wc_write_open [of "snd open_link" "octets ?h"] h free open_link_live(1) by (simp add: k1_def wifi_live_def open_link_def)
  then have "\<exists>k2. hl_write_all ?l ?b k1 = (True, k2)"
    using wifi_write_all_fits [OF live1 _ ne(2), of embedded_limits] live1 free lens valid [of "snd k1"] by (auto simp: k1_def wifi_live_def)
  then obtain k2 where w2: "hl_write_all ?l ?b k1 = (True, k2)" by blast
  have "send_http_response ?l ''400 Bad Request'' json_type ?b [] open_link = (True, k2)"
    using w1 w2 h lens by (simp add: send_http_response_def Let_def)
  then have run: "handle_request ?l small_model 7 ''PING'' 5 0 example_api open_link = (True, example_api, k2)"
    by (simp add: handle_request_def parse_http_request_line_def)
  have "k2 \<noteq> open_link"
  proof
    assume "k2 = open_link"
    moreover have "wifi_text k2 = wifi_text k1 @ ?b" using wifi_write_all [OF live1 w2] by simp
    ultimately show False using open_link_live(2) lens by (metis append_is_Nil_conv length_0_conv zero_neq_numeral)
  qed
  with http_request_answered [OF open_link_live(1) run] run open_link_live(1) show ?thesis by blast
qed

end
