(* ===== verification/Stream_Server.thy ===== *)
theory Stream_Server
  imports Publisher_Sinks Http_Api Websocket_Server
begin

text \<open>
  The client side of the server (\<^verbatim>\<open>signalk_stream_server.hpp\<close>): whole frames to TCP and WebSocket clients, subscriptions, catch-up
  snapshots through the publisher, delta fan-out and the closing of stalled clients. A connection is a state of type \<open>'k\<close> with its operations as a record of functions; what the
  server reads of its configuration is another. The hello text, the time, the snapshot of the model and the pending changes are arguments.
\<close>

section \<open>Frames\<close>

record 'k client_ops =
  co_valid :: "'k \<Rightarrow> bool"
  co_output_size :: "'k \<Rightarrow> nat"
  co_output_capacity :: "'k \<Rightarrow> nat"
  co_write :: "u8 list \<Rightarrow> 'k \<Rightarrow> int \<times> 'k"
  co_close :: "'k \<Rightarrow> 'k"
  co_ws_open :: "'k \<Rightarrow> bool"

record stream_config =
  sg_limits :: client_limits
  sg_chunk :: nat
  sg_timeout_ms :: u32
  sg_tcp_max :: nat
  sg_tcp_allow_rx :: bool
  sg_tcp_allow_tx :: bool
  sg_ws_max :: nat
  sg_ws_allow_rx :: bool
  sg_ws_allow_tx :: bool
  sg_send_current :: bool

definition co_room :: "'k client_ops \<Rightarrow> stream_config \<Rightarrow> 'k \<Rightarrow> nat" where
  "co_room ops g k = frame_room (sg_limits g) (co_output_capacity ops k) (co_output_size ops k)"

definition co_write_whole :: "'k client_ops \<Rightarrow> u8 list \<Rightarrow> 'k \<Rightarrow> bool \<times> 'k" where
  "co_write_whole ops d k = (case co_write ops d k of (n, k1) \<Rightarrow> (n = int (length d), k1))"

definition signalk_text :: "string \<Rightarrow> string" where
  "signalk_text json = rev (dropWhile (\<lambda>c. c = CR \<or> c = LF \<or> c = NUL) (rev json))"

definition frame_header_size :: "nat \<Rightarrow> nat" where
  "frame_header_size n = (if n < 126 then 2 else if n \<le> 65535 then 4 else 10)"

definition write_tcp_frame :: "'k client_ops \<Rightarrow> stream_config \<Rightarrow> string \<Rightarrow> 'k \<Rightarrow> bool \<times> 'k" where
  "write_tcp_frame ops g data k =
     (if data = [] \<or> \<not> co_valid ops k \<or> co_room ops g k < length data then (False, k)
      else co_write_whole ops (octets data) k)"

text \<open>\<^verbatim>\<open>write_text\<close> of the WebSocket protocol handler, on one connection.\<close>

definition ws_write_text :: "'k client_ops \<Rightarrow> stream_config \<Rightarrow> string \<Rightarrow> 'k \<Rightarrow> bool \<times> 'k" where
  "ws_write_text ops g data k =
     (if \<not> co_ws_open ops k \<or> sg_chunk g < length data then (False, k)
      else (case encode_text_frame data (sg_chunk g + 16) of
              None \<Rightarrow> (False, k)
            | Some frame \<Rightarrow> if frame = [] \<or> \<not> co_valid ops k then (False, k) else co_write_whole ops frame k))"

definition write_websocket_frame :: "'k client_ops \<Rightarrow> stream_config \<Rightarrow> string \<Rightarrow> 'k \<Rightarrow> bool \<times> 'k" where
  "write_websocket_frame ops g json k =
     (let data = signalk_text json in
      if data = [] then (False, k)
      else if \<not> co_valid ops k \<or> co_room ops g k < length data + frame_header_size (length data) then (False, k)
      else ws_write_text ops g data k)"

definition websocket_frame_size :: "string \<Rightarrow> nat" where
  "websocket_frame_size json = (let n = length (signalk_text json) in n + frame_header_size n)"

definition StreamPath :: string where "StreamPath = ''/signalk/v1/stream''"

definition is_signalk_stream_resource :: "string \<Rightarrow> bool" where
  "is_signalk_stream_resource resource \<longleftrightarrow> take (length StreamPath) resource = StreamPath \<and>
     (length resource = length StreamPath \<or> resource ! length StreamPath = CHR ''?'')"

datatype stream_scope = ScopeNone | ScopeSelf | ScopeAll

definition websocket_initial_scope :: "string \<Rightarrow> stream_scope" where
  "websocket_initial_scope resource =
     (if query_parameter_equals resource ''subscribe'' ''none'' then ScopeNone
      else if query_parameter_equals resource ''subscribe'' ''all'' then ScopeAll
      else ScopeSelf)"

definition websocket_should_send_current_values :: "string \<Rightarrow> bool" where
  "websocket_should_send_current_values resource \<longleftrightarrow> \<not> query_parameter_equals resource ''sendCachedValues'' ''false''"

section \<open>Delivery to one client\<close>

text \<open>A client: the delivery state of its registry entry and its connection.\<close>

type_synonym 'k client = "stream_delivery_state \<times> 'k"

definition note_queued :: "nat \<Rightarrow> stream_delivery_state \<Rightarrow> stream_delivery_state" where
  "note_queued n st =
     (let queued = uint (ds_queued_since_sample st) + int n
      in st\<lparr>ds_queued_since_sample := (if 0xFFFFFFFF < queued then 0xFFFFFFFF else word_of_int queued)\<rparr>)"

definition deliver_tcp :: "'k client_ops \<Rightarrow> stream_config \<Rightarrow> 'k client sink" where
  "deliver_tcp ops g json cl =
     (case write_tcp_frame ops g json (snd cl) of
        (False, k) \<Rightarrow> (False, fst cl, k)
      | (True, k) \<Rightarrow> (True, note_queued (length json) (fst cl), k))"

definition deliver_websocket :: "'k client_ops \<Rightarrow> stream_config \<Rightarrow> 'k client sink" where
  "deliver_websocket ops g json cl =
     (case write_websocket_frame ops g json (snd cl) of
        (False, k) \<Rightarrow> (False, fst cl, k)
      | (True, k) \<Rightarrow> (True, note_queued (websocket_frame_size json) (fst cl), k))"

definition deliver :: "bool \<Rightarrow> 'k client_ops \<Rightarrow> stream_config \<Rightarrow> 'k client sink" where
  "deliver websocket ops g = (if websocket then deliver_websocket ops g else deliver_tcp ops g)"

definition request_resync :: "stream_delivery_state \<Rightarrow> stream_delivery_state" where
  "request_resync st =
     (if ds_resync st then st\<lparr>ds_resync_again := True\<rparr>
      else st\<lparr>ds_resync := True, ds_resync_again := False, ds_resync_position := 0, ds_resync_value := 0\<rparr>)"

definition request_catch_up :: "u32 \<Rightarrow> stream_delivery_state \<Rightarrow> u32 \<times> stream_delivery_state" where
  "request_catch_up count st = (if \<not> ds_resync st \<and> count < - 1 then count + 1 else count, request_resync st)"

definition stop_stream :: stream_delivery_state where
  "stop_stream = stream_delivery_init"

definition ds_cursor :: "stream_delivery_state \<Rightarrow> cursor" where
  "ds_cursor st = \<lparr>cu_position = unat (ds_resync_position st), cu_value = unat (ds_resync_value st)\<rparr>"

definition ds_set_cursor :: "cursor \<Rightarrow> stream_delivery_state \<Rightarrow> stream_delivery_state" where
  "ds_set_cursor c st = st\<lparr>ds_resync_position := of_nat (cu_position c), ds_resync_value := of_nat (cu_value c)\<rparr>"

text \<open>The state after a snapshot pass.\<close>

definition after_pass :: "bool \<Rightarrow> stream_delivery_state \<Rightarrow> stream_delivery_state" where
  "after_pass complete st =
     (if \<not> complete then st
      else if ds_resync_again st then st\<lparr>ds_resync_again := False, ds_resync_position := 0, ds_resync_value := 0\<rparr>
      else st\<lparr>ds_resync := False\<rparr>)"

definition pump_one ::
  "'k client_ops \<Rightarrow> stream_config \<Rightarrow> snapshot_env \<Rightarrow> string option \<Rightarrow> bool \<Rightarrow> 'k client \<times> 's publisher \<Rightarrow> 'k client \<times> 's publisher" where
  "pump_one ops g env ts websocket cp =
     (let (cl, p) = cp in
      if \<not> ds_resync (fst cl) then cp
      else (case publish_current env (ds_include_other_contexts (fst cl)) ts (deliver websocket ops g) (ds_cursor (fst cl)) (pb_with cl p) of
              (complete, c, p1) \<Rightarrow>
                ((after_pass complete (ds_set_cursor c (fst (pb_sink p1))), snd (pb_sink p1)), pb_with (pb_sink p) p1)))"

definition stalled :: "'k client_ops \<Rightarrow> stream_config \<Rightarrow> u32 \<Rightarrow> 'k client \<Rightarrow> bool \<times> stream_delivery_state" where
  "stalled ops g now cl =
     (let st = fst cl;
          queued = co_output_size ops (snd cl);
          queued32 = (if 2 ^ 32 - 1 < queued then - 1 else of_nat queued) :: u32;
          st1 = (if stream_output_progressed queued32 (ds_last_output_bytes st) (ds_queued_since_sample st) \<or> ds_last_drain_ms st = 0
                 then st\<lparr>ds_last_drain_ms := now\<rparr> else st);
          st2 = st1\<lparr>ds_last_output_bytes := queued32, ds_queued_since_sample := 0\<rparr>
      in (sg_timeout_ms g \<noteq> 0 \<and> queued32 \<noteq> 0 \<and> sg_timeout_ms g < now - ds_last_drain_ms st2, st2))"

section \<open>All clients\<close>

record ('c, 'k) clients =
  cl_tcp :: "'c connection_registry"
  cl_ws :: "'c connection_registry"
  cl_conns :: "'c \<Rightarrow> 'k"
  cl_catch_up_count :: u32
  cl_stalled_close_count :: u32

text \<open>A loop over the entries that satisfy a test; the body may change the entry's delivery state, the connection and a further value.\<close>

fun each_entry :: "('c registry_entry \<Rightarrow> 'k \<Rightarrow> bool) \<Rightarrow> ('c \<Rightarrow> 'k client \<Rightarrow> 'a \<Rightarrow> 'k client \<times> 'a) \<Rightarrow> 'c registry_entry list \<Rightarrow> ('c \<Rightarrow> 'k) \<Rightarrow> 'a \<Rightarrow>
    'c registry_entry list \<times> ('c \<Rightarrow> 'k) \<times> 'a" where
  "each_entry sel f [] conns a = ([], conns, a)"
| "each_entry sel f (e # es) conns a =
     (case en_connection e of
        None \<Rightarrow> (case each_entry sel f es conns a of (es1, conns1, a1) \<Rightarrow> (e # es1, conns1, a1))
      | Some c \<Rightarrow>
          if sel e (conns c)
          then (case f c (en_stream e, conns c) a of
                  (cl, a1) \<Rightarrow> (case each_entry sel f es (conns(c := snd cl)) a1 of
                     (es1, conns1, a2) \<Rightarrow> (e\<lparr>en_stream := fst cl\<rparr> # es1, conns1, a2)))
          else (case each_entry sel f es conns a of (es1, conns1, a1) \<Rightarrow> (e # es1, conns1, a1)))"

definition sel_tx :: "'k client_ops \<Rightarrow> 'c registry_entry \<Rightarrow> 'k \<Rightarrow> bool" where
  "sel_tx ops e k \<longleftrightarrow> co_valid ops k \<and> cf_allow_tx (en_flags e)"

definition sel_valid :: "'k client_ops \<Rightarrow> 'c registry_entry \<Rightarrow> 'k \<Rightarrow> bool" where
  "sel_valid ops e k \<longleftrightarrow> co_valid ops k"

text \<open>Both registries, TCP clients first.\<close>

definition each_client ::
  "('c registry_entry \<Rightarrow> 'k \<Rightarrow> bool) \<Rightarrow> (bool \<Rightarrow> 'c \<Rightarrow> 'k client \<Rightarrow> 'a \<Rightarrow> 'k client \<times> 'a) \<Rightarrow> ('c, 'k) clients \<Rightarrow> 'a \<Rightarrow> ('c, 'k) clients \<times> 'a" where
  "each_client sel f cs a =
     (case each_entry sel (f False) (cr_entries (cl_tcp cs)) (cl_conns cs) a of
        (es1, conns1, a1) \<Rightarrow>
          (case each_entry sel (f True) (cr_entries (cl_ws cs)) conns1 a1 of
             (es2, conns2, a2) \<Rightarrow>
               (cs\<lparr>cl_tcp := (cl_tcp cs)\<lparr>cr_entries := es1\<rparr>, cl_ws := (cl_ws cs)\<lparr>cr_entries := es2\<rparr>, cl_conns := conns2\<rparr>, a2)))"

text \<open>The fan-out of one delta, as a sink of the publisher: it always accepts.\<close>

definition offer_delta :: "'k client_ops \<Rightarrow> stream_config \<Rightarrow> string \<Rightarrow> bool \<Rightarrow> 'c \<Rightarrow> 'k client \<Rightarrow> u32 \<Rightarrow> 'k client \<times> u32" where
  "offer_delta ops g json websocket c cl count =
     (case deliver websocket ops g json cl of
        (True, cl1) \<Rightarrow> (cl1, count)
      | (False, cl1) \<Rightarrow> (case request_catch_up count (fst cl1) of (count1, st) \<Rightarrow> ((st, snd cl1), count1)))"

definition fanout :: "'k client_ops \<Rightarrow> stream_config \<Rightarrow> ('c, 'k) clients sink" where
  "fanout ops g json cs =
     (if json = [] then (True, cs)
      else (case each_client (sel_tx ops) (offer_delta ops g json) cs (cl_catch_up_count cs) of
              (cs1, count) \<Rightarrow> (True, cs1\<lparr>cl_catch_up_count := count\<rparr>)))"

definition pump_resync ::
  "'k client_ops \<Rightarrow> stream_config \<Rightarrow> snapshot_env \<Rightarrow> string option \<Rightarrow> ('c, 'k) clients \<Rightarrow> 's publisher \<Rightarrow> ('c, 'k) clients \<times> 's publisher" where
  "pump_resync ops g env ts cs p = each_client (sel_tx ops) (\<lambda>websocket c cl p. pump_one ops g env ts websocket (cl, p)) cs p"

definition close_client :: "'k client_ops \<Rightarrow> 'c \<Rightarrow> ('c, 'k) clients \<Rightarrow> ('c, 'k) clients" where
  "close_client ops c cs = cs\<lparr>cl_conns := (cl_conns cs)(c := co_close ops (cl_conns cs c))\<rparr>"

definition remove_tcp :: "'c \<Rightarrow> ('c, 'k) clients \<Rightarrow> ('c, 'k) clients" where
  "remove_tcp c cs = cs\<lparr>cl_tcp := snd (cr_remove c (cl_tcp cs))\<rparr>"

definition remove_ws :: "'c \<Rightarrow> ('c, 'k) clients \<Rightarrow> ('c, 'k) clients" where
  "remove_ws c cs = cs\<lparr>cl_ws := snd (cr_remove c (cl_ws cs))\<rparr>"

definition note_stalled :: "'k client_ops \<Rightarrow> stream_config \<Rightarrow> u32 \<Rightarrow> bool \<Rightarrow> 'c \<Rightarrow> 'k client \<Rightarrow> 'c list \<times> 'c list \<Rightarrow> 'k client \<times> 'c list \<times> 'c list" where
  "note_stalled ops g now websocket c cl acc =
     (case stalled ops g now cl of
        (is_stalled, st) \<Rightarrow> ((st, snd cl), if is_stalled then (if websocket then (fst acc, snd acc @ [c]) else (fst acc @ [c], snd acc)) else acc))"

text \<open>Closing a stalled WebSocket client makes the protocol handler report the close, which removes the client's entry.\<close>

definition close_stalled_clients :: "'k client_ops \<Rightarrow> stream_config \<Rightarrow> u32 \<Rightarrow> ('c, 'k) clients \<Rightarrow> ('c, 'k) clients" where
  "close_stalled_clients ops g now cs =
     (if sg_timeout_ms g = 0 then cs
      else (case each_client (sel_valid ops) (note_stalled ops g now) cs ([], []) of
              (cs1, tcp, ws) \<Rightarrow>
                (let n = length tcp + length ws;
                     cs2 = (if unat (cl_stalled_close_count cs1) < 2 ^ 32 - 1 - n
                            then cs1\<lparr>cl_stalled_close_count := cl_stalled_close_count cs1 + of_nat n\<rparr> else cs1)
                 in fold (\<lambda>c s. close_client ops c (remove_ws c s)) ws (fold (\<lambda>c s. close_client ops c (remove_tcp c s)) tcp cs2))))"

definition catching_up_client_count :: "'k client_ops \<Rightarrow> ('c, 'k) clients \<Rightarrow> nat" where
  "catching_up_client_count ops cs =
     snd (each_client (sel_tx ops) (\<lambda>websocket c cl n. (cl, if ds_resync (fst cl) then n + 1 else n)) cs 0)"

definition publish ::
  "'k client_ops \<Rightarrow> stream_config \<Rightarrow> pending_env \<Rightarrow> nat \<Rightarrow> nat \<Rightarrow> snapshot_env \<Rightarrow> string option \<Rightarrow> u32 \<Rightarrow> change_queue \<Rightarrow> ('c, 'k) clients publisher \<Rightarrow>
    change_queue \<times> ('c, 'k) clients publisher" where
  "publish ops g penv cap max_changes env ts now q p =
     (case publish_pending penv cap max_changes ts (fanout ops g) q p of
        (q1, p1) \<Rightarrow>
          (case pump_resync ops g env ts (pb_sink p1) p1 of
             (cs, p2) \<Rightarrow> (q1, pb_with (close_stalled_clients ops g now cs) p2)))"

section \<open>Events of a client\<close>

definition set_stream_state :: "'c \<Rightarrow> stream_delivery_state \<Rightarrow> 'c connection_registry \<Rightarrow> 'c connection_registry" where
  "set_stream_state c st r =
     (case cr_index_of c r of None \<Rightarrow> r | Some i \<Rightarrow> r\<lparr>cr_entries := (cr_entries r)[i := (cr_entries r ! i)\<lparr>en_stream := st\<rparr>]\<rparr>)"

text \<open>The start of a stream: a fresh delivery state and the first pass of a snapshot.\<close>

definition start_client ::
  "'k client_ops \<Rightarrow> stream_config \<Rightarrow> snapshot_env \<Rightarrow> string option \<Rightarrow> u32 \<Rightarrow> bool \<Rightarrow> bool \<Rightarrow> 'k \<times> 's publisher \<Rightarrow> 'k client \<times> 's publisher" where
  "start_client ops g env ts now websocket other_contexts kp =
     pump_one ops g env ts websocket
       ((request_resync (stream_delivery_init\<lparr>ds_include_other_contexts := other_contexts, ds_last_drain_ms := now\<rparr>), fst kp), snd kp)"

definition start_stream ::
  "'k client_ops \<Rightarrow> stream_config \<Rightarrow> snapshot_env \<Rightarrow> string option \<Rightarrow> u32 \<Rightarrow> bool \<Rightarrow> bool \<Rightarrow> 'c \<Rightarrow> ('c, 'k) clients \<times> 's publisher \<Rightarrow> ('c, 'k) clients \<times> 's publisher" where
  "start_stream ops g env ts now websocket other_contexts c s =
     (let cs = fst s; r = (if websocket then cl_ws cs else cl_tcp cs) in
      case cr_stream_state c r of
        None \<Rightarrow> s
      | Some _ \<Rightarrow>
          (case start_client ops g env ts now websocket other_contexts (cl_conns cs c, snd s) of
             ((st, k), p) \<Rightarrow>
               ((if websocket then cs\<lparr>cl_ws := set_stream_state c st (cl_ws cs), cl_conns := (cl_conns cs)(c := k)\<rparr>
                 else cs\<lparr>cl_tcp := set_stream_state c st (cl_tcp cs), cl_conns := (cl_conns cs)(c := k)\<rparr>), p)))"

definition on_tcp_accept :: "'k client_ops \<Rightarrow> stream_config \<Rightarrow> string option \<Rightarrow> 'c \<Rightarrow> ('c, 'k) clients \<Rightarrow> ('c, 'k) clients" where
  "on_tcp_accept ops g hello c cs =
     (if sg_tcp_max g \<le> cr_count (cl_tcp cs) then close_client ops c cs
      else (case cr_add \<lparr>cf_allow_rx = sg_tcp_allow_rx g, cf_allow_tx = False\<rparr> c (cl_tcp cs) of
              (False, r) \<Rightarrow> close_client ops c (cs\<lparr>cl_tcp := r\<rparr>)
            | (True, r) \<Rightarrow>
                (let cs1 = cs\<lparr>cl_tcp := r\<rparr>;
                     (ok, k) = (case hello of None \<Rightarrow> (False, cl_conns cs c) | Some h \<Rightarrow> write_tcp_frame ops g h (cl_conns cs c));
                     cs2 = cs1\<lparr>cl_conns := (cl_conns cs1)(c := k)\<rparr>
                 in if ok then cs2 else close_client ops c (remove_tcp c cs2))))"

definition on_tcp_line ::
  "'k client_ops \<Rightarrow> stream_config \<Rightarrow> snapshot_env \<Rightarrow> string option \<Rightarrow> u32 \<Rightarrow> 'c \<Rightarrow> string \<Rightarrow> ('c, 'k) clients \<times> 's publisher \<Rightarrow> ('c, 'k) clients \<times> 's publisher" where
  "on_tcp_line ops g env ts now c line s =
     (let cs = fst s in
      if \<not> cr_allow_rx c (cl_tcp cs) then s
      else (case signalk_stream_command line of
              CmdUnsubscribe \<Rightarrow> (cs\<lparr>cl_tcp := set_stream_state c stop_stream (snd (cr_set_allow_tx c False (cl_tcp cs)))\<rparr>, snd s)
            | CmdSubscribeAll \<Rightarrow>
                (let s1 = (cs\<lparr>cl_tcp := snd (cr_set_allow_tx c (sg_tcp_allow_tx g) (cl_tcp cs))\<rparr>, snd s)
                 in if sg_tcp_allow_tx g then start_stream ops g env ts now False True c s1 else s1)
            | CmdNone \<Rightarrow> s))"

definition on_websocket_open ::
  "'k client_ops \<Rightarrow> stream_config \<Rightarrow> snapshot_env \<Rightarrow> string option \<Rightarrow> u32 \<Rightarrow> string option \<Rightarrow> string \<Rightarrow> 'c \<Rightarrow> ('c, 'k) clients \<times> 's publisher \<Rightarrow> ('c, 'k) clients \<times> 's publisher" where
  "on_websocket_open ops g env ts now hello resource c s =
     (let cs = fst s in
      if sg_ws_max g \<le> cr_count (cl_ws cs) then (close_client ops c cs, snd s)
      else
        (let scope = websocket_initial_scope resource;
             tx_enabled = (sg_ws_allow_tx g \<and> scope \<noteq> ScopeNone);
             send_current = (tx_enabled \<and> sg_send_current g \<and> websocket_should_send_current_values resource) in
         case cr_add \<lparr>cf_allow_rx = sg_ws_allow_rx g, cf_allow_tx = tx_enabled\<rparr> c (cl_ws cs) of
           (False, r) \<Rightarrow> (close_client ops c (cs\<lparr>cl_ws := r\<rparr>), snd s)
         | (True, r) \<Rightarrow>
             (let cs1 = cs\<lparr>cl_ws := r\<rparr>;
                  (ok, k) = (case hello of None \<Rightarrow> (False, cl_conns cs c) | Some h \<Rightarrow> write_websocket_frame ops g h (cl_conns cs c));
                  cs2 = cs1\<lparr>cl_conns := (cl_conns cs1)(c := k)\<rparr>
              in if \<not> ok then (close_client ops c (remove_ws c cs2), snd s)
                 else if send_current then start_stream ops g env ts now True (scope = ScopeAll) c (cs2, snd s)
                 else (cs2, snd s))))"

definition on_websocket_text ::
  "'k client_ops \<Rightarrow> stream_config \<Rightarrow> snapshot_env \<Rightarrow> string option \<Rightarrow> u32 \<Rightarrow> 'c \<Rightarrow> string \<Rightarrow> ('c, 'k) clients \<times> 's publisher \<Rightarrow> ('c, 'k) clients \<times> 's publisher" where
  "on_websocket_text ops g env ts now c line s =
     (let cs = fst s in
      if \<not> cr_allow_rx c (cl_ws cs) then s
      else (case signalk_stream_command line of
              CmdUnsubscribe \<Rightarrow> (cs\<lparr>cl_ws := set_stream_state c stop_stream (snd (cr_set_allow_tx c False (cl_ws cs)))\<rparr>, snd s)
            | CmdSubscribeAll \<Rightarrow>
                (let s1 = (cs\<lparr>cl_ws := snd (cr_set_allow_tx c (sg_ws_allow_tx g) (cl_ws cs))\<rparr>, snd s)
                 in if sg_ws_allow_tx g then start_stream ops g env ts now True True c s1 else s1)
            | CmdNone \<Rightarrow> s))"

section \<open>A client over time\<close>

text \<open>
  Live deltas and snapshot passes of one client, in any order. Marks record a delta that the client could not take, the start of a
  snapshot, and its completion.
\<close>

datatype stream_event = LiveDelta string | PumpSnapshot snapshot_env string

datatype delivery_mark = Missed | Began | Completed

definition pass_complete :: "'k client_ops \<Rightarrow> stream_config \<Rightarrow> snapshot_env \<Rightarrow> string option \<Rightarrow> bool \<Rightarrow> 'k client \<times> 's publisher \<Rightarrow> bool" where
  "pass_complete ops g env ts websocket cp =
     fst (publish_current env (ds_include_other_contexts (fst (fst cp))) ts (deliver websocket ops g) (ds_cursor (fst (fst cp))) (pb_with (fst cp) (snd cp)))"

definition client_step :: "'k client_ops \<Rightarrow> stream_config \<Rightarrow> bool \<Rightarrow> stream_event \<Rightarrow> 'k client \<times> 's publisher \<Rightarrow> delivery_mark list \<times> 'k client \<times> 's publisher" where
  "client_step ops g websocket ev cp =
     (case ev of
        LiveDelta json \<Rightarrow>
          (if fst (deliver websocket ops g json (fst cp)) then [] else [Missed], fst (offer_delta ops g json websocket () (fst cp) 0), snd cp)
      | PumpSnapshot env ts \<Rightarrow>
          ((if ds_resync (fst (fst cp))
            then (if cu_started (ds_cursor (fst (fst cp))) then [] else [Began]) @ (if pass_complete ops g env (Some ts) websocket cp then [Completed] else [])
            else []),
           pump_one ops g env (Some ts) websocket cp))"

fun client_run :: "'k client_ops \<Rightarrow> stream_config \<Rightarrow> bool \<Rightarrow> stream_event list \<Rightarrow> 'k client \<times> 's publisher \<Rightarrow> delivery_mark list \<times> 'k client \<times> 's publisher" where
  "client_run ops g websocket [] cp = ([], cp)"
| "client_run ops g websocket (ev # evs) cp =
     (case client_step ops g websocket ev cp of
        (ms, cp1) \<Rightarrow> (case client_run ops g websocket evs cp1 of (ms1, cp2) \<Rightarrow> (ms @ ms1, cp2)))"

text \<open>Every missed delta is followed by a snapshot that began after it and was completed.\<close>

definition covered :: "delivery_mark list \<Rightarrow> bool" where
  "covered ms \<longleftrightarrow> (\<forall>u v. ms = u @ Missed # v \<longrightarrow> (\<exists>v1 v2. v = v1 @ Began # v2 \<and> Completed \<in> set v2))"

definition same_flags :: "stream_delivery_state \<Rightarrow> stream_delivery_state \<Rightarrow> bool" where
  "same_flags st0 st \<longleftrightarrow> ds_resync st = ds_resync st0 \<and> ds_resync_again st = ds_resync_again st0"

lemma note_queued_flags [simp]: "ds_resync (note_queued n st) = ds_resync st" "ds_resync_again (note_queued n st) = ds_resync_again st"
  "ds_resync_position (note_queued n st) = ds_resync_position st"
  by (simp_all add: note_queued_def Let_def)

lemma deliver_flags: "same_flags st0 (fst cl) \<Longrightarrow> same_flags st0 (fst (snd (deliver websocket ops g d cl)))"
  by (auto simp: deliver_def deliver_tcp_def deliver_websocket_def same_flags_def split: prod.splits bool.splits)

interpretation flag_view: sink_view "deliver websocket ops g" "deliver websocket ops g" id "\<lambda>cl. same_flags st0 (fst cl)" for websocket ops g st0
  by unfold_locales (simp add: deliver_flags prod.map_id)

text \<open>
  What the delivery state knows: nothing is missing without a resync; and while a snapshot that was started is running and no other was requested, nothing
  was missed since it began.
\<close>

definition tracks :: "delivery_mark list \<Rightarrow> stream_delivery_state \<Rightarrow> bool" where
  "tracks ms st \<longleftrightarrow> (\<not> ds_resync st \<longrightarrow> covered ms) \<and>
     (ds_resync st \<and> \<not> ds_resync_again st \<and> ds_resync_position st \<noteq> 0 \<longrightarrow> (\<exists>u v. ms = u @ Began # v \<and> Missed \<notin> set v))"

lemma cu_started_ds: "cu_started (ds_cursor st) \<longleftrightarrow> ds_resync_position st \<noteq> 0"
  by (simp add: cu_started_def ds_cursor_def unat_eq_0)

lemma covered_completed:
  assumes "Missed \<notin> set v"
  shows "covered (u @ Began # v @ [Completed])"
  unfolding covered_def
proof (intro allI impI)
  fix x y
  assume eq: "u @ Began # v @ [Completed] = x @ Missed # y"
  then have "\<exists>w. u = x @ Missed # w \<and> y = w @ Began # v @ [Completed]"
    using assms by (auto simp: append_eq_append_conv2 append_eq_Cons_conv Cons_eq_append_conv)
  then obtain w where "y = w @ Began # (v @ [Completed])" by blast
  then show "\<exists>v1 v2. y = v1 @ Began # v2 \<and> Completed \<in> set v2" by (intro exI [of _ w] exI [of _ "v @ [Completed]"]) simp
qed

lemma tracks_live:
  assumes "tracks ms st" "client_step ops g websocket (LiveDelta json) ((st, k), p) = (ms1, (st1, k1), p1)"
  shows "tracks (ms @ ms1) st1"
proof (cases "fst (deliver websocket ops g json (st, k))")
  case True
  then have "ms1 = []" "ds_resync st1 = ds_resync st" "ds_resync_again st1 = ds_resync_again st" "ds_resync_position st1 = ds_resync_position st"
    using assms(2) by (auto simp: client_step_def offer_delta_def deliver_def deliver_tcp_def deliver_websocket_def split: prod.splits bool.splits if_splits)
  then show ?thesis using assms(1) by (simp add: tracks_def)
next
  case False
  then have "st1 = request_resync st"
    using assms(2) by (auto simp: client_step_def offer_delta_def request_catch_up_def deliver_def deliver_tcp_def deliver_websocket_def split: prod.splits bool.splits if_splits)
  then show ?thesis by (auto simp: tracks_def request_resync_def)
qed

lemma tracks_pump:
  assumes "tracks ms st" "client_step ops g websocket (PumpSnapshot env ts) ((st, k), p) = (ms1, (st1, k1), p1)"
  shows "tracks (ms @ ms1) st1"
proof (cases "ds_resync st")
  case False
  then have "ms1 = []" "st1 = st" using assms(2) by (auto simp: client_step_def pump_one_def)
  then show ?thesis using assms(1) by simp
next
  case True
  obtain fin c q where run: "publish_current env (ds_include_other_contexts st) (Some ts) (deliver websocket ops g) (ds_cursor st) (pb_with (st, k) p) = (fin, c, q)"
    using prod_cases3 by blast
  have "same_flags st (fst (pb_sink q))"
    using flag_view.publish_current_view [of st "pb_with (st, k) p" env "ds_include_other_contexts st" "Some ts" websocket ops g "ds_cursor st"] run
    by (simp add: same_flags_def)
  then have fl: "ds_resync (fst (pb_sink q))" "ds_resync_again (fst (pb_sink q)) = ds_resync_again st" using True by (simp_all add: same_flags_def)
  have ms1: "ms1 = (if ds_resync_position st \<noteq> 0 then [] else [Began]) @ (if fin then [Completed] else [])"
    using assms(2) True run by (simp add: client_step_def pass_complete_def cu_started_ds)
  have st1: "st1 = after_pass fin (ds_set_cursor c (fst (pb_sink q)))" using assms(2) True run by (simp add: client_step_def pump_one_def)
  have began: "\<exists>u v. ms @ (if ds_resync_position st \<noteq> 0 then [] else [Began]) = u @ Began # v \<and> Missed \<notin> set v" if "\<not> ds_resync_again st"
  proof (cases "ds_resync_position st = 0")
    case zero: True
    then show ?thesis by (intro exI [of _ ms] exI [of _ "[]"]) simp
  next
    case False
    then show ?thesis using assms(1) True that by (simp add: tracks_def)
  qed
  show ?thesis
  proof (cases "ds_resync_again st")
    case again: True
    then show ?thesis using fl by (auto simp: tracks_def st1 after_pass_def ds_set_cursor_def)
  next
    case once: False
    then obtain u v where uv: "ms @ (if ds_resync_position st \<noteq> 0 then [] else [Began]) = u @ Began # v" "Missed \<notin> set v" using began by blast
    show ?thesis
    proof (cases fin)
      case True
      have "ms @ ms1 = u @ Began # v @ [Completed]" proof -
        have "ms @ ms1 = (ms @ (if ds_resync_position st \<noteq> 0 then [] else [Began])) @ [Completed]" using True ms1 by simp
        then show ?thesis unfolding uv(1) by simp
      qed
      then have "covered (ms @ ms1)" using covered_completed [OF uv(2)] by simp
      then show ?thesis using True once fl by (simp add: tracks_def st1 after_pass_def ds_set_cursor_def)
    next
      case False
      then have "ms @ ms1 = u @ Began # v" using uv(1) ms1 by simp
      then show ?thesis using False fl uv(2) by (auto simp: tracks_def st1 after_pass_def ds_set_cursor_def)
    qed
  qed
qed

lemma tracks_run: "tracks ms (fst (fst cp)) \<Longrightarrow> client_run ops g websocket evs cp = (ms1, cp1) \<Longrightarrow> tracks (ms @ ms1) (fst (fst cp1))"
proof (induction evs arbitrary: ms cp ms1)
  case Nil
  then show ?case by auto
next
  case (Cons ev evs)
  obtain st k p where cp: "cp = ((st, k), p)" by (metis prod.exhaust)
  obtain m st2 k2 p2 where s: "client_step ops g websocket ev cp = (m, (st2, k2), p2)" by (metis prod.exhaust)
  obtain m' cp' where r: "client_run ops g websocket evs ((st2, k2), p2) = (m', cp')" by (rule prod.exhaust)
  have "tracks (ms @ m) st2"
  proof (cases ev)
    case (LiveDelta json)
    then show ?thesis using tracks_live [of ms st] Cons.prems(1) s cp by simp
  next
    case (PumpSnapshot env ts)
    then show ?thesis using tracks_pump [of ms st] Cons.prems(1) s cp by simp
  qed
  moreover have "ms1 = m @ m'" "cp1 = cp'" using Cons.prems(2) s r by simp_all
  ultimately show ?case using Cons.IH [of "ms @ m" "((st2, k2), p2)" m'] r by simp
qed

text \<open>
  C2: No missed delta is forgotten. In any sequence of live deltas and snapshot passes to a client, whatever its connection accepts, a delta that
  the client could not take is followed by a snapshot that begins after it, and the client counts as caught up again only when such a snapshot has been completed,
  also when further deltas are missed while a snapshot is already running.
\<close>

theorem missed_deltas_are_covered:
  assumes "\<not> ds_resync (fst (fst cp))" "client_run ops g websocket evs cp = (ms, cp1)" "\<not> ds_resync (fst (fst cp1))"
  shows "covered ms"
proof -
  have "tracks [] (fst (fst cp))" using assms(1) by (simp add: tracks_def covered_def)
  from tracks_run [OF this assms(2)] assms(3) show ?thesis by (simp add: tracks_def)
qed

section \<open>Whole frames\<close>

text \<open>What one accepted delta puts on the connection: its text, or one WebSocket text frame without the line end.\<close>

definition delta_octets :: "bool \<Rightarrow> string \<Rightarrow> u8 list" where
  "delta_octets websocket json = (if websocket then frame_octets True Op_Text None (octets (signalk_text json)) else octets json)"

text \<open>A connection that takes every write for which its buffer has room as a whole.\<close>

locale stream_link =
  fixes ops :: "'k client_ops"
    and sent :: "'k \<Rightarrow> u8 list"
    and live :: "'k \<Rightarrow> bool"
  assumes whole_write: "live k \<Longrightarrow> d \<noteq> [] \<Longrightarrow> length d \<le> co_output_capacity ops k - co_output_size ops k \<Longrightarrow>
      fst (co_write_whole ops d k) \<and> sent (snd (co_write_whole ops d k)) = sent k @ d \<and> live (snd (co_write_whole ops d k))"
begin

lemma write_tcp_whole:
  assumes "live k" "write_tcp_frame ops g json k = (ok, k1)"
  shows "live k1 \<and> (if ok then sent k1 = sent k @ octets json else k1 = k)"
proof (cases "json = [] \<or> \<not> co_valid ops k \<or> co_room ops g k < length json")
  case True
  then have "write_tcp_frame ops g json k = (False, k)" by (auto simp: write_tcp_frame_def)
  then show ?thesis using assms by simp
next
  case False
  then have len: "length (octets json) \<le> co_output_capacity ops k - co_output_size ops k" "octets json \<noteq> []"
    using frame_room_le [of "sg_limits g" "co_output_capacity ops k" "co_output_size ops k"] by (auto simp: co_room_def)
  show ?thesis using whole_write [OF assms(1) len(2,1)] False assms(2) by (auto simp: write_tcp_frame_def)
qed

lemma write_websocket_whole:
  assumes "live k" "write_websocket_frame ops g json k = (ok, k1)"
  shows "live k1 \<and> (if ok then sent k1 = sent k @ frame_octets True Op_Text None (octets (signalk_text json)) else k1 = k)"
proof -
  let ?d = "signalk_text json"
  have none: ?thesis if "write_websocket_frame ops g json k = (False, k)" using that assms by simp
  show ?thesis
  proof (cases "?d = [] \<or> \<not> co_valid ops k \<or> co_room ops g k < length ?d + frame_header_size (length ?d) \<or> \<not> co_ws_open ops k \<or> sg_chunk g < length ?d")
    case True
    then show ?thesis by (intro none) (auto simp: write_websocket_frame_def ws_write_text_def Let_def)
  next
    case False
    show ?thesis
    proof (cases "encode_text_frame ?d (sg_chunk g + 16)")
      case None
      then show ?thesis by (intro none) (auto simp: write_websocket_frame_def ws_write_text_def Let_def)
    next
      case (Some bs)
      have len: "length bs \<le> length ?d + frame_header_size (length ?d)" "bs \<noteq> []"
        using Some by (auto simp: encode_text_frame_def frame_header_size_def Let_def split: if_splits)
      then have "length bs \<le> co_output_capacity ops k - co_output_size ops k"
        using False frame_room_le [of "sg_limits g" "co_output_capacity ops k" "co_output_size ops k"] by (simp add: co_room_def)
      with whole_write [OF assms(1) len(2)] False Some assms(2) len(2) encode_text_octets [OF Some] show ?thesis
        by (auto simp: write_websocket_frame_def ws_write_text_def Let_def)
    qed
  qed
qed

lemma deliver_whole:
  assumes "live (snd cl)" "deliver websocket ops g json cl = (ok, cl1)"
  shows "live (snd cl1) \<and> (if ok then sent (snd cl1) = sent (snd cl) @ delta_octets websocket json else snd cl1 = snd cl)"
  using assms write_tcp_whole [OF assms(1), of g json] write_websocket_whole [OF assms(1), of g json]
  by (auto simp: deliver_def deliver_tcp_def deliver_websocket_def delta_octets_def split: if_splits prod.splits bool.splits)

definition frames_since :: "bool \<Rightarrow> u8 list \<Rightarrow> 'k client \<times> string list \<Rightarrow> bool" where
  "frames_since websocket start s \<longleftrightarrow> live (snd (fst s)) \<and> sent (snd (fst s)) = start @ concat (map (delta_octets websocket) (snd s)) \<and>
     (\<forall>d \<in> set (snd s). finished_delta d)"

end

sublocale stream_link \<subseteq> frames: sink_view "deliver websocket ops g" "logged (deliver websocket ops g)" fst "frames_since websocket start" for websocket g start
proof
  fix s :: "'k client \<times> string list" and d :: string
  assume s: "frames_since websocket start s" and d: "finished_delta d"
  obtain ok cl where r: "deliver websocket ops g d (fst s) = (ok, cl)" by (rule prod.exhaust)
  have "live (snd (fst s))" using s by (simp add: frames_since_def)
  from deliver_whole [OF this r] show "deliver websocket ops g d (fst s) = map_prod id fst (logged (deliver websocket ops g) d s) \<and>
      frames_since websocket start (snd (logged (deliver websocket ops g) d s))"
    using s d r by (auto simp: logged_def frames_since_def)
qed

context stream_link
begin

lemma pump_whole:
  assumes "live k"
  shows "\<exists>log. live (snd (fst (pump_one ops g env ts websocket ((st, k), p)))) \<and>
    sent (snd (fst (pump_one ops g env ts websocket ((st, k), p)))) = sent k @ concat (map (delta_octets websocket) log) \<and> (\<forall>d \<in> set log. finished_delta d)"
proof (cases "ds_resync st")
  case False
  then show ?thesis using assms by (intro exI [of _ "[]"]) (simp add: pump_one_def)
next
  case True
  let ?p = "pb_with ((st, k), []) p :: ('k client \<times> string list) publisher"
  obtain fin c q where w: "publish_current env (ds_include_other_contexts st) ts (logged (deliver websocket ops g)) (ds_cursor st) ?p = (fin, c, q)"
    using prod_cases3 by blast
  have "frames_since websocket (sent k) (pb_sink ?p)" using assms by (simp add: frames_since_def)
  note v = frames.publish_current_view [OF this, of env "ds_include_other_contexts st" ts g "ds_cursor st", unfolded w]
  have "frames.narrow ?p = pb_with (st, k) p" by (simp add: frames.narrow_def)
  then have run: "publish_current env (ds_include_other_contexts st) ts (deliver websocket ops g) (ds_cursor st) (pb_with (st, k) p) = (fin, c, frames.narrow q)"
    using v by simp
  have "frames_since websocket (sent k) (pb_sink q)" using v by simp
  then show ?thesis using True run by (intro exI [of _ "snd (pb_sink q)"]) (simp add: pump_one_def frames_since_def)
qed

lemma run_whole:
  "live (snd (fst cp)) \<Longrightarrow> client_run ops g websocket evs cp = (ms, cp1) \<Longrightarrow>
   live (snd (fst cp1)) \<and> (\<exists>log. sent (snd (fst cp1)) = sent (snd (fst cp)) @ concat (map (delta_octets websocket) log) \<and>
     (\<forall>d \<in> set log. LiveDelta d \<in> set evs \<or> finished_delta d))"
proof (induction evs arbitrary: cp ms)
  case Nil
  then show ?case by (auto intro: exI [of _ "[]"])
next
  case (Cons ev evs)
  obtain st k p where cp: "cp = ((st, k), p)" by (metis prod.exhaust)
  obtain m st2 k2 p2 where s: "client_step ops g websocket ev cp = (m, (st2, k2), p2)" by (metis prod.exhaust)
  obtain m' cp' where r: "client_run ops g websocket evs ((st2, k2), p2) = (m', cp')" by (rule prod.exhaust)
  have eq: "cp1 = cp'" using Cons.prems(2) s r by simp
  have live: "live k" using Cons.prems(1) cp by simp
  have step: "live k2 \<and> (\<exists>log. sent k2 = sent k @ concat (map (delta_octets websocket) log) \<and> (\<forall>d \<in> set log. LiveDelta d \<in> {ev} \<or> finished_delta d))"
  proof (cases ev)
    case (LiveDelta json)
    obtain ok cl where d: "deliver websocket ops g json (st, k) = (ok, cl)" by (rule prod.exhaust)
    have "k2 = snd cl" using s d cp LiveDelta by (cases ok) (auto simp: client_step_def offer_delta_def split: prod.splits)
    then show ?thesis using deliver_whole [OF _ d] live LiveDelta by (cases ok) (auto intro: exI [of _ "[json]"] exI [of _ "[]"])
  next
    case (PumpSnapshot env ts)
    then have "k2 = snd (fst (pump_one ops g env (Some ts) websocket ((st, k), p)))" using s cp by (simp add: client_step_def)
    then show ?thesis using pump_whole [OF live, of g env "Some ts" websocket st p] by auto
  qed
  then obtain log where l: "live k2" "sent k2 = sent k @ concat (map (delta_octets websocket) log)" "\<forall>d \<in> set log. LiveDelta d = ev \<or> finished_delta d" by auto
  from Cons.IH [of "((st2, k2), p2)" m'] l(1) r eq obtain log' where l': "live (snd (fst cp'))"
    "sent (snd (fst cp')) = sent k2 @ concat (map (delta_octets websocket) log')" "\<forall>d \<in> set log'. LiveDelta d \<in> set evs \<or> finished_delta d" by auto
  show ?case unfolding eq cp using l l' by (auto intro!: exI [of _ "log @ log'"])
qed

end

section \<open>Clients over WiFi\<close>

definition wifi_ops :: "'w wifi_link client_ops" where
  "wifi_ops = \<lparr>co_valid = (\<lambda>k. wc_valid (fst k) (snd k)), co_output_size = (\<lambda>k. wc_size (snd k)), co_output_capacity = (\<lambda>k. tx_capacity),
     co_write = (\<lambda>d k. (int (fst (wc_write (fst k) d (snd k))), fst k, snd (wc_write (fst k) d (snd k)))),
     co_close = (\<lambda>k. (fst k, wc_close (fst k) (snd k))), co_ws_open = (\<lambda>k. True)\<rparr>"

interpretation wifi_stream: stream_link wifi_ops "\<lambda>k. wc_accepted (snd k)" wifi_live
proof
  fix k :: "'a wifi_link" and d :: "u8 list"
  assume k: "wifi_live k" and d: "length d \<le> co_output_capacity wifi_ops k - co_output_size wifi_ops k"
  have t: "takes_at_most (fst k)" "wc_inv (snd k)" "wc_active (snd k)" using k by (simp_all add: wifi_live_def)
  note w = wc_write_result [OF t(1,2), of d]
  have "fst (wc_write (fst k) d (snd k)) = length d" using d w(4) w(5) [OF t(3)] by (simp add: wifi_ops_def tx_free_def)
  then show "fst (co_write_whole wifi_ops d k) \<and> wc_accepted (snd (snd (co_write_whole wifi_ops d k))) = wc_accepted (snd k) @ d \<and>
      wifi_live (snd (co_write_whole wifi_ops d k))"
    using w t by (simp add: co_write_whole_def wifi_ops_def wifi_live_def)
qed

text \<open>
  C6: A client never receives a part of a delta. In any sequence of live deltas and snapshot passes to a TCP or WebSocket client over a WiFi connection, what the connection
  accepts is a sequence of whole frames, each one a live delta or a delta that the publisher finished.
\<close>

theorem client_gets_whole_deltas:
  assumes "wifi_live k" "client_run wifi_ops g websocket evs ((st, k), p) = (ms, ((st1, k1), p1))"
  shows "\<exists>log. wc_accepted (snd k1) = wc_accepted (snd k) @ concat (map (delta_octets websocket) log) \<and>
    (\<forall>d \<in> set log. LiveDelta d \<in> set evs \<or> finished_delta d)"
  using wifi_stream.run_whole [of "((st, k), p)" g websocket evs ms "((st1, k1), p1)"] assms by simp

definition example_stream_config :: stream_config where
  "example_stream_config = \<lparr>sg_limits = embedded_limits, sg_chunk = 512, sg_timeout_ms = 15000, sg_tcp_max = 4, sg_tcp_allow_rx = True, sg_tcp_allow_tx = True,
     sg_ws_max = 4, sg_ws_allow_rx = True, sg_ws_allow_tx = True, sg_send_current = True\<rparr>"

definition plain_publisher :: "unit publisher" where
  "plain_publisher = \<lparr>pb_frame = df_init 200, pb_tracking = None, pb_dropped = 0, pb_deltas = 0, pb_values = 0, pb_snapshots = 0, pb_truncated = 0, pb_sink = ()\<rparr>"

theorem client_gets_whole_deltas_witness:
  "\<exists>ms st1 k1 p1 log. wifi_live open_link \<and>
     client_run wifi_ops example_stream_config False [LiveDelta ''a'', PumpSnapshot example_env ''t''] ((stream_delivery_init, open_link), plain_publisher) = (ms, ((st1, k1), p1)) \<and>
     wc_accepted (snd k1) = wc_accepted (snd open_link) @ concat (map (delta_octets False) log) \<and>
     (\<forall>d \<in> set log. LiveDelta d \<in> set [LiveDelta ''a'', PumpSnapshot example_env ''t''] \<or> finished_delta d)"
proof -
  obtain ms st1 k1 p1 where run: "client_run wifi_ops example_stream_config False [LiveDelta ''a'', PumpSnapshot example_env ''t'']
      ((stream_delivery_init, open_link), plain_publisher) = (ms, ((st1, k1), p1))" by (metis prod.exhaust)
  from client_gets_whole_deltas [OF open_link_live(1) run] run open_link_live(1) show ?thesis by blast
qed

text \<open>A connection that refuses the first delta it is offered and takes the rest.\<close>

definition moody_config :: stream_config where
  "moody_config = example_stream_config\<lparr>sg_limits := \<lparr>cm_json_buffer_size = 0, cm_max_client_queue_bytes = 0, cm_high_water = 0\<rparr>\<rparr>"

definition moody_ops :: "bool client_ops" where
  "moody_ops = \<lparr>co_valid = (\<lambda>k. True), co_output_size = (\<lambda>k. 0), co_output_capacity = (\<lambda>k. 300),
     co_write = (\<lambda>d k. (if k then int (length d) else 0, True)), co_close = id, co_ws_open = (\<lambda>k. True)\<rparr>"

theorem missed_deltas_are_covered_witness:
  "\<exists>ms cp1. client_run moody_ops moody_config False [LiveDelta ''a'', PumpSnapshot example_env ''t''] ((stream_delivery_init, False), plain_publisher) = (ms, cp1) \<and>
     \<not> ds_resync (fst (fst cp1)) \<and> covered ms \<and> ms = [Missed, Began, Completed]"
proof -
  let ?r = "client_run moody_ops moody_config False [LiveDelta ''a'', PumpSnapshot example_env ''t''] ((stream_delivery_init, False), plain_publisher)"
  have e: "fst ?r = [Missed, Began, Completed]" "\<not> ds_resync (fst (fst (snd ?r)))" by code_simp+
  obtain ms cp1 where r: "?r = (ms, cp1)" by (rule prod.exhaust)
  have "\<not> ds_resync (fst (fst cp1))" "ms = [Missed, Began, Completed]" using e r by simp_all
  moreover have "\<not> ds_resync (fst (fst ((stream_delivery_init, False), plain_publisher)))" by (simp add: stream_delivery_init_def)
  from missed_deltas_are_covered [OF this r] calculation(1) have "covered ms" by simp
  ultimately show ?thesis using r by blast
qed

end
