(* ===== verification/Data_Model.thy ===== *)
theory Data_Model
  imports Complex_Main Nmea_Multipart
begin

text \<open>
  The part of the vessel data model the receivers of this development write: stamped values, the
  GNSS structures of \<^verbatim>\<open>gnss_data.hpp\<close> and the AIS structures of \<^verbatim>\<open>ais_data.hpp\<close>.
  \<^verbatim>\<open>int32_t\<close> members are \<open>int\<close>, times are 64-bit words, character arrays are C strings. The
  template parameter \<^verbatim>\<open>Real\<close> is the type \<open>'r\<close> and \<^verbatim>\<open>Coordinate\<close> the type \<open>'c\<close>; their
  arithmetic is the record \<open>arith\<close>, so that no rounding is assumed away. \<open>exact\<close> is the instance
  over the rationals that concrete runs use. A structure that derives from
  \<^verbatim>\<open>AisMessageHeaderData\<close> is a record that extends \<open>ais_header\<close>.
\<close>

section \<open>Stamped values and arithmetic\<close>

record 'a stamped =
  sd_value :: 'a
  sd_valid :: bool
  sd_last_update_us :: u64

definition stamped_init :: "'a :: zero stamped" where
  "stamped_init = \<lparr>sd_value = 0, sd_valid = False, sd_last_update_us = 0\<rparr>"

definition stamped_flag_init :: "bool stamped" where
  "stamped_flag_init = \<lparr>sd_value = False, sd_valid = False, sd_last_update_us = 0\<rparr>"

text \<open>\<open>set\<close> overwrites all three members, whatever they held.\<close>

definition stamp :: "'a \<Rightarrow> u64 \<Rightarrow> 'a stamped" where
  "stamp v now_us = \<lparr>sd_value = v, sd_valid = True, sd_last_update_us = now_us\<rparr>"

definition stale :: "u64 \<Rightarrow> u64 \<Rightarrow> 'a stamped \<Rightarrow> bool" where
  "stale now_us timeout_us s \<longleftrightarrow> \<not> sd_valid s \<or> timeout_us < now_us - sd_last_update_us s"

definition source_priority :: "sensor_source \<Rightarrow> int" where
  "source_priority source =
     (case source of
        SrcGpsd \<Rightarrow> 1 | SrcUbx \<Rightarrow> 1 | SrcServo \<Rightarrow> 1 | SrcSerial \<Rightarrow> 2 | SrcTcp \<Rightarrow> 3 | SrcSignalk \<Rightarrow> 4
      | SrcWaterWind \<Rightarrow> 5 | SrcGpsWind \<Rightarrow> 6 | SrcNone \<Rightarrow> 7)"

definition stamp_if :: "bool \<Rightarrow> 'a \<Rightarrow> u64 \<Rightarrow> 'a stamped \<Rightarrow> 'a stamped" where
  "stamp_if b v now_us old = (if b then stamp v now_us else old)"

definition stamp_some :: "'a option \<Rightarrow> u64 \<Rightarrow> 'a stamped \<Rightarrow> 'a stamped" where
  "stamp_some v now_us old = (case v of None \<Rightarrow> old | Some x \<Rightarrow> stamp x now_us)"

text \<open>\<^verbatim>\<open>if (from.valid) to.set(from.value, now_us)\<close>\<close>

definition carry :: "'a stamped \<Rightarrow> u64 \<Rightarrow> 'a stamped \<Rightarrow> 'a stamped" where
  "carry from now_us old = (if sd_valid from then stamp (sd_value from) now_us else old)"

text \<open>\<^verbatim>\<open>set_source\<close> and the copy of a C string into an array of \<open>out_size\<close> characters.\<close>

definition source_of :: "sensor_source \<Rightarrow> sensor_source \<Rightarrow> sensor_source" where
  "source_of source old = (if source \<noteq> SrcNone then source else old)"

definition nmea_copy_cstr :: "nat \<Rightarrow> string \<Rightarrow> string \<Rightarrow> string" where
  "nmea_copy_cstr out_size txt' out = (if out_size = 0 then out else take (out_size - 1) txt')"

lemma stamp_simps [simp]:
  "sd_value (stamp v now) = v" "sd_valid (stamp v now)" "sd_last_update_us (stamp v now) = now"
  by (simp_all add: stamp_def)

lemma stamped_init_simps [simp]:
  "sd_value stamped_init = 0" "\<not> sd_valid stamped_init" "sd_last_update_us stamped_init = 0"
  by (simp_all add: stamped_init_def)

text \<open>
  The arithmetic of the target: \<open>'f\<close> is \<^verbatim>\<open>float\<close>, \<open>'r\<close> is \<^verbatim>\<open>Real\<close>, \<open>'c\<close> is \<^verbatim>\<open>double\<close>;
  \<open>f_dec m k\<close> and \<open>r_dec m k\<close> are the decimal literal with the digits \<open>m\<close> and \<open>k\<close> places after
  the point.
\<close>

record ('f, 'r, 'c) arith =
  f_of_int :: "int \<Rightarrow> 'f"
  f_mul :: "'f \<Rightarrow> 'f \<Rightarrow> 'f"
  f_div :: "'f \<Rightarrow> 'f \<Rightarrow> 'f"
  f_neg :: "'f \<Rightarrow> 'f"
  f_lt :: "'f \<Rightarrow> 'f \<Rightarrow> bool"
  f_dec :: "int \<Rightarrow> nat \<Rightarrow> 'f"
  r_of_f :: "'f \<Rightarrow> 'r"
  r_of_int :: "int \<Rightarrow> 'r"
  r_add :: "'r \<Rightarrow> 'r \<Rightarrow> 'r"
  r_sub :: "'r \<Rightarrow> 'r \<Rightarrow> 'r"
  r_div :: "'r \<Rightarrow> 'r \<Rightarrow> 'r"
  r_neg :: "'r \<Rightarrow> 'r"
  r_lt :: "'r \<Rightarrow> 'r \<Rightarrow> bool"
  r_le :: "'r \<Rightarrow> 'r \<Rightarrow> bool"
  r_dec :: "int \<Rightarrow> nat \<Rightarrow> 'r"
  c_of_int :: "int \<Rightarrow> 'c"
  c_div :: "'c \<Rightarrow> 'c \<Rightarrow> 'c"

definition exact :: "(rat, rat, rat) arith" where
  "exact = \<lparr>f_of_int = of_int, f_mul = (*), f_div = (/), f_neg = uminus, f_lt = (<),
     f_dec = (\<lambda>m k. of_int m / 10 ^ k), r_of_f = (\<lambda>x. x), r_of_int = of_int, r_add = (+), r_sub = (-),
     r_div = (/), r_neg = uminus, r_lt = (<), r_le = (\<le>), r_dec = (\<lambda>m k. of_int m / 10 ^ k), c_of_int = of_int,
     c_div = (/)\<rparr>"

section \<open>GNSS structures\<close>

record 'r gnss_observation =
  go_satellite_id :: int
  go_system_id :: int
  go_signal_id :: int
  go_elevation_deg :: 'r
  go_azimuth_true_deg :: 'r
  go_cn0_db_hz :: 'r
  go_satellite_id_valid :: bool
  go_elevation_valid :: bool
  go_azimuth_valid :: bool
  go_cn0_valid :: bool
  go_used :: bool
  go_healthy :: bool
  go_differential_corrections :: bool

definition gnss_observation_init :: "'r :: zero gnss_observation" where
  "gnss_observation_init = \<lparr>go_satellite_id = -1, go_system_id = -1, go_signal_id = -1, go_elevation_deg = 0,
     go_azimuth_true_deg = 0, go_cn0_db_hz = 0, go_satellite_id_valid = False, go_elevation_valid = False,
     go_azimuth_valid = False, go_cn0_valid = False, go_used = False, go_healthy = False,
     go_differential_corrections = False\<rparr>"

record 'r sky_view =
  sk_source :: sensor_source
  sk_talker_id :: string
  sk_satellites_in_view :: "int stamped"
  sk_satellites_used :: "int stamped"
  sk_observations :: "'r gnss_observation list"
  sk_observation_count :: u16
  sk_complete :: bool
  sk_sequence :: u32
  sk_last_update_us :: u64

definition clear_observations :: "nat \<Rightarrow> 'r :: zero sky_view \<Rightarrow> 'r sky_view" where
  "clear_observations capacity sky = sky\<lparr>sk_observations := replicate capacity gnss_observation_init,
     sk_observation_count := 0, sk_complete := False\<rparr>"

record ('r, 'c) gnss_fix =
  gf_source :: sensor_source
  gf_talker_id :: string
  gf_timestamp_s :: "'r stamped"
  gf_date_day :: "int stamped"
  gf_date_month :: "int stamped"
  gf_date_year :: "int stamped"
  gf_local_zone_hours :: "int stamped"
  gf_local_zone_minutes :: "int stamped"
  gf_track_deg :: "'r stamped"
  gf_speed_kn :: "'r stamped"
  gf_vertical_speed_m_s :: "'r stamped"
  gf_fix_lat_deg :: "'c stamped"
  gf_fix_lon_deg :: "'c stamped"
  gf_fix_alt_msl_m :: "'r stamped"
  gf_fix_alt_hae_m :: "'r stamped"
  gf_fix_quality :: "int stamped"
  gf_fix_type :: "int stamped"
  gf_fix_valid :: "bool stamped"
  gf_fix_mode_indicator :: string
  gf_navigational_status :: char
  gf_mode_indicator :: char
  gf_system_id :: "int stamped"
  gf_signal_id :: "int stamped"
  gf_satellites_used :: "int stamped"
  gf_hdop :: "'r stamped"
  gf_geoidal_separation_m :: "'r stamped"
  gf_dgps_age_s :: "'r stamped"
  gf_dgps_station_id :: "int stamped"
  gf_has_fix_json :: bool
  gf_leeway_ground_deg :: "'r stamped"
  gf_compass_error_deg :: "'r stamped"
  gf_declination_deg :: "'r stamped"
  gf_alignment_counter :: int
  gf_last_update_us :: u64

record 'r gnss_accuracy =
  ga_source :: sensor_source
  ga_talker_id :: string
  ga_utc_time_s :: "'r stamped"
  ga_mode_indicator :: char
  ga_status :: char
  ga_horizontal_accuracy_m :: "'r stamped"
  ga_vertical_accuracy_m :: "'r stamped"
  ga_speed_accuracy_m_s :: "'r stamped"
  ga_track_accuracy_deg :: "'r stamped"
  ga_time_accuracy_s :: "'r stamped"
  ga_semi_major_accuracy_m :: "'r stamped"
  ga_semi_minor_accuracy_m :: "'r stamped"
  ga_semi_major_orientation_deg :: "'r stamped"
  ga_gdop :: "'r stamped"
  ga_pdop :: "'r stamped"
  ga_tdop :: "'r stamped"
  ga_hdop :: "'r stamped"
  ga_vdop :: "'r stamped"
  ga_north_dop :: "'r stamped"
  ga_east_dop :: "'r stamped"
  ga_system_id :: "int stamped"
  ga_signal_id :: "int stamped"
  ga_field_count :: "int stamped"
  ga_last_update_us :: u64

record 'r gnss_dop =
  gp_source :: sensor_source
  gp_talker_id :: string
  gp_selection_mode :: char
  gp_fix_mode :: "int stamped"
  gp_satellite_prn :: "int stamped list"
  gp_gdop :: "'r stamped"
  gp_pdop :: "'r stamped"
  gp_tdop :: "'r stamped"
  gp_hdop :: "'r stamped"
  gp_vdop :: "'r stamped"
  gp_north_dop :: "'r stamped"
  gp_east_dop :: "'r stamped"
  gp_system_id :: "int stamped"
  gp_signal_id :: "int stamped"
  gp_last_update_us :: u64

text \<open>The members of \<^verbatim>\<open>GnssModelData\<close> that the UBX receiver writes; no other is touched by it.\<close>

record ('r, 'c) gnss_model =
  gm_fix :: "('r, 'c) gnss_fix"
  gm_fix_accuracy :: "'r gnss_accuracy"
  gm_dop :: "'r gnss_dop"
  gm_sky_view :: "'r sky_view"

definition gnss_fix_init :: "('r :: zero, 'c :: zero) gnss_fix" where
  "gnss_fix_init = \<lparr>
     gf_source = SrcGpsd, gf_talker_id = [], gf_timestamp_s = stamped_init, gf_date_day = stamped_init,
     gf_date_month = stamped_init, gf_date_year = stamped_init, gf_local_zone_hours = stamped_init,
     gf_local_zone_minutes = stamped_init, gf_track_deg = stamped_init, gf_speed_kn = stamped_init,
     gf_vertical_speed_m_s = stamped_init, gf_fix_lat_deg = stamped_init, gf_fix_lon_deg = stamped_init,
     gf_fix_alt_msl_m = stamped_init, gf_fix_alt_hae_m = stamped_init, gf_fix_quality = stamped_init,
     gf_fix_type = stamped_init, gf_fix_valid = stamped_flag_init, gf_fix_mode_indicator = [],
     gf_navigational_status = NUL, gf_mode_indicator = NUL, gf_system_id = stamped_init,
     gf_signal_id = stamped_init, gf_satellites_used = stamped_init, gf_hdop = stamped_init,
     gf_geoidal_separation_m = stamped_init, gf_dgps_age_s = stamped_init, gf_dgps_station_id = stamped_init,
     gf_has_fix_json = False, gf_leeway_ground_deg = stamped_init, gf_compass_error_deg = stamped_init,
     gf_declination_deg = stamped_init, gf_alignment_counter = 0, gf_last_update_us = 0\<rparr>"

definition gnss_accuracy_init :: "'r :: zero gnss_accuracy" where
  "gnss_accuracy_init = \<lparr>
     ga_source = SrcGpsd, ga_talker_id = [], ga_utc_time_s = stamped_init, ga_mode_indicator = NUL,
     ga_status = NUL, ga_horizontal_accuracy_m = stamped_init, ga_vertical_accuracy_m = stamped_init,
     ga_speed_accuracy_m_s = stamped_init, ga_track_accuracy_deg = stamped_init,
     ga_time_accuracy_s = stamped_init, ga_semi_major_accuracy_m = stamped_init,
     ga_semi_minor_accuracy_m = stamped_init, ga_semi_major_orientation_deg = stamped_init,
     ga_gdop = stamped_init, ga_pdop = stamped_init, ga_tdop = stamped_init, ga_hdop = stamped_init,
     ga_vdop = stamped_init, ga_north_dop = stamped_init, ga_east_dop = stamped_init,
     ga_system_id = stamped_init, ga_signal_id = stamped_init, ga_field_count = stamped_init,
     ga_last_update_us = 0\<rparr>"

definition gnss_dop_init :: "'r :: zero gnss_dop" where
  "gnss_dop_init = \<lparr>
     gp_source = SrcGpsd, gp_talker_id = [], gp_selection_mode = NUL, gp_fix_mode = stamped_init,
     gp_satellite_prn = replicate 12 stamped_init, gp_gdop = stamped_init, gp_pdop = stamped_init,
     gp_tdop = stamped_init, gp_hdop = stamped_init, gp_vdop = stamped_init, gp_north_dop = stamped_init,
     gp_east_dop = stamped_init, gp_system_id = stamped_init, gp_signal_id = stamped_init,
     gp_last_update_us = 0\<rparr>"

definition sky_view_init :: "nat \<Rightarrow> 'r :: zero sky_view" where
  "sky_view_init capacity = \<lparr>
     sk_source = SrcGpsd, sk_talker_id = [], sk_satellites_in_view = stamped_init,
     sk_satellites_used = stamped_init, sk_observations = replicate capacity gnss_observation_init,
     sk_observation_count = 0, sk_complete = False, sk_sequence = 0, sk_last_update_us = 0\<rparr>"

definition gnss_model_init :: "nat \<Rightarrow> ('r :: zero, 'c :: zero) gnss_model" where
  "gnss_model_init capacity = \<lparr>gm_fix = gnss_fix_init, gm_fix_accuracy = gnss_accuracy_init, gm_dop = gnss_dop_init,
     gm_sky_view = sky_view_init capacity\<rparr>"

end
