(* ===== verification/Rounding.thy ===== *)
theory Rounding
  imports Data_Model Complex_Main "HOL-Library.While_Combinator"
begin

text \<open>
  What the theorems on angles rely on of floating point arithmetic, as a locale over the \<open>Real\<close> of an \<open>arith\<close>: the value of a
  finite number is a real number, comparisons are those of the values, and in the range of angles a result differs from
  the exact one by at most \<open>2\<^sup>-\<^sup>1\<^sup>0\<close>, the half unit in the last place of a \<^verbatim>\<open>float\<close> below \<open>2\<^sup>1\<^sup>5\<close> (a \<^verbatim>\<open>double\<close> is closer). The locale is
  interpreted on exact rationals and on the rounding of IEEE 754 binary32.
\<close>

section \<open>The contract\<close>

locale rounding_arith =
  fixes A :: "('f, 'r, 'c) arith"
    and fin :: "'r \<Rightarrow> bool"
    and val :: "'r \<Rightarrow> real"
  assumes lt_val: "fin a \<Longrightarrow> fin b \<Longrightarrow> r_lt A a b \<longleftrightarrow> val a < val b"
    and le_val: "fin a \<Longrightarrow> fin b \<Longrightarrow> r_le A a b \<longleftrightarrow> val a \<le> val b"
    and int_val: "\<bar>i\<bar> \<le> 2 ^ 31 \<Longrightarrow> fin (r_of_int A i) \<and> \<bar>val (r_of_int A i) - of_int i\<bar> \<le> 128"
    and small_int_val: "\<bar>i\<bar> < 2 ^ 24 \<Longrightarrow> val (r_of_int A i) = of_int i"
    and add_val: "fin a \<Longrightarrow> fin b \<Longrightarrow> \<bar>val a + val b\<bar> < 32768 \<Longrightarrow>
      fin (r_add A a b) \<and> \<bar>val (r_add A a b) - (val a + val b)\<bar> \<le> 1 / 1024"
    and sub_val: "fin a \<Longrightarrow> fin b \<Longrightarrow> \<bar>val a - val b\<bar> < 32768 \<Longrightarrow>
      fin (r_sub A a b) \<and> \<bar>val (r_sub A a b) - (val a - val b)\<bar> \<le> 1 / 1024"
    and sub_sign: "fin a \<Longrightarrow> fin b \<Longrightarrow> val b \<le> val a \<Longrightarrow> \<bar>val a - val b\<bar> < 32768 \<Longrightarrow> 0 \<le> val (r_sub A a b)"
    and div_val: "fin a \<Longrightarrow> fin b \<Longrightarrow> val b \<noteq> 0 \<Longrightarrow> \<bar>val a / val b\<bar> < 32768 \<Longrightarrow>
      fin (r_div A a b) \<and> \<bar>val (r_div A a b) - val a / val b\<bar> \<le> 1 / 1024"

interpretation exact_rounding: rounding_arith exact "\<lambda>x. True" real_of_rat
  by unfold_locales (simp_all add: exact_def of_rat_less of_rat_less_eq of_rat_add of_rat_diff of_rat_divide flip: of_rat_diff)

section \<open>The rounding of binary32\<close>

text \<open>To the nearest integer, a tie to the even one.\<close>

definition round_even :: "real \<Rightarrow> int" where
  "round_even y = (if y - of_int \<lfloor>y\<rfloor> < 1 / 2 then \<lfloor>y\<rfloor>
     else if 1 / 2 < y - of_int \<lfloor>y\<rfloor> then \<lfloor>y\<rfloor> + 1 else if even \<lfloor>y\<rfloor> then \<lfloor>y\<rfloor> else \<lfloor>y\<rfloor> + 1)"

text \<open>The exponent of the last of the 24 binary digits of a number, not below that of the subnormal numbers.\<close>

definition last_place :: "real \<Rightarrow> int" where
  "last_place x = max \<lfloor>log 2 \<bar>x\<bar>\<rfloor> (- 126) - 23"

definition fl32 :: "real \<Rightarrow> real" where
  "fl32 x = of_int (round_even (x / 2 powi last_place x)) * 2 powi last_place x"

definition binary32 :: "(real, real, real) arith" where
  "binary32 = \<lparr>f_of_int = (\<lambda>i. fl32 (of_int i)), f_mul = (\<lambda>a b. fl32 (a * b)), f_div = (\<lambda>a b. fl32 (a / b)), f_neg = uminus, f_lt = (<),
     f_dec = (\<lambda>m k. fl32 (of_int m / 10 ^ k)), r_of_f = (\<lambda>x. x), r_of_int = (\<lambda>i. fl32 (of_int i)), r_add = (\<lambda>a b. fl32 (a + b)),
     r_sub = (\<lambda>a b. fl32 (a - b)), r_div = (\<lambda>a b. fl32 (a / b)), r_neg = uminus, r_lt = (<), r_le = (\<le>),
     r_dec = (\<lambda>m k. fl32 (of_int m / 10 ^ k)), c_of_int = of_int, c_div = (/)\<rparr>"

lemma round_even_near: "\<bar>of_int (round_even y) - y\<bar> \<le> 1 / 2"
  unfolding round_even_def by (auto simp: abs_le_iff)

lemma round_even_int: "y = of_int n \<Longrightarrow> round_even y = n"
  by (simp add: round_even_def)

lemma round_even_nonneg: "0 \<le> y \<Longrightarrow> 0 \<le> round_even y"
  by (auto simp: round_even_def)

lemma fl32_near: "\<bar>fl32 x - x\<bar> \<le> 2 powi (last_place x) / 2"
proof -
  let ?u = "2 powi last_place x :: real"
  have u: "0 < ?u" by simp
  have "fl32 x - x = (of_int (round_even (x / ?u)) - x / ?u) * ?u" using u by (simp add: fl32_def left_diff_distrib)
  then have "\<bar>fl32 x - x\<bar> = \<bar>of_int (round_even (x / ?u)) - x / ?u\<bar> * ?u" using u by (simp only: abs_mult abs_of_pos)
  also have "\<dots> \<le> 1 / 2 * ?u" using round_even_near u by (intro mult_right_mono) simp_all
  finally show ?thesis by simp
qed

lemma fl32_nonneg: "0 \<le> x \<Longrightarrow> 0 \<le> fl32 x"
  using round_even_nonneg [of "x / 2 powi last_place x"] by (simp add: fl32_def)

lemma last_place_le:
  assumes "\<bar>x\<bar> < 2 ^ n" "0 < n"
  shows "last_place x \<le> int n - 24"
proof (cases "x = 0")
  case False
  then have "log 2 \<bar>x\<bar> < real n" using assms by (simp add: log_less_iff powr_realpow)
  then have "\<lfloor>log 2 \<bar>x\<bar>\<rfloor> < int n" by (simp add: floor_less_iff)
  then show ?thesis by (simp add: last_place_def)
next
  case True
  then show ?thesis using assms(2) by (simp add: last_place_def log_def)
qed

lemma fl32_error:
  assumes "\<bar>x\<bar> < 2 ^ n" "0 < n" "int n - 25 = k"
  shows "\<bar>fl32 x - x\<bar> \<le> 2 powi k"
proof -
  have "2 powi last_place x \<le> (2 powi (k + 1) :: real)"
    using last_place_le [OF assms(1,2)] assms(3) by (intro power_int_increasing) simp_all
  then show ?thesis using fl32_near [of x] by (simp add: power_int_add)
qed

lemma fl32_int:
  assumes "\<bar>i\<bar> < 2 ^ 24"
  shows "fl32 (of_int i) = of_int i"
proof -
  have "\<bar>of_int i :: real\<bar> < 2 ^ 24" using assms by (metis of_int_abs of_int_less_iff of_int_numeral of_int_power)
  then have p: "last_place (of_int i) \<le> 0" using last_place_le [of "of_int i" 24] by simp
  let ?n = "nat (- last_place (of_int i))"
  have u: "2 powi last_place (of_int i) = (1 / 2 ^ ?n :: real)" using p by (simp add: power_int_def power_one_over)
  then have "round_even (of_int i / 2 powi last_place (of_int i)) = i * 2 ^ ?n" by (intro round_even_int) simp
  then show ?thesis using u by (simp add: fl32_def)
qed

interpretation binary32_rounding: rounding_arith binary32 "\<lambda>x. True" "\<lambda>x. x"
proof
  fix i :: int
  assume "\<bar>i\<bar> \<le> 2 ^ 31"
  then have "\<bar>of_int i :: real\<bar> \<le> 2 ^ 31" by (metis of_int_abs of_int_le_iff of_int_numeral of_int_power)
  then have "\<bar>of_int i :: real\<bar> < 2 ^ 32" by simp
  from fl32_error [OF this _ refl] show "True \<and> \<bar>r_of_int binary32 i - of_int i\<bar> \<le> 128" by (simp add: binary32_def power_int_def)
next
  fix a b :: real
  have e: "\<bar>fl32 x - x\<bar> \<le> 1 / 1024" if "\<bar>x\<bar> < 32768" for x
    using fl32_error [of x 15 "- 10"] that by (simp add: power_int_def power_one_over)
  show "\<bar>a + b\<bar> < 32768 \<Longrightarrow> True \<and> \<bar>r_add binary32 a b - (a + b)\<bar> \<le> 1 / 1024" using e [of "a + b"] by (simp add: binary32_def)
  show "\<bar>a - b\<bar> < 32768 \<Longrightarrow> True \<and> \<bar>r_sub binary32 a b - (a - b)\<bar> \<le> 1 / 1024" using e [of "a - b"] by (simp add: binary32_def)
  show "\<bar>a / b\<bar> < 32768 \<Longrightarrow> True \<and> \<bar>r_div binary32 a b - a / b\<bar> \<le> 1 / 1024" using e [of "a / b"] by (simp add: binary32_def)
  show "b \<le> a \<Longrightarrow> 0 \<le> r_sub binary32 a b" using fl32_nonneg [of "a - b"] by (simp add: binary32_def)
qed (simp_all add: binary32_def fl32_int)

end
