(* ===== verification/Ubx.thy ===== *)
theory Ubx
  imports Rounding Model_Store Nmea_Values
begin

text \<open>
  The UBX receiver of \<^verbatim>\<open>ubx_receiver.hpp\<close> and its adapter \<^verbatim>\<open>ubx_input.hpp\<close>: the octet state
  machine with its Fletcher checksum, the dispatch of a complete frame, the decoders of NAV-PVT,
  NAV-DOP, NAV-SAT, MON-VER and ACK, and the marks the adapter puts into the model store. The
  payload buffer is the list of the octets received so far, so the index of the code is its length.
  \<open>MaxPayload\<close> and the capacity of the sky view are arguments.
\<close>

unbundle bit_operations_syntax

section \<open>Little-endian fields and calendar\<close>

abbreviation ubx_Sync1 :: u8 where "ubx_Sync1 \<equiv> 0xB5"
abbreviation ubx_Sync2 :: u8 where "ubx_Sync2 \<equiv> 0x62"
abbreviation ClassNav :: u8 where "ClassNav \<equiv> 0x01"
abbreviation ClassAck :: u8 where "ClassAck \<equiv> 0x05"
abbreviation ClassMon :: u8 where "ClassMon \<equiv> 0x0A"
abbreviation NavDop :: u8 where "NavDop \<equiv> 0x04"
abbreviation NavPvt :: u8 where "NavPvt \<equiv> 0x07"
abbreviation NavSat :: u8 where "NavSat \<equiv> 0x35"
abbreviation AckNak :: u8 where "AckNak \<equiv> 0x00"
abbreviation AckAck :: u8 where "AckAck \<equiv> 0x01"
abbreviation MonVer :: u8 where "MonVer \<equiv> 0x04"

abbreviation DefaultMaxPayload :: nat where "DefaultMaxPayload \<equiv> 1024"

type_synonym update_kind = u8

abbreviation UpdateNone :: update_kind where "UpdateNone \<equiv> 0"
abbreviation UpdateFix :: update_kind where "UpdateFix \<equiv> 1"
abbreviation UpdateDop :: update_kind where "UpdateDop \<equiv> 2"
abbreviation UpdateSky :: update_kind where "UpdateSky \<equiv> 4"
abbreviation UpdateVersion :: update_kind where "UpdateVersion \<equiv> 8"
abbreviation UpdateAck :: update_kind where "UpdateAck \<equiv> 16"

definition has_update :: "update_kind \<Rightarrow> update_kind \<Rightarrow> bool" where
  "has_update v b \<longleftrightarrow> v AND b \<noteq> 0"

definition read_u16_le :: "u8 list \<Rightarrow> nat \<Rightarrow> u16" where
  "read_u16_le p i = ucast (p ! i) OR push_bit 8 (ucast (p ! (i + 1)))"

definition read_i16_le :: "u8 list \<Rightarrow> nat \<Rightarrow> int" where
  "read_i16_le p i = sint (read_u16_le p i)"

definition read_u32_le :: "u8 list \<Rightarrow> nat \<Rightarrow> u32" where
  "read_u32_le p i = ucast (p ! i) OR push_bit 8 (ucast (p ! (i + 1))) OR
     push_bit 16 (ucast (p ! (i + 2))) OR push_bit 24 (ucast (p ! (i + 3)))"

definition read_i32_le :: "u8 list \<Rightarrow> nat \<Rightarrow> int" where
  "read_i32_le p i = sint (read_u32_le p i)"

definition utc_seconds_of_day :: "('f, 'r, 'c) arith \<Rightarrow> nat \<Rightarrow> nat \<Rightarrow> nat \<Rightarrow> int \<Rightarrow> 'r" where
  "utc_seconds_of_day A hour minute second nano =
     r_add A (r_of_int A (int (hour * 3600 + minute * 60 + second)))
       (r_div A (r_of_int A nano) (r_of_int A 1000000000))"

definition is_leap_year :: "int \<Rightarrow> bool" where
  "is_leap_year year \<longleftrightarrow> year mod 4 = 0 \<and> year mod 100 \<noteq> 0 \<or> year mod 400 = 0"

definition valid_calendar_date :: "int \<Rightarrow> nat \<Rightarrow> nat \<Rightarrow> bool" where
  "valid_calendar_date year month day =
     (if year < 1970 \<or> month < 1 \<or> 12 < month \<or> day < 1 then False
      else (let maximum = [31, 28, 31, 30, 31, 30, 31, 31, 30, 31, 30, 31] ! (month - 1);
                maximum = (if month = 2 \<and> is_leap_year year then maximum + 1 else maximum)
            in day \<le> maximum))"

text \<open>The two loops of \<^verbatim>\<open>normalize_degrees\<close>, each with a bound on the number of rounds.\<close>

fun turn_up :: "('f, 'r, 'c) arith \<Rightarrow> nat \<Rightarrow> 'r \<Rightarrow> 'r" where
  "turn_up A 0 v = v"
| "turn_up A (Suc n) v = (if r_lt A v (r_of_int A 0) then turn_up A n (r_add A v (r_of_int A 360)) else v)"

fun turn_down :: "('f, 'r, 'c) arith \<Rightarrow> nat \<Rightarrow> 'r \<Rightarrow> 'r" where
  "turn_down A 0 v = v"
| "turn_down A (Suc n) v = (if r_le A (r_of_int A 360) v then turn_down A n (r_sub A v (r_of_int A 360)) else v)"

text \<open>
  An angle of the wire is at most \<open>2\<^sup>3\<^sup>1 / 100000 < 60 * 359\<close> degrees in absolute value, so sixty
  rounds of each loop are enough; \<open>normalize_rounded\<close> below shows that the unbounded loops end with the same
  result, for every arithmetic that rounds no worse than \<^verbatim>\<open>float\<close>.
\<close>

definition normalize_degrees :: "('f, 'r, 'c) arith \<Rightarrow> 'r \<Rightarrow> 'r" where
  "normalize_degrees A v = turn_down A 60 (turn_up A 60 v)"

section \<open>The receiver\<close>

datatype ubx_state = UsSync1 | UsSync2 | UsClass | UsId | UsLength1 | UsLength2 | UsPayload | UsChecksumA | UsChecksumB

record ubx_diagnostics =
  ud_frame_count :: u32
  ud_checksum_error_count :: u32
  ud_oversized_frame_count :: u32
  ud_unsupported_frame_count :: u32
  ud_discarded_byte_count :: u32

record ubx_info =
  ui_software_version :: string
  ui_hardware_version :: string
  ui_protocol_version :: string
  ui_last_ack_class :: u8
  ui_last_ack_id :: u8
  ui_last_ack_accepted :: bool
  ui_ack_valid :: bool

record ubx_receiver =
  ur_state :: ubx_state
  ur_message_class :: u8
  ur_message_id :: u8
  ur_payload_length :: u16
  ur_payload :: "u8 list"
  ur_ck_a :: u8
  ur_ck_b :: u8
  ur_received_ck_a :: u8
  ur_diagnostics :: ubx_diagnostics
  ur_info :: ubx_info

definition ubx_diagnostics_init :: ubx_diagnostics where
  "ubx_diagnostics_init = \<lparr>ud_frame_count = 0, ud_checksum_error_count = 0, ud_oversized_frame_count = 0,
     ud_unsupported_frame_count = 0, ud_discarded_byte_count = 0\<rparr>"

definition ubx_info_init :: ubx_info where
  "ubx_info_init = \<lparr>ui_software_version = [], ui_hardware_version = [], ui_protocol_version = [],
     ui_last_ack_class = 0, ui_last_ack_id = 0, ui_last_ack_accepted = False, ui_ack_valid = False\<rparr>"

definition ubx_init :: ubx_receiver where
  "ubx_init = \<lparr>ur_state = UsSync1, ur_message_class = 0, ur_message_id = 0, ur_payload_length = 0, ur_payload = [],
     ur_ck_a = 0, ur_ck_b = 0, ur_received_ck_a = 0, ur_diagnostics = ubx_diagnostics_init, ur_info = ubx_info_init\<rparr>"

definition ubx_reset_stream :: "ubx_receiver \<Rightarrow> ubx_receiver" where
  "ubx_reset_stream r = r\<lparr>ur_state := UsSync1, ur_payload_length := 0, ur_payload := [], ur_ck_a := 0, ur_ck_b := 0\<rparr>"

definition ubx_checksum :: "u8 \<Rightarrow> ubx_receiver \<Rightarrow> ubx_receiver" where
  "ubx_checksum v r = (let a = ur_ck_a r + v in r\<lparr>ur_ck_a := a, ur_ck_b := ur_ck_b r + a\<rparr>)"

definition start_frame :: "ubx_receiver \<Rightarrow> ubx_receiver" where
  "start_frame r = r\<lparr>ur_state := UsClass, ur_payload_length := 0, ur_payload := [], ur_ck_a := 0, ur_ck_b := 0\<rparr>"

definition count_discarded :: "ubx_receiver \<Rightarrow> ubx_receiver" where
  "count_discarded r = r\<lparr>ur_diagnostics := (ur_diagnostics r)\<lparr>ud_discarded_byte_count := ud_discarded_byte_count (ur_diagnostics r) + 1\<rparr>\<rparr>"

definition count_oversized :: "ubx_receiver \<Rightarrow> ubx_receiver" where
  "count_oversized r = r\<lparr>ur_diagnostics := (ur_diagnostics r)\<lparr>ud_oversized_frame_count := ud_oversized_frame_count (ur_diagnostics r) + 1\<rparr>\<rparr>"

definition count_frame :: "ubx_receiver \<Rightarrow> ubx_receiver" where
  "count_frame r = r\<lparr>ur_diagnostics := (ur_diagnostics r)\<lparr>ud_frame_count := ud_frame_count (ur_diagnostics r) + 1\<rparr>\<rparr>"

definition count_unsupported :: "ubx_receiver \<Rightarrow> ubx_receiver" where
  "count_unsupported r = r\<lparr>ur_diagnostics := (ur_diagnostics r)\<lparr>ud_unsupported_frame_count := ud_unsupported_frame_count (ur_diagnostics r) + 1\<rparr>\<rparr>"

text \<open>A wrong checksum octet may be the first octet of the next frame.\<close>

definition bad_checksum :: "u8 \<Rightarrow> ubx_receiver \<Rightarrow> ubx_receiver" where
  "bad_checksum v r =
     r\<lparr>ur_diagnostics := (ur_diagnostics r)\<lparr>ud_checksum_error_count := ud_checksum_error_count (ur_diagnostics r) + 1\<rparr>,
       ur_state := (if v = ubx_Sync1 then UsSync2 else UsSync1)\<rparr>"

text \<open>
  The state machine: the second component says that the octet completed a frame, which the code
  dispatches at once.
\<close>

definition ubx_step :: "nat \<Rightarrow> ubx_receiver \<Rightarrow> u8 \<Rightarrow> ubx_receiver \<times> bool" where
  "ubx_step max_payload r v =
     (case ur_state r of
        UsSync1 \<Rightarrow> (if v = ubx_Sync1 then r\<lparr>ur_state := UsSync2\<rparr> else count_discarded r, False)
      | UsSync2 \<Rightarrow>
          (if v = ubx_Sync2 then start_frame r
           else if v \<noteq> ubx_Sync1 then count_discarded (r\<lparr>ur_state := UsSync1\<rparr>) else r, False)
      | UsClass \<Rightarrow> ((ubx_checksum v (r\<lparr>ur_message_class := v\<rparr>))\<lparr>ur_state := UsId\<rparr>, False)
      | UsId \<Rightarrow> ((ubx_checksum v (r\<lparr>ur_message_id := v\<rparr>))\<lparr>ur_state := UsLength1\<rparr>, False)
      | UsLength1 \<Rightarrow> ((ubx_checksum v (r\<lparr>ur_payload_length := ucast v\<rparr>))\<lparr>ur_state := UsLength2\<rparr>, False)
      | UsLength2 \<Rightarrow>
          (let r1 = (ubx_checksum v (r\<lparr>ur_payload_length := ur_payload_length r OR push_bit 8 (ucast v)\<rparr>))\<lparr>ur_payload := []\<rparr>
           in (if max_payload < unat (ur_payload_length r1) then (count_oversized r1)\<lparr>ur_state := UsSync1\<rparr>
               else r1\<lparr>ur_state := (if ur_payload_length r1 = 0 then UsChecksumA else UsPayload)\<rparr>, False))
      | UsPayload \<Rightarrow>
          (let r1 = ubx_checksum v (r\<lparr>ur_payload := ur_payload r @ [v]\<rparr>)
           in (if length (ur_payload r1) = unat (ur_payload_length r1) then r1\<lparr>ur_state := UsChecksumA\<rparr> else r1, False))
      | UsChecksumA \<Rightarrow>
          (let r1 = r\<lparr>ur_received_ck_a := v\<rparr>
           in (if v \<noteq> ur_ck_a r1 then bad_checksum v r1 else r1\<lparr>ur_state := UsChecksumB\<rparr>, False))
      | UsChecksumB \<Rightarrow>
          (if v \<noteq> ur_ck_b r then (bad_checksum v r, False)
           else (count_frame (r\<lparr>ur_state := UsSync1\<rparr>), True)))"

section \<open>Decoders\<close>

definition ubx_fix_ok :: "u8 \<Rightarrow> u8 \<Rightarrow> bool" where
  "ubx_fix_ok flags fix_type \<longleftrightarrow> flags AND 0x01 \<noteq> 0 \<and> 1 \<le> fix_type \<and> fix_type \<le> 4"

definition ubx_fix_quality :: "u8 \<Rightarrow> u8 \<Rightarrow> int" where
  "ubx_fix_quality flags fix_type =
     (if ubx_fix_ok flags fix_type
      then (let carrier_solution = drop_bit 6 flags AND 0x03 in
            if carrier_solution = 2 then 4
            else if carrier_solution = 1 then 5
            else if flags AND 0x02 \<noteq> 0 then 2 else 1)
      else 0)"

text \<open>The date and time of NAV-PVT are stored only when the receiver calls both valid and they are a date and a time.\<close>

definition pvt_date_ok :: "u8 list \<Rightarrow> bool" where
  "pvt_date_ok p \<longleftrightarrow> p ! 11 AND 0x03 = 0x03 \<and>
     valid_calendar_date (uint (read_u16_le p 4)) (unat (p ! 6)) (unat (p ! 7)) \<and>
     unat (p ! 8) \<le> 23 \<and> unat (p ! 9) \<le> 59 \<and> unat (p ! 10) \<le> 60"

definition pvt_date :: "('f, 'r, 'c) arith \<Rightarrow> u64 \<Rightarrow> u8 list \<Rightarrow> ('r, 'c) gnss_fix \<Rightarrow> ('r, 'c) gnss_fix" where
  "pvt_date A now_us p fix =
     (if pvt_date_ok p
      then fix\<lparr>gf_timestamp_s := stamp (utc_seconds_of_day A (unat (p ! 8)) (unat (p ! 9)) (unat (p ! 10)) (read_i32_le p 16)) now_us,
               gf_date_year := stamp (uint (read_u16_le p 4)) now_us,
               gf_date_month := stamp (int (unat (p ! 6))) now_us,
               gf_date_day := stamp (int (unat (p ! 7))) now_us\<rparr>
      else fix)"

definition pvt_accuracy :: "('f, 'r, 'c) arith \<Rightarrow> u64 \<Rightarrow> u8 list \<Rightarrow> 'r gnss_accuracy \<Rightarrow> 'r gnss_accuracy" where
  "pvt_accuracy A now_us p accuracy =
     (let scaled = (\<lambda>i k. stamp (r_div A (r_of_int A (uint (read_u32_le p i))) (r_of_int A k)) now_us) in
      accuracy\<lparr>ga_time_accuracy_s := scaled 12 1000000000, ga_horizontal_accuracy_m := scaled 40 1000,
        ga_vertical_accuracy_m := scaled 44 1000, ga_speed_accuracy_m_s := scaled 68 1000,
        ga_track_accuracy_deg := scaled 72 100000,
        ga_pdop := stamp (r_div A (r_of_int A (uint (read_u16_le p 76))) (r_of_int A 100)) now_us\<rparr>)"

text \<open>Position, heights and motion, stored only with a fix.\<close>

definition pvt_solution :: "('f, 'r, 'c) arith \<Rightarrow> u64 \<Rightarrow> u8 list \<Rightarrow> ('r, 'c) gnss_fix \<Rightarrow> ('r, 'c) gnss_fix" where
  "pvt_solution A now_us p fix =
     (let degrees = (\<lambda>i. c_div A (c_of_int A (read_i32_le p i)) (c_of_int A 10000000));
          metres = (\<lambda>i. r_div A (r_of_int A (read_i32_le p i)) (r_of_int A 1000));
          speed_m_s = metres 60;
          fix = fix\<lparr>gf_fix_lon_deg := stamp (degrees 24) now_us, gf_fix_lat_deg := stamp (degrees 28) now_us,
            gf_fix_alt_hae_m := stamp (metres 32) now_us, gf_fix_alt_msl_m := stamp (metres 36) now_us,
            gf_geoidal_separation_m := stamp (r_sub A (metres 32) (metres 36)) now_us,
            gf_speed_kn := stamp (r_div A speed_m_s (r_dec A 5144444444444444 16)) now_us,
            gf_vertical_speed_m_s := stamp (r_div A (r_neg A (r_of_int A (read_i32_le p 56))) (r_of_int A 1000)) now_us,
            gf_track_deg := stamp (normalize_degrees A (r_div A (r_of_int A (read_i32_le p 64)) (r_of_int A 100000))) now_us\<rparr>
      in if 92 \<le> length p \<and> p ! 11 AND 0x08 \<noteq> 0
         then fix\<lparr>gf_declination_deg := stamp (r_div A (r_of_int A (read_i16_le p 88)) (r_of_int A 100)) now_us\<rparr>
         else fix)"

definition apply_nav_pvt ::
  "('f, 'r, 'c) arith \<Rightarrow> u64 \<Rightarrow> sensor_source \<Rightarrow> u8 list \<Rightarrow> ('r, 'c) gnss_model \<Rightarrow> update_kind \<times> ('r, 'c) gnss_model" where
  "apply_nav_pvt A now_us source p model =
     (let fix_type = p ! 20;
          flags = p ! 21;
          fix_ok = ubx_fix_ok flags fix_type;
          fix = (gm_fix model)\<lparr>gf_fix_type := stamp (uint fix_type) now_us,
            gf_fix_quality := stamp (ubx_fix_quality flags fix_type) now_us,
            gf_fix_valid := stamp fix_ok now_us,
            gf_satellites_used := stamp (uint (p ! 23)) now_us\<rparr>;
          dop = (gm_dop model)\<lparr>gp_fix_mode := stamp (if fix_ok then (if fix_type = 2 then 2 else 3) else 1) now_us\<rparr>;
          fix = pvt_date A now_us p fix;
          accuracy = pvt_accuracy A now_us p (gm_fix_accuracy model);
          dop = dop\<lparr>gp_pdop := stamp (sd_value (ga_pdop accuracy)) now_us\<rparr>;
          fix = (if fix_ok then pvt_solution A now_us p fix else fix)
      in (UpdateFix OR UpdateDop,
          model\<lparr>gm_fix := fix\<lparr>gf_source := source, gf_last_update_us := now_us\<rparr>,
                gm_fix_accuracy := accuracy\<lparr>ga_source := source, ga_last_update_us := now_us\<rparr>,
                gm_dop := dop\<lparr>gp_source := source, gp_last_update_us := now_us\<rparr>\<rparr>))"

definition apply_nav_dop ::
  "('f, 'r, 'c) arith \<Rightarrow> u64 \<Rightarrow> sensor_source \<Rightarrow> u8 list \<Rightarrow> ('r, 'c) gnss_model \<Rightarrow> update_kind \<times> ('r, 'c) gnss_model" where
  "apply_nav_dop A now_us source p model =
     (let hundredths = (\<lambda>i. stamp (r_div A (r_of_int A (uint (read_u16_le p i))) (r_of_int A 100)) now_us);
          dop = (gm_dop model)\<lparr>gp_gdop := hundredths 4, gp_pdop := hundredths 6, gp_tdop := hundredths 8,
            gp_vdop := hundredths 10, gp_hdop := hundredths 12, gp_north_dop := hundredths 14,
            gp_east_dop := hundredths 16\<rparr>;
          fix = (gm_fix model)\<lparr>gf_hdop := stamp (sd_value (gp_hdop dop)) now_us\<rparr>;
          accuracy = (gm_fix_accuracy model)\<lparr>ga_gdop := stamp (sd_value (gp_gdop dop)) now_us,
            ga_pdop := stamp (sd_value (gp_pdop dop)) now_us, ga_tdop := stamp (sd_value (gp_tdop dop)) now_us,
            ga_hdop := stamp (sd_value (gp_hdop dop)) now_us, ga_vdop := stamp (sd_value (gp_vdop dop)) now_us,
            ga_north_dop := stamp (sd_value (gp_north_dop dop)) now_us,
            ga_east_dop := stamp (sd_value (gp_east_dop dop)) now_us\<rparr>
      in (UpdateDop,
          model\<lparr>gm_dop := dop\<lparr>gp_source := source, gp_last_update_us := now_us\<rparr>,
                gm_fix := fix\<lparr>gf_source := source, gf_last_update_us := now_us\<rparr>,
                gm_fix_accuracy := accuracy\<lparr>ga_source := source, ga_last_update_us := now_us\<rparr>\<rparr>))"

definition sat_used :: "u8 list \<Rightarrow> nat \<Rightarrow> bool" where
  "sat_used p item \<longleftrightarrow> read_u32_le p (item + 8) AND push_bit 3 1 \<noteq> 0"

definition sat_observation :: "('f, 'r, 'c) arith \<Rightarrow> u8 list \<Rightarrow> nat \<Rightarrow> 'r gnss_observation \<Rightarrow> 'r gnss_observation" where
  "sat_observation A p item ob =
     (let flags = read_u32_le p (item + 8) in
      ob\<lparr>go_system_id := uint (p ! item), go_satellite_id := uint (p ! (item + 1)), go_satellite_id_valid := True,
        go_cn0_db_hz := r_of_int A (uint (p ! (item + 2))), go_cn0_valid := True,
        go_elevation_deg := r_of_int A (sint (p ! (item + 3))), go_elevation_valid := True,
        go_azimuth_true_deg := r_of_int A (read_i16_le p (item + 4)), go_azimuth_valid := True,
        go_used := sat_used p item,
        go_healthy := (drop_bit 4 flags AND 0x03 = 1),
        go_differential_corrections := (flags AND push_bit 6 1 \<noteq> 0)\<rparr>)"

text \<open>The loop over the \<open>n\<close> satellites from number \<open>i\<close> on: it counts all of them and stores those that fit.\<close>

fun sat_loop ::
  "('f, 'r, 'c) arith \<Rightarrow> u8 list \<Rightarrow> nat \<Rightarrow> nat \<Rightarrow> nat \<Rightarrow> int \<Rightarrow> 'r gnss_observation list \<Rightarrow> int \<times> 'r gnss_observation list" where
  "sat_loop A p stored_count 0 i used_count obs = (used_count, obs)"
| "sat_loop A p stored_count (Suc n) i used_count obs =
     (let item = 8 + i * 12;
          used_count = (if sat_used p item then used_count + 1 else used_count);
          obs = (if stored_count \<le> i then obs else obs[i := sat_observation A p item (obs ! i)])
      in sat_loop A p stored_count n (i + 1) used_count obs)"

definition apply_nav_sat ::
  "('f, 'r :: zero, 'c) arith \<Rightarrow> nat \<Rightarrow> u64 \<Rightarrow> sensor_source \<Rightarrow> u8 list \<Rightarrow> ('r, 'c) gnss_model \<Rightarrow> update_kind \<times> ('r, 'c) gnss_model" where
  "apply_nav_sat A capacity now_us source p model =
     (let declared_count = unat (p ! 5);
          available_count = (length p - 8) div 12;
          count = (if declared_count < available_count then declared_count else available_count);
          sky = (clear_observations capacity (gm_sky_view model))\<lparr>sk_talker_id := ''UB''\<rparr>;
          stored_count = (if count < capacity then count else capacity);
          (used_count, obs) = sat_loop A p stored_count count 0 0 (sk_observations sky);
          sky = sky\<lparr>sk_observations := obs, sk_observation_count := of_nat stored_count,
            sk_satellites_in_view := stamp (int count) now_us, sk_satellites_used := stamp used_count now_us,
            sk_complete := True, sk_sequence := sk_sequence sky + 1, sk_source := source, sk_last_update_us := now_us\<rparr>
      in (UpdateSky,
          model\<lparr>gm_sky_view := sky,
                gm_fix := (gm_fix model)\<lparr>gf_satellites_used := stamp used_count now_us, gf_source := source,
                  gf_last_update_us := now_us\<rparr>\<rparr>))"

text \<open>The text up to the first zero octet and to the room of the destination, without trailing spaces.\<close>

definition copy_fixed_text :: "nat \<Rightarrow> u8 list \<Rightarrow> string" where
  "copy_fixed_text destination_size src =
     rev (dropWhile (\<lambda>c. c = CHR '' '')
       (rev (map (\<lambda>b. char_of_octet b) (take (destination_size - 1) (takeWhile (\<lambda>b. b \<noteq> 0) src)))))"

fun mon_ver_extensions :: "nat \<Rightarrow> u8 list \<Rightarrow> string \<Rightarrow> string" where
  "mon_ver_extensions 0 rest version = version"
| "mon_ver_extensions (Suc n) rest version =
     mon_ver_extensions n (drop 30 rest)
       (if take 8 rest = octets ''PROTVER='' then copy_fixed_text 16 (drop 8 (take 30 rest)) else version)"

definition apply_mon_ver :: "u8 list \<Rightarrow> ubx_info \<Rightarrow> update_kind \<times> ubx_info" where
  "apply_mon_ver p info =
     (UpdateVersion,
      info\<lparr>ui_software_version := copy_fixed_text 31 (take 30 p),
           ui_hardware_version := copy_fixed_text 11 (take 10 (drop 30 p)),
           ui_protocol_version := mon_ver_extensions ((length p - 40) div 30) (drop 40 p) (ui_protocol_version info)\<rparr>)"

definition apply_ack :: "u8 \<Rightarrow> u8 list \<Rightarrow> ubx_info \<Rightarrow> update_kind \<times> ubx_info" where
  "apply_ack message_id p info =
     (UpdateAck,
      info\<lparr>ui_last_ack_class := p ! 0, ui_last_ack_id := p ! 1, ui_last_ack_accepted := (message_id = AckAck),
           ui_ack_valid := True\<rparr>)"

definition ubx_dispatch ::
  "('f, 'r :: zero, 'c) arith \<Rightarrow> nat \<Rightarrow> u64 \<Rightarrow> sensor_source \<Rightarrow> ubx_receiver \<Rightarrow> ('r, 'c) gnss_model \<Rightarrow>
   update_kind \<times> ubx_receiver \<times> ('r, 'c) gnss_model" where
  "ubx_dispatch A capacity now_us source r model =
     (let c = ur_message_class r; i = ur_message_id r; n = unat (ur_payload_length r); p = ur_payload r in
      if c = ClassNav \<and> i = NavPvt \<and> 92 \<le> n then (let (k, m) = apply_nav_pvt A now_us source p model in (k, r, m))
      else if c = ClassNav \<and> i = NavDop \<and> 18 \<le> n then (let (k, m) = apply_nav_dop A now_us source p model in (k, r, m))
      else if c = ClassNav \<and> i = NavSat \<and> 8 \<le> n then (let (k, m) = apply_nav_sat A capacity now_us source p model in (k, r, m))
      else if c = ClassMon \<and> i = MonVer \<and> 40 \<le> n
        then (let (k, info) = apply_mon_ver p (ur_info r) in (k, r\<lparr>ur_info := info\<rparr>, model))
      else if c = ClassAck \<and> (i = AckAck \<or> i = AckNak) \<and> 2 \<le> n
        then (let (k, info) = apply_ack i p (ur_info r) in (k, r\<lparr>ur_info := info\<rparr>, model))
      else (UpdateNone, count_unsupported r, model))"

definition accept_byte ::
  "('f, 'r :: zero, 'c) arith \<Rightarrow> nat \<Rightarrow> nat \<Rightarrow> u64 \<Rightarrow> sensor_source \<Rightarrow> u8 \<Rightarrow> ubx_receiver \<Rightarrow> ('r, 'c) gnss_model \<Rightarrow>
   update_kind \<times> ubx_receiver \<times> ('r, 'c) gnss_model" where
  "accept_byte A max_payload capacity now_us source v r model =
     (let (r, complete) = ubx_step max_payload r v in
      if complete then ubx_dispatch A capacity now_us source r model else (UpdateNone, r, model))"

fun accept_octets ::
  "('f, 'r :: zero, 'c) arith \<Rightarrow> nat \<Rightarrow> nat \<Rightarrow> u64 \<Rightarrow> sensor_source \<Rightarrow> u8 list \<Rightarrow> ubx_receiver \<Rightarrow> ('r, 'c) gnss_model \<Rightarrow>
   update_kind \<times> ubx_receiver \<times> ('r, 'c) gnss_model" where
  "accept_octets A max_payload capacity now_us source [] r model = (UpdateNone, r, model)"
| "accept_octets A max_payload capacity now_us source (b # bs) r model =
     (let (k1, r, model) = accept_byte A max_payload capacity now_us source b r model;
          (k2, r, model) = accept_octets A max_payload capacity now_us source bs r model
      in (k1 OR k2, r, model))"

definition accept_datagram ::
  "('f, 'r :: zero, 'c) arith \<Rightarrow> nat \<Rightarrow> nat \<Rightarrow> u64 \<Rightarrow> sensor_source \<Rightarrow> u8 list \<Rightarrow> ubx_receiver \<Rightarrow> ('r, 'c) gnss_model \<Rightarrow>
   update_kind \<times> ubx_receiver \<times> ('r, 'c) gnss_model" where
  "accept_datagram = accept_octets"

section \<open>The adapter to the model store\<close>

definition field_named :: "string \<Rightarrow> model_field" where
  "field_named name = (case index_where (\<lambda>f. f = name) model_fields of Some i \<Rightarrow> of_nat i | None \<Rightarrow> 0)"

definition mark_if_updated :: "u64 \<Rightarrow> 'a stamped \<Rightarrow> bool" where
  "mark_if_updated now_us s \<longleftrightarrow> sd_valid s \<and> sd_last_update_us s = now_us"

text \<open>The marks a group makes, in order: the field and the test on the model that guards it.\<close>

type_synonym 'm mark_test = "string \<times> (u64 \<Rightarrow> 'm \<Rightarrow> bool)"

definition mark_fix :: "('r, 'c) gnss_model mark_test list" where
  "mark_fix =
     [(''GnssFixLatDeg'', \<lambda>t m. mark_if_updated t (gf_fix_lat_deg (gm_fix m))),
      (''GnssFixLonDeg'', \<lambda>t m. mark_if_updated t (gf_fix_lon_deg (gm_fix m))),
      (''GnssSpeedKn'', \<lambda>t m. mark_if_updated t (gf_speed_kn (gm_fix m))),
      (''GnssTrackDeg'', \<lambda>t m. mark_if_updated t (gf_track_deg (gm_fix m))),
      (''GnssVerticalSpeedMs'', \<lambda>t m. mark_if_updated t (gf_vertical_speed_m_s (gm_fix m))),
      (''GnssTimestampS'', \<lambda>t m. mark_if_updated t (gf_timestamp_s (gm_fix m))),
      (''GnssDateDay'', \<lambda>t m. mark_if_updated t (gf_date_day (gm_fix m))),
      (''GnssDateMonth'', \<lambda>t m. mark_if_updated t (gf_date_month (gm_fix m))),
      (''GnssDateYear'', \<lambda>t m. mark_if_updated t (gf_date_year (gm_fix m))),
      (''GnssFixQuality'', \<lambda>t m. mark_if_updated t (gf_fix_quality (gm_fix m))),
      (''GnssFixType'', \<lambda>t m. mark_if_updated t (gf_fix_type (gm_fix m))),
      (''GnssFixValid'', \<lambda>t m. mark_if_updated t (gf_fix_valid (gm_fix m))),
      (''GnssSatellitesUsed'', \<lambda>t m. mark_if_updated t (gf_satellites_used (gm_fix m))),
      (''GnssDeclinationDeg'', \<lambda>t m. mark_if_updated t (gf_declination_deg (gm_fix m))),
      (''GnssFixAltitudeMslM'', \<lambda>t m. mark_if_updated t (gf_fix_alt_msl_m (gm_fix m))),
      (''GnssFixAltitudeHaeM'', \<lambda>t m. mark_if_updated t (gf_fix_alt_hae_m (gm_fix m))),
      (''GnssGeoidalSeparationM'', \<lambda>t m. mark_if_updated t (gf_geoidal_separation_m (gm_fix m))),
      (''GnssFixAccuracyHorizontalM'', \<lambda>t m. mark_if_updated t (ga_horizontal_accuracy_m (gm_fix_accuracy m))),
      (''GnssFixAccuracyVerticalM'', \<lambda>t m. mark_if_updated t (ga_vertical_accuracy_m (gm_fix_accuracy m))),
      (''GnssFixAccuracySpeedMs'', \<lambda>t m. mark_if_updated t (ga_speed_accuracy_m_s (gm_fix_accuracy m))),
      (''GnssFixAccuracyTrackDeg'', \<lambda>t m. mark_if_updated t (ga_track_accuracy_deg (gm_fix_accuracy m))),
      (''GnssFixAccuracyTimeS'', \<lambda>t m. mark_if_updated t (ga_time_accuracy_s (gm_fix_accuracy m)))]"

definition mark_dop :: "('r, 'c) gnss_model mark_test list" where
  "mark_dop =
     [(''GnssHdop'', \<lambda>t m. mark_if_updated t (gf_hdop (gm_fix m))),
      (''GnssDopActiveFixMode'', \<lambda>t m. mark_if_updated t (gp_fix_mode (gm_dop m))),
      (''GnssDopActivePdop'', \<lambda>t m. mark_if_updated t (gp_pdop (gm_dop m))),
      (''GnssDopActiveVdop'', \<lambda>t m. mark_if_updated t (gp_vdop (gm_dop m))),
      (''GnssFixAccuracyPdop'', \<lambda>t m. mark_if_updated t (ga_pdop (gm_fix_accuracy m))),
      (''GnssFixAccuracyVdop'', \<lambda>t m. mark_if_updated t (ga_vdop (gm_fix_accuracy m)))]"

definition sky_changed :: "u64 \<Rightarrow> ('r, 'c) gnss_model \<Rightarrow> bool" where
  "sky_changed t m \<longleftrightarrow> sk_last_update_us (gm_sky_view m) = t \<and> 0 < sk_observation_count (gm_sky_view m)"

definition mark_sky :: "('r, 'c) gnss_model mark_test list" where
  "mark_sky =
     [(''GnssSatellitesUsed'', \<lambda>t m. mark_if_updated t (gf_satellites_used (gm_fix m))),
      (''GnssSatellitesInView'', \<lambda>t m. mark_if_updated t (sk_satellites_in_view (gm_sky_view m))),
      (''GnssSatellitePrn0'', sky_changed), (''GnssSatelliteElevationDeg0'', sky_changed),
      (''GnssSatelliteAzimuthDeg0'', sky_changed), (''GnssSatelliteSnrDb0'', sky_changed)]"

fun run_marks ::
  "nat \<Rightarrow> ('m, 'p, 'd, 'o) mark_observer option \<Rightarrow> source_id \<Rightarrow> u64 \<Rightarrow> 'm mark_test list \<Rightarrow>
   ('m, 'p, 'd) model_store \<times> 'o \<Rightarrow> ('m, 'p, 'd) model_store \<times> 'o" where
  "run_marks cap observer source_id now_us [] p = p"
| "run_marks cap observer source_id now_us ((name, test) # tests) p =
     run_marks cap observer source_id now_us tests
       (if test now_us (st_model (fst p))
        then mark_changed cap observer (field_named name) source_id now_us (fst p) (snd p) else p)"

definition mark_changes ::
  "nat \<Rightarrow> (('r, 'c) gnss_model, 'p, 'd, 'o) mark_observer option \<Rightarrow> update_kind \<Rightarrow> source_id \<Rightarrow> u64 \<Rightarrow>
   (('r, 'c) gnss_model, 'p, 'd) model_store \<times> 'o \<Rightarrow> (('r, 'c) gnss_model, 'p, 'd) model_store \<times> 'o" where
  "mark_changes cap observer updates source_id now_us p =
     (let p = (if has_update updates UpdateFix then run_marks cap observer source_id now_us mark_fix p else p);
          p = (if has_update updates UpdateDop then run_marks cap observer source_id now_us mark_dop p else p)
      in if has_update updates UpdateSky then run_marks cap observer source_id now_us mark_sky p else p)"

definition ubx_feed_octets ::
  "('f, 'r :: zero, 'c) arith \<Rightarrow> nat \<Rightarrow> nat \<Rightarrow> nat \<Rightarrow> (('r, 'c) gnss_model, 'p, 'd, 'o) mark_observer option \<Rightarrow>
   u8 list \<Rightarrow> source_id \<Rightarrow> u64 \<Rightarrow> sensor_source \<Rightarrow>
   ubx_receiver \<Rightarrow> (('r, 'c) gnss_model, 'p, 'd) model_store \<times> 'o \<Rightarrow>
   bool \<times> ubx_receiver \<times> (('r, 'c) gnss_model, 'p, 'd) model_store \<times> 'o" where
  "ubx_feed_octets A max_payload capacity cap observer bytes source_id now_us source r p =
     (let (st, ob) = p;
          (updates, r, m) = accept_octets A max_payload capacity now_us source bytes r (st_model st);
          p = mark_changes cap observer updates source_id now_us (st\<lparr>st_model := m\<rparr>, ob)
      in (updates \<noteq> UpdateNone, r, p))"

definition ubx_feed_datagram ::
  "('f, 'r :: zero, 'c) arith \<Rightarrow> nat \<Rightarrow> nat \<Rightarrow> nat \<Rightarrow> (('r, 'c) gnss_model, 'p, 'd, 'o) mark_observer option \<Rightarrow>
   u8 list \<Rightarrow> source_id \<Rightarrow> u64 \<Rightarrow> sensor_source \<Rightarrow>
   ubx_receiver \<Rightarrow> (('r, 'c) gnss_model, 'p, 'd) model_store \<times> 'o \<Rightarrow>
   bool \<times> ubx_receiver \<times> (('r, 'c) gnss_model, 'p, 'd) model_store \<times> 'o" where
  "ubx_feed_datagram = ubx_feed_octets"

section \<open>The frame format and the state machine\<close>

type_synonym ubx_frame = "u8 \<times> u8 \<times> u8 list"

definition fletcher :: "u8 list \<Rightarrow> u8 \<times> u8 \<Rightarrow> u8 \<times> u8" where
  "fletcher bs ab = fold (\<lambda>v (a, b). (a + v, b + (a + v))) bs ab"

definition ubx_body :: "ubx_frame \<Rightarrow> u8 list" where
  "ubx_body f = (case f of (c, i, p) \<Rightarrow> [c, i, of_nat (length p), of_nat (length p div 256)] @ p)"

definition ubx_encode :: "ubx_frame \<Rightarrow> u8 list" where
  "ubx_encode f = (let (a, b) = fletcher (ubx_body f) (0, 0) in [ubx_Sync1, ubx_Sync2] @ ubx_body f @ [a, b])"

definition ubx_frame_ok :: "nat \<Rightarrow> ubx_frame \<Rightarrow> bool" where
  "ubx_frame_ok max_payload f \<longleftrightarrow> length (snd (snd f)) \<le> max_payload \<and> length (snd (snd f)) < 65536"

text \<open>What the buffer may hold in each state: the write index of the code stays inside the buffer.\<close>

definition ubx_inv :: "nat \<Rightarrow> ubx_receiver \<Rightarrow> bool" where
  "ubx_inv max_payload r \<longleftrightarrow>
     (ur_state r = UsPayload \<longrightarrow> length (ur_payload r) < unat (ur_payload_length r) \<and> unat (ur_payload_length r) \<le> max_payload) \<and>
     (ur_state r \<in> {UsChecksumA, UsChecksumB} \<longrightarrow>
        length (ur_payload r) = unat (ur_payload_length r) \<and> unat (ur_payload_length r) \<le> max_payload)"

lemmas ubx_step_defs = ubx_step_def ubx_checksum_def start_frame_def count_discarded_def count_oversized_def
  count_frame_def bad_checksum_def Let_def

lemma ubx_step_inv [sk_inv]:
  assumes "ubx_inv max_payload r"
  shows "ubx_inv max_payload (fst (ubx_step max_payload r v))"
  using assms
  by (cases "ur_state r") (auto simp: ubx_step_defs ubx_inv_def split: if_splits simp flip: unat_gt_0)

lemma ubx_step_complete:
  assumes "ubx_inv max_payload r" "snd (ubx_step max_payload r v)"
  shows "ur_state r = UsChecksumB" "length (ur_payload (fst (ubx_step max_payload r v))) =
    unat (ur_payload_length (fst (ubx_step max_payload r v)))"
  using assms by (cases "ur_state r"; simp add: ubx_step_defs ubx_inv_def split: if_splits)+

lemma ubx_step_info: "ur_info (fst (ubx_step max_payload r v)) = ur_info r"
  by (cases "ur_state r") (simp_all add: ubx_step_defs)

lemma dispatch_keeps [simp]:
  "ur_state (fst (snd (ubx_dispatch A capacity now src r m))) = ur_state r"
  "ur_payload (fst (snd (ubx_dispatch A capacity now src r m))) = ur_payload r"
  "ur_payload_length (fst (snd (ubx_dispatch A capacity now src r m))) = ur_payload_length r"
  by (simp_all add: ubx_dispatch_def Let_def case_prod_beta count_unsupported_def)

lemma accept_octets_append:
  "accept_octets A mp cap now src (xs @ ys) r m =
     (let (k1, r, m) = accept_octets A mp cap now src xs r m; (k2, r, m) = accept_octets A mp cap now src ys r m
      in (k1 OR k2, r, m))"
  by (induction xs arbitrary: r m) (simp_all add: case_prod_beta Let_def or.assoc)

lemma accept_octets_quiet:
  "\<not> snd (ubx_step mp r b) \<Longrightarrow>
   accept_octets A mp cap now src (b # bs) r m = accept_octets A mp cap now src bs (fst (ubx_step mp r b)) m"
  by (auto simp: accept_byte_def Let_def split: prod.splits)

lemma accept_octets_last:
  "snd (ubx_step mp r b) \<Longrightarrow>
   accept_octets A mp cap now src [b] r m = ubx_dispatch A cap now src (fst (ubx_step mp r b)) m"
  by (auto simp: accept_byte_def Let_def split: prod.splits)

lemma fletcher_Nil [simp]: "fletcher [] ab = ab"
  and fletcher_Cons [simp]: "fletcher (v # vs) (a, b) = fletcher vs (a + v, b + (a + v))"
  and fletcher_append: "fletcher (us @ vs) ab = fletcher vs (fletcher us ab)"
  by (simp_all add: fletcher_def)

lemma fletcher_fst: "fst (fletcher vs ab) = fst ab + sum_list vs"
  by (induction vs arbitrary: ab) (auto simp: add.assoc)

text \<open>The receiver after the payload \<open>vs\<close> that completes the announced length.\<close>

lemma accept_payload:
  "ur_state r = UsPayload \<Longrightarrow> length (ur_payload r) + length vs = unat (ur_payload_length r) \<Longrightarrow> vs \<noteq> [] \<Longrightarrow>
   accept_octets A mp cap now src (vs @ rest) r m =
   accept_octets A mp cap now src rest
     (r\<lparr>ur_state := UsChecksumA, ur_payload := ur_payload r @ vs, ur_ck_a := fst (fletcher vs (ur_ck_a r, ur_ck_b r)),
        ur_ck_b := snd (fletcher vs (ur_ck_a r, ur_ck_b r))\<rparr>) m"
proof (induction vs arbitrary: r)
  case (Cons v vs)
  let ?r = "fst (ubx_step mp r v)"
  let ?fin = "\<lambda>r vs. r\<lparr>ur_state := UsChecksumA, ur_payload := ur_payload r @ vs,
    ur_ck_a := fst (fletcher vs (ur_ck_a r, ur_ck_b r)), ur_ck_b := snd (fletcher vs (ur_ck_a r, ur_ck_b r))\<rparr>"
  have q: "accept_octets A mp cap now src ((v # vs) @ rest) r m = accept_octets A mp cap now src (vs @ rest) ?r m"
    using Cons.prems(1) by (simp only: append_Cons) (rule accept_octets_quiet, simp add: ubx_step_def Let_def)
  show ?case
  proof (cases "vs = []")
    case True
    then have "?r = ?fin r [v]" using Cons.prems by (simp add: ubx_step_def ubx_checksum_def Let_def)
    then show ?thesis using q True by (simp only: append_Nil)
  next
    case False
    then have "length (ur_payload r) + 1 \<noteq> unat (ur_payload_length r)" using Cons.prems(2) by (cases vs) auto
    then have r: "?r = ubx_checksum v (r\<lparr>ur_payload := ur_payload r @ [v]\<rparr>)"
      using Cons.prems(1) by (simp add: ubx_step_def ubx_checksum_def Let_def)
    have "?fin ?r vs = ?fin r (v # vs)" unfolding r by (simp add: ubx_checksum_def Let_def)
    moreover have "accept_octets A mp cap now src (vs @ rest) ?r m = accept_octets A mp cap now src rest (?fin ?r vs) m"
      using False Cons.prems unfolding r by (intro Cons.IH) (simp_all add: ubx_checksum_def Let_def)
    ultimately show ?thesis using q by (simp only:)
  qed
qed simp

lemma length_octets:
  assumes "n < 65536"
  shows "unat (ucast (of_nat n :: u8) OR push_bit 8 (ucast (of_nat (n div 256) :: u8)) :: u16) = n"
proof -
  have "unat (ucast (of_nat n :: u8) OR push_bit 8 (ucast (of_nat (n div 256) :: u8)) :: u16) =
    take_bit 8 n OR push_bit 8 (take_bit 8 (n div 256))"
    using assms by (simp add: unsigned_or_eq unsigned_push_bit_eq unsigned_ucast_eq unsigned_of_nat take_bit_push_bit)
  also have "\<dots> = take_bit 16 n"
  proof -
    have d: "n div 256 = drop_bit 8 n" by (simp add: drop_bit_eq_div)
    show ?thesis unfolding d by (rule bit_eqI) (auto simp: bit_simps)
  qed
  also have "\<dots> = n" using assms by (simp add: take_bit_nat_eq_self)
  finally show ?thesis .
qed

lemma length_octets_word:
  "n < 65536 \<Longrightarrow> ucast (of_nat n :: u8) OR push_bit 8 (ucast (of_nat (n div 256) :: u8)) = (of_nat n :: u16)"
  by (subst word_unat_eq_iff) (simp only: length_octets, simp add: unat_of_nat take_bit_nat_eq_self)

text \<open>The receiver when the octets before the checksum of a frame are in.\<close>

definition ubx_loaded :: "ubx_frame \<Rightarrow> ubx_receiver \<Rightarrow> ubx_receiver" where
  "ubx_loaded f r = (case f of (c, i, p) \<Rightarrow>
     r\<lparr>ur_state := UsChecksumA, ur_message_class := c, ur_message_id := i, ur_payload_length := of_nat (length p),
       ur_payload := p, ur_ck_a := fst (fletcher (ubx_body f) (0, 0)), ur_ck_b := snd (fletcher (ubx_body f) (0, 0))\<rparr>)"

lemma accept_header:
  assumes "ur_state r = UsSync1" "length p \<le> mp" "length p < 65536"
  shows "accept_octets A mp cap now src
      ([ubx_Sync1, ubx_Sync2, c, i, of_nat (length p), of_nat (length p div 256)] @ rest) r m =
    accept_octets A mp cap now src rest
      (r\<lparr>ur_state := (if p = [] then UsChecksumA else UsPayload), ur_message_class := c, ur_message_id := i,
         ur_payload_length := of_nat (length p), ur_payload := [],
         ur_ck_a := fst (fletcher (ubx_body (c, i, [])) (0, 0)) + (of_nat (length p) + of_nat (length p div 256)),
         ur_ck_b := snd (fletcher [c, i, of_nat (length p), of_nat (length p div 256)] (0, 0))\<rparr>) m"
    (is "_ = accept_octets A mp cap now src rest ?r m")
proof -
  let ?f = "\<lambda>r b. fst (ubx_step mp r b)"
  let ?bs = "[ubx_Sync1, ubx_Sync2, c, i, of_nat (length p), of_nat (length p div 256)]"
  have n: "unat (of_nat (length p) :: u16) = length p" "of_nat (length p) = (0 :: u16) \<longleftrightarrow> p = []"
    using assms(3) by (simp_all add: unat_of_nat take_bit_nat_eq_self word_unat_eq_iff)
  have "accept_octets A mp cap now src (?bs @ rest) r m = accept_octets A mp cap now src rest (foldl ?f r ?bs) m"
    using assms
    by (simp add: accept_octets_quiet ubx_step_defs length_octets_word n del: accept_octets.simps)
  moreover have "foldl ?f r ?bs = ?r"
    using assms by (simp add: ubx_step_defs length_octets_word n ubx_body_def)
  ultimately show ?thesis by (simp only:)
qed

lemma accept_frame_body:
  assumes "ur_state r = UsSync1" "ubx_frame_ok mp f"
  shows "accept_octets A mp cap now src ([ubx_Sync1, ubx_Sync2] @ ubx_body f @ rest) r m =
    accept_octets A mp cap now src rest (ubx_loaded f r) m"
proof -
  obtain c i p where f: "f = (c, i, p)" by (cases f)
  have p: "length p \<le> mp" "length p < 65536" using assms(2) by (simp_all add: ubx_frame_ok_def f)
  let ?r = "r\<lparr>ur_state := (if p = [] then UsChecksumA else UsPayload), ur_message_class := c, ur_message_id := i,
         ur_payload_length := of_nat (length p), ur_payload := [],
         ur_ck_a := fst (fletcher (ubx_body (c, i, [])) (0, 0)) + (of_nat (length p) + of_nat (length p div 256)),
         ur_ck_b := snd (fletcher [c, i, of_nat (length p), of_nat (length p div 256)] (0, 0))\<rparr>"
  let ?fin = "?r\<lparr>ur_state := UsChecksumA, ur_payload := ur_payload ?r @ p, ur_ck_a := fst (fletcher p (ur_ck_a ?r, ur_ck_b ?r)),
        ur_ck_b := snd (fletcher p (ur_ck_a ?r, ur_ck_b ?r))\<rparr>"
  have "accept_octets A mp cap now src ([ubx_Sync1, ubx_Sync2] @ ubx_body f @ rest) r m =
    accept_octets A mp cap now src (p @ rest) ?r m"
    using accept_header [OF assms(1) p, of A cap now src c i "p @ rest" m] by (simp only: f ubx_body_def prod.case append_assoc append_Cons append_Nil)
  also have "\<dots> = accept_octets A mp cap now src rest ?fin m"
  proof (cases "p = []")
    case False
    then show ?thesis using p by (intro accept_payload) (simp_all add: unat_of_nat take_bit_nat_eq_self)
  next
    case True
    then have "?r = ?fin" by simp
    then show ?thesis using True by (simp only: append_Nil)
  qed
  also have "?fin = ubx_loaded f r"
    by (simp add: ubx_loaded_def f ubx_body_def fletcher_append add.assoc)
  finally show ?thesis .
qed

definition ubx_complete :: "ubx_frame \<Rightarrow> ubx_receiver \<Rightarrow> ubx_receiver" where
  "ubx_complete f r = count_frame ((ubx_loaded f r)\<lparr>ur_received_ck_a := fst (fletcher (ubx_body f) (0, 0)), ur_state := UsSync1\<rparr>)"

lemma accept_frame:
  assumes "ur_state r = UsSync1" "ubx_frame_ok mp f"
  shows "accept_octets A mp cap now src (ubx_encode f) r m = ubx_dispatch A cap now src (ubx_complete f r) m"
proof -
  obtain a b where ab: "fletcher (ubx_body f) (0, 0) = (a, b)" by fastforce
  let ?r = "ubx_loaded f r"
  let ?r1 = "?r\<lparr>ur_received_ck_a := a, ur_state := UsChecksumB\<rparr>"
  have "accept_octets A mp cap now src (ubx_encode f) r m = accept_octets A mp cap now src [a, b] ?r m"
    using accept_frame_body [OF assms, of A cap now src "[a, b]" m] by (simp only: ubx_encode_def ab Let_def prod.case)
  also have "\<dots> = accept_octets A mp cap now src [b] (fst (ubx_step mp ?r a)) m"
    by (rule accept_octets_quiet) (simp add: ubx_loaded_def ubx_step_defs ab split: prod.splits)
  also have "fst (ubx_step mp ?r a) = ?r1"
    by (simp add: ubx_loaded_def ubx_step_defs ab split: prod.splits)
  also have "accept_octets A mp cap now src [b] ?r1 m = ubx_dispatch A cap now src (fst (ubx_step mp ?r1 b)) m"
    by (rule accept_octets_last) (simp add: ubx_loaded_def ubx_step_defs ab split: prod.splits)
  also have "fst (ubx_step mp ?r1 b) = ubx_complete f r"
    by (simp add: ubx_complete_def ubx_loaded_def ubx_step_defs ab split: prod.splits)
  finally show ?thesis .
qed

text \<open>What a stream of frames does: each is dispatched on its own, the update flags are collected.\<close>

definition ubx_handle ::
  "('f, 'r :: zero, 'c) arith \<Rightarrow> nat \<Rightarrow> u64 \<Rightarrow> sensor_source \<Rightarrow> ubx_frame \<Rightarrow>
   update_kind \<times> ubx_receiver \<times> ('r, 'c) gnss_model \<Rightarrow> update_kind \<times> ubx_receiver \<times> ('r, 'c) gnss_model" where
  "ubx_handle A cap now src f s =
     (let (k, r, m) = s; (k', r', m') = ubx_dispatch A cap now src (ubx_complete f r) m in (k OR k', r', m'))"

definition ubx_reads ::
  "('f, 'r :: zero, 'c) arith \<Rightarrow> nat \<Rightarrow> nat \<Rightarrow> u64 \<Rightarrow> sensor_source \<Rightarrow> u8 list list \<Rightarrow>
   update_kind \<times> ubx_receiver \<times> ('r, 'c) gnss_model \<Rightarrow> update_kind \<times> ubx_receiver \<times> ('r, 'c) gnss_model" where
  "ubx_reads A mp cap now src chunks s =
     fold (\<lambda>bs (k, r, m). let (k', r', m') = accept_octets A mp cap now src bs r m in (k OR k', r', m')) chunks s"

lemma ubx_reads_concat:
  "ubx_reads A mp cap now src chunks s =
     (let (k', r', m') = accept_octets A mp cap now src (concat chunks) (fst (snd s)) (snd (snd s)) in (fst s OR k', r', m'))"
proof (induction chunks arbitrary: s)
  case (Cons bs chunks)
  then show ?case
    by (simp add: ubx_reads_def accept_octets_append case_prod_beta Let_def or.assoc)
qed (simp add: ubx_reads_def case_prod_beta)

lemma ubx_complete_ready: "ur_state (ubx_complete f r) = UsSync1"
  by (simp add: ubx_complete_def ubx_loaded_def count_frame_def split: prod.splits)

lemma ubx_frames_run:
  assumes "\<And>f. f \<in> set fs \<Longrightarrow> ubx_frame_ok mp f" "ur_state (fst (snd s)) = UsSync1"
  shows "(let (k', r', m') = accept_octets A mp cap now src (concat (map ubx_encode fs)) (fst (snd s)) (snd (snd s))
          in (fst s OR k', r', m')) =
    fold (ubx_handle A cap now src) fs s"
  using assms
proof (induction fs arbitrary: s)
  case (Cons f fs)
  let ?s = "ubx_handle A cap now src f s"
  let ?d = "ubx_dispatch A cap now src (ubx_complete f (fst (snd s))) (snd (snd s))"
  have "accept_octets A mp cap now src (ubx_encode f) (fst (snd s)) (snd (snd s)) = ?d"
    using Cons.prems by (intro accept_frame) simp_all
  moreover have "ur_state (fst (snd ?s)) = UsSync1" by (simp add: ubx_handle_def case_prod_beta Let_def ubx_complete_ready)
  moreover have "?s = (fst s OR fst ?d, snd ?d)" by (simp add: ubx_handle_def case_prod_beta Let_def)
  ultimately show ?case
    using Cons.IH [of ?s] Cons.prems(1)
    by (simp add: accept_octets_append case_prod_beta Let_def or.assoc)
qed (simp add: case_prod_beta)

section \<open>Corrupted octets\<close>

lemma sum_octets_update:
  "k < length xs \<Longrightarrow> sum_list (xs[k := v]) = sum_list xs + (v - xs ! k)" for xs :: "u8 list"
proof (induction xs arbitrary: k)
  case (Cons x xs)
  then show ?case by (cases k) simp_all
qed simp

lemma corrupted_body:
  assumes "ubx_frame_ok mp f" "k < length (ubx_body f)" "k \<noteq> 2" "k \<noteq> 3"
  shows "\<exists>f'. ubx_frame_ok mp f' \<and> ubx_body f' = (ubx_body f)[k := v]"
proof -
  obtain c i p where f: "f = (c, i, p)" by (cases f)
  consider "k = 0" | "k = 1" | j where "k = Suc (Suc (Suc (Suc j)))" "j < length p"
    using assms(2-4) that(3) [of "k - 4"] by (fastforce simp: ubx_body_def f)
  then show ?thesis
  proof cases
    case 1
    then show ?thesis using assms(1) by (intro exI [of _ "(v, i, p)"]) (simp add: f ubx_frame_ok_def ubx_body_def)
  next
    case 2
    then show ?thesis using assms(1) by (intro exI [of _ "(c, v, p)"]) (simp add: f ubx_frame_ok_def ubx_body_def)
  next
    case 3
    then show ?thesis using assms(1)
      by (intro exI [of _ "(c, i, p[j := v])"]) (simp add: f ubx_frame_ok_def ubx_body_def)
  qed
qed

text \<open>Between frames no octet completes a frame, and no counter but that of discarded octets moves.\<close>

lemma hunting_step:
  assumes "ur_state r \<in> {UsSync1, UsSync2}"
  shows "accept_octets A mp cap now src [b] r m = (UpdateNone, fst (ubx_step mp r b), m)"
    and "ud_checksum_error_count (ur_diagnostics (fst (ubx_step mp r b))) = ud_checksum_error_count (ur_diagnostics r)"
    and "ud_frame_count (ur_diagnostics (fst (ubx_step mp r b))) = ud_frame_count (ur_diagnostics r)"
proof -
  have "\<not> snd (ubx_step mp r b)" using assms by (auto simp: ubx_step_def)
  then show "accept_octets A mp cap now src [b] r m = (UpdateNone, fst (ubx_step mp r b), m)"
    by (simp add: accept_octets_quiet del: accept_octets.simps(2))
  show "ud_checksum_error_count (ur_diagnostics (fst (ubx_step mp r b))) = ud_checksum_error_count (ur_diagnostics r)"
    "ud_frame_count (ur_diagnostics (fst (ubx_step mp r b))) = ud_frame_count (ur_diagnostics r)"
    using assms by (auto simp: ubx_step_defs)
qed

lemma wrong_checksum_run:
  assumes "ur_state r = UsSync1" "ubx_frame_ok mp f" "a \<noteq> fst (fletcher (ubx_body f) (0, 0))"
  shows "\<exists>r'. accept_octets A mp cap now src ([ubx_Sync1, ubx_Sync2] @ ubx_body f @ [a, b]) r m = (UpdateNone, r', m) \<and>
    ud_checksum_error_count (ur_diagnostics r') = ud_checksum_error_count (ur_diagnostics r) + 1 \<and>
    ud_frame_count (ur_diagnostics r') = ud_frame_count (ur_diagnostics r)"
proof -
  let ?r1 = "fst (ubx_step mp (ubx_loaded f r) a)"
  let ?r2 = "fst (ubx_step mp ?r1 b)"
  have step: "\<not> snd (ubx_step mp (ubx_loaded f r) a)" "ur_state ?r1 \<in> {UsSync1, UsSync2}"
    "ud_checksum_error_count (ur_diagnostics ?r1) = ud_checksum_error_count (ur_diagnostics r) + 1"
    "ud_frame_count (ur_diagnostics ?r1) = ud_frame_count (ur_diagnostics r)"
    using assms(3) by (auto simp: ubx_loaded_def ubx_step_defs split: prod.splits)
  have "accept_octets A mp cap now src ([ubx_Sync1, ubx_Sync2] @ ubx_body f @ [a, b]) r m =
      accept_octets A mp cap now src [b] ?r1 m"
    using accept_frame_body [OF assms(1,2), of A cap now src "[a, b]" m] step(1)
    by (simp only: accept_octets_quiet not_False_eq_True)
  also have "\<dots> = (UpdateNone, ?r2, m)" by (rule hunting_step) (rule step(2))
  finally show ?thesis
    using hunting_step(2,3) [OF step(2), of mp b] step(3,4) by (intro exI [of _ ?r2]) simp
qed

section \<open>What the decoders keep of the model\<close>

text \<open>A stored date is a day of the Gregorian calendar, counted from 1 January 1970 (\<open>civil_date\<close> of \<open>Nmea_Values\<close>).\<close>

definition date_wf :: "('r, 'c) gnss_fix \<Rightarrow> bool" where
  "date_wf fix \<longleftrightarrow>
     (sd_valid (gf_date_year fix) \<and> sd_valid (gf_date_month fix) \<and> sd_valid (gf_date_day fix) \<longrightarrow>
      (\<exists>n. civil_date n = (sd_value (gf_date_year fix), sd_value (gf_date_month fix), sd_value (gf_date_day fix))))"

definition quality_wf :: "('r, 'c) gnss_fix \<Rightarrow> bool" where
  "quality_wf fix \<longleftrightarrow> (sd_valid (gf_fix_quality fix) \<longrightarrow> sd_value (gf_fix_quality fix) \<in> {0, 1, 2, 4, 5})"

definition mode_wf :: "'r gnss_dop \<Rightarrow> bool" where
  "mode_wf dop \<longleftrightarrow> (sd_valid (gp_fix_mode dop) \<longrightarrow> sd_value (gp_fix_mode dop) \<in> {1, 2, 3})"

text \<open>The sky view holds a satellite at exactly the places below its count.\<close>

definition sky_wf :: "nat \<Rightarrow> 'r sky_view \<Rightarrow> bool" where
  "sky_wf capacity sky \<longleftrightarrow> length (sk_observations sky) = capacity \<and> unat (sk_observation_count sky) \<le> capacity \<and>
     (\<forall>i < capacity. go_satellite_id_valid (sk_observations sky ! i) \<longleftrightarrow> i < unat (sk_observation_count sky))"

definition gnss_wf :: "nat \<Rightarrow> ('r, 'c) gnss_model \<Rightarrow> bool" where
  "gnss_wf capacity m \<longleftrightarrow> date_wf (gm_fix m) \<and> quality_wf (gm_fix m) \<and> mode_wf (gm_dop m) \<and> sky_wf capacity (gm_sky_view m)"

definition info_wf :: "ubx_info \<Rightarrow> bool" where
  "info_wf info \<longleftrightarrow> length (ui_software_version info) < 31 \<and> length (ui_hardware_version info) < 11 \<and>
     length (ui_protocol_version info) < 16"

lemmas ubx_wf_defs = date_wf_def quality_wf_def mode_wf_def sky_wf_def

lemma gnss_model_init_wf: "gnss_wf capacity (gnss_model_init capacity)"
  by (simp add: gnss_wf_def ubx_wf_defs gnss_model_init_def gnss_fix_init_def gnss_dop_init_def sky_view_init_def gnss_observation_init_def)

lemma fix_quality_range: "ubx_fix_quality flags ty \<in> {0, 1, 2, 4, 5}"
  by (simp add: ubx_fix_quality_def Let_def)

text \<open>The code's table of months and rule of leap years against counting days.\<close>

lemma valid_calendar_date_civil:
  assumes "valid_calendar_date year month day"
  shows "\<exists>n. civil_date n = (year, int month, int day)"
proof (rule civil_date_reaches)
  have c: "1970 \<le> year" "month \<in> {1..12}" "1 \<le> day" using assms by (auto simp: valid_calendar_date_def split: if_splits)
  have leap: "is_leap_year year = leap_year year" by (auto simp: is_leap_year_def leap_year_def)
  have "month \<in> {1, 2, 3, 4, 5, 6, 7, 8, 9, 10, 11, 12}" using c(2) unfolding atLeastAtMost_iff insert_iff empty_iff by presburger
  then show "date_ok (year, int month, int day)"
    using assms c by (auto simp: valid_calendar_date_def date_ok_def month_days_def leap Let_def split: if_splits)
qed

lemma pvt_date_wf: "date_wf fix \<Longrightarrow> date_wf (pvt_date A now p fix)"
proof -
  assume wf: "date_wf fix"
  show ?thesis
  proof (cases "pvt_date_ok p")
    case True
    then show ?thesis using valid_calendar_date_civil [of "uint (read_u16_le p 4)" "unat (p ! 6)" "unat (p ! 7)"]
      by (simp add: date_wf_def pvt_date_def pvt_date_ok_def)
  qed (use wf in \<open>simp add: pvt_date_def\<close>)
qed

lemma pvt_date_quality [simp]: "gf_fix_quality (pvt_date A now p fix) = gf_fix_quality fix"
  by (simp add: pvt_date_def)

lemma pvt_solution_keeps [simp]:
  "gf_fix_quality (pvt_solution A now p fix) = gf_fix_quality fix"
  "gf_date_year (pvt_solution A now p fix) = gf_date_year fix"
  "gf_date_month (pvt_solution A now p fix) = gf_date_month fix"
  "gf_date_day (pvt_solution A now p fix) = gf_date_day fix"
  by (simp_all add: pvt_solution_def Let_def)

lemma date_wf_keeps [simp]:
  "date_wf (fix\<lparr>gf_source := src, gf_last_update_us := now\<rparr>) = date_wf fix"
  "date_wf (pvt_solution A now p fix) = date_wf fix"
  by (simp_all add: date_wf_def)

lemma nav_pvt_wf:
  assumes "gnss_wf capacity m"
  shows "gnss_wf capacity (snd (apply_nav_pvt A now src p m))"
proof -
  let ?fix = "(gm_fix m)\<lparr>gf_fix_type := stamp (uint (p ! 20)) now, gf_fix_quality := stamp (ubx_fix_quality (p ! 21) (p ! 20)) now,
     gf_fix_valid := stamp (ubx_fix_ok (p ! 21) (p ! 20)) now, gf_satellites_used := stamp (uint (p ! 23)) now\<rparr>"
  have "date_wf ?fix" using assms by (simp add: gnss_wf_def date_wf_def)
  then have "date_wf (pvt_date A now p ?fix)" by (rule pvt_date_wf)
  then have "date_wf (gm_fix (snd (apply_nav_pvt A now src p m)))"
    by (cases "ubx_fix_ok (p ! 21) (p ! 20)") (simp_all add: apply_nav_pvt_def Let_def)
  moreover have "quality_wf (gm_fix (snd (apply_nav_pvt A now src p m)))"
    using fix_quality_range [of "p ! 21" "p ! 20"] by (simp add: apply_nav_pvt_def Let_def quality_wf_def)
  ultimately show ?thesis
    using assms by (simp add: gnss_wf_def apply_nav_pvt_def Let_def mode_wf_def)
qed

lemma sat_loop_length: "length (snd (sat_loop A p stored n i used obs)) = length obs"
  by (induction n arbitrary: i used obs) (simp_all add: Let_def)

lemma sat_loop_valid:
  "j < length obs \<Longrightarrow> go_satellite_id_valid (snd (sat_loop A p stored n i used obs) ! j) \<longleftrightarrow>
     go_satellite_id_valid (obs ! j) \<or> i \<le> j \<and> j < i + n \<and> j < stored"
proof (induction n arbitrary: i used obs)
  case (Suc n)
  then show ?case
    by (cases "stored \<le> i"; cases "i = j") (auto simp: Let_def sat_observation_def)
qed auto

lemma nav_sat_wf:
  assumes "gnss_wf capacity m" "capacity < 65536"
  shows "gnss_wf capacity (snd (apply_nav_sat A capacity now src p m))"
proof -
  define count where "count = (if unat (p ! 5) < (length p - 8) div 12 then unat (p ! 5) else (length p - 8) div 12)"
  define stored where "stored = (if count < capacity then count else capacity)"
  let ?sky = "gm_sky_view (snd (apply_nav_sat A capacity now src p m))"
  have u: "unat (of_nat stored :: u16) = stored" using assms(2) by (simp add: stored_def unat_of_nat take_bit_nat_eq_self)
  have le: "stored \<le> capacity" "stored \<le> count" by (simp_all add: stored_def)
  have sky: "sk_observations ?sky = snd (sat_loop A p stored count 0 0 (replicate capacity gnss_observation_init))"
      "sk_observation_count ?sky = of_nat stored"
    unfolding apply_nav_sat_def Let_def case_prod_beta count_def [symmetric] stored_def [symmetric] by (simp_all add: clear_observations_def)
  have "sky_wf capacity ?sky"
    using le by (auto simp: sky_wf_def sky u sat_loop_length sat_loop_valid gnss_observation_init_def)
  then show ?thesis
    using assms(1) by (simp add: gnss_wf_def apply_nav_sat_def Let_def case_prod_beta date_wf_def quality_wf_def mode_wf_def)
qed

lemma copy_fixed_text_length: "0 < n \<Longrightarrow> length (copy_fixed_text n src) < n"
proof -
  assume "0 < n"
  have "length (copy_fixed_text n src) \<le> length (take (n - 1) (takeWhile (\<lambda>b. b \<noteq> 0) src))"
    unfolding copy_fixed_text_def by (simp only: length_rev) (rule order_trans, rule length_dropWhile_le, simp)
  also have "\<dots> \<le> n - 1" by simp
  finally show ?thesis using \<open>0 < n\<close> by simp
qed

lemma mon_ver_extensions_length: "length v < 16 \<Longrightarrow> length (mon_ver_extensions n rest v) < 16"
  by (induction n rest v rule: mon_ver_extensions.induct) (simp_all add: copy_fixed_text_length)

lemma dispatch_wf:
  assumes "gnss_wf capacity m" "info_wf (ur_info r)" "capacity < 65536"
  shows "gnss_wf capacity (snd (snd (ubx_dispatch A capacity now src r m)))"
    and "info_wf (ur_info (fst (snd (ubx_dispatch A capacity now src r m))))"
proof -
  have "gnss_wf capacity (snd (apply_nav_dop A now src (ur_payload r) m))"
    using assms(1) by (simp add: gnss_wf_def apply_nav_dop_def Let_def ubx_wf_defs)
  then show "gnss_wf capacity (snd (snd (ubx_dispatch A capacity now src r m)))"
    using assms(1) nav_pvt_wf [OF assms(1), of A now src "ur_payload r"] nav_sat_wf [OF assms(1,3), of A now src "ur_payload r"]
    by (simp add: ubx_dispatch_def Let_def case_prod_beta)
  show "info_wf (ur_info (fst (snd (ubx_dispatch A capacity now src r m))))"
    using assms(2) mon_ver_extensions_length
    by (simp add: ubx_dispatch_def Let_def case_prod_beta info_wf_def apply_mon_ver_def apply_ack_def count_unsupported_def
        copy_fixed_text_length)
qed

lemma dispatch_inv: "ubx_inv mp r \<Longrightarrow> ubx_inv mp (fst (snd (ubx_dispatch A capacity now src r m)))"
  by (simp add: ubx_inv_def)

lemma accept_byte_wf:
  assumes "gnss_wf capacity m" "info_wf (ur_info r)" "ubx_inv mp r" "capacity < 65536"
  shows "gnss_wf capacity (snd (snd (accept_byte A mp capacity now src b r m)))"
    and "info_wf (ur_info (fst (snd (accept_byte A mp capacity now src b r m))))"
    and "ubx_inv mp (fst (snd (accept_byte A mp capacity now src b r m)))"
  using assms ubx_step_inv [of mp r b] dispatch_inv [of mp "fst (ubx_step mp r b)" A capacity now src m] ubx_step_info [of mp r b]
    dispatch_wf [OF assms(1) _ assms(4), of "fst (ubx_step mp r b)" A now src]
  by (simp_all add: accept_byte_def Let_def case_prod_beta)

section \<open>Normalised angles\<close>

text \<open>A loop that has left its guard after \<open>n\<close> bounded rounds is the unbounded loop of the code.\<close>

lemma turn_up_while:
  "\<not> r_lt A (turn_up A n v) (r_of_int A 0) \<Longrightarrow>
   while_option (\<lambda>v. r_lt A v (r_of_int A 0)) (\<lambda>v. r_add A v (r_of_int A 360)) v = Some (turn_up A n v)"
proof (induction n arbitrary: v)
  case (Suc n)
  then show ?case by (subst while_option_unfold) (auto split: if_splits)
qed (subst while_option_unfold, simp)

lemma turn_down_while:
  "\<not> r_le A (r_of_int A 360) (turn_down A n v) \<Longrightarrow>
   while_option (\<lambda>v. r_le A (r_of_int A 360) v) (\<lambda>v. r_sub A v (r_of_int A 360)) v = Some (turn_down A n v)"
proof (induction n arbitrary: v)
  case (Suc n)
  then show ?case by (subst while_option_unfold) (auto split: if_splits)
qed (subst while_option_unfold, simp)

context rounding_arith
begin

lemma const_val: "fin (r_of_int A 0)" "val (r_of_int A 0) = 0" "fin (r_of_int A 360)" "val (r_of_int A 360) = 360"
  "fin (r_of_int A 100000)" "val (r_of_int A 100000) = 100000"
  using int_val [of 0] int_val [of 360] int_val [of 100000] small_int_val [of 0] small_int_val [of 360] small_int_val [of 100000] by simp_all

lemma turn_up_rounded:
  "fin v \<Longrightarrow> - (359 * real n) \<le> val v \<Longrightarrow> \<bar>val v\<bar> \<le> 21475 \<Longrightarrow>
   \<exists>k \<le> n. fin (turn_up A n v) \<and> 0 \<le> val (turn_up A n v) \<and> val (turn_up A n v) \<le> max (val v) 361 \<and>
     \<bar>val (turn_up A n v) - (val v + 360 * real k)\<bar> \<le> real k / 1024"
proof (induction n arbitrary: v)
  case (Suc n)
  let ?w = "r_add A v (r_of_int A 360)"
  show ?case
  proof (cases "val v < 0")
    case True
    have w: "fin ?w" "\<bar>val ?w - (val v + 360)\<bar> \<le> 1 / 1024" using add_val [of v "r_of_int A 360"] Suc.prems const_val True by auto
    then have "- (359 * real n) \<le> val ?w" "\<bar>val ?w\<bar> \<le> 21475" "val ?w \<le> 361"
      using Suc.prems True unfolding of_nat_Suc distrib_left by linarith+
    then obtain k where k: "k \<le> n" "fin (turn_up A n ?w)" "0 \<le> val (turn_up A n ?w)" "val (turn_up A n ?w) \<le> 361"
      "\<bar>val (turn_up A n ?w) - (val ?w + 360 * real k)\<bar> \<le> real k / 1024" using Suc.IH [OF w(1)] by fastforce
    have "\<bar>val (turn_up A n ?w) - (val v + 360 * real (Suc k))\<bar> \<le> real (Suc k) / 1024" using k(5) w(2) unfolding of_nat_Suc distrib_left add_divide_distrib by linarith
    then show ?thesis using k True Suc.prems(1) const_val by (intro exI [of _ "Suc k"]) (simp add: lt_val)
  next
    case False
    then show ?thesis using Suc.prems const_val by (intro exI [of _ 0]) (simp add: lt_val)
  qed
qed (intro exI [of _ 0], simp)

lemma turn_down_rounded:
  "fin v \<Longrightarrow> 0 \<le> val v \<Longrightarrow> val v < 360 + 359 * real n \<Longrightarrow> val v \<le> 21475 \<Longrightarrow>
   \<exists>k \<le> n. fin (turn_down A n v) \<and> 0 \<le> val (turn_down A n v) \<and> val (turn_down A n v) < 360 \<and>
     \<bar>val (turn_down A n v) - (val v - 360 * real k)\<bar> \<le> real k / 1024"
proof (induction n arbitrary: v)
  case (Suc n)
  let ?w = "r_sub A v (r_of_int A 360)"
  show ?case
  proof (cases "360 \<le> val v")
    case True
    have w: "fin ?w" "\<bar>val ?w - (val v - 360)\<bar> \<le> 1 / 1024" "0 \<le> val ?w"
      using sub_val [of v "r_of_int A 360"] sub_sign [of v "r_of_int A 360"] Suc.prems const_val True by auto
    then have "val ?w < 360 + 359 * real n" "val ?w \<le> 21475"
      using Suc.prems True unfolding of_nat_Suc distrib_left by linarith+
    then obtain k where k: "k \<le> n" "fin (turn_down A n ?w)" "0 \<le> val (turn_down A n ?w)" "val (turn_down A n ?w) < 360"
      "\<bar>val (turn_down A n ?w) - (val ?w - 360 * real k)\<bar> \<le> real k / 1024" using Suc.IH [OF w(1,3)] by fastforce
    have "\<bar>val (turn_down A n ?w) - (val v - 360 * real (Suc k))\<bar> \<le> real (Suc k) / 1024" using k(5) w(2) unfolding of_nat_Suc distrib_left add_divide_distrib by linarith
    then show ?thesis using k True Suc.prems(1) const_val by (intro exI [of _ "Suc k"]) (simp add: le_val)
  next
    case False
    then show ?thesis using Suc.prems const_val by (intro exI [of _ 0]) (simp add: le_val)
  qed
qed (intro exI [of _ 0], simp)

lemma normalize_rounded:
  assumes "fin v" "\<bar>val v\<bar> \<le> 21475"
  shows "while_option (\<lambda>v. r_lt A v (r_of_int A 0)) (\<lambda>v. r_add A v (r_of_int A 360)) v = Some (turn_up A 60 v)"
    and "while_option (\<lambda>v. r_le A (r_of_int A 360) v) (\<lambda>v. r_sub A v (r_of_int A 360)) (turn_up A 60 v) = Some (normalize_degrees A v)"
    and "0 \<le> val (normalize_degrees A v) \<and> val (normalize_degrees A v) < 360"
    and "\<exists>k :: int. \<bar>val (normalize_degrees A v) - (val v + 360 * of_int k)\<bar> \<le> 120 / 1024"
proof -
  have low: "- (359 * real 60) \<le> val v" using assms(2) by simp
  obtain i where i: "i \<le> 60" "fin (turn_up A 60 v)" "0 \<le> val (turn_up A 60 v)" "val (turn_up A 60 v) \<le> max (val v) 361"
    "\<bar>val (turn_up A 60 v) - (val v + 360 * real i)\<bar> \<le> real i / 1024"
    using turn_up_rounded [of v 60] assms low by auto
  have high: "val (turn_up A 60 v) \<le> 21475" using i(4) assms(2) by linarith
  obtain j where j: "j \<le> 60" "fin (normalize_degrees A v)" "0 \<le> val (normalize_degrees A v)" "val (normalize_degrees A v) < 360"
    "\<bar>val (normalize_degrees A v) - (val (turn_up A 60 v) - 360 * real j)\<bar> \<le> real j / 1024"
    using turn_down_rounded [OF i(2,3), of 60] high unfolding normalize_degrees_def [symmetric] by auto
  show "while_option (\<lambda>v. r_lt A v (r_of_int A 0)) (\<lambda>v. r_add A v (r_of_int A 360)) v = Some (turn_up A 60 v)"
    using i const_val by (intro turn_up_while) (simp add: lt_val)
  show "while_option (\<lambda>v. r_le A (r_of_int A 360) v) (\<lambda>v. r_sub A v (r_of_int A 360)) (turn_up A 60 v) = Some (normalize_degrees A v)"
    using j const_val unfolding normalize_degrees_def by (intro turn_down_while) (simp add: le_val)
  show "0 \<le> val (normalize_degrees A v) \<and> val (normalize_degrees A v) < 360" using j by simp
  have "real i \<le> 60" "real j \<le> 60" using i(1) j(1) by simp_all
  then have "\<bar>val (normalize_degrees A v) - (val v + 360 * of_int (int i - int j))\<bar> \<le> 120 / 1024"
    using i(5) j(5) unfolding of_int_diff of_int_of_nat_eq right_diff_distrib by linarith
  then show "\<exists>k :: int. \<bar>val (normalize_degrees A v) - (val v + 360 * of_int k)\<bar> \<le> 120 / 1024" by blast
qed

text \<open>The angle of a message: a 32 bit number of hundred-thousandths of a degree.\<close>

lemma raw_angle:
  assumes "- (2 ^ 31) \<le> raw" "raw < 2 ^ 31"
  defines "v \<equiv> r_div A (r_of_int A raw) (r_of_int A 100000)"
  shows "fin v" "\<bar>val v\<bar> \<le> 21475" "\<bar>val v - of_int raw / 100000\<bar> \<le> 1 / 400"
proof -
  have "of_int (- (2 ^ 31)) \<le> (of_int raw :: real)" "(of_int raw :: real) < of_int (2 ^ 31)"
    using assms(1,2) by (simp_all only: of_int_le_iff of_int_less_iff)
  then have b: "\<bar>of_int raw :: real\<bar> \<le> 2147483648" by simp
  have i: "fin (r_of_int A raw)" "\<bar>val (r_of_int A raw) - of_int raw\<bar> \<le> 128" using int_val [of raw] assms(1,2) by (auto simp: abs_le_iff)
  then have "\<bar>val (r_of_int A raw) / 100000\<bar> < 32768" using b by linarith
  then have d: "fin v" "\<bar>val v - val (r_of_int A raw) / 100000\<bar> \<le> 1 / 1024"
    using div_val [of "r_of_int A raw" "r_of_int A 100000"] i(1) const_val unfolding v_def by simp_all
  then show "fin v" "\<bar>val v\<bar> \<le> 21475" "\<bar>val v - of_int raw / 100000\<bar> \<le> 1 / 400" using b i(2) by linarith+
qed

end

section \<open>The marks of the adapter\<close>

text \<open>The fields a list of tests marks on a model.\<close>

definition passing :: "u64 \<Rightarrow> 'm \<Rightarrow> 'm mark_test list \<Rightarrow> model_field list" where
  "passing now m tests = map (\<lambda>(name, test). field_named name) (filter (\<lambda>(name, test). test now m) tests)"

lemma passing_simps [simp]:
  "passing now m [] = []"
  "passing now m ((name, test) # tests) = (if test now m then field_named name # passing now m tests else passing now m tests)"
  "passing now m (ts @ us) = passing now m ts @ passing now m us"
  by (simp_all add: passing_def)

context mark_observer_law
begin

lemma run_marks_effect:
  assumes "st_inv cap sv_cap (fst p)"
  shows "st_inv cap sv_cap (fst (run_marks cap (Some observer) s now tests p)) \<and>
    st_model (fst (run_marks cap (Some observer) s now tests p)) = st_model (fst p) \<and>
    (\<forall>g. has_value g (fst (run_marks cap (Some observer) s now tests p)) \<longleftrightarrow>
       has_value g (fst p) \<or> unat g < field_count \<and> g \<in> set (passing now (st_model (fst p)) tests)) \<and>
    (\<forall>g. source_id_for g (fst (run_marks cap (Some observer) s now tests p)) =
       (if unat g < field_count \<and> g \<in> set (passing now (st_model (fst p)) tests) then s else source_id_for g (fst p)))"
  using assms
proof (induction tests arbitrary: p)
  case (Cons t tests)
  obtain name test where t: "t = (name, test)" by (cases t)
  let ?p = "if test now (st_model (fst p)) then mark_changed cap (Some observer) (field_named name) s now (fst p) (snd p) else p"
  have "st_inv cap sv_cap (fst ?p)" using Cons.prems mark_inv [of cap "fst p"] by simp
  from Cons.IH [OF this] show ?case
    using mark_functional [OF Cons.prems refl, where f = "field_named name" and s = s and now = now and ob = "snd p"]
    by (cases "test now (st_model (fst p))") (auto simp: t)
qed simp

end

text \<open>The groups of marks that an update selects.\<close>

definition mark_groups :: "update_kind \<Rightarrow> ('r, 'c) gnss_model mark_test list" where
  "mark_groups updates = (if has_update updates UpdateFix then mark_fix else []) @
     (if has_update updates UpdateDop then mark_dop else []) @ (if has_update updates UpdateSky then mark_sky else [])"

lemma run_marks_append:
  "run_marks cap ob s now (ts @ us) p = run_marks cap ob s now us (run_marks cap ob s now ts p)"
  by (induction cap ob s now ts p rule: run_marks.induct) simp_all

lemma mark_changes_groups: "mark_changes cap ob updates s now p = run_marks cap ob s now (mark_groups updates) p"
  by (simp add: mark_changes_def mark_groups_def Let_def run_marks_append)

section \<open>What the marks should be\<close>

text \<open>
  The reference: for each field of a GNSS value, the member of the model that \<^verbatim>\<open>signalk_mapper.hpp\<close> publishes under it
  (\<^verbatim>\<open>map_field\<close>). An entry has the name of the field, whether the member of the second model differs from that of the first,
  and whether the member carries a given time. A member that describes the first satellite counts only when there is one.
\<close>

type_synonym 'm member_entry = "string \<times> ('m \<Rightarrow> 'm \<Rightarrow> bool) \<times> (u64 \<Rightarrow> 'm \<Rightarrow> bool)"

definition stamped_member :: "string \<Rightarrow> ('m \<Rightarrow> 'a stamped) \<Rightarrow> 'm member_entry" where
  "stamped_member name f = (name, \<lambda>m m'. f m' \<noteq> f m, \<lambda>t m. sd_valid (f m) \<and> sd_last_update_us (f m) = t)"

definition satellite0 :: "('r gnss_observation \<Rightarrow> 'v) \<Rightarrow> ('r, 'c) gnss_model \<Rightarrow> ('v \<times> u64) option" where
  "satellite0 part m = (if 0 < sk_observation_count (gm_sky_view m)
     then Some (part (sk_observations (gm_sky_view m) ! 0), sk_last_update_us (gm_sky_view m)) else None)"

definition satellite_member :: "string \<Rightarrow> ('r gnss_observation \<Rightarrow> 'v) \<Rightarrow> ('r, 'c) gnss_model member_entry" where
  "satellite_member name part = (name, \<lambda>m m'. satellite0 part m' \<noteq> satellite0 part m \<and> satellite0 part m' \<noteq> None,
     \<lambda>t m. \<exists>v. satellite0 part m = Some (v, t))"

definition gnss_members :: "('r, 'c) gnss_model member_entry list" where
  "gnss_members =
     [stamped_member ''GnssFixLatDeg'' (\<lambda>m. gf_fix_lat_deg (gm_fix m)),
      stamped_member ''GnssFixLonDeg'' (\<lambda>m. gf_fix_lon_deg (gm_fix m)),
      stamped_member ''GnssFixAltitudeHaeM'' (\<lambda>m. gf_fix_alt_hae_m (gm_fix m)),
      stamped_member ''GnssSpeedKn'' (\<lambda>m. gf_speed_kn (gm_fix m)),
      stamped_member ''GnssTrackDeg'' (\<lambda>m. gf_track_deg (gm_fix m)),
      stamped_member ''GnssVerticalSpeedMs'' (\<lambda>m. gf_vertical_speed_m_s (gm_fix m)),
      stamped_member ''GnssTimestampS'' (\<lambda>m. gf_timestamp_s (gm_fix m)),
      stamped_member ''GnssDateDay'' (\<lambda>m. gf_date_day (gm_fix m)),
      stamped_member ''GnssDateMonth'' (\<lambda>m. gf_date_month (gm_fix m)),
      stamped_member ''GnssDateYear'' (\<lambda>m. gf_date_year (gm_fix m)),
      stamped_member ''GnssFixQuality'' (\<lambda>m. gf_fix_quality (gm_fix m)),
      stamped_member ''GnssFixType'' (\<lambda>m. gf_fix_type (gm_fix m)),
      stamped_member ''GnssFixValid'' (\<lambda>m. gf_fix_valid (gm_fix m)),
      stamped_member ''GnssSatellitesUsed'' (\<lambda>m. gf_satellites_used (gm_fix m)),
      stamped_member ''GnssHdop'' (\<lambda>m. gf_hdop (gm_fix m)),
      stamped_member ''GnssDgpsStationId'' (\<lambda>m. gf_dgps_station_id (gm_fix m)),
      stamped_member ''GnssDeclinationDeg'' (\<lambda>m. gf_declination_deg (gm_fix m)),
      stamped_member ''GnssFixAltitudeMslM'' (\<lambda>m. gf_fix_alt_msl_m (gm_fix m)),
      stamped_member ''GnssGeoidalSeparationM'' (\<lambda>m. gf_geoidal_separation_m (gm_fix m)),
      stamped_member ''GnssDgpsAgeS'' (\<lambda>m. gf_dgps_age_s (gm_fix m)),
      stamped_member ''GnssFixAccuracyHorizontalM'' (\<lambda>m. ga_horizontal_accuracy_m (gm_fix_accuracy m)),
      stamped_member ''GnssFixAccuracyVerticalM'' (\<lambda>m. ga_vertical_accuracy_m (gm_fix_accuracy m)),
      stamped_member ''GnssFixAccuracySpeedMs'' (\<lambda>m. ga_speed_accuracy_m_s (gm_fix_accuracy m)),
      stamped_member ''GnssFixAccuracyTrackDeg'' (\<lambda>m. ga_track_accuracy_deg (gm_fix_accuracy m)),
      stamped_member ''GnssFixAccuracyTimeS'' (\<lambda>m. ga_time_accuracy_s (gm_fix_accuracy m)),
      stamped_member ''GnssFixAccuracyPdop'' (\<lambda>m. ga_pdop (gm_fix_accuracy m)),
      stamped_member ''GnssFixAccuracyVdop'' (\<lambda>m. ga_vdop (gm_fix_accuracy m)),
      stamped_member ''GnssDopActiveFixMode'' (\<lambda>m. gp_fix_mode (gm_dop m)),
      stamped_member ''GnssDopActivePdop'' (\<lambda>m. gp_pdop (gm_dop m)),
      stamped_member ''GnssDopActiveVdop'' (\<lambda>m. gp_vdop (gm_dop m)),
      stamped_member ''GnssSatellitesInView'' (\<lambda>m. sk_satellites_in_view (gm_sky_view m)),
      satellite_member ''GnssSatellitePrn0'' (\<lambda>ob. (go_satellite_id_valid ob, go_satellite_id ob)),
      satellite_member ''GnssSatelliteElevationDeg0'' (\<lambda>ob. (go_elevation_valid ob, go_elevation_deg ob)),
      satellite_member ''GnssSatelliteAzimuthDeg0'' (\<lambda>ob. (go_azimuth_valid ob, go_azimuth_true_deg ob)),
      satellite_member ''GnssSatelliteSnrDb0'' (\<lambda>ob. (go_cn0_valid ob, go_cn0_db_hz ob))]"

lemma gnss_member_names: "distinct (map fst gnss_members)" "set (map fst gnss_members) \<subseteq> set model_fields"
  by (simp_all add: gnss_members_def stamped_member_def satellite_member_def model_fields_def)

text \<open>
  A part of the model that a read leaves alone or renews: the flags of a frame that changes it meet \<open>K\<close>, and its
  new contents are \<open>good\<close>.
\<close>

definition renews :: "('f, 'r :: zero, 'c) arith \<Rightarrow> nat \<Rightarrow> u64 \<Rightarrow> sensor_source \<Rightarrow> update_kind \<Rightarrow> ('v \<Rightarrow> bool) \<Rightarrow> (('r, 'c) gnss_model \<Rightarrow> 'v) \<Rightarrow> bool" where
  "renews A cap now src K good f \<longleftrightarrow> (\<forall>r m. case ubx_dispatch A cap now src r m of
     (k, r', m') \<Rightarrow> f m' = f m \<or> has_update k K \<and> good (f m'))"

lemma has_update_or: "has_update (j OR k) K \<longleftrightarrow> has_update j K \<or> has_update k K"
  by (auto simp: has_update_def bit_eq_iff bit_simps)

lemma renews_run:
  assumes "renews A cap now src K good f"
  shows "accept_octets A mp cap now src bs r m = (k, r', m') \<Longrightarrow> f m' = f m \<or> has_update k K \<and> good (f m')"
proof (induction bs arbitrary: k r m)
  case (Cons b bs)
  obtain k1 r1 m1 where one: "accept_byte A mp cap now src b r m = (k1, r1, m1)" using prod_cases3 by blast
  obtain k2 where two: "accept_octets A mp cap now src bs r1 m1 = (k2, r', m')" "k = k1 OR k2"
    using Cons.prems one by (auto simp: Let_def split: prod.splits)
  have "f m1 = f m \<or> has_update k1 K \<and> good (f m1)"
    using one assms by (auto simp: accept_byte_def renews_def Let_def split: prod.splits if_splits)
  then show ?case using Cons.IH [OF two(1)] by (auto simp: two(2) has_update_or)
qed simp

lemma renewsI:
  assumes "\<And>p m. f (snd (apply_nav_pvt A now src p m)) = f m \<or> has_update (UpdateFix OR UpdateDop) K \<and> good (f (snd (apply_nav_pvt A now src p m)))"
    and "\<And>p m. f (snd (apply_nav_dop A now src p m)) = f m \<or> has_update UpdateDop K \<and> good (f (snd (apply_nav_dop A now src p m)))"
    and "\<And>p m. f (snd (apply_nav_sat A cap now src p m)) = f m \<or> has_update UpdateSky K \<and> good (f (snd (apply_nav_sat A cap now src p m)))"
  shows "renews A cap now src K good f"
proof -
  have "fst (apply_nav_pvt A now src p m) = UpdateFix OR UpdateDop" "fst (apply_nav_dop A now src p m) = UpdateDop"
    "fst (apply_nav_sat A cap now src p m) = UpdateSky" for p m
    by (simp_all add: apply_nav_pvt_def apply_nav_dop_def apply_nav_sat_def Let_def case_prod_beta)
  then show ?thesis using assms by (simp add: renews_def ubx_dispatch_def Let_def case_prod_beta)
qed

lemmas renew_defs = apply_nav_pvt_def apply_nav_dop_def apply_nav_sat_def pvt_date_def pvt_solution_def pvt_accuracy_def
  clear_observations_def has_update_def mark_if_updated_def Let_def case_prod_beta

lemma renews_fix:
  "renews A cap now src UpdateFix (mark_if_updated now) (\<lambda>m. gf_fix_lat_deg (gm_fix m))"
  "renews A cap now src UpdateFix (mark_if_updated now) (\<lambda>m. gf_fix_lon_deg (gm_fix m))"
  "renews A cap now src UpdateFix (mark_if_updated now) (\<lambda>m. gf_fix_alt_hae_m (gm_fix m))"
  "renews A cap now src UpdateFix (mark_if_updated now) (\<lambda>m. gf_speed_kn (gm_fix m))"
  "renews A cap now src UpdateFix (mark_if_updated now) (\<lambda>m. gf_track_deg (gm_fix m))"
  "renews A cap now src UpdateFix (mark_if_updated now) (\<lambda>m. gf_vertical_speed_m_s (gm_fix m))"
  "renews A cap now src UpdateFix (mark_if_updated now) (\<lambda>m. gf_timestamp_s (gm_fix m))"
  "renews A cap now src UpdateFix (mark_if_updated now) (\<lambda>m. gf_date_day (gm_fix m))"
  "renews A cap now src UpdateFix (mark_if_updated now) (\<lambda>m. gf_date_month (gm_fix m))"
  "renews A cap now src UpdateFix (mark_if_updated now) (\<lambda>m. gf_date_year (gm_fix m))"
  "renews A cap now src UpdateFix (mark_if_updated now) (\<lambda>m. gf_fix_quality (gm_fix m))"
  "renews A cap now src UpdateFix (mark_if_updated now) (\<lambda>m. gf_fix_type (gm_fix m))"
  "renews A cap now src UpdateFix (mark_if_updated now) (\<lambda>m. gf_fix_valid (gm_fix m))"
  "renews A cap now src UpdateFix (mark_if_updated now) (\<lambda>m. gf_declination_deg (gm_fix m))"
  "renews A cap now src UpdateFix (mark_if_updated now) (\<lambda>m. gf_fix_alt_msl_m (gm_fix m))"
  "renews A cap now src UpdateFix (mark_if_updated now) (\<lambda>m. gf_geoidal_separation_m (gm_fix m))"
  by (rule renewsI; simp add: renew_defs)+

lemma renews_accuracy:
  "renews A cap now src UpdateFix (mark_if_updated now) (\<lambda>m. ga_horizontal_accuracy_m (gm_fix_accuracy m))"
  "renews A cap now src UpdateFix (mark_if_updated now) (\<lambda>m. ga_vertical_accuracy_m (gm_fix_accuracy m))"
  "renews A cap now src UpdateFix (mark_if_updated now) (\<lambda>m. ga_speed_accuracy_m_s (gm_fix_accuracy m))"
  "renews A cap now src UpdateFix (mark_if_updated now) (\<lambda>m. ga_track_accuracy_deg (gm_fix_accuracy m))"
  "renews A cap now src UpdateFix (mark_if_updated now) (\<lambda>m. ga_time_accuracy_s (gm_fix_accuracy m))"
  by (rule renewsI; simp add: renew_defs)+

lemma renews_dop:
  "renews A cap now src UpdateDop (mark_if_updated now) (\<lambda>m. gf_hdop (gm_fix m))"
  "renews A cap now src UpdateDop (mark_if_updated now) (\<lambda>m. gp_fix_mode (gm_dop m))"
  "renews A cap now src UpdateDop (mark_if_updated now) (\<lambda>m. gp_pdop (gm_dop m))"
  "renews A cap now src UpdateDop (mark_if_updated now) (\<lambda>m. gp_vdop (gm_dop m))"
  "renews A cap now src UpdateDop (mark_if_updated now) (\<lambda>m. ga_pdop (gm_fix_accuracy m))"
  "renews A cap now src UpdateDop (mark_if_updated now) (\<lambda>m. ga_vdop (gm_fix_accuracy m))"
  by (rule renewsI; simp add: renew_defs)+

lemma renews_sky:
  "renews A cap now src (UpdateFix OR UpdateSky) (mark_if_updated now) (\<lambda>m. gf_satellites_used (gm_fix m))"
  "renews A cap now src UpdateSky (mark_if_updated now) (\<lambda>m. sk_satellites_in_view (gm_sky_view m))"
  "renews A cap now src UpdateSky (\<lambda>v. case v of None \<Rightarrow> True | Some (x, t) \<Rightarrow> t = now) (satellite0 part)"
  "renews A cap now src UpdateNone (\<lambda>v. False) (\<lambda>m. gf_dgps_station_id (gm_fix m))"
  "renews A cap now src UpdateNone (\<lambda>v. False) (\<lambda>m. gf_dgps_age_s (gm_fix m))"
  by (rule renewsI; simp add: renew_defs satellite0_def)+

lemma has_update_or2: "has_update k (K OR L) \<longleftrightarrow> has_update k K \<or> has_update k L"
  by (auto simp: has_update_def bit_eq_iff bit_simps)

lemma passing_in: "(name, test) \<in> set tests \<Longrightarrow> test now m \<Longrightarrow> field_named name \<in> set (passing now m tests)"
  by (force simp: passing_def)

text \<open>Every member that changed is marked, member by member.\<close>

definition member_marked :: "update_kind \<Rightarrow> u64 \<Rightarrow> ('r, 'c) gnss_model \<Rightarrow> ('r, 'c) gnss_model \<Rightarrow> ('r, 'c) gnss_model member_entry \<Rightarrow> bool" where
  "member_marked k now m m' = (\<lambda>(name, changed, current). changed m m' \<longrightarrow> field_named name \<in> set (passing now m' (mark_groups k)))"

lemma stamped_marked:
  assumes "accept_octets A mp cap now src bs r m = (k, r', m')" "renews A cap now src K (mark_if_updated now) f"
    and "has_update k K \<Longrightarrow> (name, \<lambda>t m. mark_if_updated t (f m)) \<in> set (mark_groups k)"
  shows "member_marked k now m m' (stamped_member name f)"
  using renews_run [OF assms(2,1)] passing_in [OF assms(3), of now m'] by (auto simp: member_marked_def stamped_member_def)

lemma satellite_marked:
  fixes m m' :: "('r :: zero, 'c) gnss_model"
  assumes "accept_octets A mp cap now src bs r m = (k, r', m')"
    and "has_update k UpdateSky \<Longrightarrow> (name, sky_changed :: u64 \<Rightarrow> ('r, 'c) gnss_model \<Rightarrow> bool) \<in> set (mark_groups k)"
  shows "member_marked k now m m' (satellite_member name part)"
  using renews_run [OF renews_sky(3) assms(1), of part] passing_in [OF assms(2), of now m']
  by (auto simp: member_marked_def satellite_member_def satellite0_def sky_changed_def split: if_splits)

lemma unchanged_marked:
  assumes "accept_octets A mp cap now src bs r m = (k, r', m')" "renews A cap now src K (\<lambda>v. False) f"
  shows "member_marked k now m m' (stamped_member name f)"
  using renews_run [OF assms(2,1)] by (simp add: member_marked_def stamped_member_def)

lemma members_marked:
  assumes "accept_octets A mp cap now src bs r m = (k, r', m')"
  shows "list_all (member_marked k now m m') gnss_members"
  unfolding gnss_members_def list.pred_inject(2)
  by (intro conjI list.pred_inject(1);
     ((rule stamped_marked [OF assms], rule renews_fix renews_accuracy renews_dop renews_sky,
        simp add: mark_groups_def mark_fix_def mark_dop_def mark_sky_def has_update_or2 [of k UpdateFix UpdateSky, simplified])
    | (rule satellite_marked [OF assms], simp add: mark_groups_def mark_sky_def)
    | (rule unchanged_marked [OF assms], rule renews_sky)))

text \<open>A marked field has a member that carries the time of the read; it changed, or carried that time before.\<close>

lemma marks_are_members:
  fixes m :: "('r, 'c) gnss_model"
  shows "list_all (\<lambda>(name, test). test now m \<longrightarrow> (\<exists>e \<in> set gnss_members. fst e = name \<and> snd (snd e) now m)) (mark_groups k)"
proof -
  have "list_all (\<lambda>(name, test). test now m \<longrightarrow> (\<exists>e \<in> set gnss_members. fst e = name \<and> snd (snd e) now m)) ts"
    if "ts \<in> {mark_fix, mark_dop, mark_sky}" for ts :: "('r, 'c) gnss_model mark_test list"
    using that by (auto simp: mark_fix_def mark_dop_def mark_sky_def gnss_members_def stamped_member_def satellite_member_def
        satellite0_def mark_if_updated_def sky_changed_def)
  then show ?thesis by (simp add: mark_groups_def)
qed

lemma stamped_member_renewed:
  "snd (snd (stamped_member name f)) now m' \<Longrightarrow> fst (snd (stamped_member name f)) m m' \<or> snd (snd (stamped_member name f)) now m"
  by (auto simp: stamped_member_def)

lemma satellite_member_renewed:
  "snd (snd (satellite_member name part)) now m' \<Longrightarrow> fst (snd (satellite_member name part)) m m' \<or> snd (snd (satellite_member name part)) now m"
  by (auto simp: satellite_member_def)

lemma member_renewed:
  fixes m m' :: "('r, 'c) gnss_model"
  shows "e \<in> set gnss_members \<Longrightarrow> snd (snd e) now m' \<Longrightarrow> fst (snd e) m m' \<or> snd (snd e) now m"
proof -
  have "list_all (\<lambda>e. snd (snd e) now m' \<longrightarrow> fst (snd e) m m' \<or> snd (snd e) now m) gnss_members"
    unfolding gnss_members_def list.pred_inject(2)
    by (intro conjI list.pred_inject(1) impI; (erule stamped_member_renewed | erule satellite_member_renewed))
  then show "e \<in> set gnss_members \<Longrightarrow> snd (snd e) now m' \<Longrightarrow> fst (snd e) m m' \<or> snd (snd e) now m"
    unfolding list_all_iff by blast
qed

lemma field_named_bound:
  assumes "name \<noteq> ''Count''"
  shows "unat (field_named name) < field_count"
proof (cases "index_where (\<lambda>f. f = name) model_fields")
  case None
  then show ?thesis by (simp add: field_named_def field_count_def)
next
  case (Some i)
  have "i < length model_fields" "model_fields ! i = name" using index_where_SomeD [OF Some] by simp_all
  then have "i \<noteq> field_count" "i < Suc field_count" using assms field_count_eq by auto
  then have "i < field_count" by simp
  moreover have "field_count < 2 ^ 16" by (simp add: field_count_def)
  ultimately show ?thesis using Some by (simp add: field_named_def unat_of_nat take_bit_nat_eq_self)
qed

lemma gnss_member_bound: "e \<in> set gnss_members \<Longrightarrow> unat (field_named (fst e)) < field_count"
  by (rule field_named_bound) (auto simp: gnss_members_def stamped_member_def satellite_member_def)

section \<open>Properties\<close>

text \<open>
  C13: To a receiver that waits for the start of a frame, the octets of any sequence of UBX frames whose payloads fit the buffer
  (\<open>MaxPayload\<close>), cut into reads anywhere, have the effect of dispatching these frames in order, each with the payload
  it carries, and of nothing else. All reads take place at one clock reading and from one source.
\<close>

theorem ubx_stream_dispatched:
  assumes "ur_state r = UsSync1" "\<And>f. f \<in> set fs \<Longrightarrow> ubx_frame_ok mp f"
    and "concat chunks = concat (map ubx_encode fs)"
  shows "ubx_reads A mp cap now src chunks (UpdateNone, r, m) = fold (ubx_handle A cap now src) fs (UpdateNone, r, m)"
  using ubx_frames_run [of fs mp "(UpdateNone, r, m)" A cap now src] assms by (simp add: ubx_reads_concat)

theorem ubx_stream_dispatched_witness:
  "let fs = [(ClassAck, AckAck, [6, 1]), (ClassNav, 0x99, [])];
       m = gnss_model_init 4;
       s = ubx_reads exact 1024 4 7 SrcUbx [take 5 (concat (map ubx_encode fs)), drop 5 (concat (map ubx_encode fs))]
             (UpdateNone, ubx_init, m)
   in s = fold (ubx_handle exact 4 7 SrcUbx) fs (UpdateNone, ubx_init, m) \<and>
      fst s = UpdateAck \<and> ui_last_ack_class (ur_info (fst (snd s))) = 6 \<and>
      ud_unsupported_frame_count (ur_diagnostics (fst (snd s))) = 1"
proof -
  let ?fs = "[(ClassAck, AckAck, [6, 1]), (ClassNav, 0x99, [])] :: ubx_frame list"
  have e: "ubx_reads exact 1024 4 7 SrcUbx [take 5 (concat (map ubx_encode ?fs)), drop 5 (concat (map ubx_encode ?fs))]
      (UpdateNone, ubx_init, gnss_model_init 4) = fold (ubx_handle exact 4 7 SrcUbx) ?fs (UpdateNone, ubx_init, gnss_model_init 4)"
  proof (rule ubx_stream_dispatched)
    show "concat [take 5 (concat (map ubx_encode ?fs)), drop 5 (concat (map ubx_encode ?fs))] = concat (map ubx_encode ?fs)"
      by (simp only: concat.simps append_Nil2 append_take_drop_id)
  qed (auto simp: ubx_init_def ubx_frame_ok_def)
  show ?thesis unfolding Let_def e
    by (simp add: ubx_handle_def ubx_complete_def ubx_loaded_def ubx_dispatch_def apply_ack_def count_frame_def
        count_unsupported_def ubx_init_def ubx_info_init_def ubx_diagnostics_init_def Let_def)
qed

text \<open>
  C30: A frame in which one octet of the class, the identifier or the payload is altered is never
  dispatched: the model and the update flags stay as they were, and exactly the counter of checksum
  errors is raised.
\<close>

theorem ubx_corruption_detected:
  assumes "ur_state r = UsSync1" "ubx_frame_ok mp f" "k < length (ubx_body f)" "k \<notin> {2, 3}" "v \<noteq> ubx_body f ! k"
  shows "\<exists>r'. accept_octets A mp cap now src ((ubx_encode f)[k + 2 := v]) r m = (UpdateNone, r', m) \<and>
    ud_checksum_error_count (ur_diagnostics r') = ud_checksum_error_count (ur_diagnostics r) + 1 \<and>
    ud_frame_count (ur_diagnostics r') = ud_frame_count (ur_diagnostics r)"
proof -
  obtain a b where ab: "fletcher (ubx_body f) (0, 0) = (a, b)" by fastforce
  have "k \<noteq> 2" "k \<noteq> 3" using assms(4) by auto
  from corrupted_body [OF assms(2,3) this] obtain f' where
    f': "ubx_frame_ok mp f'" "ubx_body f' = (ubx_body f)[k := v]" by blast
  have "a = sum_list (ubx_body f)" using fletcher_fst [of "ubx_body f" "(0, 0)"] ab by simp
  then have "a \<noteq> fst (fletcher (ubx_body f') (0, 0))"
    using assms(3,5) by (simp add: fletcher_fst f'(2) sum_octets_update)
  from wrong_checksum_run [OF assms(1) f'(1) this, of A cap now src b m]
  show ?thesis using assms(3) by (simp add: ubx_encode_def ab f'(2) list_update_append1)
qed

theorem ubx_corruption_detected_witness:
  "\<exists>r'. accept_octets exact 1024 4 7 SrcUbx ((ubx_encode (ClassAck, AckAck, [6, 1]))[5 + 2 := 9]) ubx_init (gnss_model_init 4) =
      (UpdateNone, r', gnss_model_init 4) \<and>
    ud_checksum_error_count (ur_diagnostics r') = 1 \<and> ud_frame_count (ur_diagnostics r') = 0"
proof -
  have "\<exists>r'. accept_octets exact 1024 4 7 SrcUbx ((ubx_encode (ClassAck, AckAck, [6, 1]))[5 + 2 := 9]) ubx_init (gnss_model_init 4) =
      (UpdateNone, r', gnss_model_init 4) \<and>
    ud_checksum_error_count (ur_diagnostics r') = ud_checksum_error_count (ur_diagnostics ubx_init) + 1 \<and>
    ud_frame_count (ur_diagnostics r') = ud_frame_count (ur_diagnostics ubx_init)"
    by (rule ubx_corruption_detected) (simp_all add: ubx_init_def ubx_frame_ok_def ubx_body_def)
  then show ?thesis by (simp add: ubx_init_def ubx_diagnostics_init_def)
qed

text \<open>
  C22: The values a receiver writes stay in their types through every run of octets, frames or noise:
  a stored date is a day of the Gregorian calendar as counted from 1 January 1970, fix quality and mode are codes of their enumerations, the
  sky view has a satellite at exactly the places below the number it reports, which is at most its room, the version texts end inside their
  arrays, and the payload index stays inside the payload buffer. The capacity of the sky view is below the range of its 16 bit counter.
\<close>

theorem ubx_model_well_typed:
  assumes "gnss_wf capacity m" "info_wf (ur_info r)" "ubx_inv mp r" "capacity < 65536"
    and "accept_octets A mp capacity now src bs r m = (k, r', m')"
  shows "gnss_wf capacity m' \<and> info_wf (ur_info r') \<and> ubx_inv mp r'"
  using assms
proof (induction bs arbitrary: k r m)
  case (Cons b bs)
  let ?s = "accept_byte A mp capacity now src b r m"
  have "accept_octets A mp capacity now src bs (fst (snd ?s)) (snd (snd ?s)) =
      (fst (accept_octets A mp capacity now src bs (fst (snd ?s)) (snd (snd ?s))), r', m')"
    using Cons.prems(5) by (simp add: case_prod_beta Let_def prod_eq_iff)
  from Cons.IH [OF accept_byte_wf [OF Cons.prems(1-4)] Cons.prems(4) this] show ?case .
qed simp

text \<open>A solution of 29 February 2024, and the sky with one satellite.\<close>

definition leap_day_frames :: "ubx_frame list" where
  "leap_day_frames = [(ClassNav, NavPvt, (replicate 92 0)[4 := 0xE8, 5 := 7, 6 := 2, 7 := 29, 11 := 3]),
     (ClassNav, NavSat, (replicate 20 0)[5 := 1, 9 := 17])]"

theorem ubx_model_well_typed_witness:
  "let m = snd (snd (accept_octets exact 1024 4 7 SrcUbx (concat (map ubx_encode leap_day_frames)) ubx_init (gnss_model_init 4))) in
     gnss_wf 4 m \<and> sd_valid (gf_date_day (gm_fix m)) \<and> sd_value (gf_date_day (gm_fix m)) = 29 \<and>
     sk_observation_count (gm_sky_view m) = 1"
proof -
  let ?s = "accept_octets exact 1024 4 7 SrcUbx (concat (map ubx_encode leap_day_frames)) ubx_init (gnss_model_init 4)"
  have "?s = (fst ?s, fst (snd ?s), snd (snd ?s))" by simp
  from ubx_model_well_typed [OF gnss_model_init_wf _ _ _ this] have "gnss_wf 4 (snd (snd ?s))"
    by (simp add: info_wf_def ubx_init_def ubx_info_init_def ubx_inv_def)
  moreover have "ubx_frame_ok 1024 f" if "f \<in> set leap_day_frames" for f using that by (auto simp: leap_day_frames_def ubx_frame_ok_def)
  then have "?s = fold (ubx_handle exact 4 7 SrcUbx) leap_day_frames (UpdateNone, ubx_init, gnss_model_init 4)"
    using ubx_frames_run [of leap_day_frames 1024 "(UpdateNone, ubx_init, gnss_model_init 4)" exact 4 7 SrcUbx] by (simp add: ubx_init_def)
  ultimately show ?thesis
    by (simp add: Let_def leap_day_frames_def ubx_handle_def ubx_dispatch_def ubx_complete_def ubx_loaded_def count_frame_def
        apply_nav_pvt_def apply_nav_sat_def case_prod_beta pvt_date_def pvt_date_ok_def read_u16_le_def valid_calendar_date_def
        is_leap_year_def ubx_fix_ok_def)
qed

text \<open>
  C33: The two loops that bring an angle of the wire into a full turn end, in floating point. For every 32 bit raw value, divided by 100000 in
  the arithmetic of the target, the unbounded loops of the code both leave with the result of the sixty bounded rounds of the model;
  the angle is in the range from 0 to below 360 degrees, and it is the raw one up to whole turns and an eighth of a degree
  of accumulated rounding. The arithmetic is any that rounds no worse than IEEE \<^verbatim>\<open>float\<close> in the range of
  angles (\<open>rounding_arith\<close>, which exact rationals and the rounding of binary32 both satisfy).
\<close>

theorem ubx_angle_normalised:
  fixes A :: "('f, 'r, 'c) arith"
  assumes "rounding_arith A fin val" "- (2 ^ 31) \<le> raw" "raw < 2 ^ 31"
  defines "v \<equiv> r_div A (r_of_int A raw) (r_of_int A 100000)"
  shows "(\<exists>u. while_option (\<lambda>v. r_lt A v (r_of_int A 0)) (\<lambda>v. r_add A v (r_of_int A 360)) v = Some u \<and>
      while_option (\<lambda>v. r_le A (r_of_int A 360) v) (\<lambda>v. r_sub A v (r_of_int A 360)) u = Some (normalize_degrees A v)) \<and>
    0 \<le> val (normalize_degrees A v) \<and> val (normalize_degrees A v) < 360 \<and>
    (\<exists>k :: int. \<bar>val (normalize_degrees A v) - (of_int raw / 100000 + 360 * of_int k)\<bar> \<le> 1 / 8)"
proof -
  note raw = rounding_arith.raw_angle [OF assms(1-3), folded v_def]
  note n = rounding_arith.normalize_rounded [OF assms(1) raw(1,2)]
  from n(4) obtain k :: int where "\<bar>val (normalize_degrees A v) - (val v + 360 * of_int k)\<bar> \<le> 120 / 1024" by blast
  then have "\<bar>val (normalize_degrees A v) - (of_int raw / 100000 + 360 * of_int k)\<bar> \<le> 1 / 8" using raw(3) by linarith
  then show ?thesis using n(1-3) by blast
qed

theorem ubx_angle_normalised_witness:
  "let v = r_div binary32 (r_of_int binary32 (- 4500000)) (r_of_int binary32 100000) in
     0 \<le> normalize_degrees binary32 v \<and> normalize_degrees binary32 v < 360 \<and>
     (\<exists>k :: int. \<bar>normalize_degrees binary32 v - (- 45 + 360 * of_int k)\<bar> \<le> 1 / 8)"
  using ubx_angle_normalised [OF binary32_rounding.rounding_arith_axioms, of "- 4500000"] by simp

text \<open>
  C31: After a read is fed to the UBX input, with the source value recorder installed, the store
  holds the model the decoder left, and the marks agree with the table of published members (\<open>gnss_members\<close>, which names the member the Signal K mapper
  reads for each field). Every field whose member the read changed is marked with the source of the read; and a
  field that is newly marked, or whose source changes, belongs to a member that the read changed, or that already
  carried the time of the read before it (an earlier read at the same clock reading). A first satellite that
  disappears is not marked. The result says whether any message was decoded.
\<close>

theorem ubx_feed_marks_updates:
  assumes "st_inv cap sv_cap st" "accept_octets A mp capacity now src bs r (st_model st) = (updates, r1, m1)"
    and "ubx_feed_octets A mp capacity cap (Some (on_model_marked mf td fp)) bs sid now src r (st, multi) = (ok, r', st', multi')"
  shows "st_model st' = m1 \<and> (ok \<longleftrightarrow> updates \<noteq> UpdateNone) \<and>
    (\<forall>(name, changed, current) \<in> set gnss_members. changed (st_model st) m1 \<longrightarrow>
       has_value (field_named name) st' \<and> source_id_for (field_named name) st' = sid) \<and>
    (\<forall>g. unat g < field_count \<and> (has_value g st' \<noteq> has_value g st \<or> source_id_for g st' \<noteq> source_id_for g st) \<longrightarrow>
       has_value g st' \<and> source_id_for g st' = sid \<and>
       (\<exists>(name, changed, current) \<in> set gnss_members. g = field_named name \<and> (changed (st_model st) m1 \<or> current now (st_model st))))"
proof -
  let ?p = "(st\<lparr>st_model := m1\<rparr>, multi)" and ?marked = "set (passing now m1 (mark_groups updates))"
  have r: "(ok, r', st', multi') =
      (updates \<noteq> UpdateNone, r1, run_marks cap (Some (on_model_marked mf td fp)) sid now (mark_groups updates) ?p)"
    using assms(2,3) by (simp add: ubx_feed_octets_def Let_def mark_changes_groups)
  then have "st' = fst (run_marks cap (Some (on_model_marked mf td fp)) sid now (mark_groups updates) ?p)"
    by (metis fst_conv prod.inject)
  moreover have "st_inv cap sv_cap (fst ?p)" using assms(1) by (simp add: st_inv_def)
  moreover have "has_value g (fst ?p) = has_value g st" "source_id_for g (fst ?p) = source_id_for g st" for g
    by (simp_all add: has_value_def source_id_for_def Let_def)
  ultimately have e: "st_model st' = m1" "has_value g st' \<longleftrightarrow> has_value g st \<or> unat g < field_count \<and> g \<in> ?marked"
    "source_id_for g st' = (if unat g < field_count \<and> g \<in> ?marked then sid else source_id_for g st)" for g
    using recorder.run_marks_effect [of cap sv_cap ?p mf td fp sid now "mark_groups updates"] by simp_all
  have complete: "has_value (field_named (fst d)) st' \<and> source_id_for (field_named (fst d)) st' = sid"
    if "d \<in> set gnss_members" "fst (snd d) (st_model st) m1" for d
    using members_marked [OF assms(2)] that gnss_member_bound [OF that(1)]
    by (auto simp: e list_all_iff member_marked_def case_prod_beta)
  have sound: "\<exists>d \<in> set gnss_members. g = field_named (fst d) \<and> (fst (snd d) (st_model st) m1 \<or> snd (snd d) now (st_model st))"
    if "g \<in> ?marked" for g
  proof -
    obtain name test where t: "(name, test) \<in> set (mark_groups updates)" "test now m1" "g = field_named name"
      using \<open>g \<in> ?marked\<close> by (auto simp: passing_def)
    then obtain d where "d \<in> set gnss_members" "fst d = name" "snd (snd d) now m1"
      using marks_are_members [of now m1 updates] by (auto simp: list_all_iff)
    then show ?thesis using member_renewed [of d now m1 "st_model st"] t(3) by blast
  qed
  have "ok \<longleftrightarrow> updates \<noteq> UpdateNone" using r by simp
  moreover have "has_value g st' \<and> source_id_for g st' = sid \<and> g \<in> ?marked"
    if "unat g < field_count" "has_value g st' \<noteq> has_value g st \<or> source_id_for g st' \<noteq> source_id_for g st" for g
    using that by (auto simp: e split: if_splits)
  ultimately show ?thesis using e(1) complete sound unfolding case_prod_beta by blast
qed

theorem ubx_feed_marks_updates_witness:
  "let out = ubx_feed_octets exact 1024 4 8
       (Some (on_model_marked (\<lambda>m f. None :: (string, int, int) mapped_value option) (\<lambda>x. x) (\<lambda>m. (0, 0))))
       (ubx_encode (ClassNav, NavSat, (replicate 20 0)[5 := 1, 9 := 17])) 3 7 SrcUbx ubx_init (st_init 8 4 (gnss_model_init 4), replicate presence_bytes 0)
   in has_value (field_named ''GnssSatellitesInView'') (fst (snd (snd out))) \<and>
      source_id_for (field_named ''GnssSatellitesInView'') (fst (snd (snd out))) = 3"
proof -
  let ?ob = "on_model_marked (\<lambda>m f. None :: (string, int, int) mapped_value option) (\<lambda>x. x) (\<lambda>m. (0, 0))"
  let ?st = "st_init 8 4 (gnss_model_init 4) :: ((rat, rat) gnss_model, string, int) model_store"
  let ?f = "(ClassNav, NavSat, (replicate 20 0)[5 := 1, 9 := 17]) :: ubx_frame"
  let ?out = "ubx_feed_octets exact 1024 4 8 (Some ?ob) (ubx_encode ?f) 3 7 SrcUbx ubx_init (?st, replicate presence_bytes 0)"
  let ?d = "ubx_dispatch exact 4 7 SrcUbx (ubx_complete ?f ubx_init) (gnss_model_init 4)"
  have "accept_octets exact 1024 4 7 SrcUbx (ubx_encode ?f) ubx_init (st_model ?st) = ?d"
    using accept_frame [of ubx_init 1024 ?f] by (simp add: ubx_init_def ubx_frame_ok_def st_init_def)
  then have run: "accept_octets exact 1024 4 7 SrcUbx (ubx_encode ?f) ubx_init (st_model ?st) = (fst ?d, fst (snd ?d), snd (snd ?d))" by simp
  have out: "?out = (fst ?out, fst (snd ?out), fst (snd (snd ?out)), snd (snd (snd ?out)))" by simp
  let ?e = "stamped_member ''GnssSatellitesInView'' (\<lambda>m :: (rat, rat) gnss_model. sk_satellites_in_view (gm_sky_view m))"
  have member: "?e \<in> set gnss_members" by (simp add: gnss_members_def)
  have "sd_valid (sk_satellites_in_view (gm_sky_view (snd (snd ?d))))" "\<not> sd_valid (sk_satellites_in_view (gm_sky_view (st_model ?st)))"
    by (simp_all add: ubx_dispatch_def ubx_complete_def ubx_loaded_def count_frame_def apply_nav_sat_def Let_def case_prod_beta
        st_init_def gnss_model_init_def sky_view_init_def)
  then have "fst (snd ?e) (st_model ?st) (snd (snd ?d))" by (auto simp: stamped_member_def)
  moreover have "st_inv 8 4 ?st" by (rule st_init_inv) simp_all
  ultimately show ?thesis
    using ubx_feed_marks_updates [of 8 4 ?st, OF _ run out] member unfolding Let_def by (auto simp: stamped_member_def)
qed

end
