(* ===== verification/Ais_Data.thy ===== *)
theory Ais_Data
  imports Data_Model
begin

text \<open>
  The AIS structures of \<^verbatim>\<open>ais_data.hpp\<close>, each with its initial value, and the operations of that
  header on the table of targets. The capacity of the table is the length of its list of targets.
\<close>

section \<open>Structures\<close>

record ais_header =
  ah_source :: sensor_source
  ah_message_type :: "int stamped"
  ah_repeat_indicator :: "int stamped"
  ah_mmsi :: "int stamped"

record ('r, 'c) tracked_target =
  tt_source :: sensor_source
  tt_target_number :: "int stamped"
  tt_latitude_deg :: "'c stamped"
  tt_longitude_deg :: "'c stamped"
  tt_utc_time_s :: "'r stamped"
  tt_distance_nmi :: "'r stamped"
  tt_bearing_deg :: "'r stamped"
  tt_bearing_reference :: char
  tt_speed_kn :: "'r stamped"
  tt_course_deg :: "'r stamped"
  tt_course_reference :: char
  tt_cpa_distance_nmi :: "'r stamped"
  tt_tcpa_min :: "'r stamped"
  tt_distance_units :: char
  tt_target_name :: string
  tt_target_status :: char
  tt_reference_target :: char
  tt_label_target_number :: "int stamped list"
  tt_label :: "string list"
  tt_label_count :: "int stamped"
  tt_last_update_us :: u64

definition tracked_target_init :: "('r :: zero, 'c :: zero) tracked_target" where
  "tracked_target_init = \<lparr>
     tt_source = SrcGpsd, tt_target_number = stamped_init, tt_latitude_deg = stamped_init,
     tt_longitude_deg = stamped_init, tt_utc_time_s = stamped_init, tt_distance_nmi = stamped_init,
     tt_bearing_deg = stamped_init, tt_bearing_reference = NUL, tt_speed_kn = stamped_init,
     tt_course_deg = stamped_init, tt_course_reference = NUL, tt_cpa_distance_nmi = stamped_init,
     tt_tcpa_min = stamped_init, tt_distance_units = NUL, tt_target_name = [], tt_target_status = NUL,
     tt_reference_target = NUL, tt_label_target_number = replicate 8 stamped_init, tt_label = replicate 8 [],
     tt_label_count = stamped_init, tt_last_update_us = 0\<rparr>"

record ('r, 'c) ais_target =
  at_source :: sensor_source
  at_occupied :: bool
  at_mmsi :: "int stamped"
  at_last_message_type :: "int stamped"
  at_repeat_indicator :: "int stamped"
  at_navigation_status :: "int stamped"
  at_latitude_deg :: "'c stamped"
  at_longitude_deg :: "'c stamped"
  at_speed_over_ground_kn :: "'r stamped"
  at_course_over_ground_deg :: "'r stamped"
  at_true_heading_deg :: "'r stamped"
  at_timestamp_s :: "int stamped"
  at_ship_type :: "int stamped"
  at_imo_number :: "int stamped"
  at_aid_type :: "int stamped"
  at_vessel_name :: string
  at_call_sign :: string
  at_destination :: string
  at_position_accuracy :: bool
  at_raim :: bool
  at_class_b :: bool
  at_base_station :: bool
  at_aid_to_navigation :: bool
  at_sar_aircraft :: bool
  at_stale :: bool
  at_first_seen_us :: u64
  at_last_seen_us :: u64
  at_last_position_update_us :: u64
  at_last_static_update_us :: u64

definition ais_target_init :: "('r :: zero, 'c :: zero) ais_target" where
  "ais_target_init = \<lparr>
     at_source = SrcGpsd, at_occupied = False, at_mmsi = stamped_init, at_last_message_type = stamped_init,
     at_repeat_indicator = stamped_init, at_navigation_status = stamped_init, at_latitude_deg = stamped_init,
     at_longitude_deg = stamped_init, at_speed_over_ground_kn = stamped_init,
     at_course_over_ground_deg = stamped_init, at_true_heading_deg = stamped_init,
     at_timestamp_s = stamped_init, at_ship_type = stamped_init, at_imo_number = stamped_init,
     at_aid_type = stamped_init, at_vessel_name = [], at_call_sign = [], at_destination = [],
     at_position_accuracy = False, at_raim = False, at_class_b = False, at_base_station = False,
     at_aid_to_navigation = False, at_sar_aircraft = False, at_stale = False, at_first_seen_us = 0,
     at_last_seen_us = 0, at_last_position_update_us = 0, at_last_static_update_us = 0\<rparr>"

record ('r, 'c) ais_target_table =
  tb_targets :: "('r, 'c) ais_target list"
  tb_target_count :: "int stamped"
  tb_replacement_count :: "int stamped"
  tb_overflow_count :: "int stamped"

definition ais_target_table_init :: "nat \<Rightarrow> ('r :: zero, 'c :: zero) ais_target_table" where
  "ais_target_table_init capacity = \<lparr>tb_targets = replicate capacity ais_target_init, tb_target_count = stamped_init,
     tb_replacement_count = stamped_init, tb_overflow_count = stamped_init\<rparr>"

record ('r, 'c) ais_own_vessel = ais_header +
  ov_valid :: bool
  ov_navigation_status :: "int stamped"
  ov_latitude_deg :: "'c stamped"
  ov_longitude_deg :: "'c stamped"
  ov_speed_over_ground_kn :: "'r stamped"
  ov_course_over_ground_deg :: "'r stamped"
  ov_true_heading_deg :: "'r stamped"
  ov_timestamp_s :: "int stamped"
  ov_ship_type :: "int stamped"
  ov_imo_number :: "int stamped"
  ov_aid_type :: "int stamped"
  ov_vessel_name :: string
  ov_call_sign :: string
  ov_destination :: string
  ov_position_accuracy :: bool
  ov_raim :: bool
  ov_class_b :: bool
  ov_base_station :: bool
  ov_aid_to_navigation :: bool
  ov_sar_aircraft :: bool
  ov_first_seen_us :: u64
  ov_last_seen_us :: u64
  ov_last_position_update_us :: u64
  ov_last_static_update_us :: u64

definition ais_own_vessel_init :: "('r :: zero, 'c :: zero) ais_own_vessel" where
  "ais_own_vessel_init = \<lparr>
     ah_source = SrcGpsd, ah_message_type = stamped_init, ah_repeat_indicator = stamped_init,
     ah_mmsi = stamped_init, ov_valid = False, ov_navigation_status = stamped_init,
     ov_latitude_deg = stamped_init, ov_longitude_deg = stamped_init, ov_speed_over_ground_kn = stamped_init,
     ov_course_over_ground_deg = stamped_init, ov_true_heading_deg = stamped_init,
     ov_timestamp_s = stamped_init, ov_ship_type = stamped_init, ov_imo_number = stamped_init,
     ov_aid_type = stamped_init, ov_vessel_name = [], ov_call_sign = [], ov_destination = [],
     ov_position_accuracy = False, ov_raim = False, ov_class_b = False, ov_base_station = False,
     ov_aid_to_navigation = False, ov_sar_aircraft = False, ov_first_seen_us = 0, ov_last_seen_us = 0,
     ov_last_position_update_us = 0, ov_last_static_update_us = 0\<rparr>"

record ('r, 'c) ais_position_report = ais_header +
  pr_navigation_status :: "int stamped"
  pr_rate_of_turn_deg_min :: "'r stamped"
  pr_speed_over_ground_kn :: "'r stamped"
  pr_position_accuracy :: bool
  pr_longitude_deg :: "'c stamped"
  pr_latitude_deg :: "'c stamped"
  pr_course_over_ground_deg :: "'r stamped"
  pr_true_heading_deg :: "'r stamped"
  pr_timestamp_s :: "int stamped"
  pr_maneuver_indicator :: "int stamped"
  pr_raim :: bool
  pr_cs_unit :: bool
  pr_display :: bool
  pr_dsc :: bool
  pr_band :: bool
  pr_accepts_message_22 :: bool
  pr_assigned_mode :: bool
  pr_dte_ready :: bool
  pr_radio_status :: "int stamped"
  pr_last_update_us :: u64

definition ais_position_report_init :: "('r :: zero, 'c :: zero) ais_position_report" where
  "ais_position_report_init = \<lparr>
     ah_source = SrcGpsd, ah_message_type = stamped_init, ah_repeat_indicator = stamped_init,
     ah_mmsi = stamped_init, pr_navigation_status = stamped_init, pr_rate_of_turn_deg_min = stamped_init,
     pr_speed_over_ground_kn = stamped_init, pr_position_accuracy = False, pr_longitude_deg = stamped_init,
     pr_latitude_deg = stamped_init, pr_course_over_ground_deg = stamped_init,
     pr_true_heading_deg = stamped_init, pr_timestamp_s = stamped_init, pr_maneuver_indicator = stamped_init,
     pr_raim = False, pr_cs_unit = False, pr_display = False, pr_dsc = False, pr_band = False,
     pr_accepts_message_22 = False, pr_assigned_mode = False, pr_dte_ready = False,
     pr_radio_status = stamped_init, pr_last_update_us = 0\<rparr>"

record ('r, 'c) ais_sar_aircraft = ais_header +
  sa_altitude_m :: "int stamped"
  sa_speed_over_ground_kn :: "'r stamped"
  sa_position_accuracy :: bool
  sa_longitude_deg :: "'c stamped"
  sa_latitude_deg :: "'c stamped"
  sa_course_over_ground_deg :: "'r stamped"
  sa_timestamp_s :: "int stamped"
  sa_altitude_sensor_barometric :: bool
  sa_dte_ready :: bool
  sa_assigned_mode :: bool
  sa_raim :: bool
  sa_last_update_us :: u64

definition ais_sar_aircraft_init :: "('r :: zero, 'c :: zero) ais_sar_aircraft" where
  "ais_sar_aircraft_init = \<lparr>
     ah_source = SrcGpsd, ah_message_type = stamped_init, ah_repeat_indicator = stamped_init,
     ah_mmsi = stamped_init, sa_altitude_m = stamped_init, sa_speed_over_ground_kn = stamped_init,
     sa_position_accuracy = False, sa_longitude_deg = stamped_init, sa_latitude_deg = stamped_init,
     sa_course_over_ground_deg = stamped_init, sa_timestamp_s = stamped_init,
     sa_altitude_sensor_barometric = False, sa_dte_ready = False, sa_assigned_mode = False, sa_raim = False,
     sa_last_update_us = 0\<rparr>"

record 'c ais_base_station = ais_header +
  bs_year :: "int stamped"
  bs_month :: "int stamped"
  bs_day :: "int stamped"
  bs_hour :: "int stamped"
  bs_minute :: "int stamped"
  bs_second :: "int stamped"
  bs_position_accuracy :: bool
  bs_longitude_deg :: "'c stamped"
  bs_latitude_deg :: "'c stamped"
  bs_epfd_type :: "int stamped"
  bs_raim :: bool
  bs_last_update_us :: u64

definition ais_base_station_init :: "'c :: zero ais_base_station" where
  "ais_base_station_init = \<lparr>
     ah_source = SrcGpsd, ah_message_type = stamped_init, ah_repeat_indicator = stamped_init,
     ah_mmsi = stamped_init, bs_year = stamped_init, bs_month = stamped_init, bs_day = stamped_init,
     bs_hour = stamped_init, bs_minute = stamped_init, bs_second = stamped_init, bs_position_accuracy = False,
     bs_longitude_deg = stamped_init, bs_latitude_deg = stamped_init, bs_epfd_type = stamped_init,
     bs_raim = False, bs_last_update_us = 0\<rparr>"

record 'r ais_static_voyage = ais_header +
  sv_ais_version :: "int stamped"
  sv_imo_number :: "int stamped"
  sv_call_sign :: string
  sv_vessel_name :: string
  sv_ship_type :: "int stamped"
  sv_dimension_to_bow_m :: "int stamped"
  sv_dimension_to_stern_m :: "int stamped"
  sv_dimension_to_port_m :: "int stamped"
  sv_dimension_to_starboard_m :: "int stamped"
  sv_epfd_type :: "int stamped"
  sv_eta_month :: "int stamped"
  sv_eta_day :: "int stamped"
  sv_eta_hour :: "int stamped"
  sv_eta_minute :: "int stamped"
  sv_draught_m :: "'r stamped"
  sv_destination :: string
  sv_dte_ready :: bool
  sv_last_update_us :: u64

definition ais_static_voyage_init :: "'r :: zero ais_static_voyage" where
  "ais_static_voyage_init = \<lparr>
     ah_source = SrcGpsd, ah_message_type = stamped_init, ah_repeat_indicator = stamped_init,
     ah_mmsi = stamped_init, sv_ais_version = stamped_init, sv_imo_number = stamped_init, sv_call_sign = [],
     sv_vessel_name = [], sv_ship_type = stamped_init, sv_dimension_to_bow_m = stamped_init,
     sv_dimension_to_stern_m = stamped_init, sv_dimension_to_port_m = stamped_init,
     sv_dimension_to_starboard_m = stamped_init, sv_epfd_type = stamped_init, sv_eta_month = stamped_init,
     sv_eta_day = stamped_init, sv_eta_hour = stamped_init, sv_eta_minute = stamped_init,
     sv_draught_m = stamped_init, sv_destination = [], sv_dte_ready = False, sv_last_update_us = 0\<rparr>"

record ais_class_b_static = ais_header +
  cb_part_number :: "int stamped"
  cb_vendor_id :: string
  cb_call_sign :: string
  cb_vessel_name :: string
  cb_ship_type :: "int stamped"
  cb_dimension_to_bow_m :: "int stamped"
  cb_dimension_to_stern_m :: "int stamped"
  cb_dimension_to_port_m :: "int stamped"
  cb_dimension_to_starboard_m :: "int stamped"
  cb_epfd_type :: "int stamped"
  cb_dte_ready :: bool
  cb_assigned_mode :: bool
  cb_merge_mmsi :: "int stamped"
  cb_part_a_received :: bool
  cb_part_b_received :: bool
  cb_complete :: bool
  cb_part_a_update_us :: u64
  cb_part_b_update_us :: u64
  cb_last_update_us :: u64

definition ais_class_b_static_init :: "ais_class_b_static" where
  "ais_class_b_static_init = \<lparr>
     ah_source = SrcGpsd, ah_message_type = stamped_init, ah_repeat_indicator = stamped_init,
     ah_mmsi = stamped_init, cb_part_number = stamped_init, cb_vendor_id = [], cb_call_sign = [],
     cb_vessel_name = [], cb_ship_type = stamped_init, cb_dimension_to_bow_m = stamped_init,
     cb_dimension_to_stern_m = stamped_init, cb_dimension_to_port_m = stamped_init,
     cb_dimension_to_starboard_m = stamped_init, cb_epfd_type = stamped_init, cb_dte_ready = False,
     cb_assigned_mode = False, cb_merge_mmsi = stamped_init, cb_part_a_received = False,
     cb_part_b_received = False, cb_complete = False, cb_part_a_update_us = 0, cb_part_b_update_us = 0,
     cb_last_update_us = 0\<rparr>"

record 'c ais_aid_to_navigation = ais_header +
  an_aid_type :: "int stamped"
  an_name :: string
  an_name_extension :: string
  an_name_extension_char_count :: "int stamped"
  an_position_accuracy :: bool
  an_longitude_deg :: "'c stamped"
  an_latitude_deg :: "'c stamped"
  an_dimension_to_bow_m :: "int stamped"
  an_dimension_to_stern_m :: "int stamped"
  an_dimension_to_port_m :: "int stamped"
  an_dimension_to_starboard_m :: "int stamped"
  an_epfd_type :: "int stamped"
  an_timestamp_s :: "int stamped"
  an_off_position :: bool
  an_raim :: bool
  an_virtual_aid :: bool
  an_assigned_mode :: bool
  an_name_extension_available :: bool
  an_name_extension_valid :: bool
  an_name_extension_truncated :: bool
  an_last_update_us :: u64

definition ais_aid_to_navigation_init :: "'c :: zero ais_aid_to_navigation" where
  "ais_aid_to_navigation_init = \<lparr>
     ah_source = SrcGpsd, ah_message_type = stamped_init, ah_repeat_indicator = stamped_init,
     ah_mmsi = stamped_init, an_aid_type = stamped_init, an_name = [], an_name_extension = [],
     an_name_extension_char_count = stamped_init, an_position_accuracy = False,
     an_longitude_deg = stamped_init, an_latitude_deg = stamped_init, an_dimension_to_bow_m = stamped_init,
     an_dimension_to_stern_m = stamped_init, an_dimension_to_port_m = stamped_init,
     an_dimension_to_starboard_m = stamped_init, an_epfd_type = stamped_init, an_timestamp_s = stamped_init,
     an_off_position = False, an_raim = False, an_virtual_aid = False, an_assigned_mode = False,
     an_name_extension_available = False, an_name_extension_valid = False, an_name_extension_truncated = False,
     an_last_update_us = 0\<rparr>"

record ('r, 'c) ais_long_range = ais_header +
  lr_navigation_status :: "int stamped"
  lr_position_accuracy :: bool
  lr_raim :: bool
  lr_longitude_deg :: "'c stamped"
  lr_latitude_deg :: "'c stamped"
  lr_speed_over_ground_kn :: "'r stamped"
  lr_course_over_ground_deg :: "'r stamped"
  lr_gnss_position_status :: bool
  lr_last_update_us :: u64

definition ais_long_range_init :: "('r :: zero, 'c :: zero) ais_long_range" where
  "ais_long_range_init = \<lparr>
     ah_source = SrcGpsd, ah_message_type = stamped_init, ah_repeat_indicator = stamped_init,
     ah_mmsi = stamped_init, lr_navigation_status = stamped_init, lr_position_accuracy = False,
     lr_raim = False, lr_longitude_deg = stamped_init, lr_latitude_deg = stamped_init,
     lr_speed_over_ground_kn = stamped_init, lr_course_over_ground_deg = stamped_init,
     lr_gnss_position_status = False, lr_last_update_us = 0\<rparr>"

record ais_safety_text = ais_header +
  sx_destination_mmsi :: "int stamped"
  sx_sequence_number :: "int stamped"
  sx_retransmit :: bool
  sx_text :: string
  sx_last_update_us :: u64

definition ais_safety_text_init :: "ais_safety_text" where
  "ais_safety_text_init = \<lparr>
     ah_source = SrcGpsd, ah_message_type = stamped_init, ah_repeat_indicator = stamped_init,
     ah_mmsi = stamped_init, sx_destination_mmsi = stamped_init, sx_sequence_number = stamped_init,
     sx_retransmit = False, sx_text = [], sx_last_update_us = 0\<rparr>"

record ais_binary_envelope = ais_header +
  be_destination_mmsi :: "int stamped"
  be_sequence_number :: "int stamped"
  be_dac :: "int stamped"
  be_function_id :: "int stamped"
  be_payload_bit_count :: "int stamped"
  be_addressed :: bool
  be_structured :: bool
  be_retransmit :: bool
  be_last_update_us :: u64

definition ais_binary_envelope_init :: "ais_binary_envelope" where
  "ais_binary_envelope_init = \<lparr>
     ah_source = SrcGpsd, ah_message_type = stamped_init, ah_repeat_indicator = stamped_init,
     ah_mmsi = stamped_init, be_destination_mmsi = stamped_init, be_sequence_number = stamped_init,
     be_dac = stamped_init, be_function_id = stamped_init, be_payload_bit_count = stamped_init,
     be_addressed = False, be_structured = False, be_retransmit = False, be_last_update_us = 0\<rparr>"

record ('r, 'c) ais_binary_application = ais_header +
  ba_dac :: "int stamped"
  ba_function_id :: "int stamped"
  ba_payload_bit_count :: "int stamped"
  ba_payload_start_bit :: "int stamped"
  ba_first_payload_bits :: "int stamped"
  ba_decoded_field_count :: "int stamped"
  ba_quantity :: "int stamped"
  ba_cargo_code :: "int stamped"
  ba_cargo_subcode :: "int stamped"
  ba_cargo_amount :: "int stamped"
  ba_cargo_unit :: "int stamped"
  ba_link_id :: "int stamped"
  ba_notice_type :: "int stamped"
  ba_month :: "int stamped"
  ba_day :: "int stamped"
  ba_hour :: "int stamped"
  ba_minute :: "int stamped"
  ba_duration_min :: "int stamped"
  ba_subarea_count :: "int stamped"
  ba_subarea_shape :: "int stamped list"
  ba_subarea_scale_factor :: "int stamped list"
  ba_subarea_longitude_deg :: "'c stamped list"
  ba_subarea_latitude_deg :: "'c stamped list"
  ba_subarea_precision :: "int stamped list"
  ba_subarea_radius_m :: "int stamped list"
  ba_subarea_dimension_e_m :: "int stamped list"
  ba_subarea_dimension_n_m :: "int stamped list"
  ba_subarea_orientation_deg :: "int stamped list"
  ba_longitude_deg :: "'c stamped"
  ba_latitude_deg :: "'c stamped"
  ba_wind_speed_kn :: "int stamped"
  ba_wind_gust_kn :: "int stamped"
  ba_wind_direction_deg :: "int stamped"
  ba_wind_gust_direction_deg :: "int stamped"
  ba_air_temperature_c :: "'r stamped"
  ba_relative_humidity_pct :: "int stamped"
  ba_dew_point_c :: "'r stamped"
  ba_air_pressure_hpa :: "int stamped"
  ba_air_pressure_tendency :: "int stamped"
  ba_horizontal_visibility_nmi :: "'r stamped"
  ba_water_level_m :: "'r stamped"
  ba_water_level_trend :: "int stamped"
  ba_surface_current_speed_kn :: "'r stamped"
  ba_surface_current_direction_deg :: "int stamped"
  ba_wave_height_m :: "'r stamped"
  ba_wave_period_s :: "int stamped"
  ba_wave_direction_deg :: "int stamped"
  ba_swell_height_m :: "'r stamped"
  ba_swell_period_s :: "int stamped"
  ba_swell_direction_deg :: "int stamped"
  ba_sea_state :: "int stamped"
  ba_water_temperature_c :: "'r stamped"
  ba_precipitation_type :: "int stamped"
  ba_salinity_ppt :: "'r stamped"
  ba_ice_mm :: "int stamped"
  ba_text :: string
  ba_application_label :: string
  ba_known_application :: bool
  ba_addressed :: bool
  ba_structured :: bool
  ba_last_update_us :: u64

definition ais_binary_application_init :: "('r :: zero, 'c :: zero) ais_binary_application" where
  "ais_binary_application_init = \<lparr>
     ah_source = SrcGpsd, ah_message_type = stamped_init, ah_repeat_indicator = stamped_init,
     ah_mmsi = stamped_init, ba_dac = stamped_init, ba_function_id = stamped_init,
     ba_payload_bit_count = stamped_init, ba_payload_start_bit = stamped_init,
     ba_first_payload_bits = stamped_init, ba_decoded_field_count = stamped_init, ba_quantity = stamped_init,
     ba_cargo_code = stamped_init, ba_cargo_subcode = stamped_init, ba_cargo_amount = stamped_init,
     ba_cargo_unit = stamped_init, ba_link_id = stamped_init, ba_notice_type = stamped_init,
     ba_month = stamped_init, ba_day = stamped_init, ba_hour = stamped_init, ba_minute = stamped_init,
     ba_duration_min = stamped_init, ba_subarea_count = stamped_init,
     ba_subarea_shape = replicate 4 stamped_init, ba_subarea_scale_factor = replicate 4 stamped_init,
     ba_subarea_longitude_deg = replicate 4 stamped_init, ba_subarea_latitude_deg = replicate 4 stamped_init,
     ba_subarea_precision = replicate 4 stamped_init, ba_subarea_radius_m = replicate 4 stamped_init,
     ba_subarea_dimension_e_m = replicate 4 stamped_init, ba_subarea_dimension_n_m = replicate 4 stamped_init,
     ba_subarea_orientation_deg = replicate 4 stamped_init, ba_longitude_deg = stamped_init,
     ba_latitude_deg = stamped_init, ba_wind_speed_kn = stamped_init, ba_wind_gust_kn = stamped_init,
     ba_wind_direction_deg = stamped_init, ba_wind_gust_direction_deg = stamped_init,
     ba_air_temperature_c = stamped_init, ba_relative_humidity_pct = stamped_init,
     ba_dew_point_c = stamped_init, ba_air_pressure_hpa = stamped_init,
     ba_air_pressure_tendency = stamped_init, ba_horizontal_visibility_nmi = stamped_init,
     ba_water_level_m = stamped_init, ba_water_level_trend = stamped_init,
     ba_surface_current_speed_kn = stamped_init, ba_surface_current_direction_deg = stamped_init,
     ba_wave_height_m = stamped_init, ba_wave_period_s = stamped_init, ba_wave_direction_deg = stamped_init,
     ba_swell_height_m = stamped_init, ba_swell_period_s = stamped_init, ba_swell_direction_deg = stamped_init,
     ba_sea_state = stamped_init, ba_water_temperature_c = stamped_init, ba_precipitation_type = stamped_init,
     ba_salinity_ppt = stamped_init, ba_ice_mm = stamped_init, ba_text = [], ba_application_label = [],
     ba_known_application = False, ba_addressed = False, ba_structured = False, ba_last_update_us = 0\<rparr>"

record ais_acknowledgement = ais_header +
  ac_acknowledgement_count :: "int stamped"
  ac_destination_mmsi :: "int stamped list"
  ac_sequence_number :: "int stamped list"
  ac_last_update_us :: u64

definition ais_acknowledgement_init :: "ais_acknowledgement" where
  "ais_acknowledgement_init = \<lparr>
     ah_source = SrcGpsd, ah_message_type = stamped_init, ah_repeat_indicator = stamped_init,
     ah_mmsi = stamped_init, ac_acknowledgement_count = stamped_init,
     ac_destination_mmsi = replicate 4 stamped_init, ac_sequence_number = replicate 4 stamped_init,
     ac_last_update_us = 0\<rparr>"

record ais_utc_inquiry = ais_header +
  ui_destination_mmsi :: "int stamped"
  ui_last_update_us :: u64

definition ais_utc_inquiry_init :: "ais_utc_inquiry" where
  "ais_utc_inquiry_init = \<lparr>
     ah_source = SrcGpsd, ah_message_type = stamped_init, ah_repeat_indicator = stamped_init,
     ah_mmsi = stamped_init, ui_destination_mmsi = stamped_init, ui_last_update_us = 0\<rparr>"

record ais_interrogation = ais_header +
  ir_first_destination_mmsi :: "int stamped"
  ir_first_message_type :: "int stamped"
  ir_first_slot_offset :: "int stamped"
  ir_second_message_type :: "int stamped"
  ir_second_slot_offset :: "int stamped"
  ir_second_destination_mmsi :: "int stamped"
  ir_third_message_type :: "int stamped"
  ir_third_slot_offset :: "int stamped"
  ir_last_update_us :: u64

definition ais_interrogation_init :: "ais_interrogation" where
  "ais_interrogation_init = \<lparr>
     ah_source = SrcGpsd, ah_message_type = stamped_init, ah_repeat_indicator = stamped_init,
     ah_mmsi = stamped_init, ir_first_destination_mmsi = stamped_init, ir_first_message_type = stamped_init,
     ir_first_slot_offset = stamped_init, ir_second_message_type = stamped_init,
     ir_second_slot_offset = stamped_init, ir_second_destination_mmsi = stamped_init,
     ir_third_message_type = stamped_init, ir_third_slot_offset = stamped_init, ir_last_update_us = 0\<rparr>"

record ais_assignment_command = ais_header +
  as_assignment_count :: "int stamped"
  as_destination_mmsi :: "int stamped list"
  as_offset :: "int stamped list"
  as_increment :: "int stamped list"
  as_last_update_us :: u64

definition ais_assignment_command_init :: "ais_assignment_command" where
  "ais_assignment_command_init = \<lparr>
     ah_source = SrcGpsd, ah_message_type = stamped_init, ah_repeat_indicator = stamped_init,
     ah_mmsi = stamped_init, as_assignment_count = stamped_init,
     as_destination_mmsi = replicate 2 stamped_init, as_offset = replicate 2 stamped_init,
     as_increment = replicate 2 stamped_init, as_last_update_us = 0\<rparr>"

record ais_data_link_management = ais_header +
  dl_reservation_count :: "int stamped"
  dl_slot_offset :: "int stamped list"
  dl_slot_count :: "int stamped list"
  dl_timeout_min :: "int stamped list"
  dl_increment :: "int stamped list"
  dl_last_update_us :: u64

definition ais_data_link_management_init :: "ais_data_link_management" where
  "ais_data_link_management_init = \<lparr>
     ah_source = SrcGpsd, ah_message_type = stamped_init, ah_repeat_indicator = stamped_init,
     ah_mmsi = stamped_init, dl_reservation_count = stamped_init, dl_slot_offset = replicate 4 stamped_init,
     dl_slot_count = replicate 4 stamped_init, dl_timeout_min = replicate 4 stamped_init,
     dl_increment = replicate 4 stamped_init, dl_last_update_us = 0\<rparr>"

record 'c ais_dgnss_broadcast = ais_header +
  dg_longitude_deg :: "'c stamped"
  dg_latitude_deg :: "'c stamped"
  dg_payload_bit_count :: "int stamped"
  dg_payload_start_bit :: "int stamped"
  dg_payload_byte_count :: "int stamped"
  dg_first_payload_bits :: "int stamped"
  dg_payload_prefix_byte_count :: "int stamped"
  dg_payload_prefix :: "u8 list"
  dg_payload_truncated :: bool
  dg_last_update_us :: u64

definition ais_dgnss_broadcast_init :: "'c :: zero ais_dgnss_broadcast" where
  "ais_dgnss_broadcast_init = \<lparr>
     ah_source = SrcGpsd, ah_message_type = stamped_init, ah_repeat_indicator = stamped_init,
     ah_mmsi = stamped_init, dg_longitude_deg = stamped_init, dg_latitude_deg = stamped_init,
     dg_payload_bit_count = stamped_init, dg_payload_start_bit = stamped_init,
     dg_payload_byte_count = stamped_init, dg_first_payload_bits = stamped_init,
     dg_payload_prefix_byte_count = stamped_init, dg_payload_prefix = replicate 32 0,
     dg_payload_truncated = False, dg_last_update_us = 0\<rparr>"

record 'c ais_channel_management = ais_header +
  cm_channel_a :: "int stamped"
  cm_channel_b :: "int stamped"
  cm_txrx_mode :: "int stamped"
  cm_high_power :: bool
  cm_addressed :: bool
  cm_northeast_lon_deg :: "'c stamped"
  cm_northeast_lat_deg :: "'c stamped"
  cm_southwest_lon_deg :: "'c stamped"
  cm_southwest_lat_deg :: "'c stamped"
  cm_first_destination_mmsi :: "int stamped"
  cm_second_destination_mmsi :: "int stamped"
  cm_bandwidth_a_12_5khz :: bool
  cm_bandwidth_b_12_5khz :: bool
  cm_transitional_zone_size_nmi :: "int stamped"
  cm_last_update_us :: u64

definition ais_channel_management_init :: "'c :: zero ais_channel_management" where
  "ais_channel_management_init = \<lparr>
     ah_source = SrcGpsd, ah_message_type = stamped_init, ah_repeat_indicator = stamped_init,
     ah_mmsi = stamped_init, cm_channel_a = stamped_init, cm_channel_b = stamped_init,
     cm_txrx_mode = stamped_init, cm_high_power = False, cm_addressed = False,
     cm_northeast_lon_deg = stamped_init, cm_northeast_lat_deg = stamped_init,
     cm_southwest_lon_deg = stamped_init, cm_southwest_lat_deg = stamped_init,
     cm_first_destination_mmsi = stamped_init, cm_second_destination_mmsi = stamped_init,
     cm_bandwidth_a_12_5khz = False, cm_bandwidth_b_12_5khz = False,
     cm_transitional_zone_size_nmi = stamped_init, cm_last_update_us = 0\<rparr>"

record 'c ais_group_assignment = ais_header +
  gc_northeast_lon_deg :: "'c stamped"
  gc_northeast_lat_deg :: "'c stamped"
  gc_southwest_lon_deg :: "'c stamped"
  gc_southwest_lat_deg :: "'c stamped"
  gc_station_type :: "int stamped"
  gc_ship_type :: "int stamped"
  gc_txrx_mode :: "int stamped"
  gc_report_interval :: "int stamped"
  gc_quiet_time_min :: "int stamped"
  gc_last_update_us :: u64

definition ais_group_assignment_init :: "'c :: zero ais_group_assignment" where
  "ais_group_assignment_init = \<lparr>
     ah_source = SrcGpsd, ah_message_type = stamped_init, ah_repeat_indicator = stamped_init,
     ah_mmsi = stamped_init, gc_northeast_lon_deg = stamped_init, gc_northeast_lat_deg = stamped_init,
     gc_southwest_lon_deg = stamped_init, gc_southwest_lat_deg = stamped_init, gc_station_type = stamped_init,
     gc_ship_type = stamped_init, gc_txrx_mode = stamped_init, gc_report_interval = stamped_init,
     gc_quiet_time_min = stamped_init, gc_last_update_us = 0\<rparr>"

text \<open>
  The members of \<^verbatim>\<open>AisData\<close> that the VDM and VDO sentences write; the last two members of the
  structure belong to other sentences.
\<close>

record ('r, 'c) ais_data =
  ad_tracked_target :: "('r, 'c) tracked_target"
  ad_own_vessel :: "('r, 'c) ais_own_vessel"
  ad_targets :: "('r, 'c) ais_target_table"
  ad_position_report :: "('r, 'c) ais_position_report"
  ad_class_b_position_report :: "('r, 'c) ais_position_report"
  ad_sar_aircraft_position :: "('r, 'c) ais_sar_aircraft"
  ad_base_station :: "'c ais_base_station"
  ad_static_voyage :: "'r ais_static_voyage"
  ad_class_b_static :: ais_class_b_static
  ad_aid_to_navigation :: "'c ais_aid_to_navigation"
  ad_long_range_broadcast :: "('r, 'c) ais_long_range"
  ad_safety_text :: ais_safety_text
  ad_binary_envelope :: ais_binary_envelope
  ad_binary_application :: "('r, 'c) ais_binary_application"
  ad_acknowledgement :: ais_acknowledgement
  ad_utc_inquiry :: ais_utc_inquiry
  ad_interrogation :: ais_interrogation
  ad_assignment_command :: ais_assignment_command
  ad_data_link_management :: ais_data_link_management
  ad_dgnss_broadcast :: "'c ais_dgnss_broadcast"
  ad_channel_management :: "'c ais_channel_management"
  ad_group_assignment :: "'c ais_group_assignment"

definition ais_data_init :: "nat \<Rightarrow> ('r :: zero, 'c :: zero) ais_data" where
  "ais_data_init capacity = \<lparr>ad_tracked_target = tracked_target_init, ad_own_vessel = ais_own_vessel_init,
     ad_targets = ais_target_table_init capacity, ad_position_report = ais_position_report_init,
     ad_class_b_position_report = ais_position_report_init, ad_sar_aircraft_position = ais_sar_aircraft_init,
     ad_base_station = ais_base_station_init, ad_static_voyage = ais_static_voyage_init,
     ad_class_b_static = ais_class_b_static_init, ad_aid_to_navigation = ais_aid_to_navigation_init,
     ad_long_range_broadcast = ais_long_range_init, ad_safety_text = ais_safety_text_init,
     ad_binary_envelope = ais_binary_envelope_init, ad_binary_application = ais_binary_application_init,
     ad_acknowledgement = ais_acknowledgement_init, ad_utc_inquiry = ais_utc_inquiry_init,
     ad_interrogation = ais_interrogation_init, ad_assignment_command = ais_assignment_command_init,
     ad_data_link_management = ais_data_link_management_init, ad_dgnss_broadcast = ais_dgnss_broadcast_init,
     ad_channel_management = ais_channel_management_init, ad_group_assignment = ais_group_assignment_init\<rparr>"

section \<open>Operations on the table\<close>

definition target_matches :: "int \<Rightarrow> ('r, 'c) ais_target \<Rightarrow> bool" where
  "target_matches mmsi t \<longleftrightarrow> at_occupied t \<and> sd_valid (at_mmsi t) \<and> sd_value (at_mmsi t) = mmsi"

definition ais_find_target_index :: "int \<Rightarrow> ('r, 'c) ais_target_table \<Rightarrow> nat option" where
  "ais_find_target_index mmsi table = index_where (target_matches mmsi) (tb_targets table)"

definition target_count_of :: "('r, 'c) ais_target_table \<Rightarrow> int" where
  "target_count_of table = (if sd_valid (tb_target_count table) then sd_value (tb_target_count table) else 0)"

definition ais_clear_target :: "int \<Rightarrow> u64 \<Rightarrow> ('r :: zero, 'c :: zero) ais_target_table \<Rightarrow> bool \<times> ('r, 'c) ais_target_table" where
  "ais_clear_target mmsi now_us table =
     (case ais_find_target_index mmsi table of
        None \<Rightarrow> (False, table)
      | Some index \<Rightarrow>
          (let table = table\<lparr>tb_targets := (tb_targets table)[index := ais_target_init]\<rparr>;
               count = target_count_of table
           in (True, if 0 < count then table\<lparr>tb_target_count := stamp (count - 1) now_us\<rparr> else table)))"

definition ais_clear_targets :: "('r :: zero, 'c :: zero) ais_target_table \<Rightarrow> ('r, 'c) ais_target_table" where
  "ais_clear_targets table = ais_target_table_init (length (tb_targets table))"

definition target_expired :: "u64 \<Rightarrow> ('r, 'c) ais_target \<Rightarrow> bool" where
  "target_expired cutoff_us t \<longleftrightarrow> at_last_seen_us t \<noteq> 0 \<and> at_last_seen_us t < cutoff_us"

fun expire_loop ::
  "u64 \<Rightarrow> ('r :: zero, 'c :: zero) ais_target list \<Rightarrow> int \<Rightarrow> int \<Rightarrow> ('r, 'c) ais_target list \<times> int \<times> int" where
  "expire_loop cutoff_us [] expired remaining = ([], expired, remaining)"
| "expire_loop cutoff_us (t # ts) expired remaining =
     (if \<not> at_occupied t then (let (ts', e, r) = expire_loop cutoff_us ts expired remaining in (t # ts', e, r))
      else if target_expired cutoff_us t
      then (let (ts', e, r) = expire_loop cutoff_us ts (expired + 1) remaining in (ais_target_init # ts', e, r))
      else (let (ts', e, r) = expire_loop cutoff_us ts expired (remaining + 1) in (t # ts', e, r)))"

definition ais_expire_targets_older_than ::
  "u64 \<Rightarrow> u64 \<Rightarrow> ('r :: zero, 'c :: zero) ais_target_table \<Rightarrow> int \<times> ('r, 'c) ais_target_table" where
  "ais_expire_targets_older_than cutoff_us now_us table =
     (let (ts, expired, remaining) = expire_loop cutoff_us (tb_targets table) 0 0
      in (expired, table\<lparr>tb_targets := ts, tb_target_count := stamp remaining now_us\<rparr>))"

fun stale_loop :: "u64 \<Rightarrow> u64 \<Rightarrow> ('r, 'c) ais_target list \<Rightarrow> int \<Rightarrow> ('r, 'c) ais_target list \<times> int" where
  "stale_loop cutoff_us now_us [] n = ([], n)"
| "stale_loop cutoff_us now_us (t # ts) n =
     (if \<not> at_occupied t \<or> at_stale t then (let (ts', m) = stale_loop cutoff_us now_us ts n in (t # ts', m))
      else if target_expired cutoff_us t
      then (let (ts', m) = stale_loop cutoff_us now_us ts (n + 1)
            in (t\<lparr>at_stale := True, at_last_seen_us := (if at_last_seen_us t = 0 then now_us else at_last_seen_us t)\<rparr> # ts', m))
      else (let (ts', m) = stale_loop cutoff_us now_us ts n in (t # ts', m)))"

definition ais_mark_targets_stale_older_than ::
  "u64 \<Rightarrow> u64 \<Rightarrow> ('r, 'c) ais_target_table \<Rightarrow> int \<times> ('r, 'c) ais_target_table" where
  "ais_mark_targets_stale_older_than cutoff_us now_us table =
     (let (ts, n) = stale_loop cutoff_us now_us (tb_targets table) 0 in (n, table\<lparr>tb_targets := ts\<rparr>))"

end
