(* ===== verification/Ais_Bits.thy ===== *)
theory Ais_Bits
  imports Data_Model
begin

text \<open>
  The bit level of AIS messages in \<^verbatim>\<open>nmea_ais_core.hpp\<close> and the code tables of \<^verbatim>\<open>nmea_ais.hpp\<close>:
  the six-bit armour of a payload, unsigned and signed fields of up to 32 bits, texts, scaled
  positions and the common header. The flag \<^verbatim>\<open>ok\<close> that the code passes by reference is an argument
  and a second result. A payload pointer that is not null is a string.
\<close>

unbundle bit_operations_syntax

section \<open>Codes\<close>

text \<open>An enumeration with underlying type \<^verbatim>\<open>int32_t\<close> is an \<open>int\<close>: the code casts wire values to it.\<close>

type_synonym ais_message_type = int

abbreviation AIS_UNKNOWN :: ais_message_type where "AIS_UNKNOWN \<equiv> 0"
abbreviation AIS_BASE_STATION_REPORT :: ais_message_type where "AIS_BASE_STATION_REPORT \<equiv> 4"
abbreviation AIS_STATIC_AND_VOYAGE :: ais_message_type where "AIS_STATIC_AND_VOYAGE \<equiv> 5"
abbreviation AIS_BINARY_ADDRESSED :: ais_message_type where "AIS_BINARY_ADDRESSED \<equiv> 6"
abbreviation AIS_BINARY_ACKNOWLEDGE :: ais_message_type where "AIS_BINARY_ACKNOWLEDGE \<equiv> 7"
abbreviation AIS_BINARY_BROADCAST :: ais_message_type where "AIS_BINARY_BROADCAST \<equiv> 8"
abbreviation AIS_SAR_AIRCRAFT :: ais_message_type where "AIS_SAR_AIRCRAFT \<equiv> 9"
abbreviation AIS_UTC_INQUIRY :: ais_message_type where "AIS_UTC_INQUIRY \<equiv> 10"
abbreviation AIS_UTC_RESPONSE :: ais_message_type where "AIS_UTC_RESPONSE \<equiv> 11"
abbreviation AIS_ADDRESSED_SAFETY :: ais_message_type where "AIS_ADDRESSED_SAFETY \<equiv> 12"
abbreviation AIS_SAFETY_ACKNOWLEDGE :: ais_message_type where "AIS_SAFETY_ACKNOWLEDGE \<equiv> 13"
abbreviation AIS_SAFETY_BROADCAST :: ais_message_type where "AIS_SAFETY_BROADCAST \<equiv> 14"
abbreviation AIS_INTERROGATION :: ais_message_type where "AIS_INTERROGATION \<equiv> 15"
abbreviation AIS_ASSIGNMENT_COMMAND :: ais_message_type where "AIS_ASSIGNMENT_COMMAND \<equiv> 16"
abbreviation AIS_DGNSS_BROADCAST :: ais_message_type where "AIS_DGNSS_BROADCAST \<equiv> 17"
abbreviation AIS_STANDARD_CLASS_B :: ais_message_type where "AIS_STANDARD_CLASS_B \<equiv> 18"
abbreviation AIS_EXTENDED_CLASS_B :: ais_message_type where "AIS_EXTENDED_CLASS_B \<equiv> 19"
abbreviation AIS_DATA_LINK_MANAGEMENT :: ais_message_type where "AIS_DATA_LINK_MANAGEMENT \<equiv> 20"
abbreviation AIS_AID_TO_NAVIGATION :: ais_message_type where "AIS_AID_TO_NAVIGATION \<equiv> 21"
abbreviation AIS_CHANNEL_MANAGEMENT :: ais_message_type where "AIS_CHANNEL_MANAGEMENT \<equiv> 22"
abbreviation AIS_GROUP_ASSIGNMENT :: ais_message_type where "AIS_GROUP_ASSIGNMENT \<equiv> 23"
abbreviation AIS_STATIC_DATA_REPORT :: ais_message_type where "AIS_STATIC_DATA_REPORT \<equiv> 24"
abbreviation AIS_SINGLE_SLOT_BINARY :: ais_message_type where "AIS_SINGLE_SLOT_BINARY \<equiv> 25"
abbreviation AIS_MULTI_SLOT_BINARY :: ais_message_type where "AIS_MULTI_SLOT_BINARY \<equiv> 26"
abbreviation AIS_LONG_RANGE :: ais_message_type where "AIS_LONG_RANGE \<equiv> 27"

definition ais_message_type_from_int :: "int \<Rightarrow> ais_message_type" where
  "ais_message_type_from_int v = (if 1 \<le> v \<and> v \<le> 27 then v else AIS_UNKNOWN)"

definition is_class_a_position :: "ais_message_type \<Rightarrow> bool" where
  "is_class_a_position ty \<longleftrightarrow> ty = 1 \<or> ty = 2 \<or> ty = 3"

definition is_class_b_position :: "ais_message_type \<Rightarrow> bool" where
  "is_class_b_position ty \<longleftrightarrow> ty = AIS_STANDARD_CLASS_B \<or> ty = AIS_EXTENDED_CLASS_B"

definition ais_control_message_type :: "ais_message_type \<Rightarrow> bool" where
  "ais_control_message_type ty \<longleftrightarrow> ty \<in> {AIS_BINARY_ACKNOWLEDGE, AIS_UTC_INQUIRY, AIS_SAFETY_ACKNOWLEDGE, AIS_INTERROGATION,
     AIS_ASSIGNMENT_COMMAND, AIS_DGNSS_BROADCAST, AIS_DATA_LINK_MANAGEMENT, AIS_CHANNEL_MANAGEMENT, AIS_GROUP_ASSIGNMENT}"

definition ais_navigation_status_from_int :: "int \<Rightarrow> int" where
  "ais_navigation_status_from_int v = (if 0 \<le> v \<and> v \<le> 15 then v else 15)"

definition ais_maneuver_indicator_from_int :: "int \<Rightarrow> int" where
  "ais_maneuver_indicator_from_int v = (if 0 \<le> v \<and> v \<le> 3 then v else 0)"

definition ais_epfd_type_from_int :: "int \<Rightarrow> int" where
  "ais_epfd_type_from_int v = (if 0 \<le> v \<and> v \<le> 8 then v else 0)"

definition ais_static_data_part_from_int :: "int \<Rightarrow> int" where
  "ais_static_data_part_from_int v = (if v = 0 \<or> v = 1 then v else 0)"

definition ais_area_notice_shape_from_int :: "int \<Rightarrow> int" where
  "ais_area_notice_shape_from_int v = (if 0 \<le> v \<and> v \<le> 7 then v else 7)"

definition ais_txrx_mode_from_int :: "int \<Rightarrow> int" where
  "ais_txrx_mode_from_int v = (if 0 \<le> v \<and> v \<le> 3 then v else 3)"

datatype ais_binary_application_id =
  AppUnknown | AppMetHydro | AppDangerousCargo | AppPersonsOnBoard | AppVtsText | AppAreaNotice | AppRegionalWeather

definition ais_binary_application_id :: "int \<Rightarrow> int \<Rightarrow> ais_binary_application_id" where
  "ais_binary_application_id dac fi =
     (if dac = 1 \<and> fi = 31 then AppMetHydro
      else if dac = 1 \<and> fi = 12 then AppDangerousCargo
      else if dac = 1 \<and> fi = 16 then AppPersonsOnBoard
      else if dac = 1 \<and> fi = 17 then AppVtsText
      else if dac = 1 \<and> fi = 22 then AppAreaNotice
      else if dac = 200 \<and> fi = 10 then AppRegionalWeather
      else AppUnknown)"

definition ais_binary_application_label_from_id :: "ais_binary_application_id \<Rightarrow> string" where
  "ais_binary_application_label_from_id app =
     (case app of
        AppMetHydro \<Rightarrow> ''imo_met_hydro'' | AppDangerousCargo \<Rightarrow> ''imo_dangerous_cargo''
      | AppPersonsOnBoard \<Rightarrow> ''imo_persons_on_board'' | AppVtsText \<Rightarrow> ''imo_vts_generated_text''
      | AppAreaNotice \<Rightarrow> ''imo_area_notice'' | AppRegionalWeather \<Rightarrow> ''regional_weather'' | AppUnknown \<Rightarrow> ''unknown'')"

section \<open>Fields\<close>

definition ais_sixbit_value :: "char \<Rightarrow> int" where
  "ais_sixbit_value c =
     (let n = int (of_char c) in
      if 48 \<le> n \<and> n \<le> 87 then n - 48 else if 96 \<le> n \<and> n \<le> 119 then n - 56 else -1)"

definition ais_payload_valid :: "string \<Rightarrow> bool" where
  "ais_payload_valid payload \<longleftrightarrow> payload \<noteq> [] \<and> (\<forall>c \<in> set payload. 0 \<le> ais_sixbit_value c)"

definition payload_bit :: "int \<Rightarrow> nat \<Rightarrow> u32" where
  "payload_bit v bit_index = of_int (drop_bit (5 - bit_index mod 6) v AND 1)"

fun ais_get_loop :: "string \<Rightarrow> nat \<Rightarrow> nat \<Rightarrow> u32 \<Rightarrow> u32 \<times> bool" where
  "ais_get_loop payload bit_index 0 out = (out, True)"
| "ais_get_loop payload bit_index (Suc n) out =
     (let v = ais_sixbit_value (payload ! (bit_index div 6)) in
      if v < 0 then (0, False)
      else ais_get_loop payload (bit_index + 1) n (push_bit 1 out OR payload_bit v bit_index))"

definition ais_get_u :: "string \<Rightarrow> nat \<Rightarrow> nat \<Rightarrow> bool \<Rightarrow> u32 \<times> bool" where
  "ais_get_u payload bit_offset bit_count ok =
     (if \<not> ok \<or> 32 < bit_count then (0, False)
      else if length payload * 6 < bit_offset + bit_count then (0, False)
      else ais_get_loop payload bit_offset bit_count 0)"

text \<open>\<^verbatim>\<open>static_cast<int32_t>\<close> of a field, and the test of a one-bit field.\<close>

definition ais_get_i :: "string \<Rightarrow> nat \<Rightarrow> nat \<Rightarrow> bool \<Rightarrow> int \<times> bool" where
  "ais_get_i payload bit_offset bit_count ok = (let (w, ok) = ais_get_u payload bit_offset bit_count ok in (sint w, ok))"

definition ais_get_b :: "string \<Rightarrow> nat \<Rightarrow> bool \<Rightarrow> bool \<times> bool" where
  "ais_get_b payload bit_offset ok = (let (w, ok) = ais_get_u payload bit_offset 1 ok in (w \<noteq> 0, ok))"

definition ais_get_s :: "string \<Rightarrow> nat \<Rightarrow> nat \<Rightarrow> bool \<Rightarrow> int \<times> bool" where
  "ais_get_s payload bit_offset bit_count ok =
     (let (raw, ok) = ais_get_u payload bit_offset bit_count ok in
      if \<not> ok \<or> bit_count = 0 \<or> 32 \<le> bit_count then (sint raw, ok)
      else if raw AND push_bit (bit_count - 1) 1 = 0 then (sint raw, ok)
      else (- sint ((NOT raw AND (push_bit bit_count 1 - 1)) + 1), ok))"

record ais_decoded_header =
  dh_message_type :: ais_message_type
  dh_repeat_indicator :: int
  dh_mmsi :: int

definition ais_decode_header :: "string \<Rightarrow> bool \<times> ais_decoded_header" where
  "ais_decode_header payload =
     (let (raw, ok) = ais_get_i payload 0 6 True;
          (rep, ok) = ais_get_i payload 6 2 ok;
          (mmsi, ok) = ais_get_i payload 8 30 ok;
          ty = ais_message_type_from_int raw
      in (ok \<and> ty \<noteq> AIS_UNKNOWN, \<lparr>dh_message_type = ty, dh_repeat_indicator = rep, dh_mmsi = mmsi\<rparr>))"

definition ais_text_char :: "u32 \<Rightarrow> char" where
  "ais_text_char w = (let v = unat (w AND 0x3F) in if v < 32 then char_of (64 + v) else char_of (32 + (v - 32)))"

text \<open>
  The loop over the characters of a text: it stops where the payload ends. The second result says
  whether all characters were there; only then the trailing fill is cut.
\<close>

fun ais_text_loop :: "string \<Rightarrow> nat \<Rightarrow> nat \<Rightarrow> string \<times> bool" where
  "ais_text_loop payload bit_offset 0 = ([], True)"
| "ais_text_loop payload bit_offset (Suc n) =
     (let (w, ok) = ais_get_u payload bit_offset 6 True in
      if \<not> ok then ([], False)
      else (let (rest, ok) = ais_text_loop payload (bit_offset + 6) n in (ais_text_char w # rest, ok)))"

definition ais_text_fill :: "char \<Rightarrow> bool" where
  "ais_text_fill c \<longleftrightarrow> c = CHR ''@'' \<or> c = CHR '' ''"

definition ais_copy_text :: "nat \<Rightarrow> string \<Rightarrow> nat \<Rightarrow> nat \<Rightarrow> string \<Rightarrow> string" where
  "ais_copy_text out_size payload bit_offset char_count out =
     (if out_size = 0 then out
      else (let n = (if out_size < char_count + 1 then out_size - 1 else char_count);
                (cs, ok) = ais_text_loop payload bit_offset n
            in if ok then rev (dropWhile ais_text_fill (rev cs)) else cs))"

definition ais_position_deg :: "('f, 'r, 'c) arith \<Rightarrow> int \<Rightarrow> bool \<Rightarrow> 'c option" where
  "ais_position_deg A raw longitude =
     (let unavailable = (if longitude then 108600000 else 54600000);
          max_abs = (if longitude then 108000000 else 54000000)
      in if raw = unavailable \<or> max_abs < raw \<or> raw < - max_abs then None
         else Some (c_div A (c_of_int A raw) (c_of_int A 600000)))"

definition ais_long_range_position_deg :: "('f, 'r, 'c) arith \<Rightarrow> int \<Rightarrow> bool \<Rightarrow> 'c option" where
  "ais_long_range_position_deg A raw longitude =
     (let max_abs = (if longitude then 108000 else 54000)
      in if max_abs < raw \<or> raw < - max_abs then None else Some (c_div A (c_of_int A raw) (c_of_int A 600)))"

definition ais_app_position_deg :: "('f, 'r, 'c) arith \<Rightarrow> int \<Rightarrow> bool \<Rightarrow> 'c option" where
  "ais_app_position_deg A raw longitude =
     (let max_abs = (if longitude then 10800000 else 5400000)
      in if max_abs < raw \<or> raw < - max_abs then None else Some (c_div A (c_of_int A raw) (c_of_int A 60000)))"

definition ais_scaled_real :: "('f, 'r, 'c) arith \<Rightarrow> int \<Rightarrow> 'f \<Rightarrow> 'r" where
  "ais_scaled_real A raw scale = r_of_f A (f_mul A (f_of_int A raw) scale)"

definition AIS_TENTHS_SCALE :: "('f, 'r, 'c) arith \<Rightarrow> 'f" where
  "AIS_TENTHS_SCALE A = f_dec A 1 1"

definition AIS_CENTIMETERS_SCALE :: "('f, 'r, 'c) arith \<Rightarrow> 'f" where
  "AIS_CENTIMETERS_SCALE A = f_dec A 1 2"

definition AIS_ROT_SCALE :: "('f, 'r, 'c) arith \<Rightarrow> 'f" where
  "AIS_ROT_SCALE A = f_dec A 4733 3"

text \<open>The sensor's rate of turn is the signed square of the scaled raw value.\<close>

definition rot_deg_min :: "('f, 'r, 'c) arith \<Rightarrow> int \<Rightarrow> 'f" where
  "rot_deg_min A raw =
     (let signed_rot = f_div A (f_of_int A raw) (AIS_ROT_SCALE A) in
      if f_lt A signed_rot (f_of_int A 0) then f_neg A (f_mul A signed_rot signed_rot) else f_mul A signed_rot signed_rot)"

section \<open>The bits of a payload\<close>

definition sixbits :: "char \<Rightarrow> bool list" where
  "sixbits c = map (\<lambda>j. bit (ais_sixbit_value c) (5 - j)) [0..<6]"

definition payload_bits :: "string \<Rightarrow> bool list" where
  "payload_bits p = concat (map sixbits p)"

definition bits_word :: "bool list \<Rightarrow> u32" where
  "bits_word bs = foldl (\<lambda>w b. push_bit 1 w OR of_bool b) 0 bs"

lemma length_sixbits [simp]: "length (sixbits c) = 6"
  by (simp add: sixbits_def)

lemma length_payload_bits [simp]: "length (payload_bits p) = 6 * length p"
  by (induction p) (simp_all add: payload_bits_def)

lemma payload_bits_nth:
  "k < 6 * length p \<Longrightarrow> payload_bits p ! k = bit (ais_sixbit_value (p ! (k div 6))) (5 - k mod 6)"
proof (induction p arbitrary: k)
  case (Cons c p)
  show ?case
  proof (cases "k < 6")
    case True
    then show ?thesis by (simp add: payload_bits_def nth_append sixbits_def)
  next
    case False
    then have "k div 6 = Suc ((k - 6) div 6)" "(k - 6) mod 6 = k mod 6"
      by (simp_all add: le_div_geq le_mod_geq)
    then show ?thesis
      using Cons.IH [of "k - 6"] Cons.prems False by (simp add: payload_bits_def nth_append)
  qed
qed simp

lemma payload_bit_of_bool: "payload_bit v k = of_bool (bit v (5 - k mod 6))"
  by (simp add: payload_bit_def and_one_eq bit_iff_odd odd_iff_mod_2_eq_one [symmetric] drop_bit_eq_div)
    (simp add: mod2_eq_if)

lemma get_loop_bits:
  assumes "\<And>c. c \<in> set p \<Longrightarrow> 0 \<le> ais_sixbit_value c"
  shows "k + n \<le> 6 * length p \<Longrightarrow>
    ais_get_loop p k n out = (foldl (\<lambda>w b. push_bit 1 w OR of_bool b) out (take n (drop k (payload_bits p))), True)"
proof (induction n arbitrary: k out)
  case (Suc n)
  have k: "k < length (payload_bits p)" "k div 6 < length p" using Suc.prems by auto
  then have "take (Suc n) (drop k (payload_bits p)) =
      bit (ais_sixbit_value (p ! (k div 6))) (5 - k mod 6) # take n (drop (k + 1) (payload_bits p))"
    using payload_bits_nth [of k p] by (simp add: Cons_nth_drop_Suc [symmetric])
  moreover have "\<not> ais_sixbit_value (p ! (k div 6)) < 0" using assms k(2) by (simp add: not_less)
  ultimately show ?case using Suc.IH [of "k + 1"] Suc.prems by (simp add: Let_def payload_bit_of_bool)
qed simp

lemma get_u_bits:
  assumes "ais_payload_valid p" "n \<le> 32"
  shows "ais_get_u p k n ok =
    (if ok \<and> k + n \<le> 6 * length p then (bits_word (take n (drop k (payload_bits p))), True) else (0, False))"
  using assms get_loop_bits [of p k n 0]
  by (auto simp: ais_get_u_def ais_payload_valid_def bits_word_def mult.commute)

section \<open>Encoding\<close>

text \<open>The \<open>n\<close> low bits of an integer, most significant first, and the armour of a list of bits.\<close>

definition int_bits :: "nat \<Rightarrow> int \<Rightarrow> bool list" where
  "int_bits n v = map (bit v) (rev [0..<n])"

lemma length_int_bits [simp]: "length (int_bits n v) = n"
  by (simp add: int_bits_def)

lemma int_bits_Suc: "int_bits (Suc n) v = int_bits n (v div 2) @ [odd v]"
proof -
  have "rev [0..<Suc n] = map Suc (rev [0..<n]) @ [0]" by (simp add: upt_conv_Cons rev_map [symmetric] map_Suc_upt del: upt_Suc)
  then show ?thesis by (simp add: int_bits_def bit_Suc bit_0 del: upt_Suc)
qed

lemma push_or_bit: "push_bit 1 w OR of_bool b = 2 * w + (of_bool b :: u32)"
proof -
  have "push_bit 1 w AND of_bool b = 0" by (rule bit_word_eqI) (auto simp: bit_push_bit_iff bit_of_bool_iff bit_and_iff simp del: push_bit_of_1 push_bit_Suc)
  from disjunctive_add_eq_or [OF this] show ?thesis by (simp add: push_bit_eq_mult mult.commute)
qed

lemma bits_word_int_bits: "bits_word (int_bits n v) = of_int (take_bit n v)"
proof (induction n arbitrary: v)
  case (Suc n)
  have "bits_word (int_bits (Suc n) v) = 2 * bits_word (int_bits n (v div 2)) + of_bool (odd v)"
    by (simp only: int_bits_Suc bits_word_def foldl_append foldl.simps push_or_bit)
  then show ?case by (simp add: Suc take_bit_Suc mod2_eq_if)
qed (simp add: int_bits_def bits_word_def)

definition armor_char :: "nat \<Rightarrow> char" where
  "armor_char v = char_of (if v < 40 then v + 48 else v + 56)"

function ais_armor :: "bool list \<Rightarrow> string" where
  "ais_armor bs = (if bs = [] then [] else armor_char (horner_sum of_bool 2 (rev (take 6 bs))) # ais_armor (drop 6 bs))"
  by pat_completeness auto
termination by (relation "measure length") auto

declare ais_armor.simps [simp del]

lemma armor_value: "v < 64 \<Longrightarrow> ais_sixbit_value (armor_char v) = int v"
  by (auto simp: ais_sixbit_value_def armor_char_def Let_def)

lemma armor_sixbits:
  assumes "length bs = 6"
  shows "sixbits (armor_char (horner_sum of_bool 2 (rev bs))) = bs"
    and "0 \<le> ais_sixbit_value (armor_char (horner_sum of_bool 2 (rev bs)))"
proof -
  have "horner_sum of_bool 2 (rev bs) < (2 :: nat) ^ 6"
    using horner_sum_of_bool_2_less [of "rev bs"] assms by simp
  then have v: "ais_sixbit_value (armor_char (horner_sum of_bool 2 (rev bs))) = int (horner_sum of_bool 2 (rev bs))"
    by (intro armor_value) simp
  then show "0 \<le> ais_sixbit_value (armor_char (horner_sum of_bool 2 (rev bs)))" by simp
  show "sixbits (armor_char (horner_sum of_bool 2 (rev bs))) = bs"
  proof (rule nth_equalityI)
    fix j assume "j < length (sixbits (armor_char (horner_sum of_bool 2 (rev bs))))"
    then show "sixbits (armor_char (horner_sum of_bool 2 (rev bs))) ! j = bs ! j"
      using assms by (auto simp: sixbits_def v bit_of_nat_iff bit_horner_sum_bit_iff rev_nth)
  qed (simp add: assms)
qed

lemma armor_bits:
  "6 dvd length bs \<Longrightarrow> payload_bits (ais_armor bs) = bs \<and> (\<forall>c \<in> set (ais_armor bs). 0 \<le> ais_sixbit_value c)"
proof (induction bs rule: ais_armor.induct)
  case (1 bs)
  show ?case
  proof (cases "bs = []")
    case False
    then have six: "6 \<le> length bs" using "1.prems" by (auto dest: dvd_imp_le)
    then have "6 dvd length (drop 6 bs)" using "1.prems" by simp
    with "1.IH" [OF False] have
      "payload_bits (ais_armor (drop 6 bs)) = drop 6 bs" "\<forall>c \<in> set (ais_armor (drop 6 bs)). 0 \<le> ais_sixbit_value c" by auto
    moreover have "length (take 6 bs) = 6" using six by simp
    ultimately show ?thesis
      using False armor_sixbits [of "take 6 bs"] by (subst (1 2) ais_armor.simps) (simp add: payload_bits_def)
  qed (simp add: ais_armor.simps payload_bits_def)
qed

text \<open>A message is a list of fields, each with its width; the last six-bit group is filled with zeros.\<close>

definition fields_bits :: "(nat \<times> int) list \<Rightarrow> bool list" where
  "fields_bits fs = concat (map (\<lambda>(n, v). int_bits n v) fs)"

definition ais_encode :: "(nat \<times> int) list \<Rightarrow> string" where
  "ais_encode fs = (let bs = fields_bits fs in ais_armor (bs @ replicate ((6 - length bs mod 6) mod 6) False))"

lemma length_fields_bits: "length (fields_bits fs) = sum_list (map fst fs)"
  by (induction fs) (auto simp: fields_bits_def)

lemma encode_bits:
  obtains fill where "payload_bits (ais_encode fs) = fields_bits fs @ fill" "\<forall>c \<in> set (ais_encode fs). 0 \<le> ais_sixbit_value c"
proof -
  have "6 dvd n + (6 - n mod 6) mod 6" for n :: nat
  proof -
    have "(n + (6 - n mod 6) mod 6) mod 6 = (n mod 6 + (6 - n mod 6)) mod 6"
      using mod_add_right_eq [of n "6 - n mod 6" 6] mod_add_left_eq [of n 6 "6 - n mod 6"] by (rule trans [OF _ sym])
    also have "n mod 6 + (6 - n mod 6) = 6" using mod_less_divisor [of 6 n] by simp
    finally show ?thesis by (simp only: dvd_eq_mod_eq_0 mod_self)
  qed
  then have "6 dvd length (fields_bits fs @ replicate ((6 - length (fields_bits fs) mod 6) mod 6) False)"
    by (simp only: length_append length_replicate)
  note armored = armor_bits [OF this]
  show ?thesis
    using conjunct1 [OF armored] conjunct2 [OF armored] by (intro that) (simp_all only: ais_encode_def Let_def)
qed

lemma encode_field:
  assumes "n \<le> 32"
  shows "ais_get_u (ais_encode (pre @ (n, v) # post)) (sum_list (map fst pre)) n True = (of_int (take_bit n v), True)"
proof -
  let ?p = "ais_encode (pre @ (n, v) # post)"
  obtain fill where bits: "payload_bits ?p = fields_bits (pre @ (n, v) # post) @ fill"
    and valid: "\<forall>c \<in> set ?p. 0 \<le> ais_sixbit_value c" by (rule encode_bits)
  have split: "payload_bits ?p = fields_bits pre @ int_bits n v @ fields_bits post @ fill"
    using bits by (simp add: fields_bits_def)
  have len: "sum_list (map fst pre) + n \<le> 6 * length ?p"
    using arg_cong [OF split, of length] by (simp add: length_fields_bits)
  have "take n (drop (sum_list (map fst pre)) (payload_bits ?p)) = int_bits n v"
    using split by (simp add: length_fields_bits [symmetric])
  then show ?thesis
    using get_loop_bits [of ?p "sum_list (map fst pre)" n 0] valid len assms bits_word_int_bits [of n v]
    by (simp add: ais_get_u_def bits_word_def mult.commute)
qed

lemma sint_small: "0 \<le> x \<Longrightarrow> x < 2 ^ 31 \<Longrightarrow> sint (of_int x :: u32) = x"
  by (simp add: signed_of_int signed_take_bit_int_eq_self)

lemma encode_field_unsigned:
  assumes "n \<le> 31" "0 \<le> v" "v < 2 ^ n"
  shows "ais_get_i (ais_encode (pre @ (n, v) # post)) (sum_list (map fst pre)) n True = (v, True)"
proof -
  have "(2 :: int) ^ n \<le> 2 ^ 31" using assms(1) by (intro power_increasing) simp_all
  then have "v < 2 ^ 31" using assms(3) by (rule less_le_trans [rotated])
  then show ?thesis
    using encode_field [of n pre v post] assms sint_small [of v] by (simp add: ais_get_i_def take_bit_int_eq_self)
qed

text \<open>The two's complement that the code builds with unsigned arithmetic.\<close>

lemma complement_value:
  assumes "0 < n" "n < 32" "2 ^ (n - 1) \<le> t" "t < 2 ^ n"
  shows "- sint ((NOT (of_int t :: u32) AND (push_bit n 1 - 1)) + 1) = t - 2 ^ n"
proof -
  have pow: "(2 :: int) ^ n = 2 * 2 ^ (n - 1)" using assms(1) by (cases n) simp_all
  have "(2 :: int) ^ (n - 1) \<le> 2 ^ 30" using assms(2) by (intro power_increasing) auto
  then have small: "0 \<le> 2 ^ n - t" "2 ^ n - t < 2 ^ 31" using assms(3,4) pow by simp_all
  have t: "take_bit n t = t" using assms(3,4) by (intro take_bit_int_eq_self) (auto intro: order_trans [of _ "2 ^ (n - 1)"])
  have "NOT (of_int t :: u32) AND (push_bit n 1 - 1) = take_bit n (NOT (of_int t))"
    by (simp add: take_bit_eq_mask mask_eq_exp_minus_1 push_bit_eq_mult)
  also have "\<dots> = mask n - of_int t"
    using assms(2) t by (simp add: take_bit_not_eq_mask_diff take_bit_of_int)
  finally have "(NOT (of_int t :: u32) AND (push_bit n 1 - 1)) + 1 = of_int (2 ^ n - t)"
    by (simp add: mask_eq_exp_minus_1)
  then show ?thesis using sint_small [OF small] by simp
qed

lemma encode_field_signed:
  assumes "0 < n" "n \<le> 31" "- (2 ^ (n - 1)) \<le> v" "v < 2 ^ (n - 1)"
  shows "ais_get_s (ais_encode (pre @ (n, v) # post)) (sum_list (map fst pre)) n True = (v, True)"
proof -
  let ?t = "take_bit n v"
  have pow: "(2 :: int) ^ n = 2 * 2 ^ (n - 1)" using assms(1) by (cases n) simp_all
  have range: "0 \<le> ?t" "?t < 2 ^ n" by simp_all
  have t: "?t = (if v < 0 then v + 2 ^ n else v)"
  proof (cases "v < 0")
    case True
    have "?t = take_bit n (v + 2 ^ n)" by (simp add: take_bit_int_def)
    also have "\<dots> = v + 2 ^ n" using True assms(3) pow by (intro take_bit_int_eq_self) simp_all
    finally show ?thesis using True by simp
  next
    case False
    then show ?thesis using assms(4) pow by (simp add: take_bit_int_eq_self)
  qed
  have "(2 :: int) ^ (n - 1) \<le> 2 ^ 30" using assms(2) by (intro power_increasing) auto
  then have "sint (of_int ?t :: u32) = ?t" if "\<not> v < 0" using that t assms(4) by (intro sint_small) simp_all
  moreover have "(of_int ?t :: u32) AND push_bit (n - 1) 1 = 0 \<longleftrightarrow> \<not> v < 0"
  proof -
    have "bit ?t (n - 1) \<longleftrightarrow> v < 0"
    proof (cases "v < 0")
      case True
      then have "?t div 2 ^ (n - 1) = 1" using t assms(3) pow int_div_pos_eq [of ?t "2 ^ (n - 1)" 1 "?t - 2 ^ (n - 1)"] by simp
      then show ?thesis using True by (simp add: bit_iff_odd)
    next
      case False
      then show ?thesis using t assms(4) by (simp add: bit_iff_odd)
    qed
    then show ?thesis using assms(1,2) by (auto simp: and_exp_eq_0_iff_not_bit bit_of_int_iff)
  qed
  moreover have "ais_get_s (ais_encode (pre @ (n, v) # post)) (sum_list (map fst pre)) n True =
      (if (of_int ?t :: u32) AND push_bit (n - 1) 1 = 0 then (sint (of_int ?t :: u32), True)
       else (- sint ((NOT (of_int ?t :: u32) AND (push_bit n 1 - 1)) + 1), True))"
    using encode_field [of n pre v post] assms(1,2) by (simp only: ais_get_s_def Let_def prod.case) auto
  moreover have "- sint ((NOT (of_int ?t :: u32) AND (push_bit n 1 - 1)) + 1) = v" if "v < 0"
    using that assms(1-3) t range pow by (subst complement_value) simp_all
  ultimately show ?thesis using t by (cases "v < 0") (simp_all only: if_True if_False not_True_eq_False not_False_eq_True)
qed

section \<open>Texts\<close>

text \<open>The six-bit code of a character of the AIS alphabet: the codes 32 to 95 of ASCII.\<close>

definition text_code :: "char \<Rightarrow> int" where
  "text_code c = (let n = int (of_char c) in if 64 \<le> n then n - 64 else n)"

definition ais_alphabet :: "char \<Rightarrow> bool" where
  "ais_alphabet c \<longleftrightarrow> 32 \<le> (of_char c :: nat) \<and> (of_char c :: nat) < 96"

definition text_fields :: "string \<Rightarrow> (nat \<times> int) list" where
  "text_fields s = map (\<lambda>c. (6, text_code c)) s"

lemma text_code_range: "ais_alphabet c \<Longrightarrow> 0 \<le> text_code c \<and> text_code c < 64"
  by (auto simp: text_code_def ais_alphabet_def Let_def)

lemma text_char_code:
  assumes "ais_alphabet c"
  shows "ais_text_char (of_int (take_bit 6 (text_code c))) = c"
proof -
  have v: "0 \<le> text_code c" "text_code c < 64" using text_code_range [OF assms] by auto
  have "of_int (text_code c) AND (0x3F :: u32) = take_bit 6 (of_int (text_code c))"
    by (simp add: take_bit_eq_mask mask_numeral)
  also have "\<dots> = of_int (text_code c)" using v by (simp add: take_bit_of_int take_bit_int_eq_self)
  finally have "unat (of_int (text_code c) AND (0x3F :: u32)) = nat (text_code c)"
    using v by (simp add: unat_eq_nat_uint uint_word_of_int take_bit_int_eq_self)
  moreover have "take_bit 6 (text_code c) = text_code c" using v by (simp add: take_bit_int_eq_self)
  ultimately show ?thesis
    using assms by (auto simp: ais_text_char_def Let_def text_code_def ais_alphabet_def nat_diff_distrib)
qed

lemma text_loop_encoded:
  "(\<And>c. c \<in> set s \<Longrightarrow> ais_alphabet c) \<Longrightarrow>
   ais_text_loop (ais_encode (pre @ text_fields s @ post)) (sum_list (map fst pre)) (length s) = (s, True)"
proof (induction s arbitrary: pre)
  case (Cons c s)
  have "ais_text_loop (ais_encode ((pre @ [(6, text_code c)]) @ text_fields s @ post))
      (sum_list (map fst (pre @ [(6, text_code c)]))) (length s) = (s, True)"
    using Cons.prems by (intro Cons.IH) simp
  then show ?case
    using encode_field [of 6 pre "text_code c" "text_fields s @ post"] text_char_code [of c] Cons.prems
    by (simp add: text_fields_def Let_def)
qed simp

lemma copy_text_encoded:
  assumes s: "\<forall>c \<in> set s. ais_alphabet c" "s = [] \<or> \<not> ais_text_fill (last s)" "length s + fill < room"
  shows "ais_copy_text room (ais_encode (pre @ text_fields (s @ replicate fill (CHR ''@'')) @ post)) (sum_list (map fst pre))
      (length s + fill) out = s"
proof -
  have "ais_text_loop (ais_encode (pre @ text_fields (s @ replicate fill (CHR ''@'')) @ post)) (sum_list (map fst pre))
      (length s + fill) = (s @ replicate fill (CHR ''@''), True)"
  proof -
    have "ais_alphabet c" if "c \<in> set (s @ replicate fill (CHR ''@''))" for c
      using that s(1) by (auto simp: ais_alphabet_def)
    from text_loop_encoded [of "s @ replicate fill (CHR ''@'')" pre post, OF this] show ?thesis by simp
  qed
  moreover have "dropWhile ais_text_fill (rev (s @ replicate fill (CHR ''@''))) = rev s"
    using s(2) by (cases s rule: rev_cases) (auto simp: dropWhile_append ais_text_fill_def)
  ultimately show ?thesis using s(3) by (simp add: ais_copy_text_def)
qed

section \<open>Properties\<close>

text \<open>
  Fields of any widths written one after the other into an armoured payload are read back at
  their offsets: an unsigned field as its value, a signed one as its two's complement value, a text
  as the text without the fill at its end, and a field that reaches beyond the payload is refused.
\<close>

theorem ais_fields_round_trip:
  assumes "n \<le> 31"
  shows "(0 \<le> v \<and> v < 2 ^ n \<longrightarrow>
      ais_get_i (ais_encode (pre @ (n, v) # post)) (sum_list (map fst pre)) n True = (v, True)) \<and>
    (0 < n \<and> - (2 ^ (n - 1)) \<le> v \<and> v < 2 ^ (n - 1) \<longrightarrow>
      ais_get_s (ais_encode (pre @ (n, v) # post)) (sum_list (map fst pre)) n True = (v, True)) \<and>
    ((\<forall>c \<in> set s. ais_alphabet c) \<and> (s = [] \<or> \<not> ais_text_fill (last s)) \<and> length s + fill < room \<longrightarrow>
      ais_copy_text room (ais_encode (pre @ text_fields (s @ replicate fill (CHR ''@'')) @ post)) (sum_list (map fst pre))
        (length s + fill) out = s) \<and>
    (6 * length p < k + n \<longrightarrow> ais_get_u p k n ok = (0, False))"
proof (intro conjI impI; (elim conjE)?)
  show "ais_get_i (ais_encode (pre @ (n, v) # post)) (sum_list (map fst pre)) n True = (v, True)" if "0 \<le> v" "v < 2 ^ n"
    using assms that by (rule encode_field_unsigned)
  show "ais_get_s (ais_encode (pre @ (n, v) # post)) (sum_list (map fst pre)) n True = (v, True)"
    if "0 < n" "- (2 ^ (n - 1)) \<le> v" "v < 2 ^ (n - 1)"
    using that assms by (intro encode_field_signed)
  show "ais_get_u p k n ok = (0, False)" if "6 * length p < k + n"
    using that by (simp add: ais_get_u_def mult.commute)
  show "ais_copy_text room (ais_encode (pre @ text_fields (s @ replicate fill (CHR ''@'')) @ post)) (sum_list (map fst pre))
        (length s + fill) out = s"
    if "\<forall>c \<in> set s. ais_alphabet c" "s = [] \<or> \<not> ais_text_fill (last s)" "length s + fill < room"
    using that by (rule copy_text_encoded)
qed

theorem ais_fields_round_trip_witness:
  "ais_get_s (ais_encode ([(6, 1), (2, 0), (30, 244670316)] @ (8, - 5) # [(9, 100)])) 38 8 True = (- 5, True) \<and>
   ais_copy_text 24 (ais_encode ([(6, 1), (2, 0), (30, 244670316)] @ text_fields (''SEA WOLF'' @ replicate 12 (CHR ''@'')) @ [(9, 100)])) 38 20 [] =
     ''SEA WOLF''"
  using ais_fields_round_trip [of 8 "- 5" "[(6, 1), (2, 0), (30, 244670316)]" "[(9, 100)]" "''SEA WOLF''" 12 24]
  by (simp add: ais_alphabet_def ais_text_fill_def)

end
