(* ===== verification/Ais_Targets.thy ===== *)
theory Ais_Targets
  imports Ais_Data Ais_Bits
begin

text \<open>
  The table of AIS targets: \<^verbatim>\<open>ais_find_or_create_target\<close> of \<^verbatim>\<open>nmea_ais_core.hpp\<close> with its choice of a
  slot, the removal of \<^verbatim>\<open>nmea_ais_own_vessel.hpp\<close>, the invariant of the table (one slot per MMSI, the
  count is the number of occupied slots) and the laws of the table. The locale \<open>target_edit\<close> is
  what a message may do to the target it is about.
\<close>

section \<open>Finding and creating\<close>

fun oldest_target :: "('r, 'c) ais_target list \<Rightarrow> nat \<Rightarrow> nat \<Rightarrow> u64 \<Rightarrow> nat" where
  "oldest_target [] i slot oldest = slot"
| "oldest_target (t # ts) i slot oldest =
     (if at_last_seen_us t < oldest then oldest_target ts (i + 1) i (at_last_seen_us t) else oldest_target ts (i + 1) slot oldest)"

text \<open>The slot for a new target, and the table with its counters and that slot made ready.\<close>

definition new_slot :: "u64 \<Rightarrow> ('r :: zero, 'c :: zero) ais_target_table \<Rightarrow> nat \<times> ('r, 'c) ais_target_table" where
  "new_slot now_us table =
     (case index_where (\<lambda>t. \<not> at_occupied t) (tb_targets table) of
        Some slot \<Rightarrow> (slot, table\<lparr>tb_target_count := stamp (target_count_of table + 1) now_us\<rparr>)
      | None \<Rightarrow>
          (let slot = oldest_target (tl (tb_targets table)) 1 0 (at_last_seen_us (hd (tb_targets table)))
           in (slot, table\<lparr>tb_replacement_count := stamp (sd_value (tb_replacement_count table) + 1) now_us,
                           tb_overflow_count := stamp (sd_value (tb_overflow_count table) + 1) now_us,
                           tb_targets := (tb_targets table)[slot := ais_target_init]\<rparr>)))"

definition ais_find_or_create_target ::
  "int \<Rightarrow> u64 \<Rightarrow> sensor_source \<Rightarrow> ('r :: zero, 'c :: zero) ais_target_table \<Rightarrow> nat \<times> ('r, 'c) ais_target_table" where
  "ais_find_or_create_target mmsi now_us source table =
     (case ais_find_target_index mmsi table of
        Some i \<Rightarrow>
          (i, table\<lparr>tb_targets := (tb_targets table)[i := (tb_targets table ! i)\<lparr>at_last_seen_us := now_us,
                at_source := source_of source (at_source (tb_targets table ! i))\<rparr>]\<rparr>)
      | None \<Rightarrow>
          (let (slot, table) = new_slot now_us table; t = tb_targets table ! slot
           in (slot, table\<lparr>tb_targets := (tb_targets table)[slot := t\<lparr>at_occupied := True, at_mmsi := stamp mmsi now_us,
                at_first_seen_us := now_us, at_last_seen_us := now_us, at_source := source_of source (at_source t)\<rparr>]\<rparr>)))"

definition ais_remove_target_by_mmsi :: "int \<Rightarrow> u64 \<Rightarrow> ('r :: zero, 'c :: zero) ais_target_table \<Rightarrow> ('r, 'c) ais_target_table" where
  "ais_remove_target_by_mmsi mmsi now_us table =
     (case ais_find_target_index mmsi table of
        None \<Rightarrow> table
      | Some i \<Rightarrow>
          (let table = table\<lparr>tb_targets := (tb_targets table)[i := ais_target_init]\<rparr>
           in if sd_valid (tb_target_count table) \<and> 0 < sd_value (tb_target_count table)
              then table\<lparr>tb_target_count := stamp (sd_value (tb_target_count table) - 1) now_us\<rparr> else table))"

text \<open>A message finds or creates its target and edits it in place.\<close>

definition touch_target ::
  "int \<Rightarrow> u64 \<Rightarrow> sensor_source \<Rightarrow> (('r, 'c) ais_target \<Rightarrow> ('r, 'c) ais_target) \<Rightarrow>
   ('r :: zero, 'c :: zero) ais_target_table \<Rightarrow> ('r, 'c) ais_target_table" where
  "touch_target mmsi now_us source edit table =
     (let (i, table) = ais_find_or_create_target mmsi now_us source table
      in table\<lparr>tb_targets := (tb_targets table)[i := edit (tb_targets table ! i)]\<rparr>)"

definition ais_update_target_header ::
  "ais_decoded_header \<Rightarrow> u64 \<Rightarrow> sensor_source \<Rightarrow> ('r :: zero, 'c :: zero) ais_target_table \<Rightarrow> ('r, 'c) ais_target_table" where
  "ais_update_target_header header now_us source table =
     touch_target (dh_mmsi header) now_us source
       (\<lambda>t. t\<lparr>at_last_message_type := stamp (dh_message_type header) now_us,
              at_repeat_indicator := stamp (dh_repeat_indicator header) now_us\<rparr>) table"

section \<open>The invariant\<close>

definition target_key :: "('r, 'c) ais_target \<Rightarrow> int option" where
  "target_key t = (if at_occupied t \<and> sd_valid (at_mmsi t) then Some (sd_value (at_mmsi t)) else None)"

text \<open>
  The keys of a table: the MMSI of every slot that is in use. An unused slot has no key, and a used
  one always has one.
\<close>

definition targets_wf :: "('r, 'c) ais_target list \<Rightarrow> bool" where
  "targets_wf ts \<longleftrightarrow> (\<forall>t \<in> set ts. at_occupied t \<longrightarrow> sd_valid (at_mmsi t)) \<and>
     (\<forall>i < length ts. \<forall>j < length ts. \<forall>k. target_key (ts ! i) = Some k \<longrightarrow> target_key (ts ! j) = Some k \<longrightarrow> i = j)"

definition table_inv :: "('r, 'c) ais_target_table \<Rightarrow> bool" where
  "table_inv table \<longleftrightarrow> tb_targets table \<noteq> [] \<and> targets_wf (tb_targets table) \<and>
     target_count_of table = int (length (filter at_occupied (tb_targets table)))"

text \<open>What the table says about an MMSI: the abstract view of the table.\<close>

definition ais_lookup :: "int \<Rightarrow> ('r, 'c) ais_target_table \<Rightarrow> ('r, 'c) ais_target option" where
  "ais_lookup mmsi table = map_option (\<lambda>i. tb_targets table ! i) (ais_find_target_index mmsi table)"

lemma target_count_simps [simp]:
  "target_count_of (table\<lparr>tb_targets := ts\<rparr>) = target_count_of table"
  "target_count_of (table\<lparr>tb_target_count := stamp n now\<rparr>) = n"
  "target_count_of (table\<lparr>tb_targets := ts, tb_target_count := stamp n now\<rparr>) = n"
  by (simp_all add: target_count_of_def)

lemma target_matches_key: "target_matches mmsi t \<longleftrightarrow> target_key t = Some mmsi"
  by (auto simp: target_matches_def target_key_def)

lemma init_target [simp]: "\<not> at_occupied ais_target_init" "target_key ais_target_init = None"
  by (simp_all add: ais_target_init_def target_key_def)

lemma targets_wf_inj:
  "targets_wf ts \<Longrightarrow> target_key (ts ! i) = Some k \<Longrightarrow> target_key (ts ! j) = Some k \<Longrightarrow> i < length ts \<Longrightarrow> j < length ts \<Longrightarrow> i = j"
  unfolding targets_wf_def by blast

lemma targets_wf_valid: "targets_wf ts \<Longrightarrow> t \<in> set ts \<Longrightarrow> at_occupied t \<Longrightarrow> sd_valid (at_mmsi t)"
  unfolding targets_wf_def by blast

lemma lookup_at:
  assumes "targets_wf (tb_targets table)" "i < length (tb_targets table)" "target_key (tb_targets table ! i) = Some mmsi"
  shows "ais_find_target_index mmsi table = Some i" "ais_lookup mmsi table = Some (tb_targets table ! i)"
proof -
  show "ais_find_target_index mmsi table = Some i"
    unfolding ais_find_target_index_def
  proof (rule index_where_SomeI)
    show "\<not> target_matches mmsi (tb_targets table ! j)" if "j < i" for j
    proof
      assume "target_matches mmsi (tb_targets table ! j)"
      then have "j = i" using targets_wf_inj [OF assms(1) _ assms(3), of j] that assms(2) by (simp add: target_matches_key)
      with that show False by simp
    qed
  qed (use assms in \<open>simp_all add: target_matches_key\<close>)
  then show "ais_lookup mmsi table = Some (tb_targets table ! i)" by (simp add: ais_lookup_def)
qed

lemma lookup_iff:
  assumes "targets_wf (tb_targets table)"
  shows "ais_lookup mmsi table = Some t \<longleftrightarrow>
    (\<exists>i < length (tb_targets table). tb_targets table ! i = t \<and> target_key t = Some mmsi)"
proof
  assume "ais_lookup mmsi table = Some t"
  then obtain i where "ais_find_target_index mmsi table = Some i" "t = tb_targets table ! i" by (auto simp: ais_lookup_def)
  then show "\<exists>i < length (tb_targets table). tb_targets table ! i = t \<and> target_key t = Some mmsi"
    using index_where_SomeD by (fastforce simp: ais_find_target_index_def target_matches_key)
next
  assume "\<exists>i < length (tb_targets table). tb_targets table ! i = t \<and> target_key t = Some mmsi"
  then show "ais_lookup mmsi table = Some t" using lookup_at(2) [OF assms] by blast
qed

lemma lookup_None:
  "ais_lookup mmsi table = None \<longleftrightarrow> (\<forall>t \<in> set (tb_targets table). target_key t \<noteq> Some mmsi)"
  by (simp add: ais_lookup_def ais_find_target_index_def index_where_None target_matches_key)

text \<open>Replacing one slot: the key may stay, disappear or be a new one.\<close>

lemma targets_wf_update:
  assumes "targets_wf ts" "i < length ts" "at_occupied t \<longrightarrow> sd_valid (at_mmsi t)"
    and new: "\<And>k j. target_key t = Some k \<Longrightarrow> j < length ts \<Longrightarrow> target_key (ts ! j) = Some k \<Longrightarrow> j = i"
  shows "targets_wf (ts[i := t])"
  unfolding targets_wf_def
proof (intro conjI ballI allI impI)
  fix u assume u: "u \<in> set (ts[i := t])" "at_occupied u"
  have "u = t \<or> u \<in> set ts" using u(1) set_update_subset_insert [of ts i t] by auto
  then show "sd_valid (at_mmsi u)"
  proof
    assume "u = t"
    then show ?thesis using assms(3) u(2) by simp
  qed (rule targets_wf_valid [OF assms(1) _ u(2)])
next
  fix j k m assume jk: "j < length (ts[i := t])" "k < length (ts[i := t])"
    and key: "target_key (ts[i := t] ! j) = Some m" "target_key (ts[i := t] ! k) = Some m"
  consider "j = i" | "k = i" "j \<noteq> i" | "j \<noteq> i" "k \<noteq> i" by blast
  then show "j = k"
  proof cases
    case 1
    then have t: "target_key t = Some m" using jk(1) key(1) by simp
    show ?thesis
    proof (rule ccontr)
      assume "j \<noteq> k"
      then have "target_key (ts ! k) = Some m" using 1 key(2) by simp
      from new [OF t _ this] jk(2) have "k = i" by simp
      with 1 \<open>j \<noteq> k\<close> show False by simp
    qed
  next
    case 2
    then have t: "target_key t = Some m" "target_key (ts ! j) = Some m" using jk key by simp_all
    from new [OF t(1) _ t(2)] jk(1) have "j = i" by simp
    with 2 show ?thesis by simp
  next
    case 3
    then show ?thesis using jk key targets_wf_inj [OF assms(1), of j m k] by simp
  qed
qed

lemma occupied_count_update:
  "i < length ts \<Longrightarrow> int (length (filter P (ts[i := t]))) =
     int (length (filter P ts)) + of_bool (P t) - of_bool (P (ts ! i))"
proof (induction ts arbitrary: i)
  case (Cons u ts)
  then show ?case by (cases i) auto
qed simp

lemma occupied_count_pos: "i < length ts \<Longrightarrow> P (ts ! i) \<Longrightarrow> 0 < length (filter P ts)"
  by (metis filter_empty_conv length_greater_0_conv nth_mem)

section \<open>Laws of the table\<close>

lemma find_index_bound: "ais_find_target_index mmsi table = Some i \<Longrightarrow> i < length (tb_targets table)"
  by (simp add: ais_find_target_index_def index_where_bound)

lemma find_index_key: "ais_find_target_index mmsi table = Some i \<Longrightarrow> target_key (tb_targets table ! i) = Some mmsi"
  using index_where_hit by (force simp: ais_find_target_index_def target_matches_key)

lemma oldest_target_bounds:
  "slot < i \<Longrightarrow> oldest_target ts i slot oldest < i + length ts"
  by (induction ts i slot oldest rule: oldest_target.induct) auto

text \<open>The slot chosen from a full table was seen no later than any other.\<close>

lemma oldest_target_least:
  assumes "slot < i" "i + length ts = length us" "drop i us = ts" "at_last_seen_us (us ! slot) = oldest"
    and "\<And>j. j < i \<Longrightarrow> oldest \<le> at_last_seen_us (us ! j)" "j < length us"
  shows "at_last_seen_us (us ! oldest_target ts i slot oldest) \<le> at_last_seen_us (us ! j)"
  using assms
proof (induction ts i slot oldest rule: oldest_target.induct)
  case (2 t ts i slot oldest)
  have t: "us ! i = t" "drop (i + 1) us = ts"
    using "2.prems"(2,3) by (metis hd_drop_conv_nth length_drop length_greater_0_conv list.distinct(1) list.sel(1) less_add_same_cancel1 length_Cons zero_less_Suc,
      metis Suc_eq_plus1 drop_Suc list.sel(3) tl_drop)
  show ?case
  proof (cases "at_last_seen_us t < oldest")
    case True
    have "at_last_seen_us (us ! oldest_target ts (i + 1) i (at_last_seen_us t)) \<le> at_last_seen_us (us ! j)"
    proof (rule "2.IH"(1) [OF True])
      show "at_last_seen_us t \<le> at_last_seen_us (us ! k)" if "k < i + 1" for k
        using that "2.prems"(5) [of k] True t(1) by (cases "k = i") simp_all
    qed (use "2.prems" t in auto)
    then show ?thesis using True by simp
  next
    case False
    have "at_last_seen_us (us ! oldest_target ts (i + 1) slot oldest) \<le> at_last_seen_us (us ! j)"
    proof (rule "2.IH"(2) [OF False])
      show "oldest \<le> at_last_seen_us (us ! k)" if "k < i + 1" for k
        using that "2.prems"(5) [of k] False t(1) by (cases "k = i") simp_all
    qed (use "2.prems" t in auto)
    then show ?thesis using False by simp
  qed
qed simp

lemma full_slot:
  assumes "us \<noteq> []"
  defines "slot \<equiv> oldest_target (tl us) 1 0 (at_last_seen_us (hd us))"
  shows "slot < length us" "j < length us \<Longrightarrow> at_last_seen_us (us ! slot) \<le> at_last_seen_us (us ! j)"
proof -
  have len: "1 + length (tl us) = length us" using assms(1) by (cases us) simp_all
  show "slot < length us" using oldest_target_bounds [of 0 1 "tl us"] len by (simp add: slot_def)
  show "at_last_seen_us (us ! slot) \<le> at_last_seen_us (us ! j)" if "j < length us"
    unfolding slot_def
    by (rule oldest_target_least) (use assms(1) len that in \<open>auto simp: drop_Suc hd_conv_nth\<close>)
qed

text \<open>The slot and the table that a new target is put into.\<close>

lemma new_slot_spec:
  assumes "table_inv table" "new_slot now table = (slot, table')"
  shows "slot < length (tb_targets table)" "length (tb_targets table') = length (tb_targets table)"
    and "\<not> at_occupied (tb_targets table' ! slot)"
    and "\<And>j. j < length (tb_targets table) \<Longrightarrow> j \<noteq> slot \<Longrightarrow> tb_targets table' ! j = tb_targets table ! j"
    and "target_count_of table' = int (length (filter at_occupied (tb_targets table'))) + 1"
    and "targets_wf (tb_targets table')"
    and "at_occupied (tb_targets table ! slot) \<Longrightarrow>
      (\<forall>t \<in> set (tb_targets table). at_occupied t \<and> at_last_seen_us (tb_targets table ! slot) \<le> at_last_seen_us t)"
proof -
  let ?ts = "tb_targets table"
  have inv: "?ts \<noteq> []" "targets_wf ?ts" "target_count_of table = int (length (filter at_occupied ?ts))"
    using assms(1) by (simp_all add: table_inv_def)
  have "slot < length ?ts \<and> length (tb_targets table') = length ?ts \<and> \<not> at_occupied (tb_targets table' ! slot) \<and>
      (\<forall>j < length ?ts. j \<noteq> slot \<longrightarrow> tb_targets table' ! j = ?ts ! j) \<and>
      target_count_of table' = int (length (filter at_occupied (tb_targets table'))) + 1 \<and> targets_wf (tb_targets table') \<and>
      (at_occupied (?ts ! slot) \<longrightarrow> (\<forall>t \<in> set ?ts. at_occupied t \<and> at_last_seen_us (?ts ! slot) \<le> at_last_seen_us t))"
  proof (cases "index_where (\<lambda>t. \<not> at_occupied t) ?ts")
    case (Some i)
    then have "i < length ?ts" "\<not> at_occupied (?ts ! i)" using index_where_SomeD [OF Some] by simp_all
    then show ?thesis using assms(2) Some inv by (auto simp: new_slot_def target_count_of_def)
  next
    case None
    then have all: "\<forall>t \<in> set ?ts. at_occupied t" by (simp add: index_where_None)
    let ?slot = "oldest_target (tl ?ts) 1 0 (at_last_seen_us (hd ?ts))"
    have t': "slot = ?slot" "tb_targets table' = ?ts[slot := ais_target_init]" "target_count_of table' = target_count_of table"
      using assms(2) None by (auto simp: new_slot_def Let_def target_count_of_def)
    have slot: "slot < length ?ts" using full_slot(1) [OF inv(1)] t'(1) by simp
    have "at_occupied (?ts ! slot)" using all slot by simp
    then have "int (length (filter at_occupied (tb_targets table'))) + 1 = int (length (filter at_occupied ?ts))"
      using occupied_count_update [OF slot, of at_occupied ais_target_init] t'(2) by simp
    moreover have "targets_wf (tb_targets table')"
      unfolding t'(2) by (rule targets_wf_update [OF inv(2) slot]) simp_all
    moreover have "\<forall>t \<in> set ?ts. at_last_seen_us (?ts ! slot) \<le> at_last_seen_us t"
      using full_slot(2) [OF inv(1)] t'(1) by (auto simp: in_set_conv_nth)
    ultimately show ?thesis using t' slot all inv(3) by (auto simp: nth_list_update)
  qed
  then show "slot < length ?ts" "length (tb_targets table') = length ?ts" "\<not> at_occupied (tb_targets table' ! slot)"
    "\<And>j. j < length ?ts \<Longrightarrow> j \<noteq> slot \<Longrightarrow> tb_targets table' ! j = ?ts ! j"
    "target_count_of table' = int (length (filter at_occupied (tb_targets table'))) + 1" "targets_wf (tb_targets table')"
    "at_occupied (?ts ! slot) \<Longrightarrow> (\<forall>t \<in> set ?ts. at_occupied t \<and> at_last_seen_us (?ts ! slot) \<le> at_last_seen_us t)"
    by blast+
qed

lemma target_key_eq:
  "at_occupied t = at_occupied u \<Longrightarrow> at_mmsi t = at_mmsi u \<Longrightarrow> target_key t = target_key u"
  by (simp add: target_key_def)

text \<open>Putting an entry with the same key into a slot keeps the invariant.\<close>

lemma table_inv_same_key:
  assumes "table_inv table" "i < length (tb_targets table)"
    and "at_occupied t = at_occupied (tb_targets table ! i)" "at_mmsi t = at_mmsi (tb_targets table ! i)"
  shows "table_inv (table\<lparr>tb_targets := (tb_targets table)[i := t]\<rparr>)"
proof -
  let ?ts = "tb_targets table"
  have wf: "targets_wf ?ts" using assms(1) by (simp add: table_inv_def)
  have key: "target_key t = target_key (?ts ! i)" using assms(3,4) by (rule target_key_eq)
  have "targets_wf (?ts[i := t])"
  proof (rule targets_wf_update [OF wf assms(2)])
    show "at_occupied t \<longrightarrow> sd_valid (at_mmsi t)" using targets_wf_valid [OF wf, of "?ts ! i"] assms(2-4) by simp
    show "j = i" if "target_key t = Some k" "j < length ?ts" "target_key (?ts ! j) = Some k" for k j
      using targets_wf_inj [OF wf, of j k i] that assms(2) key by simp
  qed
  then show ?thesis
    using assms occupied_count_update [OF assms(2), of at_occupied t] by (simp add: table_inv_def)
qed

lemma find_or_create_spec:
  assumes "table_inv table" "ais_find_or_create_target mmsi now src table = (i, table')"
  shows "table_inv table' \<and> i < length (tb_targets table) \<and> length (tb_targets table') = length (tb_targets table) \<and>
    target_key (tb_targets table' ! i) = Some mmsi \<and> at_last_seen_us (tb_targets table' ! i) = now \<and>
    (\<forall>j < length (tb_targets table). j \<noteq> i \<longrightarrow> tb_targets table' ! j = tb_targets table ! j) \<and>
    (case ais_lookup mmsi table of
       Some t \<Rightarrow> tb_targets table ! i = t \<and>
         tb_targets table' ! i = t\<lparr>at_last_seen_us := now, at_source := source_of src (at_source t)\<rparr>
     | None \<Rightarrow> at_occupied (tb_targets table ! i) \<longrightarrow>
         (\<forall>t \<in> set (tb_targets table). at_occupied t \<and> at_last_seen_us (tb_targets table ! i) \<le> at_last_seen_us t))"
proof (cases "ais_find_target_index mmsi table")
  case (Some k)
  let ?t = "(tb_targets table ! k)\<lparr>at_last_seen_us := now, at_source := source_of src (at_source (tb_targets table ! k))\<rparr>"
  have k: "k < length (tb_targets table)" "target_key (tb_targets table ! k) = Some mmsi"
    using find_index_bound [OF Some] find_index_key [OF Some] .
  have r: "i = k" "table' = table\<lparr>tb_targets := (tb_targets table)[k := ?t]\<rparr>"
    using assms(2) Some by (auto simp: ais_find_or_create_target_def)
  have "table_inv table'" unfolding r(2) by (rule table_inv_same_key [OF assms(1) k(1)]) simp_all
  moreover have "target_key ?t = Some mmsi" using k(2) target_key_eq [of ?t "tb_targets table ! k"] by simp
  ultimately show ?thesis using r k Some by (simp add: ais_lookup_def)
next
  case None
  obtain slot table1 where slot: "new_slot now table = (slot, table1)" by fastforce
  note spec = new_slot_spec [OF assms(1) slot]
  let ?t = "(tb_targets table1 ! slot)\<lparr>at_occupied := True, at_mmsi := stamp mmsi now, at_first_seen_us := now,
    at_last_seen_us := now, at_source := source_of src (at_source (tb_targets table1 ! slot))\<rparr>"
  have r: "i = slot" "table' = table1\<lparr>tb_targets := (tb_targets table1)[slot := ?t]\<rparr>"
    using assms(2) None slot by (auto simp: ais_find_or_create_target_def Let_def)
  have free: "target_key (tb_targets table ! j) \<noteq> Some mmsi" if "j < length (tb_targets table)" for j
    using None that by (auto simp: ais_find_target_index_def index_where_None target_matches_key)
  have slot1: "slot < length (tb_targets table1)" using spec(1,2) by simp
  have "targets_wf ((tb_targets table1)[slot := ?t])"
  proof (rule targets_wf_update [OF spec(6) slot1])
    show "j = slot" if "target_key ?t = Some k" "j < length (tb_targets table1)" "target_key (tb_targets table1 ! j) = Some k" for k j
    proof (rule ccontr)
      assume "j \<noteq> slot"
      moreover have "k = mmsi" using that(1) by (simp add: target_key_def)
      ultimately show False using that(2,3) spec(2) spec(4) [of j] free [of j] by simp
    qed
  qed simp
  moreover have "int (length (filter at_occupied ((tb_targets table1)[slot := ?t]))) = target_count_of table1"
    using occupied_count_update [OF slot1, of at_occupied ?t] spec(3,5) by simp
  ultimately have "table_inv table'"
    using slot1 by (auto simp: r(2) table_inv_def target_count_of_def)
  moreover have "target_key ?t = Some mmsi" by (simp add: target_key_def)
  ultimately show ?thesis
    using r spec(1,2,4,7) slot1 None by (simp add: ais_lookup_def)
qed

text \<open>
  A message from \<open>mmsi\<close> was heard: its target is in the table and seen just now, and every other
  target is as before, but for one that was seen no later than all others and that makes room when
  the table is full and the sender is new.
\<close>

definition heard :: "int \<Rightarrow> u64 \<Rightarrow> ('r, 'c) ais_target_table \<Rightarrow> ('r, 'c) ais_target_table \<Rightarrow> bool" where
  "heard mmsi now table table' \<longleftrightarrow> table_inv table' \<and>
     (\<exists>t. ais_lookup mmsi table' = Some t \<and> at_last_seen_us t = now) \<and>
     (\<forall>m. m \<noteq> mmsi \<longrightarrow>
        (case ais_lookup m table of
           None \<Rightarrow> ais_lookup m table' = None
         | Some t \<Rightarrow> ais_lookup m table' = Some t \<or>
             ais_lookup mmsi table = None \<and> (\<forall>u \<in> set (tb_targets table). at_occupied u \<and> at_last_seen_us t \<le> at_last_seen_us u)))"

text \<open>
  What a message may do to its target: change everything but the key. The laws of the table hold
  for every such edit.
\<close>

locale target_edit =
  fixes edit :: "('r :: zero, 'c :: zero) ais_target \<Rightarrow> ('r, 'c) ais_target"
    and now :: u64
  assumes keeps_occupied: "at_occupied (edit t) = at_occupied t"
    and keeps_mmsi: "at_mmsi (edit t) = at_mmsi t"
    and keeps_seen: "at_last_seen_us t = now \<Longrightarrow> at_last_seen_us (edit t) = now"
begin

lemma touch_inv [sk_inv]:
  assumes "table_inv table"
  shows "table_inv (touch_target mmsi now src edit table)"
proof -
  obtain i table' where r: "ais_find_or_create_target mmsi now src table = (i, table')" by fastforce
  from find_or_create_spec [OF assms r] have "table_inv table'" "i < length (tb_targets table')" by auto
  then show ?thesis
    using table_inv_same_key [of table' i "edit (tb_targets table' ! i)"] r by (simp add: touch_target_def keeps_occupied keeps_mmsi)
qed

lemma touch_length: "length (tb_targets (touch_target mmsi now src edit table)) = length (tb_targets table)" if "table_inv table"
proof -
  obtain i table' where r: "ais_find_or_create_target mmsi now src table = (i, table')" by fastforce
  from find_or_create_spec [OF that r] r show ?thesis by (simp add: touch_target_def)
qed

lemma touch_self:
  assumes "table_inv table"
  shows "\<exists>t. ais_lookup mmsi (touch_target mmsi now src edit table) = Some (edit t) \<and> at_last_seen_us t = now \<and>
    (\<forall>u. ais_lookup mmsi table = Some u \<longrightarrow> t = u\<lparr>at_last_seen_us := now, at_source := source_of src (at_source u)\<rparr>)"
proof -
  obtain i table' where r: "ais_find_or_create_target mmsi now src table = (i, table')" by fastforce
  note spec = find_or_create_spec [OF assms r]
  let ?t = "tb_targets table' ! i"
  have wf: "targets_wf (tb_targets (touch_target mmsi now src edit table))" using touch_inv [OF assms] by (simp add: table_inv_def)
  have "target_key (edit ?t) = Some mmsi" using spec target_key_eq [of "edit ?t" ?t] by (simp add: keeps_occupied keeps_mmsi)
  then have "ais_lookup mmsi (touch_target mmsi now src edit table) = Some (edit ?t)"
    using spec r lookup_at(2) [OF wf, of i mmsi] by (simp add: touch_target_def)
  then show ?thesis using spec by (intro exI [of _ ?t]) (auto split: option.splits)
qed

lemma touch_others:
  assumes "table_inv table" "m \<noteq> mmsi"
  shows "case ais_lookup m table of
      None \<Rightarrow> ais_lookup m (touch_target mmsi now src edit table) = None
    | Some t \<Rightarrow> ais_lookup m (touch_target mmsi now src edit table) = Some t \<or>
        ais_lookup mmsi table = None \<and> (\<forall>u \<in> set (tb_targets table). at_occupied u \<and> at_last_seen_us t \<le> at_last_seen_us u)"
proof -
  obtain i table' where r: "ais_find_or_create_target mmsi now src table = (i, table')" by fastforce
  note spec = find_or_create_spec [OF assms(1) r]
  let ?new = "touch_target mmsi now src edit table"
  have wf: "targets_wf (tb_targets table)" "targets_wf (tb_targets ?new)"
    using assms(1) touch_inv [OF assms(1)] by (simp_all add: table_inv_def)
  have slots: "tb_targets ?new = (tb_targets table')[i := edit (tb_targets table' ! i)]"
    using r by (simp add: touch_target_def)
  have self: "target_key (tb_targets ?new ! i) = Some mmsi"
    using spec target_key_eq [of "edit (tb_targets table' ! i)" "tb_targets table' ! i"] by (simp add: slots keeps_occupied keeps_mmsi)
  have other: "j < length (tb_targets table) \<Longrightarrow> j \<noteq> i \<Longrightarrow> tb_targets ?new ! j = tb_targets table ! j" for j
    using spec by (simp add: slots)
  show ?thesis
  proof (cases "ais_lookup m table")
    case None
    have "target_key u \<noteq> Some m" if u: "u \<in> set (tb_targets ?new)" for u
    proof -
      obtain j where j: "j < length (tb_targets table)" "u = tb_targets ?new ! j"
        using u touch_length [OF assms(1)] by (auto simp: in_set_conv_nth)
      show ?thesis using j None self assms(2) other [of j] by (cases "j = i") (auto simp: lookup_None)
    qed
    then have "ais_lookup m ?new = None" by (simp add: lookup_None)
    then show ?thesis using None by simp
  next
    case (Some t)
    then obtain j where j: "j < length (tb_targets table)" "tb_targets table ! j = t" "target_key t = Some m"
      using lookup_iff [OF wf(1)] by blast
    show ?thesis
    proof (cases "j = i")
      case False
      then have "ais_lookup m ?new = Some t"
        using lookup_at(2) [OF wf(2), of j m] other [of j] j touch_length [OF assms(1)] by simp
      then show ?thesis using Some by simp
    next
      case True
      have "ais_lookup mmsi table = None"
      proof (rule ccontr)
        assume "ais_lookup mmsi table \<noteq> None"
        then obtain u where u: "ais_lookup mmsi table = Some u" by blast
        then have "target_key u = Some mmsi" using lookup_iff [OF wf(1)] by blast
        moreover have "u = t" using spec u j True by simp
        ultimately show False using j(3) assms(2) by simp
      qed
      moreover have "at_occupied t" using j(3) by (auto simp: target_key_def split: if_splits)
      ultimately show ?thesis using Some spec j True by simp
    qed
  qed
qed

lemma heard_touch: "table_inv table \<Longrightarrow> heard mmsi now table (touch_target mmsi now src edit table)"
  using touch_inv [of table mmsi src] touch_self [of table mmsi src] touch_others [of table _ mmsi src] keeps_seen
  by (auto simp: heard_def)

end

lemma heard_inv: "heard mmsi now a b \<Longrightarrow> table_inv b"
  by (simp add: heard_def)

lemma heard_trans:
  assumes "heard mmsi now a b" "heard mmsi now b c"
  shows "heard mmsi now a c"
proof -
  obtain t where t: "ais_lookup mmsi b = Some t" using assms(1) by (auto simp: heard_def)
  have same: "ais_lookup m c = ais_lookup m b" if "m \<noteq> mmsi" for m
  proof -
    have "case ais_lookup m b of None \<Rightarrow> ais_lookup m c = None | Some u \<Rightarrow> ais_lookup m c = Some u \<or> ais_lookup mmsi b = None \<and>
        (\<forall>v \<in> set (tb_targets b). at_occupied v \<and> at_last_seen_us u \<le> at_last_seen_us v)"
      using assms(2) that by (simp add: heard_def)
    then show ?thesis using t by (cases "ais_lookup m b") simp_all
  qed
  show ?thesis
    unfolding heard_def
  proof (intro conjI allI impI)
    fix m assume m: "m \<noteq> mmsi"
    show "case ais_lookup m a of None \<Rightarrow> ais_lookup m c = None
      | Some t \<Rightarrow> ais_lookup m c = Some t \<or>
          ais_lookup mmsi a = None \<and> (\<forall>u \<in> set (tb_targets a). at_occupied u \<and> at_last_seen_us t \<le> at_last_seen_us u)"
      using assms(1) m unfolding same [OF m] by (simp add: heard_def)
  qed (use assms(2) in \<open>simp_all add: heard_def\<close>)
qed

section \<open>Removal, expiry and staleness\<close>

lemma remove_is_clear: "ais_remove_target_by_mmsi mmsi now table = snd (ais_clear_target mmsi now table)"
  by (simp add: ais_remove_target_by_mmsi_def ais_clear_target_def target_count_of_def Let_def split: option.splits)

lemma clear_target_inv [sk_inv]:
  assumes "table_inv table"
  shows "table_inv (snd (ais_clear_target mmsi now table))"
proof (cases "ais_find_target_index mmsi table")
  case (Some i)
  let ?ts = "tb_targets table"
  have inv: "?ts \<noteq> []" "targets_wf ?ts" "target_count_of table = int (length (filter at_occupied ?ts))"
    using assms by (simp_all add: table_inv_def)
  have i: "i < length ?ts" using find_index_bound [OF Some] .
  have occ: "at_occupied (?ts ! i)" using find_index_key [OF Some] by (auto simp: target_key_def split: if_splits)
  have "targets_wf (?ts[i := ais_target_init])" by (rule targets_wf_update [OF inv(2) i]) simp_all
  moreover have "int (length (filter at_occupied (?ts[i := ais_target_init]))) = target_count_of table - 1"
    using occupied_count_update [OF i, of at_occupied ais_target_init] occ inv(3) by simp
  moreover have "0 < target_count_of table" using occupied_count_pos [where P = at_occupied, OF i occ] inv(3) by simp
  ultimately show ?thesis
    using Some inv(1) by (simp add: ais_clear_target_def table_inv_def Let_def)
qed (simp add: ais_clear_target_def assms)

lemma clear_targets_inv [sk_inv]: "table_inv table \<Longrightarrow> table_inv (ais_clear_targets table)"
  by (simp add: ais_clear_targets_def ais_target_table_init_def table_inv_def targets_wf_def target_count_of_def)

lemma table_init_inv [sk_inv]: "0 < n \<Longrightarrow> table_inv (ais_target_table_init n)"
  by (simp add: ais_target_table_init_def table_inv_def targets_wf_def target_count_of_def)

definition expire_target :: "u64 \<Rightarrow> ('r :: zero, 'c :: zero) ais_target \<Rightarrow> ('r, 'c) ais_target" where
  "expire_target cutoff t = (if at_occupied t \<and> target_expired cutoff t then ais_target_init else t)"

lemma expire_loop_map:
  "expire_loop cutoff ts e r = (map (expire_target cutoff) ts,
     e + int (length (filter (\<lambda>t. at_occupied t \<and> target_expired cutoff t) ts)),
     r + int (length (filter (\<lambda>t. at_occupied t \<and> \<not> target_expired cutoff t) ts)))"
  by (induction cutoff ts e r rule: expire_loop.induct) (simp_all add: expire_target_def)

text \<open>A slot-wise change that keeps a key or removes it keeps the keys apart.\<close>

lemma targets_wf_map:
  assumes "targets_wf ts" "\<And>t. at_occupied (f t) \<Longrightarrow> at_occupied t \<and> at_mmsi (f t) = at_mmsi t"
  shows "targets_wf (map f ts)"
proof -
  have key: "target_key t = Some k" if "target_key (f t) = Some k" for t k
    using that assms(2) [of t] by (auto simp: target_key_def split: if_splits)
  show ?thesis
    unfolding targets_wf_def
  proof (intro conjI ballI allI impI)
    fix u assume "u \<in> set (map f ts)" "at_occupied u"
    then obtain t where "t \<in> set ts" "u = f t" "at_occupied t" "at_mmsi u = at_mmsi t" using assms(2) by auto
    then show "sd_valid (at_mmsi u)" using targets_wf_valid [OF assms(1)] by simp
  next
    fix i j k assume "i < length (map f ts)" "j < length (map f ts)"
      "target_key (map f ts ! i) = Some k" "target_key (map f ts ! j) = Some k"
    then show "i = j" using targets_wf_inj [OF assms(1), of i k j] key by simp
  qed
qed

lemma expire_spec:
  assumes "table_inv table"
  shows "table_inv (snd (ais_expire_targets_older_than cutoff now table))"
    and "tb_targets (snd (ais_expire_targets_older_than cutoff now table)) = map (expire_target cutoff) (tb_targets table)"
    and "fst (ais_expire_targets_older_than cutoff now table) =
      int (length (filter (\<lambda>t. at_occupied t \<and> target_expired cutoff t) (tb_targets table)))"
proof -
  let ?r = "ais_expire_targets_older_than cutoff now table"
  show ts: "tb_targets (snd ?r) = map (expire_target cutoff) (tb_targets table)"
    and "fst ?r = int (length (filter (\<lambda>t. at_occupied t \<and> target_expired cutoff t) (tb_targets table)))"
    by (simp_all add: ais_expire_targets_older_than_def expire_loop_map)
  have "targets_wf (map (expire_target cutoff) (tb_targets table))"
    using assms by (intro targets_wf_map) (auto simp: table_inv_def expire_target_def split: if_splits)
  moreover have "filter at_occupied (map (expire_target cutoff) us) =
      map (expire_target cutoff) (filter (\<lambda>t. at_occupied t \<and> \<not> target_expired cutoff t) us)" for us :: "('a, 'b) ais_target list"
    by (induction us) (simp_all add: expire_target_def)
  ultimately show "table_inv (snd ?r)"
    using assms by (simp add: table_inv_def ais_expire_targets_older_than_def expire_loop_map target_count_of_def)
qed

definition stale_target :: "u64 \<Rightarrow> u64 \<Rightarrow> ('r, 'c) ais_target \<Rightarrow> ('r, 'c) ais_target" where
  "stale_target cutoff now t =
     (if at_occupied t \<and> \<not> at_stale t \<and> target_expired cutoff t then t\<lparr>at_stale := True\<rparr> else t)"

lemma stale_loop_map:
  "stale_loop cutoff now ts n = (map (stale_target cutoff now) ts,
     n + int (length (filter (\<lambda>t. at_occupied t \<and> \<not> at_stale t \<and> target_expired cutoff t) ts)))"
  by (induction cutoff now ts n rule: stale_loop.induct) (simp_all add: stale_target_def target_expired_def)

lemma stale_inv [sk_inv]:
  assumes "table_inv table"
  shows "table_inv (snd (ais_mark_targets_stale_older_than cutoff now table))"
proof -
  have "targets_wf (map (stale_target cutoff now) (tb_targets table))"
    using assms by (intro targets_wf_map) (auto simp: table_inv_def stale_target_def split: if_splits)
  moreover have "length (filter at_occupied (map (stale_target cutoff now) us)) = length (filter at_occupied us)"
    for us :: "('a, 'b) ais_target list"
    by (induction us) (simp_all add: stale_target_def)
  ultimately show ?thesis
    using assms by (simp add: table_inv_def ais_mark_targets_stale_older_than_def stale_loop_map)
qed

end
