(* ===== verification/Ais_Messages.thy ===== *)
theory Ais_Messages
  imports Ais_Targets
begin

text \<open>
  The parsers of the AIS messages of \<^verbatim>\<open>nmea_ais_core.hpp\<close> and their dispatch. A parser gets the
  payload, the decoded header, the receive time and source, and the parts of the data model it
  writes; it returns its verdict with these parts as they are when it returns, also when it gives
  up half way. Every edit of a target is an interpretation of \<open>target_edit\<close>.
\<close>

section \<open>Position reports\<close>

definition ais_set_header_record ::
  "ais_decoded_header \<Rightarrow> u64 \<Rightarrow> sensor_source \<Rightarrow> 'x ais_header_scheme \<Rightarrow> 'x ais_header_scheme" where
  "ais_set_header_record header now_us source out =
     out\<lparr>ah_source := source_of source (ah_source out), ah_message_type := stamp (dh_message_type header) now_us,
         ah_repeat_indicator := stamp (dh_repeat_indicator header) now_us, ah_mmsi := stamp (dh_mmsi header) now_us\<rparr>"

definition target_from_position ::
  "('r, 'c) ais_position_report \<Rightarrow> bool \<Rightarrow> u64 \<Rightarrow> ('r, 'c) ais_target \<Rightarrow> ('r, 'c) ais_target" where
  "target_from_position pos class_b now_us t =
     t\<lparr>at_last_message_type := carry (ah_message_type pos) now_us (at_last_message_type t),
       at_repeat_indicator := carry (ah_repeat_indicator pos) now_us (at_repeat_indicator t),
       at_navigation_status := carry (pr_navigation_status pos) now_us (at_navigation_status t),
       at_latitude_deg := carry (pr_latitude_deg pos) now_us (at_latitude_deg t),
       at_longitude_deg := carry (pr_longitude_deg pos) now_us (at_longitude_deg t),
       at_speed_over_ground_kn := carry (pr_speed_over_ground_kn pos) now_us (at_speed_over_ground_kn t),
       at_course_over_ground_deg := carry (pr_course_over_ground_deg pos) now_us (at_course_over_ground_deg t),
       at_true_heading_deg := carry (pr_true_heading_deg pos) now_us (at_true_heading_deg t),
       at_timestamp_s := carry (pr_timestamp_s pos) now_us (at_timestamp_s t),
       at_position_accuracy := pr_position_accuracy pos, at_raim := pr_raim pos, at_class_b := class_b,
       at_last_position_update_us := now_us, at_last_seen_us := now_us\<rparr>"

definition ais_update_target_from_position ::
  "('r :: zero, 'c :: zero) ais_position_report \<Rightarrow> bool \<Rightarrow> u64 \<Rightarrow> sensor_source \<Rightarrow>
   ('r, 'c) ais_target_table \<Rightarrow> ('r, 'c) ais_target_table" where
  "ais_update_target_from_position pos class_b now_us source table =
     (if \<not> sd_valid (ah_mmsi pos) then table
      else touch_target (sd_value (ah_mmsi pos)) now_us source (target_from_position pos class_b now_us) table)"

definition ais_update_legacy_target_from_position ::
  "('r, 'c) ais_position_report \<Rightarrow> u64 \<Rightarrow> sensor_source \<Rightarrow> ('r, 'c) tracked_target \<Rightarrow> ('r, 'c) tracked_target" where
  "ais_update_legacy_target_from_position pos now_us source t =
     t\<lparr>tt_source := source_of source (tt_source t),
       tt_target_number := carry (ah_mmsi pos) now_us (tt_target_number t),
       tt_latitude_deg := carry (pr_latitude_deg pos) now_us (tt_latitude_deg t),
       tt_longitude_deg := carry (pr_longitude_deg pos) now_us (tt_longitude_deg t),
       tt_speed_kn := carry (pr_speed_over_ground_kn pos) now_us (tt_speed_kn t),
       tt_course_deg := carry (pr_course_over_ground_deg pos) now_us (tt_course_deg t),
       tt_course_reference := (if sd_valid (pr_course_over_ground_deg pos) then CHR ''T'' else tt_course_reference t),
       tt_last_update_us := now_us\<rparr>"

text \<open>The fields the two classes share, stored only where the sender has a value for them.\<close>

definition position_fields ::
  "('f, 'r, 'c) arith \<Rightarrow> u64 \<Rightarrow> int \<Rightarrow> bool \<Rightarrow> int \<Rightarrow> int \<Rightarrow> int \<Rightarrow> int \<Rightarrow> int \<Rightarrow>
   ('r, 'c) ais_position_report \<Rightarrow> ('r, 'c) ais_position_report" where
  "position_fields A now_us sog_raw accuracy lon_raw lat_raw cog_raw heading_raw timestamp out =
     out\<lparr>pr_speed_over_ground_kn := stamp_if (sog_raw < 1023) (ais_scaled_real A sog_raw (AIS_TENTHS_SCALE A)) now_us (pr_speed_over_ground_kn out),
         pr_position_accuracy := accuracy,
         pr_longitude_deg := stamp_some (ais_position_deg A lon_raw True) now_us (pr_longitude_deg out),
         pr_latitude_deg := stamp_some (ais_position_deg A lat_raw False) now_us (pr_latitude_deg out),
         pr_course_over_ground_deg := stamp_if (cog_raw < 3600) (ais_scaled_real A cog_raw (AIS_TENTHS_SCALE A)) now_us (pr_course_over_ground_deg out),
         pr_true_heading_deg := stamp_if (heading_raw < 511) (r_of_int A heading_raw) now_us (pr_true_heading_deg out),
         pr_timestamp_s := stamp_if (timestamp < 60) timestamp now_us (pr_timestamp_s out)\<rparr>"

definition position_class_a ::
  "('f, 'r, 'c) arith \<Rightarrow> u64 \<Rightarrow> string \<Rightarrow> ('r, 'c) ais_position_report \<Rightarrow> bool \<times> ('r, 'c) ais_position_report" where
  "position_class_a A now_us p out =
     (let (nav, ok) = ais_get_i p 38 4 True;
          (rot_raw, ok) = ais_get_s p 42 8 ok;
          (sog_raw, ok) = ais_get_i p 50 10 ok;
          (accuracy, ok) = ais_get_b p 60 ok;
          (lon_raw, ok) = ais_get_s p 61 28 ok;
          (lat_raw, ok) = ais_get_s p 89 27 ok;
          (cog_raw, ok) = ais_get_i p 116 12 ok;
          (heading_raw, ok) = ais_get_i p 128 9 ok;
          (timestamp, ok) = ais_get_i p 137 6 ok;
          (maneuver, ok) = ais_get_i p 143 2 ok;
          (raim, ok) = ais_get_b p 148 ok;
          out = out\<lparr>pr_raim := raim\<rparr>
      in if \<not> ok then (False, out)
         else (let out = out\<lparr>pr_navigation_status := stamp (ais_navigation_status_from_int nav) now_us,
                     pr_rate_of_turn_deg_min := stamp_if (rot_raw \<noteq> - 128) (r_of_f A (rot_deg_min A rot_raw)) now_us (pr_rate_of_turn_deg_min out)\<rparr>;
                   out = position_fields A now_us sog_raw accuracy lon_raw lat_raw cog_raw heading_raw timestamp out
               in (True, out\<lparr>pr_maneuver_indicator := stamp (ais_maneuver_indicator_from_int maneuver) now_us\<rparr>)))"

definition position_class_b ::
  "('f, 'r, 'c) arith \<Rightarrow> u64 \<Rightarrow> string \<Rightarrow> ('r, 'c) ais_position_report \<Rightarrow> bool \<times> ('r, 'c) ais_position_report" where
  "position_class_b A now_us p out =
     (let (sog_raw, ok) = ais_get_i p 46 10 True;
          (accuracy, ok) = ais_get_b p 56 ok;
          (lon_raw, ok) = ais_get_s p 57 28 ok;
          (lat_raw, ok) = ais_get_s p 85 27 ok;
          (cog_raw, ok) = ais_get_i p 112 12 ok;
          (heading_raw, ok) = ais_get_i p 124 9 ok;
          (timestamp, ok) = ais_get_i p 133 6 ok;
          (raim, ok) = ais_get_b p 147 ok;
          out = out\<lparr>pr_raim := raim\<rparr>
      in if \<not> ok then (False, out)
         else (True, position_fields A now_us sog_raw accuracy lon_raw lat_raw cog_raw heading_raw timestamp out))"

definition ais_parse_position_report ::
  "('f, 'r :: zero, 'c :: zero) arith \<Rightarrow> string \<Rightarrow> ais_decoded_header \<Rightarrow> u64 \<Rightarrow> sensor_source \<Rightarrow>
   ('r, 'c) ais_position_report \<Rightarrow> ('r, 'c) tracked_target \<Rightarrow> ('r, 'c) ais_target_table \<Rightarrow>
   bool \<times> ('r, 'c) ais_position_report \<times> ('r, 'c) tracked_target \<times> ('r, 'c) ais_target_table" where
  "ais_parse_position_report A p header now_us source out legacy table =
     (let ty = dh_message_type header;
          out = ais_set_header_record header now_us source out;
          (ok, out) = (if is_class_a_position ty then position_class_a A now_us p out
                       else if is_class_b_position ty then position_class_b A now_us p out else (False, out))
      in if \<not> ok then (False, out, legacy, table)
         else (let out = out\<lparr>pr_last_update_us := now_us\<rparr>
               in (True, out, ais_update_legacy_target_from_position out now_us source legacy,
                   ais_update_target_from_position out (is_class_b_position ty) now_us source table)))"

section \<open>Other position messages\<close>

definition target_header :: "ais_decoded_header \<Rightarrow> u64 \<Rightarrow> ('r, 'c) ais_target \<Rightarrow> ('r, 'c) ais_target" where
  "target_header header now_us t = t\<lparr>at_last_message_type := stamp (dh_message_type header) now_us,
     at_repeat_indicator := stamp (dh_repeat_indicator header) now_us\<rparr>"

definition target_from_sar ::
  "ais_decoded_header \<Rightarrow> ('r, 'c) ais_sar_aircraft \<Rightarrow> u64 \<Rightarrow> ('r, 'c) ais_target \<Rightarrow> ('r, 'c) ais_target" where
  "target_from_sar header out now_us t =
     (target_header header now_us t)\<lparr>at_latitude_deg := carry (sa_latitude_deg out) now_us (at_latitude_deg t),
       at_longitude_deg := carry (sa_longitude_deg out) now_us (at_longitude_deg t),
       at_speed_over_ground_kn := carry (sa_speed_over_ground_kn out) now_us (at_speed_over_ground_kn t),
       at_course_over_ground_deg := carry (sa_course_over_ground_deg out) now_us (at_course_over_ground_deg t),
       at_timestamp_s := carry (sa_timestamp_s out) now_us (at_timestamp_s t),
       at_position_accuracy := sa_position_accuracy out, at_raim := sa_raim out, at_sar_aircraft := True,
       at_last_position_update_us := now_us\<rparr>"

definition ais_parse_sar_aircraft_position ::
  "('f, 'r :: zero, 'c :: zero) arith \<Rightarrow> string \<Rightarrow> ais_decoded_header \<Rightarrow> u64 \<Rightarrow> sensor_source \<Rightarrow>
   ('r, 'c) ais_sar_aircraft \<Rightarrow> ('r, 'c) ais_target_table \<Rightarrow> bool \<times> ('r, 'c) ais_sar_aircraft \<times> ('r, 'c) ais_target_table" where
  "ais_parse_sar_aircraft_position A p header now_us source out table =
     (let (altitude, ok) = ais_get_i p 38 12 True;
          (sog_raw, ok) = ais_get_i p 50 10 ok;
          (accuracy, ok) = ais_get_b p 60 ok;
          (lon_raw, ok) = ais_get_s p 61 28 ok;
          (lat_raw, ok) = ais_get_s p 89 27 ok;
          (cog_raw, ok) = ais_get_i p 116 12 ok;
          (timestamp, ok) = ais_get_i p 128 6 ok;
          (altitude_sensor, ok) = ais_get_b p 134 ok;
          (dte_not_ready, ok) = ais_get_b p 142 ok;
          (assigned_mode, ok) = ais_get_b p 143 ok;
          (raim, ok) = ais_get_b p 148 ok
      in if \<not> ok then (False, out, table)
         else (let out = ais_set_header_record header now_us source out;
                   out = out\<lparr>sa_altitude_m := stamp_if (altitude < 4095) altitude now_us (sa_altitude_m out),
                     sa_speed_over_ground_kn := stamp_if (sog_raw < 1023) (ais_scaled_real A sog_raw (AIS_TENTHS_SCALE A)) now_us (sa_speed_over_ground_kn out),
                     sa_position_accuracy := accuracy,
                     sa_longitude_deg := stamp_some (ais_position_deg A lon_raw True) now_us (sa_longitude_deg out),
                     sa_latitude_deg := stamp_some (ais_position_deg A lat_raw False) now_us (sa_latitude_deg out),
                     sa_course_over_ground_deg := stamp_if (cog_raw < 3600) (ais_scaled_real A cog_raw (AIS_TENTHS_SCALE A)) now_us (sa_course_over_ground_deg out),
                     sa_timestamp_s := stamp_if (timestamp < 60) timestamp now_us (sa_timestamp_s out),
                     sa_altitude_sensor_barometric := altitude_sensor, sa_dte_ready := (\<not> dte_not_ready),
                     sa_assigned_mode := assigned_mode, sa_raim := raim, sa_last_update_us := now_us\<rparr>
               in (True, out, touch_target (dh_mmsi header) now_us source (target_from_sar header out now_us) table)))"

definition target_from_base_station ::
  "ais_decoded_header \<Rightarrow> 'c ais_base_station \<Rightarrow> u64 \<Rightarrow> ('r, 'c) ais_target \<Rightarrow> ('r, 'c) ais_target" where
  "target_from_base_station header out now_us t =
     (target_header header now_us t)\<lparr>at_latitude_deg := carry (bs_latitude_deg out) now_us (at_latitude_deg t),
       at_longitude_deg := carry (bs_longitude_deg out) now_us (at_longitude_deg t),
       at_position_accuracy := bs_position_accuracy out, at_raim := bs_raim out, at_base_station := True,
       at_last_position_update_us := now_us\<rparr>"

definition ais_parse_base_station ::
  "('f, 'r :: zero, 'c :: zero) arith \<Rightarrow> string \<Rightarrow> ais_decoded_header \<Rightarrow> u64 \<Rightarrow> sensor_source \<Rightarrow>
   'c ais_base_station \<Rightarrow> ('r, 'c) ais_target_table \<Rightarrow> bool \<times> 'c ais_base_station \<times> ('r, 'c) ais_target_table" where
  "ais_parse_base_station A p header now_us source out table =
     (let (year, ok) = ais_get_i p 38 14 True;
          (month, ok) = ais_get_i p 52 4 ok;
          (day, ok) = ais_get_i p 56 5 ok;
          (hour, ok) = ais_get_i p 61 5 ok;
          (minute, ok) = ais_get_i p 66 6 ok;
          (second, ok) = ais_get_i p 72 6 ok;
          (accuracy, ok) = ais_get_b p 78 ok;
          (lon_raw, ok) = ais_get_s p 79 28 ok;
          (lat_raw, ok) = ais_get_s p 107 27 ok;
          (epfd, ok) = ais_get_i p 134 4 ok;
          (raim, ok) = ais_get_b p 148 ok
      in if \<not> ok then (False, out, table)
         else (let out = ais_set_header_record header now_us source out;
                   out = out\<lparr>bs_year := stamp year now_us, bs_month := stamp month now_us, bs_day := stamp day now_us,
                     bs_hour := stamp hour now_us, bs_minute := stamp minute now_us, bs_second := stamp second now_us,
                     bs_position_accuracy := accuracy,
                     bs_longitude_deg := stamp_some (ais_position_deg A lon_raw True) now_us (bs_longitude_deg out),
                     bs_latitude_deg := stamp_some (ais_position_deg A lat_raw False) now_us (bs_latitude_deg out),
                     bs_epfd_type := stamp (ais_epfd_type_from_int epfd) now_us, bs_raim := raim, bs_last_update_us := now_us\<rparr>
               in (True, out, touch_target (dh_mmsi header) now_us source (target_from_base_station header out now_us) table)))"

section \<open>Static data\<close>

definition target_from_voyage ::
  "ais_decoded_header \<Rightarrow> 'r ais_static_voyage \<Rightarrow> u64 \<Rightarrow> ('r, 'c) ais_target \<Rightarrow> ('r, 'c) ais_target" where
  "target_from_voyage header out now_us t =
     (target_header header now_us t)\<lparr>at_ship_type := carry (sv_ship_type out) now_us (at_ship_type t),
       at_imo_number := carry (sv_imo_number out) now_us (at_imo_number t),
       at_vessel_name := nmea_copy_cstr 24 (sv_vessel_name out) (at_vessel_name t),
       at_call_sign := nmea_copy_cstr 8 (sv_call_sign out) (at_call_sign t),
       at_destination := nmea_copy_cstr 24 (sv_destination out) (at_destination t),
       at_last_static_update_us := now_us\<rparr>"

definition ais_parse_static_voyage ::
  "('f, 'r :: zero, 'c :: zero) arith \<Rightarrow> string \<Rightarrow> ais_decoded_header \<Rightarrow> u64 \<Rightarrow> sensor_source \<Rightarrow>
   'r ais_static_voyage \<Rightarrow> ('r, 'c) tracked_target \<Rightarrow> ('r, 'c) ais_target_table \<Rightarrow>
   bool \<times> 'r ais_static_voyage \<times> ('r, 'c) tracked_target \<times> ('r, 'c) ais_target_table" where
  "ais_parse_static_voyage A p header now_us source out legacy table =
     (let (ais_version, ok) = ais_get_i p 38 2 True;
          (imo, ok) = ais_get_i p 40 30 ok;
          (ship_type, ok) = ais_get_i p 232 8 ok;
          (bow, ok) = ais_get_i p 240 9 ok;
          (stern, ok) = ais_get_i p 249 9 ok;
          (port, ok) = ais_get_i p 258 6 ok;
          (starboard, ok) = ais_get_i p 264 6 ok;
          (epfd, ok) = ais_get_i p 270 4 ok;
          (eta_month, ok) = ais_get_i p 274 4 ok;
          (eta_day, ok) = ais_get_i p 278 5 ok;
          (eta_hour, ok) = ais_get_i p 283 5 ok;
          (eta_minute, ok) = ais_get_i p 288 6 ok;
          (draught_dm, ok) = ais_get_i p 294 8 ok;
          (dte_not_ready, ok) = ais_get_b p 422 ok
      in if \<not> ok then (False, out, legacy, table)
         else (let out = ais_set_header_record header now_us source out;
                   out = out\<lparr>sv_ais_version := stamp ais_version now_us, sv_imo_number := stamp imo now_us,
                     sv_call_sign := ais_copy_text 8 p 70 7 (sv_call_sign out),
                     sv_vessel_name := ais_copy_text 24 p 112 20 (sv_vessel_name out),
                     sv_ship_type := stamp ship_type now_us, sv_dimension_to_bow_m := stamp bow now_us,
                     sv_dimension_to_stern_m := stamp stern now_us, sv_dimension_to_port_m := stamp port now_us,
                     sv_dimension_to_starboard_m := stamp starboard now_us,
                     sv_epfd_type := stamp (ais_epfd_type_from_int epfd) now_us, sv_eta_month := stamp eta_month now_us,
                     sv_eta_day := stamp eta_day now_us, sv_eta_hour := stamp eta_hour now_us,
                     sv_eta_minute := stamp eta_minute now_us,
                     sv_draught_m := stamp (ais_scaled_real A draught_dm (AIS_TENTHS_SCALE A)) now_us,
                     sv_destination := ais_copy_text 24 p 302 20 (sv_destination out),
                     sv_dte_ready := (\<not> dte_not_ready), sv_last_update_us := now_us\<rparr>;
                   legacy = legacy\<lparr>tt_source := source_of source (tt_source legacy),
                     tt_target_number := stamp (dh_mmsi header) now_us,
                     tt_target_name := nmea_copy_cstr 24 (sv_vessel_name out) (tt_target_name legacy),
                     tt_last_update_us := now_us\<rparr>
               in (True, out, legacy, touch_target (dh_mmsi header) now_us source (target_from_voyage header out now_us) table)))"

definition target_from_class_b_static ::
  "ais_decoded_header \<Rightarrow> ais_class_b_static \<Rightarrow> u64 \<Rightarrow> ('r, 'c) ais_target \<Rightarrow> ('r, 'c) ais_target" where
  "target_from_class_b_static header out now_us t =
     (target_header header now_us t)\<lparr>at_ship_type := carry (cb_ship_type out) now_us (at_ship_type t),
       at_vessel_name := (if cb_vessel_name out \<noteq> [] then nmea_copy_cstr 24 (cb_vessel_name out) (at_vessel_name t) else at_vessel_name t),
       at_call_sign := (if cb_call_sign out \<noteq> [] then nmea_copy_cstr 8 (cb_call_sign out) (at_call_sign t) else at_call_sign t),
       at_class_b := True, at_last_static_update_us := now_us\<rparr>"

definition class_b_static_part_b :: "string \<Rightarrow> u64 \<Rightarrow> ais_class_b_static \<Rightarrow> bool \<times> ais_class_b_static" where
  "class_b_static_part_b p now_us out =
     (let (ship_type, ok) = ais_get_i p 40 8 True;
          (bow, ok) = ais_get_i p 132 9 ok;
          (stern, ok) = ais_get_i p 141 9 ok;
          (port, ok) = ais_get_i p 150 6 ok;
          (starboard, ok) = ais_get_i p 156 6 ok
      in if \<not> ok then (False, out)
         else (True, out\<lparr>cb_ship_type := stamp ship_type now_us,
                 cb_vendor_id := ais_copy_text 8 p 48 7 (cb_vendor_id out),
                 cb_call_sign := ais_copy_text 8 p 90 7 (cb_call_sign out),
                 cb_dimension_to_bow_m := stamp bow now_us, cb_dimension_to_stern_m := stamp stern now_us,
                 cb_dimension_to_port_m := stamp port now_us, cb_dimension_to_starboard_m := stamp starboard now_us\<rparr>))"

definition ais_parse_class_b_static ::
  "string \<Rightarrow> ais_decoded_header \<Rightarrow> u64 \<Rightarrow> sensor_source \<Rightarrow>
   ais_class_b_static \<Rightarrow> ('r, 'c) tracked_target \<Rightarrow> ('r :: zero, 'c :: zero) ais_target_table \<Rightarrow>
   bool \<times> ais_class_b_static \<times> ('r, 'c) tracked_target \<times> ('r, 'c) ais_target_table" where
  "ais_parse_class_b_static p header now_us source out legacy table =
     (let (raw_part, ok) = ais_get_i p 38 2 True;
          part = ais_static_data_part_from_int raw_part
      in if \<not> ok then (False, out, legacy, table)
         else (let out = (ais_set_header_record header now_us source out)\<lparr>cb_part_number := stamp part now_us\<rparr>;
                   (ok, out, legacy) =
                     (if part = 0
                      then (let out = out\<lparr>cb_vessel_name := ais_copy_text 24 p 40 20 (cb_vessel_name out)\<rparr>
                            in (True, out, legacy\<lparr>tt_target_name := nmea_copy_cstr 24 (cb_vessel_name out) (tt_target_name legacy)\<rparr>))
                      else if part = 1 then (let (ok, out) = class_b_static_part_b p now_us out in (ok, out, legacy))
                      else (True, out, legacy))
               in if \<not> ok then (False, out, legacy, table)
                  else (let legacy = legacy\<lparr>tt_target_number := stamp (dh_mmsi header) now_us,
                              tt_source := source_of source (tt_source legacy), tt_last_update_us := now_us\<rparr>;
                            out = out\<lparr>cb_last_update_us := now_us\<rparr>
                        in (True, out, legacy, touch_target (dh_mmsi header) now_us source (target_from_class_b_static header out now_us) table))))"

definition target_from_aton ::
  "ais_decoded_header \<Rightarrow> 'c ais_aid_to_navigation \<Rightarrow> int \<Rightarrow> u64 \<Rightarrow> ('r, 'c) ais_target \<Rightarrow> ('r, 'c) ais_target" where
  "target_from_aton header out aid_type now_us t =
     (target_header header now_us t)\<lparr>at_aid_type := stamp aid_type now_us,
       at_latitude_deg := carry (an_latitude_deg out) now_us (at_latitude_deg t),
       at_longitude_deg := carry (an_longitude_deg out) now_us (at_longitude_deg t),
       at_vessel_name := nmea_copy_cstr 24 (an_name out) (at_vessel_name t),
       at_position_accuracy := an_position_accuracy out, at_raim := an_raim out, at_aid_to_navigation := True,
       at_last_position_update_us := now_us, at_last_static_update_us := now_us\<rparr>"

definition ais_parse_aid_to_navigation ::
  "('f, 'r :: zero, 'c :: zero) arith \<Rightarrow> string \<Rightarrow> ais_decoded_header \<Rightarrow> u64 \<Rightarrow> sensor_source \<Rightarrow>
   'c ais_aid_to_navigation \<Rightarrow> ('r, 'c) ais_target_table \<Rightarrow> bool \<times> 'c ais_aid_to_navigation \<times> ('r, 'c) ais_target_table" where
  "ais_parse_aid_to_navigation A p header now_us source out table =
     (let (aid_type, ok) = ais_get_i p 38 5 True;
          (accuracy, ok) = ais_get_b p 163 ok;
          (lon_raw, ok) = ais_get_s p 164 28 ok;
          (lat_raw, ok) = ais_get_s p 192 27 ok;
          (bow, ok) = ais_get_i p 219 9 ok;
          (stern, ok) = ais_get_i p 228 9 ok;
          (port, ok) = ais_get_i p 237 6 ok;
          (starboard, ok) = ais_get_i p 243 6 ok;
          (epfd, ok) = ais_get_i p 249 4 ok;
          (timestamp, ok) = ais_get_i p 253 6 ok;
          (off_position, ok) = ais_get_b p 259 ok;
          (raim, ok) = ais_get_b p 268 ok;
          (virtual_aid, ok) = ais_get_b p 269 ok;
          (assigned_mode, ok) = ais_get_b p 270 ok
      in if \<not> ok then (False, out, table)
         else (let out = ais_set_header_record header now_us source out;
                   out = out\<lparr>an_aid_type := stamp aid_type now_us, an_name := ais_copy_text 40 p 43 20 (an_name out),
                     an_position_accuracy := accuracy,
                     an_longitude_deg := stamp_some (ais_position_deg A lon_raw True) now_us (an_longitude_deg out),
                     an_latitude_deg := stamp_some (ais_position_deg A lat_raw False) now_us (an_latitude_deg out),
                     an_dimension_to_bow_m := stamp bow now_us, an_dimension_to_stern_m := stamp stern now_us,
                     an_dimension_to_port_m := stamp port now_us, an_dimension_to_starboard_m := stamp starboard now_us,
                     an_epfd_type := stamp (ais_epfd_type_from_int epfd) now_us,
                     an_timestamp_s := stamp_if (timestamp < 60) timestamp now_us (an_timestamp_s out),
                     an_off_position := off_position, an_raim := raim, an_virtual_aid := virtual_aid,
                     an_assigned_mode := assigned_mode, an_last_update_us := now_us\<rparr>
               in (True, out, touch_target (dh_mmsi header) now_us source (target_from_aton header out aid_type now_us) table)))"

section \<open>Long range, safety texts and binary messages\<close>

definition target_from_long_range ::
  "ais_decoded_header \<Rightarrow> ('r, 'c) ais_long_range \<Rightarrow> int \<Rightarrow> u64 \<Rightarrow> ('r, 'c) ais_target \<Rightarrow> ('r, 'c) ais_target" where
  "target_from_long_range header out nav_status now_us t =
     (target_header header now_us t)\<lparr>at_navigation_status := stamp nav_status now_us,
       at_latitude_deg := carry (lr_latitude_deg out) now_us (at_latitude_deg t),
       at_longitude_deg := carry (lr_longitude_deg out) now_us (at_longitude_deg t),
       at_speed_over_ground_kn := carry (lr_speed_over_ground_kn out) now_us (at_speed_over_ground_kn t),
       at_course_over_ground_deg := carry (lr_course_over_ground_deg out) now_us (at_course_over_ground_deg t),
       at_position_accuracy := lr_position_accuracy out, at_raim := lr_raim out, at_last_position_update_us := now_us\<rparr>"

definition ais_parse_long_range_broadcast ::
  "('f, 'r :: zero, 'c :: zero) arith \<Rightarrow> string \<Rightarrow> ais_decoded_header \<Rightarrow> u64 \<Rightarrow> sensor_source \<Rightarrow>
   ('r, 'c) ais_long_range \<Rightarrow> ('r, 'c) ais_target_table \<Rightarrow> bool \<times> ('r, 'c) ais_long_range \<times> ('r, 'c) ais_target_table" where
  "ais_parse_long_range_broadcast A p header now_us source out table =
     (let (accuracy, ok) = ais_get_b p 38 True;
          (raim, ok) = ais_get_b p 39 ok;
          (nav, ok) = ais_get_i p 40 4 ok;
          (lon_raw, ok) = ais_get_s p 44 18 ok;
          (lat_raw, ok) = ais_get_s p 62 17 ok;
          (sog_raw, ok) = ais_get_i p 79 6 ok;
          (cog_raw, ok) = ais_get_i p 85 9 ok;
          (gnss_status, ok) = ais_get_b p 94 ok;
          nav_status = ais_navigation_status_from_int nav
      in if \<not> ok then (False, out, table)
         else (let out = ais_set_header_record header now_us source out;
                   out = out\<lparr>lr_navigation_status := stamp nav_status now_us, lr_position_accuracy := accuracy, lr_raim := raim,
                     lr_longitude_deg := stamp_some (ais_long_range_position_deg A lon_raw True) now_us (lr_longitude_deg out),
                     lr_latitude_deg := stamp_some (ais_long_range_position_deg A lat_raw False) now_us (lr_latitude_deg out),
                     lr_speed_over_ground_kn := stamp_if (sog_raw < 63) (r_of_int A sog_raw) now_us (lr_speed_over_ground_kn out),
                     lr_course_over_ground_deg := stamp_if (cog_raw < 360) (r_of_int A cog_raw) now_us (lr_course_over_ground_deg out),
                     lr_gnss_position_status := gnss_status, lr_last_update_us := now_us\<rparr>
               in (True, out, touch_target (dh_mmsi header) now_us source (target_from_long_range header out nav_status now_us) table)))"

text \<open>\<^verbatim>\<open>static_cast<uint8_t>\<close> of a character count.\<close>

definition u8_count :: "nat \<Rightarrow> nat" where
  "u8_count n = n mod 256"

definition ais_parse_safety_text ::
  "string \<Rightarrow> ais_decoded_header \<Rightarrow> u64 \<Rightarrow> sensor_source \<Rightarrow>
   ais_safety_text \<Rightarrow> ('r :: zero, 'c :: zero) ais_target_table \<Rightarrow> bool \<times> ais_safety_text \<times> ('r, 'c) ais_target_table" where
  "ais_parse_safety_text p header now_us source out table =
     (let out = ais_set_header_record header now_us source out;
          table = ais_update_target_header header now_us source table;
          bits = length p * 6
      in if dh_message_type header = AIS_ADDRESSED_SAFETY
         then (let (sequence, ok) = ais_get_i p 38 2 True;
                   (destination, ok) = ais_get_i p 40 30 ok;
                   (retransmit, ok) = ais_get_b p 70 ok
               in if \<not> ok then (False, out, table)
                  else (True, out\<lparr>sx_sequence_number := stamp sequence now_us, sx_destination_mmsi := stamp destination now_us,
                          sx_retransmit := retransmit, sx_text := ais_copy_text 96 p 72 (u8_count ((bits - 72) div 6)) (sx_text out),
                          sx_last_update_us := now_us\<rparr>, table))
         else if dh_message_type header = AIS_SAFETY_BROADCAST
         then (True, out\<lparr>sx_text := ais_copy_text 96 p 40 (u8_count ((bits - 40) div 6)) (sx_text out), sx_last_update_us := now_us\<rparr>, table)
         else (False, out, table))"

text \<open>The parts of a binary message that its type announces; \<open>skip\<close> is what the multi-slot form adds at the end.\<close>

definition binary_slot_envelope :: "string \<Rightarrow> nat \<Rightarrow> u64 \<Rightarrow> ais_binary_envelope \<Rightarrow> bool \<times> ais_binary_envelope" where
  "binary_slot_envelope p skip now_us out =
     (let total_bits = int (length p * 6);
          (addressed, ok) = ais_get_b p 38 True;
          (structured, ok) = ais_get_b p 39 ok;
          offset = (40 :: nat);
          out = out\<lparr>be_addressed := addressed, be_structured := structured\<rparr>;
          (out, offset, ok) =
            (if addressed then (let (d, ok) = ais_get_i p offset 30 ok in (out\<lparr>be_destination_mmsi := stamp d now_us\<rparr>, offset + 30, ok))
             else (out, offset, ok));
          (out, offset, ok) =
            (if structured
             then (let (dac, ok) = ais_get_i p offset 10 ok; (fi, ok) = ais_get_i p (offset + 10) 6 ok
                   in (out\<lparr>be_dac := stamp dac now_us, be_function_id := stamp fi now_us\<rparr>, offset + 16, ok))
             else (out, offset, ok));
          after = int (offset + skip)
      in if \<not> ok then (False, out)
         else (True, out\<lparr>be_payload_bit_count := stamp (if after < total_bits then total_bits - after else 0) now_us\<rparr>))"

definition ais_parse_binary_envelope ::
  "string \<Rightarrow> ais_decoded_header \<Rightarrow> u64 \<Rightarrow> sensor_source \<Rightarrow>
   ais_binary_envelope \<Rightarrow> ('r :: zero, 'c :: zero) ais_target_table \<Rightarrow> bool \<times> ais_binary_envelope \<times> ('r, 'c) ais_target_table" where
  "ais_parse_binary_envelope p header now_us source out table =
     (let out = ais_set_header_record header now_us source out;
          table = ais_update_target_header header now_us source table;
          total_bits = int (length p * 6);
          ty = dh_message_type header;
          (ok, out) =
            (if ty = AIS_BINARY_ADDRESSED
             then (let (sequence, ok) = ais_get_i p 38 2 True;
                       (destination, ok) = ais_get_i p 40 30 ok;
                       (retransmit, ok) = ais_get_b p 70 ok;
                       (dac, ok) = ais_get_i p 72 10 ok;
                       (function_id, ok) = ais_get_i p 82 6 ok
                   in if \<not> ok then (False, out)
                      else (True, out\<lparr>be_addressed := True, be_sequence_number := stamp sequence now_us,
                              be_destination_mmsi := stamp destination now_us, be_retransmit := retransmit,
                              be_dac := stamp dac now_us, be_function_id := stamp function_id now_us,
                              be_payload_bit_count := stamp (if 88 < total_bits then total_bits - 88 else 0) now_us\<rparr>))
             else if ty = AIS_BINARY_BROADCAST
             then (let (dac, ok) = ais_get_i p 40 10 True;
                       (function_id, ok) = ais_get_i p 50 6 ok
                   in if \<not> ok then (False, out)
                      else (True, out\<lparr>be_addressed := False, be_dac := stamp dac now_us,
                              be_function_id := stamp function_id now_us,
                              be_payload_bit_count := stamp (if 56 < total_bits then total_bits - 56 else 0) now_us\<rparr>))
             else if ty = AIS_SINGLE_SLOT_BINARY then binary_slot_envelope p 0 now_us out
             else if ty = AIS_MULTI_SLOT_BINARY then binary_slot_envelope p 20 now_us out
             else (False, out))
      in if ok then (True, out\<lparr>be_last_update_us := now_us\<rparr>, table) else (False, out, table))"

section \<open>Sentences\<close>

datatype ais_error =
  AisShort | AisBadFillBits | AisBadPayload | AisShortPayload | AisBadHeader | AisUnsupportedType | AisBadFields
| AisUnsupportedControl | AisBadControlFields

text \<open>
  The payload of a sentence and its fill bits. The payload of a fragmented message is the text of the
  reassembled record, once it is complete; before that there is none.
\<close>

definition ais_control_payload_from_sentence ::
  "nmea_sentence \<Rightarrow> multipart_record \<Rightarrow> ais_error + string option \<times> int" where
  "ais_control_payload_from_sentence s message =
     (if length (ns_fields s) < 6 then Inl AisShort
      else (case parse_int32 (ns_field s 5) of
          None \<Rightarrow> Inl AisBadFillBits
        | Some fill_bits \<Rightarrow>
            if fill_bits < 0 \<or> 5 < fill_bits then Inl AisBadFillBits
            else if fg_is_fragmented (ns_fragment s) \<and> \<not> mr_complete message then Inr (None, fill_bits)
            else (let payload = (if fg_is_fragmented (ns_fragment s) then mr_text message else ns_field s 4);
                      payload_bits = length payload * 6
                  in if \<not> ais_payload_valid payload then Inl AisBadPayload
                     else if payload_bits \<le> nat fill_bits \<or> payload_bits - nat fill_bits < 38 then Inl AisShortPayload
                     else Inr (Some payload, fill_bits))))"

text \<open>The extra static part of an extended class B report.\<close>

definition extended_class_b_static ::
  "string \<Rightarrow> ais_decoded_header \<Rightarrow> u64 \<Rightarrow> sensor_source \<Rightarrow> ('r :: zero, 'c :: zero) ais_data \<Rightarrow> ('r, 'c) ais_data" where
  "extended_class_b_static p header now_us source d =
     (let st = ais_set_header_record header now_us source (ad_class_b_static d);
          st = st\<lparr>cb_vessel_name := ais_copy_text 24 p 143 20 (cb_vessel_name st), cb_last_update_us := now_us\<rparr>
      in d\<lparr>ad_class_b_static := st,
           ad_targets := touch_target (dh_mmsi header) now_us source
             (\<lambda>t. t\<lparr>at_vessel_name := nmea_copy_cstr 24 (cb_vessel_name st) (at_vessel_name t), at_class_b := True,
                     at_last_static_update_us := now_us\<rparr>) (ad_targets d)\<rparr>)"

text \<open>The switch over the message type: the verdict, or \<open>None\<close> for a type that is not supported here.\<close>

definition ais_dispatch ::
  "('f, 'r :: zero, 'c :: zero) arith \<Rightarrow> string \<Rightarrow> ais_decoded_header \<Rightarrow> u64 \<Rightarrow> sensor_source \<Rightarrow>
   ('r, 'c) ais_data \<Rightarrow> bool option \<times> ('r, 'c) ais_data" where
  "ais_dispatch A p header now_us source d =
     (let ty = dh_message_type header; table = ad_targets d; legacy = ad_tracked_target d in
      if is_class_a_position ty
      then (let (ok, out, legacy, table) = ais_parse_position_report A p header now_us source (ad_position_report d) legacy table
            in (Some ok, d\<lparr>ad_position_report := out, ad_tracked_target := legacy, ad_targets := table\<rparr>))
      else if ty = AIS_BASE_STATION_REPORT \<or> ty = AIS_UTC_RESPONSE
      then (let (ok, out, table) = ais_parse_base_station A p header now_us source (ad_base_station d) table
            in (Some ok, d\<lparr>ad_base_station := out, ad_targets := table\<rparr>))
      else if ty = AIS_STATIC_AND_VOYAGE
      then (let (ok, out, legacy, table) = ais_parse_static_voyage A p header now_us source (ad_static_voyage d) legacy table
            in (Some ok, d\<lparr>ad_static_voyage := out, ad_tracked_target := legacy, ad_targets := table\<rparr>))
      else if ty = AIS_BINARY_ADDRESSED \<or> ty = AIS_BINARY_BROADCAST \<or> ty = AIS_SINGLE_SLOT_BINARY \<or> ty = AIS_MULTI_SLOT_BINARY
      then (let (ok, out, table) = ais_parse_binary_envelope p header now_us source (ad_binary_envelope d) table
            in (Some ok, d\<lparr>ad_binary_envelope := out, ad_targets := table\<rparr>))
      else if ty = AIS_SAR_AIRCRAFT
      then (let (ok, out, table) = ais_parse_sar_aircraft_position A p header now_us source (ad_sar_aircraft_position d) table
            in (Some ok, d\<lparr>ad_sar_aircraft_position := out, ad_targets := table\<rparr>))
      else if ty = AIS_ADDRESSED_SAFETY \<or> ty = AIS_SAFETY_BROADCAST
      then (let (ok, out, table) = ais_parse_safety_text p header now_us source (ad_safety_text d) table
            in (Some ok, d\<lparr>ad_safety_text := out, ad_targets := table\<rparr>))
      else if is_class_b_position ty
      then (let (ok, out, legacy, table) = ais_parse_position_report A p header now_us source (ad_class_b_position_report d) legacy table;
                d = d\<lparr>ad_class_b_position_report := out, ad_tracked_target := legacy, ad_targets := table\<rparr>
            in (Some ok, if ok \<and> ty = AIS_EXTENDED_CLASS_B then extended_class_b_static p header now_us source d else d))
      else if ty = AIS_AID_TO_NAVIGATION
      then (let (ok, out, table) = ais_parse_aid_to_navigation A p header now_us source (ad_aid_to_navigation d) table
            in (Some ok, d\<lparr>ad_aid_to_navigation := out, ad_targets := table\<rparr>))
      else if ty = AIS_STATIC_DATA_REPORT
      then (let (ok, out, legacy, table) = ais_parse_class_b_static p header now_us source (ad_class_b_static d) legacy table
            in (Some ok, d\<lparr>ad_class_b_static := out, ad_tracked_target := legacy, ad_targets := table\<rparr>))
      else if ty = AIS_LONG_RANGE
      then (let (ok, out, table) = ais_parse_long_range_broadcast A p header now_us source (ad_long_range_broadcast d) table
            in (Some ok, d\<lparr>ad_long_range_broadcast := out, ad_targets := table\<rparr>))
      else (None, d))"

definition apply_ais_vdm_vdo ::
  "('f, 'r :: zero, 'c :: zero) arith \<Rightarrow> nmea_sentence \<Rightarrow> multipart_record \<Rightarrow> u64 \<Rightarrow> sensor_source \<Rightarrow>
   ('r, 'c) ais_data \<Rightarrow> ais_error option \<times> ('r, 'c) ais_data" where
  "apply_ais_vdm_vdo A s message now_us source d =
     (case ais_control_payload_from_sentence s message of
        Inl e \<Rightarrow> (Some e, d)
      | Inr (None, fill_bits) \<Rightarrow> (None, d)
      | Inr (Some p, fill_bits) \<Rightarrow>
          (let (ok, header) = ais_decode_header p in
           if \<not> ok then (Some AisBadHeader, d)
           else (case ais_dispatch A p header now_us source d of
               (None, d) \<Rightarrow> (Some AisUnsupportedType, d)
             | (Some parsed, d) \<Rightarrow> (if parsed then None else Some AisBadFields, d))))"

section \<open>The edits keep the key of a target\<close>

lemmas target_edits = target_from_position_def target_from_sar_def target_from_base_station_def target_from_voyage_def
  target_from_class_b_static_def target_from_aton_def target_from_long_range_def target_header_def

interpretation position: target_edit "target_from_position pos class_b now_us" now_us
  for pos :: "('r :: zero, 'c :: zero) ais_position_report" and class_b now_us
  by unfold_locales (simp_all add: target_edits)

interpretation sar: target_edit "target_from_sar header out now_us" now_us
  for header and out :: "('r :: zero, 'c :: zero) ais_sar_aircraft" and now_us
  by unfold_locales (simp_all add: target_edits)

interpretation base_station: target_edit "target_from_base_station header out now_us" now_us
  for header and out :: "'c :: zero ais_base_station" and now_us
  by unfold_locales (simp_all add: target_edits)

interpretation voyage: target_edit "target_from_voyage header out now_us" now_us
  for header and out :: "'r :: zero ais_static_voyage" and now_us
  by unfold_locales (simp_all add: target_edits)

interpretation class_b_static: target_edit "target_from_class_b_static header out now_us" now_us for header out now_us
  by unfold_locales (simp_all add: target_edits)

interpretation aton: target_edit "target_from_aton header out aid_type now_us" now_us
  for header and out :: "'c :: zero ais_aid_to_navigation" and aid_type now_us
  by unfold_locales (simp_all add: target_edits)

interpretation long_range: target_edit "target_from_long_range header out nav_status now_us" now_us
  for header and out :: "('r :: zero, 'c :: zero) ais_long_range" and nav_status now_us
  by unfold_locales (simp_all add: target_edits)

interpretation header_edit: target_edit "\<lambda>t. t\<lparr>at_last_message_type := stamp ty now_us, at_repeat_indicator := stamp rep now_us\<rparr>" now_us
  for ty now_us rep
  by unfold_locales simp_all

interpretation extended_edit: target_edit
  "\<lambda>t. t\<lparr>at_vessel_name := nmea_copy_cstr 24 name (at_vessel_name t), at_class_b := True, at_last_static_update_us := now_us\<rparr>" now_us
  for name now_us
  by unfold_locales simp_all

section \<open>What a message does to the table\<close>

lemmas parser_simps = Let_def case_prod_beta

lemma update_header_heard: "table_inv table \<Longrightarrow> heard (dh_mmsi header) now table (ais_update_target_header header now src table)"
  unfolding ais_update_target_header_def by (rule header_edit.heard_touch)

lemma position_keeps_mmsi [simp]: "ah_mmsi (position_fields A now sog acc lon lat cog head ts out) = ah_mmsi out"
  by (simp add: position_fields_def)

lemma position_class_mmsi [simp]:
  "ah_mmsi (snd (position_class_a A now p out)) = ah_mmsi out"
  "ah_mmsi (snd (position_class_b A now p out)) = ah_mmsi out"
  by (simp_all add: position_class_a_def position_class_b_def parser_simps)

lemma set_header_simps [simp]:
  "ah_mmsi (ais_set_header_record header now src out) = stamp (dh_mmsi header) now"
  by (simp add: ais_set_header_record_def)

text \<open>The verdict of a parser and the table it leaves.\<close>

definition parser_contract :: "int \<Rightarrow> u64 \<Rightarrow> bool \<Rightarrow> ('r, 'c) ais_target_table \<Rightarrow> ('r, 'c) ais_target_table \<Rightarrow> bool" where
  "parser_contract mmsi now ok table table' \<longleftrightarrow> heard mmsi now table table' \<or> \<not> ok \<and> table' = table"

lemma position_report_contract:
  assumes "table_inv table"
  shows "parser_contract (dh_mmsi header) now (fst (ais_parse_position_report A p header now src out legacy table)) table
    (snd (snd (snd (ais_parse_position_report A p header now src out legacy table))))"
proof -
  let ?out = "ais_set_header_record header now src out"
  let ?r = "if is_class_a_position (dh_message_type header) then position_class_a A now p ?out
            else if is_class_b_position (dh_message_type header) then position_class_b A now p ?out else (False, ?out)"
  have "ah_mmsi (snd ?r) = stamp (dh_mmsi header) now" by simp
  then have "ais_update_target_from_position (snd ?r\<lparr>pr_last_update_us := now\<rparr>) b now src table =
      touch_target (dh_mmsi header) now src (target_from_position (snd ?r\<lparr>pr_last_update_us := now\<rparr>) b now) table" for b
    by (simp add: ais_update_target_from_position_def)
  then show ?thesis
    using position.heard_touch [OF assms]
    by (simp add: parser_contract_def ais_parse_position_report_def Let_def case_prod_beta)
qed

lemma sar_contract:
  assumes "table_inv table"
  shows "parser_contract (dh_mmsi header) now (fst (ais_parse_sar_aircraft_position A p header now src out table)) table
    (snd (snd (ais_parse_sar_aircraft_position A p header now src out table)))"
  using sar.heard_touch [OF assms] by (simp add: parser_contract_def ais_parse_sar_aircraft_position_def parser_simps)

lemma base_station_contract:
  assumes "table_inv table"
  shows "parser_contract (dh_mmsi header) now (fst (ais_parse_base_station A p header now src out table)) table
    (snd (snd (ais_parse_base_station A p header now src out table)))"
  using base_station.heard_touch [OF assms] by (simp add: parser_contract_def ais_parse_base_station_def parser_simps)

lemma voyage_contract:
  assumes "table_inv table"
  shows "parser_contract (dh_mmsi header) now (fst (ais_parse_static_voyage A p header now src out legacy table)) table
    (snd (snd (snd (ais_parse_static_voyage A p header now src out legacy table))))"
  using voyage.heard_touch [OF assms] by (simp add: parser_contract_def ais_parse_static_voyage_def parser_simps)

lemma class_b_static_contract:
  assumes "table_inv table"
  shows "parser_contract (dh_mmsi header) now (fst (ais_parse_class_b_static p header now src out legacy table)) table
    (snd (snd (snd (ais_parse_class_b_static p header now src out legacy table))))"
  using class_b_static.heard_touch [OF assms] by (simp add: parser_contract_def ais_parse_class_b_static_def parser_simps)

lemma aton_contract:
  assumes "table_inv table"
  shows "parser_contract (dh_mmsi header) now (fst (ais_parse_aid_to_navigation A p header now src out table)) table
    (snd (snd (ais_parse_aid_to_navigation A p header now src out table)))"
  using aton.heard_touch [OF assms] by (simp add: parser_contract_def ais_parse_aid_to_navigation_def parser_simps)

lemma long_range_contract:
  assumes "table_inv table"
  shows "parser_contract (dh_mmsi header) now (fst (ais_parse_long_range_broadcast A p header now src out table)) table
    (snd (snd (ais_parse_long_range_broadcast A p header now src out table)))"
  using long_range.heard_touch [OF assms] by (simp add: parser_contract_def ais_parse_long_range_broadcast_def parser_simps)

lemma safety_contract:
  assumes "table_inv table"
  shows "parser_contract (dh_mmsi header) now (fst (ais_parse_safety_text p header now src out table)) table
    (snd (snd (ais_parse_safety_text p header now src out table)))"
  using update_header_heard [OF assms] by (simp add: parser_contract_def ais_parse_safety_text_def parser_simps)

lemma binary_contract:
  assumes "table_inv table"
  shows "parser_contract (dh_mmsi header) now (fst (ais_parse_binary_envelope p header now src out table)) table
    (snd (snd (ais_parse_binary_envelope p header now src out table)))"
  using update_header_heard [OF assms] by (simp add: parser_contract_def ais_parse_binary_envelope_def parser_simps)

lemma extended_heard:
  assumes "table_inv (ad_targets d)"
  shows "heard (dh_mmsi header) now (ad_targets d) (ad_targets (extended_class_b_static p header now src d))"
  using extended_edit.heard_touch [OF assms] by (simp add: extended_class_b_static_def parser_simps)

lemmas parser_contracts = position_report_contract sar_contract base_station_contract voyage_contract class_b_static_contract
  aton_contract long_range_contract safety_contract binary_contract

text \<open>A class B report with the static part that the extended form adds.\<close>

lemma class_b_report_contract:
  assumes "table_inv (ad_targets d)"
  shows "let r = ais_parse_position_report A p header now src (ad_class_b_position_report d) (ad_tracked_target d) (ad_targets d);
             d1 = d\<lparr>ad_class_b_position_report := fst (snd r), ad_tracked_target := fst (snd (snd r)), ad_targets := snd (snd (snd r))\<rparr>
         in parser_contract (dh_mmsi header) now (fst r) (ad_targets d)
              (ad_targets (if fst r \<and> b then extended_class_b_static p header now src d1 else d1))"
proof -
  let ?r = "ais_parse_position_report A p header now src (ad_class_b_position_report d) (ad_tracked_target d) (ad_targets d)"
  let ?d1 = "d\<lparr>ad_class_b_position_report := fst (snd ?r), ad_tracked_target := fst (snd (snd ?r)), ad_targets := snd (snd (snd ?r))\<rparr>"
  have c: "parser_contract (dh_mmsi header) now (fst ?r) (ad_targets d) (ad_targets ?d1)"
    using position_report_contract [OF assms] by simp
  show ?thesis
  proof (cases "fst ?r \<and> b")
    case True
    then have h: "heard (dh_mmsi header) now (ad_targets d) (ad_targets ?d1)" using c by (simp add: parser_contract_def)
    have "heard (dh_mmsi header) now (ad_targets ?d1) (ad_targets (extended_class_b_static p header now src ?d1))"
      by (rule extended_heard) (rule heard_inv [OF h])
    with heard_trans [OF h] True show ?thesis by (simp add: parser_contract_def Let_def)
  qed (use c in \<open>auto simp: Let_def\<close>)
qed

lemma dispatch_contract:
  assumes "table_inv (ad_targets d)"
  shows "case fst (ais_dispatch A p header now src d) of
      None \<Rightarrow> snd (ais_dispatch A p header now src d) = d
    | Some ok \<Rightarrow> parser_contract (dh_mmsi header) now ok (ad_targets d) (ad_targets (snd (ais_dispatch A p header now src d)))"
proof (cases "is_class_b_position (dh_message_type header)")
  case True
  then have "\<not> is_class_a_position (dh_message_type header)" by (auto simp: is_class_b_position_def is_class_a_position_def)
  then show ?thesis
    using True class_b_report_contract [OF assms, where b = "dh_message_type header = AIS_EXTENDED_CLASS_B" and A = A]
    by (auto simp only: ais_dispatch_def Let_def case_prod_beta is_class_b_position_def fst_conv snd_conv option.case if_False if_True
        HOL.simp_thms numeral_eq_iff num.distinct num.inject)
next
  case False
  then show ?thesis
    by (simp add: ais_dispatch_def parser_simps parser_contracts [OF assms] is_class_b_position_def is_class_a_position_def)
qed

lemma parser_contract_inv: "parser_contract mmsi now ok table table' \<Longrightarrow> table_inv table \<Longrightarrow> table_inv table'"
  by (auto simp: parser_contract_def heard_def)

lemma apply_ais_inv [sk_inv]:
  assumes "table_inv (ad_targets d)" "apply_ais_vdm_vdo A s message now src d = (r, d')"
  shows "table_inv (ad_targets d')"
proof (cases "d' = d")
  case True
  then show ?thesis using assms(1) by simp
next
  case False
  then obtain p fill header where
    p: "ais_control_payload_from_sentence s message = Inr (Some p, fill)" "ais_decode_header p = (True, header)"
    using assms(2) by (auto simp: apply_ais_vdm_vdo_def Let_def split: sum.splits option.splits prod.splits if_splits)
  then have d': "d' = snd (ais_dispatch A p header now src d)"
    using assms(2) by (simp add: apply_ais_vdm_vdo_def Let_def split: prod.splits option.splits)
  show ?thesis
    using dispatch_contract [OF assms(1), of A p header now src] parser_contract_inv [OF _ assms(1)] assms(1)
    by (simp add: d' split: option.splits)
qed

section \<open>Class A reports on the wire\<close>

record class_a_report =
  ca_type :: int
  ca_repeat :: int
  ca_mmsi :: int
  ca_nav :: int
  ca_rot :: int
  ca_sog :: int
  ca_accuracy :: bool
  ca_lon :: int
  ca_lat :: int
  ca_cog :: int
  ca_heading :: int
  ca_second :: int
  ca_maneuver :: int
  ca_raim :: bool
  ca_radio :: int

definition class_a_fields :: "class_a_report \<Rightarrow> (nat \<times> int) list" where
  "class_a_fields m =
     [(6, ca_type m), (2, ca_repeat m), (30, ca_mmsi m), (4, ca_nav m), (8, ca_rot m), (10, ca_sog m), (1, of_bool (ca_accuracy m)),
      (28, ca_lon m), (27, ca_lat m), (12, ca_cog m), (9, ca_heading m), (6, ca_second m), (2, ca_maneuver m), (3, 0),
      (1, of_bool (ca_raim m)), (19, ca_radio m)]"

definition class_a_ok :: "class_a_report \<Rightarrow> bool" where
  "class_a_ok m \<longleftrightarrow> ca_type m \<in> {1, 2, 3} \<and> 0 \<le> ca_repeat m \<and> ca_repeat m < 4 \<and> 0 \<le> ca_mmsi m \<and> ca_mmsi m < 2 ^ 30 \<and>
     0 \<le> ca_nav m \<and> ca_nav m < 16 \<and> - 128 \<le> ca_rot m \<and> ca_rot m < 128 \<and> 0 \<le> ca_sog m \<and> ca_sog m < 1024 \<and>
     - (2 ^ 27) \<le> ca_lon m \<and> ca_lon m < 2 ^ 27 \<and> - (2 ^ 26) \<le> ca_lat m \<and> ca_lat m < 2 ^ 26 \<and>
     0 \<le> ca_cog m \<and> ca_cog m < 4096 \<and> 0 \<le> ca_heading m \<and> ca_heading m < 512 \<and> 0 \<le> ca_second m \<and> ca_second m < 64 \<and>
     0 \<le> ca_maneuver m \<and> ca_maneuver m < 4"

text \<open>A field of a known message at a known place.\<close>

lemma read_unsigned:
  assumes "fs = pre @ (n, v) # post" "k = sum_list (map fst pre)" "n \<le> 31" "0 \<le> v" "v < 2 ^ n"
  shows "ais_get_i (ais_encode fs) k n True = (v, True)"
  using encode_field_unsigned [of n v pre post] assms by simp

lemma read_signed:
  assumes "fs = pre @ (n, v) # post" "k = sum_list (map fst pre)" "0 < n" "n \<le> 31" "- (2 ^ (n - 1)) \<le> v" "v < 2 ^ (n - 1)"
  shows "ais_get_s (ais_encode fs) k n True = (v, True)"
  using encode_field_signed [of n v pre post] assms by simp

lemma read_flag:
  assumes "fs = pre @ (1, of_bool b) # post" "k = sum_list (map fst pre)"
  shows "ais_get_b (ais_encode fs) k True = (b, True)"
proof -
  have "ais_get_u (ais_encode fs) k 1 True = (of_int (take_bit 1 (of_bool b)), True)"
    using encode_field [of 1 pre "of_bool b" post] assms by simp
  then show ?thesis by (cases b) (simp_all add: ais_get_b_def)
qed

lemma class_a_header:
  assumes "class_a_ok m"
  shows "ais_decode_header (ais_encode (class_a_fields m)) =
    (True, \<lparr>dh_message_type = ca_type m, dh_repeat_indicator = ca_repeat m, dh_mmsi = ca_mmsi m\<rparr>)"
proof -
  let ?p = "ais_encode (class_a_fields m)"
  have "ais_get_i ?p 0 6 True = (ca_type m, True)"
    by (rule read_unsigned [where pre = "[]"]) (use assms in \<open>auto simp: class_a_fields_def class_a_ok_def\<close>)
  moreover have "ais_get_i ?p 6 2 True = (ca_repeat m, True)"
    by (rule read_unsigned [where pre = "take 1 (class_a_fields m)"]) (use assms in \<open>auto simp: class_a_fields_def class_a_ok_def\<close>)
  moreover have "ais_get_i ?p 8 30 True = (ca_mmsi m, True)"
    by (rule read_unsigned [where pre = "take 2 (class_a_fields m)"]) (use assms in \<open>auto simp: class_a_fields_def class_a_ok_def\<close>)
  ultimately show ?thesis
    using assms by (auto simp: ais_decode_header_def class_a_ok_def ais_message_type_from_int_def)
qed

text \<open>The report record after a class A message.\<close>

definition class_a_stored ::
  "('f, 'r, 'c) arith \<Rightarrow> u64 \<Rightarrow> class_a_report \<Rightarrow> ('r, 'c) ais_position_report \<Rightarrow> ('r, 'c) ais_position_report" where
  "class_a_stored A now m out =
     (position_fields A now (ca_sog m) (ca_accuracy m) (ca_lon m) (ca_lat m) (ca_cog m) (ca_heading m) (ca_second m)
       (out\<lparr>pr_raim := ca_raim m, pr_navigation_status := stamp (ca_nav m) now,
          pr_rate_of_turn_deg_min := stamp_if (ca_rot m \<noteq> - 128) (r_of_f A (rot_deg_min A (ca_rot m))) now (pr_rate_of_turn_deg_min out)\<rparr>))
     \<lparr>pr_maneuver_indicator := stamp (ca_maneuver m) now\<rparr>"

lemma class_a_read:
  assumes "class_a_ok m"
  shows "position_class_a A now (ais_encode (class_a_fields m)) out = (True, class_a_stored A now m out)"
proof -
  let ?p = "ais_encode (class_a_fields m)"
  note defs = class_a_fields_def class_a_ok_def
  have "ais_get_i ?p 38 4 True = (ca_nav m, True)"
    by (rule read_unsigned [where pre = "take 3 (class_a_fields m)"]) (use assms in \<open>auto simp: defs\<close>)
  moreover have "ais_get_s ?p 42 8 True = (ca_rot m, True)"
    by (rule read_signed [where pre = "take 4 (class_a_fields m)"]) (use assms in \<open>auto simp: defs\<close>)
  moreover have "ais_get_i ?p 50 10 True = (ca_sog m, True)"
    by (rule read_unsigned [where pre = "take 5 (class_a_fields m)"]) (use assms in \<open>auto simp: defs\<close>)
  moreover have "ais_get_b ?p 60 True = (ca_accuracy m, True)"
    by (rule read_flag [where pre = "take 6 (class_a_fields m)"]) (auto simp: defs)
  moreover have "ais_get_s ?p 61 28 True = (ca_lon m, True)"
    by (rule read_signed [where pre = "take 7 (class_a_fields m)"]) (use assms in \<open>auto simp: defs\<close>)
  moreover have "ais_get_s ?p 89 27 True = (ca_lat m, True)"
    by (rule read_signed [where pre = "take 8 (class_a_fields m)"]) (use assms in \<open>auto simp: defs\<close>)
  moreover have "ais_get_i ?p 116 12 True = (ca_cog m, True)"
    by (rule read_unsigned [where pre = "take 9 (class_a_fields m)"]) (use assms in \<open>auto simp: defs\<close>)
  moreover have "ais_get_i ?p 128 9 True = (ca_heading m, True)"
    by (rule read_unsigned [where pre = "take 10 (class_a_fields m)"]) (use assms in \<open>auto simp: defs\<close>)
  moreover have "ais_get_i ?p 137 6 True = (ca_second m, True)"
    by (rule read_unsigned [where pre = "take 11 (class_a_fields m)"]) (use assms in \<open>auto simp: defs\<close>)
  moreover have "ais_get_i ?p 143 2 True = (ca_maneuver m, True)"
    by (rule read_unsigned [where pre = "take 12 (class_a_fields m)"]) (use assms in \<open>auto simp: defs\<close>)
  moreover have "ais_get_b ?p 148 True = (ca_raim m, True)"
    by (rule read_flag [where pre = "take 14 (class_a_fields m)"]) (auto simp: defs)
  moreover have "ais_navigation_status_from_int (ca_nav m) = ca_nav m" "ais_maneuver_indicator_from_int (ca_maneuver m) = ca_maneuver m"
    using assms by (auto simp: class_a_ok_def ais_navigation_status_from_int_def ais_maneuver_indicator_from_int_def)
  ultimately show ?thesis
    by (simp add: position_class_a_def class_a_stored_def)
qed

lemma encode_valid:
  assumes "0 < sum_list (map fst fs)"
  shows "ais_payload_valid (ais_encode fs)" "sum_list (map fst fs) \<le> length (ais_encode fs) * 6"
proof -
  obtain fill where b: "payload_bits (ais_encode fs) = fields_bits fs @ fill" "\<forall>c \<in> set (ais_encode fs). 0 \<le> ais_sixbit_value c"
    by (rule encode_bits)
  show le: "sum_list (map fst fs) \<le> length (ais_encode fs) * 6"
    using arg_cong [OF b(1), of length] by (simp add: length_fields_bits)
  have "ais_encode fs \<noteq> []"
  proof
    assume "ais_encode fs = []"
    with le have "sum_list (map fst fs) = 0" by (metis le_zero_eq list.size(3) mult_0)
    with assms show False by linarith
  qed
  with b(2) show "ais_payload_valid (ais_encode fs)" by (simp add: ais_payload_valid_def)
qed

text \<open>A sentence that carries a whole payload without fill bits.\<close>

definition carries_payload :: "nmea_sentence \<Rightarrow> string \<Rightarrow> bool" where
  "carries_payload s p \<longleftrightarrow> \<not> fg_is_fragmented (ns_fragment s) \<and> 6 \<le> length (ns_fields s) \<and> ns_field s 4 = p \<and> ns_field s 5 = ''0''"

lemma carried_payload:
  assumes "carries_payload s p" "ais_payload_valid p" "38 \<le> length p * 6"
  shows "ais_control_payload_from_sentence s message = Inr (Some p, 0)"
  using assms by (cases "p = []")
    (simp_all add: ais_control_payload_from_sentence_def carries_payload_def parse_int32_def is_digit_char_def digit_value_def)

definition class_a_sent :: "class_a_report \<Rightarrow> ais_decoded_header" where
  "class_a_sent m = \<lparr>dh_message_type = ca_type m, dh_repeat_indicator = ca_repeat m, dh_mmsi = ca_mmsi m\<rparr>"

definition class_a_record ::
  "('f, 'r, 'c) arith \<Rightarrow> u64 \<Rightarrow> sensor_source \<Rightarrow> class_a_report \<Rightarrow> ('r, 'c) ais_position_report \<Rightarrow> ('r, 'c) ais_position_report" where
  "class_a_record A now src m old = (class_a_stored A now m (ais_set_header_record (class_a_sent m) now src old))\<lparr>pr_last_update_us := now\<rparr>"

lemma class_a_record_mmsi: "ah_mmsi (class_a_record A now src m old) = stamp (ca_mmsi m) now"
  by (simp add: class_a_record_def class_a_stored_def class_a_sent_def position_fields_def ais_set_header_record_def)

lemma class_a_apply:
  assumes "class_a_ok m" "carries_payload s (ais_encode (class_a_fields m))"
  shows "apply_ais_vdm_vdo A s message now src d =
    (None, d\<lparr>ad_position_report := class_a_record A now src m (ad_position_report d),
             ad_tracked_target := ais_update_legacy_target_from_position (class_a_record A now src m (ad_position_report d)) now src (ad_tracked_target d),
             ad_targets := touch_target (ca_mmsi m) now src
               (target_from_position (class_a_record A now src m (ad_position_report d)) False now) (ad_targets d)\<rparr>)"
proof -
  let ?out = "class_a_record A now src m (ad_position_report d)"
  let ?p = "ais_encode (class_a_fields m)"
  have size: "sum_list (map fst (class_a_fields m)) = 168" by (simp add: class_a_fields_def)
  then have "ais_control_payload_from_sentence s message = Inr (Some ?p, 0)"
    using encode_valid [of "class_a_fields m"] by (intro carried_payload [OF assms(2)]) simp_all
  moreover have "ais_decode_header ?p = (True, class_a_sent m)" unfolding class_a_sent_def by (rule class_a_header [OF assms(1)])
  moreover have "is_class_a_position (dh_message_type (class_a_sent m))" "\<not> is_class_b_position (dh_message_type (class_a_sent m))"
    using assms(1) by (auto simp: class_a_sent_def class_a_ok_def is_class_a_position_def is_class_b_position_def)
  moreover have "ais_update_target_from_position ?out b now src table = touch_target (ca_mmsi m) now src (target_from_position ?out b now) table"
    for b table
    by (simp add: ais_update_target_from_position_def class_a_record_mmsi)
  ultimately show ?thesis
    by (simp add: apply_ais_vdm_vdo_def ais_dispatch_def ais_parse_position_report_def Let_def class_a_read [OF assms(1)]
        class_a_record_def [symmetric])
qed

lemma payload_no_bad_fields: "ais_control_payload_from_sentence s message \<noteq> Inl AisBadFields"
  by (auto simp: ais_control_payload_from_sentence_def Let_def split: option.splits)

lemma apply_cases:
  obtains (Same) "snd (apply_ais_vdm_vdo A s message now src d) = d"
      "fst (apply_ais_vdm_vdo A s message now src d) \<noteq> Some AisBadFields"
      "fst (apply_ais_vdm_vdo A s message now src d) = None \<longrightarrow> (\<exists>fill. ais_control_payload_from_sentence s message = Inr (None, fill))"
  | (Parsed) p fill header ok where "ais_control_payload_from_sentence s message = Inr (Some p, fill)" "ais_decode_header p = (True, header)"
      "fst (ais_dispatch A p header now src d) = Some ok"
      "apply_ais_vdm_vdo A s message now src d = (if ok then None else Some AisBadFields, snd (ais_dispatch A p header now src d))"
proof (cases "\<exists>p fill header ok. ais_control_payload_from_sentence s message = Inr (Some p, fill) \<and> ais_decode_header p = (True, header) \<and>
    fst (ais_dispatch A p header now src d) = Some ok")
  case True
  then obtain p fill header ok where *: "ais_control_payload_from_sentence s message = Inr (Some p, fill)"
    "ais_decode_header p = (True, header)" "fst (ais_dispatch A p header now src d) = Some ok" by blast
  then show ?thesis by (intro Parsed [OF *]) (auto simp: apply_ais_vdm_vdo_def split: prod.splits)
next
  case False
  have "d' = d" if "ais_dispatch A p header now src d = (None, d')" for d' p header
    using that by (auto simp: ais_dispatch_def Let_def case_prod_beta split: if_splits)
  then show ?thesis
    using False by (intro Same)
      (auto simp: apply_ais_vdm_vdo_def Let_def payload_no_bad_fields split: sum.splits option.splits prod.splits)
qed

section \<open>Properties\<close>

text \<open>
  C7: A class A position report that is put into a payload and sent is decoded to what was sent:
  the sentence is accepted, and the target of the sender shows the position, navigation status,
  speed, course and heading of the report, each stamped with the time of receipt, wherever the
  report has a value for it.
\<close>

theorem ais_position_report_decoded:
  assumes "table_inv (ad_targets d)" "class_a_ok m" "carries_payload s (ais_encode (class_a_fields m))"
    and "\<bar>ca_lon m\<bar> \<le> 108000000" "\<bar>ca_lat m\<bar> \<le> 54000000"
  shows "\<exists>d' t. apply_ais_vdm_vdo A s message now src d = (None, d') \<and> ais_lookup (ca_mmsi m) (ad_targets d') = Some t \<and>
    at_longitude_deg t = stamp (c_div A (c_of_int A (ca_lon m)) (c_of_int A 600000)) now \<and>
    at_latitude_deg t = stamp (c_div A (c_of_int A (ca_lat m)) (c_of_int A 600000)) now \<and>
    at_navigation_status t = stamp (ca_nav m) now \<and> at_last_message_type t = stamp (ca_type m) now \<and>
    (ca_sog m < 1023 \<longrightarrow> at_speed_over_ground_kn t = stamp (ais_scaled_real A (ca_sog m) (AIS_TENTHS_SCALE A)) now) \<and>
    (ca_cog m < 3600 \<longrightarrow> at_course_over_ground_deg t = stamp (ais_scaled_real A (ca_cog m) (AIS_TENTHS_SCALE A)) now) \<and>
    (ca_heading m < 511 \<longrightarrow> at_true_heading_deg t = stamp (r_of_int A (ca_heading m)) now) \<and>
    at_position_accuracy t = ca_accuracy m \<and> at_raim t = ca_raim m \<and> \<not> at_class_b t"
proof -
  let ?out = "class_a_record A now src m (ad_position_report d)"
  let ?d = "d\<lparr>ad_position_report := ?out,
             ad_tracked_target := ais_update_legacy_target_from_position ?out now src (ad_tracked_target d),
             ad_targets := touch_target (ca_mmsi m) now src (target_from_position ?out False now) (ad_targets d)\<rparr>"
  from position.touch_self [OF assms(1), of "ca_mmsi m" now src ?out False] obtain t where
    t: "ais_lookup (ca_mmsi m) (ad_targets ?d) = Some (target_from_position ?out False now t)" by auto
  have "ais_position_deg A (ca_lon m) True = Some (c_div A (c_of_int A (ca_lon m)) (c_of_int A 600000))"
    "ais_position_deg A (ca_lat m) False = Some (c_div A (c_of_int A (ca_lat m)) (c_of_int A 600000))"
    using assms(4,5) by (auto simp: ais_position_deg_def Let_def)
  then show ?thesis
    using class_a_apply [OF assms(2,3), of A message now src d] t
    by (intro exI [of _ ?d] exI [of _ "target_from_position ?out False now t"])
      (simp add: target_from_position_def class_a_record_def class_a_sent_def class_a_stored_def position_fields_def ais_set_header_record_def carry_def
        stamp_if_def stamp_some_def)
qed

definition sample_report :: "int \<Rightarrow> int \<Rightarrow> int \<Rightarrow> class_a_report" where
  "sample_report mmsi lon lat = \<lparr>ca_type = 1, ca_repeat = 0, ca_mmsi = mmsi, ca_nav = 0, ca_rot = 0, ca_sog = 55, ca_accuracy = True,
     ca_lon = lon, ca_lat = lat, ca_cog = 1234, ca_heading = 90, ca_second = 42, ca_maneuver = 0, ca_raim = False, ca_radio = 0\<rparr>"

definition sample_sentence :: "class_a_report \<Rightarrow> nmea_sentence" where
  "sample_sentence m = sentence_clear\<lparr>ns_fields := [''1'', ''1'', '''', ''A'', ais_encode (class_a_fields m), ''0'']\<rparr>"

lemma sample_carries: "carries_payload (sample_sentence m) (ais_encode (class_a_fields m))"
  by (simp add: carries_payload_def sample_sentence_def sentence_clear_def fragment_init_def ns_field_def)

lemma sample_init: "table_inv (ad_targets (ais_data_init 16))"
  by (simp add: ais_data_init_def table_init_inv)

theorem ais_position_report_decoded_witness:
  "\<exists>d' t. apply_ais_vdm_vdo exact (sample_sentence (sample_report 123456789 (- 44391420) 24449040)) multipart_init 7 SrcSerial (ais_data_init 16) = (None, d') \<and>
     ais_lookup 123456789 (ad_targets d') = Some t \<and> sd_value (at_true_heading_deg t) = 90"
  using ais_position_report_decoded [OF sample_init, of "sample_report 123456789 (- 44391420) 24449040"
      "sample_sentence (sample_report 123456789 (- 44391420) 24449040)" exact multipart_init 7 SrcSerial] sample_carries
  by (fastforce simp: sample_report_def class_a_ok_def exact_def)

text \<open>
  A sentence that is refused for its shape, its payload, its header or its type changes nothing,
  and neither does the first part of a message in several parts. A message that ends before the
  fields of its type do is refused too; it leaves the target table as it was, or has already been
  counted as heard from its sender.
\<close>

theorem ais_rejected_unchanged:
  assumes "table_inv (ad_targets d)" "apply_ais_vdm_vdo A s message now src d = (r, d')"
  shows "(r \<noteq> None \<and> r \<noteq> Some AisBadFields \<longrightarrow> d' = d) \<and>
    (fg_is_fragmented (ns_fragment s) \<and> \<not> mr_complete message \<longrightarrow> d' = d) \<and>
    (r = Some AisBadFields \<longrightarrow> (\<exists>p fill. ais_control_payload_from_sentence s message = Inr (Some p, fill) \<and>
       (ad_targets d' = ad_targets d \<or> heard (dh_mmsi (snd (ais_decode_header p))) now (ad_targets d) (ad_targets d'))))"
proof (cases rule: apply_cases [of A s message now src d])
  case Same
  then show ?thesis using assms(2) by auto
next
  case (Parsed p fill header ok)
  then have "\<not> (fg_is_fragmented (ns_fragment s) \<and> \<not> mr_complete message)"
    by (auto simp: ais_control_payload_from_sentence_def Let_def split: if_splits option.splits)
  with Parsed dispatch_contract [OF assms(1), of A p header now src] show ?thesis
    using assms(2) by (auto simp: parser_contract_def split: if_splits)
qed

theorem ais_rejected_unchanged_witness:
  "apply_ais_vdm_vdo exact (sentence_clear\<lparr>ns_fields := [''1'', ''1'', '''', ''A'', ''00000 !'', ''0'']\<rparr>) multipart_init 7 SrcSerial (ais_data_init 16) =
     (Some AisBadPayload, ais_data_init 16)"
proof -
  let ?s = "sentence_clear\<lparr>ns_fields := [''1'', ''1'', '''', ''A'', ''00000 !'', ''0'']\<rparr>"
  let ?r = "apply_ais_vdm_vdo exact ?s multipart_init 7 SrcSerial (ais_data_init 16)"
  have "fst ?r = Some AisBadPayload"
    by (simp add: apply_ais_vdm_vdo_def ais_control_payload_from_sentence_def sentence_clear_def ns_field_def parse_int32_def
        fragment_init_def is_digit_char_def digit_value_def ais_payload_valid_def ais_sixbit_value_def)
  with ais_rejected_unchanged [OF sample_init, of exact ?s multipart_init 7 SrcSerial "fst ?r" "snd ?r"] show ?thesis
    by (simp add: prod_eq_iff)
qed

text \<open>
  C35: The reports of all vessels are decoded into one shared record, and the target takes every value
  that is valid there. So a vessel that sends its speed as not available is shown with the speed of
  the vessel heard before it, as a value of the current time.
\<close>

theorem ais_speed_of_another_vessel:
  assumes "table_inv (ad_targets d)" "class_a_ok m1" "class_a_ok m2" "ca_mmsi m1 \<noteq> ca_mmsi m2" "ca_sog m1 < 1023" "ca_sog m2 = 1023"
    and "carries_payload s1 (ais_encode (class_a_fields m1))" "carries_payload s2 (ais_encode (class_a_fields m2))"
    and "apply_ais_vdm_vdo A s1 message1 t1 src d = (r1, d1)" "apply_ais_vdm_vdo A s2 message2 t2 src d1 = (r2, d2)"
  shows "\<exists>t. ais_lookup (ca_mmsi m2) (ad_targets d2) = Some t \<and>
    at_speed_over_ground_kn t = stamp (ais_scaled_real A (ca_sog m1) (AIS_TENTHS_SCALE A)) t2"
proof -
  note simps = class_a_record_def class_a_stored_def position_fields_def ais_set_header_record_def stamp_if_def
  let ?out = "class_a_record A t2 src m2 (ad_position_report d1)"
  have "pr_speed_over_ground_kn (ad_position_report d1) = stamp (ais_scaled_real A (ca_sog m1) (AIS_TENTHS_SCALE A)) t1"
    using class_a_apply [OF assms(2,7), of A message1 t1 src d] assms(5,9) by (auto simp: simps)
  then have speed: "pr_speed_over_ground_kn ?out = stamp (ais_scaled_real A (ca_sog m1) (AIS_TENTHS_SCALE A)) t1"
    using assms(6) by (simp add: simps)
  have d2: "ad_targets d2 = touch_target (ca_mmsi m2) t2 src (target_from_position ?out False t2) (ad_targets d1)"
    using class_a_apply [OF assms(3,8), of A message2 t2 src d1] assms(10) by auto
  obtain t where "ais_lookup (ca_mmsi m2) (ad_targets d2) = Some (target_from_position ?out False t2 t)"
    using position.touch_self [OF apply_ais_inv [OF assms(1,9)], of "ca_mmsi m2" t2 src ?out False] unfolding d2 by auto
  then show ?thesis by (simp add: target_from_position_def carry_def speed)
qed

theorem ais_speed_of_another_vessel_witness:
  "\<exists>t d1 d2. apply_ais_vdm_vdo exact (sample_sentence (sample_report 111111111 0 0)) multipart_init 7 SrcSerial (ais_data_init 16) = (None, d1) \<and>
     apply_ais_vdm_vdo exact (sample_sentence (sample_report 222222222 0 0\<lparr>ca_sog := 1023\<rparr>)) multipart_init 8 SrcSerial d1 = (None, d2) \<and>
     ais_lookup 222222222 (ad_targets d2) = Some t \<and> sd_value (at_speed_over_ground_kn t) = 55 / 10 \<and> sd_last_update_us (at_speed_over_ground_kn t) = 8"
proof -
  let ?m1 = "sample_report 111111111 0 0" and ?m2 = "sample_report 222222222 0 0\<lparr>ca_sog := 1023\<rparr>" and ?d = "ais_data_init 16 :: (rat, rat) ais_data"
  have ok: "class_a_ok ?m1" "class_a_ok ?m2" by (simp_all add: sample_report_def class_a_ok_def)
  obtain d1 where d1: "apply_ais_vdm_vdo exact (sample_sentence ?m1) multipart_init 7 SrcSerial ?d = (None, d1)"
    using class_a_apply [OF ok(1) sample_carries, of exact multipart_init 7 SrcSerial ?d] by blast
  obtain d2 where d2: "apply_ais_vdm_vdo exact (sample_sentence ?m2) multipart_init 8 SrcSerial d1 = (None, d2)"
    using class_a_apply [OF ok(2) sample_carries, of exact multipart_init 8 SrcSerial d1] by blast
  from ais_speed_of_another_vessel [OF sample_init ok _ _ _ sample_carries sample_carries d1 d2] d1 d2 show ?thesis
    by (auto simp: sample_report_def stamp_def ais_scaled_real_def AIS_TENTHS_SCALE_def exact_def)
qed

end
