(* ===== verification/Ais_Control.thy ===== *)
theory Ais_Control
  imports Ais_Messages
begin

text \<open>
  The control messages of AIS: acknowledgements, inquiries, interrogations, assignments, slot
  reservations, DGNSS corrections and channel management (the second half of
  \<^verbatim>\<open>nmea_ais.hpp\<close>). Like the parsers of the position messages they return their verdict with the
  record and the table as they leave them. Arrays in the records keep their length; the loops that
  fill them stop at four entries or at the end of the payload.
\<close>

section \<open>Parsers\<close>

definition ais_sentence_is_control :: "nmea_sentence \<Rightarrow> multipart_record \<Rightarrow> bool" where
  "ais_sentence_is_control s message =
     (case ais_control_payload_from_sentence s message of
        Inr (Some p, fill_bits) \<Rightarrow> (let (ok, header) = ais_decode_header p in ok \<and> ais_control_message_type (dh_message_type header))
      | _ \<Rightarrow> False)"

definition ais_set_control_header ::
  "ais_decoded_header \<Rightarrow> u64 \<Rightarrow> sensor_source \<Rightarrow> 'x ais_header_scheme \<Rightarrow> ('r :: zero, 'c :: zero) ais_target_table \<Rightarrow>
   'x ais_header_scheme \<times> ('r, 'c) ais_target_table" where
  "ais_set_control_header header now_us source out table =
     (ais_set_header_record header now_us source out, ais_update_target_header header now_us source table)"

text \<open>\<^verbatim>\<open>while (count < 4 && offset + 32u <= payload_len * 6u)\<close>; no count means that the parser returns in the loop.\<close>

function acknowledgement_loop ::
  "string \<Rightarrow> u64 \<Rightarrow> nat \<Rightarrow> nat \<Rightarrow> ais_acknowledgement \<Rightarrow> nat option \<times> ais_acknowledgement" where
  "acknowledgement_loop p now_us count offset out =
     (if count < 4 \<and> offset + 32 \<le> length p * 6
      then (let (dest, ok) = ais_get_i p offset 30 True;
                (sq, ok) = ais_get_i p (offset + 30) 2 ok
            in if \<not> ok then (None, out)
               else acknowledgement_loop p now_us (count + 1) (offset + 32)
                 (out\<lparr>ac_destination_mmsi := (ac_destination_mmsi out)[count := stamp dest now_us],
                      ac_sequence_number := (ac_sequence_number out)[count := stamp sq now_us]\<rparr>))
      else (Some count, out))"
  by pat_completeness auto
termination by (relation "measure (\<lambda>(p, now_us, count, offset, out). 4 - count)") auto

definition ais_parse_acknowledgement ::
  "string \<Rightarrow> ais_decoded_header \<Rightarrow> u64 \<Rightarrow> sensor_source \<Rightarrow> ais_acknowledgement \<Rightarrow> ('r :: zero, 'c :: zero) ais_target_table \<Rightarrow>
   bool \<times> ais_acknowledgement \<times> ('r, 'c) ais_target_table" where
  "ais_parse_acknowledgement p header now_us source out table =
     (let (out, table) = ais_set_control_header header now_us source out table in
      case acknowledgement_loop p now_us 0 40 out of
        (None, out) \<Rightarrow> (False, out, table)
      | (Some count, out) \<Rightarrow>
          (0 < count, out\<lparr>ac_acknowledgement_count := stamp (int count) now_us, ac_last_update_us := now_us\<rparr>, table))"

definition ais_parse_utc_inquiry ::
  "string \<Rightarrow> ais_decoded_header \<Rightarrow> u64 \<Rightarrow> sensor_source \<Rightarrow> ais_utc_inquiry \<Rightarrow> ('r :: zero, 'c :: zero) ais_target_table \<Rightarrow>
   bool \<times> ais_utc_inquiry \<times> ('r, 'c) ais_target_table" where
  "ais_parse_utc_inquiry p header now_us source out table =
     (if length p * 6 < 72 then (False, out, table)
      else (let (out, table) = ais_set_control_header header now_us source out table;
                (dest, ok) = ais_get_i p 40 30 True;
                out = out\<lparr>ui_destination_mmsi := stamp dest now_us\<rparr>
            in if \<not> ok then (False, out, table) else (True, out\<lparr>ui_last_update_us := now_us\<rparr>, table)))"

text \<open>The second and third request of an interrogation, present in the longer forms.\<close>

definition interrogation_second :: "string \<Rightarrow> u64 \<Rightarrow> ais_interrogation \<Rightarrow> bool \<times> ais_interrogation" where
  "interrogation_second p now_us out =
     (let (ty, ok) = ais_get_i p 90 6 True;
          (slot, ok) = ais_get_i p 96 12 ok
      in (ok, out\<lparr>ir_second_message_type := stamp ty now_us, ir_second_slot_offset := stamp slot now_us\<rparr>))"

definition interrogation_third :: "string \<Rightarrow> u64 \<Rightarrow> ais_interrogation \<Rightarrow> bool \<times> ais_interrogation" where
  "interrogation_third p now_us out =
     (let (dest, ok) = ais_get_i p 110 30 True;
          (ty, ok) = ais_get_i p 140 6 ok;
          (slot, ok) = ais_get_i p 146 12 ok
      in (ok, out\<lparr>ir_second_destination_mmsi := stamp dest now_us, ir_third_message_type := stamp ty now_us,
                  ir_third_slot_offset := stamp slot now_us\<rparr>))"

definition ais_parse_interrogation ::
  "string \<Rightarrow> ais_decoded_header \<Rightarrow> u64 \<Rightarrow> sensor_source \<Rightarrow> ais_interrogation \<Rightarrow> ('r :: zero, 'c :: zero) ais_target_table \<Rightarrow>
   bool \<times> ais_interrogation \<times> ('r, 'c) ais_target_table" where
  "ais_parse_interrogation p header now_us source out table =
     (let bits = length p * 6 in
      if bits < 88 then (False, out, table)
      else (let (out, table) = ais_set_control_header header now_us source out table;
                (dest, ok) = ais_get_i p 40 30 True;
                (ty, ok) = ais_get_i p 70 6 ok;
                (slot, ok) = ais_get_i p 76 12 ok;
                out = out\<lparr>ir_first_destination_mmsi := stamp dest now_us, ir_first_message_type := stamp ty now_us,
                          ir_first_slot_offset := stamp slot now_us\<rparr>;
                (ok, out) = (if ok \<and> 110 \<le> bits then interrogation_second p now_us out else (ok, out));
                (ok, out) = (if ok \<and> 160 \<le> bits then interrogation_third p now_us out else (ok, out))
            in if \<not> ok then (False, out, table) else (True, out\<lparr>ir_last_update_us := now_us\<rparr>, table)))"

text \<open>One assignment, at its place in the arrays and in the payload.\<close>

definition assignment_entry :: "string \<Rightarrow> u64 \<Rightarrow> nat \<Rightarrow> nat \<Rightarrow> ais_assignment_command \<Rightarrow> bool \<times> ais_assignment_command" where
  "assignment_entry p now_us count start out =
     (let (dest, ok) = ais_get_i p start 30 True;
          (off, ok) = ais_get_i p (start + 30) 12 ok;
          (inc, ok) = ais_get_i p (start + 42) 10 ok
      in (ok, out\<lparr>as_destination_mmsi := (as_destination_mmsi out)[count := stamp dest now_us],
                  as_offset := (as_offset out)[count := stamp off now_us],
                  as_increment := (as_increment out)[count := stamp inc now_us]\<rparr>))"

definition ais_parse_assignment_command ::
  "string \<Rightarrow> ais_decoded_header \<Rightarrow> u64 \<Rightarrow> sensor_source \<Rightarrow> ais_assignment_command \<Rightarrow> ('r :: zero, 'c :: zero) ais_target_table \<Rightarrow>
   bool \<times> ais_assignment_command \<times> ('r, 'c) ais_target_table" where
  "ais_parse_assignment_command p header now_us source out table =
     (let bits = length p * 6 in
      if bits < 92 then (False, out, table)
      else (let (out, table) = ais_set_control_header header now_us source out table;
                (ok, out) = assignment_entry p now_us 0 40 out;
                two = (ok \<and> 144 \<le> bits);
                (ok, out) = (if two then assignment_entry p now_us 1 92 out else (ok, out))
            in if \<not> ok then (False, out, table)
               else (True, out\<lparr>as_assignment_count := stamp (if two then 2 else 1) now_us, as_last_update_us := now_us\<rparr>, table)))"

function reservation_loop ::
  "string \<Rightarrow> u64 \<Rightarrow> nat \<Rightarrow> nat \<Rightarrow> ais_data_link_management \<Rightarrow> nat option \<times> ais_data_link_management" where
  "reservation_loop p now_us count offset out =
     (if count < 4 \<and> offset + 30 \<le> length p * 6
      then (let (off, ok) = ais_get_i p offset 12 True;
                (n, ok) = ais_get_i p (offset + 12) 4 ok;
                (timeout, ok) = ais_get_i p (offset + 16) 3 ok;
                (inc, ok) = ais_get_i p (offset + 19) 11 ok;
                out = out\<lparr>dl_slot_offset := (dl_slot_offset out)[count := stamp off now_us],
                          dl_slot_count := (dl_slot_count out)[count := stamp n now_us],
                          dl_timeout_min := (dl_timeout_min out)[count := stamp timeout now_us],
                          dl_increment := (dl_increment out)[count := stamp inc now_us]\<rparr>
            in if \<not> ok then (None, out)
               else reservation_loop p now_us (count + 1) (offset + 30) out)
      else (Some count, out))"
  by pat_completeness auto
termination by (relation "measure (\<lambda>(p, now_us, count, offset, out). 4 - count)") auto

declare acknowledgement_loop.simps [simp del] reservation_loop.simps [simp del]

definition ais_parse_data_link_management ::
  "string \<Rightarrow> ais_decoded_header \<Rightarrow> u64 \<Rightarrow> sensor_source \<Rightarrow> ais_data_link_management \<Rightarrow> ('r :: zero, 'c :: zero) ais_target_table \<Rightarrow>
   bool \<times> ais_data_link_management \<times> ('r, 'c) ais_target_table" where
  "ais_parse_data_link_management p header now_us source out table =
     (let (out, table) = ais_set_control_header header now_us source out table in
      case reservation_loop p now_us 0 40 out of
        (None, out) \<Rightarrow> (False, out, table)
      | (Some count, out) \<Rightarrow>
          (0 < count, out\<lparr>dl_reservation_count := stamp (int count) now_us, dl_last_update_us := now_us\<rparr>, table))"

definition ais_parse_dgnss_broadcast ::
  "('f, 'r :: zero, 'c :: zero) arith \<Rightarrow> string \<Rightarrow> ais_decoded_header \<Rightarrow> u64 \<Rightarrow> sensor_source \<Rightarrow> 'c ais_dgnss_broadcast \<Rightarrow>
   ('r, 'c) ais_target_table \<Rightarrow> bool \<times> 'c ais_dgnss_broadcast \<times> ('r, 'c) ais_target_table" where
  "ais_parse_dgnss_broadcast A p header now_us source out table =
     (if length p * 6 < 80 then (False, out, table)
      else (let (out, table) = ais_set_control_header header now_us source out table;
                (lon_raw, ok) = ais_get_s p 40 18 True;
                (lat_raw, ok) = ais_get_s p 58 17 ok;
                bits = int (length p * 6)
            in if \<not> ok then (False, out, table)
               else (True, out\<lparr>dg_longitude_deg := stamp_some (ais_long_range_position_deg A lon_raw True) now_us (dg_longitude_deg out),
                       dg_latitude_deg := stamp_some (ais_long_range_position_deg A lat_raw False) now_us (dg_latitude_deg out),
                       dg_payload_bit_count := stamp (if 80 < bits then bits - 80 else 0) now_us,
                       dg_last_update_us := now_us\<rparr>, table)))"

text \<open>The area of a channel management message, or the two stations it is addressed to.\<close>

definition channel_stations :: "string \<Rightarrow> u64 \<Rightarrow> bool \<Rightarrow> 'c ais_channel_management \<Rightarrow> bool \<times> 'c ais_channel_management" where
  "channel_stations p now_us ok out =
     (let (first, ok) = ais_get_i p 69 30 ok;
          (second, ok) = ais_get_i p 104 30 ok
      in (ok, out\<lparr>cm_first_destination_mmsi := stamp first now_us, cm_second_destination_mmsi := stamp second now_us\<rparr>))"

definition channel_area ::
  "('f, 'r, 'c) arith \<Rightarrow> string \<Rightarrow> u64 \<Rightarrow> bool \<Rightarrow> 'c ais_channel_management \<Rightarrow> bool \<times> 'c ais_channel_management" where
  "channel_area A p now_us ok out =
     (let (ne_lon, ok) = ais_get_s p 69 18 ok;
          (ne_lat, ok) = ais_get_s p 87 17 ok;
          (sw_lon, ok) = ais_get_s p 104 18 ok;
          (sw_lat, ok) = ais_get_s p 122 17 ok
      in (ok, out\<lparr>cm_northeast_lon_deg := stamp_some (ais_long_range_position_deg A ne_lon True) now_us (cm_northeast_lon_deg out),
                  cm_northeast_lat_deg := stamp_some (ais_long_range_position_deg A ne_lat False) now_us (cm_northeast_lat_deg out),
                  cm_southwest_lon_deg := stamp_some (ais_long_range_position_deg A sw_lon True) now_us (cm_southwest_lon_deg out),
                  cm_southwest_lat_deg := stamp_some (ais_long_range_position_deg A sw_lat False) now_us (cm_southwest_lat_deg out)\<rparr>))"

definition ais_parse_channel_management ::
  "('f, 'r :: zero, 'c :: zero) arith \<Rightarrow> string \<Rightarrow> ais_decoded_header \<Rightarrow> u64 \<Rightarrow> sensor_source \<Rightarrow> 'c ais_channel_management \<Rightarrow>
   ('r, 'c) ais_target_table \<Rightarrow> bool \<times> 'c ais_channel_management \<times> ('r, 'c) ais_target_table" where
  "ais_parse_channel_management A p header now_us source out table =
     (if length p * 6 < 145 then (False, out, table)
      else (let (out, table) = ais_set_control_header header now_us source out table;
                (channel_a, ok) = ais_get_i p 40 12 True;
                (channel_b, ok) = ais_get_i p 52 12 ok;
                (mode, ok) = ais_get_i p 64 4 ok;
                (high_power, ok) = ais_get_b p 68 ok;
                (addressed, ok) = ais_get_b p 139 ok;
                out = out\<lparr>cm_channel_a := stamp channel_a now_us, cm_channel_b := stamp channel_b now_us,
                          cm_txrx_mode := stamp (ais_txrx_mode_from_int mode) now_us, cm_high_power := high_power,
                          cm_addressed := addressed\<rparr>;
                (ok, out) = (if addressed then channel_stations p now_us ok out else channel_area A p now_us ok out);
                (bandwidth_a, ok) = ais_get_b p 140 ok;
                (bandwidth_b, ok) = ais_get_b p 141 ok;
                (zone, ok) = ais_get_i p 142 3 ok;
                out = out\<lparr>cm_bandwidth_a_12_5khz := bandwidth_a, cm_bandwidth_b_12_5khz := bandwidth_b,
                          cm_transitional_zone_size_nmi := stamp zone now_us\<rparr>
            in if \<not> ok then (False, out, table) else (True, out\<lparr>cm_last_update_us := now_us\<rparr>, table)))"

definition ais_parse_group_assignment ::
  "('f, 'r :: zero, 'c :: zero) arith \<Rightarrow> string \<Rightarrow> ais_decoded_header \<Rightarrow> u64 \<Rightarrow> sensor_source \<Rightarrow> 'c ais_group_assignment \<Rightarrow>
   ('r, 'c) ais_target_table \<Rightarrow> bool \<times> 'c ais_group_assignment \<times> ('r, 'c) ais_target_table" where
  "ais_parse_group_assignment A p header now_us source out table =
     (if length p * 6 < 154 then (False, out, table)
      else (let (out, table) = ais_set_control_header header now_us source out table;
                (ne_lon, ok) = ais_get_s p 40 18 True;
                (ne_lat, ok) = ais_get_s p 58 17 ok;
                (sw_lon, ok) = ais_get_s p 75 18 ok;
                (sw_lat, ok) = ais_get_s p 93 17 ok;
                (station_type, ok) = ais_get_i p 110 4 ok;
                (ship_type, ok) = ais_get_i p 114 8 ok;
                (mode, ok) = ais_get_i p 144 2 ok;
                (report_interval, ok) = ais_get_i p 146 4 ok;
                (quiet, ok) = ais_get_i p 150 4 ok;
                out = out\<lparr>gc_northeast_lon_deg := stamp_some (ais_long_range_position_deg A ne_lon True) now_us (gc_northeast_lon_deg out),
                          gc_northeast_lat_deg := stamp_some (ais_long_range_position_deg A ne_lat False) now_us (gc_northeast_lat_deg out),
                          gc_southwest_lon_deg := stamp_some (ais_long_range_position_deg A sw_lon True) now_us (gc_southwest_lon_deg out),
                          gc_southwest_lat_deg := stamp_some (ais_long_range_position_deg A sw_lat False) now_us (gc_southwest_lat_deg out),
                          gc_station_type := stamp station_type now_us, gc_ship_type := stamp ship_type now_us,
                          gc_txrx_mode := stamp (ais_txrx_mode_from_int mode) now_us,
                          gc_report_interval := stamp report_interval now_us, gc_quiet_time_min := stamp quiet now_us\<rparr>
            in if \<not> ok then (False, out, table) else (True, out\<lparr>gc_last_update_us := now_us\<rparr>, table)))"

section \<open>Sentences\<close>

definition ais_control_dispatch ::
  "('f, 'r :: zero, 'c :: zero) arith \<Rightarrow> string \<Rightarrow> ais_decoded_header \<Rightarrow> u64 \<Rightarrow> sensor_source \<Rightarrow>
   ('r, 'c) ais_data \<Rightarrow> bool \<times> ('r, 'c) ais_data" where
  "ais_control_dispatch A p header now_us source d =
     (let ty = dh_message_type header; table = ad_targets d in
      if ty = AIS_BINARY_ACKNOWLEDGE \<or> ty = AIS_SAFETY_ACKNOWLEDGE
      then (let (ok, out, table) = ais_parse_acknowledgement p header now_us source (ad_acknowledgement d) table
            in (ok, d\<lparr>ad_acknowledgement := out, ad_targets := table\<rparr>))
      else if ty = AIS_UTC_INQUIRY
      then (let (ok, out, table) = ais_parse_utc_inquiry p header now_us source (ad_utc_inquiry d) table
            in (ok, d\<lparr>ad_utc_inquiry := out, ad_targets := table\<rparr>))
      else if ty = AIS_INTERROGATION
      then (let (ok, out, table) = ais_parse_interrogation p header now_us source (ad_interrogation d) table
            in (ok, d\<lparr>ad_interrogation := out, ad_targets := table\<rparr>))
      else if ty = AIS_ASSIGNMENT_COMMAND
      then (let (ok, out, table) = ais_parse_assignment_command p header now_us source (ad_assignment_command d) table
            in (ok, d\<lparr>ad_assignment_command := out, ad_targets := table\<rparr>))
      else if ty = AIS_DGNSS_BROADCAST
      then (let (ok, out, table) = ais_parse_dgnss_broadcast A p header now_us source (ad_dgnss_broadcast d) table
            in (ok, d\<lparr>ad_dgnss_broadcast := out, ad_targets := table\<rparr>))
      else if ty = AIS_DATA_LINK_MANAGEMENT
      then (let (ok, out, table) = ais_parse_data_link_management p header now_us source (ad_data_link_management d) table
            in (ok, d\<lparr>ad_data_link_management := out, ad_targets := table\<rparr>))
      else if ty = AIS_CHANNEL_MANAGEMENT
      then (let (ok, out, table) = ais_parse_channel_management A p header now_us source (ad_channel_management d) table
            in (ok, d\<lparr>ad_channel_management := out, ad_targets := table\<rparr>))
      else if ty = AIS_GROUP_ASSIGNMENT
      then (let (ok, out, table) = ais_parse_group_assignment A p header now_us source (ad_group_assignment d) table
            in (ok, d\<lparr>ad_group_assignment := out, ad_targets := table\<rparr>))
      else (False, d))"

definition apply_ais_control_vdm_vdo ::
  "('f, 'r :: zero, 'c :: zero) arith \<Rightarrow> nmea_sentence \<Rightarrow> multipart_record \<Rightarrow> u64 \<Rightarrow> sensor_source \<Rightarrow>
   ('r, 'c) ais_data \<Rightarrow> ais_error option \<times> ('r, 'c) ais_data" where
  "apply_ais_control_vdm_vdo A s message now_us source d =
     (case ais_control_payload_from_sentence s message of
        Inl e \<Rightarrow> (Some e, d)
      | Inr (None, fill_bits) \<Rightarrow> (None, d)
      | Inr (Some p, fill_bits) \<Rightarrow>
          (let (ok, header) = ais_decode_header p in
           if \<not> ok then (Some AisBadHeader, d)
           else if \<not> ais_control_message_type (dh_message_type header) then (Some AisUnsupportedControl, d)
           else (let (parsed, d) = ais_control_dispatch A p header now_us source d
                 in (if parsed then None else Some AisBadControlFields, d))))"

section \<open>What a control message does to the table\<close>

lemma control_header_simps [simp]:
  "fst (ais_set_control_header header now src out table) = ais_set_header_record header now src out"
  "snd (ais_set_control_header header now src out table) = ais_update_target_header header now src table"
  by (simp_all add: ais_set_control_header_def)

lemmas control_parsers = ais_parse_acknowledgement_def ais_parse_utc_inquiry_def ais_parse_interrogation_def
  ais_parse_assignment_command_def ais_parse_data_link_management_def ais_parse_dgnss_broadcast_def
  ais_parse_channel_management_def ais_parse_group_assignment_def

lemma control_contracts:
  assumes "table_inv table"
  shows "parser_contract (dh_mmsi header) now (fst (ais_parse_acknowledgement p header now src out1 table)) table
      (snd (snd (ais_parse_acknowledgement p header now src out1 table)))"
    "parser_contract (dh_mmsi header) now (fst (ais_parse_utc_inquiry p header now src out2 table)) table
      (snd (snd (ais_parse_utc_inquiry p header now src out2 table)))"
    "parser_contract (dh_mmsi header) now (fst (ais_parse_interrogation p header now src out3 table)) table
      (snd (snd (ais_parse_interrogation p header now src out3 table)))"
    "parser_contract (dh_mmsi header) now (fst (ais_parse_assignment_command p header now src out4 table)) table
      (snd (snd (ais_parse_assignment_command p header now src out4 table)))"
    "parser_contract (dh_mmsi header) now (fst (ais_parse_data_link_management p header now src out5 table)) table
      (snd (snd (ais_parse_data_link_management p header now src out5 table)))"
    "parser_contract (dh_mmsi header) now (fst (ais_parse_dgnss_broadcast A p header now src out6 table)) table
      (snd (snd (ais_parse_dgnss_broadcast A p header now src out6 table)))"
    "parser_contract (dh_mmsi header) now (fst (ais_parse_channel_management A p header now src out7 table)) table
      (snd (snd (ais_parse_channel_management A p header now src out7 table)))"
    "parser_contract (dh_mmsi header) now (fst (ais_parse_group_assignment A p header now src out8 table)) table
      (snd (snd (ais_parse_group_assignment A p header now src out8 table)))"
  using update_header_heard [OF assms]
  by (simp_all add: parser_contract_def control_parsers parser_simps split: option.splits)

lemma control_dispatch_contract:
  assumes "table_inv (ad_targets d)"
  shows "parser_contract (dh_mmsi header) now (fst (ais_control_dispatch A p header now src d)) (ad_targets d)
    (ad_targets (snd (ais_control_dispatch A p header now src d)))"
  by (simp add: ais_control_dispatch_def parser_simps control_contracts [OF assms]) (simp add: parser_contract_def)

lemma control_dispatch_own: "ad_own_vessel (snd (ais_control_dispatch A p header now src d)) = ad_own_vessel d"
  by (simp add: ais_control_dispatch_def parser_simps)

lemma dispatch_own: "ad_own_vessel (snd (ais_dispatch A p header now src d)) = ad_own_vessel d"
  by (simp add: ais_dispatch_def extended_class_b_static_def parser_simps)

text \<open>The outcomes of a control sentence.\<close>

lemma control_cases:
  obtains (Same) "snd (apply_ais_control_vdm_vdo A s message now src d) = d"
      "fst (apply_ais_control_vdm_vdo A s message now src d) \<noteq> Some AisBadControlFields"
      "fst (apply_ais_control_vdm_vdo A s message now src d) = None \<longrightarrow> (\<exists>fill. ais_control_payload_from_sentence s message = Inr (None, fill))"
  | (Parsed) p fill header where "ais_control_payload_from_sentence s message = Inr (Some p, fill)" "ais_decode_header p = (True, header)"
      "ais_control_message_type (dh_message_type header)"
      "apply_ais_control_vdm_vdo A s message now src d =
        (if fst (ais_control_dispatch A p header now src d) then None else Some AisBadControlFields, snd (ais_control_dispatch A p header now src d))"
proof (cases "\<exists>p fill header. ais_control_payload_from_sentence s message = Inr (Some p, fill) \<and> ais_decode_header p = (True, header) \<and>
    ais_control_message_type (dh_message_type header)")
  case True
  then obtain p fill header where *: "ais_control_payload_from_sentence s message = Inr (Some p, fill)"
    "ais_decode_header p = (True, header)" "ais_control_message_type (dh_message_type header)" by blast
  then show ?thesis by (intro Parsed [OF *]) (simp add: apply_ais_control_vdm_vdo_def case_prod_beta)
next
  case False
  have "ais_control_payload_from_sentence s message \<noteq> Inl AisBadControlFields"
    by (auto simp: ais_control_payload_from_sentence_def Let_def split: option.splits)
  then show ?thesis
    using False by (intro Same)
      (auto simp: apply_ais_control_vdm_vdo_def Let_def split: sum.splits option.splits prod.splits)
qed

end
