(* ===== verification/Ais_Own.thy ===== *)
theory Ais_Own
  imports Ais_Control
begin

text \<open>
  What \<^verbatim>\<open>nmea_ais_own_vessel.hpp\<close> adds to the decoder: the application payloads of binary messages,
  the payload of DGNSS corrections, the extra fields of class B reports and aids to navigation, the
  two halves of a static data report, and the own vessel, whose sentences (VDO) are decoded into a
  scratch model so that they never reach the table of targets.
\<close>

section \<open>Binary applications\<close>

definition ais_enough_bits :: "nat \<Rightarrow> int \<Rightarrow> nat \<Rightarrow> bool" where
  "ais_enough_bits payload_len fill_bits bit_count =
     (if fill_bits < 0 \<or> payload_len * 6 < nat fill_bits then False
      else bit_count \<le> payload_len * 6 - nat fill_bits)"

definition ais_binary_application_label :: "int \<Rightarrow> int \<Rightarrow> string" where
  "ais_binary_application_label dac fi = ais_binary_application_label_from_id (ais_binary_application_id dac fi)"

text \<open>
  \<^verbatim>\<open>while (count < AIS_AREA_NOTICE_SUBAREA_CAPACITY && left >= 87 && ok)\<close>; the four results are the
  count, \<open>ok\<close>, the number of decoded fields and the record.
\<close>

function subarea_loop ::
  "('f, 'r, 'c) arith \<Rightarrow> string \<Rightarrow> u64 \<Rightarrow> nat \<Rightarrow> nat \<Rightarrow> int \<Rightarrow> bool \<Rightarrow> int \<Rightarrow> ('r, 'c) ais_binary_application \<Rightarrow>
   nat \<times> bool \<times> int \<times> ('r, 'c) ais_binary_application" where
  "subarea_loop A p now_us count offset left ok decoded app =
     (if count < 4 \<and> 87 \<le> left \<and> ok
      then (let (shape, ok) = ais_get_i p offset 3 ok;
                (scale, ok) = ais_get_i p (offset + 3) 2 ok;
                (lon_raw, ok) = ais_get_s p (offset + 5) 25 ok;
                (lat_raw, ok) = ais_get_s p (offset + 30) 24 ok;
                (precision, ok) = ais_get_i p (offset + 54) 3 ok;
                (radius, ok) = ais_get_i p (offset + 57) 12 ok;
                (dim_e, ok) = ais_get_i p (offset + 69) 8 ok;
                (dim_n, ok) = ais_get_i p (offset + 77) 8 ok;
                (orientation, ok) = ais_get_i p (offset + 85) 2 ok
            in if \<not> ok then (count, ok, decoded, app)
               else subarea_loop A p now_us (count + 1) (offset + 87) (left - 87) ok (decoded + 1)
                 (app\<lparr>ba_subarea_shape := (ba_subarea_shape app)[count := stamp (ais_area_notice_shape_from_int shape) now_us],
                      ba_subarea_scale_factor := (ba_subarea_scale_factor app)[count := stamp scale now_us],
                      ba_subarea_longitude_deg := (ba_subarea_longitude_deg app)
                        [count := stamp_some (ais_app_position_deg A lon_raw True) now_us (ba_subarea_longitude_deg app ! count)],
                      ba_subarea_latitude_deg := (ba_subarea_latitude_deg app)
                        [count := stamp_some (ais_app_position_deg A lat_raw False) now_us (ba_subarea_latitude_deg app ! count)],
                      ba_subarea_precision := (ba_subarea_precision app)[count := stamp precision now_us],
                      ba_subarea_radius_m := (ba_subarea_radius_m app)[count := stamp radius now_us],
                      ba_subarea_dimension_e_m := (ba_subarea_dimension_e_m app)[count := stamp dim_e now_us],
                      ba_subarea_dimension_n_m := (ba_subarea_dimension_n_m app)[count := stamp dim_n now_us],
                      ba_subarea_orientation_deg := (ba_subarea_orientation_deg app)[count := stamp orientation now_us]\<rparr>))
      else (count, ok, decoded, app))"
  by pat_completeness auto
termination by (relation "measure (\<lambda>(A, p, now_us, count, offset, left, ok, decoded, app). 4 - count)") auto

declare subarea_loop.simps [simp del]

definition ais_decode_area_notice_subareas ::
  "('f, 'r, 'c) arith \<Rightarrow> string \<Rightarrow> nat \<Rightarrow> int \<Rightarrow> u64 \<Rightarrow> ('r, 'c) ais_binary_application \<Rightarrow> bool \<Rightarrow> int \<Rightarrow>
   ('r, 'c) ais_binary_application \<times> bool \<times> int" where
  "ais_decode_area_notice_subareas A p bit_offset remaining_bits now_us app ok decoded =
     (let (count, ok, decoded, app) = subarea_loop A p now_us 0 bit_offset remaining_bits ok decoded app
      in (app\<lparr>ba_subarea_count := stamp (int count) now_us\<rparr>, ok, decoded))"

text \<open>The weather of a meteorological report, from bit \<open>o\<close> on; the offsets are the sums of the widths in the code.\<close>

definition met_hydro_air ::
  "('f, 'r, 'c) arith \<Rightarrow> string \<Rightarrow> nat \<Rightarrow> u64 \<Rightarrow> bool \<Rightarrow> ('r, 'c) ais_binary_application \<Rightarrow> bool \<times> ('r, 'c) ais_binary_application" where
  "met_hydro_air A p start now_us ok app =
     (let (wind_speed, ok) = ais_get_i p start 7 ok;
          (wind_gust, ok) = ais_get_i p (start + 7) 7 ok;
          (wind_direction, ok) = ais_get_i p (start + 14) 9 ok;
          (gust_direction, ok) = ais_get_i p (start + 23) 9 ok;
          (air_temperature, ok) = ais_get_s p (start + 32) 11 ok;
          (humidity, ok) = ais_get_i p (start + 43) 7 ok;
          (dew_point, ok) = ais_get_s p (start + 50) 10 ok;
          (pressure, ok) = ais_get_i p (start + 60) 9 ok;
          (tendency, ok) = ais_get_i p (start + 69) 2 ok;
          (visibility, ok) = ais_get_i p (start + 71) 8 ok
      in (ok, app\<lparr>ba_wind_speed_kn := stamp wind_speed now_us, ba_wind_gust_kn := stamp wind_gust now_us,
             ba_wind_direction_deg := stamp wind_direction now_us, ba_wind_gust_direction_deg := stamp gust_direction now_us,
             ba_air_temperature_c := stamp (ais_scaled_real A air_temperature (AIS_TENTHS_SCALE A)) now_us,
             ba_relative_humidity_pct := stamp humidity now_us,
             ba_dew_point_c := stamp (ais_scaled_real A dew_point (AIS_TENTHS_SCALE A)) now_us,
             ba_air_pressure_hpa := stamp (800 + pressure) now_us, ba_air_pressure_tendency := stamp tendency now_us,
             ba_horizontal_visibility_nmi := stamp (ais_scaled_real A visibility (AIS_TENTHS_SCALE A)) now_us\<rparr>))"

definition met_hydro_water ::
  "('f, 'r, 'c) arith \<Rightarrow> string \<Rightarrow> nat \<Rightarrow> u64 \<Rightarrow> bool \<Rightarrow> ('r, 'c) ais_binary_application \<Rightarrow> bool \<times> ('r, 'c) ais_binary_application" where
  "met_hydro_water A p start now_us ok app =
     (let (level, ok) = ais_get_s p start 12 ok;
          (trend, ok) = ais_get_i p (start + 12) 2 ok;
          (current_speed, ok) = ais_get_i p (start + 14) 8 ok;
          (current_direction, ok) = ais_get_i p (start + 22) 9 ok;
          (wave_height, ok) = ais_get_i p (start + 31) 8 ok;
          (wave_period, ok) = ais_get_i p (start + 39) 6 ok;
          (wave_direction, ok) = ais_get_i p (start + 45) 9 ok;
          (swell_height, ok) = ais_get_i p (start + 54) 8 ok;
          (swell_period, ok) = ais_get_i p (start + 62) 6 ok;
          (swell_direction, ok) = ais_get_i p (start + 68) 9 ok;
          (sea_state, ok) = ais_get_i p (start + 77) 4 ok;
          (water_temperature, ok) = ais_get_s p (start + 81) 10 ok;
          (precipitation, ok) = ais_get_i p (start + 91) 3 ok;
          (salinity, ok) = ais_get_i p (start + 94) 9 ok;
          (ice, ok) = ais_get_i p (start + 103) 10 ok
      in (ok, app\<lparr>ba_water_level_m := stamp (ais_scaled_real A level (AIS_CENTIMETERS_SCALE A)) now_us,
             ba_water_level_trend := stamp trend now_us,
             ba_surface_current_speed_kn := stamp (ais_scaled_real A current_speed (AIS_TENTHS_SCALE A)) now_us,
             ba_surface_current_direction_deg := stamp current_direction now_us,
             ba_wave_height_m := stamp (ais_scaled_real A wave_height (AIS_TENTHS_SCALE A)) now_us,
             ba_wave_period_s := stamp wave_period now_us, ba_wave_direction_deg := stamp wave_direction now_us,
             ba_swell_height_m := stamp (ais_scaled_real A swell_height (AIS_TENTHS_SCALE A)) now_us,
             ba_swell_period_s := stamp swell_period now_us, ba_swell_direction_deg := stamp swell_direction now_us,
             ba_sea_state := stamp sea_state now_us,
             ba_water_temperature_c := stamp (ais_scaled_real A water_temperature (AIS_TENTHS_SCALE A)) now_us,
             ba_precipitation_type := stamp precipitation now_us,
             ba_salinity_ppt := stamp (ais_scaled_real A salinity (AIS_TENTHS_SCALE A)) now_us,
             ba_ice_mm := stamp ice now_us\<rparr>))"

definition ais_decode_met_hydro_fields ::
  "('f, 'r, 'c) arith \<Rightarrow> string \<Rightarrow> nat \<Rightarrow> int \<Rightarrow> u64 \<Rightarrow> ('r, 'c) ais_binary_application \<Rightarrow> bool \<Rightarrow> int \<Rightarrow>
   ('r, 'c) ais_binary_application \<times> bool \<times> int" where
  "ais_decode_met_hydro_fields A p payload_start remaining_bits now_us app ok decoded =
     (if remaining_bits < 65 then (app, ok, decoded)
      else
       (let (lon_raw, ok) = ais_get_s p payload_start 25 ok;
            (lat_raw, ok) = ais_get_s p (payload_start + 25) 24 ok;
            lon = (if ok then ais_app_position_deg A lon_raw True else None);
            lat = (if ok then ais_app_position_deg A lat_raw False else None);
            decoded = decoded + of_bool (lon \<noteq> None) + of_bool (lat \<noteq> None);
            (day, ok) = ais_get_i p (payload_start + 49) 5 ok;
            (hour, ok) = ais_get_i p (payload_start + 54) 5 ok;
            (minute, ok) = ais_get_i p (payload_start + 59) 6 ok;
            app = app\<lparr>ba_longitude_deg := stamp_some lon now_us (ba_longitude_deg app),
                      ba_latitude_deg := stamp_some lat now_us (ba_latitude_deg app),
                      ba_day := stamp day now_us, ba_hour := stamp hour now_us, ba_minute := stamp minute now_us\<rparr>;
            decoded = (if ok then decoded + 3 else decoded)
        in if remaining_bits < 255 then (app, ok, decoded)
           else (let (ok, app) = met_hydro_air A p (payload_start + 65) now_us ok app;
                     (ok, app) = met_hydro_water A p (payload_start + 144) now_us ok app
                 in (app, ok, if ok then decoded + 25 else decoded))))"

definition cargo_fields :: "string \<Rightarrow> nat \<Rightarrow> u64 \<Rightarrow> ('r, 'c) ais_binary_application \<Rightarrow> ('r, 'c) ais_binary_application \<times> int" where
  "cargo_fields p start now_us app =
     (let (code, ok) = ais_get_i p start 8 True;
          (subcode, ok) = ais_get_i p (start + 8) 8 ok;
          (amount, ok) = ais_get_i p (start + 16) 10 ok;
          (unit, ok) = ais_get_i p (start + 26) 4 ok
      in (app\<lparr>ba_cargo_code := stamp code now_us, ba_cargo_subcode := stamp subcode now_us,
              ba_cargo_amount := stamp amount now_us, ba_cargo_unit := stamp unit now_us\<rparr>, if ok then 4 else 0))"

definition area_notice_fields ::
  "('f, 'r, 'c) arith \<Rightarrow> string \<Rightarrow> nat \<Rightarrow> int \<Rightarrow> u64 \<Rightarrow> ('r, 'c) ais_binary_application \<Rightarrow> ('r, 'c) ais_binary_application \<times> int" where
  "area_notice_fields A p start remaining_bits now_us app =
     (let (link, ok) = ais_get_i p start 10 True;
          (notice, ok) = ais_get_i p (start + 10) 7 ok;
          (month, ok) = ais_get_i p (start + 17) 4 ok;
          (day, ok) = ais_get_i p (start + 21) 5 ok;
          (hour, ok) = ais_get_i p (start + 26) 5 ok;
          (minute, ok) = ais_get_i p (start + 31) 6 ok;
          (duration, ok) = ais_get_i p (start + 37) 18 ok;
          app = app\<lparr>ba_link_id := stamp link now_us, ba_notice_type := stamp notice now_us, ba_month := stamp month now_us,
                    ba_day := stamp day now_us, ba_hour := stamp hour now_us, ba_minute := stamp minute now_us,
                    ba_duration_min := stamp duration now_us\<rparr>;
          decoded = (if ok then 7 else 0)
      in if ok
         then (let (app, ok, decoded) = ais_decode_area_notice_subareas A p (start + 55) (remaining_bits - 55) now_us app ok decoded
               in (app, decoded))
         else (app, decoded))"

definition ais_decode_binary_application_fields ::
  "('f, 'r, 'c) arith \<Rightarrow> string \<Rightarrow> nat \<Rightarrow> int \<Rightarrow> int \<Rightarrow> int \<Rightarrow> u64 \<Rightarrow> ('r, 'c) ais_binary_application \<Rightarrow> ('r, 'c) ais_binary_application" where
  "ais_decode_binary_application_fields A p payload_start remaining_bits dac fi now_us app =
     (if remaining_bits \<le> 0 then app\<lparr>ba_decoded_field_count := stamp 0 now_us\<rparr>
      else
       (let application_id = ais_binary_application_id dac fi;
            (app, decoded) =
              (if application_id = AppDangerousCargo \<and> 30 \<le> remaining_bits then cargo_fields p payload_start now_us app
               else if application_id = AppPersonsOnBoard \<and> 13 \<le> remaining_bits
               then (let (quantity, ok) = ais_get_i p payload_start 13 True
                     in (app\<lparr>ba_quantity := stamp quantity now_us\<rparr>, if ok then 1 else 0))
               else if application_id = AppVtsText \<and> 6 \<le> remaining_bits
               then (let chars = u8_count (nat remaining_bits div 6);
                         app = app\<lparr>ba_text := ais_copy_text 96 p payload_start (if 90 < chars then 90 else chars) (ba_text app)\<rparr>
                     in (app, if ba_text app \<noteq> [] then 1 else 0))
               else if application_id = AppAreaNotice \<and> 55 \<le> remaining_bits
               then area_notice_fields A p payload_start remaining_bits now_us app
               else if application_id = AppMetHydro
               then (let (app, ok, decoded) = ais_decode_met_hydro_fields A p payload_start remaining_bits now_us app True 0 in (app, decoded))
               else (app, 0))
        in app\<lparr>ba_decoded_field_count := stamp decoded now_us\<rparr>))"

text \<open>
  Where the application data of a binary message begin, with the flags and the application code in
  front of them; nothing when the message is of another type, too short or not structured.
\<close>

definition binary_layout :: "string \<Rightarrow> int \<Rightarrow> ais_message_type \<Rightarrow> (bool \<times> bool \<times> int \<times> int \<times> nat) option" where
  "binary_layout p fill_bits ty =
     (if ty = AIS_BINARY_ADDRESSED
      then if \<not> ais_enough_bits (length p) fill_bits 88 then None
           else (let (dac, ok) = ais_get_i p 72 10 True; (fi, ok) = ais_get_i p 82 6 ok
                 in if ok then Some (True, True, dac, fi, 88) else None)
      else if ty = AIS_BINARY_BROADCAST
      then if \<not> ais_enough_bits (length p) fill_bits 56 then None
           else (let (dac, ok) = ais_get_i p 40 10 True; (fi, ok) = ais_get_i p 50 6 ok
                 in if ok then Some (False, True, dac, fi, 56) else None)
      else if ty = AIS_SINGLE_SLOT_BINARY \<or> ty = AIS_MULTI_SLOT_BINARY
      then if \<not> ais_enough_bits (length p) fill_bits 40 then None
           else (let (addressed, ok) = ais_get_b p 38 True;
                     (structured, ok) = ais_get_b p 39 ok;
                     start = (if addressed then 70 else 40)
                 in if \<not> structured \<or> \<not> ais_enough_bits (length p) fill_bits (start + 16) then None
                    else (let (dac, ok) = ais_get_i p start 10 ok; (fi, ok) = ais_get_i p (start + 10) 6 ok
                          in if ok then Some (addressed, structured, dac, fi, if ty = AIS_MULTI_SLOT_BINARY then start + 36 else start + 16)
                             else None))
      else None)"

definition ais_update_binary_application ::
  "('f, 'r :: zero, 'c :: zero) arith \<Rightarrow> string \<Rightarrow> int \<Rightarrow> ais_decoded_header \<Rightarrow> u64 \<Rightarrow> sensor_source \<Rightarrow> ('r, 'c) ais_data \<Rightarrow> ('r, 'c) ais_data" where
  "ais_update_binary_application A p fill_bits header now_us source d =
     (case binary_layout p fill_bits (dh_message_type header) of
        None \<Rightarrow> d
      | Some (addressed, structured, dac, fi, payload_start) \<Rightarrow>
          (let usable_bits = length p * 6 - nat fill_bits;
               remaining = (if payload_start < usable_bits then int (usable_bits - payload_start) else 0);
               first_bits = (if 32 \<le> remaining then 32 else nat remaining);
               app = (ais_set_header_record header now_us source ais_binary_application_init)
                 \<lparr>ba_dac := stamp dac now_us, ba_function_id := stamp fi now_us, ba_addressed := addressed,
                  ba_structured := structured, ba_payload_start_bit := stamp (int payload_start) now_us,
                  ba_payload_bit_count := stamp remaining now_us\<rparr>;
               app = (if 0 < first_bits then app\<lparr>ba_first_payload_bits := stamp (fst (ais_get_i p payload_start first_bits True)) now_us\<rparr> else app);
               label = ais_binary_application_label dac fi;
               app = app\<lparr>ba_application_label := nmea_copy_cstr 32 label (ba_application_label app),
                         ba_known_application := label \<noteq> ''unknown''\<rparr>;
               app = ais_decode_binary_application_fields A p payload_start remaining dac fi now_us app
           in d\<lparr>ad_binary_application := app\<lparr>ba_last_update_us := now_us\<rparr>\<rparr>))"

section \<open>DGNSS corrections\<close>

definition prefix_byte :: "string \<Rightarrow> nat \<Rightarrow> nat \<Rightarrow> bool \<Rightarrow> u8 \<times> bool" where
  "prefix_byte p bit_offset bits ok =
     (let (w, ok) = ais_get_u p bit_offset bits ok;
          v = (ucast w :: u8)
      in (if bits < 8 then push_bit (8 - bits) v else v, ok))"

fun prefix_loop :: "string \<Rightarrow> nat \<Rightarrow> int \<Rightarrow> nat \<Rightarrow> nat \<Rightarrow> bool \<Rightarrow> u8 list \<Rightarrow> u8 list" where
  "prefix_loop p bit_offset bit_count i 0 ok prefix = prefix"
| "prefix_loop p bit_offset bit_count i (Suc n) ok prefix =
     (let bits_left = bit_count - int i * 8;
          (v, ok) = prefix_byte p (bit_offset + i * 8) (if 8 \<le> bits_left then 8 else nat bits_left) ok
      in prefix_loop p bit_offset bit_count (i + 1) n ok (prefix[i := if ok then v else 0]))"

definition ais_copy_payload_prefix_bytes ::
  "string \<Rightarrow> nat \<Rightarrow> int \<Rightarrow> u64 \<Rightarrow> 'c ais_dgnss_broadcast \<Rightarrow> 'c ais_dgnss_broadcast" where
  "ais_copy_payload_prefix_bytes p bit_offset bit_count now_us dgnss =
     (let dgnss = dgnss\<lparr>dg_payload_prefix := replicate 32 0\<rparr> in
      if bit_count \<le> 0 then dgnss\<lparr>dg_payload_prefix_byte_count := stamp 0 now_us, dg_payload_truncated := False\<rparr>
      else (let byte_count = (bit_count + 7) div 8;
                n = (if 32 < byte_count then 32 else nat byte_count)
            in dgnss\<lparr>dg_payload_prefix := prefix_loop p bit_offset bit_count 0 n True (dg_payload_prefix dgnss),
                     dg_payload_prefix_byte_count := stamp (int n) now_us, dg_payload_truncated := 32 < byte_count\<rparr>))"

definition ais_update_dgnss_payload_summary ::
  "string \<Rightarrow> int \<Rightarrow> ais_decoded_header \<Rightarrow> u64 \<Rightarrow> ('r, 'c) ais_data \<Rightarrow> ('r, 'c) ais_data" where
  "ais_update_dgnss_payload_summary p fill_bits header now_us d =
     (if dh_message_type header \<noteq> AIS_DGNSS_BROADCAST \<or> \<not> ais_enough_bits (length p) fill_bits 80 then d
      else (let usable_bits = length p * 6 - nat fill_bits;
                remaining = (if 80 < usable_bits then int (usable_bits - 80) else 0);
                first_bits = (if 32 \<le> remaining then 32 else nat remaining);
                dgnss = (ad_dgnss_broadcast d)\<lparr>dg_payload_start_bit := stamp 80 now_us, dg_payload_bit_count := stamp remaining now_us,
                          dg_payload_byte_count := stamp ((remaining + 7) div 8) now_us\<rparr>;
                dgnss = (if 0 < first_bits then dgnss\<lparr>dg_first_payload_bits := stamp (fst (ais_get_i p 80 first_bits True)) now_us\<rparr> else dgnss);
                dgnss = ais_copy_payload_prefix_bytes p 80 remaining now_us dgnss
            in d\<lparr>ad_dgnss_broadcast := dgnss\<lparr>dg_last_update_us := now_us\<rparr>\<rparr>))"

section \<open>Extra fields\<close>

definition standard_class_b_flags :: "string \<Rightarrow> u64 \<Rightarrow> ('r, 'c) ais_position_report \<Rightarrow> ('r, 'c) ais_position_report" where
  "standard_class_b_flags p now_us pos =
     (let (cs_unit, ok) = ais_get_b p 141 True;
          (display, ok) = ais_get_b p 142 ok;
          (dsc, ok) = ais_get_b p 143 ok;
          (band, ok) = ais_get_b p 144 ok;
          (message_22, ok) = ais_get_b p 145 ok;
          (assigned, ok) = ais_get_b p 146 ok;
          (raim, ok) = ais_get_b p 147 ok;
          (radio, ok) = ais_get_i p 149 19 ok
      in pos\<lparr>pr_cs_unit := cs_unit, pr_display := display, pr_dsc := dsc, pr_band := band, pr_accepts_message_22 := message_22,
             pr_assigned_mode := assigned, pr_raim := raim, pr_radio_status := stamp radio now_us\<rparr>)"

definition extended_class_b_fields :: "string \<Rightarrow> u64 \<Rightarrow> ('r, 'c) ais_data \<Rightarrow> ('r, 'c) ais_data" where
  "extended_class_b_fields p now_us d =
     (let (ship_type, ok) = ais_get_i p 263 8 True;
          (bow, ok) = ais_get_i p 271 9 ok;
          (stern, ok) = ais_get_i p 280 9 ok;
          (port, ok) = ais_get_i p 289 6 ok;
          (starboard, ok) = ais_get_i p 295 6 ok;
          (epfd, ok) = ais_get_i p 301 4 ok;
          (dte_not_ready, ok) = ais_get_b p 305 ok;
          (assigned, ok) = ais_get_b p 306 ok
      in if \<not> ok then d
         else d\<lparr>ad_class_b_static := (ad_class_b_static d)
                  \<lparr>cb_ship_type := stamp ship_type now_us, cb_dimension_to_bow_m := stamp bow now_us,
                   cb_dimension_to_stern_m := stamp stern now_us, cb_dimension_to_port_m := stamp port now_us,
                   cb_dimension_to_starboard_m := stamp starboard now_us, cb_epfd_type := stamp (ais_epfd_type_from_int epfd) now_us,
                   cb_dte_ready := \<not> dte_not_ready, cb_assigned_mode := assigned\<rparr>,
                ad_class_b_position_report := (ad_class_b_position_report d)
                  \<lparr>pr_dte_ready := \<not> dte_not_ready, pr_assigned_mode := assigned\<rparr>\<rparr>)"

definition ais_update_class_b_enhancements ::
  "string \<Rightarrow> int \<Rightarrow> ais_decoded_header \<Rightarrow> u64 \<Rightarrow> ('r, 'c) ais_data \<Rightarrow> ('r, 'c) ais_data" where
  "ais_update_class_b_enhancements p fill_bits header now_us d =
     (let ty = dh_message_type header in
      if \<not> is_class_b_position ty then d
      else if ty = AIS_STANDARD_CLASS_B \<and> ais_enough_bits (length p) fill_bits 168
      then d\<lparr>ad_class_b_position_report := standard_class_b_flags p now_us (ad_class_b_position_report d)\<rparr>
      else if ty = AIS_EXTENDED_CLASS_B \<and> ais_enough_bits (length p) fill_bits 312 then extended_class_b_fields p now_us d
      else d)"

definition ais_reset_type24_merge_if_new_mmsi :: "int \<Rightarrow> ('r, 'c) ais_data \<Rightarrow> ('r, 'c) ais_data" where
  "ais_reset_type24_merge_if_new_mmsi mmsi d =
     (let st = ad_class_b_static d in
      if sd_valid (cb_merge_mmsi st) \<and> sd_value (cb_merge_mmsi st) \<noteq> mmsi then d\<lparr>ad_class_b_static := ais_class_b_static_init\<rparr> else d)"

definition static_merged :: "int \<Rightarrow> int \<Rightarrow> u64 \<Rightarrow> ais_class_b_static \<Rightarrow> ais_class_b_static" where
  "static_merged part mmsi now_us st =
     (let st = st\<lparr>cb_merge_mmsi := stamp_if (\<not> sd_valid (cb_merge_mmsi st)) mmsi now_us (cb_merge_mmsi st)\<rparr>;
          st = (if part = 0 then st\<lparr>cb_part_a_received := True, cb_part_a_update_us := now_us\<rparr>
                else if part = 1 then st\<lparr>cb_part_b_received := True, cb_part_b_update_us := now_us\<rparr>
                else st)
      in st\<lparr>cb_complete := cb_part_a_received st \<and> cb_part_b_received st\<rparr>)"

definition ais_update_type24_merge_state ::
  "string \<Rightarrow> int \<Rightarrow> ais_decoded_header \<Rightarrow> u64 \<Rightarrow> ('r, 'c) ais_data \<Rightarrow> ('r, 'c) ais_data" where
  "ais_update_type24_merge_state p fill_bits header now_us d =
     (if dh_message_type header \<noteq> AIS_STATIC_DATA_REPORT \<or> \<not> ais_enough_bits (length p) fill_bits 40 then d
      else (let (part, ok) = ais_get_i p 38 2 True
            in if \<not> ok then d
               else d\<lparr>ad_class_b_static := static_merged (ais_static_data_part_from_int part) (dh_mmsi header) now_us (ad_class_b_static d)\<rparr>))"

definition ais_update_aton_extension ::
  "string \<Rightarrow> int \<Rightarrow> ais_decoded_header \<Rightarrow> u64 \<Rightarrow> ('r, 'c) ais_data \<Rightarrow> ('r, 'c) ais_data" where
  "ais_update_aton_extension p fill_bits header now_us d =
     (if dh_message_type header \<noteq> AIS_AID_TO_NAVIGATION \<or> \<not> ais_enough_bits (length p) fill_bits 272 then d
      else
       (let usable_bits = length p * 6 - nat fill_bits;
            extension_bits = (if 272 < usable_bits then usable_bits - 272 else 0);
            aton = (ad_aid_to_navigation d)\<lparr>an_name_extension_available := False, an_name_extension_valid := False,
                      an_name_extension_truncated := False, an_name_extension_char_count := stamp 0 now_us, an_name_extension := []\<rparr>;
            raw_chars = u8_count (extension_bits div 6);
            chars = (if 14 < raw_chars then 14 else raw_chars);
            name = ais_copy_text 16 p 272 chars (an_name_extension aton)
        in d\<lparr>ad_aid_to_navigation :=
               (if extension_bits < 6 then aton\<lparr>an_last_update_us := now_us\<rparr>
                else aton\<lparr>an_name_extension_truncated := 14 < raw_chars, an_name_extension := name,
                       an_name_extension_char_count := stamp (int chars) now_us, an_name_extension_available := name \<noteq> [],
                       an_name_extension_valid := extension_bits mod 6 = 0 \<and> 0 < raw_chars, an_last_update_us := now_us\<rparr>)\<rparr>))"

definition ais_update_enhanced_fields ::
  "('f, 'r :: zero, 'c :: zero) arith \<Rightarrow> string \<Rightarrow> int \<Rightarrow> ais_decoded_header \<Rightarrow> u64 \<Rightarrow> sensor_source \<Rightarrow> ('r, 'c) ais_data \<Rightarrow> ('r, 'c) ais_data" where
  "ais_update_enhanced_fields A p fill_bits header now_us source d =
     ais_update_binary_application A p fill_bits header now_us source
       (ais_update_aton_extension p fill_bits header now_us
         (ais_update_type24_merge_state p fill_bits header now_us
           (ais_update_class_b_enhancements p fill_bits header now_us d)))"

definition ais_update_control_enhanced_fields ::
  "string \<Rightarrow> int \<Rightarrow> ais_decoded_header \<Rightarrow> u64 \<Rightarrow> ('r, 'c) ais_data \<Rightarrow> ('r, 'c) ais_data" where
  "ais_update_control_enhanced_fields = ais_update_dgnss_payload_summary"

section \<open>The own vessel\<close>

definition ais_set_own_vessel_header ::
  "ais_decoded_header \<Rightarrow> u64 \<Rightarrow> sensor_source \<Rightarrow> ('r, 'c) ais_own_vessel \<Rightarrow> ('r, 'c) ais_own_vessel" where
  "ais_set_own_vessel_header header now_us source own =
     own\<lparr>ah_source := source_of source (ah_source own), ah_message_type := stamp (dh_message_type header) now_us,
         ah_repeat_indicator := stamp (dh_repeat_indicator header) now_us, ah_mmsi := stamp (dh_mmsi header) now_us,
         ov_first_seen_us := (if ov_valid own then ov_first_seen_us own else now_us), ov_valid := True, ov_last_seen_us := now_us\<rparr>"

definition ais_copy_own_position_from_position_report ::
  "('r, 'c) ais_position_report \<Rightarrow> bool \<Rightarrow> u64 \<Rightarrow> ('r, 'c) ais_own_vessel \<Rightarrow> ('r, 'c) ais_own_vessel" where
  "ais_copy_own_position_from_position_report pos class_b now_us own =
     own\<lparr>ov_navigation_status := carry (pr_navigation_status pos) now_us (ov_navigation_status own),
         ov_latitude_deg := carry (pr_latitude_deg pos) now_us (ov_latitude_deg own),
         ov_longitude_deg := carry (pr_longitude_deg pos) now_us (ov_longitude_deg own),
         ov_speed_over_ground_kn := carry (pr_speed_over_ground_kn pos) now_us (ov_speed_over_ground_kn own),
         ov_course_over_ground_deg := carry (pr_course_over_ground_deg pos) now_us (ov_course_over_ground_deg own),
         ov_true_heading_deg := carry (pr_true_heading_deg pos) now_us (ov_true_heading_deg own),
         ov_timestamp_s := carry (pr_timestamp_s pos) now_us (ov_timestamp_s own),
         ov_position_accuracy := pr_position_accuracy pos, ov_raim := pr_raim pos, ov_class_b := class_b,
         ov_last_position_update_us := now_us\<rparr>"

definition ais_copy_own_position_from_sar ::
  "('r, 'c) ais_sar_aircraft \<Rightarrow> u64 \<Rightarrow> ('r, 'c) ais_own_vessel \<Rightarrow> ('r, 'c) ais_own_vessel" where
  "ais_copy_own_position_from_sar sar now_us own =
     own\<lparr>ov_latitude_deg := carry (sa_latitude_deg sar) now_us (ov_latitude_deg own),
         ov_longitude_deg := carry (sa_longitude_deg sar) now_us (ov_longitude_deg own),
         ov_speed_over_ground_kn := carry (sa_speed_over_ground_kn sar) now_us (ov_speed_over_ground_kn own),
         ov_course_over_ground_deg := carry (sa_course_over_ground_deg sar) now_us (ov_course_over_ground_deg own),
         ov_timestamp_s := carry (sa_timestamp_s sar) now_us (ov_timestamp_s own),
         ov_position_accuracy := sa_position_accuracy sar, ov_raim := sa_raim sar, ov_sar_aircraft := True,
         ov_last_position_update_us := now_us\<rparr>"

definition ais_copy_own_position_from_base_station ::
  "'c ais_base_station \<Rightarrow> u64 \<Rightarrow> ('r, 'c) ais_own_vessel \<Rightarrow> ('r, 'c) ais_own_vessel" where
  "ais_copy_own_position_from_base_station st now_us own =
     own\<lparr>ov_latitude_deg := carry (bs_latitude_deg st) now_us (ov_latitude_deg own),
         ov_longitude_deg := carry (bs_longitude_deg st) now_us (ov_longitude_deg own),
         ov_position_accuracy := bs_position_accuracy st, ov_raim := bs_raim st, ov_base_station := True,
         ov_last_position_update_us := now_us\<rparr>"

definition ais_copy_own_position_from_aton ::
  "'c ais_aid_to_navigation \<Rightarrow> u64 \<Rightarrow> ('r, 'c) ais_own_vessel \<Rightarrow> ('r, 'c) ais_own_vessel" where
  "ais_copy_own_position_from_aton aton now_us own =
     own\<lparr>ov_latitude_deg := carry (an_latitude_deg aton) now_us (ov_latitude_deg own),
         ov_longitude_deg := carry (an_longitude_deg aton) now_us (ov_longitude_deg own),
         ov_timestamp_s := carry (an_timestamp_s aton) now_us (ov_timestamp_s own),
         ov_position_accuracy := an_position_accuracy aton, ov_raim := an_raim aton, ov_aid_to_navigation := True,
         ov_last_position_update_us := now_us\<rparr>"

definition ais_copy_own_position_from_long_range ::
  "('r, 'c) ais_long_range \<Rightarrow> u64 \<Rightarrow> ('r, 'c) ais_own_vessel \<Rightarrow> ('r, 'c) ais_own_vessel" where
  "ais_copy_own_position_from_long_range lr now_us own =
     own\<lparr>ov_navigation_status := carry (lr_navigation_status lr) now_us (ov_navigation_status own),
         ov_latitude_deg := carry (lr_latitude_deg lr) now_us (ov_latitude_deg own),
         ov_longitude_deg := carry (lr_longitude_deg lr) now_us (ov_longitude_deg own),
         ov_speed_over_ground_kn := carry (lr_speed_over_ground_kn lr) now_us (ov_speed_over_ground_kn own),
         ov_course_over_ground_deg := carry (lr_course_over_ground_deg lr) now_us (ov_course_over_ground_deg own),
         ov_position_accuracy := lr_position_accuracy lr, ov_raim := lr_raim lr, ov_last_position_update_us := now_us\<rparr>"

definition ais_copy_own_static_from_voyage ::
  "'r ais_static_voyage \<Rightarrow> u64 \<Rightarrow> ('r, 'c) ais_own_vessel \<Rightarrow> ('r, 'c) ais_own_vessel" where
  "ais_copy_own_static_from_voyage st now_us own =
     own\<lparr>ov_ship_type := carry (sv_ship_type st) now_us (ov_ship_type own),
         ov_imo_number := carry (sv_imo_number st) now_us (ov_imo_number own),
         ov_vessel_name := nmea_copy_cstr 24 (sv_vessel_name st) (ov_vessel_name own),
         ov_call_sign := nmea_copy_cstr 8 (sv_call_sign st) (ov_call_sign own),
         ov_destination := nmea_copy_cstr 24 (sv_destination st) (ov_destination own),
         ov_last_static_update_us := now_us\<rparr>"

definition ais_copy_own_static_from_class_b ::
  "ais_class_b_static \<Rightarrow> u64 \<Rightarrow> ('r, 'c) ais_own_vessel \<Rightarrow> ('r, 'c) ais_own_vessel" where
  "ais_copy_own_static_from_class_b st now_us own =
     own\<lparr>ov_ship_type := carry (cb_ship_type st) now_us (ov_ship_type own),
         ov_vessel_name := (if cb_vessel_name st \<noteq> [] then nmea_copy_cstr 24 (cb_vessel_name st) (ov_vessel_name own) else ov_vessel_name own),
         ov_call_sign := (if cb_call_sign st \<noteq> [] then nmea_copy_cstr 8 (cb_call_sign st) (ov_call_sign own) else ov_call_sign own),
         ov_class_b := True, ov_last_static_update_us := now_us\<rparr>"

definition ais_copy_own_static_from_aton ::
  "'c ais_aid_to_navigation \<Rightarrow> u64 \<Rightarrow> ('r, 'c) ais_own_vessel \<Rightarrow> ('r, 'c) ais_own_vessel" where
  "ais_copy_own_static_from_aton aton now_us own =
     own\<lparr>ov_aid_type := carry (an_aid_type aton) now_us (ov_aid_type own),
         ov_vessel_name := (if an_name aton \<noteq> [] then nmea_copy_cstr 24 (an_name aton) (ov_vessel_name own) else ov_vessel_name own),
         ov_aid_to_navigation := True, ov_last_static_update_us := now_us\<rparr>"

definition ais_update_own_vessel_from_latest ::
  "ais_decoded_header \<Rightarrow> u64 \<Rightarrow> sensor_source \<Rightarrow> ('r, 'c) ais_data \<Rightarrow> ('r, 'c) ais_data" where
  "ais_update_own_vessel_from_latest header now_us source d =
     (let own = ais_set_own_vessel_header header now_us source (ad_own_vessel d);
          ty = dh_message_type header;
          own =
            (if is_class_a_position ty then ais_copy_own_position_from_position_report (ad_position_report d) False now_us own
             else if ty = AIS_BASE_STATION_REPORT \<or> ty = AIS_UTC_RESPONSE then ais_copy_own_position_from_base_station (ad_base_station d) now_us own
             else if ty = AIS_STATIC_AND_VOYAGE then ais_copy_own_static_from_voyage (ad_static_voyage d) now_us own
             else if ty = AIS_SAR_AIRCRAFT then ais_copy_own_position_from_sar (ad_sar_aircraft_position d) now_us own
             else if is_class_b_position ty
             then (let own = ais_copy_own_position_from_position_report (ad_class_b_position_report d) True now_us own
                   in if ty = AIS_EXTENDED_CLASS_B then ais_copy_own_static_from_class_b (ad_class_b_static d) now_us own else own)
             else if ty = AIS_AID_TO_NAVIGATION
             then ais_copy_own_static_from_aton (ad_aid_to_navigation d) now_us (ais_copy_own_position_from_aton (ad_aid_to_navigation d) now_us own)
             else if ty = AIS_STATIC_DATA_REPORT then ais_copy_own_static_from_class_b (ad_class_b_static d) now_us own
             else if ty = AIS_LONG_RANGE then ais_copy_own_position_from_long_range (ad_long_range_broadcast d) now_us own
             else own)
      in d\<lparr>ad_own_vessel := own\<rparr>)"

text \<open>
  One sentence after the payload has been found: \<open>header\<close> is its decoded header, when there is a
  payload with one. The extra fields are only read when the message was accepted.
\<close>

definition decode_into ::
  "('f, 'r :: zero, 'c :: zero) arith \<Rightarrow> nmea_sentence \<Rightarrow> multipart_record \<Rightarrow> u64 \<Rightarrow> sensor_source \<Rightarrow> (string \<times> ais_decoded_header) option \<Rightarrow> int \<Rightarrow>
   ('r, 'c) ais_data \<Rightarrow> ais_error option \<times> ('r, 'c) ais_data" where
  "decode_into A s message now_us source found fill_bits d =
     (let control = (case found of None \<Rightarrow> False | Some (p, header) \<Rightarrow> ais_control_message_type (dh_message_type header));
          (e, d) = (if control then apply_ais_control_vdm_vdo A s message now_us source d else apply_ais_vdm_vdo A s message now_us source d)
      in case e of
           Some e \<Rightarrow> (Some e, d)
         | None \<Rightarrow>
            (None, case found of
               None \<Rightarrow> d
             | Some (p, header) \<Rightarrow>
                 if control then ais_update_control_enhanced_fields p fill_bits header now_us d
                 else ais_update_enhanced_fields A p fill_bits header now_us source d))"

definition merge_reset :: "(string \<times> ais_decoded_header) option \<Rightarrow> ('r, 'c) ais_data \<Rightarrow> ('r, 'c) ais_data" where
  "merge_reset found d =
     (case found of
        Some (p, header) \<Rightarrow>
          if dh_message_type header = AIS_STATIC_DATA_REPORT then ais_reset_type24_merge_if_new_mmsi (dh_mmsi header) d else d
      | None \<Rightarrow> d)"

definition found_header :: "string option \<Rightarrow> (string \<times> ais_decoded_header) option" where
  "found_header payload =
     (case payload of None \<Rightarrow> None
      | Some p \<Rightarrow> (let (ok, header) = ais_decode_header p in if ok then Some (p, header) else None))"

text \<open>\<open>capacity\<close> is \<^verbatim>\<open>AIS_TARGET_TABLE_CAPACITY\<close>, the size of the table in the scratch model.\<close>

definition apply_ais_vdm_vdo_with_own_vessel ::
  "('f, 'r :: zero, 'c :: zero) arith \<Rightarrow> nat \<Rightarrow> nmea_sentence \<Rightarrow> multipart_record \<Rightarrow> u64 \<Rightarrow> sensor_source \<Rightarrow>
   ('r, 'c) ais_data \<Rightarrow> ais_error option \<times> ('r, 'c) ais_data" where
  "apply_ais_vdm_vdo_with_own_vessel A capacity s message now_us source d =
     (case ais_control_payload_from_sentence s message of
        Inl e \<Rightarrow> (Some e, d)
      | Inr (payload, fill_bits) \<Rightarrow>
          (let found = found_header payload in
           if sentence_is s ''VDO''
           then (let (e, scratch) = decode_into A s message now_us source found fill_bits (merge_reset found (ais_data_init capacity))
                 in case e of
                      Some e \<Rightarrow> (Some e, d)
                    | None \<Rightarrow>
                       (None, case found of
                          None \<Rightarrow> d
                        | Some (p, header) \<Rightarrow>
                            d\<lparr>ad_own_vessel := ad_own_vessel (ais_update_own_vessel_from_latest header now_us source scratch)\<rparr>))
           else decode_into A s message now_us source found fill_bits (merge_reset found d)))"

section \<open>What the decoder leaves alone\<close>

lemma merge_reset_frame [simp]:
  "ad_targets (merge_reset found d) = ad_targets d" "ad_own_vessel (merge_reset found d) = ad_own_vessel d"
  by (simp_all add: merge_reset_def ais_reset_type24_merge_if_new_mmsi_def Let_def split: option.split prod.split)

lemma enhancements_frame:
  "ad_targets (ais_update_class_b_enhancements p fill header now d) = ad_targets d"
  "ad_own_vessel (ais_update_class_b_enhancements p fill header now d) = ad_own_vessel d"
  "ad_targets (ais_update_type24_merge_state p fill header now d) = ad_targets d"
  "ad_own_vessel (ais_update_type24_merge_state p fill header now d) = ad_own_vessel d"
  "ad_targets (ais_update_aton_extension p fill header now d) = ad_targets d"
  "ad_own_vessel (ais_update_aton_extension p fill header now d) = ad_own_vessel d"
  by (simp_all add: ais_update_class_b_enhancements_def extended_class_b_fields_def ais_update_type24_merge_state_def
      ais_update_aton_extension_def parser_simps)

lemma binary_frame:
  "ad_targets (ais_update_binary_application A p fill header now src d) = ad_targets d"
  "ad_own_vessel (ais_update_binary_application A p fill header now src d) = ad_own_vessel d"
  by (simp_all add: ais_update_binary_application_def Let_def split: option.split prod.split)

lemma enhanced_frame [simp]:
  "ad_targets (ais_update_enhanced_fields A p fill header now src d) = ad_targets d"
  "ad_own_vessel (ais_update_enhanced_fields A p fill header now src d) = ad_own_vessel d"
  "ad_targets (ais_update_control_enhanced_fields p fill header now d) = ad_targets d"
  "ad_own_vessel (ais_update_control_enhanced_fields p fill header now d) = ad_own_vessel d"
  by (simp_all add: ais_update_enhanced_fields_def enhancements_frame binary_frame ais_update_control_enhanced_fields_def
      ais_update_dgnss_payload_summary_def Let_def)

text \<open>The message part of a sentence: which of the two decoders runs, and what it returns.\<close>

definition decode_message ::
  "('f, 'r :: zero, 'c :: zero) arith \<Rightarrow> nmea_sentence \<Rightarrow> multipart_record \<Rightarrow> u64 \<Rightarrow> sensor_source \<Rightarrow> (string \<times> ais_decoded_header) option \<Rightarrow>
   ('r, 'c) ais_data \<Rightarrow> ais_error option \<times> ('r, 'c) ais_data" where
  "decode_message A s message now src found d =
     (if (case found of None \<Rightarrow> False | Some (p, header) \<Rightarrow> ais_control_message_type (dh_message_type header))
      then apply_ais_control_vdm_vdo A s message now src d else apply_ais_vdm_vdo A s message now src d)"

lemma decode_into_message:
  "fst (decode_into A s message now src found fill d) = fst (decode_message A s message now src found d)"
  "ad_targets (snd (decode_into A s message now src found fill d)) = ad_targets (snd (decode_message A s message now src found d))"
  "ad_own_vessel (snd (decode_into A s message now src found fill d)) = ad_own_vessel (snd (decode_message A s message now src found d))"
  by (auto simp: decode_into_def decode_message_def Let_def case_prod_beta split: option.split)

lemma decode_message_own: "ad_own_vessel (snd (decode_message A s message now src found d)) = ad_own_vessel d"
proof -
  have "ad_own_vessel (snd (apply_ais_control_vdm_vdo A s message now src d)) = ad_own_vessel d"
    by (cases rule: control_cases [of A s message now src d]) (simp_all add: control_dispatch_own)
  moreover have "ad_own_vessel (snd (apply_ais_vdm_vdo A s message now src d)) = ad_own_vessel d"
    by (cases rule: apply_cases [of A s message now src d]) (simp_all add: dispatch_own)
  ultimately show ?thesis by (simp add: decode_message_def)
qed

lemma decode_message_inv:
  assumes "table_inv (ad_targets d)"
  shows "table_inv (ad_targets (snd (decode_message A s message now src found d)))"
proof -
  have "table_inv (ad_targets (snd (apply_ais_control_vdm_vdo A s message now src d)))"
    by (cases rule: control_cases [of A s message now src d])
      (simp_all add: assms parser_contract_inv [OF control_dispatch_contract [OF assms] assms])
  moreover have "table_inv (ad_targets (snd (apply_ais_vdm_vdo A s message now src d)))"
    by (rule apply_ais_inv [OF assms]) (rule prod.collapse [symmetric])
  ultimately show ?thesis by (simp add: decode_message_def)
qed

lemma decode_message_heard:
  assumes "table_inv (ad_targets d)" "fst (decode_message A s message now src found d) = None"
    and "ais_control_payload_from_sentence s message = Inr (Some p, fill)"
  shows "heard (dh_mmsi (snd (ais_decode_header p))) now (ad_targets d) (ad_targets (snd (decode_message A s message now src found d)))"
proof -
  have "heard (dh_mmsi (snd (ais_decode_header p))) now (ad_targets d) (ad_targets (snd (apply_ais_control_vdm_vdo A s message now src d)))"
    if "fst (apply_ais_control_vdm_vdo A s message now src d) = None"
  proof (cases rule: control_cases [of A s message now src d])
    case Same
    then show ?thesis using that assms(3) by simp
  next
    case (Parsed p' fill' header)
    then show ?thesis
      using control_dispatch_contract [OF assms(1), of header now A p src] that assms(3) by (auto simp: parser_contract_def split: if_splits)
  qed
  moreover have "heard (dh_mmsi (snd (ais_decode_header p))) now (ad_targets d) (ad_targets (snd (apply_ais_vdm_vdo A s message now src d)))"
    if "fst (apply_ais_vdm_vdo A s message now src d) = None"
  proof (cases rule: apply_cases [of A s message now src d])
    case Same
    then show ?thesis using that assms(3) by simp
  next
    case (Parsed p' fill' header ok)
    then show ?thesis
      using dispatch_contract [OF assms(1), of A p header now src] that assms(3) by (auto simp: parser_contract_def split: if_splits)
  qed
  ultimately show ?thesis using assms(2) by (simp add: decode_message_def split: if_splits)
qed

lemma vdm_sentence:
  assumes "\<not> sentence_is s ''VDO''" "ais_control_payload_from_sentence s message = Inr (payload, fill)"
  shows "apply_ais_vdm_vdo_with_own_vessel A capacity s message now src d =
    decode_into A s message now src (found_header payload) fill (merge_reset (found_header payload) d)"
  using assms by (simp add: apply_ais_vdm_vdo_with_own_vessel_def Let_def)

lemma refused_payload:
  "ais_control_payload_from_sentence s message = Inl e \<Longrightarrow>
   apply_ais_vdm_vdo_with_own_vessel A capacity s message now src d = (Some e, d)"
  by (simp add: apply_ais_vdm_vdo_with_own_vessel_def)

lemma vdo_sentence:
  assumes "sentence_is s ''VDO''"
  shows "snd (apply_ais_vdm_vdo_with_own_vessel A capacity s message now src d) = d \<or>
    fst (apply_ais_vdm_vdo_with_own_vessel A capacity s message now src d) = None \<and>
    (\<exists>own. snd (apply_ais_vdm_vdo_with_own_vessel A capacity s message now src d) = d\<lparr>ad_own_vessel := own\<rparr>)"
  using assms by (auto simp: apply_ais_vdm_vdo_with_own_vessel_def Let_def case_prod_beta split: sum.split option.split)

lemma with_own_vessel_inv [sk_inv]:
  assumes "table_inv (ad_targets d)"
  shows "table_inv (ad_targets (snd (apply_ais_vdm_vdo_with_own_vessel A capacity s message now src d)))"
proof (cases "sentence_is s ''VDO''")
  case True
  then show ?thesis using vdo_sentence [of s A capacity message now src d] assms by auto
next
  case False
  then show ?thesis
    by (cases "ais_control_payload_from_sentence s message")
      (auto simp: refused_payload vdm_sentence decode_into_message assms intro!: decode_message_inv)
qed

section \<open>Runs of a receiver\<close>

text \<open>
  The AIS data of a receiver change by sentences, which may be any, and by the operations of the
  application on the table.
\<close>

inductive ais_step :: "('f, 'r :: zero, 'c :: zero) arith \<Rightarrow> nat \<Rightarrow> ('r, 'c) ais_data \<Rightarrow> ('r, 'c) ais_data \<Rightarrow> bool" for A capacity where
  Sentence: "apply_ais_vdm_vdo_with_own_vessel A capacity s message now src d = (r, d') \<Longrightarrow> ais_step A capacity d d'"
| Clear: "ais_step A capacity d (d\<lparr>ad_targets := snd (ais_clear_target mmsi now (ad_targets d))\<rparr>)"
| ClearAll: "ais_step A capacity d (d\<lparr>ad_targets := ais_clear_targets (ad_targets d)\<rparr>)"
| Expire: "ais_step A capacity d (d\<lparr>ad_targets := snd (ais_expire_targets_older_than cutoff now (ad_targets d))\<rparr>)"
| MarkStale: "ais_step A capacity d (d\<lparr>ad_targets := snd (ais_mark_targets_stale_older_than cutoff now (ad_targets d))\<rparr>)"

inductive_cases ais_stepE: "ais_step A capacity d d'"

lemma ais_step_inv [sk_inv]:
  assumes "ais_step A capacity d d'" "table_inv (ad_targets d)"
  shows "table_inv (ad_targets d')"
  using assms
proof (induction rule: ais_step.induct)
  case (Sentence s message now src d r d')
  then show ?case using with_own_vessel_inv [of d A capacity s message now src] by simp
qed (auto simp: sk_inv expire_spec(1))

section \<open>Properties\<close>

text \<open>
  C14: The target table keeps its invariant through every run of sentences, whatever they hold, and of
  the application's own operations (clearing, expiring, marking stale): every used slot has an MMSI,
  no two slots have the same one, and the stored count is the number of used slots. A lookup by MMSI
  is thus unambiguous.
\<close>

theorem ais_table_invariant:
  assumes "0 < n" "(ais_step A n)\<^sup>*\<^sup>* (ais_data_init n) d"
  shows "table_inv (ad_targets d)"
  using assms(2)
proof induction
  case base
  show ?case using assms(1) by (simp add: ais_data_init_def table_init_inv)
next
  case (step d d')
  then show ?case by (metis ais_step_inv)
qed

theorem ais_table_invariant_witness:
  "\<exists>d. ais_step exact 16 (ais_data_init 16) d \<and> table_inv (ad_targets d)"
proof -
  let ?d = "ais_data_init 16 :: (rat, rat) ais_data"
  let ?r = "apply_ais_vdm_vdo_with_own_vessel exact 16 (sample_sentence (sample_report 123456789 0 0)) multipart_init 7 SrcSerial ?d"
  have "ais_step exact 16 ?d (snd ?r)" by (rule ais_step.Sentence [of _ _ _ _ _ _ _ "fst ?r"]) simp
  moreover from this have "table_inv (ad_targets (snd ?r))"
    by (intro ais_table_invariant [of 16 exact]) (simp_all add: r_into_rtranclp)
  ultimately show ?thesis by blast
qed

lemma class_a_payload:
  assumes "class_a_ok m" "carries_payload s (ais_encode (class_a_fields m))"
  shows "ais_control_payload_from_sentence s message = Inr (Some (ais_encode (class_a_fields m)), 0)"
proof -
  have "sum_list (map fst (class_a_fields m)) = 168" by (simp add: class_a_fields_def)
  then show ?thesis using encode_valid [of "class_a_fields m"] by (intro carried_payload [OF assms(2)]) simp_all
qed

lemmas sample_payload = class_a_payload [OF _ sample_carries]

lemma sample_vdm: "\<not> sentence_is (sample_sentence m) ''VDO''"
  by (simp add: sample_sentence_def sentence_clear_def sentence_is_def nmea_span_equals_def)

lemma sample_accepted:
  assumes "class_a_ok m"
  shows "\<exists>d'. apply_ais_vdm_vdo_with_own_vessel A capacity (sample_sentence m) message now src d = (None, d')"
proof -
  have h: "found_header (Some (ais_encode (class_a_fields m))) = Some (ais_encode (class_a_fields m), class_a_sent m)"
    by (simp add: found_header_def class_a_header [OF assms] class_a_sent_def)
  have "\<not> ais_control_message_type (ca_type m)" using assms by (auto simp: class_a_ok_def ais_control_message_type_def)
  then have "fst (apply_ais_vdm_vdo_with_own_vessel A capacity (sample_sentence m) message now src d) = None"
    by (simp add: vdm_sentence [OF sample_vdm sample_payload [OF assms]] h decode_into_message decode_message_def
        class_a_sent_def class_a_apply [OF assms sample_carries])
  then show ?thesis by (metis prod.collapse)
qed

text \<open>
  C20: Every message of another station that is accepted, of whatever type, is recorded under the MMSI
  of its own header and nobody else's: the table then has a target for that MMSI, last seen now,
  every other target is as it was or is not in the table any more, and a target only leaves the
  table to make room for a sender that was not in a full table, when it was the one not heard for
  longest.
\<close>

theorem ais_message_recorded:
  assumes "table_inv (ad_targets d)" "\<not> sentence_is s ''VDO''"
    and "apply_ais_vdm_vdo_with_own_vessel A capacity s message now src d = (None, d')"
    and "ais_control_payload_from_sentence s message = Inr (Some p, fill)"
  shows "heard (dh_mmsi (snd (ais_decode_header p))) now (ad_targets d) (ad_targets d')"
proof -
  let ?d = "merge_reset (found_header (Some p)) d"
  have r: "decode_into A s message now src (found_header (Some p)) fill ?d = (None, d')"
    using vdm_sentence [OF assms(2,4), of A capacity now src d] assms(3) by simp
  then have "fst (decode_message A s message now src (found_header (Some p)) ?d) = None"
    by (metis decode_into_message(1) fst_conv)
  from decode_message_heard [OF _ this assms(4)] assms(1)
  have "heard (dh_mmsi (snd (ais_decode_header p))) now (ad_targets d)
      (ad_targets (snd (decode_into A s message now src (found_header (Some p)) fill ?d)))"
    by (simp add: decode_into_message)
  then show ?thesis by (simp add: r)
qed

theorem ais_message_recorded_witness:
  "\<exists>d'. apply_ais_vdm_vdo_with_own_vessel exact 16 (sample_sentence (sample_report 123456789 0 0)) multipart_init 7 SrcSerial (ais_data_init 16) = (None, d') \<and>
     heard 123456789 7 (ad_targets (ais_data_init 16)) (ad_targets d')"
proof -
  let ?m = "sample_report 123456789 0 0" and ?d = "ais_data_init 16 :: (rat, rat) ais_data"
  have ok: "class_a_ok ?m" by (simp add: sample_report_def class_a_ok_def)
  from sample_accepted [OF ok, of exact 16 multipart_init 7 SrcSerial ?d] obtain d' where
    "apply_ais_vdm_vdo_with_own_vessel exact 16 (sample_sentence ?m) multipart_init 7 SrcSerial ?d = (None, d')" by blast
  with ais_message_recorded [OF sample_init sample_vdm this sample_payload [OF ok]] class_a_header [OF ok] show ?thesis
    by (auto simp: sample_report_def)
qed

text \<open>
  C21: The own vessel and the other stations are kept apart. A sentence of the own vessel changes
  nothing but the own vessel's record, so that it never shows up as a target, and nothing at all when
  it is refused. A sentence of another station never changes the own vessel's record, and one whose
  payload is refused changes nothing.
\<close>

theorem ais_own_vessel_separate:
  assumes "apply_ais_vdm_vdo_with_own_vessel A capacity s message now src d = (r, d')"
  shows "(sentence_is s ''VDO'' \<longrightarrow> d' = d\<lparr>ad_own_vessel := ad_own_vessel d'\<rparr> \<and> (r \<noteq> None \<longrightarrow> d' = d)) \<and>
    (\<not> sentence_is s ''VDO'' \<longrightarrow> ad_own_vessel d' = ad_own_vessel d) \<and>
    (ais_control_payload_from_sentence s message = Inl e \<longrightarrow> r = Some e \<and> d' = d)"
proof (intro conjI impI)
  assume "sentence_is s ''VDO''"
  from vdo_sentence [OF this, of A capacity message now src d] assms
  show "d' = d\<lparr>ad_own_vessel := ad_own_vessel d'\<rparr>" "r \<noteq> None \<Longrightarrow> d' = d" by auto
next
  assume vdm: "\<not> sentence_is s ''VDO''"
  show "ad_own_vessel d' = ad_own_vessel d"
  proof (cases "ais_control_payload_from_sentence s message")
    case (Inl e)
    then show ?thesis using refused_payload [OF Inl, of A capacity now src d] assms by simp
  next
    case (Inr pf)
    then obtain payload fill where pf: "ais_control_payload_from_sentence s message = Inr (payload, fill)" by (cases pf) auto
    let ?f = "found_header payload"
    have "ad_own_vessel (snd (decode_into A s message now src ?f fill (merge_reset ?f d))) = ad_own_vessel d"
      by (simp add: decode_into_message decode_message_own)
    then show ?thesis using vdm_sentence [OF vdm pf, of A capacity now src d] assms by (metis snd_conv)
  qed
next
  assume e: "ais_control_payload_from_sentence s message = Inl e"
  show "r = Some e" "d' = d" using refused_payload [OF e, of A capacity now src d] assms by simp_all
qed

theorem ais_own_vessel_separate_witness:
  "\<exists>r d'. apply_ais_vdm_vdo_with_own_vessel exact 16 ((sample_sentence (sample_report 123456789 0 0))\<lparr>ns_sentence := ''VDO''\<rparr>) multipart_init 7 SrcSerial
      (ais_data_init 16) = (r, d') \<and> ad_targets d' = ad_targets (ais_data_init 16)"
proof -
  let ?s = "(sample_sentence (sample_report 123456789 0 0))\<lparr>ns_sentence := ''VDO''\<rparr>" and ?d = "ais_data_init 16 :: (rat, rat) ais_data"
  let ?r = "apply_ais_vdm_vdo_with_own_vessel exact 16 ?s multipart_init 7 SrcSerial ?d"
  have "sentence_is ?s ''VDO''" by (simp add: sentence_is_def nmea_span_equals_def)
  then have "snd ?r = ?d\<lparr>ad_own_vessel := ad_own_vessel (snd ?r)\<rparr>"
    using ais_own_vessel_separate [of exact 16 ?s multipart_init 7 SrcSerial ?d "fst ?r" "snd ?r" AisShort] by simp
  then have "ad_targets (snd ?r) = ad_targets ?d" by (metis ais_data.select_convs(3) ais_data.surjective ais_data.update_convs(2))
  then show ?thesis by (metis prod.collapse)
qed

text \<open>
  C37: A class A position report (types 1 to 3) of the own vessel replaces its whole record: the name and call sign of an
  earlier static report and the time of first reception are lost, although the record has a rule to
  keep the latter. The scratch model starts empty for every sentence.
\<close>

theorem ais_own_vessel_forgotten:
  assumes "sentence_is s ''VDO''" "ais_control_payload_from_sentence s message = Inr (Some p, fill)"
    and "ais_decode_header p = (True, header)" "is_class_a_position (dh_message_type header)"
    and "apply_ais_vdm_vdo_with_own_vessel A capacity s message now src d = (None, d')"
  shows "ov_vessel_name (ad_own_vessel d') = [] \<and> ov_call_sign (ad_own_vessel d') = [] \<and>
    ov_first_seen_us (ad_own_vessel d') = now \<and> ov_last_seen_us (ad_own_vessel d') = now"
proof -
  let ?f = "Some (p, header)"
  let ?scratch = "snd (decode_into A s message now src ?f fill (merge_reset ?f (ais_data_init capacity)))"
  have f: "found_header (Some p) = ?f" by (simp add: found_header_def assms(3))
  then have "d' = d\<lparr>ad_own_vessel := ad_own_vessel (ais_update_own_vessel_from_latest header now src ?scratch)\<rparr>"
    using assms(1,2,5) by (auto simp: apply_ais_vdm_vdo_with_own_vessel_def Let_def case_prod_beta split: option.splits)
  moreover have "ad_own_vessel ?scratch = ais_own_vessel_init"
    by (simp add: decode_into_message decode_message_own) (simp add: ais_data_init_def)
  ultimately show ?thesis
    using assms(4) by (simp add: ais_update_own_vessel_from_latest_def ais_set_own_vessel_header_def
        ais_copy_own_position_from_position_report_def ais_own_vessel_init_def)
qed

theorem ais_own_vessel_forgotten_witness:
  "\<exists>d'. apply_ais_vdm_vdo_with_own_vessel exact 16 ((sample_sentence (sample_report 123456789 0 0))\<lparr>ns_sentence := ''VDO''\<rparr>) multipart_init 7 SrcSerial
      ((ais_data_init 16)\<lparr>ad_own_vessel := ais_own_vessel_init\<lparr>ov_valid := True, ov_vessel_name := ''SEA WOLF'', ov_first_seen_us := 3\<rparr>\<rparr>) = (None, d') \<and>
     ov_vessel_name (ad_own_vessel d') = [] \<and> ov_first_seen_us (ad_own_vessel d') = 7"
proof -
  let ?m = "sample_report 123456789 0 0"
  let ?s = "(sample_sentence ?m)\<lparr>ns_sentence := ''VDO''\<rparr>"
  let ?d = "(ais_data_init 16)\<lparr>ad_own_vessel := ais_own_vessel_init\<lparr>ov_valid := True, ov_vessel_name := ''SEA WOLF'', ov_first_seen_us := 3\<rparr>\<rparr> :: (rat, rat) ais_data"
  let ?p = "ais_encode (class_a_fields ?m)"
  have ok: "class_a_ok ?m" by (simp add: sample_report_def class_a_ok_def)
  have own: "sentence_is ?s ''VDO''" by (simp add: sentence_is_def nmea_span_equals_def)
  have c: "carries_payload ?s ?p"
    by (simp add: carries_payload_def sample_sentence_def sentence_clear_def fragment_init_def ns_field_def)
  have p: "ais_control_payload_from_sentence ?s multipart_init = Inr (Some ?p, 0)"
    by (rule class_a_payload [OF ok c])
  have h: "ais_decode_header ?p = (True, class_a_sent ?m)" unfolding class_a_sent_def by (rule class_a_header [OF ok])
  have a: "is_class_a_position (dh_message_type (class_a_sent ?m))" "\<not> ais_control_message_type (dh_message_type (class_a_sent ?m))"
    by (simp_all add: class_a_sent_def sample_report_def is_class_a_position_def ais_control_message_type_def)
  have "fst (decode_into exact ?s multipart_init 7 SrcSerial (Some (?p, class_a_sent ?m)) 0 e) = None" for e
    using a(2) by (simp add: decode_into_message decode_message_def class_a_apply [OF ok c])
  then have "fst (apply_ais_vdm_vdo_with_own_vessel exact 16 ?s multipart_init 7 SrcSerial ?d) = None"
    using own by (simp add: apply_ais_vdm_vdo_with_own_vessel_def p h found_header_def Let_def case_prod_beta)
  then obtain d' where d': "apply_ais_vdm_vdo_with_own_vessel exact 16 ?s multipart_init 7 SrcSerial ?d = (None, d')" by (metis prod.collapse)
  from ais_own_vessel_forgotten [OF own p h a(1) d'] d' show ?thesis by blast
qed

section \<open>Static data reports on the wire\<close>

definition padded :: "nat \<Rightarrow> string \<Rightarrow> string" where
  "padded n s = s @ replicate (n - length s) (CHR ''@'')"

definition text_ok :: "nat \<Rightarrow> string \<Rightarrow> bool" where
  "text_ok n s \<longleftrightarrow> length s \<le> n \<and> (\<forall>c \<in> set s. ais_alphabet c) \<and> (s = [] \<or> \<not> ais_text_fill (last s))"

lemma read_text:
  assumes "fs = pre @ text_fields (padded n s) @ post" "k = sum_list (map fst pre)" "text_ok n s" "n < room"
  shows "ais_copy_text room (ais_encode fs) k n out = s"
  using copy_text_encoded [of s "n - length s" room pre post out] assms by (simp add: text_ok_def padded_def)

lemma text_width [simp]: "sum_list (map fst (text_fields s)) = 6 * length s"
  by (induction s) (simp_all add: text_fields_def)

lemma length_padded [simp]: "text_ok n s \<Longrightarrow> length (padded n s) = n"
  by (simp add: padded_def text_ok_def)

definition static_part_a :: "int \<Rightarrow> string \<Rightarrow> (nat \<times> int) list" where
  "static_part_a mmsi name = [(6, 24), (2, 0), (30, mmsi), (2, 0)] @ text_fields (padded 20 name) @ []"

definition static_part_b :: "int \<Rightarrow> int \<Rightarrow> string \<Rightarrow> string \<Rightarrow> (nat \<times> int) list" where
  "static_part_b mmsi ship vendor call = [(6, 24), (2, 0), (30, mmsi), (2, 1), (8, ship)] @ text_fields (padded 7 vendor) @
     text_fields (padded 7 call) @ [(9, 0), (9, 0), (6, 0), (6, 0), (6, 0)]"

definition static_header :: "int \<Rightarrow> ais_decoded_header" where
  "static_header mmsi = \<lparr>dh_message_type = AIS_STATIC_DATA_REPORT, dh_repeat_indicator = 0, dh_mmsi = mmsi\<rparr>"

lemma static_header_simps [simp]:
  "dh_message_type (static_header mmsi) = AIS_STATIC_DATA_REPORT" "dh_mmsi (static_header mmsi) = mmsi"
  by (simp_all add: static_header_def)

lemma static_report_kind [simp]:
  "\<not> is_class_a_position AIS_STATIC_DATA_REPORT" "\<not> is_class_b_position AIS_STATIC_DATA_REPORT"
  "\<not> ais_control_message_type AIS_STATIC_DATA_REPORT" "binary_layout p fill AIS_STATIC_DATA_REPORT = None"
  by (simp_all add: is_class_a_position_def is_class_b_position_def ais_control_message_type_def binary_layout_def)

lemma static_head:
  assumes "fs = [(6, 24), (2, 0), (30, mmsi), (2, part)] @ rest" "0 \<le> mmsi" "mmsi < 2 ^ 30" "part = 0 \<or> part = 1"
  shows "ais_decode_header (ais_encode fs) = (True, static_header mmsi)" "ais_get_i (ais_encode fs) 38 2 True = (part, True)"
proof -
  have "ais_get_i (ais_encode fs) 0 6 True = (24, True)"
    by (rule read_unsigned [where pre = "[]"]) (use assms in auto)
  moreover have "ais_get_i (ais_encode fs) 6 2 True = (0, True)"
    by (rule read_unsigned [where pre = "[(6, 24)]"]) (use assms in auto)
  moreover have "ais_get_i (ais_encode fs) 8 30 True = (mmsi, True)"
    by (rule read_unsigned [where pre = "[(6, 24), (2, 0)]"]) (use assms in auto)
  ultimately show "ais_decode_header (ais_encode fs) = (True, static_header mmsi)"
    by (simp add: ais_decode_header_def static_header_def ais_message_type_from_int_def)
  show "ais_get_i (ais_encode fs) 38 2 True = (part, True)"
    by (rule read_unsigned [where pre = "[(6, 24), (2, 0), (30, mmsi)]"]) (use assms in auto)
qed

lemma part_b_read:
  assumes "text_ok 7 vendor" "text_ok 7 call" "0 \<le> ship" "ship < 256"
  shows "class_b_static_part_b (ais_encode (static_part_b mmsi ship vendor call)) now out =
    (True, out\<lparr>cb_ship_type := stamp ship now, cb_vendor_id := vendor, cb_call_sign := call,
       cb_dimension_to_bow_m := stamp 0 now, cb_dimension_to_stern_m := stamp 0 now,
       cb_dimension_to_port_m := stamp 0 now, cb_dimension_to_starboard_m := stamp 0 now\<rparr>)"
proof -
  let ?fs = "static_part_b mmsi ship vendor call"
  let ?h = "[(6, 24), (2, 0), (30, mmsi), (2, 1), (8, ship)]"
  let ?t = "?h @ text_fields (padded 7 vendor) @ text_fields (padded 7 call)"
  note d = static_part_b_def
  have w: "sum_list (map fst ?t) = 132" using assms(1,2) by simp
  have "ais_get_i (ais_encode ?fs) 40 8 True = (ship, True)"
    by (rule read_unsigned [where pre = "take 4 ?h"]) (use assms in \<open>auto simp: d\<close>)
  moreover have "ais_get_i (ais_encode ?fs) 132 9 True = (0, True)"
    by (rule read_unsigned [where pre = ?t]) (use w in \<open>auto simp: d\<close>)
  moreover have "ais_get_i (ais_encode ?fs) 141 9 True = (0, True)"
    by (rule read_unsigned [where pre = "?t @ [(9, 0)]"]) (use w in \<open>auto simp: d\<close>)
  moreover have "ais_get_i (ais_encode ?fs) 150 6 True = (0, True)"
    by (rule read_unsigned [where pre = "?t @ [(9, 0), (9, 0)]"]) (use w in \<open>auto simp: d\<close>)
  moreover have "ais_get_i (ais_encode ?fs) 156 6 True = (0, True)"
    by (rule read_unsigned [where pre = "?t @ [(9, 0), (9, 0), (6, 0)]"]) (use w in \<open>auto simp: d\<close>)
  moreover have "ais_copy_text 8 (ais_encode ?fs) 48 7 (cb_vendor_id out) = vendor"
    by (rule read_text [where pre = ?h]) (use assms in \<open>auto simp: d\<close>)
  moreover have "ais_copy_text 8 (ais_encode ?fs) 90 7 (cb_call_sign out) = call"
    by (rule read_text [where pre = "?h @ text_fields (padded 7 vendor)"]) (use assms in \<open>auto simp: d\<close>)
  ultimately show ?thesis by (simp add: class_b_static_part_b_def)
qed

lemma static_enhanced:
  assumes "40 \<le> length p * 6" "ais_get_i p 38 2 True = (part, True)" "part = 0 \<or> part = 1"
  shows "ais_update_enhanced_fields A p 0 (static_header mmsi) now src d =
    d\<lparr>ad_class_b_static := static_merged part mmsi now (ad_class_b_static d)\<rparr>"
proof -
  have part: "ais_static_data_part_from_int part = part" using assms(3) by (auto simp: ais_static_data_part_from_int_def)
  have bits: "ais_enough_bits (length p) 0 40" using assms(1) by (simp add: ais_enough_bits_def)
  have "ais_update_type24_merge_state p 0 (static_header mmsi) now d =
      d\<lparr>ad_class_b_static := static_merged part mmsi now (ad_class_b_static d)\<rparr>"
    by (simp add: ais_update_type24_merge_state_def assms(2) part bits)
  then show ?thesis
    by (simp add: ais_update_enhanced_fields_def ais_update_class_b_enhancements_def ais_update_aton_extension_def
        ais_update_binary_application_def)
qed

lemma static_report_applied:
  assumes "carries_payload s p" "ais_payload_valid p" "40 \<le> length p * 6" "\<not> sentence_is s ''VDO''"
    and "ais_decode_header p = (True, static_header mmsi)" "ais_get_i p 38 2 True = (part, True)" "part = 0 \<or> part = 1"
    and "ais_parse_class_b_static p (static_header mmsi) now src (ad_class_b_static (ais_reset_type24_merge_if_new_mmsi mmsi d))
      (ad_tracked_target d) (ad_targets d) = (True, out, legacy, table)"
  shows "\<exists>d'. apply_ais_vdm_vdo_with_own_vessel A capacity s message now src d = (None, d') \<and>
    ad_class_b_static d' = static_merged part mmsi now out"
proof -
  have payload: "ais_control_payload_from_sentence s message = Inr (Some p, 0)"
    using assms(1,2,3) by (intro carried_payload) auto
  have reset: "ad_tracked_target (ais_reset_type24_merge_if_new_mmsi mmsi d) = ad_tracked_target d"
    "ad_targets (ais_reset_type24_merge_if_new_mmsi mmsi d) = ad_targets d"
    by (simp_all add: ais_reset_type24_merge_if_new_mmsi_def Let_def)
  have found: "found_header (Some p) = Some (p, static_header mmsi)" by (simp add: found_header_def assms(5))
  have "apply_ais_vdm_vdo A s message now src (ais_reset_type24_merge_if_new_mmsi mmsi d) =
      (None, (ais_reset_type24_merge_if_new_mmsi mmsi d)\<lparr>ad_class_b_static := out, ad_tracked_target := legacy, ad_targets := table\<rparr>)"
    using assms(8) by (simp add: apply_ais_vdm_vdo_def payload assms(5) ais_dispatch_def Let_def reset)
  then show ?thesis
    by (simp add: vdm_sentence [OF assms(4) payload] found decode_into_def merge_reset_def static_enhanced [OF assms(3,6,7)])
qed

lemma part_a_parsed:
  assumes "0 \<le> mmsi" "mmsi < 2 ^ 30" "text_ok 20 name"
  shows "\<exists>legacy' table'. ais_parse_class_b_static (ais_encode (static_part_a mmsi name)) (static_header mmsi) now src st legacy table =
    (True, (ais_set_header_record (static_header mmsi) now src st)\<lparr>cb_part_number := stamp 0 now, cb_vessel_name := name, cb_last_update_us := now\<rparr>,
     legacy', table')"
proof -
  let ?p = "ais_encode (static_part_a mmsi name)"
  have "ais_get_i ?p 38 2 True = (0, True)"
    by (rule static_head(2) [where rest = "text_fields (padded 20 name)"]) (use assms in \<open>auto simp: static_part_a_def\<close>)
  moreover have "ais_copy_text 24 ?p 40 20 t = name" for t
    by (rule read_text [where pre = "[(6, 24), (2, 0), (30, mmsi), (2, 0)]" and post = "[]"]) (use assms in \<open>auto simp: static_part_a_def\<close>)
  ultimately show ?thesis
    by (simp add: ais_parse_class_b_static_def ais_static_data_part_from_int_def Let_def)
qed

lemma part_b_parsed:
  assumes "0 \<le> mmsi" "mmsi < 2 ^ 30" "text_ok 7 vendor" "text_ok 7 call" "0 \<le> ship" "ship < 256"
  shows "\<exists>legacy' table'. ais_parse_class_b_static (ais_encode (static_part_b mmsi ship vendor call)) (static_header mmsi) now src st legacy table =
    (True, (snd (class_b_static_part_b (ais_encode (static_part_b mmsi ship vendor call)) now
       ((ais_set_header_record (static_header mmsi) now src st)\<lparr>cb_part_number := stamp 1 now\<rparr>)))\<lparr>cb_last_update_us := now\<rparr>, legacy', table')"
proof -
  let ?p = "ais_encode (static_part_b mmsi ship vendor call)"
  have "ais_get_i ?p 38 2 True = (1, True)"
    by (rule static_head(2) [where rest = "drop 4 (static_part_b mmsi ship vendor call)"]) (use assms in \<open>auto simp: static_part_b_def\<close>)
  then show ?thesis
    by (simp add: ais_parse_class_b_static_def ais_static_data_part_from_int_def part_b_read [OF assms(3-6)] Let_def)
qed

lemma static_part_a_applied:
  assumes "carries_payload s (ais_encode (static_part_a mmsi name))" "\<not> sentence_is s ''VDO''" "0 \<le> mmsi" "mmsi < 2 ^ 30" "text_ok 20 name"
  shows "\<exists>d'. apply_ais_vdm_vdo_with_own_vessel A capacity s message now src d = (None, d') \<and> cb_vessel_name (ad_class_b_static d') = name \<and>
    cb_part_a_received (ad_class_b_static d') \<and> sd_valid (cb_merge_mmsi (ad_class_b_static d')) \<and> sd_value (cb_merge_mmsi (ad_class_b_static d')) = mmsi"
proof -
  let ?st = "ad_class_b_static (ais_reset_type24_merge_if_new_mmsi mmsi d)"
  let ?fs = "static_part_a mmsi name"
  have w: "sum_list (map fst ?fs) = 160" using assms(5) by (simp add: static_part_a_def)
  then have v: "ais_payload_valid (ais_encode ?fs)" "40 \<le> length (ais_encode ?fs) * 6" using encode_valid [of ?fs] by simp_all
  have h: "ais_decode_header (ais_encode ?fs) = (True, static_header mmsi)" "ais_get_i (ais_encode ?fs) 38 2 True = (0, True)"
    by (rule static_head [where rest = "text_fields (padded 20 name)" and part = 0]; use assms in \<open>auto simp: static_part_a_def\<close>)+
  obtain legacy table where "ais_parse_class_b_static (ais_encode ?fs) (static_header mmsi) now src ?st (ad_tracked_target d) (ad_targets d) =
      (True, (ais_set_header_record (static_header mmsi) now src ?st)\<lparr>cb_part_number := stamp 0 now, cb_vessel_name := name, cb_last_update_us := now\<rparr>,
       legacy, table)" using part_a_parsed [OF assms(3-5)] by blast
  from static_report_applied [OF assms(1) v assms(2) h _ this, of A capacity message] obtain d' where
    d': "apply_ais_vdm_vdo_with_own_vessel A capacity s message now src d = (None, d')"
    "ad_class_b_static d' = static_merged 0 mmsi now ((ais_set_header_record (static_header mmsi) now src ?st)
       \<lparr>cb_part_number := stamp 0 now, cb_vessel_name := name, cb_last_update_us := now\<rparr>)" by auto
  have "\<not> sd_valid (cb_merge_mmsi ?st) \<or> sd_value (cb_merge_mmsi ?st) = mmsi"
    by (auto simp: ais_reset_type24_merge_if_new_mmsi_def Let_def ais_class_b_static_init_def stamped_init_def)
  then show ?thesis using d' by (auto simp: static_merged_def ais_set_header_record_def stamp_if_def stamp_def)
qed

lemma static_part_b_applied:
  fixes d :: "('r :: zero, 'c :: zero) ais_data"
  assumes "carries_payload s (ais_encode (static_part_b mmsi ship vendor call))" "\<not> sentence_is s ''VDO''" "0 \<le> mmsi" "mmsi < 2 ^ 30"
    and "text_ok 7 vendor" "text_ok 7 call" "0 \<le> ship" "ship < 256"
  defines "st \<equiv> ad_class_b_static (ais_reset_type24_merge_if_new_mmsi mmsi d)"
  shows "\<exists>d'. apply_ais_vdm_vdo_with_own_vessel A capacity s message now src d = (None, d') \<and>
    cb_vessel_name (ad_class_b_static d') = cb_vessel_name st \<and> cb_call_sign (ad_class_b_static d') = call \<and>
    cb_ship_type (ad_class_b_static d') = stamp ship now \<and> cb_complete (ad_class_b_static d') = cb_part_a_received st"
proof -
  let ?fs = "static_part_b mmsi ship vendor call"
  have w: "sum_list (map fst ?fs) = 168" using assms(5,6) by (simp add: static_part_b_def)
  then have v: "ais_payload_valid (ais_encode ?fs)" "40 \<le> length (ais_encode ?fs) * 6" using encode_valid [of ?fs] by simp_all
  have h: "ais_decode_header (ais_encode ?fs) = (True, static_header mmsi)" "ais_get_i (ais_encode ?fs) 38 2 True = (1, True)"
    by (rule static_head [where rest = "drop 4 ?fs" and part = 1]; use assms in \<open>auto simp: static_part_b_def\<close>)+
  obtain legacy table where "ais_parse_class_b_static (ais_encode ?fs) (static_header mmsi) now src st (ad_tracked_target d) (ad_targets d) =
      (True, (snd (class_b_static_part_b (ais_encode ?fs) now
        ((ais_set_header_record (static_header mmsi) now src st)\<lparr>cb_part_number := stamp 1 now\<rparr>)))\<lparr>cb_last_update_us := now\<rparr>, legacy, table)"
    using part_b_parsed [OF assms(3-8)] by blast
  from static_report_applied [OF assms(1) v assms(2) h _ this [unfolded st_def], of A capacity message] obtain d' where
    d': "apply_ais_vdm_vdo_with_own_vessel A capacity s message now src d = (None, d')"
    "ad_class_b_static d' = static_merged 1 mmsi now ((snd (class_b_static_part_b (ais_encode ?fs) now
        ((ais_set_header_record (static_header mmsi) now src st)\<lparr>cb_part_number := stamp 1 now\<rparr>)))\<lparr>cb_last_update_us := now\<rparr>)"
    unfolding st_def by auto
  then show ?thesis by (simp add: static_merged_def part_b_read [OF assms(5-8)] ais_set_header_record_def)
qed

text \<open>
  C32: The two halves of a static data report are put together by their sender. Part A and then part B
  of the same vessel give one complete record with the name of the first and the call sign and ship
  type of the second. When part B comes from another vessel the record starts again: it is not
  complete and the name of the other vessel is gone.
\<close>

theorem ais_static_parts_merged:
  assumes "carries_payload s1 (ais_encode (static_part_a m1 name))" "carries_payload s2 (ais_encode (static_part_b m2 ship vendor call))"
    and "\<not> sentence_is s1 ''VDO''" "\<not> sentence_is s2 ''VDO''" "0 \<le> m1" "m1 < 2 ^ 30" "0 \<le> m2" "m2 < 2 ^ 30"
    and "text_ok 20 name" "text_ok 7 vendor" "text_ok 7 call" "0 \<le> ship" "ship < 256"
  shows "\<exists>d1 d2. apply_ais_vdm_vdo_with_own_vessel A capacity s1 message1 t1 src d = (None, d1) \<and>
    apply_ais_vdm_vdo_with_own_vessel A capacity s2 message2 t2 src d1 = (None, d2) \<and>
    cb_call_sign (ad_class_b_static d2) = call \<and> cb_ship_type (ad_class_b_static d2) = stamp ship t2 \<and>
    cb_vessel_name (ad_class_b_static d2) = (if m1 = m2 then name else []) \<and> (cb_complete (ad_class_b_static d2) \<longleftrightarrow> m1 = m2)"
proof -
  from static_part_a_applied [OF assms(1,3,5,6,9), of A capacity message1 t1 src d] obtain d1 where
    d1: "apply_ais_vdm_vdo_with_own_vessel A capacity s1 message1 t1 src d = (None, d1)" "cb_vessel_name (ad_class_b_static d1) = name"
    "cb_part_a_received (ad_class_b_static d1)" "sd_valid (cb_merge_mmsi (ad_class_b_static d1))" "sd_value (cb_merge_mmsi (ad_class_b_static d1)) = m1"
    by blast
  let ?st = "ad_class_b_static (ais_reset_type24_merge_if_new_mmsi m2 d1)"
  have "cb_vessel_name ?st = (if m1 = m2 then name else [])" "cb_part_a_received ?st \<longleftrightarrow> m1 = m2"
    using d1(2-5) by (simp_all add: ais_reset_type24_merge_if_new_mmsi_def Let_def ais_class_b_static_init_def)
  with static_part_b_applied [OF assms(2,4,7,8,10-13), of A capacity message2 t2 src d1] d1(1) show ?thesis by metis
qed

definition static_sentence :: "(nat \<times> int) list \<Rightarrow> nmea_sentence" where
  "static_sentence fs = sentence_clear\<lparr>ns_fields := [''1'', ''1'', '''', ''A'', ais_encode fs, ''0'']\<rparr>"

theorem ais_static_parts_merged_witness:
  "\<exists>d1 d2. apply_ais_vdm_vdo_with_own_vessel exact 16 (static_sentence (static_part_a 123456789 ''SEA WOLF'')) multipart_init 7 SrcSerial (ais_data_init 16) = (None, d1) \<and>
     apply_ais_vdm_vdo_with_own_vessel exact 16 (static_sentence (static_part_b 123456789 36 ''ABC'' ''PA1234'')) multipart_init 8 SrcSerial d1 = (None, d2) \<and>
     cb_vessel_name (ad_class_b_static d2) = ''SEA WOLF'' \<and> cb_call_sign (ad_class_b_static d2) = ''PA1234'' \<and> cb_complete (ad_class_b_static d2)"
proof -
  have "carries_payload (static_sentence fs) (ais_encode fs)" "\<not> sentence_is (static_sentence fs) ''VDO''" for fs
    by (simp_all add: carries_payload_def static_sentence_def sentence_clear_def fragment_init_def ns_field_def sentence_is_def nmea_span_equals_def)
  moreover have "text_ok 20 ''SEA WOLF''" "text_ok 7 ''ABC''" "text_ok 7 ''PA1234''"
    by (simp_all add: text_ok_def ais_alphabet_def ais_text_fill_def)
  ultimately show ?thesis
    using ais_static_parts_merged [of "static_sentence (static_part_a 123456789 ''SEA WOLF'')" 123456789 "''SEA WOLF''"
        "static_sentence (static_part_b 123456789 36 ''ABC'' ''PA1234'')" 123456789 36 "''ABC''" "''PA1234''"
        exact 16 multipart_init 7 SrcSerial "ais_data_init 16" multipart_init 8] by fastforce
qed

end
