(* ===== verification/Dsc.thy ===== *)
theory Dsc
  imports Data_Model Nmea_Values
begin

text \<open>
  Digital selective calling: the DSC, DSE, DSI and DSR sentences of \<^verbatim>\<open>nmea_dsc.hpp\<close>. A call that
  announces an expansion waits for its DSE sentence or for half a second to pass; then it is
  committed: compared with the recent calls, raised as an alert, acknowledged, and put into the
  history. The receiver state is \<^verbatim>\<open>NmeaDscMessageState\<close> with the three \<^verbatim>\<open>dsc_pending_\<close> members of the
  connector; the model state is what the code writes of \<^verbatim>\<open>model.comm.dsc\<close> and
  \<^verbatim>\<open>model.notifications.dsc\<close>. A position is kept as the \<^verbatim>\<open>float\<close> the parser computes.
\<close>

section \<open>Arithmetic and data\<close>

text \<open>The addition of \<^verbatim>\<open>float\<close> values and their conversion to a coordinate, beside \<open>arith\<close>.\<close>

record ('f, 'r, 'c) dsc_arith = "('f, 'r, 'c) arith" +
  f_add :: "'f \<Rightarrow> 'f \<Rightarrow> 'f"
  c_of_f :: "'f \<Rightarrow> 'c"

definition exact_dsc :: "(rat, rat, rat) dsc_arith" where
  "exact_dsc = arith.extend exact \<lparr>f_add = (+), c_of_f = (\<lambda>x. x)\<rparr>"

type_synonym message_int = "int \<times> u64"

record 'f dsc_message =
  dm_source :: sensor_source
  dm_format_specifier :: message_int
  dm_sender_mmsi :: string
  dm_category :: message_int
  dm_nature :: message_int
  dm_communication :: message_int
  dm_position_code :: string
  dm_latitude_deg :: 'f
  dm_longitude_deg :: 'f
  dm_utc_time_s :: 'f
  dm_has_position :: bool
  dm_has_utc_time :: bool
  dm_address :: string
  dm_field10 :: string
  dm_end_of_sequence :: char
  dm_expansion_flag :: char
  dm_last_update_us :: u64

record dsc_expansion =
  de_source :: sensor_source
  de_total_messages :: message_int
  de_message_number :: message_int
  de_query_flag :: char
  de_sender_mmsi :: string
  de_expansion_specifier :: message_int
  de_payload :: string
  de_last_update_us :: u64

definition dsc_message_init :: "'f :: zero dsc_message" where
  "dsc_message_init = \<lparr>dm_source = SrcNone, dm_format_specifier = (0, 0), dm_sender_mmsi = [], dm_category = (0, 0),
     dm_nature = (0, 0), dm_communication = (0, 0), dm_position_code = [], dm_latitude_deg = 0, dm_longitude_deg = 0,
     dm_utc_time_s = 0, dm_has_position = False, dm_has_utc_time = False, dm_address = [], dm_field10 = [],
     dm_end_of_sequence = NUL, dm_expansion_flag = NUL, dm_last_update_us = 0\<rparr>"

definition dsc_expansion_init :: dsc_expansion where
  "dsc_expansion_init = \<lparr>de_source = SrcNone, de_total_messages = (0, 0), de_message_number = (0, 0), de_query_flag = NUL,
     de_sender_mmsi = [], de_expansion_specifier = (0, 0), de_payload = [], de_last_update_us = 0\<rparr>"

datatype dsc_priority = PrUnknown | PrRoutine | PrSafety | PrUrgency | PrDistress

datatype dsc_address_type = AdUnknown | AdDistress | AdIndividual | AdAllShips | AdGroup | AdGeographicArea

datatype dsc_end_signal = EsUnknown | EsAck | EsEndOfSequence

datatype dse_payload_type = DpNone | DpText | DpDigits | DpMixedAscii | DpInvalid

record ('r, 'c) dsc_call =
  dc_source :: sensor_source
  dc_format_specifier :: "int stamped"
  dc_sender_mmsi :: string
  dc_category :: "int stamped"
  dc_nature :: "int stamped"
  dc_communication :: "int stamped"
  dc_position_code :: string
  dc_latitude_deg :: "'c stamped"
  dc_longitude_deg :: "'c stamped"
  dc_utc_time_s :: "'r stamped"
  dc_address :: string
  dc_field10 :: string
  dc_end_of_sequence :: char
  dc_priority :: dsc_priority
  dc_address_type :: dsc_address_type
  dc_end_signal_type :: dsc_end_signal
  dc_expansion_expected :: bool
  dc_expansion_received :: bool
  dc_expansion_timeout :: bool
  dc_dse_total_messages :: "int stamped"
  dc_dse_message_number :: "int stamped"
  dc_dse_query_flag :: char
  dc_dse_expansion_specifier :: "int stamped"
  dc_dse_payload :: string
  dc_dse_decoded_text :: string
  dc_dse_payload_type :: dse_payload_type
  dc_dse_payload_length :: "int stamped"
  dc_dse_digit_count :: "int stamped"
  dc_dse_ascii_valid :: bool
  dc_duplicate :: bool
  dc_orphan_ack :: bool
  dc_repeat_count :: "int stamped"
  dc_field_count :: "int stamped"
  dc_first_seen_us :: u64
  dc_last_update_us :: u64

definition dsc_call_init :: "('r :: zero, 'c :: zero) dsc_call" where
  "dsc_call_init = \<lparr>dc_source = SrcGpsd, dc_format_specifier = stamped_init, dc_sender_mmsi = [], dc_category = stamped_init,
     dc_nature = stamped_init, dc_communication = stamped_init, dc_position_code = [], dc_latitude_deg = stamped_init,
     dc_longitude_deg = stamped_init, dc_utc_time_s = stamped_init, dc_address = [], dc_field10 = [], dc_end_of_sequence = NUL,
     dc_priority = PrUnknown, dc_address_type = AdUnknown, dc_end_signal_type = EsUnknown, dc_expansion_expected = False,
     dc_expansion_received = False, dc_expansion_timeout = False, dc_dse_total_messages = stamped_init,
     dc_dse_message_number = stamped_init, dc_dse_query_flag = NUL, dc_dse_expansion_specifier = stamped_init, dc_dse_payload = [],
     dc_dse_decoded_text = [], dc_dse_payload_type = DpNone, dc_dse_payload_length = stamped_init, dc_dse_digit_count = stamped_init,
     dc_dse_ascii_valid = False, dc_duplicate = False, dc_orphan_ack = False, dc_repeat_count = stamped_init,
     dc_field_count = stamped_init, dc_first_seen_us = 0, dc_last_update_us = 0\<rparr>"

record ('r, 'c) dsc_alert =
  da_source :: sensor_source
  da_sender_mmsi :: string
  da_address :: string
  da_category :: "int stamped"
  da_nature :: "int stamped"
  da_latitude_deg :: "'c stamped"
  da_longitude_deg :: "'c stamped"
  da_utc_time_s :: "'r stamped"
  da_alert_text :: string
  da_active :: bool
  da_acknowledged :: bool
  da_resolved :: bool
  da_duplicate :: bool
  da_repeat_count :: "int stamped"
  da_field_count :: "int stamped"
  da_first_seen_us :: u64
  da_last_update_us :: u64

definition dsc_alert_init :: "('r :: zero, 'c :: zero) dsc_alert" where
  "dsc_alert_init = \<lparr>da_source = SrcGpsd, da_sender_mmsi = [], da_address = [], da_category = stamped_init, da_nature = stamped_init,
     da_latitude_deg = stamped_init, da_longitude_deg = stamped_init, da_utc_time_s = stamped_init, da_alert_text = [],
     da_active = False, da_acknowledged = False, da_resolved = False, da_duplicate = False, da_repeat_count = stamped_init,
     da_field_count = stamped_init, da_first_seen_us = 0, da_last_update_us = 0\<rparr>"

text \<open>\<^verbatim>\<open>DscInterrogationData\<close> and \<^verbatim>\<open>DscResponseData\<close> have the same members.\<close>

record dsc_inquiry =
  di_source :: sensor_source
  di_id :: string
  di_remote_mmsi :: string
  di_field_count :: "int stamped"
  di_last_update_us :: u64

definition dsc_inquiry_init :: dsc_inquiry where
  "dsc_inquiry_init = \<lparr>di_source = SrcGpsd, di_id = [], di_remote_mmsi = [], di_field_count = stamped_init, di_last_update_us = 0\<rparr>"

record ('r, 'c) dsc_comm =
  dk_latest_call :: "('r, 'c) dsc_call"
  dk_recent_calls :: "('r, 'c) dsc_call list"
  dk_recent_call_count :: "int stamped"
  dk_recent_call_next_index :: "int stamped"
  dk_call_count :: "int stamped"
  dk_duplicate_count :: "int stamped"
  dk_acknowledged_count :: "int stamped"
  dk_orphan_ack_count :: "int stamped"
  dk_distress_count :: "int stamped"
  dk_urgency_count :: "int stamped"
  dk_safety_count :: "int stamped"
  dk_expansion_timeout_count :: "int stamped"

abbreviation DSC_CALL_HISTORY_CAPACITY :: nat where "DSC_CALL_HISTORY_CAPACITY \<equiv> 4"

definition dsc_comm_init :: "('r :: zero, 'c :: zero) dsc_comm" where
  "dsc_comm_init = \<lparr>dk_latest_call = dsc_call_init, dk_recent_calls = replicate DSC_CALL_HISTORY_CAPACITY dsc_call_init,
     dk_recent_call_count = stamped_init, dk_recent_call_next_index = stamped_init, dk_call_count = stamped_init,
     dk_duplicate_count = stamped_init, dk_acknowledged_count = stamped_init, dk_orphan_ack_count = stamped_init,
     dk_distress_count = stamped_init, dk_urgency_count = stamped_init, dk_safety_count = stamped_init,
     dk_expansion_timeout_count = stamped_init\<rparr>"

record ('r, 'c) dsc_notifications =
  dn_interrogation :: dsc_inquiry
  dn_response :: dsc_inquiry
  dn_distress :: "('r, 'c) dsc_alert"
  dn_urgency :: "('r, 'c) dsc_alert"
  dn_safety :: "('r, 'c) dsc_alert"

definition dsc_notifications_init :: "('r :: zero, 'c :: zero) dsc_notifications" where
  "dsc_notifications_init = \<lparr>dn_interrogation = dsc_inquiry_init, dn_response = dsc_inquiry_init, dn_distress = dsc_alert_init,
     dn_urgency = dsc_alert_init, dn_safety = dsc_alert_init\<rparr>"

text \<open>The receiver and the model together.\<close>

record ('f, 'r, 'c) dsc_state =
  dx_message :: "'f dsc_message"
  dx_expansion :: dsc_expansion
  dx_pending_commit :: bool
  dx_pending_started_us :: u64
  dx_pending_source :: sensor_source
  dx_comm :: "('r, 'c) dsc_comm"
  dx_notifications :: "('r, 'c) dsc_notifications"

definition dsc_state_init :: "('f :: zero, 'r :: zero, 'c :: zero) dsc_state" where
  "dsc_state_init = \<lparr>dx_message = dsc_message_init, dx_expansion = dsc_expansion_init, dx_pending_commit = False,
     dx_pending_started_us = 0, dx_pending_source = SrcNone, dx_comm = dsc_comm_init, dx_notifications = dsc_notifications_init\<rparr>"

section \<open>Codes\<close>

definition dsc_format_is_distress :: "int \<Rightarrow> bool" where "dsc_format_is_distress code \<longleftrightarrow> code = 112"
definition dsc_category_is_distress :: "int \<Rightarrow> bool" where "dsc_category_is_distress code \<longleftrightarrow> code = 112"
definition dsc_category_is_urgency :: "int \<Rightarrow> bool" where "dsc_category_is_urgency code \<longleftrightarrow> code = 110"
definition dsc_category_is_safety :: "int \<Rightarrow> bool" where "dsc_category_is_safety code \<longleftrightarrow> code = 108"
definition dsc_category_is_routine :: "int \<Rightarrow> bool" where "dsc_category_is_routine code \<longleftrightarrow> code = 100"

definition dsc_end_signal_is_ack :: "char \<Rightarrow> bool" where
  "dsc_end_signal_is_ack eos \<longleftrightarrow> eos = CHR ''A'' \<or> eos = CHR ''R''"

definition dsc_priority_is_alert :: "dsc_priority \<Rightarrow> bool" where
  "dsc_priority_is_alert p \<longleftrightarrow> p = PrDistress \<or> p = PrUrgency \<or> p = PrSafety"

definition dsc_char_is_digit :: "char \<Rightarrow> bool" where
  "dsc_char_is_digit c \<longleftrightarrow> 48 \<le> (of_char c :: nat) \<and> (of_char c :: nat) \<le> 57"

definition dsc_char_is_alpha :: "char \<Rightarrow> bool" where
  "dsc_char_is_alpha c \<longleftrightarrow> (let n = (of_char c :: nat) in 65 \<le> n \<and> n \<le> 90 \<or> 97 \<le> n \<and> n \<le> 122)"

definition dsc_priority_from_codes :: "bool \<Rightarrow> int \<Rightarrow> bool \<Rightarrow> int \<Rightarrow> dsc_priority" where
  "dsc_priority_from_codes has_format format has_category category =
     (if has_format \<and> dsc_format_is_distress format \<or> has_category \<and> dsc_category_is_distress category then PrDistress
      else if has_category \<and> dsc_category_is_urgency category then PrUrgency
      else if has_category \<and> dsc_category_is_safety category then PrSafety
      else if has_category \<and> dsc_category_is_routine category then PrRoutine
      else PrUnknown)"

definition dsc_address_type_from_format :: "bool \<Rightarrow> int \<Rightarrow> dsc_address_type" where
  "dsc_address_type_from_format has_format format =
     (if \<not> has_format then AdUnknown
      else if format = 112 then AdDistress else if format = 120 then AdIndividual else if format = 116 then AdAllShips
      else if format = 114 then AdGroup else if format = 102 then AdGeographicArea else AdUnknown)"

definition dsc_end_signal_type_from_char :: "char \<Rightarrow> dsc_end_signal" where
  "dsc_end_signal_type_from_char eos =
     (if eos = NUL then EsUnknown else if dsc_end_signal_is_ack eos then EsAck else EsEndOfSequence)"

definition digit_at :: "span \<Rightarrow> nat \<Rightarrow> int" where
  "digit_at s i = int (of_char (span_at s i)) - 48"

definition parse_dsc_compact_position :: "('f, 'r, 'c) dsc_arith \<Rightarrow> span \<Rightarrow> ('f \<times> 'f) option" where
  "parse_dsc_compact_position A code =
     (if length code < 10 \<or> \<not> list_all dsc_char_is_digit (take 10 code) then None
      else
       (let quadrant = digit_at code 0;
            lat_d = digit_at code 1 * 10 + digit_at code 2;
            lat_m = digit_at code 3 * 10 + digit_at code 4;
            lon_d = digit_at code 5 * 100 + digit_at code 6 * 10 + digit_at code 7;
            lon_m = digit_at code 8 * 10 + digit_at code 9
        in if quadrant < 0 \<or> 3 < quadrant \<or> 90 < lat_d \<or> 59 < lat_m \<or> 180 < lon_d \<or> 59 < lon_m then None
           else (let lat = f_add A (f_of_int A lat_d) (f_div A (f_of_int A lat_m) (f_of_int A 60));
                     lon = f_add A (f_of_int A lon_d) (f_div A (f_of_int A lon_m) (f_of_int A 60))
                 in Some (if quadrant = 2 \<or> quadrant = 3 then f_neg A lat else lat,
                          if quadrant = 1 \<or> quadrant = 3 then f_neg A lon else lon))))"

section \<open>Recent calls\<close>

definition dsc_expansion_expected :: "'f dsc_message \<Rightarrow> bool" where
  "dsc_expansion_expected m \<longleftrightarrow> dm_expansion_flag m = CHR ''E'' \<or> dm_expansion_flag m = CHR ''e''"

definition dse_matches_pending_dsc :: "sensor_source \<Rightarrow> ('f, 'r, 'c) dsc_state \<Rightarrow> bool" where
  "dse_matches_pending_dsc source x \<longleftrightarrow>
     (if \<not> dx_pending_commit x then False
      else if dx_pending_source x \<noteq> SrcNone \<and> source \<noteq> SrcNone \<and> source \<noteq> dx_pending_source x then False
      else \<not> (dm_sender_mmsi (dx_message x) \<noteq> [] \<and> de_sender_mmsi (dx_expansion x) \<noteq> [] \<and>
              dm_sender_mmsi (dx_message x) \<noteq> de_sender_mmsi (dx_expansion x)))"

definition dsc_stamped_i32_equal :: "int stamped \<Rightarrow> int stamped \<Rightarrow> bool" where
  "dsc_stamped_i32_equal a b \<longleftrightarrow> sd_valid a = sd_valid b \<and> (\<not> sd_valid a \<or> sd_value a = sd_value b)"

definition dsc_call_matches_duplicate_key :: "('r, 'c) dsc_call \<Rightarrow> ('r, 'c) dsc_call \<Rightarrow> bool" where
  "dsc_call_matches_duplicate_key a b \<longleftrightarrow> dc_last_update_us b \<noteq> 0 \<and> dc_sender_mmsi a = dc_sender_mmsi b \<and>
     dsc_stamped_i32_equal (dc_format_specifier a) (dc_format_specifier b) \<and> dsc_stamped_i32_equal (dc_category a) (dc_category b) \<and>
     dsc_stamped_i32_equal (dc_nature a) (dc_nature b) \<and> dsc_stamped_i32_equal (dc_communication a) (dc_communication b) \<and>
     dc_position_code a = dc_position_code b \<and> dc_address a = dc_address b \<and> dc_field10 a = dc_field10 b \<and>
     dc_end_of_sequence a = dc_end_of_sequence b \<and> dc_priority a = dc_priority b \<and> dc_address_type a = dc_address_type b"

abbreviation DSC_DSE_TIMEOUT_US :: u64 where "DSC_DSE_TIMEOUT_US \<equiv> 500000"
abbreviation DSC_DUPLICATE_WINDOW_US :: u64 where "DSC_DUPLICATE_WINDOW_US \<equiv> 10000000"

definition recent_duplicate :: "('r, 'c) dsc_call \<Rightarrow> u64 \<Rightarrow> ('r, 'c) dsc_call \<Rightarrow> bool" where
  "recent_duplicate call now_us candidate \<longleftrightarrow> dc_last_update_us candidate \<noteq> 0 \<and>
     \<not> (dc_last_update_us candidate \<le> now_us \<and> DSC_DUPLICATE_WINDOW_US < now_us - dc_last_update_us candidate) \<and>
     dsc_call_matches_duplicate_key call candidate"

definition find_recent_dsc_duplicate :: "('r, 'c) dsc_comm \<Rightarrow> ('r, 'c) dsc_call \<Rightarrow> u64 \<Rightarrow> nat option" where
  "find_recent_dsc_duplicate comm call now_us = index_where (recent_duplicate call now_us) (dk_recent_calls comm)"

definition count_of :: "int stamped \<Rightarrow> int" where
  "count_of s = (if sd_valid s then sd_value s else 0)"

definition push_recent_dsc_call :: "('r, 'c) dsc_call \<Rightarrow> u64 \<Rightarrow> ('r, 'c) dsc_comm \<Rightarrow> ('r, 'c) dsc_comm" where
  "push_recent_dsc_call call now_us comm =
     (let next0 = count_of (dk_recent_call_next_index comm);
          nxt = (if next0 < 0 \<or> int DSC_CALL_HISTORY_CAPACITY \<le> next0 then 0 else next0);
          count0 = count_of (dk_recent_call_count comm);
          count = (if count0 < int DSC_CALL_HISTORY_CAPACITY then count0 + 1 else count0);
          next_after = (nxt + 1) mod int DSC_CALL_HISTORY_CAPACITY
      in comm\<lparr>dk_recent_calls := (dk_recent_calls comm)[nat nxt := call],
              dk_recent_call_count := stamp count now_us, dk_recent_call_next_index := stamp next_after now_us\<rparr>)"

section \<open>Expansions\<close>

definition dse_ascii :: "char \<Rightarrow> bool" where
  "dse_ascii c \<longleftrightarrow> 0x20 \<le> (of_char c :: nat) \<and> (of_char c :: nat) \<le> 0x7E"

definition decode_dse_payload :: "string \<Rightarrow> u64 \<Rightarrow> ('r, 'c) dsc_call \<Rightarrow> ('r, 'c) dsc_call" where
  "decode_dse_payload payload now_us dst =
     (let dst = dst\<lparr>dc_dse_payload_type := DpNone, dc_dse_ascii_valid := True, dc_dse_payload_length := stamp 0 now_us,
                    dc_dse_digit_count := stamp 0 now_us, dc_dse_decoded_text := []\<rparr> in
      if payload = [] then dst
      else
       (let ascii_valid = list_all dse_ascii payload;
            all_digits = list_all dsc_char_is_digit payload;
            has_digit = list_ex dsc_char_is_digit payload;
            has_alpha = list_ex dsc_char_is_alpha payload;
            has_other = list_ex (\<lambda>c. \<not> dsc_char_is_digit c \<and> \<not> dsc_char_is_alpha c \<and> c \<noteq> CHR '' '') payload;
            dst = dst\<lparr>dc_dse_ascii_valid := ascii_valid, dc_dse_payload_length := stamp (int (length payload)) now_us,
                      dc_dse_digit_count := stamp (int (length (filter dsc_char_is_digit payload))) now_us\<rparr>
        in if \<not> ascii_valid then dst\<lparr>dc_dse_payload_type := DpInvalid\<rparr>
           else dst\<lparr>dc_dse_decoded_text := nmea_copy_cstr 64 payload [],
                    dc_dse_payload_type := (if all_digits \<and> has_digit then DpDigits
                      else if has_other \<or> has_alpha \<and> has_digit then DpMixedAscii else DpText)\<rparr>))"

section \<open>Alerts\<close>

definition given :: "message_int \<Rightarrow> bool" where
  "given v \<longleftrightarrow> snd v \<noteq> 0"

definition dsc_alert_matches_current :: "('f, 'r, 'c) dsc_arith \<Rightarrow> 'f dsc_message \<Rightarrow> ('r, 'c) dsc_alert \<Rightarrow> bool" where
  "dsc_alert_matches_current A dsc alert \<longleftrightarrow> da_first_seen_us alert \<noteq> 0 \<and> da_sender_mmsi alert = dm_sender_mmsi dsc \<and>
     (given (dm_category dsc) \<longrightarrow> sd_valid (da_category alert) \<and> sd_value (da_category alert) = fst (dm_category dsc)) \<and>
     (given (dm_nature dsc) \<longrightarrow> sd_valid (da_nature alert) \<and> sd_value (da_nature alert) = fst (dm_nature dsc)) \<and>
     (dm_has_position dsc \<longrightarrow> sd_valid (da_latitude_deg alert) \<and> sd_valid (da_longitude_deg alert) \<and>
        sd_value (da_latitude_deg alert) = c_of_f A (dm_latitude_deg dsc) \<and>
        sd_value (da_longitude_deg alert) = c_of_f A (dm_longitude_deg dsc))"

definition commit_dsc_alert ::
  "('f, 'r :: zero, 'c :: zero) dsc_arith \<Rightarrow> 'f dsc_message \<Rightarrow> string \<Rightarrow> u64 \<Rightarrow> sensor_source \<Rightarrow> bool \<Rightarrow> ('r, 'c) dsc_alert \<Rightarrow> bool \<times> ('r, 'c) dsc_alert" where
  "commit_dsc_alert A dsc alert_text now_us source duplicate alert0 =
     (let same_alert = dsc_alert_matches_current A dsc alert0;
          acknowledged = dsc_end_signal_is_ack (dm_end_of_sequence dsc);
          previous_repeats = count_of (da_repeat_count alert0);
          previously_acknowledged = same_alert \<and> da_acknowledged alert0
      in if acknowledged \<and> \<not> same_alert then (False, alert0)
         else
          (let alert = (if same_alert then alert0 else dsc_alert_init\<lparr>da_first_seen_us := now_us\<rparr>) in
           (True, alert\<lparr>da_source := source_of source (da_source alert),
              da_sender_mmsi := nmea_copy_cstr 16 (dm_sender_mmsi dsc) (da_sender_mmsi alert),
              da_address := nmea_copy_cstr 16 (dm_address dsc) (da_address alert),
              da_category := stamp_if (given (dm_category dsc)) (fst (dm_category dsc)) now_us (da_category alert),
              da_nature := stamp_if (given (dm_nature dsc)) (fst (dm_nature dsc)) now_us (da_nature alert),
              da_latitude_deg := stamp_if (dm_has_position dsc) (c_of_f A (dm_latitude_deg dsc)) now_us (da_latitude_deg alert),
              da_longitude_deg := stamp_if (dm_has_position dsc) (c_of_f A (dm_longitude_deg dsc)) now_us (da_longitude_deg alert),
              da_utc_time_s := stamp_if (dm_has_utc_time dsc) (r_of_f A (dm_utc_time_s dsc)) now_us (da_utc_time_s alert),
              da_alert_text := nmea_copy_cstr 96 alert_text (da_alert_text alert), da_active := True,
              da_acknowledged := previously_acknowledged \<or> acknowledged, da_resolved := False, da_duplicate := duplicate,
              da_repeat_count := stamp (if same_alert then previous_repeats + 1 else 1) now_us, da_last_update_us := now_us\<rparr>)))"

text \<open>
  The counters of the source are 32 bit signed integers that only count up; the model counts without a limit, so that the two agree
  for the first \<open>2 ^ 31 - 1\<close> calls, after which the source's increment is undefined.
\<close>

definition bump :: "bool \<Rightarrow> u64 \<Rightarrow> int stamped \<Rightarrow> int stamped" where
  "bump b now_us s = (if b then stamp (sd_value s + 1) now_us else s)"

definition promote_dsc_notifications ::
  "('f, 'r :: zero, 'c :: zero) dsc_arith \<Rightarrow> 'f dsc_message \<Rightarrow> u64 \<Rightarrow> sensor_source \<Rightarrow> bool \<Rightarrow>
   ('r, 'c) dsc_comm \<times> ('r, 'c) dsc_notifications \<Rightarrow> bool \<times> ('r, 'c) dsc_comm \<times> ('r, 'c) dsc_notifications" where
  "promote_dsc_notifications A dsc now_us source duplicate cn =
     (let (comm, notes) = cn;
          format = (if given (dm_format_specifier dsc) then fst (dm_format_specifier dsc) else 0);
          category = (if given (dm_category dsc) then fst (dm_category dsc) else 0);
          fresh = (\<not> duplicate \<and> \<not> dsc_end_signal_is_ack (dm_end_of_sequence dsc))
      in if dsc_format_is_distress format \<or> dsc_category_is_distress category
         then (case commit_dsc_alert A dsc ''DSC distress'' now_us source duplicate (dn_distress notes) of
                 (False, alert) \<Rightarrow> (False, comm, notes)
               | (True, alert) \<Rightarrow> (True, comm\<lparr>dk_distress_count := bump fresh now_us (dk_distress_count comm)\<rparr>, notes\<lparr>dn_distress := alert\<rparr>))
         else if dsc_category_is_urgency category
         then (case commit_dsc_alert A dsc ''DSC urgency'' now_us source duplicate (dn_urgency notes) of
                 (False, alert) \<Rightarrow> (False, comm, notes)
               | (True, alert) \<Rightarrow> (True, comm\<lparr>dk_urgency_count := bump fresh now_us (dk_urgency_count comm)\<rparr>, notes\<lparr>dn_urgency := alert\<rparr>))
         else if dsc_category_is_safety category
         then (case commit_dsc_alert A dsc ''DSC safety'' now_us source duplicate (dn_safety notes) of
                 (False, alert) \<Rightarrow> (False, comm, notes)
               | (True, alert) \<Rightarrow> (True, comm\<lparr>dk_safety_count := bump fresh now_us (dk_safety_count comm)\<rparr>, notes\<lparr>dn_safety := alert\<rparr>))
         else (False, comm, notes))"

section \<open>Commit\<close>

text \<open>The call that \<^verbatim>\<open>commit_dsc_message_to_model\<close> builds, before it is compared with the recent ones.\<close>

definition expansion_fields :: "dsc_expansion \<Rightarrow> u64 \<Rightarrow> ('r, 'c) dsc_call \<Rightarrow> ('r, 'c) dsc_call" where
  "expansion_fields dse now_us dst =
     (let payload = nmea_copy_cstr 64 (de_payload dse) (dc_dse_payload dst);
          dst = dst\<lparr>dc_dse_total_messages := stamp_if (given (de_total_messages dse)) (fst (de_total_messages dse)) now_us (dc_dse_total_messages dst),
                    dc_dse_message_number := stamp_if (given (de_message_number dse)) (fst (de_message_number dse)) now_us (dc_dse_message_number dst),
                    dc_dse_query_flag := de_query_flag dse,
                    dc_dse_expansion_specifier := stamp_if (given (de_expansion_specifier dse)) (fst (de_expansion_specifier dse)) now_us (dc_dse_expansion_specifier dst),
                    dc_dse_payload := payload\<rparr>
      in decode_dse_payload payload now_us dst)"

definition dsc_call_of ::
  "('f, 'r :: zero, 'c :: zero) dsc_arith \<Rightarrow> 'f dsc_message \<Rightarrow> dsc_expansion \<Rightarrow> u64 \<Rightarrow> sensor_source \<Rightarrow> bool \<Rightarrow> bool \<Rightarrow> ('r, 'c) dsc_call" where
  "dsc_call_of A dsc dse now_us source expansion_received expansion_timeout =
     (let dst = dsc_call_init;
          has_format = given (dm_format_specifier dsc);
          has_category = given (dm_category dsc);
          format = (if has_format then fst (dm_format_specifier dsc) else 0);
          category = (if has_category then fst (dm_category dsc) else 0);
          dst = dst\<lparr>dc_source := source_of source (dc_source dst),
            dc_format_specifier := stamp_if has_format format now_us (dc_format_specifier dst),
            dc_sender_mmsi := nmea_copy_cstr 16 (dm_sender_mmsi dsc) (dc_sender_mmsi dst),
            dc_category := stamp_if has_category category now_us (dc_category dst),
            dc_nature := stamp_if (given (dm_nature dsc)) (fst (dm_nature dsc)) now_us (dc_nature dst),
            dc_communication := stamp_if (given (dm_communication dsc)) (fst (dm_communication dsc)) now_us (dc_communication dst),
            dc_position_code := nmea_copy_cstr 16 (dm_position_code dsc) (dc_position_code dst),
            dc_latitude_deg := stamp_if (dm_has_position dsc) (c_of_f A (dm_latitude_deg dsc)) now_us (dc_latitude_deg dst),
            dc_longitude_deg := stamp_if (dm_has_position dsc) (c_of_f A (dm_longitude_deg dsc)) now_us (dc_longitude_deg dst),
            dc_utc_time_s := stamp_if (dm_has_utc_time dsc) (r_of_f A (dm_utc_time_s dsc)) now_us (dc_utc_time_s dst),
            dc_address := nmea_copy_cstr 16 (dm_address dsc) (dc_address dst),
            dc_field10 := nmea_copy_cstr 16 (dm_field10 dsc) (dc_field10 dst),
            dc_end_of_sequence := dm_end_of_sequence dsc,
            dc_priority := dsc_priority_from_codes has_format format has_category category,
            dc_address_type := dsc_address_type_from_format has_format format,
            dc_end_signal_type := dsc_end_signal_type_from_char (dm_end_of_sequence dsc),
            dc_expansion_expected := dsc_expansion_expected dsc,
            dc_expansion_received := expansion_received, dc_expansion_timeout := expansion_timeout\<rparr>;
          dst = (if expansion_received then expansion_fields dse now_us dst else dst)
      in dst\<lparr>dc_field_count := stamp (if dc_expansion_expected dst then 11 else 10) now_us,
             dc_first_seen_us := (if dm_last_update_us dsc \<noteq> 0 then dm_last_update_us dsc else now_us),
             dc_last_update_us := now_us, dc_repeat_count := stamp 1 now_us\<rparr>)"

definition commit_dsc_message_to_model ::
  "('f, 'r :: zero, 'c :: zero) dsc_arith \<Rightarrow> u64 \<Rightarrow> sensor_source \<Rightarrow> bool \<Rightarrow> bool \<Rightarrow> ('f, 'r, 'c) dsc_state \<Rightarrow> ('f, 'r, 'c) dsc_state" where
  "commit_dsc_message_to_model A now_us source expansion_received expansion_timeout x =
     (let dsc = dx_message x;
          dst = dsc_call_of A dsc (dx_expansion x) now_us source expansion_received expansion_timeout;
          alert_ack = (dsc_end_signal_is_ack (dc_end_of_sequence dst) \<and> dsc_priority_is_alert (dc_priority dst))
      in case find_recent_dsc_duplicate (dx_comm x) dst now_us of
           Some i \<Rightarrow>
            (let previous = dk_recent_calls (dx_comm x) ! i;
                 previous_repeats = (if sd_valid (dc_repeat_count previous) then sd_value (dc_repeat_count previous) else 1);
                 (promoted, comm, notes) = promote_dsc_notifications A dsc now_us source True (dx_comm x, dx_notifications x);
                 dst = dst\<lparr>dc_duplicate := True, dc_repeat_count := stamp (previous_repeats + 1) now_us,
                           dc_first_seen_us := (if dc_first_seen_us previous \<noteq> 0 then dc_first_seen_us previous else dc_first_seen_us dst),
                           dc_orphan_ack := alert_ack \<and> \<not> promoted\<rparr>
             in x\<lparr>dx_comm := comm\<lparr>dk_latest_call := dst, dk_recent_calls := (dk_recent_calls comm)[i := dst],
                       dk_duplicate_count := bump True now_us (dk_duplicate_count comm)\<rparr>,
                  dx_notifications := notes\<rparr>)
         | None \<Rightarrow>
            (let (promoted, comm, notes) = promote_dsc_notifications A dsc now_us source False (dx_comm x, dx_notifications x);
                 dst = dst\<lparr>dc_orphan_ack := alert_ack \<and> \<not> promoted\<rparr>;
                 comm = comm\<lparr>dk_latest_call := dst,
                             dk_acknowledged_count := bump (alert_ack \<and> promoted) now_us (dk_acknowledged_count comm),
                             dk_orphan_ack_count := bump (alert_ack \<and> \<not> promoted) now_us (dk_orphan_ack_count comm)\<rparr>;
                 comm = push_recent_dsc_call dst now_us comm
             in x\<lparr>dx_comm := comm\<lparr>dk_call_count := bump True now_us (dk_call_count comm),
                       dk_expansion_timeout_count := bump expansion_timeout now_us (dk_expansion_timeout_count comm)\<rparr>,
                  dx_notifications := notes\<rparr>))"

definition clear_pending :: "('f, 'r, 'c) dsc_state \<Rightarrow> ('f, 'r, 'c) dsc_state" where
  "clear_pending x = x\<lparr>dx_pending_commit := False, dx_pending_started_us := 0, dx_pending_source := SrcNone\<rparr>"

definition expire_pending_dsc_if_needed ::
  "('f, 'r :: zero, 'c :: zero) dsc_arith \<Rightarrow> u64 \<Rightarrow> ('f, 'r, 'c) dsc_state \<Rightarrow> ('f, 'r, 'c) dsc_state" where
  "expire_pending_dsc_if_needed A now_us x =
     (if \<not> dx_pending_commit x then x
      else if dx_pending_started_us x = 0 \<or> now_us < dx_pending_started_us x then x
      else if now_us - dx_pending_started_us x \<le> DSC_DSE_TIMEOUT_US then x
      else commit_dsc_message_to_model A now_us (dx_pending_source x) False True (clear_pending x))"

section \<open>Sentences\<close>

datatype dsc_error = DscShort | DseShort | DsiShort | DsrShort

definition int_field :: "nmea_sentence \<Rightarrow> nat \<Rightarrow> u64 \<Rightarrow> message_int" where
  "int_field s i now_us = (case parse_int32 (ns_field s i) of Some v \<Rightarrow> (v, now_us) | None \<Rightarrow> (0, 0))"

definition text_field :: "nat \<Rightarrow> nmea_sentence \<Rightarrow> nat \<Rightarrow> string" where
  "text_field capacity s i = cstr (nmea_copy_span capacity (ns_field s i) [])"

definition dsc_message_of :: "('f :: zero, 'r, 'c) dsc_arith \<Rightarrow> nmea_sentence \<Rightarrow> u64 \<Rightarrow> sensor_source \<Rightarrow> 'f dsc_message" where
  "dsc_message_of A s now_us source =
     (let position = parse_dsc_compact_position A (ns_field s 5);
          time = parse_nmea_hhmm_time_s (ns_field s 6)
      in dsc_message_init
        \<lparr>dm_format_specifier := int_field s 0 now_us, dm_sender_mmsi := text_field 16 s 1, dm_category := int_field s 2 now_us,
         dm_nature := int_field s 3 now_us, dm_communication := int_field s 4 now_us, dm_position_code := text_field 16 s 5,
         dm_latitude_deg := (case position of Some (lat, lon) \<Rightarrow> lat | None \<Rightarrow> 0),
         dm_longitude_deg := (case position of Some (lat, lon) \<Rightarrow> lon | None \<Rightarrow> 0), dm_has_position := position \<noteq> None,
         dm_utc_time_s := (case time of Some t \<Rightarrow> f_of_int A t | None \<Rightarrow> 0), dm_has_utc_time := time \<noteq> None,
         dm_address := text_field 16 s 7, dm_field10 := text_field 16 s 8, dm_end_of_sequence := span_at (ns_field s 9) 0,
         dm_expansion_flag := (if 10 < length (ns_fields s) then span_at (ns_field s 10) 0 else NUL),
         dm_source := source_of source SrcNone, dm_last_update_us := now_us\<rparr>)"

definition apply_dsc ::
  "('f :: zero, 'r :: zero, 'c :: zero) dsc_arith \<Rightarrow> nmea_sentence \<Rightarrow> u64 \<Rightarrow> sensor_source \<Rightarrow> ('f, 'r, 'c) dsc_state \<Rightarrow>
   dsc_error option \<times> ('f, 'r, 'c) dsc_state" where
  "apply_dsc A s now_us source x =
     (if length (ns_fields s) < 10 then (Some DscShort, x)
      else
       (let x = x\<lparr>dx_message := dsc_message_of A s now_us source\<rparr> in
        if dsc_expansion_expected (dx_message x)
        then (None, x\<lparr>dx_pending_commit := True, dx_pending_started_us := now_us, dx_pending_source := source\<rparr>)
        else (None, commit_dsc_message_to_model A now_us source False False (clear_pending x))))"

definition dse_of :: "nmea_sentence \<Rightarrow> u64 \<Rightarrow> sensor_source \<Rightarrow> dsc_expansion" where
  "dse_of s now_us source =
     dsc_expansion_init\<lparr>de_total_messages := int_field s 0 now_us, de_message_number := int_field s 1 now_us,
       de_query_flag := span_at (ns_field s 2) 0, de_sender_mmsi := text_field 16 s 3,
       de_expansion_specifier := int_field s 4 now_us, de_payload := text_field 64 s 5,
       de_source := source_of source SrcNone, de_last_update_us := now_us\<rparr>"

text \<open>\<open>multipart\<close> is the record in which the fragments of DSC sentences are collected.\<close>

definition apply_dse ::
  "('f, 'r :: zero, 'c :: zero) dsc_arith \<Rightarrow> nmea_sentence \<Rightarrow> multipart_record \<Rightarrow> u64 \<Rightarrow> sensor_source \<Rightarrow> ('f, 'r, 'c) dsc_state \<Rightarrow>
   dsc_error option \<times> ('f, 'r, 'c) dsc_state" where
  "apply_dse A s multipart now_us source x =
     (if length (ns_fields s) < 6 then (Some DseShort, x)
      else
       (let dse = dse_of s now_us source;
            x = x\<lparr>dx_expansion := dse\<rparr>;
            fragmented = fg_is_fragmented (ns_fragment s)
        in if dse_matches_pending_dsc source x
           then if fragmented \<and> \<not> mr_complete multipart then (None, x)
                else (let x = (if fragmented then x\<lparr>dx_expansion := dse\<lparr>de_payload := nmea_copy_cstr 64 (mr_text multipart) (de_payload dse)\<rparr>\<rparr> else x)
                      in (None, commit_dsc_message_to_model A now_us source True False (clear_pending x)))
           else (None, x)))"

definition inquiry_of :: "nmea_sentence \<Rightarrow> u64 \<Rightarrow> sensor_source \<Rightarrow> dsc_inquiry \<Rightarrow> dsc_inquiry" where
  "inquiry_of s now_us source old =
     old\<lparr>di_id := text_field 24 s 0,
         di_remote_mmsi := (if 1 < length (ns_fields s) then text_field 16 s 1 else di_remote_mmsi old),
         di_field_count := stamp (int (length (ns_fields s))) now_us, di_source := source_of source (di_source old),
         di_last_update_us := now_us\<rparr>"

definition apply_dsi ::
  "nmea_sentence \<Rightarrow> u64 \<Rightarrow> sensor_source \<Rightarrow> ('f, 'r, 'c) dsc_state \<Rightarrow> dsc_error option \<times> ('f, 'r, 'c) dsc_state" where
  "apply_dsi s now_us source x =
     (if ns_fields s = [] then (Some DsiShort, x)
      else (None, x\<lparr>dx_notifications := (dx_notifications x)\<lparr>dn_interrogation := inquiry_of s now_us source (dn_interrogation (dx_notifications x))\<rparr>\<rparr>))"

definition apply_dsr ::
  "nmea_sentence \<Rightarrow> u64 \<Rightarrow> sensor_source \<Rightarrow> ('f, 'r, 'c) dsc_state \<Rightarrow> dsc_error option \<times> ('f, 'r, 'c) dsc_state" where
  "apply_dsr s now_us source x =
     (if ns_fields s = [] then (Some DsrShort, x)
      else (None, x\<lparr>dx_notifications := (dx_notifications x)\<lparr>dn_response := inquiry_of s now_us source (dn_response (dx_notifications x))\<rparr>\<rparr>))"

text \<open>
  The calling part of \<^verbatim>\<open>apply_sentence\<close>: a waiting call that is overdue is committed first, then the fragments are collected,
  then the sentence is applied. The appliers of other sentences leave this state alone.
\<close>

definition dsc_apply_sentence ::
  "('f :: zero, 'r :: zero, 'c :: zero) dsc_arith \<Rightarrow> nmea_sentence \<Rightarrow> u64 \<Rightarrow> sensor_source \<Rightarrow> message_state \<times> ('f, 'r, 'c) dsc_state \<Rightarrow>
   dsc_error option \<times> message_state \<times> ('f, 'r, 'c) dsc_state" where
  "dsc_apply_sentence A s now_us source mx =
     (let x = expire_pending_dsc_if_needed A now_us (snd mx);
          ms = update_multipart_message_state s (uint now_us) source (fst mx);
          applied = (if sentence_is s ''DSC'' then apply_dsc A s now_us source x
                      else if sentence_is s ''DSE'' then apply_dse A s (ms_dsc ms) now_us source x
                      else if sentence_is s ''DSI'' then apply_dsi s now_us source x
                      else if sentence_is s ''DSR'' then apply_dsr s now_us source x
                      else (None, x))
      in (fst applied, ms, snd applied))"

definition dsc_run ::
  "('f :: zero, 'r :: zero, 'c :: zero) dsc_arith \<Rightarrow> (nmea_sentence \<times> u64 \<times> sensor_source) list \<Rightarrow> message_state \<times> ('f, 'r, 'c) dsc_state \<Rightarrow>
   message_state \<times> ('f, 'r, 'c) dsc_state" where
  "dsc_run A ss mx = fold (\<lambda>(s, t, src) mx. snd (dsc_apply_sentence A s t src mx)) ss mx"

section \<open>What a commit does\<close>

lemma count_of_stamp [simp]: "count_of (stamp n now) = n" "count_of stamped_init = 0"
  by (simp_all add: count_of_def)

lemma sd_value_bump: "sd_value (bump b now s) = sd_value s + of_bool b"
  by (simp add: bump_def)

lemma promote_frame:
  assumes "promote_dsc_notifications A dsc now src dup (comm, notes) = (promoted, comm', notes')"
  shows "dk_recent_calls comm' = dk_recent_calls comm" "dk_recent_call_count comm' = dk_recent_call_count comm"
    "dk_recent_call_next_index comm' = dk_recent_call_next_index comm" "dk_call_count comm' = dk_call_count comm"
    "dk_duplicate_count comm' = dk_duplicate_count comm" "dk_acknowledged_count comm' = dk_acknowledged_count comm"
    "dk_orphan_ack_count comm' = dk_orphan_ack_count comm" "dk_expansion_timeout_count comm' = dk_expansion_timeout_count comm"
  using assms by (auto simp: promote_dsc_notifications_def Let_def split: if_splits prod.splits bool.splits)

text \<open>The history of calls as a list, oldest first; the ring that stores it starts to wrap once it is full.\<close>

definition dsc_history :: "('r, 'c) dsc_comm \<Rightarrow> ('r, 'c) dsc_call list" where
  "dsc_history comm =
     (let n = nat (count_of (dk_recent_call_count comm)); k = nat (count_of (dk_recent_call_next_index comm)) in
      if n < DSC_CALL_HISTORY_CAPACITY then take n (dk_recent_calls comm)
      else drop k (dk_recent_calls comm) @ take k (dk_recent_calls comm))"

definition dsc_inv :: "('r, 'c) dsc_comm \<Rightarrow> bool" where
  "dsc_inv comm \<longleftrightarrow> length (dk_recent_calls comm) = DSC_CALL_HISTORY_CAPACITY \<and>
     0 \<le> count_of (dk_recent_call_count comm) \<and> count_of (dk_recent_call_count comm) \<le> int DSC_CALL_HISTORY_CAPACITY \<and>
     0 \<le> count_of (dk_recent_call_next_index comm) \<and> count_of (dk_recent_call_next_index comm) < int DSC_CALL_HISTORY_CAPACITY \<and>
     (count_of (dk_recent_call_count comm) < int DSC_CALL_HISTORY_CAPACITY \<longrightarrow>
        count_of (dk_recent_call_next_index comm) = count_of (dk_recent_call_count comm)) \<and>
     (\<forall>i. nat (count_of (dk_recent_call_count comm)) \<le> i \<and> i < DSC_CALL_HISTORY_CAPACITY \<longrightarrow> dc_last_update_us (dk_recent_calls comm ! i) = 0)"

lemma dsc_inv_init [sk_inv]: "dsc_inv dsc_comm_init"
  by (simp add: dsc_inv_def dsc_comm_init_def dsc_call_init_def nth_replicate)

lemma ring_cases:
  assumes "length xs = 4"
  obtains a b c d where "xs = [a, b, c, d]"
  using assms by (auto simp: numeral_eq_Suc length_Suc_conv)

text \<open>Writing a new call into the ring appends it to the history and drops the oldest call of a full one.\<close>

lemma push_history_room:
  assumes "dsc_inv comm" "count_of (dk_recent_call_count comm) < 4"
  shows "dsc_inv (push_recent_dsc_call call now comm)" "dsc_history (push_recent_dsc_call call now comm) = dsc_history comm @ [call]"
proof -
  let ?k = "count_of (dk_recent_call_next_index comm)" and ?n = "count_of (dk_recent_call_count comm)"
  from assms obtain a b c d where r: "dk_recent_calls comm = [a, b, c, d]" by (auto simp: dsc_inv_def elim: ring_cases)
  have kn: "?k = ?n" and n: "0 \<le> ?n" using assms by (auto simp: dsc_inv_def)
  show "dsc_inv (push_recent_dsc_call call now comm)"
    using assms kn n by (auto simp: dsc_inv_def push_recent_dsc_call_def Let_def nth_list_update nat_add_distrib)
  from n assms(2) consider "?n = 0" | "?n = 1" | "?n = 2" | "?n = 3" by linarith
  then show "dsc_history (push_recent_dsc_call call now comm) = dsc_history comm @ [call]"
    by cases (use kn in \<open>simp_all add: dsc_history_def push_recent_dsc_call_def r\<close>)
qed

lemma push_history_full:
  assumes "dsc_inv comm" "count_of (dk_recent_call_count comm) = 4"
  shows "dsc_inv (push_recent_dsc_call call now comm)" "dsc_history (push_recent_dsc_call call now comm) = tl (dsc_history comm) @ [call]"
proof -
  let ?k = "count_of (dk_recent_call_next_index comm)"
  from assms obtain a b c d where r: "dk_recent_calls comm = [a, b, c, d]" by (auto simp: dsc_inv_def elim: ring_cases)
  have k: "0 \<le> ?k" "?k < 4" using assms by (auto simp: dsc_inv_def)
  show "dsc_inv (push_recent_dsc_call call now comm)"
    using assms k by (auto simp: dsc_inv_def push_recent_dsc_call_def Let_def)
  from k consider "?k = 0" | "?k = 1" | "?k = 2" | "?k = 3" by linarith
  then show "dsc_history (push_recent_dsc_call call now comm) = tl (dsc_history comm) @ [call]"
    by cases (use assms in \<open>simp_all add: dsc_history_def push_recent_dsc_call_def r\<close>)
qed

lemma length_history: "dsc_inv comm \<Longrightarrow> length (dsc_history comm) = nat (count_of (dk_recent_call_count comm))"
  by (auto simp: dsc_inv_def dsc_history_def Let_def)

definition history_add :: "'a \<Rightarrow> 'a list \<Rightarrow> 'a list" where
  "history_add call h = (if length h < DSC_CALL_HISTORY_CAPACITY then h else tl h) @ [call]"

lemma push_history:
  assumes "dsc_inv comm"
  shows "dsc_inv (push_recent_dsc_call call now comm)"
    "dsc_history (push_recent_dsc_call call now comm) = history_add call (dsc_history comm)"
proof -
  have "count_of (dk_recent_call_count comm) < 4 \<or> count_of (dk_recent_call_count comm) = 4"
    using assms by (auto simp: dsc_inv_def)
  then show "dsc_inv (push_recent_dsc_call call now comm)"
    "dsc_history (push_recent_dsc_call call now comm) = history_add call (dsc_history comm)"
    using push_history_room [OF assms] push_history_full [OF assms] length_history [OF assms] by (auto simp: history_add_def)
qed

text \<open>Replacing a used entry of the ring replaces one call of the history.\<close>

lemma update_history:
  fixes comm :: "('r, 'c) dsc_comm" and call :: "('r, 'c) dsc_call" and i :: nat
  assumes "dsc_inv comm" "i < DSC_CALL_HISTORY_CAPACITY" "dc_last_update_us (dk_recent_calls comm ! i) \<noteq> 0"
  defines "comm' \<equiv> comm\<lparr>dk_recent_calls := (dk_recent_calls comm)[i := call]\<rparr>"
  obtains j where "j < length (dsc_history comm)" "dsc_history comm ! j = dk_recent_calls comm ! i"
    "dsc_history comm' = (dsc_history comm)[j := call]" "dsc_inv comm'"
proof -
  let ?n = "nat (count_of (dk_recent_call_count comm))" and ?k = "nat (count_of (dk_recent_call_next_index comm))"
  let ?r = "dk_recent_calls comm"
  have i: "i < ?n" using assms(1-3) by (auto simp: dsc_inv_def not_le [symmetric])
  have k: "?k < 4" and l: "length ?r = 4" and n: "?n \<le> 4" using assms(1) by (auto simp: dsc_inv_def)
  have inv: "dsc_inv comm'" using assms(1) i by (auto simp: dsc_inv_def comm'_def)
  show ?thesis
  proof (cases "?n < 4")
    case True
    with i l show ?thesis by (intro that [of i] inv) (auto simp: dsc_history_def comm'_def take_update_swap)
  next
    case False
    then have h: "dsc_history comm = drop ?k ?r @ take ?k ?r" "dsc_history comm' = drop ?k (?r[i := call]) @ take ?k (?r[i := call])"
      by (auto simp: dsc_history_def comm'_def Let_def)
    show ?thesis
    proof (cases "?k \<le> i")
      case True
      with h k l assms(2) show ?thesis
        by (intro that [of "i - ?k"] inv) (auto simp: nth_append list_update_append drop_update_swap)
    next
      case False
      with h k l assms(2) show ?thesis
        by (intro that [of "4 - ?k + i"] inv) (auto simp: nth_append list_update_append take_update_swap)
    qed
  qed
qed

lemma history_calls: "dsc_inv comm \<Longrightarrow> set (dsc_history comm) \<subseteq> set (dk_recent_calls comm)"
  by (auto simp: dsc_history_def Let_def dest: in_set_takeD in_set_dropD split: if_splits)

lemma duplicate_in_history:
  assumes "dsc_inv comm"
  shows "find_recent_dsc_duplicate comm call now = None \<longleftrightarrow> \<not> list_ex (recent_duplicate call now) (dsc_history comm)"
proof
  assume "find_recent_dsc_duplicate comm call now = None"
  then show "\<not> list_ex (recent_duplicate call now) (dsc_history comm)"
    using history_calls [OF assms] by (auto simp: find_recent_dsc_duplicate_def index_where_None list_ex_iff)
next
  assume none: "\<not> list_ex (recent_duplicate call now) (dsc_history comm)"
  show "find_recent_dsc_duplicate comm call now = None"
  proof (rule ccontr)
    assume "find_recent_dsc_duplicate comm call now \<noteq> None"
    then obtain i where i: "i < DSC_CALL_HISTORY_CAPACITY" "recent_duplicate call now (dk_recent_calls comm ! i)"
      using assms by (auto simp: find_recent_dsc_duplicate_def dsc_inv_def dest: index_where_SomeD)
    then have "dc_last_update_us (dk_recent_calls comm ! i) \<noteq> 0" by (simp add: recent_duplicate_def)
    then obtain j where "j < length (dsc_history comm)" "dsc_history comm ! j = dk_recent_calls comm ! i"
      by (rule update_history [OF assms i(1)])
    with i(2) show False using none by (metis list_ex_iff nth_mem)
  qed
qed

text \<open>What a commit makes of a call that is a duplicate of an earlier one.\<close>

definition repeated_call :: "u64 \<Rightarrow> bool \<Rightarrow> ('r, 'c) dsc_call \<Rightarrow> ('r, 'c) dsc_call \<Rightarrow> ('r, 'c) dsc_call" where
  "repeated_call now orphan previous call = call
     \<lparr>dc_duplicate := True,
      dc_repeat_count := stamp ((if sd_valid (dc_repeat_count previous) then sd_value (dc_repeat_count previous) else 1) + 1) now,
      dc_first_seen_us := (if dc_first_seen_us previous \<noteq> 0 then dc_first_seen_us previous else dc_first_seen_us call),
      dc_orphan_ack := orphan\<rparr>"

lemma commit_new:
  fixes x :: "('f, 'r :: zero, 'c :: zero) dsc_state"
  assumes "find_recent_dsc_duplicate (dx_comm x) (dsc_call_of A (dx_message x) (dx_expansion x) now src r t) now = None"
    and "promote_dsc_notifications A (dx_message x) now src False (dx_comm x, dx_notifications x) = (promoted, comm, notes)"
  shows "\<exists>orphan acks orphans. commit_dsc_message_to_model A now src r t x =
     (let call = (dsc_call_of A (dx_message x) (dx_expansion x) now src r t)\<lparr>dc_orphan_ack := orphan\<rparr>;
          comm' = push_recent_dsc_call call now
            (comm\<lparr>dk_latest_call := call, dk_acknowledged_count := acks, dk_orphan_ack_count := orphans\<rparr>)
      in x\<lparr>dx_comm := comm'\<lparr>dk_call_count := bump True now (dk_call_count comm'),
              dk_expansion_timeout_count := bump t now (dk_expansion_timeout_count comm')\<rparr>, dx_notifications := notes\<rparr>)"
  by (intro exI) (simp add: commit_dsc_message_to_model_def assms Let_def)

lemma commit_repeat:
  fixes x :: "('f, 'r :: zero, 'c :: zero) dsc_state"
  assumes "find_recent_dsc_duplicate (dx_comm x) (dsc_call_of A (dx_message x) (dx_expansion x) now src r t) now = Some i"
    and "promote_dsc_notifications A (dx_message x) now src True (dx_comm x, dx_notifications x) = (promoted, comm, notes)"
  shows "\<exists>orphan. commit_dsc_message_to_model A now src r t x =
     (let call = repeated_call now orphan (dk_recent_calls (dx_comm x) ! i) (dsc_call_of A (dx_message x) (dx_expansion x) now src r t)
      in x\<lparr>dx_comm := comm\<lparr>dk_latest_call := call, dk_recent_calls := (dk_recent_calls comm)[i := call],
              dk_duplicate_count := bump True now (dk_duplicate_count comm)\<rparr>, dx_notifications := notes\<rparr>)"
  by (intro exI) (simp add: commit_dsc_message_to_model_def assms Let_def repeated_call_def)

text \<open>The state of the receiver that commits do not touch.\<close>

lemma commit_frame:
  "dx_message (commit_dsc_message_to_model A now src r t x) = dx_message x"
  "dx_expansion (commit_dsc_message_to_model A now src r t x) = dx_expansion x"
  "dx_pending_commit (commit_dsc_message_to_model A now src r t x) = dx_pending_commit x"
  "dx_pending_started_us (commit_dsc_message_to_model A now src r t x) = dx_pending_started_us x"
  "dx_pending_source (commit_dsc_message_to_model A now src r t x) = dx_pending_source x"
  by (auto simp: commit_dsc_message_to_model_def Let_def split: option.splits prod.splits)

lemma dsc_inv_cong:
  "dk_recent_calls c = dk_recent_calls c' \<Longrightarrow> dk_recent_call_count c = dk_recent_call_count c' \<Longrightarrow>
   dk_recent_call_next_index c = dk_recent_call_next_index c' \<Longrightarrow> dsc_inv c = dsc_inv c' \<and> dsc_history c = dsc_history c'"
  by (simp add: dsc_inv_def dsc_history_def Let_def)

text \<open>The call without what the comparison with earlier calls adds to it.\<close>

definition call_content :: "('r, 'c) dsc_call \<Rightarrow> ('r, 'c) dsc_call" where
  "call_content call = call\<lparr>dc_duplicate := False, dc_orphan_ack := False, dc_repeat_count := stamped_init, dc_first_seen_us := 0\<rparr>"

definition history_step ::
  "u64 \<Rightarrow> ('r, 'c) dsc_call \<Rightarrow> ('r, 'c) dsc_comm \<Rightarrow> ('r, 'c) dsc_comm \<Rightarrow> bool" where
  "history_step now call comm comm' \<longleftrightarrow>
     (if list_ex (recent_duplicate call now) (dsc_history comm)
      then \<exists>j orphan. j < length (dsc_history comm) \<and> recent_duplicate call now (dsc_history comm ! j) \<and>
             dsc_history comm' = (dsc_history comm)[j := repeated_call now orphan (dsc_history comm ! j) call] \<and>
             dk_latest_call comm' = repeated_call now orphan (dsc_history comm ! j) call \<and>
             sd_value (dk_call_count comm') = sd_value (dk_call_count comm) \<and>
             sd_value (dk_duplicate_count comm') = sd_value (dk_duplicate_count comm) + 1
      else \<exists>orphan. dsc_history comm' = history_add (call\<lparr>dc_orphan_ack := orphan\<rparr>) (dsc_history comm) \<and>
             dk_latest_call comm' = call\<lparr>dc_orphan_ack := orphan\<rparr> \<and>
             sd_value (dk_call_count comm') = sd_value (dk_call_count comm) + 1 \<and>
             sd_value (dk_duplicate_count comm') = sd_value (dk_duplicate_count comm))"

lemma push_frame:
  "dk_latest_call (push_recent_dsc_call call now comm) = dk_latest_call comm"
  "dk_call_count (push_recent_dsc_call call now comm) = dk_call_count comm"
  "dk_duplicate_count (push_recent_dsc_call call now comm) = dk_duplicate_count comm"
  "dk_expansion_timeout_count (push_recent_dsc_call call now comm) = dk_expansion_timeout_count comm"
  by (simp_all add: push_recent_dsc_call_def Let_def)

lemma commit_history_new:
  fixes x :: "('f, 'r :: zero, 'c :: zero) dsc_state"
  assumes "dsc_inv (dx_comm x)"
    and none: "find_recent_dsc_duplicate (dx_comm x) (dsc_call_of A (dx_message x) (dx_expansion x) now src r t) now = None"
  shows "dsc_inv (dx_comm (commit_dsc_message_to_model A now src r t x)) \<and>
    history_step now (dsc_call_of A (dx_message x) (dx_expansion x) now src r t) (dx_comm x)
      (dx_comm (commit_dsc_message_to_model A now src r t x))"
proof -
  let ?call = "dsc_call_of A (dx_message x) (dx_expansion x) now src r t"
  obtain promoted comm ntf where p: "promote_dsc_notifications A (dx_message x) now src False (dx_comm x, dx_notifications x) = (promoted, comm, ntf)"
    by (metis prod_cases3)
  obtain orphan acks orphans where c: "commit_dsc_message_to_model A now src r t x =
     (let call = ?call\<lparr>dc_orphan_ack := orphan\<rparr>;
          comm' = push_recent_dsc_call call now
            (comm\<lparr>dk_latest_call := call, dk_acknowledged_count := acks, dk_orphan_ack_count := orphans\<rparr>)
      in x\<lparr>dx_comm := comm'\<lparr>dk_call_count := bump True now (dk_call_count comm'),
              dk_expansion_timeout_count := bump t now (dk_expansion_timeout_count comm')\<rparr>, dx_notifications := ntf\<rparr>)"
    using commit_new [OF none p] by blast
  let ?new = "?call\<lparr>dc_orphan_ack := orphan\<rparr>"
  let ?base = "comm\<lparr>dk_latest_call := ?new, dk_acknowledged_count := acks, dk_orphan_ack_count := orphans\<rparr>"
  let ?comm = "dx_comm (commit_dsc_message_to_model A now src r t x)"
  have b: "dsc_inv ?base = dsc_inv (dx_comm x) \<and> dsc_history ?base = dsc_history (dx_comm x)"
    by (rule dsc_inv_cong) (simp_all add: promote_frame [OF p])
  have e: "dsc_inv ?comm = dsc_inv (push_recent_dsc_call ?new now ?base) \<and> dsc_history ?comm = dsc_history (push_recent_dsc_call ?new now ?base)"
    by (rule dsc_inv_cong) (simp_all add: c Let_def)
  have f: "dk_latest_call ?comm = ?new" "sd_value (dk_call_count ?comm) = sd_value (dk_call_count (dx_comm x)) + 1"
    "dk_duplicate_count ?comm = dk_duplicate_count (dx_comm x)"
    by (simp_all add: c Let_def push_frame sd_value_bump promote_frame [OF p])
  have "dsc_inv ?base" using b assms by simp
  from push_history [OF this] have "dsc_inv ?comm" "dsc_history ?comm = history_add ?new (dsc_history (dx_comm x))" by (simp_all add: b e)
  moreover have "\<not> list_ex (recent_duplicate ?call now) (dsc_history (dx_comm x))" using none duplicate_in_history [OF assms(1)] by simp
  ultimately show ?thesis using f by (auto simp: history_step_def)
qed

lemma commit_history_repeat:
  fixes x :: "('f, 'r :: zero, 'c :: zero) dsc_state"
  assumes "dsc_inv (dx_comm x)"
    and some: "find_recent_dsc_duplicate (dx_comm x) (dsc_call_of A (dx_message x) (dx_expansion x) now src r t) now = Some i"
  shows "dsc_inv (dx_comm (commit_dsc_message_to_model A now src r t x)) \<and>
    history_step now (dsc_call_of A (dx_message x) (dx_expansion x) now src r t) (dx_comm x)
      (dx_comm (commit_dsc_message_to_model A now src r t x))"
proof -
  let ?call = "dsc_call_of A (dx_message x) (dx_expansion x) now src r t"
  obtain promoted comm ntf where p: "promote_dsc_notifications A (dx_message x) now src True (dx_comm x, dx_notifications x) = (promoted, comm, ntf)"
    by (metis prod_cases3)
  let ?old = "dk_recent_calls (dx_comm x) ! i"
  obtain orphan where c: "commit_dsc_message_to_model A now src r t x =
     (let call = repeated_call now orphan ?old ?call
      in x\<lparr>dx_comm := comm\<lparr>dk_latest_call := call, dk_recent_calls := (dk_recent_calls comm)[i := call],
              dk_duplicate_count := bump True now (dk_duplicate_count comm)\<rparr>, dx_notifications := ntf\<rparr>)"
    using commit_repeat [OF some p] by blast
  let ?new = "repeated_call now orphan ?old ?call" and ?comm = "dx_comm (commit_dsc_message_to_model A now src r t x)"
  let ?base = "(dx_comm x)\<lparr>dk_recent_calls := (dk_recent_calls (dx_comm x))[i := ?new]\<rparr>"
  have i: "i < DSC_CALL_HISTORY_CAPACITY" "recent_duplicate ?call now ?old"
    using some assms by (auto simp: find_recent_dsc_duplicate_def dsc_inv_def dest: index_where_SomeD)
  then have "dc_last_update_us ?old \<noteq> 0" by (simp add: recent_duplicate_def)
  then obtain j where j: "j < length (dsc_history (dx_comm x))" "dsc_history (dx_comm x) ! j = ?old"
    "dsc_history ?base = (dsc_history (dx_comm x))[j := ?new]" "dsc_inv ?base"
    by (rule update_history [OF assms(1) i(1)])
  have e: "dsc_inv ?comm = dsc_inv ?base \<and> dsc_history ?comm = dsc_history ?base"
    by (rule dsc_inv_cong) (simp_all add: c Let_def promote_frame [OF p])
  have f: "dk_latest_call ?comm = ?new" "dk_call_count ?comm = dk_call_count (dx_comm x)"
    "sd_value (dk_duplicate_count ?comm) = sd_value (dk_duplicate_count (dx_comm x)) + 1"
    by (simp_all add: c Let_def sd_value_bump promote_frame [OF p])
  have "list_ex (recent_duplicate ?call now) (dsc_history (dx_comm x))" using some duplicate_in_history [OF assms(1), of ?call now] by simp
  then show ?thesis using f e i(2) j by (auto simp: history_step_def intro!: exI [of _ j] exI [of _ orphan])
qed

lemma commit_history:
  fixes x :: "('f, 'r :: zero, 'c :: zero) dsc_state"
  assumes "dsc_inv (dx_comm x)"
  shows "dsc_inv (dx_comm (commit_dsc_message_to_model A now src r t x)) \<and>
    history_step now (dsc_call_of A (dx_message x) (dx_expansion x) now src r t) (dx_comm x)
      (dx_comm (commit_dsc_message_to_model A now src r t x))"
  using commit_history_new [OF assms] commit_history_repeat [OF assms] by (metis option.exhaust)

lemma call_content_simps [simp]:
  "call_content (repeated_call now orphan previous call) = call_content call"
  "call_content (call\<lparr>dc_orphan_ack := orphan\<rparr>) = call_content call"
  by (simp_all add: call_content_def repeated_call_def)

lemma history_step_content: "history_step now call comm comm' \<Longrightarrow> call_content (dk_latest_call comm') = call_content call"
  by (auto simp: history_step_def split: if_splits)

lemma commit_content:
  assumes "dsc_inv (dx_comm x)"
  shows "call_content (dk_latest_call (dx_comm (commit_dsc_message_to_model A now src r t x))) =
    call_content (dsc_call_of A (dx_message x) (dx_expansion x) now src r t)"
  using commit_history [OF assms] by (blast intro: history_step_content)

section \<open>Alerts and acknowledgements\<close>

text \<open>An alert after a call that may acknowledge it but must not raise it.\<close>

definition acknowledged_only :: "string \<Rightarrow> ('r, 'c) dsc_alert \<Rightarrow> ('r, 'c) dsc_alert \<Rightarrow> bool" where
  "acknowledged_only sender before after \<longleftrightarrow> after = before \<or>
     da_first_seen_us before \<noteq> 0 \<and> da_first_seen_us after = da_first_seen_us before \<and> da_sender_mmsi before = sender \<and> da_acknowledged after"

lemma alert_orphan:
  "dsc_end_signal_is_ack (dm_end_of_sequence dsc) \<Longrightarrow> \<not> dsc_alert_matches_current A dsc alert \<Longrightarrow>
   commit_dsc_alert A dsc what now src dup alert = (False, alert)"
  by (simp add: commit_dsc_alert_def)

lemma alert_match:
  "dsc_alert_matches_current A dsc alert \<Longrightarrow> fst (commit_dsc_alert A dsc what now src dup alert) \<and>
   da_first_seen_us (snd (commit_dsc_alert A dsc what now src dup alert)) = da_first_seen_us alert \<and>
   da_acknowledged (snd (commit_dsc_alert A dsc what now src dup alert)) = (da_acknowledged alert \<or> dsc_end_signal_is_ack (dm_end_of_sequence dsc))"
  by (simp add: commit_dsc_alert_def Let_def)

lemma alert_acknowledged:
  assumes "dsc_end_signal_is_ack (dm_end_of_sequence dsc)"
  shows "acknowledged_only (dm_sender_mmsi dsc) alert (snd (commit_dsc_alert A dsc what now src dup alert))"
    "fst (commit_dsc_alert A dsc what now src dup alert) \<longleftrightarrow> dsc_alert_matches_current A dsc alert"
  using alert_orphan [OF assms, of A alert what now src dup] alert_match [of A dsc alert what now src dup] assms
  by (cases "dsc_alert_matches_current A dsc alert"; simp add: acknowledged_only_def dsc_alert_matches_current_def)+

lemma promote_acknowledged:
  assumes "dsc_end_signal_is_ack (dm_end_of_sequence dsc)"
    and "promote_dsc_notifications A dsc now src dup (comm, notes) = (promoted, comm', notes')"
  shows "acknowledged_only (dm_sender_mmsi dsc) (dn_distress notes) (dn_distress notes')"
    "acknowledged_only (dm_sender_mmsi dsc) (dn_urgency notes) (dn_urgency notes')"
    "acknowledged_only (dm_sender_mmsi dsc) (dn_safety notes) (dn_safety notes')"
    "dk_distress_count comm' = dk_distress_count comm" "dk_urgency_count comm' = dk_urgency_count comm"
    "dk_safety_count comm' = dk_safety_count comm" "\<not> promoted \<Longrightarrow> comm' = comm \<and> notes' = notes"
proof -
  have same: "acknowledged_only s n n" for s and n :: "('b, 'c) dsc_alert" by (simp add: acknowledged_only_def)
  have ack: "commit_dsc_alert A dsc what now src dup alert = (b, alert') \<Longrightarrow> acknowledged_only (dm_sender_mmsi dsc) alert alert'"
    for what alert b alert' using alert_acknowledged(1) [OF assms(1), of alert A what now src dup] by simp
  show "acknowledged_only (dm_sender_mmsi dsc) (dn_distress notes) (dn_distress notes')"
    "acknowledged_only (dm_sender_mmsi dsc) (dn_urgency notes) (dn_urgency notes')"
    "acknowledged_only (dm_sender_mmsi dsc) (dn_safety notes) (dn_safety notes')"
    using assms(2) by (auto simp: promote_dsc_notifications_def Let_def same ack split: if_splits prod.splits bool.splits)
  show "dk_distress_count comm' = dk_distress_count comm" "dk_urgency_count comm' = dk_urgency_count comm"
    "dk_safety_count comm' = dk_safety_count comm" "\<not> promoted \<Longrightarrow> comm' = comm \<and> notes' = notes"
    using assms by (auto simp: promote_dsc_notifications_def Let_def bump_def split: if_splits prod.splits bool.splits)
qed

definition is_distress_call :: "'f dsc_message \<Rightarrow> bool" where
  "is_distress_call dsc \<longleftrightarrow> dsc_format_is_distress (if given (dm_format_specifier dsc) then fst (dm_format_specifier dsc) else 0) \<or>
     dsc_category_is_distress (if given (dm_category dsc) then fst (dm_category dsc) else 0)"

lemma alert_raised:
  assumes "\<not> dsc_end_signal_is_ack (dm_end_of_sequence dsc)"
  shows "fst (commit_dsc_alert A dsc what now src dup alert)"
    "da_active (snd (commit_dsc_alert A dsc what now src dup alert))"
    "da_sender_mmsi (snd (commit_dsc_alert A dsc what now src dup alert)) =
       nmea_copy_cstr 16 (dm_sender_mmsi dsc) (if dsc_alert_matches_current A dsc alert then da_sender_mmsi alert else [])"
    "da_acknowledged (snd (commit_dsc_alert A dsc what now src dup alert)) \<longleftrightarrow> dsc_alert_matches_current A dsc alert \<and> da_acknowledged alert"
    "da_last_update_us (snd (commit_dsc_alert A dsc what now src dup alert)) = now"
  using assms by (simp_all add: commit_dsc_alert_def Let_def dsc_alert_init_def)

lemma promote_distress:
  assumes "\<not> dsc_end_signal_is_ack (dm_end_of_sequence dsc)" "is_distress_call dsc"
  shows "promote_dsc_notifications A dsc now src dup (comm, notes) =
    (True, comm\<lparr>dk_distress_count := bump (\<not> dup) now (dk_distress_count comm)\<rparr>,
     notes\<lparr>dn_distress := snd (commit_dsc_alert A dsc ''DSC distress'' now src dup (dn_distress notes))\<rparr>)"
  using assms alert_raised(1) [OF assms(1), of A "''DSC distress''" now src dup "dn_distress notes"]
  by (auto simp: promote_dsc_notifications_def is_distress_call_def Let_def split: prod.splits bool.splits)

lemma commit_promotes:
  fixes x :: "('f, 'r :: zero, 'c :: zero) dsc_state"
  defines "dup \<equiv> \<lambda>(A :: ('f, 'r, 'c) dsc_arith) now src r t (x :: ('f, 'r, 'c) dsc_state).
    find_recent_dsc_duplicate (dx_comm x) (dsc_call_of A (dx_message x) (dx_expansion x) now src r t) now \<noteq> None"
  obtains promoted comm ntf where
    "promote_dsc_notifications A (dx_message x) now src (dup A now src r t x) (dx_comm x, dx_notifications x) = (promoted, comm, ntf)"
    "dx_notifications (commit_dsc_message_to_model A now src r t x) = ntf"
    "dk_distress_count (dx_comm (commit_dsc_message_to_model A now src r t x)) = dk_distress_count comm"
    "dk_urgency_count (dx_comm (commit_dsc_message_to_model A now src r t x)) = dk_urgency_count comm"
    "dk_safety_count (dx_comm (commit_dsc_message_to_model A now src r t x)) = dk_safety_count comm"
  by (cases "find_recent_dsc_duplicate (dx_comm x) (dsc_call_of A (dx_message x) (dx_expansion x) now src r t) now";
      cases "promote_dsc_notifications A (dx_message x) now src (dup A now src r t x) (dx_comm x, dx_notifications x)")
    (auto simp: dup_def commit_dsc_message_to_model_def push_recent_dsc_call_def Let_def intro: that)

section \<open>Waiting for an expansion\<close>

text \<open>The state while the call of message \<open>m\<close>, received at time \<open>t\<close> from \<open>src\<close>, waits.\<close>

definition waiting :: "'f dsc_message \<Rightarrow> u64 \<Rightarrow> sensor_source \<Rightarrow> ('r, 'c) dsc_comm \<Rightarrow> ('f, 'r, 'c) dsc_state \<Rightarrow> bool" where
  "waiting m t src comm x \<longleftrightarrow> dx_message x = m \<and> dx_pending_commit x \<and> dx_pending_started_us x = t \<and> dx_pending_source x = src \<and> dx_comm x = comm"

text \<open>A sentence that is no call, and no expansion for the sender of \<open>m\<close>.\<close>

definition leaves_waiting :: "'f dsc_message \<Rightarrow> nmea_sentence \<Rightarrow> bool" where
  "leaves_waiting m s \<longleftrightarrow> \<not> sentence_is s ''DSC'' \<and>
     (sentence_is s ''DSE'' \<longrightarrow> dm_sender_mmsi m \<noteq> [] \<and> text_field 16 s 3 \<noteq> [] \<and> text_field 16 s 3 \<noteq> dm_sender_mmsi m)"

definition in_time :: "u64 \<Rightarrow> u64 \<Rightarrow> bool" where
  "in_time t1 t2 \<longleftrightarrow> t1 \<le> t2 \<and> t2 - t1 \<le> DSC_DSE_TIMEOUT_US"

lemma waiting_expire: "waiting m t src comm x \<Longrightarrow> in_time t now \<Longrightarrow> expire_pending_dsc_if_needed A now x = x"
  by (auto simp: expire_pending_dsc_if_needed_def waiting_def in_time_def)

lemma sentence_effect:
  "snd (snd (dsc_apply_sentence A s now src mx)) =
     (if sentence_is s ''DSC'' then snd (apply_dsc A s now src (expire_pending_dsc_if_needed A now (snd mx)))
      else if sentence_is s ''DSE''
      then snd (apply_dse A s (ms_dsc (update_multipart_message_state s (uint now) src (fst mx))) now src (expire_pending_dsc_if_needed A now (snd mx)))
      else if sentence_is s ''DSI'' then snd (apply_dsi s now src (expire_pending_dsc_if_needed A now (snd mx)))
      else if sentence_is s ''DSR'' then snd (apply_dsr s now src (expire_pending_dsc_if_needed A now (snd mx)))
      else expire_pending_dsc_if_needed A now (snd mx))"
  by (simp only: dsc_apply_sentence_def Let_def snd_conv if_distrib [of snd])

lemma inquiries_keep:
  "waiting m t src comm (snd (apply_dsi s now src' x)) = waiting m t src comm x" "dx_comm (snd (apply_dsi s now src' x)) = dx_comm x"
  "waiting m t src comm (snd (apply_dsr s now src' x)) = waiting m t src comm x" "dx_comm (snd (apply_dsr s now src' x)) = dx_comm x"
  by (simp_all add: apply_dsi_def apply_dsr_def waiting_def)

lemma foreign_expansion:
  assumes "\<not> dse_matches_pending_dsc src' (x\<lparr>dx_expansion := dse_of s now src'\<rparr>)"
  shows "waiting m t src comm (snd (apply_dse A s multipart now src' x)) = waiting m t src comm x"
    "dx_comm (snd (apply_dse A s multipart now src' x)) = dx_comm x"
  using assms by (simp_all add: apply_dse_def Let_def waiting_def)

lemma waiting_kept:
  assumes "waiting m t src comm (snd mx)" "leaves_waiting m s" "in_time t now"
  shows "waiting m t src comm (snd (snd (dsc_apply_sentence A s now src' mx)))"
proof -
  have "sentence_is s ''DSE'' \<Longrightarrow> \<not> dse_matches_pending_dsc src' ((snd mx)\<lparr>dx_expansion := dse_of s now src'\<rparr>)"
    using assms(1,2) by (auto simp: leaves_waiting_def waiting_def dse_matches_pending_dsc_def dse_of_def)
  then show ?thesis
    using assms(1,2) by (simp add: sentence_effect waiting_expire [OF assms(1,3)] inquiries_keep foreign_expansion leaves_waiting_def)
qed

lemma waiting_run:
  "waiting m t src comm (snd mx) \<Longrightarrow> \<forall>(s, now, src') \<in> set ss. leaves_waiting m s \<and> in_time t now \<Longrightarrow>
   waiting m t src comm (snd (dsc_run A ss mx))"
proof (induction ss arbitrary: mx)
  case (Cons e ss)
  obtain s now src' where e: "e = (s, now, src')" by (cases e)
  have "waiting m t src comm (snd (snd (dsc_apply_sentence A s now src' mx)))"
    using Cons.prems by (intro waiting_kept) (auto simp: e)
  from Cons.IH [OF this] Cons.prems(2) show ?case by (simp add: dsc_run_def e)
qed (simp add: dsc_run_def)

lemma dsc_call_of_alone: "dsc_call_of A m e now src False t = dsc_call_of A m e' now src False t"
  by (simp only: dsc_call_of_def if_False)

lemma expire_inv: "dsc_inv (dx_comm x) \<Longrightarrow> dsc_inv (dx_comm (expire_pending_dsc_if_needed A now x))"
  by (auto simp: expire_pending_dsc_if_needed_def clear_pending_def intro: commit_history [THEN conjunct1])

lemma overdue_commits:
  assumes "waiting m t src comm x" "t \<noteq> 0" "t \<le> now" "DSC_DSE_TIMEOUT_US < now - t"
  shows "expire_pending_dsc_if_needed A now x = commit_dsc_message_to_model A now src False True (clear_pending x)"
  using assms by (auto simp: expire_pending_dsc_if_needed_def waiting_def)

lemma idle_sentence:
  assumes "\<not> sentence_is s ''DSC''" "\<not> dx_pending_commit (expire_pending_dsc_if_needed A now (snd mx))"
  shows "dx_comm (snd (snd (dsc_apply_sentence A s now src mx))) = dx_comm (expire_pending_dsc_if_needed A now (snd mx))"
  using assms by (simp add: sentence_effect inquiries_keep foreign_expansion(2) dse_matches_pending_dsc_def)

lemma expected_call_waits:
  assumes "sentence_is s ''DSC''" "10 \<le> length (ns_fields s)" "dsc_expansion_expected (dsc_message_of A s t src)"
  shows "waiting (dsc_message_of A s t src) t src (dx_comm (expire_pending_dsc_if_needed A t x))
    (snd (snd (dsc_apply_sentence A s t src (ms, x))))"
  using assms by (simp add: sentence_effect apply_dsc_def waiting_def Let_def)

lemma expansion_commits:
  assumes "waiting m t src comm x" "6 \<le> length (ns_fields s)" "\<not> fg_is_fragmented (ns_fragment s)"
    "text_field 16 s 3 = dm_sender_mmsi m" "src' = src"
  shows "snd (apply_dse A s multipart now src' x) =
    commit_dsc_message_to_model A now src' True False (clear_pending (x\<lparr>dx_expansion := dse_of s now src'\<rparr>))"
proof -
  have "dse_matches_pending_dsc src' (x\<lparr>dx_expansion := dse_of s now src'\<rparr>)"
    using assms by (auto simp: dse_matches_pending_dsc_def waiting_def dse_of_def)
  then show ?thesis using assms(2,3) by (simp add: apply_dse_def Let_def)
qed

section \<open>Properties\<close>

text \<open>A distress call, its expansion and an acknowledgement for the concrete runs.\<close>

definition sample_dsc :: nmea_sentence where
  "sample_dsc = sentence_clear\<lparr>ns_sentence := ''DSC'',
     ns_fields := [''112'', ''338158137'', ''112'', ''107'', ''109'', ''1423108312'', ''2019'', [], [], ''S'', ''E'']\<rparr>"

definition sample_dse :: nmea_sentence where
  "sample_dse = sentence_clear\<lparr>ns_sentence := ''DSE'', ns_fields := [''1'', ''1'', ''A'', ''338158137'', ''00'', ''45894494'']\<rparr>"

definition sample_distress :: "char \<Rightarrow> rat dsc_message" where
  "sample_distress eos = dsc_message_init\<lparr>dm_format_specifier := (112, 5), dm_sender_mmsi := ''338158137'', dm_end_of_sequence := eos\<rparr>"

lemma sample_facts [simp]:
  "sentence_is sample_dsc ''DSC''" "length (ns_fields sample_dsc) = 11"
  "sentence_is sample_dse ''DSE''" "\<not> sentence_is sample_dse ''DSC''" "length (ns_fields sample_dse) = 6"
  "\<not> fg_is_fragmented (ns_fragment sample_dse)"
  by (simp_all add: sample_dsc_def sample_dse_def sentence_clear_def sentence_is_def nmea_span_equals_def fragment_init_def)

lemma sample_message [simp]:
  "dsc_expansion_expected (dsc_message_of A sample_dsc t src)"
  "dm_sender_mmsi (dsc_message_of A sample_dsc t src) = ''338158137''" "text_field 16 sample_dse 3 = ''338158137''"
  by (simp_all add: dsc_expansion_expected_def dsc_message_of_def Let_def sample_dsc_def sample_dse_def sentence_clear_def text_field_def
      ns_field_def span_at_def cstr_def nmea_copy_span_def)

lemma sample_start [simp]: "dsc_inv (dx_comm dsc_state_init)" "\<not> dx_pending_commit dsc_state_init"
  by (simp_all add: dsc_state_init_def dsc_inv_init)

text \<open>
  C24: A committed call is compared with the calls of the history. When one of them is a recent duplicate, that entry is replaced by
  the new call with one repetition more and the time of first reception kept; otherwise the call is
  appended, and the oldest one of a full history is dropped. The ring that stores the history keeps its invariant.
\<close>

theorem dsc_commit_history:
  assumes "dsc_inv (dx_comm x)"
  shows "dsc_inv (dx_comm (commit_dsc_message_to_model A now src received timeout x)) \<and>
    history_step now (dsc_call_of A (dx_message x) (dx_expansion x) now src received timeout) (dx_comm x)
      (dx_comm (commit_dsc_message_to_model A now src received timeout x))"
  by (rule commit_history [OF assms])

theorem dsc_commit_history_witness:
  "dsc_inv (dx_comm (dsc_state_init :: (rat, rat, rat) dsc_state)) \<and>
   (let x = (dsc_state_init :: (rat, rat, rat) dsc_state)\<lparr>dx_message := sample_distress (CHR ''S'')\<rparr>; y = commit_dsc_message_to_model exact_dsc 5 SrcNone False False x
    in dsc_inv (dx_comm y) \<and>
       history_step 5 (dsc_call_of exact_dsc (dx_message x) (dx_expansion x) 5 SrcNone False False) (dx_comm x) (dx_comm y))"
  using dsc_commit_history [of "(dsc_state_init :: (rat, rat, rat) dsc_state)\<lparr>dx_message := sample_distress (CHR ''S'')\<rparr>" exact_dsc 5 SrcNone False False]
  by (simp add: Let_def)

text \<open>
  C25: A call with an acknowledging end signal never raises an alert: each alert is unchanged, or it is the alert of that
  sender, seen before and now acknowledged, and no alert is counted. A distress call with another end signal always
  leaves an active distress alert of its sender and leaves the other alerts as they are.
\<close>

theorem dsc_alerts:
  "let y = commit_dsc_message_to_model A now src received timeout x in
   if dsc_end_signal_is_ack (dm_end_of_sequence (dx_message x))
   then list_all (\<lambda>kind. acknowledged_only (dm_sender_mmsi (dx_message x)) (kind (dx_notifications x)) (kind (dx_notifications y)))
          [dn_distress, dn_urgency, dn_safety] \<and>
        list_all (\<lambda>count. count (dx_comm y) = count (dx_comm x)) [dk_distress_count, dk_urgency_count, dk_safety_count]
   else is_distress_call (dx_message x) \<longrightarrow>
        da_active (dn_distress (dx_notifications y)) \<and> da_last_update_us (dn_distress (dx_notifications y)) = now \<and>
        da_sender_mmsi (dn_distress (dx_notifications y)) = take 15 (dm_sender_mmsi (dx_message x)) \<and>
        dn_urgency (dx_notifications y) = dn_urgency (dx_notifications x) \<and> dn_safety (dx_notifications y) = dn_safety (dx_notifications x)"
proof (cases "dsc_end_signal_is_ack (dm_end_of_sequence (dx_message x))")
  case True
  show ?thesis
    by (rule commit_promotes [of A x now src received timeout]) (simp add: True promote_acknowledged(1-6) [OF True])
next
  case False
  obtain dup promoted comm ntf where
    p: "promote_dsc_notifications A (dx_message x) now src dup (dx_comm x, dx_notifications x) = (promoted, comm, ntf)"
    and n: "dx_notifications (commit_dsc_message_to_model A now src received timeout x) = ntf"
    by (rule commit_promotes)
  have "is_distress_call (dx_message x) \<Longrightarrow>
    ntf = (dx_notifications x)\<lparr>dn_distress := snd (commit_dsc_alert A (dx_message x) ''DSC distress'' now src dup (dn_distress (dx_notifications x)))\<rparr>"
    using p by (auto simp: promote_distress [OF False])
  then show ?thesis using False by (simp add: n alert_raised [OF False] nmea_copy_cstr_def)
qed

theorem dsc_alerts_witness:
  "let x = (dsc_state_init :: (rat, rat, rat) dsc_state)\<lparr>dx_message := sample_distress (CHR ''S'')\<rparr>;
       y = commit_dsc_message_to_model exact_dsc 5 SrcNone False False x
   in is_distress_call (dx_message x) \<and> da_active (dn_distress (dx_notifications y)) \<and>
      da_sender_mmsi (dn_distress (dx_notifications y)) = ''338158137''"
  using dsc_alerts [where x = "(dsc_state_init :: (rat, rat, rat) dsc_state)\<lparr>dx_message := sample_distress (CHR ''S'')\<rparr>"
      and A = exact_dsc and now = 5 and src = SrcNone and received = False and timeout = False]
  by (simp add: Let_def sample_distress_def is_distress_call_def given_def dsc_format_is_distress_def dsc_end_signal_is_ack_def)

text \<open>
  C23: A call that announces an expansion waits for half a second while sentences other than calls arrive, among them
  expansions that name another sender. It is committed with the payload of the expansion when an unfragmented one of its sender
  and source arrives in that time, and otherwise by the first sentence after that time, marked as timed out; that
  sentence may be any but a call. No other call may arrive in between: it would take the place of the waiting one, as the last theorem of this theory shows.
\<close>

theorem dsc_waiting_call_committed:
  fixes x :: "('f :: zero, 'r :: zero, 'c :: zero) dsc_state"
  assumes "dsc_inv (dx_comm x)" "t1 \<noteq> 0"
    and "sentence_is s1 ''DSC''" "10 \<le> length (ns_fields s1)" "dsc_expansion_expected (dsc_message_of A s1 t1 src)"
    and "list_all (\<lambda>(s, t, src'). leaves_waiting (dsc_message_of A s1 t1 src) s \<and> in_time t1 t) others"
    and "\<not> sentence_is s2 ''DSC''" "t1 \<le> t2"
    and "t2 - t1 \<le> DSC_DSE_TIMEOUT_US \<Longrightarrow> sentence_is s2 ''DSE'' \<and> 6 \<le> length (ns_fields s2) \<and> \<not> fg_is_fragmented (ns_fragment s2) \<and>
           text_field 16 s2 3 = dm_sender_mmsi (dsc_message_of A s1 t1 src) \<and> src2 = src"
  shows "call_content (dk_latest_call (dx_comm (snd (dsc_run A ((s1, t1, src) # others @ [(s2, t2, src2)]) (ms, x))))) =
    call_content (if t2 - t1 \<le> DSC_DSE_TIMEOUT_US then dsc_call_of A (dsc_message_of A s1 t1 src) (dse_of s2 t2 src) t2 src True False
      else dsc_call_of A (dsc_message_of A s1 t1 src) dsc_expansion_init t2 src False True)"
proof -
  let ?m = "dsc_message_of A s1 t1 src" and ?mx1 = "snd (dsc_apply_sentence A s1 t1 src (ms, x))"
  let ?comm = "dx_comm (expire_pending_dsc_if_needed A t1 x)"
  have w: "waiting ?m t1 src ?comm (snd (dsc_run A others ?mx1))"
    using assms(6) by (intro waiting_run expected_call_waits assms(3-5)) (auto simp: list_all_iff)
  obtain ms2 y where y: "dsc_run A others ?mx1 = (ms2, y)" by (cases "dsc_run A others ?mx1")
  with w have wy: "waiting ?m t1 src ?comm y" by simp
  then have inv: "dsc_inv (dx_comm (clear_pending y))" "dx_message (clear_pending y) = ?m"
    "\<not> dx_pending_commit (clear_pending y)"
    using expire_inv [OF assms(1)] by (simp_all add: waiting_def clear_pending_def)
  have run: "dsc_run A ((s1, t1, src) # others @ [(s2, t2, src2)]) (ms, x) = snd (dsc_apply_sentence A s2 t2 src2 (ms2, y))"
    using y by (simp add: dsc_run_def)
  show ?thesis
  proof (cases "t2 - t1 \<le> DSC_DSE_TIMEOUT_US")
    case True
    have "expire_pending_dsc_if_needed A t2 y = y" using True assms(8) by (intro waiting_expire [OF wy]) (simp add: in_time_def)
    moreover have inv': "dsc_inv (dx_comm (clear_pending (y\<lparr>dx_expansion := dse_of s2 t2 src\<rparr>)))" using inv(1) by (simp add: clear_pending_def)
    moreover have "dx_message (clear_pending (y\<lparr>dx_expansion := dse_of s2 t2 src\<rparr>)) = ?m"
      "dx_expansion (clear_pending (y\<lparr>dx_expansion := dse_of s2 t2 src\<rparr>)) = dse_of s2 t2 src" using wy by (simp_all add: clear_pending_def waiting_def)
    ultimately show ?thesis
      using assms(7,9) True run by (simp add: sentence_effect expansion_commits [OF wy] commit_content [OF inv'])
  next
    case False
    then have e: "expire_pending_dsc_if_needed A t2 y = commit_dsc_message_to_model A t2 src False True (clear_pending y)"
      using assms(2,8) by (intro overdue_commits [OF wy]) simp_all
    have "\<not> dx_pending_commit (expire_pending_dsc_if_needed A t2 (snd (ms2, y)))" using inv(3) by (simp add: e commit_frame)
    from idle_sentence [OF assms(7) this, of src2] show ?thesis
      using False inv(2) by (simp add: run e commit_content [OF inv(1)] dsc_call_of_alone [of A ?m "dx_expansion (clear_pending y)" t2 src True dsc_expansion_init])
  qed
qed

theorem dsc_waiting_call_committed_witness:
  "call_content (dk_latest_call (dx_comm (snd (dsc_run exact_dsc [(sample_dsc, 5, SrcNone), (sample_dse, 300000, SrcNone)] (message_state_init, dsc_state_init))))) =
     call_content (dsc_call_of exact_dsc (dsc_message_of exact_dsc sample_dsc 5 SrcNone) (dse_of sample_dse 300000 SrcNone) 300000 SrcNone True False) \<and>
   call_content (dk_latest_call (dx_comm (snd (dsc_run exact_dsc [(sample_dsc, 5, SrcNone), (sample_dse, 600000, SrcNone)] (message_state_init, dsc_state_init))))) =
     call_content (dsc_call_of exact_dsc (dsc_message_of exact_dsc sample_dsc 5 SrcNone) dsc_expansion_init 600000 SrcNone False True)"
  using dsc_waiting_call_committed [where x = dsc_state_init and ?t1.0 = 5 and ?s1.0 = sample_dsc and A = exact_dsc and src = SrcNone
      and others = "[]" and ?s2.0 = sample_dse and ?t2.0 = 300000 and ?src2.0 = SrcNone and ms = message_state_init]
    dsc_waiting_call_committed [where x = dsc_state_init and ?t1.0 = 5 and ?s1.0 = sample_dsc and A = exact_dsc and src = SrcNone
      and others = "[]" and ?s2.0 = sample_dse and ?t2.0 = 600000 and ?src2.0 = SrcNone and ms = message_state_init]
  by simp

text \<open>
  C36: A call that announces an expansion is lost when the next call arrives within half a second: the state of the receiver and of
  the model is the one without the first call. This holds for distress calls too.
\<close>

theorem dsc_pending_call_lost:
  assumes "sentence_is s1 ''DSC''" "10 \<le> length (ns_fields s1)" "dsc_expansion_expected (dsc_message_of A s1 t1 src1)"
    and "sentence_is s2 ''DSC''" "10 \<le> length (ns_fields s2)"
    and "\<not> dx_pending_commit x" "t1 \<le> t2" "t2 - t1 \<le> DSC_DSE_TIMEOUT_US"
  shows "snd (snd (dsc_apply_sentence A s2 t2 src2 (snd (dsc_apply_sentence A s1 t1 src1 (ms, x))))) =
    snd (snd (dsc_apply_sentence A s2 t2 src2 (ms, x)))"
proof -
  have idle: "expire_pending_dsc_if_needed A t x = x" for t using assms(6) by (simp add: expire_pending_dsc_if_needed_def)
  obtain ms1 y where r: "snd (dsc_apply_sentence A s1 t1 src1 (ms, x)) = (ms1, y)" by (metis surj_pair)
  then have "y = snd (snd (dsc_apply_sentence A s1 t1 src1 (ms, x)))" by simp
  then have y: "y = x\<lparr>dx_message := dsc_message_of A s1 t1 src1, dx_pending_commit := True, dx_pending_started_us := t1, dx_pending_source := src1\<rparr>"
    using assms(1-3) by (simp add: sentence_effect idle apply_dsc_def Let_def)
  have "expire_pending_dsc_if_needed A t2 y = y"
    using assms(7,8) by (auto simp: y expire_pending_dsc_if_needed_def)
  with assms(4,5) show ?thesis by (simp add: r sentence_effect idle apply_dsc_def Let_def) (simp add: y clear_pending_def)
qed

theorem dsc_pending_call_lost_witness:
  "snd (snd (dsc_apply_sentence exact_dsc sample_dsc 300000 SrcNone
      (snd (dsc_apply_sentence exact_dsc sample_dsc 5 SrcNone (message_state_init, dsc_state_init))))) =
   snd (snd (dsc_apply_sentence exact_dsc sample_dsc 300000 SrcNone (message_state_init, dsc_state_init)))"
  by (rule dsc_pending_call_lost) simp_all

end
