(* ===== verification/Spec2Isabelle.thy ===== *)
theory Spec2Isabelle
  imports Streams Model_Store Protocol_Reader Websocket Tcp Websocket_Server Websocket_Stream Nmea_Values Nmea_Multipart Event_Loop Seatalk Stream_Server
    Ubx Ais_Own Dsc
begin

text \<open>
  A verification development for signalk-mini, a Signal K server for boats that runs on Linux and on
  microcontrollers. The program reads NMEA 0183, SeaTalk, UBX and gpsd streams, stores what they say in
  a typed data model, and publishes the model as Signal K deltas over TCP and WebSocket and as REST documents.

  \<^bold>\<open>Parts and how they interact.\<close> An event loop (\<^verbatim>\<open>modules/async-event-loop\<close>) calls tasks and hands the octets
  of devices and connections to readers and protocol handlers. Sentence, frame and datagram parsers
  (\<^verbatim>\<open>modules/nmea0183\<close>, \<^verbatim>\<open>modules/seatalk\<close>, \<^verbatim>\<open>modules/ubx\<close>) decode them into the data model (\<^verbatim>\<open>modules/data-model\<close>)
  and mark the changed fields in the model store (\<^verbatim>\<open>src/signalk_mini/model_store.hpp\<close>). The publisher takes
  the changes from the store, writes deltas into a fixed buffer and offers them to the stream server, which
  fans them out to its clients; a client that missed a delta gets a snapshot. The HTTP API answers REST requests
  on the same connections.

  \<^bold>\<open>Theories.\<close> Each theory names its source files in its first block; every definition keeps the name of
  the function or type it translates, with a short prefix for the members of a record.
  \<^item> \<open>Prelude\<close>: machine integers as words, the collections of facts \<open>sk_inv\<close> and \<open>sk_run\<close>, lists read through a ring
    (\<open>window\<close>), the first index of an element (\<open>index_where\<close>), and runs of step functions over octets (\<open>feed\<close>).
  \<^item> \<open>Streams\<close> (\<^verbatim>\<open>memory_stream.hpp\<close>, \<^verbatim>\<open>memory_pin_event_source.hpp\<close>, \<^verbatim>\<open>fixed_vector.hpp\<close>): rings and the fixed vector are queues
    and lists; the interfaces of octet sources and sinks as locales.
  \<^item> \<open>Model_Store\<close> (\<^verbatim>\<open>model_store.hpp\<close>, \<^verbatim>\<open>source_value_recorder.hpp\<close>): the change queue refines a duplicate-free list and keeps
    the latest change of a key; the source table; what a history of marks leaves behind.
  \<^item> \<open>Protocol_Reader\<close> (\<^verbatim>\<open>protocol_reader.hpp\<close>): lines, JSON texts, fixed frames and frames with a header, from any cut of the stream.
  \<^item> \<open>Tcp\<close> (\<^verbatim>\<open>tcp.hpp\<close>, \<^verbatim>\<open>tcp_line_protocol.hpp\<close>, \<^verbatim>\<open>connection_registry.hpp\<close>): backpressure, the registry as a bounded set, line servers and clients.
  \<^item> \<open>Websocket\<close>, \<open>Websocket_Server\<close>, \<open>Websocket_Stream\<close> (\<^verbatim>\<open>websocket.hpp\<close>, \<^verbatim>\<open>websocket_server.hpp\<close>): SHA-1, base64, handshake and frames
    (\<open>Sha1_Standard\<close> is the standard that the digest is compared with);
    the server handler with its slots, its invariant over all events, and the delivery of whole streams of messages.
  \<^item> \<open>Event_Loop\<close> (\<^verbatim>\<open>micros32_extender.hpp\<close>, \<^verbatim>\<open>scheduler.hpp\<close>, \<^verbatim>\<open>arduino_loop.hpp\<close>, \<^verbatim>\<open>libevent_loop.hpp\<close>, \<^verbatim>\<open>event_loop.hpp\<close>): the clock, timers on their grid,
    two schedulers behind one locale, and handles with generations.
  \<^item> \<open>Nmea_Codes\<close>, \<open>Nmea_Parser\<close>, \<open>Nmea_Values\<close>, \<open>Nmea_Multipart\<close> (\<^verbatim>\<open>nmea_enums.hpp\<close>, \<^verbatim>\<open>proprietary_vendor.hpp\<close>, \<^verbatim>\<open>nmea0183_helpers.hpp\<close>,
    \<^verbatim>\<open>sentence_parser.hpp\<close>, \<^verbatim>\<open>nmea_tokenizer.hpp\<close>, \<^verbatim>\<open>nmea_rx_multipart.hpp\<close>): code tables, the push parser and the tokenizer, integers and times,
    and the reassembly of multipart sentences.
  \<^item> \<open>Seatalk\<close> (\<^verbatim>\<open>seatalk_frame.hpp\<close>, \<^verbatim>\<open>seatalk_rx.hpp\<close>, \<^verbatim>\<open>seatalk_tx.hpp\<close>, \<^verbatim>\<open>nmea_seatalk.hpp\<close>): datagrams, alone and inside NMEA sentences.
  \<^item> \<open>Data_Model\<close>, \<open>Rounding\<close>, \<open>Ubx\<close> (\<^verbatim>\<open>core_data_types.hpp\<close>, \<^verbatim>\<open>gnss_data.hpp\<close>, \<^verbatim>\<open>ubx_receiver.hpp\<close>, \<^verbatim>\<open>ubx_input.hpp\<close>): stamped values, and the UBX receiver with
    every message it decodes; \<open>Rounding\<close> is the contract of floating point arithmetic, with the rounding of binary32.
  \<^item> \<open>Ais_Data\<close>, \<open>Ais_Bits\<close>, \<open>Ais_Targets\<close>, \<open>Ais_Messages\<close>, \<open>Ais_Control\<close>, \<open>Ais_Own\<close> (\<^verbatim>\<open>ais_data.hpp\<close>, \<^verbatim>\<open>nmea_ais_core.hpp\<close>, \<^verbatim>\<open>nmea_ais.hpp\<close>,
    \<^verbatim>\<open>nmea_ais_own_vessel.hpp\<close>): the bit fields of a payload, the target table, the parser of every message type, and the own vessel.
  \<^item> \<open>Dsc\<close> (\<^verbatim>\<open>nmea_dsc.hpp\<close>, \<^verbatim>\<open>nmea_dsc_message_state.hpp\<close>): digital selective calls with their expansions, the history of calls and the alerts.
  \<^item> \<open>Json_Writer\<close>, \<open>Publisher\<close>, \<open>Publisher_Sinks\<close> (\<^verbatim>\<open>signalk_json_stream_writer.hpp\<close>, \<^verbatim>\<open>publisher.hpp\<close>): deltas in a fixed buffer, pending changes, and
    snapshots that are refused and resumed.
  \<^item> \<open>Wifi_Tcp\<close>, \<open>Http_Text\<close>, \<open>Rest_Stream\<close>, \<open>Http_Api\<close> (\<^verbatim>\<open>arduino_wifi_tcp.hpp\<close>, \<^verbatim>\<open>signalk_http.hpp\<close>, \<^verbatim>\<open>signalk_rest_stream.hpp\<close>): connections with a
    transmit ring, request texts, and REST responses that are written in passes.
  \<^item> \<open>Stream_Server\<close> (\<^verbatim>\<open>signalk_stream_server.hpp\<close>, \<^verbatim>\<open>signalk_stream_command.hpp\<close>): clients, subscriptions, fan-out and catch-up; here the
    publisher, the frames and the connections meet.

  \<^bold>\<open>Interfaces.\<close> Where one component relies on another the contract is a locale, interpreted on the model's own
  definitions: sources and sinks of octets, framers, schedulers, the sink of the publisher, and connections that carry text.

  \<^bold>\<open>How the code is represented.\<close> Unsigned integers whose wrap-around matters are words; sizes and indices are
  natural numbers; a signed counter that the code cannot bring near its limits is an integer. A fixed buffer is its live
  contents with the capacity as a bound, a nullable pointer an option, a template parameter an argument. A callback is an
  emitted event or a function argument. Refusals, early returns and error texts are values of a datatype. Floating point
  arithmetic and its conversions are the fields of a parameter (\<open>arith\<close>, \<open>dsc_arith\<close>); no law is assumed of them except where a
  theorem says so (\<open>rounding_arith\<close>), and concrete runs use exact rationals (\<open>exact\<close>). Signed integers whose width is that of the
  platform (\<^verbatim>\<open>long\<close>) have it as an argument; compile-time limits that differ between platforms are those of a host (\<open>NMEA_MAX_FIELDS\<close> is 32; the
  Arduino core has 24). Code outside the sources (libevent, the WiFi classes) is a
  parameter with named hypotheses.

  \<^bold>\<open>Bounds and fuel.\<close> Recursions end by their structure or by a measure. Three loops that may not end are
  partial functions into options: the catch-up of a periodic timer, which is shown to return while the
  clock stays clear of its limit; the poll loop over a stream, which ends for every source of finite input; and the line reader of a WiFi
  connection. The only fuel in the program's model is in \<open>normalize_degrees\<close>: sixty rounds, after which the unbounded loops of the code
  are shown to have ended with the same result, for every angle a message can carry and every arithmetic that rounds no worse than \<^verbatim>\<open>float\<close>.

  \<^bold>\<open>What the code does that its users may not expect.\<close> Some theorems describe behaviour worth knowing: a partial line
  of a closed connection is continued by the next one (\<open>Tcp\<close>); a WebSocket text longer than 512 octets is refused
  although deltas may be longer (\<open>Websocket_Server\<close>); a vessel without a speed is shown with the speed of another
  (\<open>Ais_Messages\<close>); a class A position report erases the static data of the own vessel (\<open>Ais_Own\<close>); and a call
  that waits for its expansion is lost when the next call arrives (\<open>Dsc\<close>).

  \<^bold>\<open>Not modelled.\<close> The appliers of the remaining NMEA sentences (\<^verbatim>\<open>nmea_A_E.hpp\<close>, \<^verbatim>\<open>nmea_F_R.hpp\<close>, \<^verbatim>\<open>nmea_S_T.hpp\<close>, \<^verbatim>\<open>nmea_V_Z.hpp\<close>,
  \<^verbatim>\<open>nmea_gnss.hpp\<close>, \<^verbatim>\<open>nmea_xdr.hpp\<close>, \<^verbatim>\<open>nmea_inmarsat.hpp\<close>) and the SeaTalk decoder, whose branches are conversions of text and raw
  values to floating point; the writers of Signal K values and documents, which print floating point; the gpsd client,
  which reads through ArduinoJson; the wrappers of system calls and of the Arduino core; the configuration and the entry points.
\<close>

end
